(* ===== verification/Prelude.thy ===== *)
theory Prelude
  imports Main "HOL-Library.Word" "HOL-Library.AList"
begin

text \<open>
  Shared vocabulary of the development: Go's machine integers as words, Go's byte strings as
  character lists, Go's maps as association lists with distinct keys, decimal rendering as
  \<^verbatim>\<open>encoding/json\<close> does it for unsigned integers, UTF-8 validity as \<^verbatim>\<open>unicode/utf8\<close>
  defines it, and the generic lemmas about them that more than one component uses.
\<close>

unbundle bit_operations_syntax

named_theorems go_map_simps \<open>lookup and key laws of the association lists that model Go maps\<close>
named_theorems word_bounds \<open>facts that turn guarded word arithmetic into arithmetic on \<open>nat\<close>\<close>

type_synonym u8 = "8 word"
type_synonym u16 = "16 word"
type_synonym u32 = "32 word"
type_synonym u64 = "64 word"

abbreviation MaxUint64 :: u64 where "MaxUint64 \<equiv> - 1"

text \<open>
  A Go function that returns only an \<open>error\<close> is modelled by an \<open>option\<close>: \<open>None\<close> is
  \<open>nil\<close>, \<open>Some e\<close> the error. A function that returns a value and an error is modelled by
  a sum, \<open>Inl e\<close> the error.
\<close>

type_synonym 'e outcome = "'e option"

section \<open>Words\<close>

lemma unat_MaxUint64 [word_bounds]: "unat MaxUint64 = 2 ^ 64 - 1"
  by (simp add: unsigned_minus_1_eq_mask mask_eq_exp_minus_1)

lemma u64_le_Max [simp]: "(x :: u64) \<le> MaxUint64"
  by simp

lemma unat_u64_bound: "unat (x :: u64) < 2 ^ 64"
  using unsigned_less [of x, where 'a = nat] by simp

lemma unat_u32_bound: "unat (x :: u32) < 4294967296"
  using unsigned_less [of x, where 'a = nat] by simp

lemma unat_u16_bound: "unat (x :: u16) < 65536"
  using unsigned_less [of x, where 'a = nat] by simp

lemma u64_sub_guard [word_bounds]:
  fixes a b :: u64
  assumes "a \<le> MaxUint64 - b"
  shows "unat (a + b) = unat a + unat b"
proof -
  have "unat (MaxUint64 - b) = unat MaxUint64 - unat b"
    by (rule unat_sub) simp
  with assms have "unat a \<le> 2 ^ 64 - 1 - unat b"
    by (simp add: word_le_nat_alt unat_MaxUint64)
  then have "unat a + unat b < 2 ^ LENGTH(64)"
    using unat_u64_bound [of b] by simp
  then show ?thesis by (simp add: unat_word_ariths)
qed

lemma unat_Suc_below_max [word_bounds]:
  fixes a :: u64
  assumes "a \<noteq> MaxUint64"
  shows "unat (a + 1) = Suc (unat a)"
proof -
  have "unat a \<noteq> unat MaxUint64" using assms by (simp add: word_unat_eq_iff)
  then have "Suc (unat a) < 2 ^ LENGTH(64)"
    using unat_u64_bound [of a] unat_MaxUint64 by simp
  then show ?thesis by (simp add: unat_word_ariths)
qed

lemma unat_pred_pos [word_bounds]:
  fixes a :: "'a::len word"
  assumes "a \<noteq> 0"
  shows "unat (a - 1) = unat a - 1"
  using assms by (simp add: unat_minus_one)

lemma unat_of_nat_u64 [word_bounds]: "n < 2 ^ 64 \<Longrightarrow> unat (of_nat n :: u64) = n"
  by (simp add: unat_of_nat take_bit_nat_eq_self)

lemma unat_of_nat_u32 [word_bounds]: "n < 4294967296 \<Longrightarrow> unat (of_nat n :: u32) = n"
  by (simp add: unat_of_nat take_bit_nat_eq_self)

lemma unat_of_nat_u16 [word_bounds]: "n < 65536 \<Longrightarrow> unat (of_nat n :: u16) = n"
  by (simp add: unat_of_nat take_bit_nat_eq_self)

lemma unat_ucast_u16_u32 [simp]: "unat (ucast (x :: u16) :: u32) = unat x"
  by (simp add: unsigned_ucast_eq take_bit_nat_eq_self_iff order_less_trans [OF unat_u16_bound])

lemma unat_add_u32:
  fixes a b :: u32
  assumes "unat a + unat b < 4294967296"
  shows "unat (a + b) = unat a + unat b"
  using assms by (simp add: unat_word_ariths)

lemma unat_add_u16:
  fixes a b :: u16
  assumes "unat a + unat b < 65536"
  shows "unat (a + b) = unat a + unat b"
  using assms by (simp add: unat_word_ariths)

section \<open>Go maps\<close>

text \<open>
  A Go map is an association list without duplicate keys. \<open>AList.update\<close> and
  \<open>AList.delete\<close> keep it so; \<open>len\<close> is the length of the list.
\<close>

type_synonym ('k, 'v) gomap = "('k \<times> 'v) list"

definition gm_get :: "('k, 'v) gomap \<Rightarrow> 'k \<Rightarrow> 'v option" where
  "gm_get m k = map_of m k"

definition gm_put :: "'k \<Rightarrow> 'v \<Rightarrow> ('k, 'v) gomap \<Rightarrow> ('k, 'v) gomap" where
  "gm_put k v m = AList.update k v m"

definition gm_del :: "'k \<Rightarrow> ('k, 'v) gomap \<Rightarrow> ('k, 'v) gomap" where
  "gm_del k m = AList.delete k m"

definition gm_wf :: "('k, 'v) gomap \<Rightarrow> bool" where
  "gm_wf m \<longleftrightarrow> distinct (map fst m)"

text \<open>
  The contract of a key-value store that the components rely on, with the lemmas they use:
  any two stores that satisfy it agree on lookups after the same updates.
\<close>

locale key_store =
  fixes empty :: "'m"
    and put :: "'k \<Rightarrow> 'v \<Rightarrow> 'm \<Rightarrow> 'm"
    and del :: "'k \<Rightarrow> 'm \<Rightarrow> 'm"
    and get :: "'m \<Rightarrow> 'k \<Rightarrow> 'v option"
    and size :: "'m \<Rightarrow> nat"
    and wf :: "'m \<Rightarrow> bool"
  assumes get_empty: "get empty k = None"
    and get_put: "get (put k v m) k' = (if k' = k then Some v else get m k')"
    and get_del: "wf m \<Longrightarrow> get (del k m) k' = (if k' = k then None else get m k')"
    and wf_empty: "wf empty"
    and wf_put: "wf m \<Longrightarrow> wf (put k v m)"
    and wf_del: "wf m \<Longrightarrow> wf (del k m)"
    and size_empty: "size empty = 0"
    and size_put: "wf m \<Longrightarrow> size (put k v m) = (if get m k = None then Suc (size m) else size m)"
    and size_del: "wf m \<Longrightarrow> size (del k m) = (if get m k = None then size m else size m - 1)"
    and size_pos: "get m k \<noteq> None \<Longrightarrow> 0 < size m"
begin

lemma get_put_same [simp]: "get (put k v m) k = Some v"
  by (simp add: get_put)

lemma get_put_other [simp]: "k' \<noteq> k \<Longrightarrow> get (put k v m) k' = get m k'"
  by (simp add: get_put)

lemma del_put_fresh:
  assumes "wf m" and "get m k = None"
  shows "get (del k (put k v m)) k' = get m k'"
  using assms by (simp add: get_del get_put wf_put)

lemma size_put_fresh: "wf m \<Longrightarrow> get m k = None \<Longrightarrow> size (put k v m) = Suc (size m)"
  by (simp add: size_put)

lemma size_del_present:
  assumes "wf m" and "get m k = Some v"
  shows "Suc (size (del k m)) = size m"
  using assms size_pos [of m k] by (simp add: size_del)

lemma size_del_put_fresh:
  assumes "wf m" and "get m k = None"
  shows "size (del k (put k v m)) = size m"
  using assms by (simp add: size_del wf_put size_put)

end

lemma gm_size_update:
  "distinct (map fst m) \<Longrightarrow>
    length (AList.update k v m) = (if map_of m k = None then Suc (length m) else length m)"
proof (induction m)
  case Nil
  then show ?case by simp
next
  case (Cons a m)
  then show ?case by (cases a) auto
qed

lemma gm_size_delete:
  "distinct (map fst m) \<Longrightarrow>
    length (AList.delete k m) = (if map_of m k = None then length m else length m - 1)"
proof (induction m)
  case Nil
  then show ?case by simp
next
  case (Cons a m)
  show ?case
  proof (cases "fst a = k")
    case True
    with Cons.prems have "map_of m k = None"
      by (auto simp: map_of_eq_None_iff)
    with True Cons show ?thesis by (cases a) (simp add: AList.delete_eq)
  next
    case False
    moreover have "0 < length m" if "map_of m k \<noteq> None"
      using that by (cases m) auto
    ultimately show ?thesis using Cons by (cases a) (auto simp: AList.delete_eq)
  qed
qed

interpretation gm: key_store "[]" gm_put gm_del gm_get length gm_wf
proof unfold_locales
  fix m :: "('k \<times> 'v) list" and k k' :: 'k and v :: 'v
  show "gm_get ([] :: ('k \<times> 'v) list) k = None" by (simp add: gm_get_def)
  show "gm_get (gm_put k v m) k' = (if k' = k then Some v else gm_get m k')"
    by (simp add: gm_get_def gm_put_def AList.update_conv')
  show "gm_wf ([] :: ('k \<times> 'v) list)" by (simp add: gm_wf_def)
  show "length ([] :: ('k \<times> 'v) list) = 0" by simp
  show "gm_get (gm_del k m) k' = (if k' = k then None else gm_get m k')"
    by (simp add: gm_get_def gm_del_def AList.delete_conv')
  show "0 < length m" if "gm_get m k \<noteq> None"
    using that by (cases m) (auto simp: gm_get_def)
  assume "gm_wf m"
  then have d: "distinct (map fst m)" by (simp add: gm_wf_def)
  show "gm_wf (gm_put k v m)" using d by (simp add: gm_wf_def gm_put_def AList.distinct_update)
  show "gm_wf (gm_del k m)" using d by (simp add: gm_wf_def gm_del_def AList.distinct_delete)
  show "length (gm_put k v m) = (if gm_get m k = None then Suc (length m) else length m)"
    using gm_size_update [OF d] by (simp add: gm_put_def gm_get_def)
  show "length (gm_del k m) = (if gm_get m k = None then length m else length m - 1)"
    using gm_size_delete [OF d] by (simp add: gm_del_def gm_get_def)
qed

lemmas gm_laws [go_map_simps] =
  gm.get_empty gm.get_put gm.get_del gm.wf_empty gm.wf_put gm.wf_del

lemma gm_get_in: "gm_get m k = Some v \<Longrightarrow> (k, v) \<in> set m"
  by (simp add: gm_get_def map_of_SomeD)

lemma gm_get_iff: "gm_wf m \<Longrightarrow> gm_get m k = Some v \<longleftrightarrow> (k, v) \<in> set m"
  by (simp add: gm_get_def gm_wf_def)

lemma gm_keys_put: "fst ` set (gm_put k v m) = insert k (fst ` set m)"
  by (simp add: gm_put_def AList.dom_update)

lemma gm_keys_del: "fst ` set (gm_del k m) = fst ` set m - {k}"
  by (auto simp: gm_del_def AList.delete_eq)

lemma gm_del_subset: "set (gm_del k m) \<subseteq> set m"
  by (auto simp: gm_del_def AList.delete_eq)

section \<open>Decimal rendering\<close>

text \<open>
  \<^verbatim>\<open>strconv.FormatUint(n, 10)\<close>, which \<^verbatim>\<open>encoding/json\<close> and \<^verbatim>\<open>fmt\<close> use for
  unsigned integers.
\<close>

definition digit_char :: "nat \<Rightarrow> char" where
  "digit_char d = char_of (48 + d)"

fun dec :: "nat \<Rightarrow> string" where
  "dec n = (if n < 10 then [digit_char n] else dec (n div 10) @ [digit_char (n mod 10)])"

declare dec.simps [simp del]

lemma dec_nonempty [simp]: "dec n \<noteq> []"
  by (subst dec.simps) simp

lemma dec_small: "n < 10 \<Longrightarrow> dec n = [digit_char n]"
  by (subst dec.simps) simp

lemma dec_large: "10 \<le> n \<Longrightarrow> dec n = dec (n div 10) @ [digit_char (n mod 10)]"
  by (subst dec.simps) simp

lemma dec_length_mono: "m \<le> n \<Longrightarrow> length (dec m) \<le> length (dec n)"
proof (induction n arbitrary: m rule: dec.induct)
  case (1 n)
  show ?case
  proof (cases "n < 10")
    case True
    with 1 show ?thesis by (simp add: dec_small)
  next
    case big: False
    show ?thesis
    proof (cases "m < 10")
      case True
      then show ?thesis by (simp add: dec_small Suc_leI)
    next
      case False
      have "length (dec (m div 10)) \<le> length (dec (n div 10))"
        using big 1 by (simp add: div_le_mono)
      with big False show ?thesis by (simp add: dec_large)
    qed
  qed
qed

lemma dec_length_bound: "n < 10 ^ k \<Longrightarrow> 0 < k \<Longrightarrow> length (dec n) \<le> k"
proof (induction k arbitrary: n)
  case 0
  then show ?case by simp
next
  case (Suc k)
  show ?case
  proof (cases "n < 10")
    case True
    then show ?thesis by (simp add: dec_small)
  next
    case False
    from Suc.prems have "n div 10 < 10 ^ k" by (simp add: less_mult_imp_div_less mult.commute)
    moreover from this False have "0 < k" by (cases k) auto
    ultimately have "length (dec (n div 10)) \<le> k" by (rule Suc.IH)
    with False show ?thesis by (simp add: dec_large)
  qed
qed

lemma dec_length_u64: "length (dec (unat (x :: u64))) \<le> 20"
  using unat_u64_bound [of x] by (intro dec_length_bound) auto

section \<open>Byte strings\<close>

definition byte_at :: "char \<Rightarrow> nat" where
  "byte_at c = of_char c"

definition utf8_cont :: "char \<Rightarrow> bool" where
  "utf8_cont c \<longleftrightarrow> 128 \<le> byte_at c \<and> byte_at c \<le> 191"

text \<open>
  \<^verbatim>\<open>utf8.ValidString\<close>: the well-formed byte sequences, with the overlong forms, the
  surrogates and the code points above U+10FFFF refused.
\<close>

fun utf8_valid :: "string \<Rightarrow> bool" where
  "utf8_valid [] = True"
| "utf8_valid (a # s) =
     (if byte_at a < 128 then utf8_valid s
      else if 194 \<le> byte_at a \<and> byte_at a \<le> 223 then
        (case s of b # t \<Rightarrow> utf8_cont b \<and> utf8_valid t | _ \<Rightarrow> False)
      else if 224 \<le> byte_at a \<and> byte_at a \<le> 239 then
        (case s of b # c # t \<Rightarrow>
             utf8_cont b \<and> (byte_at a = 224 \<longrightarrow> 160 \<le> byte_at b)
             \<and> (byte_at a = 237 \<longrightarrow> byte_at b \<le> 159) \<and> utf8_cont c \<and> utf8_valid t
         | _ \<Rightarrow> False)
      else if 240 \<le> byte_at a \<and> byte_at a \<le> 244 then
        (case s of b # c # d # t \<Rightarrow>
             utf8_cont b \<and> (byte_at a = 240 \<longrightarrow> 144 \<le> byte_at b)
             \<and> (byte_at a = 244 \<longrightarrow> byte_at b \<le> 143)
             \<and> utf8_cont c \<and> utf8_cont d \<and> utf8_valid t
         | _ \<Rightarrow> False)
      else False)"

lemma utf8_valid_ascii: "\<forall>c \<in> set s. byte_at c < 128 \<Longrightarrow> utf8_valid s"
  by (induction s) auto

text \<open>Go's \<open><\<close> on strings compares byte by byte.\<close>

fun str_less :: "string \<Rightarrow> string \<Rightarrow> bool" where
  "str_less _ [] = False"
| "str_less [] (_ # _) = True"
| "str_less (a # s) (b # t) =
     (byte_at a < byte_at b \<or> (byte_at a = byte_at b \<and> str_less s t))"

lemma byte_at_inj [simp]: "byte_at a = byte_at b \<longleftrightarrow> a = b"
  by (simp add: byte_at_def)

lemma str_less_irrefl [simp]: "\<not> str_less s s"
  by (induction s) auto

lemma str_less_trans: "str_less s t \<Longrightarrow> str_less t u \<Longrightarrow> str_less s u"
proof (induction s t arbitrary: u rule: str_less.induct)
  case (1 s)
  then show ?case by simp
next
  case (2 b t)
  then show ?case by (cases u) auto
next
  case (3 a s b t)
  then show ?case by (cases u) auto
qed

lemma str_less_linear: "str_less s t \<or> s = t \<or> str_less t s"
proof (induction s t rule: str_less.induct)
  case (1 s)
  then show ?case by (cases s) auto
next
  case (2 b t)
  then show ?case by simp
next
  case (3 a s b t)
  then show ?case
    using less_linear [of "byte_at a" "byte_at b"] by auto
qed

section \<open>Event machines\<close>

text \<open>
  The contract of a component that is driven by a sequence of operations: its invariant
  survives every admissible operation, and every operation relates the state before to the
  state after by a transitive progress relation (a counter that does not fall, a watermark that
  keeps covering, a record that stays).
\<close>

locale event_machine =
  fixes step :: "'e \<Rightarrow> 's \<Rightarrow> 's"
    and admissible :: "'e \<Rightarrow> bool"
    and inv :: "'s \<Rightarrow> bool"
    and progress :: "'s \<Rightarrow> 's \<Rightarrow> bool"
  assumes inv_step: "inv s \<Longrightarrow> admissible e \<Longrightarrow> inv (step e s)"
    and progress_refl: "inv s \<Longrightarrow> progress s s"
    and progress_step: "inv s \<Longrightarrow> admissible e \<Longrightarrow> progress s (step e s)"
    and progress_trans: "progress a b \<Longrightarrow> progress b c \<Longrightarrow> progress a c"
begin

lemma run_inv: "inv s \<Longrightarrow> list_all admissible es \<Longrightarrow> inv (fold step es s)"
  by (induction es arbitrary: s) (auto simp: inv_step)

lemma run_progress: "inv s \<Longrightarrow> list_all admissible es \<Longrightarrow> progress s (fold step es s)"
proof (induction es arbitrary: s)
  case Nil
  then show ?case by (simp add: progress_refl)
next
  case (Cons e es)
  then have "progress s (step e s)" and "progress (step e s) (fold step es (step e s))"
    by (simp_all add: progress_step inv_step)
  then show ?case by (simp add: progress_trans)
qed

text \<open>Progress holds between any two points of a run, not only from its start.\<close>

lemma run_progress_between:
  assumes "inv s" and "list_all admissible (xs @ ys)"
  shows "progress (fold step xs s) (fold step (xs @ ys) s)"
  using run_progress [of "fold step xs s" ys] run_inv [of s xs] assms by simp

end

end
