(* ===== verification/Contract.thy ===== *)
theory Contract
  imports Prelude
begin

text \<open>
  The contract primitives every other component validates with: \<^verbatim>\<open>version.go\<close> (strict
  three-part versions, identities), \<^verbatim>\<open>compareVersion\<close> of \<^verbatim>\<open>profile.go\<close>, and \<^verbatim>\<open>limits.go\<close>
  (ledger limits, bounded strings, the cumulative byte budget of \<^verbatim>\<open>preflightAggregate\<close>).
  The lemmas show that version comparison is comparison of the numbers the parts denote, and
  that the budget traversal accepts a value exactly when its depth and its total cost fit.
\<close>

named_theorems contract_consts \<open>the numeric constants of the contract\<close>

section \<open>Constants of limits.go\<close>

definition PinnedMaxCoalescedDependents :: nat where
  [contract_consts]: "PinnedMaxCoalescedDependents = 4096"

definition MaxProfileDependencies :: nat where
  [contract_consts]: "MaxProfileDependencies = PinnedMaxCoalescedDependents"

definition MaxProfileEvidenceReferences :: nat where
  [contract_consts]: "MaxProfileEvidenceReferences = PinnedMaxCoalescedDependents"

definition MaxCodecSentinels :: nat where
  [contract_consts]: "MaxCodecSentinels = 256"

definition MaxContractStringBytes :: nat where
  [contract_consts]: "MaxContractStringBytes = 4096"

definition MaxContractJSONDepth :: nat where
  [contract_consts]: "MaxContractJSONDepth = 32"

definition MaxSerializedContractBytes :: nat where
  [contract_consts]: "MaxSerializedContractBytes = 4 * 1024 * 1024"

definition MaxSampleIssuerDomainBytes :: nat where
  [contract_consts]: "MaxSampleIssuerDomainBytes = MaxContractStringBytes - 21"

section \<open>Versions\<close>

text \<open>
  \<^verbatim>\<open>Version\<close> wraps its string; the zero value holds the empty string and is not valid.
  The pattern \<^verbatim>\<open>^(0|[1-9][0-9]*)\.(0|[1-9][0-9]*)\.(0|[1-9][0-9]*)$\<close> is three
  dot-separated parts, each a decimal numeral with no leading zero.
\<close>

type_synonym version = string

fun split_on :: "char \<Rightarrow> string \<Rightarrow> string list" where
  "split_on c [] = [[]]"
| "split_on c (x # xs) =
     (if x = c then [] # split_on c xs
      else (case split_on c xs of [] \<Rightarrow> [[x]] | p # ps \<Rightarrow> (x # p) # ps))"

definition is_digit :: "char \<Rightarrow> bool" where
  "is_digit c \<longleftrightarrow> 48 \<le> byte_at c \<and> byte_at c \<le> 57"

definition numeral_part :: "string \<Rightarrow> bool" where
  "numeral_part p \<longleftrightarrow>
     p = ''0'' \<or> (p \<noteq> [] \<and> hd p \<noteq> CHR ''0'' \<and> (\<forall>c \<in> set p. is_digit c))"

definition versionPattern :: "string \<Rightarrow> bool" where
  "versionPattern s \<longleftrightarrow>
     (case split_on CHR ''.'' s of
        [a, b, c] \<Rightarrow> numeral_part a \<and> numeral_part b \<and> numeral_part c
      | _ \<Rightarrow> False)"

datatype contract_error =
    InvalidContractVersion
  | LimitsNotPositive
  | LimitsExceedMaximum
  | LimitsProductOverflow
  | LimitsInconsistent
  | StringBoundary
  | CollectionBoundary
  | CumulativeByteBoundary
  | NestingBoundary
  | StringSizeOverflow
  | CollectionSizeOverflow
  | UnsupportedAggregateKind

definition ParseVersion :: "string \<Rightarrow> contract_error + version" where
  "ParseVersion value =
     (if length value > MaxContractStringBytes \<or> \<not> versionPattern value
      then Inl InvalidContractVersion else Inr value)"

definition version_valid :: "version \<Rightarrow> bool" where
  "version_valid v \<longleftrightarrow> length v \<le> MaxContractStringBytes \<and> versionPattern v"

definition schemaVersionV1 :: version where
  "schemaVersionV1 = ''1.0.0''"

text \<open>
  \<^verbatim>\<open>compareVersion\<close> (profile.go) indexes the first three parts of both versions; with
  fewer parts the index panics, which is \<open>None\<close> here.
\<close>

definition trim_left_zeros :: "string \<Rightarrow> string" where
  "trim_left_zeros p = dropWhile (\<lambda>c. c = CHR ''0'') p"

definition canonical_part :: "string \<Rightarrow> string" where
  "canonical_part p = (let t = trim_left_zeros p in if t = [] then ''0'' else t)"

definition compare_part :: "string \<Rightarrow> string \<Rightarrow> int" where
  "compare_part p q =
     (let first = canonical_part p; second = canonical_part q in
      if length first < length second then - 1
      else if length first > length second then 1
      else if str_less first second then - 1
      else if str_less second first then 1
      else 0)"

fun compare_parts :: "nat \<Rightarrow> string list \<Rightarrow> string list \<Rightarrow> int option" where
  "compare_parts 0 _ _ = Some 0"
| "compare_parts (Suc n) (p # ps) (q # qs) =
     (if compare_part p q \<noteq> 0 then Some (compare_part p q) else compare_parts n ps qs)"
| "compare_parts (Suc n) _ _ = None"

definition compareVersion :: "version \<Rightarrow> version \<Rightarrow> int option" where
  "compareVersion first second =
     compare_parts 3 (split_on CHR ''.'' first) (split_on CHR ''.'' second)"

section \<open>Identities\<close>

definition identity_char :: "char \<Rightarrow> bool" where
  "identity_char c \<longleftrightarrow>
     97 \<le> byte_at c \<and> byte_at c \<le> 122 \<or> 65 \<le> byte_at c \<and> byte_at c \<le> 90
     \<or> is_digit c \<or> c \<in> {CHR ''.'', CHR ''-'', CHR ''_'', CHR '':''}"

definition validIdentity :: "string \<Rightarrow> bool" where
  "validIdentity value \<longleftrightarrow>
     value \<noteq> [] \<and> length value \<le> MaxContractStringBytes \<and> (\<forall>c \<in> set value. identity_char c)"

definition lower_hex :: "char \<Rightarrow> bool" where
  "lower_hex c \<longleftrightarrow> is_digit c \<or> 97 \<le> byte_at c \<and> byte_at c \<le> 102"

definition validDependencySetID :: "string \<Rightarrow> bool" where
  "validDependencySetID value \<longleftrightarrow>
     length value = length ''sha256:'' + 64 \<and> take 7 value = ''sha256:''
     \<and> (\<forall>c \<in> set (drop 7 value). lower_hex c)"

section \<open>Bounded strings\<close>

definition validateBoundedString :: "string \<Rightarrow> bool \<Rightarrow> contract_error outcome" where
  "validateBoundedString value required =
     (if (required \<and> value = []) \<or> length value > MaxContractStringBytes \<or> \<not> utf8_valid value
      then Some StringBoundary else None)"

fun validateStringList :: "string list \<Rightarrow> contract_error outcome" where
  "validateStringList [] = None"
| "validateStringList (v # vs) =
     (case validateBoundedString v True of Some e \<Rightarrow> Some e | None \<Rightarrow> validateStringList vs)"

definition validateBoundedStrings :: "string list \<Rightarrow> nat \<Rightarrow> bool \<Rightarrow> contract_error outcome" where
  "validateBoundedStrings values maximum required =
     (if length values > maximum \<or> (required \<and> values = []) then Some CollectionBoundary
      else validateStringList values)"

definition stringsDeclared :: "string list option \<Rightarrow> bool" where
  "stringsDeclared values \<longleftrightarrow>
     (case values of
        None \<Rightarrow> False
      | Some vs \<Rightarrow> length vs \<le> MaxProfileEvidenceReferences
          \<and> (\<forall>v \<in> set vs. validateBoundedString v True = None) \<and> distinct vs)"

definition stringsComplete :: "string list option \<Rightarrow> bool" where
  "stringsComplete values \<longleftrightarrow>
     (case values of None \<Rightarrow> False | Some vs \<Rightarrow> vs \<noteq> []
        \<and> length vs \<le> MaxProfileEvidenceReferences \<and> stringsDeclared values)"

section \<open>Ledger limits\<close>

record ledger_limits =
  MaxRetainedAttempts :: int
  MaxClaimEntriesPerAttempt :: int
  MaxRetainedClaimEntries :: int
  MaxDependencySetEncodedBytes :: int
  AttemptKeyMaxUTF8Bytes :: int
  NormalizationRecordMaxEncodedBytes :: int
  RetainedDiagnosticCountPerObjectMax :: int
  RetainedDiagnosticMaxUTF8Bytes :: int
  AuditTombstoneLimit :: int
  AuditTombstoneMaxEncodedBytes :: int

definition DefaultLedgerLimits :: ledger_limits where
  "DefaultLedgerLimits = \<lparr>
     MaxRetainedAttempts = 64,
     MaxClaimEntriesPerAttempt = int MaxProfileDependencies,
     MaxRetainedClaimEntries = 64 * int MaxProfileDependencies,
     MaxDependencySetEncodedBytes = int MaxSerializedContractBytes,
     AttemptKeyMaxUTF8Bytes = int MaxContractStringBytes,
     NormalizationRecordMaxEncodedBytes = int MaxSerializedContractBytes,
     RetainedDiagnosticCountPerObjectMax = 32,
     RetainedDiagnosticMaxUTF8Bytes = int MaxContractStringBytes,
     AuditTombstoneLimit = 4096,
     AuditTombstoneMaxEncodedBytes = 256\<rparr>"

definition max_int64 :: int where
  [contract_consts]: "max_int64 = 2 ^ 63 - 1"

definition validateLedgerLimits :: "ledger_limits \<Rightarrow> contract_error outcome" where
  "validateLedgerLimits limits =
     (if \<exists>v \<in> set [MaxRetainedAttempts limits, MaxClaimEntriesPerAttempt limits,
           MaxRetainedClaimEntries limits, MaxDependencySetEncodedBytes limits,
           AttemptKeyMaxUTF8Bytes limits, NormalizationRecordMaxEncodedBytes limits,
           RetainedDiagnosticCountPerObjectMax limits, RetainedDiagnosticMaxUTF8Bytes limits,
           AuditTombstoneLimit limits, AuditTombstoneMaxEncodedBytes limits]. v \<le> 0
      then Some LimitsNotPositive
      else if MaxRetainedAttempts limits > 2 ^ 16
        \<or> MaxClaimEntriesPerAttempt limits > int MaxProfileDependencies
        \<or> MaxDependencySetEncodedBytes limits > int MaxSerializedContractBytes
        \<or> AttemptKeyMaxUTF8Bytes limits > int MaxContractStringBytes
        \<or> NormalizationRecordMaxEncodedBytes limits > int MaxSerializedContractBytes
        \<or> RetainedDiagnosticCountPerObjectMax limits > int MaxProfileDependencies
        \<or> RetainedDiagnosticMaxUTF8Bytes limits > int MaxContractStringBytes
        \<or> AuditTombstoneLimit limits > 2 ^ 20
        \<or> AuditTombstoneMaxEncodedBytes limits > int MaxSerializedContractBytes
      then Some LimitsExceedMaximum
      else if MaxRetainedAttempts limits > max_int64 div MaxClaimEntriesPerAttempt limits
      then Some LimitsProductOverflow
      else if MaxRetainedClaimEntries limits < MaxClaimEntriesPerAttempt limits
        \<or> MaxRetainedClaimEntries limits > MaxRetainedAttempts limits * MaxClaimEntriesPerAttempt limits
      then Some LimitsInconsistent
      else None)"

section \<open>The cumulative byte budget\<close>

text \<open>
  \<^verbatim>\<open>consumeAggregateValue\<close> walks a Go value by reflection. The datatype is what the walk
  distinguishes: the kinds, the lengths it charges for, the struct fields by name, and whether
  a struct is a \<^verbatim>\<open>DependencyResult\<close>, two of whose fields are skipped. Nil interfaces, nil
  pointers and the invalid value are each charged four bytes.
\<close>

datatype agg =
    AggInvalid
  | AggNilInterface
  | AggInterface agg
  | AggNilPointer
  | AggPointer agg
  | AggTime
  | AggString nat
  | AggBool
  | AggInteger
  | AggSequence "agg list"
  | AggStruct bool "(string \<times> agg) list"
  | AggUnsupported

definition budget_consume :: "nat \<Rightarrow> nat \<Rightarrow> contract_error + nat" where
  "budget_consume remaining amount =
     (if amount > remaining then Inl CumulativeByteBoundary else Inr (remaining - amount))"

definition skipped_field :: "bool \<Rightarrow> string \<Rightarrow> bool" where
  "skipped_field dependencyResult name \<longleftrightarrow>
     dependencyResult \<and> (name = ''claim'' \<or> name = ''owner'')"

fun consumeAggregateValue :: "nat \<Rightarrow> agg \<Rightarrow> nat \<Rightarrow> contract_error + nat"
  and consumeAggregateItems :: "nat \<Rightarrow> agg list \<Rightarrow> nat \<Rightarrow> contract_error + nat"
  and consumeAggregateFields ::
    "nat \<Rightarrow> bool \<Rightarrow> (string \<times> agg) list \<Rightarrow> nat \<Rightarrow> contract_error + nat" where
  "consumeAggregateValue budget value depth =
     (if depth > MaxContractJSONDepth then Inl NestingBoundary
      else (case value of
        AggInvalid \<Rightarrow> budget_consume budget 4
      | AggNilInterface \<Rightarrow> budget_consume budget 4
      | AggInterface v \<Rightarrow> consumeAggregateValue budget v (depth + 1)
      | AggNilPointer \<Rightarrow> budget_consume budget 4
      | AggPointer v \<Rightarrow>
          (case budget_consume budget 8 of
             Inl e \<Rightarrow> Inl e
           | Inr b \<Rightarrow> consumeAggregateValue b v (depth + 1))
      | AggTime \<Rightarrow> budget_consume budget 48
      | AggString len \<Rightarrow>
          (if len > (2 ^ 64 - 1 - 32) div 6 then Inl StringSizeOverflow
           else budget_consume budget (len * 6 + 32))
      | AggBool \<Rightarrow> budget_consume budget 8
      | AggInteger \<Rightarrow> budget_consume budget 32
      | AggSequence vs \<Rightarrow>
          (if length vs > (2 ^ 64 - 1 - 16) div 8 then Inl CollectionSizeOverflow
           else (case budget_consume budget (length vs * 8 + 16) of
                   Inl e \<Rightarrow> Inl e
                 | Inr b \<Rightarrow> consumeAggregateItems b vs (depth + 1)))
      | AggStruct dep fs \<Rightarrow>
          (case budget_consume budget (length fs * 16 + 16) of
             Inl e \<Rightarrow> Inl e
           | Inr b \<Rightarrow> consumeAggregateFields b dep fs (depth + 1))
      | AggUnsupported \<Rightarrow> Inl UnsupportedAggregateKind))"
| "consumeAggregateItems budget [] depth = Inr budget"
| "consumeAggregateItems budget (v # vs) depth =
     (case consumeAggregateValue budget v depth of
        Inl e \<Rightarrow> Inl e
      | Inr b \<Rightarrow> consumeAggregateItems b vs depth)"
| "consumeAggregateFields budget dep [] depth = Inr budget"
| "consumeAggregateFields budget dep (f # fs) depth =
     (if skipped_field dep (fst f) then consumeAggregateFields budget dep fs depth
      else (case budget_consume budget (length (fst f) * 2 + 8) of
              Inl e \<Rightarrow> Inl e
            | Inr b \<Rightarrow>
                (case consumeAggregateValue b (snd f) depth of
                   Inl e \<Rightarrow> Inl e
                 | Inr b' \<Rightarrow> consumeAggregateFields b' dep fs depth)))"

fun preflight_from :: "nat \<Rightarrow> agg list \<Rightarrow> contract_error outcome" where
  "preflight_from budget [] = None"
| "preflight_from budget (v # vs) =
     (case consumeAggregateValue budget v 1 of
        Inl e \<Rightarrow> Some e
      | Inr b \<Rightarrow> preflight_from b vs)"

definition preflightAggregate :: "agg list \<Rightarrow> contract_error outcome" where
  "preflightAggregate values = preflight_from MaxSerializedContractBytes values"

section \<open>What the budget traversal computes\<close>

fun agg_cost :: "agg \<Rightarrow> nat" where
  "agg_cost AggInvalid = 4"
| "agg_cost AggNilInterface = 4"
| "agg_cost (AggInterface v) = agg_cost v"
| "agg_cost AggNilPointer = 4"
| "agg_cost (AggPointer v) = 8 + agg_cost v"
| "agg_cost AggTime = 48"
| "agg_cost (AggString len) = len * 6 + 32"
| "agg_cost AggBool = 8"
| "agg_cost AggInteger = 32"
| "agg_cost (AggSequence vs) = length vs * 8 + 16 + sum_list (map agg_cost vs)"
| "agg_cost (AggStruct dep fs) = length fs * 16 + 16
     + sum_list (map (\<lambda>f. if skipped_field dep (fst f) then 0
                          else length (fst f) * 2 + 8 + agg_cost (snd f)) fs)"
| "agg_cost AggUnsupported = 0"

fun agg_shape :: "nat \<Rightarrow> agg \<Rightarrow> bool" where
  "agg_shape depth value =
     (depth \<le> MaxContractJSONDepth \<and>
      (case value of
         AggInterface v \<Rightarrow> agg_shape (depth + 1) v
       | AggPointer v \<Rightarrow> agg_shape (depth + 1) v
       | AggString len \<Rightarrow> len \<le> (2 ^ 64 - 1 - 32) div 6
       | AggSequence vs \<Rightarrow> length vs \<le> (2 ^ 64 - 1 - 16) div 8
           \<and> (\<forall>v \<in> set vs. agg_shape (depth + 1) v)
       | AggStruct dep fs \<Rightarrow>
           (\<forall>f \<in> set fs. skipped_field dep (fst f) \<or> agg_shape (depth + 1) (snd f))
       | AggUnsupported \<Rightarrow> False
       | _ \<Rightarrow> True))"

declare consumeAggregateValue.simps [simp del] agg_shape.simps [simp del]

definition agg_fields_cost :: "bool \<Rightarrow> (string \<times> agg) list \<Rightarrow> nat" where
  "agg_fields_cost dep fs =
     sum_list (map (\<lambda>f. if skipped_field dep (fst f) then 0
                          else length (fst f) * 2 + 8 + agg_cost (snd f)) fs)"

lemma budget_consume_Inr:
  "budget_consume b n = Inr r \<longleftrightarrow> n \<le> b \<and> r = b - n"
  by (auto simp: budget_consume_def)

lemma budget_consume_Inl:
  "budget_consume b n = Inl e \<longleftrightarrow> b < n \<and> e = CumulativeByteBoundary"
  by (auto simp: budget_consume_def)

lemma consume_characterised:
  "consumeAggregateValue b v d = Inr r \<longleftrightarrow> agg_shape d v \<and> agg_cost v \<le> b \<and> r = b - agg_cost v"
  "consumeAggregateItems b vs d = Inr r \<longleftrightarrow>
     (\<forall>v \<in> set vs. agg_shape d v) \<and> sum_list (map agg_cost vs) \<le> b
     \<and> r = b - sum_list (map agg_cost vs)"
  "consumeAggregateFields b dep fs d = Inr r \<longleftrightarrow>
     (\<forall>f \<in> set fs. skipped_field dep (fst f) \<or> agg_shape d (snd f))
     \<and> agg_fields_cost dep fs \<le> b \<and> r = b - agg_fields_cost dep fs"
proof (induction b v d and b vs d and b dep fs d arbitrary: r and r and r rule: consumeAggregateValue_consumeAggregateItems_consumeAggregateFields.induct)
  case (1 budget val depth)
  show ?case
  proof (cases "depth > MaxContractJSONDepth")
    case True
    then show ?thesis by (simp add: consumeAggregateValue.simps agg_shape.simps)
  next
    case False
    with 1 show ?thesis
      by (cases val) (auto simp: consumeAggregateValue.simps [of budget] agg_shape.simps [of depth]
          budget_consume_Inr budget_consume_Inl agg_fields_cost_def split: sum.splits)
  qed
next
  case (3 budget v vs depth)
  show ?case
  proof (cases "consumeAggregateValue budget v depth")
    case (Inl e)
    with "3.IH"(1) [of "budget - agg_cost v"] show ?thesis by auto
  next
    case (Inr b)
    with "3.IH"(1) [of b] have "agg_shape depth v \<and> agg_cost v \<le> budget \<and> b = budget - agg_cost v"
      by simp
    with Inr "3.IH"(2) [OF Inr, of r] show ?thesis by auto
  qed
next
  case (5 budget dep f fs depth)
  show ?case
  proof (cases "skipped_field dep (fst f)")
    case True
    with 5 show ?thesis by (simp add: agg_fields_cost_def)
  next
    case keep: False
    let ?c = "length (fst f) * 2 + 8"
    show ?thesis
    proof (cases "budget_consume budget ?c")
      case (Inl e)
      then have "budget < ?c" by (auto simp: budget_consume_Inl)
      with Inl keep show ?thesis by (auto simp: agg_fields_cost_def)
    next
      case (Inr b)
      then have b: "?c \<le> budget" "b = budget - ?c" by (auto simp: budget_consume_Inr)
      show ?thesis
      proof (cases "consumeAggregateValue b (snd f) depth")
        case inl: (Inl e)
        with "5.IH"(2) [OF keep Inr, of "b - agg_cost (snd f)"] keep Inr b show ?thesis
          by (auto simp: agg_fields_cost_def)
      next
        case inr: (Inr b')
        with "5.IH"(2) [OF keep Inr, of b']
        have "agg_shape depth (snd f) \<and> agg_cost (snd f) \<le> b \<and> b' = b - agg_cost (snd f)"
          by simp
        with "5.IH"(3) [OF keep Inr inr, of r] keep Inr inr b show ?thesis
          by (auto simp: agg_fields_cost_def)
      qed
    qed
  qed
qed (auto simp: agg_fields_cost_def)


lemma preflight_from_iff:
  "preflight_from b vs = None \<longleftrightarrow>
     (\<forall>v \<in> set vs. agg_shape 1 v) \<and> sum_list (map agg_cost vs) \<le> b"
proof (induction vs arbitrary: b)
  case Nil
  then show ?case by simp
next
  case (Cons v vs)
  show ?case
  proof (cases "consumeAggregateValue b v 1")
    case (Inl e)
    then have "\<not> (agg_shape 1 v \<and> agg_cost v \<le> b)"
      using consume_characterised(1) [of b v 1 "b - agg_cost v"] by auto
    with Inl show ?thesis by auto
  next
    case (Inr r)
    then have "agg_shape 1 v \<and> agg_cost v \<le> b \<and> r = b - agg_cost v"
      using consume_characterised(1) [of b v 1 r] by blast
    with Inr Cons.IH [of r] show ?thesis by auto
  qed
qed

section \<open>Version comparison is numeric comparison\<close>

definition digit_value :: "char \<Rightarrow> nat" where
  "digit_value c = byte_at c - 48"

definition part_value :: "string \<Rightarrow> nat" where
  "part_value s = foldl (\<lambda>n c. 10 * n + digit_value c) 0 s"

lemma part_value_snoc [simp]: "part_value (s @ [c]) = 10 * part_value s + digit_value c"
  by (simp add: part_value_def)

lemma part_value_Nil [simp]: "part_value [] = 0"
  by (simp add: part_value_def)

lemma part_value_Cons:
  "part_value (c # s) = digit_value c * 10 ^ length s + part_value s"
proof (induction s rule: rev_induct)
  case Nil
  then show ?case by (simp add: part_value_def)
next
  case (snoc x xs)
  have "part_value (c # xs @ [x]) = 10 * part_value (c # xs) + digit_value x"
    using part_value_snoc [of "c # xs" x] by simp
  with snoc show ?case by simp
qed

lemma is_digit_value: "is_digit c \<Longrightarrow> digit_value c \<le> 9"
  by (auto simp: is_digit_def digit_value_def)

lemma part_value_bound: "\<forall>c \<in> set s. is_digit c \<Longrightarrow> part_value s < 10 ^ length s"
proof (induction s)
  case Nil
  then show ?case by simp
next
  case (Cons c s)
  have "digit_value c \<le> 9" using Cons.prems by (simp add: is_digit_value)
  then have "digit_value c * 10 ^ length s \<le> 9 * 10 ^ length s" by (rule mult_le_mono1)
  moreover have "part_value s < 10 ^ length s" using Cons by simp
  ultimately have "digit_value c * 10 ^ length s + part_value s < 10 * 10 ^ length s" by linarith
  then show ?case by (simp add: part_value_Cons)
qed

lemma part_value_lower:
  assumes "s \<noteq> []" and "hd s \<noteq> CHR ''0''" and "\<forall>c \<in> set s. is_digit c"
  shows "10 ^ (length s - 1) \<le> part_value s"
proof -
  obtain c t where s: "s = c # t" using assms(1) by (cases s) auto
  have "byte_at c \<noteq> byte_at CHR ''0''" using assms(2) s by simp
  then have "1 \<le> digit_value c"
    using assms(3) s by (auto simp: digit_value_def is_digit_def byte_at_def)
  then have "1 * 10 ^ length t \<le> digit_value c * 10 ^ length t" by (rule mult_le_mono1)
  then show ?thesis using s by (simp add: part_value_Cons trans_le_add1)
qed

lemma str_less_same_length:
  assumes "length s = length t" and "\<forall>c \<in> set s. is_digit c" and "\<forall>c \<in> set t. is_digit c"
  shows "str_less s t \<longleftrightarrow> part_value s < part_value t"
  using assms
proof (induction s t rule: list_induct2)
  case Nil
  then show ?case by simp
next
  case (Cons a s b t)
  have digits: "is_digit a" "is_digit b" using Cons.prems by simp_all
  have bs: "part_value s < 10 ^ length t" "part_value t < 10 ^ length t"
    using part_value_bound [of s] part_value_bound [of t] Cons.prems Cons.hyps by simp_all
  consider "digit_value a < digit_value b" | "digit_value a = digit_value b"
    | "digit_value b < digit_value a" by linarith
  then show ?case
  proof cases
    case 1
    then have "Suc (digit_value a) * 10 ^ length t \<le> digit_value b * 10 ^ length t"
      by (intro mult_le_mono1) simp
    with 1 bs digits Cons.hyps show ?thesis
      by (auto simp: part_value_Cons digit_value_def is_digit_def)
  next
    case 2
    then have "a = b" using digits by (auto simp: digit_value_def is_digit_def simp flip: byte_at_inj)
    with Cons show ?thesis by (simp add: part_value_Cons)
  next
    case 3
    then have "Suc (digit_value b) * 10 ^ length t \<le> digit_value a * 10 ^ length t"
      by (intro mult_le_mono1) simp
    with 3 bs digits Cons.hyps show ?thesis
      by (auto simp: part_value_Cons digit_value_def is_digit_def)
  qed
qed


fun compare_keys :: "nat list \<Rightarrow> nat list \<Rightarrow> int" where
  "compare_keys (a # as) (b # bs) =
     (if a < b then - 1 else if b < a then 1 else compare_keys as bs)"
| "compare_keys _ _ = 0"

definition version_key :: "version \<Rightarrow> nat list" where
  "version_key v = map part_value (split_on CHR ''.'' v)"

lemma numeral_part_digits: "numeral_part p \<Longrightarrow> (\<forall>c \<in> set p. is_digit c) \<and> p \<noteq> []"
  by (auto simp: numeral_part_def is_digit_def byte_at_def)

lemma canonical_numeral: "numeral_part p \<Longrightarrow> canonical_part p = p"
  by (cases p) (auto simp: numeral_part_def canonical_part_def trim_left_zeros_def)

lemma shorter_numeral_less:
  assumes "numeral_part p" and "numeral_part q" and "length p < length q"
  shows "part_value p < part_value q"
proof -
  have "q \<noteq> ''0''" using assms numeral_part_digits [of p] by (cases p) auto
  then have "10 ^ (length q - 1) \<le> part_value q"
    using assms(2) by (intro part_value_lower) (auto simp: numeral_part_def)
  moreover have "part_value p < 10 ^ length p"
    using part_value_bound numeral_part_digits [OF assms(1)] by blast
  moreover have "(10 :: nat) ^ length p \<le> 10 ^ (length q - 1)"
    using assms(3) by (intro power_increasing) auto
  ultimately show ?thesis by linarith
qed

lemma compare_part_numeric:
  assumes "numeral_part p" and "numeral_part q"
  shows "compare_part p q =
    (if part_value p < part_value q then - 1 else if part_value q < part_value p then 1 else 0)"
proof (cases "length p = length q")
  case True
  with assms show ?thesis
    using str_less_same_length [of p q] str_less_same_length [of q p]
      numeral_part_digits [of p] numeral_part_digits [of q]
    by (simp add: compare_part_def canonical_numeral)
next
  case False
  then consider "length p < length q" | "length q < length p" by linarith
  then show ?thesis
  proof cases
    case 1
    with shorter_numeral_less [OF assms] assms show ?thesis
      by (simp add: compare_part_def canonical_numeral)
  next
    case 2
    with shorter_numeral_less [OF assms(2,1)] assms show ?thesis
      by (simp add: compare_part_def canonical_numeral)
  qed
qed

lemma part_value_inj:
  assumes "numeral_part p" and "numeral_part q" and "part_value p = part_value q"
  shows "p = q"
proof -
  have l: "length p = length q"
    using shorter_numeral_less [OF assms(1,2)] shorter_numeral_less [OF assms(2,1)] assms(3)
    by (metis linorder_neqE_nat less_irrefl)
  then show ?thesis
    using str_less_linear [of p q] str_less_same_length [of p q] str_less_same_length [of q p]
      numeral_part_digits [OF assms(1)] numeral_part_digits [OF assms(2)] assms(3) by auto
qed

lemma version_parts:
  assumes "version_valid v"
  obtains a b c where "split_on CHR ''.'' v = [a, b, c]"
    and "numeral_part a" and "numeral_part b" and "numeral_part c"
  using assms by (auto simp: version_valid_def versionPattern_def split: list.splits)

lemma compareVersion_valid:
  assumes "version_valid v" and "version_valid w"
  shows "compareVersion v w = Some (compare_keys (version_key v) (version_key w))"
proof -
  obtain a b c where v: "split_on CHR ''.'' v = [a, b, c]"
    and nv: "numeral_part a" "numeral_part b" "numeral_part c"
    using assms(1) by (rule version_parts)
  obtain d e f where w: "split_on CHR ''.'' w = [d, e, f]"
    and nw: "numeral_part d" "numeral_part e" "numeral_part f"
    using assms(2) by (rule version_parts)
  show ?thesis
    by (simp add: compareVersion_def version_key_def v w numeral_3_eq_3 compare_part_numeric nv nw)
qed

fun join_on :: "char \<Rightarrow> string list \<Rightarrow> string" where
  "join_on c [] = []"
| "join_on c [p] = p"
| "join_on c (p # q # ps) = p @ c # join_on c (q # ps)"

lemma split_on_nonempty [simp]: "split_on c s \<noteq> []"
  by (induction s) (auto split: list.splits)

lemma join_split: "join_on c (split_on c s) = s"
proof (induction s)
  case Nil
  then show ?case by simp
next
  case (Cons x s)
  then show ?case
    by (cases "split_on c s" rule: list.exhaust; cases "tl (split_on c s)") auto
qed

lemma compareVersion_eq_zero:
  assumes "version_valid v" and "version_valid w"
  shows "compareVersion v w = Some 0 \<longleftrightarrow> v = w"
proof -
  obtain a b c where v: "split_on CHR ''.'' v = [a, b, c]"
    and nv: "numeral_part a" "numeral_part b" "numeral_part c"
    using assms(1) by (rule version_parts)
  obtain d e f where w: "split_on CHR ''.'' w = [d, e, f]"
    and nw: "numeral_part d" "numeral_part e" "numeral_part f"
    using assms(2) by (rule version_parts)
  have "compare_keys (version_key v) (version_key w) = 0 \<longleftrightarrow>
      part_value a = part_value d \<and> part_value b = part_value e \<and> part_value c = part_value f"
    by (auto simp: version_key_def v w)
  also have "\<dots> \<longleftrightarrow> a = d \<and> b = e \<and> c = f"
    using part_value_inj nv nw by blast
  also have "\<dots> \<longleftrightarrow> split_on CHR ''.'' v = split_on CHR ''.'' w"
    by (simp add: v w)
  also have "\<dots> \<longleftrightarrow> v = w"
    by (metis join_split)
  finally show ?thesis by (simp add: compareVersion_valid [OF assms])
qed

section \<open>Properties\<close>

text \<open>On valid versions \<^verbatim>\<open>compareVersion\<close> never runs out of parts (the index never
  panics), its result is the lexicographic comparison of the three numbers, and it is zero
  only for identical versions.\<close>

theorem compareVersion_numeric:
  assumes "version_valid v" and "version_valid w"
  shows "compareVersion v w = Some (compare_keys (version_key v) (version_key w))
    \<and> (compareVersion v w = Some 0 \<longleftrightarrow> v = w)"
  using compareVersion_valid [OF assms] compareVersion_eq_zero [OF assms] by simp

theorem compareVersion_numeric_witness:
  "compareVersion ''1.2.10'' ''1.10.2'' = Some (- 1)"
proof -
  have v: "version_valid ''1.2.10''" and w: "version_valid ''1.10.2''"
    by (simp_all add: version_valid_def versionPattern_def numeral_part_def is_digit_def
        byte_at_def contract_consts)
  have "compare_keys (version_key ''1.2.10'') (version_key ''1.10.2'') = - 1"
    by (simp add: version_key_def part_value_def digit_value_def byte_at_def)
  then show ?thesis using compareVersion_numeric [OF v w] by simp
qed

text \<open>The reflective budget walk of \<^verbatim>\<open>preflightAggregate\<close> accepts its arguments exactly
  when every value is within the nesting bound and of supported kinds, and the sum of all
  charges is at most four mebibytes; the order of the walk does not matter.\<close>

theorem preflightAggregate_total_cost:
  "preflightAggregate vs = None \<longleftrightarrow>
     list_all (agg_shape 1) vs \<and> sum_list (map agg_cost vs) \<le> 4194304"
  by (simp add: preflightAggregate_def preflight_from_iff list_all_iff contract_consts)

end
