(* ===== verification/Ledger_Restart.thy ===== *)
theory Ledger_Restart
  imports Contract
begin

text \<open>
  The durable side of the attempt ledger (\<^verbatim>\<open>runtime_ledger.go\<close>): audit tombstones and their
  JSON form, the restart state and its validation, watermark coverage, terminal sequence
  reservation, and the computation of the next restart state from the retained history and a
  batch of terminal records. Sequence numbers are 64-bit words, so every overflow guard of the
  code is a guard of the model.
\<close>

named_theorems ledger_defs \<open>definitions unfolded by ledger proofs\<close>

section \<open>Outcomes and phases\<close>

datatype claim_outcome =
    ClaimUnset
  | ClaimSucceeded
  | CapabilityCancelled
  | CapabilityFailed
  | CapabilityExpired
  | ClaimRejectedTerminal
  | ClaimAttemptCancelled

datatype attempt_phase =
    AttemptUnset
  | AttemptOpen
  | AttemptSealed
  | AttemptCancelling
  | AttemptPublishing
  | AttemptPublished
  | AttemptPublishFailed
  | AttemptCancelFailed
  | AttemptCancelled

text \<open>The Go types are strings; \<open>ClaimUnset\<close> and \<open>AttemptUnset\<close> are the zero value.\<close>

fun claim_outcome_string :: "claim_outcome \<Rightarrow> string" where
  "claim_outcome_string ClaimUnset = ''''"
| "claim_outcome_string ClaimSucceeded = ''claim_succeeded''"
| "claim_outcome_string CapabilityCancelled = ''capability_cancelled''"
| "claim_outcome_string CapabilityFailed = ''capability_failed''"
| "claim_outcome_string CapabilityExpired = ''capability_expired''"
| "claim_outcome_string ClaimRejectedTerminal = ''claim_rejected_terminal''"
| "claim_outcome_string ClaimAttemptCancelled = ''attempt_cancelled''"

fun attempt_phase_string :: "attempt_phase \<Rightarrow> string" where
  "attempt_phase_string AttemptUnset = ''''"
| "attempt_phase_string AttemptOpen = ''open''"
| "attempt_phase_string AttemptSealed = ''sealed''"
| "attempt_phase_string AttemptCancelling = ''cancelling''"
| "attempt_phase_string AttemptPublishing = ''publishing''"
| "attempt_phase_string AttemptPublished = ''published''"
| "attempt_phase_string AttemptPublishFailed = ''publish_failed''"
| "attempt_phase_string AttemptCancelFailed = ''cancel_failed''"
| "attempt_phase_string AttemptCancelled = ''cancelled''"

definition validClaimOutcome :: "string \<Rightarrow> bool" where
  "validClaimOutcome outcome \<longleftrightarrow>
     outcome \<in> claim_outcome_string ` {ClaimSucceeded, CapabilityCancelled, CapabilityFailed,
       CapabilityExpired, ClaimRejectedTerminal, ClaimAttemptCancelled}"

definition validAttemptTerminalOutcome :: "string \<Rightarrow> bool" where
  "validAttemptTerminalOutcome outcome \<longleftrightarrow>
     outcome \<in> attempt_phase_string ` {AttemptPublished, AttemptPublishFailed,
       AttemptCancelFailed, AttemptCancelled}"

section \<open>Audit tombstones\<close>

datatype audit_kind = LedgerAuditAttempt | LedgerAuditClaim | LedgerAuditOther string

fun audit_kind_string :: "audit_kind \<Rightarrow> string" where
  "audit_kind_string LedgerAuditAttempt = ''attempt''"
| "audit_kind_string LedgerAuditClaim = ''claim''"
| "audit_kind_string (LedgerAuditOther s) = s"

record tombstone =
  tsSchemaVersion :: int
  tsObjectKind :: audit_kind
  tsTerminalSequence :: u64
  tsClaimCount :: u64
  tsAttemptTerminalSequence :: u64
  tsClaimOrdinal :: u64
  tsTerminalOutcome :: string

datatype ledger_error =
    AttemptTombstoneInvalid
  | ClaimTombstoneInvalid
  | TombstoneKindInvalid
  | RestartStateInvalid
  | RestartTruncationWatermark
  | RestartEmptyHistory
  | RestartExhaustedWatermark
  | RestartTombstoneInvalid
  | RestartHistoryEnd
  | RestartTruncatedClaimFollows
  | RestartTruncatedSuffix
  | RestartClaimOrdinal
  | RestartClaimSequence
  | RestartClaimTarget
  | RestartClaimContiguity
  | RestartFirstClaim
  | RestartAttemptCount
  | RestartIntervalIncomplete
  | RestartIntervalInvalid
  | RestartPublicationOutcome
  | RestartClaimReservation
  | RestartAggregate
  | TombstoneEncodingBound
  | AuditLimitsAggregate
  | SampleStateInvalid
  | RestartMetadataRequired
  | PublicationHistory
  | SampleCapacity
  | WatermarkPredates
  | LimitsRejected contract_error
  | SequenceExhausted
  | ConflictingOutcomes
  | LiveStateNotRestartable
  | WatermarkNotDurable

definition validateLedgerAuditTombstone :: "tombstone \<Rightarrow> ledger_error outcome" where
  "validateLedgerAuditTombstone t =
     (case tsObjectKind t of
        LedgerAuditAttempt \<Rightarrow>
          (if \<not> validAttemptTerminalOutcome (tsTerminalOutcome t) \<or> tsSchemaVersion t \<noteq> 1
             \<or> tsTerminalSequence t = 0 \<or> tsClaimCount t = 0
             \<or> tsAttemptTerminalSequence t \<noteq> 0 \<or> tsClaimOrdinal t \<noteq> 0
           then Some AttemptTombstoneInvalid else None)
      | LedgerAuditClaim \<Rightarrow>
          (if \<not> validClaimOutcome (tsTerminalOutcome t) \<or> tsSchemaVersion t \<noteq> 1
             \<or> tsTerminalSequence t = 0 \<or> tsAttemptTerminalSequence t = 0 \<or> tsClaimCount t \<noteq> 0
           then Some ClaimTombstoneInvalid else None)
      | LedgerAuditOther _ \<Rightarrow> Some TombstoneKindInvalid)"

text \<open>
  The JSON bytes: \<^verbatim>\<open>json.Marshal\<close> of the two DTO structs, fields in declaration order. The
  strings written are the closed outcome names, which need no escape.
\<close>

definition json_quote :: "string \<Rightarrow> string" where
  "json_quote s = CHR 0x22 # s @ [CHR 0x22]"

definition json_field :: "string \<Rightarrow> string \<Rightarrow> string" where
  "json_field name val = json_quote name @ '':'' @ val"

definition json_u64 :: "u64 \<Rightarrow> string" where
  "json_u64 n = dec (unat n)"

definition attempt_json :: "tombstone \<Rightarrow> string" where
  "attempt_json t = ''{'' @ json_field ''schema_version'' (dec 1)
     @ '','' @ json_field ''object_kind'' (json_quote ''attempt'')
     @ '','' @ json_field ''terminal_sequence'' (json_u64 (tsTerminalSequence t))
     @ '','' @ json_field ''claim_count'' (json_u64 (tsClaimCount t))
     @ '','' @ json_field ''terminal_outcome'' (json_quote (tsTerminalOutcome t)) @ ''}''"

definition claim_json :: "tombstone \<Rightarrow> string" where
  "claim_json t = ''{'' @ json_field ''schema_version'' (dec 1)
     @ '','' @ json_field ''object_kind'' (json_quote ''claim'')
     @ '','' @ json_field ''terminal_sequence'' (json_u64 (tsTerminalSequence t))
     @ '','' @ json_field ''attempt_terminal_sequence'' (json_u64 (tsAttemptTerminalSequence t))
     @ '','' @ json_field ''claim_ordinal'' (json_u64 (tsClaimOrdinal t))
     @ '','' @ json_field ''terminal_outcome'' (json_quote (tsTerminalOutcome t)) @ ''}''"

definition marshalTombstone :: "tombstone \<Rightarrow> ledger_error + string" where
  "marshalTombstone t =
     (case validateLedgerAuditTombstone t of
        Some e \<Rightarrow> Inl e
      | None \<Rightarrow>
          (case tsObjectKind t of
             LedgerAuditAttempt \<Rightarrow> Inr (attempt_json t)
           | LedgerAuditClaim \<Rightarrow> Inr (claim_json t)
           | LedgerAuditOther _ \<Rightarrow> Inl TombstoneKindInvalid))"

section \<open>Restart states\<close>

record restart_state =
  rsSchemaVersion :: int
  rsNextTerminalSequence :: u64
  rsSequenceExhausted :: bool
  rsTruncatedThrough :: u64
  rsAuditTombstones :: "tombstone list"

definition tombstone_agg :: "tombstone \<Rightarrow> agg" where
  "tombstone_agg t = AggStruct False
     [(''SchemaVersion'', AggInteger),
      (''ObjectKind'', AggString (length (audit_kind_string (tsObjectKind t)))),
      (''TerminalSequence'', AggInteger),
      (''ClaimCount'', AggInteger),
      (''AttemptTerminalSequence'', AggInteger),
      (''ClaimOrdinal'', AggInteger),
      (''TerminalOutcome'', AggString (length (tsTerminalOutcome t)))]"

definition restart_agg :: "restart_state \<Rightarrow> agg" where
  "restart_agg r = AggStruct False
     [(''SchemaVersion'', AggInteger),
      (''NextTerminalSequence'', AggInteger),
      (''SequenceExhausted'', AggBool),
      (''TruncatedThroughSequence'', AggInteger),
      (''AuditTombstones'', AggSequence (map tombstone_agg (rsAuditTombstones r)))]"

fun json_list :: "string list \<Rightarrow> string" where
  "json_list [] = ''''"
| "json_list [x] = x"
| "json_list (x # y # xs) = x @ '','' @ json_list (y # xs)"

fun marshalTombstones :: "tombstone list \<Rightarrow> ledger_error + string list" where
  "marshalTombstones [] = Inr []"
| "marshalTombstones (t # ts) =
     (case marshalTombstone t of
        Inl e \<Rightarrow> Inl e
      | Inr s \<Rightarrow> (case marshalTombstones ts of Inl e \<Rightarrow> Inl e | Inr ss \<Rightarrow> Inr (s # ss)))"

definition json_int :: "int \<Rightarrow> string" where
  "json_int i = (if i < 0 then ''-'' @ dec (nat (- i)) else dec (nat i))"

definition restart_json :: "restart_state \<Rightarrow> string list \<Rightarrow> string" where
  "restart_json r items =
     ''{'' @ json_field ''schema_version'' (json_int (rsSchemaVersion r))
     @ '','' @ json_field ''next_terminal_sequence'' (json_u64 (rsNextTerminalSequence r))
     @ '','' @ json_field ''sequence_exhausted''
               (if rsSequenceExhausted r then ''true'' else ''false'')
     @ '','' @ json_field ''truncated_through_sequence'' (json_u64 (rsTruncatedThrough r))
     @ '','' @ json_field ''audit_tombstones'' (''['' @ json_list items @ '']'') @ ''}''"

text \<open>
  \<^verbatim>\<open>marshalBounded\<close>: the byte budget of the value first, then the encoder, whose single write
  of the document and its newline must fit the serialization bound.
\<close>

definition marshalBounded_restart :: "restart_state \<Rightarrow> ledger_error + string" where
  "marshalBounded_restart r =
     (if preflightAggregate [restart_agg r] \<noteq> None then Inl RestartAggregate
      else (case marshalTombstones (rsAuditTombstones r) of
              Inl e \<Rightarrow> Inl e
            | Inr items \<Rightarrow>
                (if length (restart_json r items) + 1 > MaxSerializedContractBytes
                 then Inl RestartAggregate else Inr (restart_json r items))))"

section \<open>Validation of a restart state\<close>

definition end_sequence :: "restart_state \<Rightarrow> u64" where
  "end_sequence r = (if rsSequenceExhausted r then MaxUint64 else rsNextTerminalSequence r - 1)"

text \<open>
  First loop: every tombstone encodes within the bound and the sequences are consecutive,
  starting right after the truncation watermark. It also fills the map by sequence and leaves
  the last sequence.
\<close>

fun scan_sequences :: "restart_state \<Rightarrow> int \<Rightarrow> u64 option \<Rightarrow> (u64 \<rightharpoonup> tombstone) \<Rightarrow> tombstone list
    \<Rightarrow> ledger_error + (u64 \<times> (u64 \<rightharpoonup> tombstone))" where
  "scan_sequences r maximum previous m [] =
     Inr (case previous of None \<Rightarrow> 0 | Some p \<Rightarrow> p, m)"
| "scan_sequences r maximum previous m (t # ts) =
     (if (case marshalTombstone t of Inl _ \<Rightarrow> True | Inr s \<Rightarrow> int (length s) > maximum)
       \<or> (previous = None \<and> tsTerminalSequence t \<noteq> rsTruncatedThrough r + 1)
       \<or> (case previous of None \<Rightarrow> False
          | Some p \<Rightarrow> p = MaxUint64 \<or> tsTerminalSequence t \<noteq> p + 1)
      then Inl RestartTombstoneInvalid
      else scan_sequences r maximum (Some (tsTerminalSequence t))
             (m(tsTerminalSequence t \<mapsto> t)) ts)"

text \<open>
  Second loop: claims of one truncated attempt may lead the history, before any retained
  attempt, with consecutive ordinals. A zero leading sequence means none seen yet.
\<close>

fun scan_truncated_claims :: "restart_state \<Rightarrow> u64 \<Rightarrow> u64 \<Rightarrow> bool \<Rightarrow> tombstone list
    \<Rightarrow> ledger_error outcome" where
  "scan_truncated_claims r leading ordinal seen [] = None"
| "scan_truncated_claims r leading ordinal seen (t # ts) =
     (if tsObjectKind t = LedgerAuditAttempt then scan_truncated_claims r leading ordinal True ts
      else if tsObjectKind t \<noteq> LedgerAuditClaim
        \<or> tsAttemptTerminalSequence t > rsTruncatedThrough r
      then scan_truncated_claims r leading ordinal seen ts
      else if seen then Some RestartTruncatedClaimFollows
      else if leading = 0
      then scan_truncated_claims r (tsAttemptTerminalSequence t) (tsClaimOrdinal t) seen ts
      else if tsAttemptTerminalSequence t \<noteq> leading \<or> ordinal = MaxUint64
        \<or> tsClaimOrdinal t \<noteq> ordinal + 1
      then Some RestartTruncatedSuffix
      else scan_truncated_claims r leading (tsClaimOrdinal t) seen ts)"

text \<open>
  Third loop: each claim sits at its ordinal after its attempt, targets a retained attempt
  unless that attempt is truncated, and follows the previous claim of the attempt; each attempt
  is followed by exactly its claims. The inner loop checks the interval of one attempt.
\<close>

fun check_interval :: "tombstone \<Rightarrow> u64 \<Rightarrow> tombstone list \<Rightarrow> ledger_error outcome" where
  "check_interval a ordinal [] = None"
| "check_interval a ordinal (c # cs) =
     (if tsObjectKind c \<noteq> LedgerAuditClaim
       \<or> tsAttemptTerminalSequence c \<noteq> tsTerminalSequence a
       \<or> tsClaimOrdinal c \<noteq> ordinal
       \<or> tsTerminalSequence c \<noteq> tsTerminalSequence a + ordinal + 1
      then Some RestartIntervalInvalid
      else if (tsTerminalOutcome a = attempt_phase_string AttemptPublished
               \<or> tsTerminalOutcome a = attempt_phase_string AttemptPublishFailed)
             \<and> tsTerminalOutcome c \<noteq> claim_outcome_string ClaimSucceeded
      then Some RestartPublicationOutcome
      else check_interval a (ordinal + 1) cs)"

fun scan_structure :: "restart_state \<Rightarrow> int \<Rightarrow> (u64 \<rightharpoonup> tombstone) \<Rightarrow> (u64 \<rightharpoonup> u64)
    \<Rightarrow> tombstone list \<Rightarrow> ledger_error outcome" where
  "scan_structure r maxClaims m lastOrdinal [] = None"
| "scan_structure r maxClaims m lastOrdinal (t # ts) =
     (case tsObjectKind t of
        LedgerAuditClaim \<Rightarrow>
          (let offset = tsClaimOrdinal t + 1; target = tsAttemptTerminalSequence t in
           if tsClaimOrdinal t \<ge> word_of_int maxClaims \<or> tsClaimOrdinal t = MaxUint64
           then Some RestartClaimOrdinal
           else if target > MaxUint64 - offset \<or> tsTerminalSequence t \<noteq> target + offset
           then Some RestartClaimSequence
           else if target > rsTruncatedThrough r
             \<and> (case m target of None \<Rightarrow> True | Some a \<Rightarrow> tsObjectKind a \<noteq> LedgerAuditAttempt)
           then Some RestartClaimTarget
           else (case lastOrdinal target of
                   Some prior \<Rightarrow>
                     if prior = MaxUint64 \<or> tsClaimOrdinal t \<noteq> prior + 1
                     then Some RestartClaimContiguity
                     else scan_structure r maxClaims m (lastOrdinal(target \<mapsto> tsClaimOrdinal t)) ts
                 | None \<Rightarrow>
                     if target > rsTruncatedThrough r \<and> tsClaimOrdinal t \<noteq> 0
                     then Some RestartFirstClaim
                     else scan_structure r maxClaims m (lastOrdinal(target \<mapsto> tsClaimOrdinal t)) ts))
      | LedgerAuditAttempt \<Rightarrow>
          (if tsClaimCount t > word_of_int maxClaims
             \<or> tsClaimCount t > MaxUint64 - tsTerminalSequence t
           then Some RestartAttemptCount
           else if tsTerminalSequence t + tsClaimCount t > end_sequence r
             \<or> length ts < unat (tsClaimCount t)
           then Some RestartIntervalIncomplete
           else (case check_interval t 0 (take (unat (tsClaimCount t)) ts) of
                   Some e \<Rightarrow> Some e
                 | None \<Rightarrow> scan_structure r maxClaims m lastOrdinal ts))
      | LedgerAuditOther _ \<Rightarrow> Some TombstoneKindInvalid)"

text \<open>Fourth loop: no claim lies beyond the reservation of a retained attempt.\<close>

fun scan_reservations :: "(u64 \<rightharpoonup> tombstone) \<Rightarrow> tombstone list \<Rightarrow> ledger_error outcome" where
  "scan_reservations m [] = None"
| "scan_reservations m (t # ts) =
     (if tsObjectKind t = LedgerAuditClaim
       \<and> (case m (tsAttemptTerminalSequence t) of
            None \<Rightarrow> False
          | Some a \<Rightarrow> tsObjectKind a = LedgerAuditAttempt \<and> tsClaimOrdinal t \<ge> tsClaimCount a)
      then Some RestartClaimReservation
      else scan_reservations m ts)"

definition validateLedgerRestartState ::
    "restart_state \<Rightarrow> ledger_limits \<Rightarrow> ledger_error outcome" where
  "validateLedgerRestartState r limits =
     (if rsSchemaVersion r \<noteq> 1 \<or> int (length (rsAuditTombstones r)) > AuditTombstoneLimit limits
       \<or> (rsSequenceExhausted r \<and> rsNextTerminalSequence r \<noteq> 0)
       \<or> (\<not> rsSequenceExhausted r \<and> rsNextTerminalSequence r = 0)
      then Some RestartStateInvalid
      else if rsTruncatedThrough r > end_sequence r then Some RestartTruncationWatermark
      else if rsAuditTombstones r = []
      then (if rsTruncatedThrough r \<noteq> end_sequence r then Some RestartEmptyHistory else None)
      else if rsTruncatedThrough r = MaxUint64 then Some RestartExhaustedWatermark
      else (case scan_sequences r (AuditTombstoneMaxEncodedBytes limits) None Map.empty
                   (rsAuditTombstones r) of
              Inl e \<Rightarrow> Some e
            | Inr (previous, m) \<Rightarrow>
                if previous \<noteq> end_sequence r then Some RestartHistoryEnd
                else (case scan_truncated_claims r 0 0 False (rsAuditTombstones r) of
                        Some e \<Rightarrow> Some e
                      | None \<Rightarrow>
                  (case scan_structure r (MaxClaimEntriesPerAttempt limits) m Map.empty
                          (rsAuditTombstones r) of
                     Some e \<Rightarrow> Some e
                   | None \<Rightarrow>
                  (case scan_reservations m (rsAuditTombstones r) of
                     Some e \<Rightarrow> Some e
                   | None \<Rightarrow>
                  (case marshalBounded_restart r of
                     Inl _ \<Rightarrow> Some RestartAggregate
                   | Inr _ \<Rightarrow> None))))))"

definition maximumLedgerRestartValidationLimits :: ledger_limits where
  "maximumLedgerRestartValidationLimits = DefaultLedgerLimits\<lparr>
     MaxClaimEntriesPerAttempt := int MaxProfileDependencies,
     AuditTombstoneLimit := int (MaxSerializedContractBytes div 64),
     AuditTombstoneMaxEncodedBytes := int MaxSerializedContractBytes\<rparr>"

definition MarshalRestartState :: "restart_state \<Rightarrow> ledger_error + string" where
  "MarshalRestartState r =
     (case validateLedgerRestartState r maximumLedgerRestartValidationLimits of
        Some e \<Rightarrow> Inl e
      | None \<Rightarrow> marshalBounded_restart r)"

definition tombstone_map :: "tombstone list \<Rightarrow> (u64 \<rightharpoonup> tombstone)" where
  "tombstone_map ts = foldl (\<lambda>m t. m(tsTerminalSequence t \<mapsto> t)) Map.empty ts"

definition CoversTerminalWatermark :: "restart_state \<Rightarrow> restart_state \<Rightarrow> bool" where
  "CoversTerminalWatermark restart prior \<longleftrightarrow>
     (let limits = maximumLedgerRestartValidationLimits in
      if validateLedgerRestartState restart limits \<noteq> None
        \<or> validateLedgerRestartState prior limits \<noteq> None then False
      else if rsSequenceExhausted prior \<and> \<not> rsSequenceExhausted restart then False
      else if \<not> rsSequenceExhausted restart \<and> \<not> rsSequenceExhausted prior
        \<and> rsNextTerminalSequence restart < rsNextTerminalSequence prior then False
      else list_all (\<lambda>t. tsTerminalSequence t \<le> rsTruncatedThrough restart
             \<or> tombstone_map (rsAuditTombstones restart) (tsTerminalSequence t) = Some t)
           (rsAuditTombstones prior))"

definition ledgerRestartStatesEqual :: "restart_state \<Rightarrow> restart_state \<Rightarrow> bool" where
  "ledgerRestartStatesEqual first second \<longleftrightarrow>
     rsSchemaVersion first = rsSchemaVersion second
     \<and> rsNextTerminalSequence first = rsNextTerminalSequence second
     \<and> rsSequenceExhausted first = rsSequenceExhausted second
     \<and> rsTruncatedThrough first = rsTruncatedThrough second
     \<and> length (rsAuditTombstones first) = length (rsAuditTombstones second)
     \<and> list_all2 (=) (rsAuditTombstones first) (rsAuditTombstones second)"


section \<open>Encodings of valid tombstones\<close>

lemma json_field_length [simp]: "length (json_field name val) = length name + length val + 3"
  by (simp add: json_field_def json_quote_def)

lemma json_quote_length [simp]: "length (json_quote s) = length s + 2"
  by (simp add: json_quote_def)

lemma validateTombstone_cases:
  assumes "validateLedgerAuditTombstone t = None"
  obtains (attempt) "tsObjectKind t = LedgerAuditAttempt" "tsSchemaVersion t = 1"
      "tsTerminalSequence t \<noteq> 0" "tsClaimCount t \<noteq> 0" "tsAttemptTerminalSequence t = 0"
      "tsClaimOrdinal t = 0" "validAttemptTerminalOutcome (tsTerminalOutcome t)"
    | (claim) "tsObjectKind t = LedgerAuditClaim" "tsSchemaVersion t = 1"
      "tsTerminalSequence t \<noteq> 0" "tsClaimCount t = 0" "tsAttemptTerminalSequence t \<noteq> 0"
      "validClaimOutcome (tsTerminalOutcome t)"
  using assms
  by (cases "tsObjectKind t") (auto simp: validateLedgerAuditTombstone_def split: if_splits)

lemma marshalTombstone_Inr:
  "marshalTombstone t = Inr s \<longleftrightarrow>
     validateLedgerAuditTombstone t = None
     \<and> s = (if tsObjectKind t = LedgerAuditAttempt then attempt_json t else claim_json t)"
  by (cases "tsObjectKind t")
     (auto simp: marshalTombstone_def validateLedgerAuditTombstone_def split: if_splits)

lemma marshalTombstone_total:
  "validateLedgerAuditTombstone t = None \<Longrightarrow> \<exists>s. marshalTombstone t = Inr s"
  by (simp add: marshalTombstone_Inr)

lemma valid_attempt_outcome_length:
  "validAttemptTerminalOutcome s \<Longrightarrow> 9 \<le> length s \<and> length s \<le> 14"
  by (auto simp: validAttemptTerminalOutcome_def)

lemma valid_claim_outcome_length:
  "validClaimOutcome s \<Longrightarrow> 15 \<le> length s \<and> length s \<le> 23"
  by (auto simp: validClaimOutcome_def)

lemma json_u64_le_max: "length (json_u64 n) \<le> length (json_u64 MaxUint64)"
  unfolding json_u64_def by (rule dec_length_mono) (simp flip: word_le_nat_alt)

lemma json_u64_mono: "m \<le> n \<Longrightarrow> length (json_u64 m) \<le> length (json_u64 n)"
  unfolding json_u64_def by (rule dec_length_mono) (simp add: word_le_nat_alt)

lemma attempt_json_length:
  "length (attempt_json t) = 102 + length (json_u64 (tsTerminalSequence t))
     + length (json_u64 (tsClaimCount t)) + length (tsTerminalOutcome t)"
  by (simp add: attempt_json_def dec_small)

lemma claim_json_length:
  "length (claim_json t) = 131 + length (json_u64 (tsTerminalSequence t))
     + length (json_u64 (tsAttemptTerminalSequence t)) + length (json_u64 (tsClaimOrdinal t))
     + length (tsTerminalOutcome t)"
  by (simp add: claim_json_def dec_small)


section \<open>Consecutive sequences\<close>

abbreviation seq_nat :: "tombstone \<Rightarrow> nat" where
  "seq_nat t \<equiv> unat (tsTerminalSequence t)"

definition encodes_tombstone :: "int \<Rightarrow> tombstone \<Rightarrow> bool" where
  "encodes_tombstone maximum t \<longleftrightarrow> (\<exists>s. marshalTombstone t = Inr s \<and> int (length s) \<le> maximum)"

definition put_tombstones :: "(u64 \<rightharpoonup> tombstone) \<Rightarrow> tombstone list \<Rightarrow> (u64 \<rightharpoonup> tombstone)" where
  "put_tombstones m ts = foldl (\<lambda>m t. m(tsTerminalSequence t \<mapsto> t)) m ts"

lemma put_tombstones_Nil [simp]: "put_tombstones m [] = m"
  by (simp add: put_tombstones_def)

lemma put_tombstones_Cons [simp]:
  "put_tombstones m (t # ts) = put_tombstones (m(tsTerminalSequence t \<mapsto> t)) ts"
  by (simp add: put_tombstones_def)

lemma scan_sequences_after:
  assumes "scan_sequences r maximum (Some p) m ts = Inr (q, m')"
  shows "map seq_nat ts = [Suc (unat p) ..< Suc (unat p) + length ts]
    \<and> unat q = unat p + length ts \<and> m' = put_tombstones m ts
    \<and> list_all (encodes_tombstone maximum) ts"
  using assms
proof (induction ts arbitrary: p m)
  case Nil
  then show ?case by auto
next
  case (Cons t ts)
  from Cons.prems have ne: "p \<noteq> MaxUint64" and t: "tsTerminalSequence t = p + 1"
    and enc: "encodes_tombstone maximum t"
    and rest: "scan_sequences r maximum (Some (tsTerminalSequence t))
      (m(tsTerminalSequence t \<mapsto> t)) ts = Inr (q, m')"
    by (auto simp: encodes_tombstone_def split: if_splits sum.splits)
  have st: "seq_nat t = Suc (unat p)" using ne t by (simp add: unat_Suc_below_max)
  from Cons.IH [OF rest] st enc show ?case
    by (simp add: upt_conv_Cons fun_upd_def del: upt_Suc)
qed

lemma scan_sequences_start:
  assumes "scan_sequences r maximum None Map.empty ts = Inr (q, m)" and "ts \<noteq> []"
    and "rsTruncatedThrough r \<noteq> MaxUint64"
  shows "map seq_nat ts =
      [Suc (unat (rsTruncatedThrough r)) ..< Suc (unat (rsTruncatedThrough r)) + length ts]
    \<and> unat q = unat (rsTruncatedThrough r) + length ts \<and> m = put_tombstones Map.empty ts
    \<and> list_all (encodes_tombstone maximum) ts"
proof -
  obtain t ts' where ts: "ts = t # ts'" using assms(2) by (cases ts) auto
  from assms(1) ts have t: "tsTerminalSequence t = rsTruncatedThrough r + 1"
    and enc: "encodes_tombstone maximum t"
    and rest: "scan_sequences r maximum (Some (tsTerminalSequence t))
      [tsTerminalSequence t \<mapsto> t] ts' = Inr (q, m)"
    by (auto simp: encodes_tombstone_def split: if_splits sum.splits)
  have st: "seq_nat t = Suc (unat (rsTruncatedThrough r))"
    using assms(3) t by (simp add: unat_Suc_below_max)
  from scan_sequences_after [OF rest] st enc show ?thesis
    by (simp add: ts upt_conv_Cons fun_upd_def del: upt_Suc)
qed

lemma put_tombstones_lookup:
  assumes "distinct (map tsTerminalSequence ts)"
  shows "put_tombstones m ts k =
    (case find (\<lambda>t. tsTerminalSequence t = k) ts of Some t \<Rightarrow> Some t | None \<Rightarrow> m k)"
  using assms
proof (induction ts arbitrary: m)
  case Nil
  then show ?case by simp
next
  case (Cons t ts)
  have "find (\<lambda>x. tsTerminalSequence x = tsTerminalSequence t) ts = None"
    using Cons.prems unfolding find_None_iff by (simp add: image_iff) metis
  with Cons show ?case by (auto split: option.splits)
qed

lemma put_tombstones_iff:
  assumes "distinct (map tsTerminalSequence ts)"
  shows "put_tombstones Map.empty ts k = Some t \<longleftrightarrow> t \<in> set ts \<and> tsTerminalSequence t = k"
proof (cases "find (\<lambda>t. tsTerminalSequence t = k) ts")
  case None
  then have "\<forall>x \<in> set ts. tsTerminalSequence x \<noteq> k" by (simp add: find_None_iff)
  with None show ?thesis using assms by (auto simp: put_tombstones_lookup)
next
  case (Some x)
  then have x: "x \<in> set ts" "tsTerminalSequence x = k"
    by (auto simp: find_Some_iff)
  have "inj_on tsTerminalSequence (set ts)" using assms by (simp add: distinct_map)
  with x have "t \<in> set ts \<and> tsTerminalSequence t = k \<longleftrightarrow> t = x"
    by (auto dest: inj_onD)
  then show ?thesis using assms Some by (auto simp: put_tombstones_lookup)
qed

section \<open>What validation establishes\<close>

lemma validate_restart_cases:
  assumes "validateLedgerRestartState r limits = None"
  obtains (empty) "rsAuditTombstones r = []" "rsTruncatedThrough r = end_sequence r"
      "rsSchemaVersion r = 1" "rsSequenceExhausted r \<longleftrightarrow> rsNextTerminalSequence r = 0"
    | (history) m where "rsAuditTombstones r \<noteq> []" "rsTruncatedThrough r \<noteq> MaxUint64"
      "rsSchemaVersion r = 1" "rsSequenceExhausted r \<longleftrightarrow> rsNextTerminalSequence r = 0"
      "int (length (rsAuditTombstones r)) \<le> AuditTombstoneLimit limits"
      "scan_sequences r (AuditTombstoneMaxEncodedBytes limits) None Map.empty
         (rsAuditTombstones r) = Inr (end_sequence r, m)"
      "scan_truncated_claims r 0 0 False (rsAuditTombstones r) = None"
      "scan_structure r (MaxClaimEntriesPerAttempt limits) m Map.empty (rsAuditTombstones r) = None"
      "scan_reservations m (rsAuditTombstones r) = None"
      "\<exists>s. marshalBounded_restart r = Inr s"
proof (cases "rsAuditTombstones r = []")
  case True
  with assms empty show ?thesis
    by (auto simp: validateLedgerRestartState_def split: if_splits)
next
  case False
  then obtain q m where scan: "scan_sequences r (AuditTombstoneMaxEncodedBytes limits) None
      Map.empty (rsAuditTombstones r) = Inr (q, m)"
    using assms
    by (cases "scan_sequences r (AuditTombstoneMaxEncodedBytes limits) None Map.empty
          (rsAuditTombstones r)")
       (auto simp: validateLedgerRestartState_def split: if_splits)
  with assms False show ?thesis
    by (intro history [of m])
       (auto simp: validateLedgerRestartState_def split: if_splits option.splits sum.splits)
qed

lemma restart_history_consecutive:
  assumes "validateLedgerRestartState r limits = None"
  shows "map seq_nat (rsAuditTombstones r) =
    [Suc (unat (rsTruncatedThrough r)) ..< Suc (unat (end_sequence r))]"
  using assms
proof (cases rule: validate_restart_cases)
  case empty
  then show ?thesis by simp
next
  case (history m)
  from scan_sequences_start [OF history(6) history(1) history(2)] show ?thesis by simp
qed

lemma restart_sequences_distinct:
  assumes "validateLedgerRestartState r limits = None"
  shows "distinct (map tsTerminalSequence (rsAuditTombstones r))"
proof -
  have "distinct (map seq_nat (rsAuditTombstones r))"
    by (simp add: restart_history_consecutive [OF assms])
  then have "distinct (map unat (map tsTerminalSequence (rsAuditTombstones r)))"
    by (simp add: comp_def)
  then show ?thesis by (simp only: distinct_map)
qed

lemma restart_sequence_in:
  assumes "validateLedgerRestartState r limits = None" and "t \<in> set (rsAuditTombstones r)"
  shows "rsTruncatedThrough r < tsTerminalSequence t \<and> tsTerminalSequence t \<le> end_sequence r"
proof -
  have "seq_nat t \<in> set (map seq_nat (rsAuditTombstones r))" using assms(2) by simp
  then show ?thesis
    unfolding restart_history_consecutive [OF assms(1)]
    by (auto simp: word_less_nat_alt word_le_nat_alt)
qed

lemma restart_sequence_covered:
  assumes "validateLedgerRestartState r limits = None"
    and "rsTruncatedThrough r < k" and "k \<le> end_sequence r"
  shows "\<exists>t \<in> set (rsAuditTombstones r). tsTerminalSequence t = k"
proof -
  have "unat k \<in> set (map seq_nat (rsAuditTombstones r))"
    unfolding restart_history_consecutive [OF assms(1)]
    using assms(2,3) by (auto simp: word_less_nat_alt word_le_nat_alt)
  then show ?thesis by (auto simp: word_unat_eq_iff)
qed

lemma restart_tombstones_encode:
  assumes "validateLedgerRestartState r limits = None"
  shows "list_all (encodes_tombstone (AuditTombstoneMaxEncodedBytes limits)) (rsAuditTombstones r)"
  using assms
proof (cases rule: validate_restart_cases)
  case empty
  then show ?thesis by simp
next
  case (history m)
  from scan_sequences_start [OF history(6) history(1) history(2)] show ?thesis by simp
qed

lemma restart_map:
  assumes "validateLedgerRestartState r limits = None"
  shows "tombstone_map (rsAuditTombstones r) k = Some t \<longleftrightarrow>
    t \<in> set (rsAuditTombstones r) \<and> tsTerminalSequence t = k"
  using put_tombstones_iff [OF restart_sequences_distinct [OF assms]]
  by (simp add: tombstone_map_def put_tombstones_def)


lemma scan_structure_tail:
  "scan_structure r mc m lo (t # ts) = None \<Longrightarrow> \<exists>lo'. scan_structure r mc m lo' ts = None"
  by (cases "tsObjectKind t") (auto simp: Let_def split: if_splits option.splits)

lemma scan_structure_drop:
  "scan_structure r mc m lo ts = None \<Longrightarrow> \<exists>lo'. scan_structure r mc m lo' (drop i ts) = None"
proof (induction i arbitrary: lo ts)
  case 0
  then show ?case by auto
next
  case (Suc i)
  show ?case
  proof (cases ts)
    case Nil
    then show ?thesis by simp
  next
    case (Cons t ts')
    with Suc.prems obtain lo' where "scan_structure r mc m lo' ts' = None"
      using scan_structure_tail by blast
    from Suc.IH [OF this] Cons show ?thesis by simp
  qed
qed

definition interval_claim :: "tombstone \<Rightarrow> nat \<Rightarrow> tombstone \<Rightarrow> bool" where
  "interval_claim a k c \<longleftrightarrow>
     tsObjectKind c = LedgerAuditClaim \<and> tsAttemptTerminalSequence c = tsTerminalSequence a
     \<and> tsClaimOrdinal c = of_nat k
     \<and> (tsTerminalOutcome a \<in> attempt_phase_string ` {AttemptPublished, AttemptPublishFailed}
        \<longrightarrow> tsTerminalOutcome c = claim_outcome_string ClaimSucceeded)"

lemma check_interval_None:
  "check_interval a (of_nat n) cs = None \<Longrightarrow> k < length cs \<Longrightarrow> interval_claim a (n + k) (cs ! k)"
proof (induction cs arbitrary: n k)
  case Nil
  then show ?case by simp
next
  case (Cons c cs)
  from Cons.prems(1) have c: "interval_claim a n c" and rest: "check_interval a (of_nat (Suc n)) cs = None"
    by (auto simp: interval_claim_def add.commute split: if_splits)
  show ?case
  proof (cases k)
    case 0
    with c show ?thesis by simp
  next
    case (Suc k')
    with Cons.IH [OF rest, of k'] Cons.prems(2) show ?thesis by simp
  qed
qed

lemma restart_attempt_interval:
  assumes valid: "validateLedgerRestartState r limits = None"
    and i: "i < length (rsAuditTombstones r)"
    and kind: "tsObjectKind (rsAuditTombstones r ! i) = LedgerAuditAttempt"
  shows "0 < unat (tsClaimCount (rsAuditTombstones r ! i))
    \<and> i + unat (tsClaimCount (rsAuditTombstones r ! i)) < length (rsAuditTombstones r)
    \<and> (\<forall>k < unat (tsClaimCount (rsAuditTombstones r ! i)).
         interval_claim (rsAuditTombstones r ! i) k (rsAuditTombstones r ! Suc (i + k)))"
proof -
  let ?ts = "rsAuditTombstones r"
  from valid i have "scan_structure r (MaxClaimEntriesPerAttempt limits)
      (put_tombstones Map.empty ?ts) Map.empty ?ts = None"
    by (cases rule: validate_restart_cases) (use scan_sequences_start in fastforce)+
  then obtain lo where "scan_structure r (MaxClaimEntriesPerAttempt limits)
      (put_tombstones Map.empty ?ts) lo (?ts ! i # drop (Suc i) ?ts) = None"
    using scan_structure_drop i by (metis Cons_nth_drop_Suc)
  with kind have len: "unat (tsClaimCount (?ts ! i)) \<le> length (drop (Suc i) ?ts)"
    and cs: "check_interval (?ts ! i) 0 (take (unat (tsClaimCount (?ts ! i))) (drop (Suc i) ?ts)) = None"
    by (auto split: if_splits option.splits)
  have "encodes_tombstone (AuditTombstoneMaxEncodedBytes limits) (?ts ! i)"
    using restart_tombstones_encode [OF valid] i by (simp add: list_all_length)
  then have "tsClaimCount (?ts ! i) \<noteq> 0"
    using kind by (auto simp: encodes_tombstone_def marshalTombstone_Inr elim: validateTombstone_cases)
  then have "0 < unat (tsClaimCount (?ts ! i))" by (simp add: unat_gt_0)
  moreover have "interval_claim (?ts ! i) k (?ts ! Suc (i + k))"
    if "k < unat (tsClaimCount (?ts ! i))" for k
    using check_interval_None [of "?ts ! i" 0
        "take (unat (tsClaimCount (?ts ! i))) (drop (Suc i) ?ts)" k] cs that len by simp
  ultimately show ?thesis using len i by auto
qed

section \<open>Coverage of a watermark\<close>

lemma end_sequence_valid:
  assumes "validateLedgerRestartState r limits = None"
  shows "rsTruncatedThrough r \<le> end_sequence r"
  using assms by (auto simp: validateLedgerRestartState_def split: if_splits)

lemma covers_reflexive:
  assumes "validateLedgerRestartState r maximumLedgerRestartValidationLimits = None"
  shows "CoversTerminalWatermark r r"
  using assms by (auto simp: CoversTerminalWatermark_def Let_def list_all_iff restart_map [OF assms])

lemma covers_transitive:
  assumes ab: "CoversTerminalWatermark a b" and bc: "CoversTerminalWatermark b c"
    and trunc: "rsTruncatedThrough b \<le> rsTruncatedThrough a"
  shows "CoversTerminalWatermark a c"
proof -
  have va: "validateLedgerRestartState a maximumLedgerRestartValidationLimits = None"
    and vb: "validateLedgerRestartState b maximumLedgerRestartValidationLimits = None"
    and vc: "validateLedgerRestartState c maximumLedgerRestartValidationLimits = None"
    using ab bc by (auto simp: CoversTerminalWatermark_def Let_def split: if_splits)
  have "tsTerminalSequence t \<le> rsTruncatedThrough a
      \<or> tombstone_map (rsAuditTombstones a) (tsTerminalSequence t) = Some t"
    if t: "t \<in> set (rsAuditTombstones c)" for t
  proof (cases "tsTerminalSequence t \<le> rsTruncatedThrough b")
    case True
    with trunc show ?thesis by (blast intro: order_trans)
  next
    case False
    with t bc have "t \<in> set (rsAuditTombstones b)"
      using restart_map [OF vb]
      by (auto simp: CoversTerminalWatermark_def Let_def list_all_iff split: if_splits)
    then show ?thesis
      using ab by (auto simp: CoversTerminalWatermark_def Let_def list_all_iff split: if_splits)
  qed
  then show ?thesis
    using ab bc va vc
    by (auto simp: CoversTerminalWatermark_def Let_def list_all_iff split: if_splits)
qed


section \<open>The aggregate bounds of a restart state\<close>

definition valid_tombstone :: "tombstone \<Rightarrow> bool" where
  "valid_tombstone t \<longleftrightarrow> validateLedgerAuditTombstone t = None"

lemma encodes_valid: "encodes_tombstone maximum t \<Longrightarrow> valid_tombstone t"
  by (auto simp: encodes_tombstone_def marshalTombstone_Inr valid_tombstone_def)

lemma tombstone_agg_cost:
  "agg_cost (tombstone_agg t) =
     606 + 6 * (length (audit_kind_string (tsObjectKind t)) + length (tsTerminalOutcome t))"
  by (simp add: tombstone_agg_def skipped_field_def)

lemma valid_tombstone_cost:
  assumes "valid_tombstone t"
  shows "702 \<le> agg_cost (tombstone_agg t) \<and> agg_cost (tombstone_agg t) \<le> 774"
proof -
  from assms have "validateLedgerAuditTombstone t = None" by (simp add: valid_tombstone_def)
  then show ?thesis
  proof (cases rule: validateTombstone_cases)
    case attempt
    then show ?thesis
      using valid_attempt_outcome_length [of "tsTerminalOutcome t"]
      by (simp add: tombstone_agg_cost)
  next
    case claim
    then show ?thesis
      using valid_claim_outcome_length [of "tsTerminalOutcome t"]
      by (simp add: tombstone_agg_cost)
  qed
qed

lemma valid_tombstone_shape:
  assumes "valid_tombstone t"
  shows "agg_shape 3 (tombstone_agg t)"
proof -
  have "length (audit_kind_string (tsObjectKind t)) \<le> 7 \<and> length (tsTerminalOutcome t) \<le> 23"
    using assms unfolding valid_tombstone_def
    by (auto elim!: validateTombstone_cases
        dest!: valid_attempt_outcome_length valid_claim_outcome_length)
  then show ?thesis
    by (simp add: tombstone_agg_def agg_shape.simps contract_consts)
qed

lemma restart_agg_cost:
  "agg_cost (restart_agg r) =
     434 + sum_list (map (\<lambda>t. 8 + agg_cost (tombstone_agg t)) (rsAuditTombstones r))"
  by (simp add: restart_agg_def skipped_field_def comp_def sum_list_addf sum_list_triv)

lemma sum_list_between:
  fixes f :: "'a \<Rightarrow> nat"
  assumes "\<And>x. x \<in> set xs \<Longrightarrow> lo \<le> f x \<and> f x \<le> hi"
  shows "lo * length xs \<le> sum_list (map f xs) \<and> sum_list (map f xs) \<le> hi * length xs"
  using assms by (induction xs) (auto, fastforce+)

lemma restart_cost_between:
  assumes "list_all valid_tombstone (rsAuditTombstones r)"
  shows "434 + 710 * length (rsAuditTombstones r) \<le> agg_cost (restart_agg r)
    \<and> agg_cost (restart_agg r) \<le> 434 + 782 * length (rsAuditTombstones r)"
proof -
  have "710 \<le> 8 + agg_cost (tombstone_agg t) \<and> 8 + agg_cost (tombstone_agg t) \<le> 782"
    if "t \<in> set (rsAuditTombstones r)" for t
    using assms that valid_tombstone_cost [of t] by (auto simp: list_all_iff)
  from sum_list_between [of "rsAuditTombstones r", OF this]
  show ?thesis by (simp add: restart_agg_cost)
qed

lemma preflightAggregate_single:
  "preflightAggregate [v] = None \<longleftrightarrow> agg_shape 1 v \<and> agg_cost v \<le> 4194304"
  unfolding preflightAggregate_def preflight_from_iff by (simp add: contract_consts)

lemma restart_budget_fits:
  assumes "list_all valid_tombstone (rsAuditTombstones r)" and "length (rsAuditTombstones r) \<le> 5363"
  shows "preflightAggregate [restart_agg r] = None"
proof -
  have "agg_shape 1 (restart_agg r)"
    using assms by (auto simp: restart_agg_def agg_shape.simps [of "Suc _"] contract_consts
        list_all_iff numeral_3_eq_3 [symmetric] valid_tombstone_shape)
  moreover have "agg_cost (restart_agg r) \<le> 4194304"
    using restart_cost_between [OF assms(1)] assms(2) by linarith
  ultimately show ?thesis by (simp only: preflightAggregate_single)
qed

lemma restart_budget_overrun:
  assumes "list_all valid_tombstone (rsAuditTombstones r)" and "5907 < length (rsAuditTombstones r)"
  shows "preflightAggregate [restart_agg r] \<noteq> None"
  using restart_cost_between [OF assms(1)] assms(2) unfolding preflightAggregate_single
  by linarith

lemma restart_overrun_rejected:
  assumes "list_all valid_tombstone (rsAuditTombstones r)" and "5907 < length (rsAuditTombstones r)"
  shows "validateLedgerRestartState r limits \<noteq> None"
proof
  assume "validateLedgerRestartState r limits = None"
  then show False
  proof (cases rule: validate_restart_cases)
    case empty
    with assms(2) show False by simp
  next
    case (history m)
    with restart_budget_overrun [OF assms] show False by (simp add: marshalBounded_restart_def)
  qed
qed

lemma marshalTombstones_valid:
  assumes "list_all (encodes_tombstone maximum) ts"
  shows "\<exists>ss. marshalTombstones ts = Inr ss \<and> length ss = length ts
    \<and> (\<forall>s \<in> set ss. int (length s) \<le> maximum)"
  using assms by (induction ts) (auto simp: encodes_tombstone_def)

lemma json_list_length:
  "length (json_list ss) = sum_list (map length ss) + (length ss - 1)"
  by (induction ss rule: json_list.induct) auto

lemma json_u64_length: "length (json_u64 n) \<le> 20"
  by (simp add: json_u64_def dec_length_u64)

lemma restart_json_length:
  assumes "rsSchemaVersion r = 1"
  shows "length (restart_json r ss) \<le> 165 + sum_list (map length ss) + (length ss - 1)"
  using assms json_u64_length [of "rsNextTerminalSequence r"]
    json_u64_length [of "rsTruncatedThrough r"]
  by (simp add: restart_json_def json_int_def dec_small json_list_length)

lemma valid_tombstone_encodes:
  assumes "valid_tombstone t" and "214 \<le> maximum"
  shows "encodes_tombstone maximum t"
proof -
  from assms(1) have v: "validateLedgerAuditTombstone t = None" by (simp add: valid_tombstone_def)
  then have "length (if tsObjectKind t = LedgerAuditAttempt then attempt_json t else claim_json t) \<le> 214"
  proof (cases rule: validateTombstone_cases)
    case attempt
    then show ?thesis
      using valid_attempt_outcome_length [of "tsTerminalOutcome t"]
        json_u64_length [of "tsTerminalSequence t"] json_u64_length [of "tsClaimCount t"]
      by (simp add: attempt_json_length)
  next
    case claim
    then show ?thesis
      using valid_claim_outcome_length [of "tsTerminalOutcome t"]
        json_u64_length [of "tsTerminalSequence t"] json_u64_length [of "tsClaimOrdinal t"]
        json_u64_length [of "tsAttemptTerminalSequence t"]
      by (simp add: claim_json_length)
  qed
  with v assms(2) show ?thesis by (auto simp: encodes_tombstone_def marshalTombstone_Inr)
qed

lemma restart_marshals:
  assumes valid: "list_all valid_tombstone (rsAuditTombstones r)"
    and schema: "rsSchemaVersion r = 1" and n: "length (rsAuditTombstones r) \<le> 5363"
  shows "\<exists>s. marshalBounded_restart r = Inr s"
proof -
  have "list_all (encodes_tombstone 214) (rsAuditTombstones r)"
    using valid by (auto simp: list_all_iff valid_tombstone_encodes)
  then obtain ss where ss: "marshalTombstones (rsAuditTombstones r) = Inr ss"
    "length ss = length (rsAuditTombstones r)" and each: "\<forall>s \<in> set ss. int (length s) \<le> 214"
    using marshalTombstones_valid by blast
  have "sum_list (map length ss) \<le> 214 * length ss"
    using sum_list_between [of ss 0 length 214] each by auto
  then have "length (restart_json r ss) + 1 \<le> 4194304"
    using restart_json_length [OF schema, of ss] ss(2) n by linarith
  with restart_budget_fits [OF valid n] ss(1) show ?thesis
    by (simp add: marshalBounded_restart_def contract_consts)
qed

section \<open>A concrete restart state\<close>

definition example_attempt :: tombstone where
  "example_attempt = \<lparr>tsSchemaVersion = 1, tsObjectKind = LedgerAuditAttempt,
     tsTerminalSequence = 3, tsClaimCount = 2, tsAttemptTerminalSequence = 0, tsClaimOrdinal = 0,
     tsTerminalOutcome = ''published''\<rparr>"

definition example_claim :: "u64 \<Rightarrow> tombstone" where
  "example_claim ordinal = \<lparr>tsSchemaVersion = 1, tsObjectKind = LedgerAuditClaim,
     tsTerminalSequence = 4 + ordinal, tsClaimCount = 0, tsAttemptTerminalSequence = 3,
     tsClaimOrdinal = ordinal, tsTerminalOutcome = ''claim_succeeded''\<rparr>"

definition example_restart :: restart_state where
  "example_restart = \<lparr>rsSchemaVersion = 1, rsNextTerminalSequence = 6,
     rsSequenceExhausted = False, rsTruncatedThrough = 2,
     rsAuditTombstones = [example_attempt, example_claim 0, example_claim 1]\<rparr>"

lemma encodes_case:
  "encodes_tombstone maximum t \<Longrightarrow>
    (case marshalTombstone t of Inl _ \<Rightarrow> True | Inr s \<Rightarrow> maximum < int (length s)) = False"
  by (auto simp: encodes_tombstone_def)

lemma example_attempt_valid: "valid_tombstone example_attempt"
  by (simp add: valid_tombstone_def validateLedgerAuditTombstone_def example_attempt_def
      validAttemptTerminalOutcome_def)

lemma example_claim_valid: "4 + ordinal \<noteq> 0 \<Longrightarrow> valid_tombstone (example_claim ordinal)"
  by (simp add: valid_tombstone_def validateLedgerAuditTombstone_def example_claim_def
      validClaimOutcome_def)

lemma example_restart_valid_within:
  assumes "214 \<le> AuditTombstoneMaxEncodedBytes limits"
    and "3 \<le> AuditTombstoneLimit limits" and "MaxClaimEntriesPerAttempt limits = 4096"
  shows "validateLedgerRestartState example_restart limits = None"
proof -
  have enc: "encodes_tombstone (AuditTombstoneMaxEncodedBytes limits) example_attempt"
    "encodes_tombstone (AuditTombstoneMaxEncodedBytes limits) (example_claim 0)"
    "encodes_tombstone (AuditTombstoneMaxEncodedBytes limits) (example_claim 1)"
    using assms(1) by (simp_all add: valid_tombstone_encodes example_attempt_valid example_claim_valid)
  have "\<exists>s. marshalBounded_restart example_restart = Inr s"
    by (rule restart_marshals)
       (simp_all add: example_restart_def example_attempt_valid example_claim_valid)
  then obtain s where s: "marshalBounded_restart example_restart = Inr s" ..
  let ?m = "[3 \<mapsto> example_attempt, 4 \<mapsto> example_claim 0, 5 \<mapsto> example_claim 1]"
  have scan: "scan_sequences example_restart (AuditTombstoneMaxEncodedBytes limits) None Map.empty
      [example_attempt, example_claim 0, example_claim 1] = Inr (5, ?m)"
    by (simp add: encodes_case [OF enc(1)] encodes_case [OF enc(2)] encodes_case [OF enc(3)])
       (simp add: example_restart_def example_attempt_def example_claim_def)
  have fields: "rsAuditTombstones example_restart = [example_attempt, example_claim 0, example_claim 1]"
    "rsSchemaVersion example_restart = 1" "rsNextTerminalSequence example_restart = 6"
    "\<not> rsSequenceExhausted example_restart" "rsTruncatedThrough example_restart = 2"
    "end_sequence example_restart = 5"
    by (simp_all add: example_restart_def end_sequence_def)
  have layout: "scan_truncated_claims example_restart 0 0 False
      [example_attempt, example_claim 0, example_claim 1] = None"
    "scan_structure example_restart 4096 ?m Map.empty
      [example_attempt, example_claim 0, example_claim 1] = None"
    "scan_reservations ?m [example_attempt, example_claim 0, example_claim 1] = None"
    by (simp_all add: fields example_attempt_def example_claim_def Let_def word_le_nat_alt
        word_less_nat_alt)
  show ?thesis
    using assms(2,3) s scan layout by (simp add: validateLedgerRestartState_def fields)
qed

lemma example_restart_valid: "validateLedgerRestartState example_restart DefaultLedgerLimits = None"
  by (rule example_restart_valid_within) (simp_all add: DefaultLedgerLimits_def contract_consts)

lemma example_restart_valid_max:
  "validateLedgerRestartState example_restart maximumLedgerRestartValidationLimits = None"
  by (rule example_restart_valid_within)
     (simp_all add: maximumLedgerRestartValidationLimits_def DefaultLedgerLimits_def contract_consts)

section \<open>Properties\<close>

text \<open>The retained audit history of every restart state the validator accepts is gapless: its
  terminal sequences are exactly those after the truncation watermark up to the last issued
  sequence, each once and in order, and every record encodes within the configured bound.\<close>
theorem restart_history_gapless:
  assumes "validateLedgerRestartState r limits = None"
  shows "map (\<lambda>t. unat (tsTerminalSequence t)) (rsAuditTombstones r) =
      [Suc (unat (rsTruncatedThrough r)) ..< Suc (unat (end_sequence r))]
    \<and> list_all (encodes_tombstone (AuditTombstoneMaxEncodedBytes limits)) (rsAuditTombstones r)"
  using restart_history_consecutive [OF assms] restart_tombstones_encode [OF assms] by simp

theorem restart_history_gapless_witness:
  "map (\<lambda>t. unat (tsTerminalSequence t)) (rsAuditTombstones example_restart) = [3, 4, 5]"
  using restart_history_gapless [OF example_restart_valid]
  by (simp add: example_restart_def example_attempt_def example_claim_def)

text \<open>In an accepted restart state every retained attempt is followed immediately by exactly
  its reserved claims: there are that many records after it, the k-th of them is the claim of
  ordinal k of this attempt, and the claims of an attempt whose outcome is a publication are all
  successes.\<close>
theorem restart_attempt_owns_claims:
  assumes "validateLedgerRestartState r limits = None"
    and "i < length (rsAuditTombstones r)"
    and "tsObjectKind (rsAuditTombstones r ! i) = LedgerAuditAttempt"
  shows "0 < unat (tsClaimCount (rsAuditTombstones r ! i))
    \<and> i + unat (tsClaimCount (rsAuditTombstones r ! i)) < length (rsAuditTombstones r)
    \<and> (\<forall>k < unat (tsClaimCount (rsAuditTombstones r ! i)).
         interval_claim (rsAuditTombstones r ! i) k (rsAuditTombstones r ! Suc (i + k)))"
  using restart_attempt_interval [OF assms] .

theorem restart_attempt_owns_claims_witness:
  "interval_claim example_attempt 1 (example_claim 1)"
  using restart_attempt_owns_claims [OF example_restart_valid, of 0]
  by (auto simp: example_restart_def example_attempt_def dest: spec [of _ 1])

text \<open>Watermark coverage is reflexive on accepted states, and composes: a state that covers an
  intermediate one covers everything the intermediate one covers, provided the truncation
  watermark did not move back. So a chain of durable commits never loses an audit record that is
  above the final watermark.\<close>
theorem coverage_composes:
  assumes "CoversTerminalWatermark a b" and "CoversTerminalWatermark b c"
    and "rsTruncatedThrough b \<le> rsTruncatedThrough a"
  shows "CoversTerminalWatermark a a \<and> CoversTerminalWatermark a c"
proof -
  from assms(1) have "validateLedgerRestartState a maximumLedgerRestartValidationLimits = None"
    by (auto simp: CoversTerminalWatermark_def Let_def split: if_splits)
  with covers_reflexive covers_transitive [OF assms] show ?thesis by blast
qed

theorem coverage_composes_witness:
  "CoversTerminalWatermark example_restart example_restart"
  using coverage_composes [OF covers_reflexive [OF example_restart_valid_max]
      covers_reflexive [OF example_restart_valid_max]] by simp

text \<open>The byte budget decides which histories can be stored at all: an accepted state with at
  most 5363 records always has a JSON document, and a state with more than 5907 valid records is
  rejected under every limits value, however large its record limit is.\<close>
theorem restart_storage_threshold:
  assumes "list_all valid_tombstone (rsAuditTombstones r)" and "rsSchemaVersion r = 1"
  shows "(length (rsAuditTombstones r) \<le> 5363 \<longrightarrow> (\<exists>s. marshalBounded_restart r = Inr s))
    \<and> (5907 < length (rsAuditTombstones r) \<longrightarrow> validateLedgerRestartState r limits \<noteq> None)"
proof (intro conjI impI)
  show "\<exists>s. marshalBounded_restart r = Inr s" if "length (rsAuditTombstones r) \<le> 5363"
    using restart_marshals [OF assms that] .
  show "validateLedgerRestartState r limits \<noteq> None" if "5907 < length (rsAuditTombstones r)"
    using restart_overrun_rejected [OF assms(1) that] .
qed

theorem restart_storage_threshold_witness:
  "\<exists>s. marshalBounded_restart example_restart = Inr s"
  using restart_storage_threshold [of example_restart]
  by (simp add: example_restart_def example_attempt_valid example_claim_valid)

end
