(* ===== verification/Ledger_State.thy ===== *)
theory Ledger_State
  imports Ledger_Restart
begin

text \<open>
  The ledger's own state (\<^verbatim>\<open>SampleLedger\<close> without its live attempts): construction from a
  sample state and an optional restart state, reservation of terminal sequences, the audit
  tombstone buffer, and \<^verbatim>\<open>terminalRestartStateLocked\<close>, the monotone join of the durable
  history with the records of one finished attempt.
\<close>

record attempt_identity =
  PollGenerationID :: u64
  RetryOrdinal :: u32

definition zero_identity :: attempt_identity where
  "zero_identity = \<lparr>PollGenerationID = 0, RetryOrdinal = 0\<rparr>"

record sample_state =
  ssSchemaVersion :: version
  ssIssuerDomain :: string
  ssProfileID :: string
  ssProfileVersion :: version
  ssDependencySetID :: string
  ssRevision :: u64
  ssHighWater :: u64
  ssLastCommittedAttempt :: attempt_identity

record ledger_core =
  lgLimits :: ledger_limits
  lgIssuerDomain :: string
  lgProfileID :: string
  lgProfileVersion :: version
  lgDependencySetID :: string
  lgRevision :: u64
  lgHighWater :: u64
  lgLastCommittedAttempt :: attempt_identity
  lgRetainedClaims :: int
  lgNextTerminalSequence :: u64
  lgSequenceExhausted :: bool
  lgDurableNext :: u64
  lgDurableExhausted :: bool
  lgTruncatedThrough :: u64
  lgAuditTombstones :: "tombstone list"

section \<open>Construction\<close>

definition validIssuerDomain :: "string \<Rightarrow> bool" where
  "validIssuerDomain value \<longleftrightarrow>
     length value \<le> MaxSampleIssuerDomainBytes \<and> validIdentity value
     \<and> (\<forall>c \<in> set value. c \<noteq> CHR '':'')"

definition validateSampleLedgerState :: "sample_state \<Rightarrow> u64 \<Rightarrow> ledger_error outcome" where
  "validateSampleLedgerState s trustedMinimumRevision =
     (if ssSchemaVersion s \<noteq> schemaVersionV1
       \<or> \<not> validIssuerDomain (ssIssuerDomain s)
       \<or> \<not> validIdentity (ssProfileID s)
       \<or> \<not> version_valid (ssProfileVersion s)
       \<or> \<not> validDependencySetID (ssDependencySetID s)
       \<or> ssRevision s \<noteq> ssHighWater s
       \<or> ssRevision s < trustedMinimumRevision
       \<or> (ssRevision s = 0 \<and> ssLastCommittedAttempt s \<noteq> zero_identity)
       \<or> (ssRevision s \<noteq> 0 \<and> PollGenerationID (ssLastCommittedAttempt s) = 0)
       \<or> (ssRevision s \<noteq> 0 \<and> PollGenerationID (ssLastCommittedAttempt s) < ssRevision s)
       \<or> (PollGenerationID (ssLastCommittedAttempt s) = 0
          \<and> RetryOrdinal (ssLastCommittedAttempt s) \<noteq> 0)
      then Some SampleStateInvalid else None)"

fun count_publications :: "u64 \<Rightarrow> tombstone list \<Rightarrow> ledger_error + u64" where
  "count_publications n [] = Inr n"
| "count_publications n (t # ts) =
     (if tsObjectKind t = LedgerAuditAttempt
       \<and> tsTerminalOutcome t = attempt_phase_string AttemptPublished
      then (if n = MaxUint64 then Inl PublicationHistory else count_publications (n + 1) ts)
      else count_publications n ts)"

definition validateSampleRestartRelationship ::
    "sample_state \<Rightarrow> restart_state \<Rightarrow> ledger_error outcome" where
  "validateSampleRestartRelationship s r =
     (case count_publications 0 (rsAuditTombstones r) of
        Inl e \<Rightarrow> Some e
      | Inr retained \<Rightarrow>
          if rsTruncatedThrough r = 0 \<and> retained \<noteq> ssRevision s then Some PublicationHistory
          else if rsTruncatedThrough r \<noteq> 0 \<and> retained > ssRevision s then Some PublicationHistory
          else if ssRevision s = 0 then None
          else if ssRevision s > MaxUint64 div 2 then Some SampleCapacity
          else if rsSequenceExhausted r then None
          else if rsNextTerminalSequence r - 1 < ssRevision s * 2 then Some WatermarkPredates
          else None)"

definition largest_attempt_tombstone :: "ledger_limits \<Rightarrow> tombstone" where
  "largest_attempt_tombstone limits = \<lparr>
     tsSchemaVersion = 1, tsObjectKind = LedgerAuditAttempt, tsTerminalSequence = MaxUint64,
     tsClaimCount = word_of_int (MaxClaimEntriesPerAttempt limits),
     tsAttemptTerminalSequence = 0, tsClaimOrdinal = 0,
     tsTerminalOutcome = attempt_phase_string AttemptPublishFailed\<rparr>"

definition largest_claim_tombstone :: tombstone where
  "largest_claim_tombstone = \<lparr>
     tsSchemaVersion = 1, tsObjectKind = LedgerAuditClaim, tsTerminalSequence = MaxUint64,
     tsClaimCount = 0, tsAttemptTerminalSequence = MaxUint64, tsClaimOrdinal = MaxUint64,
     tsTerminalOutcome = claim_outcome_string ClaimRejectedTerminal\<rparr>"

definition encodes_within :: "ledger_limits \<Rightarrow> tombstone \<Rightarrow> bool" where
  "encodes_within limits t \<longleftrightarrow>
     (case marshalTombstone t of
        Inl _ \<Rightarrow> False
      | Inr s \<Rightarrow> int (length s) \<le> AuditTombstoneMaxEncodedBytes limits)"

definition validateLargestLedgerTombstones :: "ledger_limits \<Rightarrow> ledger_error outcome" where
  "validateLargestLedgerTombstones limits =
     (if \<not> encodes_within limits (largest_attempt_tombstone limits)
       \<or> \<not> encodes_within limits largest_claim_tombstone
      then Some TombstoneEncodingBound else None)"

definition restartEnvelopeBudget :: int where
  "restartEnvelopeBudget = 512"

text \<open>The limit checks of \<^verbatim>\<open>newSampleLedger\<close>, before any state is looked at.\<close>

definition acceptLedgerLimits :: "ledger_limits \<Rightarrow> ledger_error outcome" where
  "acceptLedgerLimits limits =
     (case validateLedgerLimits limits of
        Some e \<Rightarrow> Some (LimitsRejected e)
      | None \<Rightarrow>
          if AuditTombstoneLimit limits >
             (int MaxSerializedContractBytes - restartEnvelopeBudget)
               div (AuditTombstoneMaxEncodedBytes limits + 1)
          then Some AuditLimitsAggregate
          else validateLargestLedgerTombstones limits)"

definition newSampleLedger ::
    "sample_state \<Rightarrow> u64 \<Rightarrow> ledger_limits \<Rightarrow> restart_state option \<Rightarrow> ledger_error + ledger_core" where
  "newSampleLedger s trustedMinimumRevision limits restart =
     (case acceptLedgerLimits limits of Some e \<Rightarrow> Inl e | None \<Rightarrow>
      (case validateSampleLedgerState s trustedMinimumRevision of Some e \<Rightarrow> Inl e | None \<Rightarrow>
      if ssRevision s \<noteq> 0 \<and> restart = None then Inl RestartMetadataRequired
      else
        (let base = \<lparr>
            lgLimits = limits,
            lgIssuerDomain = ssIssuerDomain s,
            lgProfileID = ssProfileID s,
            lgProfileVersion = ssProfileVersion s,
            lgDependencySetID = ssDependencySetID s,
            lgRevision = ssRevision s,
            lgHighWater = ssHighWater s,
            lgLastCommittedAttempt = ssLastCommittedAttempt s,
            lgRetainedClaims = 0,
            lgNextTerminalSequence = 1,
            lgSequenceExhausted = False,
            lgDurableNext = 1,
            lgDurableExhausted = False,
            lgTruncatedThrough = 0,
            lgAuditTombstones = []\<rparr> in
         case restart of
           None \<Rightarrow> Inr base
         | Some r \<Rightarrow>
             (case validateLedgerRestartState r limits of Some e \<Rightarrow> Inl e | None \<Rightarrow>
              (case validateSampleRestartRelationship s r of Some e \<Rightarrow> Inl e | None \<Rightarrow>
                 Inr (base\<lparr>
                   lgNextTerminalSequence := rsNextTerminalSequence r,
                   lgDurableNext := rsNextTerminalSequence r,
                   lgSequenceExhausted := rsSequenceExhausted r,
                   lgDurableExhausted := rsSequenceExhausted r,
                   lgTruncatedThrough := rsTruncatedThrough r,
                   lgAuditTombstones := rsAuditTombstones r\<rparr>))))))"

section \<open>State views\<close>

definition stateLocked :: "'a ledger_core_scheme \<Rightarrow> sample_state" where
  "stateLocked l = \<lparr>
     ssSchemaVersion = schemaVersionV1,
     ssIssuerDomain = lgIssuerDomain l,
     ssProfileID = lgProfileID l,
     ssProfileVersion = lgProfileVersion l,
     ssDependencySetID = lgDependencySetID l,
     ssRevision = lgRevision l,
     ssHighWater = lgHighWater l,
     ssLastCommittedAttempt = lgLastCommittedAttempt l\<rparr>"

definition durableRestartStateLocked :: "'a ledger_core_scheme \<Rightarrow> restart_state" where
  "durableRestartStateLocked l = \<lparr>
     rsSchemaVersion = 1,
     rsNextTerminalSequence = lgDurableNext l,
     rsSequenceExhausted = lgDurableExhausted l,
     rsTruncatedThrough = lgTruncatedThrough l,
     rsAuditTombstones = lgAuditTombstones l\<rparr>"

definition ExportRestartState :: "nat \<Rightarrow> 'a ledger_core_scheme \<Rightarrow> ledger_error + restart_state" where
  "ExportRestartState liveAttempts l =
     (if liveAttempts \<noteq> 0 \<or> lgRetainedClaims l \<noteq> 0 then Inl LiveStateNotRestartable
      else if lgNextTerminalSequence l \<noteq> lgDurableNext l
        \<or> lgSequenceExhausted l \<noteq> lgDurableExhausted l
      then Inl WatermarkNotDurable
      else Inr (durableRestartStateLocked l))"

section \<open>Terminal sequence reservation\<close>

definition terminalBatchAvailableLocked :: "int \<Rightarrow> 'a ledger_core_scheme \<Rightarrow> bool" where
  "terminalBatchAvailableLocked claimCount l \<longleftrightarrow>
     \<not> (lgSequenceExhausted l \<or> lgNextTerminalSequence l = 0 \<or> claimCount \<le> 0)
     \<and> (let batch = word_of_int claimCount + 1 :: u64 in
        batch - 1 \<le> MaxUint64 - lgNextTerminalSequence l)"

definition reserveTerminalBatchLocked :: "int \<Rightarrow> 'a ledger_core_scheme \<Rightarrow>
    ledger_error + (u64 \<times> u64 list \<times> 'a ledger_core_scheme)" where
  "reserveTerminalBatchLocked claimCount l =
     (if \<not> terminalBatchAvailableLocked claimCount l then Inl SequenceExhausted
      else
        (let batch = word_of_int claimCount + 1 :: u64;
             first = lgNextTerminalSequence l in
         if batch - 1 > MaxUint64 - first then Inl SequenceExhausted
         else
           (let last = first + batch - 1;
                claims = map (\<lambda>index. first + of_nat index + 1) [0 ..< nat claimCount] in
            if last = MaxUint64
            then Inr (first, claims, l\<lparr>lgNextTerminalSequence := 0, lgSequenceExhausted := True\<rparr>)
            else Inr (first, claims, l\<lparr>lgNextTerminalSequence := last + 1\<rparr>))))"

section \<open>The audit history\<close>

text \<open>
  The adjacent-duplicate pass over the sorted records: equal records collapse, two different
  records with one sequence are a conflict.
\<close>

fun unique_tombstones :: "tombstone option \<Rightarrow> tombstone list \<Rightarrow> ledger_error + tombstone list" where
  "unique_tombstones previous [] = Inr []"
| "unique_tombstones previous (t # ts) =
     (case previous of
        Some p \<Rightarrow>
          if tsTerminalSequence p = tsTerminalSequence t
          then (if p \<noteq> t then Inl ConflictingOutcomes else unique_tombstones previous ts)
          else (case unique_tombstones (Some t) ts of Inl e \<Rightarrow> Inl e | Inr u \<Rightarrow> Inr (t # u))
      | None \<Rightarrow>
          (case unique_tombstones (Some t) ts of Inl e \<Rightarrow> Inl e | Inr u \<Rightarrow> Inr (t # u)))"

text \<open>\<^verbatim>\<open>for first > 0 && ...\<close>: extend the run of consecutive sequences to the left.\<close>

fun walk_back :: "tombstone list \<Rightarrow> nat \<Rightarrow> nat" where
  "walk_back u 0 = 0"
| "walk_back u (Suc n) =
     (if tsTerminalSequence (u ! n) \<noteq> MaxUint64
       \<and> tsTerminalSequence (u ! n) + 1 = tsTerminalSequence (u ! Suc n)
      then walk_back u n else Suc n)"

definition ledger_end_sequence :: "'a ledger_core_scheme \<Rightarrow> u64" where
  "ledger_end_sequence l =
     (if lgSequenceExhausted l then MaxUint64 else lgNextTerminalSequence l - 1)"

text \<open>
  The retained suffix and its watermark. \<^verbatim>\<open>sort.Search\<close> returns the least index whose
  sequence reaches the end; on a list sorted by sequence that is the length of the prefix below
  it.
\<close>

definition retained_history :: "'a ledger_core_scheme \<Rightarrow> tombstone list \<Rightarrow> tombstone list \<times> u64" where
  "retained_history l unique =
     (let endSequence = ledger_end_sequence l;
          last = length (takeWhile (\<lambda>t. tsTerminalSequence t < endSequence) unique) in
      if last < length unique \<and> tsTerminalSequence (unique ! last) = endSequence
      then
        (let first = walk_back unique last in
         if lgTruncatedThrough l \<noteq> MaxUint64
           \<and> tsTerminalSequence (unique ! first) = lgTruncatedThrough l + 1
         then
           (let run = take (last + 1 - first) (drop first unique);
                limit = nat (AuditTombstoneLimit (lgLimits l));
                retained = (if int (length run) > AuditTombstoneLimit (lgLimits l)
                            then drop (length run - limit) run else run) in
            (retained, tsTerminalSequence (hd retained) - 1))
         else ([], endSequence))
      else ([], endSequence))"

definition terminalRestartStateLocked ::
    "tombstone list \<Rightarrow> 'a ledger_core_scheme \<Rightarrow> ledger_error + restart_state" where
  "terminalRestartStateLocked records l =
     (case unique_tombstones None (sort_key tsTerminalSequence (lgAuditTombstones l @ records)) of
        Inl e \<Rightarrow> Inl e
      | Inr unique \<Rightarrow>
          (let (retained, truncatedThrough) = retained_history l unique;
               restart = \<lparr>rsSchemaVersion = 1,
                 rsNextTerminalSequence = lgNextTerminalSequence l,
                 rsSequenceExhausted = lgSequenceExhausted l,
                 rsTruncatedThrough = truncatedThrough,
                 rsAuditTombstones = retained\<rparr> in
           case validateLedgerRestartState restart (lgLimits l) of
             Some e \<Rightarrow> Inl e
           | None \<Rightarrow> Inr restart))"

definition applyDurableRestartStateLocked ::
    "restart_state \<Rightarrow> 'a ledger_core_scheme \<Rightarrow> 'a ledger_core_scheme" where
  "applyDurableRestartStateLocked r l = l\<lparr>
     lgDurableNext := rsNextTerminalSequence r,
     lgDurableExhausted := rsSequenceExhausted r,
     lgTruncatedThrough := rsTruncatedThrough r,
     lgAuditTombstones := rsAuditTombstones r\<rparr>"

definition insertAuditTombstoneLocked ::
    "tombstone \<Rightarrow> 'a ledger_core_scheme \<Rightarrow> 'a ledger_core_scheme" where
  "insertAuditTombstoneLocked t l =
     (let below = takeWhile (\<lambda>x. tsTerminalSequence x \<le> tsTerminalSequence t) (lgAuditTombstones l);
          inserted = below @ t # drop (length below) (lgAuditTombstones l) in
      l\<lparr>lgAuditTombstones :=
          (if int (length inserted) > AuditTombstoneLimit (lgLimits l) then tl inserted else inserted)\<rparr>)"

definition attemptIdentityAdvances :: "attempt_identity \<Rightarrow> attempt_identity \<Rightarrow> bool" where
  "attemptIdentityAdvances previous next_id \<longleftrightarrow>
     PollGenerationID next_id \<noteq> 0
     \<and> (PollGenerationID previous = 0 \<or> PollGenerationID next_id > PollGenerationID previous)"


section \<open>Reservations are fresh and contiguous\<close>

text \<open>
  The position of a ledger is the next sequence it will issue, as a natural number; an exhausted
  ledger stands at the end of the 64-bit range.
\<close>

definition ledger_position :: "'a ledger_core_scheme \<Rightarrow> nat" where
  "ledger_position l = (if lgSequenceExhausted l then 2 ^ 64 else unat (lgNextTerminalSequence l))"

definition position_ok :: "'a ledger_core_scheme \<Rightarrow> bool" where
  "position_ok l \<longleftrightarrow> (lgSequenceExhausted l \<longleftrightarrow> lgNextTerminalSequence l = 0)"

lemma word_of_pos_int:
  assumes "0 < n" and "n < 2 ^ 63"
  shows "unat (word_of_int n :: u64) = nat n"
  using assms by (simp add: unat_eq_nat_uint uint_word_of_int)

lemma batch_minus_one: "(word_of_int n + 1 - 1 :: u64) = word_of_int n"
  by simp

lemma terminalBatchAvailable_iff:
  assumes "position_ok l" and "0 < n" and "n < 2 ^ 63"
  shows "terminalBatchAvailableLocked n l \<longleftrightarrow> ledger_position l + nat n < 2 ^ 64"
proof (cases "lgSequenceExhausted l")
  case True
  then show ?thesis by (simp add: terminalBatchAvailableLocked_def ledger_position_def)
next
  case False
  with assms(1) have ne: "lgNextTerminalSequence l \<noteq> 0" by (simp add: position_ok_def)
  have "unat (MaxUint64 - lgNextTerminalSequence l) = 2 ^ 64 - 1 - unat (lgNextTerminalSequence l)"
    using unat_sub [of "lgNextTerminalSequence l" MaxUint64] unat_MaxUint64 by simp
  with False ne assms(2,3) show ?thesis
    using unat_u64_bound [of "lgNextTerminalSequence l"]
    by (simp add: terminalBatchAvailableLocked_def ledger_position_def Let_def word_le_nat_alt
        word_of_pos_int) linarith
qed

lemma reserve_effect:
  assumes ok: "position_ok l" and n: "0 < n" "n < 2 ^ 63"
    and r: "reserveTerminalBatchLocked n l = Inr (first, claims, l')"
  shows "map unat (first # claims) = [ledger_position l ..< ledger_position l + nat n + 1]
    \<and> length claims = nat n
    \<and> ledger_position l' = ledger_position l + nat n + 1 \<and> position_ok l'
    \<and> (\<exists>nx ex. l' = l\<lparr>lgNextTerminalSequence := nx, lgSequenceExhausted := ex\<rparr>)"
proof -
  let ?p = "unat (lgNextTerminalSequence l)" and ?s = "lgNextTerminalSequence l"
  from r have avail: "terminalBatchAvailableLocked n l"
    by (auto simp: reserveTerminalBatchLocked_def split: if_splits)
  then have fits: "ledger_position l + nat n < 2 ^ 64"
    using terminalBatchAvailable_iff ok n by blast
  then have ex: "\<not> lgSequenceExhausted l" by (auto simp: ledger_position_def)
  with ok have ne: "?s \<noteq> 0" by (simp add: position_ok_def)
  have pos: "ledger_position l = ?p" using ex by (simp add: ledger_position_def)
  define last where "last = ?s + word_of_int n"
  have last: "unat last = ?p + nat n"
    using fits pos n by (simp add: last_def unat_word_ariths word_of_pos_int)
  from r avail have eqs: "first = ?s"
    "claims = map (\<lambda>index. ?s + of_nat index + 1) [0 ..< nat n]"
    and l': "l' = (if last = MaxUint64
        then l\<lparr>lgNextTerminalSequence := 0, lgSequenceExhausted := True\<rparr>
        else l\<lparr>lgNextTerminalSequence := last + 1\<rparr>)"
    by (auto simp: reserveTerminalBatchLocked_def Let_def last_def algebra_simps split: if_splits)
  have "unat (?s + of_nat i + 1) = ?p + i + 1" if "i < nat n" for i
  proof -
    have lt: "?p + i + 1 < 2 ^ 64" using that fits pos by linarith
    then show ?thesis by (simp add: unat_word_ariths unat_of_nat_u64)
  qed
  then have "map unat claims = map (\<lambda>i. ?p + i + 1) [0 ..< nat n]"
    by (simp add: eqs)
  also have "\<dots> = [?p + 1 ..< ?p + 1 + nat n]"
    by (intro nth_equalityI) (simp_all del: upt_Suc)
  finally have "map unat claims = [?p + 1 ..< ?p + 1 + nat n]" .
  then have "map unat (first # claims) = [?p ..< ?p + nat n + 1]"
    by (simp add: eqs upt_conv_Cons del: upt_Suc)
  moreover have "ledger_position l' = ?p + nat n + 1 \<and> position_ok l'"
  proof (cases "last = MaxUint64")
    case True
    with last have "?p + nat n = 2 ^ 64 - 1" using unat_MaxUint64 by simp
    with True show ?thesis by (simp add: l' ledger_position_def position_ok_def)
  next
    case False
    then have "unat (last + 1) = Suc (?p + nat n)" using last unat_Suc_below_max by simp
    then have "last + 1 \<noteq> 0" by auto
    with False ex \<open>unat (last + 1) = _\<close> show ?thesis
      by (simp add: l' ledger_position_def position_ok_def)
  qed
  moreover have "\<exists>nx ex. l' = l\<lparr>lgNextTerminalSequence := nx, lgSequenceExhausted := ex\<rparr>"
  proof (cases "last = MaxUint64")
    case True
    then show ?thesis unfolding l' by auto
  next
    case False
    have "l\<lparr>lgNextTerminalSequence := last + 1\<rparr> =
        l\<lparr>lgNextTerminalSequence := last + 1, lgSequenceExhausted := lgSequenceExhausted l\<rparr>"
      by simp
    with False show ?thesis unfolding l' by (metis (full_types))
  qed
  ultimately show ?thesis by (simp add: pos eqs)
qed

text \<open>A run of reservations, one per attempt that is opened; a refused one changes nothing.\<close>

fun reserve_run :: "int list \<Rightarrow> ledger_core \<Rightarrow> u64 list \<times> ledger_core" where
  "reserve_run [] l = ([], l)"
| "reserve_run (n # ns) l =
     (case reserveTerminalBatchLocked n l of
        Inl _ \<Rightarrow> reserve_run ns l
      | Inr (first, claims, l') \<Rightarrow>
          (let (rest, l'') = reserve_run ns l' in (first # claims @ rest, l'')))"

lemma reserve_run_contiguous:
  assumes "position_ok l" and "list_all (\<lambda>n. 0 < n \<and> n < 2 ^ 63) ns"
  shows "map unat (fst (reserve_run ns l)) =
      [ledger_position l ..< ledger_position (snd (reserve_run ns l))]
    \<and> ledger_position l \<le> ledger_position (snd (reserve_run ns l))
    \<and> position_ok (snd (reserve_run ns l))"
  using assms
proof (induction ns arbitrary: l)
  case Nil
  then show ?case by simp
next
  case (Cons n ns)
  show ?case
  proof (cases "reserveTerminalBatchLocked n l")
    case (Inl e)
    with Cons show ?thesis by simp
  next
    case (Inr x)
    obtain first claims l' where x: "x = (first, claims, l')" by (cases x) auto
    with Inr Cons.prems have eff: "map unat (first # claims) =
        [ledger_position l ..< ledger_position l + nat n + 1]"
      "ledger_position l' = ledger_position l + nat n + 1" "position_ok l'"
      using reserve_effect [of l n first claims l'] by auto
    from Cons.IH [OF eff(3)] Cons.prems(2)
    have rest: "map unat (fst (reserve_run ns l')) =
        [ledger_position l' ..< ledger_position (snd (reserve_run ns l'))]"
      "ledger_position l' \<le> ledger_position (snd (reserve_run ns l'))"
      "position_ok (snd (reserve_run ns l'))" by auto
    have "map unat (first # claims @ fst (reserve_run ns l')) =
        [ledger_position l ..< ledger_position (snd (reserve_run ns l'))]"
    proof -
      have "[ledger_position l ..< ledger_position (snd (reserve_run ns l'))] =
          [ledger_position l ..< ledger_position l'] @
          [ledger_position l' ..< ledger_position (snd (reserve_run ns l'))]"
        using eff(2) rest(2) upt_add_eq_append [of "ledger_position l" "ledger_position l'"
          "ledger_position (snd (reserve_run ns l')) - ledger_position l'"] by simp
      then show ?thesis using eff(1,2) rest(1) by (simp only: map_append append_Cons [symmetric])
    qed
    with rest eff(2) show ?thesis
      by (simp add: Inr x split_beta)
  qed
qed

section \<open>Accepted limits\<close>

lemma accept_limits_bounds:
  assumes "acceptLedgerLimits limits = None"
  shows "0 < MaxClaimEntriesPerAttempt limits \<and> MaxClaimEntriesPerAttempt limits \<le> 4096
    \<and> 0 < AuditTombstoneLimit limits \<and> 0 < AuditTombstoneMaxEncodedBytes limits
    \<and> AuditTombstoneMaxEncodedBytes limits \<le> 4194304
    \<and> encodes_within limits (largest_attempt_tombstone limits)
    \<and> encodes_within limits largest_claim_tombstone"
  using assms
  by (auto simp: acceptLedgerLimits_def validateLedgerLimits_def validateLargestLedgerTombstones_def
      contract_consts split: option.splits if_splits)

lemma json_u64_max [simp]: "length (json_u64 MaxUint64) = 20"
  unfolding json_u64_def unat_MaxUint64 by (simp add: dec_large dec_small)

lemma accept_limits_encoded_bytes:
  assumes "acceptLedgerLimits limits = None"
  shows "214 \<le> AuditTombstoneMaxEncodedBytes limits"
  using accept_limits_bounds [OF assms]
  by (auto simp: encodes_within_def marshalTombstone_Inr claim_json_length largest_claim_tombstone_def
     marshalTombstone_def validateLedgerAuditTombstone_def validClaimOutcome_def)

lemma accept_limits_tombstones:
  assumes "acceptLedgerLimits limits = None"
  shows "AuditTombstoneLimit limits \<le> 19506"
proof -
  let ?m = "AuditTombstoneMaxEncodedBytes limits"
  have "AuditTombstoneLimit limits \<le> 4193792 div (?m + 1)"
    using assms by (auto simp: acceptLedgerLimits_def contract_consts restartEnvelopeBudget_def
        split: option.splits if_splits)
  also have "\<dots> \<le> 4193792 div 215"
    using accept_limits_encoded_bytes [OF assms] by (intro zdiv_mono2) auto
  finally show ?thesis by simp
qed


lemma accept_limits_encode:
  assumes "acceptLedgerLimits limits = None" and "valid_tombstone t"
  shows "encodes_tombstone (AuditTombstoneMaxEncodedBytes limits) t"
  using valid_tombstone_encodes accept_limits_encoded_bytes assms by blast

section \<open>The join of the durable history with a finished batch\<close>

lemma unique_after:
  assumes "unique_tombstones (Some p) ts = Inr u"
    and "sorted (map tsTerminalSequence (p # ts))"
  shows "set ts \<subseteq> insert p (set u) \<and> set u \<subseteq> set ts
    \<and> sorted (map tsTerminalSequence (p # u)) \<and> distinct (map tsTerminalSequence (p # u))"
  using assms
proof (induction ts arbitrary: p u)
  case Nil
  then show ?case by simp
next
  case (Cons t ts)
  show ?case
  proof (cases "tsTerminalSequence p = tsTerminalSequence t")
    case True
    with Cons.prems(1) have pt: "t = p" and u: "unique_tombstones (Some p) ts = Inr u"
      by (simp_all split: if_splits)
    have "sorted (map tsTerminalSequence (p # ts))" using Cons.prems(2) by simp
    from Cons.IH [OF u this] pt show ?thesis by (simp only: list.set(2)) blast
  next
    case False
    with Cons.prems(1) obtain v where v: "unique_tombstones (Some t) ts = Inr v" "u = t # v"
      by (simp split: sum.splits)
    have s: "sorted (map tsTerminalSequence (t # ts))" using Cons.prems(2) by simp
    have "tsTerminalSequence p < tsTerminalSequence t"
      using Cons.prems(2) False by (simp add: order_less_le)
    with Cons.IH [OF v(1) s] v(2) show ?thesis by fastforce
  qed
qed

lemma unique_join:
  assumes "unique_tombstones None (sort_key tsTerminalSequence ts) = Inr u"
  shows "set u = set ts \<and> sorted (map tsTerminalSequence u) \<and> distinct (map tsTerminalSequence u)"
proof (cases "sort_key tsTerminalSequence ts")
  case Nil
  then have "ts = []" by (metis length_0_conv length_sort)
  with assms show ?thesis by simp
next
  case (Cons t ss)
  with assms obtain v where v: "unique_tombstones (Some t) ss = Inr v" "u = t # v"
    by (auto split: sum.splits)
  have sorted: "sorted (map tsTerminalSequence (t # ss))"
    using sorted_sort_key [of tsTerminalSequence ts] by (simp only: Cons)
  have "set (t # ss) = set ts" using set_sort [of tsTerminalSequence ts] by (simp only: Cons)
  with unique_after [OF v(1) sorted] v(2) show ?thesis by auto
qed

lemma walk_back_le: "walk_back u n \<le> n"
  by (induction n) auto

lemma retained_subset:
  assumes "retained_history l u = (h, w)"
  shows "set h \<subseteq> set u"
  using assms
  by (auto simp: retained_history_def Let_def split: if_splits
      dest!: in_set_takeD in_set_dropD)

lemma scan_sequences_relax:
  assumes "scan_sequences r lo previous m ts = Inr x" and "lo \<le> hi"
  shows "scan_sequences r hi previous m ts = Inr x"
  using assms
  by (induction ts arbitrary: previous m)
     (auto split: if_splits sum.splits option.splits)

lemma word_of_int_le_u64:
  assumes "0 \<le> a" and "a \<le> b" and "b \<le> 4096"
  shows "(word_of_int a :: u64) \<le> word_of_int b"
  using assms by (simp add: word_le_nat_alt unat_eq_nat_uint uint_word_of_int)

lemma scan_structure_relax:
  assumes "scan_structure r a m lo ts = None" and "0 \<le> a" and "a \<le> b" and "b \<le> 4096"
  shows "scan_structure r b m lo ts = None"
proof -
  have "(word_of_int a :: u64) \<le> word_of_int b" using word_of_int_le_u64 assms by blast
  with assms(1) show ?thesis
  proof (induction ts arbitrary: lo)
    case Nil
    then show ?case by simp
  next
    case (Cons t ts)
    show ?case
    proof (cases "tsObjectKind t")
      case LedgerAuditAttempt
      with Cons.prems have "tsClaimCount t \<le> word_of_int a" by (auto split: if_splits)
      then have "\<not> word_of_int b < tsClaimCount t" using Cons.prems(2) by simp
      with LedgerAuditAttempt Cons show ?thesis by (simp split: if_splits option.splits)
    next
      case LedgerAuditClaim
      with Cons.prems have "tsClaimOrdinal t < word_of_int a" by (auto simp: Let_def split: if_splits)
      then have "\<not> word_of_int b \<le> tsClaimOrdinal t" using Cons.prems(2) by simp
      with LedgerAuditClaim Cons show ?thesis by (simp add: Let_def split: if_splits option.splits)
    next
      case (LedgerAuditOther s)
      with Cons show ?thesis by simp
    qed
  qed
qed

lemma validate_restart_relax:
  assumes valid: "validateLedgerRestartState r limits = None"
    and "0 \<le> AuditTombstoneLimit limits'" and "AuditTombstoneLimit limits \<le> AuditTombstoneLimit limits'"
    and "AuditTombstoneMaxEncodedBytes limits \<le> AuditTombstoneMaxEncodedBytes limits'"
    and "0 \<le> MaxClaimEntriesPerAttempt limits"
    and "MaxClaimEntriesPerAttempt limits \<le> MaxClaimEntriesPerAttempt limits'"
    and "MaxClaimEntriesPerAttempt limits' \<le> 4096"
  shows "validateLedgerRestartState r limits' = None"
  using valid
proof (cases rule: validate_restart_cases)
  case empty
  then show ?thesis using assms(2,3) by (simp add: validateLedgerRestartState_def)
next
  case (history m)
  have "scan_sequences r (AuditTombstoneMaxEncodedBytes limits') None Map.empty
      (rsAuditTombstones r) = Inr (end_sequence r, m)"
    using scan_sequences_relax history(6) assms(4) by blast
  moreover have "scan_structure r (MaxClaimEntriesPerAttempt limits') m Map.empty
      (rsAuditTombstones r) = None"
    using scan_structure_relax history(8) assms(5-7) by blast
  ultimately show ?thesis
    using history end_sequence_valid [OF valid] assms(2,3)
    by (auto simp: validateLedgerRestartState_def)
qed

lemma terminal_restart_valid:
  assumes "terminalRestartStateLocked records l = Inr r"
  shows "validateLedgerRestartState r (lgLimits l) = None
    \<and> set (rsAuditTombstones r) \<subseteq> set (lgAuditTombstones l) \<union> set records
    \<and> rsNextTerminalSequence r = lgNextTerminalSequence l
    \<and> rsSequenceExhausted r = lgSequenceExhausted l"
proof -
  from assms obtain u where u: "unique_tombstones None
      (sort_key tsTerminalSequence (lgAuditTombstones l @ records)) = Inr u"
    by (auto simp: terminalRestartStateLocked_def split: sum.splits)
  obtain h w where hw: "retained_history l u = (h, w)" by (cases "retained_history l u")
  have "set h \<subseteq> set (lgAuditTombstones l) \<union> set records"
    using retained_subset [OF hw] unique_join [OF u] by auto
  with assms u hw show ?thesis
    by (auto simp: terminalRestartStateLocked_def Let_def split: option.splits)
qed


lemma accept_limits_relax:
  assumes "acceptLedgerLimits limits = None" and "validateLedgerRestartState r limits = None"
  shows "validateLedgerRestartState r maximumLedgerRestartValidationLimits = None"
  using accept_limits_bounds [OF assms(1)] accept_limits_tombstones [OF assms(1)]
  by (intro validate_restart_relax [OF assms(2)])
     (simp_all add: maximumLedgerRestartValidationLimits_def DefaultLedgerLimits_def contract_consts)

lemma pred_le_iff_u64:
  fixes a b :: u64
  assumes "a \<noteq> 0" and "b \<noteq> 0"
  shows "a - 1 \<le> b - 1 \<longleftrightarrow> a \<le> b"
proof -
  have "0 < unat a" "0 < unat b" using assms by (simp_all add: unat_gt_0)
  then show ?thesis using assms by (auto simp: word_le_nat_alt unat_pred_pos)
qed

lemma covers_iff:
  assumes "validateLedgerRestartState r maximumLedgerRestartValidationLimits = None"
    and "validateLedgerRestartState p maximumLedgerRestartValidationLimits = None"
  shows "CoversTerminalWatermark r p \<longleftrightarrow> end_sequence p \<le> end_sequence r
    \<and> (rsSequenceExhausted p \<longrightarrow> rsSequenceExhausted r)
    \<and> (\<forall>t \<in> set (rsAuditTombstones p). tsTerminalSequence t \<le> rsTruncatedThrough r
         \<or> t \<in> set (rsAuditTombstones r))"
proof -
  have watermark: "rsSequenceExhausted r \<longleftrightarrow> rsNextTerminalSequence r = 0"
    "rsSequenceExhausted p \<longleftrightarrow> rsNextTerminalSequence p = 0"
    using assms by (auto elim: validate_restart_cases)
  have "(rsSequenceExhausted r \<or> rsSequenceExhausted p
      \<or> rsNextTerminalSequence p \<le> rsNextTerminalSequence r) \<and> (rsSequenceExhausted p \<longrightarrow> rsSequenceExhausted r)
    \<longleftrightarrow> end_sequence p \<le> end_sequence r \<and> (rsSequenceExhausted p \<longrightarrow> rsSequenceExhausted r)"
    using watermark pred_le_iff_u64 by (auto simp: end_sequence_def)
  moreover have "(tombstone_map (rsAuditTombstones r) (tsTerminalSequence t) = Some t)
      = (t \<in> set (rsAuditTombstones r))" for t
    using restart_map [OF assms(1)] by auto
  ultimately show ?thesis
    using assms by (auto simp: CoversTerminalWatermark_def Let_def list_all_iff not_less)
qed

text \<open>
  What the ledger keeps between commits: its configuration was accepted, the durable state is a
  valid restart state, and the durable watermark is not ahead of the issued sequences.
\<close>

definition ledger_durable_ok :: "'a ledger_core_scheme \<Rightarrow> bool" where
  "ledger_durable_ok l \<longleftrightarrow>
     acceptLedgerLimits (lgLimits l) = None
     \<and> validateLedgerRestartState (durableRestartStateLocked l) (lgLimits l) = None
     \<and> position_ok l
     \<and> (lgDurableExhausted l \<longrightarrow> lgSequenceExhausted l)
     \<and> (lgSequenceExhausted l \<or> lgDurableNext l \<le> lgNextTerminalSequence l)"

lemma pred_mono_u64:
  fixes a b :: u64
  assumes "a \<noteq> 0" and "a \<le> b"
  shows "a - 1 \<le> b - 1"
proof -
  have "b \<noteq> 0" using assms by (metis antisym word_zero_le)
  with assms show ?thesis by (simp add: word_le_nat_alt unat_pred_pos diff_le_mono)
qed

lemma durable_end_le:
  assumes "ledger_durable_ok l"
  shows "end_sequence (durableRestartStateLocked l) \<le> ledger_end_sequence l"
proof -
  have "lgDurableExhausted l \<longleftrightarrow> lgDurableNext l = 0"
    using assms validate_restart_cases [of "durableRestartStateLocked l" "lgLimits l"]
    unfolding ledger_durable_ok_def durableRestartStateLocked_def by fastforce
  with assms show ?thesis
    by (auto simp: ledger_durable_ok_def end_sequence_def ledger_end_sequence_def
        durableRestartStateLocked_def intro: pred_mono_u64)
qed

lemma retained_history_monotone:
  assumes "retained_history l u = (h, w)" and "sorted (map tsTerminalSequence u)"
    and "distinct (map tsTerminalSequence u)"
    and "lgTruncatedThrough l \<le> ledger_end_sequence l" and "0 < AuditTombstoneLimit (lgLimits l)"
  shows "lgTruncatedThrough l \<le> w"
proof -
  define last where "last = length (takeWhile (\<lambda>t. tsTerminalSequence t < ledger_end_sequence l) u)"
  define first where "first = walk_back u last"
  show ?thesis
  proof (cases "last < length u \<and> tsTerminalSequence (u ! last) = ledger_end_sequence l
      \<and> lgTruncatedThrough l \<noteq> MaxUint64
      \<and> tsTerminalSequence (u ! first) = lgTruncatedThrough l + 1")
    case False
    with assms(1,4) show ?thesis
      by (auto simp: retained_history_def Let_def last_def [symmetric] first_def split: if_splits)
  next
    case True
    define run where "run = take (last + 1 - first) (drop first u)"
    define kept where "kept = (if int (length run) > AuditTombstoneLimit (lgLimits l)
        then drop (length run - nat (AuditTombstoneLimit (lgLimits l))) run else run)"
    have "retained_history l u = (kept, tsTerminalSequence (hd kept) - 1)"
      using True unfolding retained_history_def Let_def kept_def run_def first_def last_def by simp
    with assms(1) have w: "w = tsTerminalSequence (hd kept) - 1" by auto
    have "first \<le> last" using walk_back_le by (simp add: first_def)
    then have "run \<noteq> []" using True by (simp add: run_def)
    then have "kept \<noteq> []" using assms(5) by (auto simp: kept_def)
    moreover have "set kept \<subseteq> set (drop first u)"
      by (auto simp: kept_def run_def dest!: in_set_dropD [of _ "_ - _"] in_set_takeD split: if_splits)
    ultimately have "hd kept \<in> set (drop first u)" using hd_in_set by blast
    then obtain k where k: "k < length (drop first u)" "drop first u ! k = hd kept"
      unfolding in_set_conv_nth by blast
    then have k: "first + k < length u" "hd kept = u ! (first + k)" by auto
    then have "tsTerminalSequence (u ! first) \<le> tsTerminalSequence (hd kept)"
      using assms(2) by (auto simp: sorted_iff_nth_mono)
    with True have "lgTruncatedThrough l + 1 \<le> tsTerminalSequence (hd kept)" by simp
    moreover have "lgTruncatedThrough l + 1 \<noteq> 0"
      using True unat_Suc_below_max [of "lgTruncatedThrough l"] by auto
    ultimately show ?thesis using pred_mono_u64 [of "lgTruncatedThrough l + 1"] by (simp add: w)
  qed
qed

lemma terminal_restart_covers:
  assumes ok: "ledger_durable_ok l" and r: "terminalRestartStateLocked records l = Inr r"
  shows "CoversTerminalWatermark r (durableRestartStateLocked l)
    \<and> lgTruncatedThrough l \<le> rsTruncatedThrough r"
proof -
  let ?d = "durableRestartStateLocked l"
  have limits: "acceptLedgerLimits (lgLimits l) = None"
    and dvalid: "validateLedgerRestartState ?d (lgLimits l) = None"
    and dex: "lgDurableExhausted l \<longrightarrow> lgSequenceExhausted l"
    using ok by (simp_all add: ledger_durable_ok_def)
  note rv = terminal_restart_valid [OF r]
  have ends: "end_sequence r = ledger_end_sequence l"
    using rv by (simp add: end_sequence_def ledger_end_sequence_def)
  have dtomb: "rsAuditTombstones ?d = lgAuditTombstones l" and dtr: "rsTruncatedThrough ?d = lgTruncatedThrough l"
    and dexh: "rsSequenceExhausted ?d = lgDurableExhausted l"
    by (simp_all add: durableRestartStateLocked_def)
  from r obtain u where u: "unique_tombstones None
      (sort_key tsTerminalSequence (lgAuditTombstones l @ records)) = Inr u"
    by (auto simp: terminalRestartStateLocked_def split: sum.splits)
  obtain h w where hw: "retained_history l u = (h, w)" by (cases "retained_history l u")
  with r u have rh: "rsAuditTombstones r = h" "rsTruncatedThrough r = w"
    by (auto simp: terminalRestartStateLocked_def Let_def split: option.splits)
  note join = unique_join [OF u]
  have kept: "t \<in> set h" if t: "t \<in> set (lgAuditTombstones l)" and above: "w < tsTerminalSequence t" for t
  proof -
    have "tsTerminalSequence t \<le> end_sequence ?d"
      using restart_sequence_in [OF dvalid] t dtomb by simp
    also have "\<dots> \<le> end_sequence r" using durable_end_le [OF ok] by (simp add: ends)
    finally obtain t' where t': "t' \<in> set h" "tsTerminalSequence t' = tsTerminalSequence t"
      using restart_sequence_covered [of r "lgLimits l" "tsTerminalSequence t"] rv above rh by auto
    have "inj_on tsTerminalSequence (set u)" using join by (metis distinct_map)
    moreover have "t' \<in> set u" using retained_subset [OF hw] t'(1) by blast
    moreover have "t \<in> set u" using join t by simp
    ultimately show ?thesis using t' by (metis inj_onD)
  qed
  have "tsTerminalSequence t \<le> w \<or> t \<in> set h" if "t \<in> set (lgAuditTombstones l)" for t
    using kept [OF that] by (meson not_le)
  then have "CoversTerminalWatermark r ?d"
    unfolding covers_iff [OF accept_limits_relax [OF limits conjunct1 [OF rv]]
        accept_limits_relax [OF limits dvalid]]
    using rh dtomb dex dexh rv durable_end_le [OF ok] by (auto simp: ends not_le)
  moreover have "lgTruncatedThrough l \<le> w"
  proof (rule retained_history_monotone [OF hw])
    show "lgTruncatedThrough l \<le> ledger_end_sequence l"
      using end_sequence_valid [OF dvalid] durable_end_le [OF ok] dtr by simp
    show "0 < AuditTombstoneLimit (lgLimits l)" using accept_limits_bounds [OF limits] by simp
  qed (use join in simp_all)
  ultimately show ?thesis by (simp add: rh)
qed

lemma apply_durable_ok:
  assumes ok: "ledger_durable_ok l" and r: "terminalRestartStateLocked records l = Inr r"
  shows "ledger_durable_ok (applyDurableRestartStateLocked r l)
    \<and> durableRestartStateLocked (applyDurableRestartStateLocked r l) = r"
proof -
  have "durableRestartStateLocked (applyDurableRestartStateLocked r l) = r"
    using terminal_restart_valid [OF r]
    by (auto simp: durableRestartStateLocked_def applyDurableRestartStateLocked_def
        elim: validate_restart_cases)
  with ok terminal_restart_valid [OF r] show ?thesis
    by (auto simp: ledger_durable_ok_def applyDurableRestartStateLocked_def position_ok_def)
qed

section \<open>The retained suffix of a gapless history\<close>

lemma unique_strict:
  "distinct (map tsTerminalSequence ts) \<Longrightarrow>
    (case p of None \<Rightarrow> True | Some q \<Rightarrow> tsTerminalSequence q \<notin> tsTerminalSequence ` set ts) \<Longrightarrow>
    unique_tombstones p ts = Inr ts"
proof (induction ts arbitrary: p)
  case Nil
  then show ?case by simp
next
  case (Cons t ts)
  then have "unique_tombstones (Some t) ts = Inr ts" by auto
  with Cons.prems show ?case by (cases p) auto
qed

lemma walk_back_gapless:
  assumes "map seq_nat u = [a ..< b]" and "n < length u"
  shows "walk_back u n = 0"
  using assms(2)
proof (induction n)
  case 0
  then show ?case by simp
next
  case (Suc n)
  have len: "length u = b - a" using assms(1) by (metis length_map length_upt)
  have at: "seq_nat (u ! k) = a + k" if "k < length u" for k
    using assms(1) that len by (metis add.commute less_diff_conv nth_map nth_upt)
  from at [of n] at [of "Suc n"] Suc.prems
  have step: "seq_nat (u ! Suc n) = Suc (seq_nat (u ! n))" by simp
  then have ne: "tsTerminalSequence (u ! n) \<noteq> MaxUint64"
    using unat_MaxUint64 unat_u64_bound [of "tsTerminalSequence (u ! Suc n)"] by auto
  then have "tsTerminalSequence (u ! n) + 1 = tsTerminalSequence (u ! Suc n)"
    using step unat_Suc_below_max [OF ne] by (simp add: word_unat_eq_iff)
  with ne Suc show ?case by simp
qed

lemma retained_gapless:
  assumes seqs: "map seq_nat u = [Suc (unat (lgTruncatedThrough l)) ..< Suc (unat (ledger_end_sequence l))]"
    and ne: "u \<noteq> []"
  shows "fst (retained_history l u) =
    (if int (length u) > AuditTombstoneLimit (lgLimits l)
     then drop (length u - nat (AuditTombstoneLimit (lgLimits l))) u else u)"
proof -
  let ?tr = "unat (lgTruncatedThrough l)" and ?en = "unat (ledger_end_sequence l)"
  have len: "length u = ?en - ?tr" using seqs by (metis diff_Suc_Suc length_map length_upt)
  have at: "seq_nat (u ! k) = Suc ?tr + k" if "k < length u" for k
    using seqs that len nth_map [of k u seq_nat] by (simp del: upt_Suc)
  from ne len have pos: "?tr < ?en" by (metis length_greater_0_conv zero_less_diff)
  have last: "length (takeWhile (\<lambda>t. tsTerminalSequence t < ledger_end_sequence l) u) = length u - 1"
  proof -
    have "takeWhile (\<lambda>t. tsTerminalSequence t < ledger_end_sequence l) u = take (length u - 1) u"
    proof (rule takeWhile_eq_take_P_nth)
      show "tsTerminalSequence (u ! i) < ledger_end_sequence l"
        if "i < length u - 1" and "i < length u" for i
        using at [of i] that len by (simp add: word_less_nat_alt)
      show "\<not> tsTerminalSequence (u ! (length u - 1)) < ledger_end_sequence l"
        if "length u - 1 < length u"
        using at [of "length u - 1"] that len pos by (simp add: word_less_nat_alt)
    qed
    then show ?thesis by simp
  qed
  have "tsTerminalSequence (u ! (length u - 1)) = ledger_end_sequence l"
    using at [of "length u - 1"] ne len pos by (simp add: word_unat_eq_iff)
  moreover have "walk_back u (length u - 1) = 0"
    using walk_back_gapless [OF seqs] ne by simp
  moreover have "lgTruncatedThrough l \<noteq> MaxUint64"
    using pos unat_MaxUint64 unat_u64_bound [of "ledger_end_sequence l"] by auto
  moreover from this have "tsTerminalSequence (u ! 0) = lgTruncatedThrough l + 1"
    using at [of 0] ne by (simp add: word_unat_eq_iff unat_Suc_below_max)
  ultimately show ?thesis
    using ne by (simp add: retained_history_def Let_def last)
qed

lemma terminal_restart_appends:
  assumes seqs: "map seq_nat (lgAuditTombstones l @ records) =
      [Suc (unat (lgTruncatedThrough l)) ..< Suc (unat (ledger_end_sequence l))]"
    and ne: "records \<noteq> []"
    and r: "terminalRestartStateLocked records l = Inr r"
  shows "rsAuditTombstones r =
    (let h = lgAuditTombstones l @ records; limit = AuditTombstoneLimit (lgLimits l) in
     if int (length h) > limit then drop (length h - nat limit) h else h)"
proof -
  let ?h = "lgAuditTombstones l @ records"
  have sorted: "sorted (map tsTerminalSequence ?h)"
  proof -
    have "sorted (map seq_nat ?h)" by (simp only: seqs sorted_upt)
    then show ?thesis unfolding sorted_map by (simp only: word_le_nat_alt)
  qed
  have "distinct (map unat (map tsTerminalSequence ?h))"
    using seqs distinct_upt by (metis (mono_tags, lifting) comp_apply list.map_comp map_eq_conv)
  then have "distinct (map tsTerminalSequence ?h)" by (simp only: distinct_map)
  then have "unique_tombstones None (sort_key tsTerminalSequence ?h) = Inr ?h"
    using unique_strict [of ?h None] sorted by (simp only: sorted_sort_id sort_key_id_if_sorted) simp
  moreover obtain h w where hw: "retained_history l ?h = (h, w)" by (cases "retained_history l ?h")
  ultimately have "rsAuditTombstones r = h"
    using r by (auto simp: terminalRestartStateLocked_def Let_def split: option.splits)
  with retained_gapless [OF seqs] ne hw show ?thesis by (simp add: Let_def)
qed


section \<open>The ledger as an event machine\<close>

text \<open>
  The two ways in which the terminal-sequence state of a ledger changes: an attempt reserves its
  batch, or the terminal records of an attempt are made durable. A refused operation leaves the
  ledger as it is.
\<close>

datatype ledger_event = ReserveBatch int | CommitRecords "tombstone list"

fun ledger_step :: "ledger_event \<Rightarrow> ledger_core \<Rightarrow> ledger_core" where
  "ledger_step (ReserveBatch n) l =
     (case reserveTerminalBatchLocked n l of Inl _ \<Rightarrow> l | Inr (_, _, l') \<Rightarrow> l')"
| "ledger_step (CommitRecords records) l =
     (case terminalRestartStateLocked records l of
        Inl _ \<Rightarrow> l
      | Inr r \<Rightarrow> applyDurableRestartStateLocked r l)"

text \<open>A claim count is a Go \<open>int\<close>.\<close>

fun go_event :: "ledger_event \<Rightarrow> bool" where
  "go_event (ReserveBatch n) \<longleftrightarrow> n < 2 ^ 63"
| "go_event (CommitRecords _) \<longleftrightarrow> True"

definition ledger_progress :: "ledger_core \<Rightarrow> ledger_core \<Rightarrow> bool" where
  "ledger_progress l l' \<longleftrightarrow>
     CoversTerminalWatermark (durableRestartStateLocked l') (durableRestartStateLocked l)
     \<and> lgTruncatedThrough l \<le> lgTruncatedThrough l'
     \<and> ledger_position l \<le> ledger_position l'"

lemma ledger_position_durable:
  assumes "position_ok l"
  shows "lgSequenceExhausted l \<or> d \<le> lgNextTerminalSequence l
    \<longleftrightarrow> (unat d \<le> ledger_position l)"
  using assms unat_u64_bound [of d]
  by (auto simp: ledger_position_def word_le_nat_alt)

lemma reserve_durable_ok:
  assumes ok: "ledger_durable_ok l" and n: "0 < n" "n < 2 ^ 63"
    and r: "reserveTerminalBatchLocked n l = Inr (first, claims, l')"
  shows "ledger_durable_ok l' \<and> durableRestartStateLocked l' = durableRestartStateLocked l
    \<and> lgTruncatedThrough l' = lgTruncatedThrough l \<and> ledger_position l \<le> ledger_position l'"
proof -
  have pos: "position_ok l" using ok by (simp add: ledger_durable_ok_def)
  note eff = reserve_effect [OF pos n r]
  then obtain nx ex where l': "l' = l\<lparr>lgNextTerminalSequence := nx, lgSequenceExhausted := ex\<rparr>"
    by blast
  have "\<not> lgSequenceExhausted l"
    using r by (auto simp: reserveTerminalBatchLocked_def terminalBatchAvailableLocked_def
        split: if_splits)
  moreover have "lgSequenceExhausted l' \<or> lgDurableNext l \<le> lgNextTerminalSequence l'"
    using eff ledger_position_durable [of l' "lgDurableNext l"]
      ledger_position_durable [OF pos, of "lgDurableNext l"] ok
    by (auto simp: ledger_durable_ok_def)
  ultimately show ?thesis
    using ok eff by (auto simp: l' ledger_durable_ok_def durableRestartStateLocked_def)
qed

lemma durable_covers_itself:
  assumes "ledger_durable_ok l"
  shows "CoversTerminalWatermark (durableRestartStateLocked l) (durableRestartStateLocked l)"
  using assms covers_reflexive accept_limits_relax by (auto simp: ledger_durable_ok_def)

lemma ledger_step_ok:
  assumes "ledger_durable_ok l" and "go_event e"
  shows "ledger_durable_ok (ledger_step e l) \<and> ledger_progress l (ledger_step e l)"
proof (cases e)
  case (ReserveBatch n)
  show ?thesis
  proof (cases "reserveTerminalBatchLocked n l")
    case (Inl _)
    then show ?thesis
      using assms durable_covers_itself by (simp add: ReserveBatch ledger_progress_def)
  next
    case (Inr x)
    obtain first claims l' where x: "x = (first, claims, l')" by (cases x) auto
    have "0 < n"
      using Inr by (auto simp: reserveTerminalBatchLocked_def terminalBatchAvailableLocked_def
          split: if_splits)
    with reserve_durable_ok [OF assms(1)] assms(2) Inr x durable_covers_itself [OF assms(1)]
    show ?thesis by (auto simp: ReserveBatch ledger_progress_def)
  qed
next
  case (CommitRecords records)
  show ?thesis
  proof (cases "terminalRestartStateLocked records l")
    case (Inl _)
    then show ?thesis
      using assms durable_covers_itself by (simp add: CommitRecords ledger_progress_def)
  next
    case (Inr r)
    have "ledger_position (applyDurableRestartStateLocked r l) = ledger_position l"
      by (simp add: ledger_position_def applyDurableRestartStateLocked_def)
    moreover have "lgTruncatedThrough (applyDurableRestartStateLocked r l) = rsTruncatedThrough r"
      by (simp add: applyDurableRestartStateLocked_def)
    ultimately show ?thesis
      using terminal_restart_covers [OF assms(1) Inr] apply_durable_ok [OF assms(1) Inr] Inr
      by (simp add: CommitRecords ledger_progress_def)
  qed
qed

interpretation ledger_machine: event_machine ledger_step go_event ledger_durable_ok ledger_progress
proof unfold_locales
  show "ledger_progress a b \<Longrightarrow> ledger_progress b c \<Longrightarrow> ledger_progress a c" for a b c
    using covers_transitive [of "durableRestartStateLocked c" "durableRestartStateLocked b"
        "durableRestartStateLocked a"]
    by (auto simp: ledger_progress_def durableRestartStateLocked_def)
next
  show "ledger_durable_ok s \<Longrightarrow> ledger_progress s s" for s
    using durable_covers_itself by (simp add: ledger_progress_def)
qed (use ledger_step_ok in blast)+

section \<open>A new ledger\<close>

lemma new_ledger_durable_ok:
  assumes "newSampleLedger s trusted limits restart = Inr l"
  shows "ledger_durable_ok l"
proof -
  have base: "validateLedgerRestartState \<lparr>rsSchemaVersion = 1, rsNextTerminalSequence = 1,
      rsSequenceExhausted = False, rsTruncatedThrough = 0, rsAuditTombstones = []\<rparr> limits = None"
    if "acceptLedgerLimits limits = None"
    using accept_limits_bounds [OF that] by (simp add: validateLedgerRestartState_def end_sequence_def)
  show ?thesis
  proof (cases restart)
    case None
    with assms base show ?thesis
      by (auto simp: newSampleLedger_def Let_def ledger_durable_ok_def position_ok_def
          durableRestartStateLocked_def split: option.splits if_splits)
  next
    case (Some r)
    with assms have valid: "validateLedgerRestartState r limits = None"
      by (simp add: newSampleLedger_def Let_def split: option.splits if_splits)
    then have "rsSchemaVersion r = 1"
      and ex: "rsSequenceExhausted r \<longleftrightarrow> rsNextTerminalSequence r = 0"
      by (auto elim: validate_restart_cases)
    then have "r = \<lparr>rsSchemaVersion = 1, rsNextTerminalSequence = rsNextTerminalSequence r,
        rsSequenceExhausted = rsSequenceExhausted r, rsTruncatedThrough = rsTruncatedThrough r,
        rsAuditTombstones = rsAuditTombstones r\<rparr>" by simp
    moreover have "durableRestartStateLocked l = \<lparr>rsSchemaVersion = 1,
        rsNextTerminalSequence = rsNextTerminalSequence r,
        rsSequenceExhausted = rsSequenceExhausted r, rsTruncatedThrough = rsTruncatedThrough r,
        rsAuditTombstones = rsAuditTombstones r\<rparr> \<and> lgLimits l = limits
        \<and> lgNextTerminalSequence l = rsNextTerminalSequence r
        \<and> lgDurableNext l = rsNextTerminalSequence r
        \<and> lgSequenceExhausted l = rsSequenceExhausted r
        \<and> lgDurableExhausted l = rsSequenceExhausted r
        \<and> acceptLedgerLimits limits = None"
      using assms Some
      by (auto simp: newSampleLedger_def Let_def durableRestartStateLocked_def
          split: option.splits if_splits)
    ultimately show ?thesis
      using valid ex by (simp add: ledger_durable_ok_def position_ok_def)
  qed
qed

section \<open>Properties\<close>

text \<open>Terminal sequences are issued without reuse and without gaps: over any series of
  reservations, whatever the claim counts and whichever of them are refused, the sequences handed
  out are exactly the consecutive numbers between the position of the ledger before and after,
  and exhaustion of the 64-bit range stops the series instead of wrapping.\<close>
theorem reservations_are_contiguous:
  assumes "position_ok l" and "list_all (\<lambda>n. 0 < n \<and> n < 2 ^ 63) ns"
  shows "map unat (fst (reserve_run ns l)) =
      [ledger_position l ..< ledger_position (snd (reserve_run ns l))]
    \<and> ledger_position (snd (reserve_run ns l)) \<le> 2 ^ 64"
  using reserve_run_contiguous [OF assms]
    order_less_imp_le [OF unat_u64_bound [of "lgNextTerminalSequence (snd (reserve_run ns l))"]]
  by (simp add: ledger_position_def)

definition example_ledger :: ledger_core where
  "example_ledger = \<lparr>
     lgLimits = DefaultLedgerLimits, lgIssuerDomain = ''issuer'', lgProfileID = ''profile'',
     lgProfileVersion = schemaVersionV1, lgDependencySetID = ''sha256:'' @ replicate 64 CHR ''0'', lgRevision = 0,
     lgHighWater = 0, lgLastCommittedAttempt = zero_identity, lgRetainedClaims = 0,
     lgNextTerminalSequence = 6, lgSequenceExhausted = False, lgDurableNext = 6,
     lgDurableExhausted = False, lgTruncatedThrough = 2,
     lgAuditTombstones = [example_attempt, example_claim 0, example_claim 1]\<rparr>"

theorem reservations_are_contiguous_witness:
  "map unat (fst (reserve_run [2, 1] example_ledger)) =
    [6 ..< ledger_position (snd (reserve_run [2, 1] example_ledger))]"
  using reservations_are_contiguous [of example_ledger "[2, 1]"]
  by (simp add: position_ok_def example_ledger_def ledger_position_def)

text \<open>A reservation is refused exactly when the batch, one sequence for the attempt and one
  for each claim, no longer fits below the end of the 64-bit sequence space.\<close>
theorem reservation_refused_iff_exhausted:
  assumes "position_ok l" and "0 < n" and "n < 2 ^ 63"
  shows "reserveTerminalBatchLocked n l = Inl SequenceExhausted
    \<longleftrightarrow> 2 ^ 64 < ledger_position l + nat n + 1"
proof -
  have "reserveTerminalBatchLocked n l = Inl SequenceExhausted
      \<longleftrightarrow> \<not> terminalBatchAvailableLocked n l"
    by (auto simp: reserveTerminalBatchLocked_def terminalBatchAvailableLocked_def Let_def)
  with terminalBatchAvailable_iff [OF assms] show ?thesis by linarith
qed

theorem reservation_refused_iff_exhausted_witness:
  "reserveTerminalBatchLocked 2 example_ledger \<noteq> Inl SequenceExhausted"
  using reservation_refused_iff_exhausted [of example_ledger 2]
  by (simp add: position_ok_def example_ledger_def ledger_position_def)

text \<open>No audit record is lost: over any interleaving of reservations and terminal commits,
  from a ledger built by the constructor, the durable restart state after the run covers the one
  at every earlier point, the truncation watermark never moves back, and the durable state is at
  every point a valid restart state of the ledger's limits.\<close>
theorem durable_history_never_regresses:
  assumes "newSampleLedger s trusted limits restart = Inr l"
    and "list_all go_event (xs @ ys)"
  shows "ledger_progress (fold ledger_step xs l) (fold ledger_step (xs @ ys) l)
    \<and> ledger_durable_ok (fold ledger_step (xs @ ys) l)"
  using ledger_machine.run_progress_between [OF new_ledger_durable_ok [OF assms(1)] assms(2)]
    ledger_machine.run_inv [OF new_ledger_durable_ok [OF assms(1)] assms(2)] by blast

definition example_sample :: sample_state where
  "example_sample = \<lparr>ssSchemaVersion = schemaVersionV1, ssIssuerDomain = ''issuer'',
     ssProfileID = ''profile'', ssProfileVersion = schemaVersionV1, ssDependencySetID = ''sha256:'' @ replicate 64 CHR ''0'',
     ssRevision = 0, ssHighWater = 0, ssLastCommittedAttempt = zero_identity\<rparr>"

lemma default_limits_accepted: "acceptLedgerLimits DefaultLedgerLimits = None"
proof -
  have attempt: "encodes_within DefaultLedgerLimits (largest_attempt_tombstone DefaultLedgerLimits)"
    by (simp add: encodes_within_def marshalTombstone_def validateLedgerAuditTombstone_def
        largest_attempt_tombstone_def validAttemptTerminalOutcome_def attempt_json_length
        DefaultLedgerLimits_def contract_consts json_u64_def dec_large dec_small unat_MaxUint64)
  have claim: "encodes_within DefaultLedgerLimits largest_claim_tombstone"
    by (simp add: encodes_within_def marshalTombstone_def validateLedgerAuditTombstone_def
        largest_claim_tombstone_def validClaimOutcome_def claim_json_length
        DefaultLedgerLimits_def)
  have "validateLedgerLimits DefaultLedgerLimits = None"
    by (simp add: validateLedgerLimits_def DefaultLedgerLimits_def contract_consts)
  with attempt claim show ?thesis
    by (simp add: acceptLedgerLimits_def validateLargestLedgerTombstones_def restartEnvelopeBudget_def)
       (simp add: DefaultLedgerLimits_def contract_consts)
qed

theorem durable_history_never_regresses_witness:
  "\<exists>l. newSampleLedger example_sample 0 DefaultLedgerLimits None = Inr l
     \<and> ledger_durable_ok (fold ledger_step [ReserveBatch 1, CommitRecords []] l)"
proof -
  have "validateSampleLedgerState example_sample 0 = None"
    by code_simp
  then obtain l where "newSampleLedger example_sample 0 DefaultLedgerLimits None = Inr l"
    by (simp add: newSampleLedger_def default_limits_accepted example_sample_def)
  with durable_history_never_regresses [OF this, of "[ReserveBatch 1, CommitRecords []]" "[]"]
  show ?thesis by simp
qed

text \<open>When the terminal records of an attempt follow the durable history without a gap, the
  committed history is the old history with the records appended, cut from the left to the
  configured record limit; sorting, de-duplication and the backward search drop nothing else.\<close>
theorem terminal_commit_appends:
  assumes "map (\<lambda>t. unat (tsTerminalSequence t)) (lgAuditTombstones l @ records) =
      [Suc (unat (lgTruncatedThrough l)) ..< Suc (unat (ledger_end_sequence l))]"
    and "records \<noteq> []" and "terminalRestartStateLocked records l = Inr r"
  shows "rsAuditTombstones r =
    drop (length (lgAuditTombstones l @ records) - nat (AuditTombstoneLimit (lgLimits l)))
      (lgAuditTombstones l @ records)"
  using terminal_restart_appends [OF assms] by (auto simp: Let_def)

lemma example_terminal_restart:
  "terminalRestartStateLocked [example_claim 1]
     (example_ledger\<lparr>lgAuditTombstones := [example_attempt, example_claim 0]\<rparr>) = Inr example_restart"
proof -
  let ?l = "example_ledger\<lparr>lgAuditTombstones := [example_attempt, example_claim 0]\<rparr>"
  let ?h = "[example_attempt, example_claim 0, example_claim 1]"
  have sorted: "sorted (map tsTerminalSequence ?h)" and dist: "distinct (map tsTerminalSequence ?h)"
    by (simp_all add: example_attempt_def example_claim_def)
  have "unique_tombstones None (sort_key tsTerminalSequence ?h) = Inr ?h"
    using unique_strict [of ?h None] dist by (simp only: sort_key_id_if_sorted [OF sorted]) simp
  moreover have "retained_history ?l ?h = (?h, 2)"
  proof -
    have seqs: "tsTerminalSequence example_attempt = 3" "tsTerminalSequence (example_claim 0) = 4"
      "tsTerminalSequence (example_claim 1) = 5"
      by (simp_all add: example_attempt_def example_claim_def)
    have "ledger_end_sequence ?l = 5" "lgTruncatedThrough ?l = 2"
      "AuditTombstoneLimit (lgLimits ?l) = 4096"
      by (simp_all add: ledger_end_sequence_def example_ledger_def DefaultLedgerLimits_def)
    moreover have "takeWhile (\<lambda>t. tsTerminalSequence t < 5) ?h = [example_attempt, example_claim 0]"
      by (simp add: seqs word_less_nat_alt)
    moreover have "walk_back ?h (Suc (Suc 0)) = 0" by (simp add: seqs)
    ultimately show ?thesis by (simp add: retained_history_def Let_def seqs)
  qed
  moreover have "\<lparr>rsSchemaVersion = 1, rsNextTerminalSequence = 6, rsSequenceExhausted = False,
      rsTruncatedThrough = 2, rsAuditTombstones = ?h\<rparr> = example_restart"
    by (simp add: example_restart_def)
  ultimately show ?thesis
    using example_restart_valid
    by (simp add: terminalRestartStateLocked_def) (simp add: example_ledger_def)
qed

theorem terminal_commit_appends_witness:
  "rsAuditTombstones example_restart = [example_attempt, example_claim 0] @ [example_claim 1]"
  using terminal_commit_appends [OF _ _ example_terminal_restart]
  by (simp add: example_ledger_def example_attempt_def example_claim_def ledger_end_sequence_def
      DefaultLedgerLimits_def)

lemma accepted_restart_length:
  assumes "validateLedgerRestartState r limits = None"
  shows "length (rsAuditTombstones r) \<le> 5907"
  using assms
proof (cases rule: validate_restart_cases)
  case empty then show ?thesis by simp
next
  case (history m)
  have "list_all valid_tombstone (rsAuditTombstones r)"
    using scan_sequences_start [OF history(6,1,2)] by (auto simp: list_all_iff intro: encodes_valid)
  with assms restart_overrun_rejected show ?thesis by (meson not_le)
qed

text \<open>C39: The constructor accepts audit limits that no history can ever reach: a record limit of
  16317 passes its aggregate check, yet under it no terminal commit produces a restart state
  with more than 5907 records, because the byte budget charges each record for its in-memory
  form and not for its JSON form. A history beyond that length is refused, not truncated.\<close>
theorem accepted_limit_unreachable:
  "acceptLedgerLimits (DefaultLedgerLimits\<lparr>AuditTombstoneLimit := 16317\<rparr>) = None
   \<and> {length (rsAuditTombstones r) | r l records.
        lgLimits l = DefaultLedgerLimits\<lparr>AuditTombstoneLimit := 16317\<rparr>
        \<and> terminalRestartStateLocked records l = Inr r} \<subseteq> {..5907}"
proof -
  let ?limits = "DefaultLedgerLimits\<lparr>AuditTombstoneLimit := 16317\<rparr>"
  have "largest_attempt_tombstone ?limits = largest_attempt_tombstone DefaultLedgerLimits"
    "encodes_within ?limits = encodes_within DefaultLedgerLimits"
    by (simp_all add: largest_attempt_tombstone_def encodes_within_def fun_eq_iff split: sum.split)
  moreover have "validateLedgerLimits ?limits = None"
    by (simp add: validateLedgerLimits_def DefaultLedgerLimits_def contract_consts)
  ultimately have "acceptLedgerLimits ?limits = None"
    using default_limits_accepted accept_limits_bounds [OF default_limits_accepted]
    by (simp add: acceptLedgerLimits_def validateLargestLedgerTombstones_def restartEnvelopeBudget_def)
       (simp add: DefaultLedgerLimits_def contract_consts)
  then show ?thesis using accepted_restart_length terminal_restart_valid [THEN conjunct1] by fastforce
qed

end
