(* ===== verification/Ledger_Attempt.thy ===== *)
theory Ledger_Attempt
  imports Ledger_State
begin

text \<open>
  The attempt lifecycle of \<^verbatim>\<open>runtime_ledger.go\<close> with its concurrency. An operation of the
  code holds the ledger's or the attempt's mutex in one or more critical sections and calls the
  producer or the committer between them. Each critical section is one definition here; an
  operation that has more than one is a thread whose program counter names the section it is
  about to enter and carries the locals of the Go function. The reply of an external call (the
  modbus producer, the publication committer, the context) is an input of the step that
  consumes it, so a schedule of steps ranges over all interleavings and all replies.
\<close>

section \<open>Attempt state\<close>

datatype claim_phase = runtimeClaimUnresolved | runtimeClaimInProgress | runtimeClaimTerminal

record claim_entry =
  cePhase :: claim_phase
  ceOutcome :: claim_outcome
  ceTerminalSequence :: u64

record attempt_state =
  atKey :: string
  atIdentity :: attempt_identity
  atPhase :: attempt_phase
  atTerminalSequence :: u64
  atEntries :: "claim_entry list"
  atInProgressClaims :: int
  atSource :: bool
  atProducerAttempt :: bool
  atAdmitted :: bool
  atIssued :: "bool list"
  atPublishAbortClosed :: bool
  atRestartCommitted :: bool
  atTerminalOutcome :: attempt_phase
  atTerminalCommitInProgress :: bool
  atTerminalPersistenceErr :: bool
  atTerminalWaiters :: int
  atSourceDrainComplete :: bool
  atSourceDrainErr :: bool
  atCancelOpen :: bool

text \<open>Pointers are modelled by whether they are nil; an error value by whether there is one.\<close>

datatype cancellation_result =
    CancellationNone
  | CancellationCompleted
  | CancellationFailed
  | CancellationAlreadyPublished
  | CancellationPublishFailed

datatype op_result =
    ClaimReturned claim_outcome bool
  | AdmitReturned bool
  | CancelReturned cancellation_result bool
  | PublishReturned bool

datatype drain_caller = DrainAdmit | DrainCancel | DrainPublish

text \<open>
  The program counters. \<open>Persisting\<close> and what follows it carry the result the caller returns
  when the terminal outcome is persisted and when it is not.
\<close>

datatype pc =
    Claiming nat nat
  | Draining nat drain_caller
  | FinishingCancel nat attempt_phase op_result op_result
  | Persisting nat attempt_phase op_result op_result
  | PersistWaiting nat attempt_phase op_result op_result
  | Committing nat attempt_phase op_result op_result
  | CommitCalling nat attempt_phase restart_state restart_state op_result op_result
  | CommitMarking nat attempt_phase op_result op_result
  | PersistFailing nat attempt_phase op_result op_result
  | Finalizing nat attempt_phase op_result op_result
  | CancelLoop nat bool
  | CancelWaiting nat
  | CancelQuiescing nat
  | CancelClosing nat
  | CancelClosed nat
  | PublishQueued nat
  | PublishAdmitting nat
  | PublishComputing nat
  | PublishCalling nat sample_state sample_state restart_state restart_state
  | PublishMarking nat
  | Finished op_result

record world =
  wLedger :: ledger_core
  wAttempts :: "(string, nat) gomap"
  wHeap :: "attempt_state list"
  wThreads :: "pc list"
  wCommitSerial :: bool

text \<open>
  An attempt is the index of its state in \<open>wHeap\<close>; \<open>wAttempts\<close> is the map
  \<^verbatim>\<open>ledger.attempts\<close>; \<open>wCommitSerial\<close> says whether the token is in the channel.
\<close>

datatype attempt_error =
    IdentityRejected
  | KeyRejected
  | CardinalityRejected
  | DiagnosticsRejected
  | FactsRejected
  | GenerationTerminal
  | KeyRetained
  | CapacityExhausted
  | LedgerSequence
  | ProducerRejected
  | IssuanceClosed
  | OrdinalIssued
  | AdmissionClosed
  | SetIncomplete
  | ClaimOutside
  | ClaimAlreadyTerminal claim_outcome
  | ClaimClosed
  | SealRejected
  | NotSealed
  | NotEnabled

section \<open>External replies\<close>

datatype producer_claim =
    RuntimeCapabilityClaimed bool
  | RuntimeCapabilityCancelled
  | RuntimeCapabilityFailed
  | RuntimeCapabilityExpired
  | RuntimeCapabilityOther
  | RuntimeClaimError

datatype producer_close = CloseOk | CloseMembership | CloseClosed | CloseError

datatype drain_reply = DrainOk | DrainClosed | DrainError

datatype publish_reply = ObservationRejected | CommitError | CommitCancelled | CommitCommitted

datatype reply =
    NoReply
  | ClaimReply producer_claim
  | CloseReply producer_close
  | DrainReply drain_reply
  | TerminalReply bool
  | QueueReply bool
  | ContextReply bool
  | PublishReply publish_reply

definition claimOutcomeFromProducer :: "producer_claim \<Rightarrow> claim_outcome" where
  "claimOutcomeFromProducer result =
     (case result of
        RuntimeClaimError \<Rightarrow> ClaimRejectedTerminal
      | RuntimeCapabilityClaimed won \<Rightarrow> (if won then ClaimSucceeded else ClaimRejectedTerminal)
      | RuntimeCapabilityCancelled \<Rightarrow> CapabilityCancelled
      | RuntimeCapabilityFailed \<Rightarrow> CapabilityFailed
      | RuntimeCapabilityExpired \<Rightarrow> CapabilityExpired
      | RuntimeCapabilityOther \<Rightarrow> ClaimRejectedTerminal)"

section \<open>Beginning an attempt\<close>

datatype coherence_mode = CoherenceSingleWireResponse | CoherenceBoundedMultiResponse | CoherenceOther

record factory =
  fcMode :: coherence_mode
  fcDependencies :: nat

text \<open>
  \<open>rqFactsValid\<close> is the verdict of \<^verbatim>\<open>validateRuntimeAttemptFacts\<close>, and \<open>rqBegin\<close> whether the
  producer's \<^verbatim>\<open>BeginAttempt\<close> succeeds.
\<close>

record attempt_request =
  rqAttemptKey :: string
  rqIdentity :: attempt_identity
  rqDependencies :: nat
  rqDiagnostics :: "string list"
  rqFactsValid :: bool
  rqBegin :: bool

definition validateAttemptIdentity :: "factory \<Rightarrow> attempt_identity \<Rightarrow> ledger_core \<Rightarrow> bool" where
  "validateAttemptIdentity factory identity l \<longleftrightarrow>
     PollGenerationID identity \<noteq> 0
     \<and> (case fcMode factory of
          CoherenceSingleWireResponse \<Rightarrow> RetryOrdinal identity = 0
        | CoherenceBoundedMultiResponse \<Rightarrow> RetryOrdinal identity \<noteq> 0
        | CoherenceOther \<Rightarrow> False)
     \<and> \<not> (PollGenerationID (lgLastCommittedAttempt l) \<noteq> 0
          \<and> PollGenerationID identity \<le> PollGenerationID (lgLastCommittedAttempt l))"

definition validateRetainedDiagnostics :: "string list \<Rightarrow> ledger_limits \<Rightarrow> bool" where
  "validateRetainedDiagnostics values limits \<longleftrightarrow>
     int (length values) \<le> RetainedDiagnosticCountPerObjectMax limits
     \<and> (\<forall>d \<in> set values. d \<noteq> [] \<and> utf8_valid d
          \<and> int (length d) \<le> RetainedDiagnosticMaxUTF8Bytes limits)"

definition new_attempt :: "attempt_request \<Rightarrow> nat \<Rightarrow> u64 \<Rightarrow> u64 list \<Rightarrow> attempt_state" where
  "new_attempt request declarations attemptSequence claimSequences = \<lparr>
     atKey = rqAttemptKey request,
     atIdentity = rqIdentity request,
     atPhase = AttemptOpen,
     atTerminalSequence = attemptSequence,
     atEntries = map (\<lambda>sequence. \<lparr>cePhase = runtimeClaimUnresolved, ceOutcome = ClaimUnset,
       ceTerminalSequence = sequence\<rparr>) claimSequences,
     atInProgressClaims = 0,
     atSource = True,
     atProducerAttempt = True,
     atAdmitted = False,
     atIssued = replicate declarations False,
     atPublishAbortClosed = False,
     atRestartCommitted = False,
     atTerminalOutcome = AttemptUnset,
     atTerminalCommitInProgress = False,
     atTerminalPersistenceErr = False,
     atTerminalWaiters = 0,
     atSourceDrainComplete = False,
     atSourceDrainErr = False,
     atCancelOpen = True\<rparr>"

definition BeginRuntimeAttempt :: "factory \<Rightarrow> attempt_request \<Rightarrow> world \<Rightarrow> attempt_error + world" where
  "BeginRuntimeAttempt factory request w =
     (let l = wLedger w; limits = lgLimits l; declarations = fcDependencies factory in
      if \<not> validateAttemptIdentity factory (rqIdentity request) l then Inl IdentityRejected
      else if rqAttemptKey request = [] \<or> \<not> utf8_valid (rqAttemptKey request)
        \<or> int (length (rqAttemptKey request)) > AttemptKeyMaxUTF8Bytes limits then Inl KeyRejected
      else if rqDependencies request \<noteq> declarations
        \<or> int declarations > MaxClaimEntriesPerAttempt limits then Inl CardinalityRejected
      else if \<not> validateRetainedDiagnostics (rqDiagnostics request) limits
      then Inl DiagnosticsRejected
      else if \<not> rqFactsValid request then Inl FactsRejected
      else if PollGenerationID (lgLastCommittedAttempt l) \<noteq> 0
        \<and> PollGenerationID (rqIdentity request) \<le> PollGenerationID (lgLastCommittedAttempt l)
      then Inl GenerationTerminal
      else if gm_get (wAttempts w) (rqAttemptKey request) \<noteq> None then Inl KeyRetained
      else if int (length (wAttempts w)) \<ge> MaxRetainedAttempts limits
        \<or> lgRetainedClaims l + int declarations > MaxRetainedClaimEntries limits
      then Inl CapacityExhausted
      else if \<not> terminalBatchAvailableLocked (int declarations) l then Inl LedgerSequence
      else if \<not> rqBegin request then Inl ProducerRejected
      else (case reserveTerminalBatchLocked (int declarations) l of
              Inl _ \<Rightarrow> Inl LedgerSequence
            | Inr (attemptSequence, claimSequences, l') \<Rightarrow>
                Inr (w\<lparr>
                  wLedger := l'\<lparr>lgRetainedClaims := lgRetainedClaims l' + int declarations\<rparr>,
                  wAttempts := gm_put (rqAttemptKey request) (length (wHeap w)) (wAttempts w),
                  wHeap := wHeap w @ [new_attempt request declarations attemptSequence claimSequences]\<rparr>)))"

section \<open>Issue, claim and seal\<close>

definition attempt_at :: "world \<Rightarrow> nat \<Rightarrow> attempt_state" where
  "attempt_at w a = wHeap w ! a"

definition set_attempt :: "nat \<Rightarrow> attempt_state \<Rightarrow> world \<Rightarrow> world" where
  "set_attempt a s w = w\<lparr>wHeap := (wHeap w)[a := s]\<rparr>"

definition spawn :: "pc \<Rightarrow> world \<Rightarrow> world" where
  "spawn p w = w\<lparr>wThreads := wThreads w @ [p]\<rparr>"

definition goto :: "nat \<Rightarrow> pc \<Rightarrow> world \<Rightarrow> world" where
  "goto tid p w = w\<lparr>wThreads := (wThreads w)[tid := p]\<rparr>"

definition Issue :: "nat \<Rightarrow> nat \<Rightarrow> bool \<Rightarrow> world \<Rightarrow> attempt_error + world" where
  "Issue a ordinal sourceIssues w =
     (let s = attempt_at w a in
      if \<not> a < length (wHeap w) then Inl NotEnabled
      else if atPhase s \<noteq> AttemptOpen \<or> atAdmitted s \<or> \<not> atSource s
        \<or> \<not> atProducerAttempt s \<or> ordinal \<ge> length (atIssued s) then Inl IssuanceClosed
      else if atIssued s ! ordinal then Inl OrdinalIssued
      else if \<not> sourceIssues then Inl ProducerRejected
      else Inr (set_attempt a (s\<lparr>atIssued := (atIssued s)[ordinal := True]\<rparr>) w))"

definition cancelUnresolvedLocked :: "attempt_state \<Rightarrow> attempt_state" where
  "cancelUnresolvedLocked s = s\<lparr>atEntries := map (\<lambda>e.
     if cePhase e = runtimeClaimUnresolved
     then e\<lparr>cePhase := runtimeClaimTerminal, ceOutcome := ClaimAttemptCancelled\<rparr> else e)
     (atEntries s)\<rparr>"

text \<open>
  \<open>allValid\<close>: every issued acquisition is valid; \<open>closes\<close>: the producer closes the attempt;
  \<open>builds\<close>: the verdict of \<^verbatim>\<open>buildRuntimeObservation\<close> and
  \<^verbatim>\<open>validateDurableObservationEnvelope\<close>. A failure after the first section leaves a thread
  that drains and persists the terminal outcome.
\<close>

definition Admit :: "nat \<Rightarrow> bool \<Rightarrow> bool \<Rightarrow> bool \<Rightarrow> world \<Rightarrow> attempt_error + world" where
  "Admit a allValid closes builds w =
     (let s = attempt_at w a in
      if \<not> a < length (wHeap w) then Inl NotEnabled
      else if atPhase s \<noteq> AttemptOpen \<or> atAdmitted s \<or> \<not> atProducerAttempt s
        \<or> atInProgressClaims s \<noteq> 0 then Inl AdmissionClosed
      else if \<not> (list_all id (atIssued s) \<and> allValid) then Inl SetIncomplete
      else if \<not> closes
      then Inr (spawn (FinishingCancel a AttemptCancelFailed (AdmitReturned True) (AdmitReturned True))
             (set_attempt a ((cancelUnresolvedLocked (s\<lparr>atProducerAttempt := False\<rparr>))
                \<lparr>atPhase := AttemptCancelling, atSource := False\<rparr>) w))
      else
        (let admitted = s\<lparr>atProducerAttempt := False, atAdmitted := True, atIssued := []\<rparr> in
         if builds then Inr (spawn (Finished (AdmitReturned False)) (set_attempt a admitted w))
         else Inr (spawn (Draining a DrainAdmit)
                (set_attempt a (admitted\<lparr>atPhase := AttemptCancelling\<rparr>) w))))"

definition set_entry :: "nat \<Rightarrow> claim_phase \<Rightarrow> claim_outcome \<Rightarrow> attempt_state \<Rightarrow> attempt_state" where
  "set_entry ordinal p out s = s\<lparr>atEntries := (atEntries s)[ordinal :=
     (atEntries s ! ordinal)\<lparr>cePhase := p, ceOutcome := out\<rparr>]\<rparr>"

definition Claim_admit :: "nat \<Rightarrow> nat \<Rightarrow> world \<Rightarrow> attempt_error + world" where
  "Claim_admit a ordinal w =
     (let s = attempt_at w a; entry = atEntries s ! ordinal in
      if \<not> a < length (wHeap w) then Inl NotEnabled
      else if ordinal \<ge> length (atEntries s) then Inl ClaimOutside
      else if cePhase entry = runtimeClaimTerminal then Inl (ClaimAlreadyTerminal (ceOutcome entry))
      else if atPhase s \<noteq> AttemptOpen \<or> \<not> atAdmitted s \<or> cePhase entry \<noteq> runtimeClaimUnresolved
      then Inl ClaimClosed
      else Inr (spawn (Claiming a ordinal)
             (set_attempt a ((set_entry ordinal runtimeClaimInProgress (ceOutcome entry) s)
                \<lparr>atInProgressClaims := atInProgressClaims s + 1\<rparr>) w)))"

definition Claim_finish :: "nat \<Rightarrow> nat \<Rightarrow> nat \<Rightarrow> producer_claim \<Rightarrow> world \<Rightarrow> world" where
  "Claim_finish tid a ordinal result w =
     (let s = attempt_at w a; outcome = claimOutcomeFromProducer result in
      goto tid (Finished (ClaimReturned outcome (result = RuntimeClaimError)))
        (set_attempt a ((set_entry ordinal runtimeClaimTerminal outcome s)
           \<lparr>atInProgressClaims := atInProgressClaims s - 1\<rparr>) w))"

definition Seal :: "nat \<Rightarrow> world \<Rightarrow> attempt_error + world" where
  "Seal a w =
     (let s = attempt_at w a in
      if \<not> a < length (wHeap w) then Inl NotEnabled
      else if atPhase s \<noteq> AttemptOpen \<or> \<not> atAdmitted s \<or> atEntries s = []
        \<or> atInProgressClaims s \<noteq> 0 then Inl SealRejected
      else if \<not> list_all (\<lambda>e. cePhase e = runtimeClaimTerminal \<and> ceOutcome e = ClaimSucceeded)
                 (atEntries s) then Inl SealRejected
      else Inr (set_attempt a (s\<lparr>atPhase := AttemptSealed\<rparr>) w))"

section \<open>Draining the source and cancelling\<close>

text \<open>The state after \<^verbatim>\<open>drainSource\<close> and whether it returns an error.\<close>

definition drainSource :: "drain_reply \<Rightarrow> attempt_state \<Rightarrow> attempt_state \<times> bool" where
  "drainSource r s =
     (if atSourceDrainComplete s \<or> atSourceDrainErr s then (s, atSourceDrainErr s)
      else if \<not> atCancelOpen s then (s\<lparr>atSourceDrainErr := True\<rparr>, True)
      else if r = DrainError then (s\<lparr>atSourceDrainErr := True\<rparr>, True)
      else (s\<lparr>atSourceDrainComplete := True, atSource := False, atCancelOpen := False\<rparr>, False))"

definition drain_continue :: "drain_caller \<Rightarrow> nat \<Rightarrow> bool \<Rightarrow> pc" where
  "drain_continue caller a failed =
     (case caller of
        DrainAdmit \<Rightarrow> FinishingCancel a (if failed then AttemptCancelFailed else AttemptCancelled)
          (AdmitReturned True) (AdmitReturned True)
      | DrainCancel \<Rightarrow>
          (if failed then FinishingCancel a AttemptCancelFailed
             (CancelReturned CancellationFailed True) (CancelReturned CancellationFailed True)
           else FinishingCancel a AttemptCancelled
             (CancelReturned CancellationCompleted False) (CancelReturned CancellationFailed True))
      | DrainPublish \<Rightarrow>
          (if failed then Persisting a AttemptPublishFailed (PublishReturned True) (PublishReturned True)
           else PublishQueued a))"

definition step_draining :: "nat \<Rightarrow> nat \<Rightarrow> drain_caller \<Rightarrow> drain_reply \<Rightarrow> world \<Rightarrow> world" where
  "step_draining tid a caller r w =
     (let (s, failed) = drainSource r (attempt_at w a) in
      goto tid (drain_continue caller a failed) (set_attempt a s w))"

definition finishCancellation :: "nat \<Rightarrow> nat \<Rightarrow> attempt_phase \<Rightarrow> op_result \<Rightarrow> op_result \<Rightarrow> world \<Rightarrow> world" where
  "finishCancellation tid a outcome ok bad w =
     (let s = attempt_at w a in
      goto tid (Persisting a outcome ok bad)
        (set_attempt a (if atPhase s = AttemptCancelling then cancelUnresolvedLocked s else s) w))"

text \<open>
  The loop of \<^verbatim>\<open>Cancel\<close> over the phase. Waiting on the condition variable is the state
  \<open>CancelWaiting\<close>, left by re-entering the loop with \<open>waitedForPersistence\<close> set.
\<close>

definition step_cancel_loop :: "nat \<Rightarrow> nat \<Rightarrow> bool \<Rightarrow> world \<Rightarrow> world" where
  "step_cancel_loop tid a waitedForPersistence w =
     (let s = attempt_at w a in
      case atPhase s of
        AttemptPublished \<Rightarrow>
          goto tid (Finished (CancelReturned CancellationAlreadyPublished False)) w
      | AttemptPublishFailed \<Rightarrow>
          goto tid (Finished (CancelReturned CancellationPublishFailed False)) w
      | AttemptCancelFailed \<Rightarrow> goto tid (Finished (CancelReturned CancellationFailed False)) w
      | AttemptCancelled \<Rightarrow> goto tid (Finished (CancelReturned CancellationCompleted False)) w
      | AttemptPublishing \<Rightarrow>
          (if atTerminalPersistenceErr s
           then (if waitedForPersistence
                   \<or> (\<not> atTerminalCommitInProgress s \<and> atTerminalWaiters s \<noteq> 0)
                 then goto tid (Finished (CancelReturned CancellationFailed True)) w
                 else goto tid (Persisting a (atTerminalOutcome s)
                        (CancelReturned CancellationPublishFailed False)
                        (CancelReturned CancellationFailed True)) w)
           else goto tid (CancelWaiting a)
             (set_attempt a (s\<lparr>atPublishAbortClosed := True,
                atTerminalWaiters := atTerminalWaiters s + 1\<rparr>) w))
      | AttemptCancelling \<Rightarrow>
          (if atTerminalPersistenceErr s
           then (if waitedForPersistence
                   \<or> (\<not> atTerminalCommitInProgress s \<and> atTerminalWaiters s \<noteq> 0)
                 then goto tid (Finished (CancelReturned CancellationFailed True)) w
                 else goto tid (Persisting a (atTerminalOutcome s)
                        (if atTerminalOutcome s = AttemptCancelFailed
                         then CancelReturned CancellationFailed False
                         else CancelReturned CancellationCompleted False)
                        (CancelReturned CancellationFailed True)) w)
           else goto tid (CancelWaiting a)
             (set_attempt a (s\<lparr>atTerminalWaiters := atTerminalWaiters s + 1\<rparr>) w))
      | AttemptOpen \<Rightarrow>
          goto tid (CancelQuiescing a) (set_attempt a (s\<lparr>atPhase := AttemptCancelling\<rparr>) w)
      | AttemptSealed \<Rightarrow>
          goto tid (CancelQuiescing a) (set_attempt a (s\<lparr>atPhase := AttemptCancelling\<rparr>) w)
      | AttemptUnset \<Rightarrow> goto tid (Finished (CancelReturned CancellationNone True)) w)"

definition step_cancel_wake :: "nat \<Rightarrow> nat \<Rightarrow> world \<Rightarrow> world" where
  "step_cancel_wake tid a w =
     (let s = attempt_at w a in
      goto tid (CancelLoop a True)
        (set_attempt a (s\<lparr>atTerminalWaiters := atTerminalWaiters s - 1\<rparr>) w))"

definition step_cancel_quiesce :: "nat \<Rightarrow> nat \<Rightarrow> world \<Rightarrow> world" where
  "step_cancel_quiesce tid a w =
     (let s = attempt_at w a in
      if atInProgressClaims s \<noteq> 0 then w
      else
        (let w' = set_attempt a (s\<lparr>atProducerAttempt := False\<rparr>) w in
         if atAdmitted s then goto tid (Draining a DrainCancel) w'
         else if \<not> atProducerAttempt s
         then goto tid (FinishingCancel a AttemptCancelFailed
                (CancelReturned CancellationFailed True) (CancelReturned CancellationFailed True)) w'
         else goto tid (CancelClosing a) w'))"

definition step_cancel_close :: "nat \<Rightarrow> nat \<Rightarrow> producer_close \<Rightarrow> world \<Rightarrow> world" where
  "step_cancel_close tid a r w =
     (if r = CloseError
      then goto tid (FinishingCancel a AttemptCancelFailed
             (CancelReturned CancellationFailed True) (CancelReturned CancellationFailed True)) w
      else goto tid (CancelClosed a) w)"

definition step_cancel_closed :: "nat \<Rightarrow> nat \<Rightarrow> world \<Rightarrow> world" where
  "step_cancel_closed tid a w =
     goto tid (FinishingCancel a AttemptCancelled
        (CancelReturned CancellationCompleted False) (CancelReturned CancellationFailed True))
       (set_attempt a ((attempt_at w a)\<lparr>atSource := False\<rparr>) w)"

section \<open>Persisting a terminal outcome\<close>

definition terminalTombstones :: "attempt_phase \<Rightarrow> attempt_state \<Rightarrow> tombstone list" where
  "terminalTombstones outcome s =
     \<lparr>tsSchemaVersion = 1, tsObjectKind = LedgerAuditAttempt,
      tsTerminalSequence = atTerminalSequence s, tsClaimCount = of_nat (length (atEntries s)),
      tsAttemptTerminalSequence = 0, tsClaimOrdinal = 0,
      tsTerminalOutcome = attempt_phase_string outcome\<rparr>
     # map (\<lambda>(ordinal, e). \<lparr>tsSchemaVersion = 1, tsObjectKind = LedgerAuditClaim,
              tsTerminalSequence = ceTerminalSequence e, tsClaimCount = 0,
              tsAttemptTerminalSequence = atTerminalSequence s, tsClaimOrdinal = of_nat ordinal,
              tsTerminalOutcome = claim_outcome_string (ceOutcome e)\<rparr>)
         (filter (\<lambda>(ordinal, e). cePhase e = runtimeClaimTerminal
              \<and> validClaimOutcome (claim_outcome_string (ceOutcome e)))
            (enumerate 0 (atEntries s)))"

definition persistTerminalOutcome ::
    "nat \<Rightarrow> nat \<Rightarrow> attempt_phase \<Rightarrow> op_result \<Rightarrow> op_result \<Rightarrow> world \<Rightarrow> world" where
  "persistTerminalOutcome tid a outcome ok bad w =
     (let s = attempt_at w a in
      if \<not> validAttemptTerminalOutcome (attempt_phase_string outcome)
        \<or> (atPhase s \<noteq> AttemptCancelling \<and> atPhase s \<noteq> AttemptPublishing)
      then goto tid (Finished bad) w
      else if atTerminalPersistenceErr s \<and> atTerminalOutcome s \<noteq> outcome
      then goto tid (Finished bad) w
      else if atTerminalCommitInProgress s
      then (if atTerminalOutcome s \<noteq> outcome then goto tid (Finished bad) w
            else goto tid (PersistWaiting a outcome ok bad)
              (set_attempt a (s\<lparr>atTerminalWaiters := atTerminalWaiters s + 1\<rparr>) w))
      else goto tid (if atRestartCommitted s then Finalizing a outcome ok bad
                     else Committing a outcome ok bad)
        (set_attempt a (s\<lparr>atTerminalOutcome := outcome, atTerminalCommitInProgress := True\<rparr>) w))"

definition step_persist_wake ::
    "nat \<Rightarrow> nat \<Rightarrow> attempt_phase \<Rightarrow> op_result \<Rightarrow> op_result \<Rightarrow> world \<Rightarrow> world" where
  "step_persist_wake tid a outcome ok bad w =
     (let s = attempt_at w a in
      if atTerminalCommitInProgress s then w
      else goto tid (Finished (if atTerminalPersistenceErr s \<or> atPhase s \<noteq> outcome then bad else ok))
        (set_attempt a (s\<lparr>atTerminalWaiters := atTerminalWaiters s - 1\<rparr>) w))"

definition commitTerminalState ::
    "nat \<Rightarrow> nat \<Rightarrow> attempt_phase \<Rightarrow> op_result \<Rightarrow> op_result \<Rightarrow> world \<Rightarrow> world" where
  "commitTerminalState tid a outcome ok bad w =
     (let l = wLedger w; expected = durableRestartStateLocked l in
      case terminalRestartStateLocked (terminalTombstones outcome (attempt_at w a)) l of
        Inl _ \<Rightarrow> goto tid (PersistFailing a outcome ok bad) w
      | Inr terminal \<Rightarrow> goto tid (CommitCalling a outcome expected terminal ok bad) w)"

definition commitTerminalState_apply ::
    "nat \<Rightarrow> nat \<Rightarrow> attempt_phase \<Rightarrow> restart_state \<Rightarrow> restart_state \<Rightarrow> op_result \<Rightarrow> op_result \<Rightarrow> bool
      \<Rightarrow> world \<Rightarrow> world" where
  "commitTerminalState_apply tid a outcome expected terminal ok bad committed w =
     (let l = wLedger w; current = durableRestartStateLocked l in
      if \<not> committed then goto tid (PersistFailing a outcome ok bad) w
      else if \<not> ledgerRestartStatesEqual current expected
        \<and> \<not> CoversTerminalWatermark current terminal
      then goto tid (PersistFailing a outcome ok bad) w
      else goto tid (CommitMarking a outcome ok bad)
        (if CoversTerminalWatermark current terminal then w
         else w\<lparr>wLedger := applyDurableRestartStateLocked terminal l\<rparr>))"

definition step_commit_mark ::
    "nat \<Rightarrow> nat \<Rightarrow> attempt_phase \<Rightarrow> op_result \<Rightarrow> op_result \<Rightarrow> world \<Rightarrow> world" where
  "step_commit_mark tid a outcome ok bad w =
     goto tid (Finalizing a outcome ok bad)
       (set_attempt a ((attempt_at w a)\<lparr>atRestartCommitted := True\<rparr>) w)"

definition step_persist_fail :: "nat \<Rightarrow> nat \<Rightarrow> op_result \<Rightarrow> world \<Rightarrow> world" where
  "step_persist_fail tid a bad w =
     goto tid (Finished bad)
       (set_attempt a ((attempt_at w a)\<lparr>atTerminalCommitInProgress := False,
          atTerminalPersistenceErr := True\<rparr>) w)"

definition finalized :: "attempt_phase \<Rightarrow> attempt_state \<Rightarrow> attempt_state" where
  "finalized outcome s = s\<lparr>
     atPhase := outcome,
     atTerminalCommitInProgress := False,
     atTerminalPersistenceErr := False,
     atKey := '''',
     atIdentity := zero_identity,
     atEntries := [],
     atProducerAttempt := False,
     atAdmitted := False,
     atIssued := [],
     atSource := False,
     atPublishAbortClosed := False,
     atRestartCommitted := False,
     atSourceDrainComplete := False,
     atSourceDrainErr := False,
     atCancelOpen := False\<rparr>"

text \<open>
  Finalization inserts the tombstones into the audit buffer only when no durable commit did:
  the claims first, in ordinal order, then the attempt.
\<close>

definition insert_uncommitted :: "attempt_phase \<Rightarrow> attempt_state \<Rightarrow> ledger_core \<Rightarrow> ledger_core" where
  "insert_uncommitted outcome s l =
     (if atRestartCommitted s then l
      else (case terminalTombstones outcome s of
              [] \<Rightarrow> l
            | t # claims \<Rightarrow> insertAuditTombstoneLocked t (fold insertAuditTombstoneLocked claims l)))"

definition finalizeTerminalAttempt ::
    "nat \<Rightarrow> nat \<Rightarrow> attempt_phase \<Rightarrow> op_result \<Rightarrow> op_result \<Rightarrow> world \<Rightarrow> world" where
  "finalizeTerminalAttempt tid a outcome ok bad w =
     (let s = attempt_at w a; l = wLedger w in
      if \<not> validAttemptTerminalOutcome (attempt_phase_string outcome)
      then goto tid (Finished bad) w
      else if atInProgressClaims s \<noteq> 0 \<or> \<not> atTerminalCommitInProgress s
        \<or> atTerminalOutcome s \<noteq> outcome
        \<or> (atPhase s \<noteq> AttemptCancelling \<and> atPhase s \<noteq> AttemptPublishing)
        \<or> gm_get (wAttempts w) (atKey s) \<noteq> Some a
      then step_persist_fail tid a bad w
      else goto tid (Finished ok)
        (set_attempt a (finalized outcome s) (w\<lparr>
           wAttempts := gm_del (atKey s) (wAttempts w),
           wLedger := insert_uncommitted outcome s
             (l\<lparr>lgRetainedClaims := lgRetainedClaims l - int (length (atEntries s))\<rparr>)\<rparr>)))"

section \<open>Publication\<close>

definition Publish :: "nat \<Rightarrow> world \<Rightarrow> attempt_error + world" where
  "Publish a w =
     (let s = attempt_at w a in
      if \<not> a < length (wHeap w) then Inl NotEnabled
      else if atPhase s \<noteq> AttemptSealed then Inl NotSealed
      else Inr (spawn (Draining a DrainPublish)
             (set_attempt a (s\<lparr>atPhase := AttemptPublishing, atPublishAbortClosed := False\<rparr>) w)))"

definition failPublication :: "nat \<Rightarrow> pc" where
  "failPublication a = Persisting a AttemptPublishFailed (PublishReturned True) (PublishReturned True)"

text \<open>
  The \<^verbatim>\<open>select\<close>: a false reply is a done context or, when it is closed, the abort channel; a
  true reply takes the token, when it is there.
\<close>

definition step_publish_queue :: "nat \<Rightarrow> nat \<Rightarrow> bool \<Rightarrow> world \<Rightarrow> world" where
  "step_publish_queue tid a token w =
     (if \<not> token then goto tid (failPublication a) w
      else if wCommitSerial w then goto tid (PublishAdmitting a) (w\<lparr>wCommitSerial := False\<rparr>)
      else w)"

definition step_publish_admit :: "nat \<Rightarrow> nat \<Rightarrow> bool \<Rightarrow> world \<Rightarrow> world" where
  "step_publish_admit tid a contextDone w =
     (if atPublishAbortClosed (attempt_at w a) \<or> contextDone
      then goto tid (failPublication a) (w\<lparr>wCommitSerial := True\<rparr>)
      else goto tid (PublishComputing a) w)"

definition step_publish_compute :: "nat \<Rightarrow> nat \<Rightarrow> world \<Rightarrow> world" where
  "step_publish_compute tid a w =
     (let l = wLedger w; s = attempt_at w a in
      if lgRevision l = MaxUint64 \<or> lgHighWater l = MaxUint64
        \<or> \<not> attemptIdentityAdvances (lgLastCommittedAttempt l) (atIdentity s)
      then goto tid (failPublication a) (w\<lparr>wCommitSerial := True\<rparr>)
      else
        (let expected = stateLocked l;
             published = expected\<lparr>ssRevision := ssRevision expected + 1,
               ssHighWater := ssHighWater expected + 1, ssLastCommittedAttempt := atIdentity s\<rparr> in
         case terminalRestartStateLocked (terminalTombstones AttemptPublished s) l of
           Inl _ \<Rightarrow> goto tid (failPublication a) (w\<lparr>wCommitSerial := True\<rparr>)
         | Inr restart \<Rightarrow>
             goto tid (PublishCalling a expected published (durableRestartStateLocked l) restart) w))"

definition step_publish_apply :: "nat \<Rightarrow> nat \<Rightarrow> sample_state \<Rightarrow> sample_state \<Rightarrow> restart_state
    \<Rightarrow> restart_state \<Rightarrow> publish_reply \<Rightarrow> world \<Rightarrow> world" where
  "step_publish_apply tid a expected published expectedRestart publishedRestart r w =
     (let l = wLedger w; currentRestart = durableRestartStateLocked l in
      if r \<noteq> CommitCommitted then goto tid (failPublication a) (w\<lparr>wCommitSerial := True\<rparr>)
      else if stateLocked l \<noteq> expected
        \<or> (\<not> ledgerRestartStatesEqual currentRestart expectedRestart
           \<and> \<not> CoversTerminalWatermark currentRestart publishedRestart)
      then goto tid (failPublication a) (w\<lparr>wCommitSerial := True\<rparr>)
      else
        (let l' = l\<lparr>lgRevision := ssRevision published, lgHighWater := ssHighWater published,
               lgLastCommittedAttempt := ssLastCommittedAttempt published\<rparr> in
         goto tid (PublishMarking a)
           (w\<lparr>wLedger := (if CoversTerminalWatermark currentRestart publishedRestart then l'
              else applyDurableRestartStateLocked publishedRestart l')\<rparr>)))"

definition step_publish_mark :: "nat \<Rightarrow> nat \<Rightarrow> world \<Rightarrow> world" where
  "step_publish_mark tid a w =
     goto tid (Persisting a AttemptPublished (PublishReturned False) (PublishReturned True))
       (set_attempt a ((attempt_at w a)\<lparr>atRestartCommitted := True\<rparr>) (w\<lparr>wCommitSerial := True\<rparr>))"

section \<open>Schedules\<close>

definition step_thread :: "nat \<Rightarrow> pc \<Rightarrow> reply \<Rightarrow> world \<Rightarrow> world" where
  "step_thread tid p r w =
     (case p of
        Claiming a i \<Rightarrow> (case r of ClaimReply x \<Rightarrow> Claim_finish tid a i x w | _ \<Rightarrow> w)
      | Draining a c \<Rightarrow> (case r of DrainReply x \<Rightarrow> step_draining tid a c x w | _ \<Rightarrow> w)
      | FinishingCancel a out ok bad \<Rightarrow> finishCancellation tid a out ok bad w
      | Persisting a out ok bad \<Rightarrow> persistTerminalOutcome tid a out ok bad w
      | PersistWaiting a out ok bad \<Rightarrow> step_persist_wake tid a out ok bad w
      | Committing a out ok bad \<Rightarrow> commitTerminalState tid a out ok bad w
      | CommitCalling a out e t ok bad \<Rightarrow>
          (case r of TerminalReply b \<Rightarrow> commitTerminalState_apply tid a out e t ok bad b w | _ \<Rightarrow> w)
      | CommitMarking a out ok bad \<Rightarrow> step_commit_mark tid a out ok bad w
      | PersistFailing a out ok bad \<Rightarrow> step_persist_fail tid a bad w
      | Finalizing a out ok bad \<Rightarrow> finalizeTerminalAttempt tid a out ok bad w
      | CancelLoop a waited \<Rightarrow> step_cancel_loop tid a waited w
      | CancelWaiting a \<Rightarrow> step_cancel_wake tid a w
      | CancelQuiescing a \<Rightarrow> step_cancel_quiesce tid a w
      | CancelClosing a \<Rightarrow> (case r of CloseReply x \<Rightarrow> step_cancel_close tid a x w | _ \<Rightarrow> w)
      | CancelClosed a \<Rightarrow> step_cancel_closed tid a w
      | PublishQueued a \<Rightarrow> (case r of QueueReply b \<Rightarrow> step_publish_queue tid a b w | _ \<Rightarrow> w)
      | PublishAdmitting a \<Rightarrow> (case r of ContextReply b \<Rightarrow> step_publish_admit tid a b w | _ \<Rightarrow> w)
      | PublishComputing a \<Rightarrow> step_publish_compute tid a w
      | PublishCalling a e n er nr \<Rightarrow>
          (case r of PublishReply x \<Rightarrow> step_publish_apply tid a e n er nr x w | _ \<Rightarrow> w)
      | PublishMarking a \<Rightarrow> step_publish_mark tid a w
      | Finished _ \<Rightarrow> w)"

datatype action =
    DoBegin factory attempt_request
  | DoIssue nat nat bool
  | DoAdmit nat bool bool bool
  | DoClaim nat nat
  | DoSeal nat
  | DoCancel nat
  | DoPublish nat
  | DoStep nat reply

definition accepted :: "world \<Rightarrow> attempt_error + world \<Rightarrow> world" where
  "accepted w r = (case r of Inl _ \<Rightarrow> w | Inr w' \<Rightarrow> w')"

fun act :: "action \<Rightarrow> world \<Rightarrow> world" where
  "act (DoBegin f q) w = accepted w (BeginRuntimeAttempt f q w)"
| "act (DoIssue a i b) w = accepted w (Issue a i b w)"
| "act (DoAdmit a v c b) w = accepted w (Admit a v c b w)"
| "act (DoClaim a i) w = accepted w (Claim_admit a i w)"
| "act (DoSeal a) w = accepted w (Seal a w)"
| "act (DoCancel a) w = (if a < length (wHeap w) then spawn (CancelLoop a False) w else w)"
| "act (DoPublish a) w = accepted w (Publish a w)"
| "act (DoStep tid r) w =
     (if tid < length (wThreads w) then step_thread tid (wThreads w ! tid) r w else w)"

definition initial_world :: "ledger_core \<Rightarrow> world" where
  "initial_world l = \<lparr>wLedger = l, wAttempts = [], wHeap = [], wThreads = [], wCommitSerial = True\<rparr>"

section \<open>What a step touches\<close>

fun pc_attempt :: "pc \<Rightarrow> nat option" where
  "pc_attempt (Claiming a _) = Some a"
| "pc_attempt (Draining a _) = Some a"
| "pc_attempt (FinishingCancel a _ _ _) = Some a"
| "pc_attempt (Persisting a _ _ _) = Some a"
| "pc_attempt (PersistWaiting a _ _ _) = Some a"
| "pc_attempt (Committing a _ _ _) = Some a"
| "pc_attempt (CommitCalling a _ _ _ _ _) = Some a"
| "pc_attempt (CommitMarking a _ _ _) = Some a"
| "pc_attempt (PersistFailing a _ _ _) = Some a"
| "pc_attempt (Finalizing a _ _ _) = Some a"
| "pc_attempt (CancelLoop a _) = Some a"
| "pc_attempt (CancelWaiting a) = Some a"
| "pc_attempt (CancelQuiescing a) = Some a"
| "pc_attempt (CancelClosing a) = Some a"
| "pc_attempt (CancelClosed a) = Some a"
| "pc_attempt (PublishQueued a) = Some a"
| "pc_attempt (PublishAdmitting a) = Some a"
| "pc_attempt (PublishComputing a) = Some a"
| "pc_attempt (PublishCalling a _ _ _ _) = Some a"
| "pc_attempt (PublishMarking a) = Some a"
| "pc_attempt (Finished _) = None"

lemmas thread_step_defs =
  Claim_finish_def step_draining_def finishCancellation_def persistTerminalOutcome_def
  step_persist_wake_def commitTerminalState_def commitTerminalState_apply_def step_commit_mark_def
  step_persist_fail_def finalizeTerminalAttempt_def step_cancel_loop_def step_cancel_wake_def
  step_cancel_quiesce_def step_cancel_close_def step_cancel_closed_def step_publish_queue_def
  step_publish_admit_def step_publish_compute_def step_publish_apply_def step_publish_mark_def

lemmas world_defs = attempt_at_def set_attempt_def goto_def spawn_def

text \<open>
  A thread step writes its own program counter and the attempt it works on, nothing else of the
  two arrays. The predicates mention the resulting world once, so that a step with many branches
  is checked branch by branch.
\<close>

definition touches :: "nat \<Rightarrow> nat \<Rightarrow> world \<Rightarrow> world \<Rightarrow> bool" where
  "touches tid a w w' \<longleftrightarrow> (\<exists>p. wThreads w' = (wThreads w)[tid := p])
     \<and> (\<exists>s. wHeap w' = (wHeap w)[a := s])"

definition local_post :: "(pc \<Rightarrow> attempt_state \<Rightarrow> bool) \<Rightarrow> nat \<Rightarrow> nat \<Rightarrow> world \<Rightarrow> bool" where
  "local_post Q tid a w \<longleftrightarrow> Q (wThreads w ! tid) (wHeap w ! a)"

lemma touches_refl [simp]: "touches tid a w w"
  unfolding touches_def by (metis list_update_id)

lemma touches_goto [simp]: "touches tid a w w' \<Longrightarrow> touches tid a w (goto tid p w')"
  by (auto simp: touches_def goto_def)

lemma touches_set [simp]: "touches tid a w w' \<Longrightarrow> touches tid a w (set_attempt a s w')"
  by (auto simp: touches_def set_attempt_def)

lemma touches_fields [simp]:
  "touches tid a w (w'\<lparr>wLedger := l\<rparr>) = touches tid a w w'"
  "touches tid a w (w'\<lparr>wAttempts := m\<rparr>) = touches tid a w w'"
  "touches tid a w (w'\<lparr>wCommitSerial := b\<rparr>) = touches tid a w w'"
  by (simp_all add: touches_def)

lemma world_accessors [simp]:
  "wThreads (goto tid p w) = (wThreads w)[tid := p]"
  "wHeap (goto tid p w) = wHeap w"
  "wLedger (goto tid p w) = wLedger w"
  "wAttempts (goto tid p w) = wAttempts w"
  "wThreads (set_attempt a s w) = wThreads w"
  "wHeap (set_attempt a s w) = (wHeap w)[a := s]"
  "wLedger (set_attempt a s w) = wLedger w"
  "wAttempts (set_attempt a s w) = wAttempts w"
  "wThreads (spawn p w) = wThreads w @ [p]"
  "wHeap (spawn p w) = wHeap w"
  "wLedger (spawn p w) = wLedger w"
  "wAttempts (spawn p w) = wAttempts w"
  by (simp_all add: world_defs)

lemma local_post_goto:
  "tid < length (wThreads w) \<Longrightarrow> local_post Q tid a (goto tid p w) = Q p (wHeap w ! a)"
  by (simp add: local_post_def)

lemma local_post_stay: "local_post Q tid a w \<longleftrightarrow> Q (wThreads w ! tid) (wHeap w ! a)"
  by (simp add: local_post_def)

lemma step_thread_touches:
  assumes "pc_attempt p = Some a"
  shows "touches tid a w (step_thread tid p r w)"
  using assms
  by (cases p)
     (simp_all add: step_thread_def thread_step_defs Let_def split_beta
        split: reply.split attempt_phase.split sum.split)

section \<open>Ownership of the terminal commit\<close>

text \<open>
  The program counters at which a thread owns the attempt's terminal commit, that is, between
  setting \<^verbatim>\<open>terminalCommitInProgress\<close> and clearing it.
\<close>

fun owner :: "nat \<Rightarrow> pc \<Rightarrow> bool" where
  "owner b (Committing a _ _ _) \<longleftrightarrow> a = b"
| "owner b (CommitCalling a _ _ _ _ _) \<longleftrightarrow> a = b"
| "owner b (CommitMarking a _ _ _) \<longleftrightarrow> a = b"
| "owner b (PersistFailing a _ _ _) \<longleftrightarrow> a = b"
| "owner b (Finalizing a _ _ _) \<longleftrightarrow> a = b"
| "owner b _ \<longleftrightarrow> False"

fun finalizing :: "nat \<Rightarrow> pc \<Rightarrow> bool" where
  "finalizing b (Finalizing a _ _ _) \<longleftrightarrow> a = b"
| "finalizing b _ \<longleftrightarrow> False"

lemma owner_attempt: "owner b p \<Longrightarrow> pc_attempt p = Some b"
  by (cases p) auto

lemma finalizing_owner: "finalizing b p \<Longrightarrow> owner b p"
  by (cases p) auto

text \<open>The outcome an owner is persisting was checked when the ownership was taken.\<close>

fun sane :: "pc \<Rightarrow> bool" where
  "sane (Committing _ out _ _) \<longleftrightarrow> validAttemptTerminalOutcome (attempt_phase_string out)"
| "sane (CommitCalling _ out _ _ _ _) \<longleftrightarrow> validAttemptTerminalOutcome (attempt_phase_string out)"
| "sane (CommitMarking _ out _ _) \<longleftrightarrow> validAttemptTerminalOutcome (attempt_phase_string out)"
| "sane (Finalizing _ out _ _) \<longleftrightarrow> validAttemptTerminalOutcome (attempt_phase_string out)"
| "sane _ \<longleftrightarrow> True"

lemmas local_step_simps = step_thread_def thread_step_defs Let_def split_beta local_post_goto
  local_post_stay attempt_at_def drainSource_def drain_continue_def failPublication_def
  cancelUnresolvedLocked_def set_entry_def finalized_def

text \<open>
  One step, seen from its own thread and attempt: a thread that does not own the commit leaves
  the ownership alone while somebody holds it, and otherwise it owns the commit after the step
  exactly when the flag is set; a thread reaches finalization only with the durable mark set,
  and only finalization clears the mark.
\<close>

definition owner_step :: "nat \<Rightarrow> pc \<Rightarrow> attempt_state \<Rightarrow> pc \<Rightarrow> attempt_state \<Rightarrow> bool" where
  "owner_step a p s p' s' \<longleftrightarrow>
     (if atTerminalCommitInProgress s \<and> \<not> owner a p
      then atTerminalCommitInProgress s' \<and> \<not> owner a p'
      else owner a p' = atTerminalCommitInProgress s')
     \<and> sane p'
     \<and> (pc_attempt p' = None \<or> pc_attempt p' = Some a)
     \<and> (finalizing a p' \<longrightarrow> atRestartCommitted s')
     \<and> (atRestartCommitted s \<longrightarrow> atRestartCommitted s' \<or> finalizing a p)"

lemma step_owner:
  assumes "pc_attempt p = Some a" and "tid < length (wThreads w)" and "a < length (wHeap w)"
    and "wThreads w ! tid = p" and "sane p"
    and "owner a p \<longrightarrow> atTerminalCommitInProgress (wHeap w ! a)"
    and "finalizing a p \<longrightarrow> atRestartCommitted (wHeap w ! a)"
  shows "local_post (owner_step a p (wHeap w ! a)) tid a (step_thread tid p r w)"
  using assms
  by (cases p)
     (auto simp add: local_step_simps owner_step_def
        split: reply.split attempt_phase.split sum.split drain_caller.split)

text \<open>Counting the threads that satisfy a predicate.\<close>

definition count_pc :: "(pc \<Rightarrow> bool) \<Rightarrow> pc list \<Rightarrow> nat" where
  "count_pc P ps = length (filter P ps)"

lemma count_pc_append [simp]: "count_pc P (ps @ qs) = count_pc P ps + count_pc P qs"
  by (simp add: count_pc_def)

lemma count_pc_single [simp]: "count_pc P [p] = of_bool (P p)" "count_pc P [] = 0"
  by (simp_all add: count_pc_def)

lemma count_pc_update:
  "i < length ps \<Longrightarrow>
    count_pc P (ps[i := p]) + of_bool (P (ps ! i)) = count_pc P ps + of_bool (P p)"
proof (induction ps arbitrary: i)
  case Nil
  then show ?case by simp
next
  case (Cons q ps)
  show ?case
  proof (cases i)
    case 0
    then show ?thesis by (simp add: count_pc_def)
  next
    case (Suc j)
    with Cons.IH [of j] Cons.prems show ?thesis by (auto simp: count_pc_def)
  qed
qed

lemma count_pc_pos: "0 < count_pc P ps \<longleftrightarrow> (\<exists>p \<in> set ps. P p)"
  by (auto simp: count_pc_def filter_empty_conv)

definition commit_owned :: "world \<Rightarrow> bool" where
  "commit_owned w \<longleftrightarrow>
     (\<forall>p \<in> set (wThreads w). sane p \<and> (\<forall>a. pc_attempt p = Some a \<longrightarrow> a < length (wHeap w)))
     \<and> (\<forall>a < length (wHeap w). count_pc (owner a) (wThreads w) =
          of_bool (atTerminalCommitInProgress (wHeap w ! a)))
     \<and> (\<forall>a < length (wHeap w). \<forall>p \<in> set (wThreads w).
          finalizing a p \<longrightarrow> atRestartCommitted (wHeap w ! a))"

lemma commit_owned_thread:
  assumes inv: "commit_owned w" and tid: "tid < length (wThreads w)"
    and a: "pc_attempt (wThreads w ! tid) = Some a"
  shows "commit_owned (step_thread tid (wThreads w ! tid) r w)"
proof -
  let ?p = "wThreads w ! tid" and ?w' = "step_thread tid (wThreads w ! tid) r w"
  let ?s = "wHeap w ! a"
  have p_in: "?p \<in> set (wThreads w)" using tid by simp
  then have alt: "a < length (wHeap w)" and sane: "sane ?p"
    using inv a by (auto simp: commit_owned_def)
  with p_in inv have fin: "finalizing a ?p \<longrightarrow> atRestartCommitted ?s"
    unfolding commit_owned_def by blast
  have cnt: "count_pc (owner a) (wThreads w) = of_bool (atTerminalCommitInProgress ?s)"
    using inv alt by (simp add: commit_owned_def)
  have own: "owner a ?p \<longrightarrow> atTerminalCommitInProgress ?s"
    using cnt p_in count_pc_pos [of "owner a" "wThreads w"] by (auto split: if_splits)
  obtain p' s' where th: "wThreads ?w' = (wThreads w)[tid := p']"
    and hp: "wHeap ?w' = (wHeap w)[a := s']"
    using step_thread_touches [OF a] unfolding touches_def by blast
  have "local_post (owner_step a ?p ?s) tid a ?w'"
    using step_owner [OF a tid alt refl sane own fin] .
  then have st: "owner_step a ?p ?s p' s'" using tid alt by (simp add: local_post_def th hp)
  have others: "\<not> owner b ?p" "\<not> owner b p'" if "b \<noteq> a" for b
    using a st that by (auto simp: owner_step_def dest!: owner_attempt)
  have upd: "count_pc (owner b) ((wThreads w)[tid := p']) + of_bool (owner b ?p) =
      count_pc (owner b) (wThreads w) + of_bool (owner b p')" for b
    using count_pc_update [OF tid] .
  have count': "count_pc (owner b) (wThreads ?w') =
      of_bool (atTerminalCommitInProgress (wHeap ?w' ! b))" if b: "b < length (wHeap ?w')" for b
  proof (cases "b = a")
    case True
    with upd [of a] cnt st own alt show ?thesis
      by (auto simp: th hp owner_step_def split: if_splits)
  next
    case False
    with upd [of b] others [of b] inv b show ?thesis
      by (simp add: th hp commit_owned_def)
  qed
  moreover have "atRestartCommitted (wHeap ?w' ! b)"
    if b: "b < length (wHeap ?w')" and q: "q \<in> set (wThreads ?w')" "finalizing b q" for b q
  proof (cases "b = a")
    case False
    have "q \<noteq> p'" using others [OF False] finalizing_owner q(2) by blast
    then have "q \<in> set (wThreads w)" using q(1) set_update_subset_insert by (fastforce simp: th)
    with inv q(2) b False show ?thesis by (auto simp: commit_owned_def hp)
  next
    case True
    show ?thesis
    proof (cases "q = p'")
      case True
      with st q(2) \<open>b = a\<close> alt show ?thesis by (simp add: hp owner_step_def)
    next
      case False
      obtain j where jq: "j < length (wThreads w)" "(wThreads w)[tid := p'] ! j = q"
        using q(1) by (auto simp: th in_set_conv_nth)
      have "j \<noteq> tid" using False jq by auto
      with jq have j: "j < length (wThreads w)" "j \<noteq> tid" "wThreads w ! j = q" by auto
      then have "q \<in> set (wThreads w)" by auto
      then have rc: "atRestartCommitted ?s" and o: "owner a q"
        using inv q(2) \<open>b = a\<close> alt finalizing_owner by (auto simp: commit_owned_def)
      have "\<not> owner a ?p"
      proof
        assume "owner a ?p"
        have "q \<in> set ((wThreads w)[tid := Finished (AdmitReturned True)])"
          using j by (metis length_list_update nth_list_update_neq nth_mem)
        then have "0 < count_pc (owner a) ((wThreads w)[tid := Finished (AdmitReturned True)])"
          using o count_pc_pos by blast
        with count_pc_update [OF tid, of "owner a" "Finished (AdmitReturned True)"]
          cnt own \<open>owner a ?p\<close> show False by simp
      qed
      then have "\<not> finalizing a ?p" using finalizing_owner by blast
      with rc st \<open>b = a\<close> alt show ?thesis by (auto simp: hp owner_step_def)
    qed
  qed
  moreover have "sane q \<and> (\<forall>b. pc_attempt q = Some b \<longrightarrow> b < length (wHeap ?w'))"
    if "q \<in> set (wThreads ?w')" for q
  proof (cases "q = p'")
    case True
    with st alt show ?thesis by (auto simp: owner_step_def hp)
  next
    case False
    then have "q \<in> set (wThreads w)" using that set_update_subset_insert by (fastforce simp: th)
    with inv show ?thesis by (auto simp: commit_owned_def hp)
  qed
  ultimately show ?thesis unfolding commit_owned_def by blast
qed

lemma commit_owned_local:
  assumes inv: "commit_owned w" and a: "a < length (wHeap w)"
    and hp: "wHeap w' = (wHeap w)[a := s']" and th: "wThreads w' = wThreads w @ ps"
    and same: "atTerminalCommitInProgress s' = atTerminalCommitInProgress (wHeap w ! a)"
      "atRestartCommitted s' = atRestartCommitted (wHeap w ! a)"
    and fresh: "\<And>p b. p \<in> set ps \<Longrightarrow> sane p \<and> \<not> owner b p \<and> (pc_attempt p = None \<or> pc_attempt p = Some a)"
  shows "commit_owned w'"
proof -
  have none: "count_pc (owner b) ps = 0" for b
    using fresh count_pc_pos [of "owner b" ps] by (metis gr0I)
  have nofin: "\<not> finalizing b p" if "p \<in> set ps" for b p
    using fresh [OF that] finalizing_owner by blast
  have s': "atTerminalCommitInProgress ((wHeap w)[a := s'] ! b) = atTerminalCommitInProgress (wHeap w ! b)"
    "atRestartCommitted ((wHeap w)[a := s'] ! b) = atRestartCommitted (wHeap w ! b)" for b
    using same a by (cases "b = a"; simp)+
  have "sane p \<and> (\<forall>b. pc_attempt p = Some b \<longrightarrow> b < length (wHeap w'))"
    if "p \<in> set (wThreads w')" for p
    using that inv fresh [of p] a by (auto simp: th hp commit_owned_def)
  moreover have "count_pc (owner b) (wThreads w') =
      of_bool (atTerminalCommitInProgress (wHeap w' ! b))" if "b < length (wHeap w')" for b
    using that inv by (simp add: th hp none s' commit_owned_def)
  moreover have "atRestartCommitted (wHeap w' ! b)"
    if "b < length (wHeap w')" and "p \<in> set (wThreads w')" and "finalizing b p" for b p
    using that inv nofin [of p b] by (auto simp: th hp s' commit_owned_def)
  ultimately show ?thesis unfolding commit_owned_def by blast
qed

lemma commit_owned_begin:
  assumes inv: "commit_owned w" and hp: "wHeap w' = wHeap w @ [s]" and th: "wThreads w' = wThreads w"
    and s: "\<not> atTerminalCommitInProgress s"
  shows "commit_owned w'"
proof -
  have "\<not> owner (length (wHeap w)) p" if "p \<in> set (wThreads w)" for p
    using inv that owner_attempt unfolding commit_owned_def by blast
  then have none: "count_pc (owner (length (wHeap w))) (wThreads w) = 0"
    using count_pc_pos by (metis gr0I)
  have nofin: "\<not> finalizing (length (wHeap w)) p" if "p \<in> set (wThreads w)" for p
    using \<open>p \<in> set (wThreads w) \<Longrightarrow> \<not> owner (length (wHeap w)) p\<close> that finalizing_owner by blast
  show ?thesis
    using inv none nofin s unfolding commit_owned_def th hp
    by (auto simp: nth_append less_Suc_eq)
qed

lemma commit_owned_act:
  assumes inv: "commit_owned w"
  shows "commit_owned (act x w)"
proof (cases x)
  case (DoBegin f q)
  show ?thesis
  proof (cases "BeginRuntimeAttempt f q w")
    case (Inl e)
    then show ?thesis using inv by (simp add: DoBegin accepted_def)
  next
    case (Inr w')
    then obtain s where "wHeap w' = wHeap w @ [s]" "wThreads w' = wThreads w"
      "\<not> atTerminalCommitInProgress s"
      by (auto simp: BeginRuntimeAttempt_def Let_def new_attempt_def split: if_splits sum.splits prod.splits)
    from commit_owned_begin [OF inv this] show ?thesis by (simp add: DoBegin accepted_def Inr)
  qed
next
  case (DoIssue a i b)
  show ?thesis
  proof (cases "Issue a i b w")
    case (Inr w')
    then have "a < length (wHeap w)" "wThreads w' = wThreads w @ []"
      "wHeap w' = (wHeap w)[a := (wHeap w ! a)\<lparr>atIssued := (atIssued (wHeap w ! a))[i := True]\<rparr>]"
      by (auto simp: Issue_def Let_def attempt_at_def split: if_splits)
    from commit_owned_local [OF inv this(1,3,2)] show ?thesis by (simp add: DoIssue accepted_def Inr)
  qed (use inv in \<open>simp add: DoIssue accepted_def\<close>)
next
  case (DoSeal a)
  show ?thesis
  proof (cases "Seal a w")
    case (Inr w')
    then have "a < length (wHeap w)" "wThreads w' = wThreads w @ []"
      "wHeap w' = (wHeap w)[a := (wHeap w ! a)\<lparr>atPhase := AttemptSealed\<rparr>]"
      by (auto simp: Seal_def Let_def attempt_at_def split: if_splits)
    from commit_owned_local [OF inv this(1,3,2)] show ?thesis by (simp add: DoSeal accepted_def Inr)
  qed (use inv in \<open>simp add: DoSeal accepted_def\<close>)
next
  case (DoAdmit a v c b)
  show ?thesis
  proof (cases "Admit a v c b w")
    case (Inr w')
    then obtain s' p where "a < length (wHeap w)" "wHeap w' = (wHeap w)[a := s']"
      "wThreads w' = wThreads w @ [p]"
      "atTerminalCommitInProgress s' = atTerminalCommitInProgress (wHeap w ! a)"
      "atRestartCommitted s' = atRestartCommitted (wHeap w ! a)"
      "sane p \<and> (\<forall>b. \<not> owner b p) \<and> (pc_attempt p = None \<or> pc_attempt p = Some a)"
      by (auto simp: Admit_def Let_def attempt_at_def cancelUnresolvedLocked_def split: if_splits)
    from commit_owned_local [OF inv this(1-5)] this(6) show ?thesis
      by (simp add: DoAdmit accepted_def Inr)
  qed (use inv in \<open>simp add: DoAdmit accepted_def\<close>)
next
  case (DoClaim a i)
  show ?thesis
  proof (cases "Claim_admit a i w")
    case (Inr w')
    then obtain s' where "a < length (wHeap w)" "wHeap w' = (wHeap w)[a := s']"
      "wThreads w' = wThreads w @ [Claiming a i]"
      "atTerminalCommitInProgress s' = atTerminalCommitInProgress (wHeap w ! a)"
      "atRestartCommitted s' = atRestartCommitted (wHeap w ! a)"
      by (auto simp: Claim_admit_def Let_def attempt_at_def set_entry_def split: if_splits)
    from commit_owned_local [OF inv this] show ?thesis
      by (simp add: DoClaim accepted_def Inr)
  qed (use inv in \<open>simp add: DoClaim accepted_def\<close>)
next
  case (DoPublish a)
  show ?thesis
  proof (cases "Publish a w")
    case (Inr w')
    then obtain s' where "a < length (wHeap w)" "wHeap w' = (wHeap w)[a := s']"
      "wThreads w' = wThreads w @ [Draining a DrainPublish]"
      "atTerminalCommitInProgress s' = atTerminalCommitInProgress (wHeap w ! a)"
      "atRestartCommitted s' = atRestartCommitted (wHeap w ! a)"
      by (auto simp: Publish_def Let_def attempt_at_def split: if_splits)
    from commit_owned_local [OF inv this] show ?thesis
      by (simp add: DoPublish accepted_def Inr)
  qed (use inv in \<open>simp add: DoPublish accepted_def\<close>)
next
  case (DoCancel a)
  show ?thesis
  proof (cases "a < length (wHeap w)")
    case True
    have "wHeap (spawn (CancelLoop a False) w) = (wHeap w)[a := wHeap w ! a]" by simp
    from commit_owned_local [OF inv True this, of "[CancelLoop a False]"] True show ?thesis
      by (simp add: DoCancel)
  qed (use inv in \<open>simp add: DoCancel\<close>)
next
  case (DoStep tid r)
  show ?thesis
  proof (cases "tid < length (wThreads w)")
    case True
    then show ?thesis
    proof (cases "pc_attempt (wThreads w ! tid)")
      case None
      then obtain res where "wThreads w ! tid = Finished res" by (cases "wThreads w ! tid") auto
      with True inv show ?thesis by (simp add: DoStep step_thread_def)
    next
      case (Some a)
      from commit_owned_thread [OF inv True Some] True show ?thesis by (simp add: DoStep)
    qed
  qed (use inv in \<open>simp add: DoStep\<close>)
qed

section \<open>The durable state under concurrency\<close>

text \<open>
  A pending commit carries the durable state it was computed from and the one it will install;
  the latter advances the former, whatever the other threads do in between.
\<close>

definition advances :: "ledger_core \<Rightarrow> restart_state \<Rightarrow> restart_state \<Rightarrow> bool" where
  "advances l expected terminal \<longleftrightarrow>
     validateLedgerRestartState terminal (lgLimits l) = None
     \<and> CoversTerminalWatermark terminal expected
     \<and> rsTruncatedThrough expected \<le> rsTruncatedThrough terminal
     \<and> unat (rsNextTerminalSequence terminal) \<le> ledger_position l
     \<and> (rsSequenceExhausted terminal \<longrightarrow> lgSequenceExhausted l)"

fun pending_ok :: "ledger_core \<Rightarrow> pc \<Rightarrow> bool" where
  "pending_ok l (CommitCalling _ _ expected terminal _ _) = advances l expected terminal"
| "pending_ok l (PublishCalling _ _ _ expected terminal) = advances l expected terminal"
| "pending_ok l _ = True"

definition ledger_grows :: "ledger_core \<Rightarrow> ledger_core \<Rightarrow> bool" where
  "ledger_grows l l' \<longleftrightarrow>
     ledger_durable_ok l' \<and> ledger_progress l l' \<and> lgLimits l' = lgLimits l
     \<and> (lgSequenceExhausted l \<longrightarrow> lgSequenceExhausted l')"

lemma pending_grows: "pending_ok l p \<Longrightarrow> ledger_grows l l' \<Longrightarrow> pending_ok l' p"
  by (cases p) (auto simp: advances_def ledger_grows_def ledger_progress_def)

lemma grows_refl: "ledger_durable_ok l \<Longrightarrow> ledger_grows l l"
  using ledger_machine.progress_refl by (simp add: ledger_grows_def)

lemma ledger_ok_fields [simp]:
  "ledger_durable_ok (l\<lparr>lgRetainedClaims := n\<rparr>) = ledger_durable_ok l"
  "ledger_durable_ok (l\<lparr>lgRevision := v\<rparr>) = ledger_durable_ok l"
  "ledger_durable_ok (l\<lparr>lgHighWater := v\<rparr>) = ledger_durable_ok l"
  "ledger_durable_ok (l\<lparr>lgLastCommittedAttempt := i\<rparr>) = ledger_durable_ok l"
  "durableRestartStateLocked (l\<lparr>lgRetainedClaims := n\<rparr>) = durableRestartStateLocked l"
  "durableRestartStateLocked (l\<lparr>lgRevision := v\<rparr>) = durableRestartStateLocked l"
  "durableRestartStateLocked (l\<lparr>lgHighWater := v\<rparr>) = durableRestartStateLocked l"
  "durableRestartStateLocked (l\<lparr>lgLastCommittedAttempt := i\<rparr>) = durableRestartStateLocked l"
  "ledger_position (l\<lparr>lgRetainedClaims := n\<rparr>) = ledger_position l"
  "ledger_position (l\<lparr>lgRevision := v\<rparr>) = ledger_position l"
  "ledger_position (l\<lparr>lgHighWater := v\<rparr>) = ledger_position l"
  "ledger_position (l\<lparr>lgLastCommittedAttempt := i\<rparr>) = ledger_position l"
  by (simp_all add: ledger_durable_ok_def durableRestartStateLocked_def position_ok_def
      ledger_position_def)

lemma grows_fields [simp]:
  "ledger_grows l (l'\<lparr>lgRetainedClaims := n\<rparr>) = ledger_grows l l'"
  "ledger_grows l (l'\<lparr>lgRevision := v\<rparr>) = ledger_grows l l'"
  "ledger_grows l (l'\<lparr>lgHighWater := v\<rparr>) = ledger_grows l l'"
  "ledger_grows l (l'\<lparr>lgLastCommittedAttempt := i\<rparr>) = ledger_grows l l'"
  by (simp_all add: ledger_grows_def ledger_progress_def)

lemma restart_states_equal: "ledgerRestartStatesEqual a b \<longleftrightarrow> a = b"
  by (auto simp: ledgerRestartStatesEqual_def list_all2_eq [symmetric])

lemma grows_apply:
  assumes ok: "ledger_durable_ok l" and adv: "advances l expected terminal"
    and cur: "durableRestartStateLocked l = expected"
  shows "ledger_grows l (applyDurableRestartStateLocked terminal l)"
proof -
  let ?l = "applyDurableRestartStateLocked terminal l"
  have t: "validateLedgerRestartState terminal (lgLimits l) = None" using adv by (simp add: advances_def)
  then have "rsSchemaVersion terminal = 1"
    by (auto elim: validate_restart_cases)
  then have d: "durableRestartStateLocked ?l = terminal"
    by (simp add: durableRestartStateLocked_def applyDurableRestartStateLocked_def)
  have p: "ledger_position ?l = ledger_position l" "position_ok ?l = position_ok l"
    "lgLimits ?l = lgLimits l" "lgTruncatedThrough ?l = rsTruncatedThrough terminal"
    "lgDurableNext ?l = rsNextTerminalSequence terminal"
    "lgDurableExhausted ?l = rsSequenceExhausted terminal"
    "lgSequenceExhausted ?l = lgSequenceExhausted l"
    "lgNextTerminalSequence ?l = lgNextTerminalSequence l"
    by (simp_all add: applyDurableRestartStateLocked_def ledger_position_def position_ok_def)
  have pos: "position_ok l" using ok by (simp add: ledger_durable_ok_def)
  have "lgSequenceExhausted l \<or> rsNextTerminalSequence terminal \<le> lgNextTerminalSequence l"
    using ledger_position_durable [OF pos] adv by (simp add: advances_def)
  then have "ledger_durable_ok ?l"
    using ok t adv by (simp add: ledger_durable_ok_def d p advances_def)
  moreover have "lgTruncatedThrough l = rsTruncatedThrough expected"
    using cur by (auto simp: durableRestartStateLocked_def)
  ultimately show ?thesis
    using adv cur by (simp add: ledger_grows_def ledger_progress_def d p advances_def)
qed

lemma advances_computed:
  assumes ok: "ledger_durable_ok l" and r: "terminalRestartStateLocked records l = Inr t"
  shows "advances l (durableRestartStateLocked l) t"
  using terminal_restart_covers [OF ok r] terminal_restart_valid [OF r]
    ledger_position_durable [of l "lgNextTerminalSequence l"] ok
  by (auto simp: advances_def ledger_durable_ok_def durableRestartStateLocked_def)

definition ledger_post :: "(ledger_core \<Rightarrow> pc \<Rightarrow> bool) \<Rightarrow> nat \<Rightarrow> world \<Rightarrow> bool" where
  "ledger_post Q tid w \<longleftrightarrow> Q (wLedger w) (wThreads w ! tid)"

lemma ledger_post_goto:
  "tid < length (wThreads w) \<Longrightarrow> ledger_post Q tid (goto tid p w) = Q (wLedger w) p"
  by (simp add: ledger_post_def)

lemma ledger_post_stay: "ledger_post Q tid w \<longleftrightarrow> Q (wLedger w) (wThreads w ! tid)"
  by (simp add: ledger_post_def)

lemma step_ledger:
  assumes tid: "tid < length (wThreads w)" and p: "wThreads w ! tid = p"
    and ok: "ledger_durable_ok (wLedger w)" and pend: "pending_ok (wLedger w) p"
    and rc: "\<And>a. finalizing a p \<Longrightarrow> atRestartCommitted (wHeap w ! a)"
  shows "ledger_post (\<lambda>l' p'. ledger_grows (wLedger w) l' \<and> pending_ok l' p') tid
      (step_thread tid p r w)"
proof (cases p)
  case (CommitCalling a out e t good bad)
  then show ?thesis
    using tid p ok pend grows_refl grows_apply
    by (auto simp: step_thread_def commitTerminalState_apply_def Let_def ledger_post_goto
        ledger_post_stay restart_states_equal split: reply.split)
next
  case (PublishCalling a e n er nr)
  have apply_fields: "applyDurableRestartStateLocked nr (l\<lparr>lgRevision := x, lgHighWater := y,
      lgLastCommittedAttempt := z\<rparr>) = (applyDurableRestartStateLocked nr l)\<lparr>lgRevision := x,
      lgHighWater := y, lgLastCommittedAttempt := z\<rparr>" for l :: ledger_core and x y z
    by (simp add: applyDurableRestartStateLocked_def)
  from PublishCalling show ?thesis
    using tid p ok pend grows_refl grows_apply
    by (auto simp: step_thread_def step_publish_apply_def Let_def ledger_post_goto apply_fields
        ledger_post_stay restart_states_equal failPublication_def split: reply.split)
next
  case (Finalizing a out good bad)
  with rc [of a] show ?thesis
    using tid p ok grows_refl
    by (simp add: step_thread_def finalizeTerminalAttempt_def step_persist_fail_def Let_def
        ledger_post_goto ledger_post_stay insert_uncommitted_def attempt_at_def)
next
  case (Committing a out good bad)
  then show ?thesis
    using tid p ok grows_refl advances_computed
    by (auto simp: step_thread_def commitTerminalState_def Let_def ledger_post_goto
        split: sum.split)
next
  case (PublishComputing a)
  then show ?thesis
    using tid p ok grows_refl advances_computed
    by (auto simp: step_thread_def step_publish_compute_def Let_def ledger_post_goto
        failPublication_def split: sum.split)
qed (use tid p ok pend grows_refl in
    \<open>simp_all add: step_thread_def thread_step_defs Let_def split_beta ledger_post_goto
       ledger_post_stay drain_continue_def failPublication_def
       split: reply.split attempt_phase.split drain_caller.split\<close>)

definition world_ok :: "world \<Rightarrow> bool" where
  "world_ok w \<longleftrightarrow> commit_owned w \<and> ledger_durable_ok (wLedger w)
     \<and> (\<forall>p \<in> set (wThreads w). pending_ok (wLedger w) p)"

definition go_action :: "action \<Rightarrow> bool" where
  "go_action x \<longleftrightarrow> True"

lemma begin_ledger:
  assumes "BeginRuntimeAttempt f q w = Inr w'" and ok: "ledger_durable_ok (wLedger w)"
  shows "ledger_grows (wLedger w) (wLedger w') \<and> wThreads w' = wThreads w"
proof -
  let ?n = "int (fcDependencies f)"
  from assms obtain first claims l' where r: "reserveTerminalBatchLocked ?n (wLedger w) = Inr (first, claims, l')"
    and w': "wLedger w' = l'\<lparr>lgRetainedClaims := lgRetainedClaims l' + ?n\<rparr>" "wThreads w' = wThreads w"
    and le: "?n \<le> MaxClaimEntriesPerAttempt (lgLimits (wLedger w))"
    by (auto simp: BeginRuntimeAttempt_def Let_def split: if_splits sum.splits prod.splits)
  have "?n \<le> 4096"
  proof -
    have "acceptLedgerLimits (lgLimits (wLedger w)) = None" using ok by (simp add: ledger_durable_ok_def)
    from accept_limits_bounds [OF this] le show ?thesis by linarith
  qed
  moreover have "0 < ?n"
    using r by (auto simp: reserveTerminalBatchLocked_def terminalBatchAvailableLocked_def split: if_splits)
  ultimately have n: "0 < ?n" "?n < 2 ^ 63" by auto
  have pos: "position_ok (wLedger w)" using ok by (simp add: ledger_durable_ok_def)
  obtain nx ex where l': "l' = (wLedger w)\<lparr>lgNextTerminalSequence := nx, lgSequenceExhausted := ex\<rparr>"
    using reserve_effect [OF pos n r] by blast
  have "\<not> lgSequenceExhausted (wLedger w)"
    using r by (auto simp: reserveTerminalBatchLocked_def terminalBatchAvailableLocked_def split: if_splits)
  with reserve_durable_ok [OF ok n r] durable_covers_itself [OF ok] l' show ?thesis
    by (simp add: w' ledger_grows_def ledger_progress_def)
qed

lemma world_ok_spawn:
  assumes "world_ok w" and "commit_owned w'" and "wLedger w' = wLedger w"
    and "wThreads w' = wThreads w @ ps" and "list_all (pending_ok (wLedger w)) ps"
  shows "world_ok w' \<and> ledger_grows (wLedger w) (wLedger w')"
  using assms grows_refl by (auto simp: world_ok_def list_all_iff)

text \<open>The other operations leave the ledger alone and only add threads with nothing pending.\<close>

lemma quiet_act:
  assumes "\<And>tid r. x \<noteq> DoStep tid r" and "\<And>f q. x \<noteq> DoBegin f q"
  shows "wLedger (act x w) = wLedger w \<and> wAttempts (act x w) = wAttempts w
    \<and> wThreads (act x w) = wThreads w @ drop (length (wThreads w)) (wThreads (act x w))
    \<and> list_all (pending_ok (wLedger w)) (drop (length (wThreads w)) (wThreads (act x w)))"
  using assms
  by (cases x)
     (auto simp: accepted_def Issue_def Admit_def Claim_admit_def Seal_def Publish_def Let_def)

lemma world_ok_act:
  assumes ok: "world_ok w"
  shows "world_ok (act x w) \<and> ledger_grows (wLedger w) (wLedger (act x w))"
proof -
  have owned: "commit_owned (act x w)" using ok commit_owned_act by (simp add: world_ok_def)
  have same: "world_ok w \<and> ledger_grows (wLedger w) (wLedger w)"
    using ok grows_refl by (simp add: world_ok_def)
  show ?thesis
  proof (cases x)
    case (DoStep tid r)
    show ?thesis
    proof (cases "tid < length (wThreads w)")
      case True
      let ?p = "wThreads w ! tid" and ?w' = "step_thread tid (wThreads w ! tid) r w"
      have p_in: "?p \<in> set (wThreads w)" using True by simp
      have rc: "atRestartCommitted (wHeap w ! a)" if "finalizing a ?p" for a
        using ok p_in that finalizing_owner owner_attempt
        unfolding world_ok_def commit_owned_def by blast
      have "ledger_post (\<lambda>l' p'. ledger_grows (wLedger w) l' \<and> pending_ok l' p') tid ?w'"
        by (rule step_ledger) (use True ok p_in rc in \<open>simp_all add: world_ok_def\<close>)
      then have grow: "ledger_grows (wLedger w) (wLedger ?w')"
        and pend: "pending_ok (wLedger ?w') (wThreads ?w' ! tid)"
        by (simp_all add: ledger_post_def)
      have "\<exists>p'. wThreads ?w' = (wThreads w)[tid := p']"
      proof (cases "pc_attempt ?p")
        case None
        then obtain res where "?p = Finished res" by (cases ?p) auto
        then have "wThreads ?w' = wThreads w" by (simp add: step_thread_def)
        then show ?thesis by (metis list_update_id)
      next
        case (Some a)
        from step_thread_touches [OF Some] show ?thesis unfolding touches_def by blast
      qed
      then obtain p' where th: "wThreads ?w' = (wThreads w)[tid := p']" by blast
      have "pending_ok (wLedger ?w') q" if "q \<in> set (wThreads ?w')" for q
      proof (cases "q = p'")
        case True
        with pend \<open>tid < length (wThreads w)\<close> show ?thesis by (simp add: th)
      next
        case False
        then have "q \<in> set (wThreads w)" using that set_update_subset_insert by (fastforce simp: th)
        with ok grow pending_grows show ?thesis unfolding world_ok_def by blast
      qed
      with owned grow True show ?thesis by (simp add: DoStep world_ok_def ledger_grows_def)
    qed (use same in \<open>simp add: DoStep\<close>)
  next
    case (DoBegin f q)
    show ?thesis
    proof (cases "BeginRuntimeAttempt f q w")
      case (Inr w')
      from begin_ledger [OF Inr] ok have grow: "ledger_grows (wLedger w) (wLedger w')"
        and th: "wThreads w' = wThreads w" by (auto simp: world_ok_def)
      have "pending_ok (wLedger w') p" if "p \<in> set (wThreads w')" for p
        using that th ok grow pending_grows unfolding world_ok_def by auto
      with owned grow show ?thesis by (simp add: DoBegin accepted_def Inr world_ok_def ledger_grows_def)
    qed (use same in \<open>simp add: DoBegin accepted_def\<close>)
  qed (use quiet_act [of x w] world_ok_spawn [OF ok owned] in \<open>auto simp del: act.simps\<close>)
qed

section \<open>Accounting of retained attempts and claims\<close>

definition live_claims :: "world \<Rightarrow> int" where
  "live_claims w = (\<Sum>(k, a) \<leftarrow> wAttempts w. int (length (atEntries (wHeap w ! a))))"

definition accounted :: "world \<Rightarrow> bool" where
  "accounted w \<longleftrightarrow> gm_wf (wAttempts w)
     \<and> list_all (\<lambda>(k, a). a < length (wHeap w) \<and> atKey (wHeap w ! a) = k) (wAttempts w)
     \<and> lgRetainedClaims (wLedger w) = live_claims w
     \<and> int (length (wAttempts w)) \<le> MaxRetainedAttempts (lgLimits (wLedger w))
     \<and> lgRetainedClaims (wLedger w) \<le> MaxRetainedClaimEntries (lgLimits (wLedger w))"

definition account_post :: "ledger_core \<Rightarrow> (string, nat) gomap \<Rightarrow> attempt_state \<Rightarrow> nat \<Rightarrow> world \<Rightarrow> bool" where
  "account_post l m s a w \<longleftrightarrow>
     lgRetainedClaims (wLedger w) = lgRetainedClaims l \<and> lgLimits (wLedger w) = lgLimits l
     \<and> wAttempts w = m \<and> atKey (wHeap w ! a) = atKey s
     \<and> length (atEntries (wHeap w ! a)) = length (atEntries s)"

lemma account_post_goto [simp]:
  "account_post l m s a (goto tid p w) = account_post l m s a w"
  "account_post l m s a (w\<lparr>wCommitSerial := b\<rparr>) = account_post l m s a w"
  by (simp_all add: account_post_def)

lemma account_post_set [simp]:
  "account_post l m s a w \<Longrightarrow> a < length (wHeap w) \<Longrightarrow>
    account_post l m s a (set_attempt a s' w) =
      (atKey s' = atKey s \<and> length (atEntries s') = length (atEntries s))"
  by (simp add: account_post_def)

lemma account_post_ledger [simp]:
  "account_post l m s a w \<Longrightarrow>
    account_post l m s a (w\<lparr>wLedger := l'\<rparr>) =
      (lgRetainedClaims l' = lgRetainedClaims l \<and> lgLimits l' = lgLimits l)"
  by (simp add: account_post_def)

text \<open>A thread step keeps the books, except a finalization that succeeds.\<close>

lemma step_account:
  assumes p: "pc_attempt p = Some a" and a: "a < length (wHeap w)" and nofin: "\<not> finalizing a p"
  shows "account_post (wLedger w) (wAttempts w) (wHeap w ! a) a (step_thread tid p r w)"
proof -
  have base: "account_post (wLedger w) (wAttempts w) (wHeap w ! a) a w"
    by (simp add: account_post_def)
  from p nofin base a show ?thesis
    by (cases p)
       (auto simp add: step_thread_def thread_step_defs Let_def split_beta attempt_at_def
          drainSource_def cancelUnresolvedLocked_def set_entry_def applyDurableRestartStateLocked_def
          split: reply.split attempt_phase.split sum.split)
qed

lemma finalize_account:
  assumes "p = Finalizing a out good bad" and "a < length (wHeap w)"
    and "atRestartCommitted (wHeap w ! a)"
  shows "account_post (wLedger w) (wAttempts w) (wHeap w ! a) a (step_thread tid p r w)
    \<or> (gm_get (wAttempts w) (atKey (wHeap w ! a)) = Some a
      \<and> wAttempts (step_thread tid p r w) = gm_del (atKey (wHeap w ! a)) (wAttempts w)
      \<and> wLedger (step_thread tid p r w) = (wLedger w)\<lparr>lgRetainedClaims :=
          lgRetainedClaims (wLedger w) - int (length (atEntries (wHeap w ! a)))\<rparr>)"
  using assms
  by (auto simp: step_thread_def finalizeTerminalAttempt_def step_persist_fail_def Let_def
      attempt_at_def insert_uncommitted_def account_post_def)

lemma account_upd:
  assumes "account_post l m (h ! a) a w'" and "wHeap w' = h[a := s']" and "a < length h"
  shows "atKey ((wHeap w') ! b) = atKey (h ! b)
    \<and> length (atEntries ((wHeap w') ! b)) = length (atEntries (h ! b))"
  using assms by (cases "a = b") (auto simp: account_post_def)

lemma accounted_frame:
  assumes "accounted w" and "wAttempts w' = wAttempts w"
    and "lgRetainedClaims (wLedger w') = lgRetainedClaims (wLedger w)"
    and "lgLimits (wLedger w') = lgLimits (wLedger w)" and "length (wHeap w) \<le> length (wHeap w')"
    and "\<And>b. b < length (wHeap w) \<Longrightarrow> atKey (wHeap w' ! b) = atKey (wHeap w ! b)
      \<and> length (atEntries (wHeap w' ! b)) = length (atEntries (wHeap w ! b))"
  shows "accounted w'"
proof -
  have "live_claims w' = live_claims w"
    unfolding live_claims_def assms(2)
    by (rule arg_cong [where f = sum_list], rule map_cong [OF refl])
       (use assms(1,6) in \<open>auto simp: accounted_def list_all_iff\<close>)
  with assms show ?thesis by (fastforce simp: accounted_def list_all_iff)
qed

lemma sum_list_gm_del:
  fixes f :: "'k \<times> 'v \<Rightarrow> int"
  assumes "gm_wf m" and "gm_get m k = Some v"
  shows "(\<Sum>x \<leftarrow> gm_del k m. f x) = (\<Sum>x \<leftarrow> m. f x) - f (k, v)"
  using assms unfolding gm_wf_def gm_get_def gm_del_def
proof (induction m)
  case Nil
  then show ?case by simp
next
  case (Cons x m)
  obtain k' v' where x: "x = (k', v')" by (cases x)
  show ?case
  proof (cases "k' = k")
    case True
    with Cons.prems x have "k \<notin> fst ` set m" "v' = v" by auto
    then show ?thesis by (simp add: x True delete_notin_dom)
  next
    case False
    with Cons x show ?thesis by (simp add: AList.delete_eq)
  qed
qed

lemma gm_put_append: "gm_get m k = None \<Longrightarrow> gm_put k v m = m @ [(k, v)]"
  unfolding gm_get_def gm_put_def by (induction m) (auto split: if_splits)

lemma accounted_finalize:
  assumes acc: "accounted w" and a: "a < length (wHeap w)"
    and get: "gm_get (wAttempts w) (atKey (wHeap w ! a)) = Some a"
    and m: "wAttempts w' = gm_del (atKey (wHeap w ! a)) (wAttempts w)"
    and l: "wLedger w' = (wLedger w)\<lparr>lgRetainedClaims :=
          lgRetainedClaims (wLedger w) - int (length (atEntries (wHeap w ! a)))\<rparr>"
    and h: "wHeap w' = (wHeap w)[a := s']"
  shows "accounted w'"
proof -
  let ?k = "atKey (wHeap w ! a)" and ?m = "wAttempts w"
  have wf: "gm_wf ?m" using acc by (simp add: accounted_def)
  have other: "b \<noteq> a" if "(k, b) \<in> set (gm_del ?k ?m)" for k b
    using that acc by (auto simp: accounted_def list_all_iff gm_del_def AList.delete_eq)
  have "live_claims w' = (\<Sum>(k, b) \<leftarrow> gm_del ?k ?m. int (length (atEntries (wHeap w ! b))))"
    unfolding live_claims_def m h
    by (rule arg_cong [where f = sum_list], rule map_cong [OF refl]) (auto dest: other)
  also have "\<dots> = live_claims w - int (length (atEntries (wHeap w ! a)))"
    using sum_list_gm_del [OF wf get] by (simp add: live_claims_def)
  finally have live: "live_claims w' = live_claims w - int (length (atEntries (wHeap w ! a)))" .
  have "length (gm_del ?k ?m) \<le> length ?m"
    using gm.size_del [OF wf, of ?k] by simp
  moreover have "b < length (wHeap w') \<and> atKey (wHeap w' ! b) = k"
    if kb: "(k, b) \<in> set (gm_del ?k ?m)" for k b
  proof -
    have "(k, b) \<in> set ?m" using kb gm_del_subset [of ?k ?m] by blast
    then have "b < length (wHeap w) \<and> atKey (wHeap w ! b) = k"
      using acc by (auto simp: accounted_def list_all_iff)
    with other [OF kb] show ?thesis by (simp add: h)
  qed
  ultimately show ?thesis
    using acc live wf by (auto simp: accounted_def m l list_all_iff gm.wf_del)
qed

lemma accounted_begin:
  assumes acc: "accounted w" and r: "BeginRuntimeAttempt f q w = Inr w'"
  shows "accounted w'"
proof -
  let ?n = "int (fcDependencies f)" and ?k = "rqAttemptKey q"
  from r obtain first claims l' where res: "reserveTerminalBatchLocked ?n (wLedger w) = Inr (first, claims, l')"
    and l: "wLedger w' = l'\<lparr>lgRetainedClaims := lgRetainedClaims l' + ?n\<rparr>"
    and m: "wAttempts w' = gm_put ?k (length (wHeap w)) (wAttempts w)"
    and h: "wHeap w' = wHeap w @ [new_attempt q (fcDependencies f) first claims]"
    and fresh: "gm_get (wAttempts w) ?k = None"
    and cap: "int (length (wAttempts w)) < MaxRetainedAttempts (lgLimits (wLedger w))"
      "lgRetainedClaims (wLedger w) + ?n \<le> MaxRetainedClaimEntries (lgLimits (wLedger w))"
    by (auto simp: BeginRuntimeAttempt_def Let_def split: if_splits sum.splits prod.splits)
  have l': "lgRetainedClaims l' = lgRetainedClaims (wLedger w)" "lgLimits l' = lgLimits (wLedger w)"
    "length claims = fcDependencies f"
    using res by (auto simp: reserveTerminalBatchLocked_def Let_def split: if_splits)
  have old: "live_claims w = (\<Sum>(k, b) \<leftarrow> wAttempts w. int (length (atEntries (wHeap w' ! b))))"
    unfolding live_claims_def h
    by (rule arg_cong [where f = sum_list], rule map_cong [OF refl])
       (use acc in \<open>auto simp: accounted_def list_all_iff nth_append\<close>)
  have "atKey (wHeap w' ! length (wHeap w)) = ?k"
    "length (atEntries (wHeap w' ! length (wHeap w))) = fcDependencies f"
    by (simp_all add: h new_attempt_def l')
  moreover from this have "live_claims w' = live_claims w + ?n"
    unfolding live_claims_def [of w'] m gm_put_append [OF fresh] using old by simp
  moreover have "gm_wf (wAttempts w')"
    using acc by (simp add: m accounted_def gm.wf_put)
  ultimately show ?thesis
    using acc cap l' fresh
    by (auto simp: accounted_def l m list_all_iff gm_put_append [OF fresh])
       (auto simp: h nth_append)
qed

lemma accounted_thread:
  assumes acc: "accounted w" and ok: "world_ok w" and tid: "tid < length (wThreads w)"
  shows "accounted (step_thread tid (wThreads w ! tid) r w)"
proof (cases "pc_attempt (wThreads w ! tid)")
  case None
  then obtain res where "wThreads w ! tid = Finished res" by (cases "wThreads w ! tid") auto
  with acc show ?thesis by (simp add: step_thread_def)
next
  case (Some a)
  let ?p = "wThreads w ! tid" and ?w' = "step_thread tid (wThreads w ! tid) r w"
  have p_in: "?p \<in> set (wThreads w)" using tid by simp
  with ok Some have a: "a < length (wHeap w)" unfolding world_ok_def commit_owned_def by blast
  obtain s' where h: "wHeap ?w' = (wHeap w)[a := s']"
    using step_thread_touches [OF Some] unfolding touches_def by blast
  have frame: "accounted ?w'" if "account_post (wLedger w) (wAttempts w) (wHeap w ! a) a ?w'"
    by (rule accounted_frame [OF acc])
       (use that account_upd [OF that h a] in \<open>simp_all add: account_post_def h\<close>)
  show ?thesis
  proof (cases "finalizing a ?p")
    case False
    from frame [OF step_account [OF Some a False]] show ?thesis .
  next
    case True
    then obtain out good bad where p: "?p = Finalizing a out good bad" by (cases ?p) auto
    have "atRestartCommitted (wHeap w ! a)"
      using ok p_in True a unfolding world_ok_def commit_owned_def by blast
    from finalize_account [OF p a this, of tid r] frame accounted_finalize [OF acc a _ _ _ h]
    show ?thesis by auto
  qed
qed

lemma accounted_act:
  assumes acc: "accounted w" and ok: "world_ok w"
  shows "accounted (act x w)"
proof (cases x)
  case (DoBegin f q)
  then show ?thesis
    using acc accounted_begin by (cases "BeginRuntimeAttempt f q w") (simp_all add: accepted_def)
next
  case (DoStep tid r)
  then show ?thesis using acc accounted_thread [OF acc ok] by simp
next
  case (DoIssue a i b)
  show ?thesis
    by (rule accounted_frame [OF acc])
       (auto simp: DoIssue accepted_def Issue_def Let_def attempt_at_def nth_list_update)
next
  case (DoAdmit a v c b)
  show ?thesis
    by (rule accounted_frame [OF acc])
       (auto simp: DoAdmit accepted_def Admit_def Let_def attempt_at_def nth_list_update
          cancelUnresolvedLocked_def)
next
  case (DoClaim a i)
  show ?thesis
    by (rule accounted_frame [OF acc])
       (auto simp: DoClaim accepted_def Claim_admit_def Let_def attempt_at_def nth_list_update
          set_entry_def)
next
  case (DoSeal a)
  show ?thesis
    by (rule accounted_frame [OF acc])
       (auto simp: DoSeal accepted_def Seal_def Let_def attempt_at_def nth_list_update)
next
  case (DoCancel a)
  show ?thesis by (rule accounted_frame [OF acc]) (auto simp: DoCancel)
next
  case (DoPublish a)
  show ?thesis
    by (rule accounted_frame [OF acc])
       (auto simp: DoPublish accepted_def Publish_def Let_def attempt_at_def nth_list_update)
qed

section \<open>The lifecycle of an attempt\<close>

text \<open>Which phases an attempt may still reach from a phase: the specification of the lifecycle.\<close>

fun phase_reaches :: "attempt_phase \<Rightarrow> attempt_phase \<Rightarrow> bool" where
  "phase_reaches AttemptOpen q \<longleftrightarrow> q \<noteq> AttemptUnset"
| "phase_reaches AttemptSealed q \<longleftrightarrow> q \<noteq> AttemptUnset \<and> q \<noteq> AttemptOpen"
| "phase_reaches AttemptCancelling q \<longleftrightarrow> q \<in> {AttemptCancelling, AttemptCancelFailed, AttemptCancelled}"
| "phase_reaches AttemptPublishing q \<longleftrightarrow> q \<in> {AttemptPublishing, AttemptPublished, AttemptPublishFailed}"
| "phase_reaches p q \<longleftrightarrow> p = q"

lemma phase_reaches_refl [simp]: "phase_reaches p p"
  by (cases p) auto

lemma phase_reaches_trans: "phase_reaches p q \<Longrightarrow> phase_reaches q r \<Longrightarrow> phase_reaches p r"
  by (cases p; cases q; cases r) auto

definition settling :: "attempt_phase \<Rightarrow> attempt_phase \<Rightarrow> bool" where
  "settling p out \<longleftrightarrow> p \<noteq> AttemptOpen \<and> p \<noteq> AttemptSealed
     \<and> (p = AttemptCancelling \<longrightarrow> out \<in> {AttemptCancelFailed, AttemptCancelled})
     \<and> (p = AttemptPublishing \<longrightarrow> out \<in> {AttemptPublished, AttemptPublishFailed})"

text \<open>What a thread relies on about the phase of its attempt.\<close>

fun pc_phase :: "pc \<Rightarrow> attempt_phase \<Rightarrow> bool" where
  "pc_phase (FinishingCancel _ out _ _) p \<longleftrightarrow> settling p out"
| "pc_phase (Persisting _ out _ _) p \<longleftrightarrow> settling p out"
| "pc_phase (PersistWaiting _ out _ _) p \<longleftrightarrow> settling p out"
| "pc_phase (Committing _ out _ _) p \<longleftrightarrow> settling p out"
| "pc_phase (CommitCalling _ out _ _ _ _) p \<longleftrightarrow> settling p out"
| "pc_phase (CommitMarking _ out _ _) p \<longleftrightarrow> settling p out"
| "pc_phase (PersistFailing _ out _ _) p \<longleftrightarrow> settling p out"
| "pc_phase (Finalizing _ out _ _) p \<longleftrightarrow> settling p out"
| "pc_phase (Draining _ DrainPublish) p \<longleftrightarrow> p \<notin> {AttemptOpen, AttemptSealed, AttemptCancelling}"
| "pc_phase (PublishQueued _) p \<longleftrightarrow> p \<notin> {AttemptOpen, AttemptSealed, AttemptCancelling}"
| "pc_phase (PublishAdmitting _) p \<longleftrightarrow> p \<notin> {AttemptOpen, AttemptSealed, AttemptCancelling}"
| "pc_phase (PublishComputing _) p \<longleftrightarrow> p \<notin> {AttemptOpen, AttemptSealed, AttemptCancelling}"
| "pc_phase (PublishCalling _ _ _ _ _) p \<longleftrightarrow> p \<notin> {AttemptOpen, AttemptSealed, AttemptCancelling}"
| "pc_phase (PublishMarking _) p \<longleftrightarrow> p \<notin> {AttemptOpen, AttemptSealed, AttemptCancelling}"
| "pc_phase (Draining _ DrainAdmit) p \<longleftrightarrow> p \<notin> {AttemptOpen, AttemptSealed, AttemptPublishing}"
| "pc_phase (Draining _ DrainCancel) p \<longleftrightarrow> p \<notin> {AttemptOpen, AttemptSealed, AttemptPublishing}"
| "pc_phase (CancelQuiescing _) p \<longleftrightarrow> p \<notin> {AttemptOpen, AttemptSealed, AttemptPublishing}"
| "pc_phase (CancelClosing _) p \<longleftrightarrow> p \<notin> {AttemptOpen, AttemptSealed, AttemptPublishing}"
| "pc_phase (CancelClosed _) p \<longleftrightarrow> p \<notin> {AttemptOpen, AttemptSealed, AttemptPublishing}"
| "pc_phase _ p \<longleftrightarrow> True"

lemma pc_phase_stable: "pc_phase q p \<Longrightarrow> phase_reaches p p' \<Longrightarrow> pc_phase q p'"
proof -
  have s: "settling p out \<Longrightarrow> phase_reaches p p' \<Longrightarrow> settling p' out" for out
    by (cases p; cases p') (auto simp: settling_def)
  assume "pc_phase q p" and "phase_reaches p p'"
  then show "pc_phase q p'"
  proof (cases q)
    case (Draining a c)
    with \<open>pc_phase q p\<close> \<open>phase_reaches p p'\<close> show ?thesis by (cases c; cases p; cases p') auto
  qed (use s in \<open>(cases p; cases p'; auto)\<close>)+
qed

definition outcome_ok :: "attempt_state \<Rightarrow> bool" where
  "outcome_ok s \<longleftrightarrow>
     (atTerminalCommitInProgress s \<or> atTerminalPersistenceErr s
        \<longrightarrow> settling (atPhase s) (atTerminalOutcome s))"

definition phase_step :: "attempt_state \<Rightarrow> pc \<Rightarrow> attempt_state \<Rightarrow> bool" where
  "phase_step s p' s' \<longleftrightarrow>
     phase_reaches (atPhase s) (atPhase s') \<and> outcome_ok s' \<and> pc_phase p' (atPhase s')"

lemma settling_simps:
  "\<not> settling AttemptOpen out" "\<not> settling AttemptSealed out"
  "settling AttemptCancelling out \<longleftrightarrow> out \<in> {AttemptCancelFailed, AttemptCancelled}"
  "settling AttemptPublishing out \<longleftrightarrow> out \<in> {AttemptPublished, AttemptPublishFailed}"
  "settling AttemptPublished out" "settling AttemptPublishFailed out"
  "settling AttemptCancelFailed out" "settling AttemptCancelled out" "settling AttemptUnset out"
  by (simp_all add: settling_def)

lemma settling_drivers:
  "p \<noteq> AttemptOpen \<Longrightarrow> p \<noteq> AttemptSealed \<Longrightarrow> p \<noteq> AttemptPublishing \<Longrightarrow> settling p AttemptCancelFailed"
  "p \<noteq> AttemptOpen \<Longrightarrow> p \<noteq> AttemptSealed \<Longrightarrow> p \<noteq> AttemptPublishing \<Longrightarrow> settling p AttemptCancelled"
  "p \<noteq> AttemptOpen \<Longrightarrow> p \<noteq> AttemptSealed \<Longrightarrow> p \<noteq> AttemptCancelling \<Longrightarrow> settling p AttemptPublished"
  "p \<noteq> AttemptOpen \<Longrightarrow> p \<noteq> AttemptSealed \<Longrightarrow> p \<noteq> AttemptCancelling \<Longrightarrow> settling p AttemptPublishFailed"
  by (simp_all add: settling_def)

lemma settling_final:
  assumes "settling p out" and "validAttemptTerminalOutcome (attempt_phase_string out)"
  shows "(p = AttemptCancelling \<or> p = AttemptPublishing \<longrightarrow> phase_reaches p out) \<and> settling out x"
  using assms by (cases out; cases p) (auto simp: settling_simps validAttemptTerminalOutcome_def)

lemma step_phase:
  assumes "pc_attempt p = Some a" and "tid < length (wThreads w)" and "a < length (wHeap w)"
    and "wThreads w ! tid = p" and "sane p" and "pc_phase p (atPhase (wHeap w ! a))"
    and "outcome_ok (wHeap w ! a)"
    and "owner a p \<longrightarrow> atTerminalCommitInProgress (wHeap w ! a)"
  shows "local_post (phase_step (wHeap w ! a)) tid a (step_thread tid p r w)"
proof (cases p)
  case (Draining b c)
  with assms show ?thesis
    by (cases c) (auto simp: local_step_simps phase_step_def outcome_ok_def split: reply.split,
        auto simp: settling_def)
next
  case (CancelLoop b waited)
  with assms show ?thesis
    by (cases "atPhase (wHeap w ! a)")
       (simp_all add: local_step_simps phase_step_def outcome_ok_def settling_simps)
next
  case (Finalizing b out good bad)
  with assms have s: "settling (atPhase (wHeap w ! a)) out"
    "validAttemptTerminalOutcome (attempt_phase_string out)" by simp_all
  from assms Finalizing show ?thesis
    using settling_final [OF s] s(1)
    by (auto simp: local_step_simps phase_step_def outcome_ok_def)
qed (use assms in \<open>auto simp: local_step_simps phase_step_def outcome_ok_def settling_simps
        settling_drivers split: reply.split sum.split\<close>)

definition lifecycle_ok :: "world \<Rightarrow> bool" where
  "lifecycle_ok w \<longleftrightarrow> list_all outcome_ok (wHeap w)
     \<and> (\<forall>p \<in> set (wThreads w). \<forall>a. pc_attempt p = Some a \<longrightarrow> pc_phase p (atPhase (wHeap w ! a)))"

definition phases_advance :: "world \<Rightarrow> world \<Rightarrow> bool" where
  "phases_advance w w' \<longleftrightarrow> length (wHeap w) \<le> length (wHeap w')
     \<and> (\<forall>a < length (wHeap w). phase_reaches (atPhase (wHeap w ! a)) (atPhase (wHeap w' ! a)))"

lemma lifecycle_local:
  assumes inv: "lifecycle_ok w" and owned: "commit_owned w" and a: "a < length (wHeap w)"
    and h: "wHeap w' = (wHeap w)[a := s']" and th: "set (wThreads w') \<subseteq> set (wThreads w) \<union> set ps"
    and step: "phase_reaches (atPhase (wHeap w ! a)) (atPhase s')" "outcome_ok s'"
    and new: "\<And>p b. p \<in> set ps \<Longrightarrow> pc_attempt p = Some b \<Longrightarrow> b = a \<and> pc_phase p (atPhase s')"
  shows "lifecycle_ok w' \<and> phases_advance w w'"
proof -
  have adv: "phase_reaches (atPhase (wHeap w ! b)) (atPhase (wHeap w' ! b))" for b
    using step(1) a by (cases "b = a") (auto simp: h)
  moreover have "pc_phase p (atPhase (wHeap w' ! b))"
    if "p \<in> set (wThreads w')" and pb: "pc_attempt p = Some b" for p b
  proof (cases "p \<in> set ps")
    case True
    from new [OF True pb] a show ?thesis by (simp add: h)
  next
    case False
    with th that have "p \<in> set (wThreads w)" by blast
    with inv pb have "pc_phase p (atPhase (wHeap w ! b))" by (auto simp: lifecycle_ok_def)
    with adv pc_phase_stable show ?thesis by blast
  qed
  moreover have "list_all outcome_ok (wHeap w')"
    using inv step(2) unfolding h lifecycle_ok_def list_all_iff
    using set_update_subset_insert by fastforce
  ultimately show ?thesis by (simp add: lifecycle_ok_def phases_advance_def h)
qed

lemma lifecycle_same: "lifecycle_ok w \<Longrightarrow> lifecycle_ok w \<and> phases_advance w w"
  by (simp add: phases_advance_def)

lemma lifecycle_act:
  assumes inv: "lifecycle_ok w" and owned: "commit_owned w"
  shows "lifecycle_ok (act x w) \<and> phases_advance w (act x w)"
proof (cases x)
  case (DoStep tid r)
  show ?thesis
  proof (cases "tid < length (wThreads w) \<and> pc_attempt (wThreads w ! tid) \<noteq> None")
    case True
    then obtain a where tid: "tid < length (wThreads w)" and a: "pc_attempt (wThreads w ! tid) = Some a"
      by blast
    let ?p = "wThreads w ! tid" and ?w' = "step_thread tid (wThreads w ! tid) r w"
    have p_in: "?p \<in> set (wThreads w)" using tid by simp
    with owned a have al: "a < length (wHeap w)" and sane: "sane ?p"
      unfolding commit_owned_def by blast+
    have ph: "pc_phase ?p (atPhase (wHeap w ! a))" using inv p_in a by (auto simp: lifecycle_ok_def)
    have oc: "outcome_ok (wHeap w ! a)" using inv al by (simp add: lifecycle_ok_def list_all_length)
    obtain p' s' where th: "wThreads ?w' = (wThreads w)[tid := p']"
      and h: "wHeap ?w' = (wHeap w)[a := s']"
      using step_thread_touches [OF a] unfolding touches_def by blast
    have fin: "finalizing a ?p \<longrightarrow> atRestartCommitted (wHeap w ! a)"
      using owned p_in al unfolding commit_owned_def by blast
    have cnt: "count_pc (owner a) (wThreads w) = of_bool (atTerminalCommitInProgress (wHeap w ! a))"
      using owned al by (simp add: commit_owned_def)
    then have own: "owner a ?p \<longrightarrow> atTerminalCommitInProgress (wHeap w ! a)"
      using p_in count_pc_pos [of "owner a" "wThreads w"] by (auto split: if_splits)
    have "local_post (phase_step (wHeap w ! a)) tid a ?w'"
      using step_phase [OF a tid al refl sane ph oc own] .
    then have st: "phase_step (wHeap w ! a) p' s'" using tid al by (simp add: local_post_def th h)
    have "local_post (owner_step a ?p (wHeap w ! a)) tid a ?w'"
      using step_owner [OF a tid al refl sane own fin] .
    then have "pc_attempt p' = None \<or> pc_attempt p' = Some a"
      using tid al by (simp add: local_post_def th h owner_step_def)
    then have new: "b = a \<and> pc_phase p (atPhase s')" if "p \<in> set [p']" "pc_attempt p = Some b" for p b
      using that st by (auto simp: phase_step_def)
    have sub: "set (wThreads ?w') \<subseteq> set (wThreads w) \<union> set [p']"
      using set_update_subset_insert [of "wThreads w" tid p'] by (auto simp: th)
    from lifecycle_local [OF inv owned al h sub _ _ new] st tid show ?thesis
      by (simp add: DoStep phase_step_def)
  next
    case False
    have "wThreads w ! tid = Finished res \<Longrightarrow> step_thread tid (wThreads w ! tid) r w = w" for res
      by (simp add: step_thread_def)
    moreover have "\<exists>res. wThreads w ! tid = Finished res" if "pc_attempt (wThreads w ! tid) = None"
      using that by (cases "wThreads w ! tid") auto
    ultimately have "act x w = w" using False by (auto simp: DoStep)
    with lifecycle_same [OF inv] show ?thesis by simp
  qed
next
  case (DoBegin f q)
  show ?thesis
  proof (cases "BeginRuntimeAttempt f q w")
    case (Inr w')
    then obtain s where h: "wHeap w' = wHeap w @ [s]" "wThreads w' = wThreads w"
      and s: "outcome_ok s"
      by (auto simp: BeginRuntimeAttempt_def Let_def new_attempt_def outcome_ok_def
          split: if_splits sum.splits prod.splits)
    have "pc_phase p (atPhase (wHeap w' ! a))"
      if "p \<in> set (wThreads w)" "pc_attempt p = Some a" for p a
    proof -
      have "a < length (wHeap w)" using owned that unfolding commit_owned_def by blast
      with inv that show ?thesis by (auto simp: lifecycle_ok_def h nth_append)
    qed
    with h s inv have "lifecycle_ok w' \<and> phases_advance w w'"
      by (auto simp: lifecycle_ok_def phases_advance_def nth_append)
    then show ?thesis by (simp add: DoBegin accepted_def Inr)
  qed (use inv in \<open>simp add: DoBegin accepted_def phases_advance_def\<close>)
next
  case (DoIssue a i b)
  show ?thesis
  proof (cases "Issue a i b w")
    case (Inr w')
    then obtain s' where "a < length (wHeap w)" "wHeap w' = (wHeap w)[a := s']"
      "set (wThreads w') \<subseteq> set (wThreads w) \<union> set []"
      and "atPhase s' = atPhase (wHeap w ! a)" "outcome_ok s' = outcome_ok (wHeap w ! a)"
      by (auto simp: Issue_def Let_def attempt_at_def outcome_ok_def split: if_splits)
    from lifecycle_local [OF inv owned this(1-3)] this(1,4,5) inv show ?thesis
      by (simp add: DoIssue accepted_def Inr lifecycle_ok_def list_all_length)
  qed (use lifecycle_same [OF inv] in \<open>simp add: DoIssue accepted_def\<close>)
next
  case (DoSeal a)
  show ?thesis
  proof (cases "Seal a w")
    case (Inr w')
    then obtain s' where "a < length (wHeap w)" "wHeap w' = (wHeap w)[a := s']"
      "set (wThreads w') \<subseteq> set (wThreads w) \<union> set []"
      and "atPhase s' = AttemptSealed" "atPhase (wHeap w ! a) = AttemptOpen"
        "outcome_ok (wHeap w ! a) \<longrightarrow> outcome_ok s'"
      by (auto simp: Seal_def Let_def attempt_at_def outcome_ok_def settling_def split: if_splits)
    from lifecycle_local [OF inv owned this(1-3)] this(1,4,5,6) inv show ?thesis
      by (simp add: DoSeal accepted_def Inr lifecycle_ok_def list_all_length)
  qed (use lifecycle_same [OF inv] in \<open>simp add: DoSeal accepted_def\<close>)
next
  case (DoAdmit a v c b)
  show ?thesis
  proof (cases "Admit a v c b w")
    case (Inr w')
    then obtain s' p where a: "a < length (wHeap w)" and h: "wHeap w' = (wHeap w)[a := s']"
      and th: "wThreads w' = wThreads w @ [p]"
      and ph: "phase_reaches (atPhase (wHeap w ! a)) (atPhase s')"
        "outcome_ok (wHeap w ! a) \<longrightarrow> outcome_ok s'"
        "pc_attempt p = None \<or> (pc_attempt p = Some a \<and> pc_phase p (atPhase s'))"
      by (auto simp: Admit_def Let_def attempt_at_def outcome_ok_def settling_def
          cancelUnresolvedLocked_def split: if_splits)
    have sub: "set (wThreads w') \<subseteq> set (wThreads w) \<union> set [p]" by (auto simp: th)
    from lifecycle_local [OF inv owned a h sub] ph a inv show ?thesis
      by (auto simp: DoAdmit accepted_def Inr lifecycle_ok_def list_all_length)
  qed (use lifecycle_same [OF inv] in \<open>simp add: DoAdmit accepted_def\<close>)
next
  case (DoClaim a i)
  show ?thesis
  proof (cases "Claim_admit a i w")
    case (Inr w')
    then obtain s' where a: "a < length (wHeap w)" and h: "wHeap w' = (wHeap w)[a := s']"
      and th: "wThreads w' = wThreads w @ [Claiming a i]"
      and ph: "phase_reaches (atPhase (wHeap w ! a)) (atPhase s')"
        "outcome_ok (wHeap w ! a) \<longrightarrow> outcome_ok s'"
      by (auto simp: Claim_admit_def Let_def attempt_at_def outcome_ok_def set_entry_def split: if_splits)
    have sub: "set (wThreads w') \<subseteq> set (wThreads w) \<union> set [Claiming a i]" by (auto simp: th)
    from lifecycle_local [OF inv owned a h sub] ph a inv show ?thesis
      by (auto simp: DoClaim accepted_def Inr lifecycle_ok_def list_all_length)
  qed (use lifecycle_same [OF inv] in \<open>simp add: DoClaim accepted_def\<close>)
next
  case (DoPublish a)
  show ?thesis
  proof (cases "Publish a w")
    case (Inr w')
    then obtain s' where a: "a < length (wHeap w)" and h: "wHeap w' = (wHeap w)[a := s']"
      and th: "wThreads w' = wThreads w @ [Draining a DrainPublish]"
      and ph: "phase_reaches (atPhase (wHeap w ! a)) (atPhase s')"
        "outcome_ok (wHeap w ! a) \<longrightarrow> outcome_ok s'" "atPhase s' = AttemptPublishing"
      by (auto simp: Publish_def Let_def attempt_at_def outcome_ok_def settling_def split: if_splits)
    have sub: "set (wThreads w') \<subseteq> set (wThreads w) \<union> set [Draining a DrainPublish]" by (auto simp: th)
    from lifecycle_local [OF inv owned a h sub] ph a inv show ?thesis
      by (auto simp: DoPublish accepted_def Inr lifecycle_ok_def list_all_length)
  qed (use lifecycle_same [OF inv] in \<open>simp add: DoPublish accepted_def\<close>)
next
  case (DoCancel a)
  show ?thesis
  proof (cases "a < length (wHeap w)")
    case True
    have h: "wHeap (spawn (CancelLoop a False) w) = (wHeap w)[a := wHeap w ! a]" by simp
    have sub: "set (wThreads (spawn (CancelLoop a False) w)) \<subseteq> set (wThreads w) \<union> set [CancelLoop a False]"
      by auto
    from lifecycle_local [OF inv owned True h sub] True inv show ?thesis
      by (auto simp: DoCancel lifecycle_ok_def list_all_length)
  qed (use lifecycle_same [OF inv] in \<open>simp add: DoCancel\<close>)
qed

section \<open>Claims and sealing\<close>

fun claiming :: "nat \<Rightarrow> pc \<Rightarrow> bool" where
  "claiming b (Claiming a _) \<longleftrightarrow> a = b"
| "claiming b _ \<longleftrightarrow> False"

definition sealed_ok :: "attempt_state \<Rightarrow> bool" where
  "sealed_ok s \<longleftrightarrow> (atPhase s = AttemptSealed \<or> atPhase s = AttemptPublishing \<longrightarrow>
     atInProgressClaims s = 0
     \<and> list_all (\<lambda>e. cePhase e = runtimeClaimTerminal \<and> ceOutcome e = ClaimSucceeded) (atEntries s))"

definition claim_step :: "nat \<Rightarrow> pc \<Rightarrow> attempt_state \<Rightarrow> pc \<Rightarrow> attempt_state \<Rightarrow> bool" where
  "claim_step a p s p' s' \<longleftrightarrow>
     atInProgressClaims s' + of_bool (claiming a p) = atInProgressClaims s + of_bool (claiming a p')
     \<and> sealed_ok s'"

lemma claiming_attempt: "claiming b p \<Longrightarrow> pc_attempt p = Some b"
  by (cases p) auto

lemma step_claim:
  assumes "pc_attempt p = Some a" and "tid < length (wThreads w)" and "a < length (wHeap w)"
    and "wThreads w ! tid = p" and "sealed_ok (wHeap w ! a)" and "sane p"
    and "claiming a p \<longrightarrow> atInProgressClaims (wHeap w ! a) \<noteq> 0"
  shows "local_post (claim_step a p (wHeap w ! a)) tid a (step_thread tid p r w)"
proof (cases p)
  case (Finalizing b out good bad)
  with assms show ?thesis
    by (cases out)
       (auto simp: local_step_simps claim_step_def sealed_ok_def validAttemptTerminalOutcome_def)
next
  case (Claiming b i)
  with assms show ?thesis
    by (auto simp: step_thread_def Claim_finish_def Let_def local_post_goto local_post_stay
        attempt_at_def set_entry_def claim_step_def sealed_ok_def split: reply.split)
next
  case (CancelLoop b waited)
  with assms show ?thesis
    by (cases "atPhase (wHeap w ! a)")
       (simp_all add: local_step_simps claim_step_def sealed_ok_def)
next
  case (FinishingCancel b out good bad)
  with assms show ?thesis
    by (simp add: local_step_simps claim_step_def sealed_ok_def)
next
  case (Draining b c)
  with assms show ?thesis
    by (cases c) (simp_all add: local_step_simps claim_step_def sealed_ok_def split: reply.split)
qed (use assms in \<open>simp_all add: local_step_simps claim_step_def sealed_ok_def
        split: reply.split sum.split\<close>)

definition claims_ok :: "world \<Rightarrow> bool" where
  "claims_ok w \<longleftrightarrow> (\<forall>a < length (wHeap w).
     atInProgressClaims (wHeap w ! a) = int (count_pc (claiming a) (wThreads w))
     \<and> sealed_ok (wHeap w ! a))"

lemma claims_local:
  assumes inv: "claims_ok w" and a: "a < length (wHeap w)" and h: "wHeap w' = (wHeap w)[a := s']"
    and count: "int (count_pc (claiming a) (wThreads w')) = atInProgressClaims s'"
    and others: "\<And>b. b \<noteq> a \<Longrightarrow> count_pc (claiming b) (wThreads w') = count_pc (claiming b) (wThreads w)"
    and s: "sealed_ok s'"
  shows "claims_ok w'"
  using assms by (auto simp: claims_ok_def nth_list_update)

lemma claims_thread:
  assumes inv: "claims_ok w" and owned: "commit_owned w" and tid: "tid < length (wThreads w)"
    and a: "pc_attempt (wThreads w ! tid) = Some a"
  shows "claims_ok (step_thread tid (wThreads w ! tid) r w)"
proof -
  let ?p = "wThreads w ! tid" and ?w' = "step_thread tid (wThreads w ! tid) r w"
  have p_in: "?p \<in> set (wThreads w)" using tid by simp
  with owned a have al: "a < length (wHeap w)" and sane: "sane ?p"
    unfolding commit_owned_def by blast+
  have so: "sealed_ok (wHeap w ! a)"
    and cnt: "atInProgressClaims (wHeap w ! a) = int (count_pc (claiming a) (wThreads w))"
    using inv al by (auto simp: claims_ok_def)
  have pos: "claiming a ?p \<longrightarrow> atInProgressClaims (wHeap w ! a) \<noteq> 0"
    using cnt p_in count_pc_pos [of "claiming a" "wThreads w"] by auto
  obtain p' s' where th: "wThreads ?w' = (wThreads w)[tid := p']" and h: "wHeap ?w' = (wHeap w)[a := s']"
    using step_thread_touches [OF a] unfolding touches_def by blast
  have st: "claim_step a ?p (wHeap w ! a) p' s'"
    using step_claim [OF a tid al refl so sane pos, of r] tid al by (simp add: local_post_def th h)
  have fin: "finalizing a ?p \<longrightarrow> atRestartCommitted (wHeap w ! a)"
    using owned p_in al unfolding commit_owned_def by blast
  have "count_pc (owner a) (wThreads w) = of_bool (atTerminalCommitInProgress (wHeap w ! a))"
    using owned al by (simp add: commit_owned_def)
  then have own: "owner a ?p \<longrightarrow> atTerminalCommitInProgress (wHeap w ! a)"
    using p_in count_pc_pos [of "owner a" "wThreads w"] by (auto split: if_splits)
  have "owner_step a ?p (wHeap w ! a) p' s'"
    using step_owner [OF a tid al refl sane own fin, of r] tid al by (simp add: local_post_def th h)
  then have pa: "pc_attempt p' = None \<or> pc_attempt p' = Some a" by (simp add: owner_step_def)
  have upd: "count_pc (claiming b) (wThreads ?w') + of_bool (claiming b ?p) =
      count_pc (claiming b) (wThreads w) + of_bool (claiming b p')" for b
    unfolding th by (rule count_pc_update [OF tid])
  show ?thesis
  proof (rule claims_local [OF inv al h])
    show "int (count_pc (claiming a) (wThreads ?w')) = atInProgressClaims s'"
      using upd [of a] st cnt
      by (cases "claiming a ?p"; cases "claiming a p'") (simp_all add: claim_step_def)
    show "count_pc (claiming b) (wThreads ?w') = count_pc (claiming b) (wThreads w)" if "b \<noteq> a" for b
    proof -
      have "\<not> claiming b ?p" "\<not> claiming b p'"
        using a pa that claiming_attempt by (metis option.distinct(1) option.inject)+
      with upd [of b] show ?thesis by simp
    qed
    show "sealed_ok s'" using st by (simp add: claim_step_def)
  qed
qed

lemma claims_spawn:
  assumes inv: "claims_ok w" and a: "a < length (wHeap w)" and h: "wHeap w' = (wHeap w)[a := s']"
    and th: "wThreads w' = wThreads w @ ps" and quiet: "\<And>p b. p \<in> set ps \<Longrightarrow> \<not> claiming b p"
    and n: "atInProgressClaims s' = atInProgressClaims (wHeap w ! a)"
    and s: "sealed_ok (wHeap w ! a) \<Longrightarrow> sealed_ok s'"
  shows "claims_ok w'"
proof -
  have none: "count_pc (claiming b) ps = 0" for b
    using quiet count_pc_pos [of "claiming b" ps] by (metis gr0I)
  show ?thesis
    by (rule claims_local [OF inv a h]) (use inv a n s in \<open>auto simp: th none claims_ok_def\<close>)
qed

lemma claims_act:
  assumes inv: "claims_ok w" and owned: "commit_owned w"
  shows "claims_ok (act x w)"
proof (cases x)
  case (DoBegin f q)
  show ?thesis
  proof (cases "BeginRuntimeAttempt f q w")
    case (Inr w')
    then obtain s where h: "wHeap w' = wHeap w @ [s]" "wThreads w' = wThreads w"
      and s: "atInProgressClaims s = 0" "sealed_ok s"
      by (auto simp: BeginRuntimeAttempt_def Let_def new_attempt_def sealed_ok_def
          split: if_splits sum.splits prod.splits)
    have "\<not> claiming (length (wHeap w)) p" if "p \<in> set (wThreads w)" for p
      using owned that claiming_attempt unfolding commit_owned_def by blast
    then have "count_pc (claiming (length (wHeap w))) (wThreads w) = 0"
      using count_pc_pos by (metis gr0I)
    with inv h s show ?thesis
      by (auto simp: DoBegin accepted_def Inr claims_ok_def nth_append less_Suc_eq)
  qed (use inv in \<open>simp add: DoBegin accepted_def\<close>)
next
  case (DoStep tid r)
  show ?thesis
  proof (cases "tid < length (wThreads w) \<and> pc_attempt (wThreads w ! tid) \<noteq> None")
    case True
    then show ?thesis using claims_thread [OF inv owned] by (auto simp: DoStep)
  next
    case False
    then have "act x w = w" by (cases "wThreads w ! tid") (auto simp: DoStep step_thread_def)
    with inv show ?thesis by simp
  qed
next
  case (DoIssue a i b)
  show ?thesis
  proof (cases "Issue a i b w")
    case (Inr w')
    then obtain s' where "a < length (wHeap w)" "wHeap w' = (wHeap w)[a := s']"
      "wThreads w' = wThreads w @ []" and "atInProgressClaims s' = atInProgressClaims (wHeap w ! a)"
      "sealed_ok (wHeap w ! a) \<Longrightarrow> sealed_ok s'"
      by (auto simp: Issue_def Let_def attempt_at_def sealed_ok_def split: if_splits)
    from claims_spawn [OF inv this(1-3) _ this(4,5)] show ?thesis by (simp add: DoIssue accepted_def Inr)
  qed (use inv in \<open>simp add: DoIssue accepted_def\<close>)
next
  case (DoSeal a)
  show ?thesis
  proof (cases "Seal a w")
    case (Inr w')
    then obtain s' where "a < length (wHeap w)" "wHeap w' = (wHeap w)[a := s']"
      "wThreads w' = wThreads w @ []" and "atInProgressClaims s' = atInProgressClaims (wHeap w ! a)"
      "sealed_ok (wHeap w ! a) \<Longrightarrow> sealed_ok s'"
      by (auto simp: Seal_def Let_def attempt_at_def sealed_ok_def split: if_splits)
    from claims_spawn [OF inv this(1-3) _ this(4,5)] show ?thesis by (simp add: DoSeal accepted_def Inr)
  qed (use inv in \<open>simp add: DoSeal accepted_def\<close>)
next
  case (DoAdmit a v c b)
  show ?thesis
  proof (cases "Admit a v c b w")
    case (Inr w')
    then obtain s' p where th: "a < length (wHeap w)" "wHeap w' = (wHeap w)[a := s']"
      "wThreads w' = wThreads w @ [p]" and "atInProgressClaims s' = atInProgressClaims (wHeap w ! a)"
      "sealed_ok (wHeap w ! a) \<Longrightarrow> sealed_ok s'" and quiet: "\<forall>b. \<not> claiming b p"
      by (auto simp: Admit_def Let_def attempt_at_def sealed_ok_def cancelUnresolvedLocked_def
          split: if_splits)
    from claims_spawn [OF inv th _ this(4,5)] quiet show ?thesis
      by (simp add: DoAdmit accepted_def Inr)
  qed (use inv in \<open>simp add: DoAdmit accepted_def\<close>)
next
  case (DoPublish a)
  show ?thesis
  proof (cases "Publish a w")
    case (Inr w')
    then obtain s' where th: "a < length (wHeap w)" "wHeap w' = (wHeap w)[a := s']"
      "wThreads w' = wThreads w @ [Draining a DrainPublish]"
      and "atInProgressClaims s' = atInProgressClaims (wHeap w ! a)"
      "sealed_ok (wHeap w ! a) \<Longrightarrow> sealed_ok s'"
      by (auto simp: Publish_def Let_def attempt_at_def sealed_ok_def split: if_splits)
    from claims_spawn [OF inv th _ this(4,5)] show ?thesis by (simp add: DoPublish accepted_def Inr)
  qed (use inv in \<open>simp add: DoPublish accepted_def\<close>)
next
  case (DoCancel a)
  show ?thesis
  proof (cases "a < length (wHeap w)")
    case True
    have h: "wHeap (spawn (CancelLoop a False) w) = (wHeap w)[a := wHeap w ! a]" by simp
    from claims_spawn [OF inv True h, of "[CancelLoop a False]"] True show ?thesis
      by (simp add: DoCancel)
  qed (use inv in \<open>simp add: DoCancel\<close>)
next
  case (DoClaim a i)
  show ?thesis
  proof (cases "Claim_admit a i w")
    case (Inr w')
    then obtain s' where al: "a < length (wHeap w)" and h: "wHeap w' = (wHeap w)[a := s']"
      and th: "wThreads w' = wThreads w @ [Claiming a i]"
      and s: "atInProgressClaims s' = atInProgressClaims (wHeap w ! a) + 1" "sealed_ok s'"
      by (auto simp: Claim_admit_def Let_def attempt_at_def sealed_ok_def set_entry_def split: if_splits)
    have "claims_ok w'"
      by (rule claims_local [OF inv al h]) (use inv al s in \<open>auto simp: th claims_ok_def\<close>)
    then show ?thesis by (simp add: DoClaim accepted_def Inr)
  qed (use inv in \<open>simp add: DoClaim accepted_def\<close>)
qed

section \<open>The concurrent ledger as an event machine\<close>

definition world_inv :: "world \<Rightarrow> bool" where
  "world_inv w \<longleftrightarrow> world_ok w \<and> accounted w \<and> lifecycle_ok w \<and> claims_ok w"

definition world_progress :: "world \<Rightarrow> world \<Rightarrow> bool" where
  "world_progress w w' \<longleftrightarrow> ledger_grows (wLedger w) (wLedger w') \<and> phases_advance w w'"

lemma grows_trans: "ledger_grows a b \<Longrightarrow> ledger_grows b c \<Longrightarrow> ledger_grows a c"
  using ledger_machine.progress_trans by (auto simp: ledger_grows_def)

interpretation attempt_machine: event_machine act "\<lambda>_. True" world_inv world_progress
proof unfold_locales
  fix s x
  assume "world_inv s"
  then show "world_inv (act x s)" and "world_progress s (act x s)" and "world_progress s s"
    using world_ok_act [of s x] accounted_act [of s x] lifecycle_act [of s x] claims_act [of s x]
      grows_refl [of "wLedger s"]
    by (auto simp: world_inv_def world_progress_def world_ok_def phases_advance_def)
next
  show "world_progress a b \<Longrightarrow> world_progress b c \<Longrightarrow> world_progress a c" for a b c
    unfolding world_progress_def phases_advance_def
    by (meson grows_trans order_trans phase_reaches_trans order_less_le_trans)
qed

lemma initial_world_inv:
  assumes "newSampleLedger s trusted limits restart = Inr l"
  shows "world_inv (initial_world l)"
proof -
  have l: "lgRetainedClaims l = 0" "lgLimits l = limits" "acceptLedgerLimits limits = None"
    using assms by (auto simp: newSampleLedger_def Let_def split: option.splits if_splits)
  then have "0 \<le> MaxRetainedAttempts limits" "0 \<le> MaxRetainedClaimEntries limits"
    by (auto simp: acceptLedgerLimits_def validateLedgerLimits_def split: option.splits if_splits)
  with l new_ledger_durable_ok [OF assms] show ?thesis
    by (simp add: world_inv_def world_ok_def accounted_def lifecycle_ok_def claims_ok_def
        commit_owned_def initial_world_def live_claims_def gm.wf_empty)
qed

section \<open>Properties\<close>


lemma example_new_ledger: "\<exists>l. newSampleLedger example_sample 0 DefaultLedgerLimits None = Inr l"
proof -
  have "validateSampleLedgerState example_sample 0 = None" by code_simp
  then show ?thesis by (simp add: newSampleLedger_def default_limits_accepted example_sample_def)
qed





end
