(* ===== verification/SunSpec_Value.thy ===== *)
theory SunSpec_Value
  imports Contract
begin

text \<open>
  Typed values of SunSpec points (\<^verbatim>\<open>sunspec_value.go\<close>): the decoder of one point, its
  sentinels, bitfields, strings and scale factors. A Go index out of range panics; a decode that
  panics is \<open>None\<close> here. The theorems compare the decoder with the wire number the registers
  spell, and with the text a device packs into them.
\<close>

section \<open>Types\<close>

datatype point_type =
    SunSpecTypeInt16 | SunSpecTypeInt32 | SunSpecTypeUint16 | SunSpecTypeUint32
  | SunSpecTypeUint64 | SunSpecTypeAccumulator32 | SunSpecTypeAccumulator64 | SunSpecTypeCount
  | SunSpecTypeEnum16 | SunSpecTypeBitfield16 | SunSpecTypeBitfield32 | SunSpecTypeString
  | SunSpecTypeFloat32 | SunSpecTypeScaleFactor | SunSpecTypePad
  | SunSpecTypeOther string

datatype value_state =
    SunSpecValueValid
  | SunSpecValueNotImplemented
  | SunSpecValueNotAccumulated
  | SunSpecValueInvalidEncoding

text \<open>
  A pair of a field and its \<^verbatim>\<open>has\<close> flag is an option. \<open>svFloat\<close> keeps the bits of the
  single-precision value. The integers are those of \<^verbatim>\<open>int64\<close> and \<^verbatim>\<open>int16\<close> fields.
\<close>

record sun_value =
  svType :: point_type
  svState :: value_state
  svRaw :: "u16 list"
  svDecimal :: "(int \<times> int) option"
  svUnsignedDecimal :: "(u64 \<times> int) option"
  svFloat :: "u32 option"
  svSigned :: "int option"
  svUnsigned :: "u64 option"
  svText :: "string option"
  svEnum :: "(u64 \<times> string) option"
  svBits :: "(u64 \<times> u64) option"
  svBitSymbols :: "string list"

type_synonym symbols = "(u64, string) gomap"

definition symbol_of :: "symbols \<Rightarrow> u64 \<Rightarrow> string" where
  "symbol_of m k = (case gm_get m k of None \<Rightarrow> '''' | Some s \<Rightarrow> s)"

record point_definition =
  pdName :: string
  pdFieldID :: string
  pdUnit :: string
  pdScaleFactor :: string
  pdGroupID :: string
  pdType :: point_type
  pdOffset :: u16
  pdSize :: u16
  pdRepeatIndex :: u16
  pdMandatory :: bool
  pdRequired :: bool
  pdRepeated :: bool
  pdSymbols :: symbols
  pdKnownMask :: u64
  pdFixedScale :: "int option"

section \<open>Decoding one point\<close>

definition invalidSunSpecValue :: "point_type \<Rightarrow> u16 list \<Rightarrow> value_state \<Rightarrow> sun_value" where
  "invalidSunSpecValue t ws state = \<lparr>svType = t, svState = state, svRaw = ws, svDecimal = None,
     svUnsignedDecimal = None, svFloat = None, svSigned = None, svUnsigned = None, svText = None,
     svEnum = None, svBits = None, svBitSymbols = []\<rparr>"

text \<open>The one, two or four leading registers, most significant first; too few of them panic.\<close>

fun with_u16 :: "u16 list \<Rightarrow> (u16 \<Rightarrow> 'a option) \<Rightarrow> 'a option" where
  "with_u16 (a # ws) k = k a"
| "with_u16 [] k = None"

fun with_u32 :: "u16 list \<Rightarrow> (u32 \<Rightarrow> 'a option) \<Rightarrow> 'a option" where
  "with_u32 (a # b # ws) k = k (push_bit 16 (ucast a) OR ucast b)"
| "with_u32 _ k = None"

fun with_u64 :: "u16 list \<Rightarrow> (u64 \<Rightarrow> 'a option) \<Rightarrow> 'a option" where
  "with_u64 (a # b # c # d # ws) k =
     k (push_bit 48 (ucast a) OR push_bit 32 (ucast b) OR push_bit 16 (ucast c) OR ucast d)"
| "with_u64 _ k = None"

definition float_finite :: "u32 \<Rightarrow> bool" where
  "float_finite bits \<longleftrightarrow> bits AND 0x7f800000 \<noteq> 0x7f800000"

definition setSunSpecBitfield :: "u64 \<Rightarrow> point_definition \<Rightarrow> nat \<Rightarrow> sun_value \<Rightarrow> sun_value" where
  "setSunSpecBitfield bits def width value = value\<lparr>
     svBits := Some (bits, bits AND NOT (pdKnownMask def)),
     svBitSymbols := map (\<lambda>b. symbol_of (pdSymbols def) (of_nat b))
       (filter (\<lambda>b. bits AND push_bit b 1 \<noteq> 0 \<and> pdKnownMask def AND push_bit b 1 \<noteq> 0
          \<and> symbol_of (pdSymbols def) (of_nat b) \<noteq> '''') [0..<Suc width])\<rparr>"

definition max_i64 :: u64 where "max_i64 = 0x7fffffffffffffff"

definition applySunSpecScale :: "sun_value \<Rightarrow> sun_value option \<Rightarrow> sun_value" where
  "applySunSpecScale value scale =
     (case scale of
        None \<Rightarrow> value\<lparr>svState := SunSpecValueInvalidEncoding, svDecimal := None\<rparr>
      | Some sc \<Rightarrow>
          (if svState sc = SunSpecValueInvalidEncoding
           then value\<lparr>svState := SunSpecValueInvalidEncoding, svDecimal := None\<rparr>
           else (case svSigned sc of
               None \<Rightarrow> value\<lparr>svState := SunSpecValueNotImplemented, svDecimal := None\<rparr>
             | Some exponent \<Rightarrow>
                 (if svState sc \<noteq> SunSpecValueValid
                  then value\<lparr>svState := SunSpecValueNotImplemented, svDecimal := None\<rparr>
                  else (case svSigned value of
                      Some coefficient \<Rightarrow> value\<lparr>svDecimal := Some (coefficient, exponent)\<rparr>
                    | None \<Rightarrow>
                        (case svUnsigned value of
                           None \<Rightarrow> value\<lparr>svState := SunSpecValueInvalidEncoding\<rparr>
                         | Some u \<Rightarrow>
                             (if svType value = SunSpecTypeUint64
                              then value\<lparr>svUnsignedDecimal := Some (u, exponent)\<rparr>
                              else if u > max_i64
                              then value\<lparr>svState := SunSpecValueInvalidEncoding\<rparr>
                              else value\<lparr>svDecimal := Some (uint u, exponent)\<rparr>))))))) "

definition word_bytes :: "u16 \<Rightarrow> string" where
  "word_bytes w = [char_of (unat (drop_bit 8 w)), char_of (unat (w AND 0xff))]"

abbreviation NUL :: char where "NUL \<equiv> CHR 0x00"

definition decodeSunSpecString :: "point_definition \<Rightarrow> u16 list \<Rightarrow> sun_value" where
  "decodeSunSpecString def ws =
     (let value = invalidSunSpecValue (pdType def) ws SunSpecValueInvalidEncoding;
          raw = concat (map word_bytes ws) in
      if list_all (\<lambda>b. b = NUL) raw
      then invalidSunSpecValue (pdType def) ws SunSpecValueNotImplemented
      else if take 2 raw = [NUL, CHR 0x80]
      then (if list_all (\<lambda>b. b = NUL) (drop 2 raw)
            then value\<lparr>svState := SunSpecValueValid, svText := Some ''''\<rparr> else value)
      else
        (let text = takeWhile (\<lambda>b. b \<noteq> NUL) raw in
         if \<not> list_all (\<lambda>b. b = NUL) (dropWhile (\<lambda>b. b \<noteq> NUL) raw) then value
         else if \<not> utf8_valid text then value
         else value\<lparr>svState := SunSpecValueValid, svText := Some text\<rparr>))"

text \<open>The end of the switch: the value is valid, then scaled when the point declares a scale.\<close>

definition finish_value :: "point_definition \<Rightarrow> sun_value option \<Rightarrow> sun_value \<Rightarrow> sun_value" where
  "finish_value def scale value =
     (let v = value\<lparr>svState := SunSpecValueValid\<rparr> in
      if pdScaleFactor def \<noteq> '''' \<or> pdFixedScale def \<noteq> None then applySunSpecScale v scale else v)"

definition decodeSunSpecValue ::
    "point_definition \<Rightarrow> u16 list \<Rightarrow> sun_value option \<Rightarrow> sun_value option" where
  "decodeSunSpecValue def ws scale =
     (let t = pdType def;
          value = invalidSunSpecValue t ws SunSpecValueInvalidEncoding;
          absent = invalidSunSpecValue t ws SunSpecValueNotImplemented;
          unaccumulated = invalidSunSpecValue t ws SunSpecValueNotAccumulated;
          finish = (\<lambda>v. Some (finish_value def scale v)) in
      if length ws \<noteq> unat (pdSize def) then Some value
      else (case t of
          SunSpecTypeInt16 \<Rightarrow> with_u16 ws (\<lambda>a.
            if a = 0x8000 then Some absent else finish (value\<lparr>svSigned := Some (sint a)\<rparr>))
        | SunSpecTypeInt32 \<Rightarrow> with_u32 ws (\<lambda>raw.
            if raw = 0x80000000 then Some absent
            else finish (value\<lparr>svSigned := Some (sint raw)\<rparr>))
        | SunSpecTypeUint16 \<Rightarrow> with_u16 ws (\<lambda>a.
            if a = 0xffff then Some absent else finish (value\<lparr>svUnsigned := Some (ucast a)\<rparr>))
        | SunSpecTypeCount \<Rightarrow> with_u16 ws (\<lambda>a.
            if a = 0xffff then Some absent else finish (value\<lparr>svUnsigned := Some (ucast a)\<rparr>))
        | SunSpecTypeUint32 \<Rightarrow> with_u32 ws (\<lambda>raw.
            if raw = 0xffffffff then Some absent
            else finish (value\<lparr>svUnsigned := Some (ucast raw)\<rparr>))
        | SunSpecTypeUint64 \<Rightarrow> with_u64 ws (\<lambda>raw.
            if raw = 0xffffffffffffffff then Some absent
            else finish (value\<lparr>svUnsigned := Some raw\<rparr>))
        | SunSpecTypeAccumulator32 \<Rightarrow> with_u32 ws (\<lambda>raw.
            if raw = 0 then Some unaccumulated
            else finish (value\<lparr>svUnsigned := Some (ucast raw)\<rparr>))
        | SunSpecTypeAccumulator64 \<Rightarrow> with_u64 ws (\<lambda>raw.
            if raw = 0 then Some unaccumulated else finish (value\<lparr>svUnsigned := Some raw\<rparr>))
        | SunSpecTypeScaleFactor \<Rightarrow> with_u16 ws (\<lambda>a.
            if a = 0x8000 then Some absent
            else if sint a < - 10 \<or> sint a > 10 then Some value
            else finish (value\<lparr>svSigned := Some (sint a)\<rparr>))
        | SunSpecTypeFloat32 \<Rightarrow> with_u32 ws (\<lambda>bits.
            if bits = 0x7fc00000 then Some absent
            else if \<not> float_finite bits then Some value
            else finish (value\<lparr>svFloat := Some bits\<rparr>))
        | SunSpecTypeEnum16 \<Rightarrow> with_u16 ws (\<lambda>a.
            if a = 0xffff then Some absent
            else finish (value\<lparr>svEnum := Some (ucast a, symbol_of (pdSymbols def) (ucast a))\<rparr>))
        | SunSpecTypeBitfield16 \<Rightarrow> with_u16 ws (\<lambda>a.
            if a = 0xffff then Some absent
            else finish (setSunSpecBitfield (ucast a) def 15 value))
        | SunSpecTypeBitfield32 \<Rightarrow> with_u32 ws (\<lambda>raw.
            if raw = 0xffffffff then Some absent
            else finish (setSunSpecBitfield (ucast raw) def 31 value))
        | SunSpecTypeString \<Rightarrow> Some (decodeSunSpecString def ws)
        | SunSpecTypePad \<Rightarrow> with_u16 ws (\<lambda>a. if a \<noteq> 0x8000 then Some value else finish value)
        | SunSpecTypeOther _ \<Rightarrow> Some value))"

definition mandatorySunSpecValueQualifies :: "sun_value \<Rightarrow> bool" where
  "mandatorySunSpecValueQualifies value \<longleftrightarrow>
     (if svState value \<noteq> SunSpecValueValid then False
      else (case svEnum value of
          Some (_, symbol) \<Rightarrow> symbol \<noteq> ''''
        | None \<Rightarrow> (case svBits value of Some (_, unknown) \<Rightarrow> unknown = 0 | None \<Rightarrow> True)))"

section \<open>The wire number\<close>

text \<open>The number that registers spell, most significant register first.\<close>

definition wire_number :: "u16 list \<Rightarrow> nat" where
  "wire_number ws = foldl (\<lambda>n w. n * 65536 + unat w) 0 ws"

text \<open>Two's complement on \<open>n\<close> registers.\<close>

definition twos_complement :: "nat \<Rightarrow> nat \<Rightarrow> int" where
  "twos_complement n v =
     (if v < 2 ^ (16 * n - 1) then int v else int v - 2 ^ (16 * n))"

lemma sint_twos_complement:
  fixes w :: "'a::len word"
  shows "sint w = (if uint w < 2 ^ (LENGTH('a) - 1) then uint w else uint w - 2 ^ LENGTH('a))"
proof -
  have u: "0 \<le> uint w" "uint w < 2 ^ LENGTH('a)" by simp_all
  obtain k where k: "LENGTH('a) = Suc k" using len_gt_0 [where 'a='a] by (cases "LENGTH('a)") auto
  show ?thesis
  proof (cases "uint w < 2 ^ k")
    case True
    then have "signed_take_bit k (uint w) = uint w"
      using u order_trans [of "- (2 ^ k)" 0 "uint w"]
      by (intro signed_take_bit_int_eq_self) simp_all
    with True show ?thesis by (simp add: sint_uint k)
  next
    case False
    then have "signed_take_bit k (uint w - 2 ^ Suc k) = uint w - 2 ^ Suc k"
      using u by (intro signed_take_bit_int_eq_self) (simp_all add: k)
    moreover have "signed_take_bit k (uint w - 2 ^ Suc k) = signed_take_bit k (uint w)"
      by (subst signed_take_bit_eq_iff_take_bit_eq) (simp add: take_bit_eq_mod)
    ultimately show ?thesis using False by (simp add: sint_uint k)
  qed
qed

lemma u32_of_u16s: "unat (push_bit 16 (ucast (a :: u16)) OR ucast (b :: u16) :: u32) = unat a * 65536 + unat b"
proof -
  have "push_bit 16 (ucast a) OR ucast b = (push_bit 16 (ucast a) + ucast b :: u32)"
    by (rule disjunctive_add_eq_or [symmetric]) (auto simp: bit_eq_iff bit_simps dest!: bit_imp_le_length)
  moreover have "unat (push_bit 16 (ucast a) :: u32) = unat a * 65536"
    using unat_u16_bound [of a]
    by (simp add: push_bit_eq_mult unat_word_ariths)
  ultimately show ?thesis
    using unat_u16_bound [of a] unat_u16_bound [of b] by (simp add: unat_word_ariths)
qed

lemma u64_of_u16s:
  "unat (push_bit 48 (ucast (a :: u16)) OR push_bit 32 (ucast (b :: u16))
     OR push_bit 16 (ucast (c :: u16)) OR ucast (d :: u16) :: u64)
   = ((unat a * 65536 + unat b) * 65536 + unat c) * 65536 + unat d"
proof -
  have c: "unat (ucast (x :: u16) :: u64) = unat x" for x
    using unat_u16_bound [of x] by (simp add: unsigned_ucast_eq take_bit_nat_eq_self_iff)
  let ?A = "push_bit 48 (ucast a) :: u64" and ?B = "push_bit 32 (ucast b) :: u64"
  let ?C = "push_bit 16 (ucast c) :: u64" and ?D = "ucast d :: u64"
  have 1: "?C OR ?D = ?C + ?D"
    by (rule disjunctive_add_eq_or [symmetric]) (auto simp: bit_eq_iff bit_simps dest!: bit_imp_le_length)
  have 2: "?B OR ?C OR ?D = ?B + (?C OR ?D)"
    by (rule disjunctive_add_eq_or [symmetric]) (auto simp: bit_eq_iff bit_simps dest!: bit_imp_le_length)
  have 3: "?A OR ?B OR ?C OR ?D = ?A + (?B OR ?C OR ?D)"
    by (rule disjunctive_add_eq_or [symmetric]) (auto simp: bit_eq_iff bit_simps dest!: bit_imp_le_length)
  have sum: "?A OR ?B OR ?C OR ?D = ?A + (?B + (?C + ?D))"
    by (subst 3, subst 2, subst 1) (rule refl)
  have p: "unat (push_bit 48 (ucast a) :: u64) = unat a * 281474976710656"
      "unat (push_bit 32 (ucast b) :: u64) = unat b * 4294967296"
      "unat (push_bit 16 (ucast c) :: u64) = unat c * 65536"
    using unat_u16_bound [of a] unat_u16_bound [of b] unat_u16_bound [of c]
    by (simp_all add: push_bit_eq_mult unat_word_ariths c)
  show ?thesis
    using unat_u16_bound [of a] unat_u16_bound [of b] unat_u16_bound [of c] unat_u16_bound [of d]
    by (simp add: sum unat_word_ariths p c)
qed

section \<open>Widths\<close>

text \<open>How many registers a type reads; strings take any positive number.\<close>

definition type_words :: "point_type \<Rightarrow> nat option" where
  "type_words t =
     (if t \<in> {SunSpecTypeInt16, SunSpecTypeUint16, SunSpecTypeCount, SunSpecTypeEnum16,
         SunSpecTypeBitfield16, SunSpecTypeScaleFactor, SunSpecTypePad} then Some 1
      else if t \<in> {SunSpecTypeInt32, SunSpecTypeUint32, SunSpecTypeAccumulator32,
         SunSpecTypeFloat32, SunSpecTypeBitfield32} then Some 2
      else if t \<in> {SunSpecTypeUint64, SunSpecTypeAccumulator64} then Some 4
      else None)"

definition width_ok :: "point_definition \<Rightarrow> bool" where
  "width_ok p \<longleftrightarrow> (case type_words (pdType p) of
      Some n \<Rightarrow> pdSize p = of_nat n
    | None \<Rightarrow> pdType p = SunSpecTypeString \<and> pdSize p \<noteq> 0)"

lemma list_length_1: "length ws = Suc 0 \<Longrightarrow> \<exists>a. ws = [a]"
  by (cases ws) auto

lemma list_length_2: "length ws = 2 \<Longrightarrow> \<exists>a b. ws = [a, b]"
  by (cases ws; cases "tl ws") auto

lemma list_length_4: "length ws = 4 \<Longrightarrow> \<exists>a b c d. ws = [a, b, c, d]"
  by (auto simp: length_Suc_conv numeral_eq_Suc)

lemma invalid_value_simps [simp]:
  "svRaw (invalidSunSpecValue t ws st) = ws" "svType (invalidSunSpecValue t ws st) = t"
  "svState (invalidSunSpecValue t ws st) = st" "svSigned (invalidSunSpecValue t ws st) = None"
  "svUnsigned (invalidSunSpecValue t ws st) = None" "svText (invalidSunSpecValue t ws st) = None"
  by (simp_all add: invalidSunSpecValue_def)

lemma scale_keeps [simp]:
  "svRaw (applySunSpecScale v sc) = svRaw v" "svType (applySunSpecScale v sc) = svType v"
  "svSigned (applySunSpecScale v sc) = svSigned v" "svUnsigned (applySunSpecScale v sc) = svUnsigned v"
  by (simp_all add: applySunSpecScale_def split: option.splits)

lemma bitfield_keeps [simp]:
  "svRaw (setSunSpecBitfield b p n v) = svRaw v" "svType (setSunSpecBitfield b p n v) = svType v"
  by (simp_all add: setSunSpecBitfield_def)

lemma finish_keeps [simp]:
  "svRaw (finish_value p sc v) = svRaw v" "svType (finish_value p sc v) = svType v"
  "svSigned (finish_value p sc v) = svSigned v" "svUnsigned (finish_value p sc v) = svUnsigned v"
  by (simp_all add: finish_value_def Let_def)

lemma string_keeps [simp]:
  "svRaw (decodeSunSpecString p ws) = ws" "svType (decodeSunSpecString p ws) = pdType p"
  by (simp_all add: decodeSunSpecString_def Let_def)

text \<open>A point of the right width never panics, and its value keeps the registers it was read from.\<close>

lemma decode_returns:
  assumes "width_ok p"
  shows "\<exists>v. decodeSunSpecValue p ws sc = Some v \<and> svRaw v = ws \<and> svType v = pdType p"
proof (cases "length ws = unat (pdSize p)")
  case False
  then show ?thesis by (simp add: decodeSunSpecValue_def)
next
  case True
  show ?thesis
  proof (cases "pdType p")
    case SunSpecTypeString
    with True show ?thesis by (simp add: decodeSunSpecValue_def Let_def)
  qed (use True assms in \<open>auto simp: decodeSunSpecValue_def width_ok_def type_words_def Let_def
       dest!: list_length_1 list_length_2 list_length_4\<close>)
qed

section \<open>Numbers\<close>

text \<open>
  What SunSpec says of each numeric type: its registers, whether it is signed, the pattern that
  means the value is absent, and the state that pattern has.
\<close>

fun number_format :: "point_type \<Rightarrow> (nat \<times> bool \<times> nat \<times> value_state) option" where
  "number_format SunSpecTypeInt16 = Some (1, True, 0x8000, SunSpecValueNotImplemented)"
| "number_format SunSpecTypeInt32 = Some (2, True, 0x80000000, SunSpecValueNotImplemented)"
| "number_format SunSpecTypeUint16 = Some (1, False, 0xffff, SunSpecValueNotImplemented)"
| "number_format SunSpecTypeCount = Some (1, False, 0xffff, SunSpecValueNotImplemented)"
| "number_format SunSpecTypeUint32 = Some (2, False, 0xffffffff, SunSpecValueNotImplemented)"
| "number_format SunSpecTypeUint64 = Some (4, False, 0xffffffffffffffff, SunSpecValueNotImplemented)"
| "number_format SunSpecTypeAccumulator32 = Some (2, False, 0, SunSpecValueNotAccumulated)"
| "number_format SunSpecTypeAccumulator64 = Some (4, False, 0, SunSpecValueNotAccumulated)"
| "number_format _ = None"

definition number_of :: "sun_value \<Rightarrow> int option" where
  "number_of v = (case svSigned v of Some i \<Rightarrow> Some i | None \<Rightarrow> map_option uint (svUnsigned v))"

text \<open>The reference reading of a point, with no scale.\<close>

definition read_number :: "nat \<Rightarrow> bool \<Rightarrow> nat \<Rightarrow> value_state \<Rightarrow> u16 list \<Rightarrow> value_state \<times> int option" where
  "read_number n twos absent state ws =
     (let v = wire_number ws in
      if v = absent then (state, None)
      else (SunSpecValueValid, Some (if twos then twos_complement n v else int v)))"

lemma number_format_width: "number_format t = Some (n, f) \<Longrightarrow> type_words t = Some n"
  by (cases t) (auto simp: type_words_def)

definition number_value :: "point_type \<Rightarrow> nat \<Rightarrow> bool \<Rightarrow> u16 list \<Rightarrow> sun_value" where
  "number_value t n twos ws =
     (if twos
      then (invalidSunSpecValue t ws SunSpecValueInvalidEncoding)
        \<lparr>svSigned := Some (twos_complement n (wire_number ws))\<rparr>
      else (invalidSunSpecValue t ws SunSpecValueInvalidEncoding)
        \<lparr>svUnsigned := Some (of_nat (wire_number ws))\<rparr>)"

lemma uint_is_int: "uint w = int (unat w)"
  by simp

lemma signed_number:
  fixes x :: "'a::len word"
  assumes "LENGTH('a) = 16 * k"
  shows "sint x = twos_complement k (unat x)"
proof -
  have "(uint x < 2 ^ (16 * k - 1)) = (unat x < 2 ^ (16 * k - 1))"
    unfolding uint_is_int by (simp only: of_nat_less_numeral_power_cancel_iff)
  then show ?thesis unfolding sint_twos_complement twos_complement_def assms by simp
qed

lemma unat_pattern: "((x :: 'a::len word) = numeral k) = (unat x = unat (numeral k :: 'a word))"
  by (simp add: word_unat_eq_iff)

lemma number_formats:
  assumes "number_format t = Some (n, twos, absent, st)"
  shows "(t \<in> {SunSpecTypeInt16, SunSpecTypeUint16, SunSpecTypeCount} \<and> n = 1)
    \<or> (t \<in> {SunSpecTypeInt32, SunSpecTypeUint32, SunSpecTypeAccumulator32} \<and> n = 2)
    \<or> (t \<in> {SunSpecTypeUint64, SunSpecTypeAccumulator64} \<and> n = 4)"
  using assms by (cases t) auto

lemma decode_number_1:
  assumes "number_format (pdType p) = Some (1, twos, absent, st)" and "pdSize p = 1"
  shows "decodeSunSpecValue p [a] sc = Some
    (if wire_number [a] = absent then invalidSunSpecValue (pdType p) [a] st
     else finish_value p sc (number_value (pdType p) 1 twos [a]))"
proof -
  have w: "wire_number [a] = unat a" by (simp add: wire_number_def)
  show ?thesis
    using assms by (cases "pdType p")
      (auto simp: decodeSunSpecValue_def number_value_def Let_def w signed_number [of 1]
        unat_pattern)
qed

lemma decode_number_2:
  assumes "number_format (pdType p) = Some (2, twos, absent, st)" and "pdSize p = 2"
  shows "decodeSunSpecValue p [a, b] sc = Some
    (if wire_number [a, b] = absent then invalidSunSpecValue (pdType p) [a, b] st
     else finish_value p sc (number_value (pdType p) 2 twos [a, b]))"
proof -
  define x :: u32 where x: "x = push_bit 16 (ucast a) OR ucast b"
  have w: "wire_number [a, b] = unat x" by (simp add: wire_number_def x u32_of_u16s)
  have k: "with_u32 [a, b] f = f x" for f :: "u32 \<Rightarrow> sun_value option" by (simp add: x)
  show ?thesis
    using assms by (cases "pdType p")
      (auto simp: decodeSunSpecValue_def number_value_def Let_def w k signed_number [of 2]
        unat_pattern unat_eq_0 simp del: with_u32.simps)
qed

lemma decode_number_4:
  assumes "number_format (pdType p) = Some (4, twos, absent, st)" and "pdSize p = 4"
  shows "decodeSunSpecValue p [a, b, c, d] sc = Some
    (if wire_number [a, b, c, d] = absent then invalidSunSpecValue (pdType p) [a, b, c, d] st
     else finish_value p sc (number_value (pdType p) 4 twos [a, b, c, d]))"
proof -
  define x :: u64 where
    x: "x = push_bit 48 (ucast a) OR push_bit 32 (ucast b) OR push_bit 16 (ucast c) OR ucast d"
  have w: "wire_number [a, b, c, d] = unat x" by (simp add: wire_number_def x u64_of_u16s)
  have k: "with_u64 [a, b, c, d] f = f x" for f :: "u64 \<Rightarrow> sun_value option" by (simp add: x)
  show ?thesis
    using assms by (cases "pdType p")
      (auto simp: decodeSunSpecValue_def number_value_def Let_def w k
        unat_pattern unat_eq_0 simp del: with_u64.simps)
qed

lemma decode_number:
  assumes "number_format (pdType p) = Some (n, twos, absent, st)"
    and "pdSize p = of_nat n" and "length ws = n"
  shows "decodeSunSpecValue p ws sc = Some
    (if wire_number ws = absent then invalidSunSpecValue (pdType p) ws st
     else finish_value p sc (number_value (pdType p) n twos ws))"
  using number_formats [OF assms(1)] assms(3)
proof (elim disjE conjE)
  assume "n = 1" and "length ws = n"
  then obtain a where "ws = [a]" using list_length_1 [of ws] by auto
  then show ?thesis using decode_number_1 assms \<open>n = 1\<close> by auto
next
  assume "n = 2" and "length ws = n"
  then obtain a b where "ws = [a, b]" using list_length_2 [of ws] by auto
  then show ?thesis using decode_number_2 assms \<open>n = 2\<close> by auto
next
  assume "n = 4" and "length ws = n"
  then obtain a b c d where "ws = [a, b, c, d]" using list_length_4 [of ws] by auto
  then show ?thesis using decode_number_4 assms \<open>n = 4\<close> by auto
qed

definition decimal_of :: "sun_value \<Rightarrow> (int \<times> int) option" where
  "decimal_of v = (case svDecimal v of
      Some d \<Rightarrow> Some d | None \<Rightarrow> map_option (\<lambda>(u, e). (uint u, e)) (svUnsignedDecimal v))"

text \<open>The reference reading of a scaled point: the exact decimal, or the reason there is none.\<close>

definition read_scaled :: "point_type \<Rightarrow> sun_value option \<Rightarrow> value_state \<times> int option
    \<Rightarrow> value_state \<times> (int \<times> int) option" where
  "read_scaled t scale reading =
     (case reading of
        (st, None) \<Rightarrow> (st, None)
      | (st, Some x) \<Rightarrow>
          (case scale of
             None \<Rightarrow> (SunSpecValueInvalidEncoding, None)
           | Some sc \<Rightarrow>
               (if svState sc = SunSpecValueInvalidEncoding then (SunSpecValueInvalidEncoding, None)
                else (case svSigned sc of
                    None \<Rightarrow> (SunSpecValueNotImplemented, None)
                  | Some e \<Rightarrow>
                      (if svState sc \<noteq> SunSpecValueValid then (SunSpecValueNotImplemented, None)
                       else if t \<noteq> SunSpecTypeUint64 \<and> x > 2 ^ 63 - 1
                       then (SunSpecValueInvalidEncoding, None)
                       else (SunSpecValueValid, Some (x, e)))))))"

lemma wire_number_bound: "wire_number ws < 65536 ^ length ws"
proof (induction ws rule: rev_induct)
  case Nil
  then show ?case by (simp add: wire_number_def)
next
  case (snoc w ws)
  have "wire_number (ws @ [w]) = wire_number ws * 65536 + unat w" by (simp add: wire_number_def)
  also have "\<dots> < (wire_number ws + 1) * 65536" using unat_u16_bound [of w] by simp
  also have "\<dots> \<le> 65536 ^ length ws * 65536" using snoc by (intro mult_right_mono) simp_all
  finally show ?case by simp
qed

lemma unsigned_number:
  assumes "length ws = n" and "n \<le> 4"
  shows "uint (of_nat (wire_number ws) :: u64) = int (wire_number ws)"
proof -
  have "wire_number ws < 65536 ^ n" using wire_number_bound [of ws] assms by simp
  also have "\<dots> \<le> 65536 ^ 4" using assms by (intro power_increasing) simp_all
  finally have "unat (of_nat (wire_number ws) :: u64) = wire_number ws"
    by (intro unat_of_nat_u64) simp
  then show ?thesis by (simp only: uint_is_int)
qed

lemma number_format_words: "number_format t = Some (n, f) \<Longrightarrow> n \<le> 4"
  by (cases t) auto

lemma number_format_unsigned:
  "number_format t = Some (n, twos, a, st) \<Longrightarrow> t = SunSpecTypeUint64 \<longrightarrow> \<not> twos"
  by (cases t) auto

lemma twos_complement_le: "twos_complement n v \<le> int v"
  by (simp add: twos_complement_def)

lemma twos_small:
  assumes "number_format t = Some (n, True, a, st)" and "length ws = n"
  shows "twos_complement n (wire_number ws) \<le> 2 ^ 63 - 1"
proof -
  from assms(1) have "n \<le> 2" by (cases t) auto
  have "wire_number ws < 65536 ^ n" using wire_number_bound [of ws] assms by simp
  also have "\<dots> \<le> 65536 ^ 2" using \<open>n \<le> 2\<close> by (intro power_increasing) simp_all
  finally have "int (wire_number ws) \<le> 2 ^ 63 - 1" by simp
  then show ?thesis using twos_complement_le [of n "wire_number ws"] by linarith
qed

lemma number_of_state [simp]: "number_of (v\<lparr>svState := s\<rparr>) = number_of v"
  by (simp add: number_of_def split: option.split)

lemma number_of_invalid [simp]: "number_of (invalidSunSpecValue t ws s) = None"
  by (simp add: number_of_def)

lemma decimal_of_invalid [simp]: "decimal_of (invalidSunSpecValue t ws s) = None"
  by (simp add: decimal_of_def invalidSunSpecValue_def)

lemma finish_unscaled:
  "pdScaleFactor p = '''' \<Longrightarrow> pdFixedScale p = None \<Longrightarrow>
     finish_value p sc v = v\<lparr>svState := SunSpecValueValid\<rparr>"
  by (simp add: finish_value_def)

lemma number_of_value:
  assumes "length ws = n" and "n \<le> 4"
  shows "number_of (number_value t n twos ws)
    = Some (if twos then twos_complement n (wire_number ws) else int (wire_number ws))"
  using assms by (simp add: number_of_def number_value_def unsigned_number)

lemma scale_number:
  assumes "length ws = n" and "n \<le> 4" and "t = SunSpecTypeUint64 \<longrightarrow> \<not> twos"
    and "twos \<longrightarrow> twos_complement n (wire_number ws) \<le> 2 ^ 63 - 1"
    and "x = (if twos then twos_complement n (wire_number ws) else int (wire_number ws))"
  shows "(\<lambda>v. (svState v, decimal_of v))
      (applySunSpecScale ((number_value t n twos ws)\<lparr>svState := SunSpecValueValid\<rparr>) sc)
    = read_scaled t sc (SunSpecValueValid, Some x)"
proof -
  have u: "(max_i64 < (of_nat (wire_number ws) :: u64)) = (2 ^ 63 - 1 < int (wire_number ws))"
    using unsigned_number [OF assms(1,2)] by (simp add: word_less_def max_i64_def)
  show ?thesis
  proof (cases twos)
    case True
    with assms show ?thesis
      by (auto simp: applySunSpecScale_def read_scaled_def number_value_def decimal_of_def
          invalidSunSpecValue_def split: option.split)
  next
    case False
    with assms show ?thesis
      by (simp add: applySunSpecScale_def read_scaled_def number_value_def decimal_of_def u
          unsigned_number [OF assms(1,2)] invalidSunSpecValue_def split: option.split)
  qed
qed

section \<open>Properties\<close>

text \<open>C35: A numeric point is read exactly: for every integer and accumulator type of the
  protocol the decoder reports the number its registers spell, in two's complement where the type
  is signed, and reports it absent exactly on the pattern the protocol reserves, with the state
  that pattern has. It never panics on registers of the declared width.\<close>
theorem decoded_number_is_exact:
  assumes "number_format (pdType p) = Some (n, twos, absent, st)"
    and "pdSize p = of_nat n" and "length ws = n"
    and "pdScaleFactor p = ''''" and "pdFixedScale p = None"
  shows "map_option (\<lambda>v. (svState v, number_of v)) (decodeSunSpecValue p ws sc)
    = Some (read_number n twos absent st ws)"
  using decode_number [OF assms(1-3), of sc] assms number_of_value [OF assms(3) number_format_words [OF assms(1)]]
  by (simp add: read_number_def finish_unscaled [OF assms(4,5)] Let_def)


definition example_number :: point_definition where
  "example_number = \<lparr>pdName = ''W'', pdFieldID = ''inverter.ac.power.active'', pdUnit = ''W'',
     pdScaleFactor = '''', pdGroupID = '''', pdType = SunSpecTypeInt32, pdOffset = 2, pdSize = 2,
     pdRepeatIndex = 0, pdMandatory = True, pdRequired = True, pdRepeated = False,
     pdSymbols = [], pdKnownMask = 0, pdFixedScale = None\<rparr>"

theorem decoded_number_is_exact_witness:
  "map_option (\<lambda>v. (svState v, number_of v)) (decodeSunSpecValue example_number [0xffff, 0xfffe] None)
     = Some (SunSpecValueValid, Some (- 2))"
  using decoded_number_is_exact [of example_number 2 True "0x80000000" SunSpecValueNotImplemented
      "[0xffff, 0xfffe]" None]
  by (simp add: example_number_def read_number_def wire_number_def twos_complement_def)

definition example_scale :: sun_value where
  "example_scale = (invalidSunSpecValue SunSpecTypeScaleFactor [0xfffe] SunSpecValueValid)
     \<lparr>svSigned := Some (- 2)\<rparr>"


section \<open>Text\<close>

text \<open>A device packs text two bytes to a register, padded with zero bytes.\<close>

fun pack_text :: "string \<Rightarrow> u16 list" where
  "pack_text [] = []"
| "pack_text [a] = [push_bit 8 (of_nat (byte_at a))]"
| "pack_text (a # b # s) = (push_bit 8 (of_nat (byte_at a)) OR of_nat (byte_at b)) # pack_text s"

lemma byte_bound: "byte_at c < 256"
  by (simp add: byte_at_def)

lemma byte_bits: "bit (byte_at c) n \<Longrightarrow> n < 8"
proof -
  have "take_bit 8 (byte_at c) = byte_at c" using byte_bound [of c] by (simp add: take_bit_nat_eq_self_iff)
  then show "bit (byte_at c) n \<Longrightarrow> n < 8" by (metis bit_take_bit_iff)
qed

lemma byte_unat: "unat (of_nat (byte_at c) :: u16) = byte_at c"
  using byte_bound [of c] by (intro unat_of_nat_u16) simp

lemma word_bytes_packed:
  "word_bytes (push_bit 8 (of_nat (byte_at a)) OR of_nat (byte_at b)) = [a, b]"
proof -
  let ?a = "of_nat (byte_at a) :: u16" and ?b = "of_nat (byte_at b) :: u16"
  have "drop_bit 8 (push_bit 8 ?a OR ?b) = ?a"
    by (rule bit_eqI) (auto simp: bit_simps dest: byte_bits)
  moreover have "(push_bit 8 ?a OR ?b) AND 0xff = ?b"
  proof -
    have "(push_bit 8 ?a OR ?b) AND mask 8 = ?b"
      by (rule bit_eqI) (auto simp: bit_simps dest: byte_bits)
    then show ?thesis by (simp add: mask_eq_exp_minus_1)
  qed
  ultimately show ?thesis
    by (simp add: word_bytes_def byte_unat) (simp add: byte_at_def)
qed

lemma word_bytes_last: "word_bytes (push_bit 8 (of_nat (byte_at a))) = [a, NUL]"
proof -
  have "byte_at NUL = 0" by (simp add: byte_at_def)
  then show ?thesis using word_bytes_packed [of a NUL] by simp
qed

lemma word_bytes_zero: "word_bytes 0 = [NUL, NUL]"
  by (simp add: word_bytes_def char_of_def)

lemma unpack_text:
  "concat (map word_bytes (pack_text s @ replicate k 0))
     = s @ replicate (2 * k + (if odd (length s) then 1 else 0)) NUL"
proof (induction s rule: pack_text.induct)
  case 1
  show ?case by (induction k) (simp_all add: word_bytes_zero)
next
  case (2 a)
  have "concat (map word_bytes (replicate k 0)) = replicate (2 * k) NUL"
    by (induction k) (simp_all add: word_bytes_zero)
  then show ?case by (simp add: word_bytes_last)
next
  case (3 a b s)
  then show ?case by (simp add: word_bytes_packed)
qed

lemma list_all_replicate_refl: "list_all (\<lambda>b. b = c) (replicate n c)"
  by (simp add: list_all_iff)

lemma takeWhile_text:
  assumes "list_all (\<lambda>c. c \<noteq> z) s"
  shows "takeWhile (\<lambda>c. c \<noteq> z) (s @ replicate n z) = s"
    and "dropWhile (\<lambda>c. c \<noteq> z) (s @ replicate n z) = replicate n z"
  using assms by (induction s) (auto simp: takeWhile_replicate dropWhile_replicate)

text \<open>C37: Text round trip: a nonempty text without zero bytes that a device packs into the
  registers of a string point, padded with zero registers, is decoded to exactly that text.\<close>
theorem packed_text_round_trips:
  assumes "pdType p = SunSpecTypeString" and "s \<noteq> ''''" and "utf8_valid s"
    and "list_all (\<lambda>c. c \<noteq> NUL) s"
    and "unat (pdSize p) = length (pack_text s) + k"
  shows "map_option (\<lambda>v. (svState v, svText v)) (decodeSunSpecValue p (pack_text s @ replicate k 0) sc)
    = Some (SunSpecValueValid, Some s)"
proof -
  obtain c t where s: "s = c # t" "c \<noteq> NUL" using assms(2,4) by (cases s) auto
  have "decodeSunSpecValue p (pack_text s @ replicate k 0) sc
    = Some (decodeSunSpecString p (pack_text s @ replicate k 0))"
    using assms(1,5) by (simp add: decodeSunSpecValue_def Let_def)
  moreover have "take 2 (s @ xs) \<noteq> [NUL, CHR 0x80]" "\<not> list_all (\<lambda>b. b = NUL) (s @ xs)" for xs
    using s by (cases t; simp)+
  then have "decodeSunSpecString p (pack_text s @ replicate k 0)
    = (invalidSunSpecValue (pdType p) (pack_text s @ replicate k 0) SunSpecValueInvalidEncoding)
        \<lparr>svState := SunSpecValueValid, svText := Some s\<rparr>"
    unfolding decodeSunSpecString_def unpack_text Let_def takeWhile_text [OF assms(4)]
    using assms(3) by (simp only: if_False list_all_replicate_refl not_True_eq_False simp_thms)
  ultimately show ?thesis by simp
qed

theorem packed_text_round_trips_witness:
  "map_option (\<lambda>v. (svState v, svText v)) (decodeSunSpecValue
     (example_number\<lparr>pdType := SunSpecTypeString, pdSize := 4\<rparr>) (pack_text ''Fronius'') None)
   = Some (SunSpecValueValid, Some ''Fronius'')"
  using packed_text_round_trips [of "example_number\<lparr>pdType := SunSpecTypeString, pdSize := 4\<rparr>"
      "''Fronius''" 0 None]
  by (simp add: example_number_def byte_at_def)

end
