(* ===== verification/SunSpec_Models.thy ===== *)
theory SunSpec_Models
  imports SunSpec_Value
begin

text \<open>
  The point tables of the first SunSpec schema revision (\<^verbatim>\<open>sunspec_models_common.go\<close>,
  \<^verbatim>\<open>sunspec_models_inverter.go\<close>, \<^verbatim>\<open>sunspec_models_extended.go\<close>,
  \<^verbatim>\<open>sunspec_models_controls.go\<close>, \<^verbatim>\<open>sunspec_models_meter.go\<close>,
  \<^verbatim>\<open>sunspec_models_environmental.go\<close>, \<^verbatim>\<open>sunspec_models_mppt.go\<close>) and the
  constructors they are written with. Each table is checked here: its total width, the width of
  every point, the two header points it starts with and the scale factors it refers to.
\<close>

section \<open>Constructors\<close>

definition sunSpecPoint :: "string \<Rightarrow> string \<Rightarrow> point_type \<Rightarrow> u16 \<Rightarrow> string \<Rightarrow> string \<Rightarrow> bool
    \<Rightarrow> symbols \<Rightarrow> u64 \<Rightarrow> point_definition" where
  "sunSpecPoint name field t words unit scale mandatory symbols known = \<lparr>
     pdName = name, pdFieldID = field, pdUnit = unit, pdScaleFactor = scale, pdGroupID = '''',
     pdType = t, pdOffset = 0, pdSize = words, pdRepeatIndex = 0, pdMandatory = mandatory,
     pdRequired = (mandatory \<and> name \<noteq> ''ID'' \<and> name \<noteq> ''L'' \<and> t \<noteq> SunSpecTypeScaleFactor),
     pdRepeated = False, pdSymbols = symbols, pdKnownMask = known, pdFixedScale = None\<rparr>"

definition sunSpecKnownMask :: "symbols \<Rightarrow> u64" where
  "sunSpecKnownMask symbols =
     fold (\<lambda>(b, _) m. if b < 63 then m OR push_bit (unat b) 1 else m) symbols 0"

definition sunSpecTypeWords :: "point_type \<Rightarrow> u16" where
  "sunSpecTypeWords t = (if t = SunSpecTypeBitfield32 then 2 else 1)"

definition numberedSymbols :: "string list \<Rightarrow> symbols" where
  "numberedSymbols vs = map (\<lambda>(i, v). (of_nat i, v)) (enumerate 0 vs)"

definition extendedSunSpecPoint :: "string \<Rightarrow> string \<Rightarrow> point_type \<Rightarrow> u16 \<Rightarrow> string \<Rightarrow> string \<Rightarrow> bool
    \<Rightarrow> point_definition" where
  "extendedSunSpecPoint name field t words unit scale mandatory =
     sunSpecPoint name field t words unit scale mandatory [] 0"

definition extendedSunSpecEnum :: "string \<Rightarrow> string \<Rightarrow> bool \<Rightarrow> symbols \<Rightarrow> point_definition" where
  "extendedSunSpecEnum name field mandatory symbols =
     sunSpecPoint name field SunSpecTypeEnum16 1 '''' '''' mandatory symbols 0"

definition extendedSunSpecBitfield :: "string \<Rightarrow> string \<Rightarrow> point_type \<Rightarrow> bool \<Rightarrow> symbols
    \<Rightarrow> point_definition" where
  "extendedSunSpecBitfield name field t mandatory symbols =
     sunSpecPoint name field t (sunSpecTypeWords t) '''' '''' mandatory symbols
       (sunSpecKnownMask symbols)"

definition inverterSunSpecPoint :: "string \<Rightarrow> string \<Rightarrow> point_type \<Rightarrow> u16 \<Rightarrow> string \<Rightarrow> string
    \<Rightarrow> point_definition" where
  "inverterSunSpecPoint name field t words unit scale =
     sunSpecPoint name field t words unit scale False [] 0"

definition inverterSunSpecEnumPoint :: "string \<Rightarrow> string \<Rightarrow> symbols \<Rightarrow> point_definition" where
  "inverterSunSpecEnumPoint name field symbols =
     sunSpecPoint name field SunSpecTypeEnum16 1 '''' '''' False symbols 0"

definition inverterSunSpecBitfieldPoint :: "string \<Rightarrow> string \<Rightarrow> symbols \<Rightarrow> point_definition" where
  "inverterSunSpecBitfieldPoint name field symbols =
     sunSpecPoint name field SunSpecTypeBitfield32 2 '''' '''' False symbols
       (fold (\<lambda>(b, _) m. if b < 31 then m OR push_bit (unat b) 1 else m) symbols 0)"

definition environmentalScaledPoint :: "string \<Rightarrow> string \<Rightarrow> point_type \<Rightarrow> u16 \<Rightarrow> string \<Rightarrow> int \<Rightarrow> bool
    \<Rightarrow> point_definition" where
  "environmentalScaledPoint name field t words unit exponent mandatory =
     (extendedSunSpecPoint name field t words unit '''' mandatory)\<lparr>pdFixedScale := Some exponent\<rparr>"

section \<open>Common and inverter models\<close>

definition commonSunSpecPoints :: "point_definition list" where
  "commonSunSpecPoints =
     [sunSpecPoint ''ID'' '''' SunSpecTypeUint16 1 '''' '''' True [] 0,
      sunSpecPoint ''L'' '''' SunSpecTypeUint16 1 '''' '''' True [] 0,
      sunSpecPoint ''Mn'' ''device.manufacturer'' SunSpecTypeString 16 '''' '''' True [] 0,
      sunSpecPoint ''Md'' ''device.model'' SunSpecTypeString 16 '''' '''' True [] 0,
      sunSpecPoint ''Opt'' ''device.options'' SunSpecTypeString 8 '''' '''' False [] 0,
      sunSpecPoint ''Vr'' ''device.version'' SunSpecTypeString 8 '''' '''' False [] 0,
      sunSpecPoint ''SN'' ''device.serial'' SunSpecTypeString 16 '''' '''' True [] 0,
      sunSpecPoint ''DA'' ''device.address'' SunSpecTypeUint16 1 '''' '''' False [] 0,
      sunSpecPoint ''Pad'' ''device.pad'' SunSpecTypePad 1 '''' '''' False [] 0]"

definition inverterStatusSymbols :: symbols where
  "inverterStatusSymbols =
     [(1, ''OFF''), (2, ''SLEEPING''), (3, ''STARTING''), (4, ''MPPT''), (5, ''THROTTLED''),
      (6, ''SHUTTING_DOWN''), (7, ''FAULT''), (8, ''STANDBY'')]"

definition inverterModel111StatusSymbols :: symbols where
  "inverterModel111StatusSymbols =
     [(1, ''ggOFF''), (2, ''ggSLEEPING''), (3, ''ggSTARTING''), (4, ''ggMPPT''),
      (5, ''ggTHROTTLED''), (6, ''ggSHUTTING_DOWN''), (7, ''ggFAULT''), (8, ''ggSTANDBY'')]"

definition inverterEvent1Symbols :: symbols where
  "inverterEvent1Symbols =
     [(0, ''GROUND_FAULT''), (1, ''DC_OVER_VOLT''), (2, ''AC_DISCONNECT''), (3, ''DC_DISCONNECT''),
      (4, ''GRID_DISCONNECT''), (5, ''CABINET_OPEN''), (6, ''MANUAL_SHUTDOWN''), (7, ''OVER_TEMP''),
      (8, ''OVER_FREQUENCY''), (9, ''UNDER_FREQUENCY''), (10, ''AC_OVER_VOLT''),
      (11, ''AC_UNDER_VOLT''), (12, ''BLOWN_STRING_FUSE''), (13, ''UNDER_TEMP''),
      (14, ''MEMORY_LOSS''), (15, ''HW_TEST_FAILURE'')]"

definition integerInverterSunSpecPoints :: "point_definition list" where
  "integerInverterSunSpecPoints =
     [inverterSunSpecPoint ''ID'' '''' SunSpecTypeUint16 1 '''' '''',
      inverterSunSpecPoint ''L'' '''' SunSpecTypeUint16 1 '''' '''',
      inverterSunSpecPoint ''A'' ''inverter.ac.current.total'' SunSpecTypeUint16 1 ''A'' ''A_SF'',
      inverterSunSpecPoint ''AphA'' ''inverter.ac.current.phase_a'' SunSpecTypeUint16 1 ''A'' ''A_SF'',
      inverterSunSpecPoint ''AphB'' ''inverter.ac.current.phase_b'' SunSpecTypeUint16 1 ''A'' ''A_SF'',
      inverterSunSpecPoint ''AphC'' ''inverter.ac.current.phase_c'' SunSpecTypeUint16 1 ''A'' ''A_SF'',
      inverterSunSpecPoint ''A_SF'' ''inverter.scale.current'' SunSpecTypeScaleFactor 1 '''' '''',
      inverterSunSpecPoint ''PPVphAB'' ''inverter.ac.voltage.line_ab'' SunSpecTypeUint16 1 ''V'' ''V_SF'',
      inverterSunSpecPoint ''PPVphBC'' ''inverter.ac.voltage.line_bc'' SunSpecTypeUint16 1 ''V'' ''V_SF'',
      inverterSunSpecPoint ''PPVphCA'' ''inverter.ac.voltage.line_ca'' SunSpecTypeUint16 1 ''V'' ''V_SF'',
      inverterSunSpecPoint ''PhVphA'' ''inverter.ac.voltage.phase_a'' SunSpecTypeUint16 1 ''V'' ''V_SF'',
      inverterSunSpecPoint ''PhVphB'' ''inverter.ac.voltage.phase_b'' SunSpecTypeUint16 1 ''V'' ''V_SF'',
      inverterSunSpecPoint ''PhVphC'' ''inverter.ac.voltage.phase_c'' SunSpecTypeUint16 1 ''V'' ''V_SF'',
      inverterSunSpecPoint ''V_SF'' ''inverter.scale.voltage'' SunSpecTypeScaleFactor 1 '''' '''',
      inverterSunSpecPoint ''W'' ''inverter.ac.power.active'' SunSpecTypeInt16 1 ''W'' ''W_SF'',
      inverterSunSpecPoint ''W_SF'' ''inverter.scale.active_power'' SunSpecTypeScaleFactor 1 '''' '''',
      inverterSunSpecPoint ''Hz'' ''inverter.ac.frequency'' SunSpecTypeUint16 1 ''Hz'' ''Hz_SF'',
      inverterSunSpecPoint ''Hz_SF'' ''inverter.scale.frequency'' SunSpecTypeScaleFactor 1 '''' '''',
      inverterSunSpecPoint ''VA'' ''inverter.ac.power.apparent'' SunSpecTypeInt16 1 ''VA'' ''VA_SF'',
      inverterSunSpecPoint ''VA_SF'' ''inverter.scale.apparent_power'' SunSpecTypeScaleFactor 1 '''' '''',
      inverterSunSpecPoint ''VAr'' ''inverter.ac.power.reactive'' SunSpecTypeInt16 1 ''var'' ''VAr_SF'',
      inverterSunSpecPoint ''VAr_SF'' ''inverter.scale.reactive_power'' SunSpecTypeScaleFactor 1 '''' '''',
      inverterSunSpecPoint ''PF'' ''inverter.ac.power_factor'' SunSpecTypeInt16 1 ''Pct'' ''PF_SF'',
      inverterSunSpecPoint ''PF_SF'' ''inverter.scale.power_factor'' SunSpecTypeScaleFactor 1 '''' '''',
      inverterSunSpecPoint ''WH'' ''inverter.ac.energy_lifetime'' SunSpecTypeAccumulator32 2 ''Wh'' ''WH_SF'',
      inverterSunSpecPoint ''WH_SF'' ''inverter.scale.energy'' SunSpecTypeScaleFactor 1 '''' '''',
      inverterSunSpecPoint ''DCA'' ''inverter.dc.current'' SunSpecTypeUint16 1 ''A'' ''DCA_SF'',
      inverterSunSpecPoint ''DCA_SF'' ''inverter.scale.dc_current'' SunSpecTypeScaleFactor 1 '''' '''',
      inverterSunSpecPoint ''DCV'' ''inverter.dc.voltage'' SunSpecTypeUint16 1 ''V'' ''DCV_SF'',
      inverterSunSpecPoint ''DCV_SF'' ''inverter.scale.dc_voltage'' SunSpecTypeScaleFactor 1 '''' '''',
      inverterSunSpecPoint ''DCW'' ''inverter.dc.power'' SunSpecTypeInt16 1 ''W'' ''DCW_SF'',
      inverterSunSpecPoint ''DCW_SF'' ''inverter.scale.dc_power'' SunSpecTypeScaleFactor 1 '''' '''',
      inverterSunSpecPoint ''TmpCab'' ''inverter.temperature.cabinet'' SunSpecTypeInt16 1 ''C'' ''Tmp_SF'',
      inverterSunSpecPoint ''TmpSnk'' ''inverter.temperature.heatsink'' SunSpecTypeInt16 1 ''C'' ''Tmp_SF'',
      inverterSunSpecPoint ''TmpTrns'' ''inverter.temperature.transformer'' SunSpecTypeInt16 1 ''C'' ''Tmp_SF'',
      inverterSunSpecPoint ''TmpOt'' ''inverter.temperature.other'' SunSpecTypeInt16 1 ''C'' ''Tmp_SF'',
      inverterSunSpecPoint ''Tmp_SF'' ''inverter.scale.temperature'' SunSpecTypeScaleFactor 1 '''' '''',
      inverterSunSpecEnumPoint ''St'' ''inverter.operating_state'' inverterStatusSymbols,
      inverterSunSpecEnumPoint ''StVnd'' ''inverter.vendor_state'' [],
      inverterSunSpecBitfieldPoint ''Evt1'' ''inverter.events.1'' inverterEvent1Symbols,
      inverterSunSpecBitfieldPoint ''Evt2'' ''inverter.events.2'' [],
      inverterSunSpecBitfieldPoint ''EvtVnd1'' ''inverter.vendor_events.1'' [],
      inverterSunSpecBitfieldPoint ''EvtVnd2'' ''inverter.vendor_events.2'' [],
      inverterSunSpecBitfieldPoint ''EvtVnd3'' ''inverter.vendor_events.3'' [],
      inverterSunSpecBitfieldPoint ''EvtVnd4'' ''inverter.vendor_events.4'' []]"

definition floatInverterSunSpecPoints :: "symbols \<Rightarrow> point_definition list" where
  "floatInverterSunSpecPoints statusSymbols =
     [inverterSunSpecPoint ''ID'' '''' SunSpecTypeUint16 1 '''' '''',
      inverterSunSpecPoint ''L'' '''' SunSpecTypeUint16 1 '''' '''']
     @ map (\<lambda>(name, field, unit). inverterSunSpecPoint name field SunSpecTypeFloat32 2 unit '''')
     [(''A'', ''inverter.ac.current.total'', ''A''),
      (''AphA'', ''inverter.ac.current.phase_a'', ''A''),
      (''AphB'', ''inverter.ac.current.phase_b'', ''A''),
      (''AphC'', ''inverter.ac.current.phase_c'', ''A''),
      (''PPVphAB'', ''inverter.ac.voltage.line_ab'', ''V''),
      (''PPVphBC'', ''inverter.ac.voltage.line_bc'', ''V''),
      (''PPVphCA'', ''inverter.ac.voltage.line_ca'', ''V''),
      (''PhVphA'', ''inverter.ac.voltage.phase_a'', ''V''),
      (''PhVphB'', ''inverter.ac.voltage.phase_b'', ''V''),
      (''PhVphC'', ''inverter.ac.voltage.phase_c'', ''V''),
      (''W'', ''inverter.ac.power.active'', ''W''), (''Hz'', ''inverter.ac.frequency'', ''Hz''),
      (''VA'', ''inverter.ac.power.apparent'', ''VA''),
      (''VAr'', ''inverter.ac.power.reactive'', ''var''),
      (''PF'', ''inverter.ac.power_factor'', ''Pct''),
      (''WH'', ''inverter.ac.energy_lifetime'', ''Wh''), (''DCA'', ''inverter.dc.current'', ''A''),
      (''DCV'', ''inverter.dc.voltage'', ''V''), (''DCW'', ''inverter.dc.power'', ''W''),
      (''TmpCab'', ''inverter.temperature.cabinet'', ''C''),
      (''TmpSnk'', ''inverter.temperature.heatsink'', ''C''),
      (''TmpTrns'', ''inverter.temperature.transformer'', ''C''),
      (''TmpOt'', ''inverter.temperature.other'', ''C'')]
     @ [inverterSunSpecEnumPoint ''St'' ''inverter.operating_state'' statusSymbols,
      inverterSunSpecEnumPoint ''StVnd'' ''inverter.vendor_state'' [],
      inverterSunSpecBitfieldPoint ''Evt1'' ''inverter.events.1'' inverterEvent1Symbols,
      inverterSunSpecBitfieldPoint ''Evt2'' ''inverter.events.2'' [],
      inverterSunSpecBitfieldPoint ''EvtVnd1'' ''inverter.vendor_events.1'' [],
      inverterSunSpecBitfieldPoint ''EvtVnd2'' ''inverter.vendor_events.2'' [],
      inverterSunSpecBitfieldPoint ''EvtVnd3'' ''inverter.vendor_events.3'' [],
      inverterSunSpecBitfieldPoint ''EvtVnd4'' ''inverter.vendor_events.4'' []]"

definition inverterMandatoryNames :: "u16 \<Rightarrow> string list" where
  "inverterMandatoryNames modelID = (case map_of
     [(101, [''ID'', ''L'', ''A'', ''AphA'', ''A_SF'', ''PhVphA'', ''V_SF'', ''W'', ''W_SF'', ''Hz'',
            ''Hz_SF'', ''WH'', ''WH_SF'', ''TmpCab'', ''Tmp_SF'', ''St'', ''Evt1'', ''Evt2'']),
      (102, [''ID'', ''L'', ''A'', ''AphA'', ''AphB'', ''A_SF'', ''PhVphA'', ''PhVphB'', ''V_SF'',
            ''W'', ''W_SF'', ''Hz'', ''Hz_SF'', ''WH'', ''WH_SF'', ''TmpCab'', ''Tmp_SF'', ''St'',
            ''Evt1'', ''Evt2'']),
      (103, [''ID'', ''L'', ''A'', ''AphA'', ''AphB'', ''AphC'', ''A_SF'', ''PhVphA'', ''PhVphB'',
            ''PhVphC'', ''V_SF'', ''W'', ''W_SF'', ''Hz'', ''Hz_SF'', ''WH'', ''WH_SF'', ''TmpCab'',
            ''Tmp_SF'', ''St'', ''Evt1'', ''Evt2'']),
      (111, [''ID'', ''L'', ''A'', ''AphA'', ''PhVphA'', ''W'', ''Hz'', ''WH'', ''TmpCab'', ''St'',
            ''Evt1'', ''Evt2'']),
      (112, [''ID'', ''L'', ''A'', ''AphA'', ''AphB'', ''PhVphA'', ''PhVphB'', ''W'', ''Hz'', ''WH'',
            ''TmpCab'', ''St'', ''Evt1'', ''Evt2'']),
      (113, [''ID'', ''L'', ''A'', ''AphA'', ''AphB'', ''AphC'', ''PhVphA'', ''PhVphB'', ''PhVphC'',
            ''W'', ''Hz'', ''WH'', ''TmpCab'', ''St'', ''Evt1'', ''Evt2''])] modelID of
       None \<Rightarrow> [] | Some names \<Rightarrow> names)"

definition sunSpecPointMandatory :: "u16 \<Rightarrow> string \<Rightarrow> bool" where
  "sunSpecPointMandatory modelID name \<longleftrightarrow> name \<in> set (inverterMandatoryNames modelID)"

text \<open>The loop of the V1 catalogue that marks the mandatory points of an inverter model.\<close>

definition mark_mandatory :: "(string \<Rightarrow> bool) \<Rightarrow> point_definition list \<Rightarrow> point_definition list" where
  "mark_mandatory mandatory points = map (\<lambda>p. p\<lparr>pdMandatory := mandatory (pdName p),
     pdRequired := (mandatory (pdName p) \<and> pdName p \<noteq> ''ID'' \<and> pdName p \<noteq> ''L''
       \<and> pdType p \<noteq> SunSpecTypeScaleFactor)\<rparr>) points"

section \<open>Ratings, settings, status, controls and storage\<close>

definition nameplateSunSpecPoints :: "point_definition list" where
  "nameplateSunSpecPoints =
     [extendedSunSpecPoint ''ID'' '''' SunSpecTypeUint16 1 '''' '''' True,
      extendedSunSpecPoint ''L'' '''' SunSpecTypeUint16 1 '''' '''' True,
      extendedSunSpecEnum ''DERTyp'' ''der.type'' True [(4, ''PV''), (82, ''PV_STOR'')],
      extendedSunSpecPoint ''WRtg'' ''der.rating.active_power'' SunSpecTypeUint16 1 ''W'' ''WRtg_SF'' True,
      extendedSunSpecPoint ''WRtg_SF'' ''der.scale.active_power_rating'' SunSpecTypeScaleFactor 1 '''' '''' True,
      extendedSunSpecPoint ''VARtg'' ''der.rating.apparent_power'' SunSpecTypeUint16 1 ''VA'' ''VARtg_SF'' True,
      extendedSunSpecPoint ''VARtg_SF'' ''der.scale.apparent_power_rating'' SunSpecTypeScaleFactor 1 '''' '''' True,
      extendedSunSpecPoint ''VArRtgQ1'' ''der.rating.reactive_power.q1'' SunSpecTypeInt16 1 ''var'' ''VArRtg_SF'' True,
      extendedSunSpecPoint ''VArRtgQ2'' ''der.rating.reactive_power.q2'' SunSpecTypeInt16 1 ''var'' ''VArRtg_SF'' True,
      extendedSunSpecPoint ''VArRtgQ3'' ''der.rating.reactive_power.q3'' SunSpecTypeInt16 1 ''var'' ''VArRtg_SF'' True,
      extendedSunSpecPoint ''VArRtgQ4'' ''der.rating.reactive_power.q4'' SunSpecTypeInt16 1 ''var'' ''VArRtg_SF'' True,
      extendedSunSpecPoint ''VArRtg_SF'' ''der.scale.reactive_power_rating'' SunSpecTypeScaleFactor 1 '''' '''' True,
      extendedSunSpecPoint ''ARtg'' ''der.rating.current'' SunSpecTypeUint16 1 ''A'' ''ARtg_SF'' True,
      extendedSunSpecPoint ''ARtg_SF'' ''der.scale.current_rating'' SunSpecTypeScaleFactor 1 '''' '''' True,
      extendedSunSpecPoint ''PFRtgQ1'' ''der.rating.power_factor.q1'' SunSpecTypeInt16 1 ''cos()'' ''PFRtg_SF'' True,
      extendedSunSpecPoint ''PFRtgQ2'' ''der.rating.power_factor.q2'' SunSpecTypeInt16 1 ''cos()'' ''PFRtg_SF'' True,
      extendedSunSpecPoint ''PFRtgQ3'' ''der.rating.power_factor.q3'' SunSpecTypeInt16 1 ''cos()'' ''PFRtg_SF'' True,
      extendedSunSpecPoint ''PFRtgQ4'' ''der.rating.power_factor.q4'' SunSpecTypeInt16 1 ''cos()'' ''PFRtg_SF'' True,
      extendedSunSpecPoint ''PFRtg_SF'' ''der.scale.power_factor_rating'' SunSpecTypeScaleFactor 1 '''' '''' True,
      extendedSunSpecPoint ''WHRtg'' ''storage.rating.energy'' SunSpecTypeUint16 1 ''Wh'' ''WHRtg_SF'' False,
      extendedSunSpecPoint ''WHRtg_SF'' ''storage.scale.energy_rating'' SunSpecTypeScaleFactor 1 '''' '''' False,
      extendedSunSpecPoint ''AhrRtg'' ''storage.rating.charge'' SunSpecTypeUint16 1 ''AH'' ''AhrRtg_SF'' False,
      extendedSunSpecPoint ''AhrRtg_SF'' ''storage.scale.charge_rating'' SunSpecTypeScaleFactor 1 '''' '''' False,
      extendedSunSpecPoint ''MaxChaRte'' ''storage.rating.max_charge_power'' SunSpecTypeUint16 1 ''W'' ''MaxChaRte_SF'' False,
      extendedSunSpecPoint ''MaxChaRte_SF'' ''storage.scale.max_charge_power'' SunSpecTypeScaleFactor 1 '''' '''' False,
      extendedSunSpecPoint ''MaxDisChaRte'' ''storage.rating.max_discharge_power'' SunSpecTypeUint16 1 ''W'' ''MaxDisChaRte_SF'' False,
      extendedSunSpecPoint ''MaxDisChaRte_SF'' ''storage.scale.max_discharge_power'' SunSpecTypeScaleFactor 1 '''' '''' False,
      extendedSunSpecPoint ''Pad'' ''der.pad'' SunSpecTypePad 1 '''' '''' False]"

definition settingsSunSpecPoints :: "point_definition list" where
  "settingsSunSpecPoints =
     [extendedSunSpecPoint ''ID'' '''' SunSpecTypeUint16 1 '''' '''' True,
      extendedSunSpecPoint ''L'' '''' SunSpecTypeUint16 1 '''' '''' True,
      extendedSunSpecPoint ''WMax'' ''der.settings.max_active_power'' SunSpecTypeUint16 1 ''W'' ''WMax_SF'' True,
      extendedSunSpecPoint ''VRef'' ''der.settings.reference_voltage'' SunSpecTypeUint16 1 ''V'' ''VRef_SF'' True,
      extendedSunSpecPoint ''VRefOfs'' ''der.settings.reference_voltage_offset'' SunSpecTypeInt16 1 ''V'' ''VRefOfs_SF'' True]
     @ map (\<lambda>(name, field, typ, unit, sf). extendedSunSpecPoint name field typ 1 unit sf False)
     [(''VMax'', ''der.settings.max_voltage'', SunSpecTypeUint16, ''V'', ''VMinMax_SF''),
      (''VMin'', ''der.settings.min_voltage'', SunSpecTypeUint16, ''V'', ''VMinMax_SF''),
      (''VAMax'', ''der.settings.max_apparent_power'', SunSpecTypeUint16, ''VA'', ''VAMax_SF''),
      (''VArMaxQ1'', ''der.settings.max_reactive_power.q1'', SunSpecTypeInt16, ''var'', ''VArMax_SF''),
      (''VArMaxQ2'', ''der.settings.max_reactive_power.q2'', SunSpecTypeInt16, ''var'', ''VArMax_SF''),
      (''VArMaxQ3'', ''der.settings.max_reactive_power.q3'', SunSpecTypeInt16, ''var'', ''VArMax_SF''),
      (''VArMaxQ4'', ''der.settings.max_reactive_power.q4'', SunSpecTypeInt16, ''var'', ''VArMax_SF''),
      (''WGra'', ''der.settings.active_power_gradient'', SunSpecTypeUint16, ''% WMax/sec'', ''WGra_SF''),
      (''PFMinQ1'', ''der.settings.min_power_factor.q1'', SunSpecTypeInt16, ''cos()'', ''PFMin_SF''),
      (''PFMinQ2'', ''der.settings.min_power_factor.q2'', SunSpecTypeInt16, ''cos()'', ''PFMin_SF''),
      (''PFMinQ3'', ''der.settings.min_power_factor.q3'', SunSpecTypeInt16, ''cos()'', ''PFMin_SF''),
      (''PFMinQ4'', ''der.settings.min_power_factor.q4'', SunSpecTypeInt16, ''cos()'', ''PFMin_SF'')]
     @ [extendedSunSpecEnum ''VArAct'' ''der.settings.reactive_power_action'' False [(1, ''SWITCH''), (2, ''MAINTAIN'')],
      extendedSunSpecEnum ''ClcTotVA'' ''der.settings.apparent_power_calculation'' False [(1, ''VECTOR''), (2, ''ARITHMETIC'')],
      extendedSunSpecPoint ''MaxRmpRte'' ''der.settings.max_ramp_rate'' SunSpecTypeUint16 1 ''% WGra'' ''MaxRmpRte_SF'' False,
      extendedSunSpecPoint ''ECPNomHz'' ''der.settings.nominal_frequency'' SunSpecTypeUint16 1 ''Hz'' ''ECPNomHz_SF'' False,
      extendedSunSpecEnum ''ConnPh'' ''der.settings.connected_phase'' False [(1, ''A''), (2, ''B''), (3, ''C'')]]
     @ map (\<lambda>(name, field, mandatory).
         extendedSunSpecPoint name field SunSpecTypeScaleFactor 1 '''' '''' mandatory)
     [(''WMax_SF'', ''der.scale.max_active_power'', True),
      (''VRef_SF'', ''der.scale.reference_voltage'', True),
      (''VRefOfs_SF'', ''der.scale.reference_voltage_offset'', True),
      (''VMinMax_SF'', ''der.scale.voltage_bounds'', False),
      (''VAMax_SF'', ''der.scale.max_apparent_power'', False),
      (''VArMax_SF'', ''der.scale.max_reactive_power'', False),
      (''WGra_SF'', ''der.scale.active_power_gradient'', False),
      (''PFMin_SF'', ''der.scale.min_power_factor'', False),
      (''MaxRmpRte_SF'', ''der.scale.max_ramp_rate'', False),
      (''ECPNomHz_SF'', ''der.scale.nominal_frequency'', False)]"

definition connection_symbols :: symbols where
  "connection_symbols =
     [(0, ''CONNECTED''), (1, ''AVAILABLE''), (2, ''OPERATING''), (3, ''TEST'')]"

definition statusSunSpecPoints :: "point_definition list" where
  "statusSunSpecPoints =
     [extendedSunSpecPoint ''ID'' '''' SunSpecTypeUint16 1 '''' '''' True,
      extendedSunSpecPoint ''L'' '''' SunSpecTypeUint16 1 '''' '''' True,
      extendedSunSpecBitfield ''PVConn'' ''der.status.pv_connection'' SunSpecTypeBitfield16 True connection_symbols,
      extendedSunSpecBitfield ''StorConn'' ''der.status.storage_connection'' SunSpecTypeBitfield16 True connection_symbols,
      extendedSunSpecBitfield ''ECPConn'' ''der.status.ecp_connection'' SunSpecTypeBitfield16 True [(0, ''DISCONNECTED''), (1, ''CONNECTED'')],
      extendedSunSpecPoint ''ActWh'' ''der.status.active_energy'' SunSpecTypeAccumulator64 4 ''Wh'' '''' False,
      extendedSunSpecPoint ''ActVAh'' ''der.status.apparent_energy'' SunSpecTypeAccumulator64 4 ''VAh'' '''' False,
      extendedSunSpecPoint ''ActVArhQ1'' ''der.status.reactive_energy.q1'' SunSpecTypeAccumulator64 4 ''varh'' '''' False,
      extendedSunSpecPoint ''ActVArhQ2'' ''der.status.reactive_energy.q2'' SunSpecTypeAccumulator64 4 ''varh'' '''' False,
      extendedSunSpecPoint ''ActVArhQ3'' ''der.status.reactive_energy.q3'' SunSpecTypeAccumulator64 4 ''varh'' '''' False,
      extendedSunSpecPoint ''ActVArhQ4'' ''der.status.reactive_energy.q4'' SunSpecTypeAccumulator64 4 ''varh'' '''' False,
      extendedSunSpecPoint ''VArAval'' ''der.status.available_reactive_power'' SunSpecTypeInt16 1 ''var'' ''VArAval_SF'' False,
      extendedSunSpecPoint ''VArAval_SF'' ''der.scale.available_reactive_power'' SunSpecTypeScaleFactor 1 '''' '''' False,
      extendedSunSpecPoint ''WAval'' ''der.status.available_active_power'' SunSpecTypeUint16 1 ''var'' ''WAval_SF'' False,
      extendedSunSpecPoint ''WAval_SF'' ''der.scale.available_active_power'' SunSpecTypeScaleFactor 1 '''' '''' False,
      extendedSunSpecBitfield ''StSetLimMsk'' ''der.status.limit_mask'' SunSpecTypeBitfield32 False (numberedSymbols [''WMax'', ''VAMax'', ''VArAval'', ''VArMaxQ1'', ''VArMaxQ2'', ''VArMaxQ3'', ''VArMaxQ4'', ''PFMinQ1'', ''PFMinQ2'', ''PFMinQ3'', ''PFMinQ4'']),
      extendedSunSpecBitfield ''StActCtl'' ''der.status.active_controls'' SunSpecTypeBitfield32 False [(0, ''FixedW''), (1, ''FixedVAR''), (2, ''FixedPF''), (3, ''Volt-VAr''), (4, ''Freq-Watt-Param''), (5, ''Freq-Watt-Curve''), (6, ''Dyn-Reactive-Current''), (7, ''LVRT''), (8, ''HVRT''), (9, ''Watt-PF''), (10, ''Volt-Watt''), (12, ''Scheduled''), (13, ''LFRT''), (14, ''HFRT'')],
      extendedSunSpecPoint ''TmSrc'' ''der.status.time_source'' SunSpecTypeString 4 '''' '''' False,
      extendedSunSpecPoint ''Tms'' ''der.status.timestamp'' SunSpecTypeUint32 2 ''Secs'' '''' False,
      extendedSunSpecBitfield ''RtSt'' ''der.status.ride_through'' SunSpecTypeBitfield16 False (numberedSymbols [''LVRT_ACTIVE'', ''HVRT_ACTIVE'', ''LFRT_ACTIVE'', ''HFRT_ACTIVE'']),
      extendedSunSpecPoint ''Ris'' ''der.status.insulation_resistance'' SunSpecTypeUint16 1 ''ohms'' ''Ris_SF'' False,
      extendedSunSpecPoint ''Ris_SF'' ''der.scale.insulation_resistance'' SunSpecTypeScaleFactor 1 '''' '''' False]"

definition storageSunSpecPoints :: "point_definition list" where
  "storageSunSpecPoints =
     [extendedSunSpecPoint ''ID'' '''' SunSpecTypeUint16 1 '''' '''' True,
      extendedSunSpecPoint ''L'' '''' SunSpecTypeUint16 1 '''' '''' True,
      extendedSunSpecPoint ''WChaMax'' ''storage.control.max_charge_power'' SunSpecTypeUint16 1 ''W'' ''WChaMax_SF'' True,
      extendedSunSpecPoint ''WChaGra'' ''storage.control.charge_gradient'' SunSpecTypeUint16 1 ''% WChaMax/sec'' ''WChaDisChaGra_SF'' True,
      extendedSunSpecPoint ''WDisChaGra'' ''storage.control.discharge_gradient'' SunSpecTypeUint16 1 ''% WChaMax/sec'' ''WChaDisChaGra_SF'' True,
      extendedSunSpecBitfield ''StorCtl_Mod'' ''storage.control.mode'' SunSpecTypeBitfield16 True [(0, ''CHARGE''), (1, ''DiSCHARGE'')],
      extendedSunSpecPoint ''VAChaMax'' ''storage.control.max_charge_apparent_power'' SunSpecTypeUint16 1 ''VA'' ''VAChaMax_SF'' False,
      extendedSunSpecPoint ''MinRsvPct'' ''storage.control.minimum_reserve'' SunSpecTypeUint16 1 ''% WChaMax'' ''MinRsvPct_SF'' False,
      extendedSunSpecPoint ''ChaState'' ''storage.status.state_of_charge'' SunSpecTypeUint16 1 ''% AhrRtg'' ''ChaState_SF'' False,
      extendedSunSpecPoint ''StorAval'' ''storage.status.available_charge'' SunSpecTypeUint16 1 ''AH'' ''StorAval_SF'' False,
      extendedSunSpecPoint ''InBatV'' ''storage.status.internal_battery_voltage'' SunSpecTypeUint16 1 ''V'' ''InBatV_SF'' False,
      extendedSunSpecEnum ''ChaSt'' ''storage.status.charge_state'' False [(1, ''OFF''), (2, ''EMPTY''), (3, ''DISCHARGING''), (4, ''CHARGING''), (5, ''FULL''), (6, ''HOLDING''), (7, ''TESTING'')],
      extendedSunSpecPoint ''OutWRte'' ''storage.control.discharge_rate'' SunSpecTypeInt16 1 ''% WDisChaMax'' ''InOutWRte_SF'' False,
      extendedSunSpecPoint ''InWRte'' ''storage.control.charge_rate'' SunSpecTypeInt16 1 '' % WChaMax'' ''InOutWRte_SF'' False,
      extendedSunSpecPoint ''InOutWRte_WinTms'' ''storage.control.rate_window'' SunSpecTypeUint16 1 ''Secs'' '''' False,
      extendedSunSpecPoint ''InOutWRte_RvrtTms'' ''storage.control.rate_revert'' SunSpecTypeUint16 1 ''Secs'' '''' False,
      extendedSunSpecPoint ''InOutWRte_RmpTms'' ''storage.control.rate_ramp'' SunSpecTypeUint16 1 ''Secs'' '''' False,
      extendedSunSpecEnum ''ChaGriSet'' ''storage.control.charge_source'' False [(0, ''PV''), (1, ''GRID'')],
      extendedSunSpecPoint ''WChaMax_SF'' ''storage.scale.max_charge_power'' SunSpecTypeScaleFactor 1 '''' '''' True,
      extendedSunSpecPoint ''WChaDisChaGra_SF'' ''storage.scale.charge_discharge_gradient'' SunSpecTypeScaleFactor 1 '''' '''' True,
      extendedSunSpecPoint ''VAChaMax_SF'' ''storage.scale.max_charge_apparent_power'' SunSpecTypeScaleFactor 1 '''' '''' False,
      extendedSunSpecPoint ''MinRsvPct_SF'' ''storage.scale.minimum_reserve'' SunSpecTypeScaleFactor 1 '''' '''' False,
      extendedSunSpecPoint ''ChaState_SF'' ''storage.scale.state_of_charge'' SunSpecTypeScaleFactor 1 '''' '''' False,
      extendedSunSpecPoint ''StorAval_SF'' ''storage.scale.available_charge'' SunSpecTypeScaleFactor 1 '''' '''' False,
      extendedSunSpecPoint ''InBatV_SF'' ''storage.scale.internal_battery_voltage'' SunSpecTypeScaleFactor 1 '''' '''' False,
      extendedSunSpecPoint ''InOutWRte_SF'' ''storage.scale.charge_discharge_rate'' SunSpecTypeScaleFactor 1 '''' '''' False]"

definition immediateControlsSunSpecPoints :: "point_definition list" where
  "immediateControlsSunSpecPoints =
     [extendedSunSpecPoint ''ID'' '''' SunSpecTypeUint16 1 '''' '''' True,
      extendedSunSpecPoint ''L'' '''' SunSpecTypeUint16 1 '''' '''' True,
      extendedSunSpecPoint ''Conn_WinTms'' ''der.control.connection.window_seconds'' SunSpecTypeUint16 1 ''Secs'' '''' False,
      extendedSunSpecPoint ''Conn_RvrtTms'' ''der.control.connection.revert_seconds'' SunSpecTypeUint16 1 ''Secs'' '''' False,
      extendedSunSpecEnum ''Conn'' ''der.control.connection.command'' True [(0, ''DISCONNECT''), (1, ''CONNECT'')],
      extendedSunSpecPoint ''WMaxLimPct'' ''der.control.active_power_limit.percent'' SunSpecTypeUint16 1 ''% WMax'' ''WMaxLimPct_SF'' True,
      extendedSunSpecPoint ''WMaxLimPct_WinTms'' ''der.control.active_power_limit.window_seconds'' SunSpecTypeUint16 1 ''Secs'' '''' False,
      extendedSunSpecPoint ''WMaxLimPct_RvrtTms'' ''der.control.active_power_limit.revert_seconds'' SunSpecTypeUint16 1 ''Secs'' '''' False,
      extendedSunSpecPoint ''WMaxLimPct_RmpTms'' ''der.control.active_power_limit.ramp_seconds'' SunSpecTypeUint16 1 ''Secs'' '''' False,
      extendedSunSpecEnum ''WMaxLim_Ena'' ''der.control.active_power_limit.enabled'' True [(0, ''DISABLED''), (1, ''ENABLED'')],
      extendedSunSpecPoint ''OutPFSet'' ''der.control.power_factor.setpoint'' SunSpecTypeInt16 1 ''cos()'' ''OutPFSet_SF'' True,
      extendedSunSpecPoint ''OutPFSet_WinTms'' ''der.control.power_factor.window_seconds'' SunSpecTypeUint16 1 ''Secs'' '''' False,
      extendedSunSpecPoint ''OutPFSet_RvrtTms'' ''der.control.power_factor.revert_seconds'' SunSpecTypeUint16 1 ''Secs'' '''' False,
      extendedSunSpecPoint ''OutPFSet_RmpTms'' ''der.control.power_factor.ramp_seconds'' SunSpecTypeUint16 1 ''Secs'' '''' False,
      extendedSunSpecEnum ''OutPFSet_Ena'' ''der.control.power_factor.enabled'' True [(0, ''DISABLED''), (1, ''ENABLED'')],
      extendedSunSpecPoint ''VArWMaxPct'' ''der.control.reactive_power.percent_wmax'' SunSpecTypeInt16 1 ''% WMax'' ''VArPct_SF'' False,
      extendedSunSpecPoint ''VArMaxPct'' ''der.control.reactive_power.percent_var_max'' SunSpecTypeInt16 1 ''% VArMax'' ''VArPct_SF'' False,
      extendedSunSpecPoint ''VArAvalPct'' ''der.control.reactive_power.percent_var_available'' SunSpecTypeInt16 1 ''% VArAval'' ''VArPct_SF'' False,
      extendedSunSpecPoint ''VArPct_WinTms'' ''der.control.reactive_power.window_seconds'' SunSpecTypeUint16 1 ''Secs'' '''' False,
      extendedSunSpecPoint ''VArPct_RvrtTms'' ''der.control.reactive_power.revert_seconds'' SunSpecTypeUint16 1 ''Secs'' '''' False,
      extendedSunSpecPoint ''VArPct_RmpTms'' ''der.control.reactive_power.ramp_seconds'' SunSpecTypeUint16 1 ''Secs'' '''' False,
      extendedSunSpecEnum ''VArPct_Mod'' ''der.control.reactive_power.mode'' False [(0, ''NONE''), (1, ''WMax''), (2, ''VArMax''), (3, ''VArAval'')],
      extendedSunSpecEnum ''VArPct_Ena'' ''der.control.reactive_power.enabled'' True [(0, ''DISABLED''), (1, ''ENABLED'')],
      extendedSunSpecPoint ''WMaxLimPct_SF'' ''der.control.scale.active_power_limit'' SunSpecTypeScaleFactor 1 '''' '''' True,
      extendedSunSpecPoint ''OutPFSet_SF'' ''der.control.scale.power_factor'' SunSpecTypeScaleFactor 1 '''' '''' True,
      extendedSunSpecPoint ''VArPct_SF'' ''der.control.scale.reactive_power'' SunSpecTypeScaleFactor 1 '''' '''' False]"

section \<open>Meters\<close>

definition meter_fields :: "(string \<times> string) list" where
  "meter_fields =
     [(''A'', ''meter.ac.current.total''), (''AphA'', ''meter.ac.current.phase_a''),
      (''AphB'', ''meter.ac.current.phase_b''), (''AphC'', ''meter.ac.current.phase_c''),
      (''A_SF'', ''meter.scale.current''), (''PhV'', ''meter.ac.voltage.line_neutral.average''),
      (''PhVphA'', ''meter.ac.voltage.line_neutral.phase_a''),
      (''PhVphB'', ''meter.ac.voltage.line_neutral.phase_b''),
      (''PhVphC'', ''meter.ac.voltage.line_neutral.phase_c''),
      (''PPV'', ''meter.ac.voltage.line_line.average''),
      (''PPVphAB'', ''meter.ac.voltage.line_line.ab''),
      (''PPVphBC'', ''meter.ac.voltage.line_line.bc''),
      (''PPVphCA'', ''meter.ac.voltage.line_line.ca''),
      (''PhVphAB'', ''meter.ac.voltage.line_line.ab''),
      (''PhVphBC'', ''meter.ac.voltage.line_line.bc''),
      (''PhVphCA'', ''meter.ac.voltage.line_line.ca''), (''V_SF'', ''meter.scale.voltage''),
      (''Hz'', ''meter.ac.frequency''), (''Hz_SF'', ''meter.scale.frequency''),
      (''W'', ''meter.ac.power.active.total''), (''WphA'', ''meter.ac.power.active.phase_a''),
      (''WphB'', ''meter.ac.power.active.phase_b''), (''WphC'', ''meter.ac.power.active.phase_c''),
      (''W_SF'', ''meter.scale.active_power''), (''VA'', ''meter.ac.power.apparent.total''),
      (''VAphA'', ''meter.ac.power.apparent.phase_a''),
      (''VAphB'', ''meter.ac.power.apparent.phase_b''),
      (''VAphC'', ''meter.ac.power.apparent.phase_c''), (''VA_SF'', ''meter.scale.apparent_power''),
      (''VAR'', ''meter.ac.power.reactive.total''),
      (''VARphA'', ''meter.ac.power.reactive.phase_a''),
      (''VARphB'', ''meter.ac.power.reactive.phase_b''),
      (''VARphC'', ''meter.ac.power.reactive.phase_c''),
      (''VAR_SF'', ''meter.scale.reactive_power''), (''PF'', ''meter.ac.power_factor.total''),
      (''PFphA'', ''meter.ac.power_factor.phase_a''),
      (''PFphB'', ''meter.ac.power_factor.phase_b''),
      (''PFphC'', ''meter.ac.power_factor.phase_c''), (''PF_SF'', ''meter.scale.power_factor''),
      (''TotWhExp'', ''meter.energy.export.total''), (''TotWhImp'', ''meter.energy.import.total''),
      (''TotWh_SF'', ''meter.scale.active_energy''),
      (''TotVAhExp'', ''meter.energy.apparent_export.total''),
      (''TotVAhImp'', ''meter.energy.apparent_import.total''),
      (''TotVAh_SF'', ''meter.scale.apparent_energy''),
      (''TotVArhImpQ1'', ''meter.energy.reactive_import.q1.total''),
      (''TotVArhImpQ2'', ''meter.energy.reactive_import.q2.total''),
      (''TotVArhExpQ3'', ''meter.energy.reactive_export.q3.total''),
      (''TotVArhExpQ4'', ''meter.energy.reactive_export.q4.total''),
      (''TotVArh_SF'', ''meter.scale.reactive_energy''), (''Evt'', ''meter.events'')]"

definition meter_phase_fields :: "(string \<times> string) list" where
  "meter_phase_fields =
     [(''TotWhExpPhA'', ''meter.energy.export.phase_a''),
      (''TotWhExpPhB'', ''meter.energy.export.phase_b''),
      (''TotWhExpPhC'', ''meter.energy.export.phase_c''),
      (''TotWhImpPhA'', ''meter.energy.import.phase_a''),
      (''TotWhImpPhB'', ''meter.energy.import.phase_b''),
      (''TotWhImpPhC'', ''meter.energy.import.phase_c''),
      (''TotVAhExpPhA'', ''meter.energy.apparent_export.phase_a''),
      (''TotVAhExpPhB'', ''meter.energy.apparent_export.phase_b''),
      (''TotVAhExpPhC'', ''meter.energy.apparent_export.phase_c''),
      (''TotVAhImpPhA'', ''meter.energy.apparent_import.phase_a''),
      (''TotVAhImpPhB'', ''meter.energy.apparent_import.phase_b''),
      (''TotVAhImpPhC'', ''meter.energy.apparent_import.phase_c''),
      (''TotVArhImpQ1PhA'', ''meter.energy.reactive_import.q1.phase_a''),
      (''TotVArhImpQ1PhB'', ''meter.energy.reactive_import.q1.phase_b''),
      (''TotVArhImpQ1PhC'', ''meter.energy.reactive_import.q1.phase_c''),
      (''TotVArhImpQ2PhA'', ''meter.energy.reactive_import.q2.phase_a''),
      (''TotVArhImpQ2PhB'', ''meter.energy.reactive_import.q2.phase_b''),
      (''TotVArhImpQ2PhC'', ''meter.energy.reactive_import.q2.phase_c''),
      (''TotVArhExpQ3PhA'', ''meter.energy.reactive_export.q3.phase_a''),
      (''TotVArhExpQ3PhB'', ''meter.energy.reactive_export.q3.phase_b''),
      (''TotVArhExpQ3PhC'', ''meter.energy.reactive_export.q3.phase_c''),
      (''TotVArhExpQ4PhA'', ''meter.energy.reactive_export.q4.phase_a''),
      (''TotVArhExpQ4PhB'', ''meter.energy.reactive_export.q4.phase_b''),
      (''TotVArhExpQ4PhC'', ''meter.energy.reactive_export.q4.phase_c''),
      (''TotVArhImpQ1phA'', ''meter.energy.reactive_import.q1.phase_a''),
      (''TotVArhImpQ1phB'', ''meter.energy.reactive_import.q1.phase_b''),
      (''TotVArhImpQ1phC'', ''meter.energy.reactive_import.q1.phase_c''),
      (''TotVArhImpQ2phA'', ''meter.energy.reactive_import.q2.phase_a''),
      (''TotVArhImpQ2phB'', ''meter.energy.reactive_import.q2.phase_b''),
      (''TotVArhImpQ2phC'', ''meter.energy.reactive_import.q2.phase_c''),
      (''TotVArhExpQ3phA'', ''meter.energy.reactive_export.q3.phase_a''),
      (''TotVArhExpQ3phB'', ''meter.energy.reactive_export.q3.phase_b''),
      (''TotVArhExpQ3phC'', ''meter.energy.reactive_export.q3.phase_c''),
      (''TotVArhExpQ4phA'', ''meter.energy.reactive_export.q4.phase_a''),
      (''TotVArhExpQ4phB'', ''meter.energy.reactive_export.q4.phase_b''),
      (''TotVArhExpQ4phC'', ''meter.energy.reactive_export.q4.phase_c'')]"

definition meterFieldID :: "string \<Rightarrow> string" where
  "meterFieldID name =
     (case map_of meter_fields name of
        Some field \<Rightarrow> field
      | None \<Rightarrow> (case map_of meter_phase_fields name of
            Some field \<Rightarrow> field
          | None \<Rightarrow> ''meter.point.'' @ name))"

definition twoDigitMeterSymbol :: "nat \<Rightarrow> string" where
  "twoDigitMeterSymbol v =
     (if v < 10 then [CHR ''0'', char_of (48 + v)] else [char_of (48 + v div 10), char_of (48 + v mod 10)])"

definition meterEventSymbols :: "u16 \<Rightarrow> symbols" where
  "meterEventSymbols modelID =
     (let prefix = (if modelID = 201 then '''' else ''M_EVENT_'') in
      [(2, prefix @ ''Power_Failure''), (3, prefix @ ''Under_Voltage''), (4, prefix @ ''Low_PF''),
       (5, prefix @ ''Over_Current''), (6, prefix @ ''Over_Voltage''), (7, prefix @ ''Missing_Sensor'')]
      @ (if modelID \<noteq> 201
         then map (\<lambda>b. (of_nat b, ''M_EVENT_Reserved'' @ [char_of (48 + b - 7)])) [8..<16] else [])
      @ map (\<lambda>b. (of_nat b, prefix @ ''OEM'' @ twoDigitMeterSymbol (b - 15))) [16..<31])"

definition meterMandatoryPoints :: "u16 \<Rightarrow> string list" where
  "meterMandatoryPoints modelID = (case map_of
     [(201, [''ID'', ''L'', ''A'', ''AphA'', ''A_SF'', ''V_SF'', ''Hz'', ''W'', ''W_SF'',
            ''TotWhExp'', ''TotWhImp'', ''TotWh_SF'', ''Evt'']),
      (202, [''ID'', ''L'', ''A'', ''AphB'', ''AphC'', ''A_SF'', ''PhV'', ''PhVphA'', ''PhVphB'',
            ''PPV'', ''PhVphAB'', ''V_SF'', ''Hz'', ''W'', ''W_SF'', ''TotWhExp'', ''TotWhImp'',
            ''TotWh_SF'', ''Evt'']),
      (203, [''ID'', ''L'', ''A'', ''AphA'', ''AphB'', ''AphC'', ''A_SF'', ''PhV'', ''PhVphA'',
            ''PhVphB'', ''PhVphC'', ''PPV'', ''PhVphAB'', ''PhVphBC'', ''PhVphCA'', ''V_SF'',
            ''Hz'', ''W'', ''W_SF'', ''TotWhExp'', ''TotWhImp'', ''TotWh_SF'', ''Evt'']),
      (204, [''ID'', ''L'', ''A'', ''AphA'', ''AphB'', ''AphC'', ''A_SF'', ''PPV'', ''PhVphAB'',
            ''PhVphBC'', ''PhVphCA'', ''V_SF'', ''Hz'', ''W'', ''W_SF'', ''TotWhExp'', ''TotWhImp'',
            ''TotWh_SF'', ''Evt'']),
      (211, [''ID'', ''L'', ''A'', ''AphA'', ''Hz'', ''W'', ''TotWhExp'', ''TotWhImp'', ''Evt'']),
      (212, [''ID'', ''L'', ''A'', ''AphA'', ''AphB'', ''PhV'', ''PhVphA'', ''PhVphB'', ''PPV'',
            ''PPVphAB'', ''Hz'', ''W'', ''TotWhExp'', ''TotWhImp'', ''Evt'']),
      (213, [''ID'', ''L'', ''A'', ''AphA'', ''AphB'', ''AphC'', ''PhV'', ''PhVphA'', ''PhVphB'',
            ''PhVphC'', ''PPV'', ''PPVphAB'', ''PPVphBC'', ''PPVphCA'', ''Hz'', ''W'', ''TotWhExp'',
            ''TotWhImp'', ''Evt'']),
      (214, [''ID'', ''L'', ''A'', ''AphA'', ''AphB'', ''AphC'', ''PPV'', ''PPVphAB'', ''PPVphBC'',
            ''PPVphCA'', ''Hz'', ''W'', ''TotWhExp'', ''TotWhImp'', ''Evt''])] modelID of
       None \<Rightarrow> [] | Some names \<Rightarrow> names)"

definition markMeterMandatory :: "point_definition list \<Rightarrow> u16 \<Rightarrow> point_definition list" where
  "markMeterMandatory points modelID =
     mark_mandatory (\<lambda>name. name \<in> set (meterMandatoryPoints modelID)) points"

definition meterHeaderSunSpecPoints :: "point_definition list" where
  "meterHeaderSunSpecPoints =
     [extendedSunSpecPoint ''ID'' '''' SunSpecTypeUint16 1 '''' '''' True,
      extendedSunSpecPoint ''L'' '''' SunSpecTypeUint16 1 '''' '''' True]"

definition appendMeterPoints :: "point_definition list \<Rightarrow> string list \<Rightarrow> point_type \<Rightarrow> u16 \<Rightarrow> string
    \<Rightarrow> string \<Rightarrow> point_definition list" where
  "appendMeterPoints points names t words unit scale =
     points @ map (\<lambda>name. extendedSunSpecPoint name (meterFieldID name) t words unit scale False) names"

text \<open>One group of a meter followed by its scale factor.\<close>

definition meter_group :: "point_type \<Rightarrow> u16 \<Rightarrow> string list \<times> string \<times> string \<Rightarrow> point_definition list
    \<Rightarrow> point_definition list" where
  "meter_group t words g points = (case g of (names, unit, scale) \<Rightarrow>
     appendMeterPoints points names t words unit scale
     @ [extendedSunSpecPoint scale (meterFieldID scale) SunSpecTypeScaleFactor 1 '''' '''' False])"

definition meter_power_groups :: "(string list \<times> string \<times> string) list" where
  "meter_power_groups =
     [([''W'', ''WphA'', ''WphB'', ''WphC''], ''W'', ''W_SF''),
      ([''VA'', ''VAphA'', ''VAphB'', ''VAphC''], ''VA'', ''VA_SF''),
      ([''VAR'', ''VARphA'', ''VARphB'', ''VARphC''], ''var'', ''VAR_SF''),
      ([''PF'', ''PFphA'', ''PFphB'', ''PFphC''], ''Pct'', ''PF_SF'')]"

definition meter_energy_groups :: "(string list \<times> string \<times> string) list" where
  "meter_energy_groups =
     [([''TotWhExp'', ''TotWhExpPhA'', ''TotWhExpPhB'', ''TotWhExpPhC'', ''TotWhImp'', ''TotWhImpPhA'', ''TotWhImpPhB'', ''TotWhImpPhC''], ''Wh'', ''TotWh_SF''),
      ([''TotVAhExp'', ''TotVAhExpPhA'', ''TotVAhExpPhB'', ''TotVAhExpPhC'', ''TotVAhImp'', ''TotVAhImpPhA'', ''TotVAhImpPhB'', ''TotVAhImpPhC''], ''VAh'', ''TotVAh_SF''),
      ([''TotVArhImpQ1'', ''TotVArhImpQ1PhA'', ''TotVArhImpQ1PhB'', ''TotVArhImpQ1PhC'', ''TotVArhImpQ2'', ''TotVArhImpQ2PhA'', ''TotVArhImpQ2PhB'', ''TotVArhImpQ2PhC'', ''TotVArhExpQ3'', ''TotVArhExpQ3PhA'', ''TotVArhExpQ3PhB'', ''TotVArhExpQ3PhC'', ''TotVArhExpQ4'', ''TotVArhExpQ4PhA'', ''TotVArhExpQ4PhB'', ''TotVArhExpQ4PhC''], ''varh'', ''TotVArh_SF'')]"

definition meter_event_point :: "u16 \<Rightarrow> point_definition" where
  "meter_event_point modelID = extendedSunSpecBitfield ''Evt'' (meterFieldID ''Evt'')
     SunSpecTypeBitfield32 False (meterEventSymbols modelID)"

definition integerMeterSunSpecPoints :: "u16 \<Rightarrow> point_definition list" where
  "integerMeterSunSpecPoints modelID =
     (let points = meter_group SunSpecTypeInt16 1
            ([''A'', ''AphA'', ''AphB'', ''AphC''], ''A'', ''A_SF'') meterHeaderSunSpecPoints;
          points = appendMeterPoints points [''PhV'', ''PhVphA'', ''PhVphB'', ''PhVphC'']
            SunSpecTypeInt16 1 ''V'' ''V_SF'';
          lineNames = (if modelID = 201 then [''PPV'', ''PPVphAB'', ''PPVphBC'', ''PPVphCA'']
            else [''PPV'', ''PhVphAB'', ''PhVphBC'', ''PhVphCA'']);
          points = meter_group SunSpecTypeInt16 1 (lineNames, ''V'', ''V_SF'') points;
          points = meter_group SunSpecTypeInt16 1 ([''Hz''], ''Hz'', ''Hz_SF'') points;
          points = fold (meter_group SunSpecTypeInt16 1) meter_power_groups points;
          points = fold (meter_group SunSpecTypeAccumulator32 2) meter_energy_groups points in
      markMeterMandatory (points @ [meter_event_point modelID]) modelID)"

definition float_meter_groups :: "(string list \<times> string) list" where
  "float_meter_groups =
     [([''A'', ''AphA'', ''AphB'', ''AphC''], ''A''),
      ([''PhV'', ''PhVphA'', ''PhVphB'', ''PhVphC'', ''PPV'', ''PPVphAB'', ''PPVphBC'', ''PPVphCA''], ''V''),
      ([''Hz''], ''Hz''), ([''W'', ''WphA'', ''WphB'', ''WphC''], ''W''),
      ([''VA'', ''VAphA'', ''VAphB'', ''VAphC''], ''VA''),
      ([''VAR'', ''VARphA'', ''VARphB'', ''VARphC''], ''var''),
      ([''PF'', ''PFphA'', ''PFphB'', ''PFphC''], ''PF''),
      ([''TotWhExp'', ''TotWhExpPhA'', ''TotWhExpPhB'', ''TotWhExpPhC'', ''TotWhImp'', ''TotWhImpPhA'', ''TotWhImpPhB'', ''TotWhImpPhC''], ''Wh''),
      ([''TotVAhExp'', ''TotVAhExpPhA'', ''TotVAhExpPhB'', ''TotVAhExpPhC'', ''TotVAhImp'', ''TotVAhImpPhA'', ''TotVAhImpPhB'', ''TotVAhImpPhC''], ''VAh''),
      ([''TotVArhImpQ1'', ''TotVArhImpQ1phA'', ''TotVArhImpQ1phB'', ''TotVArhImpQ1phC'', ''TotVArhImpQ2'', ''TotVArhImpQ2phA'', ''TotVArhImpQ2phB'', ''TotVArhImpQ2phC'', ''TotVArhExpQ3'', ''TotVArhExpQ3phA'', ''TotVArhExpQ3phB'', ''TotVArhExpQ3phC'', ''TotVArhExpQ4'', ''TotVArhExpQ4phA'', ''TotVArhExpQ4phB'', ''TotVArhExpQ4phC''], ''varh'')]"

definition floatMeterSunSpecPoints :: "u16 \<Rightarrow> point_definition list" where
  "floatMeterSunSpecPoints modelID =
     markMeterMandatory
       (fold (\<lambda>(names, unit) points. appendMeterPoints points names SunSpecTypeFloat32 2 unit '''')
          float_meter_groups meterHeaderSunSpecPoints
        @ [meter_event_point modelID]) modelID"

section \<open>Environment\<close>

definition locationSunSpecPoints :: "point_definition list" where
  "locationSunSpecPoints =
     [extendedSunSpecPoint ''ID'' '''' SunSpecTypeUint16 1 '''' '''' True,
      extendedSunSpecPoint ''L'' '''' SunSpecTypeUint16 1 '''' '''' True,
      extendedSunSpecPoint ''Tm'' ''environment.location.time'' SunSpecTypeString 6 ''hhmmss.sssZ'' '''' False,
      extendedSunSpecPoint ''Date'' ''environment.location.date'' SunSpecTypeString 4 ''YYYYMMDD'' '''' False,
      extendedSunSpecPoint ''Loc'' ''environment.location.description'' SunSpecTypeString 20 ''text'' '''' False,
      environmentalScaledPoint ''Lat'' ''environment.location.latitude'' SunSpecTypeInt32 2 ''Degrees'' (- 7) False,
      environmentalScaledPoint ''Long'' ''environment.location.longitude'' SunSpecTypeInt32 2 ''Degrees'' (- 7) False,
      extendedSunSpecPoint ''Alt'' ''environment.location.altitude'' SunSpecTypeInt32 2 ''meters'' '''' False]"

definition referencePointSunSpecPoints :: "point_definition list" where
  "referencePointSunSpecPoints =
     [extendedSunSpecPoint ''ID'' '''' SunSpecTypeUint16 1 '''' '''' True,
      extendedSunSpecPoint ''L'' '''' SunSpecTypeUint16 1 '''' '''' True,
      extendedSunSpecPoint ''GHI'' ''environment.reference.global_horizontal_irradiance'' SunSpecTypeUint16 1 ''W/m2'' '''' False,
      extendedSunSpecPoint ''A'' ''environment.reference.current'' SunSpecTypeUint16 1 ''W/m2'' '''' False,
      extendedSunSpecPoint ''V'' ''environment.reference.voltage'' SunSpecTypeUint16 1 ''W/m2'' '''' False,
      extendedSunSpecPoint ''Tmp'' ''environment.reference.temperature'' SunSpecTypeUint16 1 ''W/m2'' '''' False]"

definition baseMetSunSpecPoints :: "point_definition list" where
  "baseMetSunSpecPoints =
     [extendedSunSpecPoint ''ID'' '''' SunSpecTypeUint16 1 '''' '''' True,
      extendedSunSpecPoint ''L'' '''' SunSpecTypeUint16 1 '''' '''' True,
      environmentalScaledPoint ''TmpAmb'' ''environment.temperature.ambient'' SunSpecTypeInt16 1 ''C'' (- 1) False,
      extendedSunSpecPoint ''RH'' ''environment.humidity.relative'' SunSpecTypeInt16 1 ''Pct'' '''' False,
      extendedSunSpecPoint ''Pres'' ''environment.pressure'' SunSpecTypeInt16 1 ''HPa'' '''' False,
      extendedSunSpecPoint ''WndSpd'' ''environment.wind.speed'' SunSpecTypeInt16 1 ''mps'' '''' False,
      extendedSunSpecPoint ''WndDir'' ''environment.wind.direction'' SunSpecTypeInt16 1 ''deg'' '''' False,
      extendedSunSpecPoint ''Rain'' ''environment.precipitation.rain'' SunSpecTypeInt16 1 ''mm'' '''' False,
      extendedSunSpecPoint ''Snw'' ''environment.precipitation.snow'' SunSpecTypeInt16 1 ''mm'' '''' False,
      extendedSunSpecPoint ''PPT'' ''environment.precipitation.type'' SunSpecTypeInt16 1 '''' '''' False,
      extendedSunSpecPoint ''ElecFld'' ''environment.electric_field'' SunSpecTypeInt16 1 ''Vm'' '''' False,
      extendedSunSpecPoint ''SurWet'' ''environment.surface_wetness'' SunSpecTypeInt16 1 ''kO'' '''' False,
      extendedSunSpecPoint ''SoilWet'' ''environment.soil_wetness'' SunSpecTypeInt16 1 ''Pct'' '''' False]"

definition miniMetSunSpecPoints :: "point_definition list" where
  "miniMetSunSpecPoints =
     [extendedSunSpecPoint ''ID'' '''' SunSpecTypeUint16 1 '''' '''' True,
      extendedSunSpecPoint ''L'' '''' SunSpecTypeUint16 1 '''' '''' True,
      extendedSunSpecPoint ''GHI'' ''environment.irradiance.global_horizontal'' SunSpecTypeUint16 1 ''W/m2'' '''' False,
      environmentalScaledPoint ''TmpBOM'' ''environment.temperature.back_of_module'' SunSpecTypeInt16 1 ''C'' (- 1) False,
      environmentalScaledPoint ''TmpAmb'' ''environment.temperature.ambient'' SunSpecTypeInt16 1 ''C'' (- 1) False,
      extendedSunSpecPoint ''WndSpd'' ''environment.wind.speed'' SunSpecTypeUint16 1 ''m/s'' '''' False]"

definition irradiance_group :: "point_definition list" where
  "irradiance_group =
     [extendedSunSpecPoint ''GHI'' ''environment.irradiance.global_horizontal'' SunSpecTypeUint16 1 ''W/m2'' '''' False,
      extendedSunSpecPoint ''POAI'' ''environment.irradiance.plane_of_array'' SunSpecTypeUint16 1 ''W/m2'' '''' False,
      extendedSunSpecPoint ''DFI'' ''environment.irradiance.diffuse'' SunSpecTypeUint16 1 ''W/m2'' '''' False,
      extendedSunSpecPoint ''DNI'' ''environment.irradiance.direct_normal'' SunSpecTypeUint16 1 ''W/m2'' '''' False,
      extendedSunSpecPoint ''OTI'' ''environment.irradiance.other'' SunSpecTypeUint16 1 ''W/m2'' '''' False]"

definition temperature_group :: "point_definition list" where
  "temperature_group =
     [environmentalScaledPoint ''TmpBOM'' ''environment.temperature.back_of_module'' SunSpecTypeInt16 1
        ''C'' (- 1) True]"

definition inclination_group :: "point_definition list" where
  "inclination_group =
     [environmentalScaledPoint ''Inclx'' ''environment.inclination.x'' SunSpecTypeInt32 2 ''Degrees'' (- 2) True,
      environmentalScaledPoint ''Incly'' ''environment.inclination.y'' SunSpecTypeInt32 2 ''Degrees'' (- 2) False,
      environmentalScaledPoint ''Inclz'' ''environment.inclination.z'' SunSpecTypeInt32 2 ''Degrees'' (- 2) False]"

section \<open>Maximum power point trackers\<close>

definition mpptEventSymbols :: symbols where
  "mpptEventSymbols =
     [(0, ''GROUND_FAULT''), (1, ''INPUT_OVER_VOLTAGE''), (2, ''RESERVED_2''),
      (3, ''DC_DISCONNECT''), (4, ''RESERVED_4''), (5, ''CABINET_OPEN''), (6, ''MANUAL_SHUTDOWN''),
      (7, ''OVER_TEMP''), (8, ''RESERVED_8''), (9, ''RESERVED_9''), (10, ''RESERVED_10''),
      (11, ''RESERVED_11''), (12, ''BLOWN_FUSE''), (13, ''UNDER_TEMP''), (14, ''MEMORY_LOSS''),
      (15, ''ARC_DETECTION''), (16, ''RESERVED_16''), (17, ''RESERVED_17''), (18, ''RESERVED_18''),
      (19, ''RESERVED_19''), (20, ''TEST_FAILED''), (21, ''INPUT_UNDER_VOLTAGE''),
      (22, ''INPUT_OVER_CURRENT'')]"

definition mpptFixedSunSpecPoints :: "point_definition list" where
  "mpptFixedSunSpecPoints =
     [extendedSunSpecPoint ''ID'' '''' SunSpecTypeUint16 1 '''' '''' True,
      extendedSunSpecPoint ''L'' '''' SunSpecTypeUint16 1 '''' '''' True,
      extendedSunSpecPoint ''DCA_SF'' ''mppt.scale.dc_current'' SunSpecTypeScaleFactor 1 '''' '''' False,
      extendedSunSpecPoint ''DCV_SF'' ''mppt.scale.dc_voltage'' SunSpecTypeScaleFactor 1 '''' '''' False,
      extendedSunSpecPoint ''DCW_SF'' ''mppt.scale.dc_power'' SunSpecTypeScaleFactor 1 '''' '''' False,
      extendedSunSpecPoint ''DCWH_SF'' ''mppt.scale.dc_energy'' SunSpecTypeScaleFactor 1 '''' '''' False,
      extendedSunSpecBitfield ''Evt'' ''mppt.events'' SunSpecTypeBitfield32 False mpptEventSymbols,
      extendedSunSpecPoint ''N'' ''mppt.module.count'' SunSpecTypeCount 1 '''' '''' False,
      extendedSunSpecPoint ''TmsPer'' ''mppt.sample_period'' SunSpecTypeUint16 1 '''' '''' False]"

definition mpptModuleSunSpecPoints :: "point_definition list" where
  "mpptModuleSunSpecPoints =
     [extendedSunSpecPoint ''ID'' ''mppt.module.id'' SunSpecTypeUint16 1 '''' '''' False,
      extendedSunSpecPoint ''IDStr'' ''mppt.module.label'' SunSpecTypeString 8 '''' '''' False,
      extendedSunSpecPoint ''DCA'' ''mppt.module.dc_current'' SunSpecTypeUint16 1 ''A'' ''DCA_SF'' False,
      extendedSunSpecPoint ''DCV'' ''mppt.module.dc_voltage'' SunSpecTypeUint16 1 ''V'' ''DCV_SF'' False,
      extendedSunSpecPoint ''DCW'' ''mppt.module.dc_power'' SunSpecTypeUint16 1 ''W'' ''DCW_SF'' False,
      extendedSunSpecPoint ''DCWH'' ''mppt.module.dc_energy'' SunSpecTypeAccumulator32 2 ''Wh'' ''DCWH_SF'' False,
      extendedSunSpecPoint ''Tms'' ''mppt.module.timestamp'' SunSpecTypeUint32 2 ''Secs'' '''' False,
      extendedSunSpecPoint ''Tmp'' ''mppt.module.temperature'' SunSpecTypeInt16 1 ''C'' '''' False,
      extendedSunSpecEnum ''DCSt'' ''mppt.module.operating_state'' False [(1, ''OFF''), (2, ''SLEEPING''), (3, ''STARTING''), (4, ''MPPT''), (5, ''THROTTLED''), (6, ''SHUTTING_DOWN''), (7, ''FAULT''), (8, ''STANDBY''), (9, ''TEST''), (10, ''RESERVED_10'')],
      extendedSunSpecBitfield ''DCEvt'' ''mppt.module.events'' SunSpecTypeBitfield32 False mpptEventSymbols]"
end
