(* ===== verification/SunSpec_Models_V2.thy ===== *)
theory SunSpec_Models_V2
  imports SunSpec_Models
begin

text \<open>
  The point tables of the second SunSpec schema revision (\<^verbatim>\<open>sunspec_models_der_v2.go\<close>): the
  fixed tables, and for the models with a repeating group the fixed part and one repetition.
\<close>

section \<open>Constructors\<close>

definition v2DERPointWords :: "point_type \<Rightarrow> u16" where
  "v2DERPointWords t =
     (if t \<in> {SunSpecTypeUint32, SunSpecTypeBitfield32} then 2
      else if t = SunSpecTypeUint64 then 4
      else if t = SunSpecTypeString then 32
      else 1)"

definition v2DERPoint :: "string \<Rightarrow> string \<Rightarrow> point_type \<Rightarrow> string \<Rightarrow> string \<Rightarrow> bool \<Rightarrow> point_definition" where
  "v2DERPoint model name t unit scale mandatory =
     (let symbols = (if model = ''701'' \<and> name = ''ACType''
        then [(0, ''SINGLE_PHASE''), (1, ''SPLIT_PHASE''), (2, ''THREE_PHASE'')] else []) in
      sunSpecPoint name (''sunspec.der.v2.'' @ model @ ''.'' @ name) t (v2DERPointWords t) unit scale
        mandatory symbols (sunSpecKnownMask symbols))"

definition v2DERStringPoint :: "string \<Rightarrow> string \<Rightarrow> u16 \<Rightarrow> point_definition" where
  "v2DERStringPoint model name words =
     (v2DERPoint model name SunSpecTypeString '''' '''' False)\<lparr>pdSize := words\<rparr>"

section \<open>Measurement and capacity\<close>

definition derMeasureACV2SunSpecPoints :: "point_definition list" where
  "derMeasureACV2SunSpecPoints =
     [v2DERPoint ''701'' ''ID'' SunSpecTypeUint16 '''' '''' True,
      v2DERPoint ''701'' ''L'' SunSpecTypeUint16 '''' '''' True,
      v2DERPoint ''701'' ''ACType'' SunSpecTypeEnum16 '''' '''' True,
      v2DERPoint ''701'' ''St'' SunSpecTypeEnum16 '''' '''' False,
      v2DERPoint ''701'' ''InvSt'' SunSpecTypeEnum16 '''' '''' False,
      v2DERPoint ''701'' ''ConnSt'' SunSpecTypeEnum16 '''' '''' False,
      v2DERPoint ''701'' ''Alrm'' SunSpecTypeBitfield32 '''' '''' False,
      v2DERPoint ''701'' ''DERMode'' SunSpecTypeBitfield32 '''' '''' False]
     @ map (\<lambda>(name, typ, unit, sf). v2DERPoint ''701'' name typ unit sf False)
     [(''W'', SunSpecTypeInt16, ''W'', ''W_SF''), (''VA'', SunSpecTypeInt16, ''VA'', ''VA_SF''),
      (''Var'', SunSpecTypeInt16, ''Var'', ''Var_SF''), (''PF'', SunSpecTypeInt16, '''', ''PF_SF''),
      (''A'', SunSpecTypeInt16, ''A'', ''A_SF''), (''LLV'', SunSpecTypeUint16, ''V'', ''V_SF''),
      (''LNV'', SunSpecTypeUint16, ''V'', ''V_SF''), (''Hz'', SunSpecTypeUint32, ''Hz'', ''Hz_SF''),
      (''TotWhInj'', SunSpecTypeUint64, ''Wh'', ''TotWh_SF''),
      (''TotWhAbs'', SunSpecTypeUint64, ''Wh'', ''TotWh_SF''),
      (''TotVarhInj'', SunSpecTypeUint64, ''Varh'', ''TotVarh_SF''),
      (''TotVarhAbs'', SunSpecTypeUint64, ''Varh'', ''TotVarh_SF''),
      (''TmpAmb'', SunSpecTypeInt16, ''C'', ''Tmp_SF''),
      (''TmpCab'', SunSpecTypeInt16, ''C'', ''Tmp_SF''),
      (''TmpSnk'', SunSpecTypeInt16, ''C'', ''Tmp_SF''),
      (''TmpTrns'', SunSpecTypeInt16, ''C'', ''Tmp_SF''),
      (''TmpSw'', SunSpecTypeInt16, ''C'', ''Tmp_SF''),
      (''TmpOt'', SunSpecTypeInt16, ''C'', ''Tmp_SF'')]
     @ concat (map (\<lambda>(suffix, line, voltage).
         map (\<lambda>(name, typ, unit, sf). v2DERPoint ''701'' name typ unit sf False)
           [(''W'' @ suffix, SunSpecTypeInt16, ''W'', ''W_SF''),
            (''VA'' @ suffix, SunSpecTypeInt16, ''VA'', ''VA_SF''),
            (''Var'' @ suffix, SunSpecTypeInt16, ''Var'', ''Var_SF''),
            (''PF'' @ suffix, SunSpecTypeInt16, '''', ''PF_SF''),
            (''A'' @ suffix, SunSpecTypeInt16, ''A'', ''A_SF''),
            (line, SunSpecTypeUint16, ''V'', ''V_SF''),
            (voltage, SunSpecTypeUint16, ''V'', ''V_SF''),
            (''TotWhInj'' @ suffix, SunSpecTypeUint64, ''Wh'', ''TotWh_SF''),
            (''TotWhAbs'' @ suffix, SunSpecTypeUint64, ''Wh'', ''TotWh_SF''),
            (''TotVarhInj'' @ suffix, SunSpecTypeUint64, ''Varh'', ''TotVarh_SF''),
            (''TotVarhAbs'' @ suffix, SunSpecTypeUint64, ''Varh'', ''TotVarh_SF'')])
       [(''L1'', ''VL1L2'', ''VL1''), (''L2'', ''VL2L3'', ''VL2''), (''L3'', ''VL3L1'', ''VL3'')])
     @ map (\<lambda>(name, typ). v2DERPoint ''701'' name typ '''' '''' False)
     [(''ThrotPct'', SunSpecTypeUint16), (''ThrotSrc'', SunSpecTypeBitfield32),
      (''A_SF'', SunSpecTypeScaleFactor), (''V_SF'', SunSpecTypeScaleFactor),
      (''Hz_SF'', SunSpecTypeScaleFactor), (''W_SF'', SunSpecTypeScaleFactor),
      (''PF_SF'', SunSpecTypeScaleFactor), (''VA_SF'', SunSpecTypeScaleFactor),
      (''Var_SF'', SunSpecTypeScaleFactor), (''TotWh_SF'', SunSpecTypeScaleFactor),
      (''TotVarh_SF'', SunSpecTypeScaleFactor), (''Tmp_SF'', SunSpecTypeScaleFactor),
      (''MnAlrmInfo'', SunSpecTypeString)]"

definition derCapacityV2SunSpecPoints :: "point_definition list" where
  "derCapacityV2SunSpecPoints =
     [v2DERPoint ''702'' ''ID'' SunSpecTypeUint16 '''' '''' True,
      v2DERPoint ''702'' ''L'' SunSpecTypeUint16 '''' '''' True]
     @ map (\<lambda>(name, unit, sf). v2DERPoint ''702'' name SunSpecTypeUint16 unit sf False)
     [(''WMaxRtg'', ''W'', ''W_SF''), (''WOvrExtRtg'', ''W'', ''W_SF''),
      (''WOvrExtRtgPF'', '''', ''PF_SF''), (''WUndExtRtg'', ''W'', ''W_SF''),
      (''WUndExtRtgPF'', '''', ''PF_SF''), (''VAMaxRtg'', ''VA'', ''VA_SF''),
      (''VarMaxInjRtg'', ''Var'', ''Var_SF''), (''VarMaxAbsRtg'', ''Var'', ''Var_SF''),
      (''WChaRteMaxRtg'', ''W'', ''W_SF''), (''WDisChaRteMaxRtg'', ''W'', ''W_SF''),
      (''VAChaRteMaxRtg'', ''VA'', ''VA_SF''), (''VADisChaRteMaxRtg'', ''VA'', ''VA_SF''),
      (''VNomRtg'', ''V'', ''V_SF''), (''VMaxRtg'', ''V'', ''V_SF''),
      (''VMinRtg'', ''V'', ''V_SF''), (''AMaxRtg'', ''A'', ''A_SF''),
      (''PFOvrExtRtg'', '''', ''PF_SF''), (''PFUndExtRtg'', '''', ''PF_SF''),
      (''ReactSusceptRtg'', ''S'', ''S_SF'')]
     @ map (\<lambda>(name, typ). v2DERPoint ''702'' name typ '''' '''' False)
     [(''NorOpCatRtg'', SunSpecTypeEnum16), (''AbnOpCatRtg'', SunSpecTypeEnum16),
      (''CtrlModes'', SunSpecTypeBitfield32), (''IntIslandCatRtg'', SunSpecTypeBitfield16)]
     @ map (\<lambda>(name, unit, sf). v2DERPoint ''702'' name SunSpecTypeUint16 unit sf False)
     [(''WMax'', ''W'', ''W_SF''), (''WMaxOvrExt'', ''W'', ''W_SF''),
      (''WOvrExtPF'', '''', ''PF_SF''), (''WMaxUndExt'', ''W'', ''W_SF''),
      (''WUndExtPF'', '''', ''PF_SF''), (''VAMax'', ''VA'', ''VA_SF''),
      (''VarMaxInj'', ''Var'', ''Var_SF''), (''VarMaxAbs'', ''Var'', ''Var_SF''),
      (''WChaRteMax'', ''W'', ''W_SF''), (''WDisChaRteMax'', ''W'', ''W_SF''),
      (''VAChaRteMax'', ''VA'', ''VA_SF''), (''VADisChaRteMax'', ''VA'', ''VA_SF''),
      (''VNom'', ''V'', ''V_SF''), (''VMax'', ''V'', ''V_SF''), (''VMin'', ''V'', ''V_SF''),
      (''AMax'', ''A'', ''A_SF''), (''PFOvrExt'', '''', ''PF_SF''), (''PFUndExt'', '''', ''PF_SF'')]
     @ [v2DERPoint ''702'' ''IntIslandCat'' SunSpecTypeBitfield16 '''' '''' False]
     @ map (\<lambda>name. v2DERPoint ''702'' name SunSpecTypeScaleFactor '''' '''' False)
     [''W_SF'', ''PF_SF'', ''VA_SF'', ''Var_SF'', ''V_SF'', ''A_SF'', ''S_SF'']"

definition derEnterServiceV2SunSpecPoints :: "point_definition list" where
  "derEnterServiceV2SunSpecPoints =
     [v2DERPoint ''703'' ''ID'' SunSpecTypeUint16 '''' '''' True,
      v2DERPoint ''703'' ''L'' SunSpecTypeUint16 '''' '''' True,
      v2DERPoint ''703'' ''ES'' SunSpecTypeEnum16 '''' '''' False,
      v2DERPoint ''703'' ''ESVHi'' SunSpecTypeUint16 ''V'' ''V_SF'' False,
      v2DERPoint ''703'' ''ESVLo'' SunSpecTypeUint16 ''V'' ''V_SF'' False,
      v2DERPoint ''703'' ''ESHzHi'' SunSpecTypeUint32 ''Hz'' ''Hz_SF'' False,
      v2DERPoint ''703'' ''ESHzLo'' SunSpecTypeUint32 ''Hz'' ''Hz_SF'' False,
      v2DERPoint ''703'' ''ESDlyTms'' SunSpecTypeUint32 '''' '''' False,
      v2DERPoint ''703'' ''ESRndTms'' SunSpecTypeUint32 '''' '''' False,
      v2DERPoint ''703'' ''ESRmpTms'' SunSpecTypeUint32 '''' '''' False,
      v2DERPoint ''703'' ''ESDlyRemTms'' SunSpecTypeUint32 '''' '''' False,
      v2DERPoint ''703'' ''V_SF'' SunSpecTypeScaleFactor '''' '''' False,
      v2DERPoint ''703'' ''Hz_SF'' SunSpecTypeScaleFactor '''' '''' False]"

definition derStorageCapacityV2SunSpecPoints :: "point_definition list" where
  "derStorageCapacityV2SunSpecPoints =
     [v2DERPoint ''713'' ''ID'' SunSpecTypeUint16 '''' '''' True,
      v2DERPoint ''713'' ''L'' SunSpecTypeUint16 '''' '''' True,
      v2DERPoint ''713'' ''WHRtg'' SunSpecTypeUint16 ''Wh'' ''WH_SF'' False,
      v2DERPoint ''713'' ''WHAvail'' SunSpecTypeUint16 ''Wh'' ''WH_SF'' False,
      v2DERPoint ''713'' ''SoC'' SunSpecTypeUint16 '''' ''Pct_SF'' False,
      v2DERPoint ''713'' ''SoH'' SunSpecTypeUint16 '''' ''Pct_SF'' False,
      v2DERPoint ''713'' ''Sta'' SunSpecTypeEnum16 '''' '''' False,
      v2DERPoint ''713'' ''WH_SF'' SunSpecTypeScaleFactor '''' '''' False,
      v2DERPoint ''713'' ''Pct_SF'' SunSpecTypeScaleFactor '''' '''' False]"

definition derControlV2SunSpecPoints :: "point_definition list" where
  "derControlV2SunSpecPoints =
     [v2DERPoint ''715'' ''ID'' SunSpecTypeUint16 '''' '''' True,
      v2DERPoint ''715'' ''L'' SunSpecTypeUint16 '''' '''' True,
      v2DERPoint ''715'' ''LocRemCtl'' SunSpecTypeEnum16 '''' '''' False,
      v2DERPoint ''715'' ''DERHb'' SunSpecTypeUint32 '''' '''' False,
      v2DERPoint ''715'' ''ControllerHb'' SunSpecTypeUint32 '''' '''' False,
      v2DERPoint ''715'' ''AlarmReset'' SunSpecTypeUint16 '''' '''' False,
      v2DERPoint ''715'' ''OpCtl'' SunSpecTypeEnum16 '''' '''' False]"

section \<open>Batteries\<close>

definition bessBaseV2SunSpecPoints :: "point_definition list" where
  "bessBaseV2SunSpecPoints =
     [v2DERPoint ''802'' ''ID'' SunSpecTypeUint16 '''' '''' True,
      v2DERPoint ''802'' ''L'' SunSpecTypeUint16 '''' '''' True,
      v2DERPoint ''802'' ''AHRtg'' SunSpecTypeUint16 ''Ah'' ''AHRtg_SF'' False,
      v2DERPoint ''802'' ''WHRtg'' SunSpecTypeUint16 ''Wh'' ''WHRtg_SF'' False,
      v2DERPoint ''802'' ''WChaRteMax'' SunSpecTypeUint16 ''W'' ''WChaDisChaMax_SF'' False,
      v2DERPoint ''802'' ''WDisChaRteMax'' SunSpecTypeUint16 ''W'' ''WChaDisChaMax_SF'' False,
      v2DERPoint ''802'' ''DisChaRte'' SunSpecTypeUint16 ''%WHRtg'' ''DisChaRte_SF'' False,
      v2DERPoint ''802'' ''SoCMax'' SunSpecTypeUint16 ''%WHRtg'' ''SoC_SF'' False,
      v2DERPoint ''802'' ''SoCMin'' SunSpecTypeUint16 ''%WHRtg'' ''SoC_SF'' False,
      v2DERPoint ''802'' ''SocRsvMax'' SunSpecTypeUint16 ''%WHRtg'' ''SoC_SF'' False,
      v2DERPoint ''802'' ''SoCRsvMin'' SunSpecTypeUint16 ''%WHRtg'' ''SoC_SF'' False,
      v2DERPoint ''802'' ''SoC'' SunSpecTypeUint16 ''%WHRtg'' ''SoC_SF'' False,
      v2DERPoint ''802'' ''DoD'' SunSpecTypeUint16 ''%'' ''DoD_SF'' False,
      v2DERPoint ''802'' ''SoH'' SunSpecTypeUint16 ''%'' ''SoH_SF'' False,
      v2DERPoint ''802'' ''NCyc'' SunSpecTypeUint32 '''' '''' False,
      v2DERPoint ''802'' ''ChaSt'' SunSpecTypeEnum16 '''' '''' False,
      v2DERPoint ''802'' ''LocRemCtl'' SunSpecTypeEnum16 '''' '''' False,
      v2DERPoint ''802'' ''Hb'' SunSpecTypeUint16 '''' '''' False,
      v2DERPoint ''802'' ''CtrlHb'' SunSpecTypeUint16 '''' '''' False,
      v2DERPoint ''802'' ''AlmRst'' SunSpecTypeUint16 '''' '''' False,
      v2DERPoint ''802'' ''Typ'' SunSpecTypeEnum16 '''' '''' False,
      v2DERPoint ''802'' ''State'' SunSpecTypeEnum16 '''' '''' False,
      v2DERPoint ''802'' ''StateVnd'' SunSpecTypeEnum16 '''' '''' False,
      v2DERPoint ''802'' ''WarrDt'' SunSpecTypeUint32 '''' '''' False,
      v2DERPoint ''802'' ''Evt1'' SunSpecTypeBitfield32 '''' '''' False,
      v2DERPoint ''802'' ''Evt2'' SunSpecTypeBitfield32 '''' '''' False,
      v2DERPoint ''802'' ''EvtVnd1'' SunSpecTypeBitfield32 '''' '''' False,
      v2DERPoint ''802'' ''EvtVnd2'' SunSpecTypeBitfield32 '''' '''' False,
      v2DERPoint ''802'' ''V'' SunSpecTypeUint16 ''V'' ''V_SF'' False,
      v2DERPoint ''802'' ''VMax'' SunSpecTypeUint16 ''V'' ''V_SF'' False,
      v2DERPoint ''802'' ''VMin'' SunSpecTypeUint16 ''V'' ''V_SF'' False,
      v2DERPoint ''802'' ''CellVMax'' SunSpecTypeUint16 ''V'' ''CellV_SF'' False,
      v2DERPoint ''802'' ''CellVMaxStr'' SunSpecTypeUint16 '''' '''' False,
      v2DERPoint ''802'' ''CellVMaxMod'' SunSpecTypeUint16 '''' '''' False,
      v2DERPoint ''802'' ''CellVMin'' SunSpecTypeUint16 ''V'' ''CellV_SF'' False,
      v2DERPoint ''802'' ''CellVMinStr'' SunSpecTypeUint16 '''' '''' False,
      v2DERPoint ''802'' ''CellVMinMod'' SunSpecTypeUint16 '''' '''' False,
      v2DERPoint ''802'' ''CellVAvg'' SunSpecTypeUint16 ''V'' ''CellV_SF'' False,
      v2DERPoint ''802'' ''A'' SunSpecTypeInt16 ''A'' ''A_SF'' False,
      v2DERPoint ''802'' ''AChaMax'' SunSpecTypeUint16 ''A'' ''AMax_SF'' False,
      v2DERPoint ''802'' ''ADisChaMax'' SunSpecTypeUint16 ''A'' ''AMax_SF'' False,
      v2DERPoint ''802'' ''W'' SunSpecTypeInt16 ''W'' ''W_SF'' False,
      v2DERPoint ''802'' ''ReqInvState'' SunSpecTypeEnum16 '''' '''' False,
      v2DERPoint ''802'' ''ReqW'' SunSpecTypeInt16 ''W'' ''W_SF'' False,
      v2DERPoint ''802'' ''SetOp'' SunSpecTypeEnum16 '''' '''' False,
      v2DERPoint ''802'' ''SetInvState'' SunSpecTypeEnum16 '''' '''' False,
      v2DERPoint ''802'' ''AHRtg_SF'' SunSpecTypeScaleFactor '''' '''' False,
      v2DERPoint ''802'' ''WHRtg_SF'' SunSpecTypeScaleFactor '''' '''' False,
      v2DERPoint ''802'' ''WChaDisChaMax_SF'' SunSpecTypeScaleFactor '''' '''' False,
      v2DERPoint ''802'' ''DisChaRte_SF'' SunSpecTypeScaleFactor '''' '''' False,
      v2DERPoint ''802'' ''SoC_SF'' SunSpecTypeScaleFactor '''' '''' False,
      v2DERPoint ''802'' ''DoD_SF'' SunSpecTypeScaleFactor '''' '''' False,
      v2DERPoint ''802'' ''SoH_SF'' SunSpecTypeScaleFactor '''' '''' False,
      v2DERPoint ''802'' ''V_SF'' SunSpecTypeScaleFactor '''' '''' False,
      v2DERPoint ''802'' ''CellV_SF'' SunSpecTypeScaleFactor '''' '''' False,
      v2DERPoint ''802'' ''A_SF'' SunSpecTypeScaleFactor '''' '''' False,
      v2DERPoint ''802'' ''AMax_SF'' SunSpecTypeScaleFactor '''' '''' False,
      v2DERPoint ''802'' ''W_SF'' SunSpecTypeScaleFactor '''' '''' False]"

definition bessModuleV2SunSpecPoints :: "point_definition list" where
  "bessModuleV2SunSpecPoints =
     [v2DERPoint ''805'' ''ID'' SunSpecTypeUint16 '''' '''' True,
      v2DERPoint ''805'' ''L'' SunSpecTypeUint16 '''' '''' True,
      v2DERPoint ''805'' ''StrIdx'' SunSpecTypeUint16 '''' '''' False,
      v2DERPoint ''805'' ''ModIdx'' SunSpecTypeUint16 '''' '''' False,
      v2DERPoint ''805'' ''NCell'' SunSpecTypeUint16 '''' '''' False,
      v2DERPoint ''805'' ''SoC'' SunSpecTypeUint16 ''%'' ''SoC_SF'' False,
      v2DERPoint ''805'' ''DoD'' SunSpecTypeUint16 ''%'' ''DoD_SF'' False,
      v2DERPoint ''805'' ''SoH'' SunSpecTypeUint16 ''%'' ''SoH_SF'' False,
      v2DERPoint ''805'' ''NCyc'' SunSpecTypeUint32 '''' '''' False,
      v2DERPoint ''805'' ''V'' SunSpecTypeUint16 ''V'' ''V_SF'' False,
      v2DERPoint ''805'' ''CellVMax'' SunSpecTypeUint16 ''V'' ''CellV_SF'' False,
      v2DERPoint ''805'' ''CellVMaxCell'' SunSpecTypeUint16 '''' '''' False,
      v2DERPoint ''805'' ''CellVMin'' SunSpecTypeUint16 ''V'' ''CellV_SF'' False,
      v2DERPoint ''805'' ''CellVMinCell'' SunSpecTypeUint16 '''' '''' False,
      v2DERPoint ''805'' ''CellVAvg'' SunSpecTypeUint16 ''V'' ''CellV_SF'' False,
      v2DERPoint ''805'' ''CellTmpMax'' SunSpecTypeInt16 ''C'' ''Tmp_SF'' False,
      v2DERPoint ''805'' ''CellTmpMaxCell'' SunSpecTypeUint16 '''' '''' False,
      v2DERPoint ''805'' ''CellTmpMin'' SunSpecTypeInt16 ''C'' ''Tmp_SF'' False,
      v2DERPoint ''805'' ''CellTmpMinCell'' SunSpecTypeUint16 '''' '''' False,
      v2DERPoint ''805'' ''CellTmpAvg'' SunSpecTypeInt16 ''C'' ''Tmp_SF'' False,
      v2DERPoint ''805'' ''NCellBal'' SunSpecTypeUint16 '''' '''' False,
      v2DERStringPoint ''805'' ''SN'' 16,
      v2DERPoint ''805'' ''SoC_SF'' SunSpecTypeScaleFactor '''' '''' False,
      v2DERPoint ''805'' ''SoH_SF'' SunSpecTypeScaleFactor '''' '''' False,
      v2DERPoint ''805'' ''DoD_SF'' SunSpecTypeScaleFactor '''' '''' False,
      v2DERPoint ''805'' ''V_SF'' SunSpecTypeScaleFactor '''' '''' False,
      v2DERPoint ''805'' ''CellV_SF'' SunSpecTypeScaleFactor '''' '''' False,
      v2DERPoint ''805'' ''Tmp_SF'' SunSpecTypeScaleFactor '''' '''' False]"

definition flowBatteryV2SunSpecPoints :: "point_definition list" where
  "flowBatteryV2SunSpecPoints =
     [v2DERPoint ''806'' ''ID'' SunSpecTypeUint16 '''' '''' True,
      v2DERPoint ''806'' ''L'' SunSpecTypeUint16 '''' '''' True,
      v2DERPoint ''806'' ''BatTBD'' SunSpecTypeUint16 '''' '''' False]"

definition flowBatteryStringV2SunSpecPoints :: "point_definition list" where
  "flowBatteryStringV2SunSpecPoints =
     [v2DERPoint ''807'' ''ID'' SunSpecTypeUint16 '''' '''' True,
      v2DERPoint ''807'' ''L'' SunSpecTypeUint16 '''' '''' True,
      v2DERPoint ''807'' ''Idx'' SunSpecTypeUint16 '''' '''' False,
      v2DERPoint ''807'' ''NMod'' SunSpecTypeUint16 '''' '''' False,
      v2DERPoint ''807'' ''NModCon'' SunSpecTypeUint16 '''' '''' False,
      v2DERPoint ''807'' ''ModVMax'' SunSpecTypeUint16 ''V'' ''ModV_SF'' False,
      v2DERPoint ''807'' ''ModVMaxMod'' SunSpecTypeUint16 '''' '''' False,
      v2DERPoint ''807'' ''ModVMin'' SunSpecTypeUint16 ''V'' ''ModV_SF'' False,
      v2DERPoint ''807'' ''ModVMinMod'' SunSpecTypeUint16 '''' '''' False,
      v2DERPoint ''807'' ''ModVAvg'' SunSpecTypeUint16 ''V'' ''ModV_SF'' False,
      v2DERPoint ''807'' ''CellVMax'' SunSpecTypeUint16 ''V'' ''CellV_SF'' False,
      v2DERPoint ''807'' ''CellVMaxMod'' SunSpecTypeUint16 '''' '''' False,
      v2DERPoint ''807'' ''CellVMaxStk'' SunSpecTypeUint16 '''' '''' False,
      v2DERPoint ''807'' ''CellVMin'' SunSpecTypeUint16 ''V'' ''CellV_SF'' False,
      v2DERPoint ''807'' ''CellVMinMod'' SunSpecTypeUint16 '''' '''' False,
      v2DERPoint ''807'' ''CellVMinStk'' SunSpecTypeUint16 '''' '''' False,
      v2DERPoint ''807'' ''CellVAvg'' SunSpecTypeUint16 ''V'' ''CellV_SF'' False,
      v2DERPoint ''807'' ''TmpMax'' SunSpecTypeInt16 ''C'' ''Tmp_SF'' False,
      v2DERPoint ''807'' ''TmpMaxMod'' SunSpecTypeUint16 '''' '''' False,
      v2DERPoint ''807'' ''TmpMin'' SunSpecTypeInt16 ''C'' ''Tmp_SF'' False,
      v2DERPoint ''807'' ''TmpMinMod'' SunSpecTypeUint16 '''' '''' False,
      v2DERPoint ''807'' ''TmpAvg'' SunSpecTypeInt16 ''C'' ''Tmp_SF'' False,
      v2DERPoint ''807'' ''Evt1'' SunSpecTypeBitfield32 '''' '''' False,
      v2DERPoint ''807'' ''Evt2'' SunSpecTypeBitfield32 '''' '''' False,
      v2DERPoint ''807'' ''EvtVnd1'' SunSpecTypeBitfield32 '''' '''' False,
      v2DERPoint ''807'' ''EvtVnd2'' SunSpecTypeBitfield32 '''' '''' False,
      v2DERPoint ''807'' ''ModV_SF'' SunSpecTypeScaleFactor '''' '''' False,
      v2DERPoint ''807'' ''CellV_SF'' SunSpecTypeScaleFactor '''' '''' False,
      v2DERPoint ''807'' ''Tmp_SF'' SunSpecTypeScaleFactor '''' '''' False,
      v2DERPoint ''807'' ''SoC_SF'' SunSpecTypeScaleFactor '''' '''' False,
      v2DERPoint ''807'' ''OCV_SF'' SunSpecTypeScaleFactor '''' '''' False,
      v2DERPoint ''807'' ''Pad1'' SunSpecTypePad '''' '''' False]"

definition flowBatteryModuleV2SunSpecPoints :: "point_definition list" where
  "flowBatteryModuleV2SunSpecPoints =
     [v2DERPoint ''808'' ''ID'' SunSpecTypeUint16 '''' '''' True,
      v2DERPoint ''808'' ''L'' SunSpecTypeUint16 '''' '''' True,
      v2DERPoint ''808'' ''ModuleTBD'' SunSpecTypeUint16 '''' '''' False]"

definition flowBatteryStackV2SunSpecPoints :: "point_definition list" where
  "flowBatteryStackV2SunSpecPoints =
     [v2DERPoint ''809'' ''ID'' SunSpecTypeUint16 '''' '''' True,
      v2DERPoint ''809'' ''L'' SunSpecTypeUint16 '''' '''' True,
      v2DERPoint ''809'' ''StackTBD'' SunSpecTypeUint16 '''' '''' False]"

section \<open>Repeating models\<close>

definition der_dc_fixed :: "point_definition list" where
  "der_dc_fixed =
     [v2DERPoint ''714'' ''ID'' SunSpecTypeUint16 '''' '''' True,
      v2DERPoint ''714'' ''L'' SunSpecTypeUint16 '''' '''' True,
      v2DERPoint ''714'' ''PrtAlrms'' SunSpecTypeBitfield32 '''' '''' False,
      v2DERPoint ''714'' ''NPrt'' SunSpecTypeCount '''' '''' False,
      v2DERPoint ''714'' ''DCA'' SunSpecTypeInt16 ''A'' ''DCA_SF'' False,
      v2DERPoint ''714'' ''DCW'' SunSpecTypeInt16 ''W'' ''DCW_SF'' False,
      v2DERPoint ''714'' ''DCWhInj'' SunSpecTypeUint64 ''Wh'' ''DCWH_SF'' False,
      v2DERPoint ''714'' ''DCWhAbs'' SunSpecTypeUint64 ''Wh'' ''DCWH_SF'' False,
      v2DERPoint ''714'' ''DCA_SF'' SunSpecTypeScaleFactor '''' '''' False,
      v2DERPoint ''714'' ''DCV_SF'' SunSpecTypeScaleFactor '''' '''' False,
      v2DERPoint ''714'' ''DCW_SF'' SunSpecTypeScaleFactor '''' '''' False,
      v2DERPoint ''714'' ''DCWH_SF'' SunSpecTypeScaleFactor '''' '''' False,
      v2DERPoint ''714'' ''Tmp_SF'' SunSpecTypeScaleFactor '''' '''' False]"

definition der_dc_port :: "point_definition list" where
  "der_dc_port =
     [v2DERPoint ''714'' ''PrtTyp'' SunSpecTypeEnum16 '''' '''' False,
      v2DERPoint ''714'' ''ID'' SunSpecTypeUint16 '''' '''' False,
      v2DERStringPoint ''714'' ''IDStr'' 8,
      v2DERPoint ''714'' ''DCA'' SunSpecTypeInt16 ''A'' ''DCA_SF'' False,
      v2DERPoint ''714'' ''DCV'' SunSpecTypeUint16 ''V'' ''DCV_SF'' False,
      v2DERPoint ''714'' ''DCW'' SunSpecTypeInt16 ''W'' ''DCW_SF'' False,
      v2DERPoint ''714'' ''DCWhInj'' SunSpecTypeUint64 ''Wh'' ''DCWH_SF'' False,
      v2DERPoint ''714'' ''DCWhAbs'' SunSpecTypeUint64 ''Wh'' ''DCWH_SF'' False,
      v2DERPoint ''714'' ''Tmp'' SunSpecTypeInt16 ''C'' ''Tmp_SF'' False,
      v2DERPoint ''714'' ''DCSta'' SunSpecTypeEnum16 '''' '''' False,
      v2DERPoint ''714'' ''DCAlrm'' SunSpecTypeBitfield32 '''' '''' False]"

definition bess_bank_fixed :: "point_definition list" where
  "bess_bank_fixed =
     [v2DERPoint ''803'' ''ID'' SunSpecTypeUint16 '''' '''' True,
      v2DERPoint ''803'' ''L'' SunSpecTypeUint16 '''' '''' True,
      v2DERPoint ''803'' ''NStr'' SunSpecTypeCount '''' '''' False,
      v2DERPoint ''803'' ''NStrCon'' SunSpecTypeUint16 '''' '''' False,
      v2DERPoint ''803'' ''ModTmpMax'' SunSpecTypeInt16 ''C'' ''ModTmp_SF'' False,
      v2DERPoint ''803'' ''ModTmpMaxStr'' SunSpecTypeUint16 '''' '''' False,
      v2DERPoint ''803'' ''ModTmpMaxMod'' SunSpecTypeUint16 '''' '''' False,
      v2DERPoint ''803'' ''ModTmpMin'' SunSpecTypeInt16 ''C'' ''ModTmp_SF'' False,
      v2DERPoint ''803'' ''ModTmpMinStr'' SunSpecTypeUint16 '''' '''' False,
      v2DERPoint ''803'' ''ModTmpMinMod'' SunSpecTypeUint16 '''' '''' False,
      v2DERPoint ''803'' ''ModTmpAvg'' SunSpecTypeInt16 ''C'' ''ModTmp_SF'' False,
      v2DERPoint ''803'' ''StrVMax'' SunSpecTypeUint16 ''V'' ''V_SF'' False,
      v2DERPoint ''803'' ''StrVMaxStr'' SunSpecTypeUint16 '''' '''' False,
      v2DERPoint ''803'' ''StrVMin'' SunSpecTypeUint16 ''V'' ''V_SF'' False,
      v2DERPoint ''803'' ''StrVMinStr'' SunSpecTypeUint16 '''' '''' False,
      v2DERPoint ''803'' ''StrVAvg'' SunSpecTypeUint16 ''V'' ''V_SF'' False,
      v2DERPoint ''803'' ''StrAMax'' SunSpecTypeInt16 ''A'' ''A_SF'' False,
      v2DERPoint ''803'' ''StrAMaxStr'' SunSpecTypeUint16 '''' '''' False,
      v2DERPoint ''803'' ''StrAMin'' SunSpecTypeInt16 ''A'' ''A_SF'' False,
      v2DERPoint ''803'' ''StrAMinStr'' SunSpecTypeUint16 '''' '''' False,
      v2DERPoint ''803'' ''StrAAvg'' SunSpecTypeInt16 ''A'' ''A_SF'' False,
      v2DERPoint ''803'' ''NCellBal'' SunSpecTypeUint16 '''' '''' False,
      v2DERPoint ''803'' ''CellV_SF'' SunSpecTypeScaleFactor '''' '''' False,
      v2DERPoint ''803'' ''ModTmp_SF'' SunSpecTypeScaleFactor '''' '''' False,
      v2DERPoint ''803'' ''A_SF'' SunSpecTypeScaleFactor '''' '''' False,
      v2DERPoint ''803'' ''SoH_SF'' SunSpecTypeScaleFactor '''' '''' False,
      v2DERPoint ''803'' ''SoC_SF'' SunSpecTypeScaleFactor '''' '''' False,
      v2DERPoint ''803'' ''V_SF'' SunSpecTypeScaleFactor '''' '''' False]"

definition bess_bank_string :: "point_definition list" where
  "bess_bank_string = map (\<lambda>(name, typ, unit, sf). v2DERPoint ''803'' name typ unit sf False)
     [(''StrNMod'', SunSpecTypeUint16, '''', ''''), (''StrSt'', SunSpecTypeBitfield32, '''', ''''),
      (''StrConFail'', SunSpecTypeEnum16, '''', ''''),
      (''StrSoC'', SunSpecTypeUint16, '''', ''SoC_SF''),
      (''StrSoH'', SunSpecTypeUint16, '''', ''SoH_SF''),
      (''StrA'', SunSpecTypeInt16, ''A'', ''A_SF''),
      (''StrCellVMax'', SunSpecTypeUint16, ''V'', ''CellV_SF''),
      (''StrCellVMaxMod'', SunSpecTypeUint16, '''', ''''),
      (''StrCellVMin'', SunSpecTypeUint16, ''V'', ''CellV_SF''),
      (''StrCellVMinMod'', SunSpecTypeUint16, '''', ''''),
      (''StrCellVAvg'', SunSpecTypeUint16, ''V'', ''CellV_SF''),
      (''StrModTmpMax'', SunSpecTypeInt16, ''C'', ''ModTmp_SF''),
      (''StrModTmpMaxMod'', SunSpecTypeUint16, '''', ''''),
      (''StrModTmpMin'', SunSpecTypeInt16, ''C'', ''ModTmp_SF''),
      (''StrModTmpMinMod'', SunSpecTypeUint16, '''', ''''),
      (''StrModTmpAvg'', SunSpecTypeInt16, ''C'', ''ModTmp_SF''),
      (''StrDisRsn'', SunSpecTypeEnum16, '''', ''''),
      (''StrConSt'', SunSpecTypeBitfield32, '''', ''''),
      (''StrEvt1'', SunSpecTypeBitfield32, '''', ''''),
      (''StrEvt2'', SunSpecTypeBitfield32, '''', ''''),
      (''StrEvtVnd1'', SunSpecTypeBitfield32, '''', ''''),
      (''StrEvtVnd2'', SunSpecTypeBitfield32, '''', ''''),
      (''StrSetEna'', SunSpecTypeEnum16, '''', ''''),
      (''StrSetCon'', SunSpecTypeEnum16, '''', ''''), (''Pad1'', SunSpecTypePad, '''', ''''),
      (''Pad2'', SunSpecTypePad, '''', '''')]"

definition bess_string_fixed :: "point_definition list" where
  "bess_string_fixed =
     [v2DERPoint ''804'' ''ID'' SunSpecTypeUint16 '''' '''' True,
      v2DERPoint ''804'' ''L'' SunSpecTypeUint16 '''' '''' True,
      v2DERPoint ''804'' ''Idx'' SunSpecTypeUint16 '''' '''' False,
      v2DERPoint ''804'' ''NMod'' SunSpecTypeCount '''' '''' False,
      v2DERPoint ''804'' ''St'' SunSpecTypeBitfield32 '''' '''' False,
      v2DERPoint ''804'' ''ConFail'' SunSpecTypeEnum16 '''' '''' False,
      v2DERPoint ''804'' ''NCellBal'' SunSpecTypeUint16 '''' '''' False,
      v2DERPoint ''804'' ''SoC'' SunSpecTypeUint16 ''%'' ''SoC_SF'' False,
      v2DERPoint ''804'' ''DoD'' SunSpecTypeUint16 ''%'' ''DoD_SF'' False,
      v2DERPoint ''804'' ''NCyc'' SunSpecTypeUint32 '''' '''' False,
      v2DERPoint ''804'' ''SoH'' SunSpecTypeUint16 ''%'' ''SoH_SF'' False,
      v2DERPoint ''804'' ''A'' SunSpecTypeInt16 ''A'' ''A_SF'' False,
      v2DERPoint ''804'' ''V'' SunSpecTypeUint16 ''V'' ''V_SF'' False,
      v2DERPoint ''804'' ''CellVMax'' SunSpecTypeUint16 ''V'' ''CellV_SF'' False,
      v2DERPoint ''804'' ''CellVMaxMod'' SunSpecTypeUint16 '''' '''' False,
      v2DERPoint ''804'' ''CellVMin'' SunSpecTypeUint16 ''V'' ''CellV_SF'' False,
      v2DERPoint ''804'' ''CellVMinMod'' SunSpecTypeUint16 '''' '''' False,
      v2DERPoint ''804'' ''CellVAvg'' SunSpecTypeUint16 ''V'' ''CellV_SF'' False,
      v2DERPoint ''804'' ''ModTmpMax'' SunSpecTypeInt16 ''C'' ''ModTmp_SF'' False,
      v2DERPoint ''804'' ''ModTmpMaxMod'' SunSpecTypeUint16 '''' '''' False,
      v2DERPoint ''804'' ''ModTmpMin'' SunSpecTypeInt16 ''C'' ''ModTmp_SF'' False,
      v2DERPoint ''804'' ''ModTmpMinMod'' SunSpecTypeUint16 '''' '''' False,
      v2DERPoint ''804'' ''ModTmpAvg'' SunSpecTypeInt16 ''C'' ''ModTmp_SF'' False,
      v2DERPoint ''804'' ''Pad1'' SunSpecTypePad '''' '''' False,
      v2DERPoint ''804'' ''ConSt'' SunSpecTypeBitfield32 '''' '''' False,
      v2DERPoint ''804'' ''Evt1'' SunSpecTypeBitfield32 '''' '''' False,
      v2DERPoint ''804'' ''Evt2'' SunSpecTypeBitfield32 '''' '''' False,
      v2DERPoint ''804'' ''EvtVnd1'' SunSpecTypeBitfield32 '''' '''' False,
      v2DERPoint ''804'' ''EvtVnd2'' SunSpecTypeBitfield32 '''' '''' False,
      v2DERPoint ''804'' ''SetEna'' SunSpecTypeEnum16 '''' '''' False,
      v2DERPoint ''804'' ''SetCon'' SunSpecTypeEnum16 '''' '''' False,
      v2DERPoint ''804'' ''SoC_SF'' SunSpecTypeScaleFactor '''' '''' False,
      v2DERPoint ''804'' ''SoH_SF'' SunSpecTypeScaleFactor '''' '''' False,
      v2DERPoint ''804'' ''DoD_SF'' SunSpecTypeScaleFactor '''' '''' False,
      v2DERPoint ''804'' ''A_SF'' SunSpecTypeScaleFactor '''' '''' False,
      v2DERPoint ''804'' ''V_SF'' SunSpecTypeScaleFactor '''' '''' False,
      v2DERPoint ''804'' ''CellV_SF'' SunSpecTypeScaleFactor '''' '''' False,
      v2DERPoint ''804'' ''ModTmp_SF'' SunSpecTypeScaleFactor '''' '''' False,
      v2DERPoint ''804'' ''Pad2'' SunSpecTypePad '''' '''' False,
      v2DERPoint ''804'' ''Pad3'' SunSpecTypePad '''' '''' False,
      v2DERPoint ''804'' ''Pad4'' SunSpecTypePad '''' '''' False]"

definition bess_string_module :: "point_definition list" where
  "bess_string_module = map (\<lambda>(name, typ, unit, sf). v2DERPoint ''804'' name typ unit sf False)
     [(''ModNCell'', SunSpecTypeUint16, '''', ''''),
      (''ModSoC'', SunSpecTypeUint16, ''%'', ''SoC_SF''),
      (''ModSoH'', SunSpecTypeUint16, ''%'', ''SoH_SF''),
      (''ModCellVMax'', SunSpecTypeUint16, ''V'', ''CellV_SF''),
      (''ModCellVMaxCell'', SunSpecTypeUint16, '''', ''''),
      (''ModCellVMin'', SunSpecTypeUint16, ''V'', ''CellV_SF''),
      (''ModCellVMinCell'', SunSpecTypeUint16, '''', ''''),
      (''ModCellVAvg'', SunSpecTypeUint16, ''V'', ''CellV_SF''),
      (''ModCellTmpMax'', SunSpecTypeInt16, ''C'', ''ModTmp_SF''),
      (''ModCellTmpMaxCell'', SunSpecTypeUint16, '''', ''''),
      (''ModCellTmpMin'', SunSpecTypeInt16, ''C'', ''ModTmp_SF''),
      (''ModCellTmpMinCell'', SunSpecTypeUint16, '''', ''''),
      (''ModCellTmpAvg'', SunSpecTypeInt16, ''C'', ''ModTmp_SF''),
      (''Pad5'', SunSpecTypePad, '''', ''''), (''Pad6'', SunSpecTypePad, '''', ''''),
      (''Pad7'', SunSpecTypePad, '''', '''')]"
end
