(* ===== verification/Logical_View.thy ===== *)
theory Logical_View
  imports Contract
begin

text \<open>
  The logical view of a register read (\<^verbatim>\<open>observation.go\<close>): the record with its wire
  provenance and the validation that admits it as a replay snapshot. The modbus library's
  constants are the transport and table names; its register limit \<^verbatim>\<open>MaxReadRegisters\<close> is the
  argument \<open>maxRead\<close>.
\<close>

datatype transport = TransportTCP | TransportRTU | TransportUnknown string

datatype logical_table = HoldingRegisters | InputRegisters | TableUnknown string

definition FunctionReadHoldingRegisters :: u8 where
  "FunctionReadHoldingRegisters = 3"

definition FunctionReadInputRegisters :: u8 where
  "FunctionReadInputRegisters = 4"

record logical_view =
  LogicalViewID :: u64
  WireResponseID :: u64
  PhysicalRequestID :: u64
  Endpoint :: string
  ConnectionID :: u64
  Transport :: transport
  TransportGeneration :: u64
  UnitID :: u8
  RequestedFunction :: u8
  ReceivedFunction :: u8
  Table :: logical_table
  PhysicalOffset :: u16
  PhysicalWordCount :: u16
  AuthorizationScope :: string
  PollGeneration :: u64
  DeadlineIdentity :: u64
  LogicalOffset :: u16
  LogicalWordCount :: u16
  SliceOffset :: u16
  SliceWordCount :: u16
  Words :: "u16 list"
  WireResponseBytes :: "u8 list"

datatype view_error =
    WireEvidence
  | ViewWords
  | ViewString
  | ProvenanceIncomplete
  | TransportRejected
  | ConnectionMissing
  | RTUShape
  | FunctionRejected
  | OperationIdentity
  | SliceInconsistent

definition NewLogicalViewSnapshot :: "u16 \<Rightarrow> logical_view \<Rightarrow> view_error + logical_view" where
  "NewLogicalViewSnapshot maxRead r =
     (if WireResponseBytes r = [] \<or> length (WireResponseBytes r) > 2 * unat maxRead + 32
      then Inl WireEvidence
      else if length (Words r) > unat maxRead then Inl ViewWords
      else if validateBoundedString (Endpoint r) True \<noteq> None
        \<or> validateBoundedString (AuthorizationScope r) True \<noteq> None then Inl ViewString
      else if LogicalViewID r = 0 \<or> WireResponseID r = 0 \<or> PhysicalRequestID r = 0
        \<or> Endpoint r = [] \<or> TransportGeneration r = 0 \<or> UnitID r = 0 \<or> UnitID r > 247
        \<or> AuthorizationScope r = [] \<or> PollGeneration r = 0 \<or> DeadlineIdentity r = 0
        \<or> PhysicalWordCount r = 0 \<or> LogicalWordCount r = 0 \<or> SliceWordCount r = 0
        \<or> PhysicalWordCount r > maxRead \<or> LogicalWordCount r > maxRead
      then Inl ProvenanceIncomplete
      else if Transport r \<noteq> TransportTCP \<and> Transport r \<noteq> TransportRTU then Inl TransportRejected
      else if Transport r = TransportTCP \<and> ConnectionID r = 0 then Inl ConnectionMissing
      else if Transport r = TransportRTU
        \<and> (ConnectionID r \<noteq> 0 \<or> PhysicalOffset r \<noteq> LogicalOffset r
           \<or> PhysicalWordCount r \<noteq> LogicalWordCount r \<or> SliceOffset r \<noteq> 0) then Inl RTUShape
      else if RequestedFunction r \<noteq> FunctionReadHoldingRegisters
        \<and> RequestedFunction r \<noteq> FunctionReadInputRegisters then Inl FunctionRejected
      else if ReceivedFunction r \<noteq> RequestedFunction r
        \<or> Table r \<noteq> (if RequestedFunction r = FunctionReadHoldingRegisters then HoldingRegisters
                     else InputRegisters) then Inl OperationIdentity
      else if ucast (PhysicalOffset r) + ucast (PhysicalWordCount r) > (65536 :: u32)
        \<or> ucast (LogicalOffset r) + ucast (LogicalWordCount r) > (65536 :: u32)
        \<or> ucast (SliceOffset r) + ucast (SliceWordCount r) > (ucast (PhysicalWordCount r) :: u32)
        \<or> LogicalWordCount r \<noteq> SliceWordCount r
        \<or> length (Words r) \<noteq> unat (LogicalWordCount r)
        \<or> ucast (PhysicalOffset r) + ucast (SliceOffset r) \<noteq> (ucast (LogicalOffset r) :: u32)
      then Inl SliceInconsistent
      else Inr r)"

section \<open>Properties\<close>

lemma u32_sum_u16:
  fixes a b :: u16
  shows "unat (ucast a + ucast b :: u32) = unat a + unat b"
  using unat_u16_bound [of a] unat_u16_bound [of b] by (subst unat_add_u32) simp_all

lemma u32_sum_eq_iff:
  fixes a b c :: u16
  shows "(ucast a + ucast b :: u32) = ucast c \<longleftrightarrow> unat a + unat b = unat c"
  using u32_sum_u16 [of a b] by (simp add: word_unat_eq_iff)

text \<open>An admitted logical view is a contiguous slice of its physical response: its words are
  the words of the logical range, the range lies inside the physical range at the slice offset,
  and both ranges lie inside the 16-bit register space, so no range sum of the validation wraps.\<close>
theorem admitted_view_is_slice:
  assumes "NewLogicalViewSnapshot maxRead r = Inr v"
  shows "v = r \<and> length (Words r) = unat (LogicalWordCount r)
    \<and> unat (LogicalOffset r) = unat (PhysicalOffset r) + unat (SliceOffset r)
    \<and> unat (SliceOffset r) + unat (LogicalWordCount r) \<le> unat (PhysicalWordCount r)
    \<and> unat (PhysicalOffset r) + unat (PhysicalWordCount r) \<le> 65536
    \<and> unat (LogicalOffset r) + unat (LogicalWordCount r) \<le> 65536
    \<and> 0 < length (Words r) \<and> length (Words r) \<le> unat maxRead"
proof -
  have pos: "0 < unat (LogicalWordCount r)" if "LogicalWordCount r \<noteq> 0"
    using that by (simp add: unat_gt_0)
  show ?thesis
    using assms pos
    by (auto simp: NewLogicalViewSnapshot_def u32_sum_u16 u32_sum_eq_iff word_less_nat_alt
        not_less split: if_splits)
qed

definition example_view :: logical_view where
  "example_view = \<lparr>
     LogicalViewID = 1, WireResponseID = 1, PhysicalRequestID = 1, Endpoint = ''tcp'',
     ConnectionID = 1, Transport = TransportTCP, TransportGeneration = 1, UnitID = 1,
     RequestedFunction = 3, ReceivedFunction = 3, Table = HoldingRegisters,
     PhysicalOffset = 40000, PhysicalWordCount = 4, AuthorizationScope = ''scope'',
     PollGeneration = 1, DeadlineIdentity = 1, LogicalOffset = 40002, LogicalWordCount = 2,
     SliceOffset = 2, SliceWordCount = 2, Words = [1, 66], WireResponseBytes = [3]\<rparr>"

lemma example_view_admitted: "NewLogicalViewSnapshot 125 example_view = Inr example_view"
  by code_simp

theorem admitted_view_is_slice_witness:
  "length (Words example_view) = unat (LogicalWordCount example_view)"
  using admitted_view_is_slice [OF example_view_admitted] by blast

end
