(* ===== verification/SunSpec_Chain.thy ===== *)
theory SunSpec_Chain
  imports Logical_View "HOL-Library.Sublist"
begin

text \<open>
  SunSpec model discovery (\<^verbatim>\<open>sunspec_chain_plan.go\<close>, \<^verbatim>\<open>sunspec_chain.go\<close>,
  \<^verbatim>\<open>sunspec_core_types.go\<close>): the plan of base-candidate reads, and the chain walker that
  asks for headers and payloads one bounded read at a time and admits each view only if it
  answers a pending request. The theorems show that a completed walk has read exactly one
  contiguous, bounded chain and reports each word of it once.
\<close>

section \<open>Data\<close>

definition maxSunSpecReadWords :: u16 where "maxSunSpecReadWords = 125"
definition sunSpecSignatureFirst :: u16 where "sunSpecSignatureFirst = 0x5375"
definition sunSpecSignatureSecond :: u16 where "sunSpecSignatureSecond = 0x6e53"
definition sunSpecEndModel :: u16 where "sunSpecEndModel = 0xffff"

datatype purpose = SunSpecReadSignature | SunSpecReadHeader | SunSpecReadPayload

datatype disposition =
    SunSpecChainDispositionAdmitted
  | SunSpecChainDispositionUnknownModel
  | SunSpecChainDispositionUnsupportedLength

record wire_key =
  wkModelID :: u16
  wkModelLength :: u16

record decoder_key =
  dkModelID :: u16
  dkModelLength :: u16
  dkSchemaRevision :: string

record source_span =
  spLogicalViewID :: u64
  spPDUOffset :: u16
  spWordCount :: u16

record read_request =
  rrAddress :: u16
  rrWords :: u16
  rrPurpose :: purpose
  rrNonce :: u64
  rrInstance :: u64
  rrSequence :: u64

record occurrence =
  ocOrdinal :: u32
  ocWireKey :: wire_key
  ocSchemaRevision :: string
  ocHeaderOffset :: u16
  ocPayloadOffset :: u16
  ocDisposition :: disposition
  ocDecoderKey :: "decoder_key option"
  ocStructural :: bool
  ocWords :: "u16 list"
  ocSpans :: "source_span list"

record chain_snapshot =
  snOccurrences :: "occurrence list"
  snRaw :: "u16 list"
  snSources :: "logical_view list"

definition no_snapshot :: chain_snapshot where
  "no_snapshot = \<lparr>snOccurrences = [], snRaw = [], snSources = []\<rparr>"

datatype chain_error =
    PlanBounds
  | BaseDuplicated
  | RangeExceeded
  | DecoderKeyInexact
  | DecoderKeyDuplicated
  | StructuralDuplicated
  | RequestDetached
  | RequestUnplanned
  | ViewDuplicated
  | ViewMismatch
  | MixedProvenance
  | PhysicalContradiction
  | WireContradiction
  | BaseNotSelected
  | BasesAmbiguous
  | SignatureAbsent
  | EndMarkerNonzero
  | ZeroLength
  | TotalWordBound
  | OccurrenceBound
  | ModelRange
  | PayloadLacksHeader
  | RequestBound

definition validSunSpecRevision :: "string \<Rightarrow> bool" where
  "validSunSpecRevision v \<longleftrightarrow> 0 < length v \<and> length v \<le> 128"

definition sunSpecEnd :: "u16 \<Rightarrow> u16 \<Rightarrow> chain_error outcome" where
  "sunSpecEnd address words =
     (if words = 0 \<or> ucast address + ucast words > (65536 :: u32) then Some RangeExceeded else None)"

definition sunSpecQueueAddress :: "u32 \<Rightarrow> u16 \<Rightarrow> chain_error outcome" where
  "sunSpecQueueAddress address words =
     (if address > 65535 then Some RangeExceeded else sunSpecEnd (ucast address) words)"

section \<open>The plan\<close>

record chain_limits =
  MaxTotalWords :: u32
  MaxOccurrences :: u32

record plan_spec =
  psRevision :: string
  psBases :: "u16 list"
  psLimits :: chain_limits
  psDecoderKeys :: "decoder_key list"
  psStructuralIDs :: "u16 list"

record chain_plan =
  plRevision :: string
  plBases :: "u16 list"
  plLimits :: chain_limits
  plKeys :: "(wire_key, decoder_key) gomap"
  plKnown :: "u16 set"
  plStructuralIDs :: "u16 set"
  plNonce :: u64
  plInitial :: "read_request list"

fun check_bases :: "u16 set \<Rightarrow> u16 list \<Rightarrow> chain_error outcome" where
  "check_bases seen [] = None"
| "check_bases seen (b # bs) =
     (if b \<in> seen then Some BaseDuplicated
      else (case sunSpecEnd b 2 of Some e \<Rightarrow> Some e | None \<Rightarrow> check_bases (insert b seen) bs))"

fun add_keys :: "string \<Rightarrow> decoder_key list \<Rightarrow> (wire_key, decoder_key) gomap \<Rightarrow> u16 set
    \<Rightarrow> chain_error + ((wire_key, decoder_key) gomap \<times> u16 set)" where
  "add_keys revision [] keys known = Inr (keys, known)"
| "add_keys revision (k # ks) keys known =
     (if dkSchemaRevision k \<noteq> revision \<or> dkModelLength k = 0 then Inl DecoderKeyInexact
      else
        (let wk = \<lparr>wkModelID = dkModelID k, wkModelLength = dkModelLength k\<rparr> in
         if gm_get keys wk \<noteq> None then Inl DecoderKeyDuplicated
         else add_keys revision ks (gm_put wk k keys) (insert (dkModelID k) known)))"

definition initial_requests :: "u64 \<Rightarrow> u16 list \<Rightarrow> read_request list" where
  "initial_requests nonce bases = map (\<lambda>(i, b). \<lparr>rrAddress = b, rrWords = 2,
     rrPurpose = SunSpecReadSignature, rrNonce = nonce, rrInstance = 0,
     rrSequence = of_nat (i + 1)\<rparr>) (enumerate 0 bases)"

text \<open>\<open>nonce\<close> is the fresh value of the process-wide atomic counter.\<close>

definition NewSunSpecChainPlan :: "u64 \<Rightarrow> plan_spec \<Rightarrow> chain_error + chain_plan" where
  "NewSunSpecChainPlan nonce s =
     (if \<not> validSunSpecRevision (psRevision s) \<or> psBases s = []
        \<or> MaxTotalWords (psLimits s) < 4 \<or> MaxOccurrences (psLimits s) = 0
        \<or> MaxTotalWords (psLimits s) > 65536
        \<or> MaxOccurrences (psLimits s) > MaxTotalWords (psLimits s) div 2
      then Inl PlanBounds
      else (case check_bases {} (psBases s) of Some e \<Rightarrow> Inl e | None \<Rightarrow>
        (case add_keys (psRevision s) (psDecoderKeys s) [] {} of Inl e \<Rightarrow> Inl e
         | Inr (keys, known) \<Rightarrow>
             if \<not> distinct (psStructuralIDs s) then Inl StructuralDuplicated
             else Inr \<lparr>plRevision = psRevision s, plBases = psBases s, plLimits = psLimits s,
               plKeys = keys, plKnown = known, plStructuralIDs = set (psStructuralIDs s),
               plNonce = nonce, plInitial = initial_requests nonce (psBases s)\<rparr>)))"

section \<open>The chain\<close>

record current_model =
  cuId :: u16
  cuLength :: u16
  cuHeader :: u16
  cuSpans :: "source_span list"
  cuWords :: "u16 list"

record physical_source =
  phWireResponseID :: u64
  phConnectionID :: u64
  phTransportGeneration :: u64
  phFunction :: u8
  phTable :: logical_table
  phOffset :: u16
  phCount :: u16

record chain =
  chPlan :: chain_plan
  chInstance :: u64
  chSeen :: "u64 set"
  chPhysical :: "(u64, physical_source) gomap"
  chWire :: "(u64, u64 \<times> u8 list) gomap"
  chProvenance :: "logical_view option"
  chPending :: "(u64, read_request) gomap"
  chNext :: u64
  chSelected :: "u16 option"
  chRaw :: "u16 list"
  chOcc :: "occurrence list"
  chSources :: "logical_view list"
  chCurrent :: "current_model option"
  chComplete :: bool
  chFailed :: bool

text \<open>\<open>inst\<close> is the fresh chain instance, zero when the counter is exhausted.\<close>

definition NewSunSpecChain :: "u64 \<Rightarrow> chain_plan \<Rightarrow> chain" where
  "NewSunSpecChain inst p = \<lparr>
     chPlan = p, chInstance = inst, chSeen = {}, chPhysical = [], chWire = [],
     chProvenance = None,
     chPending = (if inst = 0 then []
       else fold (\<lambda>r m. gm_put (rrSequence r) (r\<lparr>rrInstance := inst\<rparr>) m) (plInitial p) []),
     chNext = of_nat (length (plInitial p)), chSelected = None, chRaw = [], chOcc = [],
     chSources = [], chCurrent = None, chComplete = False, chFailed = (inst = 0)\<rparr>"

definition sameSunSpecProvenance :: "logical_view \<Rightarrow> logical_view \<Rightarrow> bool" where
  "sameSunSpecProvenance a b \<longleftrightarrow> Endpoint a = Endpoint b \<and> UnitID a = UnitID b
     \<and> ConnectionID a = ConnectionID b \<and> Transport a = Transport b
     \<and> TransportGeneration a = TransportGeneration b \<and> PollGeneration a = PollGeneration b
     \<and> DeadlineIdentity a = DeadlineIdentity b \<and> AuthorizationScope a = AuthorizationScope b"

definition validateSourceIdentity :: "logical_view \<Rightarrow> chain \<Rightarrow> chain_error + chain" where
  "validateSourceIdentity x c =
     (let physical = \<lparr>phWireResponseID = WireResponseID x, phConnectionID = ConnectionID x,
        phTransportGeneration = TransportGeneration x, phFunction = RequestedFunction x,
        phTable = Table x, phOffset = PhysicalOffset x, phCount = PhysicalWordCount x\<rparr> in
      if (case gm_get (chPhysical c) (PhysicalRequestID x) of
            Some prior \<Rightarrow> prior \<noteq> physical | None \<Rightarrow> False)
      then Inl PhysicalContradiction
      else if (case gm_get (chWire c) (WireResponseID x) of
            Some prior \<Rightarrow> fst prior \<noteq> PhysicalRequestID x \<or> snd prior \<noteq> WireResponseBytes x
          | None \<Rightarrow> False)
      then Inl WireContradiction
      else Inr (c\<lparr>chPhysical := gm_put (PhysicalRequestID x) physical (chPhysical c),
             chWire := gm_put (WireResponseID x) (PhysicalRequestID x, WireResponseBytes x) (chWire c)\<rparr>))"

definition chain_fail :: "chain \<Rightarrow> chain" where
  "chain_fail c = c\<lparr>chFailed := True, chPending := [], chCurrent := None\<rparr>"

definition chain_accept :: "read_request \<Rightarrow> logical_view \<Rightarrow> chain \<Rightarrow> chain" where
  "chain_accept r x c = c\<lparr>
     chProvenance := (case chProvenance c of None \<Rightarrow> Some x | Some y \<Rightarrow> Some y),
     chSeen := insert (LogicalViewID x) (chSeen c),
     chPending := gm_del (rrSequence r) (chPending c),
     chSources := chSources c @ [x]\<rparr>"

definition chain_queue :: "u32 \<Rightarrow> u16 \<Rightarrow> purpose \<Rightarrow> chain \<Rightarrow> chain_error outcome \<times> chain" where
  "chain_queue address n p c =
     (if n = 0 \<or> n > maxSunSpecReadWords then (Some RequestBound, c)
      else (case sunSpecQueueAddress address n of
              Some e \<Rightarrow> (Some e, c)
            | None \<Rightarrow>
                (let sequence = chNext c + 1 in
                 (None, c\<lparr>chNext := sequence, chPending := gm_put sequence
                    \<lparr>rrAddress = ucast address, rrWords = n, rrPurpose = p,
                     rrNonce = plNonce (chPlan c), rrInstance = chInstance c,
                     rrSequence = sequence\<rparr> (chPending c)\<rparr>))))"

definition minSunSpec :: "u16 \<Rightarrow> u16" where
  "minSunSpec n = (if n > maxSunSpecReadWords then maxSunSpecReadWords else n)"

definition chain_signature :: "read_request \<Rightarrow> logical_view \<Rightarrow> chain \<Rightarrow> chain_error outcome \<times> chain" where
  "chain_signature r x c =
     (let matches = Words x ! 0 = sunSpecSignatureFirst \<and> Words x ! 1 = sunSpecSignatureSecond in
      if matches \<and> chSelected c \<noteq> None
      then (Some BasesAmbiguous, c\<lparr>chFailed := True, chPending := []\<rparr>)
      else
        (let c1 = chain_accept r x (if matches then c\<lparr>chSelected := Some (rrAddress r)\<rparr> else c) in
         if chPending c1 \<noteq> [] then (None, c1)
         else (case chSelected c1 of
                 None \<Rightarrow> (Some SignatureAbsent, c1)
               | Some b \<Rightarrow>
                   chain_queue (ucast b + 2) 2 SunSpecReadHeader
                     (c1\<lparr>chRaw := [sunSpecSignatureFirst, sunSpecSignatureSecond]\<rparr>))))"

definition chain_snapshot_of :: "chain \<Rightarrow> chain_snapshot" where
  "chain_snapshot_of c = \<lparr>snOccurrences = chOcc c, snRaw = chRaw c, snSources = chSources c\<rparr>"

definition chain_header :: "read_request \<Rightarrow> logical_view \<Rightarrow> chain
    \<Rightarrow> (chain_error + chain_snapshot) \<times> chain" where
  "chain_header r x c =
     (let id = Words x ! 0; n = Words x ! 1 in
      if id = sunSpecEndModel
      then (if n \<noteq> 0 then (Inl EndMarkerNonzero, c)
            else
              (let c1 = (chain_accept r x c)\<lparr>chRaw := chRaw c @ [id, n], chComplete := True\<rparr> in
               (Inr (chain_snapshot_of c1), c1)))
      else if n = 0 then (Inl ZeroLength, c)
      else if of_nat (length (chRaw c)) + 2 + ucast n + 2 > MaxTotalWords (plLimits (chPlan c))
      then (Inl TotalWordBound, c)
      else if of_nat (length (chOcc c)) + 1 > MaxOccurrences (plLimits (chPlan c))
      then (Inl OccurrenceBound, c)
      else if ucast (rrAddress r) + 2 + ucast n > (65536 :: u32) then (Inl ModelRange, c)
      else
        (let payloadAddress = ucast (rrAddress r) + 2 :: u32; payloadWords = minSunSpec n in
         case sunSpecQueueAddress payloadAddress payloadWords of
           Some e \<Rightarrow> (Inl e, c)
         | None \<Rightarrow>
             (case chain_queue payloadAddress payloadWords SunSpecReadPayload
                ((chain_accept r x c)\<lparr>chRaw := chRaw c @ [id, n],
                   chCurrent := Some \<lparr>cuId = id, cuLength = n, cuHeader = rrAddress r,
                     cuSpans = [\<lparr>spLogicalViewID = LogicalViewID x,
                       spPDUOffset = SliceOffset x, spWordCount = 2\<rparr>],
                     cuWords = [id, n]\<rparr>\<rparr>) of
                (Some e, c2) \<Rightarrow> (Inl e, c2)
              | (None, c2) \<Rightarrow> (Inr no_snapshot, c2))))"

text \<open>
  \<open>structural\<close> stands for the structural-candidate builder (a layout or nil); only its
  presence is kept.
\<close>

definition finish_occurrence :: "(wire_key \<Rightarrow> u16 list \<Rightarrow> source_span list \<Rightarrow> bool) \<Rightarrow> chain
    \<Rightarrow> current_model \<Rightarrow> occurrence" where
  "finish_occurrence structural c cu =
     (let wk = \<lparr>wkModelID = cuId cu, wkModelLength = cuLength cu\<rparr>;
          key = gm_get (plKeys (chPlan c)) wk in
      \<lparr>ocOrdinal = of_nat (length (chOcc c) + 1), ocWireKey = wk,
       ocSchemaRevision = plRevision (chPlan c), ocHeaderOffset = cuHeader cu,
       ocPayloadOffset = cuHeader cu + 2,
       ocDisposition = (case key of
           Some _ \<Rightarrow> SunSpecChainDispositionAdmitted
         | None \<Rightarrow> if cuId cu \<in> plKnown (chPlan c) then SunSpecChainDispositionUnsupportedLength
                   else SunSpecChainDispositionUnknownModel),
       ocDecoderKey = key,
       ocStructural = (cuId cu \<in> plStructuralIDs (chPlan c) \<and> structural wk (cuWords cu) (cuSpans cu)),
       ocWords = cuWords cu, ocSpans = cuSpans cu\<rparr>)"

definition chain_payload :: "(wire_key \<Rightarrow> u16 list \<Rightarrow> source_span list \<Rightarrow> bool) \<Rightarrow> read_request
    \<Rightarrow> logical_view \<Rightarrow> chain \<Rightarrow> chain_error outcome \<times> chain" where
  "chain_payload structural r x c =
     (case chCurrent c of
        None \<Rightarrow> (Some PayloadLacksHeader, c)
      | Some cu \<Rightarrow>
          (let nextAddress = ucast (rrAddress r) + ucast (rrWords r) :: u32;
               read = of_nat (length (cuWords cu) - 2) + rrWords r :: u16;
               completed = read = cuLength cu;
               nextPurpose = (if completed then SunSpecReadHeader else SunSpecReadPayload);
               nextWords = (if completed then 2 else minSunSpec (cuLength cu - read)) in
           case sunSpecQueueAddress nextAddress nextWords of
             Some e \<Rightarrow> (Some e, c)
           | None \<Rightarrow>
               (let cu1 = cu\<lparr>cuWords := cuWords cu @ Words x,
                      cuSpans := cuSpans cu @ [\<lparr>spLogicalViewID = LogicalViewID x,
                        spPDUOffset = SliceOffset x, spWordCount = rrWords r\<rparr>]\<rparr>;
                    c1 = (chain_accept r x c)\<lparr>chRaw := chRaw c @ Words x\<rparr> in
                if \<not> completed
                then chain_queue nextAddress nextWords nextPurpose (c1\<lparr>chCurrent := Some cu1\<rparr>)
                else chain_queue nextAddress nextWords nextPurpose
                       (c1\<lparr>chOcc := chOcc c @ [finish_occurrence structural c cu1],
                          chCurrent := None\<rparr>))))"

definition admitReplay_dispatch :: "(wire_key \<Rightarrow> u16 list \<Rightarrow> source_span list \<Rightarrow> bool) \<Rightarrow> read_request
    \<Rightarrow> logical_view \<Rightarrow> chain \<Rightarrow> (chain_error + chain_snapshot) \<times> chain" where
  "admitReplay_dispatch structural r x c =
     (case rrPurpose r of
        SunSpecReadSignature \<Rightarrow>
          (case chain_signature r x c of
             (Some e, c1) \<Rightarrow> (Inl e, chain_fail c1)
           | (None, c1) \<Rightarrow> (Inr no_snapshot, c1))
      | SunSpecReadHeader \<Rightarrow>
          (if chSelected c = None then (Inl BaseNotSelected, c)
           else (case chain_header r x c of
                   (Inl e, c1) \<Rightarrow> (Inl e, chain_fail c1)
                 | (Inr s, c1) \<Rightarrow> (Inr s, c1)))
      | SunSpecReadPayload \<Rightarrow>
          (if chSelected c = None then (Inl BaseNotSelected, c)
           else (case chain_payload structural r x c of
                   (Some e, c1) \<Rightarrow> (Inl e, chain_fail c1)
                 | (None, c1) \<Rightarrow> (Inr no_snapshot, c1))))"

definition AdmitReplay :: "(wire_key \<Rightarrow> u16 list \<Rightarrow> source_span list \<Rightarrow> bool) \<Rightarrow> read_request
    \<Rightarrow> logical_view \<Rightarrow> chain \<Rightarrow> (chain_error + chain_snapshot) \<times> chain" where
  "AdmitReplay structural r x c =
     (if chComplete c \<or> chFailed c \<or> chInstance c = 0 \<or> rrNonce r \<noteq> plNonce (chPlan c)
        \<or> rrInstance r \<noteq> chInstance c then (Inl RequestDetached, c)
      else if gm_get (chPending c) (rrSequence r) \<noteq> Some r then (Inl RequestUnplanned, c)
      else if LogicalViewID x \<in> chSeen c then (Inl ViewDuplicated, c)
      else if RequestedFunction x \<noteq> FunctionReadHoldingRegisters
        \<or> ReceivedFunction x \<noteq> FunctionReadHoldingRegisters
        \<or> LogicalOffset x \<noteq> rrAddress r \<or> LogicalWordCount x \<noteq> rrWords r
        \<or> length (Words x) \<noteq> unat (rrWords r) then (Inl ViewMismatch, c)
      else if (case chProvenance c of None \<Rightarrow> False | Some p \<Rightarrow> \<not> sameSunSpecProvenance p x)
      then (Inl MixedProvenance, c)
      else (case validateSourceIdentity x c of
              Inl e \<Rightarrow> (Inl e, chain_fail c)
            | Inr c0 \<Rightarrow> admitReplay_dispatch structural r x c0))"

section \<open>The walk invariant\<close>

abbreviation chain_signature_words :: "u16 list" where
  "chain_signature_words \<equiv> [sunSpecSignatureFirst, sunSpecSignatureSecond]"

definition span_words :: "source_span list \<Rightarrow> nat" where
  "span_words spans = sum_list (map (\<lambda>s. unat (spWordCount s)) spans)"

lemma span_words_simps [simp]:
  "span_words [] = 0"
  "span_words (s # ss) = unat (spWordCount s) + span_words ss"
  "span_words (ss @ ts) = span_words ss + span_words ts"
  by (simp_all add: span_words_def)

text \<open>
  The occurrences tile the register space from \<open>pos\<close> on: each has its header where the previous
  one ends, its two header words and exactly its declared payload, all of it covered by spans.
\<close>

fun occs_tile :: "nat \<Rightarrow> nat \<Rightarrow> occurrence list \<Rightarrow> bool" where
  "occs_tile pos i [] \<longleftrightarrow> True"
| "occs_tile pos i (x # xs) \<longleftrightarrow>
     unat (ocHeaderOffset x) = pos \<and> ocOrdinal x = of_nat (Suc i)
     \<and> wkModelID (ocWireKey x) \<noteq> sunSpecEndModel \<and> wkModelLength (ocWireKey x) \<noteq> 0
     \<and> take 2 (ocWords x) = [wkModelID (ocWireKey x), wkModelLength (ocWireKey x)]
     \<and> length (ocWords x) = 2 + unat (wkModelLength (ocWireKey x))
     \<and> span_words (ocSpans x) = length (ocWords x)
     \<and> occs_tile (pos + length (ocWords x)) (Suc i) xs"

definition model_words :: "chain \<Rightarrow> u16 list" where
  "model_words c = concat (map ocWords (chOcc c))"

lemma occs_tile_append:
  "occs_tile pos i (xs @ [x]) \<longleftrightarrow> occs_tile pos i xs
     \<and> occs_tile (pos + length (concat (map ocWords xs))) (i + length xs) [x]"
  by (induction xs arbitrary: pos i) (auto simp: algebra_simps)

definition plan_ok :: "chain_plan \<Rightarrow> bool" where
  "plan_ok p \<longleftrightarrow> 4 \<le> unat (MaxTotalWords (plLimits p)) \<and> unat (MaxTotalWords (plLimits p)) \<le> 65536
     \<and> 1 \<le> unat (MaxOccurrences (plLimits p)) \<and> unat (MaxOccurrences (plLimits p)) \<le> 32768"

definition request_in_range :: "read_request \<Rightarrow> bool" where
  "request_in_range q \<longleftrightarrow> 0 < unat (rrWords q) \<and> unat (rrWords q) \<le> 125
     \<and> unat (rrAddress q) + unat (rrWords q) \<le> 65536"

definition awaits :: "chain \<Rightarrow> nat \<Rightarrow> nat \<Rightarrow> purpose \<Rightarrow> bool" where
  "awaits c address n p \<longleftrightarrow> (\<exists>q. chPending c = [(rrSequence q, q)] \<and> request_in_range q
     \<and> unat (rrAddress q) = address \<and> unat (rrWords q) = n \<and> rrPurpose q = p)"

definition current_ok :: "chain \<Rightarrow> nat \<Rightarrow> current_model \<Rightarrow> bool" where
  "current_ok c base cu \<longleftrightarrow>
     2 \<le> length (cuWords cu) \<and> take 2 (cuWords cu) = [cuId cu, cuLength cu]
     \<and> cuId cu \<noteq> sunSpecEndModel \<and> cuLength cu \<noteq> 0
     \<and> length (cuWords cu) - 2 < unat (cuLength cu)
     \<and> unat (cuHeader cu) = base + 2 + length (model_words c)
     \<and> span_words (cuSpans cu) = length (cuWords cu)
     \<and> 2 + length (model_words c) + 2 + unat (cuLength cu) + 2
         \<le> unat (MaxTotalWords (plLimits (chPlan c)))
     \<and> Suc (length (chOcc c)) \<le> unat (MaxOccurrences (plLimits (chPlan c)))"

definition walking :: "chain \<Rightarrow> nat \<Rightarrow> bool" where
  "walking c base \<longleftrightarrow>
     (case chCurrent c of
        None \<Rightarrow> chRaw c = chain_signature_words @ model_words c
          \<and> length (chRaw c) + 2 \<le> unat (MaxTotalWords (plLimits (chPlan c)))
          \<and> awaits c (base + length (chRaw c)) 2 SunSpecReadHeader
      | Some cu \<Rightarrow> chRaw c = chain_signature_words @ model_words c @ cuWords cu
          \<and> current_ok c base cu
          \<and> awaits c (base + length (chRaw c))
              (min 125 (unat (cuLength cu) - (length (cuWords cu) - 2))) SunSpecReadPayload)"

definition completed_walk :: "chain \<Rightarrow> nat \<Rightarrow> bool" where
  "completed_walk c base \<longleftrightarrow>
     chRaw c = chain_signature_words @ model_words c @ [sunSpecEndModel, 0]
     \<and> chPending c = [] \<and> chCurrent c = None
     \<and> length (chRaw c) \<le> unat (MaxTotalWords (plLimits (chPlan c)))
     \<and> base + length (chRaw c) \<le> 65536"

definition probing :: "chain \<Rightarrow> bool" where
  "probing c \<longleftrightarrow> chRaw c = [] \<and> \<not> chComplete c \<and> chOcc c = [] \<and> chCurrent c = None
     \<and> (\<forall>b. chSelected c = Some b \<longrightarrow> b \<in> set (plBases (chPlan c)))
     \<and> list_all (\<lambda>(s, q). rrPurpose q = SunSpecReadSignature \<and> request_in_range q
          \<and> rrWords q = 2 \<and> rrAddress q \<in> set (plBases (chPlan c))) (chPending c)"

definition based :: "chain \<Rightarrow> u16 \<Rightarrow> bool" where
  "based c b \<longleftrightarrow> chSelected c = Some b \<and> b \<in> set (plBases (chPlan c))
     \<and> occs_tile (unat b + 2) 0 (chOcc c)
     \<and> length (chOcc c) \<le> unat (MaxOccurrences (plLimits (chPlan c)))
     \<and> (if chComplete c then completed_walk c (unat b) else walking c (unat b))"

definition chain_inv :: "chain \<Rightarrow> bool" where
  "chain_inv c \<longleftrightarrow> plan_ok (chPlan c) \<and>
     (if chFailed c then chPending c = [] \<and> chCurrent c = None
      else probing c \<or> (\<exists>b. based c b))"

section \<open>Every admitted view keeps the invariant\<close>

lemma sunSpecEnd_None: "sunSpecEnd a n = None \<longleftrightarrow> n \<noteq> 0 \<and> unat a + unat n \<le> 65536"
  by (auto simp: sunSpecEnd_def word_less_nat_alt u32_sum_u16)

lemma unat_ucast_u32_u16:
  fixes a :: u32
  assumes "unat a \<le> 65535"
  shows "unat (ucast a :: u16) = unat a"
  using assms by (simp add: unsigned_ucast_eq take_bit_nat_eq_self)

lemma queue_address_None:
  "sunSpecQueueAddress a n = None \<longleftrightarrow> n \<noteq> 0 \<and> unat a + unat n \<le> 65536"
proof (cases "unat a \<le> 65535")
  case True
  then have "\<not> a > 65535" by (simp add: word_less_nat_alt)
  with True show ?thesis
    by (simp add: sunSpecQueueAddress_def sunSpecEnd_None unat_ucast_u32_u16)
next
  case False
  then have "a > 65535" by (simp add: word_less_nat_alt)
  moreover have "n \<noteq> 0 \<Longrightarrow> 0 < unat n" by (simp add: unat_gt_0)
  ultimately show ?thesis using False by (auto simp: sunSpecQueueAddress_def)
qed

lemma queue_None:
  assumes "chain_queue a n p c = (None, c')" and "chPending c = []"
  shows "awaits c' (unat a) (unat n) p
    \<and> c' = c\<lparr>chNext := chNext c', chPending := chPending c'\<rparr>"
proof -
  from assms(1) have n: "n \<noteq> 0" "\<not> n > maxSunSpecReadWords" and a: "sunSpecQueueAddress a n = None"
    by (auto simp: chain_queue_def split: if_splits option.splits)
  from a have r: "unat a + unat n \<le> 65536" by (simp add: queue_address_None)
  have n': "0 < unat n" "unat n \<le> 125"
    using n by (simp_all add: unat_gt_0 maxSunSpecReadWords_def word_less_nat_alt)
  with r have "unat (ucast a :: u16) = unat a" by (intro unat_ucast_u32_u16) linarith
  with assms n a r n' show ?thesis
    by (auto simp: chain_queue_def Let_def awaits_def request_in_range_def gm_put_def)
qed

lemma awaits_get:
  assumes "awaits c address n p" and "gm_get (chPending c) (rrSequence r) = Some r"
  shows "chPending c = [(rrSequence r, r)] \<and> request_in_range r \<and> unat (rrAddress r) = address
    \<and> unat (rrWords r) = n \<and> rrPurpose r = p"
proof -
  obtain q where q: "chPending c = [(rrSequence q, q)]" and rest: "request_in_range q"
    "unat (rrAddress q) = address" "unat (rrWords q) = n" "rrPurpose q = p"
    using assms(1) unfolding awaits_def by blast
  have "(rrSequence r, r) \<in> set [(rrSequence q, q)]"
    using gm_get_in [OF assms(2)] by (simp only: q)
  then have "q = r" by simp
  with q rest show ?thesis by blast
qed

lemma accept_pending:
  "chPending c = [(rrSequence r, r)] \<Longrightarrow> chPending (chain_accept r x c) = []"
  by (simp add: chain_accept_def gm_del_def AList.delete_eq)

lemma accept_fields [simp]:
  "chPlan (chain_accept r x c) = chPlan c" "chSelected (chain_accept r x c) = chSelected c"
  "chRaw (chain_accept r x c) = chRaw c" "chOcc (chain_accept r x c) = chOcc c"
  "chCurrent (chain_accept r x c) = chCurrent c" "chComplete (chain_accept r x c) = chComplete c"
  "chFailed (chain_accept r x c) = chFailed c"
  by (simp_all add: chain_accept_def)

lemma inv_congruent:
  assumes "chPlan c' = chPlan c" and "chPending c' = chPending c" and "chSelected c' = chSelected c"
    and "chRaw c' = chRaw c" and "chOcc c' = chOcc c" and "chCurrent c' = chCurrent c"
    and "chComplete c' = chComplete c" and "chFailed c' = chFailed c"
  shows "chain_inv c' = chain_inv c"
proof -
  have "awaits c' = awaits c" "current_ok c' = current_ok c" "completed_walk c' = completed_walk c"
    "model_words c' = model_words c" "probing c' = probing c"
    using assms by (simp_all add: fun_eq_iff awaits_def current_ok_def completed_walk_def
        model_words_def probing_def)
  moreover from this have "walking c' = walking c"
    using assms by (simp add: fun_eq_iff walking_def split: option.split)
  ultimately have "based c' = based c"
    using assms by (simp add: fun_eq_iff based_def)
  with \<open>probing c' = probing c\<close> show ?thesis using assms by (simp add: chain_inv_def)
qed

lemma fail_inv: "plan_ok (chPlan c) \<Longrightarrow> chain_inv (chain_fail c)"
  by (simp add: chain_inv_def chain_fail_def)

lemma signature_inv:
  assumes inv: "chain_inv c" and ok: "\<not> chFailed c" "\<not> chComplete c"
    and get: "gm_get (chPending c) (rrSequence r) = Some r"
    and purpose: "rrPurpose r = SunSpecReadSignature"
    and res: "chain_signature r x c = (None, c')"
  shows "chain_inv c'"
proof -
  have plan: "plan_ok (chPlan c)" using inv by (simp add: chain_inv_def)
  have "\<not> walking c base" for base
    using awaits_get [OF _ get, of base] awaits_get [OF _ get] purpose
    by (auto simp: walking_def split: option.split)
  then have probe: "probing c"
    using inv ok by (auto simp: chain_inv_def based_def)
  define c1 where "c1 = chain_accept r x
    (if Words x ! 0 = sunSpecSignatureFirst \<and> Words x ! 1 = sunSpecSignatureSecond
     then c\<lparr>chSelected := Some (rrAddress r)\<rparr> else c)"
  have c1: "chPlan c1 = chPlan c" "chRaw c1 = []" "chOcc c1 = []" "chCurrent c1 = None"
    "\<not> chComplete c1" "\<not> chFailed c1" "chPending c1 = gm_del (rrSequence r) (chPending c)"
    using probe ok by (auto simp: c1_def probing_def chain_accept_def)
  have "rrAddress r \<in> set (plBases (chPlan c))"
    using probe gm_get_in [OF get] by (auto simp: probing_def list_all_iff)
  then have bases: "\<forall>b. chSelected c1 = Some b \<longrightarrow> b \<in> set (plBases (chPlan c))"
    using probe by (auto simp: c1_def probing_def)
  show ?thesis
  proof (cases "chPending c1 = []")
    case False
    with res have "c' = c1" by (auto simp: chain_signature_def c1_def Let_def split: if_splits)
    moreover have "probing c1"
      using probe gm_del_subset [of "rrSequence r" "chPending c"]
      using bases by (auto simp: probing_def c1 list_all_iff)
    ultimately show ?thesis using plan c1 by (simp add: chain_inv_def)
  next
    case True
    with res obtain b where b: "chSelected c1 = Some b"
      and q: "chain_queue (ucast b + 2) 2 SunSpecReadHeader
        (c1\<lparr>chRaw := chain_signature_words\<rparr>) = (None, c')"
      by (auto simp: chain_signature_def c1_def Let_def split: if_splits option.splits)
    have "unat (ucast b + 2 :: u32) = unat b + 2"
      using unat_u16_bound [of b] by (subst unat_add_u32) simp_all
    with queue_None [OF q] True have aw: "awaits c' (unat b + 2) 2 SunSpecReadHeader"
      and c': "c' = c1\<lparr>chRaw := chain_signature_words, chNext := chNext c', chPending := chPending c'\<rparr>"
      by (simp_all)
    have f: "chPlan c' = chPlan c" "chRaw c' = chain_signature_words" "chOcc c' = []"
      "chCurrent c' = None" "\<not> chComplete c'" "\<not> chFailed c'" "chSelected c' = Some b"
      using c1 b by (subst c', simp)+
    with aw plan bases b have "based c' b"
      by (simp add: based_def walking_def model_words_def plan_ok_def)
    with plan f show ?thesis by (auto simp: chain_inv_def)
  qed
qed

lemma take_two: "length xs = 2 \<Longrightarrow> xs = [xs ! 0, xs ! Suc 0]"
  by (cases xs; cases "tl xs") (auto simp: numeral_2_eq_2)

lemma of_nat_u32_small: "n \<le> 65536 \<Longrightarrow> unat (of_nat n :: u32) = n"
  by (simp add: unat_of_nat take_bit_nat_eq_self)

lemma min_sunspec: "unat (minSunSpec n) = min 125 (unat n)"
  by (auto simp: minSunSpec_def maxSunSpecReadWords_def word_less_nat_alt)

text \<open>A header view that is admitted: the chain is between models, with this request pending.\<close>

lemma walking_header:
  assumes w: "walking c base" and get: "gm_get (chPending c) (rrSequence r) = Some r"
    and p: "rrPurpose r = SunSpecReadHeader"
  shows "chCurrent c = None \<and> chRaw c = chain_signature_words @ model_words c
    \<and> length (chRaw c) + 2 \<le> unat (MaxTotalWords (plLimits (chPlan c)))
    \<and> chPending c = [(rrSequence r, r)] \<and> request_in_range r
    \<and> unat (rrAddress r) = base + length (chRaw c) \<and> rrWords r = 2"
proof (cases "chCurrent c")
  case None
  from w have walk: "chRaw c = chain_signature_words @ model_words c"
    "length (chRaw c) + 2 \<le> unat (MaxTotalWords (plLimits (chPlan c)))"
    "awaits c (base + length (chRaw c)) 2 SunSpecReadHeader"
    unfolding walking_def None option.case by blast+
  from awaits_get [OF walk(3) get] have "rrWords r = 2" by (simp add: word_unat_eq_iff)
  with awaits_get [OF walk(3) get] walk(1,2) None show ?thesis by blast
next
  case (Some cu)
  from w obtain n where "awaits c (base + length (chRaw c)) n SunSpecReadPayload"
    unfolding walking_def Some option.case by blast
  from awaits_get [OF this get] p show ?thesis by simp
qed

lemma walking_payload:
  assumes w: "walking c base" and get: "gm_get (chPending c) (rrSequence r) = Some r"
    and p: "rrPurpose r = SunSpecReadPayload"
  obtains cu where "chCurrent c = Some cu"
    "chRaw c = chain_signature_words @ model_words c @ cuWords cu" "current_ok c base cu"
    "chPending c = [(rrSequence r, r)]" "request_in_range r"
    "unat (rrAddress r) = base + length (chRaw c)"
    "unat (rrWords r) = min 125 (unat (cuLength cu) - (length (cuWords cu) - 2))"
proof (cases "chCurrent c")
  case None
  from w have "awaits c (base + length (chRaw c)) 2 SunSpecReadHeader"
    unfolding walking_def None option.case by blast
  from awaits_get [OF this get] p show ?thesis by simp
next
  case (Some cu)
  from w have walk: "chRaw c = chain_signature_words @ model_words c @ cuWords cu"
    "current_ok c base cu" "awaits c (base + length (chRaw c))
      (min 125 (unat (cuLength cu) - (length (cuWords cu) - 2))) SunSpecReadPayload"
    unfolding walking_def Some option.case by blast+
  from awaits_get [OF walk(3) get] that [OF Some walk(1,2)] show ?thesis by blast
qed

lemma header_inv:
  assumes based: "based c b" and plan: "plan_ok (chPlan c)" and open_walk: "\<not> chComplete c" "\<not> chFailed c"
    and get: "gm_get (chPending c) (rrSequence r) = Some r"
    and p: "rrPurpose r = SunSpecReadHeader" and len: "length (Words x) = unat (rrWords r)"
    and res: "chain_header r x c = (Inr s, c')"
  shows "based c' b \<and> chPlan c' = chPlan c \<and> \<not> chFailed c'
    \<and> (chComplete c' \<longrightarrow> s = chain_snapshot_of c') \<and> (\<not> chComplete c' \<longrightarrow> s = no_snapshot)"
proof -
  let ?base = "unat b" and ?max = "unat (MaxTotalWords (plLimits (chPlan c)))"
  have w: "walking c ?base" and sel: "chSelected c = Some b" and inb: "b \<in> set (plBases (chPlan c))"
    and tile: "occs_tile (?base + 2) 0 (chOcc c)"
    and occ: "length (chOcc c) \<le> unat (MaxOccurrences (plLimits (chPlan c)))"
    using based open_walk by (simp_all add: based_def)
  from walking_header [OF w get p] have cur: "chCurrent c = None"
    and raw: "chRaw c = chain_signature_words @ model_words c" and fits: "length (chRaw c) + 2 \<le> ?max"
    and pend: "chPending c = [(rrSequence r, r)]" and rng: "request_in_range r"
    and addr: "unat (rrAddress r) = ?base + length (chRaw c)" and two: "rrWords r = 2"
    by blast+
  define id where "id = Words x ! 0"
  define n where "n = Words x ! 1"
  have ws: "Words x = [id, n]" using take_two [of "Words x"] len two by (simp add: id_def n_def)
  have acc: "chPending (chain_accept r x c) = []" using accept_pending [OF pend] .
  show ?thesis
  proof (cases "id = sunSpecEndModel")
    case True
    with res have n: "n = 0"
      and c': "c' = (chain_accept r x c)\<lparr>chRaw := chRaw c @ [id, n], chComplete := True\<rparr>"
      and s: "s = chain_snapshot_of c'"
      by (auto simp: chain_header_def Let_def id_def n_def split: if_splits)
    have "?base + length (chRaw c) + 2 \<le> 65536"
      using rng addr two by (simp add: request_in_range_def)
    then have "completed_walk c' ?base"
      using acc cur raw fits True n by (simp add: completed_walk_def c' model_words_def)
    then show ?thesis using sel inb tile occ open_walk s by (simp add: based_def c')
  next
    case False
    define cu where "cu = \<lparr>cuId = id, cuLength = n, cuHeader = rrAddress r,
      cuSpans = [\<lparr>spLogicalViewID = LogicalViewID x, spPDUOffset = SliceOffset x, spWordCount = 2\<rparr>],
      cuWords = [id, n]\<rparr>"
    define c1 where "c1 = (chain_accept r x c)\<lparr>chRaw := chRaw c @ [id, n], chCurrent := Some cu\<rparr>"
    from res False have n: "n \<noteq> 0"
      and total: "\<not> of_nat (length (chRaw c)) + 2 + ucast n + 2 > MaxTotalWords (plLimits (chPlan c))"
      and count: "\<not> of_nat (length (chOcc c)) + 1 > MaxOccurrences (plLimits (chPlan c))"
      and q: "chain_queue (ucast (rrAddress r) + 2) (minSunSpec n) SunSpecReadPayload c1 = (None, c')"
      and s: "s = no_snapshot"
      by (auto simp: chain_header_def Let_def id_def n_def c1_def cu_def
          split: if_splits option.splits prod.splits)
    have maxlim: "?max \<le> 65536" using plan by (simp add: plan_ok_def)
    have raw_small: "length (chRaw c) \<le> 65536" using fits maxlim by linarith
    have sum: "unat (of_nat (length (chRaw c)) + 2 + ucast n + 2 :: u32) =
        length (chRaw c) + 2 + unat n + 2"
      using raw_small unat_u16_bound [of n] of_nat_u32_small [OF raw_small]
      by (simp add: unat_word_ariths)
    have tot: "length (chRaw c) + 2 + unat n + 2 \<le> ?max"
      using total sum by (simp add: word_less_nat_alt)
    have "length (chOcc c) \<le> 65536" using occ plan by (simp add: plan_ok_def)
    then have "unat (of_nat (length (chOcc c)) + 1 :: u32) = Suc (length (chOcc c))"
      using of_nat_u32_small [of "length (chOcc c)"] by (simp add: unat_word_ariths)
    with count have cnt: "Suc (length (chOcc c)) \<le> unat (MaxOccurrences (plLimits (chPlan c)))"
      by (simp add: word_less_nat_alt)
    have a2: "unat (ucast (rrAddress r) + 2 :: u32) = unat (rrAddress r) + 2"
      using unat_u16_bound [of "rrAddress r"] by (subst unat_add_u32) simp_all
    from queue_None [OF q] acc
    have aw: "awaits c' (unat (rrAddress r) + 2) (min 125 (unat n)) SunSpecReadPayload"
      and c': "c' = c1\<lparr>chNext := chNext c', chPending := chPending c'\<rparr>"
      by (simp_all add: c1_def a2 min_sunspec)
    have f: "chPlan c' = chPlan c" "chRaw c' = chRaw c @ [id, n]" "chOcc c' = chOcc c"
      "chCurrent c' = Some cu" "\<not> chComplete c'" "\<not> chFailed c'" "chSelected c' = Some b"
      using open_walk sel by (subst c', simp add: c1_def)+
    have "0 < unat n" using n by (simp add: unat_gt_0)
    then have "current_ok c' ?base cu"
      using False n addr raw tot cnt
      by (simp add: current_ok_def cu_def model_words_def f)
    moreover have "awaits c' (?base + length (chRaw c'))
        (min 125 (unat (cuLength cu) - (length (cuWords cu) - 2))) SunSpecReadPayload"
      using aw addr by (simp add: f cu_def)
    ultimately have "walking c' ?base"
      using raw by (simp add: walking_def f model_words_def) (simp add: cu_def)
    then show ?thesis using f inb tile occ s by (simp add: based_def)
  qed
qed

lemma payload_inv:
  assumes based: "based c b" and plan: "plan_ok (chPlan c)" and open_walk: "\<not> chComplete c" "\<not> chFailed c"
    and get: "gm_get (chPending c) (rrSequence r) = Some r"
    and p: "rrPurpose r = SunSpecReadPayload" and len: "length (Words x) = unat (rrWords r)"
    and res: "chain_payload structural r x c = (None, c')"
  shows "based c' b \<and> chPlan c' = chPlan c \<and> \<not> chFailed c' \<and> \<not> chComplete c'"
proof -
  let ?base = "unat b" and ?max = "unat (MaxTotalWords (plLimits (chPlan c)))"
  have w: "walking c ?base" and sel: "chSelected c = Some b" and inb: "b \<in> set (plBases (chPlan c))"
    and tile: "occs_tile (?base + 2) 0 (chOcc c)"
    and occ: "length (chOcc c) \<le> unat (MaxOccurrences (plLimits (chPlan c)))"
    using based open_walk by (simp_all add: based_def)
  from walking_payload [OF w get p] obtain cu where cur: "chCurrent c = Some cu"
    and raw: "chRaw c = chain_signature_words @ model_words c @ cuWords cu"
    and cok: "current_ok c ?base cu" and pend: "chPending c = [(rrSequence r, r)]"
    and rng: "request_in_range r" and addr: "unat (rrAddress r) = ?base + length (chRaw c)"
    and words: "unat (rrWords r) = min 125 (unat (cuLength cu) - (length (cuWords cu) - 2))"
    by blast
  define k where "k = length (cuWords cu) - 2"
  have k: "k < unat (cuLength cu)" "length (cuWords cu) = k + 2"
    using cok unfolding current_ok_def k_def by linarith+
  have words': "unat (rrWords r) = min 125 (unat (cuLength cu) - k)"
    using words by (simp only: k_def)
  define got :: u16 where "got = of_nat k + rrWords r"
  have got: "unat got = k + unat (rrWords r)"
  proof -
    have "k + unat (rrWords r) \<le> unat (cuLength cu)" using words' k(1) by linarith
    then have "k + unat (rrWords r) < 65536" using unat_u16_bound [of "cuLength cu"] by linarith
    then show ?thesis by (simp add: got_def unat_word_ariths unat_of_nat_u16)
  qed
  have acc: "chPending (chain_accept r x c) = []" using accept_pending [OF pend] .
  have na: "unat (ucast (rrAddress r) + ucast (rrWords r) :: u32) = unat (rrAddress r) + unat (rrWords r)"
    by (rule u32_sum_u16)
  define cu1 where "cu1 = cu\<lparr>cuWords := cuWords cu @ Words x,
    cuSpans := cuSpans cu @ [\<lparr>spLogicalViewID = LogicalViewID x, spPDUOffset = SliceOffset x,
      spWordCount = rrWords r\<rparr>]\<rparr>"
  have cu1: "cuId cu1 = cuId cu" "cuLength cu1 = cuLength cu" "cuHeader cu1 = cuHeader cu"
    "length (cuWords cu1) = k + 2 + unat (rrWords r)" "take 2 (cuWords cu1) = [cuId cu, cuLength cu]"
    "span_words (cuSpans cu1) = length (cuWords cu1)" "cuWords cu1 = cuWords cu @ Words x"
    using cok len k by (auto simp: cu1_def current_ok_def)
  define c1 where "c1 = (chain_accept r x c)\<lparr>chRaw := chRaw c @ Words x\<rparr>"
  show ?thesis
  proof (cases "got = cuLength cu")
    case False
    with res cur have q: "chain_queue (ucast (rrAddress r) + ucast (rrWords r))
        (minSunSpec (cuLength cu - got)) SunSpecReadPayload (c1\<lparr>chCurrent := Some cu1\<rparr>) = (None, c')"
      by (auto simp: chain_payload_def Let_def got_def k_def c1_def cu1_def split: option.splits)
    have lt: "unat got < unat (cuLength cu)"
    proof -
      have "unat got \<noteq> unat (cuLength cu)" using False by (simp add: word_unat_eq_iff)
      then show ?thesis using got words' k(1) by linarith
    qed
    then have left: "unat (cuLength cu - got) = unat (cuLength cu) - unat got"
      by (intro unat_sub) (simp add: word_le_nat_alt)
    from queue_None [OF q] acc
    have aw: "awaits c' (unat (rrAddress r) + unat (rrWords r))
        (min 125 (unat (cuLength cu) - unat got)) SunSpecReadPayload"
      and c': "c' = c1\<lparr>chCurrent := Some cu1, chNext := chNext c', chPending := chPending c'\<rparr>"
      by (simp_all add: c1_def na min_sunspec left)
    have f: "chPlan c' = chPlan c" "chRaw c' = chRaw c @ Words x" "chOcc c' = chOcc c"
      "chCurrent c' = Some cu1" "\<not> chComplete c'" "\<not> chFailed c'" "chSelected c' = Some b"
      using open_walk sel by (subst c', simp add: c1_def)+
    have "current_ok c' ?base cu1"
      using cok lt got k(2) len by (simp add: current_ok_def cu1 f model_words_def)
    moreover have "awaits c' (?base + length (chRaw c'))
        (min 125 (unat (cuLength cu1) - (length (cuWords cu1) - 2))) SunSpecReadPayload"
      using aw addr len got k(2) by (simp add: f cu1 algebra_simps)
    ultimately have "walking c' ?base"
      unfolding walking_def f option.case by (simp add: raw f model_words_def cu1(7))
    then show ?thesis using f inb tile occ by (simp add: based_def)
  next
    case True
    define y where "y = finish_occurrence structural c cu1"
    from True res cur have q: "chain_queue (ucast (rrAddress r) + ucast (rrWords r)) 2
        SunSpecReadHeader (c1\<lparr>chOcc := chOcc c @ [y], chCurrent := None\<rparr>) = (None, c')"
      by (auto simp: chain_payload_def Let_def got_def k_def c1_def cu1_def y_def split: option.splits)
    from queue_None [OF q] acc
    have aw: "awaits c' (unat (rrAddress r) + unat (rrWords r)) 2 SunSpecReadHeader"
      and c': "c' = c1\<lparr>chOcc := chOcc c @ [y], chCurrent := None, chNext := chNext c',
        chPending := chPending c'\<rparr>"
      by (simp_all add: c1_def na)
    have f: "chPlan c' = chPlan c" "chRaw c' = chRaw c @ Words x" "chOcc c' = chOcc c @ [y]"
      "chCurrent c' = None" "\<not> chComplete c'" "\<not> chFailed c'" "chSelected c' = Some b"
      using open_walk sel by (subst c', simp add: c1_def)+
    have y: "ocWords y = cuWords cu1" "ocHeaderOffset y = cuHeader cu"
      "wkModelID (ocWireKey y) = cuId cu" "wkModelLength (ocWireKey y) = cuLength cu"
      "ocSpans y = cuSpans cu1" "ocOrdinal y = of_nat (Suc (length (chOcc c)))"
      by (simp_all add: y_def finish_occurrence_def Let_def cu1)
    have size: "length (cuWords cu1) = 2 + unat (cuLength cu)"
      using cu1(4) got True by simp
    have "occs_tile (?base + 2) 0 (chOcc c @ [y])"
      using tile cok cu1 size
      by (simp add: occs_tile_append y current_ok_def model_words_def)
    moreover have mw: "model_words c' = model_words c @ cuWords cu1"
      by (simp add: model_words_def f y)
    moreover have "walking c' ?base"
    proof -
      have raw': "chRaw c' = chain_signature_words @ model_words c'"
        by (simp add: f raw mw cu1(7))
      have "length (chRaw c') + 2 \<le> unat (MaxTotalWords (plLimits (chPlan c')))"
        using cok size by (simp add: raw' mw current_ok_def f(1))
      moreover have "awaits c' (?base + length (chRaw c')) 2 SunSpecReadHeader"
        using aw addr len by (simp add: f algebra_simps)
      ultimately show ?thesis unfolding walking_def f(4) option.case using raw' by blast
    qed
    ultimately show ?thesis using f inb cok by (simp add: based_def current_ok_def)
  qed
qed

section \<open>The chain as an event machine\<close>

definition chain_step :: "(wire_key \<Rightarrow> u16 list \<Rightarrow> source_span list \<Rightarrow> bool) \<Rightarrow> read_request \<times> logical_view
    \<Rightarrow> chain \<Rightarrow> chain" where
  "chain_step structural e c = snd (AdmitReplay structural (fst e) (snd e) c)"

lemma validateSource_fields:
  assumes "validateSourceIdentity x c = Inr c0"
  shows "chPlan c0 = chPlan c \<and> chPending c0 = chPending c \<and> chSelected c0 = chSelected c
    \<and> chRaw c0 = chRaw c \<and> chOcc c0 = chOcc c \<and> chCurrent c0 = chCurrent c
    \<and> chComplete c0 = chComplete c \<and> chFailed c0 = chFailed c \<and> chSources c0 = chSources c"
  using assms by (auto simp: validateSourceIdentity_def Let_def split: if_splits)

lemma chain_signature_plan: "chPlan (snd (chain_signature r x c)) = chPlan c"
  by (simp add: chain_signature_def chain_queue_def Let_def split: option.split)

lemma chain_header_plan: "chPlan (snd (chain_header r x c)) = chPlan c"
  by (simp add: chain_header_def chain_queue_def Let_def split: option.split)

lemma chain_payload_plan: "chPlan (snd (chain_payload structural r x c)) = chPlan c"
  by (simp add: chain_payload_def chain_queue_def Let_def split: option.split)

lemma fail_inv_of:
  assumes "plan_ok (chPlan c)" and "chPlan c' = chPlan c"
  shows "chain_inv (chain_fail c')"
  using assms fail_inv by simp

lemma based_inv: "plan_ok (chPlan c) \<Longrightarrow> \<not> chFailed c \<Longrightarrow> based c b \<Longrightarrow> chain_inv c"
  by (auto simp: chain_inv_def)

text \<open>The one state change an admission makes, with its result.\<close>

lemma admit_inv:
  assumes inv: "chain_inv c" and res: "AdmitReplay structural r x c = (out, c')"
  shows "chain_inv c' \<and> (\<forall>s. out = Inr s \<longrightarrow> \<not> chFailed c' \<and>
    (chComplete c' \<longrightarrow> s = chain_snapshot_of c') \<and> (\<not> chComplete c' \<longrightarrow> s = no_snapshot))"
proof -
  have plan: "plan_ok (chPlan c)" using inv by (simp add: chain_inv_def)
  show ?thesis
  proof (cases "c' = c \<and> (\<exists>e. out = Inl e)")
    case True
    with inv show ?thesis by auto
  next
    case False
    with res have ok: "\<not> chComplete c" "\<not> chFailed c"
      and get: "gm_get (chPending c) (rrSequence r) = Some r"
      and len: "length (Words x) = unat (rrWords r)"
      by (auto simp: AdmitReplay_def split: if_splits)
    show ?thesis
    proof (cases "validateSourceIdentity x c")
      case (Inl e)
      with res False have "c' = chain_fail c" "out = Inl e"
        by (auto simp: AdmitReplay_def split: if_splits)
      with fail_inv [OF plan] show ?thesis by simp
    next
      case (Inr c0)
      note same = validateSource_fields [OF Inr]
      have inv0: "chain_inv c0" using inv inv_congruent [of c0 c] same by simp
      have plan0: "plan_ok (chPlan c0)" using plan same by simp
      have get0: "gm_get (chPending c0) (rrSequence r) = Some r" using get same by simp
      have ok0: "\<not> chComplete c0" "\<not> chFailed c0" using ok same by simp_all
      have "(out, c') = admitReplay_dispatch structural r x c0"
        using res False Inr by (auto simp: AdmitReplay_def split: if_splits)
      note result = this [unfolded admitReplay_dispatch_def]
      have not_probing: "\<not> probing c0" if "rrPurpose r \<noteq> SunSpecReadSignature"
        using get0 that gm_get_in [OF get0] by (auto simp: probing_def list_all_iff)
      show ?thesis
      proof (cases "rrPurpose r")
        case SunSpecReadSignature
        obtain o1 c1 where sg: "chain_signature r x c0 = (o1, c1)" by (cases "chain_signature r x c0")
        show ?thesis
        proof (cases o1)
          case None
          with sg have "chain_signature r x c0 = (None, c1)" by simp
          from signature_inv [OF inv0 ok0(2,1) get0 SunSpecReadSignature this]
          have "chain_inv c1" .
          moreover have "\<not> chComplete c1 \<and> \<not> chFailed c1"
            using sg ok0 None
            by (auto simp: chain_signature_def Let_def chain_queue_def split: if_splits option.splits)
          ultimately show ?thesis using result SunSpecReadSignature sg None by simp
        next
          case (Some e)
          have "chPlan c1 = chPlan c0" using chain_signature_plan [of r x c0] by (simp add: sg)
          with fail_inv_of [OF plan0] result SunSpecReadSignature sg Some show ?thesis by simp
        qed
      next
        case SunSpecReadHeader
        with inv0 ok0 not_probing obtain b where b: "based c0 b" by (auto simp: chain_inv_def)
        then have sel: "chSelected c0 \<noteq> None" by (simp add: based_def)
        obtain o1 c1 where sg: "chain_header r x c0 = (o1, c1)" by (cases "chain_header r x c0")
        show ?thesis
        proof (cases o1)
          case (Inr s)
          with sg have "chain_header r x c0 = (Inr s, c1)" by simp
          from header_inv [OF b plan0 ok0 get0 SunSpecReadHeader len this]
          have "chain_inv c1" and "\<not> chFailed c1 \<and> (chComplete c1 \<longrightarrow> s = chain_snapshot_of c1)
              \<and> (\<not> chComplete c1 \<longrightarrow> s = no_snapshot)"
            using plan0 based_inv by auto
          then show ?thesis using result SunSpecReadHeader sg Inr sel by simp
        next
          case (Inl e)
          have "chPlan c1 = chPlan c0" using chain_header_plan [of r x c0] by (simp add: sg)
          with fail_inv_of [OF plan0] result SunSpecReadHeader sg Inl sel show ?thesis by simp
        qed
      next
        case SunSpecReadPayload
        with inv0 ok0 not_probing obtain b where b: "based c0 b" by (auto simp: chain_inv_def)
        then have sel: "chSelected c0 \<noteq> None" by (simp add: based_def)
        obtain o1 c1 where sg: "chain_payload structural r x c0 = (o1, c1)"
          by (cases "chain_payload structural r x c0")
        show ?thesis
        proof (cases o1)
          case None
          with sg have "chain_payload structural r x c0 = (None, c1)" by simp
          from payload_inv [OF b plan0 ok0 get0 SunSpecReadPayload len this]
          have "chain_inv c1" "\<not> chComplete c1" "\<not> chFailed c1" using plan0 based_inv by auto
          then show ?thesis using result SunSpecReadPayload sg None sel by simp
        next
          case (Some e)
          have "chPlan c1 = chPlan c0" using chain_payload_plan [of structural r x c0] by (simp add: sg)
          with fail_inv_of [OF plan0] result SunSpecReadPayload sg Some sel show ?thesis by simp
        qed
      qed
    qed
  qed
qed

definition chain_progress :: "chain \<Rightarrow> chain \<Rightarrow> bool" where
  "chain_progress c c' \<longleftrightarrow> prefix (chOcc c) (chOcc c')
     \<and> (chComplete c \<or> chFailed c \<longrightarrow> c' = c) \<and> chPlan c' = chPlan c"

lemma signature_occ: "chOcc (snd (chain_signature r x c)) = chOcc c"
  by (simp add: chain_signature_def chain_queue_def Let_def split: option.split)

lemma header_occ: "chOcc (snd (chain_header r x c)) = chOcc c"
  by (simp add: chain_header_def chain_queue_def Let_def split: option.split)

lemma payload_occ: "prefix (chOcc c) (chOcc (snd (chain_payload structural r x c)))"
  by (simp add: chain_payload_def chain_queue_def Let_def split: option.split)

lemma fail_occ [simp]: "chOcc (chain_fail c) = chOcc c" "chPlan (chain_fail c) = chPlan c"
  by (simp_all add: chain_fail_def)

lemma dispatch_progress:
  "prefix (chOcc c) (chOcc (snd (admitReplay_dispatch structural r x c)))
   \<and> chPlan (snd (admitReplay_dispatch structural r x c)) = chPlan c"
  using signature_occ [of r x c] header_occ [of r x c] payload_occ [of c structural r x]
    chain_signature_plan [of r x c] chain_header_plan [of r x c] chain_payload_plan [of structural r x c]
  by (cases "rrPurpose r"; cases "chain_signature r x c"; cases "chain_header r x c";
      cases "chain_payload structural r x c")
     (simp_all add: admitReplay_dispatch_def split: option.split sum.split)

lemma chain_step_progress: "chain_progress c (chain_step structural e c)"
proof (cases "validateSourceIdentity (snd e) c")
  case (Inl err)
  then show ?thesis
    by (simp add: chain_progress_def chain_step_def AdmitReplay_def split: option.split)
next
  case (Inr c0)
  with validateSource_fields [OF Inr] dispatch_progress [of c0 structural "fst e" "snd e"]
  show ?thesis
    by (simp add: chain_progress_def chain_step_def AdmitReplay_def split: option.split)
qed

interpretation sunspec_chain: event_machine "chain_step structural" "\<lambda>_. True" chain_inv chain_progress
proof unfold_locales
  show "chain_inv s \<Longrightarrow> chain_inv (chain_step structural e s)" for s e
    using admit_inv [of s structural "fst e" "snd e"]
    by (cases "AdmitReplay structural (fst e) (snd e) s") (simp add: chain_step_def)
  show "chain_progress s (chain_step structural e s)" for s e by (rule chain_step_progress)
  show "chain_progress s s" for s by (simp add: chain_progress_def)
  show "chain_progress a b \<Longrightarrow> chain_progress b c \<Longrightarrow> chain_progress a c" for a b c
    by (auto simp: chain_progress_def)
qed

lemma check_bases_None: "check_bases seen bs = None \<Longrightarrow> b \<in> set bs \<Longrightarrow> sunSpecEnd b 2 = None"
  by (induction bs arbitrary: seen) (auto split: if_splits option.splits)

lemma gm_put_subset: "set (gm_put k v m) \<subseteq> insert (k, v) (set m)"
  unfolding gm_put_def by (induction m) auto

lemma initial_pending:
  "(s, q) \<in> set (fold (\<lambda>r m. gm_put (rrSequence r) (r\<lparr>rrInstance := inst\<rparr>) m) rs m)
    \<Longrightarrow> (s, q) \<in> set m \<or> (\<exists>r \<in> set rs. q = r\<lparr>rrInstance := inst\<rparr>)"
proof (induction rs arbitrary: m)
  case Nil
  then show ?case by simp
next
  case (Cons r rs)
  from Cons.IH [of "gm_put (rrSequence r) (r\<lparr>rrInstance := inst\<rparr>) m"] Cons.prems
    gm_put_subset [of "rrSequence r" "r\<lparr>rrInstance := inst\<rparr>" m]
  show ?case by auto
qed

lemma new_chain_inv:
  assumes "NewSunSpecChainPlan nonce s = Inr p"
  shows "chain_inv (NewSunSpecChain inst p) \<and> plLimits p = psLimits s \<and> plBases p = psBases s"
proof -
  have p: "plLimits p = psLimits s" "plBases p = psBases s" "plInitial p = initial_requests nonce (psBases s)"
    and bases: "check_bases {} (psBases s) = None"
    and lim: "\<not> MaxTotalWords (psLimits s) < 4" "MaxOccurrences (psLimits s) \<noteq> 0"
      "\<not> MaxTotalWords (psLimits s) > 65536"
      "\<not> MaxOccurrences (psLimits s) > MaxTotalWords (psLimits s) div 2"
    using assms by (auto simp: NewSunSpecChainPlan_def split: if_splits option.splits sum.splits prod.splits)
  have "unat (MaxTotalWords (psLimits s) div 2) = unat (MaxTotalWords (psLimits s)) div 2"
    by (simp add: unat_div)
  then have plan: "plan_ok p"
    using lim unat_gt_0 [of "MaxOccurrences (psLimits s)"]
    by (auto simp: plan_ok_def p word_less_nat_alt)
  have req: "rrPurpose r = SunSpecReadSignature \<and> request_in_range r \<and> rrWords r = 2
      \<and> rrAddress r \<in> set (psBases s)" if "r \<in> set (plInitial p)" for r
  proof -
    have "rrAddress r \<in> set (psBases s) \<and> rrWords r = 2 \<and> rrPurpose r = SunSpecReadSignature"
      using that by (auto simp: p initial_requests_def in_set_enumerate_eq)
    with check_bases_None [OF bases] show ?thesis
      by (auto simp: request_in_range_def sunSpecEnd_None)
  qed
  have "probing (NewSunSpecChain inst p)" if "inst \<noteq> 0"
    using that req initial_pending [where m = "[]"]
    by (fastforce simp: probing_def NewSunSpecChain_def list_all_iff p request_in_range_def)
  with plan p show ?thesis
    by (auto simp: chain_inv_def NewSunSpecChain_def)
qed

section \<open>Properties\<close>

text \<open>C4: A completed discovery has read exactly one chain: whenever the walker returns a snapshot
  with words in it, after any series of admissions from a plan that was accepted, the words are
  the signature, then for each occurrence its header and its declared payload, then the end
  marker; the occurrences lie one after the other from a planned base on, each covered by its
  source spans, and the whole stays within the planned word and occurrence bounds and the 16-bit
  address space.\<close>
theorem discovered_chain_is_contiguous:
  assumes "NewSunSpecChainPlan nonce s = Inr p"
    and "AdmitReplay structural r x (fold (chain_step structural) es (NewSunSpecChain inst p)) = (Inr snap, c')"
    and "snRaw snap \<noteq> []"
  shows "\<exists>b \<in> set (psBases s).
    snRaw snap = chain_signature_words @ concat (map ocWords (snOccurrences snap)) @ [sunSpecEndModel, 0]
    \<and> occs_tile (unat b + 2) 0 (snOccurrences snap)
    \<and> length (snRaw snap) \<le> unat (MaxTotalWords (psLimits s))
    \<and> length (snOccurrences snap) \<le> unat (MaxOccurrences (psLimits s))
    \<and> unat b + length (snRaw snap) \<le> 65536"
proof -
  let ?c = "fold (chain_step structural) es (NewSunSpecChain inst p)"
  note new = new_chain_inv [OF assms(1), of inst]
  have inv: "chain_inv ?c" using sunspec_chain.run_inv new by (simp add: list_all_iff)
  have "snap \<noteq> no_snapshot" using assms(3) by (auto simp: no_snapshot_def)
  with admit_inv [OF inv assms(2)] have c': "chain_inv c'" "chComplete c'"
    "snap = chain_snapshot_of c'" "\<not> chFailed c'" by blast+
  have "c' = chain_step structural (r, x) ?c" by (simp add: chain_step_def assms(2))
  then have "chPlan c' = p"
    using sunspec_chain.run_progress [of "NewSunSpecChain inst p" es structural] new
      chain_step_progress [of ?c structural "(r, x)"]
    by (simp add: chain_progress_def list_all_iff NewSunSpecChain_def)
  moreover obtain b where "based c' b" using c' by (auto simp: chain_inv_def probing_def)
  ultimately show ?thesis using c' new
    by (intro bexI [of _ b])
       (auto simp: based_def completed_walk_def chain_snapshot_of_def model_words_def)
qed

definition example_plan_spec :: plan_spec where
  "example_plan_spec = \<lparr>psRevision = ''v2'', psBases = [40000],
     psLimits = \<lparr>MaxTotalWords = 64, MaxOccurrences = 8\<rparr>, psDecoderKeys = [],
     psStructuralIDs = []\<rparr>"

definition example_plan :: chain_plan where
  "example_plan = (case NewSunSpecChainPlan 1 example_plan_spec of Inr p \<Rightarrow> p
     | Inl _ \<Rightarrow> \<lparr>plRevision = '''', plBases = [], plLimits = \<lparr>MaxTotalWords = 0, MaxOccurrences = 0\<rparr>,
         plKeys = [], plKnown = {}, plStructuralIDs = {}, plNonce = 0, plInitial = []\<rparr>)"

definition example_read :: "u64 \<Rightarrow> u16 \<Rightarrow> purpose \<Rightarrow> u16 list \<Rightarrow> read_request \<times> logical_view" where
  "example_read sequence address p words =
     (\<lparr>rrAddress = address, rrWords = of_nat (length words), rrPurpose = p, rrNonce = 1,
       rrInstance = 1, rrSequence = sequence\<rparr>,
      example_view\<lparr>LogicalViewID := sequence, PhysicalRequestID := sequence,
        WireResponseID := sequence, LogicalOffset := address,
        LogicalWordCount := of_nat (length words), Words := words\<rparr>)"

definition example_reads :: "(read_request \<times> logical_view) list" where
  "example_reads = [example_read 1 40000 SunSpecReadSignature chain_signature_words,
     example_read 2 40002 SunSpecReadHeader [1, 1], example_read 3 40004 SunSpecReadPayload [7]]"

definition example_last_read :: "read_request \<times> logical_view" where
  "example_last_read = example_read 4 40005 SunSpecReadHeader [0xffff, 0]"

definition admitted_raw :: "(chain_error + chain_snapshot) \<times> chain \<Rightarrow> u16 list" where
  "admitted_raw r = (case fst r of Inl _ \<Rightarrow> [] | Inr s \<Rightarrow> snRaw s)"

definition no_structure :: "wire_key \<Rightarrow> u16 list \<Rightarrow> source_span list \<Rightarrow> bool" where
  "no_structure k ws spans = False"

lemma example_plan_accepted: "NewSunSpecChainPlan 1 example_plan_spec = Inr example_plan"
proof -
  have "(case NewSunSpecChainPlan 1 example_plan_spec of Inr p \<Rightarrow> True | Inl _ \<Rightarrow> False) = True"
    by code_simp
  then show ?thesis
    by (cases "NewSunSpecChainPlan 1 example_plan_spec") (simp_all add: example_plan_def)
qed

lemma example_discovery:
  "admitted_raw (AdmitReplay no_structure (fst example_last_read) (snd example_last_read)
     (fold (chain_step no_structure) example_reads (NewSunSpecChain 1 example_plan))) =
   [sunSpecSignatureFirst, sunSpecSignatureSecond, 1, 1, 7, sunSpecEndModel, 0]"
  by code_simp

theorem discovered_chain_is_contiguous_witness:
  "\<exists>b \<in> {40000 :: u16}. \<exists>occs. [sunSpecSignatureFirst, sunSpecSignatureSecond, 1, 1, 7, sunSpecEndModel, 0] =
     chain_signature_words @ concat (map ocWords occs) @ [sunSpecEndModel, 0]
     \<and> occs_tile (unat b + 2) 0 occs"
proof -
  obtain out c' where res: "AdmitReplay no_structure (fst example_last_read) (snd example_last_read)
      (fold (chain_step no_structure) example_reads (NewSunSpecChain 1 example_plan)) = (out, c')"
    by (cases "AdmitReplay no_structure (fst example_last_read) (snd example_last_read)
      (fold (chain_step no_structure) example_reads (NewSunSpecChain 1 example_plan))")
  with example_discovery obtain snap where "out = Inr snap"
    and raw: "snRaw snap = [sunSpecSignatureFirst, sunSpecSignatureSecond, 1, 1, 7, sunSpecEndModel, 0]"
    by (cases out) (auto simp: admitted_raw_def)
  with discovered_chain_is_contiguous [OF example_plan_accepted, where snap = snap and c' = c'] res
  show ?thesis by (fastforce simp: example_plan_spec_def)
qed

text \<open>C40: Every read the walker asks for is a legal one: at any point of a discovery each pending
  request reads between 1 and 125 holding registers inside the 16-bit address space.\<close>
theorem pending_reads_are_legal:
  assumes "NewSunSpecChainPlan nonce s = Inr p"
  shows "list_all (\<lambda>(k, q). request_in_range q)
    (chPending (fold (chain_step structural) es (NewSunSpecChain inst p)))"
proof -
  let ?c = "fold (chain_step structural) es (NewSunSpecChain inst p)"
  have inv: "chain_inv ?c"
    using sunspec_chain.run_inv new_chain_inv [OF assms, of inst] by (simp add: list_all_iff)
  have "list_all (\<lambda>(k, q). request_in_range q) (chPending ?c)" if "based ?c b" for b
    using that
    by (auto simp: based_def completed_walk_def walking_def awaits_def split: if_splits option.splits)
  moreover have "list_all (\<lambda>(k, q). request_in_range q) (chPending ?c)" if "probing ?c"
    using that by (auto simp: probing_def list_all_iff)
  ultimately show ?thesis using inv by (auto simp: chain_inv_def split: if_splits)
qed

theorem pending_reads_are_legal_witness:
  "list_all (\<lambda>(k, q). request_in_range q)
    (chPending (fold (chain_step no_structure) example_reads (NewSunSpecChain 1 example_plan)))"
  using pending_reads_are_legal [OF example_plan_accepted] by blast

end
