(* ===== verification/SunSpec_Catalog.thy ===== *)
theory SunSpec_Catalog
  imports SunSpec_Models_V2 SunSpec_Chain
begin

text \<open>
  The catalogue of SunSpec model definitions (\<^verbatim>\<open>sunspec_model_catalog.go\<close>,
  \<^verbatim>\<open>sunspec_models_mppt.go\<close>, \<^verbatim>\<open>sunspec_models_environmental.go\<close>,
  \<^verbatim>\<open>sunspec_models_der_v2.go\<close>): how points are placed in a model, the standard
  definitions of both schema revisions, the models with a repeating group, and the check of
  every table they are built from.
\<close>

section \<open>Placing points\<close>

datatype topology =
    SunSpecTopologyNone | SunSpecTopologySinglePhase | SunSpecTopologySplitPhase
  | SunSpecTopologyThreePhase

record model_definition =
  mdKey :: decoder_key
  mdTopology :: topology
  mdCompatibility :: bool
  mdPoints :: "point_definition list"
  mdGeometry :: "(u16 list \<Rightarrow> bool) option"

datatype catalog_error =
    PointSizeZero | PointsUnaddressable | CatalogExtent | RevisionUnsupported | KeyGeometry
  | ModelUnsupported | RegistryKeyDuplicated

fun place_points :: "nat \<Rightarrow> point_definition list \<Rightarrow> catalog_error + (point_definition list \<times> nat)" where
  "place_points extent [] = Inr ([], extent)"
| "place_points extent (p # ps) =
     (if pdSize p = 0 then Inl PointSizeZero
      else if extent > 65535 \<or> extent + unat (pdSize p) > 65536 then Inl PointsUnaddressable
      else (case place_points (extent + unat (pdSize p)) ps of
              Inl e \<Rightarrow> Inl e
            | Inr (placed, final) \<Rightarrow> Inr (p\<lparr>pdOffset := of_nat extent\<rparr> # placed, final)))"

definition appendSunSpecDefinition :: "model_definition list \<Rightarrow> string \<Rightarrow> u16 \<Rightarrow> u16 \<Rightarrow> topology \<Rightarrow> bool
    \<Rightarrow> point_definition list \<Rightarrow> catalog_error + model_definition list" where
  "appendSunSpecDefinition values revision modelID modelLength topology compatibility points =
     (case place_points 0 points of
        Inl e \<Rightarrow> Inl e
      | Inr (placed, extent) \<Rightarrow>
          (if extent \<noteq> unat modelLength + 2 then Inl CatalogExtent
           else Inr (values @ [\<lparr>mdKey = \<lparr>dkModelID = modelID, dkModelLength = modelLength,
                  dkSchemaRevision = revision\<rparr>, mdTopology = topology,
                mdCompatibility = compatibility, mdPoints = placed, mdGeometry = None\<rparr>])))"

section \<open>The standard definitions\<close>

definition SunSpecModelsRevisionV1 :: string where
  "SunSpecModelsRevisionV1 = ''sunspec.models@7abdf898-v1''"

definition SunSpecModelsRevisionV2 :: string where
  "SunSpecModelsRevisionV2 = ''sunspec.models@90b4a331-v2''"

type_synonym catalog_row = "u16 \<times> u16 \<times> topology \<times> bool \<times> point_definition list"

fun append_rows :: "string \<Rightarrow> model_definition list \<Rightarrow> catalog_row list
    \<Rightarrow> catalog_error + model_definition list" where
  "append_rows revision values [] = Inr values"
| "append_rows revision values ((modelID, modelLength, topology, compatibility, points) # rows) =
     (case appendSunSpecDefinition values revision modelID modelLength topology compatibility points of
        Inl e \<Rightarrow> Inl e
      | Inr values' \<Rightarrow> append_rows revision values' rows)"

definition rows_V2 :: "catalog_row list" where
  "rows_V2 = map (\<lambda>(modelID, modelLength, points). (modelID, modelLength, SunSpecTopologyNone, False, points))
     [(1, 66, commonSunSpecPoints),
      (701, 153, derMeasureACV2SunSpecPoints),
      (702, 50, derCapacityV2SunSpecPoints),
      (703, 17, derEnterServiceV2SunSpecPoints),
      (713, 7, derStorageCapacityV2SunSpecPoints),
      (715, 7, derControlV2SunSpecPoints),
      (802, 62, bessBaseV2SunSpecPoints),
      (805, 42, bessModuleV2SunSpecPoints),
      (806, 1, flowBatteryV2SunSpecPoints),
      (807, 34, flowBatteryStringV2SunSpecPoints),
      (808, 1, flowBatteryModuleV2SunSpecPoints),
      (809, 1, flowBatteryStackV2SunSpecPoints)]"

definition standardSunSpecModelDefinitionsV2 :: "string \<Rightarrow> catalog_error + model_definition list" where
  "standardSunSpecModelDefinitionsV2 revision = append_rows revision [] rows_V2"

definition inverter_rows :: "catalog_row list" where
  "inverter_rows = map (\<lambda>(modelID, modelLength, topology, points).
       (modelID, modelLength, topology, False, mark_mandatory (sunSpecPointMandatory modelID) points))
     [(101, 50, SunSpecTopologySinglePhase, integerInverterSunSpecPoints),
      (102, 50, SunSpecTopologySplitPhase, integerInverterSunSpecPoints),
      (103, 50, SunSpecTopologyThreePhase, integerInverterSunSpecPoints),
      (111, 60, SunSpecTopologySinglePhase, floatInverterSunSpecPoints inverterModel111StatusSymbols),
      (112, 60, SunSpecTopologySplitPhase, floatInverterSunSpecPoints inverterStatusSymbols),
      (113, 60, SunSpecTopologyThreePhase, floatInverterSunSpecPoints inverterStatusSymbols)]"

definition plain_rows :: "catalog_row list" where
  "plain_rows = map (\<lambda>(modelID, modelLength, points). (modelID, modelLength, SunSpecTopologyNone, False, points))
     [(120, 26, nameplateSunSpecPoints), (121, 30, settingsSunSpecPoints),
      (122, 44, statusSunSpecPoints), (123, 24, immediateControlsSunSpecPoints),
      (124, 24, storageSunSpecPoints),
      (201, 105, integerMeterSunSpecPoints 201), (202, 105, integerMeterSunSpecPoints 202),
      (203, 105, integerMeterSunSpecPoints 203), (204, 105, integerMeterSunSpecPoints 204),
      (211, 124, floatMeterSunSpecPoints 211), (212, 124, floatMeterSunSpecPoints 212),
      (213, 124, floatMeterSunSpecPoints 213), (214, 124, floatMeterSunSpecPoints 214),
      (305, 36, locationSunSpecPoints), (306, 4, referencePointSunSpecPoints),
      (307, 11, baseMetSunSpecPoints), (308, 4, miniMetSunSpecPoints)]"

definition rows_V1 :: "catalog_row list" where
  "rows_V1 =
     [(1, 66, SunSpecTopologyNone, False, commonSunSpecPoints),
      (1, 65, SunSpecTopologyNone, True, butlast commonSunSpecPoints)]
     @ inverter_rows @ plain_rows"

definition standardSunSpecModelDefinitionsV1 :: "string \<Rightarrow> catalog_error + model_definition list" where
  "standardSunSpecModelDefinitionsV1 revision = append_rows revision [] rows_V1"

definition standardSunSpecModelDefinitions :: "string \<Rightarrow> catalog_error + model_definition list" where
  "standardSunSpecModelDefinitions revision =
     (if revision = SunSpecModelsRevisionV1 then standardSunSpecModelDefinitionsV1 revision
      else if revision = SunSpecModelsRevisionV2 then standardSunSpecModelDefinitionsV2 revision
      else Inl RevisionUnsupported)"

section \<open>Models with a repeating group\<close>

definition repeat_group :: "string \<Rightarrow> nat \<Rightarrow> point_definition list \<Rightarrow> point_definition list" where
  "repeat_group groupID n points = concat (map (\<lambda>i. map (\<lambda>p. p\<lparr>pdGroupID := groupID,
     pdRepeatIndex := of_nat i, pdRepeated := True\<rparr>) points) [1..<Suc n])"

definition single_definition :: "string \<Rightarrow> u16 \<Rightarrow> u16 \<Rightarrow> point_definition list \<Rightarrow> (u16 list \<Rightarrow> bool) option
    \<Rightarrow> catalog_error + model_definition" where
  "single_definition revision modelID modelLength points geometry =
     (case appendSunSpecDefinition [] revision modelID modelLength SunSpecTopologyNone False points of
        Inl e \<Rightarrow> Inl e
      | Inr definitions \<Rightarrow> Inr ((hd definitions)\<lparr>mdGeometry := geometry\<rparr>))"

text \<open>
  The check a model with a count register makes of its own words: they are complete, the count
  is not the absent pattern, and the length is the fixed part and the repetitions it announces.
\<close>

definition count_geometry :: "u16 \<Rightarrow> nat \<Rightarrow> nat \<Rightarrow> nat \<Rightarrow> u16 list \<Rightarrow> bool" where
  "count_geometry modelLength position fixed each ws \<longleftrightarrow>
     length ws = unat modelLength + 2 \<and> length ws > position \<and> ws ! position \<noteq> 0xffff
     \<and> unat modelLength = fixed + each * unat (ws ! position)"

definition maxSunSpecMPPTModules :: nat where "maxSunSpecMPPTModules = (65535 - 8) div 20"
definition maxSunSpecDERPorts :: nat where "maxSunSpecDERPorts = (65535 - 18) div 25"
definition maxSunSpecBESSStrings :: nat where "maxSunSpecBESSStrings = (65535 - 26) div 32"
definition maxSunSpecBESSModules :: nat where "maxSunSpecBESSModules = (65535 - 46) div 16"

definition mpptSunSpecDefinition :: "string \<Rightarrow> u16 \<Rightarrow> catalog_error + model_definition" where
  "mpptSunSpecDefinition revision modelLength =
     (if revision \<noteq> SunSpecModelsRevisionV1 \<or> modelLength < 8 \<or> (unat modelLength - 8) mod 20 \<noteq> 0
      then Inl KeyGeometry
      else
        (let modules = (unat modelLength - 8) div 20 in
         if modules > maxSunSpecMPPTModules then Inl KeyGeometry
         else single_definition revision 160 modelLength
                (mpptFixedSunSpecPoints @ repeat_group ''module'' modules mpptModuleSunSpecPoints)
                (Some (count_geometry modelLength 8 8 20))))"

definition maxAddressableSunSpecModelLength :: u16 where
  "maxAddressableSunSpecModelLength = 65533"

definition environmental_group :: "u16 \<Rightarrow> (string \<times> u16 \<times> point_definition list) option" where
  "environmental_group modelID =
     (if modelID = 302 then Some (''repeating'', 5, irradiance_group)
      else if modelID = 303 then Some (''temp'', 1, temperature_group)
      else if modelID = 304 then Some (''incl'', 6, inclination_group)
      else None)"

definition environmentalSunSpecDefinition :: "string \<Rightarrow> u16 \<Rightarrow> u16 \<Rightarrow> catalog_error + model_definition" where
  "environmentalSunSpecDefinition revision modelID modelLength =
     (if revision \<noteq> SunSpecModelsRevisionV1 \<or> modelLength = 0 \<or> modelLength > maxAddressableSunSpecModelLength
      then Inl KeyGeometry
      else (case environmental_group modelID of
              None \<Rightarrow> Inl ModelUnsupported
            | Some (groupID, words, repeated) \<Rightarrow>
                (if modelLength mod words \<noteq> 0 then Inl KeyGeometry
                 else single_definition revision modelID modelLength
                        (meterHeaderSunSpecPoints @ repeat_group groupID (unat (modelLength div words)) repeated)
                        None)))"

definition derDCMeasureV2SunSpecDefinition :: "u16 \<Rightarrow> catalog_error + model_definition" where
  "derDCMeasureV2SunSpecDefinition modelLength =
     (if modelLength < 18 \<or> (unat modelLength - 18) mod 25 \<noteq> 0 then Inl KeyGeometry
      else
        (let ports = (unat modelLength - 18) div 25 in
         if ports > maxSunSpecDERPorts then Inl KeyGeometry
         else single_definition SunSpecModelsRevisionV2 714 modelLength
                (der_dc_fixed @ repeat_group ''port'' ports der_dc_port)
                (Some (count_geometry modelLength 4 18 25))))"

definition bessBankV2SunSpecDefinition :: "u16 \<Rightarrow> catalog_error + model_definition" where
  "bessBankV2SunSpecDefinition modelLength =
     (if modelLength < 26 \<or> (unat modelLength - 26) mod 32 \<noteq> 0 then Inl KeyGeometry
      else
        (let strings = (unat modelLength - 26) div 32 in
         if strings > maxSunSpecBESSStrings then Inl KeyGeometry
         else single_definition SunSpecModelsRevisionV2 803 modelLength
                (bess_bank_fixed @ repeat_group ''string'' strings bess_bank_string)
                (Some (count_geometry modelLength 2 26 32))))"

definition bessStringV2SunSpecDefinition :: "u16 \<Rightarrow> catalog_error + model_definition" where
  "bessStringV2SunSpecDefinition modelLength =
     (if modelLength < 46 \<or> (unat modelLength - 46) mod 16 \<noteq> 0 then Inl KeyGeometry
      else
        (let modules = (unat modelLength - 46) div 16 in
         if modules > maxSunSpecBESSModules then Inl KeyGeometry
         else single_definition SunSpecModelsRevisionV2 804 modelLength
                (bess_string_fixed @ repeat_group ''module'' modules bess_string_module)
                (Some (count_geometry modelLength 3 46 16))))"

section \<open>Well-formed tables\<close>

definition extent :: "point_definition list \<Rightarrow> nat" where
  "extent ps = sum_list (map (\<lambda>p. unat (pdSize p)) ps)"

definition scale_names :: "point_definition list \<Rightarrow> string list" where
  "scale_names ps = map pdName (filter (\<lambda>p. pdType p = SunSpecTypeScaleFactor) ps)"

definition scales_within :: "string list \<Rightarrow> point_definition list \<Rightarrow> bool" where
  "scales_within names ps \<longleftrightarrow>
     list_all (\<lambda>p. pdScaleFactor p = '''' \<or> pdScaleFactor p \<in> set names) ps"

definition headed :: "point_definition list \<Rightarrow> bool" where
  "headed ps \<longleftrightarrow> (case ps of a # b # _ \<Rightarrow> pdSize a = 1 \<and> pdSize b = 1 | _ \<Rightarrow> False)"

definition points_ok :: "point_definition list \<Rightarrow> bool" where
  "points_ok ps \<longleftrightarrow> list_all width_ok ps \<and> scales_within (scale_names ps) ps \<and> headed ps"

definition table_ok :: "nat \<Rightarrow> point_definition list \<Rightarrow> bool" where
  "table_ok n ps \<longleftrightarrow> extent ps = n \<and> points_ok ps"

named_theorems table_simps \<open>the fields of points built by the table constructors\<close>

lemma point_fields [table_simps]:
  "pdName (sunSpecPoint n f t w u sc m sy k) = n" "pdType (sunSpecPoint n f t w u sc m sy k) = t"
  "pdSize (sunSpecPoint n f t w u sc m sy k) = w" "pdScaleFactor (sunSpecPoint n f t w u sc m sy k) = sc"
  by (simp_all add: sunSpecPoint_def)

lemmas [table_simps] = extendedSunSpecPoint_def extendedSunSpecEnum_def
  extendedSunSpecBitfield_def inverterSunSpecPoint_def inverterSunSpecEnumPoint_def
  inverterSunSpecBitfieldPoint_def sunSpecTypeWords_def v2DERPoint_def v2DERPointWords_def Let_def
  v2DERStringPoint_def environmentalScaledPoint_def

lemmas [table_simps] = extent_def points_ok_def scale_names_def scales_within_def headed_def
  width_ok_def type_words_def

lemma width_ok_update [simp]:
  "width_ok (p\<lparr>pdMandatory := b, pdRequired := r\<rparr>) = width_ok p"
  "width_ok (p\<lparr>pdGroupID := g, pdRepeatIndex := i, pdRepeated := b\<rparr>) = width_ok p"
  "width_ok (p\<lparr>pdOffset := k\<rparr>) = width_ok p"
  by (simp_all add: width_ok_def split: option.split)

text \<open>Marking points as mandatory changes none of this.\<close>

lemma mark_mandatory_ok: "table_ok n (mark_mandatory f ps) = table_ok n ps"
proof -
  have map: "map g (mark_mandatory f ps) = map g ps"
    if "\<And>p b r. g (p\<lparr>pdMandatory := b, pdRequired := r\<rparr>) = g p" for g :: "point_definition \<Rightarrow> 'b"
    using that by (simp add: mark_mandatory_def)
  have "extent (mark_mandatory f ps) = extent ps"
    by (simp add: extent_def map)
  moreover have "scale_names (mark_mandatory f ps) = scale_names ps"
    by (simp add: scale_names_def mark_mandatory_def filter_map o_def)
  moreover have "list_all width_ok (mark_mandatory f ps) = list_all width_ok ps"
    "scales_within names (mark_mandatory f ps) = scales_within names ps" for names
    by (simp_all add: mark_mandatory_def list_all_iff scales_within_def)
  moreover have "headed (mark_mandatory f ps) = headed ps"
    by (auto simp: headed_def mark_mandatory_def split: list.split)
  ultimately show ?thesis by (simp add: table_ok_def points_ok_def)
qed

lemma common_ok: "table_ok 68 commonSunSpecPoints" "table_ok 67 (butlast commonSunSpecPoints)"
  unfolding table_ok_def commonSunSpecPoints_def by (simp_all add: table_simps)

lemma inverter_ok:
  "table_ok 52 integerInverterSunSpecPoints" "table_ok 62 (floatInverterSunSpecPoints s)"
  unfolding table_ok_def integerInverterSunSpecPoints_def floatInverterSunSpecPoints_def
  by (simp_all add: table_simps)

lemma ratings_ok:
  "table_ok 28 nameplateSunSpecPoints" "table_ok 32 settingsSunSpecPoints"
  unfolding table_ok_def nameplateSunSpecPoints_def settingsSunSpecPoints_def
  by (simp_all add: table_simps)

lemma status_ok:
  "table_ok 46 statusSunSpecPoints" "table_ok 26 immediateControlsSunSpecPoints"
  "table_ok 26 storageSunSpecPoints"
  unfolding table_ok_def statusSunSpecPoints_def immediateControlsSunSpecPoints_def storageSunSpecPoints_def
  by (simp_all add: table_simps)

lemma environment_ok:
  "table_ok 38 locationSunSpecPoints" "table_ok 6 referencePointSunSpecPoints"
  "table_ok 13 baseMetSunSpecPoints" "table_ok 6 miniMetSunSpecPoints"
  unfolding table_ok_def locationSunSpecPoints_def referencePointSunSpecPoints_def
    baseMetSunSpecPoints_def miniMetSunSpecPoints_def
  by (simp_all add: table_simps)

lemma integer_meter_ok: "table_ok 107 (integerMeterSunSpecPoints m)"
  unfolding integerMeterSunSpecPoints_def markMeterMandatory_def Let_def mark_mandatory_ok
  unfolding table_ok_def meter_power_groups_def meter_energy_groups_def meter_event_point_def
    meterHeaderSunSpecPoints_def
  by (simp add: table_simps meter_group_def appendMeterPoints_def)

lemma float_meter_ok: "table_ok 126 (floatMeterSunSpecPoints m)"
  unfolding floatMeterSunSpecPoints_def markMeterMandatory_def mark_mandatory_ok
  unfolding table_ok_def float_meter_groups_def meter_event_point_def meterHeaderSunSpecPoints_def
  by (simp add: table_simps appendMeterPoints_def)

lemma measurement_ok:
  "table_ok 155 derMeasureACV2SunSpecPoints" "table_ok 52 derCapacityV2SunSpecPoints"
  unfolding table_ok_def derMeasureACV2SunSpecPoints_def derCapacityV2SunSpecPoints_def
  by (simp_all add: table_simps)

lemma der_ok:
  "table_ok 19 derEnterServiceV2SunSpecPoints" "table_ok 9 derStorageCapacityV2SunSpecPoints"
  "table_ok 9 derControlV2SunSpecPoints"
  unfolding table_ok_def derEnterServiceV2SunSpecPoints_def derStorageCapacityV2SunSpecPoints_def
    derControlV2SunSpecPoints_def
  by (simp_all add: table_simps)

lemma battery_ok: "table_ok 64 bessBaseV2SunSpecPoints" "table_ok 44 bessModuleV2SunSpecPoints"
  unfolding table_ok_def bessBaseV2SunSpecPoints_def bessModuleV2SunSpecPoints_def
  by (simp_all add: table_simps)

lemma flow_ok:
  "table_ok 3 flowBatteryV2SunSpecPoints" "table_ok 36 flowBatteryStringV2SunSpecPoints"
  "table_ok 3 flowBatteryModuleV2SunSpecPoints" "table_ok 3 flowBatteryStackV2SunSpecPoints"
  unfolding table_ok_def flowBatteryV2SunSpecPoints_def flowBatteryStringV2SunSpecPoints_def
    flowBatteryModuleV2SunSpecPoints_def flowBatteryStackV2SunSpecPoints_def
  by (simp_all add: table_simps)

lemmas tables_ok = common_ok inverter_ok ratings_ok status_ok environment_ok integer_meter_ok
  float_meter_ok measurement_ok der_ok battery_ok flow_ok

text \<open>A repeating model: the fixed part is a table by itself, the group refers to its scales.\<close>

definition group_ok :: "nat \<Rightarrow> point_definition list \<Rightarrow> point_definition list \<Rightarrow> bool" where
  "group_ok each fixed ps \<longleftrightarrow> extent ps = each \<and> list_all width_ok ps
     \<and> scales_within (scale_names fixed) ps \<and> list_all (\<lambda>p. pdType p \<noteq> SunSpecTypeScaleFactor) ps"

lemma extent_append: "extent (xs @ ys) = extent xs + extent ys"
  by (simp add: extent_def)

lemma repeating_ok:
  assumes "table_ok m fixed" and "group_ok each fixed ps"
  shows "table_ok (m + n * each) (fixed @ repeat_group g n ps)"
proof -
  let ?rep = "\<lambda>i. map (\<lambda>p. p\<lparr>pdGroupID := g, pdRepeatIndex := of_nat i, pdRepeated := True\<rparr>) ps"
  have e: "extent (?rep i) = each" for i
    using assms by (simp add: group_ok_def extent_def o_def)
  have ec: "extent (concat (map ?rep idx)) = length idx * each" for idx
    by (induction idx) (simp_all add: extent_append e, simp add: extent_def)
  have "extent (fixed @ repeat_group g n ps) = m + n * each"
    using assms ec [of "[1..<Suc n]"] by (simp add: table_ok_def repeat_group_def extent_append)
  moreover have "scale_names (fixed @ repeat_group g n ps) = scale_names fixed"
  proof -
    have "filter (\<lambda>p. pdType p = SunSpecTypeScaleFactor) (repeat_group g n ps) = []"
      using assms by (auto simp: group_ok_def repeat_group_def filter_empty_conv list_all_iff)
    then show ?thesis by (simp add: scale_names_def)
  qed
  moreover have "list_all width_ok (repeat_group g n ps)"
    using assms by (auto simp: group_ok_def repeat_group_def list_all_iff)
  moreover have "scales_within (scale_names fixed) (repeat_group g n ps)"
    using assms by (auto simp: group_ok_def repeat_group_def list_all_iff scales_within_def)
  moreover have "headed (fixed @ repeat_group g n ps)"
    using assms by (auto simp: table_ok_def points_ok_def headed_def split: list.splits)
  ultimately show ?thesis
    using assms by (simp add: table_ok_def points_ok_def scales_within_def)
qed

lemma mppt_ok: "table_ok 10 mpptFixedSunSpecPoints"
    "group_ok 20 mpptFixedSunSpecPoints mpptModuleSunSpecPoints"
  unfolding table_ok_def group_ok_def mpptFixedSunSpecPoints_def mpptModuleSunSpecPoints_def
  by (simp_all add: table_simps)

lemma header_ok: "table_ok 2 meterHeaderSunSpecPoints"
    "group_ok 5 meterHeaderSunSpecPoints irradiance_group"
    "group_ok 1 meterHeaderSunSpecPoints temperature_group"
    "group_ok 6 meterHeaderSunSpecPoints inclination_group"
  unfolding table_ok_def group_ok_def meterHeaderSunSpecPoints_def irradiance_group_def
    temperature_group_def inclination_group_def
  by (simp_all add: table_simps)

lemma der_dc_ok: "table_ok 20 der_dc_fixed" "group_ok 25 der_dc_fixed der_dc_port"
  unfolding table_ok_def group_ok_def der_dc_fixed_def der_dc_port_def
  by (simp_all add: table_simps)

lemma bess_bank_ok: "table_ok 28 bess_bank_fixed" "group_ok 32 bess_bank_fixed bess_bank_string"
  unfolding table_ok_def group_ok_def bess_bank_fixed_def bess_bank_string_def
  by (simp_all add: table_simps)

lemma bess_string_ok: "table_ok 48 bess_string_fixed" "group_ok 16 bess_string_fixed bess_string_module"
  unfolding table_ok_def group_ok_def bess_string_fixed_def bess_string_module_def
  by (simp_all add: table_simps)

end
