(* ===== verification/SunSpec_Registry.thy ===== *)
theory SunSpec_Registry
  imports SunSpec_Catalog "HOL-Library.Product_Lexorder"
begin

text \<open>
  The registry of standard decoders (the registry part of \<^verbatim>\<open>sunspec_decoder.go\<close>). The
  theorems show that both registries are built without error, that they announce exactly the
  keys they resolve, and that the points of every definition they resolve tile the registers of
  its model.
\<close>

section \<open>The registry\<close>

record decoder_registry =
  rgRevision :: string
  rgDefinitions :: "(decoder_key, model_definition) gomap"
  rgKeys :: "decoder_key list"

fun register_definitions :: "model_definition list \<Rightarrow> (decoder_key, model_definition) gomap
    \<Rightarrow> catalog_error + (decoder_key, model_definition) gomap" where
  "register_definitions [] m = Inr m"
| "register_definitions (d # ds) m =
     (if gm_get m (mdKey d) \<noteq> None then Inl RegistryKeyDuplicated
      else register_definitions ds (gm_put (mdKey d) d m))"

definition model_key :: "string \<Rightarrow> u16 \<Rightarrow> nat \<Rightarrow> decoder_key" where
  "model_key revision modelID modelLength =
     \<lparr>dkModelID = modelID, dkModelLength = of_nat modelLength, dkSchemaRevision = revision\<rparr>"

definition environmentalSunSpecDecoderKeys :: "string \<Rightarrow> decoder_key list" where
  "environmentalSunSpecDecoderKeys revision =
     map (\<lambda>i. model_key revision 302 (5 * i)) [1..<Suc (65533 div 5)]
     @ map (model_key revision 303) [1..<65534]
     @ map (\<lambda>i. model_key revision 304 (6 * i)) [1..<Suc (65533 div 6)]"

definition repeating_keys :: "string \<Rightarrow> decoder_key list" where
  "repeating_keys revision =
     (if revision = SunSpecModelsRevisionV1
      then map (\<lambda>i. model_key revision 160 (8 + 20 * i)) [0..<Suc maxSunSpecMPPTModules]
        @ environmentalSunSpecDecoderKeys revision
      else if revision = SunSpecModelsRevisionV2
      then map (\<lambda>i. model_key revision 714 (18 + 25 * i)) [0..<Suc maxSunSpecDERPorts]
        @ map (\<lambda>i. model_key revision 803 (26 + 32 * i)) [0..<Suc maxSunSpecBESSStrings]
        @ map (\<lambda>i. model_key revision 804 (46 + 16 * i)) [0..<Suc maxSunSpecBESSModules]
      else [])"

text \<open>
  The keys of a registry, sorted by model and length. All of them carry the one revision, so the
  third component of the order never decides; the cache of the computed list is left out.
\<close>

definition standardSunSpecDecoderKeys :: "string \<Rightarrow> model_definition list \<Rightarrow> decoder_key list" where
  "standardSunSpecDecoderKeys revision definitions =
     sort_key (\<lambda>k. (dkModelID k, dkModelLength k)) (map mdKey definitions @ repeating_keys revision)"

definition NewStandardSunSpecDecoderRegistry :: "string \<Rightarrow> catalog_error + decoder_registry" where
  "NewStandardSunSpecDecoderRegistry revision =
     (case standardSunSpecModelDefinitions revision of
        Inl e \<Rightarrow> Inl e
      | Inr definitions \<Rightarrow>
          (case register_definitions definitions [] of
             Inl e \<Rightarrow> Inl e
           | Inr m \<Rightarrow> Inr \<lparr>rgRevision = revision, rgDefinitions = m,
               rgKeys = standardSunSpecDecoderKeys revision definitions\<rparr>))"

definition resolved :: "catalog_error + model_definition \<Rightarrow> model_definition option" where
  "resolved r = (case r of Inl _ \<Rightarrow> None | Inr d \<Rightarrow> Some d)"

definition registry_definition :: "decoder_registry \<Rightarrow> decoder_key \<Rightarrow> model_definition option" where
  "registry_definition r key =
     (case gm_get (rgDefinitions r) key of
        Some d \<Rightarrow> Some d
      | None \<Rightarrow>
          (if dkSchemaRevision key \<noteq> rgRevision r then None
           else if dkSchemaRevision key = SunSpecModelsRevisionV2
           then (if dkModelID key = 714 then resolved (derDCMeasureV2SunSpecDefinition (dkModelLength key))
                 else if dkModelID key = 803 then resolved (bessBankV2SunSpecDefinition (dkModelLength key))
                 else if dkModelID key = 804 then resolved (bessStringV2SunSpecDefinition (dkModelLength key))
                 else None)
           else if dkSchemaRevision key \<noteq> SunSpecModelsRevisionV1 then None
           else if dkModelID key = 160
           then resolved (mpptSunSpecDefinition (dkSchemaRevision key) (dkModelLength key))
           else if dkModelID key \<in> {302, 303, 304}
           then resolved (environmentalSunSpecDefinition (dkSchemaRevision key) (dkModelID key)
                  (dkModelLength key))
           else None))"

section \<open>Placement\<close>

fun placed :: "nat \<Rightarrow> point_definition list \<Rightarrow> bool" where
  "placed k [] = True"
| "placed k (p # ps) \<longleftrightarrow> unat (pdOffset p) = k \<and> placed (k + unat (pdSize p)) ps"

text \<open>
  A definition fits its model: the points follow each other from the first register to the last,
  each as wide as its type, after two header points, and every scale factor they refer to is a
  point of the same model.
\<close>

definition definition_fits :: "model_definition \<Rightarrow> bool" where
  "definition_fits d \<longleftrightarrow>
     placed 0 (mdPoints d) \<and> table_ok (unat (dkModelLength (mdKey d)) + 2) (mdPoints d)"

definition same_but_offset :: "point_definition \<Rightarrow> point_definition \<Rightarrow> bool" where
  "same_but_offset p q \<longleftrightarrow> (\<exists>k. q = p\<lparr>pdOffset := k\<rparr>)"

lemma same_but_offset_set [simp]: "same_but_offset p (p\<lparr>pdOffset := k\<rparr>)"
  by (auto simp: same_but_offset_def)

lemma table_ok_offsets:
  assumes "list_all2 same_but_offset ps qs"
  shows "table_ok n qs = table_ok n ps"
proof -
  have "extent qs = extent ps" "scale_names qs = scale_names ps" "list_all width_ok qs = list_all width_ok ps"
    "scales_within names qs = scales_within names ps" for names
    using assms by (induction rule: list_all2_induct)
      (auto simp: extent_def scale_names_def same_but_offset_def scales_within_def)
  moreover have "headed qs = headed ps"
  proof -
    have "map pdSize qs = map pdSize ps"
      using assms by (induction rule: list_all2_induct) (auto simp: same_but_offset_def)
    moreover have "headed xs = (case map pdSize xs of a # b # _ \<Rightarrow> a = 1 \<and> b = 1 | _ \<Rightarrow> False)" for xs
      by (auto simp: headed_def split: list.split)
    ultimately show ?thesis by simp
  qed
  ultimately show ?thesis by (simp add: table_ok_def points_ok_def)
qed

lemma place_points_table:
  assumes "list_all width_ok ps" and "k + extent ps \<le> 65536"
  shows "\<exists>qs. place_points k ps = Inr (qs, k + extent ps) \<and> placed k qs
    \<and> list_all2 same_but_offset ps qs"
  using assms
proof (induction ps arbitrary: k)
  case Nil
  then show ?case by (simp add: extent_def)
next
  case (Cons p ps)
  have pos: "pdSize p \<noteq> 0" using Cons.prems(1)
    by (auto simp: width_ok_def type_words_def split: if_splits option.splits)
  then have pos': "0 < unat (pdSize p)" by (simp add: unat_gt_0)
  have e: "k + unat (pdSize p) + extent ps = k + extent (p # ps)" by (simp add: extent_def)
  with Cons obtain qs where "place_points (k + unat (pdSize p)) ps = Inr (qs, k + extent (p # ps))"
    "placed (k + unat (pdSize p)) qs" "list_all2 same_but_offset ps qs"
    by (metis list.pred_inject(2))
  moreover have "k \<le> 65535" "k + unat (pdSize p) \<le> 65536" using Cons.prems(2) e pos' by simp_all
  ultimately show ?case using pos
    by (simp add: unat_of_nat_u16)
qed

lemma append_table:
  assumes "table_ok (unat n + 2) ps" and "unat n \<le> 65534"
  shows "\<exists>d. appendSunSpecDefinition values revision m n t c ps = Inr (values @ [d]) \<and> definition_fits d
    \<and> mdKey d = \<lparr>dkModelID = m, dkModelLength = n, dkSchemaRevision = revision\<rparr> \<and> mdGeometry d = None"
proof -
  have w: "list_all width_ok ps" and e: "extent ps = unat n + 2"
    using assms by (simp_all add: table_ok_def points_ok_def)
  obtain qs where qs: "place_points 0 ps = Inr (qs, unat n + 2)" "placed 0 qs"
      "list_all2 same_but_offset ps qs"
    using place_points_table [OF w, of 0] e assms(2) by auto
  with assms(1) show ?thesis
    by (simp add: appendSunSpecDefinition_def definition_fits_def table_ok_offsets [OF qs(3)])
qed

lemma append_rows_table:
  assumes "list_all (\<lambda>(m, n, t, c, ps). table_ok (unat n + 2) ps \<and> unat n \<le> 65534) rows"
  shows "\<exists>ds. append_rows revision values rows = Inr (values @ ds) \<and> list_all definition_fits ds
    \<and> map mdKey ds = map (\<lambda>(m, n, _). \<lparr>dkModelID = m, dkModelLength = n, dkSchemaRevision = revision\<rparr>) rows"
  using assms
proof (induction rows arbitrary: "values")
  case Nil
  then show ?case by simp
next
  case (Cons r rows)
  obtain m n t c ps where r: "r = (m, n, t, c, ps)" by (cases r)
  obtain d where d: "appendSunSpecDefinition values revision m n t c ps = Inr (values @ [d])"
      "definition_fits d" "mdKey d = \<lparr>dkModelID = m, dkModelLength = n, dkSchemaRevision = revision\<rparr>"
    using append_table [of n ps "values" revision m t c] Cons.prems r by auto
  from Cons.IH [of "values @ [d]"] Cons.prems r obtain ds where
    "append_rows revision (values @ [d]) rows = Inr ((values @ [d]) @ ds)" "list_all definition_fits ds"
    "map mdKey ds = map (\<lambda>(m, n, _). \<lparr>dkModelID = m, dkModelLength = n, dkSchemaRevision = revision\<rparr>) rows"
    by auto
  with d r show ?case by (intro exI [of _ "d # ds"]) simp
qed

lemma rows_ok:
  "list_all (\<lambda>(m, n, t, c, ps). table_ok (unat n + 2) ps \<and> unat n \<le> 65534) rows_V1"
  "list_all (\<lambda>(m, n, t, c, ps). table_ok (unat n + 2) ps \<and> unat n \<le> 65534) rows_V2"
  by (simp_all add: rows_V1_def rows_V2_def inverter_rows_def plain_rows_def mark_mandatory_ok tables_ok
      numeral_3_eq_3 [symmetric])

definition static_keys :: "string \<Rightarrow> decoder_key list" where
  "static_keys revision =
     (if revision = SunSpecModelsRevisionV1
      then map (\<lambda>(m, n, _). \<lparr>dkModelID = m, dkModelLength = n, dkSchemaRevision = revision\<rparr>) rows_V1
      else map (\<lambda>(m, n, _). \<lparr>dkModelID = m, dkModelLength = n, dkSchemaRevision = revision\<rparr>) rows_V2)"

lemma revisions_differ [simp]: "SunSpecModelsRevisionV1 \<noteq> SunSpecModelsRevisionV2"
    "SunSpecModelsRevisionV2 \<noteq> SunSpecModelsRevisionV1"
  by (simp_all add: SunSpecModelsRevisionV1_def SunSpecModelsRevisionV2_def)

definition standard_revision :: "string \<Rightarrow> bool" where
  "standard_revision revision \<longleftrightarrow> revision = SunSpecModelsRevisionV1 \<or> revision = SunSpecModelsRevisionV2"

lemma standard_definitions:
  assumes "standard_revision revision"
  shows "\<exists>ds. standardSunSpecModelDefinitions revision = Inr ds \<and> list_all definition_fits ds
    \<and> map mdKey ds = static_keys revision"
  using assms append_rows_table [OF rows_ok(1), of revision "[]"] append_rows_table [OF rows_ok(2), of revision "[]"]
  by (auto simp: standardSunSpecModelDefinitions_def standard_revision_def static_keys_def
      standardSunSpecModelDefinitionsV1_def standardSunSpecModelDefinitionsV2_def)

lemma static_keys_distinct: "distinct (static_keys revision)"
  by (simp add: static_keys_def rows_V1_def rows_V2_def inverter_rows_def plain_rows_def)

lemma register_distinct:
  assumes "distinct (map mdKey ds)" and "list_all (\<lambda>d. gm_get m (mdKey d) = None) ds"
  shows "\<exists>m'. register_definitions ds m = Inr m'
    \<and> (\<forall>k. gm_get m' k = (case map_of (map (\<lambda>d. (mdKey d, d)) ds) k of
          Some d \<Rightarrow> Some d | None \<Rightarrow> gm_get m k))"
  using assms
proof (induction ds arbitrary: m)
  case Nil
  then show ?case by simp
next
  case (Cons d ds)
  have "list_all (\<lambda>x. gm_get (gm_put (mdKey d) d m) (mdKey x) = None) ds"
    using Cons.prems by (auto simp: list_all_iff go_map_simps) (metis imageI)
  then obtain m' where m': "register_definitions ds (gm_put (mdKey d) d m) = Inr m'"
      "\<forall>k. gm_get m' k = (case map_of (map (\<lambda>d. (mdKey d, d)) ds) k of
          Some d \<Rightarrow> Some d | None \<Rightarrow> gm_get (gm_put (mdKey d) d m) k)"
    using Cons.IH Cons.prems(1) by fastforce
  moreover have "map_of (map (\<lambda>d. (mdKey d, d)) ds) (mdKey d) = None"
    using Cons.prems by (auto simp: map_of_eq_None_iff image_iff)
  ultimately show ?case using Cons.prems
    by (auto simp: go_map_simps split: option.split)
qed

section \<open>What a registry resolves\<close>

lemma single_table:
  assumes "table_ok (unat n + 2) ps" and "unat n \<le> 65534"
  shows "\<exists>d. single_definition revision m n ps g = Inr d \<and> definition_fits d
    \<and> mdKey d = \<lparr>dkModelID = m, dkModelLength = n, dkSchemaRevision = revision\<rparr>"
proof -
  obtain d where "appendSunSpecDefinition [] revision m n SunSpecTopologyNone False ps = Inr [d]"
    "definition_fits d" "mdKey d = \<lparr>dkModelID = m, dkModelLength = n, dkSchemaRevision = revision\<rparr>"
    using append_table [OF assms, of "[]" revision m SunSpecTopologyNone False] by auto
  then show ?thesis by (simp add: single_definition_def definition_fits_def)
qed

definition fits_key :: "string \<Rightarrow> u16 \<Rightarrow> u16 \<Rightarrow> model_definition \<Rightarrow> bool" where
  "fits_key revision m n d \<longleftrightarrow> definition_fits d
     \<and> mdKey d = \<lparr>dkModelID = m, dkModelLength = n, dkSchemaRevision = revision\<rparr>"

lemma repeated_single:
  assumes "table_ok (m + 2) fixed" and "group_ok each fixed ps"
    and "unat n = m + k * each" and "unat n \<le> 65534"
  shows "\<exists>d. single_definition revision mid n (fixed @ repeat_group g k ps) geo = Inr d
    \<and> fits_key revision mid n d"
proof -
  have "table_ok (unat n + 2) (fixed @ repeat_group g k ps)"
    using repeating_ok [OF assms(1,2), of k g] assms(3) by (simp add: add.commute add.left_commute)
  then show ?thesis unfolding fits_key_def using single_table assms(4) by blast
qed

text \<open>
  A model with a repeated group resolves exactly on the lengths of its fixed part and whole
  repetitions, and what it resolves to fits.
\<close>

definition counted :: "nat \<Rightarrow> nat \<Rightarrow> nat \<Rightarrow> u16 \<Rightarrow> bool" where
  "counted m each limit n \<longleftrightarrow> (\<exists>k\<le>limit. unat n = m + each * k)"

lemma counted_iff:
  assumes "0 < each"
  shows "counted m each limit n \<longleftrightarrow>
    \<not> (unat n < m \<or> (unat n - m) mod each \<noteq> 0 \<or> (unat n - m) div each > limit)"
proof
  assume "counted m each limit n"
  then obtain k where "k \<le> limit" "unat n = m + each * k" by (auto simp: counted_def)
  with assms show "\<not> (unat n < m \<or> (unat n - m) mod each \<noteq> 0 \<or> (unat n - m) div each > limit)" by simp
next
  assume *: "\<not> (unat n < m \<or> (unat n - m) mod each \<noteq> 0 \<or> (unat n - m) div each > limit)"
  then have "unat n = m + each * ((unat n - m) div each)"
    by (metis add.right_neutral le_add_diff_inverse mult_div_mod_eq not_less)
  with * show "counted m each limit n" unfolding counted_def by (meson not_less)
qed

lemma counted_resolves:
  assumes f: "f = (if unat n < m \<or> (unat n - m) mod each \<noteq> 0 then Inl KeyGeometry
      else let k = (unat n - m) div each in
        if k > limit then Inl KeyGeometry
        else single_definition revision mid n (fixed @ repeat_group g k ps) geo)"
    and ok: "table_ok (m + 2) fixed" "group_ok each fixed ps"
    and bounds: "0 < each" "m + each * limit \<le> 65534"
  shows "if counted m each limit n then \<exists>d. f = Inr d \<and> fits_key revision mid n d else \<exists>e. f = Inl e"
proof (cases "counted m each limit n")
  case True
  let ?k = "(unat n - m) div each"
  have n: "m \<le> unat n" "(unat n - m) mod each = 0" "?k \<le> limit"
    using True counted_iff bounds(1) by force+
  then have eq: "unat n = m + ?k * each"
    by (metis add.right_neutral div_mult_mod_eq le_add_diff_inverse)
  moreover have "?k * each \<le> each * limit" using n(3) by (simp add: mult.commute)
  ultimately have "unat n \<le> 65534" using bounds(2) by linarith
  with repeated_single [OF ok eq] True n f show ?thesis by (simp add: Let_def)
next
  case False
  with counted_iff [OF bounds(1)] f show ?thesis by (auto simp: Let_def)
qed

lemma u16_below: "(n :: u16) < numeral k \<longleftrightarrow> unat n < unat (numeral k :: u16)"
  by (simp add: word_less_nat_alt)

lemma u16_zero: "(n :: u16) = 0 \<longleftrightarrow> unat n = 0"
  by (simp add: unat_eq_zero)

definition counted_model :: "string \<Rightarrow> u16 \<Rightarrow> u16 \<Rightarrow> bool" where
  "counted_model revision m n \<longleftrightarrow>
     (if revision = SunSpecModelsRevisionV1
      then (m = 160 \<and> counted 8 20 3276 n) \<or> (m = 302 \<and> counted 5 5 13105 n)
        \<or> (m = 303 \<and> counted 1 1 65532 n) \<or> (m = 304 \<and> counted 6 6 10921 n)
      else (m = 714 \<and> counted 18 25 2620 n) \<or> (m = 803 \<and> counted 26 32 2047 n)
        \<or> (m = 804 \<and> counted 46 16 4093 n))"

lemma mppt_resolves:
  "if counted 8 20 3276 n
   then \<exists>d. mpptSunSpecDefinition SunSpecModelsRevisionV1 n = Inr d \<and> fits_key SunSpecModelsRevisionV1 160 n d
   else \<exists>e. mpptSunSpecDefinition SunSpecModelsRevisionV1 n = Inl e"
  by (rule counted_resolves [OF _ _ mppt_ok(2)])
     (auto simp: mpptSunSpecDefinition_def maxSunSpecMPPTModules_def u16_below Let_def intro: mppt_ok(1))

lemma der_dc_resolves:
  "if counted 18 25 2620 n
   then \<exists>d. derDCMeasureV2SunSpecDefinition n = Inr d \<and> fits_key SunSpecModelsRevisionV2 714 n d
   else \<exists>e. derDCMeasureV2SunSpecDefinition n = Inl e"
  by (rule counted_resolves [OF _ _ der_dc_ok(2)])
     (auto simp: derDCMeasureV2SunSpecDefinition_def maxSunSpecDERPorts_def u16_below Let_def intro: der_dc_ok(1))

lemma bess_bank_resolves:
  "if counted 26 32 2047 n
   then \<exists>d. bessBankV2SunSpecDefinition n = Inr d \<and> fits_key SunSpecModelsRevisionV2 803 n d
   else \<exists>e. bessBankV2SunSpecDefinition n = Inl e"
  by (rule counted_resolves [OF _ _ bess_bank_ok(2)])
     (auto simp: bessBankV2SunSpecDefinition_def maxSunSpecBESSStrings_def u16_below Let_def intro: bess_bank_ok(1))

lemma bess_string_resolves:
  "if counted 46 16 4093 n
   then \<exists>d. bessStringV2SunSpecDefinition n = Inr d \<and> fits_key SunSpecModelsRevisionV2 804 n d
   else \<exists>e. bessStringV2SunSpecDefinition n = Inl e"
  by (rule counted_resolves [OF _ _ bess_string_ok(2)])
     (auto simp: bessStringV2SunSpecDefinition_def maxSunSpecBESSModules_def u16_below Let_def intro: bess_string_ok(1))

lemma environmental_resolves:
  assumes g: "environmental_group m = Some (g, w, ps)"
    and ok: "group_ok (unat w) meterHeaderSunSpecPoints ps"
    and w: "0 < unat w" "unat w + unat w * limit = 65533 - 65533 mod unat w"
  shows "if counted (unat w) (unat w) limit n
    then \<exists>d. environmentalSunSpecDefinition SunSpecModelsRevisionV1 m n = Inr d \<and> fits_key SunSpecModelsRevisionV1 m n d
    else \<exists>e. environmentalSunSpecDefinition SunSpecModelsRevisionV1 m n = Inl e"
proof -
  have shape: "environmentalSunSpecDefinition SunSpecModelsRevisionV1 m n =
      (if unat n = 0 \<or> unat n > 65533 \<or> unat n mod unat w \<noteq> 0 then Inl KeyGeometry
       else single_definition SunSpecModelsRevisionV1 m n
         (meterHeaderSunSpecPoints @ repeat_group g (unat n div unat w) ps) None)"
  proof -
    have "n mod w = 0 \<longleftrightarrow> unat n mod unat w = 0" by (metis unat_eq_zero unat_mod)
    moreover have "n = 0 \<longleftrightarrow> unat n = 0" "65533 < n \<longleftrightarrow> 65533 < unat n"
      by (simp_all add: unat_eq_zero word_less_nat_alt)
    ultimately show ?thesis using g
      by (simp add: environmentalSunSpecDefinition_def maxAddressableSunSpecModelLength_def unat_div)
  qed
  show ?thesis
  proof (cases "counted (unat w) (unat w) limit n")
    case True
    then obtain k where k: "k \<le> limit" "unat n = unat w + unat w * k" by (auto simp: counted_def)
    then have "unat w * k \<le> unat w * limit" by simp
    with k w(2) have le: "unat n \<le> 65533" by linarith
    have div: "unat n div unat w = Suc k" "unat n mod unat w = 0" using k(2) w(1) by simp_all
    have table: "table_ok (0 + 2) meterHeaderSunSpecPoints" using header_ok(1) by (metis add_0)
    have eq: "unat n = 0 + Suc k * unat w" using k(2) by (simp add: mult.commute)
    have "unat n \<le> 65534" using le by simp
    from repeated_single [OF table ok eq this] True k(2) le div w(1)
    show ?thesis unfolding shape by simp
  next
    case False
    have "unat n = 0 \<or> unat n > 65533 \<or> unat n mod unat w \<noteq> 0"
    proof (rule ccontr)
      assume "\<not> ?thesis"
      then have n: "0 < unat n" "unat n \<le> 65533" "unat n = unat w * (unat n div unat w)"
        by (auto simp: mult_div_mod_eq)
      then obtain k where k: "unat n div unat w = Suc k" by (metis mult_0_right not0_implies_Suc not_less_zero)
      have "unat n div unat w \<le> 65533 div unat w" using n(2) by (rule div_le_mono)
      moreover have "65533 div unat w = Suc limit"
      proof -
        have "unat w * (65533 div unat w) = unat w * Suc limit"
          using w(2) by (simp add: minus_mod_eq_mult_div [symmetric])
        then show ?thesis using w(1) by (metis mult_left_cancel nat_less_le)
      qed
      ultimately have "k \<le> limit" using k by simp
      with n(3) k False show False by (auto simp: counted_def)
    qed
    with False show ?thesis unfolding shape by auto
  qed
qed

lemma environment_resolves:
  "if counted 5 5 13105 n
   then \<exists>d. environmentalSunSpecDefinition SunSpecModelsRevisionV1 302 n = Inr d \<and> fits_key SunSpecModelsRevisionV1 302 n d
   else \<exists>e. environmentalSunSpecDefinition SunSpecModelsRevisionV1 302 n = Inl e"
  "if counted 1 1 65532 n
   then \<exists>d. environmentalSunSpecDefinition SunSpecModelsRevisionV1 303 n = Inr d \<and> fits_key SunSpecModelsRevisionV1 303 n d
   else \<exists>e. environmentalSunSpecDefinition SunSpecModelsRevisionV1 303 n = Inl e"
  "if counted 6 6 10921 n
   then \<exists>d. environmentalSunSpecDefinition SunSpecModelsRevisionV1 304 n = Inr d \<and> fits_key SunSpecModelsRevisionV1 304 n d
   else \<exists>e. environmentalSunSpecDefinition SunSpecModelsRevisionV1 304 n = Inl e"
  using environmental_resolves [of 302 "''repeating''" 5 irradiance_group 13105 n]
    environmental_resolves [of 303 "''temp''" 1 temperature_group 65532 n]
    environmental_resolves [of 304 "''incl''" 6 inclination_group 10921 n]
    header_ok by (simp_all add: environmental_group_def)

text \<open>What a registry announces, as a predicate on keys: the static rows and the counted models.\<close>

definition announced :: "string \<Rightarrow> decoder_key \<Rightarrow> bool" where
  "announced revision k \<longleftrightarrow> k \<in> set (static_keys revision)
     \<or> dkSchemaRevision k = revision \<and> counted_model revision (dkModelID k) (dkModelLength k)"

lemma counted_key:
  assumes "m + each * limit < 65536"
  shows "k \<in> (\<lambda>i. model_key revision mid (m + each * i)) ` {0..<Suc limit} \<longleftrightarrow>
    dkSchemaRevision k = revision \<and> dkModelID k = mid \<and> counted m each limit (dkModelLength k)"
proof -
  let ?len = "\<lambda>i. of_nat (m + each * i) :: u16"
  have eq: "?len i = n \<longleftrightarrow> unat n = m + each * i" if "i \<le> limit" for i n
  proof -
    have "each * i \<le> each * limit" using that by simp
    then have "m + each * i < 65536" using assms by linarith
    then have u: "unat (?len i) = m + each * i" by (rule unat_of_nat_u16)
    show ?thesis using u by (metis word_unat_eq_iff)
  qed
  have "k = model_key revision mid (m + each * i) \<longleftrightarrow>
      dkSchemaRevision k = revision \<and> dkModelID k = mid \<and> dkModelLength k = ?len i" for i
    by (cases k) (auto simp: model_key_def simp del: of_nat_add of_nat_mult)
  moreover have "(\<exists>i\<le>limit. dkModelLength k = ?len i) \<longleftrightarrow> counted m each limit (dkModelLength k)"
    unfolding counted_def using eq by metis
  ultimately show ?thesis by (auto simp: image_iff less_Suc_eq_le)
qed

lemma announced_static:
  "k \<in> set (static_keys revision) \<Longrightarrow> dkSchemaRevision k = revision"
  by (auto simp: static_keys_def split: if_splits)

lemma upt_image: "set (map f [a..<b]) = f ` {a..<b}"
  by simp

lemma upt_from_one: "f ` {Suc 0..<Suc (Suc n)} = (\<lambda>i. f (Suc i)) ` {0..<Suc n}"
  by (metis image_Suc_atLeastLessThan image_image)

lemma repeating_announced:
  assumes "standard_revision revision"
  shows "k \<in> set (repeating_keys revision) \<longleftrightarrow>
    dkSchemaRevision k = revision \<and> counted_model revision (dkModelID k) (dkModelLength k)"
proof -
  have e: "set (environmentalSunSpecDecoderKeys revision) =
      (\<lambda>i. model_key revision 302 (5 + 5 * i)) ` {0..<Suc 13105}
      \<union> (\<lambda>i. model_key revision 303 (1 + 1 * i)) ` {0..<Suc 65532}
      \<union> (\<lambda>i. model_key revision 304 (6 + 6 * i)) ` {0..<Suc 10921}"
  proof -
    have "{1..<Suc (65533 div 5)} = {Suc 0..<Suc (Suc 13105)}" "{1..<65534} = {Suc 0..<Suc (Suc 65532)}"
      "{1..<Suc (65533 div 6)} = {Suc 0..<Suc (Suc 10921)}" by simp_all
    then show ?thesis
      unfolding environmentalSunSpecDecoderKeys_def set_append upt_image upt_from_one
      by (simp only: upt_from_one mult_Suc_right Un_assoc add_Suc plus_nat.add_0 nat_mult_1)
         simp
  qed
  have c: "k \<in> (\<lambda>i. model_key revision 160 (8 + 20 * i)) ` {0..<Suc 3276} \<longleftrightarrow>
      dkSchemaRevision k = revision \<and> dkModelID k = 160 \<and> counted 8 20 3276 (dkModelLength k)"
    "k \<in> (\<lambda>i. model_key revision 302 (5 + 5 * i)) ` {0..<Suc 13105} \<longleftrightarrow>
      dkSchemaRevision k = revision \<and> dkModelID k = 302 \<and> counted 5 5 13105 (dkModelLength k)"
    "k \<in> (\<lambda>i. model_key revision 303 (1 + 1 * i)) ` {0..<Suc 65532} \<longleftrightarrow>
      dkSchemaRevision k = revision \<and> dkModelID k = 303 \<and> counted 1 1 65532 (dkModelLength k)"
    "k \<in> (\<lambda>i. model_key revision 304 (6 + 6 * i)) ` {0..<Suc 10921} \<longleftrightarrow>
      dkSchemaRevision k = revision \<and> dkModelID k = 304 \<and> counted 6 6 10921 (dkModelLength k)"
    "k \<in> (\<lambda>i. model_key revision 714 (18 + 25 * i)) ` {0..<Suc 2620} \<longleftrightarrow>
      dkSchemaRevision k = revision \<and> dkModelID k = 714 \<and> counted 18 25 2620 (dkModelLength k)"
    "k \<in> (\<lambda>i. model_key revision 803 (26 + 32 * i)) ` {0..<Suc 2047} \<longleftrightarrow>
      dkSchemaRevision k = revision \<and> dkModelID k = 803 \<and> counted 26 32 2047 (dkModelLength k)"
    "k \<in> (\<lambda>i. model_key revision 804 (46 + 16 * i)) ` {0..<Suc 4093} \<longleftrightarrow>
      dkSchemaRevision k = revision \<and> dkModelID k = 804 \<and> counted 46 16 4093 (dkModelLength k)"
    by (rule counted_key, simp)+
  have limits: "maxSunSpecMPPTModules = 3276" "maxSunSpecDERPorts = 2620" "maxSunSpecBESSStrings = 2047"
    "maxSunSpecBESSModules = 4093"
    by (simp_all add: maxSunSpecMPPTModules_def maxSunSpecDERPorts_def maxSunSpecBESSStrings_def
        maxSunSpecBESSModules_def)
  show ?thesis
  proof (cases "revision = SunSpecModelsRevisionV1")
    case True
    have "k \<in> set (repeating_keys revision) \<longleftrightarrow>
        k \<in> (\<lambda>i. model_key revision 160 (8 + 20 * i)) ` {0..<Suc 3276}
        \<or> k \<in> set (environmentalSunSpecDecoderKeys revision)"
      unfolding repeating_keys_def limits using True by (simp only: if_True refl set_append upt_image Un_iff)
    then show ?thesis unfolding e c Un_iff counted_model_def using True by (simp only: if_True refl) blast
  next
    case False
    then have v2: "revision = SunSpecModelsRevisionV2" using assms by (simp add: standard_revision_def)
    have "k \<in> set (repeating_keys revision) \<longleftrightarrow>
        k \<in> (\<lambda>i. model_key revision 714 (18 + 25 * i)) ` {0..<Suc 2620}
        \<or> k \<in> (\<lambda>i. model_key revision 803 (26 + 32 * i)) ` {0..<Suc 2047}
        \<or> k \<in> (\<lambda>i. model_key revision 804 (46 + 16 * i)) ` {0..<Suc 4093}"
      unfolding repeating_keys_def limits v2
      by (simp only: revisions_differ if_False if_True refl set_append upt_image Un_iff)
    then show ?thesis unfolding c [unfolded v2] counted_model_def v2
      by (simp only: revisions_differ if_False refl) blast
  qed
qed

definition dynamic_definition :: "string \<Rightarrow> decoder_key \<Rightarrow> model_definition option" where
  "dynamic_definition revision k =
     (if revision = SunSpecModelsRevisionV1
      then (if dkModelID k = 160 then resolved (mpptSunSpecDefinition revision (dkModelLength k))
            else if dkModelID k \<in> {302, 303, 304}
            then resolved (environmentalSunSpecDefinition revision (dkModelID k) (dkModelLength k)) else None)
      else (if dkModelID k = 714 then resolved (derDCMeasureV2SunSpecDefinition (dkModelLength k))
            else if dkModelID k = 803 then resolved (bessBankV2SunSpecDefinition (dkModelLength k))
            else if dkModelID k = 804 then resolved (bessStringV2SunSpecDefinition (dkModelLength k))
            else None))"

lemma resolved_if:
  assumes "if c then \<exists>d. f = Inr d \<and> fits_key revision m n d else \<exists>e. f = Inl e"
  shows "resolved f \<noteq> None \<longleftrightarrow> c" and "resolved f = Some d \<Longrightarrow> fits_key revision m n d"
  using assms by (auto simp: resolved_def split: if_splits)

lemmas counted_all = mppt_resolves environment_resolves der_dc_resolves bess_bank_resolves bess_string_resolves

lemma dynamic_iff:
  assumes "standard_revision revision"
  shows "dynamic_definition revision k \<noteq> None \<longleftrightarrow> counted_model revision (dkModelID k) (dkModelLength k)"
  using assms counted_all [THEN resolved_if(1)]
  by (auto simp: dynamic_definition_def counted_model_def standard_revision_def)

lemma dynamic_fits:
  assumes "standard_revision revision" and "dynamic_definition revision k = Some d"
  shows "fits_key revision (dkModelID k) (dkModelLength k) d"
  using assms counted_all [THEN resolved_if(2)]
  by (auto simp: dynamic_definition_def standard_revision_def split: if_splits)

definition built_from :: "string \<Rightarrow> model_definition list \<Rightarrow> decoder_registry \<Rightarrow> bool" where
  "built_from revision ds r \<longleftrightarrow> rgRevision r = revision
     \<and> rgKeys r = standardSunSpecDecoderKeys revision ds \<and> map mdKey ds = static_keys revision
     \<and> list_all definition_fits ds
     \<and> (\<forall>k. registry_definition r k = (case map_of (map (\<lambda>d. (mdKey d, d)) ds) k of
          Some d \<Rightarrow> Some d
        | None \<Rightarrow> if dkSchemaRevision k = revision then dynamic_definition revision k else None))"

lemma registry_built:
  assumes "standard_revision revision"
  shows "\<exists>r ds. NewStandardSunSpecDecoderRegistry revision = Inr r \<and> built_from revision ds r"
proof -
  obtain ds where ds: "standardSunSpecModelDefinitions revision = Inr ds" "list_all definition_fits ds"
      "map mdKey ds = static_keys revision"
    using standard_definitions [OF assms] by auto
  have "distinct (map mdKey ds)" using ds(3) static_keys_distinct by simp
  moreover have "list_all (\<lambda>d. gm_get ([] :: (decoder_key, model_definition) gomap) (mdKey d) = None) ds"
    by (simp add: list_all_iff gm_get_def)
  ultimately obtain m where m: "register_definitions ds [] = Inr m"
      "\<forall>k. gm_get m k = (case map_of (map (\<lambda>d. (mdKey d, d)) ds) k of
          Some d \<Rightarrow> Some d | None \<Rightarrow> gm_get ([] :: (decoder_key, model_definition) gomap) k)"
    using register_distinct by blast
  let ?r = "\<lparr>rgRevision = revision, rgDefinitions = m, rgKeys = standardSunSpecDecoderKeys revision ds\<rparr>"
  have "registry_definition ?r k = (case map_of (map (\<lambda>d. (mdKey d, d)) ds) k of
          Some d \<Rightarrow> Some d
        | None \<Rightarrow> if dkSchemaRevision k = revision then dynamic_definition revision k else None)" for k
  proof (cases "map_of (map (\<lambda>d. (mdKey d, d)) ds) k")
    case None
    with m(2) have "gm_get m k = None" by (simp add: gm_get_def)
    then show ?thesis using assms None
      by (auto simp: registry_definition_def dynamic_definition_def standard_revision_def)
  next
    case (Some d)
    with m(2) show ?thesis by (simp add: registry_definition_def)
  qed
  then have "built_from revision ds ?r" using ds by (simp add: built_from_def)
  moreover have "NewStandardSunSpecDecoderRegistry revision = Inr ?r"
    using ds m by (simp add: NewStandardSunSpecDecoderRegistry_def)
  ultimately show ?thesis by blast
qed

lemma registry_resolves:
  assumes "NewStandardSunSpecDecoderRegistry revision = Inr r"
  shows "set (rgKeys r) = {k. registry_definition r k \<noteq> None}" and "rgRevision r = revision"
    and "registry_definition r k = Some d \<Longrightarrow> definition_fits d \<and> mdKey d = k \<and> dkSchemaRevision k = revision"
proof -
  have rev: "standard_revision revision"
    using assms by (auto simp: NewStandardSunSpecDecoderRegistry_def standardSunSpecModelDefinitions_def
        standard_revision_def split: if_splits sum.splits)
  obtain ds where b: "built_from revision ds r"
    using registry_built [OF rev] assms by auto
  have *: "rgRevision r = revision" "rgKeys r = standardSunSpecDecoderKeys revision ds"
      "map mdKey ds = static_keys revision" "list_all definition_fits ds"
    using b by (simp_all add: built_from_def)
  have def: "registry_definition r k = (case map_of (map (\<lambda>d. (mdKey d, d)) ds) k of
          Some d \<Rightarrow> Some d
        | None \<Rightarrow> if dkSchemaRevision k = revision then dynamic_definition revision k else None)" for k
    using b by (simp add: built_from_def)
  have none: "map_of (map (\<lambda>d. (mdKey d, d)) ds) k = None \<longleftrightarrow> k \<notin> set (static_keys revision)" for k
    unfolding *(3) [symmetric] by (auto simp: map_of_eq_None_iff image_iff)
  have iff: "registry_definition r k \<noteq> None \<longleftrightarrow> k \<in> set (static_keys revision)
      \<or> dkSchemaRevision k = revision \<and> dynamic_definition revision k \<noteq> None" for k
    using none [of k] def [of k] by (cases "map_of (map (\<lambda>d. (mdKey d, d)) ds) k") auto
  show "set (rgKeys r) = {k. registry_definition r k \<noteq> None}"
    unfolding *(2) standardSunSpecDecoderKeys_def iff dynamic_iff [OF rev] set_sort set_append *(3)
    using repeating_announced [OF rev] by blast
  show "rgRevision r = revision" by (rule *(1))
  assume d: "registry_definition r k = Some d"
  show "definition_fits d \<and> mdKey d = k \<and> dkSchemaRevision k = revision"
  proof (cases "map_of (map (\<lambda>d. (mdKey d, d)) ds) k")
    case None
    with d def [of k] have k: "dkSchemaRevision k = revision" "dynamic_definition revision k = Some d"
      by (auto split: if_splits)
    then show ?thesis using dynamic_fits [OF rev k(2)] by (cases k) (simp add: fits_key_def)
  next
    case (Some d')
    with d def [of k] have "map_of (map (\<lambda>d. (mdKey d, d)) ds) k = Some d" by simp
    then have "d \<in> set ds" "mdKey d = k" by (auto dest: map_of_SomeD)
    moreover have "k \<in> set (static_keys revision)" using none [of k] Some by auto
    ultimately show ?thesis using *(4) announced_static by (auto simp: list_all_iff)
  qed
qed

section \<open>Properties\<close>

text \<open>Both standard registries are built without error, and each announces exactly the keys
  it resolves: its 35 or 12 fixed layouts, and every length of a model with a repeating group that
  a chain can address. No announced key is refused later and no resolvable key goes unannounced.\<close>

theorem standard_registries_complete:
  "revision \<in> {SunSpecModelsRevisionV1, SunSpecModelsRevisionV2} \<Longrightarrow>
    \<exists>r. NewStandardSunSpecDecoderRegistry revision = Inr r
      \<and> set (rgKeys r) = {k. registry_definition r k \<noteq> None}
      \<and> (\<forall>k \<in> set (rgKeys r). dkSchemaRevision k = revision)"
proof -
  assume "revision \<in> {SunSpecModelsRevisionV1, SunSpecModelsRevisionV2}"
  then have "standard_revision revision" by (auto simp: standard_revision_def)
  then obtain r where r: "NewStandardSunSpecDecoderRegistry revision = Inr r"
    using registry_built by blast
  show ?thesis using registry_resolves [OF r] r by (intro exI [of _ r]) auto
qed

theorem standard_registries_complete_witness:
  "(\<exists>r. NewStandardSunSpecDecoderRegistry SunSpecModelsRevisionV1 = Inr r
      \<and> set (rgKeys r) = {k. registry_definition r k \<noteq> None}
      \<and> (\<forall>k \<in> set (rgKeys r). dkSchemaRevision k = SunSpecModelsRevisionV1))
   \<and> (\<exists>r. NewStandardSunSpecDecoderRegistry SunSpecModelsRevisionV2 = Inr r
      \<and> set (rgKeys r) = {k. registry_definition r k \<noteq> None}
      \<and> (\<forall>k \<in> set (rgKeys r). dkSchemaRevision k = SunSpecModelsRevisionV2))"
  using standard_registries_complete [of SunSpecModelsRevisionV1]
    standard_registries_complete [of SunSpecModelsRevisionV2] by simp

text \<open>C8: Every definition a standard registry resolves fits its model: its points start at the
  model's first register and follow each other without gap or overlap up to its last one, each
  as wide as its type, and every scale factor named by a point is a point of the same model.\<close>

theorem resolved_definitions_tile_their_model:
  "NewStandardSunSpecDecoderRegistry revision = Inr r \<Longrightarrow> registry_definition r k = Some d \<Longrightarrow>
    mdKey d = k \<and> placed 0 (mdPoints d) \<and> extent (mdPoints d) = unat (dkModelLength k) + 2
    \<and> list_all width_ok (mdPoints d) \<and> scales_within (scale_names (mdPoints d)) (mdPoints d)"
  using registry_resolves(3) [of revision r k d]
  by (auto simp: definition_fits_def table_ok_def points_ok_def)

theorem resolved_definitions_tile_their_model_witness:
  "\<exists>r d. NewStandardSunSpecDecoderRegistry SunSpecModelsRevisionV1 = Inr r
    \<and> registry_definition r (model_key SunSpecModelsRevisionV1 160 48) = Some d
    \<and> placed 0 (mdPoints d) \<and> extent (mdPoints d) = 50"
proof -
  obtain r where r: "NewStandardSunSpecDecoderRegistry SunSpecModelsRevisionV1 = Inr r"
    using registry_built [of SunSpecModelsRevisionV1] by (auto simp: standard_revision_def)
  have "model_key SunSpecModelsRevisionV1 160 48 \<in> set (repeating_keys SunSpecModelsRevisionV1)"
    by (simp add: repeating_announced standard_revision_def model_key_def counted_model_def counted_def
        exI [of _ 2])
  then have "model_key SunSpecModelsRevisionV1 160 48 \<in> set (rgKeys r)"
    using r by (auto simp: NewStandardSunSpecDecoderRegistry_def standardSunSpecDecoderKeys_def
        split: sum.splits)
  then obtain d where d: "registry_definition r (model_key SunSpecModelsRevisionV1 160 48) = Some d"
    using registry_resolves(1) [OF r] by auto
  with resolved_definitions_tile_their_model [OF r d] r show ?thesis
    by (auto simp: model_key_def)
qed

end
