(* ===== verification/SunSpec_Decoder.thy ===== *)
theory SunSpec_Decoder
  imports SunSpec_Registry
begin

text \<open>
  Decoding an admitted occurrence with the registry (the decoder part of
  \<^verbatim>\<open>sunspec_decoder.go\<close>) and a whole chain. A decode that would index out of range is
  \<open>None\<close>. The theorems show that a standard registry never does, that it refuses an occurrence
  exactly when its key or its words do not match, and that the facts of a decoded model carry
  every payload register exactly once.
\<close>

section \<open>Facts\<close>

text \<open>The nested layout a fact may carry is attached by a later step and is not part of decoding.\<close>

record sun_fact =
  fcFieldID :: string
  fcPointName :: string
  fcUnit :: string
  fcRequired :: bool
  fcGroupID :: string
  fcRepeatIndex :: u16
  fcRepeated :: bool
  fcValue :: sun_value

record decoded_model =
  dmKey :: decoder_key
  dmOrdinal :: u32
  dmTopology :: topology
  dmQualifies :: bool
  dmGeometryValid :: bool
  dmRaw :: "u16 list"
  dmSpans :: "source_span list"
  dmFacts :: "sun_fact list"

datatype decode_error =
    OccurrenceUnkeyed
  | DecoderKeyUnsupported
  | WordsContradictKey
  | ScaleReferenceMissing
  | CommonNotFirst
  | CommonNotUnique
  | CommonUnsupported

fun find_fact :: "sun_fact list \<Rightarrow> string \<Rightarrow> sun_fact option" where
  "find_fact [] fieldID = None"
| "find_fact (f # fs) fieldID = (if fcFieldID f = fieldID then Some f else find_fact fs fieldID)"

definition Fact :: "decoded_model \<Rightarrow> string \<Rightarrow> sun_fact option" where
  "Fact m fieldID = find_fact (dmFacts m) fieldID"

section \<open>One occurrence\<close>

definition point_words :: "point_definition \<Rightarrow> u16 list \<Rightarrow> u16 list option" where
  "point_words p ws =
     (let start = unat (pdOffset p); stop = start + unat (pdSize p) in
      if stop \<le> length ws then Some (take (unat (pdSize p)) (drop start ws)) else None)"

fun point_scales :: "u16 list \<Rightarrow> point_definition list \<Rightarrow> (string, sun_value) gomap
    \<Rightarrow> (string, sun_value) gomap option" where
  "point_scales ws [] scales = Some scales"
| "point_scales ws (p # ps) scales =
     (if pdType p \<noteq> SunSpecTypeScaleFactor then point_scales ws ps scales
      else (case point_words p ws of
          None \<Rightarrow> None
        | Some segment \<Rightarrow> (case decodeSunSpecValue p segment None of
              None \<Rightarrow> None
            | Some v \<Rightarrow> point_scales ws ps (gm_put (pdName p) v scales))))"

definition fixed_scale_value :: "int \<Rightarrow> sun_value" where
  "fixed_scale_value n =
     (invalidSunSpecValue SunSpecTypeScaleFactor [] SunSpecValueValid)\<lparr>svSigned := Some n\<rparr>"

definition point_scale :: "(string, sun_value) gomap \<Rightarrow> point_definition
    \<Rightarrow> decode_error + sun_value option" where
  "point_scale scales p =
     (if pdScaleFactor p \<noteq> ''''
      then (case gm_get scales (pdScaleFactor p) of
              None \<Rightarrow> Inl ScaleReferenceMissing
            | Some v \<Rightarrow> Inr (Some v))
      else Inr (map_option fixed_scale_value (pdFixedScale p)))"

definition fact_of :: "point_definition \<Rightarrow> sun_value \<Rightarrow> sun_fact" where
  "fact_of p v = \<lparr>fcFieldID = pdFieldID p, fcPointName = pdName p, fcUnit = pdUnit p,
     fcRequired = pdRequired p, fcGroupID = pdGroupID p, fcRepeatIndex = pdRepeatIndex p,
     fcRepeated = pdRepeated p, fcValue = v\<rparr>"

definition add_fact :: "point_definition \<Rightarrow> sun_value \<Rightarrow> decoded_model \<Rightarrow> decoded_model" where
  "add_fact p v m = m\<lparr>
     dmQualifies := (if pdMandatory p \<and> \<not> mandatorySunSpecValueQualifies v then False else dmQualifies m),
     dmFacts := dmFacts m @ [fact_of p v]\<rparr>"

fun point_facts :: "u16 list \<Rightarrow> (string, sun_value) gomap \<Rightarrow> point_definition list
    \<Rightarrow> decoded_model \<Rightarrow> (decode_error + decoded_model) option" where
  "point_facts ws scales [] m = Some (Inr m)"
| "point_facts ws scales (p # ps) m =
     (if pdOffset p < 2 then point_facts ws scales ps m
      else (case point_scale scales p of
          Inl e \<Rightarrow> Some (Inl e)
        | Inr scale \<Rightarrow> (case point_words p ws of
              None \<Rightarrow> None
            | Some segment \<Rightarrow> (case decodeSunSpecValue p segment scale of
                  None \<Rightarrow> None
                | Some v \<Rightarrow> point_facts ws scales ps (add_fact p v m)))))"

definition DecodeOccurrence :: "decoder_registry \<Rightarrow> occurrence \<Rightarrow> (decode_error + decoded_model) option" where
  "DecodeOccurrence r occ =
     (case ocDecoderKey occ of
        None \<Rightarrow> Some (Inl OccurrenceUnkeyed)
      | Some key \<Rightarrow>
          (if ocDisposition occ \<noteq> SunSpecChainDispositionAdmitted
              \<or> dkModelID key \<noteq> wkModelID (ocWireKey occ)
              \<or> dkModelLength key \<noteq> wkModelLength (ocWireKey occ)
              \<or> dkSchemaRevision key \<noteq> ocSchemaRevision occ
              \<or> dkSchemaRevision key \<noteq> rgRevision r
           then Some (Inl OccurrenceUnkeyed)
           else (case registry_definition r key of
               None \<Rightarrow> Some (Inl DecoderKeyUnsupported)
             | Some d \<Rightarrow>
                 (let ws = ocWords occ in
                  if length ws \<noteq> unat (dkModelLength key) + 2 \<or> ws ! 0 \<noteq> dkModelID key
                     \<or> ws ! 1 \<noteq> dkModelLength key
                  then Some (Inl WordsContradictKey)
                  else
                    (let model = \<lparr>dmKey = key, dmOrdinal = ocOrdinal occ, dmTopology = mdTopology d,
                       dmQualifies = True, dmGeometryValid = True, dmRaw = ws, dmSpans = ocSpans occ,
                       dmFacts = []\<rparr> in
                     if (case mdGeometry d of None \<Rightarrow> False | Some geometry \<Rightarrow> \<not> geometry ws)
                     then Some (Inr (model\<lparr>dmGeometryValid := False, dmQualifies := False\<rparr>))
                     else (case point_scales ws (mdPoints d) [] of
                         None \<Rightarrow> None
                       | Some scales \<Rightarrow> point_facts ws scales (mdPoints d) model))))))"

section \<open>A chain\<close>

fun decode_admitted :: "decoder_registry \<Rightarrow> occurrence list \<Rightarrow> decoded_model list
    \<Rightarrow> (decode_error + decoded_model list) option" where
  "decode_admitted r [] out = Some (Inr out)"
| "decode_admitted r (occ # occs) out =
     (if ocDisposition occ \<noteq> SunSpecChainDispositionAdmitted then decode_admitted r occs out
      else (case DecodeOccurrence r occ of
          None \<Rightarrow> None
        | Some (Inl e) \<Rightarrow> Some (Inl e)
        | Some (Inr m) \<Rightarrow> decode_admitted r occs (out @ [m])))"

definition decodeOccurrences :: "decoder_registry \<Rightarrow> occurrence list
    \<Rightarrow> (decode_error + decoded_model list) option" where
  "decodeOccurrences r occs =
     (if (case occs of [] \<Rightarrow> True | occ # _ \<Rightarrow> wkModelID (ocWireKey occ) \<noteq> 1)
      then Some (Inl CommonNotFirst)
      else if length (filter (\<lambda>occ. wkModelID (ocWireKey occ) = 1) occs) \<noteq> 1
      then Some (Inl CommonNotUnique)
      else if ocDisposition (hd occs) \<noteq> SunSpecChainDispositionAdmitted
      then Some (Inl CommonUnsupported)
      else decode_admitted r occs [])"

definition DecodeChain :: "decoder_registry \<Rightarrow> chain_snapshot
    \<Rightarrow> (decode_error + decoded_model list) option" where
  "DecodeChain r snapshot = decodeOccurrences r (snOccurrences snapshot)"

section \<open>Facts of a fitting definition\<close>

lemma placed_words:
  assumes "placed k ps" and "k + extent ps = length ws" and "p \<in> set ps"
  shows "\<exists>segment. point_words p ws = Some segment \<and> length segment = unat (pdSize p)"
  using assms
proof (induction ps arbitrary: k)
  case Nil
  then show ?case by simp
next
  case (Cons q ps)
  show ?case
  proof (cases "p = q")
    case True
    with Cons.prems show ?thesis by (simp add: point_words_def extent_def)
  next
    case False
    with Cons.prems Cons.IH [of "k + unat (pdSize q)"] show ?thesis by (simp add: extent_def)
  qed
qed

lemma decode_segment:
  assumes "width_ok p" and "point_words p ws = Some segment" and "length segment = unat (pdSize p)"
  shows "\<exists>v. decodeSunSpecValue p segment scale = Some v \<and> svRaw v = segment"
  using assms decode_returns by blast

lemma scales_collected:
  assumes "\<forall>p \<in> set ps. width_ok p \<and> (\<exists>s. point_words p ws = Some s \<and> length s = unat (pdSize p))"
  shows "\<exists>scales'. point_scales ws ps scales = Some scales'
    \<and> (\<forall>n. gm_get scales n \<noteq> None \<or> n \<in> set (scale_names ps) \<longrightarrow> gm_get scales' n \<noteq> None)"
  using assms
proof (induction ps arbitrary: scales)
  case Nil
  then show ?case by (simp add: scale_names_def)
next
  case (Cons p ps)
  show ?case
  proof (cases "pdType p = SunSpecTypeScaleFactor")
    case False
    with Cons show ?thesis by (simp add: scale_names_def)
  next
    case True
    obtain s where s: "point_words p ws = Some s" "length s = unat (pdSize p)" and w: "width_ok p"
      using Cons.prems by auto
    obtain v where v: "decodeSunSpecValue p s None = Some v"
      using decode_segment [OF w s] by blast
    obtain scales' where "point_scales ws ps (gm_put (pdName p) v scales) = Some scales'"
      "\<forall>n. gm_get (gm_put (pdName p) v scales) n \<noteq> None \<or> n \<in> set (scale_names ps)
        \<longrightarrow> gm_get scales' n \<noteq> None"
      using Cons by (meson list.set_intros(2))
    with True s v show ?thesis by (auto simp: scale_names_def go_map_simps)
  qed
qed

definition mandate_met :: "point_definition \<Rightarrow> sun_fact \<Rightarrow> bool" where
  "mandate_met p f \<longleftrightarrow> pdMandatory p \<longrightarrow> mandatorySunSpecValueQualifies (fcValue f)"

lemma facts_collected:
  assumes "placed k ps" and "k + extent ps = length ws" and "2 \<le> k" and "list_all width_ok ps"
    and "\<forall>p \<in> set ps. pdScaleFactor p \<noteq> '''' \<longrightarrow> gm_get scales (pdScaleFactor p) \<noteq> None"
  shows "\<exists>fs. point_facts ws scales ps m = Some (Inr (m\<lparr>dmFacts := dmFacts m @ fs,
      dmQualifies := dmQualifies m \<and> list_all2 mandate_met ps fs\<rparr>))
    \<and> list_all2 (\<lambda>p f. f = fact_of p (fcValue f)) ps fs
    \<and> concat (map (\<lambda>f. svRaw (fcValue f)) fs) = drop k ws"
  using assms
proof (induction ps arbitrary: k m)
  case Nil
  then show ?case by (auto simp: extent_def intro!: exI [of _ "[]"])
next
  case (Cons p ps)
  obtain s where s: "point_words p ws = Some s" "length s = unat (pdSize p)"
    using placed_words [OF Cons.prems(1,2)] by auto
  have w: "width_ok p" "list_all width_ok ps" using Cons.prems(4) by simp_all
  have off: "unat (pdOffset p) = k" using Cons.prems(1) by simp
  then have ge: "\<not> pdOffset p < 2" using Cons.prems(3) by (simp add: word_less_nat_alt)
  obtain scale where scale: "point_scale scales p = Inr scale"
    using Cons.prems(5) by (cases "pdScaleFactor p = ''''") (auto simp: point_scale_def)
  obtain v where v: "decodeSunSpecValue p s scale = Some v" "svRaw v = s"
    using decode_segment [OF w(1) s] by blast
  have seg: "s = take (unat (pdSize p)) (drop k ws)"
    using s(1) off by (auto simp: point_words_def Let_def split: if_splits)
  from Cons.IH [of "k + unat (pdSize p)" "add_fact p v m"] Cons.prems w(2)
  obtain fs where fs: "point_facts ws scales ps (add_fact p v m) = Some (Inr ((add_fact p v m)
      \<lparr>dmFacts := dmFacts (add_fact p v m) @ fs,
       dmQualifies := dmQualifies (add_fact p v m) \<and> list_all2 mandate_met ps fs\<rparr>))"
    "list_all2 (\<lambda>p f. f = fact_of p (fcValue f)) ps fs"
    "concat (map (\<lambda>f. svRaw (fcValue f)) fs) = drop (k + unat (pdSize p)) ws"
    by (auto simp: extent_def add.assoc)
  have step: "point_facts ws scales (p # ps) m = point_facts ws scales ps (add_fact p v m)"
    using ge scale s(1) v(1) by simp
  have raw: "drop k ws = s @ drop (k + unat (pdSize p)) ws"
    unfolding seg by (metis append_take_drop_id drop_drop add.commute)
  show ?case
  proof (intro exI conjI)
    show "point_facts ws scales (p # ps) m = Some (Inr (m\<lparr>dmFacts := dmFacts m @ fact_of p v # fs,
        dmQualifies := dmQualifies m \<and> list_all2 mandate_met (p # ps) (fact_of p v # fs)\<rparr>))"
      unfolding step fs(1) by (simp add: add_fact_def mandate_met_def fact_of_def)
    show "list_all2 (\<lambda>p f. f = fact_of p (fcValue f)) (p # ps) (fact_of p v # fs)"
      using fs(2) by (simp add: fact_of_def)
    show "concat (map (\<lambda>f. svRaw (fcValue f)) (fact_of p v # fs)) = drop k ws"
      using fs(3) v(2) raw by (simp add: fact_of_def)
  qed
qed

text \<open>The two header points come first; the facts are those of the points after them.\<close>

lemma headed_split:
  assumes "headed ps" and "placed 0 ps"
  obtains a b qs where "ps = a # b # qs" "pdOffset a = 0" "pdOffset b = 1" "placed 2 qs"
    "unat (pdSize a) = 1" "unat (pdSize b) = 1"
proof -
  obtain a b qs where ps: "ps = a # b # qs" and one: "pdSize a = 1" "pdSize b = 1"
    using assms(1) by (auto simp: headed_def split: list.splits)
  have "unat (pdOffset a) = 0" "unat (pdOffset b) = 1" "placed 2 qs"
    using assms(2) unfolding ps by (simp_all add: one numeral_2_eq_2)
  moreover from this have "pdOffset a = 0" "pdOffset b = 1" by (simp_all add: word_unat_eq_iff)
  ultimately show ?thesis using that [OF ps] one by simp
qed

definition payload_facts :: "model_definition \<Rightarrow> u16 list \<Rightarrow> sun_fact list \<Rightarrow> bool" where
  "payload_facts d ws fs \<longleftrightarrow>
     list_all2 (\<lambda>p f. f = fact_of p (fcValue f)) (drop 2 (mdPoints d)) fs
     \<and> concat (map (\<lambda>f. svRaw (fcValue f)) fs) = drop 2 ws"

lemma definition_facts:
  assumes fits: "definition_fits d" and len: "length ws = unat (dkModelLength (mdKey d)) + 2"
  shows "\<exists>scales fs. point_scales ws (mdPoints d) [] = Some scales
    \<and> point_facts ws scales (mdPoints d) m = Some (Inr (m\<lparr>dmFacts := dmFacts m @ fs,
        dmQualifies := dmQualifies m \<and> list_all2 mandate_met (drop 2 (mdPoints d)) fs\<rparr>))
    \<and> payload_facts d ws fs"
proof -
  have d: "placed 0 (mdPoints d)" "extent (mdPoints d) = length ws" "list_all width_ok (mdPoints d)"
    "scales_within (scale_names (mdPoints d)) (mdPoints d)" "headed (mdPoints d)"
    using fits len by (simp_all add: definition_fits_def table_ok_def points_ok_def)
  have "\<forall>p \<in> set (mdPoints d). width_ok p
      \<and> (\<exists>s. point_words p ws = Some s \<and> length s = unat (pdSize p))"
    using placed_words [OF d(1)] d(2,3) by (simp add: list_all_iff)
  from scales_collected [OF this, of "[]"] obtain scales where sc:
    "point_scales ws (mdPoints d) [] = Some scales"
    "\<forall>n \<in> set (scale_names (mdPoints d)). gm_get scales n \<noteq> None" by blast
  obtain a b qs where ps: "mdPoints d = a # b # qs" "pdOffset a = 0" "pdOffset b = 1" "placed 2 qs"
    "unat (pdSize a) = 1" "unat (pdSize b) = 1"
    using headed_split [OF d(5,1)] .
  have "2 + extent qs = length ws" using d(2) ps by (simp add: extent_def)
  moreover have "list_all width_ok qs" using d(3) ps by simp
  moreover have "\<forall>p \<in> set qs. pdScaleFactor p \<noteq> '''' \<longrightarrow> gm_get scales (pdScaleFactor p) \<noteq> None"
    using d(4) sc(2) ps(1) by (auto simp: scales_within_def list_all_iff)
  ultimately obtain fs where "point_facts ws scales qs m = Some (Inr (m\<lparr>dmFacts := dmFacts m @ fs,
      dmQualifies := dmQualifies m \<and> list_all2 mandate_met qs fs\<rparr>))"
    "list_all2 (\<lambda>p f. f = fact_of p (fcValue f)) qs fs"
    "concat (map (\<lambda>f. svRaw (fcValue f)) fs) = drop 2 ws"
    using facts_collected [OF ps(4)] by blast
  with sc(1) ps(1,2,3) show ?thesis by (auto simp: payload_facts_def)
qed

section \<open>Occurrences\<close>

text \<open>What an occurrence must say of itself to be decoded under a key.\<close>

definition keyed :: "decoder_registry \<Rightarrow> occurrence \<Rightarrow> decoder_key \<Rightarrow> bool" where
  "keyed r occ key \<longleftrightarrow> ocDecoderKey occ = Some key \<and> ocDisposition occ = SunSpecChainDispositionAdmitted
     \<and> dkModelID key = wkModelID (ocWireKey occ) \<and> dkModelLength key = wkModelLength (ocWireKey occ)
     \<and> dkSchemaRevision key = ocSchemaRevision occ \<and> dkSchemaRevision key = rgRevision r"

definition worded :: "occurrence \<Rightarrow> decoder_key \<Rightarrow> bool" where
  "worded occ key \<longleftrightarrow> length (ocWords occ) = unat (dkModelLength key) + 2
     \<and> ocWords occ ! 0 = dkModelID key \<and> ocWords occ ! 1 = dkModelLength key"

definition geometry_ok :: "model_definition \<Rightarrow> u16 list \<Rightarrow> bool" where
  "geometry_ok d ws \<longleftrightarrow> (case mdGeometry d of None \<Rightarrow> True | Some geometry \<Rightarrow> geometry ws)"

lemma keyed_simps:
  assumes "keyed r occ key"
  shows "ocDecoderKey occ = Some key" "ocDisposition occ = SunSpecChainDispositionAdmitted"
    "wkModelID (ocWireKey occ) = dkModelID key" "wkModelLength (ocWireKey occ) = dkModelLength key"
    "ocSchemaRevision occ = rgRevision r" "dkSchemaRevision key = rgRevision r"
  using assms by (auto simp: keyed_def)

lemma keyed_unique: "keyed r occ k \<Longrightarrow> keyed r occ k' \<Longrightarrow> k = k'"
  by (simp add: keyed_def)

lemma decode_keyed:
  assumes r: "NewStandardSunSpecDecoderRegistry revision = Inr r" and k: "keyed r occ key"
    and d: "registry_definition r key = Some d" and w: "worded occ key"
  shows "\<exists>m. DecodeOccurrence r occ = Some (Inr m) \<and> dmKey m = key \<and> dmRaw m = ocWords occ
    \<and> dmOrdinal m = ocOrdinal occ \<and> dmSpans m = ocSpans occ \<and> dmTopology m = mdTopology d
    \<and> dmGeometryValid m = geometry_ok d (ocWords occ)
    \<and> (if geometry_ok d (ocWords occ)
       then payload_facts d (ocWords occ) (dmFacts m)
         \<and> dmQualifies m = list_all2 mandate_met (drop 2 (mdPoints d)) (dmFacts m)
       else dmFacts m = [] \<and> \<not> dmQualifies m)"
proof -
  let ?ws = "ocWords occ"
  let ?m = "\<lparr>dmKey = key, dmOrdinal = ocOrdinal occ, dmTopology = mdTopology d, dmQualifies = True,
    dmGeometryValid = True, dmRaw = ?ws, dmSpans = ocSpans occ, dmFacts = []\<rparr>"
  have fits: "definition_fits d" "mdKey d = key" using registry_resolves(3) [OF r d] by simp_all
  have w': "length ?ws = unat (dkModelLength key) + 2" "?ws ! 0 = dkModelID key" "?ws ! 1 = dkModelLength key"
    using w by (simp_all add: worded_def)
  have g: "(case mdGeometry d of None \<Rightarrow> False | Some geometry \<Rightarrow> \<not> geometry ?ws) = (\<not> geometry_ok d ?ws)"
    by (simp add: geometry_ok_def split: option.split)
  have unfold: "DecodeOccurrence r occ = (if \<not> geometry_ok d ?ws
      then Some (Inr (?m\<lparr>dmGeometryValid := False, dmQualifies := False\<rparr>))
      else (case point_scales ?ws (mdPoints d) [] of
          None \<Rightarrow> None | Some scales \<Rightarrow> point_facts ?ws scales (mdPoints d) ?m))"
    using d w' g by (simp add: DecodeOccurrence_def keyed_simps [OF k] Let_def)
  show ?thesis
  proof (cases "geometry_ok d ?ws")
    case False
    then show ?thesis unfolding unfold by simp
  next
    case True
    from definition_facts [OF fits(1), of ?ws ?m] w'(1) fits(2) obtain scales fs where
      "point_scales ?ws (mdPoints d) [] = Some scales"
      "point_facts ?ws scales (mdPoints d) ?m = Some (Inr (?m\<lparr>dmFacts := dmFacts ?m @ fs,
        dmQualifies := dmQualifies ?m \<and> list_all2 mandate_met (drop 2 (mdPoints d)) fs\<rparr>))"
      "payload_facts d ?ws fs" by auto
    with True show ?thesis unfolding unfold by simp
  qed
qed

lemma decode_cases:
  assumes r: "NewStandardSunSpecDecoderRegistry revision = Inr r"
  shows "DecodeOccurrence r occ = Some (Inl OccurrenceUnkeyed) \<and> (\<forall>key. \<not> keyed r occ key)
    \<or> DecodeOccurrence r occ = Some (Inl DecoderKeyUnsupported)
        \<and> (\<exists>key. keyed r occ key \<and> key \<notin> set (rgKeys r))
    \<or> DecodeOccurrence r occ = Some (Inl WordsContradictKey)
        \<and> (\<exists>key. keyed r occ key \<and> key \<in> set (rgKeys r) \<and> \<not> worded occ key)
    \<or> (\<exists>m key. DecodeOccurrence r occ = Some (Inr m) \<and> keyed r occ key \<and> key \<in> set (rgKeys r)
        \<and> worded occ key)"
proof (cases "\<exists>key. keyed r occ key")
  case False
  then have "DecodeOccurrence r occ = Some (Inl OccurrenceUnkeyed)"
    by (cases "ocDecoderKey occ") (auto simp: DecodeOccurrence_def keyed_def)
  with False show ?thesis by blast
next
  case True
  then obtain key where k: "keyed r occ key" by blast
  show ?thesis
  proof (cases "registry_definition r key")
    case None
    then have "DecodeOccurrence r occ = Some (Inl DecoderKeyUnsupported)"
      by (simp add: DecodeOccurrence_def keyed_simps [OF k])
    with k None registry_resolves(1) [OF r] show ?thesis by blast
  next
    case (Some d)
    then have in_keys: "key \<in> set (rgKeys r)" using registry_resolves(1) [OF r] by blast
    show ?thesis
    proof (cases "worded occ key")
      case False
      with Some have "DecodeOccurrence r occ = Some (Inl WordsContradictKey)"
        by (auto simp: DecodeOccurrence_def keyed_simps [OF k] worded_def Let_def)
      with k in_keys False show ?thesis by blast
    next
      case True
      with decode_keyed [OF r k Some] k in_keys show ?thesis by blast
    qed
  qed
qed

section \<open>Properties\<close>

text \<open>C7: Decoding is total and says exactly what is wrong: with a standard registry no occurrence
  makes the decoder read outside its words or miss a scale factor; an occurrence is decoded
  exactly when it was admitted under a key the registry announces, which names its own model,
  length and revision, and its words are as many as the key says and start with that header.\<close>

theorem decoding_is_total:
  "NewStandardSunSpecDecoderRegistry revision = Inr r \<Longrightarrow>
    DecodeOccurrence r occ \<noteq> None \<and> DecodeOccurrence r occ \<noteq> Some (Inl ScaleReferenceMissing)
    \<and> ((\<exists>m. DecodeOccurrence r occ = Some (Inr m)) \<longleftrightarrow>
       (\<exists>key \<in> set (rgKeys r). keyed r occ key \<and> worded occ key))
    \<and> (DecodeOccurrence r occ = Some (Inl WordsContradictKey) \<longleftrightarrow>
       (\<exists>key \<in> set (rgKeys r). keyed r occ key \<and> \<not> worded occ key))"
  using decode_cases [of revision r occ] by (auto dest: keyed_unique)

text \<open>C6: A decoded model carries every register of its payload exactly once and in order: the
  facts follow the points of the registry's definition, and their raw words put together are
  the words after the header. The model qualifies exactly when every mandatory fact does. When
  the count register contradicts the length, the model carries no fact and does not qualify.\<close>

theorem decoded_facts_cover_payload:
  "NewStandardSunSpecDecoderRegistry revision = Inr r \<Longrightarrow> DecodeOccurrence r occ = Some (Inr m) \<Longrightarrow>
    \<exists>d. registry_definition r (dmKey m) = Some d \<and> dmRaw m = ocWords occ
    \<and> (if dmGeometryValid m
       then concat (map (\<lambda>f. svRaw (fcValue f)) (dmFacts m)) = drop 2 (ocWords occ)
         \<and> list_all2 (\<lambda>p f. f = fact_of p (fcValue f)) (drop 2 (mdPoints d)) (dmFacts m)
         \<and> (dmQualifies m \<longleftrightarrow> list_all2 mandate_met (drop 2 (mdPoints d)) (dmFacts m))
       else dmFacts m = [] \<and> \<not> dmQualifies m)"
proof -
  assume r: "NewStandardSunSpecDecoderRegistry revision = Inr r" and m: "DecodeOccurrence r occ = Some (Inr m)"
  then obtain key where key: "keyed r occ key" "key \<in> set (rgKeys r)" "worded occ key"
    using decode_cases [OF r, of occ] by auto
  then obtain d where d: "registry_definition r key = Some d" using registry_resolves(1) [OF r] by blast
  from decode_keyed [OF r key(1) d key(3)] m d show ?thesis
    by (intro exI [of _ d]) (auto simp: payload_facts_def split: if_splits)
qed

definition example_temperature :: occurrence where
  "example_temperature = \<lparr>ocOrdinal = 2, ocWireKey = \<lparr>wkModelID = 303, wkModelLength = 2\<rparr>,
     ocSchemaRevision = SunSpecModelsRevisionV1, ocHeaderOffset = 40070, ocPayloadOffset = 40072,
     ocDisposition = SunSpecChainDispositionAdmitted,
     ocDecoderKey = Some (model_key SunSpecModelsRevisionV1 303 2), ocStructural = False,
     ocWords = [303, 2, 215, 0x8000], ocSpans = []\<rparr>"

lemma example_temperature_keyed:
  "\<exists>r. NewStandardSunSpecDecoderRegistry SunSpecModelsRevisionV1 = Inr r
    \<and> (\<exists>key \<in> set (rgKeys r). keyed r example_temperature key \<and> worded example_temperature key)"
proof -
  let ?key = "model_key SunSpecModelsRevisionV1 303 2"
  obtain r where r: "NewStandardSunSpecDecoderRegistry SunSpecModelsRevisionV1 = Inr r"
    using registry_built [of SunSpecModelsRevisionV1] by (auto simp: standard_revision_def)
  have rev: "rgRevision r = SunSpecModelsRevisionV1" by (rule registry_resolves(2) [OF r])
  have "?key \<in> set (repeating_keys SunSpecModelsRevisionV1)"
    by (simp add: repeating_announced standard_revision_def model_key_def counted_model_def counted_def)
  then have "?key \<in> set (rgKeys r)"
    using r by (auto simp: NewStandardSunSpecDecoderRegistry_def standardSunSpecDecoderKeys_def
        split: sum.splits)
  moreover have "keyed r example_temperature ?key" "worded example_temperature ?key"
    by (simp_all add: keyed_def worded_def example_temperature_def model_key_def rev)
  ultimately show ?thesis using r by blast
qed

theorem decoding_is_total_witness:
  "\<exists>r m. NewStandardSunSpecDecoderRegistry SunSpecModelsRevisionV1 = Inr r
    \<and> DecodeOccurrence r example_temperature = Some (Inr m)"
  using example_temperature_keyed decoding_is_total by blast

theorem decoded_facts_cover_payload_witness:
  "\<exists>r m. NewStandardSunSpecDecoderRegistry SunSpecModelsRevisionV1 = Inr r
    \<and> DecodeOccurrence r example_temperature = Some (Inr m) \<and> dmRaw m = [303, 2, 215, 0x8000]"
proof -
  obtain r key where r: "NewStandardSunSpecDecoderRegistry SunSpecModelsRevisionV1 = Inr r"
      and key: "key \<in> set (rgKeys r)" "keyed r example_temperature key" "worded example_temperature key"
    using example_temperature_keyed by blast
  then obtain d where d: "registry_definition r key = Some d" using registry_resolves(1) [OF r] by blast
  obtain m where m: "DecodeOccurrence r example_temperature = Some (Inr m)"
    using decode_keyed [OF r key(2) d key(3)] by blast
  with decoded_facts_cover_payload [OF r m] r show ?thesis
    by (auto simp: example_temperature_def)
qed

section \<open>Chains\<close>

definition admitted :: "occurrence \<Rightarrow> bool" where
  "admitted occ \<longleftrightarrow> ocDisposition occ = SunSpecChainDispositionAdmitted"

definition decodable :: "decoder_registry \<Rightarrow> occurrence \<Rightarrow> bool" where
  "decodable r occ \<longleftrightarrow> (\<exists>key \<in> set (rgKeys r). keyed r occ key \<and> worded occ key)"

lemma decodable_decodes:
  assumes "NewStandardSunSpecDecoderRegistry revision = Inr r" and "decodable r occ"
  shows "\<exists>m. DecodeOccurrence r occ = Some (Inr m) \<and> dmRaw m = ocWords occ \<and> dmOrdinal m = ocOrdinal occ"
proof -
  obtain key where key: "key \<in> set (rgKeys r)" "keyed r occ key" "worded occ key"
    using assms(2) by (auto simp: decodable_def)
  then obtain d where "registry_definition r key = Some d"
    using registry_resolves(1) [OF assms(1)] by blast
  from decode_keyed [OF assms(1) key(2) this key(3)] show ?thesis by blast
qed

lemma decode_admitted_all:
  assumes r: "NewStandardSunSpecDecoderRegistry revision = Inr r"
    and "\<forall>occ \<in> set occs. admitted occ \<longrightarrow> decodable r occ"
  shows "\<exists>ms. decode_admitted r occs out = Some (Inr (out @ ms))
    \<and> map dmRaw ms = map ocWords (filter admitted occs)
    \<and> map dmOrdinal ms = map ocOrdinal (filter admitted occs)"
  using assms(2)
proof (induction occs arbitrary: out)
  case Nil
  then show ?case by simp
next
  case (Cons occ occs)
  show ?case
  proof (cases "admitted occ")
    case False
    with Cons show ?thesis by (simp add: admitted_def)
  next
    case True
    with Cons.prems obtain m where m: "DecodeOccurrence r occ = Some (Inr m)" "dmRaw m = ocWords occ"
      "dmOrdinal m = ocOrdinal occ" using decodable_decodes [OF r] by force
    obtain ms where "decode_admitted r occs (out @ [m]) = Some (Inr ((out @ [m]) @ ms))"
      "map dmRaw ms = map ocWords (filter admitted occs)"
      "map dmOrdinal ms = map ocOrdinal (filter admitted occs)"
      using Cons by (meson list.set_intros(2))
    moreover have "decode_admitted r (occ # occs) out = decode_admitted r occs (out @ [m])"
      using m(1) True by (simp add: admitted_def)
    ultimately show ?thesis using m True by (intro exI [of _ "m # ms"]) simp
  qed
qed

text \<open>What the decoder asks of a chain: the Common Model first, admitted, and nowhere else.\<close>

definition common_first :: "occurrence list \<Rightarrow> bool" where
  "common_first occs \<longleftrightarrow> (\<exists>occ rest. occs = occ # rest \<and> wkModelID (ocWireKey occ) = 1 \<and> admitted occ
     \<and> (\<forall>x \<in> set rest. wkModelID (ocWireKey x) \<noteq> 1))"

lemma decodeOccurrences_common:
  "decodeOccurrences r occs = (if common_first occs then decode_admitted r occs []
     else if occs = [] \<or> wkModelID (ocWireKey (hd occs)) \<noteq> 1 then Some (Inl CommonNotFirst)
     else if length (filter (\<lambda>occ. wkModelID (ocWireKey occ) = 1) occs) \<noteq> 1 then Some (Inl CommonNotUnique)
     else Some (Inl CommonUnsupported))"
  by (cases occs) (auto simp: decodeOccurrences_def common_first_def admitted_def filter_empty_conv)


end
