(* ===== verification/SunSpec_Discovery.thy ===== *)
theory SunSpec_Discovery
  imports SunSpec_Decoder
begin

text \<open>
  Discovery and decoding together (\<^verbatim>\<open>sunspec_chain.go\<close> with \<^verbatim>\<open>sunspec_decoder.go\<close>): what
  the walker records of an occurrence is what the decoder asks of it, when the plan takes its
  decoder keys from the registry.
\<close>

section \<open>Occurrences of a plan\<close>

text \<open>The key and the disposition of an occurrence are those the plan gives its model and length.\<close>

definition planned :: "chain_plan \<Rightarrow> occurrence \<Rightarrow> bool" where
  "planned p occ \<longleftrightarrow> ocSchemaRevision occ = plRevision p
     \<and> ocDecoderKey occ = gm_get (plKeys p) (ocWireKey occ)
     \<and> (ocDisposition occ = SunSpecChainDispositionAdmitted \<longleftrightarrow> ocDecoderKey occ \<noteq> None)"

definition all_planned :: "chain \<Rightarrow> bool" where
  "all_planned c \<longleftrightarrow> list_all (planned (chPlan c)) (chOcc c)"

lemma finish_planned: "planned (chPlan c) (finish_occurrence structural c cu)"
  by (simp add: planned_def finish_occurrence_def Let_def split: option.split)

lemma payload_planned:
  assumes "all_planned c"
  shows "all_planned (snd (chain_payload structural r x c))"
  using assms finish_planned
  by (simp add: all_planned_def chain_payload_def chain_queue_def Let_def split: option.split)

lemma fail_planned [simp]: "all_planned (chain_fail c) = all_planned c"
  by (simp add: all_planned_def)

lemma dispatch_planned:
  assumes "all_planned c"
  shows "all_planned (snd (admitReplay_dispatch structural r x c))"
  using assms signature_occ [of r x c] header_occ [of r x c] payload_planned [OF assms, of structural r x]
    chain_signature_plan [of r x c] chain_header_plan [of r x c]
  by (cases "rrPurpose r"; cases "chain_signature r x c"; cases "chain_header r x c";
      cases "chain_payload structural r x c")
     (simp_all add: admitReplay_dispatch_def all_planned_def split: option.split sum.split)

lemma admit_planned:
  assumes "all_planned c"
  shows "all_planned (snd (AdmitReplay structural r x c))"
proof (cases "validateSourceIdentity x c")
  case (Inl e)
  with assms show ?thesis by (simp add: AdmitReplay_def split: option.split)
next
  case (Inr c0)
  with assms validateSource_fields [OF Inr] have "all_planned c0" by (simp add: all_planned_def)
  with dispatch_planned [OF this, of structural r x] Inr assms show ?thesis
    by (simp add: AdmitReplay_def split: option.split)
qed

interpretation planned_walk: event_machine "chain_step structural" "\<lambda>_. True" all_planned chain_progress
proof unfold_locales
  show "all_planned s \<Longrightarrow> all_planned (chain_step structural e s)" for s e
    using admit_planned by (simp add: chain_step_def)
qed (use sunspec_chain.progress_refl chain_step_progress in \<open>auto simp: chain_progress_def\<close>)

lemma new_chain_planned: "all_planned (NewSunSpecChain inst p)"
  by (simp add: all_planned_def NewSunSpecChain_def)

text \<open>The keys of an accepted plan name the model, length and revision they are found under.\<close>

definition key_of_wire :: "string \<Rightarrow> wire_key \<Rightarrow> decoder_key" where
  "key_of_wire revision wk =
     \<lparr>dkModelID = wkModelID wk, dkModelLength = wkModelLength wk, dkSchemaRevision = revision\<rparr>"

lemma add_keys_found:
  assumes "add_keys revision ks keys known = Inr (keys', known')"
    and "\<forall>wk k. gm_get keys wk = Some k \<longrightarrow> k = key_of_wire revision wk \<and> k \<in> ks0"
    and "set ks \<subseteq> ks0"
  shows "\<forall>wk k. gm_get keys' wk = Some k \<longrightarrow> k = key_of_wire revision wk \<and> k \<in> ks0"
  using assms
proof (induction ks arbitrary: keys known)
  case Nil
  then show ?case by simp
next
  case (Cons k ks)
  let ?wk = "\<lparr>wkModelID = dkModelID k, wkModelLength = dkModelLength k\<rparr>"
  have k: "dkSchemaRevision k = revision"
    and rest: "add_keys revision ks (gm_put ?wk k keys) (insert (dkModelID k) known) = Inr (keys', known')"
    using Cons.prems(1) by (auto simp: Let_def split: if_splits)
  have "k = key_of_wire revision ?wk" using k by (cases k) (simp add: key_of_wire_def)
  then have "\<forall>wk k'. gm_get (gm_put ?wk k keys) wk = Some k' \<longrightarrow> k' = key_of_wire revision wk \<and> k' \<in> ks0"
    using Cons.prems(2,3) by (auto simp: go_map_simps)
  from Cons.IH [OF rest this] Cons.prems(3) show ?case by auto
qed

lemma plan_keys:
  assumes "NewSunSpecChainPlan nonce s = Inr p" and "gm_get (plKeys p) wk = Some k"
  shows "k = key_of_wire (psRevision s) wk \<and> k \<in> set (psDecoderKeys s) \<and> plRevision p = psRevision s"
proof -
  obtain keys known where "add_keys (psRevision s) (psDecoderKeys s) [] {} = Inr (keys, known)"
      "plKeys p = keys" "plRevision p = psRevision s"
    using assms(1) by (auto simp: NewSunSpecChainPlan_def split: if_splits option.splits sum.splits prod.splits)
  moreover from this(1) have "\<forall>wk k. gm_get keys wk = Some k \<longrightarrow>
      k = key_of_wire (psRevision s) wk \<and> k \<in> set (psDecoderKeys s)"
    by (rule add_keys_found) (simp_all add: gm_get_def)
  ultimately show ?thesis using assms(2) by blast
qed

lemma tiled_words:
  assumes "occs_tile pos i occs" and "occ \<in> set occs"
  shows "length (ocWords occ) = unat (wkModelLength (ocWireKey occ)) + 2
    \<and> ocWords occ ! 0 = wkModelID (ocWireKey occ) \<and> ocWords occ ! 1 = wkModelLength (ocWireKey occ)"
  using assms
proof (induction occs arbitrary: pos i)
  case Nil
  then show ?case by simp
next
  case (Cons x xs)
  show ?case
  proof (cases "occ = x")
    case True
    have t: "take 2 (ocWords x) = [wkModelID (ocWireKey x), wkModelLength (ocWireKey x)]"
      and l: "length (ocWords x) = 2 + unat (wkModelLength (ocWireKey x))" using Cons.prems(1) by simp_all
    have "ocWords x ! 0 = take 2 (ocWords x) ! 0" "ocWords x ! 1 = take 2 (ocWords x) ! 1" by simp_all
    with t l True show ?thesis by simp
  next
    case False
    with Cons show ?thesis by auto
  qed
qed

lemma planned_decodable:
  assumes r: "NewStandardSunSpecDecoderRegistry (psRevision s) = Inr r"
    and p: "NewSunSpecChainPlan nonce s = Inr p" and keys: "set (psDecoderKeys s) \<subseteq> set (rgKeys r)"
    and occ: "planned p occ" "occs_tile pos i occs" "occ \<in> set occs" "admitted occ"
  shows "decodable r occ"
proof -
  obtain k where k: "ocDecoderKey occ = Some k" "gm_get (plKeys p) (ocWireKey occ) = Some k"
    using occ(1,4) by (auto simp: planned_def admitted_def)
  note found = plan_keys [OF p k(2)]
  have "keyed r occ k"
    using occ(1,4) k found registry_resolves(2) [OF r]
    by (simp add: keyed_def planned_def admitted_def key_of_wire_def)
  moreover have "worded occ k"
    using tiled_words [OF occ(2,3)] found by (simp add: worded_def key_of_wire_def)
  ultimately show ?thesis using found keys by (auto simp: decodable_def)
qed

text \<open>What an admission returns when it is not the empty snapshot.\<close>

lemma completed_snapshot:
  assumes "NewSunSpecChainPlan nonce s = Inr p"
    and "AdmitReplay structural r x (fold (chain_step structural) es (NewSunSpecChain inst p)) = (Inr snap, c')"
    and "snRaw snap \<noteq> []"
  shows "list_all (planned p) (snOccurrences snap) \<and> (\<exists>pos. occs_tile pos 0 (snOccurrences snap))"
proof -
  let ?c = "fold (chain_step structural) es (NewSunSpecChain inst p)"
  have inv: "chain_inv ?c"
    using sunspec_chain.run_inv new_chain_inv [OF assms(1), of inst] by (simp add: list_all_iff)
  have "snap \<noteq> no_snapshot" using assms(3) by (auto simp: no_snapshot_def)
  with admit_inv [OF inv assms(2)] have c': "chain_inv c'" "chComplete c'"
    "snap = chain_snapshot_of c'" "\<not> chFailed c'" by blast+
  have step: "c' = chain_step structural (r, x) ?c" by (simp add: chain_step_def assms(2))
  have "all_planned ?c"
    using planned_walk.run_inv [OF new_chain_planned] by (simp add: list_all_iff)
  then have "all_planned c'" unfolding step chain_step_def by (rule admit_planned)
  moreover have "chPlan c' = p"
    using sunspec_chain.run_progress [of "NewSunSpecChain inst p" es structural] new_chain_inv [OF assms(1), of inst]
      chain_step_progress [of ?c structural "(r, x)"]
    by (simp add: chain_progress_def list_all_iff NewSunSpecChain_def step)
  moreover obtain b where "based c' b" using c' by (auto simp: chain_inv_def probing_def)
  ultimately show ?thesis using c'(3) by (auto simp: all_planned_def chain_snapshot_of_def based_def)
qed

section \<open>Properties\<close>

text \<open>C5: What discovery admits, decoding accepts: the snapshot of a completed walk, from a plan whose
  decoder keys a standard registry announces, never fails on an occurrence. It is refused only
  when the chain itself is not headed by its single admitted Common Model; otherwise every
  admitted occurrence yields one model with its ordinal and words, in chain order.\<close>

theorem discovered_chain_decodes:
  assumes "NewStandardSunSpecDecoderRegistry (psRevision s) = Inr r"
    and "NewSunSpecChainPlan nonce s = Inr p" and "set (psDecoderKeys s) \<subseteq> set (rgKeys r)"
    and "AdmitReplay structural q x (fold (chain_step structural) es (NewSunSpecChain inst p)) = (Inr snap, c')"
    and "snRaw snap \<noteq> []"
  shows "if common_first (snOccurrences snap)
    then \<exists>ms. DecodeChain r snap = Some (Inr ms)
      \<and> map dmRaw ms = map ocWords (filter admitted (snOccurrences snap))
      \<and> map dmOrdinal ms = map ocOrdinal (filter admitted (snOccurrences snap))
    else \<exists>e \<in> {CommonNotFirst, CommonNotUnique, CommonUnsupported}. DecodeChain r snap = Some (Inl e)"
proof -
  obtain pos where "list_all (planned p) (snOccurrences snap)" "occs_tile pos 0 (snOccurrences snap)"
    using completed_snapshot [OF assms(2,4,5)] by blast
  then have "\<forall>occ \<in> set (snOccurrences snap). admitted occ \<longrightarrow> decodable r occ"
    using planned_decodable [OF assms(1,2,3)] by (simp add: list_all_iff)
  from decode_admitted_all [OF assms(1) this, of "[]"] show ?thesis
    by (auto simp: DecodeChain_def decodeOccurrences_common)
qed

definition example_decoding_spec :: plan_spec where
  "example_decoding_spec = example_plan_spec\<lparr>psRevision := SunSpecModelsRevisionV2,
     psLimits := \<lparr>MaxTotalWords = 128, MaxOccurrences = 8\<rparr>,
     psDecoderKeys := [model_key SunSpecModelsRevisionV2 1 66]\<rparr>"

definition example_decoding_plan :: chain_plan where
  "example_decoding_plan = (case NewSunSpecChainPlan 1 example_decoding_spec of Inr p \<Rightarrow> p
     | Inl _ \<Rightarrow> example_plan)"

definition example_common_words :: "u16 list" where
  "example_common_words = replicate 64 0x4100 @ [1, 0x8000]"

definition example_common_reads :: "(read_request \<times> logical_view) list" where
  "example_common_reads = [example_read 1 40000 SunSpecReadSignature chain_signature_words,
     example_read 2 40002 SunSpecReadHeader [1, 66],
     example_read 3 40004 SunSpecReadPayload example_common_words]"

definition example_common_walk :: "(chain_error + chain_snapshot) \<times> chain" where
  "example_common_walk = (case example_read 4 40070 SunSpecReadHeader [0xffff, 0] of (q, x) \<Rightarrow>
     AdmitReplay no_structure q x
       (fold (chain_step no_structure) example_common_reads (NewSunSpecChain 1 example_decoding_plan)))"

definition example_common_snapshot :: chain_snapshot where
  "example_common_snapshot = (case fst example_common_walk of Inr s \<Rightarrow> s | Inl _ \<Rightarrow> no_snapshot)"

lemma example_decoding_plan_accepted:
  "NewSunSpecChainPlan 1 example_decoding_spec = Inr example_decoding_plan"
proof -
  have "(case NewSunSpecChainPlan 1 example_decoding_spec of Inr p \<Rightarrow> True | Inl _ \<Rightarrow> False) = True"
    by code_simp
  then show ?thesis
    by (cases "NewSunSpecChainPlan 1 example_decoding_spec") (simp_all add: example_decoding_plan_def)
qed

lemma example_common_snapshot_words:
  "map ocWords (filter admitted (snOccurrences example_common_snapshot)) = [1 # 66 # example_common_words]"
  "map ocOrdinal (filter admitted (snOccurrences example_common_snapshot)) = [1]"
  "length (snRaw example_common_snapshot) = 72"
  "map (\<lambda>occ. (ocWireKey occ, ocDisposition occ)) (snOccurrences example_common_snapshot)
     = [(\<lparr>wkModelID = 1, wkModelLength = 66\<rparr>, SunSpecChainDispositionAdmitted)]"
  by code_simp+

lemma example_common_walk_result: "example_common_walk = (Inr example_common_snapshot, snd example_common_walk)"
proof (cases "fst example_common_walk")
  case (Inl e)
  then show ?thesis using example_common_snapshot_words(3)
    by (simp add: example_common_snapshot_def no_snapshot_def)
next
  case (Inr s)
  then show ?thesis by (metis example_common_snapshot_def old.sum.simps(6) prod.collapse)
qed

lemma example_common_first: "common_first (snOccurrences example_common_snapshot)"
proof -
  obtain occ where "snOccurrences example_common_snapshot = [occ]" "wkModelID (ocWireKey occ) = 1"
    "ocDisposition occ = SunSpecChainDispositionAdmitted"
    using example_common_snapshot_words(4) by (cases "snOccurrences example_common_snapshot") auto
  then show ?thesis by (simp add: common_first_def admitted_def)
qed

theorem discovered_chain_decodes_witness:
  "\<exists>r ms. NewStandardSunSpecDecoderRegistry SunSpecModelsRevisionV2 = Inr r
    \<and> DecodeChain r example_common_snapshot = Some (Inr ms)
    \<and> map dmRaw ms = [1 # 66 # example_common_words] \<and> map dmOrdinal ms = [1]"
proof -
  have rev: "psRevision example_decoding_spec = SunSpecModelsRevisionV2"
    and keys: "psDecoderKeys example_decoding_spec = [model_key SunSpecModelsRevisionV2 1 66]"
    by (simp_all add: example_decoding_spec_def)
  obtain r ds where r: "NewStandardSunSpecDecoderRegistry SunSpecModelsRevisionV2 = Inr r"
      and ds: "built_from SunSpecModelsRevisionV2 ds r"
    using registry_built [of SunSpecModelsRevisionV2] by (auto simp: standard_revision_def)
  have "model_key SunSpecModelsRevisionV2 1 66 \<in> set (static_keys SunSpecModelsRevisionV2)"
    by (simp add: static_keys_def rows_V2_def model_key_def)
  then have "model_key SunSpecModelsRevisionV2 1 66 \<in> set (rgKeys r)"
    using ds by (auto simp: built_from_def standardSunSpecDecoderKeys_def)
  then have sub: "set (psDecoderKeys example_decoding_spec) \<subseteq> set (rgKeys r)" by (simp add: keys)
  obtain q x where qx: "example_read 4 40070 SunSpecReadHeader [0xffff, 0] = (q, x)"
    by (cases "example_read 4 40070 SunSpecReadHeader [0xffff, 0]")
  have res: "AdmitReplay no_structure q x (fold (chain_step no_structure) example_common_reads
      (NewSunSpecChain 1 example_decoding_plan)) = (Inr example_common_snapshot, snd example_common_walk)"
    using example_common_walk_result by (simp add: example_common_walk_def qx)
  have "snRaw example_common_snapshot \<noteq> []" using example_common_snapshot_words(3) by auto
  from discovered_chain_decodes [OF r [folded rev] example_decoding_plan_accepted sub res this]
    example_common_first example_common_snapshot_words(1,2) r show ?thesis by auto
qed

end
