(* ===== verification/SunSpec_Nested.thy ===== *)
theory SunSpec_Nested
  imports SunSpec_Value SunSpec_Chain
begin

text \<open>
  Nested layouts of SunSpec models (\<^verbatim>\<open>sunspec_nested_layout.go\<close>,
  \<^verbatim>\<open>sunspec_nested_layout_builder.go\<close>): source ranges over fragmented spans, templates of
  groups that repeat by counts read from the model, and the two passes that lay a template out
  over the words of an occurrence. The theorems show that a source range addresses exactly the
  slice of registers it names, and that a built layout is the expansion of its template.
\<close>

section \<open>Paths and source ranges\<close>

record path_segment =
  sgName :: string
  sgIndex :: u32
  sgIndexed :: bool

type_synonym fact_path = "path_segment list"

record source_range =
  srOffset :: u32
  srWordCount :: u32
  srSpans :: "source_span list"

datatype nested_error =
    PathEmpty | SegmentUnnamed | SegmentIndexed
  | RangeOutsideBounds | RangeNoSpans | SpanOutsideBounds | SpansExceedRange | SpansDoNotCover
  | ExtentExceedsBounds | RangeOutsideAggregate
  | TemplateKeyInvalid | CountSpecInvalid | CountNameDuplicated | CountOffsetDuplicated | RootInvalid
  | DepthExceeded | GroupUnnamed | StaticIndexBase | CountUnknown | FieldInvalid | MetadataInvalid
  | HeaderInvalid | CountOutsideOccurrence | CountInvalid | IndexExceeded | FieldExceeds
  | EntryCountExceeded | ExtentMismatch | MaterializationInconsistent

definition maxSunSpecOccurrenceWords :: u32 where "maxSunSpecOccurrenceWords = 65536"

definition NewSunSpecFactPath :: "path_segment list \<Rightarrow> nested_error + fact_path" where
  "NewSunSpecFactPath segments =
     (if segments = [] then Inl PathEmpty
      else if list_all (\<lambda>s. sgName s \<noteq> '''' \<and> (sgIndexed s \<or> sgIndex s = 0)) segments
      then Inr segments
      else (case find (\<lambda>s. \<not> (sgName s \<noteq> '''' \<and> (sgIndexed s \<or> sgIndex s = 0))) segments of
              Some s \<Rightarrow> Inl (if sgName s = '''' then SegmentUnnamed else SegmentIndexed)
            | None \<Rightarrow> Inl SegmentUnnamed))"

definition span_outside :: "source_span \<Rightarrow> bool" where
  "span_outside s \<longleftrightarrow> spLogicalViewID s = 0 \<or> spWordCount s = 0
     \<or> ucast (spPDUOffset s) + ucast (spWordCount s) > maxSunSpecOccurrenceWords"

fun range_total :: "u32 \<Rightarrow> u32 \<Rightarrow> source_span list \<Rightarrow> nested_error + u32" where
  "range_total wordCount acc [] = Inr acc"
| "range_total wordCount acc (s # spans) =
     (if span_outside s then Inl SpanOutsideBounds
      else if acc > wordCount - ucast (spWordCount s) then Inl SpansExceedRange
      else range_total wordCount (acc + ucast (spWordCount s)) spans)"

definition NewSunSpecOccurrenceSourceRange :: "u32 \<Rightarrow> u32 \<Rightarrow> source_span list
    \<Rightarrow> nested_error + source_range" where
  "NewSunSpecOccurrenceSourceRange offset wordCount spans =
     (if wordCount = 0 \<or> offset \<ge> maxSunSpecOccurrenceWords
        \<or> wordCount > maxSunSpecOccurrenceWords - offset then Inl RangeOutsideBounds
      else if spans = [] then Inl RangeNoSpans
      else (case range_total wordCount 0 spans of
              Inl e \<Rightarrow> Inl e
            | Inr acc \<Rightarrow>
                (if acc \<noteq> wordCount then Inl SpansDoNotCover
                 else Inr \<lparr>srOffset = offset, srWordCount = wordCount, srSpans = spans\<rparr>)))"

fun extent_total :: "u32 \<Rightarrow> source_span list \<Rightarrow> nested_error + u32" where
  "extent_total acc [] = Inr acc"
| "extent_total acc (s # spans) =
     (if span_outside s then Inl SpanOutsideBounds
      else if acc > maxSunSpecOccurrenceWords - ucast (spWordCount s) then Inl ExtentExceedsBounds
      else extent_total (acc + ucast (spWordCount s)) spans)"

fun select_spans :: "u32 \<Rightarrow> u32 \<Rightarrow> u32 \<Rightarrow> source_span list \<Rightarrow> source_span list" where
  "select_spans offset stop cursor [] = []"
| "select_spans offset stop cursor (s # spans) =
     (let spanStart = cursor; spanEnd = cursor + ucast (spWordCount s) in
      if spanEnd \<le> offset then select_spans offset stop spanEnd spans
      else if spanStart \<ge> stop then []
      else
        (let start = (if offset > spanStart then offset - spanStart else 0);
             finish = (if stop < spanEnd then stop - spanStart else ucast (spWordCount s)) in
         s\<lparr>spPDUOffset := ucast (ucast (spPDUOffset s) + start :: u32),
           spWordCount := ucast (finish - start)\<rparr>
         # select_spans offset stop spanEnd spans))"

definition NewSunSpecOccurrenceSourceRangeFromSpans :: "u32 \<Rightarrow> u32 \<Rightarrow> source_span list
    \<Rightarrow> nested_error + source_range" where
  "NewSunSpecOccurrenceSourceRangeFromSpans offset wordCount spans =
     (if spans = [] then Inl RangeNoSpans
      else (case extent_total 0 spans of
              Inl e \<Rightarrow> Inl e
            | Inr acc \<Rightarrow>
                (if wordCount = 0 \<or> offset \<ge> acc \<or> wordCount > acc - offset
                 then Inl RangeOutsideAggregate
                 else NewSunSpecOccurrenceSourceRange offset wordCount
                        (select_spans offset (offset + wordCount) 0 spans))))"

section \<open>Templates\<close>

record template_key =
  tkRevision :: string
  tkModelID :: u16

record count_spec =
  ctName :: string
  ctOffset :: u32
  ctUnavailable :: u16
  ctMin :: u32
  ctMax :: u32

record value_metadata =
  vmFieldID :: string
  vmPointName :: string
  vmUnit :: string
  vmType :: point_type
  vmScaleFactor :: string
  vmSymbols :: symbols

record layout_field =
  lfName :: string
  lfWords :: u32
  lfEmit :: bool
  lfHasMetadata :: bool
  lfMetadata :: value_metadata

text \<open>Name, count it repeats by (empty when it does not), base of its index, fields and children.\<close>

datatype layout_group =
  LayoutGroup string string u32 "layout_field list" "layout_group list"

record layout_template =
  ltKey :: template_key
  ltCounts :: "count_spec list"
  ltRoot :: layout_group

record layout_entry =
  lePath :: fact_path
  leRange :: source_range
  leHasMetadata :: bool
  leMetadata :: value_metadata

record nested_layout =
  nlKey :: template_key
  nlEntries :: "layout_entry list"

definition maxSunSpecNestedLayoutDepth :: nat where "maxSunSpecNestedLayoutDepth = 16"

definition check_field :: "layout_field \<Rightarrow> nested_error outcome" where
  "check_field f =
     (if lfName f = '''' \<or> lfWords f = 0 then Some FieldInvalid
      else if lfHasMetadata f \<and> (\<not> lfEmit f \<or> vmType (lfMetadata f) = SunSpecTypeOther '''')
      then Some MetadataInvalid else None)"

fun first_error :: "('a \<Rightarrow> 'e outcome) \<Rightarrow> 'a list \<Rightarrow> 'e outcome" where
  "first_error f [] = None"
| "first_error f (x # xs) = (case f x of Some e \<Rightarrow> Some e | None \<Rightarrow> first_error f xs)"

lemma first_error_cong [fundef_cong]:
  "xs = ys \<Longrightarrow> (\<And>y. y \<in> set ys \<Longrightarrow> f y = g y) \<Longrightarrow> first_error f xs = first_error g ys"
  by (induction xs arbitrary: ys) (auto split: option.split)

fun validateSunSpecNestedLayoutGroup :: "string set \<Rightarrow> bool \<Rightarrow> nat \<Rightarrow> layout_group
    \<Rightarrow> nested_error outcome" where
  "validateSunSpecNestedLayoutGroup countNames root depth (LayoutGroup name repeat indexBase fs kids) =
     (if depth > maxSunSpecNestedLayoutDepth then Some DepthExceeded
      else if \<not> root \<and> name = '''' then Some GroupUnnamed
      else if repeat = '''' \<and> indexBase \<noteq> 0 then Some StaticIndexBase
      else if repeat \<noteq> '''' \<and> repeat \<notin> countNames then Some CountUnknown
      else (case first_error check_field fs of
              Some e \<Rightarrow> Some e
            | None \<Rightarrow> first_error (validateSunSpecNestedLayoutGroup countNames False (Suc depth)) kids))"

fun check_counts :: "string set \<Rightarrow> u32 set \<Rightarrow> count_spec list \<Rightarrow> nested_error + string set" where
  "check_counts names offsets [] = Inr names"
| "check_counts names offsets (c # cs) =
     (if ctName c = '''' \<or> ctMin c > ctMax c \<or> ctMax c \<ge> ucast (ctUnavailable c) then Inl CountSpecInvalid
      else if ctName c \<in> names then Inl CountNameDuplicated
      else if ctOffset c \<in> offsets then Inl CountOffsetDuplicated
      else check_counts (insert (ctName c) names) (insert (ctOffset c) offsets) cs)"

definition newSunSpecNestedLayoutTemplate :: "template_key \<Rightarrow> count_spec list \<Rightarrow> layout_group
    \<Rightarrow> nested_error + layout_template" where
  "newSunSpecNestedLayoutTemplate key counts root =
     (if \<not> validSunSpecRevision (tkRevision key) \<or> tkModelID key = 0 then Inl TemplateKeyInvalid
      else (case check_counts {} {} counts of
              Inl e \<Rightarrow> Inl e
            | Inr names \<Rightarrow>
                (if (case root of LayoutGroup name repeat indexBase fs kids \<Rightarrow>
                       name \<noteq> '''' \<or> repeat \<noteq> '''' \<or> indexBase \<noteq> 0)
                 then Inl RootInvalid
                 else (case validateSunSpecNestedLayoutGroup names True 0 root of
                         Some e \<Rightarrow> Inl e
                       | None \<Rightarrow> Inr \<lparr>ltKey = key, ltCounts = counts, ltRoot = root\<rparr>))))"

section \<open>Building a layout\<close>

fun occurrence_total :: "u32 \<Rightarrow> u32 \<Rightarrow> source_span list \<Rightarrow> u32 option" where
  "occurrence_total expected acc [] = Some acc"
| "occurrence_total expected acc (s # spans) =
     (if span_outside s \<or> ucast (spWordCount s) > expected - acc then None
      else occurrence_total expected (acc + ucast (spWordCount s)) spans)"

definition validateSunSpecNestedOccurrenceSpans :: "source_span list \<Rightarrow> u32 \<Rightarrow> nested_error outcome" where
  "validateSunSpecNestedOccurrenceSpans spans expected =
     (if spans = [] then Some RangeNoSpans
      else (case occurrence_total expected 0 spans of
              None \<Rightarrow> Some SpanOutsideBounds
            | Some acc \<Rightarrow> if acc \<noteq> expected then Some SpansDoNotCover else None))"

fun resolve_counts :: "u16 list \<Rightarrow> count_spec list \<Rightarrow> (string, u32) gomap
    \<Rightarrow> nested_error + (string, u32) gomap" where
  "resolve_counts ws [] counts = Inr counts"
| "resolve_counts ws (c # cs) counts =
     (if unat (ctOffset c) \<ge> length ws then Inl CountOutsideOccurrence
      else
        (let v = ws ! unat (ctOffset c) in
         if v = ctUnavailable c \<or> ucast v < ctMin c \<or> ucast v > ctMax c then Inl CountInvalid
         else resolve_counts ws cs (gm_put (ctName c) (ucast v) counts)))"

record walk_env =
  weCounts :: "(string, u32) gomap"
  weWords :: u32
  weSpans :: "source_span list"

text \<open>\<open>wsEntries\<close> is \<open>None\<close> in the pass that only measures.\<close>

record walk_state =
  wsOffset :: u32
  wsEntryCount :: u32
  wsEntries :: "layout_entry list option"

definition walk_field :: "walk_env \<Rightarrow> fact_path \<Rightarrow> layout_field \<Rightarrow> walk_state \<Rightarrow> nested_error + walk_state" where
  "walk_field env path f st =
     (let start = wsOffset st in
      if start > weWords env \<or> lfWords f > weWords env - start then Inl FieldExceeds
      else
        (let st1 = st\<lparr>wsOffset := start + lfWords f\<rparr> in
         if \<not> lfEmit f then Inr st1
         else (case wsEntries st of
             None \<Rightarrow>
               (if wsEntryCount st \<ge> weWords env then Inl EntryCountExceeded
                else Inr (st1\<lparr>wsEntryCount := wsEntryCount st + 1\<rparr>))
           | Some entries \<Rightarrow>
               (case NewSunSpecFactPath (path @ [\<lparr>sgName = lfName f, sgIndex = 0, sgIndexed = False\<rparr>]) of
                  Inl e \<Rightarrow> Inl e
                | Inr factPath \<Rightarrow>
                    (case NewSunSpecOccurrenceSourceRangeFromSpans start (lfWords f) (weSpans env) of
                       Inl e \<Rightarrow> Inl e
                     | Inr sourceRange \<Rightarrow> Inr (st1\<lparr>wsEntries := Some (entries @ [\<lparr>lePath = factPath,
                         leRange = sourceRange, leHasMetadata = lfHasMetadata f,
                         leMetadata = lfMetadata f\<rparr>])\<rparr>))))))"

fun run_list :: "('a \<Rightarrow> 's \<Rightarrow> 'e + 's) \<Rightarrow> 'a list \<Rightarrow> 's \<Rightarrow> 'e + 's" where
  "run_list f [] s = Inr s"
| "run_list f (x # xs) s = (case f x s of Inl e \<Rightarrow> Inl e | Inr s' \<Rightarrow> run_list f xs s')"

lemma run_list_cong [fundef_cong]:
  "xs = ys \<Longrightarrow> s = t \<Longrightarrow> (\<And>y u. y \<in> set ys \<Longrightarrow> f y u = g y u) \<Longrightarrow> run_list f xs s = run_list g ys t"
  by (induction ys arbitrary: xs s t) (auto split: sum.split)

text \<open>The path of one occurrence of a group, its index when it repeats.\<close>

definition group_path :: "string \<Rightarrow> string \<Rightarrow> u32 \<Rightarrow> nat \<Rightarrow> fact_path \<Rightarrow> nested_error + fact_path" where
  "group_path name repeat indexBase occ parent =
     (if name = '''' then Inr parent
      else if repeat = '''' then Inr (parent @ [\<lparr>sgName = name, sgIndex = 0, sgIndexed = False\<rparr>])
      else if indexBase > - 1 - of_nat occ then Inl IndexExceeded
      else Inr (parent @ [\<lparr>sgName = name, sgIndex = indexBase + of_nat occ, sgIndexed = True\<rparr>]))"

definition repetitions :: "(string, u32) gomap \<Rightarrow> string \<Rightarrow> nat" where
  "repetitions counts repeat =
     (if repeat = '''' then 1 else (case gm_get counts repeat of None \<Rightarrow> 0 | Some n \<Rightarrow> unat n))"

fun walk_group :: "walk_env \<Rightarrow> fact_path \<Rightarrow> layout_group \<Rightarrow> walk_state \<Rightarrow> nested_error + walk_state" where
  "walk_group env parent (LayoutGroup name repeat indexBase fs kids) st =
     run_list (\<lambda>occ s.
       (case group_path name repeat indexBase occ parent of
          Inl e \<Rightarrow> Inl e
        | Inr path \<Rightarrow>
            (case run_list (walk_field env path) fs s of
               Inl e \<Rightarrow> Inl e
             | Inr s' \<Rightarrow> run_list (walk_group env path) kids s')))
       [0..<repetitions (weCounts env) repeat] st"

definition buildSunSpecNestedOccurrenceLayout :: "layout_template \<Rightarrow> u16 list \<Rightarrow> source_span list
    \<Rightarrow> nested_error + nested_layout" where
  "buildSunSpecNestedOccurrenceLayout t ws spans =
     (if length ws < 2 \<or> length ws > 65536 \<or> ws ! 0 \<noteq> tkModelID (ltKey t)
        \<or> unat (ws ! 1) + 2 \<noteq> length ws then Inl HeaderInvalid
      else (case validateSunSpecNestedOccurrenceSpans spans (of_nat (length ws)) of
          Some e \<Rightarrow> Inl e
        | None \<Rightarrow> (case resolve_counts ws (ltCounts t) [] of
              Inl e \<Rightarrow> Inl e
            | Inr counts \<Rightarrow>
                (let env = \<lparr>weCounts = counts, weWords = of_nat (length ws), weSpans = spans\<rparr>;
                     fresh = \<lparr>wsOffset = 0, wsEntryCount = 0, wsEntries = None\<rparr> in
                 case walk_group env [] (ltRoot t) fresh of
                   Inl e \<Rightarrow> Inl e
                 | Inr measured \<Rightarrow>
                     (if wsOffset measured \<noteq> weWords env then Inl ExtentMismatch
                      else if wsEntryCount measured > weWords env then Inl EntryCountExceeded
                      else (case walk_group env [] (ltRoot t) (fresh\<lparr>wsEntries := Some []\<rparr>) of
                          Inl e \<Rightarrow> Inl e
                        | Inr st \<Rightarrow> (case wsEntries st of
                              None \<Rightarrow> Inl MaterializationInconsistent
                            | Some entries \<Rightarrow>
                                (if wsOffset st \<noteq> weWords env
                                    \<or> of_nat (length entries) \<noteq> wsEntryCount measured
                                 then Inl MaterializationInconsistent
                                 else Inr \<lparr>nlKey = ltKey t, nlEntries = entries\<rparr>))))))))"

section \<open>Addresses\<close>

text \<open>The registers a span covers, each a place in the response of a logical view.\<close>

definition span_addresses :: "source_span \<Rightarrow> (u64 \<times> nat) list" where
  "span_addresses s = map (\<lambda>i. (spLogicalViewID s, i))
     [unat (spPDUOffset s)..<unat (spPDUOffset s) + unat (spWordCount s)]"

definition addresses :: "source_span list \<Rightarrow> (u64 \<times> nat) list" where
  "addresses spans = concat (map span_addresses spans)"

definition spans_ok :: "source_span list \<Rightarrow> bool" where
  "spans_ok spans \<longleftrightarrow> spans \<noteq> [] \<and> list_all (\<lambda>s. \<not> span_outside s) spans"

lemma span_addresses_length [simp]: "length (span_addresses s) = unat (spWordCount s)"
  by (simp add: span_addresses_def)

lemma addresses_simps [simp]:
  "addresses [] = []" "addresses (s # spans) = span_addresses s @ addresses spans"
  by (simp_all add: addresses_def)

lemma span_inside:
  "\<not> span_outside s \<longleftrightarrow> spLogicalViewID s \<noteq> 0 \<and> 0 < unat (spWordCount s)
     \<and> unat (spPDUOffset s) + unat (spWordCount s) \<le> 65536"
proof -
  have "unat (ucast (spPDUOffset s) + ucast (spWordCount s) :: u32) = unat (spPDUOffset s) + unat (spWordCount s)"
    by (rule u32_sum_u16)
  then show ?thesis
    by (auto simp: span_outside_def maxSunSpecOccurrenceWords_def word_less_nat_alt word_unat_eq_iff)
qed

lemma u32_plus:
  "unat (a :: u32) + unat b < 4294967296 \<Longrightarrow> unat (a + b) = unat a + unat b"
  by (rule unat_add_u32)

lemma u32_minus: "unat (b :: u32) \<le> unat a \<Longrightarrow> unat (a - b) = unat a - unat b"
  by (simp add: unat_sub_if' word_le_nat_alt)

lemma extent_total_iff:
  "extent_total acc spans = Inr n \<longleftrightarrow> list_all (\<lambda>s. \<not> span_outside s) spans
     \<and> (spans \<noteq> [] \<longrightarrow> unat acc + length (addresses spans) \<le> 65536)
     \<and> (if spans = [] then n = acc else unat n = unat acc + length (addresses spans))"
proof (induction spans arbitrary: acc)
  case Nil
  then show ?case by auto
next
  case (Cons s spans)
  show ?case
  proof (cases "span_outside s")
    case True
    then show ?thesis by simp
  next
    case False
    then have w: "unat (spWordCount s) \<le> 65536" using span_inside by simp
    have gt: "acc > maxSunSpecOccurrenceWords - ucast (spWordCount s) \<longleftrightarrow>
        65536 < unat acc + unat (spWordCount s)"
      using w by (auto simp: word_less_nat_alt maxSunSpecOccurrenceWords_def u32_minus)
    show ?thesis
    proof (cases "65536 < unat acc + unat (spWordCount s)")
      case True
      with gt False show ?thesis by simp
    next
      case fits: False
      then have p: "unat (acc + ucast (spWordCount s) :: u32) = unat acc + unat (spWordCount s)"
        by (subst u32_plus) simp_all
      have "extent_total acc (s # spans) = extent_total (acc + ucast (spWordCount s)) spans"
        using False fits gt by simp
      then show ?thesis using Cons.IH [of "acc + ucast (spWordCount s)"] p False fits
        by (auto simp: word_unat_eq_iff)
    qed
  qed
qed

lemma range_total_ok:
  assumes "list_all (\<lambda>s. \<not> span_outside s) spans" and "unat acc + length (addresses spans) = unat n"
  shows "range_total n acc spans = Inr n"
  using assms
proof (induction spans arbitrary: acc)
  case Nil
  then show ?case by (simp add: word_unat_eq_iff)
next
  case (Cons s spans)
  have le: "unat (spWordCount s) \<le> unat n" "unat acc + unat (spWordCount s) \<le> unat n"
    using Cons.prems(2) by simp_all
  have nb: "unat n < 4294967296" using unsigned_less [of n] by simp
  have "\<not> acc > n - ucast (spWordCount s)"
    using le by (simp add: word_less_nat_alt u32_minus)
  moreover have "unat (acc + ucast (spWordCount s) :: u32) = unat acc + unat (spWordCount s)"
    using le nb by (subst u32_plus) simp_all
  ultimately show ?case using Cons.IH [of "acc + ucast (spWordCount s)"] Cons.prems by simp
qed

text \<open>One step of the selection: a span that overlaps the range, cut to the overlap.\<close>

lemma cut_addresses:
  assumes "\<not> span_outside s" and "a < b" and "b \<le> unat (spWordCount s)"
    and "unat p = unat (spPDUOffset s) + a" and "unat w = b - a"
  shows "span_addresses (s\<lparr>spPDUOffset := p, spWordCount := w\<rparr>) = take (b - a) (drop a (span_addresses s))"
    and "\<not> span_outside (s\<lparr>spPDUOffset := p, spWordCount := w\<rparr>)"
proof -
  have "[unat (spPDUOffset s) + a..<unat (spPDUOffset s) + a + (b - a)] =
      take (b - a) (drop a [unat (spPDUOffset s)..<unat (spPDUOffset s) + unat (spWordCount s)])"
    using assms(2,3) by (simp add: drop_upt take_upt)
  then show "span_addresses (s\<lparr>spPDUOffset := p, spWordCount := w\<rparr>) = take (b - a) (drop a (span_addresses s))"
    using assms(4,5) by (simp add: span_addresses_def take_map drop_map)
  show "\<not> span_outside (s\<lparr>spPDUOffset := p, spWordCount := w\<rparr>)"
    using assms unfolding span_inside by simp
qed

lemma select_addresses:
  assumes "list_all (\<lambda>s. \<not> span_outside s) spans" and "unat cursor + length (addresses spans) \<le> 65536"
    and "unat offset < unat stop" and "unat stop \<le> 65536"
  shows "list_all (\<lambda>s. \<not> span_outside s) (select_spans offset stop cursor spans)
    \<and> addresses (select_spans offset stop cursor spans) =
      take (unat stop - max (unat offset) (unat cursor)) (drop (unat offset - unat cursor) (addresses spans))"
  using assms
proof (induction spans arbitrary: cursor)
  case Nil
  then show ?case by simp
next
  case (Cons s spans)
  let ?w = "unat (spWordCount s)" and ?o = "unat offset" and ?e = "unat stop" and ?c = "unat cursor"
  have s: "\<not> span_outside s" "0 < ?w" "unat (spPDUOffset s) + ?w \<le> 65536"
    using Cons.prems(1) span_inside by auto
  have bound: "?c + ?w + length (addresses spans) \<le> 65536" using Cons.prems(2) by simp
  then have nxt: "unat (cursor + ucast (spWordCount s) :: u32) = ?c + ?w"
    by (subst u32_plus) simp_all
  have IH: "list_all (\<lambda>s. \<not> span_outside s) (select_spans offset stop (cursor + ucast (spWordCount s)) spans)
      \<and> addresses (select_spans offset stop (cursor + ucast (spWordCount s)) spans) =
        take (?e - max ?o (?c + ?w)) (drop (?o - (?c + ?w)) (addresses spans))"
    using Cons.IH [of "cursor + ucast (spWordCount s)"] Cons.prems bound nxt by simp
  consider (before) "?c + ?w \<le> ?o" | (after) "?o < ?c + ?w" "?e \<le> ?c" | (overlap) "?o < ?c + ?w" "?c < ?e"
    by linarith
  then show ?case
  proof cases
    case before
    then have "select_spans offset stop cursor (s # spans) =
        select_spans offset stop (cursor + ucast (spWordCount s)) spans"
      by (simp add: Let_def word_le_nat_alt nxt)
    then show ?thesis using IH before by simp
  next
    case after
    then have "select_spans offset stop cursor (s # spans) = []"
      by (simp add: Let_def word_le_nat_alt nxt)
    then show ?thesis using after by simp
  next
    case overlap
    define a where "a = ?o - ?c"
    define b where "b = min ?w (?e - ?c)"
    define start where "start = (if offset > cursor then offset - cursor else 0)"
    define finish where "finish = (if stop < cursor + ucast (spWordCount s) then stop - cursor else ucast (spWordCount s))"
    define p where "p = (ucast (ucast (spPDUOffset s) + start :: u32) :: u16)"
    define w where "w = (ucast (finish - start) :: u16)"
    have ab: "a < b" "b \<le> ?w" using overlap s(2) Cons.prems(3) by (auto simp: a_def b_def)
    have us: "unat start = a"
      by (auto simp: start_def a_def word_less_nat_alt u32_minus)
    have uf: "unat finish = b"
      using overlap by (auto simp: finish_def b_def word_less_nat_alt nxt u32_minus)
    have up: "unat p = unat (spPDUOffset s) + a"
    proof -
      have "unat (ucast (spPDUOffset s) + start :: u32) = unat (spPDUOffset s) + a"
        using s(3) ab us by (subst u32_plus) simp_all
      moreover have "unat (spPDUOffset s) + a < 65536" using s(3) ab by linarith
      ultimately show ?thesis unfolding p_def by (subst unat_ucast_u32_u16) simp_all
    qed
    have uw: "unat w = b - a"
    proof -
      have "unat (finish - start) = b - a" using us uf ab by (simp add: u32_minus)
      moreover have "b - a < 65536" using ab unat_u16_bound [of "spWordCount s"] by linarith
      ultimately show ?thesis unfolding w_def by (subst unat_ucast_u32_u16) simp_all
    qed
    have sel: "select_spans offset stop cursor (s # spans) =
        s\<lparr>spPDUOffset := p, spWordCount := w\<rparr>
        # select_spans offset stop (cursor + ucast (spWordCount s)) spans"
      using overlap by (simp add: Let_def word_le_nat_alt nxt p_def w_def start_def finish_def)
    have rest: "addresses (select_spans offset stop (cursor + ucast (spWordCount s)) spans) =
        take (?e - (?c + ?w)) (addresses spans)"
      using IH overlap by simp
    have cut: "take (?e - max ?o ?c) (drop (?o - ?c) (span_addresses s @ addresses spans)) =
        take (b - a) (drop a (span_addresses s)) @ take (?e - (?c + ?w)) (addresses spans)"
    proof -
      have "drop a (span_addresses s @ addresses spans) = drop a (span_addresses s) @ addresses spans"
        using ab by simp
      moreover have "?e - max ?o ?c - (?w - a) = ?e - (?c + ?w)"
        using overlap by (auto simp: a_def)
      moreover have "take (?e - max ?o ?c) (drop a (span_addresses s)) = take (b - a) (drop a (span_addresses s))"
        using overlap Cons.prems(3) by (auto simp: a_def b_def min_def max_def)
      ultimately show ?thesis by (simp add: a_def [symmetric])
    qed
    show ?thesis unfolding sel list.pred_inject(2) addresses_simps cut rest
      using IH cut_addresses [OF s(1) ab up uw] by blast
  qed
qed

definition range_fits :: "u32 \<Rightarrow> u32 \<Rightarrow> source_span list \<Rightarrow> bool" where
  "range_fits offset n spans \<longleftrightarrow> spans_ok spans \<and> length (addresses spans) \<le> 65536
     \<and> 0 < unat n \<and> unat offset + unat n \<le> length (addresses spans)"

lemma source_range_cases:
  "if range_fits offset n spans
   then \<exists>r. NewSunSpecOccurrenceSourceRangeFromSpans offset n spans = Inr r \<and> srOffset r = offset
     \<and> srWordCount r = n \<and> addresses (srSpans r) = take (unat n) (drop (unat offset) (addresses spans))
   else \<exists>e. NewSunSpecOccurrenceSourceRangeFromSpans offset n spans = Inl e"
proof (cases "spans_ok spans \<and> length (addresses spans) \<le> 65536")
  case False
  then have "spans = [] \<or> (\<forall>m. extent_total 0 spans \<noteq> Inr m)"
    by (auto simp: extent_total_iff spans_ok_def)
  then have "\<exists>e. NewSunSpecOccurrenceSourceRangeFromSpans offset n spans = Inl e"
    by (cases "extent_total 0 spans") (auto simp: NewSunSpecOccurrenceSourceRangeFromSpans_def)
  then show ?thesis using False by (auto simp: range_fits_def)
next
  case True
  define m where "m = (of_nat (length (addresses spans)) :: u32)"
  have m: "unat m = length (addresses spans)" using True by (simp add: m_def of_nat_u32_small)
  have total: "extent_total 0 spans = Inr m"
    using True m by (simp add: extent_total_iff spans_ok_def)
  have ne: "spans \<noteq> []" using True by (simp add: spans_ok_def)
  have outside: "(n = 0 \<or> offset \<ge> m \<or> n > m - offset) = (\<not> range_fits offset n spans)"
  proof (cases "offset \<ge> m")
    case True
    then show ?thesis using m by (auto simp: range_fits_def word_le_nat_alt)
  next
    case False
    then have "unat (m - offset) = unat m - unat offset" by (simp add: u32_minus word_le_nat_alt)
    with False m \<open>spans_ok spans \<and> length (addresses spans) \<le> 65536\<close> show ?thesis
      by (auto simp: range_fits_def word_le_nat_alt word_less_nat_alt unat_eq_zero [symmetric])
  qed
  show ?thesis
  proof (cases "range_fits offset n spans")
    case False
    then show ?thesis using total ne outside by (simp add: NewSunSpecOccurrenceSourceRangeFromSpans_def)
  next
    case fits: True
    have b: "unat offset + unat n \<le> 65536" "0 < unat n" using fits by (simp_all add: range_fits_def)
    have stop: "unat (offset + n) = unat offset + unat n" using b by (subst u32_plus) simp_all
    let ?sel = "select_spans offset (offset + n) 0 spans"
    have sel: "list_all (\<lambda>s. \<not> span_outside s) ?sel"
        "addresses ?sel = take (unat n) (drop (unat offset) (addresses spans))"
      using select_addresses [of spans 0 offset "offset + n"] True b stop by (simp_all add: spans_ok_def)
    have len: "length (addresses ?sel) = unat n"
      using sel(2) fits by (simp add: range_fits_def min_absorb2 le_diff_conv2)
    then have "?sel \<noteq> []" using b(2) by auto
    moreover have "range_total n 0 ?sel = Inr n" using range_total_ok [OF sel(1)] len by simp
    moreover have "\<not> (n = 0 \<or> offset \<ge> maxSunSpecOccurrenceWords \<or> n > maxSunSpecOccurrenceWords - offset)"
      using b by (auto simp: maxSunSpecOccurrenceWords_def word_le_nat_alt word_less_nat_alt u32_minus)
    ultimately have "NewSunSpecOccurrenceSourceRange offset n ?sel =
        Inr \<lparr>srOffset = offset, srWordCount = n, srSpans = ?sel\<rparr>"
      by (simp add: NewSunSpecOccurrenceSourceRange_def)
    then show ?thesis using total ne outside fits sel(2)
      by (simp add: NewSunSpecOccurrenceSourceRangeFromSpans_def)
  qed
qed

section \<open>The expansion of a template\<close>

text \<open>
  What a template stands for under given counts: its fields in order, each with the path of its
  group occurrence. An occurrence whose index does not fit 32 bits is an error in their place.
\<close>

datatype layout_item = Item fact_path layout_field | Overflow nested_error

fun expand :: "(string, u32) gomap \<Rightarrow> fact_path \<Rightarrow> layout_group \<Rightarrow> layout_item list" where
  "expand counts parent (LayoutGroup name repeat indexBase fs kids) =
     concat (map (\<lambda>occ. case group_path name repeat indexBase occ parent of
         Inl e \<Rightarrow> [Overflow e]
       | Inr path \<Rightarrow> map (Item path) fs @ concat (map (expand counts path) kids))
       [0..<repetitions counts repeat])"

definition run_item :: "walk_env \<Rightarrow> layout_item \<Rightarrow> walk_state \<Rightarrow> nested_error + walk_state" where
  "run_item env it st = (case it of Item path f \<Rightarrow> walk_field env path f st | Overflow e \<Rightarrow> Inl e)"

lemma run_item_simps [simp]:
  "run_item env (Item path f) = walk_field env path f" "run_item env (Overflow e) = (\<lambda>st. Inl e)"
  by (simp_all add: run_item_def fun_eq_iff)

lemma run_list_append:
  "run_list f (xs @ ys) s = (case run_list f xs s of Inl e \<Rightarrow> Inl e | Inr s' \<Rightarrow> run_list f ys s')"
  by (induction xs arbitrary: s) (auto split: sum.split)

lemma run_list_map: "run_list f (map g xs) s = run_list (\<lambda>x. f (g x)) xs s"
  by (induction xs arbitrary: s) (auto split: sum.split)

lemma run_list_concat: "run_list f (concat xss) s = run_list (run_list f) xss s"
  by (induction xss arbitrary: s) (auto simp: run_list_append split: sum.split)

text \<open>Walking a template is walking its expansion.\<close>

lemma walk_group_expand:
  "walk_group env parent g st = run_list (run_item env) (expand (weCounts env) parent g) st"
proof (induction env parent g st rule: walk_group.induct)
  case (1 env parent name repeat indexBase fs kids st)
  have "(case group_path name repeat indexBase occ parent of
          Inl e \<Rightarrow> Inl e
        | Inr path \<Rightarrow>
            (case run_list (walk_field env path) fs s of
               Inl e \<Rightarrow> Inl e
             | Inr s' \<Rightarrow> run_list (walk_group env path) kids s')) =
      run_list (run_item env) (case group_path name repeat indexBase occ parent of
         Inl e \<Rightarrow> [Overflow e]
       | Inr path \<Rightarrow> map (Item path) fs @ concat (map (expand (weCounts env) path) kids)) s"
    if occ: "occ \<in> set [0..<repetitions (weCounts env) repeat]" for occ s
  proof (cases "group_path name repeat indexBase occ parent")
    case (Inl e)
    then show ?thesis by simp
  next
    case path: (Inr path)
    have "run_list (walk_group env path) kids s' =
        run_list (run_list (run_item env)) (map (expand (weCounts env) path) kids) s'"
      if "run_list (walk_field env path) fs s = Inr s'" for s'
      unfolding run_list_map using 1 [OF occ path that] by (intro run_list_cong refl) blast
    with path show ?thesis
      by (auto simp: run_list_append run_list_map run_list_concat split: sum.split)
  qed
  then show ?case unfolding walk_group.simps expand.simps run_list_concat run_list_map
    by (intro run_list_cong refl) blast
qed

fun item_width :: "layout_item \<Rightarrow> nat" where
  "item_width (Item path f) = unat (lfWords f)"
| "item_width (Overflow e) = 0"

fun item_fits :: "layout_item \<Rightarrow> bool" where
  "item_fits (Item path f) \<longleftrightarrow> True"
| "item_fits (Overflow e) \<longleftrightarrow> False"

definition total_width :: "layout_item list \<Rightarrow> nat" where
  "total_width items = sum_list (map item_width items)"

text \<open>The items that are emitted, each with the number of registers before it.\<close>

fun emitted :: "nat \<Rightarrow> layout_item list \<Rightarrow> (nat \<times> fact_path \<times> layout_field) list" where
  "emitted pos [] = []"
| "emitted pos (Item path f # items) =
     (if lfEmit f then (pos, path, f) # emitted (pos + unat (lfWords f)) items
      else emitted (pos + unat (lfWords f)) items)"
| "emitted pos (Overflow e # items) = emitted pos items"

fun item_emits :: "layout_item \<Rightarrow> bool" where
  "item_emits (Item path f) \<longleftrightarrow> lfEmit f"
| "item_emits (Overflow e) \<longleftrightarrow> False"

definition entry_count :: "layout_item list \<Rightarrow> nat" where
  "entry_count items = length (filter item_emits items)"

lemma entry_count_simps [simp]:
  "entry_count [] = 0" "entry_count (it # items) = (if item_emits it then Suc (entry_count items) else entry_count items)"
  by (simp_all add: entry_count_def)

lemma emitted_length: "length (emitted pos items) = entry_count items"
  by (induction pos items rule: emitted.induct) simp_all

lemma total_width_simps [simp]:
  "total_width [] = 0" "total_width (it # items) = item_width it + total_width items"
  by (simp_all add: total_width_def)

text \<open>The field step on naturals: whether the field still fits, and where it ends.\<close>

lemma field_bounds:
  fixes start words n :: u32
  assumes "unat words \<le> 65536"
  shows "(start > words \<or> n > words - start) = (unat words < unat start + unat n)"
    and "unat start + unat n \<le> unat words \<Longrightarrow> unat (start + n) = unat start + unat n"
proof -
  show "(start > words \<or> n > words - start) = (unat words < unat start + unat n)"
  proof (cases "start > words")
    case True
    then show ?thesis by (auto simp: word_less_nat_alt)
  next
    case False
    then have "unat (words - start) = unat words - unat start"
      by (simp add: u32_minus word_less_nat_alt)
    with False show ?thesis by (auto simp: word_less_nat_alt)
  qed
  show "unat start + unat n \<le> unat words \<Longrightarrow> unat (start + n) = unat start + unat n"
    using assms by (intro u32_plus) linarith
qed

text \<open>The measuring pass reaches the sum of the widths, when nothing runs over.\<close>

definition measured_ok :: "nat \<Rightarrow> nat \<Rightarrow> nat \<Rightarrow> layout_item list \<Rightarrow> bool" where
  "measured_ok words pos count items \<longleftrightarrow> list_all item_fits items \<and> pos + total_width items \<le> words
     \<and> (entry_count items = 0 \<or> count + entry_count items \<le> words)"

definition measured_as :: "walk_state \<Rightarrow> layout_item list \<Rightarrow> walk_state \<Rightarrow> bool" where
  "measured_as st items st' \<longleftrightarrow> unat (wsOffset st') = unat (wsOffset st) + total_width items
     \<and> unat (wsEntryCount st') = unat (wsEntryCount st) + entry_count items"

lemma measure_field:
  assumes "unat (weWords env) \<le> 65536" and "wsEntries st = None"
  shows "if measured_ok (unat (weWords env)) (unat (wsOffset st)) (unat (wsEntryCount st)) [Item path f]
    then \<exists>st'. walk_field env path f st = Inr st' \<and> wsEntries st' = None \<and> measured_as st [Item path f] st'
    else \<exists>e. walk_field env path f st = Inl e"
proof -
  note b = field_bounds [OF assms(1), of "wsOffset st" "lfWords f"]
  have c: "unat (wsEntryCount st + 1) = Suc (unat (wsEntryCount st))" if "wsEntryCount st < weWords env"
    using that assms(1) by (subst u32_plus) (simp_all add: word_less_nat_alt)
  have "wsEntryCount st \<ge> weWords env \<longleftrightarrow> unat (weWords env) < Suc (unat (wsEntryCount st))"
    by (auto simp: word_le_nat_alt)
  with b c assms(2) show ?thesis
    by (auto simp: walk_field_def Let_def measured_ok_def measured_as_def not_le)
qed

lemma measured_ok_Cons:
  "measured_ok words pos count (it # items) \<longleftrightarrow> measured_ok words pos count [it]
     \<and> measured_ok words (pos + item_width it) (count + entry_count [it]) items"
  by (auto simp: measured_ok_def)

lemma measure_items:
  assumes "unat (weWords env) \<le> 65536" and "wsEntries st = None" and "unat (wsOffset st) \<le> unat (weWords env)"
  shows "if measured_ok (unat (weWords env)) (unat (wsOffset st)) (unat (wsEntryCount st)) items
    then \<exists>st'. run_list (run_item env) items st = Inr st' \<and> measured_as st items st'
    else \<exists>e. run_list (run_item env) items st = Inl e"
  using assms(2,3)
proof (induction items arbitrary: st)
  case Nil
  then show ?case by (simp add: measured_ok_def measured_as_def)
next
  case (Cons it items)
  show ?case
  proof (cases it)
    case (Overflow e)
    then show ?thesis by (simp add: measured_ok_def)
  next
    case it: (Item path f)
    note step = measure_field [OF assms(1) Cons.prems(1), of path f]
    show ?thesis
    proof (cases "measured_ok (unat (weWords env)) (unat (wsOffset st)) (unat (wsEntryCount st)) [Item path f]")
      case False
      with step it show ?thesis by (subst measured_ok_Cons) auto
    next
      case True
      with step obtain st1 where st1: "walk_field env path f st = Inr st1" "wsEntries st1 = None"
        "measured_as st [Item path f] st1" by auto
      have "unat (wsOffset st1) \<le> unat (weWords env)"
        using st1(3) True by (simp add: measured_as_def measured_ok_def)
      from Cons.IH [OF st1(2) this] show ?thesis
        using st1 True it by (subst measured_ok_Cons) (auto simp: measured_as_def add.assoc)
    qed
  qed
qed

section \<open>Validated templates\<close>

definition segment_ok :: "path_segment \<Rightarrow> bool" where
  "segment_ok s \<longleftrightarrow> sgName s \<noteq> '''' \<and> (sgIndexed s \<or> sgIndex s = 0)"

fun item_named :: "layout_item \<Rightarrow> bool" where
  "item_named (Item path f) \<longleftrightarrow> list_all segment_ok path \<and> lfName f \<noteq> '''' \<and> lfWords f \<noteq> 0"
| "item_named (Overflow e) \<longleftrightarrow> True"

lemma first_error_None: "first_error f xs = None \<longleftrightarrow> (\<forall>x \<in> set xs. f x = None)"
  by (induction xs) (auto split: option.splits)

lemma validated_group:
  assumes "validateSunSpecNestedLayoutGroup names root depth (LayoutGroup name repeat indexBase fs kids) = None"
  shows "(\<forall>f \<in> set fs. lfName f \<noteq> '''' \<and> lfWords f \<noteq> 0)
    \<and> (\<forall>g \<in> set kids. validateSunSpecNestedLayoutGroup names False (Suc depth) g = None)"
proof -
  have "first_error check_field fs = None"
    "first_error (validateSunSpecNestedLayoutGroup names False (Suc depth)) kids = None"
    using assms by (auto split: if_splits option.splits)
  then show ?thesis by (auto simp: first_error_None check_field_def split: if_splits)
qed

lemma group_path_ok:
  "group_path name repeat indexBase occ parent = Inr path \<Longrightarrow> list_all segment_ok parent \<Longrightarrow> list_all segment_ok path"
  by (auto simp: group_path_def segment_ok_def split: if_splits)

lemma expand_named:
  assumes "validateSunSpecNestedLayoutGroup names root depth g = None" and "list_all segment_ok parent"
  shows "list_all item_named (expand counts parent g)"
  using assms
proof (induction counts parent g arbitrary: root depth rule: expand.induct)
  case (1 counts parent name repeat indexBase fs kids)
  note v = validated_group [OF 1(2)]
  have "list_all item_named (case group_path name repeat indexBase occ parent of
         Inl e \<Rightarrow> [Overflow e]
       | Inr path \<Rightarrow> map (Item path) fs @ concat (map (expand counts path) kids))"
    if occ: "occ \<in> set [0..<repetitions counts repeat]" for occ
  proof (cases "group_path name repeat indexBase occ parent")
    case (Inl e)
    then show ?thesis by simp
  next
    case (Inr path)
    have "list_all item_named (expand counts path g)" if "g \<in> set kids" for g
      using 1(1) [OF occ Inr that _ group_path_ok [OF Inr 1(3)]] v that by blast
    moreover have "list_all item_named (map (Item path) fs)"
      using v group_path_ok [OF Inr 1(3)] by (simp add: list_all_iff)
    ultimately show ?thesis using Inr by (auto simp: list_all_iff)
  qed
  then show ?case by (auto simp: list_all_iff)
qed

lemma entries_within: "list_all item_named items \<Longrightarrow> entry_count items \<le> total_width items"
proof (induction items)
  case Nil
  then show ?case by simp
next
  case (Cons it items)
  show ?case
  proof (cases it)
    case (Item path f)
    then have "0 < unat (lfWords f)" using Cons.prems by (simp add: unat_gt_0)
    with Item Cons show ?thesis by simp
  next
    case (Overflow e)
    with Cons show ?thesis by simp
  qed
qed

section \<open>The materializing pass\<close>

definition entry_at :: "source_span list \<Rightarrow> nat \<times> fact_path \<times> layout_field \<Rightarrow> layout_entry \<Rightarrow> bool" where
  "entry_at spans x e \<longleftrightarrow> (case x of (pos, path, f) \<Rightarrow>
     lePath e = path @ [\<lparr>sgName = lfName f, sgIndex = 0, sgIndexed = False\<rparr>]
     \<and> unat (srOffset (leRange e)) = pos \<and> srWordCount (leRange e) = lfWords f
     \<and> addresses (srSpans (leRange e)) = take (unat (lfWords f)) (drop pos (addresses spans))
     \<and> NewSunSpecFactPath (lePath e) = Inr (lePath e)
     \<and> NewSunSpecOccurrenceSourceRange (srOffset (leRange e)) (srWordCount (leRange e)) (srSpans (leRange e))
       = Inr (leRange e)
     \<and> leHasMetadata e = lfHasMetadata f \<and> leMetadata e = lfMetadata f)"

lemma range_valid_again:
  assumes "NewSunSpecOccurrenceSourceRangeFromSpans offset n spans = Inr r"
  shows "NewSunSpecOccurrenceSourceRange (srOffset r) (srWordCount r) (srSpans r) = Inr r"
proof -
  obtain sel where "NewSunSpecOccurrenceSourceRange offset n sel = Inr r"
    using assms by (auto simp: NewSunSpecOccurrenceSourceRangeFromSpans_def split: if_splits sum.splits)
  moreover from this have "r = \<lparr>srOffset = offset, srWordCount = n, srSpans = sel\<rparr>"
    by (auto simp: NewSunSpecOccurrenceSourceRange_def split: if_splits sum.splits)
  ultimately show ?thesis by simp
qed

lemma path_accepted: "path \<noteq> [] \<Longrightarrow> list_all segment_ok path \<Longrightarrow> NewSunSpecFactPath path = Inr path"
  by (simp add: NewSunSpecFactPath_def segment_ok_def list_all_iff)

lemma materialize_field:
  assumes words: "unat (weWords env) \<le> 65536"
    and spans: "spans_ok (weSpans env)" "length (addresses (weSpans env)) = unat (weWords env)"
    and item: "item_named (Item path f)" and fits: "unat (wsOffset st) + unat (lfWords f) \<le> unat (weWords env)"
    and st: "wsEntries st = Some es"
  shows "\<exists>st'. walk_field env path f st = Inr st' \<and> unat (wsOffset st') = unat (wsOffset st) + unat (lfWords f)
    \<and> (\<exists>new. wsEntries st' = Some (es @ new)
        \<and> list_all2 (entry_at (weSpans env)) (emitted (unat (wsOffset st)) [Item path f]) new)"
proof -
  note b = field_bounds [OF words, of "wsOffset st" "lfWords f"]
  have cond: "\<not> (wsOffset st > weWords env \<or> lfWords f > weWords env - wsOffset st)"
    using b(1) fits by simp
  show ?thesis
  proof (cases "lfEmit f")
    case False
    with cond b(2) [OF fits] st show ?thesis by (simp add: walk_field_def Let_def)
  next
    case True
    let ?path = "path @ [\<lparr>sgName = lfName f, sgIndex = 0, sgIndexed = False\<rparr>]"
    have p: "NewSunSpecFactPath ?path = Inr ?path"
      using item by (intro path_accepted) (simp_all add: segment_ok_def)
    have "range_fits (wsOffset st) (lfWords f) (weSpans env)"
      using spans words fits item by (simp add: range_fits_def unat_gt_0)
    then obtain r where r: "NewSunSpecOccurrenceSourceRangeFromSpans (wsOffset st) (lfWords f) (weSpans env) = Inr r"
      "srOffset r = wsOffset st" "srWordCount r = lfWords f"
      "addresses (srSpans r) = take (unat (lfWords f)) (drop (unat (wsOffset st)) (addresses (weSpans env)))"
      using source_range_cases [of "wsOffset st" "lfWords f" "weSpans env"] by auto
    from True cond p r range_valid_again [OF r(1)] b(2) [OF fits] st show ?thesis
      by (simp add: walk_field_def Let_def entry_at_def)
  qed
qed

lemma emitted_Cons: "emitted pos (it # items) = emitted pos [it] @ emitted (pos + item_width it) items"
  by (cases it) simp_all

lemma materialize_items:
  assumes words: "unat (weWords env) \<le> 65536"
    and spans: "spans_ok (weSpans env)" "length (addresses (weSpans env)) = unat (weWords env)"
    and "list_all item_fits items" and "list_all item_named items"
    and "unat (wsOffset st) + total_width items \<le> unat (weWords env)" and "wsEntries st = Some es"
  shows "\<exists>st'. run_list (run_item env) items st = Inr st'
    \<and> unat (wsOffset st') = unat (wsOffset st) + total_width items
    \<and> (\<exists>new. wsEntries st' = Some (es @ new)
        \<and> list_all2 (entry_at (weSpans env)) (emitted (unat (wsOffset st)) items) new)"
  using assms(4-)
proof (induction items arbitrary: st es)
  case Nil
  then show ?case by simp
next
  case (Cons it items)
  then obtain path f where it: "it = Item path f" by (cases it) auto
  obtain st1 new1 where st1: "walk_field env path f st = Inr st1"
      "unat (wsOffset st1) = unat (wsOffset st) + unat (lfWords f)" "wsEntries st1 = Some (es @ new1)"
      "list_all2 (entry_at (weSpans env)) (emitted (unat (wsOffset st)) [Item path f]) new1"
    using materialize_field [OF words spans, of path f st es] Cons.prems it by auto
  obtain st2 new2 where st2: "run_list (run_item env) items st1 = Inr st2"
      "unat (wsOffset st2) = unat (wsOffset st1) + total_width items" "wsEntries st2 = Some ((es @ new1) @ new2)"
      "list_all2 (entry_at (weSpans env)) (emitted (unat (wsOffset st1)) items) new2"
    using Cons.IH [of st1 "es @ new1"] Cons.prems it st1(2,3) by auto
  have "list_all2 (entry_at (weSpans env)) (emitted (unat (wsOffset st)) (it # items)) (new1 @ new2)"
    unfolding emitted_Cons [of _ it items] using st1(2,4) st2(4) it by (intro list_all2_appendI) simp_all
  with st1 st2 it show ?case by auto
qed

lemma occurrence_total_iff:
  assumes "unat acc \<le> unat expected" and "unat expected \<le> 65536"
  shows "occurrence_total expected acc spans = Some n \<longleftrightarrow> list_all (\<lambda>s. \<not> span_outside s) spans
     \<and> unat acc + length (addresses spans) \<le> unat expected
     \<and> unat n = unat acc + length (addresses spans)"
  using assms(1)
proof (induction spans arbitrary: acc)
  case Nil
  then show ?case by (auto simp: word_unat_eq_iff)
next
  case (Cons s spans)
  have gt: "ucast (spWordCount s) > expected - acc \<longleftrightarrow> unat expected < unat acc + unat (spWordCount s)"
    using Cons.prems by (auto simp: word_less_nat_alt u32_minus)
  show ?case
  proof (cases "span_outside s \<or> unat expected < unat acc + unat (spWordCount s)")
    case True
    with gt show ?thesis by auto
  next
    case False
    then have p: "unat (acc + ucast (spWordCount s) :: u32) = unat acc + unat (spWordCount s)"
      using assms(2) by (subst u32_plus) simp_all
    with False gt Cons.IH [of "acc + ucast (spWordCount s)"] show ?thesis
      by (simp add: add.assoc)
  qed
qed

lemma occurrence_spans_None:
  assumes "unat expected \<le> 65536"
  shows "validateSunSpecNestedOccurrenceSpans spans expected = None \<longleftrightarrow>
    spans_ok spans \<and> length (addresses spans) = unat expected"
proof (cases "occurrence_total expected 0 spans")
  case None
  then have "\<not> (list_all (\<lambda>s. \<not> span_outside s) spans \<and> length (addresses spans) \<le> unat expected)"
    using occurrence_total_iff [of 0 expected spans "of_nat (length (addresses spans))"] assms
    by (auto simp: of_nat_u32_small)
  with None show ?thesis by (auto simp: validateSunSpecNestedOccurrenceSpans_def spans_ok_def)
next
  case (Some n)
  then show ?thesis using occurrence_total_iff [of 0 expected spans n] assms
    by (auto simp: validateSunSpecNestedOccurrenceSpans_def spans_ok_def word_unat_eq_iff)
qed

section \<open>Properties\<close>

text \<open>When a template lays out over an occurrence, under given counts.\<close>

definition lays_out :: "layout_template \<Rightarrow> u16 list \<Rightarrow> source_span list \<Rightarrow> (string, u32) gomap \<Rightarrow> bool" where
  "lays_out t ws spans counts \<longleftrightarrow>
     2 \<le> length ws \<and> length ws \<le> 65536 \<and> ws ! 0 = tkModelID (ltKey t) \<and> unat (ws ! 1) + 2 = length ws
     \<and> spans_ok spans \<and> length (addresses spans) = length ws \<and> resolve_counts ws (ltCounts t) [] = Inr counts
     \<and> list_all item_fits (expand counts [] (ltRoot t)) \<and> total_width (expand counts [] (ltRoot t)) = length ws"

definition template_valid :: "layout_template \<Rightarrow> bool" where
  "template_valid t \<longleftrightarrow> (\<exists>key cs root. newSunSpecNestedLayoutTemplate key cs root = Inr t)"

lemma valid_items:
  assumes "template_valid t"
  shows "list_all item_named (expand counts [] (ltRoot t))"
proof -
  obtain names where "validateSunSpecNestedLayoutGroup names True 0 (ltRoot t) = None"
    using assms by (auto simp: template_valid_def newSunSpecNestedLayoutTemplate_def
        split: if_splits sum.splits option.splits layout_group.splits)
  then show ?thesis by (rule expand_named) simp
qed

lemma build_laid_out:
  assumes "template_valid t" and l: "lays_out t ws spans counts"
  shows "\<exists>layout. buildSunSpecNestedOccurrenceLayout t ws spans = Inr layout \<and> nlKey layout = ltKey t
    \<and> list_all2 (entry_at spans) (emitted 0 (expand counts [] (ltRoot t))) (nlEntries layout)"
proof -
  let ?items = "expand counts [] (ltRoot t)" and ?n = "of_nat (length ws) :: u32"
  let ?env = "\<lparr>weCounts = counts, weWords = ?n, weSpans = spans\<rparr>"
  let ?fresh = "\<lparr>wsOffset = 0, wsEntryCount = 0, wsEntries = None\<rparr>"
  have n: "unat ?n = length ws" using l by (simp add: lays_out_def of_nat_u32_small)
  have head: "\<not> (length ws < 2 \<or> length ws > 65536 \<or> ws ! 0 \<noteq> tkModelID (ltKey t) \<or> unat (ws ! 1) + 2 \<noteq> length ws)"
    and counts: "resolve_counts ws (ltCounts t) [] = Inr counts"
    and items: "list_all item_fits ?items" "total_width ?items = length ws"
    and spans: "spans_ok spans" "length (addresses spans) = length ws"
    using l by (auto simp: lays_out_def)
  have sp: "validateSunSpecNestedOccurrenceSpans spans ?n = None"
    using spans n head by (simp add: occurrence_spans_None)
  have named: "list_all item_named ?items" by (rule valid_items [OF assms(1)])
  have "entry_count ?items \<le> length ws" using entries_within [OF named] items(2) by simp
  then have "measured_ok (unat (weWords ?env)) (unat (wsOffset ?fresh)) (unat (wsEntryCount ?fresh)) ?items"
    using items n by (simp add: measured_ok_def)
  with measure_items [of ?env ?fresh ?items] n head obtain m where
    m: "walk_group ?env [] (ltRoot t) ?fresh = Inr m" and ms: "measured_as ?fresh ?items m"
    by (auto simp: walk_group_expand)
  have mo: "unat (wsOffset m) = length ws" "unat (wsEntryCount m) = entry_count ?items"
    using ms items(2) by (simp_all add: measured_as_def)
  obtain st new where st: "walk_group ?env [] (ltRoot t) (?fresh\<lparr>wsEntries := Some []\<rparr>) = Inr st"
      "unat (wsOffset st) = length ws" "wsEntries st = Some new"
      "list_all2 (entry_at spans) (emitted 0 ?items) new"
    using materialize_items [of ?env ?items "?fresh\<lparr>wsEntries := Some []\<rparr>" "[]"] spans items named n head
    by (auto simp: walk_group_expand)
  have len: "length new = entry_count ?items"
    using list_all2_lengthD [OF st(4)] by (simp add: emitted_length)
  have eq: "wsOffset m = ?n" "wsOffset st = ?n" "of_nat (length new) = wsEntryCount m"
    using mo st(2) n len \<open>entry_count ?items \<le> length ws\<close> head
    by (simp_all add: word_unat_eq_iff of_nat_u32_small)
  have "\<not> wsEntryCount m > ?n"
    using mo n \<open>entry_count ?items \<le> length ws\<close> by (simp add: word_less_nat_alt)
  with head sp counts m st eq show ?thesis
    by (simp add: buildSunSpecNestedOccurrenceLayout_def Let_def)
qed

lemma build_only_laid_out:
  assumes "buildSunSpecNestedOccurrenceLayout t ws spans = Inr layout"
  shows "\<exists>counts. lays_out t ws spans counts"
proof -
  let ?n = "of_nat (length ws) :: u32"
  let ?fresh = "\<lparr>wsOffset = 0, wsEntryCount = 0, wsEntries = None\<rparr>"
  from assms obtain counts m where
    head: "\<not> (length ws < 2 \<or> length ws > 65536 \<or> ws ! 0 \<noteq> tkModelID (ltKey t) \<or> unat (ws ! 1) + 2 \<noteq> length ws)"
    and sp: "validateSunSpecNestedOccurrenceSpans spans ?n = None"
    and counts: "resolve_counts ws (ltCounts t) [] = Inr counts"
    and m: "walk_group \<lparr>weCounts = counts, weWords = ?n, weSpans = spans\<rparr> [] (ltRoot t) ?fresh = Inr m"
    and off: "wsOffset m = ?n"
    by (auto simp: buildSunSpecNestedOccurrenceLayout_def Let_def split: if_splits option.splits sum.splits)
  let ?env = "\<lparr>weCounts = counts, weWords = ?n, weSpans = spans\<rparr>" and ?items = "expand counts [] (ltRoot t)"
  have n: "unat ?n = length ws" using head by (simp add: of_nat_u32_small)
  have ok: "measured_ok (unat (weWords ?env)) 0 0 ?items" and "measured_as ?fresh ?items m"
    using measure_items [of ?env ?fresh ?items] m n head
    by (auto simp: walk_group_expand split: if_splits)
  then have "total_width ?items = length ws" using off n by (simp add: measured_as_def)
  moreover have "spans_ok spans \<and> length (addresses spans) = length ws"
    using sp n head by (simp add: occurrence_spans_None)
  ultimately show ?thesis using head counts ok by (auto simp: lays_out_def measured_ok_def)
qed

text \<open>C9: A source range addresses exactly the registers it names: taken from the spans of an
  occurrence it succeeds exactly when the spans are well-formed, make up at most 65536 registers
  and contain the range, and then the registers it addresses, in order and with the responses
  they came in, are that slice of the occurrence's registers. No span is coalesced or lost.\<close>

theorem source_range_is_slice:
  "case NewSunSpecOccurrenceSourceRangeFromSpans offset n spans of
     Inr r \<Rightarrow> spans \<noteq> [] \<and> list_all (\<lambda>s. \<not> span_outside s) spans \<and> length (addresses spans) \<le> 65536
       \<and> 0 < unat n \<and> unat offset + unat n \<le> length (addresses spans)
       \<and> srOffset r = offset \<and> srWordCount r = n
       \<and> addresses (srSpans r) = take (unat n) (drop (unat offset) (addresses spans))
   | Inl e \<Rightarrow> \<not> (spans \<noteq> [] \<and> list_all (\<lambda>s. \<not> span_outside s) spans \<and> length (addresses spans) \<le> 65536
       \<and> 0 < unat n \<and> unat offset + unat n \<le> length (addresses spans))"
  using source_range_cases [of offset n spans]
  by (auto simp: range_fits_def spans_ok_def split: if_splits)

text \<open>C10: A built layout is the expansion of its template: for every accepted template the builder
  succeeds exactly when the header, the spans and the counts of the occurrence are right and the
  fields of the template, repeated as the counts say, add up to the occurrence's words. Then its
  entries are the emitted fields in order, each with its path, its offset among the fields before
  it and the registers at that offset; the second pass never contradicts the first.\<close>

theorem nested_layout_is_expansion:
  "newSunSpecNestedLayoutTemplate key cs root = Inr t \<Longrightarrow>
    (case buildSunSpecNestedOccurrenceLayout t ws spans of
       Inr layout \<Rightarrow> (\<exists>counts. lays_out t ws spans counts \<and> nlKey layout = key
         \<and> list_all2 (entry_at spans) (emitted 0 (expand counts [] root)) (nlEntries layout))
     | Inl e \<Rightarrow> \<not> (\<exists>counts. lays_out t ws spans counts))"
proof -
  assume t: "newSunSpecNestedLayoutTemplate key cs root = Inr t"
  then have v: "template_valid t" unfolding template_valid_def by blast
  have k: "ltKey t = key" "ltRoot t = root"
    using t by (auto simp: newSunSpecNestedLayoutTemplate_def
        split: if_splits sum.splits option.splits layout_group.splits)
  show ?thesis
  proof (cases "buildSunSpecNestedOccurrenceLayout t ws spans")
    case (Inl e)
    then show ?thesis using build_laid_out [OF v, of ws spans] by auto
  next
    case (Inr layout)
    then obtain counts where l: "lays_out t ws spans counts" using build_only_laid_out by blast
    from build_laid_out [OF v l] Inr l k show ?thesis by auto
  qed
qed

definition example_field :: "string \<Rightarrow> bool \<Rightarrow> layout_field" where
  "example_field name emit = \<lparr>lfName = name, lfWords = 1, lfEmit = emit, lfHasMetadata = False,
     lfMetadata = \<lparr>vmFieldID = '''', vmPointName = '''', vmUnit = '''', vmType = SunSpecTypeUint16,
       vmScaleFactor = '''', vmSymbols = []\<rparr>\<rparr>"

definition example_key :: template_key where
  "example_key = \<lparr>tkRevision = ''v2'', tkModelID = 9\<rparr>"

definition example_counts :: "count_spec list" where
  "example_counts = [\<lparr>ctName = ''points'', ctOffset = 2, ctUnavailable = 0xffff, ctMin = 0, ctMax = 9\<rparr>]"

definition example_root :: layout_group where
  "example_root = LayoutGroup '''' '''' 0
     [example_field ''ID'' False, example_field ''L'' False, example_field ''N'' False]
     [LayoutGroup ''Pt'' ''points'' 1 [example_field ''V'' True] []]"

definition example_spans :: "source_span list" where
  "example_spans = [\<lparr>spLogicalViewID = 1, spPDUOffset = 0, spWordCount = 2\<rparr>,
     \<lparr>spLogicalViewID = 2, spPDUOffset = 7, spWordCount = 3\<rparr>]"

definition example_template :: layout_template where
  "example_template = \<lparr>ltKey = example_key, ltCounts = example_counts, ltRoot = example_root\<rparr>"

theorem nested_layout_is_expansion_witness:
  "case buildSunSpecNestedOccurrenceLayout example_template [9, 3, 2, 10, 11] example_spans of
     Inr layout \<Rightarrow> list_all2 (entry_at example_spans) (emitted 0 (expand [(''points'', 2)] [] example_root))
       (nlEntries layout)
   | Inl e \<Rightarrow> False"
proof -
  let ?ws = "[9, 3, 2, 10, 11] :: u16 list"
  have t: "newSunSpecNestedLayoutTemplate example_key example_counts example_root = Inr example_template"
    by (simp add: newSunSpecNestedLayoutTemplate_def example_key_def example_counts_def example_root_def
        example_template_def validSunSpecRevision_def example_field_def check_field_def
        maxSunSpecNestedLayoutDepth_def)
  have r: "resolve_counts ?ws (ltCounts example_template) [] = Inr [(''points'', 2)]"
    by code_simp
  have "list_all item_fits (expand [(''points'', 2)] [] (ltRoot example_template))
      \<and> total_width (expand [(''points'', 2)] [] (ltRoot example_template)) = 5"
    by code_simp
  moreover have "spans_ok example_spans \<and> length (addresses example_spans) = 5"
    by (simp add: spans_ok_def example_spans_def span_inside)
  ultimately have "lays_out example_template ?ws example_spans [(''points'', 2)]"
    using r by (simp add: lays_out_def example_template_def example_key_def)
  with nested_layout_is_expansion [OF t, of ?ws example_spans] show ?thesis
    by (auto simp: lays_out_def r split: sum.splits)
qed

text \<open>
  The public constructor of a source range adds the span lengths in 32 bits and checks the sum
  only against the remaining count, which itself wraps when a span is longer than the range.
\<close>

lemma range_total_replicate:
  assumes "unat acc + k * 65535 \<le> 4294967295"
  shows "range_total 1 acc (replicate k \<lparr>spLogicalViewID = 1, spPDUOffset = 0, spWordCount = 65535\<rparr> @ rest)
    = range_total 1 (acc + of_nat k * 65535) rest"
  using assms
proof (induction k arbitrary: acc)
  case 0
  then show ?case by simp
next
  case (Suc k)
  have le: "unat acc \<le> 4294901760" using Suc.prems by simp
  then have "\<not> acc > 1 - 65535" by (simp add: word_less_nat_alt)
  moreover have "unat (acc + 65535) = unat acc + 65535" using le by (subst u32_plus) simp_all
  moreover have "acc + 65535 + of_nat k * 65535 = acc + of_nat (Suc k) * (65535 :: u32)"
    by (simp add: algebra_simps)
  moreover have "\<not> span_outside \<lparr>spLogicalViewID = 1, spPDUOffset = 0, spWordCount = 65535\<rparr>"
    by (simp add: span_inside)
  ultimately show ?case using Suc.IH [of "acc + 65535"] Suc.prems
    by (simp add: add.assoc)
qed

text \<open>C38: The public source-range constructor accepts spans that do not cover the range: its guard
  on the remaining length underflows for a span longer than the range, and the sum wraps. A range of one word is accepted with 65538 spans that make up 4294967297 words, so a
  range built this way does not vouch for the registers of its spans.\<close>

theorem source_range_total_wraps:
  "\<exists>spans. NewSunSpecOccurrenceSourceRange 0 1 spans = Inr \<lparr>srOffset = 0, srWordCount = 1, srSpans = spans\<rparr>
    \<and> length (addresses spans) = 4294967297"
proof -
  define spans where "spans = replicate 65537 \<lparr>spLogicalViewID = 1, spPDUOffset = 0, spWordCount = 65535\<rparr>
    @ [\<lparr>spLogicalViewID = 1, spPDUOffset = 0, spWordCount = 2\<rparr>]"
  have "range_total 1 0 spans = range_total 1 (0 + of_nat 65537 * 65535)
      [\<lparr>spLogicalViewID = 1, spPDUOffset = 0, spWordCount = 2\<rparr>]"
    unfolding spans_def by (rule range_total_replicate) simp
  then have "range_total 1 0 spans = Inr 1" by (simp add: span_inside)
  moreover have "spans \<noteq> []" by (simp add: spans_def)
  ultimately have "NewSunSpecOccurrenceSourceRange 0 1 spans =
      Inr \<lparr>srOffset = 0, srWordCount = 1, srSpans = spans\<rparr>"
    by (simp add: NewSunSpecOccurrenceSourceRange_def maxSunSpecOccurrenceWords_def)
  moreover have "length (addresses (replicate k s)) = k * unat (spWordCount s)" for k s
    by (induction k) simp_all
  then have "length (addresses spans) = 4294967297"
    by (simp add: spans_def addresses_def)
  ultimately show ?thesis by blast
qed

end
