(* ===== verification/SunSpec_Structural.thy ===== *)
theory SunSpec_Structural
  imports SunSpec_Nested SunSpec_Decoder
begin

text \<open>
  The structural candidate of model 707 (the trip-curve part of
  \<^verbatim>\<open>sunspec_models_der_v2.go\<close>) and the projection of its facts
  (\<^verbatim>\<open>sunspec_structural_projection.go\<close>, \<^verbatim>\<open>sunspec_decoder.go\<close>). The theorems show that
  the arithmetic check of the model's length is exactly the extent of its nested template, and
  that the projected facts carry every word of the occurrence once.
\<close>

section \<open>The template of model 707\<close>

definition no_metadata :: value_metadata where
  "no_metadata = \<lparr>vmFieldID = '''', vmPointName = '''', vmUnit = '''', vmType = SunSpecTypeOther '''',
     vmScaleFactor = '''', vmSymbols = []\<rparr>"

definition der_trip_key :: template_key where
  "der_trip_key = \<lparr>tkRevision = SunSpecModelsRevisionV2, tkModelID = 707\<rparr>"

definition der_trip_counts :: "count_spec list" where
  "der_trip_counts =
     [\<lparr>ctName = ''points'', ctOffset = 5, ctUnavailable = 0xffff, ctMin = 0, ctMax = 65534\<rparr>,
      \<lparr>ctName = ''curves'', ctOffset = 6, ctUnavailable = 0xffff, ctMin = 0, ctMax = 65534\<rparr>]"

definition silent_field :: "string \<Rightarrow> layout_field" where
  "silent_field name = \<lparr>lfName = name, lfWords = 1, lfEmit = False, lfHasMetadata = False,
     lfMetadata = no_metadata\<rparr>"

definition typed_field :: "string \<Rightarrow> u32 \<Rightarrow> point_type \<Rightarrow> string \<Rightarrow> layout_field" where
  "typed_field name n t scale = \<lparr>lfName = name, lfWords = n, lfEmit = True, lfHasMetadata = True,
     lfMetadata = no_metadata\<lparr>vmType := t, vmScaleFactor := scale\<rparr>\<rparr>"

definition silent_curve :: "string \<Rightarrow> layout_group" where
  "silent_curve name = LayoutGroup name '''' 0 [silent_field ''ActPt'']
     [LayoutGroup ''Pt'' ''points'' 1
        [typed_field ''V'' 1 SunSpecTypeUint16 ''V_SF'', typed_field ''Tms'' 2 SunSpecTypeUint32 ''Tms_SF''] []]"

definition der_trip_nested_root :: layout_group where
  "der_trip_nested_root = LayoutGroup '''' '''' 0
     (map silent_field [''ID'', ''L'', ''Ena'', ''AdptCrvReq'', ''AdptCrvRslt'', ''NPt'', ''NCrvSet'',
        ''V_SF'', ''Tms_SF''])
     [LayoutGroup ''Crv'' ''curves'' 1 [silent_field ''ReadOnly'']
        [silent_curve ''MustTrip'', silent_curve ''MayTrip'', silent_curve ''MomCess'']]"

definition derTripLVV2NestedTemplate :: "nested_error + layout_template" where
  "derTripLVV2NestedTemplate = newSunSpecNestedLayoutTemplate der_trip_key der_trip_counts der_trip_nested_root"

definition projection_field :: "string \<Rightarrow> string \<Rightarrow> point_type \<Rightarrow> u32 \<Rightarrow> string \<Rightarrow> string \<Rightarrow> symbols
    \<Rightarrow> layout_field" where
  "projection_field fieldID name t n unit scale symbs = \<lparr>lfName = name, lfWords = n, lfEmit = True,
     lfHasMetadata = True, lfMetadata = \<lparr>vmFieldID = fieldID, vmPointName = name, vmUnit = unit,
       vmType = t, vmScaleFactor = scale, vmSymbols = symbs\<rparr>\<rparr>"

definition projection_curve :: "string \<Rightarrow> layout_group" where
  "projection_curve name =
     (let f = ''sunspec.der.v2.707.Crv.'' @ name @ ''.'' in
      LayoutGroup name '''' 0 [projection_field (f @ ''ActPt'') ''ActPt'' SunSpecTypeUint16 1 '''' '''' []]
       [LayoutGroup ''Pt'' ''points'' 1
          [projection_field (f @ ''Pt.V'') ''V'' SunSpecTypeUint16 1 ''VNomPct'' ''V_SF'' [],
           projection_field (f @ ''Pt.Tms'') ''Tms'' SunSpecTypeUint32 2 ''Secs'' ''Tms_SF'' []] []])"

definition der_trip_projection_root :: layout_group where
  "der_trip_projection_root = LayoutGroup '''' '''' 0
     [projection_field ''sunspec.der.v2.707.ID'' ''ID'' SunSpecTypeUint16 1 '''' '''' [],
      projection_field ''sunspec.der.v2.707.L'' ''L'' SunSpecTypeUint16 1 '''' '''' [],
      projection_field ''sunspec.der.v2.707.Ena'' ''Ena'' SunSpecTypeEnum16 1 '''' ''''
        [(0, ''DISABLED''), (1, ''ENABLED'')],
      projection_field ''sunspec.der.v2.707.AdptCrvReq'' ''AdptCrvReq'' SunSpecTypeUint16 1 '''' '''' [],
      projection_field ''sunspec.der.v2.707.AdptCrvRslt'' ''AdptCrvRslt'' SunSpecTypeEnum16 1 '''' ''''
        [(0, ''IN_PROGRESS''), (1, ''COMPLETED''), (2, ''FAILED'')],
      projection_field ''sunspec.der.v2.707.NPt'' ''NPt'' SunSpecTypeUint16 1 '''' '''' [],
      projection_field ''sunspec.der.v2.707.NCrvSet'' ''NCrvSet'' SunSpecTypeUint16 1 '''' '''' [],
      projection_field ''sunspec.der.v2.707.V_SF'' ''V_SF'' SunSpecTypeScaleFactor 1 '''' '''' [],
      projection_field ''sunspec.der.v2.707.Tms_SF'' ''Tms_SF'' SunSpecTypeScaleFactor 1 '''' '''' []]
     [LayoutGroup ''Crv'' ''curves'' 1
        [projection_field ''sunspec.der.v2.707.Crv.ReadOnly'' ''ReadOnly'' SunSpecTypeEnum16 1 '''' ''''
           [(0, ''RW''), (1, ''R'')]]
        [projection_curve ''MustTrip'', projection_curve ''MayTrip'', projection_curve ''MomCess'']]"

definition derTripLVV2StructuralProjectionTemplate :: "nested_error + layout_template" where
  "derTripLVV2StructuralProjectionTemplate =
     newSunSpecNestedLayoutTemplate der_trip_key der_trip_counts der_trip_projection_root"

definition buildDERTripLVV2NestedLayout :: "u16 list \<Rightarrow> source_span list \<Rightarrow> nested_error + nested_layout" where
  "buildDERTripLVV2NestedLayout ws spans =
     (case derTripLVV2NestedTemplate of Inl e \<Rightarrow> Inl e
      | Inr t \<Rightarrow> buildSunSpecNestedOccurrenceLayout t ws spans)"

definition buildDERTripLVV2StructuralProjectionLayout :: "u16 list \<Rightarrow> source_span list
    \<Rightarrow> nested_error + nested_layout" where
  "buildDERTripLVV2StructuralProjectionLayout ws spans =
     (case derTripLVV2StructuralProjectionTemplate of Inl e \<Rightarrow> Inl e
      | Inr t \<Rightarrow> buildSunSpecNestedOccurrenceLayout t ws spans)"

record structural_candidate =
  scModelID :: u16
  scLayout :: nested_layout

text \<open>The products are those of \<^verbatim>\<open>uint64\<close>, which these 16-bit counts never overflow.\<close>

definition sunSpecV2DERTripLVStructuralCandidate :: "string \<Rightarrow> wire_key \<Rightarrow> u16 list \<Rightarrow> source_span list
    \<Rightarrow> structural_candidate option" where
  "sunSpecV2DERTripLVStructuralCandidate revision wk ws spans =
     (if revision \<noteq> SunSpecModelsRevisionV2 \<or> wkModelID wk \<noteq> 707 \<or> wkModelLength wk > 65534
        \<or> length ws \<noteq> unat (wkModelLength wk) + 2 \<or> length ws \<le> 6
        \<or> ws ! 0 \<noteq> wkModelID wk \<or> ws ! 1 \<noteq> wkModelLength wk then None
      else
        (let points = ws ! 5; curves = ws ! 6 in
         if points = 0xffff \<or> curves = 0xffff then None
         else
           (let n = 7 + unat curves * (4 + 9 * unat points) in
            if n > 65534 \<or> n \<noteq> unat (wkModelLength wk) then None
            else (case buildDERTripLVV2StructuralProjectionLayout ws spans of
                    Inl e \<Rightarrow> None
                  | Inr layout \<Rightarrow> Some \<lparr>scModelID = wkModelID wk, scLayout = layout\<rparr>))))"

section \<open>Projecting facts\<close>

record laid_fact = sun_fact +
  fcPath :: fact_path
  fcSourceRange :: source_range

definition no_range :: source_range where
  "no_range = \<lparr>srOffset = 0, srWordCount = 0, srSpans = []\<rparr>"

text \<open>What the accessors of an entry return: a copy that is validated again.\<close>

definition entry_path :: "layout_entry \<Rightarrow> fact_path" where
  "entry_path e = (case NewSunSpecFactPath (lePath e) of Inl _ \<Rightarrow> [] | Inr p \<Rightarrow> p)"

definition entry_range :: "layout_entry \<Rightarrow> source_range" where
  "entry_range e = (case NewSunSpecOccurrenceSourceRange (srOffset (leRange e)) (srWordCount (leRange e))
       (srSpans (leRange e)) of Inl _ \<Rightarrow> no_range | Inr r \<Rightarrow> r)"

definition WithNestedLayout :: "sun_fact \<Rightarrow> fact_path \<Rightarrow> source_range \<Rightarrow> nested_error + laid_fact" where
  "WithNestedLayout f path r =
     (case NewSunSpecFactPath path of
        Inl e \<Rightarrow> Inl e
      | Inr p \<Rightarrow>
          (case NewSunSpecOccurrenceSourceRange (srOffset r) (srWordCount r) (srSpans r) of
             Inl e \<Rightarrow> Inl e
           | Inr r' \<Rightarrow> Inr (sun_fact.extend f (laid_fact.fields p r'))))"

definition structural_point :: "value_metadata \<Rightarrow> u32 \<Rightarrow> point_definition" where
  "structural_point md n = \<lparr>pdName = vmPointName md, pdFieldID = vmFieldID md, pdUnit = vmUnit md,
     pdScaleFactor = vmScaleFactor md, pdGroupID = '''', pdType = vmType md, pdOffset = 0,
     pdSize = ucast n, pdRepeatIndex = 0, pdMandatory = False, pdRequired = False, pdRepeated = False,
     pdSymbols = vmSymbols md, pdKnownMask = 0, pdFixedScale = None\<rparr>"

definition sunSpecStructuralEntryDefinition :: "u16 list \<Rightarrow> layout_entry
    \<Rightarrow> (point_definition \<times> u16 list) option" where
  "sunSpecStructuralEntryDefinition ws e =
     (if \<not> leHasMetadata e then None
      else
        (let md = leMetadata e; start = unat (srOffset (entry_range e));
             n = srWordCount (entry_range e); size = unat n in
         if size = 0 \<or> start > length ws \<or> size > length ws - start \<or> size > 0xffff
            \<or> vmFieldID md = '''' \<or> vmPointName md = '''' then None
         else Some (structural_point md n, take size (drop start ws))))"

fun structural_scales :: "u16 list \<Rightarrow> layout_entry list \<Rightarrow> (string, sun_value) gomap
    \<Rightarrow> (string, sun_value) gomap option option" where
  "structural_scales ws [] scales = Some (Some scales)"
| "structural_scales ws (e # es) scales =
     (case sunSpecStructuralEntryDefinition ws e of
        None \<Rightarrow> Some None
      | Some (p, raw) \<Rightarrow>
          (if pdType p \<noteq> SunSpecTypeScaleFactor then structural_scales ws es scales
           else (case decodeSunSpecValue p raw None of
                   None \<Rightarrow> None
                 | Some v \<Rightarrow> structural_scales ws es (gm_put (pdName p) v scales))))"

text \<open>A projection that stops is \<open>Some None\<close>; one that would index out of range is \<open>None\<close>.\<close>

definition structural_fact :: "u16 list \<Rightarrow> (string, sun_value) gomap \<Rightarrow> layout_entry
    \<Rightarrow> laid_fact option option" where
  "structural_fact ws scales e =
     (case sunSpecStructuralEntryDefinition ws e of
        None \<Rightarrow> Some None
      | Some (p, raw) \<Rightarrow>
          (if pdScaleFactor p \<noteq> '''' \<and> gm_get scales (pdScaleFactor p) = None then Some None
           else (case decodeSunSpecValue p raw
                   (if pdScaleFactor p = '''' then None else gm_get scales (pdScaleFactor p)) of
               None \<Rightarrow> None
             | Some v \<Rightarrow> (case WithNestedLayout \<lparr>fcFieldID = pdFieldID p, fcPointName = pdName p,
                   fcUnit = pdUnit p, fcRequired = False, fcGroupID = '''', fcRepeatIndex = 0,
                   fcRepeated = False, fcValue = v\<rparr> (entry_path e) (entry_range e) of
                   Inl _ \<Rightarrow> Some None
                 | Inr f \<Rightarrow> Some (Some f)))))"

fun structural_facts :: "u16 list \<Rightarrow> (string, sun_value) gomap \<Rightarrow> layout_entry list
    \<Rightarrow> laid_fact list option option" where
  "structural_facts ws scales [] = Some (Some [])"
| "structural_facts ws scales (e # es) =
     (case structural_fact ws scales e of
        None \<Rightarrow> None
      | Some None \<Rightarrow> Some None
      | Some (Some f) \<Rightarrow> (case structural_facts ws scales es of
            None \<Rightarrow> None | Some None \<Rightarrow> Some None | Some (Some fs) \<Rightarrow> Some (Some (f # fs))))"

definition projectSunSpecStructuralLayout :: "u16 list \<Rightarrow> nested_layout
    \<Rightarrow> laid_fact list option option" where
  "projectSunSpecStructuralLayout ws layout =
     (case structural_scales ws (nlEntries layout) [] of
        None \<Rightarrow> None
      | Some None \<Rightarrow> Some None
      | Some (Some scales) \<Rightarrow> structural_facts ws scales (nlEntries layout))"

record structural_projection =
  pjWireKey :: wire_key
  pjRevision :: string
  pjOrdinal :: u32
  pjRaw :: "u16 list"
  pjSpans :: "source_span list"
  pjFacts :: "laid_fact list"

text \<open>
  The candidate an occurrence carries: the chain keeps whether there is one, and it is the value
  of the candidate builder on the occurrence's own revision, key, words and spans.
\<close>

definition occurrence_candidate :: "occurrence \<Rightarrow> structural_candidate option" where
  "occurrence_candidate occ =
     (if ocStructural occ
      then sunSpecV2DERTripLVStructuralCandidate (ocSchemaRevision occ) (ocWireKey occ) (ocWords occ) (ocSpans occ)
      else None)"

definition projectSunSpecStructuralCandidate :: "occurrence \<Rightarrow> structural_projection option option" where
  "projectSunSpecStructuralCandidate occ =
     (case occurrence_candidate occ of
        None \<Rightarrow> Some None
      | Some c \<Rightarrow>
          (if scModelID c \<noteq> 707 \<or> ocSchemaRevision occ \<noteq> SunSpecModelsRevisionV2
              \<or> wkModelID (ocWireKey occ) \<noteq> scModelID c
              \<or> ocDisposition occ \<noteq> SunSpecChainDispositionUnknownModel \<or> ocDecoderKey occ \<noteq> None
              \<or> nlKey (scLayout c) \<noteq> der_trip_key then Some None
           else (case projectSunSpecStructuralLayout (ocWords occ) (scLayout c) of
               None \<Rightarrow> None
             | Some None \<Rightarrow> Some None
             | Some (Some facts) \<Rightarrow> Some (Some \<lparr>pjWireKey = ocWireKey occ, pjRevision = ocSchemaRevision occ,
                 pjOrdinal = ocOrdinal occ, pjRaw = ocWords occ, pjSpans = ocSpans occ,
                 pjFacts = facts\<rparr>))))"

fun project_occurrences :: "occurrence list \<Rightarrow> structural_projection list option" where
  "project_occurrences [] = Some []"
| "project_occurrences (occ # occs) =
     (case projectSunSpecStructuralCandidate occ of
        None \<Rightarrow> None
      | Some r \<Rightarrow> (case project_occurrences occs of
            None \<Rightarrow> None
          | Some ps \<Rightarrow> Some (case r of None \<Rightarrow> ps | Some p \<Rightarrow> p # ps)))"

definition ProjectSunSpecStructuralFacts :: "chain_snapshot \<Rightarrow> structural_projection list option" where
  "ProjectSunSpecStructuralFacts snapshot = project_occurrences (snOccurrences snapshot)"

section \<open>The extent of the template\<close>

lemma template_accepted:
  "derTripLVV2StructuralProjectionTemplate = Inr \<lparr>ltKey = der_trip_key, ltCounts = der_trip_counts,
     ltRoot = der_trip_projection_root\<rparr>"
  by (simp add: derTripLVV2StructuralProjectionTemplate_def newSunSpecNestedLayoutTemplate_def
      der_trip_key_def der_trip_counts_def der_trip_projection_root_def projection_curve_def Let_def
      validSunSpecRevision_def projection_field_def check_field_def
      maxSunSpecNestedLayoutDepth_def SunSpecModelsRevisionV2_def)

lemma nested_template_accepted:
  "derTripLVV2NestedTemplate = Inr \<lparr>ltKey = der_trip_key, ltCounts = der_trip_counts,
     ltRoot = der_trip_nested_root\<rparr>"
  by (simp add: derTripLVV2NestedTemplate_def newSunSpecNestedLayoutTemplate_def
      der_trip_key_def der_trip_counts_def der_trip_nested_root_def silent_curve_def
      validSunSpecRevision_def silent_field_def typed_field_def no_metadata_def check_field_def
      maxSunSpecNestedLayoutDepth_def SunSpecModelsRevisionV2_def)

lemma total_width_append [simp]: "total_width (xs @ ys) = total_width xs + total_width ys"
  by (simp add: total_width_def)

lemma total_width_concat: "total_width (concat xss) = sum_list (map total_width xss)"
  by (induction xss) simp_all

text \<open>A group whose index base fits: its width is that of one repetition, times the count.\<close>

fun group_width :: "(string, u32) gomap \<Rightarrow> layout_group \<Rightarrow> nat" where
  "group_width counts (LayoutGroup name repeat indexBase fs kids) =
     repetitions counts repeat * (sum_list (map (\<lambda>f. unat (lfWords f)) fs) + sum_list (map (group_width counts) kids))"

text \<open>Index bases are small enough that no index of a 16-bit count overflows.\<close>

fun small_bases :: "layout_group \<Rightarrow> bool" where
  "small_bases (LayoutGroup name repeat indexBase fs kids) \<longleftrightarrow> unat indexBase \<le> 1 \<and> list_all small_bases kids"

definition small_counts :: "(string, u32) gomap \<Rightarrow> bool" where
  "small_counts counts \<longleftrightarrow> (\<forall>name. repetitions counts name \<le> 65536)"

lemma group_path_small:
  assumes "unat indexBase \<le> 1" and "occ < 65536"
  shows "\<exists>path. group_path name repeat indexBase occ parent = Inr path"
proof -
  have "unat (of_nat occ :: u32) = occ" using assms(2) by (simp add: of_nat_u32_small)
  moreover have "unat (- 1 :: u32) = 4294967295"
    by (simp add: unsigned_minus_1_eq_mask mask_eq_exp_minus_1)
  ultimately have "unat (- 1 - of_nat occ :: u32) = 4294967295 - occ"
    using assms(2) by (subst u32_minus) simp_all
  then have "\<not> indexBase > - 1 - of_nat occ" using assms by (simp add: word_less_nat_alt)
  then show ?thesis by (simp add: group_path_def)
qed

lemma expand_width:
  assumes "small_counts counts" and "small_bases g"
  shows "list_all item_fits (expand counts parent g) \<and> total_width (expand counts parent g) = group_width counts g"
  using assms
proof (induction counts parent g rule: expand.induct)
  case (1 counts parent name repeat indexBase fs kids)
  let ?body = "\<lambda>occ. case group_path name repeat indexBase occ parent of
         Inl e \<Rightarrow> [Overflow e]
       | Inr path \<Rightarrow> map (Item path) fs @ concat (map (expand counts path) kids)"
  let ?each = "sum_list (map (\<lambda>f. unat (lfWords f)) fs) + sum_list (map (group_width counts) kids)"
  have body: "list_all item_fits (?body occ) \<and> total_width (?body occ) = ?each"
    if occ: "occ \<in> set [0..<repetitions counts repeat]" for occ
  proof -
    have "repetitions counts repeat \<le> 65536" using 1(2) by (simp add: small_counts_def)
    then have "occ < 65536" using occ by simp
    then obtain path where p: "group_path name repeat indexBase occ parent = Inr path"
      using group_path_small [of indexBase occ name repeat parent] 1(3) by auto
    have kid: "list_all item_fits (expand counts path k) \<and> total_width (expand counts path k) = group_width counts k"
      if "k \<in> set kids" for k
      using 1(1) [OF occ p that 1(2)] 1(3) that by (simp add: list_all_iff)
    then have "total_width (concat (map (expand counts path) kids)) = sum_list (map (group_width counts) kids)"
      by (simp add: total_width_concat o_def cong: map_cong)
    moreover have "total_width (map (Item path) fs) = sum_list (map (\<lambda>f. unat (lfWords f)) fs)"
      by (simp add: total_width_def o_def)
    ultimately show ?thesis using p kid by (auto simp: list_all_iff)
  qed
  have "total_width (concat (map ?body [0..<repetitions counts repeat])) =
      sum_list (map (\<lambda>occ. ?each) [0..<repetitions counts repeat])"
    unfolding total_width_concat map_map o_def using body by (intro arg_cong [of _ _ sum_list] map_cong) auto
  moreover have "list_all item_fits (concat (map ?body [0..<repetitions counts repeat]))"
    using body by (auto simp: list_all_iff)
  ultimately show ?case by (simp add: sum_list_triv)
qed

definition trip_counts_of :: "u16 list \<Rightarrow> (string, u32) gomap" where
  "trip_counts_of ws = [(''points'', ucast (ws ! 5)), (''curves'', ucast (ws ! 6))]"

lemma u16_max: "(w :: u16) \<noteq> 0xffff \<Longrightarrow> unat w \<le> 65534"
  using unat_u16_bound [of w] by (auto simp: word_unat_eq_iff)

lemma count_in_range: "w \<noteq> 0xffff \<Longrightarrow> \<not> ucast (w :: u16) > (65534 :: u32)"
  using u16_max [of w] by (auto simp: word_less_nat_alt)

lemma counts_resolved:
  assumes "7 \<le> length ws"
  shows "resolve_counts ws der_trip_counts [] =
    (if ws ! 5 = 0xffff \<or> ws ! 6 = 0xffff then Inl CountInvalid else Inr (trip_counts_of ws))"
proof -
  have "5 < length ws" "6 < length ws" using assms by simp_all
  then show ?thesis
    using count_in_range [of "ws ! 5"] count_in_range [of "ws ! 6"]
    by (auto simp: der_trip_counts_def trip_counts_of_def Let_def gm_put_def)
qed

lemma trip_repetitions:
  "repetitions (trip_counts_of ws) ''points'' = unat (ws ! 5)"
  "repetitions (trip_counts_of ws) ''curves'' = unat (ws ! 6)"
  "repetitions (trip_counts_of ws) '''' = 1"
  by (simp_all add: repetitions_def trip_counts_of_def gm_get_def)

lemma trip_small: "small_counts (trip_counts_of ws)"
proof -
  have "repetitions (trip_counts_of ws) name \<le> 65536" for name
    using unat_u16_bound [of "ws ! 5"] unat_u16_bound [of "ws ! 6"]
    by (auto simp: repetitions_def trip_counts_of_def gm_get_def)
  then show ?thesis by (simp add: small_counts_def)
qed

text \<open>The width of either template: nine words, and per curve four and nine per point.\<close>

lemma trip_width:
  "group_width (trip_counts_of ws) der_trip_projection_root = 9 + unat (ws ! 6) * (4 + 9 * unat (ws ! 5))"
  "small_bases der_trip_projection_root"
  by (simp_all add: der_trip_projection_root_def projection_curve_def projection_field_def Let_def
      trip_repetitions algebra_simps)

lemma nested_trip_width:
  "group_width (trip_counts_of ws) der_trip_nested_root = 9 + unat (ws ! 6) * (4 + 9 * unat (ws ! 5))"
  "small_bases der_trip_nested_root"
  by (simp_all add: der_trip_nested_root_def silent_curve_def silent_field_def typed_field_def
      trip_repetitions algebra_simps)

section \<open>Entries and their facts\<close>

definition projectable :: "layout_field \<Rightarrow> bool" where
  "projectable f \<longleftrightarrow> lfEmit f \<and> lfHasMetadata f \<and> vmFieldID (lfMetadata f) \<noteq> ''''
     \<and> vmPointName (lfMetadata f) \<noteq> '''' \<and> 0 < unat (lfWords f) \<and> unat (lfWords f) \<le> 65535
     \<and> width_ok (structural_point (lfMetadata f) (lfWords f))"

fun group_fields :: "layout_group \<Rightarrow> layout_field list" where
  "group_fields (LayoutGroup name repeat indexBase fs kids) = fs @ concat (map group_fields kids)"

lemma expand_fields: "Item path f \<in> set (expand counts parent g) \<Longrightarrow> f \<in> set (group_fields g)"
proof (induction counts parent g rule: expand.induct)
  case (1 counts parent name repeat indexBase fs kids)
  then obtain occ where occ: "occ \<in> set [0..<repetitions counts repeat]"
      "Item path f \<in> set (case group_path name repeat indexBase occ parent of
         Inl e \<Rightarrow> [Overflow e]
       | Inr path \<Rightarrow> map (Item path) fs @ concat (map (expand counts path) kids))" by auto
  then obtain p where p: "group_path name repeat indexBase occ parent = Inr p"
    by (cases "group_path name repeat indexBase occ parent") auto
  with occ(2) have "f \<in> set fs \<or> (\<exists>k \<in> set kids. Item path f \<in> set (expand counts p k))" by auto
  with 1(1) [OF occ(1) p] show ?case by auto
qed

definition entry_words :: "u16 list \<Rightarrow> layout_entry \<Rightarrow> u16 list" where
  "entry_words ws e = take (unat (srWordCount (leRange e))) (drop (unat (srOffset (leRange e))) ws)"

definition readable :: "u16 list \<Rightarrow> layout_entry \<Rightarrow> bool" where
  "readable ws e \<longleftrightarrow> entry_path e = lePath e \<and> entry_range e = leRange e
     \<and> (\<forall>f. \<exists>g. WithNestedLayout f (lePath e) (leRange e) = Inr g \<and> fcValue g = fcValue f
         \<and> fcPath g = lePath e \<and> fcSourceRange g = leRange e)
     \<and> sunSpecStructuralEntryDefinition ws e =
         Some (structural_point (leMetadata e) (srWordCount (leRange e)), entry_words ws e)
     \<and> width_ok (structural_point (leMetadata e) (srWordCount (leRange e)))"

lemma entry_readable:
  assumes at: "entry_at spans (pos, path, f) e" and f: "projectable f"
    and fits: "pos + unat (lfWords f) \<le> length ws"
  shows "readable ws e"
proof -
  have e: "NewSunSpecFactPath (lePath e) = Inr (lePath e)"
    "NewSunSpecOccurrenceSourceRange (srOffset (leRange e)) (srWordCount (leRange e)) (srSpans (leRange e)) = Inr (leRange e)"
    "unat (srOffset (leRange e)) = pos" "srWordCount (leRange e) = lfWords f" "leHasMetadata e" "leMetadata e = lfMetadata f"
    using at f unfolding entry_at_def projectable_def prod.case by metis+
  have same: "entry_path e = lePath e" "entry_range e = leRange e"
    by (simp_all add: entry_path_def entry_range_def e(1,2))
  have "sunSpecStructuralEntryDefinition ws e =
      Some (structural_point (leMetadata e) (srWordCount (leRange e)), entry_words ws e)"
    using f fits by (simp add: sunSpecStructuralEntryDefinition_def same e(3-6) projectable_def entry_words_def Let_def)
  moreover have "\<exists>g. WithNestedLayout f (lePath e) (leRange e) = Inr g \<and> fcValue g = fcValue f
         \<and> fcPath g = lePath e \<and> fcSourceRange g = leRange e" for f
    by (simp add: WithNestedLayout_def e(1,2) sun_fact.defs laid_fact.defs)
  ultimately show ?thesis using same f e(4,6) by (simp add: readable_def projectable_def)
qed

definition scale_entry_names :: "layout_entry list \<Rightarrow> string set" where
  "scale_entry_names es = (vmPointName \<circ> leMetadata) ` {e \<in> set es. vmType (leMetadata e) = SunSpecTypeScaleFactor}"

lemma structural_point_simps [simp]:
  "pdName (structural_point md n) = vmPointName md" "pdType (structural_point md n) = vmType md"
  "pdScaleFactor (structural_point md n) = vmScaleFactor md" "pdFieldID (structural_point md n) = vmFieldID md"
  by (simp_all add: structural_point_def)

lemma scales_read:
  assumes "list_all (readable ws) es"
  shows "\<exists>scales'. structural_scales ws es scales = Some (Some scales')
    \<and> (\<forall>n. gm_get scales n \<noteq> None \<or> n \<in> scale_entry_names es \<longrightarrow> gm_get scales' n \<noteq> None)"
  using assms
proof (induction es arbitrary: scales)
  case Nil
  then show ?case by (simp add: scale_entry_names_def)
next
  case (Cons e es)
  let ?p = "structural_point (leMetadata e) (srWordCount (leRange e))"
  have d: "sunSpecStructuralEntryDefinition ws e = Some (?p, entry_words ws e)" and w: "width_ok ?p"
    using Cons.prems by (simp_all add: readable_def)
  show ?case
  proof (cases "vmType (leMetadata e) = SunSpecTypeScaleFactor")
    case False
    then have "scale_entry_names (e # es) = scale_entry_names es" by (auto simp: scale_entry_names_def)
    with Cons d False show ?thesis by simp
  next
    case True
    then have names: "scale_entry_names (e # es) = insert (vmPointName (leMetadata e)) (scale_entry_names es)"
      by (auto simp: scale_entry_names_def)
    obtain v where v: "decodeSunSpecValue ?p (entry_words ws e) None = Some v"
      using decode_returns [OF w] by blast
    obtain scales' where "structural_scales ws es (gm_put (vmPointName (leMetadata e)) v scales) = Some (Some scales')"
      "\<forall>n. gm_get (gm_put (vmPointName (leMetadata e)) v scales) n \<noteq> None \<or> n \<in> scale_entry_names es
        \<longrightarrow> gm_get scales' n \<noteq> None"
      using Cons by fastforce
    with True d v show ?thesis by (auto simp: names go_map_simps)
  qed
qed

definition carries :: "u16 list \<Rightarrow> layout_entry \<Rightarrow> laid_fact \<Rightarrow> bool" where
  "carries ws e f \<longleftrightarrow> svRaw (fcValue f) = entry_words ws e \<and> fcPath f = lePath e \<and> fcSourceRange f = leRange e"

lemma facts_read:
  assumes "list_all (readable ws) es"
    and "\<forall>e \<in> set es. vmScaleFactor (leMetadata e) \<noteq> '''' \<longrightarrow> gm_get scales (vmScaleFactor (leMetadata e)) \<noteq> None"
  shows "\<exists>fs. structural_facts ws scales es = Some (Some fs) \<and> list_all2 (carries ws) es fs"
  using assms
proof (induction es)
  case Nil
  then show ?case by simp
next
  case (Cons e es)
  let ?p = "structural_point (leMetadata e) (srWordCount (leRange e))"
  have r: "readable ws e" using Cons.prems(1) by simp
  then have d: "sunSpecStructuralEntryDefinition ws e = Some (?p, entry_words ws e)" and w: "width_ok ?p"
    by (simp_all add: readable_def)
  obtain v where v: "decodeSunSpecValue ?p (entry_words ws e)
      (if vmScaleFactor (leMetadata e) = '''' then None else gm_get scales (vmScaleFactor (leMetadata e))) = Some v"
    "svRaw v = entry_words ws e" using decode_returns [OF w] by blast
  let ?f = "\<lparr>fcFieldID = pdFieldID ?p, fcPointName = pdName ?p, fcUnit = pdUnit ?p, fcRequired = False,
    fcGroupID = '''', fcRepeatIndex = 0, fcRepeated = False, fcValue = v\<rparr>"
  obtain g where g: "WithNestedLayout ?f (entry_path e) (entry_range e) = Inr g" "fcValue g = v"
      "fcPath g = lePath e" "fcSourceRange g = leRange e"
    using r unfolding readable_def by (metis sun_fact.select_convs(8))
  have "\<not> (vmScaleFactor (leMetadata e) \<noteq> '''' \<and> gm_get scales (vmScaleFactor (leMetadata e)) = None)"
    using Cons.prems(2) by auto
  then have "structural_fact ws scales e = Some (Some g)"
    using v(1) g(1) unfolding structural_fact_def d
    by (cases "vmScaleFactor (leMetadata e) = ''''") simp_all
  moreover have "carries ws e g" using g v(2) by (simp add: carries_def)
  moreover obtain fs where "structural_facts ws scales es = Some (Some fs)" "list_all2 (carries ws) es fs"
    using Cons by auto
  ultimately show ?case by simp
qed

lemma emitted_tile:
  assumes "\<forall>path f. Item path f \<in> set items \<longrightarrow> lfEmit f" and "list_all item_fits items"
  shows "concat (map (\<lambda>(pos, path, f). take (unat (lfWords f)) (drop pos ws)) (emitted k items))
    = take (total_width items) (drop k ws)"
  using assms
proof (induction items arbitrary: k)
  case Nil
  then show ?case by simp
next
  case (Cons it items)
  from Cons.prems(2) obtain path f where item: "it = Item path f" by (cases it) auto
  have emit: "lfEmit f" using Cons.prems(1) item by (metis list.set_intros(1))
  have rest: "\<forall>path f. Item path f \<in> set items \<longrightarrow> lfEmit f"
    using Cons.prems(1) by (meson list.set_intros(2))
  have fits: "list_all item_fits items" using Cons.prems(2) by simp
  have "take (unat (lfWords f)) (drop k ws) @ take (total_width items) (drop (k + unat (lfWords f)) ws)
      = take (unat (lfWords f) + total_width items) (drop k ws)"
    unfolding take_add drop_drop by (simp add: add.commute)
  moreover have "concat (map (\<lambda>(pos, path, f). take (unat (lfWords f)) (drop pos ws))
      (emitted (k + unat (lfWords f)) items)) = take (total_width items) (drop (k + unat (lfWords f)) ws)"
    by (rule Cons.IH [OF rest fits])
  ultimately show ?case using item emit by simp
qed

lemma emitted_item:
  "(pos, path, f) \<in> set (emitted k items) \<Longrightarrow>
    Item path f \<in> set items \<and> pos + unat (lfWords f) \<le> k + total_width items"
proof (induction items arbitrary: k)
  case Nil
  then show ?case by simp
next
  case (Cons it items)
  show ?case
  proof (cases it)
    case (Item path' f')
    with Cons.prems have "(pos, path, f) = (k, path', f')
        \<or> (pos, path, f) \<in> set (emitted (k + unat (lfWords f')) items)"
      by (auto split: if_splits)
    with Cons.IH [of "k + unat (lfWords f')"] Item show ?thesis by auto
  next
    case (Overflow e)
    with Cons show ?thesis by auto
  qed
qed

section \<open>Candidates\<close>

definition trip_shape :: "u16 list \<Rightarrow> source_span list \<Rightarrow> bool" where
  "trip_shape ws spans \<longleftrightarrow> 7 \<le> length ws \<and> length ws \<le> 65536 \<and> ws ! 0 = 707 \<and> unat (ws ! 1) + 2 = length ws
     \<and> ws ! 5 \<noteq> 0xffff \<and> ws ! 6 \<noteq> 0xffff
     \<and> length ws = 9 + unat (ws ! 6) * (4 + 9 * unat (ws ! 5))
     \<and> spans_ok spans \<and> length (addresses spans) = length ws"

definition trip_template :: "layout_group \<Rightarrow> layout_template" where
  "trip_template root = \<lparr>ltKey = der_trip_key, ltCounts = der_trip_counts, ltRoot = root\<rparr>"

lemma trip_lays_out:
  assumes root: "small_bases root"
    "\<And>ws. group_width (trip_counts_of ws) root = 9 + unat (ws ! 6) * (4 + 9 * unat (ws ! 5))"
    and seven: "7 \<le> length ws" and short: "length ws \<le> 65536"
  shows "lays_out (trip_template root) ws spans counts \<longleftrightarrow> trip_shape ws spans \<and> counts = trip_counts_of ws"
proof -
  have "list_all item_fits (expand (trip_counts_of ws) [] root)"
    "total_width (expand (trip_counts_of ws) [] root) = 9 + unat (ws ! 6) * (4 + 9 * unat (ws ! 5))"
    using expand_width [OF trip_small root(1)] root(2) by simp_all
  moreover have "2 \<le> length ws" using seven by simp
  ultimately show ?thesis using counts_resolved [OF seven] seven short
    by (auto simp: lays_out_def trip_template_def trip_shape_def der_trip_key_def)
qed

lemma build_iff:
  "template_valid t \<Longrightarrow> (\<exists>layout. buildSunSpecNestedOccurrenceLayout t ws spans = Inr layout)
    \<longleftrightarrow> (\<exists>counts. lays_out t ws spans counts)"
  using build_laid_out build_only_laid_out by blast

lemma projection_layout_iff:
  assumes "7 \<le> length ws" and "length ws \<le> 65536"
  shows "(\<exists>layout. buildDERTripLVV2StructuralProjectionLayout ws spans = Inr layout) \<longleftrightarrow> trip_shape ws spans"
proof -
  have t: "derTripLVV2StructuralProjectionTemplate = Inr (trip_template der_trip_projection_root)"
    by (simp add: template_accepted trip_template_def)
  then have v: "template_valid (trip_template der_trip_projection_root)"
    unfolding derTripLVV2StructuralProjectionTemplate_def template_valid_def by blast
  show ?thesis
    by (simp add: buildDERTripLVV2StructuralProjectionLayout_def t build_iff [OF v]
        trip_lays_out [OF trip_width(2,1) assms])
qed

lemma nested_layout_iff:
  assumes "7 \<le> length ws" and "length ws \<le> 65536"
  shows "(\<exists>layout. buildDERTripLVV2NestedLayout ws spans = Inr layout) \<longleftrightarrow> trip_shape ws spans"
proof -
  have t: "derTripLVV2NestedTemplate = Inr (trip_template der_trip_nested_root)"
    by (simp add: nested_template_accepted trip_template_def)
  then have v: "template_valid (trip_template der_trip_nested_root)"
    unfolding derTripLVV2NestedTemplate_def template_valid_def by blast
  show ?thesis
    by (simp add: buildDERTripLVV2NestedLayout_def t build_iff [OF v]
        trip_lays_out [OF nested_trip_width(2,1) assms])
qed

lemma candidate_iff:
  "sunSpecV2DERTripLVStructuralCandidate revision wk ws spans \<noteq> None \<longleftrightarrow>
     revision = SunSpecModelsRevisionV2 \<and> wk = \<lparr>wkModelID = 707, wkModelLength = ws ! 1\<rparr> \<and> trip_shape ws spans"
proof (cases "7 \<le> length ws \<and> length ws \<le> 65536 \<and> wkModelID wk = 707 \<and> ws ! 0 = 707
    \<and> wkModelLength wk = ws ! 1 \<and> unat (ws ! 1) + 2 = length ws")
  case False
  then show ?thesis
    by (cases wk) (auto simp: sunSpecV2DERTripLVStructuralCandidate_def trip_shape_def word_less_nat_alt)
next
  case True
  then have b: "7 \<le> length ws" "length ws \<le> 65536" by simp_all
  have wk: "wk = \<lparr>wkModelID = 707, wkModelLength = ws ! 1\<rparr>" using True by (cases wk) simp
  have small: "\<not> wkModelLength wk > 65534" using True b(2) by (simp add: word_less_nat_alt)
  have shape: "trip_shape ws spans \<Longrightarrow> ws ! 5 \<noteq> 0xffff \<and> ws ! 6 \<noteq> 0xffff
      \<and> 7 + unat (ws ! 6) * (4 + 9 * unat (ws ! 5)) = unat (wkModelLength wk)"
    using True unfolding trip_shape_def by auto
  show ?thesis
  proof (cases "buildDERTripLVV2StructuralProjectionLayout ws spans")
    case (Inl e)
    then have "\<not> trip_shape ws spans" using projection_layout_iff [OF b, of spans] by simp
    with Inl show ?thesis by (auto simp: sunSpecV2DERTripLVStructuralCandidate_def Let_def)
  next
    case (Inr layout)
    then have s: "trip_shape ws spans" using projection_layout_iff [OF b, of spans] by simp
    have "\<not> 65534 < unat (wkModelLength wk)" using small by (simp add: word_less_nat_alt)
    with Inr s True small b(1) wk shape [OF s] show ?thesis
      by (auto simp: sunSpecV2DERTripLVStructuralCandidate_def Let_def)
  qed
qed

section \<open>Projections\<close>

lemma trip_fields_all:
  "list_all (\<lambda>f. projectable f \<and> vmScaleFactor (lfMetadata f) \<in> {'''', ''V_SF'', ''Tms_SF''})
     (group_fields der_trip_projection_root)"
  by (simp add: der_trip_projection_root_def projection_curve_def projection_field_def Let_def
      projectable_def width_ok_def type_words_def structural_point_def)

lemma trip_fields:
  "f \<in> set (group_fields der_trip_projection_root) \<Longrightarrow>
    projectable f \<and> vmScaleFactor (lfMetadata f) \<in> {'''', ''V_SF'', ''Tms_SF''}"
  using trip_fields_all by (simp only: list_all_iff)

lemma trip_scale_items:
  "Item [] (projection_field ''sunspec.der.v2.707.V_SF'' ''V_SF'' SunSpecTypeScaleFactor 1 '''' '''' [])
     \<in> set (expand (trip_counts_of ws) [] der_trip_projection_root)"
  "Item [] (projection_field ''sunspec.der.v2.707.Tms_SF'' ''Tms_SF'' SunSpecTypeScaleFactor 1 '''' '''' [])
     \<in> set (expand (trip_counts_of ws) [] der_trip_projection_root)"
  by (simp_all add: der_trip_projection_root_def group_path_def trip_repetitions)

lemma emitted_all:
  "Item path f \<in> set items \<Longrightarrow> lfEmit f \<Longrightarrow> \<exists>pos. (pos, path, f) \<in> set (emitted k items)"
proof (induction items arbitrary: k)
  case Nil
  then show ?case by simp
next
  case (Cons it items)
  then show ?case by (cases it) (auto split: if_splits)
qed

lemma list_all2_source: "list_all2 P xs ys \<Longrightarrow> y \<in> set ys \<Longrightarrow> \<exists>x \<in> set xs. P x y"
  by (induction rule: list_all2_induct) auto

lemma list_all2_target: "list_all2 P xs ys \<Longrightarrow> x \<in> set xs \<Longrightarrow> \<exists>y \<in> set ys. P x y"
  by (induction rule: list_all2_induct) auto

lemma trip_projection:
  assumes shape: "trip_shape ws spans"
    and layout: "list_all2 (entry_at spans) (emitted 0 (expand (trip_counts_of ws) [] der_trip_projection_root)) es"
  shows "\<exists>fs. projectSunSpecStructuralLayout ws \<lparr>nlKey = k, nlEntries = es\<rparr> = Some (Some fs)
    \<and> concat (map (\<lambda>f. svRaw (fcValue f)) fs) = ws
    \<and> concat (map (\<lambda>f. addresses (srSpans (fcSourceRange f))) fs) = addresses spans"
proof -
  let ?items = "expand (trip_counts_of ws) [] der_trip_projection_root"
  have width: "list_all item_fits ?items" "total_width ?items = length ws"
    using expand_width [OF trip_small trip_width(2)] trip_width(1) shape by (simp_all add: trip_shape_def)
  have emit: "\<forall>path f. Item path f \<in> set ?items \<longrightarrow> lfEmit f"
    using expand_fields [of _ _ "trip_counts_of ws" "[]" der_trip_projection_root] trip_fields
    by (auto simp: projectable_def)
  have item: "projectable f \<and> vmScaleFactor (lfMetadata f) \<in> {'''', ''V_SF'', ''Tms_SF''}
      \<and> pos + unat (lfWords f) \<le> length ws" if "(pos, path, f) \<in> set (emitted 0 ?items)" for pos path f
    using emitted_item [OF that] expand_fields [of path f "trip_counts_of ws" "[]" der_trip_projection_root]
      trip_fields [of f] width(2) by auto
  have source: "\<exists>x \<in> set (emitted 0 ?items). entry_at spans x e" if "e \<in> set es" for e
    by (rule list_all2_source [OF layout that])
  have read: "list_all (readable ws) es"
  proof -
    have "readable ws e" if e: "e \<in> set es" for e
    proof -
      obtain pos path f where x: "(pos, path, f) \<in> set (emitted 0 ?items)" "entry_at spans (pos, path, f) e"
        using source [OF e] by (metis prod_cases3)
      with item [OF x(1)] entry_readable [OF x(2)] show ?thesis by blast
    qed
    then show ?thesis by (simp add: list_all_iff)
  qed
  have scale: "vmScaleFactor (leMetadata e) \<in> {'''', ''V_SF'', ''Tms_SF''}" if e: "e \<in> set es" for e
  proof -
    obtain pos path f where x: "(pos, path, f) \<in> set (emitted 0 ?items)" "entry_at spans (pos, path, f) e"
      using source [OF e] by (metis prod_cases3)
    with item [OF x(1)] show ?thesis by (simp add: entry_at_def)
  qed
  have names: "vmPointName (lfMetadata f) \<in> scale_entry_names es"
    if i: "Item path f \<in> set ?items" and t: "vmType (lfMetadata f) = SunSpecTypeScaleFactor" for path f
  proof -
    obtain pos where "(pos, path, f) \<in> set (emitted 0 ?items)" using emitted_all [OF i] emit i by blast
    then obtain e where "e \<in> set es" "entry_at spans (pos, path, f) e"
      using list_all2_target [OF layout] by blast
    moreover from this(2) have "leMetadata e = lfMetadata f" by (simp add: entry_at_def)
    ultimately show ?thesis using t unfolding scale_entry_names_def
      by (intro rev_image_eqI [of e]) simp_all
  qed
  obtain scales where scales: "structural_scales ws es [] = Some (Some scales)"
      "\<forall>n. n \<in> scale_entry_names es \<longrightarrow> gm_get scales n \<noteq> None"
    using scales_read [OF read, of "[]"] by blast
  have "gm_get scales ''V_SF'' \<noteq> None" "gm_get scales ''Tms_SF'' \<noteq> None"
    using scales(2) names [OF trip_scale_items(1)] names [OF trip_scale_items(2)]
    by (simp_all add: projection_field_def)
  then have "\<forall>e \<in> set es. vmScaleFactor (leMetadata e) \<noteq> '''' \<longrightarrow> gm_get scales (vmScaleFactor (leMetadata e)) \<noteq> None"
    using scale by fastforce
  from facts_read [OF read this] obtain fs where fs: "structural_facts ws scales es = Some (Some fs)"
    "list_all2 (carries ws) es fs" by blast
  have raw: "concat (map (\<lambda>f. svRaw (fcValue f)) fs) = concat (map (entry_words ws) es)"
    using fs(2) by (induction rule: list_all2_induct) (simp_all add: carries_def)
  have at: "concat (map (\<lambda>f. addresses (srSpans (fcSourceRange f))) fs)
      = concat (map (\<lambda>e. addresses (srSpans (leRange e))) es)"
    using fs(2) by (induction rule: list_all2_induct) (simp_all add: carries_def)
  have "concat (map (entry_words ws) es) =
      concat (map (\<lambda>(pos, path, f). take (unat (lfWords f)) (drop pos ws)) (emitted 0 ?items))"
    using layout by (induction rule: list_all2_induct) (auto simp: entry_at_def entry_words_def)
  moreover have "concat (map (\<lambda>e. addresses (srSpans (leRange e))) es) =
      concat (map (\<lambda>(pos, path, f). take (unat (lfWords f)) (drop pos (addresses spans))) (emitted 0 ?items))"
    using layout by (induction rule: list_all2_induct) (auto simp: entry_at_def)
  ultimately have "concat (map (entry_words ws) es) = ws"
    "concat (map (\<lambda>e. addresses (srSpans (leRange e))) es) = addresses spans"
    using emitted_tile [OF emit width(1), of ws 0] emitted_tile [OF emit width(1), of "addresses spans" 0]
      width(2) shape by (simp_all add: trip_shape_def)
  with raw at fs(1) scales(1) show ?thesis by (simp add: projectSunSpecStructuralLayout_def)
qed

section \<open>Properties\<close>


text \<open>A structural candidate is projected whole: for an undecoded occurrence that carries one,
  the projection succeeds, the raw words of its facts put together are the words of the
  occurrence, and the registers their source ranges address are the occurrence's registers, each
  once and in order.\<close>

theorem structural_projection_covers_words:
  "occurrence_candidate occ = Some c \<Longrightarrow> ocDisposition occ = SunSpecChainDispositionUnknownModel \<Longrightarrow>
   ocDecoderKey occ = None \<Longrightarrow>
    \<exists>p. projectSunSpecStructuralCandidate occ = Some (Some p) \<and> pjOrdinal p = ocOrdinal occ
      \<and> pjRaw p = ocWords occ
      \<and> concat (map (\<lambda>f. svRaw (fcValue f)) (pjFacts p)) = ocWords occ
      \<and> concat (map (\<lambda>f. addresses (srSpans (fcSourceRange f))) (pjFacts p)) = addresses (ocSpans occ)"
proof -
  assume c: "occurrence_candidate occ = Some c" and d: "ocDisposition occ = SunSpecChainDispositionUnknownModel"
    "ocDecoderKey occ = None"
  let ?ws = "ocWords occ" and ?spans = "ocSpans occ" and ?t = "trip_template der_trip_projection_root"
  have cand: "sunSpecV2DERTripLVStructuralCandidate (ocSchemaRevision occ) (ocWireKey occ) ?ws ?spans = Some c"
    using c by (auto simp: occurrence_candidate_def split: if_splits)
  then have s: "ocSchemaRevision occ = SunSpecModelsRevisionV2" "wkModelID (ocWireKey occ) = 707" "trip_shape ?ws ?spans"
    using candidate_iff [of "ocSchemaRevision occ" "ocWireKey occ" ?ws ?spans] by auto
  have b: "7 \<le> length ?ws" "length ?ws \<le> 65536"
    using s(3) by (simp_all add: trip_shape_def)
  have t: "derTripLVV2StructuralProjectionTemplate = Inr ?t"
    by (simp add: template_accepted trip_template_def)
  then have v: "template_valid ?t"
    unfolding derTripLVV2StructuralProjectionTemplate_def template_valid_def by blast
  have "lays_out ?t ?ws ?spans (trip_counts_of ?ws)" using trip_lays_out [OF trip_width(2,1) b] s(3) by blast
  from build_laid_out [OF v this] obtain layout where l:
    "buildSunSpecNestedOccurrenceLayout ?t ?ws ?spans = Inr layout" "nlKey layout = der_trip_key"
    "list_all2 (entry_at ?spans) (emitted 0 (expand (trip_counts_of ?ws) [] der_trip_projection_root)) (nlEntries layout)"
    by (auto simp: trip_template_def)
  have "c = \<lparr>scModelID = 707, scLayout = layout\<rparr>"
    using cand l(1) s(2) by (auto simp: sunSpecV2DERTripLVStructuralCandidate_def Let_def
        buildDERTripLVV2StructuralProjectionLayout_def t split: if_splits)
  with trip_projection [OF s(3) l(3), of der_trip_key] s c d l(2) show ?thesis
    by (cases layout) (auto simp: projectSunSpecStructuralCandidate_def)
qed

definition example_trip :: occurrence where
  "example_trip = \<lparr>ocOrdinal = 3, ocWireKey = \<lparr>wkModelID = 707, wkModelLength = 20\<rparr>,
     ocSchemaRevision = SunSpecModelsRevisionV2, ocHeaderOffset = 40200, ocPayloadOffset = 40202,
     ocDisposition = SunSpecChainDispositionUnknownModel, ocDecoderKey = None, ocStructural = True,
     ocWords = [707, 20, 1, 0, 0, 1, 1, 0, 0, 1, 1, 100, 0, 5, 1, 90, 0, 6, 1, 80, 0, 7],
     ocSpans = [\<lparr>spLogicalViewID = 4, spPDUOffset = 0, spWordCount = 2\<rparr>,
       \<lparr>spLogicalViewID = 5, spPDUOffset = 0, spWordCount = 20\<rparr>]\<rparr>"

theorem structural_projection_covers_words_witness:
  "\<exists>p. projectSunSpecStructuralCandidate example_trip = Some (Some p)
    \<and> concat (map (\<lambda>f. svRaw (fcValue f)) (pjFacts p)) = ocWords example_trip"
proof -
  have "sunSpecV2DERTripLVStructuralCandidate (ocSchemaRevision example_trip) (ocWireKey example_trip)
      (ocWords example_trip) (ocSpans example_trip) \<noteq> None"
    unfolding candidate_iff by (simp add: trip_shape_def example_trip_def spans_ok_def span_inside)
  then obtain c where c: "occurrence_candidate example_trip = Some c"
    by (auto simp: occurrence_candidate_def example_trip_def)
  have "ocDisposition example_trip = SunSpecChainDispositionUnknownModel" "ocDecoderKey example_trip = None"
    by (simp_all add: example_trip_def)
  from structural_projection_covers_words [OF c this] show ?thesis by blast
qed

end
