(* ===== verification/Codec.thy ===== *)
theory Codec
  imports Contract "HOL-Library.Multiset"
begin

text \<open>
  Codec declarations (\<^verbatim>\<open>codec.go\<close>): the declaration a profile gives of how the raw words
  of a dependency are ordered, scaled and typed, and the constructor that validates every
  dimension of it. Go's named string types are strings here, their constants are definitions, so
  that every text a caller can pass is a value of the model. The modbus library's read limit
  \<^verbatim>\<open>MaxReadRegisters\<close> is the argument \<open>maxRead\<close>. The lemmas show that an accepted word
  order is a permutation, that no raw value has two dispositions, and that an accepted
  declaration is accepted again unchanged, which every copying accessor of the package relies on.
\<close>

named_theorems codec_consts \<open>the named string constants of codec declarations\<close>

section \<open>Constants\<close>

definition ByteOrderModbus :: string where [codec_consts]: "ByteOrderModbus = ''modbus''"
definition ByteOrderSwapped :: string where [codec_consts]: "ByteOrderSwapped = ''swapped''"

definition RepresentationUnsignedInteger :: string where
  [codec_consts]: "RepresentationUnsignedInteger = ''unsigned_integer''"
definition RepresentationSignedInteger :: string where
  [codec_consts]: "RepresentationSignedInteger = ''signed_integer''"
definition RepresentationIEEE754 :: string where
  [codec_consts]: "RepresentationIEEE754 = ''ieee754''"
definition RepresentationString :: string where
  [codec_consts]: "RepresentationString = ''string''"

definition ScaleNotApplicable :: string where
  [codec_consts]: "ScaleNotApplicable = ''not_applicable''"
definition ScaleConstant :: string where [codec_consts]: "ScaleConstant = ''constant''"
definition ScaleDependency :: string where [codec_consts]: "ScaleDependency = ''dependency''"

definition ScaleOrderNotApplicable :: string where
  [codec_consts]: "ScaleOrderNotApplicable = ''not_applicable''"
definition ScaleBeforeRepresentation :: string where
  [codec_consts]: "ScaleBeforeRepresentation = ''before_representation''"
definition ScaleAfterRepresentation :: string where
  [codec_consts]: "ScaleAfterRepresentation = ''after_representation''"

definition SentinelInvalid :: string where [codec_consts]: "SentinelInvalid = ''invalid''"
definition SentinelNotImplemented :: string where
  [codec_consts]: "SentinelNotImplemented = ''not_implemented''"
definition SentinelReserved :: string where [codec_consts]: "SentinelReserved = ''reserved''"

definition StringNotApplicable :: string where
  [codec_consts]: "StringNotApplicable = ''not_applicable''"
definition StringApplicable :: string where [codec_consts]: "StringApplicable = ''applicable''"
definition StringHighByteFirst :: string where
  [codec_consts]: "StringHighByteFirst = ''high_byte_first''"
definition StringLowByteFirst :: string where
  [codec_consts]: "StringLowByteFirst = ''low_byte_first''"
definition StringFixedLength :: string where
  [codec_consts]: "StringFixedLength = ''fixed_length''"
definition StringNULTerminated :: string where
  [codec_consts]: "StringNULTerminated = ''nul_terminated''"

definition ValidityRejectSentinel :: string where
  [codec_consts]: "ValidityRejectSentinel = ''reject_sentinel''"
definition ValidityPreserveRaw :: string where
  [codec_consts]: "ValidityPreserveRaw = ''preserve_raw_invalid''"

section \<open>Declarations\<close>

record scale_spec =
  scSource :: string
  scApplicationOrder :: string
  scNumerator :: int
  scDenominator :: int
  scDependencyID :: string

record raw_sentinel =
  seKind :: string
  seWords :: "u16 list"

record string_spec =
  ssApplicability :: string
  ssWordPacking :: string
  ssByteOrder :: string
  ssPaddingByte :: "u8 option"
  ssTermination :: string
  ssRetainedRawLength :: u32
  ssDocumentaryCharacterRepertoire :: string

record codec_spec =
  csID :: string
  csVersion :: version
  csRawWordCount :: u16
  csWordPermutation :: "u16 list"
  csIntraWordByteOrder :: string
  csRepresentation :: string
  csScale :: scale_spec
  csSentinels :: "raw_sentinel list"
  csString :: string_spec
  csOutputProfileType :: string
  csValidityBehavior :: string

text \<open>\<^verbatim>\<open>Codec\<close> wraps the accepted declaration; \<^verbatim>\<open>Spec\<close> returns a copy of it.\<close>

type_synonym codec = codec_spec

datatype codec_error =
    CodecWidthBoundary
  | CodecCollectionBoundary
  | CodecSentinelBoundary
  | CodecContract contract_error
  | CodecIncomplete
  | CodecPermutation
  | CodecByteOrder
  | CodecScaleOrder
  | CodecScaleIncomplete
  | CodecScaleSource
  | CodecStringDimensions
  | CodecFloatWidth
  | CodecStringScale
  | CodecStringIncomplete
  | CodecRepresentation
  | CodecValidity
  | CodecSentinelKind
  | CodecSentinelWidth
  | CodecSentinelConflict

section \<open>What the byte budget sees\<close>

text \<open>The declaration as the reflective walk of \<^verbatim>\<open>preflightAggregate\<close> meets it, field by field.\<close>

definition string_agg :: "string \<Rightarrow> agg" where
  "string_agg s = AggString (length s)"

definition version_agg :: "version \<Rightarrow> agg" where
  "version_agg v = AggStruct False [(''value'', string_agg v)]"

definition words_agg :: "u16 list \<Rightarrow> agg" where
  "words_agg ws = AggSequence (map (\<lambda>_. AggInteger) ws)"

definition scale_agg :: "scale_spec \<Rightarrow> agg" where
  "scale_agg s = AggStruct False
     [(''Source'', string_agg (scSource s)),
      (''ApplicationOrder'', string_agg (scApplicationOrder s)),
      (''Numerator'', AggInteger), (''Denominator'', AggInteger),
      (''DependencyID'', string_agg (scDependencyID s))]"

definition sentinel_agg :: "raw_sentinel \<Rightarrow> agg" where
  "sentinel_agg s = AggStruct False
     [(''Kind'', string_agg (seKind s)), (''Words'', words_agg (seWords s))]"

definition string_spec_agg :: "string_spec \<Rightarrow> agg" where
  "string_spec_agg s = AggStruct False
     [(''Applicability'', string_agg (ssApplicability s)),
      (''WordPacking'', string_agg (ssWordPacking s)),
      (''ByteOrder'', string_agg (ssByteOrder s)),
      (''PaddingByte'', case ssPaddingByte s of None \<Rightarrow> AggNilPointer
                        | Some _ \<Rightarrow> AggPointer AggInteger),
      (''Termination'', string_agg (ssTermination s)),
      (''RetainedRawLength'', AggInteger),
      (''DocumentaryCharacterRepertoire'', string_agg (ssDocumentaryCharacterRepertoire s))]"

definition codec_agg :: "codec_spec \<Rightarrow> agg" where
  "codec_agg s = AggStruct False
     [(''ID'', string_agg (csID s)), (''Version'', version_agg (csVersion s)),
      (''RawWordCount'', AggInteger),
      (''WordPermutation'', words_agg (csWordPermutation s)),
      (''IntraWordByteOrder'', string_agg (csIntraWordByteOrder s)),
      (''Representation'', string_agg (csRepresentation s)),
      (''Scale'', scale_agg (csScale s)),
      (''Sentinels'', AggSequence (map sentinel_agg (csSentinels s))),
      (''String'', string_spec_agg (csString s)),
      (''OutputProfileType'', string_agg (csOutputProfileType s)),
      (''ValidityBehavior'', string_agg (csValidityBehavior s))]"

section \<open>Validation\<close>

definition preflightCodecSpec :: "u16 \<Rightarrow> codec_spec \<Rightarrow> codec_error outcome" where
  "preflightCodecSpec maxRead spec =
     (if csRawWordCount spec = 0 \<or> csRawWordCount spec > maxRead then Some CodecWidthBoundary
      else if length (csWordPermutation spec) > unat maxRead
        \<or> length (csSentinels spec) > MaxCodecSentinels then Some CodecCollectionBoundary
      else if \<exists>s \<in> set (csSentinels spec). length (seWords s) > unat maxRead
      then Some CodecSentinelBoundary
      else (case preflightAggregate [codec_agg spec] of
        Some e \<Rightarrow> Some (CodecContract e)
      | None \<Rightarrow>
      (case validateBoundedString (csID spec) True of
        Some e \<Rightarrow> Some (CodecContract e)
      | None \<Rightarrow>
      (case validateBoundedString (csOutputProfileType spec) True of
        Some e \<Rightarrow> Some (CodecContract e)
      | None \<Rightarrow>
      (case validateBoundedString (scDependencyID (csScale spec)) False of
        Some e \<Rightarrow> Some (CodecContract e)
      | None \<Rightarrow>
        map_option CodecContract
          (validateBoundedString (ssDocumentaryCharacterRepertoire (csString spec)) False))))))"

definition validateScale :: "scale_spec \<Rightarrow> codec_error outcome" where
  "validateScale scale =
     (if scSource scale = ScaleConstant then
        (if scApplicationOrder scale \<noteq> ScaleBeforeRepresentation
            \<and> scApplicationOrder scale \<noteq> ScaleAfterRepresentation then Some CodecScaleOrder
         else if scDenominator scale = 0 \<or> scDependencyID scale \<noteq> [] then Some CodecScaleIncomplete
         else None)
      else if scSource scale = ScaleDependency then
        (if scApplicationOrder scale \<noteq> ScaleBeforeRepresentation
            \<and> scApplicationOrder scale \<noteq> ScaleAfterRepresentation then Some CodecScaleOrder
         else if \<not> validIdentity (scDependencyID scale) \<or> scNumerator scale \<noteq> 0
            \<or> scDenominator scale \<noteq> 0 then Some CodecScaleIncomplete
         else None)
      else if scSource scale = ScaleNotApplicable then
        (if scApplicationOrder scale \<noteq> ScaleOrderNotApplicable \<or> scNumerator scale \<noteq> 0
            \<or> scDenominator scale \<noteq> 0 \<or> scDependencyID scale \<noteq> [] then Some CodecScaleIncomplete
         else None)
      else Some CodecScaleSource)"

definition emptyStringDimensions :: "string_spec \<Rightarrow> bool" where
  "emptyStringDimensions spec \<longleftrightarrow>
     ssWordPacking spec = [] \<and> ssByteOrder spec = [] \<and> ssPaddingByte spec = None
     \<and> ssTermination spec = [] \<and> ssRetainedRawLength spec = 0
     \<and> ssDocumentaryCharacterRepertoire spec = []"

definition validateStringSpec :: "string_spec \<Rightarrow> u16 \<Rightarrow> codec_error outcome" where
  "validateStringSpec spec ws =
     (if ssApplicability spec \<noteq> StringApplicable
        \<or> (ssWordPacking spec \<noteq> StringHighByteFirst \<and> ssWordPacking spec \<noteq> StringLowByteFirst)
        \<or> (ssByteOrder spec \<noteq> ByteOrderModbus \<and> ssByteOrder spec \<noteq> ByteOrderSwapped)
        \<or> (ssTermination spec \<noteq> StringFixedLength \<and> ssTermination spec \<noteq> StringNULTerminated)
        \<or> ssPaddingByte spec = None
        \<or> ssRetainedRawLength spec \<noteq> ucast ws * 2
        \<or> ssDocumentaryCharacterRepertoire spec = []
      then Some CodecStringIncomplete else None)"

text \<open>
  The loop over \<^verbatim>\<open>WordPermutation\<close>: the flags of the positions met so far are a slice that is
  updated in place; the bound test precedes every access.
\<close>

fun exact_permutation :: "u16 \<Rightarrow> u16 list \<Rightarrow> bool list \<Rightarrow> bool" where
  "exact_permutation n [] seen = True"
| "exact_permutation n (p # ps) seen =
     (if n \<le> p \<or> seen ! unat p then False
      else exact_permutation n ps (seen[unat p := True]))"

text \<open>\<^verbatim>\<open>fmt.Sprint\<close> of a slice of integers: the decimals, separated by blanks, in brackets.\<close>

definition sprint_words :: "u16 list \<Rightarrow> string" where
  "sprint_words ws = CHR ''['' # join_on CHR '' '' (map (\<lambda>w. dec (unat w)) ws) @ '']''"

fun check_sentinels :: "u16 \<Rightarrow> raw_sentinel list \<Rightarrow> string list \<Rightarrow> codec_error outcome" where
  "check_sentinels n [] seen = None"
| "check_sentinels n (s # ss) seen =
     (if seKind s \<noteq> SentinelInvalid \<and> seKind s \<noteq> SentinelNotImplemented
        \<and> seKind s \<noteq> SentinelReserved then Some CodecSentinelKind
      else if length (seWords s) \<noteq> unat n then Some CodecSentinelWidth
      else if sprint_words (seWords s) \<in> set seen then Some CodecSentinelConflict
      else check_sentinels n ss (sprint_words (seWords s) # seen))"

definition check_representation :: "codec_spec \<Rightarrow> codec_error outcome" where
  "check_representation spec =
     (let numeric = (case validateScale (csScale spec) of
          Some e \<Rightarrow> Some e
        | None \<Rightarrow>
            if ssApplicability (csString spec) \<noteq> StringNotApplicable
              \<or> \<not> emptyStringDimensions (csString spec)
            then Some CodecStringDimensions else None)
      in
      if csRepresentation spec = RepresentationUnsignedInteger
        \<or> csRepresentation spec = RepresentationSignedInteger then numeric
      else if csRepresentation spec = RepresentationIEEE754 then
        (if csRawWordCount spec \<noteq> 2 \<and> csRawWordCount spec \<noteq> 4 then Some CodecFloatWidth
         else numeric)
      else if csRepresentation spec = RepresentationString then
        (if scSource (csScale spec) \<noteq> ScaleNotApplicable
            \<or> scApplicationOrder (csScale spec) \<noteq> ScaleOrderNotApplicable
            \<or> scNumerator (csScale spec) \<noteq> 0 \<or> scDenominator (csScale spec) \<noteq> 0
            \<or> scDependencyID (csScale spec) \<noteq> [] then Some CodecStringScale
         else validateStringSpec (csString spec) (csRawWordCount spec))
      else Some CodecRepresentation)"

text \<open>
  \<^verbatim>\<open>cloneCodecSpec\<close> copies the slices and the padding byte; a copy of a value is the value.
\<close>

definition NewCodec :: "u16 \<Rightarrow> codec_spec \<Rightarrow> codec_error + codec" where
  "NewCodec maxRead spec =
     (case preflightCodecSpec maxRead spec of
        Some e \<Rightarrow> Inl e
      | None \<Rightarrow>
        (if \<not> validIdentity (csID spec) \<or> \<not> version_valid (csVersion spec)
           \<or> csRawWordCount spec = 0 \<or> csRawWordCount spec > maxRead
           \<or> length (csWordPermutation spec) \<noteq> unat (csRawWordCount spec)
           \<or> csOutputProfileType spec = [] then Inl CodecIncomplete
         else if \<not> exact_permutation (csRawWordCount spec) (csWordPermutation spec)
                     (replicate (unat (csRawWordCount spec)) False)
         then Inl CodecPermutation
         else if csIntraWordByteOrder spec \<noteq> ByteOrderModbus
           \<and> csIntraWordByteOrder spec \<noteq> ByteOrderSwapped then Inl CodecByteOrder
         else (case check_representation spec of
           Some e \<Rightarrow> Inl e
         | None \<Rightarrow>
           if csValidityBehavior spec \<noteq> ValidityRejectSentinel
             \<and> csValidityBehavior spec \<noteq> ValidityPreserveRaw then Inl CodecValidity
           else (case check_sentinels (csRawWordCount spec) (csSentinels spec) [] of
             Some e \<Rightarrow> Inl e
           | None \<Rightarrow> Inr spec))))"

text \<open>\<^verbatim>\<open>codecSemanticsChanged\<close> (profile.go) compares everything but the version.\<close>

definition codecSemanticsChanged :: "codec_spec \<Rightarrow> codec_spec \<Rightarrow> bool" where
  "codecSemanticsChanged first second \<longleftrightarrow>
     first\<lparr>csVersion := []\<rparr> \<noteq> second\<lparr>csVersion := []\<rparr>"

section \<open>What acceptance means\<close>

lemma exact_permutation_distinct:
  assumes "exact_permutation n ps seen" and "length seen = unat n"
  shows "distinct ps \<and> (\<forall>p \<in> set ps. p < n \<and> \<not> seen ! unat p)"
  using assms
proof (induction ps arbitrary: seen)
  case Nil
  then show ?case by simp
next
  case (Cons p ps)
  from Cons.prems have p: "p < n" "\<not> seen ! unat p"
    and rest: "exact_permutation n ps (seen[unat p := True])"
    by (auto split: if_splits)
  from Cons.IH [OF rest] Cons.prems have ih: "distinct ps"
    "\<forall>q \<in> set ps. q < n \<and> \<not> seen[unat p := True] ! unat q" by simp_all
  have "\<forall>q \<in> set ps. q \<noteq> p \<and> \<not> seen ! unat q"
  proof
    fix q assume q: "q \<in> set ps"
    with ih have "\<not> seen[unat p := True] ! unat q" by blast
    moreover have "unat p < length seen" using p(1) Cons.prems by (simp add: word_less_nat_alt)
    ultimately show "q \<noteq> p \<and> \<not> seen ! unat q"
      by (cases "q = p") (auto simp: nth_list_update split: if_splits)
  qed
  with ih p show ?case by auto
qed

lemma distinct_exact_permutation:
  assumes "distinct ps" and "\<forall>p \<in> set ps. p < n \<and> \<not> seen ! unat p" and "length seen = unat n"
  shows "exact_permutation n ps seen"
  using assms
proof (induction ps arbitrary: seen)
  case Nil
  then show ?case by simp
next
  case (Cons p ps)
  have "\<forall>q \<in> set ps. q < n \<and> \<not> seen[unat p := True] ! unat q"
  proof
    fix q assume "q \<in> set ps"
    with Cons.prems have "q \<noteq> p" "q < n" "\<not> seen ! unat q" by auto
    then show "q < n \<and> \<not> seen[unat p := True] ! unat q"
      by (metis nth_list_update_neq word_unat_eq_iff)
  qed
  with Cons.IH [of "seen[unat p := True]"] Cons.prems show ?case
    by (simp add: not_le)
qed

text \<open>The loop accepts exactly the rearrangements of the positions.\<close>

lemma exact_permutation_iff:
  assumes "length ps = unat n"
  shows "exact_permutation n ps (replicate (unat n) False) \<longleftrightarrow> mset (map unat ps) = mset [0..<unat n]"
proof
  assume "exact_permutation n ps (replicate (unat n) False)"
  then have d: "distinct ps" and b: "\<forall>p \<in> set ps. p < n"
    using exact_permutation_distinct [of n ps "replicate (unat n) False"] by simp_all
  have dm: "distinct (map unat ps)" using d by (simp add: distinct_map inj_on_def word_unat_eq_iff [symmetric])
  have "set (map unat ps) \<subseteq> {0..<unat n}" using b by (auto simp: word_less_nat_alt)
  moreover have "card (set (map unat ps)) = card {0..<unat n}"
    using distinct_card [OF dm] assms by simp
  ultimately have "set (map unat ps) = {0..<unat n}" by (intro card_subset_eq) auto
  then show "mset (map unat ps) = mset [0..<unat n]"
    using dm by (intro set_eq_iff_mset_eq_distinct [THEN iffD1]) auto
next
  assume m: "mset (map unat ps) = mset [0..<unat n]"
  then have "distinct (map unat ps)" by (metis distinct_upt mset_eq_imp_distinct_iff)
  then have d: "distinct ps" by (simp add: distinct_map)
  from m have "set (map unat ps) = {0..<unat n}" by (metis atLeastLessThan_upt set_mset_mset)
  then have "\<forall>p \<in> set ps. p < n" by (auto simp: word_less_nat_alt)
  then show "exact_permutation n ps (replicate (unat n) False)"
    using d by (intro distinct_exact_permutation) (auto simp: word_less_nat_alt)
qed

lemma permuted_words:
  assumes "mset (map unat ps) = mset [0..<length ws]"
  shows "mset (map (\<lambda>p. ws ! unat p) ps) = mset ws"
proof -
  have "mset (map (\<lambda>p. ws ! unat p) ps) = image_mset ((!) ws) (mset (map unat ps))"
    by (simp add: multiset.map_comp comp_def)
  also have "\<dots> = mset (map ((!) ws) [0..<length ws])" using assms by (simp only: mset_map)
  finally show ?thesis by (simp add: map_nth)
qed

subsection \<open>Raw values and their keys\<close>

lemma byte_at_digit_char: "d < 10 \<Longrightarrow> byte_at (digit_char d) = 48 + d"
  by (simp add: byte_at_def digit_char_def)

lemma dec_digits: "c \<in> set (dec n) \<Longrightarrow> is_digit c"
proof (induction n rule: dec.induct)
  case (1 n)
  show ?case
  proof (cases "n < 10")
    case True
    with 1 show ?thesis by (simp add: dec_small is_digit_def byte_at_digit_char)
  next
    case False
    with 1 show ?thesis
      using byte_at_digit_char [of "n mod 10"] by (auto simp: dec_large is_digit_def)
  qed
qed

lemma dec_large_two:
  assumes "10 \<le> n"
  shows "dec n \<noteq> [c]"
  unfolding dec_large [OF assms] using dec_nonempty [of "n div 10"]
  by (cases "dec (n div 10)") auto

lemma digit_char_inject:
  assumes "a < 10" and "b < 10"
  shows "digit_char a = digit_char b \<longleftrightarrow> a = b"
proof
  assume "digit_char a = digit_char b"
  then have "byte_at (digit_char a) = byte_at (digit_char b)" by simp
  then show "a = b" unfolding byte_at_digit_char [OF assms(1)] byte_at_digit_char [OF assms(2)] by simp
qed simp

lemma dec_inject_large:
  assumes "10 \<le> m" and "10 \<le> n"
  shows "dec m = dec n \<longleftrightarrow> dec (m div 10) = dec (n div 10) \<and> m mod 10 = n mod 10"
  by (subst dec_large [OF assms(1)], subst dec_large [OF assms(2)]) (simp add: digit_char_inject)

lemma dec_inject [simp]: "dec m = dec n \<longleftrightarrow> m = n"
proof (induction m arbitrary: n rule: less_induct)
  case (less m)
  show ?case
  proof (cases "m < 10")
    case m: True
    show ?thesis
    proof (cases "n < 10")
      case True
      with m show ?thesis by (simp add: dec_small digit_char_inject)
    next
      case False
      with m dec_large_two [of n "digit_char m"] show ?thesis by (auto simp: dec_small [OF m])
    qed
  next
    case m: False
    show ?thesis
    proof (cases "n < 10")
      case True
      with m dec_large_two [of m "digit_char n"] show ?thesis by (auto simp: dec_small [OF True])
    next
      case False
      with m have "dec m = dec n \<longleftrightarrow> m div 10 = n div 10 \<and> m mod 10 = n mod 10"
        using less [of "m div 10" "n div 10"] by (simp add: dec_inject_large)
      then show ?thesis by (metis div_mult_mod_eq)
    qed
  qed
qed

lemma split_join:
  "ps \<noteq> [] \<Longrightarrow> \<forall>p \<in> set ps. c \<notin> set p \<Longrightarrow> split_on c (join_on c ps) = ps"
proof (induction ps rule: join_on.induct)
  case (1 c)
  then show ?case by simp
next
  case (2 c p)
  then have "c \<notin> set p" by simp
  then have "split_on c p = [p]" by (induction p) auto
  then show ?case by simp
next
  case (3 c p q ps)
  then have "c \<notin> set p" and ih: "split_on c (join_on c (q # ps)) = q # ps" by simp_all
  from this(1) have "split_on c (p @ c # s) = p # split_on c s" for s
    by (induction p) auto
  with ih show ?case by simp
qed

lemma sprint_words_inject:
  assumes "length vs = length ws"
  shows "sprint_words vs = sprint_words ws \<longleftrightarrow> vs = ws"
proof
  assume eq: "sprint_words vs = sprint_words ws"
  show "vs = ws"
  proof (cases "ws = []")
    case True
    with assms show ?thesis by simp
  next
    case False
    with assms have ne: "vs \<noteq> []" by (cases vs) auto
    have free: "\<forall>p \<in> set (map (\<lambda>w. dec (unat w)) us). CHR '' '' \<notin> set p" for us :: "u16 list"
      by (auto dest!: dec_digits simp: is_digit_def byte_at_def)
    from eq have "join_on CHR '' '' (map (\<lambda>w. dec (unat w)) vs)
        = join_on CHR '' '' (map (\<lambda>w. dec (unat w)) ws)"
      by (simp add: sprint_words_def)
    then have "map (\<lambda>w. dec (unat w)) vs = map (\<lambda>w. dec (unat w)) ws"
      using split_join [OF _ free, of vs] split_join [OF _ free, of ws] ne False
      by (metis map_is_Nil_conv)
    then have "map unat vs = map unat ws"
      using inj_map_eq_map [of dec "map unat vs" "map unat ws"]
      by (simp add: inj_def comp_def)
    then show ?thesis
      using inj_map_eq_map [of "unat :: u16 \<Rightarrow> nat" vs ws]
      by (simp add: inj_def word_unat_eq_iff [symmetric])
  qed
qed simp

definition sentinel_ok :: "u16 \<Rightarrow> raw_sentinel \<Rightarrow> bool" where
  "sentinel_ok n s \<longleftrightarrow> seKind s \<in> {SentinelInvalid, SentinelNotImplemented, SentinelReserved}
     \<and> length (seWords s) = unat n"

lemma check_sentinels_None:
  "check_sentinels n ss seen = None \<longleftrightarrow>
     list_all (sentinel_ok n) ss \<and> distinct (map (\<lambda>s. sprint_words (seWords s)) ss)
     \<and> set (map (\<lambda>s. sprint_words (seWords s)) ss) \<inter> set seen = {}"
proof (induction ss arbitrary: seen)
  case Nil
  then show ?case by simp
next
  case (Cons s ss)
  have "check_sentinels n (s # ss) seen = None \<longleftrightarrow>
      sentinel_ok n s \<and> sprint_words (seWords s) \<notin> set seen
      \<and> check_sentinels n ss (sprint_words (seWords s) # seen) = None"
    by (simp add: sentinel_ok_def)
  then show ?case by (auto simp: Cons.IH)
qed

text \<open>The constructor checks the declaration and returns it.\<close>

lemma NewCodec_Inr:
  assumes "NewCodec maxRead spec = Inr c"
  shows "c = spec" and "preflightCodecSpec maxRead spec = None"
    and "validIdentity (csID spec)" and "version_valid (csVersion spec)"
    and "0 < csRawWordCount spec" and "csRawWordCount spec \<le> maxRead"
    and "length (csWordPermutation spec) = unat (csRawWordCount spec)"
    and "exact_permutation (csRawWordCount spec) (csWordPermutation spec)
           (replicate (unat (csRawWordCount spec)) False)"
    and "check_representation spec = None"
    and "check_sentinels (csRawWordCount spec) (csSentinels spec) [] = None"
  using assms
  by (auto simp: NewCodec_def word_gt_0 split: option.splits if_splits)

lemma NewCodec_again: "NewCodec maxRead spec = Inr c \<Longrightarrow> NewCodec maxRead c = Inr c"
  using NewCodec_Inr(1) by blast

lemma NewCodec_sentinels:
  assumes "NewCodec maxRead spec = Inr c"
  shows "\<forall>s \<in> set (csSentinels c). length (seWords s) = unat (csRawWordCount c)"
    and "distinct (map seWords (csSentinels c))"
proof -
  note ok = NewCodec_Inr [OF assms]
  show len: "\<forall>s \<in> set (csSentinels c). length (seWords s) = unat (csRawWordCount c)"
    using ok(1,10) by (simp add: check_sentinels_None list_all_iff sentinel_ok_def)
  have "distinct (map (sprint_words \<circ> seWords) (csSentinels c))"
    using ok(1,10) by (simp add: check_sentinels_None comp_def)
  then show "distinct (map seWords (csSentinels c))"
    by (simp add: distinct_map comp_def inj_on_def) 
qed

lemma codec_scale_valid:
  assumes "NewCodec maxRead spec = Inr c"
  shows "validateScale (csScale c) = None"
  using NewCodec_Inr(1,9) [OF assms]
  by (auto simp: check_representation_def validateScale_def Let_def codec_consts
      split: if_splits option.splits)

section \<open>Properties\<close>

text \<open>An accepted codec declaration orders its words by a permutation: reading any raw value in
  that order gives back the same words rearranged, each once. Every raw sentinel has the width
  of the codec and no raw value has two dispositions, although the code compares printed keys.
  The declaration itself is kept as it is, and validating it again accepts it unchanged.\<close>

theorem codec_permutes_words:
  assumes "NewCodec maxRead spec = Inr c"
  shows "c = spec \<and> NewCodec maxRead c = Inr c
    \<and> mset (map unat (csWordPermutation c)) = mset [0..<unat (csRawWordCount c)]
    \<and> (\<forall>ws. length ws = unat (csRawWordCount c) \<longrightarrow>
         mset (map (\<lambda>p. ws ! unat p) (csWordPermutation c)) = mset (ws :: u16 list))
    \<and> (\<forall>s \<in> set (csSentinels c). length (seWords s) = unat (csRawWordCount c))
    \<and> distinct (map seWords (csSentinels c))"
proof -
  note ok = NewCodec_Inr [OF assms]
  have m: "mset (map unat (csWordPermutation c)) = mset [0..<unat (csRawWordCount c)]"
    using ok(1,7,8) exact_permutation_iff by blast
  then have "mset (map (\<lambda>p. ws ! unat p) (csWordPermutation c)) = mset ws"
    if "length ws = unat (csRawWordCount c)" for ws :: "u16 list"
    using permuted_words that by metis
  with m show ?thesis
    using ok(1) assms NewCodec_sentinels [OF assms] by blast
qed

definition example_codec :: codec_spec where
  "example_codec = \<lparr>csID = ''power'', csVersion = ''1.0.0'', csRawWordCount = 2,
     csWordPermutation = [1, 0], csIntraWordByteOrder = ByteOrderModbus,
     csRepresentation = RepresentationSignedInteger,
     csScale = \<lparr>scSource = ScaleConstant, scApplicationOrder = ScaleAfterRepresentation,
       scNumerator = 1, scDenominator = 10, scDependencyID = []\<rparr>,
     csSentinels = [\<lparr>seKind = SentinelInvalid, seWords = [0x8000, 0]\<rparr>],
     csString = \<lparr>ssApplicability = StringNotApplicable, ssWordPacking = [], ssByteOrder = [],
       ssPaddingByte = None, ssTermination = [], ssRetainedRawLength = 0,
       ssDocumentaryCharacterRepertoire = []\<rparr>,
     csOutputProfileType = ''watt'', csValidityBehavior = ValidityPreserveRaw\<rparr>"

lemma version_1_0_0: "version_valid ''1.0.0''"
  by (simp add: version_valid_def versionPattern_def numeral_part_def is_digit_def byte_at_def
      contract_consts)

lemma example_codec_accepted: "NewCodec 125 example_codec = Inr example_codec"
proof -
  have p: "preflightAggregate [codec_agg example_codec] = None"
    unfolding preflightAggregate_def preflight_from_iff
    by (simp add: codec_agg_def example_codec_def
        string_agg_def version_agg_def words_agg_def scale_agg_def sentinel_agg_def
        string_spec_agg_def agg_shape.simps skipped_field_def codec_consts contract_consts)
  have i: "validIdentity ''power''"
    by (simp add: validIdentity_def identity_char_def is_digit_def byte_at_def contract_consts)
  have b: "preflightCodecSpec 125 example_codec = None"
    using p by (simp add: preflightCodecSpec_def validateBoundedString_def utf8_valid_ascii
        byte_at_def contract_consts) (simp add: example_codec_def byte_at_def)
  show ?thesis
    using b i version_1_0_0
    by (simp add: NewCodec_def example_codec_def check_representation_def validateScale_def
        emptyStringDimensions_def codec_consts sprint_words_def Let_def word_le_nat_alt)
qed

theorem codec_permutes_words_witness:
  "mset (map (\<lambda>p. [10, 20] ! unat p) (csWordPermutation example_codec)) = mset [10, 20 :: u16]"
  using codec_permutes_words [OF example_codec_accepted] by (simp add: example_codec_def)

end
