(* ===== verification/Profile_Dependency.thy ===== *)
theory Profile_Dependency
  imports Codec
begin

text \<open>
  Register dependencies (the first half of \<^verbatim>\<open>profile.go\<close>): the normalization of a documentary
  address to the zero-based offset of a read, one dependency, the ordered set of a profile's
  dependencies with its content-bound identity, the coverage test for a single wire response and
  the cycle test on scale dependencies. The modbus library's constants, \<^verbatim>\<open>url.Parse\<close> and
  \<^verbatim>\<open>sha256.Sum256\<close> are the fields of the record \<open>platform\<close>; no lemma assumes anything about
  the last two.
\<close>

record url =
  urScheme :: string
  urHost :: string
  urHostname :: string
  urUser :: bool
  urFragment :: string
  urPath :: string

record platform =
  plMaxReadRegisters :: u16
  plHoldingRegisters :: string
  plInputRegisters :: string
  plParseURL :: "string \<Rightarrow> url option"
  plSha256 :: "string \<Rightarrow> u8 list"

datatype profile_error =
    ProfileContract contract_error
  | ProfileCodec codec_error
  | NormalizationIncomplete
  | NormalizationLocator
  | OneBasedZero
  | HoldingReferenceRange
  | InputReferenceRange
  | BasisDisagrees
  | OffsetInconsistent
  | DependencyWidth
  | DependencyCollection
  | DependencyIncomplete
  | DependencyTable
  | DependencyRange
  | SetIncomplete
  | SetInvalidEntry
  | SetDuplicate
  | SetEncoding
  | SingleWireEmpty
  | SingleWireTables
  | SingleWireUnion
  | SingleWireIntersection

section \<open>Address normalization\<close>

named_theorems profile_consts \<open>the named string constants of profile declarations\<close>

definition AddressBaseZeroBased :: string where
  [profile_consts]: "AddressBaseZeroBased = ''zero_based_pdu''"
definition AddressBaseOneBased :: string where
  [profile_consts]: "AddressBaseOneBased = ''one_based_register''"
definition AddressBaseHoldingReference :: string where
  [profile_consts]: "AddressBaseHoldingReference = ''holding_reference_4xxxx''"
definition AddressBaseInputReference :: string where
  [profile_consts]: "AddressBaseInputReference = ''input_reference_3xxxx''"

definition TransformIdentity :: string where [profile_consts]: "TransformIdentity = ''identity''"
definition TransformSubtractOne :: string where
  [profile_consts]: "TransformSubtractOne = ''subtract_one''"
definition TransformHoldingToPDU :: string where
  [profile_consts]: "TransformHoldingToPDU = ''subtract_40001''"
definition TransformInputToPDU :: string where
  [profile_consts]: "TransformInputToPDU = ''subtract_30001''"

record normalization_spec =
  nsVersion :: version
  nsSourceLocator :: string
  nsDocumentaryNotation :: string
  nsDocumentaryBase :: string
  nsAddressSpaceLabel :: string
  nsDocumentaryAddress :: u32
  nsTransformation :: string
  nsResolvedPDUOffset :: u16

type_synonym normalization = normalization_spec

text \<open>The loops that validate a table of named string fields.\<close>

fun validateFields :: "bool \<Rightarrow> string list \<Rightarrow> contract_error outcome" where
  "validateFields needed [] = None"
| "validateFields needed (v # vs) =
     (case validateBoundedString v needed of
        Some e \<Rightarrow> Some e
      | None \<Rightarrow> validateFields needed vs)"

definition preflightAddressNormalizationSpec :: "normalization_spec \<Rightarrow> contract_error outcome" where
  "preflightAddressNormalizationSpec spec =
     validateFields True [nsSourceLocator spec, nsDocumentaryNotation spec, nsAddressSpaceLabel spec]"

definition evidencePrefix :: string where
  [profile_consts]: "evidencePrefix = ''urn:helianthus:evidence:''"

definition validNormalizationSourceLocator :: "platform \<Rightarrow> string \<Rightarrow> bool" where
  "validNormalizationSourceLocator pl locator \<longleftrightarrow>
     (if take (length evidencePrefix) locator = evidencePrefix then
        (let suffix = drop (length evidencePrefix) locator in suffix \<noteq> [] \<and> validIdentity suffix)
      else (case plParseURL pl locator of
          None \<Rightarrow> False
        | Some u \<Rightarrow> urScheme u = ''https'' \<and> urHost u \<noteq> [] \<and> urHostname u \<noteq> [] \<and> \<not> urUser u
            \<and> urFragment u = [] \<and> urPath u \<noteq> [] \<and> urPath u \<noteq> ''/''))"

definition resolve_address :: "normalization_spec \<Rightarrow> profile_error + u32" where
  "resolve_address spec =
     (let address = nsDocumentaryAddress spec; base = nsDocumentaryBase spec;
          transformation = nsTransformation spec in
      if base = AddressBaseZeroBased \<and> transformation = TransformIdentity then Inr address
      else if base = AddressBaseOneBased \<and> transformation = TransformSubtractOne then
        (if address = 0 then Inl OneBasedZero else Inr (address - 1))
      else if base = AddressBaseHoldingReference \<and> transformation = TransformHoldingToPDU then
        (if address < 40001 \<or> address > 49999 then Inl HoldingReferenceRange
         else Inr (address - 40001))
      else if base = AddressBaseInputReference \<and> transformation = TransformInputToPDU then
        (if address < 30001 \<or> address > 39999 then Inl InputReferenceRange
         else Inr (address - 30001))
      else Inl BasisDisagrees)"

definition NewAddressNormalization ::
    "platform \<Rightarrow> normalization_spec \<Rightarrow> profile_error + normalization" where
  "NewAddressNormalization pl spec =
     (case preflightAddressNormalizationSpec spec of
        Some e \<Rightarrow> Inl (ProfileContract e)
      | None \<Rightarrow>
        (if \<not> version_valid (nsVersion spec) \<or> nsSourceLocator spec = []
           \<or> nsDocumentaryNotation spec = [] \<or> nsAddressSpaceLabel spec = []
         then Inl NormalizationIncomplete
         else if \<not> validNormalizationSourceLocator pl (nsSourceLocator spec)
         then Inl NormalizationLocator
         else (case resolve_address spec of
             Inl e \<Rightarrow> Inl e
           | Inr resolved \<Rightarrow>
               if resolved > 65535 \<or> ucast resolved \<noteq> nsResolvedPDUOffset spec
               then Inl OffsetInconsistent else Inr spec)))"

section \<open>Dependencies\<close>

record dependency_spec =
  dsID :: string
  dsVersion :: version
  dsTable :: string
  dsNormalization :: normalization_spec
  dsWordCount :: u16
  dsCodecID :: string
  dsCodecVersion :: version
  dsCoherenceGroup :: string
  dsEvidenceReferences :: "string list"
  dsApplicabilityRefs :: "string list"

text \<open>\<^verbatim>\<open>Dependency\<close> holds the declaration and the normalization record of the same declaration.\<close>

record dependency =
  dpSpec :: dependency_spec
  dpNormalization :: normalization

definition strings_agg :: "string list \<Rightarrow> agg" where
  "strings_agg vs = AggSequence (map string_agg vs)"

definition normalization_agg :: "normalization_spec \<Rightarrow> agg" where
  "normalization_agg s = AggStruct False
     [(''Version'', version_agg (nsVersion s)), (''SourceLocator'', string_agg (nsSourceLocator s)),
      (''DocumentaryNotation'', string_agg (nsDocumentaryNotation s)),
      (''DocumentaryBase'', string_agg (nsDocumentaryBase s)),
      (''AddressSpaceLabel'', string_agg (nsAddressSpaceLabel s)),
      (''DocumentaryAddress'', AggInteger),
      (''Transformation'', string_agg (nsTransformation s)),
      (''ResolvedPDUOffset'', AggInteger)]"

definition dependency_spec_agg :: "dependency_spec \<Rightarrow> agg" where
  "dependency_spec_agg s = AggStruct False
     [(''ID'', string_agg (dsID s)), (''Version'', version_agg (dsVersion s)),
      (''Table'', string_agg (dsTable s)),
      (''Normalization'', normalization_agg (dsNormalization s)),
      (''WordCount'', AggInteger), (''CodecID'', string_agg (dsCodecID s)),
      (''CodecVersion'', version_agg (dsCodecVersion s)),
      (''CoherenceGroup'', string_agg (dsCoherenceGroup s)),
      (''EvidenceReferences'', strings_agg (dsEvidenceReferences s)),
      (''ApplicabilityRefs'', strings_agg (dsApplicabilityRefs s))]"

definition dependency_agg :: "dependency \<Rightarrow> agg" where
  "dependency_agg d = AggStruct False
     [(''spec'', dependency_spec_agg (dpSpec d)),
      (''normalization'', AggStruct False [(''spec'', normalization_agg (dpNormalization d))])]"

definition preflightDependencySpec :: "platform \<Rightarrow> dependency_spec \<Rightarrow> profile_error outcome" where
  "preflightDependencySpec pl spec =
     (if dsWordCount spec = 0 \<or> dsWordCount spec > plMaxReadRegisters pl then Some DependencyWidth
      else if length (dsEvidenceReferences spec) > MaxProfileEvidenceReferences
        \<or> length (dsApplicabilityRefs spec) > MaxProfileEvidenceReferences
      then Some DependencyCollection
      else (case preflightAggregate [dependency_spec_agg spec] of
        Some e \<Rightarrow> Some (ProfileContract e)
      | None \<Rightarrow>
      (case preflightAddressNormalizationSpec (dsNormalization spec) of
        Some e \<Rightarrow> Some (ProfileContract e)
      | None \<Rightarrow>
      (case validateFields True [dsID spec, dsCodecID spec, dsCoherenceGroup spec] of
        Some e \<Rightarrow> Some (ProfileContract e)
      | None \<Rightarrow>
      (case validateBoundedStrings (dsEvidenceReferences spec) MaxProfileEvidenceReferences True of
        Some e \<Rightarrow> Some (ProfileContract e)
      | None \<Rightarrow> map_option ProfileContract
          (validateBoundedStrings (dsApplicabilityRefs spec) MaxProfileEvidenceReferences True))))))"

text \<open>
  The two slices of a dependency are compared with \<^verbatim>\<open>nil\<close> nowhere: a missing slice and an empty
  one fail \<^verbatim>\<open>stringsComplete\<close> alike, so both are the empty list.
\<close>

definition NewDependency :: "platform \<Rightarrow> dependency_spec \<Rightarrow> profile_error + dependency" where
  "NewDependency pl spec =
     (case preflightDependencySpec pl spec of
        Some e \<Rightarrow> Inl e
      | None \<Rightarrow> (case NewAddressNormalization pl (dsNormalization spec) of
          Inl e \<Rightarrow> Inl e
        | Inr n \<Rightarrow>
          (if \<not> validIdentity (dsID spec) \<or> \<not> version_valid (dsVersion spec)
             \<or> (dsTable spec \<noteq> plHoldingRegisters pl \<and> dsTable spec \<noteq> plInputRegisters pl)
             \<or> dsWordCount spec = 0 \<or> dsWordCount spec > plMaxReadRegisters pl
             \<or> \<not> validIdentity (dsCodecID spec) \<or> \<not> version_valid (dsCodecVersion spec)
             \<or> \<not> validIdentity (dsCoherenceGroup spec)
             \<or> \<not> stringsComplete (Some (dsEvidenceReferences spec))
             \<or> \<not> stringsComplete (Some (dsApplicabilityRefs spec))
           then Inl DependencyIncomplete
           else if nsAddressSpaceLabel (dsNormalization spec) \<noteq> dsTable spec
             \<or> (dsTable spec = plHoldingRegisters pl
                \<and> nsDocumentaryBase (dsNormalization spec) = AddressBaseInputReference)
             \<or> (dsTable spec = plInputRegisters pl
                \<and> nsDocumentaryBase (dsNormalization spec) = AddressBaseHoldingReference)
           then Inl DependencyTable
           else if (ucast (nsResolvedPDUOffset n) :: u32) + ucast (dsWordCount spec) > 65536
           then Inl DependencyRange
           else Inr \<lparr>dpSpec = spec, dpNormalization = n\<rparr>)))"

definition dependencySemanticsChanged :: "dependency_spec \<Rightarrow> dependency_spec \<Rightarrow> bool" where
  "dependencySemanticsChanged first second \<longleftrightarrow>
     first\<lparr>dsVersion := []\<rparr> \<noteq> second\<lparr>dsVersion := []\<rparr>"

section \<open>JSON text\<close>

text \<open>
  \<^verbatim>\<open>encoding/json\<close> as \<^verbatim>\<open>json.Encoder\<close> uses it here: strings are quoted with the characters
  below 0x20, the quote, the backslash, and (HTML escaping being on) \<^verbatim>\<open><\<close>, \<^verbatim>\<open>>\<close>, \<^verbatim>\<open>&\<close>
  escaped, and the two Unicode line separators written as escapes. The strings that are encoded
  were validated as UTF-8.
\<close>

definition hex_digit :: "nat \<Rightarrow> char" where
  "hex_digit d = (if d < 10 then digit_char d else char_of (87 + d))"

definition json_escape_byte :: "char \<Rightarrow> string" where
  "json_escape_byte c =
     (let b = byte_at c in
      if b = 34 then [char_of (92 :: nat), c]
      else if b = 92 then [c, c]
      else if b = 8 then [char_of (92 :: nat), CHR ''b'']
      else if b = 12 then [char_of (92 :: nat), CHR ''f'']
      else if b = 10 then [char_of (92 :: nat), CHR ''n'']
      else if b = 13 then [char_of (92 :: nat), CHR ''r'']
      else if b = 9 then [char_of (92 :: nat), CHR ''t'']
      else if b < 32 \<or> b = 60 \<or> b = 62 \<or> b = 38
      then char_of (92 :: nat) # ''u00'' @ [hex_digit (b div 16), hex_digit (b mod 16)]
      else [c])"

fun json_escape :: "string \<Rightarrow> string" where
  "json_escape [] = []"
| "json_escape (c # s) =
     (case s of
        d # e # t \<Rightarrow>
          (if byte_at c = 226 \<and> byte_at d = 128 \<and> (byte_at e = 168 \<or> byte_at e = 169)
           then char_of (92 :: nat) # ''u202'' @ [hex_digit (byte_at e mod 16)] @ json_escape t
           else json_escape_byte c @ json_escape s)
      | _ \<Rightarrow> json_escape_byte c @ json_escape s)"

definition json_text :: "string \<Rightarrow> string" where
  "json_text s = CHR 0x22 # json_escape s @ [CHR 0x22]"

definition json_member :: "string \<Rightarrow> string \<Rightarrow> string" where
  "json_member name val = json_text name @ CHR '':'' # val"

definition json_object :: "(string \<times> string) list \<Rightarrow> string" where
  "json_object fs = CHR ''{'' # join_on CHR '','' (map (\<lambda>f. json_member (fst f) (snd f)) fs) @ ''}''"

definition json_array :: "string list \<Rightarrow> string" where
  "json_array vs = CHR ''['' # join_on CHR '','' vs @ '']''"

definition normalization_json :: "normalization_spec \<Rightarrow> string" where
  "normalization_json s = json_object
     [(''Version'', json_text (nsVersion s)), (''SourceLocator'', json_text (nsSourceLocator s)),
      (''DocumentaryNotation'', json_text (nsDocumentaryNotation s)),
      (''DocumentaryBase'', json_text (nsDocumentaryBase s)),
      (''AddressSpaceLabel'', json_text (nsAddressSpaceLabel s)),
      (''DocumentaryAddress'', dec (unat (nsDocumentaryAddress s))),
      (''Transformation'', json_text (nsTransformation s)),
      (''ResolvedPDUOffset'', dec (unat (nsResolvedPDUOffset s)))]"

definition dependency_json :: "dependency_spec \<Rightarrow> string" where
  "dependency_json s = json_object
     [(''ID'', json_text (dsID s)), (''Version'', json_text (dsVersion s)),
      (''Table'', json_text (dsTable s)),
      (''Normalization'', normalization_json (dsNormalization s)),
      (''WordCount'', dec (unat (dsWordCount s))), (''CodecID'', json_text (dsCodecID s)),
      (''CodecVersion'', json_text (dsCodecVersion s)),
      (''CoherenceGroup'', json_text (dsCoherenceGroup s)),
      (''EvidenceReferences'', json_array (map json_text (dsEvidenceReferences s))),
      (''ApplicabilityRefs'', json_array (map json_text (dsApplicabilityRefs s)))]"

section \<open>Dependency sets\<close>

record dependency_set =
  stID :: string
  stVersion :: version
  stDependencies :: "dependency list"

text \<open>The value that \<^verbatim>\<open>NewDependencySet\<close> encodes, as the budget walk and as text.\<close>

definition set_schema :: string where
  [profile_consts]: "set_schema = ''helianthus.modbusreg.dependency-set/v1''"

definition identity_agg :: "version \<Rightarrow> dependency_spec list \<Rightarrow> agg" where
  "identity_agg v specs = AggStruct False
     [(''Schema'', string_agg set_schema), (''Version'', version_agg v),
      (''Dependencies'', AggSequence (map dependency_spec_agg specs))]"

definition identity_json :: "version \<Rightarrow> dependency_spec list \<Rightarrow> string" where
  "identity_json v specs = json_object
     [(''schema'', json_text set_schema), (''version'', json_text v),
      (''dependencies'', json_array (map dependency_json specs))]"

text \<open>
  \<^verbatim>\<open>marshalBounded\<close>: the walk, then the encoder, which writes the text and a newline into a
  buffer of at most \<^verbatim>\<open>MaxSerializedContractBytes\<close>.
\<close>

definition marshal_bounded :: "agg \<Rightarrow> string \<Rightarrow> string option" where
  "marshal_bounded walked text =
     (if preflightAggregate [walked] \<noteq> None then None
      else if length text + 1 > MaxSerializedContractBytes then None
      else Some text)"

definition hex_bytes :: "u8 list \<Rightarrow> string" where
  "hex_bytes bs = concat (map (\<lambda>b. [hex_digit (unat b div 16), hex_digit (unat b mod 16)]) bs)"

fun copy_dependencies :: "platform \<Rightarrow> string list \<Rightarrow> dependency list
    \<Rightarrow> profile_error + dependency list" where
  "copy_dependencies pl seen [] = Inr []"
| "copy_dependencies pl seen (d # ds) =
     (if \<not> validIdentity (dsID (dpSpec d)) \<or> \<not> version_valid (dsVersion (dpSpec d))
      then Inl SetInvalidEntry
      else if dsID (dpSpec d) \<in> set seen then Inl SetDuplicate
      else (case NewDependency pl (dpSpec d) of
          Inl e \<Rightarrow> Inl e
        | Inr c \<Rightarrow> (case copy_dependencies pl (dsID (dpSpec d) # seen) ds of
              Inl e \<Rightarrow> Inl e
            | Inr cs \<Rightarrow> Inr (c # cs))))"

definition NewDependencySet :: "platform \<Rightarrow> version \<Rightarrow> dependency list
    \<Rightarrow> profile_error + dependency_set" where
  "NewDependencySet pl v ds =
     (if \<not> version_valid v \<or> ds = [] \<or> length ds > MaxProfileDependencies then Inl SetIncomplete
      else (case preflightAggregate [version_agg v, AggSequence (map dependency_agg ds)] of
          Some e \<Rightarrow> Inl (ProfileContract e)
        | None \<Rightarrow> (case copy_dependencies pl [] ds of
            Inl e \<Rightarrow> Inl e
          | Inr copies \<Rightarrow>
              (case marshal_bounded (identity_agg v (map dpSpec ds)) (identity_json v (map dpSpec ds)) of
                 None \<Rightarrow> Inl SetEncoding
               | Some encoded \<Rightarrow> Inr \<lparr>stID = ''sha256:'' @ hex_bytes (plSha256 pl encoded),
                   stVersion = v, stDependencies = copies\<rparr>))))"

text \<open>The zero values of Go's structs.\<close>

definition zero_normalization :: normalization_spec where
  "zero_normalization = \<lparr>nsVersion = [], nsSourceLocator = [], nsDocumentaryNotation = [],
     nsDocumentaryBase = [], nsAddressSpaceLabel = [], nsDocumentaryAddress = 0,
     nsTransformation = [], nsResolvedPDUOffset = 0\<rparr>"

definition zero_dependency :: dependency where
  "zero_dependency = \<lparr>dpSpec = \<lparr>dsID = [], dsVersion = [], dsTable = [],
     dsNormalization = zero_normalization, dsWordCount = 0, dsCodecID = [], dsCodecVersion = [],
     dsCoherenceGroup = [], dsEvidenceReferences = [], dsApplicabilityRefs = []\<rparr>,
     dpNormalization = zero_normalization\<rparr>"

definition zero_set :: dependency_set where
  "zero_set = \<lparr>stID = [], stVersion = [], stDependencies = []\<rparr>"

text \<open>\<^verbatim>\<open>Dependencies\<close> rebuilds every entry and ignores the error.\<close>

definition set_dependencies :: "platform \<Rightarrow> dependency_set \<Rightarrow> dependency list" where
  "set_dependencies pl s =
     map (\<lambda>d. case NewDependency pl (dpSpec d) of Inl _ \<Rightarrow> zero_dependency | Inr c \<Rightarrow> c)
       (stDependencies s)"

section \<open>One wire response\<close>

fun merge_ranges :: "string \<Rightarrow> u32 \<times> u32 \<times> u32 \<times> u32 \<Rightarrow> dependency list
    \<Rightarrow> profile_error + (u32 \<times> u32 \<times> u32 \<times> u32)" where
  "merge_ranges table bounds [] = Inr bounds"
| "merge_ranges table (minOffset, maxEnd, maxStart, minEnd) (d # ds) =
     (if dsTable (dpSpec d) \<noteq> table then Inl SingleWireTables
      else
        (let start = ucast (nsResolvedPDUOffset (dpNormalization d)) :: u32;
             finish = start + ucast (dsWordCount (dpSpec d)) in
         merge_ranges table
           ((if start < minOffset then start else minOffset),
            (if finish > maxEnd then finish else maxEnd),
            (if start > maxStart then start else maxStart),
            (if finish < minEnd then finish else minEnd)) ds))"

definition validateSingleWireDependencies ::
    "platform \<Rightarrow> dependency list \<Rightarrow> profile_error outcome" where
  "validateSingleWireDependencies pl ds =
     (case ds of
        [] \<Rightarrow> Some SingleWireEmpty
      | d # rest \<Rightarrow>
          (let start = ucast (nsResolvedPDUOffset (dpNormalization d)) :: u32;
               finish = start + ucast (dsWordCount (dpSpec d)) in
           case merge_ranges (dsTable (dpSpec d)) (start, finish, start, finish) rest of
             Inl e \<Rightarrow> Some e
           | Inr (minOffset, maxEnd, maxStart, minEnd) \<Rightarrow>
               if maxEnd - minOffset > ucast (plMaxReadRegisters pl) then Some SingleWireUnion
               else if length ds > 1 \<and> maxStart \<ge> minEnd then Some SingleWireIntersection
               else None))"

section \<open>Cycles among scale dependencies\<close>

text \<open>
  The depth-first search over the map of scale edges. A node has at most one edge, so a search
  is a walk; it marks a node as visiting on the way down and as visited on the way back, unless
  a cycle was found. The loop over the map runs in an order that Go leaves open: it is the
  argument \<open>order\<close>. \<open>None\<close> is a walk that does not return.
\<close>

datatype visit_state = Visiting | Visited

partial_function (option) visit :: "(string \<Rightarrow> string option) \<Rightarrow> string
    \<Rightarrow> (string \<Rightarrow> visit_state option) \<Rightarrow> (bool \<times> (string \<Rightarrow> visit_state option)) option" where
  "visit edges n states =
     (case states n of
        Some Visiting \<Rightarrow> Some (True, states)
      | Some Visited \<Rightarrow> Some (False, states)
      | None \<Rightarrow>
          (let marked = states(n \<mapsto> Visiting) in
           case edges n of
             None \<Rightarrow> Some (False, marked(n \<mapsto> Visited))
           | Some m \<Rightarrow> Option.bind (visit edges m marked) (\<lambda>(cycle, after).
               if cycle then Some (True, after) else Some (False, after(n \<mapsto> Visited)))))"

fun visit_all :: "(string \<Rightarrow> string option) \<Rightarrow> string list \<Rightarrow> (string \<Rightarrow> visit_state option)
    \<Rightarrow> bool option" where
  "visit_all edges [] states = Some False"
| "visit_all edges (n # ns) states =
     Option.bind (visit edges n states) (\<lambda>(cycle, after).
       if cycle then Some True else visit_all edges ns after)"

definition hasDependencyCycle :: "(string, string) gomap \<Rightarrow> string list \<Rightarrow> bool option" where
  "hasDependencyCycle edges order = visit_all (gm_get edges) order (\<lambda>_. None)"

section \<open>What acceptance means\<close>

text \<open>The number a documentary base counts from.\<close>

definition base_number :: "string \<Rightarrow> nat" where
  "base_number base =
     (if base = AddressBaseZeroBased then 0 else if base = AddressBaseOneBased then 1
      else if base = AddressBaseHoldingReference then 40001 else 30001)"

lemma unat_ucast_u32_u16_small:
  "x \<le> 65535 \<Longrightarrow> unat (ucast (x :: u32) :: u16) = unat x"
  by (simp add: unsigned_ucast_eq take_bit_nat_eq_self_iff word_le_nat_alt)

lemma resolve_address_Inr:
  assumes "resolve_address s = Inr resolved"
  shows "unat (nsDocumentaryAddress s) = unat resolved + base_number (nsDocumentaryBase s)"
    and "nsDocumentaryBase s \<in> {AddressBaseZeroBased, AddressBaseOneBased,
           AddressBaseHoldingReference, AddressBaseInputReference}"
  using assms
  by (auto simp: resolve_address_def base_number_def Let_def profile_consts word_less_nat_alt
      unat_sub word_le_nat_alt unat_gt_0 unat_minus_one split: if_splits)

lemma NewAddressNormalization_Inr:
  assumes "NewAddressNormalization pl s = Inr n"
  shows "n = s" and "version_valid (nsVersion s)"
    and "\<exists>resolved. resolve_address s = Inr resolved \<and> resolved \<le> 65535
           \<and> ucast resolved = nsResolvedPDUOffset s"
  using assms by (auto simp: NewAddressNormalization_def split: option.splits sum.splits if_splits)

lemma normalization_arithmetic:
  assumes "NewAddressNormalization pl s = Inr n"
  shows "unat (nsDocumentaryAddress n) = unat (nsResolvedPDUOffset n) + base_number (nsDocumentaryBase n)"
proof -
  obtain resolved where r: "resolve_address s = Inr resolved" "resolved \<le> 65535"
    "ucast resolved = nsResolvedPDUOffset s"
    using NewAddressNormalization_Inr(3) [OF assms] by blast
  then have "unat (nsResolvedPDUOffset s) = unat resolved"
    by (metis unat_ucast_u32_u16_small)
  with r resolve_address_Inr(1) [OF r(1)] NewAddressNormalization_Inr(1) [OF assms]
  show ?thesis by simp
qed

lemma NewDependency_Inr:
  assumes "NewDependency pl s = Inr d"
  shows "d = \<lparr>dpSpec = s, dpNormalization = dsNormalization s\<rparr>"
    and "NewAddressNormalization pl (dsNormalization s) = Inr (dsNormalization s)"
    and "validIdentity (dsID s)" and "version_valid (dsVersion s)"
    and "dsTable s = plHoldingRegisters pl \<or> dsTable s = plInputRegisters pl"
    and "0 < dsWordCount s" and "dsWordCount s \<le> plMaxReadRegisters pl"
    and "stringsComplete (Some (dsEvidenceReferences s))"
    and "nsAddressSpaceLabel (dsNormalization s) = dsTable s"
    and "dsTable s = plHoldingRegisters pl \<longrightarrow>
           nsDocumentaryBase (dsNormalization s) \<noteq> AddressBaseInputReference"
    and "dsTable s = plInputRegisters pl \<longrightarrow>
           nsDocumentaryBase (dsNormalization s) \<noteq> AddressBaseHoldingReference"
    and "(ucast (nsResolvedPDUOffset (dsNormalization s)) :: u32) + ucast (dsWordCount s) \<le> 65536"
proof -
  obtain n where n: "NewAddressNormalization pl (dsNormalization s) = Inr n"
    using assms by (auto simp: NewDependency_def split: option.splits sum.splits)
  then have [simp]: "n = dsNormalization s" by (rule NewAddressNormalization_Inr(1))
  show "NewAddressNormalization pl (dsNormalization s) = Inr (dsNormalization s)" using n by simp
  show "d = \<lparr>dpSpec = s, dpNormalization = dsNormalization s\<rparr>" "validIdentity (dsID s)"
    "version_valid (dsVersion s)"
    "dsTable s = plHoldingRegisters pl \<or> dsTable s = plInputRegisters pl"
    "0 < dsWordCount s" "dsWordCount s \<le> plMaxReadRegisters pl"
    "stringsComplete (Some (dsEvidenceReferences s))"
    "nsAddressSpaceLabel (dsNormalization s) = dsTable s"
    "dsTable s = plHoldingRegisters pl \<longrightarrow>
       nsDocumentaryBase (dsNormalization s) \<noteq> AddressBaseInputReference"
    "dsTable s = plInputRegisters pl \<longrightarrow>
       nsDocumentaryBase (dsNormalization s) \<noteq> AddressBaseHoldingReference"
    "(ucast (nsResolvedPDUOffset (dsNormalization s)) :: u32) + ucast (dsWordCount s) \<le> 65536"
    using assms n by (auto simp: NewDependency_def word_gt_0 not_less split: option.splits if_splits)
qed

text \<open>The registers of a dependency, as numbers.\<close>

definition dep_start :: "dependency \<Rightarrow> nat" where
  "dep_start d = unat (nsResolvedPDUOffset (dpNormalization d))"

definition dep_stop :: "dependency \<Rightarrow> nat" where
  "dep_stop d = dep_start d + unat (dsWordCount (dpSpec d))"

definition accepted_dependency :: "platform \<Rightarrow> dependency \<Rightarrow> bool" where
  "accepted_dependency pl d \<longleftrightarrow> NewDependency pl (dpSpec d) = Inr d"

lemma NewDependency_again: "NewDependency pl s = Inr d \<Longrightarrow> accepted_dependency pl d"
  using NewDependency_Inr(1) [of pl s d] by (simp add: accepted_dependency_def)

lemma dependency_range_u32:
  "unat ((ucast (a :: u16) :: u32) + ucast (b :: u16)) = unat a + unat b"
  using unat_u16_bound [of a] unat_u16_bound [of b] by (subst unat_add_u32) simp_all

lemma accepted_range:
  assumes "accepted_dependency pl d"
  shows "dep_start d < dep_stop d" and "dep_stop d \<le> 65536"
    and "dep_stop d - dep_start d \<le> unat (plMaxReadRegisters pl)"
proof -
  note ok = NewDependency_Inr [OF assms [unfolded accepted_dependency_def]]
  have n: "dpNormalization d = dsNormalization (dpSpec d)" using arg_cong [OF ok(1), of dpNormalization] by simp
  show "dep_start d < dep_stop d" using ok(6) by (simp add: dep_start_def dep_stop_def word_less_nat_alt)
  show "dep_stop d \<le> 65536"
    using ok(12) dependency_range_u32 by (simp add: dep_start_def dep_stop_def n word_le_nat_alt)
  show "dep_stop d - dep_start d \<le> unat (plMaxReadRegisters pl)"
    using ok(7) by (simp add: dep_start_def dep_stop_def word_le_nat_alt)
qed

section \<open>Sets\<close>

lemma copy_dependencies_step:
  "copy_dependencies pl seen (d # ds) = Inr cs \<longleftrightarrow>
     (\<exists>c cs'. cs = c # cs' \<and> NewDependency pl (dpSpec d) = Inr c
        \<and> copy_dependencies pl (dsID (dpSpec d) # seen) ds = Inr cs' \<and> dsID (dpSpec d) \<notin> set seen)"
  using NewDependency_Inr(3,4) [of pl "dpSpec d"] by (auto split: sum.splits)

lemma copy_dependencies_all:
  "copy_dependencies pl seen ds = Inr cs \<Longrightarrow>
     map dpSpec cs = map dpSpec ds \<and> list_all (accepted_dependency pl) cs
     \<and> distinct (map (\<lambda>d. dsID (dpSpec d)) ds) \<and> (\<lambda>d. dsID (dpSpec d)) ` set ds \<inter> set seen = {}"
proof (induction ds arbitrary: seen cs)
  case Nil
  then show ?case by simp
next
  case (Cons d ds)
  from Cons.prems obtain c cs' where s: "cs = c # cs'" "NewDependency pl (dpSpec d) = Inr c"
      "copy_dependencies pl (dsID (dpSpec d) # seen) ds = Inr cs'" "dsID (dpSpec d) \<notin> set seen"
    unfolding copy_dependencies_step by blast
  have "dpSpec c = dpSpec d" using NewDependency_Inr(1) [OF s(2)] by simp
  with s Cons.IH [OF s(3)] NewDependency_again [OF s(2)] show ?case by auto
qed

lemmas copy_dependencies_Inr =
  copy_dependencies_all [THEN conjunct1]
  copy_dependencies_all [THEN conjunct2, THEN conjunct1]
  copy_dependencies_all [THEN conjunct2, THEN conjunct2, THEN conjunct1]

lemma accepted_copies:
  assumes "map dpSpec cs = map dpSpec ds" and "list_all (accepted_dependency pl) cs"
  shows "copy_dependencies pl seen cs = copy_dependencies pl seen ds"
  using assms
proof (induction cs arbitrary: ds seen)
  case Nil
  then show ?case by simp
next
  case (Cons c cs)
  then obtain d ds' where ds: "ds = d # ds'" "dpSpec d = dpSpec c" "map dpSpec cs = map dpSpec ds'"
    by (cases ds) auto
  with Cons.IH [of ds'] Cons.prems(2) show ?case by (simp split: sum.split)
qed

lemma accepted_copy_same:
  assumes "list_all (accepted_dependency pl) ds" and "list_all (accepted_dependency pl) cs"
    and "map dpSpec cs = map dpSpec ds"
  shows "cs = ds"
proof (rule nth_equalityI)
  show len: "length cs = length ds" using assms(3) by (rule map_eq_imp_length_eq)
  fix i assume i: "i < length cs"
  have "accepted_dependency pl (cs ! i)" "accepted_dependency pl (ds ! i)"
    using assms(1,2) i len by (simp_all add: list_all_length)
  moreover have "dpSpec (cs ! i) = dpSpec (ds ! i)"
    using arg_cong [OF assms(3), of "\<lambda>xs. xs ! i"] i len by simp
  ultimately show "cs ! i = ds ! i" by (metis accepted_dependency_def sum.inject(2))
qed

definition accepted_set :: "platform \<Rightarrow> dependency_set \<Rightarrow> bool" where
  "accepted_set pl s \<longleftrightarrow> list_all (accepted_dependency pl) (stDependencies s)
     \<and> NewDependencySet pl (stVersion s) (stDependencies s) = Inr s"

lemma NewDependencySet_Inr:
  assumes "NewDependencySet pl v ds = Inr s"
  shows "stVersion s = v" and "version_valid v" and "ds \<noteq> []" and "length ds \<le> MaxProfileDependencies"
    and "map dpSpec (stDependencies s) = map dpSpec ds"
    and "list_all (accepted_dependency pl) (stDependencies s)"
    and "distinct (map (\<lambda>d. dsID (dpSpec d)) ds)"
    and "stID s = ''sha256:'' @ hex_bytes (plSha256 pl (identity_json v (map dpSpec ds)))"
proof -
  obtain cs where c: "copy_dependencies pl [] ds = Inr cs" "stDependencies s = cs"
    using assms by (auto simp: NewDependencySet_def split: if_splits option.splits sum.splits)
  show "map dpSpec (stDependencies s) = map dpSpec ds" "list_all (accepted_dependency pl) (stDependencies s)"
    "distinct (map (\<lambda>d. dsID (dpSpec d)) ds)"
    using copy_dependencies_Inr [OF c(1)] c(2) by simp_all
  show "stVersion s = v" "version_valid v" "ds \<noteq> []" "length ds \<le> MaxProfileDependencies"
    "stID s = ''sha256:'' @ hex_bytes (plSha256 pl (identity_json v (map dpSpec ds)))"
    using assms by (auto simp: NewDependencySet_def marshal_bounded_def
        split: if_splits option.splits sum.splits)
qed

lemma NewDependencySet_accepted:
  assumes "NewDependencySet pl v ds = Inr s" and "list_all (accepted_dependency pl) ds"
  shows "stDependencies s = ds" and "accepted_set pl s"
proof -
  note ok = NewDependencySet_Inr [OF assms(1)]
  show same: "stDependencies s = ds" using accepted_copy_same [OF assms(2) ok(6,5)] .
  show "accepted_set pl s" using assms ok(1) same by (simp add: accepted_set_def)
qed

lemma set_dependencies_accepted:
  "list_all (accepted_dependency pl) (stDependencies s) \<Longrightarrow> set_dependencies pl s = stDependencies s"
  by (auto simp: set_dependencies_def accepted_dependency_def list_all_iff intro: map_idI)

section \<open>One wire response\<close>

lemma merge_ranges_Inr:
  assumes "list_all (accepted_dependency pl) ds"
  shows "merge_ranges table (a, b, c, e) ds = Inr (a', b', c', e') \<longleftrightarrow>
    (\<forall>d \<in> set ds. dsTable (dpSpec d) = table)
    \<and> unat a' = Min (insert (unat a) (dep_start ` set ds))
    \<and> unat b' = Max (insert (unat b) (dep_stop ` set ds))
    \<and> unat c' = Max (insert (unat c) (dep_start ` set ds))
    \<and> unat e' = Min (insert (unat e) (dep_stop ` set ds))"
  using assms
proof (induction ds arbitrary: a b c e)
  case Nil
  then show ?case by (auto simp: word_unat_eq_iff)
next
  case (Cons d ds)
  let ?s = "ucast (nsResolvedPDUOffset (dpNormalization d)) :: u32"
  let ?f = "?s + ucast (dsWordCount (dpSpec d))"
  have s: "unat ?s = dep_start d" and f: "unat ?f = dep_stop d"
    by (simp_all add: dep_start_def dep_stop_def dependency_range_u32)
  have pick: "unat (if ?s < a then ?s else a) = min (dep_start d) (unat a)"
    "unat (if ?f > b then ?f else b) = max (dep_stop d) (unat b)"
    "unat (if ?s > c then ?s else c) = max (dep_start d) (unat c)"
    "unat (if ?f < e then ?f else e) = min (dep_stop d) (unat e)"
    using s f by (simp_all add: word_less_nat_alt min_def max_def)
  have mins: "Min (insert (min x y) A) = Min (insert y (insert x A))"
    "Max (insert (max x y) A) = Max (insert y (insert x A))" if "finite A" for x y :: nat and A
    by (cases "A = {}"; use that in \<open>simp add: min.assoc max.assoc min.left_commute max.left_commute
          min.commute max.commute\<close>)+
  have "merge_ranges table (a, b, c, e) (d # ds) = Inr (a', b', c', e') \<longleftrightarrow> dsTable (dpSpec d) = table
      \<and> merge_ranges table ((if ?s < a then ?s else a), (if ?f > b then ?f else b),
           (if ?s > c then ?s else c), (if ?f < e then ?f else e)) ds = Inr (a', b', c', e')"
    by (simp add: Let_def)
  moreover have "list_all (accepted_dependency pl) ds" using Cons.prems by simp
  note Cons.IH [OF this, of "if ?s < a then ?s else a" "if ?f > b then ?f else b"
      "if ?s > c then ?s else c" "if ?f < e then ?f else e", unfolded pick]
  ultimately show ?case
    by (simp only: mins finite_imageI finite_set list.set image_insert ball_simps conj_assoc) 
qed

lemma merge_ranges_total:
  "\<forall>d \<in> set ds. dsTable (dpSpec d) = table \<Longrightarrow> \<exists>r. merge_ranges table (a, b, c, e) ds = Inr r"
  by (induction ds arbitrary: a b c e) (simp_all add: Let_def)

lemma single_wire_bounds:
  assumes "finite A" and "A \<noteq> {}"
  shows "Max (g ` A) - Min (f ` A) \<le> n \<longleftrightarrow> (\<exists>a. \<forall>d \<in> A. a \<le> f d \<and> g d \<le> a + (n :: nat))"
proof
  assume l: "Max (g ` A) - Min (f ` A) \<le> n"
  have "Min (f ` A) \<le> f d \<and> g d \<le> Min (f ` A) + n" if "d \<in> A" for d
  proof -
    have "g d \<le> Max (g ` A)" and "Min (f ` A) \<le> f d" using assms that by simp_all
    with l show ?thesis by linarith
  qed
  then show "\<exists>a. \<forall>d \<in> A. a \<le> f d \<and> g d \<le> a + n" by blast
next
  assume "\<exists>a. \<forall>d \<in> A. a \<le> f d \<and> g d \<le> a + n"
  then obtain a where a: "\<forall>d \<in> A. a \<le> f d \<and> g d \<le> a + n" by blast
  have "a \<le> Min (f ` A)" and "Max (g ` A) \<le> a + n" using a assms by simp_all
  then show "Max (g ` A) - Min (f ` A) \<le> n" by linarith
qed

lemma single_wire_common:
  assumes "finite A" and "A \<noteq> {}"
  shows "Max (f ` A) < Min (g ` A) \<longleftrightarrow> (\<exists>r. \<forall>d \<in> A. f d \<le> r \<and> r < (g d :: nat))"
proof
  assume "Max (f ` A) < Min (g ` A)"
  then have "\<forall>d \<in> A. f d \<le> Max (f ` A) \<and> Max (f ` A) < g d" using assms by auto
  then show "\<exists>r. \<forall>d \<in> A. f d \<le> r \<and> r < g d" by blast
next
  assume "\<exists>r. \<forall>d \<in> A. f d \<le> r \<and> r < g d"
  then obtain r where r: "\<forall>d \<in> A. f d \<le> r \<and> r < g d" by blast
  have "Max (f ` A) \<le> r" and "r < Min (g ` A)" using r assms by simp_all
  then show "Max (f ` A) < Min (g ` A)" by linarith
qed

text \<open>The scan refuses a set exactly when no single legal read serves all of it, and some register
  is shared by all of its members.\<close>

lemma single_wire_iff:
  assumes acc: "list_all (accepted_dependency pl) ds"
  shows "validateSingleWireDependencies pl ds = None \<longleftrightarrow>
    ds \<noteq> [] \<and> (\<forall>d \<in> set ds. dsTable (dpSpec d) = dsTable (dpSpec (hd ds)))
    \<and> (\<exists>a. \<forall>d \<in> set ds. a \<le> dep_start d \<and> dep_stop d \<le> a + unat (plMaxReadRegisters pl))
    \<and> (\<exists>r. \<forall>d \<in> set ds. dep_start d \<le> r \<and> r < dep_stop d)"
proof (cases ds)
  case Nil
  then show ?thesis by (simp add: validateSingleWireDependencies_def)
next
  case (Cons d rest)
  let ?s = "ucast (nsResolvedPDUOffset (dpNormalization d)) :: u32"
  let ?f = "?s + ucast (dsWordCount (dpSpec d))"
  have s: "unat ?s = dep_start d" and f: "unat ?f = dep_stop d"
    by (simp_all add: dep_start_def dep_stop_def dependency_range_u32)
  have accr: "list_all (accepted_dependency pl) rest" using acc Cons by simp
  have sets: "dep_start ` set ds = insert (dep_start d) (dep_start ` set rest)"
    "dep_stop ` set ds = insert (dep_stop d) (dep_stop ` set rest)" using Cons by simp_all
  show ?thesis
  proof (cases "merge_ranges (dsTable (dpSpec d)) (?s, ?f, ?s, ?f) rest")
    case (Inl x)
    have "\<not> (\<forall>d' \<in> set rest. dsTable (dpSpec d') = dsTable (dpSpec d))"
    proof
      assume t: "\<forall>d' \<in> set rest. dsTable (dpSpec d') = dsTable (dpSpec d)"
      show False using merge_ranges_total [OF t, of ?s ?f ?s ?f] Inl by simp
    qed
    with Inl Cons show ?thesis by (auto simp: validateSingleWireDependencies_def Let_def)
  next
    case (Inr r)
    obtain a' b' c' e' where r: "r = (a', b', c', e')" by (cases r)
    note m = merge_ranges_Inr [OF accr, THEN iffD1, OF Inr [unfolded r]]
    have n: "unat a' = Min (dep_start ` set ds)" "unat b' = Max (dep_stop ` set ds)"
      "unat c' = Max (dep_start ` set ds)" "unat e' = Min (dep_stop ` set ds)"
      using m s f sets by simp_all
    have ne: "set ds \<noteq> {}" using Cons by simp
    have le: "a' \<le> b'"
    proof -
      have "Min (dep_start ` set ds) \<le> dep_start d" using Cons by simp
      also have "\<dots> < dep_stop d" using accepted_range(1) [of pl d] acc Cons by simp
      also have "\<dots> \<le> Max (dep_stop ` set ds)" using Cons by simp
      finally show ?thesis by (simp add: n word_le_nat_alt)
    qed
    have u: "b' - a' > ucast (plMaxReadRegisters pl) \<longleftrightarrow>
        \<not> (\<exists>a. \<forall>d \<in> set ds. a \<le> dep_start d \<and> dep_stop d \<le> a + unat (plMaxReadRegisters pl))"
    proof -
      have "b' - a' > ucast (plMaxReadRegisters pl) \<longleftrightarrow>
          \<not> Max (dep_stop ` set ds) - Min (dep_start ` set ds) \<le> unat (plMaxReadRegisters pl)"
        using le by (simp add: word_less_nat_alt unat_sub n) (simp only: not_le)
      then show ?thesis
        by (simp only: single_wire_bounds [OF finite_set ne])
    qed
    have i: "length ds > 1 \<and> c' \<ge> e' \<longleftrightarrow>
        \<not> (\<exists>r. \<forall>d \<in> set ds. dep_start d \<le> r \<and> r < dep_stop d)"
    proof (cases "rest = []")
      case True
      with Cons show ?thesis using accepted_range(1) [of pl d] acc by auto
    next
      case False
      then have "length ds > 1 \<and> c' \<ge> e' \<longleftrightarrow> \<not> Max (dep_start ` set ds) < Min (dep_stop ` set ds)"
        using Cons by (simp only: word_le_nat_alt n not_less) simp
      then show ?thesis by (simp only: single_wire_common [OF finite_set ne])
    qed
    have "validateSingleWireDependencies pl ds = None \<longleftrightarrow>
        \<not> b' - a' > ucast (plMaxReadRegisters pl) \<and> \<not> (length ds > 1 \<and> c' \<ge> e')"
      using Inr r Cons by (simp add: validateSingleWireDependencies_def Let_def)
    with u i m Cons show ?thesis by auto
  qed
qed

section \<open>The search for cycles\<close>

definition edge_relation :: "('a \<Rightarrow> 'a option) \<Rightarrow> ('a \<times> 'a) set" where
  "edge_relation edges = {(x, y). edges x = Some y}"

definition visited_ok :: "(string \<Rightarrow> string option) \<Rightarrow> (string \<Rightarrow> visit_state option) \<Rightarrow> bool" where
  "visited_ok edges states \<longleftrightarrow>
     (\<forall>x. states x = Some Visited \<longrightarrow> (x, x) \<notin> (edge_relation edges)\<^sup>+
        \<and> (\<forall>y. edges x = Some y \<longrightarrow> states y = Some Visited))"

text \<open>What a returning walk leaves behind when it found no cycle.\<close>

definition visit_post :: "(string \<Rightarrow> string option) \<Rightarrow> string \<Rightarrow> (string \<Rightarrow> visit_state option)
    \<Rightarrow> bool \<times> (string \<Rightarrow> visit_state option) \<Rightarrow> bool" where
  "visit_post edges n states r \<longleftrightarrow>
     (if fst r then \<not> acyclic (edge_relation edges)
      else visited_ok edges (snd r) \<and> snd r n = Some Visited
        \<and> (\<forall>x. states x = Some Visited \<longrightarrow> snd r x = Some Visited)
        \<and> (\<forall>x. snd r x = Some Visiting \<longleftrightarrow> states x = Some Visiting))"

lemma visited_closed:
  assumes "visited_ok edges states" and "states x = Some Visited"
    and "(x, y) \<in> (edge_relation edges)\<^sup>*"
  shows "states y = Some Visited"
  using assms(3,2)
proof (induction rule: rtrancl_induct)
  case base
  then show ?case .
next
  case (step y z)
  then show ?case using assms(1) by (auto simp: visited_ok_def edge_relation_def)
qed

lemma visit_returns:
  assumes "finite (dom edges)" and "visited_ok edges states"
    and "\<forall>x. states x = Some Visiting \<longrightarrow> (x, n) \<in> (edge_relation edges)\<^sup>+"
  shows "\<exists>r. visit edges n states = Some r \<and> visit_post edges n states r"
  using assms(2,3)
proof (induction "card {x \<in> dom edges. states x = None}" arbitrary: n states rule: less_induct)
  case less
  show ?case
  proof (cases "states n")
    case (Some st)
    then show ?thesis
    proof (cases st)
      case Visiting
      with Some less.prems(2) have "\<not> acyclic (edge_relation edges)" by (auto simp: acyclic_def)
      with Some Visiting show ?thesis by (subst visit.simps) (simp add: visit_post_def)
    next
      case Visited
      with Some less.prems(1) show ?thesis by (subst visit.simps) (simp add: visit_post_def)
    qed
  next
    case None
    let ?m = "states(n \<mapsto> Visiting)"
    show ?thesis
    proof (cases "edges n")
      case no: None
      then have "(n, n) \<notin> (edge_relation edges)\<^sup>+"
        by (auto simp: edge_relation_def dest: tranclD)
      with no None less.prems(1) show ?thesis
        by (subst visit.simps) (auto simp: visit_post_def visited_ok_def)
    next
      case (Some next_node)
      have e: "(n, next_node) \<in> edge_relation edges" using Some by (simp add: edge_relation_def)
      have ok: "visited_ok edges ?m" using less.prems(1) None by (auto simp: visited_ok_def)
      have path: "\<forall>x. ?m x = Some Visiting \<longrightarrow> (x, next_node) \<in> (edge_relation edges)\<^sup>+"
        using less.prems(2) e by (auto intro: trancl.intros)
      have "{x \<in> dom edges. ?m x = None} \<subset> {x \<in> dom edges. states x = None}"
        using Some None by auto
      then have "card {x \<in> dom edges. ?m x = None} < card {x \<in> dom edges. states x = None}"
        using assms(1) by (intro psubset_card_mono) auto
      from less.hyps [OF this ok path] obtain c after where
        v: "visit edges next_node ?m = Some (c, after)" and post: "visit_post edges next_node ?m (c, after)"
        by (metis surj_pair)
      show ?thesis
      proof (cases c)
        case True
        with v post None Some show ?thesis by (subst visit.simps) (simp add: visit_post_def Let_def)
      next
        case False
        with post have p: "visited_ok edges after" "after next_node = Some Visited"
          "\<forall>x. ?m x = Some Visited \<longrightarrow> after x = Some Visited"
          "\<forall>x. after x = Some Visiting \<longleftrightarrow> ?m x = Some Visiting"
          by (simp_all add: visit_post_def)
        have an: "after n = Some Visiting" using p(4) by simp
        have "(n, n) \<notin> (edge_relation edges)\<^sup>+"
        proof
          assume "(n, n) \<in> (edge_relation edges)\<^sup>+"
          then obtain y where "(n, y) \<in> edge_relation edges" "(y, n) \<in> (edge_relation edges)\<^sup>*"
            by (blast dest: tranclD)
          then have "(next_node, n) \<in> (edge_relation edges)\<^sup>*" using Some by (simp add: edge_relation_def)
          with visited_closed [OF p(1,2)] an show False by simp
        qed
        then have "visited_ok edges (after(n \<mapsto> Visited))"
          using p(1,2) Some by (auto simp: visited_ok_def)
        moreover have "(after(n \<mapsto> Visited)) x = Some Visiting \<longleftrightarrow> states x = Some Visiting" for x
          using p(4) None by auto
        moreover have "states x = Some Visited \<Longrightarrow> after x = Some Visited" for x
          using p(3) None by (cases "x = n") auto
        ultimately show ?thesis using v None Some False
          by (subst visit.simps) (simp add: visit_post_def Let_def)
      qed
    qed
  qed
qed

lemma visit_all_returns:
  assumes "finite (dom edges)" and "visited_ok edges states" and "\<forall>x. states x \<noteq> Some Visiting"
    and "\<forall>x \<in> dom edges. x \<in> set ns \<or> states x = Some Visited"
  shows "visit_all edges ns states = Some (\<not> acyclic (edge_relation edges))"
  using assms(2-4)
proof (induction ns arbitrary: states)
  case Nil
  have "acyclic (edge_relation edges)"
    unfolding acyclic_def
  proof (intro allI notI)
    fix x assume c: "(x, x) \<in> (edge_relation edges)\<^sup>+"
    then have "x \<in> dom edges" by (auto simp: edge_relation_def dest: tranclD)
    with Nil c show False by (auto simp: visited_ok_def)
  qed
  then show ?case by simp
next
  case (Cons n ns)
  have "\<forall>x. states x = Some Visiting \<longrightarrow> (x, n) \<in> (edge_relation edges)\<^sup>+"
    using Cons.prems(2) by simp
  from visit_returns [OF assms(1) Cons.prems(1) this] obtain c after where
    v: "visit edges n states = Some (c, after)" and post: "visit_post edges n states (c, after)"
    by (metis surj_pair)
  show ?case
  proof (cases c)
    case True
    with v post show ?thesis by (simp add: visit_post_def)
  next
    case False
    with post have p: "visited_ok edges after" "after n = Some Visited"
      "\<forall>x. states x = Some Visited \<longrightarrow> after x = Some Visited" "\<forall>x. after x \<noteq> Some Visiting"
      using Cons.prems(2) by (simp_all add: visit_post_def)
    have "\<forall>x \<in> dom edges. x \<in> set ns \<or> after x = Some Visited"
      using Cons.prems(3) p(2,3) by auto
    with Cons.IH [OF p(1,4)] v False show ?thesis by simp
  qed
qed

lemma cycle_returns:
  assumes "set order = fst ` set edges"
  shows "hasDependencyCycle edges order = Some (\<not> acyclic {(x, y). gm_get edges x = Some y})"
proof -
  have d: "dom (gm_get edges) = set order"
    using assms by (simp add: gm_get_def [abs_def] dom_map_of_conv_image_fst)
  then have f: "finite (dom (gm_get edges))" by simp
  show ?thesis
    using visit_all_returns [OF f, of "\<lambda>_. None" order] d
    by (simp add: hasDependencyCycle_def visited_ok_def edge_relation_def)
qed

section \<open>Properties\<close>

text \<open>An accepted dependency names exactly the registers its documentation names: the documentary
  address is the offset of the read plus the number its basis counts from, the basis belongs to
  the table, and the read is at least one register, at most the library's limit, and inside the
  address space. Copying the dependency by validating it again gives the same dependency.\<close>

theorem dependency_addresses_documented_registers:
  assumes "NewDependency pl s = Inr d"
  shows "unat (nsDocumentaryAddress (dpNormalization d))
      = dep_start d + base_number (nsDocumentaryBase (dpNormalization d))
    \<and> (nsDocumentaryBase (dpNormalization d) = AddressBaseHoldingReference \<longrightarrow>
         plHoldingRegisters pl \<noteq> plInputRegisters pl \<longrightarrow> dsTable (dpSpec d) = plHoldingRegisters pl)
    \<and> (nsDocumentaryBase (dpNormalization d) = AddressBaseInputReference \<longrightarrow>
         plHoldingRegisters pl \<noteq> plInputRegisters pl \<longrightarrow> dsTable (dpSpec d) = plInputRegisters pl)
    \<and> dep_start d < dep_stop d \<and> dep_stop d \<le> 65536
    \<and> dep_stop d - dep_start d \<le> unat (plMaxReadRegisters pl)
    \<and> NewDependency pl (dpSpec d) = Inr d"
proof -
  note ok = NewDependency_Inr [OF assms]
  note again = NewDependency_again [OF assms]
  show ?thesis
    using normalization_arithmetic [OF ok(2)] ok(1,5,10,11) accepted_range [OF again] again
    by (auto simp: dep_start_def accepted_dependency_def)
qed

definition example_platform :: platform where
  "example_platform = \<lparr>plMaxReadRegisters = 125, plHoldingRegisters = ''holding'',
     plInputRegisters = ''input'', plParseURL = (\<lambda>_. None), plSha256 = (\<lambda>_. replicate 32 0)\<rparr>"

definition example_normalization :: normalization_spec where
  "example_normalization = \<lparr>nsVersion = ''1.0.0'', nsSourceLocator = ''urn:helianthus:evidence:map'',
     nsDocumentaryNotation = ''40101'', nsDocumentaryBase = AddressBaseHoldingReference,
     nsAddressSpaceLabel = ''holding'', nsDocumentaryAddress = 40101,
     nsTransformation = TransformHoldingToPDU, nsResolvedPDUOffset = 100\<rparr>"

definition example_dependency :: dependency_spec where
  "example_dependency = \<lparr>dsID = ''power'', dsVersion = ''1.0.0'', dsTable = ''holding'',
     dsNormalization = example_normalization, dsWordCount = 2, dsCodecID = ''power'',
     dsCodecVersion = ''1.0.0'', dsCoherenceGroup = ''main'', dsEvidenceReferences = [''map''],
     dsApplicabilityRefs = [''all'']\<rparr>"

lemmas example_string_simps = validateBoundedString_def validIdentity_def identity_char_def
  is_digit_def utf8_valid_ascii byte_at_def contract_consts profile_consts

lemma example_normalization_accepted:
  "NewAddressNormalization example_platform example_normalization = Inr example_normalization"
  by (simp add: NewAddressNormalization_def preflightAddressNormalizationSpec_def
      example_normalization_def version_1_0_0 validNormalizationSourceLocator_def
      resolve_address_def example_string_simps Let_def word_less_nat_alt word_le_nat_alt)

lemma example_dependency_accepted:
  "NewDependency example_platform example_dependency
     = Inr \<lparr>dpSpec = example_dependency, dpNormalization = example_normalization\<rparr>"
proof -
  have p: "preflightAggregate [dependency_spec_agg example_dependency] = None"
    unfolding preflightAggregate_def preflight_from_iff
    by (simp add: dependency_spec_agg_def example_dependency_def example_normalization_def
        normalization_agg_def string_agg_def version_agg_def strings_agg_def agg_shape.simps
        skipped_field_def contract_consts profile_consts)
  have b: "preflightDependencySpec example_platform example_dependency = None"
    using p by (simp add: preflightDependencySpec_def example_dependency_def
        preflightAddressNormalizationSpec_def example_normalization_def example_platform_def
        validateBoundedStrings_def example_string_simps word_less_nat_alt)
  show ?thesis
    using b example_normalization_accepted version_1_0_0
    by (simp add: NewDependency_def example_dependency_def example_platform_def stringsComplete_def
        stringsDeclared_def example_string_simps word_less_nat_alt example_normalization_def)
qed

theorem dependency_addresses_documented_registers_witness:
  "dep_start \<lparr>dpSpec = example_dependency, dpNormalization = example_normalization\<rparr> = 100
   \<and> unat (nsDocumentaryAddress example_normalization) = 100 + 40001"
  using dependency_addresses_documented_registers [OF example_dependency_accepted]
  by (simp add: dep_start_def example_normalization_def base_number_def profile_consts)

text \<open>The one-response test accepts a list of accepted dependencies exactly when they are on one
  table, a single read within the library's limit can cover all of them, and some register
  belongs to all of them; the four running bounds of the scan lose nothing.\<close>

theorem single_wire_is_one_read:
  assumes "list_all (\<lambda>d. NewDependency pl (dpSpec d) = Inr d) ds"
  shows "validateSingleWireDependencies pl ds = None \<longleftrightarrow>
    ds \<noteq> [] \<and> (\<forall>d \<in> set ds. dsTable (dpSpec d) = dsTable (dpSpec (hd ds)))
    \<and> (\<exists>a. \<forall>d \<in> set ds. a \<le> dep_start d \<and> dep_stop d \<le> a + unat (plMaxReadRegisters pl))
    \<and> (\<exists>r. \<forall>d \<in> set ds. dep_start d \<le> r \<and> r < dep_stop d)"
  using assms by (intro single_wire_iff) (simp add: accepted_dependency_def list_all_iff)

theorem single_wire_is_one_read_witness:
  "validateSingleWireDependencies example_platform
     [\<lparr>dpSpec = example_dependency, dpNormalization = example_normalization\<rparr>] = None"
proof -
  let ?d = "\<lparr>dpSpec = example_dependency, dpNormalization = example_normalization\<rparr>"
  have a: "list_all (\<lambda>d. NewDependency example_platform (dpSpec d) = Inr d) [?d]"
    using example_dependency_accepted by simp
  have r: "dep_start ?d = 100" "dep_stop ?d = 102"
    by (simp_all add: dep_start_def dep_stop_def example_normalization_def example_dependency_def)
  show ?thesis
    using single_wire_is_one_read [OF a] r
    by (auto simp: example_platform_def intro!: exI [of _ "100 :: nat"])
qed

text \<open>C30: the cycle search over scale dependencies returns for every map of edges and every order in
  which Go may visit it, and it answers whether the map has a cycle; the marks it leaves between
  two walks neither hide a cycle nor invent one.\<close>

theorem cycle_search_terminates:
  assumes "set order = fst ` set edges"
  shows "hasDependencyCycle edges order
    = Some (\<not> acyclic {(x, y). gm_get edges x = Some y})"
  using assms by (rule cycle_returns)

theorem cycle_search_terminates_witness:
  "hasDependencyCycle [(''a'', ''b''), (''b'', ''a''), (''c'', ''a'')] [''c'', ''a'', ''b''] = Some True"
proof -
  let ?edges = "[(''a'', ''b''), (''b'', ''a''), (''c'', ''a'')]"
  have "(''a'', ''b'') \<in> {(x, y). gm_get ?edges x = Some y}"
    and "(''b'', ''a'') \<in> {(x, y). gm_get ?edges x = Some y}" by (simp_all add: gm_get_def)
  then have "\<not> acyclic {(x, y). gm_get ?edges x = Some y}"
    unfolding acyclic_def by (blast intro: trancl.intros)
  then show ?thesis
    using cycle_search_terminates [of "[''c'', ''a'', ''b'']" ?edges] by auto
qed

end
