(* ===== verification/Profile_Descriptor.thy ===== *)
theory Profile_Descriptor
  imports Profile_Dependency
begin

text \<open>
  Profile descriptors (\<^verbatim>\<open>profile.go\<close>): the declaration of a standard family or of a vendor
  overlay, the coherence policy, the typed overlay deltas, and \<^verbatim>\<open>NewProfileDescriptor\<close>, which
  copies the declaration and validates it. Go distinguishes a missing slice from an empty one
  only for the model applicability and the known exclusions of a profile: those two are optional.
  The lemmas show that the graph of an accepted profile is closed and acyclic, and that copying
  an accepted profile gives it back.
\<close>

section \<open>Constants\<close>

definition ProfileStandardFamily :: string where
  [profile_consts]: "ProfileStandardFamily = ''standard_family''"
definition ProfileVendorOverlay :: string where
  [profile_consts]: "ProfileVendorOverlay = ''vendor_overlay''"

definition PublicationPublished :: string where [profile_consts]: "PublicationPublished = ''published''"
definition PublicationMetadataOnly :: string where
  [profile_consts]: "PublicationMetadataOnly = ''metadata_only''"

definition OverlayDeltaModelApplicability :: string where
  [profile_consts]: "OverlayDeltaModelApplicability = ''model_applicability''"
definition OverlayDeltaKnownExclusion :: string where
  [profile_consts]: "OverlayDeltaKnownExclusion = ''known_exclusion''"
definition OverlayDeltaCodec :: string where [profile_consts]: "OverlayDeltaCodec = ''codec''"
definition OverlayDeltaDependency :: string where
  [profile_consts]: "OverlayDeltaDependency = ''dependency''"
definition OverlayDeltaCoherence :: string where
  [profile_consts]: "OverlayDeltaCoherence = ''coherence''"

definition OverlayDeltaAdd :: string where [profile_consts]: "OverlayDeltaAdd = ''add''"
definition OverlayDeltaReplace :: string where [profile_consts]: "OverlayDeltaReplace = ''replace''"
definition OverlayDeltaRemove :: string where [profile_consts]: "OverlayDeltaRemove = ''remove''"

definition MaturityExperimental :: string where
  [profile_consts]: "MaturityExperimental = ''experimental''"
definition MaturityQualified :: string where [profile_consts]: "MaturityQualified = ''qualified''"

definition ProfileActive :: string where [profile_consts]: "ProfileActive = ''active''"
definition ProfileRevoked :: string where [profile_consts]: "ProfileRevoked = ''revoked''"
definition ProfileSuperseded :: string where [profile_consts]: "ProfileSuperseded = ''superseded''"

definition CoherenceSingleWireResponse :: string where
  [profile_consts]: "CoherenceSingleWireResponse = ''single_wire_response''"
definition CoherenceBoundedMultiResponse :: string where
  [profile_consts]: "CoherenceBoundedMultiResponse = ''bounded_multi_response''"

definition RetrySetNotApplicable :: string where
  [profile_consts]: "RetrySetNotApplicable = ''not_applicable''"
definition RetryWholeSet :: string where [profile_consts]: "RetryWholeSet = ''whole_set''"

definition AcquisitionOrderNotApplicable :: string where
  [profile_consts]: "AcquisitionOrderNotApplicable = ''not_applicable''"
definition AcquisitionOrderDependencyDeclaration :: string where
  [profile_consts]: "AcquisitionOrderDependencyDeclaration = ''dependency_declaration''"
definition AcquisitionOrderSourceTimeAscending :: string where
  [profile_consts]: "AcquisitionOrderSourceTimeAscending = ''source_time_ascending''"
definition AcquisitionOrderReceiptTimeAscending :: string where
  [profile_consts]: "AcquisitionOrderReceiptTimeAscending = ''receipt_time_ascending''"

definition MaxDeclaredCoherenceSkew :: int where
  [contract_consts]: "MaxDeclaredCoherenceSkew = 24 * 3600 * 1000000000"

definition MaxProfileCodecs :: nat where
  [contract_consts]: "MaxProfileCodecs = PinnedMaxCoalescedDependents"

definition runtimeContractVersionV1 :: version where "runtimeContractVersionV1 = ''1.0.0''"
definition codecContractVersionV1 :: version where "codecContractVersionV1 = ''1.0.0''"

section \<open>Declarations\<close>

record evidence_reference =
  evID :: string
  evPublicationDisposition :: string

text \<open>Skews are durations in nanoseconds.\<close>

record coherence_spec =
  cpVersion :: version
  cpMode :: string
  cpMaximumSourceSkew :: int
  cpMaximumReceiptSkew :: int
  cpRequireGenerationEquality :: bool
  cpAcquisitionOrder :: string
  cpRetrySetBehavior :: string
  cpDocumentaryConsistencyMarker :: string

record overlay_delta =
  odID :: string
  odVersion :: version
  odKind :: string
  odOperation :: string
  odTargetID :: string
  odApplicabilityValue :: string
  odCodec :: "codec_spec option"
  odDependency :: "dependency_spec option"
  odCoherence :: "coherence_spec option"
  odEvidenceReferences :: "string list"

record profile_spec =
  pfSchemaVersion :: version
  pfID :: string
  pfVersion :: version
  pfKind :: string
  pfStandardApplicability :: "string list"
  pfModelApplicability :: "string list option"
  pfVendorApplicability :: "string list"
  pfKnownExclusions :: "string list option"
  pfRuntimeContractVersion :: version
  pfDetectorVersion :: version
  pfCodecContractVersion :: version
  pfNormalizationVersion :: version
  pfCoherenceVersion :: version
  pfQualificationVersion :: version
  pfCodecs :: "codec list"
  pfDependencies :: dependency_set
  pfCoherence :: coherence_spec
  pfEvidence :: "evidence_reference list"
  pfMaturity :: string
  pfDefaultEnabled :: bool
  pfState :: string
  pfRefinesProfileID :: string
  pfRefinesProfileVersion :: version
  pfSupersededByID :: string
  pfSupersededByVersion :: version
  pfOverlayDeltas :: "overlay_delta list"

type_synonym profile = profile_spec

definition declared :: "string list option \<Rightarrow> string list" where
  "declared vs = (case vs of None \<Rightarrow> [] | Some l \<Rightarrow> l)"

datatype descriptor_error =
    PartRejected profile_error
  | CoherenceVersionMissing
  | CoherenceSingleFields
  | CoherenceMultiIncomplete
  | CoherenceModeUnknown
  | ProfileCollection
  | ProfileString contract_error
  | DescriptorIncomplete
  | StandardVendorAssumptions
  | CoherenceDisagrees
  | OverlayLacksBase
  | ProfileKindUnknown
  | ProfileInvalidCodec
  | ProfileDuplicateCodec
  | EvidenceIncomplete
  | EvidenceDuplicate
  | DeltaIdentity
  | DeltaDuplicate
  | DeltaEvidenceIncomplete
  | DeltaEvidenceAbsent
  | DeltaMalformed
  | DeltaTargetDuplicate
  | DeltaInvalid
  | DeltaPayloadMissing
  | DeltaPayloadPresent
  | DeltaPayloadEvidence
  | DeltaOperationUnknown
  | DeltaKindUnknown
  | DependencyCodecMismatch
  | DependencyNormalizationVersion
  | DependencyEvidenceAbsent
  | ScaleDependencyAbsent
  | ScaleDependencyCyclic
  | MaturityUnknown
  | ExperimentalDefaultOn
  | ActiveHasReplacement
  | RevokedHasActivation
  | SupersededLacksReplacement
  | SupersededDefaultOn
  | ProfileStateUnknown

definition zero_coherence :: coherence_spec where
  "zero_coherence = \<lparr>cpVersion = [], cpMode = [], cpMaximumSourceSkew = 0, cpMaximumReceiptSkew = 0,
     cpRequireGenerationEquality = False, cpAcquisitionOrder = [], cpRetrySetBehavior = [],
     cpDocumentaryConsistencyMarker = []\<rparr>"

definition zero_codec :: codec where
  "zero_codec = \<lparr>csID = [], csVersion = [], csRawWordCount = 0, csWordPermutation = [],
     csIntraWordByteOrder = [], csRepresentation = [],
     csScale = \<lparr>scSource = [], scApplicationOrder = [], scNumerator = 0, scDenominator = 0,
       scDependencyID = []\<rparr>, csSentinels = [],
     csString = \<lparr>ssApplicability = [], ssWordPacking = [], ssByteOrder = [], ssPaddingByte = None,
       ssTermination = [], ssRetainedRawLength = 0, ssDocumentaryCharacterRepertoire = []\<rparr>,
     csOutputProfileType = [], csValidityBehavior = []\<rparr>"

section \<open>What the byte budget sees\<close>

definition coherence_agg :: "coherence_spec \<Rightarrow> agg" where
  "coherence_agg c = AggStruct False
     [(''Version'', version_agg (cpVersion c)), (''Mode'', string_agg (cpMode c)),
      (''MaximumSourceSkew'', AggInteger), (''MaximumReceiptSkew'', AggInteger),
      (''RequireGenerationEquality'', AggBool),
      (''AcquisitionOrder'', string_agg (cpAcquisitionOrder c)),
      (''RetrySetBehavior'', string_agg (cpRetrySetBehavior c)),
      (''DocumentaryConsistencyMarker'', string_agg (cpDocumentaryConsistencyMarker c))]"

definition pointer_agg :: "('a \<Rightarrow> agg) \<Rightarrow> 'a option \<Rightarrow> agg" where
  "pointer_agg f p = (case p of None \<Rightarrow> AggNilPointer | Some v \<Rightarrow> AggPointer (f v))"

definition delta_agg :: "overlay_delta \<Rightarrow> agg" where
  "delta_agg d = AggStruct False
     [(''ID'', string_agg (odID d)), (''Version'', version_agg (odVersion d)),
      (''Kind'', string_agg (odKind d)), (''Operation'', string_agg (odOperation d)),
      (''TargetID'', string_agg (odTargetID d)),
      (''ApplicabilityValue'', string_agg (odApplicabilityValue d)),
      (''Codec'', pointer_agg codec_agg (odCodec d)),
      (''Dependency'', pointer_agg dependency_spec_agg (odDependency d)),
      (''Coherence'', pointer_agg coherence_agg (odCoherence d)),
      (''EvidenceReferences'', strings_agg (odEvidenceReferences d))]"

definition profile_agg :: "profile_spec \<Rightarrow> agg" where
  "profile_agg s = AggStruct False
     [(''SchemaVersion'', version_agg (pfSchemaVersion s)), (''ID'', string_agg (pfID s)),
      (''Version'', version_agg (pfVersion s)), (''Kind'', string_agg (pfKind s)),
      (''StandardApplicability'', strings_agg (pfStandardApplicability s)),
      (''ModelApplicability'', strings_agg (declared (pfModelApplicability s))),
      (''VendorApplicability'', strings_agg (pfVendorApplicability s)),
      (''KnownExclusions'', strings_agg (declared (pfKnownExclusions s))),
      (''RuntimeContractVersion'', version_agg (pfRuntimeContractVersion s)),
      (''DetectorVersion'', version_agg (pfDetectorVersion s)),
      (''CodecContractVersion'', version_agg (pfCodecContractVersion s)),
      (''NormalizationVersion'', version_agg (pfNormalizationVersion s)),
      (''CoherenceVersion'', version_agg (pfCoherenceVersion s)),
      (''QualificationVersion'', version_agg (pfQualificationVersion s)),
      (''Codecs'', AggSequence (map (\<lambda>c. AggStruct False [(''spec'', codec_agg c)]) (pfCodecs s))),
      (''Dependencies'', AggStruct False
         [(''id'', string_agg (stID (pfDependencies s))),
          (''version'', version_agg (stVersion (pfDependencies s))),
          (''dependencies'', AggSequence (map dependency_agg (stDependencies (pfDependencies s))))]),
      (''Coherence'', coherence_agg (pfCoherence s)),
      (''Evidence'', AggSequence (map (\<lambda>e. AggStruct False
         [(''ID'', string_agg (evID e)),
          (''PublicationDisposition'', string_agg (evPublicationDisposition e))]) (pfEvidence s))),
      (''Maturity'', string_agg (pfMaturity s)), (''DefaultEnabled'', AggBool),
      (''State'', string_agg (pfState s)),
      (''RefinesProfileID'', string_agg (pfRefinesProfileID s)),
      (''RefinesProfileVersion'', version_agg (pfRefinesProfileVersion s)),
      (''SupersededByID'', string_agg (pfSupersededByID s)),
      (''SupersededByVersion'', version_agg (pfSupersededByVersion s)),
      (''OverlayDeltas'', AggSequence (map delta_agg (pfOverlayDeltas s)))]"

section \<open>Validation of the parts\<close>

definition validateCoherence :: "coherence_spec \<Rightarrow> descriptor_error outcome" where
  "validateCoherence spec =
     (if \<not> version_valid (cpVersion spec) then Some CoherenceVersionMissing
      else if cpMode spec = CoherenceSingleWireResponse then
        (if cpMaximumSourceSkew spec \<noteq> 0 \<or> cpMaximumReceiptSkew spec \<noteq> 0
            \<or> cpRequireGenerationEquality spec
            \<or> cpAcquisitionOrder spec \<noteq> AcquisitionOrderNotApplicable
            \<or> cpRetrySetBehavior spec \<noteq> RetrySetNotApplicable
            \<or> cpDocumentaryConsistencyMarker spec \<noteq> [] then Some CoherenceSingleFields
         else None)
      else if cpMode spec = CoherenceBoundedMultiResponse then
        (if cpMaximumSourceSkew spec \<le> 0 \<or> cpMaximumReceiptSkew spec \<le> 0
            \<or> cpMaximumSourceSkew spec > MaxDeclaredCoherenceSkew
            \<or> cpMaximumReceiptSkew spec > MaxDeclaredCoherenceSkew
            \<or> \<not> cpRequireGenerationEquality spec
            \<or> (cpAcquisitionOrder spec \<noteq> AcquisitionOrderDependencyDeclaration
               \<and> cpAcquisitionOrder spec \<noteq> AcquisitionOrderSourceTimeAscending
               \<and> cpAcquisitionOrder spec \<noteq> AcquisitionOrderReceiptTimeAscending)
            \<or> cpRetrySetBehavior spec \<noteq> RetryWholeSet then Some CoherenceMultiIncomplete
         else None)
      else Some CoherenceModeUnknown)"

definition preflightOverlayDelta :: "platform \<Rightarrow> overlay_delta \<Rightarrow> descriptor_error outcome" where
  "preflightOverlayDelta pl delta =
     (case validateFields False [odID delta, odTargetID delta, odApplicabilityValue delta] of
        Some e \<Rightarrow> Some (ProfileString e)
      | None \<Rightarrow>
     (case validateBoundedStrings (odEvidenceReferences delta) MaxProfileEvidenceReferences True of
        Some e \<Rightarrow> Some (ProfileString e)
      | None \<Rightarrow>
     (case Option.bind (odCodec delta) (preflightCodecSpec (plMaxReadRegisters pl)) of
        Some e \<Rightarrow> Some (PartRejected (ProfileCodec e))
      | None \<Rightarrow>
     (case Option.bind (odDependency delta) (preflightDependencySpec pl) of
        Some e \<Rightarrow> Some (PartRejected e)
      | None \<Rightarrow>
        map_option ProfileString (Option.bind (odCoherence delta)
          (\<lambda>c. validateBoundedString (cpDocumentaryConsistencyMarker c) False))))))"

fun preflight_deltas :: "platform \<Rightarrow> overlay_delta list \<Rightarrow> descriptor_error outcome" where
  "preflight_deltas pl [] = None"
| "preflight_deltas pl (d # ds) =
     (case preflightOverlayDelta pl d of
        Some e \<Rightarrow> Some e
      | None \<Rightarrow> preflight_deltas pl ds)"

fun preflight_applicability :: "string list list \<Rightarrow> contract_error outcome" where
  "preflight_applicability [] = None"
| "preflight_applicability (vs # rest) =
     (case validateBoundedStrings vs MaxProfileEvidenceReferences False of
        Some e \<Rightarrow> Some e
      | None \<Rightarrow> preflight_applicability rest)"

definition preflightProfileSpec :: "platform \<Rightarrow> profile_spec \<Rightarrow> descriptor_error outcome" where
  "preflightProfileSpec pl spec =
     (if length (pfStandardApplicability spec) > MaxProfileEvidenceReferences
        \<or> length (declared (pfModelApplicability spec)) > MaxProfileEvidenceReferences
        \<or> length (pfVendorApplicability spec) > MaxProfileEvidenceReferences
        \<or> length (declared (pfKnownExclusions spec)) > MaxProfileEvidenceReferences
        \<or> length (pfCodecs spec) > MaxProfileCodecs
        \<or> length (pfEvidence spec) > MaxProfileEvidenceReferences
        \<or> length (pfOverlayDeltas spec) > MaxProfileDependencies then Some ProfileCollection
      else (case preflightAggregate [profile_agg spec] of
        Some e \<Rightarrow> Some (ProfileString e)
      | None \<Rightarrow>
      (case validateBoundedString (cpDocumentaryConsistencyMarker (pfCoherence spec)) False of
        Some e \<Rightarrow> Some (ProfileString e)
      | None \<Rightarrow>
      (case validateFields False [pfID spec, pfRefinesProfileID spec, pfSupersededByID spec] of
        Some e \<Rightarrow> Some (ProfileString e)
      | None \<Rightarrow>
      (case preflight_applicability [pfStandardApplicability spec, declared (pfModelApplicability spec),
              pfVendorApplicability spec, declared (pfKnownExclusions spec)] of
        Some e \<Rightarrow> Some (ProfileString e)
      | None \<Rightarrow>
      (case validateFields True (map evID (pfEvidence spec)) of
        Some e \<Rightarrow> Some (ProfileString e)
      | None \<Rightarrow> preflight_deltas pl (pfOverlayDeltas spec)))))))"

section \<open>Overlay deltas\<close>

text \<open>The loop keeps two sets of names: delta identities, and targets as \<^verbatim>\<open>kind:target\<close>.\<close>

definition delta_target :: "overlay_delta \<Rightarrow> string" where
  "delta_target d = odKind d @ CHR '':'' #
     (if odKind d = OverlayDeltaModelApplicability \<or> odKind d = OverlayDeltaKnownExclusion
      then odApplicabilityValue d else odTargetID d)"

definition check_delta_shape :: "overlay_delta \<Rightarrow> descriptor_error outcome" where
  "check_delta_shape d =
     (if odKind d = OverlayDeltaModelApplicability \<or> odKind d = OverlayDeltaKnownExclusion then
        (if (odOperation d \<noteq> OverlayDeltaAdd \<and> odOperation d \<noteq> OverlayDeltaRemove)
            \<or> odApplicabilityValue d = [] \<or> odTargetID d \<noteq> [] \<or> odCodec d \<noteq> None
            \<or> odDependency d \<noteq> None \<or> odCoherence d \<noteq> None then Some DeltaMalformed
         else None)
      else if odKind d = OverlayDeltaCodec then
        (if (odOperation d \<noteq> OverlayDeltaAdd \<and> odOperation d \<noteq> OverlayDeltaReplace)
            \<or> \<not> validIdentity (odTargetID d) \<or> odApplicabilityValue d \<noteq> [] \<or> odCodec d = None
            \<or> odDependency d \<noteq> None \<or> odCoherence d \<noteq> None then Some DeltaMalformed
         else None)
      else if odKind d = OverlayDeltaDependency then
        (if \<not> validIdentity (odTargetID d) \<or> odApplicabilityValue d \<noteq> [] \<or> odCodec d \<noteq> None
            \<or> odCoherence d \<noteq> None then Some DeltaMalformed
         else None)
      else if odKind d = OverlayDeltaCoherence then
        (if odOperation d \<noteq> OverlayDeltaReplace \<or> odTargetID d \<noteq> ''coherence-policy''
            \<or> odApplicabilityValue d \<noteq> [] \<or> odCodec d \<noteq> None \<or> odDependency d \<noteq> None
            \<or> (case odCoherence d of None \<Rightarrow> True | Some c \<Rightarrow> validateCoherence c \<noteq> None)
         then Some DeltaMalformed else None)
      else Some DeltaKindUnknown)"

definition check_delta_payload :: "platform \<Rightarrow> overlay_delta \<Rightarrow> descriptor_error outcome" where
  "check_delta_payload pl d =
     (if odKind d = OverlayDeltaCodec then
        (case odCodec d of
           None \<Rightarrow> Some DeltaMalformed
         | Some c \<Rightarrow> (case NewCodec (plMaxReadRegisters pl) c of
               Inl _ \<Rightarrow> Some DeltaInvalid
             | Inr codec \<Rightarrow> if csID codec \<noteq> odTargetID d then Some DeltaInvalid else None))
      else if odKind d = OverlayDeltaDependency then
        (if odOperation d = OverlayDeltaAdd \<or> odOperation d = OverlayDeltaReplace then
           (case odDependency d of
              None \<Rightarrow> Some DeltaPayloadMissing
            | Some s \<Rightarrow> (case NewDependency pl s of
                  Inl _ \<Rightarrow> Some DeltaInvalid
                | Inr dep \<Rightarrow>
                    if dsID (dpSpec dep) \<noteq> odTargetID d then Some DeltaInvalid
                    else if \<exists>e \<in> set (dsEvidenceReferences (dpSpec dep)).
                         e \<notin> set (odEvidenceReferences d) then Some DeltaPayloadEvidence
                    else None))
         else if odOperation d = OverlayDeltaRemove then
           (if odDependency d \<noteq> None then Some DeltaPayloadPresent else None)
         else Some DeltaOperationUnknown)
      else None)"

fun check_deltas :: "platform \<Rightarrow> string list \<Rightarrow> string list \<Rightarrow> string list \<Rightarrow> overlay_delta list
    \<Rightarrow> descriptor_error outcome" where
  "check_deltas pl evidence seen targets [] = None"
| "check_deltas pl evidence seen targets (d # ds) =
     (if \<not> validIdentity (odID d) \<or> \<not> version_valid (odVersion d) then Some DeltaIdentity
      else if odID d \<in> set seen then Some DeltaDuplicate
      else if \<not> stringsComplete (Some (odEvidenceReferences d)) then Some DeltaEvidenceIncomplete
      else if \<exists>e \<in> set (odEvidenceReferences d). e \<notin> set evidence then Some DeltaEvidenceAbsent
      else (case check_delta_shape d of
          Some e \<Rightarrow> Some e
        | None \<Rightarrow>
            if delta_target d \<in> set targets then Some DeltaTargetDuplicate
            else (case check_delta_payload pl d of
                Some e \<Rightarrow> Some e
              | None \<Rightarrow> check_deltas pl evidence (odID d # seen) (delta_target d # targets) ds)))"

definition validateOverlayDeltas :: "platform \<Rightarrow> overlay_delta list \<Rightarrow> string list
    \<Rightarrow> descriptor_error outcome" where
  "validateOverlayDeltas pl deltas evidence = check_deltas pl evidence [] [] deltas"

section \<open>Descriptors\<close>

definition copy_codec :: "platform \<Rightarrow> codec \<Rightarrow> codec" where
  "copy_codec pl c = (case NewCodec (plMaxReadRegisters pl) c of Inl _ \<Rightarrow> zero_codec | Inr c' \<Rightarrow> c')"

definition copy_set :: "platform \<Rightarrow> dependency_set \<Rightarrow> dependency_set" where
  "copy_set pl s =
     (case NewDependencySet pl (stVersion s) (set_dependencies pl s) of
        Inl _ \<Rightarrow> zero_set | Inr s' \<Rightarrow> s')"

text \<open>\<^verbatim>\<open>cloneProfileSpec\<close> rebuilds the codecs and the dependency set and ignores their errors.\<close>

definition cloneProfileSpec :: "platform \<Rightarrow> profile_spec \<Rightarrow> profile_spec" where
  "cloneProfileSpec pl s =
     s\<lparr>pfCodecs := map (copy_codec pl) (pfCodecs s), pfDependencies := copy_set pl (pfDependencies s)\<rparr>"

definition check_kind :: "profile_spec \<Rightarrow> descriptor_error outcome" where
  "check_kind spec =
     (if pfKind spec = ProfileStandardFamily then
        (if pfVendorApplicability spec \<noteq> [] \<or> pfRefinesProfileID spec \<noteq> []
            \<or> version_valid (pfRefinesProfileVersion spec) \<or> pfOverlayDeltas spec \<noteq> []
            \<or> \<not> stringsComplete (Some (pfStandardApplicability spec))
            \<or> \<not> stringsDeclared (pfModelApplicability spec)
            \<or> \<not> stringsDeclared (pfKnownExclusions spec)
            \<or> stID (pfDependencies spec) = [] \<or> \<not> version_valid (stVersion (pfDependencies spec))
            \<or> pfCodecs spec = [] then Some StandardVendorAssumptions
         else (case validateCoherence (pfCoherence spec) of
             Some e \<Rightarrow> Some e
           | None \<Rightarrow> if cpVersion (pfCoherence spec) \<noteq> pfCoherenceVersion spec
                     then Some CoherenceDisagrees else None))
      else if pfKind spec = ProfileVendorOverlay then
        (if \<not> stringsComplete (Some (pfVendorApplicability spec))
            \<or> \<not> validIdentity (pfRefinesProfileID spec)
            \<or> \<not> version_valid (pfRefinesProfileVersion spec)
            \<or> pfStandardApplicability spec \<noteq> [] \<or> declared (pfModelApplicability spec) \<noteq> []
            \<or> declared (pfKnownExclusions spec) \<noteq> [] \<or> pfCodecs spec \<noteq> []
            \<or> stID (pfDependencies spec) \<noteq> [] \<or> version_valid (stVersion (pfDependencies spec))
            \<or> pfCoherence spec \<noteq> zero_coherence \<or> pfOverlayDeltas spec = []
         then Some OverlayLacksBase else None)
      else Some ProfileKindUnknown)"

fun collect_codecs :: "(string, codec) gomap \<Rightarrow> codec list
    \<Rightarrow> descriptor_error + (string, codec) gomap" where
  "collect_codecs m [] = Inr m"
| "collect_codecs m (c # cs) =
     (if \<not> validIdentity (csID c) \<or> \<not> version_valid (csVersion c) then Inl ProfileInvalidCodec
      else if gm_get m (csID c) \<noteq> None then Inl ProfileDuplicateCodec
      else collect_codecs (gm_put (csID c) c m) cs)"

fun check_evidence :: "string list \<Rightarrow> evidence_reference list \<Rightarrow> descriptor_error outcome" where
  "check_evidence seen [] = None"
| "check_evidence seen (e # es) =
     (if \<not> validIdentity (evID e)
        \<or> (evPublicationDisposition e \<noteq> PublicationPublished
           \<and> evPublicationDisposition e \<noteq> PublicationMetadataOnly) then Some EvidenceIncomplete
      else if evID e \<in> set seen then Some EvidenceDuplicate
      else check_evidence (evID e # seen) es)"

fun check_dependencies :: "profile_spec \<Rightarrow> (string, codec) gomap \<Rightarrow> string list \<Rightarrow> dependency list
    \<Rightarrow> descriptor_error outcome" where
  "check_dependencies spec codecs evidence [] = None"
| "check_dependencies spec codecs evidence (d # ds) =
     (case gm_get codecs (dsCodecID (dpSpec d)) of
        None \<Rightarrow> Some DependencyCodecMismatch
      | Some c \<Rightarrow>
          (if csVersion c \<noteq> dsCodecVersion (dpSpec d) \<or> csRawWordCount c \<noteq> dsWordCount (dpSpec d)
           then Some DependencyCodecMismatch
           else if nsVersion (dpNormalization d) \<noteq> pfNormalizationVersion spec
           then Some DependencyNormalizationVersion
           else if \<exists>e \<in> set (dsEvidenceReferences (dpSpec d)). e \<notin> set evidence
           then Some DependencyEvidenceAbsent
           else check_dependencies spec codecs evidence ds))"

text \<open>The map of scale edges: a dependency whose codec scales by another dependency.\<close>

fun scale_edges :: "(string, codec) gomap \<Rightarrow> dependency list \<Rightarrow> (string, string) gomap
    \<Rightarrow> (string, string) gomap" where
  "scale_edges codecs [] edges = edges"
| "scale_edges codecs (d # ds) edges =
     scale_edges codecs ds
       (case gm_get codecs (dsCodecID (dpSpec d)) of
          None \<Rightarrow> edges
        | Some c \<Rightarrow> if scSource (csScale c) = ScaleDependency
                     then gm_put (dsID (dpSpec d)) (scDependencyID (csScale c)) edges else edges)"

definition check_graph :: "platform \<Rightarrow> profile_spec \<Rightarrow> (string, codec) gomap
    \<Rightarrow> descriptor_error outcome" where
  "check_graph pl spec codecs =
     (let dependencies = set_dependencies pl (pfDependencies spec);
          evidence = map evID (pfEvidence spec) in
      case check_dependencies spec codecs evidence dependencies of
        Some e \<Rightarrow> Some e
      | None \<Rightarrow>
      (case (if cpMode (pfCoherence spec) = CoherenceSingleWireResponse
             then validateSingleWireDependencies pl dependencies else None) of
        Some e \<Rightarrow> Some (PartRejected e)
      | None \<Rightarrow>
        if \<exists>c \<in> set (pfCodecs spec). scSource (csScale c) = ScaleDependency
             \<and> scDependencyID (csScale c) \<notin> set (map (\<lambda>d. dsID (dpSpec d)) dependencies)
        then Some ScaleDependencyAbsent
        else (let edges = scale_edges codecs dependencies [] in
          if hasDependencyCycle edges (map fst edges) = Some True then Some ScaleDependencyCyclic
          else None)))"

definition check_lifecycle :: "profile_spec \<Rightarrow> descriptor_error outcome" where
  "check_lifecycle spec =
     (if pfMaturity spec \<noteq> MaturityExperimental \<and> pfMaturity spec \<noteq> MaturityQualified
      then Some MaturityUnknown
      else if pfMaturity spec = MaturityExperimental \<and> pfDefaultEnabled spec
      then Some ExperimentalDefaultOn
      else if pfState spec = ProfileActive then
        (if pfSupersededByID spec \<noteq> [] \<or> version_valid (pfSupersededByVersion spec)
         then Some ActiveHasReplacement else None)
      else if pfState spec = ProfileRevoked then
        (if pfDefaultEnabled spec \<or> pfSupersededByID spec \<noteq> []
            \<or> version_valid (pfSupersededByVersion spec) then Some RevokedHasActivation else None)
      else if pfState spec = ProfileSuperseded then
        (if \<not> validIdentity (pfSupersededByID spec) \<or> \<not> version_valid (pfSupersededByVersion spec)
         then Some SupersededLacksReplacement
         else if pfDefaultEnabled spec then Some SupersededDefaultOn else None)
      else Some ProfileStateUnknown)"

definition validate_profile :: "platform \<Rightarrow> profile_spec \<Rightarrow> descriptor_error outcome" where
  "validate_profile pl spec =
     (if pfSchemaVersion spec \<noteq> schemaVersionV1 \<or> \<not> validIdentity (pfID spec)
        \<or> \<not> version_valid (pfVersion spec)
        \<or> pfRuntimeContractVersion spec \<noteq> runtimeContractVersionV1
        \<or> \<not> version_valid (pfDetectorVersion spec)
        \<or> pfCodecContractVersion spec \<noteq> codecContractVersionV1
        \<or> \<not> version_valid (pfNormalizationVersion spec) \<or> \<not> version_valid (pfCoherenceVersion spec)
        \<or> \<not> version_valid (pfQualificationVersion spec) \<or> pfEvidence spec = []
      then Some DescriptorIncomplete
      else (case check_kind spec of
        Some e \<Rightarrow> Some e
      | None \<Rightarrow>
      (case collect_codecs [] (pfCodecs spec) of
        Inl e \<Rightarrow> Some e
      | Inr codecs \<Rightarrow>
      (case check_evidence [] (pfEvidence spec) of
        Some e \<Rightarrow> Some e
      | None \<Rightarrow>
      (case (if pfKind spec = ProfileVendorOverlay
             then validateOverlayDeltas pl (pfOverlayDeltas spec) (map evID (pfEvidence spec))
             else None) of
        Some e \<Rightarrow> Some e
      | None \<Rightarrow>
      (case check_graph pl spec codecs of
        Some e \<Rightarrow> Some e
      | None \<Rightarrow> check_lifecycle spec))))))"

definition NewProfileDescriptor :: "platform \<Rightarrow> profile_spec \<Rightarrow> descriptor_error + profile" where
  "NewProfileDescriptor pl spec =
     (case preflightProfileSpec pl spec of
        Some e \<Rightarrow> Inl e
      | None \<Rightarrow>
          (let copied = cloneProfileSpec pl spec in
           case validate_profile pl copied of
             Some e \<Rightarrow> Inl e
           | None \<Rightarrow> Inr copied))"

section \<open>Copies\<close>

definition built_codec :: "platform \<Rightarrow> codec \<Rightarrow> bool" where
  "built_codec pl c \<longleftrightarrow> NewCodec (plMaxReadRegisters pl) c = Inr c"

definition built_set :: "platform \<Rightarrow> dependency_set \<Rightarrow> bool" where
  "built_set pl s \<longleftrightarrow> s = zero_set \<or> accepted_set pl s"

text \<open>The parts of a declaration that only the package's constructors make.\<close>

definition built :: "platform \<Rightarrow> profile_spec \<Rightarrow> bool" where
  "built pl s \<longleftrightarrow> list_all (built_codec pl) (pfCodecs s) \<and> built_set pl (pfDependencies s)"

lemma invalid_empty [simp]: "\<not> validIdentity []" "\<not> version_valid []"
  by (simp_all add: validIdentity_def version_valid_def versionPattern_def)

lemma copy_codec_built: "built_codec pl c \<Longrightarrow> copy_codec pl c = c"
  by (simp add: built_codec_def copy_codec_def)

lemma copied_codec_built: "validIdentity (csID (copy_codec pl c)) \<Longrightarrow> built_codec pl (copy_codec pl c)"
  by (auto simp: copy_codec_def built_codec_def zero_codec_def dest: NewCodec_again split: sum.splits)

lemma zero_set_copies [simp]: "copy_set pl zero_set = zero_set"
  by (simp add: copy_set_def NewDependencySet_def zero_set_def)

lemma copy_set_built: "built_set pl s \<Longrightarrow> copy_set pl s = s"
proof (cases "s = zero_set")
  case True
  then show ?thesis by simp
next
  case False
  moreover assume "built_set pl s"
  ultimately show ?thesis
    by (simp add: built_set_def accepted_set_def copy_set_def set_dependencies_accepted)
qed

lemma copies_all_valid:
  "copy_dependencies pl seen ds = Inr cs \<Longrightarrow> list_all (\<lambda>d. validIdentity (dsID (dpSpec d))) ds"
proof (induction ds arbitrary: seen cs)
  case Nil
  then show ?case by simp
next
  case (Cons d ds)
  from Cons.prems have "validIdentity (dsID (dpSpec d))" by (auto split: if_splits)
  moreover from Cons.prems obtain cs' where "copy_dependencies pl (dsID (dpSpec d) # seen) ds = Inr cs'"
    unfolding copy_dependencies_step by blast
  ultimately show ?case using Cons.IH by simp
qed

lemma set_dependencies_elem:
  "d \<in> set (set_dependencies pl s) \<Longrightarrow> accepted_dependency pl d \<or> d = zero_dependency"
  by (auto simp: set_dependencies_def dest: NewDependency_again split: sum.splits)

lemma copied_set_built: "built_set pl (copy_set pl s)"
proof (cases "NewDependencySet pl (stVersion s) (set_dependencies pl s)")
  case (Inl e)
  then show ?thesis by (simp add: copy_set_def built_set_def)
next
  case (Inr s')
  then obtain cs where "copy_dependencies pl [] (set_dependencies pl s) = Inr cs"
    by (auto simp: NewDependencySet_def split: if_splits option.splits sum.splits)
  then have v: "list_all (\<lambda>d. validIdentity (dsID (dpSpec d))) (set_dependencies pl s)"
    by (rule copies_all_valid)
  have "list_all (accepted_dependency pl) (set_dependencies pl s)"
    unfolding list_all_iff
  proof
    fix d assume d: "d \<in> set (set_dependencies pl s)"
    then have "accepted_dependency pl d \<or> d = zero_dependency" by (rule set_dependencies_elem)
    moreover have "validIdentity (dsID (dpSpec d))" using v d by (simp add: list_all_iff)
    ultimately show "accepted_dependency pl d" by (auto simp: zero_dependency_def)
  qed
  from NewDependencySet_accepted(2) [OF Inr this] Inr show ?thesis
    by (simp add: copy_set_def built_set_def)
qed

lemma clone_built: "built pl s \<Longrightarrow> cloneProfileSpec pl s = s"
proof -
  assume b: "built pl s"
  then have "map (copy_codec pl) (pfCodecs s) = pfCodecs s"
    by (intro map_idI) (simp add: built_def list_all_iff copy_codec_built)
  then show ?thesis using b by (simp add: cloneProfileSpec_def built_def copy_set_built)
qed

lemma built_set_accepted: "built_set pl s \<Longrightarrow> list_all (accepted_dependency pl) (stDependencies s)"
  by (auto simp: built_set_def accepted_set_def zero_set_def)

lemma built_set_distinct: "built_set pl s \<Longrightarrow> distinct (map (\<lambda>d. dsID (dpSpec d)) (stDependencies s))"
  by (auto simp: built_set_def accepted_set_def zero_set_def dest: NewDependencySet_Inr(7))

lemma built_set_dependencies: "built_set pl s \<Longrightarrow> set_dependencies pl s = stDependencies s"
  by (simp add: set_dependencies_accepted built_set_accepted)

section \<open>What the loops compute\<close>

lemma collect_codecs_Inr:
  assumes "collect_codecs m cs = Inr m'"
  shows "distinct (map csID cs)" and "\<forall>c \<in> set cs. gm_get m (csID c) = None \<and> validIdentity (csID c)"
    and "gm_get m' k = Some c \<longleftrightarrow> c \<in> set cs \<and> csID c = k \<or> gm_get m k = Some c"
proof -
  have "distinct (map csID cs) \<and> (\<forall>c \<in> set cs. gm_get m (csID c) = None \<and> validIdentity (csID c))
      \<and> (\<forall>k c. gm_get m' k = Some c \<longleftrightarrow> c \<in> set cs \<and> csID c = k \<or> gm_get m k = Some c)"
    using assms
  proof (induction cs arbitrary: m)
    case Nil
    then show ?case by simp
  next
    case (Cons a cs)
    from Cons.prems have a: "gm_get m (csID a) = None" "validIdentity (csID a)"
      and rest: "collect_codecs (gm_put (csID a) a m) cs = Inr m'"
      by (auto split: if_splits)
    note ih = Cons.IH [OF rest]
    have fresh: "csID c \<noteq> csID a \<and> gm_get m (csID c) = None" if "c \<in> set cs" for c
      using ih that by (auto simp: gm.get_put split: if_splits)
    have "gm_get m' k = Some c \<longleftrightarrow> c \<in> set (a # cs) \<and> csID c = k \<or> gm_get m k = Some c" for k c
      using ih a(1) fresh by (auto simp: gm.get_put split: if_splits)
    moreover have "distinct (map csID (a # cs))" using ih fresh by (force simp: distinct_map)
    moreover have "\<forall>c \<in> set (a # cs). gm_get m (csID c) = None \<and> validIdentity (csID c)"
      using ih a fresh by simp
    ultimately show ?case by blast
  qed
  then show "distinct (map csID cs)" "\<forall>c \<in> set cs. gm_get m (csID c) = None \<and> validIdentity (csID c)"
    "gm_get m' k = Some c \<longleftrightarrow> c \<in> set cs \<and> csID c = k \<or> gm_get m k = Some c" by blast+
qed

lemma collected_codec:
  "collect_codecs [] cs = Inr m \<Longrightarrow> gm_get m k = Some c \<longleftrightarrow> c \<in> set cs \<and> csID c = k"
  using collect_codecs_Inr(3) [of "[]" cs m k c] by (simp add: gm.get_empty)

lemma check_dependencies_None:
  "check_dependencies spec codecs evidence ds = None \<longleftrightarrow>
     (\<forall>d \<in> set ds. (\<exists>c. gm_get codecs (dsCodecID (dpSpec d)) = Some c
         \<and> csVersion c = dsCodecVersion (dpSpec d) \<and> csRawWordCount c = dsWordCount (dpSpec d))
       \<and> nsVersion (dpNormalization d) = pfNormalizationVersion spec
       \<and> set (dsEvidenceReferences (dpSpec d)) \<subseteq> set evidence)"
proof (induction ds)
  case Nil
  then show ?case by simp
next
  case (Cons d ds)
  show ?case
    by (cases "gm_get codecs (dsCodecID (dpSpec d))") (auto simp: Cons.IH)
qed

text \<open>The scale edges of a list of dependencies, as a relation.\<close>

definition scales_by :: "codec list \<Rightarrow> dependency list \<Rightarrow> (string \<times> string) set" where
  "scales_by cs ds = {(dsID (dpSpec d), scDependencyID (csScale c)) | d c.
     d \<in> set ds \<and> c \<in> set cs \<and> csID c = dsCodecID (dpSpec d) \<and> scSource (csScale c) = ScaleDependency}"

lemma scale_edges_get:
  assumes "distinct (map (\<lambda>d. dsID (dpSpec d)) ds)"
    and "\<forall>d \<in> set ds. gm_get edges (dsID (dpSpec d)) = None"
    and m: "\<And>k c. gm_get codecs k = Some c \<longleftrightarrow> c \<in> set cs \<and> csID c = k"
  shows "gm_get (scale_edges codecs ds edges) x = Some y \<longleftrightarrow> (x, y) \<in> scales_by cs ds \<or> gm_get edges x = Some y"
  using assms(1,2)
proof (induction ds arbitrary: edges)
  case Nil
  then show ?case by (simp add: scales_by_def)
next
  case (Cons d ds)
  obtain next_edges where e_def: "next_edges = (case gm_get codecs (dsCodecID (dpSpec d)) of
          None \<Rightarrow> edges
        | Some c \<Rightarrow> if scSource (csScale c) = ScaleDependency
                     then gm_put (dsID (dpSpec d)) (scDependencyID (csScale c)) edges else edges)"
    by blast
  have e: "gm_get next_edges k = Some v \<longleftrightarrow> (k, v) \<in> scales_by cs [d] \<or> gm_get edges k = Some v" for k v
  proof (cases "gm_get codecs (dsCodecID (dpSpec d))")
    case None
    then have "scales_by cs [d] = {}" using m [of "dsCodecID (dpSpec d)"] by (auto simp: scales_by_def)
    with None show ?thesis by (simp add: e_def)
  next
    case (Some a)
    then have only: "c = a" if "c \<in> set cs" "csID c = dsCodecID (dpSpec d)" for c
      using m [of "dsCodecID (dpSpec d)" c] that by simp
    have "a \<in> set cs \<and> csID a = dsCodecID (dpSpec d)" using m Some by blast
    then have "scales_by cs [d] = (if scSource (csScale a) = ScaleDependency
        then {(dsID (dpSpec d), scDependencyID (csScale a))} else {})"
      using only by (auto simp: scales_by_def)
    with Some Cons.prems(2) show ?thesis by (auto simp: gm.get_put e_def)
  qed
  have "\<forall>d' \<in> set ds. gm_get next_edges (dsID (dpSpec d')) = None"
  proof
    fix d' assume d': "d' \<in> set ds"
    then have "dsID (dpSpec d') \<in> set (map (\<lambda>d. dsID (dpSpec d)) ds)"
      unfolding set_map by (rule imageI)
    then have "dsID (dpSpec d') \<noteq> dsID (dpSpec d)" using Cons.prems(1) by (metis distinct.simps(2) list.map(2))
    then have "(dsID (dpSpec d'), v) \<notin> scales_by cs [d]" for v by (auto simp: scales_by_def)
    moreover have "gm_get edges (dsID (dpSpec d')) = None" using d' Cons.prems(2) by simp
    ultimately show "gm_get next_edges (dsID (dpSpec d')) = None"
      using e [of "dsID (dpSpec d')"] by (cases "gm_get next_edges (dsID (dpSpec d'))") auto
  qed
  with Cons.IH [of next_edges] Cons.prems have
    "gm_get (scale_edges codecs ds next_edges) x = Some y \<longleftrightarrow> (x, y) \<in> scales_by cs ds \<or> gm_get next_edges x = Some y"
    by simp
  also have "\<dots> \<longleftrightarrow> (x, y) \<in> scales_by cs (d # ds) \<or> gm_get edges x = Some y"
    unfolding e by (auto simp: scales_by_def)
  finally show ?case by (simp add: e_def)
qed

section \<open>Accepted profiles\<close>

lemma NewProfileDescriptor_Inr:
  assumes "NewProfileDescriptor pl s = Inr p"
  shows "p = cloneProfileSpec pl s" and "validate_profile pl p = None" and "preflightProfileSpec pl s = None"
  using assms by (auto simp: NewProfileDescriptor_def Let_def split: option.splits)

lemma validate_profile_None:
  assumes "validate_profile pl p = None"
  obtains codecs where "collect_codecs [] (pfCodecs p) = Inr codecs" and "check_graph pl p codecs = None"
    and "check_kind p = None" and "check_lifecycle p = None" and "check_evidence [] (pfEvidence p) = None"
    and "pfKind p = ProfileVendorOverlay \<longrightarrow>
      validateOverlayDeltas pl (pfOverlayDeltas p) (map evID (pfEvidence p)) = None"
    and "validIdentity (pfID p)" and "version_valid (pfVersion p)"
  using assms by (auto simp: validate_profile_def split: if_splits option.splits sum.splits)

lemma accepted_profile_built:
  assumes "NewProfileDescriptor pl s = Inr p"
  shows "built pl p"
proof -
  note ok = NewProfileDescriptor_Inr [OF assms]
  obtain codecs where c: "collect_codecs [] (pfCodecs p) = Inr codecs"
    using validate_profile_None [OF ok(2)] by metis
  have "built_codec pl c" if "c \<in> set (pfCodecs p)" for c
  proof -
    have "validIdentity (csID c)" using collect_codecs_Inr(2) [OF c] that by blast
    moreover have "c \<in> copy_codec pl ` set (pfCodecs s)"
      using that ok(1) by (simp add: cloneProfileSpec_def)
    then obtain x where "c = copy_codec pl x" by blast
    ultimately show ?thesis using copied_codec_built by simp
  qed
  moreover have "built_set pl (pfDependencies p)" by (simp add: ok(1) cloneProfileSpec_def copied_set_built)
  ultimately show ?thesis by (simp add: built_def list_all_iff)
qed

lemma NewProfileDescriptor_again:
  assumes "NewProfileDescriptor pl s = Inr p" and "built pl s"
  shows "p = s" and "NewProfileDescriptor pl p = Inr p"
  using NewProfileDescriptor_Inr(1) [OF assms(1)] clone_built [OF assms(2)] assms(1) by simp_all

lemma hex_bytes_length: "length (hex_bytes bs) = 2 * length bs"
  by (induction bs) (simp_all add: hex_bytes_def)

section \<open>Properties\<close>

text \<open>C29: the graph of an accepted profile is closed: codec and dependency names are unique, every
  dependency is decoded by exactly the codec it names, of the version and width it names, from
  evidence the profile cites, under the profile's normalization version; every scale dependency
  is a dependency of the same profile and no dependency scales itself through others; and a
  profile that promises one wire response has a set that one read can serve.\<close>

theorem accepted_profile_is_closed:
  assumes "NewProfileDescriptor pl s = Inr p"
  shows "distinct (map csID (pfCodecs p))
    \<and> distinct (map (\<lambda>d. dsID (dpSpec d)) (stDependencies (pfDependencies p)))
    \<and> (\<forall>d \<in> set (stDependencies (pfDependencies p)).
         (\<exists>c \<in> set (pfCodecs p). csID c = dsCodecID (dpSpec d) \<and> csVersion c = dsCodecVersion (dpSpec d)
            \<and> csRawWordCount c = dsWordCount (dpSpec d))
         \<and> set (dsEvidenceReferences (dpSpec d)) \<subseteq> set (map evID (pfEvidence p))
         \<and> nsVersion (dpNormalization d) = pfNormalizationVersion p)
    \<and> snd ` scales_by (pfCodecs p) (stDependencies (pfDependencies p))
        \<subseteq> set (map (\<lambda>d. dsID (dpSpec d)) (stDependencies (pfDependencies p)))
    \<and> acyclic (scales_by (pfCodecs p) (stDependencies (pfDependencies p)))
    \<and> (cpMode (pfCoherence p) = CoherenceSingleWireResponse \<longrightarrow>
         validateSingleWireDependencies pl (stDependencies (pfDependencies p)) = None)"
proof -
  let ?ds = "stDependencies (pfDependencies p)"
  note ok = NewProfileDescriptor_Inr [OF assms]
  have b: "built_set pl (pfDependencies p)"
    using accepted_profile_built [OF assms] by (simp add: built_def)
  obtain codecs where c: "collect_codecs [] (pfCodecs p) = Inr codecs" and g: "check_graph pl p codecs = None"
    using validate_profile_None [OF ok(2)] by metis
  note get = collected_codec [OF c]
  have deps: "check_dependencies p codecs (map evID (pfEvidence p)) ?ds = None"
    and wire: "cpMode (pfCoherence p) = CoherenceSingleWireResponse \<longrightarrow>
      validateSingleWireDependencies pl ?ds = None"
    and scales: "\<forall>c \<in> set (pfCodecs p). scSource (csScale c) = ScaleDependency \<longrightarrow>
      scDependencyID (csScale c) \<in> set (map (\<lambda>d. dsID (dpSpec d)) ?ds)"
    and cyc: "hasDependencyCycle (scale_edges codecs ?ds []) (map fst (scale_edges codecs ?ds [])) \<noteq> Some True"
    using g by (auto simp: check_graph_def Let_def built_set_dependencies [OF b]
        split: option.splits if_splits)
  have edges: "{(x, y). gm_get (scale_edges codecs ?ds []) x = Some y} = scales_by (pfCodecs p) ?ds"
    using scale_edges_get [OF built_set_distinct [OF b], of "[]" codecs "pfCodecs p"] get
    by (auto simp: gm.get_empty)
  have "acyclic (scales_by (pfCodecs p) ?ds)"
    using cyc cycle_returns [of "map fst (scale_edges codecs ?ds [])" "scale_edges codecs ?ds []"] edges by auto
  moreover have "snd ` scales_by (pfCodecs p) ?ds \<subseteq> set (map (\<lambda>d. dsID (dpSpec d)) ?ds)"
    using scales by (force simp: scales_by_def)
  ultimately show ?thesis
    using collect_codecs_Inr(1) [OF c] built_set_distinct [OF b] wire
      deps [unfolded check_dependencies_None get] by blast
qed

definition example_set :: dependency_set where
  "example_set = \<lparr>stID = ''sha256:'' @ hex_bytes (replicate 32 0), stVersion = ''1.0.0'',
     stDependencies = [\<lparr>dpSpec = example_dependency, dpNormalization = example_normalization\<rparr>]\<rparr>"

definition example_profile :: profile_spec where
  "example_profile = \<lparr>pfSchemaVersion = ''1.0.0'', pfID = ''family'', pfVersion = ''1.0.0'',
     pfKind = ProfileStandardFamily, pfStandardApplicability = [''standard''],
     pfModelApplicability = Some [], pfVendorApplicability = [], pfKnownExclusions = Some [],
     pfRuntimeContractVersion = ''1.0.0'', pfDetectorVersion = ''1.0.0'',
     pfCodecContractVersion = ''1.0.0'', pfNormalizationVersion = ''1.0.0'',
     pfCoherenceVersion = ''1.0.0'', pfQualificationVersion = ''1.0.0'',
     pfCodecs = [example_codec], pfDependencies = example_set,
     pfCoherence = \<lparr>cpVersion = ''1.0.0'', cpMode = CoherenceSingleWireResponse,
       cpMaximumSourceSkew = 0, cpMaximumReceiptSkew = 0, cpRequireGenerationEquality = False,
       cpAcquisitionOrder = AcquisitionOrderNotApplicable,
       cpRetrySetBehavior = RetrySetNotApplicable, cpDocumentaryConsistencyMarker = []\<rparr>,
     pfEvidence = [\<lparr>evID = ''map'', evPublicationDisposition = PublicationPublished\<rparr>],
     pfMaturity = MaturityQualified, pfDefaultEnabled = True, pfState = ProfileActive,
     pfRefinesProfileID = [], pfRefinesProfileVersion = [], pfSupersededByID = [],
     pfSupersededByVersion = [], pfOverlayDeltas = []\<rparr>"

lemmas example_agg_simps = codec_agg_def example_codec_def string_agg_def version_agg_def words_agg_def
  scale_agg_def sentinel_agg_def string_spec_agg_def dependency_spec_agg_def dependency_agg_def
  normalization_agg_def strings_agg_def example_dependency_def example_normalization_def
  agg_shape.simps skipped_field_def codec_consts contract_consts profile_consts

definition json_plain :: "char \<Rightarrow> bool" where
  "json_plain c \<longleftrightarrow> 62 < byte_at c \<and> byte_at c < 92 \<or> 92 < byte_at c \<and> byte_at c < 128
     \<or> 38 < byte_at c \<and> byte_at c < 60"

lemma json_escape_other:
  "byte_at c \<noteq> 226 \<Longrightarrow> json_escape (c # s) = json_escape_byte c @ json_escape s"
  by (subst json_escape.simps) (simp del: json_escape.simps split: list.split)

lemma json_escape_plain: "list_all json_plain s \<Longrightarrow> json_escape s = s"
proof (induction s)
  case Nil
  then show ?case by simp
next
  case (Cons c s)
  then have "json_escape_byte c = [c]" "byte_at c \<noteq> 226"
    by (auto simp: json_plain_def json_escape_byte_def Let_def)
  with Cons show ?case by (simp add: json_escape_other del: json_escape.simps)
qed

lemma json_text_plain: "list_all json_plain s \<Longrightarrow> length (json_text s) = length s + 2"
  by (simp add: json_text_def json_escape_plain)

lemma join_on_length: "length (join_on c ps) \<le> sum_list (map length ps) + length ps"
  by (induction ps rule: join_on.induct) auto

lemma json_object_length:
  assumes "\<forall>f \<in> set fs. length (json_text (fst f)) + length (snd f) \<le> n"
  shows "length (json_object fs) \<le> length fs * (n + 2) + 2"
proof -
  have "sum_list (map length (map (\<lambda>f. json_member (fst f) (snd f)) fs)) \<le> length fs * (n + 1)"
    using assms by (induction fs) (auto simp: json_member_def)
  then show ?thesis
    using join_on_length [of "CHR '',''" "map (\<lambda>f. json_member (fst f) (snd f)) fs"]
    by (simp add: json_object_def)
qed

lemma example_identity_small:
  "length (identity_json ''1.0.0'' [example_dependency]) + 1 \<le> MaxSerializedContractBytes"
proof -
  have n: "length (normalization_json example_normalization) \<le> 8 * (60 + 2) + 2"
    unfolding normalization_json_def
    by (rule order_trans [OF json_object_length [where n = 60]])
      (simp_all add: json_text_plain json_plain_def byte_at_def example_normalization_def
        dec.simps profile_consts)
  have d: "length (dependency_json example_dependency) \<le> 10 * (600 + 2) + 2"
    unfolding dependency_json_def
    by (rule order_trans [OF json_object_length [where n = 600]])
      (use n in \<open>simp_all add: json_text_plain json_plain_def byte_at_def example_dependency_def
        dec.simps json_array_def\<close>)
  have "length (identity_json ''1.0.0'' [example_dependency]) \<le> 3 * (7000 + 2) + 2"
    unfolding identity_json_def
    by (rule order_trans [OF json_object_length [where n = 7000]])
      (use d in \<open>simp_all add: json_text_plain json_plain_def byte_at_def set_schema_def json_array_def\<close>)
  then show ?thesis by (simp add: contract_consts)
qed

lemma example_identity_walk: "preflightAggregate [identity_agg ''1.0.0'' [example_dependency]] = None"
  unfolding preflightAggregate_def preflight_from_iff
  by (simp add: identity_agg_def example_agg_simps)

lemma example_set_walk:
  "preflightAggregate [version_agg ''1.0.0'', AggSequence (map dependency_agg
     [\<lparr>dpSpec = example_dependency, dpNormalization = example_normalization\<rparr>])] = None"
  unfolding preflightAggregate_def preflight_from_iff
  by (simp add: example_agg_simps)

lemma example_set_built: "built_set example_platform example_set"
proof -
  let ?d = "\<lparr>dpSpec = example_dependency, dpNormalization = example_normalization\<rparr>"
  have "validIdentity (dsID example_dependency)" "version_valid (dsVersion example_dependency)"
    using NewDependency_Inr(3,4) [OF example_dependency_accepted] .
  then have "copy_dependencies example_platform [] [?d] = Inr [?d]"
    using example_dependency_accepted by simp
  then have "NewDependencySet example_platform ''1.0.0'' [?d] = Inr example_set"
    using version_1_0_0 example_set_walk example_identity_walk example_identity_small
    by (simp add: NewDependencySet_def marshal_bounded_def example_set_def example_platform_def
        contract_consts)
  then show ?thesis
    using example_dependency_accepted
    by (simp add: built_set_def accepted_set_def example_set_def accepted_dependency_def)
qed

lemma example_profile_built: "built example_platform example_profile"
  using example_set_built example_codec_accepted
  by (simp add: built_def example_profile_def built_codec_def example_platform_def)

lemma example_profile_walk: "preflightAggregate [profile_agg example_profile] = None"
  unfolding preflightAggregate_def preflight_from_iff
  by (simp add: profile_agg_def example_profile_def example_set_def hex_bytes_length coherence_agg_def
      declared_def example_agg_simps)

lemma example_profile_preflight: "preflightProfileSpec example_platform example_profile = None"
  unfolding preflightProfileSpec_def example_profile_walk
  by (simp add: example_profile_def declared_def validateBoundedStrings_def example_string_simps
      MaxProfileCodecs_def)

lemma example_profile_kind: "check_kind example_profile = None"
proof -
  have "stID (pfDependencies example_profile) \<noteq> []"
    by (simp add: example_profile_def example_set_def)
  moreover have "validateCoherence (pfCoherence example_profile) = None"
    by (simp add: validateCoherence_def example_profile_def version_1_0_0 profile_consts)
  ultimately show ?thesis
    using version_1_0_0
    by (simp add: check_kind_def example_profile_def example_set_def stringsComplete_def
        stringsDeclared_def example_string_simps)
qed

lemma example_single_wire:
  "validateSingleWireDependencies example_platform
     [\<lparr>dpSpec = example_dependency, dpNormalization = example_normalization\<rparr>] = None"
  by (simp add: validateSingleWireDependencies_def example_dependency_def example_normalization_def
      example_platform_def Let_def)

lemma example_profile_graph:
  "check_graph example_platform example_profile [(''power'', example_codec)] = None"
proof -
  let ?d = "\<lparr>dpSpec = example_dependency, dpNormalization = example_normalization\<rparr>"
  have deps: "set_dependencies example_platform (pfDependencies example_profile) = [?d]"
    using built_set_dependencies [OF example_set_built] by (simp add: example_set_def example_profile_def)
  have own: "scSource (csScale example_codec) \<noteq> ScaleDependency"
    by (simp add: example_codec_def codec_consts)
  have "check_dependencies example_profile [(''power'', example_codec)]
      (map evID (pfEvidence example_profile)) [?d] = None"
    by (simp add: gm_get_def example_dependency_def example_codec_def example_profile_def
        example_normalization_def)
  moreover have "scale_edges [(''power'', example_codec)] [?d] [] = []"
    using own by (simp add: gm_get_def example_dependency_def)
  moreover have "pfCodecs example_profile = [example_codec]" by (simp add: example_profile_def)
  ultimately show ?thesis
    unfolding check_graph_def deps Let_def
    using own by (simp add: example_single_wire cycle_returns [of "[]"] acyclic_def gm_get_def)
qed

lemma example_profile_accepted:
  "NewProfileDescriptor example_platform example_profile = Inr example_profile"
proof -
  have c: "collect_codecs [] (pfCodecs example_profile) = Inr [(''power'', example_codec)]"
    using NewCodec_Inr(3,4) [OF example_codec_accepted]
    by (simp add: example_profile_def gm_get_def gm_put_def) (simp add: example_codec_def)
  have k: "pfKind example_profile \<noteq> ProfileVendorOverlay"
    by (simp add: example_profile_def profile_consts)
  have e: "check_evidence [] (pfEvidence example_profile) = None"
    by (simp add: example_profile_def example_string_simps)
  have l: "check_lifecycle example_profile = None"
    by (simp add: check_lifecycle_def example_profile_def profile_consts)
  have "validIdentity (pfID example_profile)" by (simp add: example_profile_def example_string_simps)
  then have "validate_profile example_platform example_profile = None"
    unfolding validate_profile_def example_profile_kind c e
    using k version_1_0_0
    by (simp add: example_profile_graph l)
      (simp add: example_profile_def schemaVersionV1_def runtimeContractVersionV1_def
        codecContractVersionV1_def)
  then show ?thesis
    using example_profile_preflight clone_built [OF example_profile_built]
    by (simp add: NewProfileDescriptor_def)
qed

theorem accepted_profile_is_closed_witness:
  "acyclic (scales_by (pfCodecs example_profile) (stDependencies (pfDependencies example_profile)))"
  using accepted_profile_is_closed [OF example_profile_accepted] by blast

end
