(* ===== verification/Profile_Catalog.thy ===== *)
theory Profile_Catalog
  imports Profile_Descriptor
begin

text \<open>
  The catalogue of profiles (\<^verbatim>\<open>profile.go\<close>): the sorted collection with its lookup, and the
  coherence of a vendor overlay with the standard family it refines. An overlay is applied delta
  by delta to a copy of its base, and the result must be a valid family. The lemmas show that the
  order of the deltas does not matter, since no two deltas of an accepted overlay have one
  target, and that lookup finds exactly the profiles the catalogue was built from.
\<close>

section \<open>Applying an overlay to its base\<close>

record effective =
  efModels :: "string list"
  efExclusions :: "string list"
  efCodecs :: "codec_spec list"
  efDependencies :: "dependency_spec list"
  efCoherence :: coherence_spec
  efCoherenceChanged :: bool

text \<open>
  \<open>OverlayPanic\<close> stands for the two places where Go would panic, a missing payload and a version
  with fewer than three parts; neither can happen with a validated overlay.
\<close>

datatype overlay_error =
    ModelNoOp
  | ExclusionNoOp
  | CodecExists
  | CodecAbsent
  | CodecUnchanged
  | CodecVersionKept
  | DependencyExists
  | DependencyAbsent
  | DependencyUnchanged
  | DependencyVersionKept
  | CoherenceUnchanged
  | CoherenceVersionKept
  | CoherenceContractVersion
  | EffectiveCodec codec_error
  | EffectiveDependency profile_error
  | EffectiveSet profile_error
  | EffectiveGraph descriptor_error
  | OverlayPanic

text \<open>\<^verbatim>\<open>removeString\<close> allocates one element less than it is given, which panics for an empty
  slice; it is only called for a value that is there.\<close>

definition removeString :: "string list \<Rightarrow> string \<Rightarrow> string list" where
  "removeString values target = filter (\<lambda>v. v \<noteq> target) values"

fun codecSpecIndex :: "codec_spec list \<Rightarrow> string \<Rightarrow> nat option" where
  "codecSpecIndex [] target = None"
| "codecSpecIndex (c # cs) target =
     (if csID c = target then Some 0 else map_option Suc (codecSpecIndex cs target))"

fun dependencySpecIndex :: "dependency_spec list \<Rightarrow> string \<Rightarrow> nat option" where
  "dependencySpecIndex [] target = None"
| "dependencySpecIndex (d # ds) target =
     (if dsID d = target then Some 0 else map_option Suc (dependencySpecIndex ds target))"

definition coherenceSemanticsChanged :: "coherence_spec \<Rightarrow> coherence_spec \<Rightarrow> bool" where
  "coherenceSemanticsChanged first second \<longleftrightarrow>
     first\<lparr>cpVersion := []\<rparr> \<noteq> second\<lparr>cpVersion := []\<rparr>"

text \<open>The two guards of a replacement: it changes something, and its version is newer.\<close>

definition check_replacement :: "bool \<Rightarrow> version \<Rightarrow> version \<Rightarrow> overlay_error \<Rightarrow> overlay_error
    \<Rightarrow> overlay_error outcome" where
  "check_replacement changed newer older unchanged kept =
     (if \<not> changed then Some unchanged
      else (case compareVersion newer older of
          None \<Rightarrow> Some OverlayPanic
        | Some i \<Rightarrow> if i \<le> 0 then Some kept else None))"

definition apply_applicability :: "overlay_error \<Rightarrow> overlay_delta \<Rightarrow> string list
    \<Rightarrow> overlay_error + string list" where
  "apply_applicability noOp delta values =
     (let exists = odApplicabilityValue delta \<in> set values in
      if (odOperation delta = OverlayDeltaAdd \<and> exists)
         \<or> (odOperation delta = OverlayDeltaRemove \<and> \<not> exists) then Inl noOp
      else if odOperation delta = OverlayDeltaAdd then Inr (values @ [odApplicabilityValue delta])
      else Inr (removeString values (odApplicabilityValue delta)))"

definition apply_codec :: "overlay_delta \<Rightarrow> codec_spec list \<Rightarrow> overlay_error + codec_spec list" where
  "apply_codec delta codecs =
     (let index = codecSpecIndex codecs (odTargetID delta) in
      if odOperation delta = OverlayDeltaAdd \<and> index \<noteq> None then Inl CodecExists
      else (case odCodec delta of
          None \<Rightarrow> (if odOperation delta \<noteq> OverlayDeltaAdd \<and> index = None then Inl CodecAbsent
                   else Inl OverlayPanic)
        | Some replacement \<Rightarrow>
            if odOperation delta = OverlayDeltaAdd then Inr (codecs @ [replacement])
            else (case index of
                None \<Rightarrow> Inl CodecAbsent
              | Some i \<Rightarrow>
                  (case check_replacement (codecSemanticsChanged (codecs ! i) replacement)
                          (csVersion replacement) (csVersion (codecs ! i))
                          CodecUnchanged CodecVersionKept of
                     Some e \<Rightarrow> Inl e
                   | None \<Rightarrow> Inr (codecs[i := replacement])))))"

definition apply_dependency :: "overlay_delta \<Rightarrow> dependency_spec list
    \<Rightarrow> overlay_error + dependency_spec list" where
  "apply_dependency delta dependencies =
     (let index = dependencySpecIndex dependencies (odTargetID delta) in
      if odOperation delta = OverlayDeltaAdd then
        (if index \<noteq> None then Inl DependencyExists
         else (case odDependency delta of
             None \<Rightarrow> Inl OverlayPanic
           | Some d \<Rightarrow> Inr (dependencies @ [d])))
      else if odOperation delta = OverlayDeltaReplace then
        (case index of
           None \<Rightarrow> Inl DependencyAbsent
         | Some i \<Rightarrow> (case odDependency delta of
               None \<Rightarrow> Inl OverlayPanic
             | Some replacement \<Rightarrow>
                 (case check_replacement (dependencySemanticsChanged (dependencies ! i) replacement)
                         (dsVersion replacement) (dsVersion (dependencies ! i))
                         DependencyUnchanged DependencyVersionKept of
                    Some e \<Rightarrow> Inl e
                  | None \<Rightarrow> Inr (dependencies[i := replacement]))))
      else if odOperation delta = OverlayDeltaRemove then
        (case index of
           None \<Rightarrow> Inl DependencyAbsent
         | Some i \<Rightarrow> Inr (take i dependencies @ drop (Suc i) dependencies))
      else Inr dependencies)"

definition apply_coherence :: "overlay_delta \<Rightarrow> coherence_spec \<Rightarrow> overlay_error + coherence_spec" where
  "apply_coherence delta coherence =
     (case odCoherence delta of
        None \<Rightarrow> Inl OverlayPanic
      | Some replacement \<Rightarrow>
          (case check_replacement (coherenceSemanticsChanged coherence replacement)
                  (cpVersion replacement) (cpVersion coherence) CoherenceUnchanged CoherenceVersionKept of
             Some e \<Rightarrow> Inl e
           | None \<Rightarrow> Inr replacement))"

definition apply_delta :: "overlay_delta \<Rightarrow> effective \<Rightarrow> overlay_error + effective" where
  "apply_delta delta ef =
     (if odKind delta = OverlayDeltaModelApplicability then
        map_sum id (\<lambda>v. ef\<lparr>efModels := v\<rparr>) (apply_applicability ModelNoOp delta (efModels ef))
      else if odKind delta = OverlayDeltaKnownExclusion then
        map_sum id (\<lambda>v. ef\<lparr>efExclusions := v\<rparr>)
          (apply_applicability ExclusionNoOp delta (efExclusions ef))
      else if odKind delta = OverlayDeltaCodec then
        map_sum id (\<lambda>v. ef\<lparr>efCodecs := v\<rparr>) (apply_codec delta (efCodecs ef))
      else if odKind delta = OverlayDeltaDependency then
        map_sum id (\<lambda>v. ef\<lparr>efDependencies := v\<rparr>) (apply_dependency delta (efDependencies ef))
      else if odKind delta = OverlayDeltaCoherence then
        map_sum id (\<lambda>v. ef\<lparr>efCoherence := v, efCoherenceChanged := True\<rparr>)
          (apply_coherence delta (efCoherence ef))
      else Inr ef)"

fun apply_deltas :: "overlay_delta list \<Rightarrow> effective \<Rightarrow> overlay_error + effective" where
  "apply_deltas [] ef = Inr ef"
| "apply_deltas (d # ds) ef =
     (case apply_delta d ef of Inl e \<Rightarrow> Inl e | Inr ef' \<Rightarrow> apply_deltas ds ef')"

definition effective_base :: "platform \<Rightarrow> profile_spec \<Rightarrow> effective" where
  "effective_base pl base = \<lparr>efModels = declared (pfModelApplicability base),
     efExclusions = declared (pfKnownExclusions base), efCodecs = pfCodecs base,
     efDependencies = map dpSpec (set_dependencies pl (pfDependencies base)),
     efCoherence = pfCoherence base, efCoherenceChanged = False\<rparr>"

fun validate_all :: "('a \<Rightarrow> 'e + 'b) \<Rightarrow> 'a list \<Rightarrow> 'e + 'b list" where
  "validate_all f [] = Inr []"
| "validate_all f (x # xs) =
     (case f x of
        Inl e \<Rightarrow> Inl e
      | Inr y \<Rightarrow> (case validate_all f xs of Inl e \<Rightarrow> Inl e | Inr ys \<Rightarrow> Inr (y # ys)))"

text \<open>The standard family that an overlay and its base denote together.\<close>

definition effective_profile :: "profile_spec \<Rightarrow> profile_spec \<Rightarrow> effective \<Rightarrow> codec list
    \<Rightarrow> dependency_set \<Rightarrow> profile_spec" where
  "effective_profile overlay base ef codecs dependencies = \<lparr>
     pfSchemaVersion = pfSchemaVersion overlay, pfID = pfID overlay, pfVersion = pfVersion overlay,
     pfKind = ProfileStandardFamily, pfStandardApplicability = pfStandardApplicability base,
     pfModelApplicability = Some (efModels ef), pfVendorApplicability = [],
     pfKnownExclusions = Some (efExclusions ef),
     pfRuntimeContractVersion = pfRuntimeContractVersion overlay,
     pfDetectorVersion = pfDetectorVersion overlay,
     pfCodecContractVersion = pfCodecContractVersion overlay,
     pfNormalizationVersion = pfNormalizationVersion overlay,
     pfCoherenceVersion = cpVersion (efCoherence ef),
     pfQualificationVersion = pfQualificationVersion overlay, pfCodecs = codecs,
     pfDependencies = dependencies, pfCoherence = efCoherence ef,
     pfEvidence = pfEvidence base @ pfEvidence overlay, pfMaturity = pfMaturity base,
     pfDefaultEnabled = False, pfState = ProfileActive, pfRefinesProfileID = [],
     pfRefinesProfileVersion = [], pfSupersededByID = [], pfSupersededByVersion = [],
     pfOverlayDeltas = []\<rparr>"

definition validateOverlayAgainstBase :: "platform \<Rightarrow> profile_spec \<Rightarrow> profile_spec
    \<Rightarrow> overlay_error outcome" where
  "validateOverlayAgainstBase pl overlay base =
     (case apply_deltas (pfOverlayDeltas overlay) (effective_base pl base) of
        Inl e \<Rightarrow> Some e
      | Inr ef \<Rightarrow>
          if (efCoherenceChanged ef \<and> pfCoherenceVersion overlay \<noteq> cpVersion (efCoherence ef))
             \<or> (\<not> efCoherenceChanged ef \<and> pfCoherenceVersion overlay \<noteq> pfCoherenceVersion base)
          then Some CoherenceContractVersion
          else (case validate_all (NewCodec (plMaxReadRegisters pl)) (efCodecs ef) of
              Inl e \<Rightarrow> Some (EffectiveCodec e)
            | Inr codecs \<Rightarrow> (case validate_all (NewDependency pl) (efDependencies ef) of
                Inl e \<Rightarrow> Some (EffectiveDependency e)
              | Inr dependencies \<Rightarrow>
                  (case NewDependencySet pl (stVersion (pfDependencies base)) dependencies of
                     Inl e \<Rightarrow> Some (EffectiveSet e)
                   | Inr bound \<Rightarrow>
                       (case NewProfileDescriptor pl (effective_profile overlay base ef codecs bound) of
                          Inl e \<Rightarrow> Some (EffectiveGraph e)
                        | Inr _ \<Rightarrow> None)))))"

section \<open>Sorting by identity\<close>

text \<open>
  \<^verbatim>\<open>sort.Slice\<close>. Its algorithm is not specified, but the sorted list is determined when the
  elements have distinct identities and the order is that of the identities, the contract of
  \<open>keyed_order\<close>; insertion stands for it.
\<close>

fun insert_by :: "('a \<Rightarrow> 'a \<Rightarrow> bool) \<Rightarrow> 'a \<Rightarrow> 'a list \<Rightarrow> 'a list" where
  "insert_by before x [] = [x]"
| "insert_by before x (y # ys) = (if before y x then y # insert_by before x ys else x # y # ys)"

fun sort_by :: "('a \<Rightarrow> 'a \<Rightarrow> bool) \<Rightarrow> 'a list \<Rightarrow> 'a list" where
  "sort_by before [] = []"
| "sort_by before (x # xs) = insert_by before x (sort_by before xs)"

lemma insert_by_set [simp]: "set (insert_by before x xs) = insert x (set xs)"
  by (induction xs) auto

lemma sort_by_set [simp]: "set (sort_by before xs) = set xs"
  by (induction xs) auto

lemma insert_by_length [simp]: "length (insert_by before x xs) = Suc (length xs)"
  by (induction xs) auto

lemma sort_by_length [simp]: "length (sort_by before xs) = length xs"
  by (induction xs) auto

lemma str_less_asym: "str_less s t \<Longrightarrow> \<not> str_less t s"
  using str_less_trans by fastforce

lemma sorted_strings_unique:
  assumes "sorted_wrt str_less ss" and "sorted_wrt str_less ts" and "set ss = set ts"
  shows "ss = ts"
  using assms
proof (induction ss arbitrary: ts)
  case Nil
  then show ?case by simp
next
  case (Cons s ss)
  then obtain t ts' where ts: "ts = t # ts'" by (cases ts) auto
  have st: "s = t"
  proof (rule ccontr)
    assume "s \<noteq> t"
    then have "s \<in> set ts'" "t \<in> set ss" using Cons.prems(3) ts by auto
    then show False using Cons.prems(1,2) ts str_less_asym by auto
  qed
  have "s \<notin> set ss" "t \<notin> set ts'" using Cons.prems(1,2) ts by auto
  then have "set ss = set ts'" using Cons.prems(3) st ts by auto
  then show ?case using Cons ts st by auto
qed

lemma strict_keys: "sorted_wrt str_less ss \<Longrightarrow> distinct ss"
  by (induction ss) auto

locale keyed_order =
  fixes key :: "'a \<Rightarrow> string" and before :: "'a \<Rightarrow> 'a \<Rightarrow> bool"
  assumes decides: "key x \<noteq> key y \<Longrightarrow> before x y \<longleftrightarrow> str_less (key x) (key y)"
begin

lemma insert_sorted:
  assumes "sorted_wrt (\<lambda>x y. str_less (key x) (key y)) xs" and "key x \<notin> key ` set xs"
  shows "sorted_wrt (\<lambda>x y. str_less (key x) (key y)) (insert_by before x xs)"
  using assms
proof (induction xs)
  case Nil
  then show ?case by simp
next
  case (Cons y ys)
  then have other: "key y \<noteq> key x" by auto
  show ?case
  proof (cases "before y x")
    case True
    with Cons other show ?thesis by (auto simp: decides)
  next
    case False
    then have "str_less (key x) (key y)"
      using other str_less_linear [of "key x" "key y"] by (auto simp: decides)
    with False Cons show ?thesis by (auto intro: str_less_trans)
  qed
qed

lemma sorted: "distinct (map key xs) \<Longrightarrow> sorted_wrt (\<lambda>x y. str_less (key x) (key y)) (sort_by before xs)"
  by (induction xs) (auto intro!: insert_sorted)

lemma sorted_keys: "distinct (map key xs) \<Longrightarrow> sorted_wrt str_less (map key (sort_by before xs))"
  using sorted by (simp add: sorted_wrt_map)

lemma sorted_distinct: "distinct (map key xs) \<Longrightarrow> distinct (map key (sort_by before xs))"
  using sorted_keys [of xs] by (simp add: strict_keys)

text \<open>The input order of elements with distinct identities does not matter.\<close>

lemma order_irrelevant:
  assumes "distinct (map key xs)" and "set xs = set ys" and "distinct (map key ys)"
  shows "sort_by before xs = sort_by before ys"
proof -
  have "map key (sort_by before xs) = map key (sort_by before ys)"
    using sorted_strings_unique sorted_keys [OF assms(1)] sorted_keys [OF assms(3)] assms(2) by simp
  moreover have "inj_on key (set (sort_by before xs) \<union> set (sort_by before ys))"
    using assms(1,2) by (simp add: distinct_map)
  ultimately show ?thesis by (rule map_inj_on)
qed

end

section \<open>The catalogue\<close>

datatype catalog_rejection =
    CatalogSize
  | CatalogContract contract_error
  | CatalogInvalidProfile
  | CatalogDuplicate
  | CatalogProfile descriptor_error
  | OverlayBaseUnqualified
  | OverlayContractVersions
  | OverlayRejected overlay_error
  | OverlayCopiedEvidence
  | SupersessionIncoherent
  | SupersessionIdentity

type_synonym catalog = "profile list"

fun copy_profiles :: "platform \<Rightarrow> string list \<Rightarrow> profile list \<Rightarrow> catalog_rejection + profile list" where
  "copy_profiles pl seen [] = Inr []"
| "copy_profiles pl seen (p # ps) =
     (if \<not> validIdentity (pfID p) \<or> \<not> version_valid (pfVersion p) then Inl CatalogInvalidProfile
      else if pfID p \<in> set seen then Inl CatalogDuplicate
      else (case NewProfileDescriptor pl (cloneProfileSpec pl p) of
          Inl e \<Rightarrow> Inl (CatalogProfile e)
        | Inr c \<Rightarrow> (case copy_profiles pl (pfID p # seen) ps of
              Inl e \<Rightarrow> Inl e
            | Inr cs \<Rightarrow> Inr (c # cs))))"

text \<open>\<^verbatim>\<open>sort.Slice\<close> with the order of the identities (versions break ties); the identities of a
  catalogue are distinct, so every sorting algorithm gives the same list.\<close>

definition profile_before :: "profile \<Rightarrow> profile \<Rightarrow> bool" where
  "profile_before first second \<longleftrightarrow>
     (if pfID first \<noteq> pfID second then str_less (pfID first) (pfID second)
      else str_less (pfVersion first) (pfVersion second))"

interpretation profile_sort: keyed_order pfID profile_before
  by unfold_locales (simp add: profile_before_def)

definition sort_profiles :: "profile list \<Rightarrow> profile list" where
  "sort_profiles ps = sort_by profile_before ps"

definition by_id :: "profile list \<Rightarrow> (string, profile) gomap" where
  "by_id ps = fold (\<lambda>p m. gm_put (pfID p) p m) ps []"

definition check_overlay :: "platform \<Rightarrow> (string, profile) gomap \<Rightarrow> profile
    \<Rightarrow> catalog_rejection outcome" where
  "check_overlay pl byID spec =
     (case gm_get byID (pfRefinesProfileID spec) of
        None \<Rightarrow> Some OverlayBaseUnqualified
      | Some base \<Rightarrow>
          if pfVersion base \<noteq> pfRefinesProfileVersion spec \<or> pfKind base \<noteq> ProfileStandardFamily
             \<or> pfState base \<noteq> ProfileActive \<or> pfMaturity base \<noteq> MaturityQualified
          then Some OverlayBaseUnqualified
          else if pfRuntimeContractVersion spec \<noteq> pfRuntimeContractVersion base
             \<or> pfDetectorVersion spec \<noteq> pfDetectorVersion base
             \<or> pfCodecContractVersion spec \<noteq> pfCodecContractVersion base
             \<or> pfNormalizationVersion spec \<noteq> pfNormalizationVersion base
             \<or> pfQualificationVersion spec \<noteq> pfQualificationVersion base
          then Some OverlayContractVersions
          else (case validateOverlayAgainstBase pl spec base of
              Some e \<Rightarrow> Some (OverlayRejected e)
            | None \<Rightarrow>
                if \<exists>e \<in> set (pfEvidence spec). evID e \<in> set (map evID (pfEvidence base))
                then Some OverlayCopiedEvidence else None))"

definition check_supersession :: "(string, profile) gomap \<Rightarrow> profile \<Rightarrow> catalog_rejection outcome" where
  "check_supersession byID spec =
     (case gm_get byID (pfSupersededByID spec) of
        None \<Rightarrow> Some SupersessionIncoherent
      | Some target \<Rightarrow>
          if pfID target = pfID spec \<or> pfVersion target \<noteq> pfSupersededByVersion spec
             \<or> pfState target \<noteq> ProfileActive \<or> pfKind target \<noteq> pfKind spec
          then Some SupersessionIncoherent
          else if pfKind spec = ProfileVendorOverlay
             \<and> (pfRefinesProfileID target \<noteq> pfRefinesProfileID spec
                \<or> pfRefinesProfileVersion target \<noteq> pfRefinesProfileVersion spec
                \<or> pfVendorApplicability target \<noteq> pfVendorApplicability spec)
          then Some SupersessionIdentity else None)"

fun check_profiles :: "platform \<Rightarrow> (string, profile) gomap \<Rightarrow> profile list
    \<Rightarrow> catalog_rejection outcome" where
  "check_profiles pl byID [] = None"
| "check_profiles pl byID (p # ps) =
     (case (if pfKind p = ProfileVendorOverlay then check_overlay pl byID p else None) of
        Some e \<Rightarrow> Some e
      | None \<Rightarrow>
          (case (if pfState p = ProfileSuperseded then check_supersession byID p else None) of
             Some e \<Rightarrow> Some e
           | None \<Rightarrow> check_profiles pl byID ps))"

definition NewCatalog :: "platform \<Rightarrow> profile list \<Rightarrow> catalog_rejection + catalog" where
  "NewCatalog pl ps =
     (if ps = [] \<or> length ps > MaxProfileDependencies then Inl CatalogSize
      else (case preflightAggregate [AggSequence
                   (map (\<lambda>p. AggStruct False [(''spec'', profile_agg p)]) ps)] of
          Some e \<Rightarrow> Inl (CatalogContract e)
        | None \<Rightarrow> (case copy_profiles pl [] ps of
            Inl e \<Rightarrow> Inl e
          | Inr copies \<Rightarrow>
              (let result = sort_profiles copies in
               case check_profiles pl (by_id result) result of
                 Some e \<Rightarrow> Inl e
               | None \<Rightarrow> Inr result))))"

text \<open>\<^verbatim>\<open>sort.Search\<close>: the least index at which a monotone predicate holds, by bisection.\<close>

function search_between :: "(nat \<Rightarrow> bool) \<Rightarrow> nat \<Rightarrow> nat \<Rightarrow> nat" where
  "search_between f i j =
     (if i < j then
        (let h = (i + j) div 2 in
         if \<not> f h then search_between f (h + 1) j else search_between f i h)
      else i)"
  by pat_completeness auto
termination by (relation "measure (\<lambda>(f, i, j). j - i)") auto

definition sort_search :: "nat \<Rightarrow> (nat \<Rightarrow> bool) \<Rightarrow> nat" where
  "sort_search n f = search_between f 0 n"

definition Lookup :: "platform \<Rightarrow> catalog \<Rightarrow> string \<Rightarrow> profile option" where
  "Lookup pl c profileID =
     (let index = sort_search (length c) (\<lambda>i. \<not> str_less (pfID (c ! i)) profileID) in
      if length c \<le> index \<or> pfID (c ! index) \<noteq> profileID then None
      else (case NewProfileDescriptor pl (cloneProfileSpec pl (c ! index)) of
          Inl _ \<Rightarrow> None
        | Inr p \<Rightarrow> Some p))"

text \<open>\<^verbatim>\<open>Profiles\<close> rebuilds every entry and ignores the error; a failed entry would be the zero
  profile, here \<open>None\<close>.\<close>

definition Profiles :: "platform \<Rightarrow> catalog \<Rightarrow> profile option list" where
  "Profiles pl c =
     map (\<lambda>p. case NewProfileDescriptor pl (cloneProfileSpec pl p) of Inl _ \<Rightarrow> None | Inr q \<Rightarrow> Some q) c"

section \<open>Edits of a keyed list\<close>

text \<open>
  Codecs, dependencies and applicability values are lists with distinct keys that deltas edit.
  \<open>edits_at_once\<close> is what the edits of pairwise different keys amount to, whatever their order.
\<close>

datatype ('k, 'a) edit = Added 'a | Replaced 'a | Removed 'k

fun edit_key :: "('a \<Rightarrow> 'k) \<Rightarrow> ('k, 'a) edit \<Rightarrow> 'k" where
  "edit_key key (Added a) = key a"
| "edit_key key (Replaced a) = key a"
| "edit_key key (Removed k) = k"

definition added :: "('k, 'a) edit list \<Rightarrow> 'a list" where
  "added es = concat (map (\<lambda>e. case e of Added a \<Rightarrow> [a] | _ \<Rightarrow> []) es)"

definition replacement :: "('a \<Rightarrow> 'k) \<Rightarrow> ('k, 'a) edit list \<Rightarrow> 'a \<Rightarrow> 'a" where
  "replacement key es x =
     (case find (\<lambda>e. case e of Replaced a \<Rightarrow> key a = key x | _ \<Rightarrow> False) es of
        Some (Replaced a) \<Rightarrow> a
      | _ \<Rightarrow> x)"

definition edits_at_once :: "('a \<Rightarrow> 'k) \<Rightarrow> ('k, 'a) edit list \<Rightarrow> 'a list \<Rightarrow> 'a list" where
  "edits_at_once key es xs =
     map (replacement key es) (filter (\<lambda>x. Removed (key x) \<notin> set es) xs) @ added es"

text \<open>One edit as the code makes it: at the first entry with the key.\<close>

fun edit_one :: "('a \<Rightarrow> 'k) \<Rightarrow> ('k, 'a) edit \<Rightarrow> 'a list \<Rightarrow> 'a list option" where
  "edit_one key (Added a) xs = (if key a \<in> key ` set xs then None else Some (xs @ [a]))"
| "edit_one key (Replaced a) xs =
     (if key a \<notin> key ` set xs then None
      else Some (map (\<lambda>x. if key x = key a then a else x) xs))"
| "edit_one key (Removed k) xs =
     (if k \<notin> key ` set xs then None else Some (filter (\<lambda>x. key x \<noteq> k) xs))"

fun edit_all :: "('a \<Rightarrow> 'k) \<Rightarrow> ('k, 'a) edit list \<Rightarrow> 'a list \<Rightarrow> 'a list option" where
  "edit_all key [] xs = Some xs"
| "edit_all key (e # es) xs = Option.bind (edit_one key e xs) (edit_all key es)"

lemma replacement_other: "key x \<notin> edit_key key ` set es \<Longrightarrow> replacement key es x = x"
  by (induction es) (auto simp: replacement_def split: edit.splits)

lemma replacement_Cons:
  "replacement key (e # es) x =
     (case e of Replaced a \<Rightarrow> if key a = key x then a else replacement key es x
      | _ \<Rightarrow> replacement key es x)"
  by (simp add: replacement_def split: edit.split)

lemma replacement_key [simp]: "key (replacement key es x) = key x"
  by (induction es) (auto simp: replacement_Cons replacement_def [of key "[]"] split: edit.split)

lemma added_Cons: "added (e # es) = (case e of Added a \<Rightarrow> a # added es | _ \<Rightarrow> added es)"
  by (simp add: added_def split: edit.split)

lemma edit_key_removed: "k \<notin> edit_key key ` set es \<Longrightarrow> Removed k \<notin> set es"
  by force

lemma edit_step:
  assumes "edit_one key e xs = Some ys" and "edit_key key e \<notin> edit_key key ` set es"
  shows "edits_at_once key es ys = edits_at_once key (e # es) xs"
proof (cases e)
  case (Added a)
  then have "ys = xs @ [a]" and k: "key a \<notin> edit_key key ` set es"
    using assms by (auto split: if_splits)
  moreover have "replacement key (e # es) = replacement key es"
    by (rule ext) (simp add: replacement_Cons Added)
  ultimately show ?thesis
    using Added replacement_other [OF k] edit_key_removed [OF k]
    by (simp add: edits_at_once_def added_Cons)
next
  case (Replaced a)
  then have ys: "ys = map (\<lambda>x. if key x = key a then a else x) xs" and k: "key a \<notin> edit_key key ` set es"
    using assms by (auto split: if_splits)
  have "map (replacement key es) (filter (\<lambda>x. Removed (key x) \<notin> set es) ys)
      = map (replacement key (e # es)) (filter (\<lambda>x. Removed (key x) \<notin> set (e # es)) xs)"
    unfolding ys Replaced using replacement_other [OF k] edit_key_removed [OF k]
    by (induction xs) (auto simp: replacement_Cons)
  then show ?thesis by (simp add: edits_at_once_def added_Cons Replaced)
next
  case (Removed k)
  then have ys: "ys = filter (\<lambda>x. key x \<noteq> k) xs"
    using assms by (auto split: if_splits)
  have "replacement key (e # es) = replacement key es"
    by (rule ext) (simp add: replacement_Cons Removed)
  then show ?thesis
    unfolding ys Removed by (auto simp: edits_at_once_def added_Cons intro: arg_cong [of _ _ "map f" for f] filter_cong)
qed

lemma edit_all_at_once:
  "edit_all key es xs = Some ys \<Longrightarrow> distinct (map (edit_key key) es) \<Longrightarrow> ys = edits_at_once key es xs"
proof (induction es arbitrary: xs)
  case Nil
  have "replacement key [] = (\<lambda>x. x)" by (rule ext) (simp add: replacement_def)
  with Nil show ?case by (simp add: edits_at_once_def added_def)
next
  case (Cons e es)
  from Cons.prems(1) obtain zs where z: "edit_one key e xs = Some zs" "edit_all key es zs = Some ys"
    by (auto simp: bind_eq_Some_conv)
  have "edit_key key e \<notin> edit_key key ` set es" using Cons.prems(2) by simp
  with Cons.IH [OF z(2)] edit_step [OF z(1)] Cons.prems(2) show ?case by simp
qed

lemma edit_one_distinct:
  assumes "edit_one key e xs = Some ys" and "distinct (map key xs)"
  shows "distinct (map key ys)"
proof (cases e)
  case (Replaced a)
  then have "map key ys = map key xs" using assms(1) by (auto split: if_splits)
  with assms(2) show ?thesis by metis
qed (use assms in \<open>auto simp: distinct_map_filter split: if_splits\<close>)

text \<open>Edits by index are edits by key.\<close>

lemma update_by_key:
  assumes "i < length xs" and "key (xs ! i) = key a" and "distinct (map key xs)"
  shows "xs[i := a] = map (\<lambda>x. if key x = key a then a else x) xs"
proof (rule nth_equalityI)
  fix j assume j: "j < length (xs[i := a])"
  have "key (xs ! j) = key (xs ! i) \<longleftrightarrow> j = i"
    using nth_eq_iff_index_eq [OF assms(3), of j i] j assms(1) by simp
  with j assms(2) show "xs[i := a] ! j = map (\<lambda>x. if key x = key a then a else x) xs ! j"
    by (auto simp: nth_list_update)
qed simp

lemma delete_by_key:
  assumes "i < length xs" and "key (xs ! i) = k" and "distinct (map key xs)"
  shows "take i xs @ drop (Suc i) xs = filter (\<lambda>x. key x \<noteq> k) xs"
proof -
  have x: "xs = take i xs @ xs ! i # drop (Suc i) xs" using assms(1) by (rule id_take_nth_drop)
  have "distinct (map key (take i xs @ xs ! i # drop (Suc i) xs))" using assms(3) x by simp
  then have k: "k \<notin> key ` set (take i xs)" "k \<notin> key ` set (drop (Suc i) xs)" using assms(2) by auto
  have "filter (\<lambda>x. key x \<noteq> k) (take i xs) = take i xs"
    "filter (\<lambda>x. key x \<noteq> k) (drop (Suc i) xs) = drop (Suc i) xs"
    by (intro filter_True ballI; use k in force)+
  then have "filter (\<lambda>x. key x \<noteq> k) (take i xs @ xs ! i # drop (Suc i) xs)
      = take i xs @ drop (Suc i) xs"
    using assms(2) by simp
  with x show ?thesis by simp
qed

lemma codec_index:
  "codecSpecIndex cs k = Some i \<Longrightarrow> i < length cs \<and> csID (cs ! i) = k"
  "codecSpecIndex cs k = None \<longleftrightarrow> k \<notin> csID ` set cs"
proof -
  show "codecSpecIndex cs k = Some i \<Longrightarrow> i < length cs \<and> csID (cs ! i) = k"
    by (induction cs arbitrary: i) (auto split: if_splits)
  show "codecSpecIndex cs k = None \<longleftrightarrow> k \<notin> csID ` set cs"
    by (induction cs) auto
qed

lemma dependency_index:
  "dependencySpecIndex ds k = Some i \<Longrightarrow> i < length ds \<and> dsID (ds ! i) = k"
  "dependencySpecIndex ds k = None \<longleftrightarrow> k \<notin> dsID ` set ds"
proof -
  show "dependencySpecIndex ds k = Some i \<Longrightarrow> i < length ds \<and> dsID (ds ! i) = k"
    by (induction ds arbitrary: i) (auto split: if_splits)
  show "dependencySpecIndex ds k = None \<longleftrightarrow> k \<notin> dsID ` set ds"
    by (induction ds) auto
qed

section \<open>Deltas as edits\<close>

definition value_edits :: "string \<Rightarrow> overlay_delta list \<Rightarrow> (string, string) edit list" where
  "value_edits kind ds = concat (map (\<lambda>d.
     if odKind d \<noteq> kind then []
     else if odOperation d = OverlayDeltaAdd then [Added (odApplicabilityValue d)]
     else [Removed (odApplicabilityValue d)]) ds)"

definition codec_edits :: "overlay_delta list \<Rightarrow> (string, codec_spec) edit list" where
  "codec_edits ds = concat (map (\<lambda>d.
     if odKind d \<noteq> OverlayDeltaCodec then []
     else (case odCodec d of None \<Rightarrow> []
       | Some c \<Rightarrow> [if odOperation d = OverlayDeltaAdd then Added c else Replaced c])) ds)"

definition dependency_edits :: "overlay_delta list \<Rightarrow> (string, dependency_spec) edit list" where
  "dependency_edits ds = concat (map (\<lambda>d.
     if odKind d \<noteq> OverlayDeltaDependency then []
     else (case odDependency d of None \<Rightarrow> [Removed (odTargetID d)]
       | Some c \<Rightarrow> [if odOperation d = OverlayDeltaAdd then Added c else Replaced c])) ds)"

text \<open>What the validation of an overlay says of one delta.\<close>

definition delta_ok :: "overlay_delta \<Rightarrow> bool" where
  "delta_ok d \<longleftrightarrow>
     (odKind d \<in> {OverlayDeltaModelApplicability, OverlayDeltaKnownExclusion} \<longrightarrow>
        odOperation d \<in> {OverlayDeltaAdd, OverlayDeltaRemove})
     \<and> (odKind d = OverlayDeltaCodec \<longrightarrow> odOperation d \<in> {OverlayDeltaAdd, OverlayDeltaReplace}
        \<and> (\<exists>c. odCodec d = Some c \<and> csID c = odTargetID d))
     \<and> (odKind d = OverlayDeltaDependency \<longrightarrow>
        (odOperation d \<in> {OverlayDeltaAdd, OverlayDeltaReplace}
           \<and> (\<exists>c. odDependency d = Some c \<and> dsID c = odTargetID d))
        \<or> odOperation d = OverlayDeltaRemove \<and> odDependency d = None)
     \<and> (odKind d = OverlayDeltaCoherence \<longrightarrow> odTargetID d = ''coherence-policy'')"

lemma checked_delta:
  assumes "check_delta_shape d = None" and "check_delta_payload pl d = None"
  shows "delta_ok d"
proof -
  have kinds: "OverlayDeltaModelApplicability \<noteq> OverlayDeltaCodec"
    "OverlayDeltaModelApplicability \<noteq> OverlayDeltaDependency"
    "OverlayDeltaKnownExclusion \<noteq> OverlayDeltaCodec"
    "OverlayDeltaKnownExclusion \<noteq> OverlayDeltaDependency"
    "OverlayDeltaCodec \<noteq> OverlayDeltaDependency"
    "OverlayDeltaAdd \<noteq> OverlayDeltaRemove" "OverlayDeltaReplace \<noteq> OverlayDeltaRemove"
    by (simp_all add: profile_consts)
  have a: "odOperation d \<in> {OverlayDeltaAdd, OverlayDeltaRemove}"
    if "odKind d \<in> {OverlayDeltaModelApplicability, OverlayDeltaKnownExclusion}"
    using assms(1) that by (auto simp: check_delta_shape_def split: if_splits)
  have c: "odOperation d \<in> {OverlayDeltaAdd, OverlayDeltaReplace}
      \<and> (\<exists>c. odCodec d = Some c \<and> csID c = odTargetID d)" if "odKind d = OverlayDeltaCodec"
    using assms that kinds
    by (auto simp: check_delta_shape_def check_delta_payload_def dest: NewCodec_Inr(1)
        split: if_splits option.splits sum.splits)
  have p: "(odOperation d \<in> {OverlayDeltaAdd, OverlayDeltaReplace}
           \<and> (\<exists>c. odDependency d = Some c \<and> dsID c = odTargetID d))
        \<or> odOperation d = OverlayDeltaRemove \<and> odDependency d = None"
    if "odKind d = OverlayDeltaDependency"
    using assms(2) that kinds
    by (auto simp: check_delta_payload_def dest!: NewDependency_Inr(1)
        split: if_splits option.splits sum.splits)
  have h: "odTargetID d = ''coherence-policy''" if "odKind d = OverlayDeltaCoherence"
    using assms(1) that by (auto simp: check_delta_shape_def profile_consts split: if_splits)
  from a c p h show ?thesis by (simp add: delta_ok_def)
qed

lemma check_deltas_None:
  "check_deltas pl ev seen targets ds = None \<Longrightarrow>
     list_all delta_ok ds \<and> distinct (map delta_target ds) \<and> delta_target ` set ds \<inter> set targets = {}"
proof (induction ds arbitrary: seen targets)
  case Nil
  then show ?case by simp
next
  case (Cons d ds)
  from Cons.prems have d: "check_delta_shape d = None" "check_delta_payload pl d = None"
    "delta_target d \<notin> set targets"
    and rest: "check_deltas pl ev (odID d # seen) (delta_target d # targets) ds = None"
    by (auto split: if_splits option.splits)
  from Cons.IH [OF rest] checked_delta [OF d(1,2)] d(3) show ?case by auto
qed

lemma edits_snoc [simp]:
  "value_edits kind [] = []" "codec_edits [] = []" "dependency_edits [] = []"
  by (simp_all add: value_edits_def codec_edits_def dependency_edits_def)

lemma value_edits_Cons: "value_edits kind (d # ds) = value_edits kind [d] @ value_edits kind ds"
  by (simp add: value_edits_def)

lemma codec_edits_Cons: "codec_edits (d # ds) = codec_edits [d] @ codec_edits ds"
  by (simp add: codec_edits_def)

lemma dependency_edits_Cons: "dependency_edits (d # ds) = dependency_edits [d] @ dependency_edits ds"
  by (simp add: dependency_edits_def)

lemma edit_all_append:
  "edit_all key (es @ fs) xs = Option.bind (edit_all key es xs) (edit_all key fs)"
proof (induction es arbitrary: xs)
  case Nil
  then show ?case by simp
next
  case (Cons e es)
  then show ?case by (cases "edit_one key e xs") simp_all
qed

lemma edit_all_distinct:
  "edit_all key es xs = Some ys \<Longrightarrow> distinct (map key xs) \<Longrightarrow> distinct (map key ys)"
  by (induction es arbitrary: xs) (auto simp: bind_eq_Some_conv dest: edit_one_distinct)

lemma kinds_differ [simp]:
  "OverlayDeltaModelApplicability \<noteq> OverlayDeltaKnownExclusion"
  "OverlayDeltaModelApplicability \<noteq> OverlayDeltaCodec"
  "OverlayDeltaModelApplicability \<noteq> OverlayDeltaDependency"
  "OverlayDeltaModelApplicability \<noteq> OverlayDeltaCoherence"
  "OverlayDeltaKnownExclusion \<noteq> OverlayDeltaModelApplicability"
  "OverlayDeltaKnownExclusion \<noteq> OverlayDeltaCodec"
  "OverlayDeltaKnownExclusion \<noteq> OverlayDeltaDependency"
  "OverlayDeltaKnownExclusion \<noteq> OverlayDeltaCoherence"
  "OverlayDeltaCodec \<noteq> OverlayDeltaModelApplicability"
  "OverlayDeltaCodec \<noteq> OverlayDeltaKnownExclusion"
  "OverlayDeltaCodec \<noteq> OverlayDeltaDependency" "OverlayDeltaCodec \<noteq> OverlayDeltaCoherence"
  "OverlayDeltaDependency \<noteq> OverlayDeltaModelApplicability"
  "OverlayDeltaDependency \<noteq> OverlayDeltaKnownExclusion"
  "OverlayDeltaDependency \<noteq> OverlayDeltaCodec" "OverlayDeltaDependency \<noteq> OverlayDeltaCoherence"
  "OverlayDeltaCoherence \<noteq> OverlayDeltaModelApplicability"
  "OverlayDeltaCoherence \<noteq> OverlayDeltaKnownExclusion"
  "OverlayDeltaCoherence \<noteq> OverlayDeltaCodec" "OverlayDeltaCoherence \<noteq> OverlayDeltaDependency"
  "OverlayDeltaAdd \<noteq> OverlayDeltaRemove" "OverlayDeltaRemove \<noteq> OverlayDeltaAdd"
  "OverlayDeltaAdd \<noteq> OverlayDeltaReplace" "OverlayDeltaReplace \<noteq> OverlayDeltaAdd"
  "OverlayDeltaReplace \<noteq> OverlayDeltaRemove" "OverlayDeltaRemove \<noteq> OverlayDeltaReplace"
  by (simp_all add: profile_consts)

lemma applied_values:
  assumes "apply_applicability noOp d vs = Inr ws"
    and "odOperation d \<in> {OverlayDeltaAdd, OverlayDeltaRemove}" and "odKind d = kind"
  shows "edit_all (\<lambda>v. v) (value_edits kind [d]) vs = Some ws"
  using assms by (auto simp: apply_applicability_def value_edits_def removeString_def Let_def split: if_splits)

lemma applied_codec:
  assumes "apply_codec d cs = Inr cs'" and "delta_ok d" and "odKind d = OverlayDeltaCodec"
    and "distinct (map csID cs)"
  shows "edit_all csID (codec_edits [d]) cs = Some cs'"
proof -
  from assms(2,3) obtain c where op: "odOperation d = OverlayDeltaAdd \<or> odOperation d = OverlayDeltaReplace"
    and c: "odCodec d = Some c" "csID c = odTargetID d"
    by (auto simp: delta_ok_def)
  show ?thesis
  proof (cases "codecSpecIndex cs (odTargetID d)")
    case None
    then have "odTargetID d \<notin> csID ` set cs" by (simp add: codec_index)
    with None op c assms(1,3) show ?thesis by (auto simp: apply_codec_def codec_edits_def Let_def)
  next
    case (Some i)
    note at = codec_index(1) [OF Some]
    then have k: "csID c \<in> csID ` set cs" using c(2) by (metis image_eqI nth_mem)
    with Some op c assms(1,3) update_by_key [of i cs csID c] at assms(4) show ?thesis
      by (auto simp: apply_codec_def codec_edits_def Let_def split: option.splits)
  qed
qed

lemma applied_dependency:
  assumes "apply_dependency d ds = Inr ds'" and "delta_ok d" and "odKind d = OverlayDeltaDependency"
    and "distinct (map dsID ds)"
  shows "edit_all dsID (dependency_edits [d]) ds = Some ds'"
proof (cases "odOperation d = OverlayDeltaRemove")
  case True
  then have none: "odDependency d = None" using assms(2,3) by (auto simp: delta_ok_def)
  with True assms(1) obtain i where i: "dependencySpecIndex ds (odTargetID d) = Some i"
    "ds' = take i ds @ drop (Suc i) ds"
    by (auto simp: apply_dependency_def Let_def split: option.splits)
  note at = dependency_index(1) [OF i(1)]
  then have "odTargetID d \<in> dsID ` set ds" by (metis image_eqI nth_mem)
  then show ?thesis
    using none assms(3) i(2) delete_by_key [of i ds dsID "odTargetID d"] at assms(4)
    by (simp add: dependency_edits_def)
next
  case False
  with assms(2,3) obtain c where op: "odOperation d = OverlayDeltaAdd \<or> odOperation d = OverlayDeltaReplace"
    and c: "odDependency d = Some c" "dsID c = odTargetID d"
    by (auto simp: delta_ok_def)
  show ?thesis
  proof (cases "dependencySpecIndex ds (odTargetID d)")
    case None
    then have "odTargetID d \<notin> dsID ` set ds" by (simp add: dependency_index)
    with None op c assms(1,3) show ?thesis by (auto simp: apply_dependency_def dependency_edits_def Let_def)
  next
    case (Some i)
    note at = dependency_index(1) [OF Some]
    then have k: "dsID c \<in> dsID ` set ds" using c(2) by (metis image_eqI nth_mem)
    with Some op c assms(1,3) update_by_key [of i ds dsID c] at assms(4) show ?thesis
      by (auto simp: apply_dependency_def dependency_edits_def Let_def split: option.splits)
  qed
qed

text \<open>The state of a walk over the deltas, as edits of the state it started from.\<close>

definition edited :: "overlay_delta list \<Rightarrow> effective \<Rightarrow> effective \<Rightarrow> bool" where
  "edited ds ef ef' \<longleftrightarrow>
     edit_all (\<lambda>v. v) (value_edits OverlayDeltaModelApplicability ds) (efModels ef) = Some (efModels ef')
     \<and> edit_all (\<lambda>v. v) (value_edits OverlayDeltaKnownExclusion ds) (efExclusions ef)
         = Some (efExclusions ef')
     \<and> edit_all csID (codec_edits ds) (efCodecs ef) = Some (efCodecs ef')
     \<and> edit_all dsID (dependency_edits ds) (efDependencies ef) = Some (efDependencies ef')"

definition keys_distinct :: "effective \<Rightarrow> bool" where
  "keys_distinct ef \<longleftrightarrow> distinct (map csID (efCodecs ef)) \<and> distinct (map dsID (efDependencies ef))"

lemma apply_delta_edited:
  assumes ap: "apply_delta d ef = Inr ef'" and ok: "delta_ok d" and ds: "keys_distinct ef"
  shows "edited [d] ef ef'"
proof -
  consider (model) "odKind d = OverlayDeltaModelApplicability"
    | (exclusion) "odKind d = OverlayDeltaKnownExclusion" | (codec) "odKind d = OverlayDeltaCodec"
    | (dependency) "odKind d = OverlayDeltaDependency" | (coherence) "odKind d = OverlayDeltaCoherence"
    | (other) "odKind d \<notin> {OverlayDeltaModelApplicability, OverlayDeltaKnownExclusion,
        OverlayDeltaCodec, OverlayDeltaDependency, OverlayDeltaCoherence}" by blast
  then show ?thesis
  proof cases
    case model
    then have op: "odOperation d \<in> {OverlayDeltaAdd, OverlayDeltaRemove}" using ok by (simp add: delta_ok_def)
    from ap model obtain v where v: "apply_applicability ModelNoOp d (efModels ef) = Inr v"
      "ef' = ef\<lparr>efModels := v\<rparr>"
      by (cases "apply_applicability ModelNoOp d (efModels ef)") (auto simp: apply_delta_def)
    show ?thesis using applied_values [OF v(1) op model] v(2) model
      by (simp add: edited_def) (simp add: value_edits_def codec_edits_def dependency_edits_def)
  next
    case exclusion
    then have op: "odOperation d \<in> {OverlayDeltaAdd, OverlayDeltaRemove}" using ok by (simp add: delta_ok_def)
    from ap exclusion obtain v where v: "apply_applicability ExclusionNoOp d (efExclusions ef) = Inr v"
      "ef' = ef\<lparr>efExclusions := v\<rparr>"
      by (cases "apply_applicability ExclusionNoOp d (efExclusions ef)") (auto simp: apply_delta_def)
    show ?thesis using applied_values [OF v(1) op exclusion] v(2) exclusion
      by (simp add: edited_def) (simp add: value_edits_def codec_edits_def dependency_edits_def)
  next
    case codec
    from ap codec obtain v where v: "apply_codec d (efCodecs ef) = Inr v" "ef' = ef\<lparr>efCodecs := v\<rparr>"
      by (cases "apply_codec d (efCodecs ef)") (auto simp: apply_delta_def)
    show ?thesis using applied_codec [OF v(1) ok codec] ds v(2) codec
      by (simp add: edited_def keys_distinct_def) (simp add: value_edits_def dependency_edits_def)
  next
    case dependency
    from ap dependency obtain v where v: "apply_dependency d (efDependencies ef) = Inr v"
      "ef' = ef\<lparr>efDependencies := v\<rparr>"
      by (cases "apply_dependency d (efDependencies ef)") (auto simp: apply_delta_def)
    show ?thesis using applied_dependency [OF v(1) ok dependency] ds v(2) dependency
      by (simp add: edited_def keys_distinct_def) (simp add: value_edits_def codec_edits_def)
  next
    case coherence
    from ap coherence obtain v where "ef' = ef\<lparr>efCoherence := v, efCoherenceChanged := True\<rparr>"
      by (cases "apply_coherence d (efCoherence ef)") (auto simp: apply_delta_def)
    with coherence show ?thesis by (simp add: edited_def value_edits_def codec_edits_def dependency_edits_def)
  next
    case other
    with ap have "ef' = ef" by (simp add: apply_delta_def)
    with other show ?thesis by (simp add: edited_def value_edits_def codec_edits_def dependency_edits_def)
  qed
qed

lemma edited_distinct: "edited ds ef ef' \<Longrightarrow> keys_distinct ef \<Longrightarrow> keys_distinct ef'"
  by (auto simp: edited_def keys_distinct_def dest: edit_all_distinct)

lemma apply_deltas_edited:
  assumes "apply_deltas ds ef = Inr ef'" and "list_all delta_ok ds" and "keys_distinct ef"
  shows "edited ds ef ef'"
  using assms
proof (induction ds arbitrary: ef)
  case Nil
  then show ?case by (simp add: edited_def)
next
  case (Cons d ds)
  then obtain ef1 where s: "apply_delta d ef = Inr ef1" "apply_deltas ds ef1 = Inr ef'"
    by (auto split: sum.splits)
  have e: "edited [d] ef ef1" using apply_delta_edited [OF s(1)] Cons.prems by simp
  have "edited ds ef1 ef'" using Cons.IH [OF s(2)] Cons.prems edited_distinct [OF e] by simp
  with e show ?case 
    by (simp add: edited_def value_edits_Cons [of _ d ds] codec_edits_Cons [of d ds]
        dependency_edits_Cons [of d ds] edit_all_append)
qed

text \<open>Different targets make different edit keys.\<close>

lemma value_edit_target:
  "kind = OverlayDeltaModelApplicability \<or> kind = OverlayDeltaKnownExclusion \<Longrightarrow>
     k \<in> edit_key (\<lambda>v. v) ` set (value_edits kind ds) \<Longrightarrow>
     kind @ CHR '':'' # k \<in> delta_target ` set ds"
proof (induction ds)
  case Nil
  then show ?case by simp
next
  case (Cons d ds)
  have "kind @ CHR '':'' # k = delta_target d" if "k \<in> edit_key (\<lambda>v. v) ` set (value_edits kind [d])"
    using that Cons.prems(1) by (auto simp: value_edits_def delta_target_def split: if_splits)
  with Cons show ?case by (auto simp: value_edits_Cons [of _ d ds])
qed

lemma codec_edit_target:
  "list_all delta_ok ds \<Longrightarrow> k \<in> edit_key csID ` set (codec_edits ds) \<Longrightarrow>
     OverlayDeltaCodec @ CHR '':'' # k \<in> delta_target ` set ds"
proof (induction ds)
  case Nil
  then show ?case by simp
next
  case (Cons d ds)
  have "OverlayDeltaCodec @ CHR '':'' # k = delta_target d" if "k \<in> edit_key csID ` set (codec_edits [d])"
    using that Cons.prems(1)
    by (auto simp: codec_edits_def delta_target_def delta_ok_def split: if_splits option.splits)
  with Cons show ?case by (auto simp: codec_edits_Cons [of d ds])
qed

lemma dependency_edit_target:
  "list_all delta_ok ds \<Longrightarrow> k \<in> edit_key dsID ` set (dependency_edits ds) \<Longrightarrow>
     OverlayDeltaDependency @ CHR '':'' # k \<in> delta_target ` set ds"
proof (induction ds)
  case Nil
  then show ?case by simp
next
  case (Cons d ds)
  have "OverlayDeltaDependency @ CHR '':'' # k = delta_target d"
    if "k \<in> edit_key dsID ` set (dependency_edits [d])"
    using that Cons.prems(1)
    by (auto simp: dependency_edits_def delta_target_def delta_ok_def split: if_splits option.splits)
  with Cons show ?case by (auto simp: dependency_edits_Cons [of d ds])
qed

lemma value_edits_distinct:
  assumes "distinct (map delta_target ds)"
    and "kind = OverlayDeltaModelApplicability \<or> kind = OverlayDeltaKnownExclusion"
  shows "distinct (map (edit_key (\<lambda>v. v)) (value_edits kind ds))"
  using assms(1)
proof (induction ds)
  case Nil
  then show ?case by simp
next
  case (Cons d ds)
  show ?case
  proof (cases "odKind d = kind")
    case True
    then have t: "delta_target d = kind @ CHR '':'' # odApplicabilityValue d"
      using assms(2) by (auto simp: delta_target_def)
    have "delta_target d \<notin> delta_target ` set ds" using Cons.prems by simp
    then have "odApplicabilityValue d \<notin> edit_key (\<lambda>v. v) ` set (value_edits kind ds)"
      using value_edit_target [OF assms(2)] t by metis
    with Cons True show ?thesis by (simp add: value_edits_Cons [of _ d ds]) (simp add: value_edits_def)
  next
    case False
    with Cons show ?thesis by (simp add: value_edits_Cons [of _ d ds]) (simp add: value_edits_def)
  qed
qed

lemma codec_edits_distinct:
  "distinct (map delta_target ds) \<Longrightarrow> list_all delta_ok ds \<Longrightarrow>
     distinct (map (edit_key csID) (codec_edits ds))"
proof (induction ds)
  case Nil
  then show ?case by simp
next
  case (Cons d ds)
  show ?case
  proof (cases "odKind d = OverlayDeltaCodec")
    case True
    then obtain c where c: "odCodec d = Some c" "csID c = odTargetID d"
      using Cons.prems by (auto simp: delta_ok_def)
    have "delta_target d = OverlayDeltaCodec @ CHR '':'' # csID c"
      using True c by (simp add: delta_target_def)
    moreover have "delta_target d \<notin> delta_target ` set ds" using Cons.prems by simp
    ultimately have "csID c \<notin> edit_key csID ` set (codec_edits ds)"
      using codec_edit_target [of ds "csID c"] Cons.prems(2) by auto
    with Cons True c show ?thesis by (simp add: codec_edits_Cons [of d ds]) (simp add: codec_edits_def)
  next
    case False
    with Cons show ?thesis by (simp add: codec_edits_Cons [of d ds]) (simp add: codec_edits_def)
  qed
qed

lemma dependency_edits_distinct:
  "distinct (map delta_target ds) \<Longrightarrow> list_all delta_ok ds \<Longrightarrow>
     distinct (map (edit_key dsID) (dependency_edits ds))"
proof (induction ds)
  case Nil
  then show ?case by simp
next
  case (Cons d ds)
  have fresh: "delta_target d \<notin> delta_target ` set ds" using Cons.prems by simp
  show ?case
  proof (cases "odKind d = OverlayDeltaDependency")
    case True
    then have t: "delta_target d = OverlayDeltaDependency @ CHR '':'' # odTargetID d"
      by (simp add: delta_target_def)
    with fresh have "odTargetID d \<notin> edit_key dsID ` set (dependency_edits ds)"
      using dependency_edit_target [of ds "odTargetID d"] Cons.prems(2) by auto
    moreover have "map (edit_key dsID) (dependency_edits [d]) = [odTargetID d]"
      using True Cons.prems(2) by (auto simp: dependency_edits_def delta_ok_def split: option.split)
    ultimately show ?thesis using Cons by (auto simp: dependency_edits_Cons [of d ds])
  next
    case False
    with Cons show ?thesis by (simp add: dependency_edits_Cons [of d ds]) (simp add: dependency_edits_def)
  qed
qed

text \<open>The coherence policy is replaced at most once.\<close>

definition coherence_after :: "overlay_delta list \<Rightarrow> coherence_spec \<Rightarrow> coherence_spec" where
  "coherence_after ds c =
     (case find (\<lambda>d. odKind d = OverlayDeltaCoherence) ds of
        Some d \<Rightarrow> (case odCoherence d of None \<Rightarrow> c | Some c' \<Rightarrow> c')
      | None \<Rightarrow> c)"

lemma apply_delta_coherence:
  assumes "apply_delta d ef = Inr ef'"
  shows "odKind d \<noteq> OverlayDeltaCoherence \<Longrightarrow> efCoherence ef' = efCoherence ef"
    and "odKind d = OverlayDeltaCoherence \<Longrightarrow> odCoherence d = Some (efCoherence ef')"
proof -
  show "efCoherence ef' = efCoherence ef" if "odKind d \<noteq> OverlayDeltaCoherence"
    using assms that by (auto simp: apply_delta_def split: if_splits simp: map_sum_def split: sum.splits)
  show "odCoherence d = Some (efCoherence ef')" if "odKind d = OverlayDeltaCoherence"
    using assms that
    by (auto simp: apply_delta_def apply_coherence_def split: if_splits option.splits)
qed

lemma apply_deltas_coherence:
  "apply_deltas ds ef = Inr ef' \<Longrightarrow> list_all delta_ok ds \<Longrightarrow> distinct (map delta_target ds) \<Longrightarrow>
     efCoherence ef' = coherence_after ds (efCoherence ef)"
proof (induction ds arbitrary: ef)
  case Nil
  then show ?case by (simp add: coherence_after_def)
next
  case (Cons d ds)
  then obtain ef1 where s: "apply_delta d ef = Inr ef1" "apply_deltas ds ef1 = Inr ef'"
    by (auto split: sum.splits)
  have ih: "efCoherence ef' = coherence_after ds (efCoherence ef1)"
    using Cons.IH [OF s(2)] Cons.prems by simp
  show ?case
  proof (cases "odKind d = OverlayDeltaCoherence")
    case True
    have "odKind d' \<noteq> OverlayDeltaCoherence" if "d' \<in> set ds" for d'
    proof
      assume k: "odKind d' = OverlayDeltaCoherence"
      have "delta_target d' = delta_target d"
        using Cons.prems(2) True k that by (auto simp: delta_target_def delta_ok_def list_all_iff)
      with Cons.prems(3) that show False by (metis distinct.simps(2) image_eqI list.map(2) list.set_map)
    qed
    then have "find (\<lambda>d. odKind d = OverlayDeltaCoherence) ds = None" by (simp add: find_None_iff)
    with True ih apply_delta_coherence(2) [OF s(1) True] show ?thesis by (simp add: coherence_after_def)
  next
    case False
    with ih apply_delta_coherence(1) [OF s(1) False] show ?thesis by (simp add: coherence_after_def)
  qed
qed

lemma profile_keys_distinct:
  assumes "NewProfileDescriptor pl s = Inr base"
  shows "keys_distinct (effective_base pl base)"
    and "efDependencies (effective_base pl base) = map dpSpec (stDependencies (pfDependencies base))"
proof -
  have b: "built pl base" by (rule accepted_profile_built [OF assms])
  obtain codecs where "collect_codecs [] (pfCodecs base) = Inr codecs"
    using validate_profile_None [OF NewProfileDescriptor_Inr(2) [OF assms]] by metis
  note c = collect_codecs_Inr(1) [OF this]
  show d: "efDependencies (effective_base pl base) = map dpSpec (stDependencies (pfDependencies base))"
    using b by (simp add: effective_base_def built_def built_set_dependencies)
  show "keys_distinct (effective_base pl base)"
    using c b built_set_distinct [of pl "pfDependencies base"]
    by (simp add: keys_distinct_def built_def comp_def effective_base_def built_set_dependencies)
qed

section \<open>Order and search\<close>

lemma sort_profiles_set [simp]: "set (sort_profiles ps) = set ps"
  by (simp add: sort_profiles_def)

lemma sort_profiles_sorted:
  "distinct (map pfID ps) \<Longrightarrow> sorted_wrt (\<lambda>p q. str_less (pfID p) (pfID q)) (sort_profiles ps)"
  unfolding sort_profiles_def by (rule profile_sort.sorted)

declare search_between.simps [simp del]

text \<open>Bisection finds the least index of a monotone predicate.\<close>

lemma search_between_least:
  assumes "\<forall>k l. k \<le> l \<longrightarrow> l < n \<longrightarrow> f k \<longrightarrow> f l" and "i \<le> j" and "j \<le> n"
    and "\<forall>k < i. \<not> f k" and "\<forall>k. j \<le> k \<longrightarrow> k < n \<longrightarrow> f k"
  shows "search_between f i j \<le> n \<and> (\<forall>k < search_between f i j. \<not> f k)
    \<and> (search_between f i j < n \<longrightarrow> f (search_between f i j))"
  using assms
proof (induction f i j rule: search_between.induct)
  case (1 f i j)
  note mono = "1.prems"(1) [rule_format]
  show ?case
  proof (cases "i < j")
    case False
    then have s: "search_between f i j = i" by (subst search_between.simps) simp
    show ?thesis unfolding s using False "1.prems"(2-5) by simp
  next
    case True
    obtain h where h: "h = (i + j) div 2" by blast
    then have hb: "i \<le> h" "h < j" using True by auto
    show ?thesis
    proof (cases "f h")
      case fh: True
      then have s: "search_between f i j = search_between f i h"
        using True h by (subst search_between.simps) (simp add: Let_def)
      show ?thesis unfolding s
      proof (rule "1.IH"(2) [OF True h])
        show "\<not> \<not> f h" using fh by simp
        show "i \<le> h" by (rule hb(1))
        show "h \<le> n" using hb(2) "1.prems"(3) by linarith
        show "\<forall>k < i. \<not> f k" by (rule "1.prems"(4))
        show "\<forall>k. h \<le> k \<longrightarrow> k < n \<longrightarrow> f k" using mono [of h] fh by simp
      qed (rule "1.prems"(1))
    next
      case fh: False
      then have s: "search_between f i j = search_between f (h + 1) j"
        using True h by (subst search_between.simps) (simp add: Let_def)
      have "h < n" using hb(2) "1.prems"(3) by linarith
      then have below: "\<forall>k < h + 1. \<not> f k" using mono [of _ h] fh by (metis Suc_eq_plus1 less_Suc_eq_le)
      show ?thesis unfolding s
      proof (rule "1.IH"(1) [OF True h fh])
        show "h + 1 \<le> j" using hb(2) by simp
        show "j \<le> n" by (rule "1.prems"(3))
        show "\<forall>k < h + 1. \<not> f k" by (rule below)
        show "\<forall>k. j \<le> k \<longrightarrow> k < n \<longrightarrow> f k" by (rule "1.prems"(5))
      qed (rule "1.prems"(1))
    qed
  qed
qed

lemma sort_search_least:
  assumes "\<forall>k l. k \<le> l \<longrightarrow> l < n \<longrightarrow> f k \<longrightarrow> f l"
  shows "sort_search n f \<le> n" and "k < sort_search n f \<Longrightarrow> \<not> f k"
    and "sort_search n f < n \<Longrightarrow> f (sort_search n f)"
  using search_between_least [OF assms, of 0 n] by (simp_all add: sort_search_def)

text \<open>Bisection over a sorted catalogue finds the entry with the identity, if there is one.\<close>

lemma search_sorted:
  assumes sorted: "sorted_wrt (\<lambda>p q. str_less (pfID p) (pfID q)) c"
    and index: "index = sort_search (length c) (\<lambda>i. \<not> str_less (pfID (c ! i)) k)"
  shows "p \<in> set c \<and> pfID p = k \<longleftrightarrow> index < length c \<and> pfID (c ! index) = k \<and> p = c ! index"
proof -
  have le: "str_less (pfID (c ! i)) (pfID (c ! j))" if "i < j" "j < length c" for i j
    using sorted that by (simp add: sorted_wrt_iff_nth_less)
  have mono: "\<forall>i j. i \<le> j \<longrightarrow> j < length c \<longrightarrow> \<not> str_less (pfID (c ! i)) k \<longrightarrow> \<not> str_less (pfID (c ! j)) k"
  proof (intro allI impI)
    fix i j assume ij: "i \<le> j" "j < length c" "\<not> str_less (pfID (c ! i)) k"
    show "\<not> str_less (pfID (c ! j)) k"
      by (cases "i = j") (use ij le [of i j] str_less_trans in auto)
  qed
  note least = sort_search_least [OF mono, folded index]
  show ?thesis
  proof
    assume "p \<in> set c \<and> pfID p = k"
    then obtain i where i: "i < length c" "p = c ! i" "pfID (c ! i) = k"
      by (auto simp: in_set_conv_nth)
    have "\<not> index > i" using least(2) [of i] i(3) by auto
    moreover have "\<not> index < i"
    proof
      assume "index < i"
      then have "str_less (pfID (c ! index)) k" using le [of index i] i by simp
      moreover have "\<not> str_less (pfID (c ! index)) k" using least(3) \<open>index < i\<close> i(1) by simp
      ultimately show False by simp
    qed
    ultimately show "index < length c \<and> pfID (c ! index) = k \<and> p = c ! index" using i by simp
  qed (use nth_mem in auto)
qed

lemma copy_profiles_same:
  assumes "copy_profiles pl seen ps = Inr cs" and "\<forall>p \<in> set ps. NewProfileDescriptor pl p = Inr p"
  shows "cs = ps" and "distinct (map pfID ps)"
proof -
  have "cs = ps \<and> distinct (map pfID ps) \<and> pfID ` set ps \<inter> set seen = {}"
    using assms
  proof (induction ps arbitrary: seen cs)
    case Nil
    then show ?case by simp
  next
    case (Cons p ps)
    have p: "NewProfileDescriptor pl (cloneProfileSpec pl p) = Inr p"
      using Cons.prems(2) clone_built [OF accepted_profile_built] by fastforce
    with Cons.prems(1) obtain cs' where s: "cs = p # cs'" "pfID p \<notin> set seen"
      "copy_profiles pl (pfID p # seen) ps = Inr cs'"
      by (auto split: if_splits sum.splits)
    with Cons.IH [OF s(3)] Cons.prems(2) show ?case by auto
  qed
  then show "cs = ps" "distinct (map pfID ps)" by blast+
qed

lemma NewCatalog_Inr:
  assumes "NewCatalog pl ps = Inr c" and "\<forall>p \<in> set ps. NewProfileDescriptor pl p = Inr p"
  shows "c = sort_profiles ps" and "distinct (map pfID ps)" and "check_profiles pl (by_id c) c = None"
    and "ps \<noteq> []" and "length ps \<le> MaxProfileDependencies"
proof -
  obtain cs where "copy_profiles pl [] ps = Inr cs" "c = sort_profiles cs"
    "check_profiles pl (by_id c) c = None"
    using assms(1) by (auto simp: NewCatalog_def Let_def split: if_splits option.splits sum.splits)
  with copy_profiles_same [OF _ assms(2)] show "c = sort_profiles ps" "distinct (map pfID ps)"
    "check_profiles pl (by_id c) c = None" by blast+
  show "ps \<noteq> []" "length ps \<le> MaxProfileDependencies"
    using assms(1) by (auto simp: NewCatalog_def split: if_splits)
qed

lemma by_id_get:
  "gm_get (fold (\<lambda>p m. gm_put (pfID p) p m) ps m) k = Some p \<Longrightarrow> p \<in> set ps \<and> pfID p = k \<or> gm_get m k = Some p"
  by (induction ps arbitrary: m) (fastforce simp: gm.get_put split: if_splits)+

lemma check_profiles_None:
  "check_profiles pl m ps = None \<longleftrightarrow>
     (\<forall>p \<in> set ps. (pfKind p = ProfileVendorOverlay \<longrightarrow> check_overlay pl m p = None)
        \<and> (pfState p = ProfileSuperseded \<longrightarrow> check_supersession m p = None))"
  by (induction ps) (auto split: option.splits)

lemma validate_all_Inr: "validate_all f xs = Inr ys \<Longrightarrow> list_all (\<lambda>y. \<exists>x. f x = Inr y) ys"
  by (induction xs arbitrary: ys) (auto split: sum.splits)

lemma effective_accepted:
  assumes "validateOverlayAgainstBase pl overlay base = None"
  shows "\<exists>ef codecs bound. apply_deltas (pfOverlayDeltas overlay) (effective_base pl base) = Inr ef
    \<and> NewProfileDescriptor pl (effective_profile overlay base ef codecs bound)
        = Inr (effective_profile overlay base ef codecs bound)"
proof -
  from assms obtain ef codecs deps bound x where
    e: "apply_deltas (pfOverlayDeltas overlay) (effective_base pl base) = Inr ef"
    and c: "validate_all (NewCodec (plMaxReadRegisters pl)) (efCodecs ef) = Inr codecs"
    and d: "validate_all (NewDependency pl) (efDependencies ef) = Inr deps"
    and b: "NewDependencySet pl (stVersion (pfDependencies base)) deps = Inr bound"
    and x: "NewProfileDescriptor pl (effective_profile overlay base ef codecs bound) = Inr x"
    by (auto simp: validateOverlayAgainstBase_def split: sum.splits if_splits)
  have "list_all (built_codec pl) codecs"
    using validate_all_Inr [OF c] by (auto simp: list_all_iff built_codec_def dest: NewCodec_again)
  moreover have "list_all (accepted_dependency pl) deps"
    using validate_all_Inr [OF d] by (auto simp: list_all_iff dest: NewDependency_again)
  then have "accepted_set pl bound" by (rule NewDependencySet_accepted(2) [OF b])
  ultimately have "built pl (effective_profile overlay base ef codecs bound)"
    by (simp add: built_def built_set_def effective_profile_def)
  from NewProfileDescriptor_again [OF x this] x e show ?thesis by blast
qed

lemma by_id_member: "gm_get (by_id ps) k = Some p \<Longrightarrow> p \<in> set ps \<and> pfID p = k"
  using by_id_get [of ps "[]" k p] by (simp add: by_id_def gm.get_empty)

lemma check_overlay_None:
  assumes "check_overlay pl m q = None"
  obtains base where "gm_get m (pfRefinesProfileID q) = Some base"
    and "pfVersion base = pfRefinesProfileVersion q" and "pfKind base = ProfileStandardFamily"
    and "pfState base = ProfileActive" and "pfMaturity base = MaturityQualified"
    and "pfDetectorVersion q = pfDetectorVersion base"
    and "validateOverlayAgainstBase pl q base = None"
    and "evID ` set (pfEvidence q) \<inter> evID ` set (pfEvidence base) = {}"
  using assms by (fastforce simp: check_overlay_def split: option.splits if_splits)

section \<open>Properties\<close>

text \<open>C27: the deltas of an accepted overlay are a set, not a program: walking them one after the other
  over the base gives each list of the base with its removals, replacements and additions made at
  once, whatever the order of the deltas, and the one replacement of the coherence policy. Nothing
  a delta does is undone or redone by another.\<close>

theorem overlay_deltas_act_at_once:
  assumes "validateOverlayDeltas pl ds evidence = None" and "NewProfileDescriptor pl s = Inr base"
    and "apply_deltas ds (effective_base pl base) = Inr ef"
  shows "efModels ef = edits_at_once (\<lambda>v. v) (value_edits OverlayDeltaModelApplicability ds)
        (declared (pfModelApplicability base))
    \<and> efExclusions ef = edits_at_once (\<lambda>v. v) (value_edits OverlayDeltaKnownExclusion ds)
        (declared (pfKnownExclusions base))
    \<and> efCodecs ef = edits_at_once csID (codec_edits ds) (pfCodecs base)
    \<and> efDependencies ef = edits_at_once dsID (dependency_edits ds)
        (map dpSpec (stDependencies (pfDependencies base)))
    \<and> efCoherence ef = coherence_after ds (pfCoherence base)"
proof -
  have "list_all delta_ok ds \<and> distinct (map delta_target ds)"
    using assms(1) check_deltas_None unfolding validateOverlayDeltas_def by blast
  then have ok: "list_all delta_ok ds" and d: "distinct (map delta_target ds)" by auto
  have "edited ds (effective_base pl base) ef"
    using apply_deltas_edited [OF assms(3) ok profile_keys_distinct(1) [OF assms(2)]] .
  then show ?thesis
    using value_edits_distinct [OF d] codec_edits_distinct [OF d ok] dependency_edits_distinct [OF d ok]
      apply_deltas_coherence [OF assms(3) ok d] profile_keys_distinct(2) [OF assms(2)]
    by (auto simp: edited_def intro!: edit_all_at_once simp: effective_base_def)
qed

text \<open>C28: a catalogue is the sorted collection of the profiles it was made from, and lookup by
  bisection finds exactly them: it returns a profile if and only if that profile was given and has
  the identity, unchanged by the two copies made on the way in and the one on the way out.\<close>

theorem lookup_finds_exactly_the_profiles:
  assumes "NewCatalog pl ps = Inr c" and "\<forall>p \<in> set ps. NewProfileDescriptor pl p = Inr p"
  shows "(Lookup pl c k = Some p \<longleftrightarrow> p \<in> set ps \<and> pfID p = k)
    \<and> set c = set ps \<and> sorted_wrt (\<lambda>p q. str_less (pfID p) (pfID q)) c
    \<and> Profiles pl c = map Some c"
proof -
  note ok = NewCatalog_Inr [OF assms]
  have sorted: "sorted_wrt (\<lambda>p q. str_less (pfID p) (pfID q)) c"
    using sort_profiles_sorted [OF ok(2)] ok(1) by simp
  have same: "set c = set ps" using ok(1) by simp
  have copy: "NewProfileDescriptor pl (cloneProfileSpec pl q) = Inr q" if "q \<in> set c" for q
    using assms(2) same that clone_built [OF accepted_profile_built] by fastforce
  obtain i where i: "i = sort_search (length c) (\<lambda>i. \<not> str_less (pfID (c ! i)) k)" by blast
  note found = search_sorted [OF sorted i, of p]
  have "Lookup pl c k = Some p \<longleftrightarrow> i < length c \<and> pfID (c ! i) = k \<and> p = c ! i"
    using copy [of "c ! i"] by (auto simp: Lookup_def i [symmetric] Let_def not_le)
  then have "Lookup pl c k = Some p \<longleftrightarrow> p \<in> set ps \<and> pfID p = k" using found same by blast
  then show ?thesis using sorted same copy by (simp add: Profiles_def)
qed


section \<open>Witnesses\<close>

definition example_delta :: overlay_delta where
  "example_delta = \<lparr>odID = ''add-model'', odVersion = ''1.0.0'', odKind = OverlayDeltaModelApplicability,
     odOperation = OverlayDeltaAdd, odTargetID = [], odApplicabilityValue = ''m1'', odCodec = None,
     odDependency = None, odCoherence = None, odEvidenceReferences = [''own'']\<rparr>"

lemma example_delta_valid: "validateOverlayDeltas example_platform [example_delta] [''own''] = None"
proof -
  have "validIdentity ''add-model''"
    by (simp add: example_string_simps)
  moreover have "stringsComplete (Some [''own''])"
    by (simp add: stringsComplete_def stringsDeclared_def example_string_simps)
  moreover have "check_delta_shape example_delta = None" "check_delta_payload example_platform example_delta = None"
    by (simp_all add: check_delta_shape_def check_delta_payload_def example_delta_def)
  ultimately show ?thesis
    using version_1_0_0 by (simp add: validateOverlayDeltas_def) (simp add: example_delta_def)
qed

theorem overlay_deltas_act_at_once_witness:
  "\<exists>ef. apply_deltas [example_delta] (effective_base example_platform example_profile) = Inr ef
     \<and> efModels ef = [''m1'']"
proof -
  let ?base = "effective_base example_platform example_profile"
  have a: "apply_deltas [example_delta] ?base = Inr (?base\<lparr>efModels := [''m1'']\<rparr>)"
    by (simp add: apply_delta_def apply_applicability_def example_delta_def Let_def)
      (simp add: effective_base_def declared_def example_profile_def)
  have "edits_at_once (\<lambda>v. v) (value_edits OverlayDeltaModelApplicability [example_delta])
      (declared (pfModelApplicability example_profile)) = [''m1'']"
    by (simp add: edits_at_once_def value_edits_def added_def example_delta_def declared_def
        example_profile_def)
  then show ?thesis
    using overlay_deltas_act_at_once [OF example_delta_valid example_profile_accepted a] a by metis
qed

definition example_overlay :: profile_spec where
  "example_overlay = example_profile\<lparr>pfID := ''overlay'', pfKind := ProfileVendorOverlay,
     pfStandardApplicability := [], pfModelApplicability := None, pfKnownExclusions := None,
     pfVendorApplicability := [''vendor''], pfCodecs := [], pfDependencies := zero_set,
     pfCoherence := zero_coherence, pfEvidence := [\<lparr>evID = ''own'',
       evPublicationDisposition = PublicationPublished\<rparr>], pfDefaultEnabled := False,
     pfRefinesProfileID := ''family'', pfRefinesProfileVersion := ''1.0.0'',
     pfOverlayDeltas := [example_delta]\<rparr>"

definition example_refined :: profile_spec where
  "example_refined = example_profile\<lparr>pfID := ''overlay'', pfModelApplicability := Some [''m1''],
     pfEvidence := pfEvidence example_profile @ pfEvidence example_overlay, pfDefaultEnabled := False\<rparr>"

lemmas example_profile_simps = profile_agg_def example_profile_def example_set_def hex_bytes_length
  coherence_agg_def declared_def zero_set_def zero_coherence_def delta_agg_def pointer_agg_def
  example_delta_def example_overlay_def example_refined_def

lemma example_overlay_preflight: "preflightProfileSpec example_platform example_overlay = None"
proof -
  have w: "preflightAggregate [profile_agg example_overlay] = None"
    unfolding preflightAggregate_def preflight_from_iff
    by (simp add: example_profile_simps example_agg_simps)
  show ?thesis
    unfolding preflightProfileSpec_def w
    by (simp add: example_overlay_def example_profile_def declared_def validateBoundedStrings_def
        preflightOverlayDelta_def example_delta_def zero_coherence_def MaxProfileCodecs_def example_string_simps)
qed

lemma example_refined_preflight: "preflightProfileSpec example_platform example_refined = None"
proof -
  have w: "preflightAggregate [profile_agg example_refined] = None"
    unfolding preflightAggregate_def preflight_from_iff
    by (simp add: example_profile_simps example_agg_simps)
  show ?thesis
    unfolding preflightProfileSpec_def w
    by (simp add: example_refined_def example_overlay_def example_profile_def declared_def
        validateBoundedStrings_def MaxProfileCodecs_def example_string_simps)
qed

lemma example_overlay_accepted: "NewProfileDescriptor example_platform example_overlay = Inr example_overlay"
proof -
  have b: "built example_platform example_overlay"
    by (simp add: built_def built_set_def example_overlay_def)
  have "ProfileVendorOverlay \<noteq> ProfileStandardFamily" by (simp add: profile_consts)
  then have k: "check_kind example_overlay = None"
    using version_1_0_0
    by (simp add: check_kind_def example_overlay_def example_profile_def zero_set_def declared_def
        stringsComplete_def stringsDeclared_def example_string_simps)
  have e: "check_evidence [] (pfEvidence example_overlay) = None"
    by (simp add: example_overlay_def example_string_simps)
  have g: "check_graph example_platform example_overlay [] = None"
    by (simp add: check_graph_def example_overlay_def set_dependencies_def zero_set_def
        zero_coherence_def cycle_returns [of "[]"] acyclic_def gm_get_def profile_consts Let_def)
  have l: "check_lifecycle example_overlay = None"
    by (simp add: check_lifecycle_def example_overlay_def example_profile_def profile_consts)
  have d: "validateOverlayDeltas example_platform (pfOverlayDeltas example_overlay)
      (map evID (pfEvidence example_overlay)) = None"
    using example_delta_valid by (simp add: example_overlay_def)
  have c: "collect_codecs [] (pfCodecs example_overlay) = Inr []"
    by (simp add: example_overlay_def)
  have "validIdentity (pfID example_overlay)" by (simp add: example_overlay_def example_string_simps)
  then have "validate_profile example_platform example_overlay = None"
    unfolding validate_profile_def k c e d
    using version_1_0_0
    by (simp add: g l)
      (simp add: example_overlay_def example_profile_def schemaVersionV1_def
        runtimeContractVersionV1_def codecContractVersionV1_def)
  then show ?thesis
    using example_overlay_preflight clone_built [OF b] by (simp add: NewProfileDescriptor_def)
qed

lemma example_refined_accepted: "NewProfileDescriptor example_platform example_refined = Inr example_refined"
proof -
  have b: "built example_platform example_refined"
    using example_profile_built by (simp add: built_def example_refined_def)
  have k: "check_kind example_refined = None"
    using example_profile_kind
    by (simp add: check_kind_def example_refined_def stringsDeclared_def example_string_simps
        split: if_split_asm) (simp add: example_profile_def)
  have e: "check_evidence [] (pfEvidence example_refined) = None"
    by (simp add: example_refined_def example_overlay_def example_profile_def example_string_simps)
  have g: "check_graph example_platform example_refined [(''power'', example_codec)] = None"
    using example_profile_graph
    by (auto simp: check_graph_def example_refined_def check_dependencies_None Let_def
        split: if_splits option.splits)
  have l: "check_lifecycle example_refined = None"
    by (simp add: check_lifecycle_def example_refined_def example_profile_def profile_consts)
  have c: "collect_codecs [] (pfCodecs example_refined) = Inr [(''power'', example_codec)]"
    using NewCodec_Inr(3,4) [OF example_codec_accepted]
    by (simp add: example_refined_def example_profile_def gm_get_def gm_put_def) (simp add: example_codec_def)
  have "validIdentity (pfID example_refined)" by (simp add: example_refined_def example_string_simps)
  moreover have "pfKind example_refined \<noteq> ProfileVendorOverlay"
    by (simp add: example_refined_def example_profile_def profile_consts)
  ultimately have "validate_profile example_platform example_refined = None"
    unfolding validate_profile_def k c e
    using version_1_0_0
    by (simp add: g l)
      (simp add: example_refined_def example_profile_def schemaVersionV1_def
        runtimeContractVersionV1_def codecContractVersionV1_def)
  then show ?thesis
    using example_refined_preflight clone_built [OF b] by (simp add: NewProfileDescriptor_def)
qed

lemma example_overlay_refines:
  "validateOverlayAgainstBase example_platform example_overlay example_profile = None"
proof -
  let ?base = "effective_base example_platform example_profile"
  let ?d = "\<lparr>dpSpec = example_dependency, dpNormalization = example_normalization\<rparr>"
  have deps: "set_dependencies example_platform (pfDependencies example_profile) = [?d]"
    using built_set_dependencies [OF example_set_built] by (simp add: example_set_def example_profile_def)
  have ef: "apply_deltas (pfOverlayDeltas example_overlay) ?base = Inr (?base\<lparr>efModels := [''m1'']\<rparr>)"
    by (simp add: apply_delta_def apply_applicability_def example_overlay_def example_delta_def Let_def)
      (simp add: effective_base_def declared_def example_profile_def)
  have s: "NewDependencySet example_platform (stVersion (pfDependencies example_profile)) [?d] = Inr example_set"
  proof -
    have "example_set \<noteq> zero_set" by (simp add: example_set_def zero_set_def)
    then show ?thesis
      using example_set_built by (simp add: built_set_def accepted_set_def example_profile_def)
        (simp add: example_set_def)
  qed
  have c: "validate_all (NewCodec (plMaxReadRegisters example_platform)) (efCodecs (?base\<lparr>efModels := [''m1'']\<rparr>))
      = Inr [example_codec]"
    using example_codec_accepted by (simp add: effective_base_def example_profile_def example_platform_def)
  have d: "validate_all (NewDependency example_platform) (efDependencies (?base\<lparr>efModels := [''m1'']\<rparr>)) = Inr [?d]"
    using example_dependency_accepted by (simp add: effective_base_def deps)
  have "effective_profile example_overlay example_profile (?base\<lparr>efModels := [''m1'']\<rparr>)
      [example_codec] example_set = example_refined"
    by (simp add: effective_profile_def effective_base_def declared_def example_refined_def
        example_overlay_def example_profile_def)
  with ef c d s example_refined_accepted show ?thesis
    by (simp add: validateOverlayAgainstBase_def)
      (simp add: effective_base_def example_overlay_def example_profile_def)
qed

lemma catalog_shape:
  "agg_shape (Suc 0) (AggSequence (map (\<lambda>p. AggStruct False [(''spec'', f p)]) ps))
     \<longleftrightarrow> length ps \<le> 2305843009213693949 \<and> (\<forall>p \<in> set ps. agg_shape (Suc (Suc (Suc 0))) (f p))"
  by (subst agg_shape.simps) (simp add: agg_shape.simps [of "Suc (Suc 0)"] skipped_field_def contract_consts)

lemma example_catalog_walk:
  "preflightAggregate [AggSequence (map (\<lambda>p. AggStruct False [(''spec'', profile_agg p)])
     [example_profile, example_overlay])] = None"
proof -
  have cost: "agg_cost (profile_agg example_profile) \<le> 1000000"
    "agg_cost (profile_agg example_overlay) \<le> 1000000"
    by (simp_all add: example_profile_simps example_agg_simps)
  have "agg_shape (Suc (Suc (Suc 0))) (profile_agg example_profile)"
    "agg_shape (Suc (Suc (Suc 0))) (profile_agg example_overlay)"
    by (simp_all add: example_profile_simps example_agg_simps)
  with cost show ?thesis unfolding preflightAggregate_def preflight_from_iff
    using catalog_shape [of profile_agg "[example_profile, example_overlay]"]
    by (simp add: contract_consts skipped_field_def)
qed

lemma example_catalog:
  "NewCatalog example_platform [example_profile, example_overlay] = Inr [example_profile, example_overlay]"
proof -
  have v: "validIdentity (pfID example_profile)" "version_valid (pfVersion example_profile)"
    "validIdentity (pfID example_overlay)" "version_valid (pfVersion example_overlay)"
    using validate_profile_None [OF NewProfileDescriptor_Inr(2) [OF example_profile_accepted]]
      validate_profile_None [OF NewProfileDescriptor_Inr(2) [OF example_overlay_accepted]] by metis+
  have i: "pfID example_profile = ''family''" "pfID example_overlay = ''overlay''"
    by (simp_all add: example_profile_def example_overlay_def)
  have c: "copy_profiles example_platform [] [example_profile, example_overlay]
      = Inr [example_profile, example_overlay]"
    using v i example_profile_accepted example_overlay_accepted
      clone_built [OF accepted_profile_built [OF example_profile_accepted]]
      clone_built [OF accepted_profile_built [OF example_overlay_accepted]] by simp
  have s: "sort_profiles [example_profile, example_overlay] = [example_profile, example_overlay]"
    by (simp add: sort_profiles_def profile_before_def i byte_at_def)
  have g: "gm_get (by_id [example_profile, example_overlay]) ''family'' = Some example_profile"
    by (simp add: by_id_def i gm.get_put)
  have o: "check_overlay example_platform (by_id [example_profile, example_overlay]) example_overlay = None"
  proof -
    have r: "pfRefinesProfileID example_overlay = ''family''" by (simp add: example_overlay_def)
    show ?thesis
      unfolding check_overlay_def r g
      by (simp add: example_overlay_refines) (simp add: example_overlay_def example_profile_def)
  qed
  have k: "pfKind example_profile \<noteq> ProfileVendorOverlay" "pfState example_profile \<noteq> ProfileSuperseded"
    "pfState example_overlay \<noteq> ProfileSuperseded"
    by (simp_all add: example_overlay_def example_profile_def profile_consts)
  show ?thesis
    unfolding NewCatalog_def example_catalog_walk c
    using k o s by (simp add: contract_consts Let_def)
qed

lemma example_profiles_accepted:
  "\<forall>p \<in> set [example_profile, example_overlay]. NewProfileDescriptor example_platform p = Inr p"
  using example_profile_accepted example_overlay_accepted by simp

theorem lookup_finds_exactly_the_profiles_witness:
  "Lookup example_platform [example_profile, example_overlay] ''overlay'' = Some example_overlay"
proof -
  have "pfID example_overlay = ''overlay''" by (simp add: example_overlay_def)
  then show ?thesis
    using lookup_finds_exactly_the_profiles [OF example_catalog example_profiles_accepted,
        of "''overlay''" example_overlay] by simp
qed


end
