(* ===== verification/Detection_Plan.thy ===== *)
theory Detection_Plan
  imports Profile_Catalog SunSpec_Value
begin

text \<open>
  The probes of identity detection (\<^verbatim>\<open>read_plan.go\<close>): the limits, the plan of reads that yields
  manufacturer, model and firmware, the requests a reader gets, the results it answers with, and
  the decoding of registers to text. The lemmas show that an accepted plan asks for legal reads
  within its word budget and that a text packed into registers is decoded to itself.
\<close>

named_theorems probe_consts \<open>the named string constants of detection\<close>

section \<open>Limits\<close>

definition ProbeReadHoldingRegisters :: string where [probe_consts]: "ProbeReadHoldingRegisters = ''fc03''"
definition ProbeReadInputRegisters :: string where [probe_consts]: "ProbeReadInputRegisters = ''fc04''"

definition ProbeIdentityManufacturer :: string where [probe_consts]: "ProbeIdentityManufacturer = ''manufacturer''"
definition ProbeIdentityModel :: string where [probe_consts]: "ProbeIdentityModel = ''model''"
definition ProbeIdentityFirmware :: string where [probe_consts]: "ProbeIdentityFirmware = ''firmware''"

definition ProbeIdentityASCII :: string where [probe_consts]: "ProbeIdentityASCII = ''ascii''"

record detection_limits =
  dlMaxPlanDeclarations :: int
  dlMaxReads :: int
  dlMaxWordsPerRead :: int
  dlMaxTotalWords :: int
  dlMaxIdentityBytes :: int
  dlMaxEvidenceIDBytes :: int
  dlMaxDecisionBytes :: int

datatype plan_error =
    LimitsNotPositive
  | LimitsExceedContract
  | WordLimitsInconsistent
  | PlanCardinality
  | PlanContract contract_error
  | DeclarationInvalid
  | DeclarationRange
  | DeclarationDuplicateID
  | DuplicateProducer
  | PlanWordBound

text \<open>\<^verbatim>\<open>MaxRawWords\<close> is the read limit of the modbus library, a parameter.\<close>

definition DefaultDetectionLimits :: "platform \<Rightarrow> detection_limits" where
  "DefaultDetectionLimits pl =
     \<lparr>dlMaxPlanDeclarations = 3, dlMaxReads = 3,
      dlMaxWordsPerRead = int (unat (plMaxReadRegisters pl)),
      dlMaxTotalWords = 3 * int (unat (plMaxReadRegisters pl)),
      dlMaxIdentityBytes = 256, dlMaxEvidenceIDBytes = 256,
      dlMaxDecisionBytes = int MaxSerializedContractBytes\<rparr>"

definition validateDetectionLimits :: "platform \<Rightarrow> detection_limits \<Rightarrow> plan_error outcome" where
  "validateDetectionLimits pl l =
     (if \<exists>v \<in> set [dlMaxPlanDeclarations l, dlMaxReads l, dlMaxWordsPerRead l, dlMaxTotalWords l,
             dlMaxIdentityBytes l, dlMaxEvidenceIDBytes l, dlMaxDecisionBytes l]. v \<le> 0
      then Some LimitsNotPositive
      else if dlMaxPlanDeclarations l > int MaxProfileDependencies
           \<or> dlMaxReads l > int MaxProfileDependencies
           \<or> dlMaxWordsPerRead l > int (unat (plMaxReadRegisters pl))
           \<or> dlMaxIdentityBytes l > int MaxContractStringBytes
           \<or> dlMaxEvidenceIDBytes l > int MaxContractStringBytes
           \<or> dlMaxDecisionBytes l > int MaxSerializedContractBytes
      then Some LimitsExceedContract
      else if dlMaxPlanDeclarations l > (2 ^ 63 - 1) div dlMaxWordsPerRead l
           \<or> dlMaxTotalWords l > dlMaxPlanDeclarations l * dlMaxWordsPerRead l
      then Some WordLimitsInconsistent
      else None)"

section \<open>Plans\<close>

record probe_declaration =
  pbID :: string
  pbFunction :: string
  pbAddress :: u16
  pbWordCount :: u16
  pbIdentityField :: string
  pbEncoding :: string

record probe_plan =
  ppVersion :: version
  ppDeclarations :: "probe_declaration list"

definition validProbeFunction :: "string \<Rightarrow> bool" where
  "validProbeFunction f \<longleftrightarrow> f = ProbeReadHoldingRegisters \<or> f = ProbeReadInputRegisters"

definition validProbeIdentityField :: "string \<Rightarrow> bool" where
  "validProbeIdentityField f \<longleftrightarrow>
     f = ProbeIdentityManufacturer \<or> f = ProbeIdentityModel \<or> f = ProbeIdentityFirmware"

text \<open>The value the budget walk of \<^verbatim>\<open>NewProbePlan\<close> gets.\<close>

definition declaration_agg :: "probe_declaration \<Rightarrow> agg" where
  "declaration_agg d = AggStruct False
     [(''ID'', string_agg (pbID d)), (''Function'', string_agg (pbFunction d)),
      (''Address'', AggInteger), (''WordCount'', AggInteger),
      (''IdentityField'', string_agg (pbIdentityField d)), (''Encoding'', string_agg (pbEncoding d))]"

definition plan_agg :: "probe_plan \<Rightarrow> agg" where
  "plan_agg p = AggStruct False
     [(''Version'', version_agg (ppVersion p)),
      (''Declarations'', AggSequence (map declaration_agg (ppDeclarations p)))]"

fun check_declarations :: "detection_limits \<Rightarrow> string list \<Rightarrow> string list \<Rightarrow> int
    \<Rightarrow> probe_declaration list \<Rightarrow> plan_error outcome" where
  "check_declarations l seenIDs seenFields totalWords [] = None"
| "check_declarations l seenIDs seenFields totalWords (d # ds) =
     (if \<not> validIdentity (pbID d) \<or> \<not> validProbeFunction (pbFunction d)
         \<or> \<not> validProbeIdentityField (pbIdentityField d) \<or> pbEncoding d \<noteq> ProbeIdentityASCII
         \<or> pbWordCount d = 0 \<or> int (unat (pbWordCount d)) > dlMaxWordsPerRead l
      then Some DeclarationInvalid
      else if (ucast (pbAddress d) :: u32) + ucast (pbWordCount d) - 1 > 65535
      then Some DeclarationRange
      else if pbID d \<in> set seenIDs then Some DeclarationDuplicateID
      else if pbIdentityField d \<in> set seenFields then Some DuplicateProducer
      else if totalWords > dlMaxTotalWords l - int (unat (pbWordCount d)) then Some PlanWordBound
      else check_declarations l (pbID d # seenIDs) (pbIdentityField d # seenFields)
             (totalWords + int (unat (pbWordCount d))) ds)"

definition NewProbePlan :: "platform \<Rightarrow> probe_plan \<Rightarrow> detection_limits \<Rightarrow> plan_error + probe_plan" where
  "NewProbePlan pl spec l =
     (case validateDetectionLimits pl l of
        Some e \<Rightarrow> Inl e
      | None \<Rightarrow>
          if \<not> version_valid (ppVersion spec) \<or> ppDeclarations spec = []
             \<or> int (length (ppDeclarations spec)) > dlMaxPlanDeclarations l
             \<or> int (length (ppDeclarations spec)) > dlMaxReads l
          then Inl PlanCardinality
          else (case preflightAggregate [plan_agg spec] of
              Some e \<Rightarrow> Inl (PlanContract e)
            | None \<Rightarrow> (case check_declarations l [] [] 0 (ppDeclarations spec) of
                Some e \<Rightarrow> Inl e
              | None \<Rightarrow> Inr spec)))"

section \<open>Requests and results\<close>

record probe_request =
  prDeclarationID :: string
  prFunction :: string
  prAddress :: u16
  prWordCount :: u16

definition probeRequest :: "probe_declaration \<Rightarrow> probe_request" where
  "probeRequest d = \<lparr>prDeclarationID = pbID d, prFunction = pbFunction d, prAddress = pbAddress d,
     prWordCount = pbWordCount d\<rparr>"

definition ProbeReadSucceeded :: string where [probe_consts]: "ProbeReadSucceeded = ''succeeded''"
definition ProbeReadException :: string where [probe_consts]: "ProbeReadException = ''exception''"

record read_result =
  rrStatus :: string
  rrWords :: "u16 list"
  rrEvidenceID :: string
  rrExceptionCode :: u8

text \<open>A reader that returns no result returns Go's zero value.\<close>

definition zero_result :: read_result where
  "zero_result = \<lparr>rrStatus = [], rrWords = [], rrEvidenceID = [], rrExceptionCode = 0\<rparr>"

datatype result_error =
    ResultEvidenceID
  | ResultSuccess
  | ResultException
  | ResultStatus
  | ResultContract contract_error

definition validProbeEvidenceID :: "string \<Rightarrow> int \<Rightarrow> bool" where
  "validProbeEvidenceID v maximum \<longleftrightarrow> v \<noteq> [] \<and> int (length v) \<le> maximum \<and> validIdentity v"

definition result_agg :: "read_result \<Rightarrow> agg" where
  "result_agg r = AggStruct False
     [(''Status'', string_agg (rrStatus r)), (''Words'', words_agg (rrWords r)),
      (''EvidenceID'', string_agg (rrEvidenceID r)), (''ExceptionCode'', AggInteger)]"

definition NewProbeReadResult :: "platform \<Rightarrow> read_result \<Rightarrow> result_error + read_result" where
  "NewProbeReadResult pl spec =
     (let l = DefaultDetectionLimits pl in
      if \<not> validProbeEvidenceID (rrEvidenceID spec) (dlMaxEvidenceIDBytes l) then Inl ResultEvidenceID
      else case (if rrStatus spec = ProbeReadSucceeded then
            (if rrWords spec = [] \<or> int (length (rrWords spec)) > dlMaxWordsPerRead l
                \<or> rrExceptionCode spec \<noteq> 0 then Some ResultSuccess else None)
          else if rrStatus spec = ProbeReadException then
            (if rrWords spec \<noteq> [] \<or> rrExceptionCode spec = 0 then Some ResultException else None)
          else Some ResultStatus) of
        Some e \<Rightarrow> Inl e
      | None \<Rightarrow> (case preflightAggregate [result_agg spec] of
            Some e \<Rightarrow> Inl (ResultContract e)
          | None \<Rightarrow> Inr spec))"

definition validWithin :: "read_result \<Rightarrow> detection_limits \<Rightarrow> bool" where
  "validWithin r l \<longleftrightarrow>
     (if \<not> validProbeEvidenceID (rrEvidenceID r) (dlMaxEvidenceIDBytes l) then False
      else if rrStatus r = ProbeReadSucceeded then
        rrWords r \<noteq> [] \<and> int (length (rrWords r)) \<le> dlMaxWordsPerRead l \<and> rrExceptionCode r = 0
      else if rrStatus r = ProbeReadException then rrWords r = [] \<and> rrExceptionCode r \<noteq> 0
      else False)"

section \<open>From registers to text\<close>

fun trim_nuls :: "string \<Rightarrow> string" where
  "trim_nuls [] = []"
| "trim_nuls (c # s) = (let t = trim_nuls s in if t = [] \<and> byte_at c = 0 then [] else c # t)"

definition printable :: "char \<Rightarrow> bool" where
  "printable c \<longleftrightarrow> 32 \<le> byte_at c \<and> byte_at c \<le> 126"

text \<open>\<open>None\<close> is an error; the text of the three errors is not used by the detector.\<close>

definition decodeProbeASCII :: "u16 list \<Rightarrow> int \<Rightarrow> string option" where
  "decodeProbeASCII words maximum =
     (if words = [] \<or> int (length words) > (2 ^ 63 - 1) div 2 \<or> maximum \<le> 0 then None
      else (let encoded = trim_nuls (concat (map word_bytes words)) in
        if encoded = [] \<or> int (length encoded) > maximum \<or> \<not> utf8_valid encoded then None
        else if \<not> list_all printable encoded then None
        else Some encoded))"

section \<open>What an accepted plan is\<close>

lemma check_declarations_None:
  assumes "check_declarations l ids used sofar ds = None"
  shows "distinct (map pbID ds)" and "pbID ` set ds \<inter> set ids = {}"
    and "distinct (map pbIdentityField ds)" and "pbIdentityField ` set ds \<inter> set used = {}"
    and "\<forall>d \<in> set ds. validProbeIdentityField (pbIdentityField d) \<and> validProbeFunction (pbFunction d)
      \<and> validIdentity (pbID d) \<and> 0 < pbWordCount d \<and> int (unat (pbWordCount d)) \<le> dlMaxWordsPerRead l
      \<and> unat (pbAddress d) + unat (pbWordCount d) \<le> 65536"
    and "ds \<noteq> [] \<Longrightarrow> sofar + (\<Sum>d \<leftarrow> ds. int (unat (pbWordCount d))) \<le> dlMaxTotalWords l"
proof -
  have range: "unat (pbAddress d) + unat (pbWordCount d) \<le> 65536"
    if "\<not> (ucast (pbAddress d) :: u32) + ucast (pbWordCount d) - 1 > 65535" "pbWordCount d \<noteq> 0" for d
  proof -
    have n: "0 < unat (pbWordCount d)" using that(2) by (simp add: unat_gt_0)
    have "unat ((ucast (pbAddress d) :: u32) + ucast (pbWordCount d)) = unat (pbAddress d) + unat (pbWordCount d)"
      using unat_u16_bound [of "pbAddress d"] unat_u16_bound [of "pbWordCount d"]
      by (subst unat_add_u32) simp_all
    moreover from this have "unat ((ucast (pbAddress d) :: u32) + ucast (pbWordCount d) - 1)
        = unat (pbAddress d) + unat (pbWordCount d) - 1"
      using n by (subst unat_sub) (simp_all add: word_le_nat_alt)
    ultimately show ?thesis using that(1) by (simp add: word_less_nat_alt)
  qed
  have "distinct (map pbID ds) \<and> pbID ` set ds \<inter> set ids = {}
    \<and> distinct (map pbIdentityField ds) \<and> pbIdentityField ` set ds \<inter> set used = {}
    \<and> (\<forall>d \<in> set ds. validProbeIdentityField (pbIdentityField d) \<and> validProbeFunction (pbFunction d)
      \<and> validIdentity (pbID d) \<and> 0 < pbWordCount d \<and> int (unat (pbWordCount d)) \<le> dlMaxWordsPerRead l
      \<and> unat (pbAddress d) + unat (pbWordCount d) \<le> 65536)
    \<and> (ds \<noteq> [] \<longrightarrow> sofar + (\<Sum>d \<leftarrow> ds. int (unat (pbWordCount d))) \<le> dlMaxTotalWords l)"
    using assms
  proof (induction l ids used sofar ds rule: check_declarations.induct)
    case (1 l ids used sofar)
    then show ?case by simp
  next
    case (2 l ids used sofar d ds)
    note c = 2
    from c(2) have ok: "validIdentity (pbID d)" "validProbeFunction (pbFunction d)"
      "validProbeIdentityField (pbIdentityField d)" "pbWordCount d \<noteq> 0"
      "int (unat (pbWordCount d)) \<le> dlMaxWordsPerRead l"
      "\<not> (ucast (pbAddress d) :: u32) + ucast (pbWordCount d) - 1 > 65535"
      "pbID d \<notin> set ids" "pbIdentityField d \<notin> set used"
      "sofar + int (unat (pbWordCount d)) \<le> dlMaxTotalWords l"
      and rest: "check_declarations l (pbID d # ids) (pbIdentityField d # used)
        (sofar + int (unat (pbWordCount d))) ds = None"
      by (auto split: if_splits)
    have "0 < pbWordCount d" using ok(4) by (simp add: word_neq_0_conv)
    with c(1) [OF _ _ _ _ _ rest] c(2) ok range [OF ok(6) ok(4)] show ?case
      by (cases "ds = []") (auto split: if_splits)
  qed
  then show "distinct (map pbID ds)" "pbID ` set ds \<inter> set ids = {}"
    "distinct (map pbIdentityField ds)" "pbIdentityField ` set ds \<inter> set used = {}"
    "\<forall>d \<in> set ds. validProbeIdentityField (pbIdentityField d) \<and> validProbeFunction (pbFunction d)
      \<and> validIdentity (pbID d) \<and> 0 < pbWordCount d \<and> int (unat (pbWordCount d)) \<le> dlMaxWordsPerRead l
      \<and> unat (pbAddress d) + unat (pbWordCount d) \<le> 65536"
    "ds \<noteq> [] \<Longrightarrow> sofar + (\<Sum>d \<leftarrow> ds. int (unat (pbWordCount d))) \<le> dlMaxTotalWords l"
    by blast+
qed

lemma NewProbePlan_Inr:
  assumes "NewProbePlan pl spec l = Inr p"
  shows "p = spec" and "validateDetectionLimits pl l = None" and "version_valid (ppVersion p)"
    and "ppDeclarations p \<noteq> []" and "int (length (ppDeclarations p)) \<le> dlMaxPlanDeclarations l"
    and "check_declarations l [] [] 0 (ppDeclarations p) = None"
    and "preflightAggregate [plan_agg spec] = None"
  using assms by (auto simp: NewProbePlan_def split: option.splits if_splits)

lemma NewProbePlan_again: "NewProbePlan pl spec l = Inr p \<Longrightarrow> NewProbePlan pl p l = Inr p"
  using NewProbePlan_Inr(1) by metis

lemmas accepted_declarations = check_declarations_None [OF NewProbePlan_Inr(6)]

text \<open>The three identity fields are all there are, so a plan that has them has one probe of each.\<close>

lemma identity_fields_differ [simp]:
  "ProbeIdentityManufacturer \<noteq> ProbeIdentityModel" "ProbeIdentityModel \<noteq> ProbeIdentityManufacturer"
  "ProbeIdentityManufacturer \<noteq> ProbeIdentityFirmware" "ProbeIdentityFirmware \<noteq> ProbeIdentityManufacturer"
  "ProbeIdentityModel \<noteq> ProbeIdentityFirmware" "ProbeIdentityFirmware \<noteq> ProbeIdentityModel"
  by (simp_all add: probe_consts)

lemma full_plan_has_three:
  assumes "NewProbePlan pl spec l = Inr p"
    and "{ProbeIdentityManufacturer, ProbeIdentityModel, ProbeIdentityFirmware}
      \<subseteq> pbIdentityField ` set (ppDeclarations p)"
  shows "length (ppDeclarations p) = 3"
    and "pbIdentityField ` set (ppDeclarations p)
      = {ProbeIdentityManufacturer, ProbeIdentityModel, ProbeIdentityFirmware}"
proof -
  show fields: "pbIdentityField ` set (ppDeclarations p)
      = {ProbeIdentityManufacturer, ProbeIdentityModel, ProbeIdentityFirmware}"
    using accepted_declarations(5) [OF assms(1)] assms(2) by (auto simp: validProbeIdentityField_def)
  have "length (ppDeclarations p) = card (set (map pbIdentityField (ppDeclarations p)))"
    using distinct_card [OF accepted_declarations(3) [OF assms(1)]] by simp
  with fields show "length (ppDeclarations p) = 3" by simp
qed

section \<open>Results\<close>

lemma probe_statuses_differ [simp]:
  "ProbeReadSucceeded \<noteq> ProbeReadException" "ProbeReadException \<noteq> ProbeReadSucceeded"
  "ProbeReadSucceeded \<noteq> []" "ProbeReadException \<noteq> []"
  by (simp_all add: probe_consts)

lemma NewProbeReadResult_Inr:
  assumes "NewProbeReadResult pl spec = Inr r"
  shows "r = spec" and "validProbeEvidenceID (rrEvidenceID r) 256"
    and "validWithin r (DefaultDetectionLimits pl)"
  using assms by (auto simp: NewProbeReadResult_def validWithin_def DefaultDetectionLimits_def Let_def
      split: if_splits option.splits)

lemma zero_result_invalid [simp]: "\<not> validWithin zero_result l"
  by (simp add: validWithin_def zero_result_def validProbeEvidenceID_def)

section \<open>Text\<close>

lemma trim_nuls_append:
  "trim_nuls (s @ replicate n NUL) = trim_nuls s"
proof (induction s)
  case Nil
  have "byte_at NUL = 0" by (simp add: byte_at_def)
  then show ?case by (induction n) (simp_all add: Let_def)
next
  case (Cons c s)
  then show ?case by simp
qed

lemma trim_nuls_nonzero: "\<forall>c \<in> set s. byte_at c \<noteq> 0 \<Longrightarrow> trim_nuls s = s"
  by (induction s) (auto simp: Let_def)

lemma decoded_probe_text:
  assumes "decodeProbeASCII ws maximum = Some s"
  shows "s \<noteq> []" and "int (length s) \<le> maximum" and "list_all printable s"
  using assms by (auto simp: decodeProbeASCII_def Let_def split: if_splits)

lemma pack_text_length: "length (pack_text s) = (length s + 1) div 2"
  by (induction s rule: pack_text.induct) simp_all

text \<open>A printable text packed into registers, padded with zero registers, decodes to itself.\<close>

lemma packed_probe_text:
  assumes "s \<noteq> []" and "list_all printable s" and "int (length s) \<le> maximum"
    and "int (length (pack_text s) + k) \<le> (2 ^ 63 - 1) div 2"
  shows "decodeProbeASCII (pack_text s @ replicate k 0) maximum = Some s"
proof -
  have "\<forall>c \<in> set s. byte_at c \<noteq> 0 \<and> byte_at c < 128"
    using assms(2) by (auto simp: list_all_iff printable_def)
  then have t: "trim_nuls (concat (map word_bytes (pack_text s @ replicate k 0))) = s" and u: "utf8_valid s"
    unfolding unpack_text trim_nuls_append by (auto intro: trim_nuls_nonzero utf8_valid_ascii)
  have "pack_text s @ replicate k 0 \<noteq> []" using assms(1) pack_text_length [of s] by (cases s) auto
  moreover have "0 < maximum" using assms(1,3) by (cases s) auto
  ultimately show ?thesis
    unfolding decodeProbeASCII_def Let_def t using assms u by simp
qed

end
