(* ===== verification/Detection.thy ===== *)
theory Detection
  imports Detection_Plan
begin

text \<open>
  Identity detection (\<^verbatim>\<open>profile_detection.go\<close>, \<^verbatim>\<open>decision_serialization.go\<close>): candidates that
  bind gates to profiles of a catalogue, the detector that is built from them, one detection as a
  walk over the answers of a reader, the decision with its evidence, and the validation and
  encoding every decision goes through before it is returned.
\<close>

section \<open>Candidates\<close>

record detection_candidate =
  dcProfileID :: string
  dcProfileVersion :: version
  dcScore :: u32
  dcEnabled :: bool
  dcFixtureOnly :: bool
  dcManufacturer :: string
  dcModel :: string
  dcMinimumInclusive :: version
  dcMaximumExclusive :: version

datatype detector_error =
    DetectorLimits plan_error
  | CandidateInvalid
  | CandidateContract contract_error
  | DetectorDeclaration
  | DetectorPlan plan_error
  | DetectorVersionsDisagree
  | PlanLacksIdentity
  | DetectorCatalogEmpty
  | CandidateDuplicate
  | CandidateProfileAbsent
  | CandidateVersionsDisagree
  | DecisionBoundOverflow
  | DecisionBoundExceeded

definition validExpectedIdentity :: "string \<Rightarrow> int \<Rightarrow> bool" where
  "validExpectedIdentity v maximum \<longleftrightarrow>
     v \<noteq> [] \<and> int (length v) \<le> maximum \<and> utf8_valid v \<and> list_all printable v"

definition candidate_agg :: "detection_candidate \<Rightarrow> agg" where
  "candidate_agg c = AggStruct False
     [(''ProfileID'', string_agg (dcProfileID c)), (''ProfileVersion'', version_agg (dcProfileVersion c)),
      (''Score'', AggInteger), (''Enabled'', AggBool), (''FixtureOnly'', AggBool),
      (''Manufacturer'', AggStruct False [(''Expected'', string_agg (dcManufacturer c))]),
      (''Model'', AggStruct False [(''Expected'', string_agg (dcModel c))]),
      (''Firmware'', AggStruct False
         [(''MinimumInclusive'', version_agg (dcMinimumInclusive c)),
          (''MaximumExclusive'', version_agg (dcMaximumExclusive c))])]"

text \<open>\<^verbatim>\<open>compareVersion(a, b) < 0\<close>; both versions were found valid, so the comparison returns.\<close>

definition version_lt :: "version \<Rightarrow> version \<Rightarrow> bool" where
  "version_lt a b \<longleftrightarrow> (case compareVersion a b of Some c \<Rightarrow> c < 0 | None \<Rightarrow> False)"

definition NewDetectionCandidate :: "platform \<Rightarrow> detection_candidate \<Rightarrow> detection_limits
    \<Rightarrow> detector_error + detection_candidate" where
  "NewDetectionCandidate pl spec l =
     (case validateDetectionLimits pl l of
        Some e \<Rightarrow> Inl (DetectorLimits e)
      | None \<Rightarrow>
          if \<not> validIdentity (dcProfileID spec) \<or> \<not> version_valid (dcProfileVersion spec)
             \<or> dcScore spec = 0
             \<or> \<not> validExpectedIdentity (dcManufacturer spec) (dlMaxIdentityBytes l)
             \<or> \<not> validExpectedIdentity (dcModel spec) (dlMaxIdentityBytes l)
             \<or> \<not> version_valid (dcMinimumInclusive spec) \<or> \<not> version_valid (dcMaximumExclusive spec)
             \<or> \<not> version_lt (dcMinimumInclusive spec) (dcMaximumExclusive spec)
          then Inl CandidateInvalid
          else (case preflightAggregate [candidate_agg spec] of
              Some e \<Rightarrow> Inl (CandidateContract e)
            | None \<Rightarrow> Inr spec))"

section \<open>The detector\<close>

record bound_candidate =
  bcCandidate :: detection_candidate
  bcProfile :: profile

record detector_spec =
  xsVersion :: version
  xsPlan :: probe_plan
  xsCatalog :: catalog
  xsCandidates :: "detection_candidate list"
  xsLimits :: detection_limits

record profile_detector =
  deVersion :: version
  dePlan :: probe_plan
  deCandidates :: "bound_candidate list"
  deLimits :: detection_limits

text \<open>The bound on the size of a decision, in \<^verbatim>\<open>uint64\<close>.\<close>

definition candidate_bound :: "u64 \<Rightarrow> u64 \<Rightarrow> profile \<Rightarrow> u64" where
  "candidate_bound planCount perEvidenceID p =
     768 + of_nat (length (pfID p)) * 6
       + of_nat (length (pfVersion p) + length (pfDetectorVersion p) + length (pfQualificationVersion p)) * 6
       + planCount * perEvidenceID"

fun decision_bound :: "u64 \<Rightarrow> u64 \<Rightarrow> u64 \<Rightarrow> bound_candidate list \<Rightarrow> detector_error + u64" where
  "decision_bound planCount perEvidenceID bound [] = Inr bound"
| "decision_bound planCount perEvidenceID bound (c # cs) =
     (let candidateBound = candidate_bound planCount perEvidenceID (bcProfile c) in
      if candidateBound > MaxUint64 - bound then Inl DecisionBoundOverflow
      else decision_bound planCount perEvidenceID (bound + candidateBound) cs)"

definition detectionDecisionUpperBound :: "bound_candidate list \<Rightarrow> probe_plan \<Rightarrow> detection_limits
    \<Rightarrow> detector_error outcome" where
  "detectionDecisionUpperBound cs plan l =
     (let perEvidenceID = of_int (dlMaxEvidenceIDBytes l) * 6 + 128;
          planCount = of_nat (length (ppDeclarations plan)) in
      if planCount \<noteq> 0 \<and> perEvidenceID > MaxUint64 div planCount then Some DecisionBoundOverflow
      else (case decision_bound planCount perEvidenceID 512 cs of
          Inl e \<Rightarrow> Some e
        | Inr bound \<Rightarrow>
            if bound > of_int (dlMaxDecisionBytes l) then Some DecisionBoundExceeded else None))"

fun bind_candidates :: "platform \<Rightarrow> detector_spec \<Rightarrow> (string, profile) gomap \<Rightarrow> string list
    \<Rightarrow> detection_candidate list \<Rightarrow> detector_error + bound_candidate list" where
  "bind_candidates pl spec byID seen [] = Inr []"
| "bind_candidates pl spec byID seen (c # cs) =
     (case NewDetectionCandidate pl c (xsLimits spec) of
        Inl e \<Rightarrow> Inl e
      | Inr candidate \<Rightarrow>
          if dcProfileID candidate \<in> set seen then Inl CandidateDuplicate
          else (case gm_get byID (dcProfileID candidate) of
              None \<Rightarrow> Inl CandidateProfileAbsent
            | Some p \<Rightarrow>
                if pfVersion p \<noteq> dcProfileVersion candidate then Inl CandidateProfileAbsent
                else if pfDetectorVersion p \<noteq> xsVersion spec
                  \<or> \<not> version_valid (pfQualificationVersion p) then Inl CandidateVersionsDisagree
                else (case bind_candidates pl spec byID (dcProfileID candidate # seen) cs of
                    Inl e \<Rightarrow> Inl e
                  | Inr bs \<Rightarrow> Inr (\<lparr>bcCandidate = candidate, bcProfile = p\<rparr> # bs))))"

definition bound_before :: "bound_candidate \<Rightarrow> bound_candidate \<Rightarrow> bool" where
  "bound_before first second \<longleftrightarrow>
     (let p = bcProfile first; q = bcProfile second in
      if pfID p \<noteq> pfID q then str_less (pfID p) (pfID q) else version_lt (pfVersion p) (pfVersion q))"

interpretation bound_sort: keyed_order "\<lambda>b. pfID (bcProfile b)" bound_before
  by unfold_locales (simp add: bound_before_def)

text \<open>A profile that \<^verbatim>\<open>Profiles\<close> failed to rebuild would be the zero profile, whose empty identity
  no candidate can name; such entries are left out of the index.\<close>

definition NewProfileDetector :: "platform \<Rightarrow> detector_spec \<Rightarrow> detector_error + profile_detector" where
  "NewProfileDetector pl spec =
     (case validateDetectionLimits pl (xsLimits spec) of
        Some e \<Rightarrow> Inl (DetectorLimits e)
      | None \<Rightarrow>
          if \<not> version_valid (xsVersion spec) \<or> xsCandidates spec = []
             \<or> length (xsCandidates spec) > MaxProfileDependencies
          then Inl DetectorDeclaration
          else (case NewProbePlan pl (xsPlan spec) (xsLimits spec) of
              Inl e \<Rightarrow> Inl (DetectorPlan e)
            | Inr plan \<Rightarrow>
                if ppVersion plan \<noteq> xsVersion spec then Inl DetectorVersionsDisagree
                else if \<not> list_all (\<lambda>f. f \<in> set (map pbIdentityField (ppDeclarations plan)))
                    [ProbeIdentityManufacturer, ProbeIdentityModel, ProbeIdentityFirmware]
                then Inl PlanLacksIdentity
                else
                  (let profiles = Profiles pl (xsCatalog spec) in
                   if profiles = [] then Inl DetectorCatalogEmpty
                   else (case bind_candidates pl spec (by_id (List.map_filter id profiles)) []
                                (xsCandidates spec) of
                       Inl e \<Rightarrow> Inl e
                     | Inr bs \<Rightarrow>
                         (let bound = sort_by bound_before bs in
                          case detectionDecisionUpperBound bound plan (xsLimits spec) of
                            Some e \<Rightarrow> Inl e
                          | None \<Rightarrow> Inr \<lparr>deVersion = xsVersion spec, dePlan = plan,
                              deCandidates = bound, deLimits = xsLimits spec\<rparr>)))))"

section \<open>Decisions\<close>

definition DetectionMatched :: string where [probe_consts]: "DetectionMatched = ''matched''"
definition DetectionNoMatch :: string where [probe_consts]: "DetectionNoMatch = ''no_match''"
definition DetectionAmbiguous :: string where [probe_consts]: "DetectionAmbiguous = ''ambiguous''"

definition DetectionReasonSelected :: string where
  [probe_consts]: "DetectionReasonSelected = ''selected''"
definition DetectionReasonEqualBest :: string where
  [probe_consts]: "DetectionReasonEqualBest = ''equal_best''"
definition DetectionReasonMultipleMatches :: string where
  [probe_consts]: "DetectionReasonMultipleMatches = ''multiple_matches''"
definition DetectionReasonLowerScore :: string where
  [probe_consts]: "DetectionReasonLowerScore = ''lower_score''"
definition DetectionReasonIdentityMismatch :: string where
  [probe_consts]: "DetectionReasonIdentityMismatch = ''identity_mismatch''"
definition DetectionReasonFirmwareMismatch :: string where
  [probe_consts]: "DetectionReasonFirmwareMismatch = ''firmware_mismatch''"
definition DetectionReasonInvalidIdentity :: string where
  [probe_consts]: "DetectionReasonInvalidIdentity = ''invalid_identity''"
definition DetectionReasonFixtureOptInRequired :: string where
  [probe_consts]: "DetectionReasonFixtureOptInRequired = ''fixture_opt_in_required''"
definition DetectionReasonCandidateDisabled :: string where
  [probe_consts]: "DetectionReasonCandidateDisabled = ''candidate_disabled''"
definition DetectionReasonProfileDefaultOff :: string where
  [probe_consts]: "DetectionReasonProfileDefaultOff = ''profile_default_off''"
definition DetectionReasonProfileRevoked :: string where
  [probe_consts]: "DetectionReasonProfileRevoked = ''profile_revoked''"
definition DetectionReasonProfileSuperseded :: string where
  [probe_consts]: "DetectionReasonProfileSuperseded = ''profile_superseded''"
definition DetectionReasonProfileUnqualified :: string where
  [probe_consts]: "DetectionReasonProfileUnqualified = ''profile_unqualified''"
definition DetectionReasonReadError :: string where
  [probe_consts]: "DetectionReasonReadError = ''read_error''"
definition DetectionReasonProbeException :: string where
  [probe_consts]: "DetectionReasonProbeException = ''probe_exception''"
definition DetectionReasonIncompleteProbe :: string where
  [probe_consts]: "DetectionReasonIncompleteProbe = ''incomplete_probe''"
definition DetectionReasonInvalidProbeResult :: string where
  [probe_consts]: "DetectionReasonInvalidProbeResult = ''invalid_probe_result''"
definition DetectionReasonContextCancelled :: string where
  [probe_consts]: "DetectionReasonContextCancelled = ''context_cancelled''"

record candidate_evidence =
  ceProfileID :: string
  ceProfileVersion :: version
  ceScore :: u32
  ceReason :: string
  ceMatchedGates :: "string list"
  ceProbeEvidenceIDs :: "string list"
  ceDetectorVersion :: version
  ceQualificationVersion :: version

record detection_decision =
  ddOutcome :: string
  ddReason :: string
  ddSelectedProfileID :: string
  ddSelectedProfileVersion :: version
  ddEvidence :: "candidate_evidence list"
  ddMaxDecisionBytes :: int

record detected_identity =
  diValue :: string
  diEvidenceID :: string

definition bare_evidence :: "bound_candidate \<Rightarrow> string \<Rightarrow> candidate_evidence" where
  "bare_evidence b reason =
     \<lparr>ceProfileID = pfID (bcProfile b), ceProfileVersion = pfVersion (bcProfile b),
      ceScore = dcScore (bcCandidate b), ceReason = reason, ceMatchedGates = [],
      ceProbeEvidenceIDs = [], ceDetectorVersion = pfDetectorVersion (bcProfile b),
      ceQualificationVersion = pfQualificationVersion (bcProfile b)\<rparr>"

definition baseEvidence :: "profile_detector \<Rightarrow> string \<Rightarrow> candidate_evidence list" where
  "baseEvidence det reason = map (\<lambda>b. bare_evidence b reason) (deCandidates det)"

definition decision_of :: "profile_detector \<Rightarrow> string \<Rightarrow> string \<Rightarrow> string \<Rightarrow> version
    \<Rightarrow> candidate_evidence list \<Rightarrow> detection_decision" where
  "decision_of det result reason selectedID selectedVersion evidence =
     \<lparr>ddOutcome = result, ddReason = reason, ddSelectedProfileID = selectedID,
      ddSelectedProfileVersion = selectedVersion, ddEvidence = evidence,
      ddMaxDecisionBytes = dlMaxDecisionBytes (deLimits det)\<rparr>"

definition failureDecision :: "profile_detector \<Rightarrow> string \<Rightarrow> detection_decision" where
  "failureDecision det reason = decision_of det DetectionNoMatch reason [] [] (baseEvidence det reason)"

section \<open>Judging a candidate\<close>

text \<open>\<^verbatim>\<open>allowFixtureOnly\<close> is the one detection option; the empty reason means eligible.\<close>

definition candidateEligibilityReason :: "profile \<Rightarrow> detection_candidate \<Rightarrow> bool \<Rightarrow> string" where
  "candidateEligibilityReason p c allowFixtureOnly =
     (if pfState p = ProfileRevoked then DetectionReasonProfileRevoked
      else if pfState p = ProfileSuperseded then DetectionReasonProfileSuperseded
      else if pfState p \<noteq> ProfileActive then DetectionReasonInvalidIdentity
      else if pfMaturity p \<noteq> MaturityQualified then DetectionReasonProfileUnqualified
      else if \<not> pfDefaultEnabled p then DetectionReasonProfileDefaultOff
      else if \<not> dcEnabled c then DetectionReasonCandidateDisabled
      else if dcFixtureOnly c \<and> \<not> allowFixtureOnly then DetectionReasonFixtureOptInRequired
      else [])"

text \<open>A missing key of a Go map reads as the zero value.\<close>

definition identity_of :: "(string, detected_identity) gomap \<Rightarrow> string \<Rightarrow> detected_identity" where
  "identity_of identities f =
     (case gm_get identities f of None \<Rightarrow> \<lparr>diValue = [], diEvidenceID = []\<rparr> | Some i \<Rightarrow> i)"

definition with_gate :: "string \<Rightarrow> detected_identity \<Rightarrow> candidate_evidence \<Rightarrow> candidate_evidence" where
  "with_gate f i e = e\<lparr>ceMatchedGates := ceMatchedGates e @ [f],
     ceProbeEvidenceIDs := ceProbeEvidenceIDs e @ [diEvidenceID i]\<rparr>"

definition evaluateCandidate :: "bound_candidate \<Rightarrow> (string, detected_identity) gomap \<Rightarrow> bool
    \<Rightarrow> candidate_evidence" where
  "evaluateCandidate b identities allowFixtureOnly =
     (let spec = bcCandidate b; e = bare_evidence b [];
          reason = candidateEligibilityReason (bcProfile b) spec allowFixtureOnly;
          manufacturer = identity_of identities ProbeIdentityManufacturer;
          model = identity_of identities ProbeIdentityModel;
          firmware = identity_of identities ProbeIdentityFirmware in
      if reason \<noteq> [] then e\<lparr>ceReason := reason\<rparr>
      else if diValue manufacturer \<noteq> dcManufacturer spec
      then e\<lparr>ceReason := DetectionReasonIdentityMismatch\<rparr>
      else (let e = with_gate ProbeIdentityManufacturer manufacturer e in
        if diValue model \<noteq> dcModel spec then e\<lparr>ceReason := DetectionReasonIdentityMismatch\<rparr>
        else (let e = with_gate ProbeIdentityModel model e in
          case ParseVersion (diValue firmware) of
            Inl _ \<Rightarrow> e\<lparr>ceReason := DetectionReasonInvalidIdentity\<rparr>
          | Inr v \<Rightarrow>
              if version_lt v (dcMinimumInclusive spec) \<or> \<not> version_lt v (dcMaximumExclusive spec)
              then e\<lparr>ceReason := DetectionReasonFirmwareMismatch\<rparr>
              else (with_gate ProbeIdentityFirmware firmware e)\<lparr>ceReason := DetectionReasonSelected\<rparr>)))"

definition noMatchReason :: "candidate_evidence list \<Rightarrow> string" where
  "noMatchReason evidence =
     (case find (\<lambda>priority. list_ex (\<lambda>e. ceReason e = priority) evidence)
             [DetectionReasonInvalidIdentity, DetectionReasonIdentityMismatch,
              DetectionReasonFirmwareMismatch, DetectionReasonFixtureOptInRequired,
              DetectionReasonProfileRevoked, DetectionReasonProfileSuperseded,
              DetectionReasonProfileUnqualified, DetectionReasonProfileDefaultOff,
              DetectionReasonCandidateDisabled] of
        Some r \<Rightarrow> r
      | None \<Rightarrow> DetectionReasonInvalidIdentity)"

section \<open>The durable form of a decision\<close>

datatype decision_error =
    EvidenceInvalid
  | GatesNotCanonical
  | EvidenceIDInvalid
  | EvidenceIDDuplicate
  | RankedLacksGates
  | MismatchGates
  | FirmwareGates
  | ReasonGates
  | DecisionLimits plan_error
  | DecisionInvalid
  | EvidenceVersionsDisagree
  | ScoresUnequal
  | MatchedInconsistent
  | SelectedAbsent
  | RankingInconsistent
  | AmbiguousInconsistent
  | NoMatchInconsistent
  | DecisionEncoding
  | DecisionTooLong

definition validDetectionOutcome :: "string \<Rightarrow> bool" where
  "validDetectionOutcome x \<longleftrightarrow> x \<in> {DetectionMatched, DetectionNoMatch, DetectionAmbiguous}"

definition validDetectionReason :: "string \<Rightarrow> bool" where
  "validDetectionReason r \<longleftrightarrow> r \<in> {DetectionReasonSelected, DetectionReasonEqualBest,
     DetectionReasonMultipleMatches, DetectionReasonLowerScore, DetectionReasonIdentityMismatch,
     DetectionReasonFirmwareMismatch, DetectionReasonInvalidIdentity,
     DetectionReasonFixtureOptInRequired, DetectionReasonCandidateDisabled,
     DetectionReasonProfileDefaultOff, DetectionReasonProfileRevoked,
     DetectionReasonProfileSuperseded, DetectionReasonProfileUnqualified, DetectionReasonReadError,
     DetectionReasonProbeException, DetectionReasonIncompleteProbe,
     DetectionReasonInvalidProbeResult, DetectionReasonContextCancelled}"

definition identityFieldRank :: "string \<Rightarrow> int" where
  "identityFieldRank f =
     (if f = ProbeIdentityManufacturer then 0 else if f = ProbeIdentityModel then 1
      else if f = ProbeIdentityFirmware then 2 else - 1)"

fun validEvidenceOrder :: "candidate_evidence list \<Rightarrow> bool" where
  "validEvidenceOrder (a # b # es) \<longleftrightarrow>
     str_less (ceProfileID a) (ceProfileID b) \<and> validEvidenceOrder (b # es)"
| "validEvidenceOrder _ \<longleftrightarrow> True"

text \<open>The lists of gates and of evidence identities were found equally long before this loop.\<close>

fun check_gates :: "detection_limits \<Rightarrow> int \<Rightarrow> string list \<Rightarrow> string list \<Rightarrow> string list
    \<Rightarrow> decision_error outcome" where
  "check_gates l previousRank seen (f # fs) (i # ids) =
     (if identityFieldRank f \<le> previousRank then Some GatesNotCanonical
      else if \<not> validProbeEvidenceID i (dlMaxEvidenceIDBytes l) then Some EvidenceIDInvalid
      else if i \<in> set seen then Some EvidenceIDDuplicate
      else check_gates l (identityFieldRank f) (i # seen) fs ids)"
| "check_gates l previousRank seen _ _ = None"

definition check_gate_count :: "string \<Rightarrow> nat \<Rightarrow> decision_error outcome" where
  "check_gate_count reason gateCount =
     (if reason \<in> {DetectionReasonSelected, DetectionReasonEqualBest, DetectionReasonMultipleMatches,
           DetectionReasonLowerScore} then (if gateCount \<noteq> 3 then Some RankedLacksGates else None)
      else if reason = DetectionReasonIdentityMismatch then
        (if gateCount > 1 then Some MismatchGates else None)
      else if reason = DetectionReasonFirmwareMismatch then
        (if gateCount \<noteq> 2 then Some FirmwareGates else None)
      else if gateCount \<noteq> 0 then Some ReasonGates else None)"

definition validateDetectionEvidence :: "candidate_evidence \<Rightarrow> detection_limits \<Rightarrow> decision_error outcome" where
  "validateDetectionEvidence e l =
     (if \<not> validIdentity (ceProfileID e) \<or> \<not> version_valid (ceProfileVersion e) \<or> ceScore e = 0
         \<or> \<not> validDetectionReason (ceReason e) \<or> \<not> version_valid (ceDetectorVersion e)
         \<or> \<not> version_valid (ceQualificationVersion e)
         \<or> int (length (ceMatchedGates e)) > dlMaxPlanDeclarations l
         \<or> length (ceProbeEvidenceIDs e) \<noteq> length (ceMatchedGates e) then Some EvidenceInvalid
      else (case check_gates l (- 1) [] (ceMatchedGates e) (ceProbeEvidenceIDs e) of
          Some x \<Rightarrow> Some x
        | None \<Rightarrow> check_gate_count (ceReason e) (length (ceMatchedGates e))))"

text \<open>The counters of the loop over the evidence.\<close>

record tally =
  tySelected :: nat
  tySelectedScore :: u32
  tyEqualBest :: nat
  tyEqualBestScore :: u32
  tyMultiple :: nat
  tyLower :: nat
  tyReasonPresent :: bool

definition count_evidence :: "string \<Rightarrow> candidate_evidence \<Rightarrow> tally \<Rightarrow> decision_error + tally" where
  "count_evidence overall e t =
     (let present = (tyReasonPresent t \<or> ceReason e = overall) in
      if ceReason e = DetectionReasonSelected then
        Inr (t\<lparr>tySelected := tySelected t + 1, tySelectedScore := ceScore e, tyReasonPresent := present\<rparr>)
      else if ceReason e = DetectionReasonEqualBest then
        (if tyEqualBest t \<noteq> 0 \<and> ceScore e \<noteq> tyEqualBestScore t then Inl ScoresUnequal
         else Inr (t\<lparr>tyEqualBest := tyEqualBest t + 1,
           tyEqualBestScore := (if tyEqualBest t = 0 then ceScore e else tyEqualBestScore t),
           tyReasonPresent := present\<rparr>))
      else if ceReason e = DetectionReasonMultipleMatches then
        Inr (t\<lparr>tyMultiple := tyMultiple t + 1, tyReasonPresent := present\<rparr>)
      else if ceReason e = DetectionReasonLowerScore then
        Inr (t\<lparr>tyLower := tyLower t + 1, tyReasonPresent := present\<rparr>)
      else Inr (t\<lparr>tyReasonPresent := present\<rparr>))"

fun tally_evidence :: "detection_limits \<Rightarrow> string \<Rightarrow> version option \<Rightarrow> candidate_evidence list \<Rightarrow> tally
    \<Rightarrow> decision_error + tally" where
  "tally_evidence l overall detectorVersion [] t = Inr t"
| "tally_evidence l overall detectorVersion (e # es) t =
     (case validateDetectionEvidence e l of
        Some x \<Rightarrow> Inl x
      | None \<Rightarrow>
          if detectorVersion \<noteq> None \<and> detectorVersion \<noteq> Some (ceDetectorVersion e)
          then Inl EvidenceVersionsDisagree
          else (case count_evidence overall e t of
              Inl x \<Rightarrow> Inl x
            | Inr t' \<Rightarrow> tally_evidence l overall
                (if detectorVersion = None then Some (ceDetectorVersion e) else detectorVersion) es t'))"

definition empty_tally :: tally where
  "empty_tally = \<lparr>tySelected = 0, tySelectedScore = 0, tyEqualBest = 0, tyEqualBestScore = 0,
     tyMultiple = 0, tyLower = 0, tyReasonPresent = False\<rparr>"

definition lower_scores_below :: "u32 \<Rightarrow> candidate_evidence list \<Rightarrow> bool" where
  "lower_scores_below best es \<longleftrightarrow>
     list_all (\<lambda>e. \<not> (ceReason e = DetectionReasonLowerScore \<and> ceScore e \<ge> best)) es"

text \<open>The last evidence marked selected decides whether the selection was found.\<close>

definition selected_found :: "detection_decision \<Rightarrow> bool" where
  "selected_found d =
     fold (\<lambda>e found. if ceReason e = DetectionReasonSelected
             then ceProfileID e = ddSelectedProfileID d \<and> ceProfileVersion e = ddSelectedProfileVersion d
             else found) (ddEvidence d) False"

definition check_outcome :: "detection_decision \<Rightarrow> tally \<Rightarrow> decision_error outcome" where
  "check_outcome d t =
     (if ddOutcome d = DetectionMatched then
        (if ddReason d \<noteq> DetectionReasonSelected \<or> \<not> validIdentity (ddSelectedProfileID d)
            \<or> \<not> version_valid (ddSelectedProfileVersion d) \<or> tySelected t \<noteq> 1
            \<or> tyEqualBest t \<noteq> 0 \<or> tyMultiple t \<noteq> 0 then Some MatchedInconsistent
         else if \<not> selected_found d then Some SelectedAbsent
         else if \<not> lower_scores_below (tySelectedScore t) (ddEvidence d) then Some RankingInconsistent
         else None)
      else if ddOutcome d = DetectionAmbiguous then
        (if ddSelectedProfileID d \<noteq> [] \<or> version_valid (ddSelectedProfileVersion d)
            \<or> tySelected t \<noteq> 0 then Some AmbiguousInconsistent
         else if ddReason d = DetectionReasonEqualBest then
           (if tyEqualBest t < 2 \<or> tyMultiple t \<noteq> 0 then Some AmbiguousInconsistent
            else if \<not> lower_scores_below (tyEqualBestScore t) (ddEvidence d)
            then Some RankingInconsistent else None)
         else if ddReason d = DetectionReasonMultipleMatches then
           (if tyMultiple t < 2 \<or> tyEqualBest t \<noteq> 0 \<or> tyLower t \<noteq> 0
            then Some AmbiguousInconsistent else None)
         else Some AmbiguousInconsistent)
      else if ddOutcome d = DetectionNoMatch then
        (if ddReason d \<in> {DetectionReasonSelected, DetectionReasonEqualBest,
              DetectionReasonMultipleMatches, DetectionReasonLowerScore}
            \<or> ddSelectedProfileID d \<noteq> [] \<or> version_valid (ddSelectedProfileVersion d)
            \<or> tySelected t \<noteq> 0 \<or> tyEqualBest t \<noteq> 0 \<or> tyMultiple t \<noteq> 0 \<or> tyLower t \<noteq> 0
            \<or> \<not> tyReasonPresent t then Some NoMatchInconsistent
         else None)
      else Some DecisionInvalid)"

definition validateDetectionDecision :: "platform \<Rightarrow> detection_decision \<Rightarrow> detection_limits
    \<Rightarrow> decision_error outcome" where
  "validateDetectionDecision pl d l =
     (case validateDetectionLimits pl l of
        Some e \<Rightarrow> Some (DecisionLimits e)
      | None \<Rightarrow>
          if \<not> validDetectionOutcome (ddOutcome d) \<or> \<not> validDetectionReason (ddReason d)
             \<or> ddEvidence d = [] \<or> length (ddEvidence d) > MaxProfileDependencies
             \<or> \<not> validEvidenceOrder (ddEvidence d) then Some DecisionInvalid
          else (case tally_evidence l (ddReason d) None (ddEvidence d) empty_tally of
              Inl e \<Rightarrow> Some e
            | Inr t \<Rightarrow> check_outcome d t))"

text \<open>The transfer records, the walk over their budget and their JSON text.\<close>

record evidence_dto =
  edProfileID :: string
  edProfileVersion :: string
  edScore :: u32
  edReason :: string
  edMatchedGates :: "string list"
  edProbeEvidenceIDs :: "string list"
  edDetectorVersion :: string
  edQualificationVersion :: string

record decision_dto =
  dtSchemaVersion :: string
  dtOutcome :: string
  dtReason :: string
  dtSelectedProfileID :: string
  dtSelectedProfileVersion :: string
  dtEvidence :: "evidence_dto list"

definition evidence_to_dto :: "candidate_evidence \<Rightarrow> evidence_dto" where
  "evidence_to_dto e =
     \<lparr>edProfileID = ceProfileID e, edProfileVersion = ceProfileVersion e, edScore = ceScore e,
      edReason = ceReason e, edMatchedGates = ceMatchedGates e,
      edProbeEvidenceIDs = ceProbeEvidenceIDs e, edDetectorVersion = ceDetectorVersion e,
      edQualificationVersion = ceQualificationVersion e\<rparr>"

definition detectionDecisionToDTO :: "detection_decision \<Rightarrow> decision_dto" where
  "detectionDecisionToDTO d =
     \<lparr>dtSchemaVersion = schemaVersionV1, dtOutcome = ddOutcome d, dtReason = ddReason d,
      dtSelectedProfileID = ddSelectedProfileID d,
      dtSelectedProfileVersion = (if version_valid (ddSelectedProfileVersion d)
        then ddSelectedProfileVersion d else []),
      dtEvidence = map evidence_to_dto (ddEvidence d)\<rparr>"

definition evidence_dto_agg :: "evidence_dto \<Rightarrow> agg" where
  "evidence_dto_agg e = AggStruct False
     [(''ProfileID'', string_agg (edProfileID e)), (''ProfileVersion'', string_agg (edProfileVersion e)),
      (''Score'', AggInteger), (''Reason'', string_agg (edReason e)),
      (''MatchedGates'', strings_agg (edMatchedGates e)),
      (''ProbeEvidenceIDs'', strings_agg (edProbeEvidenceIDs e)),
      (''DetectorVersion'', string_agg (edDetectorVersion e)),
      (''QualificationVersion'', string_agg (edQualificationVersion e))]"

definition decision_dto_agg :: "decision_dto \<Rightarrow> agg" where
  "decision_dto_agg d = AggStruct False
     [(''SchemaVersion'', string_agg (dtSchemaVersion d)), (''Outcome'', string_agg (dtOutcome d)),
      (''Reason'', string_agg (dtReason d)),
      (''SelectedProfileID'', string_agg (dtSelectedProfileID d)),
      (''SelectedProfileVersion'', string_agg (dtSelectedProfileVersion d)),
      (''Evidence'', AggSequence (map evidence_dto_agg (dtEvidence d)))]"

definition evidence_dto_json :: "evidence_dto \<Rightarrow> string" where
  "evidence_dto_json e = json_object
     [(''profile_id'', json_text (edProfileID e)), (''profile_version'', json_text (edProfileVersion e)),
      (''score'', dec (unat (edScore e))), (''reason'', json_text (edReason e)),
      (''matched_gates'', json_array (map json_text (edMatchedGates e))),
      (''probe_evidence_ids'', json_array (map json_text (edProbeEvidenceIDs e))),
      (''detector_version'', json_text (edDetectorVersion e)),
      (''qualification_version'', json_text (edQualificationVersion e))]"

definition decision_dto_json :: "decision_dto \<Rightarrow> string" where
  "decision_dto_json d = json_object
     [(''schema_version'', json_text (dtSchemaVersion d)), (''outcome'', json_text (dtOutcome d)),
      (''reason'', json_text (dtReason d)),
      (''selected_profile_id'', json_text (dtSelectedProfileID d)),
      (''selected_profile_version'', json_text (dtSelectedProfileVersion d)),
      (''evidence'', json_array (map evidence_dto_json (dtEvidence d)))]"

definition MarshalDetectionDecision :: "platform \<Rightarrow> detection_decision \<Rightarrow> decision_error + string" where
  "MarshalDetectionDecision pl d =
     (let l = DefaultDetectionLimits pl;
          l = (if ddMaxDecisionBytes d > 0 then l\<lparr>dlMaxDecisionBytes := ddMaxDecisionBytes d\<rparr> else l) in
      case validateDetectionDecision pl d l of
        Some e \<Rightarrow> Inl e
      | None \<Rightarrow> (case marshal_bounded (decision_dto_agg (detectionDecisionToDTO d))
                       (decision_dto_json (detectionDecisionToDTO d)) of
            None \<Rightarrow> Inl DecisionEncoding
          | Some encoded \<Rightarrow>
              if int (length encoded) > dlMaxDecisionBytes l then Inl DecisionTooLong else Inr encoded))"

text \<open>\<^verbatim>\<open>UnmarshalDetectionDecision\<close> after \<^verbatim>\<open>decodeStrict\<close> has read the transfer record.\<close>

definition detectionEvidenceFromDTO :: "evidence_dto \<Rightarrow> contract_error + candidate_evidence" where
  "detectionEvidenceFromDTO r =
     (case ParseVersion (edProfileVersion r) of
        Inl e \<Rightarrow> Inl e
      | Inr profileVersion \<Rightarrow> (case ParseVersion (edDetectorVersion r) of
          Inl e \<Rightarrow> Inl e
        | Inr detectorVersion \<Rightarrow> (case ParseVersion (edQualificationVersion r) of
            Inl e \<Rightarrow> Inl e
          | Inr qualificationVersion \<Rightarrow> Inr
              \<lparr>ceProfileID = edProfileID r, ceProfileVersion = profileVersion, ceScore = edScore r,
               ceReason = edReason r, ceMatchedGates = edMatchedGates r,
               ceProbeEvidenceIDs = edProbeEvidenceIDs r, ceDetectorVersion = detectorVersion,
               ceQualificationVersion = qualificationVersion\<rparr>)))"

datatype unmarshal_error =
    UnmarshalSchema
  | UnmarshalVersion contract_error
  | UnmarshalNotCanonical
  | UnmarshalDecision decision_error
  | UnmarshalTooLong

definition evidence_before :: "candidate_evidence \<Rightarrow> candidate_evidence \<Rightarrow> bool" where
  "evidence_before first second \<longleftrightarrow>
     (if ceProfileID first \<noteq> ceProfileID second then str_less (ceProfileID first) (ceProfileID second)
      else version_lt (ceProfileVersion first) (ceProfileVersion second))"

text \<open>\<^verbatim>\<open>sort.SliceIsSorted\<close>: no element comes before its predecessor.\<close>

fun slice_is_sorted :: "('a \<Rightarrow> 'a \<Rightarrow> bool) \<Rightarrow> 'a list \<Rightarrow> bool" where
  "slice_is_sorted before (x # y # zs) \<longleftrightarrow> \<not> before y x \<and> slice_is_sorted before (y # zs)"
| "slice_is_sorted before _ \<longleftrightarrow> True"

definition decision_from_dto :: "platform \<Rightarrow> decision_dto \<Rightarrow> unmarshal_error + detection_decision" where
  "decision_from_dto pl record =
     (case ParseVersion (dtSchemaVersion record) of
        Inl _ \<Rightarrow> Inl UnmarshalSchema
      | Inr schema \<Rightarrow>
          if schema \<noteq> schemaVersionV1 then Inl UnmarshalSchema
          else (case (if dtSelectedProfileVersion record = [] then Inr []
                      else ParseVersion (dtSelectedProfileVersion record)) of
              Inl e \<Rightarrow> Inl (UnmarshalVersion e)
            | Inr selectedVersion \<Rightarrow> (case validate_all detectionEvidenceFromDTO (dtEvidence record) of
                Inl e \<Rightarrow> Inl (UnmarshalVersion e)
              | Inr evidence \<Rightarrow>
                  if \<not> slice_is_sorted evidence_before evidence then Inl UnmarshalNotCanonical
                  else
                    (let d = \<lparr>ddOutcome = dtOutcome record, ddReason = dtReason record,
                         ddSelectedProfileID = dtSelectedProfileID record,
                         ddSelectedProfileVersion = selectedVersion, ddEvidence = evidence,
                         ddMaxDecisionBytes = int MaxSerializedContractBytes\<rparr> in
                     case validateDetectionDecision pl d (DefaultDetectionLimits pl) of
                       Some e \<Rightarrow> Inl (UnmarshalDecision e)
                     | None \<Rightarrow> (case MarshalDetectionDecision pl d of
                         Inl e \<Rightarrow> Inl (UnmarshalDecision e)
                       | Inr encoded \<Rightarrow>
                           if length encoded > MaxSerializedContractBytes then Inl UnmarshalTooLong
                           else Inr d)))))"

section \<open>Detection\<close>

text \<open>
  A reader and a context are whatever the caller brings: the answer to a read, and whether the
  context is cancelled when it is looked at, may depend on the requests made so far. \<open>None\<close> is a
  read that failed.
\<close>

record environment =
  enCancelledBefore :: "probe_request list \<Rightarrow> bool"
  enRead :: "probe_request list \<Rightarrow> read_result option"
  enCancelledAfter :: "probe_request list \<Rightarrow> bool"

record probe_progress =
  pgRequests :: "probe_request list"
  pgIdentities :: "(string, detected_identity) gomap"
  pgEvidenceIDs :: "string list"
  pgTotalWords :: int

definition admit_probe :: "detection_limits \<Rightarrow> probe_declaration \<Rightarrow> read_result \<Rightarrow> probe_progress
    \<Rightarrow> string + probe_progress" where
  "admit_probe l d r st =
     (if \<not> validWithin r l then Inl DetectionReasonInvalidProbeResult
      else if rrStatus r = ProbeReadException then Inl DetectionReasonProbeException
      else if length (rrWords r) \<noteq> unat (pbWordCount d) then Inl DetectionReasonIncompleteProbe
      else if pgTotalWords st > dlMaxTotalWords l - int (length (rrWords r))
      then Inl DetectionReasonInvalidProbeResult
      else if rrEvidenceID r \<in> set (pgEvidenceIDs st) then Inl DetectionReasonInvalidProbeResult
      else (case decodeProbeASCII (rrWords r) (dlMaxIdentityBytes l) of
          None \<Rightarrow> Inl DetectionReasonInvalidIdentity
        | Some identity \<Rightarrow> (case gm_get (pgIdentities st) (pbIdentityField d) of
            Some prior \<Rightarrow>
              if diValue prior \<noteq> identity \<or> diEvidenceID prior \<noteq> rrEvidenceID r
              then Inl DetectionReasonInvalidIdentity else Inl DetectionReasonInvalidProbeResult
          | None \<Rightarrow> Inr (st\<lparr>pgTotalWords := pgTotalWords st + int (length (rrWords r)),
              pgEvidenceIDs := rrEvidenceID r # pgEvidenceIDs st,
              pgIdentities := gm_put (pbIdentityField d)
                \<lparr>diValue = identity, diEvidenceID = rrEvidenceID r\<rparr> (pgIdentities st)\<rparr>))))"

text \<open>The walk ends with a failure reason, and whether the error of the context is returned with
  it, or with the identities it read.\<close>

fun run_probes :: "detection_limits \<Rightarrow> environment \<Rightarrow> probe_declaration list \<Rightarrow> probe_progress
    \<Rightarrow> probe_progress \<times> (string \<times> bool) option" where
  "run_probes l env [] st = (st, None)"
| "run_probes l env (d # ds) st =
     (if enCancelledBefore env (pgRequests st) then (st, Some (DetectionReasonContextCancelled, True))
      else
        (let requests = pgRequests st @ [probeRequest d]; st = st\<lparr>pgRequests := requests\<rparr> in
         if enCancelledAfter env requests then (st, Some (DetectionReasonContextCancelled, True))
         else (case enRead env requests of
             None \<Rightarrow> (st, Some (DetectionReasonReadError, False))
           | Some r \<Rightarrow> (case admit_probe l d r st of
               Inl reason \<Rightarrow> (st, Some (reason, False))
             | Inr st' \<Rightarrow> run_probes l env ds st'))))"

definition start_progress :: probe_progress where
  "start_progress = \<lparr>pgRequests = [], pgIdentities = [], pgEvidenceIDs = [], pgTotalWords = 0\<rparr>"

definition decide :: "profile_detector \<Rightarrow> (string, detected_identity) gomap \<Rightarrow> bool \<Rightarrow> detection_decision" where
  "decide det identities allowFixtureOnly =
     (case ParseVersion (diValue (identity_of identities ProbeIdentityFirmware)) of
        Inl _ \<Rightarrow> failureDecision det DetectionReasonInvalidIdentity
      | Inr _ \<Rightarrow>
          (let evidence = map (\<lambda>b. evaluateCandidate b identities allowFixtureOnly) (deCandidates det);
               matched = filter (\<lambda>e. ceReason e = DetectionReasonSelected) evidence in
           if matched = [] then decision_of det DetectionNoMatch (noMatchReason evidence) [] [] evidence
           else if length matched > 1 then
             decision_of det DetectionAmbiguous DetectionReasonMultipleMatches [] []
               (map (\<lambda>e. if ceReason e = DetectionReasonSelected
                     then e\<lparr>ceReason := DetectionReasonMultipleMatches\<rparr> else e) evidence)
           else decision_of det DetectionMatched DetectionReasonSelected (ceProfileID (hd matched))
                  (ceProfileVersion (hd matched)) evidence))"

datatype detect_error = DetectRequest | DetectDecision decision_error

definition finalizeDecision :: "platform \<Rightarrow> detection_decision \<Rightarrow> detect_error + detection_decision" where
  "finalizeDecision pl d =
     (case MarshalDetectionDecision pl d of Inl e \<Rightarrow> Inl (DetectDecision e) | Inr _ \<Rightarrow> Inr d)"

text \<open>
  The result is the requests that were made, and an error or the decision with whether the error
  of the context comes with it. A nil context or reader is \<open>None\<close>, as is a nil detector.
\<close>

definition Detect :: "platform \<Rightarrow> profile_detector option \<Rightarrow> environment option \<Rightarrow> bool
    \<Rightarrow> probe_request list \<times> (detect_error + detection_decision \<times> bool)" where
  "Detect pl detector caller allowFixtureOnly =
     (case (detector, caller) of
        (Some det, Some env) \<Rightarrow>
          (let (st, failure) = run_probes (deLimits det) env (ppDeclarations (dePlan det)) start_progress;
               (d, cancelled) = (case failure of
                   Some (reason, ctx) \<Rightarrow> (failureDecision det reason, ctx)
                 | None \<Rightarrow> (decide det (pgIdentities st) allowFixtureOnly, False)) in
           (pgRequests st, case finalizeDecision pl d of
              Inl e \<Rightarrow> Inl e
            | Inr d \<Rightarrow> Inr (d, cancelled)))
      | _ \<Rightarrow> ([], Inl DetectRequest))"

end
