(* ===== verification/Detection_Decision.thy ===== *)
theory Detection_Decision
  imports Detection
begin

text \<open>
  What a detector decides: the candidates of an accepted detector are bound, sorted and distinct;
  the evidence of each follows from its gates; and every decision, whatever the identities read,
  passes the validation of decisions. \<open>decide_cases\<close> gives the decision by the number of
  candidates that match the device.
\<close>

section \<open>What an accepted detector is\<close>

lemma version_lt_iff:
  assumes "version_valid v" and "version_valid w"
  shows "version_lt v w \<longleftrightarrow> compare_keys (version_key v) (version_key w) < 0"
  using compareVersion_valid [OF assms] by (simp add: version_lt_def)

lemma NewDetectionCandidate_Inr:
  assumes "NewDetectionCandidate pl spec l = Inr c"
  shows "c = spec" and "validIdentity (dcProfileID c)" and "version_valid (dcProfileVersion c)"
    and "dcScore c \<noteq> 0" and "version_valid (dcMinimumInclusive c)" and "version_valid (dcMaximumExclusive c)"
  using assms by (auto simp: NewDetectionCandidate_def split: option.splits if_splits)

text \<open>A candidate bound to its profile, as \<^verbatim>\<open>NewProfileDetector\<close> leaves it.\<close>

definition bound_ok :: "version \<Rightarrow> bound_candidate \<Rightarrow> bool" where
  "bound_ok detectorVersion b \<longleftrightarrow>
     dcProfileID (bcCandidate b) = pfID (bcProfile b)
     \<and> dcProfileVersion (bcCandidate b) = pfVersion (bcProfile b)
     \<and> validIdentity (pfID (bcProfile b)) \<and> version_valid (pfVersion (bcProfile b))
     \<and> pfDetectorVersion (bcProfile b) = detectorVersion
     \<and> version_valid (pfQualificationVersion (bcProfile b)) \<and> dcScore (bcCandidate b) \<noteq> 0
     \<and> version_valid (dcMinimumInclusive (bcCandidate b))
     \<and> version_valid (dcMaximumExclusive (bcCandidate b))"

lemma bind_candidates_Inr:
  assumes "bind_candidates pl spec byID seen cs = Inr bs"
    and "\<And>k p. gm_get byID k = Some p \<Longrightarrow> pfID p = k"
  shows "map bcCandidate bs = cs" and "\<forall>b \<in> set bs. bound_ok (xsVersion spec) b"
    and "\<forall>b \<in> set bs. gm_get byID (dcProfileID (bcCandidate b)) = Some (bcProfile b)"
    and "distinct (map dcProfileID cs)" and "dcProfileID ` set cs \<inter> set seen = {}"
proof -
  have "map bcCandidate bs = cs \<and> (\<forall>b \<in> set bs. bound_ok (xsVersion spec) b)
    \<and> (\<forall>b \<in> set bs. gm_get byID (dcProfileID (bcCandidate b)) = Some (bcProfile b))
    \<and> distinct (map dcProfileID cs) \<and> dcProfileID ` set cs \<inter> set seen = {}"
    using assms(1)
  proof (induction cs arbitrary: seen bs)
    case Nil
    then show ?case by simp
  next
    case (Cons c cs)
    then obtain p bs' where n: "NewDetectionCandidate pl c (xsLimits spec) = Inr c"
      and p: "gm_get byID (dcProfileID c) = Some p" "pfVersion p = dcProfileVersion c"
        "pfDetectorVersion p = xsVersion spec" "version_valid (pfQualificationVersion p)"
      and seen: "dcProfileID c \<notin> set seen"
      and rest: "bind_candidates pl spec byID (dcProfileID c # seen) cs = Inr bs'"
      and bs: "bs = \<lparr>bcCandidate = c, bcProfile = p\<rparr> # bs'"
      using NewDetectionCandidate_Inr(1)
      by (fastforce split: sum.splits if_splits option.splits)
    have "bound_ok (xsVersion spec) \<lparr>bcCandidate = c, bcProfile = p\<rparr>"
      using NewDetectionCandidate_Inr(2-6) [OF n] p assms(2) [OF p(1)] by (simp add: bound_ok_def)
    with Cons.IH [OF rest] p(1) seen bs show ?case by auto
  qed
  then show "map bcCandidate bs = cs" "\<forall>b \<in> set bs. bound_ok (xsVersion spec) b"
    "\<forall>b \<in> set bs. gm_get byID (dcProfileID (bcCandidate b)) = Some (bcProfile b)"
    "distinct (map dcProfileID cs)" "dcProfileID ` set cs \<inter> set seen = {}" by blast+
qed

text \<open>Accepting the candidates does not depend on their order.\<close>

definition candidate_bound_to :: "platform \<Rightarrow> detector_spec \<Rightarrow> (string, profile) gomap
    \<Rightarrow> detection_candidate \<Rightarrow> profile \<Rightarrow> bool" where
  "candidate_bound_to pl spec byID c p \<longleftrightarrow>
     NewDetectionCandidate pl c (xsLimits spec) = Inr c
     \<and> gm_get byID (dcProfileID c) = Some p \<and> pfVersion p = dcProfileVersion c
     \<and> pfDetectorVersion p = xsVersion spec \<and> version_valid (pfQualificationVersion p)"

lemma bind_candidates_iff:
  "bind_candidates pl spec byID seen cs = Inr bs \<longleftrightarrow>
     map bcCandidate bs = cs \<and> distinct (map dcProfileID cs) \<and> dcProfileID ` set cs \<inter> set seen = {}
     \<and> (\<forall>b \<in> set bs. candidate_bound_to pl spec byID (bcCandidate b) (bcProfile b))"
proof (induction cs arbitrary: seen bs)
  case Nil
  then show ?case by auto
next
  case (Cons c cs)
  show ?case
  proof (cases "\<exists>p. candidate_bound_to pl spec byID c p \<and> dcProfileID c \<notin> set seen")
    case True
    then obtain p where p: "candidate_bound_to pl spec byID c p" "dcProfileID c \<notin> set seen" by blast
    then have "bind_candidates pl spec byID seen (c # cs) = Inr bs \<longleftrightarrow>
        (\<exists>bs'. bind_candidates pl spec byID (dcProfileID c # seen) cs = Inr bs'
           \<and> bs = \<lparr>bcCandidate = c, bcProfile = p\<rparr> # bs')"
      by (auto simp: candidate_bound_to_def split: sum.splits)
    also have "\<dots> \<longleftrightarrow> (\<exists>bs'. map bcCandidate bs' = cs \<and> distinct (map dcProfileID cs)
        \<and> dcProfileID ` set cs \<inter> set (dcProfileID c # seen) = {}
        \<and> (\<forall>b \<in> set bs'. candidate_bound_to pl spec byID (bcCandidate b) (bcProfile b))
        \<and> bs = \<lparr>bcCandidate = c, bcProfile = p\<rparr> # bs')"
      by (simp only: Cons.IH conj_assoc)
    also have "\<dots> \<longleftrightarrow> map bcCandidate bs = c # cs \<and> distinct (map dcProfileID (c # cs))
        \<and> dcProfileID ` set (c # cs) \<inter> set seen = {}
        \<and> (\<forall>b \<in> set bs. candidate_bound_to pl spec byID (bcCandidate b) (bcProfile b))"
      (is "?l \<longleftrightarrow> ?r")
    proof
      assume ?r
      then obtain b bs' where b: "bs = b # bs'" "bcCandidate b = c" "map bcCandidate bs' = cs" by auto
      moreover from this \<open>?r\<close> p have "bcProfile b = p" by (simp add: candidate_bound_to_def)
      ultimately have "bs = \<lparr>bcCandidate = c, bcProfile = p\<rparr> # bs'" by (cases b) simp
      with \<open>?r\<close> b p show ?l by auto
    qed (use p in auto)
    finally show ?thesis .
  next
    case False
    then have "\<nexists>bs. bind_candidates pl spec byID seen (c # cs) = Inr bs"
      using NewDetectionCandidate_Inr(1) [of pl c "xsLimits spec"]
      by (auto simp: candidate_bound_to_def split: sum.splits option.splits)
    moreover have "\<not> (map bcCandidate bs = c # cs \<and> dcProfileID ` set (c # cs) \<inter> set seen = {}
        \<and> (\<forall>b \<in> set bs. candidate_bound_to pl spec byID (bcCandidate b) (bcProfile b)))"
      using False by (cases bs) auto
    ultimately show ?thesis by auto
  qed
qed

lemma NewProfileDetector_Inr:
  assumes "NewProfileDetector pl spec = Inr det"
  obtains bs where "bind_candidates pl spec (by_id (List.map_filter id (Profiles pl (xsCatalog spec)))) []
      (xsCandidates spec) = Inr bs"
    and "deCandidates det = sort_by bound_before bs"
    and "detectionDecisionUpperBound (deCandidates det) (dePlan det) (deLimits det) = None"
    and "NewProbePlan pl (xsPlan spec) (xsLimits spec) = Inr (dePlan det)"
    and "{ProbeIdentityManufacturer, ProbeIdentityModel, ProbeIdentityFirmware}
      \<subseteq> pbIdentityField ` set (ppDeclarations (dePlan det))"
    and "deLimits det = xsLimits spec" and "deVersion det = xsVersion spec" and "version_valid (xsVersion spec)"
    and "xsCandidates spec \<noteq> []" and "length (xsCandidates spec) \<le> MaxProfileDependencies"
    and "validateDetectionLimits pl (deLimits det) = None"
proof -
  let ?byID = "by_id (List.map_filter id (Profiles pl (xsCatalog spec)))"
  have "\<exists>bs. bind_candidates pl spec ?byID [] (xsCandidates spec) = Inr bs
      \<and> deCandidates det = sort_by bound_before bs
      \<and> detectionDecisionUpperBound (deCandidates det) (dePlan det) (deLimits det) = None
      \<and> NewProbePlan pl (xsPlan spec) (xsLimits spec) = Inr (dePlan det)
      \<and> deLimits det = xsLimits spec \<and> deVersion det = xsVersion spec"
    and "{ProbeIdentityManufacturer, ProbeIdentityModel, ProbeIdentityFirmware}
      \<subseteq> pbIdentityField ` set (ppDeclarations (dePlan det))"
    and "version_valid (xsVersion spec)" "xsCandidates spec \<noteq> []"
    and "length (xsCandidates spec) \<le> MaxProfileDependencies"
    and "validateDetectionLimits pl (deLimits det) = None"
    using assms by (auto simp: NewProfileDetector_def Let_def split: option.splits if_splits sum.splits)
  then show ?thesis using that by blast
qed

lemma detector_accepted:
  assumes "NewProfileDetector pl spec = Inr det"
  shows "sorted_wrt str_less (map (\<lambda>b. pfID (bcProfile b)) (deCandidates det))"
    and "distinct (map (\<lambda>b. pfID (bcProfile b)) (deCandidates det))"
    and "\<forall>b \<in> set (deCandidates det). bound_ok (deVersion det) b"
    and "bcCandidate ` set (deCandidates det) = set (xsCandidates spec)"
    and "length (deCandidates det) = length (xsCandidates spec)"
    and "version_valid (deVersion det)"
    and "detectionDecisionUpperBound (deCandidates det) (dePlan det) (deLimits det) = None"
    and "validateDetectionLimits pl (deLimits det) = None"
    and "length (ppDeclarations (dePlan det)) = 3"
    and "pbIdentityField ` set (ppDeclarations (dePlan det))
      = {ProbeIdentityManufacturer, ProbeIdentityModel, ProbeIdentityFirmware}"
    and "check_declarations (deLimits det) [] [] 0 (ppDeclarations (dePlan det)) = None"
    and "deCandidates det \<noteq> []" and "length (deCandidates det) \<le> MaxProfileDependencies"
proof -
  obtain bs where n: "bind_candidates pl spec (by_id (List.map_filter id (Profiles pl (xsCatalog spec)))) []
      (xsCandidates spec) = Inr bs" "deCandidates det = sort_by bound_before bs"
    "detectionDecisionUpperBound (deCandidates det) (dePlan det) (deLimits det) = None"
    "NewProbePlan pl (xsPlan spec) (xsLimits spec) = Inr (dePlan det)"
    "{ProbeIdentityManufacturer, ProbeIdentityModel, ProbeIdentityFirmware}
      \<subseteq> pbIdentityField ` set (ppDeclarations (dePlan det))"
    "deLimits det = xsLimits spec" "deVersion det = xsVersion spec" "version_valid (xsVersion spec)"
    "xsCandidates spec \<noteq> []" "length (xsCandidates spec) \<le> MaxProfileDependencies"
    "validateDetectionLimits pl (deLimits det) = None"
    using NewProfileDetector_Inr [OF assms] by blast
  have key: "pfID p = k" if "gm_get (by_id (List.map_filter id (Profiles pl (xsCatalog spec)))) k = Some p" for k p
    using that by_id_get [of _ "[]" k p] by (fastforce simp: by_id_def gm.get_empty)
  note b = bind_candidates_Inr [OF n(1) key]
  have "map (\<lambda>b. pfID (bcProfile b)) bs = map dcProfileID (map bcCandidate bs)"
    using b(2) by (simp add: bound_ok_def)
  then have "distinct (map (\<lambda>b. pfID (bcProfile b)) bs)" using b(1,4) by simp
  then show "sorted_wrt str_less (map (\<lambda>b. pfID (bcProfile b)) (deCandidates det))"
    "distinct (map (\<lambda>b. pfID (bcProfile b)) (deCandidates det))"
    using bound_sort.sorted_keys bound_sort.sorted_distinct n(2) by simp_all
  show "\<forall>b \<in> set (deCandidates det). bound_ok (deVersion det) b" using b(2) n(2,7) by simp
  have "set (map bcCandidate bs) = set (xsCandidates spec)" using b(1) by (rule arg_cong)
  then show "bcCandidate ` set (deCandidates det) = set (xsCandidates spec)" using n(2) by simp
  have "length (map bcCandidate bs) = length (xsCandidates spec)" using b(1) by (rule arg_cong)
  then show len: "length (deCandidates det) = length (xsCandidates spec)" using n(2) by simp
  then show "deCandidates det \<noteq> []" "length (deCandidates det) \<le> MaxProfileDependencies"
    using n(9,10) by auto
  show "length (ppDeclarations (dePlan det)) = 3" "pbIdentityField ` set (ppDeclarations (dePlan det))
      = {ProbeIdentityManufacturer, ProbeIdentityModel, ProbeIdentityFirmware}"
    using full_plan_has_three [OF n(4,5)] by simp_all
  show "check_declarations (deLimits det) [] [] 0 (ppDeclarations (dePlan det)) = None"
    using NewProbePlan_Inr(6) [OF n(4)] n(6) by simp
  show "version_valid (deVersion det)" using n(7,8) by simp
qed (use NewProfileDetector_Inr [OF assms] in blast)+

section \<open>Every decision is a valid decision\<close>

definition report_limits :: "platform \<Rightarrow> profile_detector \<Rightarrow> detection_limits" where
  "report_limits pl det = (DefaultDetectionLimits pl)\<lparr>dlMaxDecisionBytes := dlMaxDecisionBytes (deLimits det)\<rparr>"

lemma detection_limits_valid:
  assumes "validateDetectionLimits pl l = None"
  shows "0 < dlMaxDecisionBytes l" and "dlMaxDecisionBytes l \<le> int MaxSerializedContractBytes"
    and "0 < dlMaxEvidenceIDBytes l" and "dlMaxEvidenceIDBytes l \<le> int MaxContractStringBytes"
    and "0 < plMaxReadRegisters pl" and "0 < dlMaxIdentityBytes l"
  using assms by (auto simp: validateDetectionLimits_def word_gt_0 split: if_splits)

lemma report_limits_valid:
  assumes "validateDetectionLimits pl (deLimits det) = None"
  shows "validateDetectionLimits pl (report_limits pl det) = None"
proof -
  obtain n where n: "n = unat (plMaxReadRegisters pl)" by blast
  then have "uint (plMaxReadRegisters pl) = int n" "0 < n" "n < 65536"
    using detection_limits_valid(5) [OF assms] unat_u16_bound [of "plMaxReadRegisters pl"]
    by (simp_all add: unat_gt_0 word_gt_0)
  then have w: "0 < uint (plMaxReadRegisters pl)" "uint (plMaxReadRegisters pl) \<le> 65536" by simp_all
  have "(9223372036854775807 :: int) div uint (plMaxReadRegisters pl) \<ge> 9223372036854775807 div 65536"
    using w by (intro zdiv_mono2) simp_all
  then show ?thesis
    using detection_limits_valid [OF assms] w
    by (simp add: validateDetectionLimits_def report_limits_def DefaultDetectionLimits_def contract_consts)
qed

lemma report_limits_simps [simp]:
  "dlMaxPlanDeclarations (report_limits pl det) = 3" "dlMaxEvidenceIDBytes (report_limits pl det) = 256"
  "dlMaxDecisionBytes (report_limits pl det) = dlMaxDecisionBytes (deLimits det)"
  by (simp_all add: report_limits_def DefaultDetectionLimits_def)

text \<open>The reasons of a failure and the reasons that make a candidate ineligible carry no gates.\<close>

definition gateless_reasons :: "string list" where
  "gateless_reasons = [DetectionReasonInvalidIdentity, DetectionReasonFixtureOptInRequired,
     DetectionReasonCandidateDisabled, DetectionReasonProfileDefaultOff, DetectionReasonProfileRevoked,
     DetectionReasonProfileSuperseded, DetectionReasonProfileUnqualified, DetectionReasonReadError,
     DetectionReasonProbeException, DetectionReasonIncompleteProbe, DetectionReasonInvalidProbeResult,
     DetectionReasonContextCancelled, DetectionReasonIdentityMismatch]"

lemma gateless_reason:
  assumes "r \<in> set gateless_reasons"
  shows "validDetectionReason r" and "check_gate_count r 0 = None"
    and "r \<notin> {DetectionReasonSelected, DetectionReasonEqualBest, DetectionReasonMultipleMatches,
      DetectionReasonLowerScore}"
    and "length r \<le> 23" and "list_all json_plain r"
  using assms
  by (auto simp: gateless_reasons_def validDetectionReason_def check_gate_count_def probe_consts
      json_plain_def byte_at_def)

lemma gated_reasons [simp]:
  "validDetectionReason DetectionReasonIdentityMismatch" "validDetectionReason DetectionReasonFirmwareMismatch"
  "validDetectionReason DetectionReasonSelected" "validDetectionReason DetectionReasonMultipleMatches"
  "check_gate_count DetectionReasonIdentityMismatch (Suc 0) = None"
  "check_gate_count DetectionReasonFirmwareMismatch (Suc (Suc 0)) = None"
  "check_gate_count DetectionReasonSelected (Suc (Suc (Suc 0))) = None"
  "check_gate_count DetectionReasonMultipleMatches (Suc (Suc (Suc 0))) = None"
  by (simp_all add: validDetectionReason_def check_gate_count_def probe_consts)

lemma reasons_differ [simp]:
  "DetectionReasonIdentityMismatch \<noteq> DetectionReasonSelected"
  "DetectionReasonFirmwareMismatch \<noteq> DetectionReasonSelected"
  "DetectionReasonMultipleMatches \<noteq> DetectionReasonSelected"
  "DetectionReasonIdentityMismatch \<noteq> DetectionReasonEqualBest"
  "DetectionReasonFirmwareMismatch \<noteq> DetectionReasonEqualBest"
  "DetectionReasonSelected \<noteq> DetectionReasonEqualBest"
  "DetectionReasonMultipleMatches \<noteq> DetectionReasonEqualBest"
  "DetectionReasonIdentityMismatch \<noteq> DetectionReasonMultipleMatches"
  "DetectionReasonFirmwareMismatch \<noteq> DetectionReasonMultipleMatches"
  "DetectionReasonSelected \<noteq> DetectionReasonMultipleMatches"
  "DetectionReasonIdentityMismatch \<noteq> DetectionReasonLowerScore"
  "DetectionReasonFirmwareMismatch \<noteq> DetectionReasonLowerScore"
  "DetectionReasonSelected \<noteq> DetectionReasonLowerScore"
  "DetectionReasonMultipleMatches \<noteq> DetectionReasonLowerScore"
  "DetectionReasonLowerScore \<noteq> DetectionReasonSelected"
  "DetectionReasonSelected \<noteq> []" "[] \<noteq> DetectionReasonSelected"
  by (simp_all add: probe_consts)

text \<open>The identities of a completed walk: one for each field, with valid and distinct evidence.\<close>

definition identities_ok :: "(string, detected_identity) gomap \<Rightarrow> bool" where
  "identities_ok m \<longleftrightarrow>
     (let m1 = diEvidenceID (identity_of m ProbeIdentityManufacturer);
          m2 = diEvidenceID (identity_of m ProbeIdentityModel);
          m3 = diEvidenceID (identity_of m ProbeIdentityFirmware) in
      validProbeEvidenceID m1 256 \<and> validProbeEvidenceID m2 256 \<and> validProbeEvidenceID m3 256
      \<and> m1 \<noteq> m2 \<and> m1 \<noteq> m3 \<and> m2 \<noteq> m3)"

definition gates3 :: "string list" where
  "gates3 = [ProbeIdentityManufacturer, ProbeIdentityModel, ProbeIdentityFirmware]"

definition evidence3 :: "(string, detected_identity) gomap \<Rightarrow> string list" where
  "evidence3 m = map (\<lambda>f. diEvidenceID (identity_of m f)) gates3"

definition gated :: "bound_candidate \<Rightarrow> string \<Rightarrow> nat \<Rightarrow> (string, detected_identity) gomap \<Rightarrow> candidate_evidence" where
  "gated b reason n m = (bare_evidence b reason)
     \<lparr>ceMatchedGates := take n gates3, ceProbeEvidenceIDs := take n (evidence3 m)\<rparr>"

text \<open>The firmware gate as the detector applies it, by the numbers the parts of a version denote.\<close>

definition firmware_in_range :: "detection_candidate \<Rightarrow> string \<Rightarrow> bool" where
  "firmware_in_range c v \<longleftrightarrow>
     compare_keys (version_key (dcMinimumInclusive c)) (version_key v) \<le> 0
     \<and> compare_keys (version_key v) (version_key (dcMaximumExclusive c)) < 0"

lemma compare_keys_swap: "compare_keys x y = - compare_keys y x"
  by (induction x y rule: compare_keys.induct) auto

lemma compare_keys_flip: "compare_keys x y < 0 \<longleftrightarrow> \<not> compare_keys y x \<le> 0"
  using compare_keys_swap [of x y] by auto

lemma ParseVersion_Inr: "ParseVersion s = Inr v \<longleftrightarrow> v = s \<and> version_valid s"
  by (auto simp: ParseVersion_def version_valid_def)

lemma evaluated_cases:
  assumes "bound_ok dv b" and "version_valid (diValue (identity_of m ProbeIdentityFirmware))"
  shows "evaluateCandidate b m allow =
    (let c = bcCandidate b; r = candidateEligibilityReason (bcProfile b) c allow in
     if r \<noteq> [] then gated b r 0 m
     else if diValue (identity_of m ProbeIdentityManufacturer) \<noteq> dcManufacturer c
     then gated b DetectionReasonIdentityMismatch 0 m
     else if diValue (identity_of m ProbeIdentityModel) \<noteq> dcModel c
     then gated b DetectionReasonIdentityMismatch (Suc 0) m
     else if \<not> firmware_in_range c (diValue (identity_of m ProbeIdentityFirmware))
     then gated b DetectionReasonFirmwareMismatch (Suc (Suc 0)) m
     else gated b DetectionReasonSelected (Suc (Suc (Suc 0))) m)"
proof -
  let ?f = "diValue (identity_of m ProbeIdentityFirmware)"
  have "ParseVersion ?f = Inr ?f" using assms(2) by (simp add: ParseVersion_Inr)
  moreover have "version_lt ?f (dcMinimumInclusive (bcCandidate b)) \<or> \<not> version_lt ?f (dcMaximumExclusive (bcCandidate b))
      \<longleftrightarrow> \<not> firmware_in_range (bcCandidate b) ?f"
    using assms by (simp add: version_lt_iff bound_ok_def firmware_in_range_def compare_keys_flip)
  ultimately show ?thesis
    by (simp add: evaluateCandidate_def Let_def with_gate_def gated_def bare_evidence_def gates3_def
        evidence3_def)
qed

lemma eligibility_reason:
  "candidateEligibilityReason p c allow = [] \<or> candidateEligibilityReason p c allow \<in> set gateless_reasons"
  by (simp add: candidateEligibilityReason_def gateless_reasons_def)

lemma gates_checked:
  assumes "identities_ok m" and "dlMaxEvidenceIDBytes l = 256" and "n \<le> 3"
  shows "check_gates l (- 1) [] (take n gates3) (take n (evidence3 m)) = None"
proof -
  have "n = 0 \<or> n = Suc 0 \<or> n = Suc (Suc 0) \<or> n = Suc (Suc (Suc 0))" using assms(3) by auto
  then show ?thesis
    using assms(1,2)
    by (auto simp: gates3_def evidence3_def identities_ok_def Let_def identityFieldRank_def)
qed

lemma gated_valid:
  assumes "bound_ok dv b" and "version_valid dv" and "identities_ok m \<or> n = 0"
    and "dlMaxEvidenceIDBytes l = 256" and "dlMaxPlanDeclarations l = 3" and "n \<le> 3"
    and "validDetectionReason reason" and "check_gate_count reason n = None"
  shows "validateDetectionEvidence (gated b reason n m) l = None"
proof -
  have "check_gates l (- 1) [] (take n gates3) (take n (evidence3 m)) = None"
    using gates_checked [OF _ assms(4,6)] assms(3) by auto
  moreover have "length (take n gates3) = n" "length (take n (evidence3 m)) = n"
    using assms(6) by (simp_all add: gates3_def evidence3_def)
  ultimately show ?thesis
    using assms by (simp add: validateDetectionEvidence_def gated_def bare_evidence_def bound_ok_def)
qed

text \<open>What a decision's evidence looks like: the candidates in order, each with gates that fit its reason.\<close>

definition evidence_shape :: "(string, detected_identity) gomap \<Rightarrow> bound_candidate \<Rightarrow> candidate_evidence \<Rightarrow> bool" where
  "evidence_shape m b e \<longleftrightarrow>
     (\<exists>r n. e = gated b r n m \<and>
        (r \<in> set gateless_reasons \<and> n = 0
         \<or> identities_ok m \<and> (r = DetectionReasonIdentityMismatch \<and> n = Suc 0
             \<or> r = DetectionReasonFirmwareMismatch \<and> n = Suc (Suc 0)
             \<or> r \<in> {DetectionReasonSelected, DetectionReasonMultipleMatches} \<and> n = Suc (Suc (Suc 0)))))"

lemma evidence_shape_valid:
  assumes "evidence_shape m b e" and "bound_ok dv b" and "version_valid dv"
    and "dlMaxEvidenceIDBytes l = 256" and "dlMaxPlanDeclarations l = 3"
  shows "validateDetectionEvidence e l = None" and "ceProfileID e = pfID (bcProfile b)"
    and "ceDetectorVersion e = dv" and "ceReason e \<notin> {DetectionReasonEqualBest, DetectionReasonLowerScore}"
proof -
  obtain r n where e: "e = gated b r n m" and rn: "r \<in> set gateless_reasons \<and> n = 0
         \<or> identities_ok m \<and> (r = DetectionReasonIdentityMismatch \<and> n = Suc 0
             \<or> r = DetectionReasonFirmwareMismatch \<and> n = Suc (Suc 0)
             \<or> r \<in> {DetectionReasonSelected, DetectionReasonMultipleMatches} \<and> n = Suc (Suc (Suc 0)))"
    using assms(1) by (auto simp: evidence_shape_def)
  have "validDetectionReason r" "check_gate_count r n = None" "n \<le> 3" "identities_ok m \<or> n = 0"
    using rn gateless_reason [of r] by auto
  then show "validateDetectionEvidence e l = None"
    using gated_valid [OF assms(2,3) _ assms(4,5)] e by simp
  show "ceProfileID e = pfID (bcProfile b)" "ceDetectorVersion e = dv"
    using assms(2) e by (simp_all add: gated_def bare_evidence_def bound_ok_def)
  show "ceReason e \<notin> {DetectionReasonEqualBest, DetectionReasonLowerScore}"
    using rn gateless_reason(3) [of r] e by (auto simp: gated_def bare_evidence_def)
qed

lemma count_counts:
  assumes "ceReason e \<notin> {DetectionReasonEqualBest, DetectionReasonLowerScore}"
  shows "\<exists>t1. count_evidence overall e t = Inr t1
    \<and> tySelected t1 = tySelected t + (if ceReason e = DetectionReasonSelected then 1 else 0)
    \<and> tyMultiple t1 = tyMultiple t + (if ceReason e = DetectionReasonMultipleMatches then 1 else 0)
    \<and> tyEqualBest t1 = tyEqualBest t \<and> tyLower t1 = tyLower t
    \<and> tyReasonPresent t1 = (tyReasonPresent t \<or> ceReason e = overall)"
  using assms
  by (cases "ceReason e = DetectionReasonSelected"; cases "ceReason e = DetectionReasonMultipleMatches")
    (simp_all add: count_evidence_def Let_def)

lemma tally_counts:
  assumes "\<forall>e \<in> set es. validateDetectionEvidence e l = None \<and> ceDetectorVersion e = dv
      \<and> ceReason e \<notin> {DetectionReasonEqualBest, DetectionReasonLowerScore}"
    and "known = None \<or> known = Some dv"
  shows "\<exists>t'. tally_evidence l overall known es t = Inr t'
      \<and> tySelected t' = tySelected t + length (filter (\<lambda>e. ceReason e = DetectionReasonSelected) es)
      \<and> tyMultiple t' = tyMultiple t + length (filter (\<lambda>e. ceReason e = DetectionReasonMultipleMatches) es)
      \<and> tyEqualBest t' = tyEqualBest t \<and> tyLower t' = tyLower t
      \<and> tyReasonPresent t' = (tyReasonPresent t \<or> (\<exists>e \<in> set es. ceReason e = overall))"
  using assms
proof (induction es arbitrary: t known)
  case Nil
  then show ?case by simp
next
  case (Cons e es)
  obtain t1 where t1: "count_evidence overall e t = Inr t1"
    "tySelected t1 = tySelected t + (if ceReason e = DetectionReasonSelected then 1 else 0)"
    "tyMultiple t1 = tyMultiple t + (if ceReason e = DetectionReasonMultipleMatches then 1 else 0)"
    "tyEqualBest t1 = tyEqualBest t" "tyLower t1 = tyLower t"
    "tyReasonPresent t1 = (tyReasonPresent t \<or> ceReason e = overall)"
    using count_counts [of e overall t] Cons.prems(1) by auto
  have "\<not> (known \<noteq> None \<and> known \<noteq> Some (ceDetectorVersion e))" using Cons.prems by auto
  moreover have "(if known = None then Some (ceDetectorVersion e) else known) = Some dv"
    using Cons.prems by auto
  moreover have "validateDetectionEvidence e l = None" using Cons.prems(1) by simp
  ultimately have step: "tally_evidence l overall known (e # es) t = tally_evidence l overall (Some dv) es t1"
    using t1(1) by (cases known) auto
  show ?case
    unfolding step using Cons.IH [of "Some dv" t1] Cons.prems(1) t1(2-6) by auto
qed

lemma validEvidenceOrder_iff: "validEvidenceOrder es \<longleftrightarrow> sorted_wrt str_less (map ceProfileID es)"
proof (induction es rule: validEvidenceOrder.induct)
  case (1 a b es)
  then show ?case by (auto intro: str_less_trans)
qed simp_all

lemma fold_last:
  "fold (\<lambda>e found. if P e then Q e else found) es x
     = (if filter P es = [] then x else Q (last (filter P es)))"
  by (induction es arbitrary: x) auto

lemma shaped_evidence:
  assumes det: "NewProfileDetector pl spec = Inr det"
    and shape: "list_all2 (evidence_shape m) (deCandidates det) es"
  shows "map ceProfileID es = map (\<lambda>b. pfID (bcProfile b)) (deCandidates det)"
    and "validEvidenceOrder es" and "es \<noteq> []" and "length es \<le> MaxProfileDependencies"
    and "\<forall>e \<in> set es. validateDetectionEvidence e (report_limits pl det) = None
      \<and> ceDetectorVersion e = deVersion det
      \<and> ceReason e \<notin> {DetectionReasonEqualBest, DetectionReasonLowerScore}
      \<and> validIdentity (ceProfileID e) \<and> version_valid (ceProfileVersion e)"
proof -
  note a = detector_accepted [OF det]
  have each: "ceProfileID e = pfID (bcProfile b)
      \<and> validateDetectionEvidence e (report_limits pl det) = None \<and> ceDetectorVersion e = deVersion det
      \<and> ceReason e \<notin> {DetectionReasonEqualBest, DetectionReasonLowerScore}
      \<and> validIdentity (ceProfileID e) \<and> version_valid (ceProfileVersion e)"
    if "evidence_shape m b e" "b \<in> set (deCandidates det)" for b e
  proof -
    have b: "bound_ok (deVersion det) b" using a(3) that(2) by blast
    note v = evidence_shape_valid [OF that(1) b a(6), of "report_limits pl det"]
    then have "validIdentity (ceProfileID e) \<and> version_valid (ceProfileVersion e)"
      by (auto simp: validateDetectionEvidence_def split: if_splits)
    then show ?thesis using v by simp
  qed
  show ids: "map ceProfileID es = map (\<lambda>b. pfID (bcProfile b)) (deCandidates det)"
  proof (rule nth_equalityI)
    show "length (map ceProfileID es) = length (map (\<lambda>b. pfID (bcProfile b)) (deCandidates det))"
      using list_all2_lengthD [OF shape] by simp
    fix i assume "i < length (map ceProfileID es)"
    then have "evidence_shape m (deCandidates det ! i) (es ! i)" "deCandidates det ! i \<in> set (deCandidates det)"
      "i < length es" "i < length (deCandidates det)"
      using shape list_all2_lengthD [OF shape] by (auto simp: list_all2_conv_all_nth)
    then show "map ceProfileID es ! i = map (\<lambda>b. pfID (bcProfile b)) (deCandidates det) ! i"
      using each by simp
  qed
  then show "validEvidenceOrder es" using a(1) by (simp add: validEvidenceOrder_iff)
  show "es \<noteq> []" "length es \<le> MaxProfileDependencies"
    using a(12,13) list_all2_lengthD [OF shape] by auto
  show "\<forall>e \<in> set es. validateDetectionEvidence e (report_limits pl det) = None
      \<and> ceDetectorVersion e = deVersion det
      \<and> ceReason e \<notin> {DetectionReasonEqualBest, DetectionReasonLowerScore}
      \<and> validIdentity (ceProfileID e) \<and> version_valid (ceProfileVersion e)"
  proof
    fix e assume "e \<in> set es"
    then obtain i where "i < length es" "e = es ! i" by (auto simp: in_set_conv_nth)
    then have "evidence_shape m (deCandidates det ! i) e" "deCandidates det ! i \<in> set (deCandidates det)"
      using shape by (auto simp: list_all2_conv_all_nth)
    then show "validateDetectionEvidence e (report_limits pl det) = None
      \<and> ceDetectorVersion e = deVersion det
      \<and> ceReason e \<notin> {DetectionReasonEqualBest, DetectionReasonLowerScore}
      \<and> validIdentity (ceProfileID e) \<and> version_valid (ceProfileVersion e)"
      using each by blast
  qed
qed

lemma shaped_decision:
  assumes det: "NewProfileDetector pl spec = Inr det"
    and shape: "list_all2 (evidence_shape m) (deCandidates det) (ddEvidence d)"
    and valid: "validDetectionOutcome (ddOutcome d)" "validDetectionReason (ddReason d)"
  shows "\<exists>t. validateDetectionDecision pl d (report_limits pl det) = check_outcome d t
      \<and> tySelected t = length (filter (\<lambda>e. ceReason e = DetectionReasonSelected) (ddEvidence d))
      \<and> tyMultiple t = length (filter (\<lambda>e. ceReason e = DetectionReasonMultipleMatches) (ddEvidence d))
      \<and> tyEqualBest t = 0 \<and> tyLower t = 0
      \<and> tyReasonPresent t = (\<exists>e \<in> set (ddEvidence d). ceReason e = ddReason d)"
proof -
  note s = shaped_evidence [OF det shape]
  obtain t where t: "tally_evidence (report_limits pl det) (ddReason d) None (ddEvidence d) empty_tally = Inr t"
    "tySelected t = length (filter (\<lambda>e. ceReason e = DetectionReasonSelected) (ddEvidence d))"
    "tyMultiple t = length (filter (\<lambda>e. ceReason e = DetectionReasonMultipleMatches) (ddEvidence d))"
    "tyEqualBest t = 0" "tyLower t = 0"
    "tyReasonPresent t = (\<exists>e \<in> set (ddEvidence d). ceReason e = ddReason d)"
    using tally_counts [of "ddEvidence d" "report_limits pl det" "deVersion det" None "ddReason d" empty_tally]
      s(5) by (auto simp: empty_tally_def)
  have "validateDetectionDecision pl d (report_limits pl det) = check_outcome d t"
    using report_limits_valid [OF detector_accepted(8) [OF det]] valid s(2-4) t(1)
    by (simp add: validateDetectionDecision_def)
  with t show ?thesis by blast
qed

text \<open>The decisions of a detection, and what the encoder needs to know about them.\<close>

definition reportable :: "platform \<Rightarrow> profile_detector \<Rightarrow> detection_decision \<Rightarrow> bool" where
  "reportable pl det d \<longleftrightarrow>
     validateDetectionDecision pl d (report_limits pl det) = None
     \<and> (\<exists>m. list_all2 (evidence_shape m) (deCandidates det) (ddEvidence d))
     \<and> ddMaxDecisionBytes d = dlMaxDecisionBytes (deLimits det)
     \<and> ddOutcome d \<in> {DetectionMatched, DetectionNoMatch, DetectionAmbiguous}
     \<and> ddReason d \<in> set (DetectionReasonFirmwareMismatch # DetectionReasonSelected
           # DetectionReasonMultipleMatches # gateless_reasons)
     \<and> (ddSelectedProfileID d = [] \<and> ddSelectedProfileVersion d = []
        \<or> (\<exists>e \<in> set (ddEvidence d). ddSelectedProfileID d = ceProfileID e
              \<and> ddSelectedProfileVersion d = ceProfileVersion e))"

lemma outcomes_differ [simp]:
  "DetectionMatched \<noteq> DetectionNoMatch" "DetectionNoMatch \<noteq> DetectionMatched"
  "DetectionMatched \<noteq> DetectionAmbiguous" "DetectionAmbiguous \<noteq> DetectionMatched"
  "DetectionAmbiguous \<noteq> DetectionNoMatch" "DetectionNoMatch \<noteq> DetectionAmbiguous"
  by (simp_all add: probe_consts)

lemma no_match_reportable:
  assumes det: "NewProfileDetector pl spec = Inr det"
    and shape: "list_all2 (evidence_shape m) (deCandidates det) es"
    and reason: "r \<in> set (DetectionReasonFirmwareMismatch # gateless_reasons)" "\<exists>e \<in> set es. ceReason e = r"
    and none: "\<forall>e \<in> set es. ceReason e \<notin> {DetectionReasonSelected, DetectionReasonMultipleMatches}"
  shows "reportable pl det (decision_of det DetectionNoMatch r [] [] es)"
proof -
  let ?d = "decision_of det DetectionNoMatch r [] [] es"
  have f: "ddEvidence ?d = es" "ddOutcome ?d = DetectionNoMatch" "ddReason ?d = r"
    "ddSelectedProfileID ?d = []" "ddSelectedProfileVersion ?d = []"
    "ddMaxDecisionBytes ?d = dlMaxDecisionBytes (deLimits det)"
    by (simp_all add: decision_of_def)
  have r: "validDetectionReason r" "r \<notin> {DetectionReasonSelected, DetectionReasonEqualBest,
      DetectionReasonMultipleMatches, DetectionReasonLowerScore}"
    using reason(1) gateless_reason [of r] by auto
  obtain t where t: "validateDetectionDecision pl ?d (report_limits pl det) = check_outcome ?d t"
    "tySelected t = 0" "tyMultiple t = 0" "tyEqualBest t = 0" "tyLower t = 0" "tyReasonPresent t"
    using shaped_decision [OF det, of m ?d] shape r(1) reason(2) none f
    by (auto simp: validDetectionOutcome_def filter_empty_conv)
  have "\<not> version_valid []" by (simp add: version_valid_def versionPattern_def split_on.simps)
  then have "check_outcome ?d t = None" using t r(2) f by (simp add: check_outcome_def)
  then show ?thesis using t(1) shape reason(1) f unfolding reportable_def by auto
qed

section \<open>What a detection decides\<close>

text \<open>A device is what its identity fields read; a candidate matches it when its profile may be
  selected at all and every gate holds.\<close>

definition matches :: "bool \<Rightarrow> (string \<Rightarrow> string) \<Rightarrow> bound_candidate \<Rightarrow> bool" where
  "matches allowFixtureOnly device b \<longleftrightarrow>
     pfState (bcProfile b) = ProfileActive \<and> pfMaturity (bcProfile b) = MaturityQualified
     \<and> pfDefaultEnabled (bcProfile b) \<and> dcEnabled (bcCandidate b)
     \<and> (dcFixtureOnly (bcCandidate b) \<longrightarrow> allowFixtureOnly)
     \<and> device ProbeIdentityManufacturer = dcManufacturer (bcCandidate b)
     \<and> device ProbeIdentityModel = dcModel (bcCandidate b)
     \<and> firmware_in_range (bcCandidate b) (device ProbeIdentityFirmware)"

definition device_of :: "(string, detected_identity) gomap \<Rightarrow> string \<Rightarrow> string" where
  "device_of m f = diValue (identity_of m f)"

lemma eligible_iff:
  "candidateEligibilityReason p c allow = [] \<longleftrightarrow>
     pfState p = ProfileActive \<and> pfMaturity p = MaturityQualified \<and> pfDefaultEnabled p
     \<and> dcEnabled c \<and> (dcFixtureOnly c \<longrightarrow> allow)"
  by (auto simp: candidateEligibilityReason_def probe_consts profile_consts)

definition no_match_reasons :: "string list" where
  "no_match_reasons = [DetectionReasonInvalidIdentity, DetectionReasonIdentityMismatch,
     DetectionReasonFirmwareMismatch, DetectionReasonFixtureOptInRequired,
     DetectionReasonProfileRevoked, DetectionReasonProfileSuperseded,
     DetectionReasonProfileUnqualified, DetectionReasonProfileDefaultOff,
     DetectionReasonCandidateDisabled]"

lemma no_match_gateless:
  "r \<in> set no_match_reasons \<Longrightarrow> r \<in> set (DetectionReasonFirmwareMismatch # gateless_reasons)"
  by (auto simp: no_match_reasons_def gateless_reasons_def)

lemma eligibility_no_match:
  "candidateEligibilityReason p c allow = [] \<or> candidateEligibilityReason p c allow \<in> set no_match_reasons"
  "DetectionReasonIdentityMismatch \<in> set no_match_reasons"
  "DetectionReasonFirmwareMismatch \<in> set no_match_reasons"
  by (simp_all add: candidateEligibilityReason_def no_match_reasons_def)

lemma gated_simps [simp]:
  "ceReason (gated b r n m) = r" "ceProfileID (gated b r n m) = pfID (bcProfile b)"
  "ceProfileVersion (gated b r n m) = pfVersion (bcProfile b)"
  by (simp_all add: gated_def bare_evidence_def)

lemma gateless_not_selected [simp]: "r \<in> set gateless_reasons \<Longrightarrow> r \<noteq> DetectionReasonSelected"
  using gateless_reason(3) by blast

lemma evaluated:
  assumes "bound_ok dv b" and "version_valid (device_of m ProbeIdentityFirmware)" and "identities_ok m"
  shows "evidence_shape m b (evaluateCandidate b m allow)"
    and "ceReason (evaluateCandidate b m allow) = DetectionReasonSelected \<longleftrightarrow> matches allow (device_of m) b"
    and "ceProfileID (evaluateCandidate b m allow) = pfID (bcProfile b)"
    and "ceProfileVersion (evaluateCandidate b m allow) = pfVersion (bcProfile b)"
    and "ceReason (evaluateCandidate b m allow) = DetectionReasonSelected
      \<or> ceReason (evaluateCandidate b m allow) \<in> set no_match_reasons"
proof -
  let ?r = "candidateEligibilityReason (bcProfile b) (bcCandidate b) allow"
  note e = evaluated_cases [OF assms(1) assms(2) [unfolded device_of_def], of allow]
  have r: "?r = [] \<or> ?r \<in> set gateless_reasons" by (rule eligibility_reason)
  have mm: "DetectionReasonIdentityMismatch \<in> set gateless_reasons" by (simp add: gateless_reasons_def)
  show "evidence_shape m b (evaluateCandidate b m allow)"
    unfolding e evidence_shape_def Let_def using r mm assms(3) by auto
  show "ceReason (evaluateCandidate b m allow) = DetectionReasonSelected \<longleftrightarrow> matches allow (device_of m) b"
  proof (cases "?r = []")
    case True
    then show ?thesis
      unfolding e matches_def device_of_def Let_def
      using eligible_iff [of "bcProfile b" "bcCandidate b" allow] by simp
  next
    case False
    then have "?r \<noteq> DetectionReasonSelected" using r gateless_not_selected by blast
    moreover have "\<not> matches allow (device_of m) b"
      using False eligible_iff [of "bcProfile b" "bcCandidate b" allow] by (auto simp: matches_def)
    ultimately show ?thesis unfolding e Let_def using False by simp
  qed
  show "ceProfileID (evaluateCandidate b m allow) = pfID (bcProfile b)"
    "ceProfileVersion (evaluateCandidate b m allow) = pfVersion (bcProfile b)"
    unfolding e Let_def by simp_all
  show "ceReason (evaluateCandidate b m allow) = DetectionReasonSelected
      \<or> ceReason (evaluateCandidate b m allow) \<in> set no_match_reasons"
    unfolding e Let_def using eligibility_no_match(1) [of "bcProfile b" "bcCandidate b" allow] eligibility_no_match(2,3)
    by (cases "?r = []") simp_all
qed

lemma noMatchReason_present:
  assumes "es \<noteq> []"
    and "\<forall>e \<in> set es. ceReason e \<in> set no_match_reasons"
  shows "noMatchReason es \<in> ceReason ` set es"
    and "noMatchReason es \<in> set (DetectionReasonFirmwareMismatch # gateless_reasons)"
proof -
  have r: "noMatchReason es = (case find (\<lambda>p. list_ex (\<lambda>e. ceReason e = p) es) no_match_reasons of
        Some r \<Rightarrow> r | None \<Rightarrow> DetectionReasonInvalidIdentity)"
    by (simp only: noMatchReason_def no_match_reasons_def)
  obtain e where "e \<in> set es" using assms(1) by (cases es) auto
  with assms(2) have "\<exists>p \<in> set no_match_reasons. list_ex (\<lambda>e. ceReason e = p) es"
    by (auto simp: list_ex_iff)
  then obtain p where p: "find (\<lambda>p. list_ex (\<lambda>e. ceReason e = p) es) no_match_reasons = Some p"
    by (cases "find (\<lambda>p. list_ex (\<lambda>e. ceReason e = p) es) no_match_reasons") (auto simp: find_None_iff)
  then have "list_ex (\<lambda>e. ceReason e = p) es" "p \<in> set no_match_reasons"
    by (auto simp: find_Some_iff)
  moreover from this have "p \<in> ceReason ` set es" by (auto simp: list_ex_iff)
  moreover have "noMatchReason es = p" using p r by simp
  ultimately show "noMatchReason es \<in> ceReason ` set es"
    "noMatchReason es \<in> set (DetectionReasonFirmwareMismatch # gateless_reasons)"
    using no_match_gateless by metis+
qed

lemma failure_reportable:
  assumes det: "NewProfileDetector pl spec = Inr det" and "r \<in> set gateless_reasons"
  shows "reportable pl det (failureDecision det r)"
proof -
  have "list_all2 (evidence_shape []) (deCandidates det) (baseEvidence det r)"
    unfolding baseEvidence_def
    by (rule list_all2I)
      (use assms(2) in \<open>auto simp: evidence_shape_def gated_def bare_evidence_def set_zip\<close>)
  moreover have "\<forall>e \<in> set (baseEvidence det r). ceReason e = r"
    by (simp add: baseEvidence_def bare_evidence_def)
  moreover have "baseEvidence det r \<noteq> []" using detector_accepted(12) [OF det] by (simp add: baseEvidence_def)
  ultimately show ?thesis
    unfolding failureDecision_def using assms(2) gateless_reason(3) [OF assms(2)]
    by (intro no_match_reportable [OF det]) (auto simp: neq_Nil_conv)
qed

definition matching :: "profile_detector \<Rightarrow> bool \<Rightarrow> (string \<Rightarrow> string) \<Rightarrow> bound_candidate list" where
  "matching det allowFixtureOnly device = filter (matches allowFixtureOnly device) (deCandidates det)"

lemma matched_reportable:
  assumes det: "NewProfileDetector pl spec = Inr det"
    and shape: "list_all2 (evidence_shape m) (deCandidates det) es"
    and sel: "filter (\<lambda>e. ceReason e = DetectionReasonSelected) es = [e]"
    and single: "\<forall>e \<in> set es. ceReason e \<noteq> DetectionReasonMultipleMatches"
  shows "reportable pl det
    (decision_of det DetectionMatched DetectionReasonSelected (ceProfileID e) (ceProfileVersion e) es)"
    (is "reportable pl det ?d")
proof -
  note s = shaped_evidence(5) [OF det shape]
  have e: "e \<in> set es"
    using sel by (metis filter_is_subset list.set_intros(1) subset_code(1))
  have "list_all2 (evidence_shape m) (deCandidates det) (ddEvidence ?d)"
    using shape by (simp add: decision_of_def)
  from shaped_decision [OF det this] obtain t where
    t: "validateDetectionDecision pl ?d (report_limits pl det) = check_outcome ?d t"
    "tySelected t = 1" "tyMultiple t = 0" "tyEqualBest t = 0"
    using sel single by (auto simp: decision_of_def validDetectionOutcome_def filter_empty_conv)
  have "selected_found ?d" using sel by (simp add: selected_found_def fold_last decision_of_def)
  moreover have "lower_scores_below (tySelectedScore t) es"
    using s by (auto simp: lower_scores_below_def list_all_iff)
  ultimately have "check_outcome ?d t = None"
    using t s e by (simp add: check_outcome_def decision_of_def)
  then show ?thesis
    using t(1) shape e unfolding reportable_def by (auto simp: decision_of_def)
qed

definition mark_multiple :: "candidate_evidence \<Rightarrow> candidate_evidence" where
  "mark_multiple e = (if ceReason e = DetectionReasonSelected
     then e\<lparr>ceReason := DetectionReasonMultipleMatches\<rparr> else e)"

lemma mark_multiple_shape: "evidence_shape m b e \<Longrightarrow> evidence_shape m b (mark_multiple e)"
proof (cases "ceReason e = DetectionReasonSelected")
  case True
  assume "evidence_shape m b e"
  with True have "e = gated b DetectionReasonSelected (Suc (Suc (Suc 0))) m" "identities_ok m"
    by (auto simp: evidence_shape_def)
  moreover have "(gated b r n m)\<lparr>ceReason := r'\<rparr> = gated b r' n m" for r r' n
    by (simp add: gated_def bare_evidence_def)
  ultimately show ?thesis by (auto simp: mark_multiple_def evidence_shape_def)
qed (simp add: mark_multiple_def)

lemma marked_selected [simp]:
  "filter (\<lambda>e. ceReason e = DetectionReasonSelected) (map mark_multiple es) = []"
  by (auto simp: filter_empty_conv mark_multiple_def)

lemma marked_multiple:
  "length (filter (\<lambda>e. ceReason e = DetectionReasonSelected) es)
     \<le> length (filter (\<lambda>e. ceReason e = DetectionReasonMultipleMatches) (map mark_multiple es))"
  by (induction es) (auto simp: mark_multiple_def)

lemma ambiguous_reportable:
  assumes det: "NewProfileDetector pl spec = Inr det"
    and shape: "list_all2 (evidence_shape m) (deCandidates det) es"
    and many: "length (filter (\<lambda>e. ceReason e = DetectionReasonSelected) es) > 1"
  shows "reportable pl det
    (decision_of det DetectionAmbiguous DetectionReasonMultipleMatches [] [] (map mark_multiple es))"
    (is "reportable pl det ?d")
proof -
  have shape': "list_all2 (evidence_shape m) (deCandidates det) (ddEvidence ?d)"
    using shape mark_multiple_shape by (auto simp: decision_of_def list_all2_map2 elim!: list_all2_mono)
  from shaped_decision [OF det this] marked_multiple [of es] many obtain t where
    t: "validateDetectionDecision pl ?d (report_limits pl det) = check_outcome ?d t"
    "tySelected t = 0" "tyMultiple t \<ge> 2" "tyEqualBest t = 0" "tyLower t = 0"
    by (auto simp: decision_of_def validDetectionOutcome_def)
  have "\<not> version_valid []" by (simp add: version_valid_def versionPattern_def split_on.simps)
  then have "check_outcome ?d t = None" using t by (simp add: check_outcome_def decision_of_def)
  then show ?thesis
    using t(1) shape' unfolding reportable_def by (auto simp: decision_of_def)
qed

text \<open>The decision by the number of matching candidates; nothing else enters it.\<close>

lemma decide_cases:
  assumes det: "NewProfileDetector pl spec = Inr det" and ids: "identities_ok m"
    and fw: "version_valid (device_of m ProbeIdentityFirmware)"
  shows "reportable pl det (decide det m allow)
    \<and> (case matching det allow (device_of m) of
         [] \<Rightarrow> ddOutcome (decide det m allow) = DetectionNoMatch
           \<and> ddSelectedProfileID (decide det m allow) = [] \<and> ddSelectedProfileVersion (decide det m allow) = []
       | [b] \<Rightarrow> ddOutcome (decide det m allow) = DetectionMatched
           \<and> ddSelectedProfileID (decide det m allow) = pfID (bcProfile b)
           \<and> ddSelectedProfileVersion (decide det m allow) = pfVersion (bcProfile b)
       | _ \<Rightarrow> ddOutcome (decide det m allow) = DetectionAmbiguous
           \<and> ddSelectedProfileID (decide det m allow) = [] \<and> ddSelectedProfileVersion (decide det m allow) = [])"
proof -
  note a = detector_accepted [OF det]
  obtain es where es: "es = map (\<lambda>b. evaluateCandidate b m allow) (deCandidates det)" by blast
  obtain M where M: "M = matching det allow (device_of m)" by blast
  have ev: "evidence_shape m b (evaluateCandidate b m allow)"
    "ceReason (evaluateCandidate b m allow) = DetectionReasonSelected \<longleftrightarrow> matches allow (device_of m) b"
    "ceProfileID (evaluateCandidate b m allow) = pfID (bcProfile b)"
    "ceProfileVersion (evaluateCandidate b m allow) = pfVersion (bcProfile b)"
    "ceReason (evaluateCandidate b m allow) = DetectionReasonSelected
      \<or> ceReason (evaluateCandidate b m allow) \<in> set no_match_reasons"
    if "b \<in> set (deCandidates det)" for b
    using evaluated [OF _ fw ids, of "deVersion det" b allow] a(3) that by auto
  have shape: "list_all2 (evidence_shape m) (deCandidates det) es"
    using ev(1) by (auto simp: es list_all2_map2 list.rel_refl_strong)
  have sel: "filter (\<lambda>e. ceReason e = DetectionReasonSelected) es = map (\<lambda>b. evaluateCandidate b m allow) M"
    using ev(2) by (auto simp: es M matching_def filter_map intro!: arg_cong [where f = "map _"] filter_cong)
  have sub: "set M \<subseteq> set (deCandidates det)" by (auto simp: M matching_def)
  have ne: "es \<noteq> []" using a(12) by (simp add: es)
  have "ParseVersion (diValue (identity_of m ProbeIdentityFirmware)) = Inr (diValue (identity_of m ProbeIdentityFirmware))"
    using fw by (simp add: ParseVersion_Inr device_of_def)
  then have d: "decide det m allow =
      (if M = [] then decision_of det DetectionNoMatch (noMatchReason es) [] [] es
       else if length M > 1 then decision_of det DetectionAmbiguous DetectionReasonMultipleMatches [] []
         (map mark_multiple es)
       else decision_of det DetectionMatched DetectionReasonSelected
         (pfID (bcProfile (hd M))) (pfVersion (bcProfile (hd M))) es)"
    using sub ev(3,4) by (cases M) (simp_all add: decide_def Let_def mark_multiple_def [abs_def] flip: es add: sel)
  consider (none) "M = []" | (one) b where "M = [b]" | (many) b c bs where "M = b # c # bs"
    by (cases M rule: list.exhaust; metis list.exhaust)
  then show ?thesis
  proof cases
    case none
    have unsel: "\<forall>e \<in> set es. ceReason e \<in> set no_match_reasons"
      using sel none ev(5) by (auto simp: es filter_empty_conv)
    have "reportable pl det (decision_of det DetectionNoMatch (noMatchReason es) [] [] es)"
    proof (rule no_match_reportable [OF det shape])
      show "noMatchReason es \<in> set (DetectionReasonFirmwareMismatch # gateless_reasons)"
        using noMatchReason_present(2) [OF ne unsel] .
      show "\<exists>e \<in> set es. ceReason e = noMatchReason es"
        using noMatchReason_present(1) [OF ne unsel] by auto
      show "\<forall>e \<in> set es. ceReason e \<notin> {DetectionReasonSelected, DetectionReasonMultipleMatches}"
        using unsel no_match_gateless gateless_reason(3) by fastforce
    qed
    then show ?thesis using none d by (simp add: decision_of_def flip: M)
  next
    case one
    have b: "b \<in> set (deCandidates det)" using sub one by simp
    have "\<forall>e \<in> set es. ceReason e \<noteq> DetectionReasonMultipleMatches"
      using ev(5) no_match_gateless gateless_reason(3) by (fastforce simp: es)
    with matched_reportable [OF det shape] sel one ev(3,4) [OF b]
    have "reportable pl det (decision_of det DetectionMatched DetectionReasonSelected
        (pfID (bcProfile b)) (pfVersion (bcProfile b)) es)" by simp
    then show ?thesis using one d by (simp add: decision_of_def flip: M)
  next
    case many
    then have "reportable pl det (decision_of det DetectionAmbiguous DetectionReasonMultipleMatches [] []
        (map mark_multiple es))"
      using ambiguous_reportable [OF det shape] sel by simp
    then show ?thesis using many d by (simp add: decision_of_def flip: M)
  qed
qed

end
