(* ===== verification/Detection_Run.thy ===== *)
theory Detection_Run
  imports Detection_Decision
begin

text \<open>
  A whole detection: the walk over the probes against any reader, the size of the decision against
  the bound computed when the detector was built, and the properties: every detection is reported,
  follows its plan, identifies a device by its texts alone, and depends on neither the order nor
  the scores of the candidates; and a written decision can be read back.
\<close>

section \<open>The walk over the probes\<close>

text \<open>The caller can only return results that the constructor built, or the zero value.\<close>

definition results_built :: "platform \<Rightarrow> environment \<Rightarrow> bool" where
  "results_built pl env \<longleftrightarrow>
     (\<forall>reqs r. enRead env reqs = Some r \<longrightarrow> r = zero_result \<or> NewProbeReadResult pl r = Inr r)"

lemma admit_probe_Inr:
  assumes "admit_probe l d r st = Inr st'"
  shows "validWithin r l" and "rrStatus r = ProbeReadSucceeded" and "length (rrWords r) = unat (pbWordCount d)"
    and "rrEvidenceID r \<notin> set (pgEvidenceIDs st)" and "gm_get (pgIdentities st) (pbIdentityField d) = None"
    and "pgRequests st' = pgRequests st" and "pgEvidenceIDs st' = rrEvidenceID r # pgEvidenceIDs st"
    and "\<exists>s. decodeProbeASCII (rrWords r) (dlMaxIdentityBytes l) = Some s
      \<and> pgIdentities st' = gm_put (pbIdentityField d) \<lparr>diValue = s, diEvidenceID = rrEvidenceID r\<rparr> (pgIdentities st)"
  using assms by (auto simp: admit_probe_def validWithin_def split: if_splits option.splits)

lemma admit_probe_Inl: "admit_probe l d r st = Inl reason \<Longrightarrow> reason \<in> set gateless_reasons"
  by (auto simp: admit_probe_def gateless_reasons_def split: if_splits option.splits)

lemma run_probes_requests:
  assumes "run_probes l env ds st = (st', failure)"
  shows "\<exists>k \<le> length ds. pgRequests st' = pgRequests st @ map probeRequest (take k ds)
      \<and> (failure = None \<longrightarrow> k = length ds)"
  using assms
proof (induction ds arbitrary: st)
  case Nil
  then show ?case by simp
next
  case (Cons d ds)
  let ?st = "st\<lparr>pgRequests := pgRequests st @ [probeRequest d]\<rparr>"
  show ?case
  proof (cases "\<exists>r st1. \<not> enCancelledBefore env (pgRequests st)
      \<and> \<not> enCancelledAfter env (pgRequests st @ [probeRequest d])
      \<and> enRead env (pgRequests st @ [probeRequest d]) = Some r \<and> admit_probe l d r ?st = Inr st1")
    case True
    then obtain r st1 where s: "admit_probe l d r ?st = Inr st1"
      and go: "run_probes l env (d # ds) st = run_probes l env ds st1"
      by (auto simp: Let_def)
    obtain k where "k \<le> length ds" "pgRequests st' = pgRequests st1 @ map probeRequest (take k ds)"
      "failure = None \<longrightarrow> k = length ds"
      using Cons.IH [of st1] Cons.prems go by auto
    then show ?thesis
      using admit_probe_Inr(6) [OF s] by (intro exI [of _ "Suc k"]) simp
  next
    case False
    then have "failure \<noteq> None" and st': "st' = st \<or> st' = ?st"
      using Cons.prems by (auto simp: Let_def split: if_splits option.splits sum.splits)
    moreover obtain k where "k = (if st' = st then 0 else Suc 0)" by blast
    ultimately show ?thesis by (intro exI [of _ k]) auto
  qed
qed

lemma run_probes_failure:
  "run_probes l env ds st = (st', Some (reason, c)) \<Longrightarrow> reason \<in> set gateless_reasons"
proof (induction ds arbitrary: st)
  case (Cons d ds)
  have "DetectionReasonContextCancelled \<in> set gateless_reasons" "DetectionReasonReadError \<in> set gateless_reasons"
    by (simp_all add: gateless_reasons_def)
  with Cons show ?case
    by (auto simp: Let_def dest: admit_probe_Inl split: if_splits option.splits sum.splits)
qed simp

text \<open>The identities read so far: one for each field probed, with evidence of its own.\<close>

definition progress_ok :: "probe_declaration list \<Rightarrow> probe_progress \<Rightarrow> bool" where
  "progress_ok done_probes st \<longleftrightarrow>
     (\<forall>f. gm_get (pgIdentities st) f \<noteq> None \<longleftrightarrow> f \<in> pbIdentityField ` set done_probes)
     \<and> (\<forall>f i. gm_get (pgIdentities st) f = Some i \<longrightarrow> validProbeEvidenceID (diEvidenceID i) 256
          \<and> diEvidenceID i \<in> set (pgEvidenceIDs st))
     \<and> (\<forall>f g i j. gm_get (pgIdentities st) f = Some i \<longrightarrow> gm_get (pgIdentities st) g = Some j
          \<longrightarrow> diEvidenceID i = diEvidenceID j \<longrightarrow> f = g)"

lemma start_progress_ok: "progress_ok [] start_progress"
  by (simp add: progress_ok_def start_progress_def gm.get_empty)

lemma admit_progress:
  assumes ad: "admit_probe l d r st = Inr st'" and ok: "progress_ok done_probes st"
    and built: "r = zero_result \<or> NewProbeReadResult pl r = Inr r"
  shows "progress_ok (done_probes @ [d]) st'"
proof -
  note a = admit_probe_Inr [OF ad]
  obtain s where m: "pgIdentities st' =
      gm_put (pbIdentityField d) \<lparr>diValue = s, diEvidenceID = rrEvidenceID r\<rparr> (pgIdentities st)"
    using a(8) by blast
  have "r \<noteq> zero_result" using a(1) by auto
  then have "validProbeEvidenceID (rrEvidenceID r) 256" using built NewProbeReadResult_Inr(2) by blast
  moreover have "\<forall>f i. gm_get (pgIdentities st) f = Some i
      \<longrightarrow> diEvidenceID i \<noteq> rrEvidenceID r \<and> rrEvidenceID r \<noteq> diEvidenceID i"
    using ok a(4) unfolding progress_ok_def by metis
  ultimately show ?thesis
    using ok unfolding progress_ok_def m a(7)
    by (auto simp: gm.get_put split: if_splits)
qed

lemma run_probes_progress:
  assumes "run_probes l env ds st = (st', None)" and "progress_ok done_probes st" and "results_built pl env"
  shows "progress_ok (done_probes @ ds) st'"
  using assms
proof (induction ds arbitrary: st done_probes)
  case Nil
  then show ?case by simp
next
  case (Cons d ds)
  let ?st = "st\<lparr>pgRequests := pgRequests st @ [probeRequest d]\<rparr>"
  obtain r st1 where r: "enRead env (pgRequests st @ [probeRequest d]) = Some r" "admit_probe l d r ?st = Inr st1"
    "run_probes l env ds st1 = (st', None)"
    using Cons.prems(1) by (auto simp: Let_def split: if_splits option.splits sum.splits)
  have "progress_ok done_probes ?st" using Cons.prems(2) by (simp add: progress_ok_def)
  then have "progress_ok (done_probes @ [d]) st1"
    using admit_progress [OF r(2)] r(1) Cons.prems(3) by (auto simp: results_built_def)
  then show ?case using Cons.IH [OF r(3), of "done_probes @ [d]"] Cons.prems(3) by simp
qed

lemma completed_identities:
  assumes det: "NewProfileDetector pl spec = Inr det" and built: "results_built pl env"
    and run: "run_probes (deLimits det) env (ppDeclarations (dePlan det)) start_progress = (st, None)"
  shows "identities_ok (pgIdentities st)"
proof -
  have ok: "progress_ok (ppDeclarations (dePlan det)) st"
    using run_probes_progress [OF run start_progress_ok built] by simp
  have fields: "\<exists>i. gm_get (pgIdentities st) f = Some i"
    if "f \<in> {ProbeIdentityManufacturer, ProbeIdentityModel, ProbeIdentityFirmware}" for f
  proof -
    have "gm_get (pgIdentities st) f \<noteq> None \<longleftrightarrow> f \<in> pbIdentityField ` set (ppDeclarations (dePlan det))"
      using ok by (simp add: progress_ok_def)
    then show ?thesis using that unfolding detector_accepted(10) [OF det] by simp
  qed
  have apart: "diEvidenceID i \<noteq> diEvidenceID j"
    if "gm_get (pgIdentities st) f = Some i" "gm_get (pgIdentities st) g = Some j" "f \<noteq> g" for f g i j
    using that ok unfolding progress_ok_def by blast
  have valid: "validProbeEvidenceID (diEvidenceID i) 256" if "gm_get (pgIdentities st) f = Some i" for f i
    using that ok unfolding progress_ok_def by blast
  obtain i j k where m: "gm_get (pgIdentities st) ProbeIdentityManufacturer = Some i"
    "gm_get (pgIdentities st) ProbeIdentityModel = Some j" "gm_get (pgIdentities st) ProbeIdentityFirmware = Some k"
    using fields [of ProbeIdentityManufacturer] fields [of ProbeIdentityModel] fields [of ProbeIdentityFirmware]
    by auto
  then show ?thesis
    using apart [OF m(1,2)] apart [OF m(1,3)] apart [OF m(2,3)] valid [OF m(1)] valid [OF m(2)] valid [OF m(3)]
    by (simp add: identities_ok_def identity_of_def)
qed

text \<open>What \<^verbatim>\<open>Detect\<close> hands to \<^verbatim>\<open>finalizeDecision\<close>.\<close>

definition detected :: "profile_detector \<Rightarrow> environment \<Rightarrow> bool \<Rightarrow> detection_decision" where
  "detected det env allow =
     (case run_probes (deLimits det) env (ppDeclarations (dePlan det)) start_progress of
        (st, Some (reason, _)) \<Rightarrow> failureDecision det reason
      | (st, None) \<Rightarrow> decide det (pgIdentities st) allow)"

lemma Detect_result:
  "snd (Detect pl (Some det) (Some env) allow) =
     (case finalizeDecision pl (detected det env allow) of
        Inl e \<Rightarrow> Inl e
      | Inr d \<Rightarrow> Inr (d, case snd (run_probes (deLimits det) env (ppDeclarations (dePlan det)) start_progress) of
          Some (_, c) \<Rightarrow> c | None \<Rightarrow> False))"
proof -
  obtain st failure where run: "run_probes (deLimits det) env (ppDeclarations (dePlan det)) start_progress = (st, failure)"
    by (cases "run_probes (deLimits det) env (ppDeclarations (dePlan det)) start_progress")
  show ?thesis
    by (cases failure) (auto simp: Detect_def detected_def run split: sum.split)
qed

lemma detected_reportable:
  assumes det: "NewProfileDetector pl spec = Inr det" and built: "results_built pl env"
  shows "reportable pl det (detected det env allow)"
proof -
  obtain st failure where run: "run_probes (deLimits det) env (ppDeclarations (dePlan det)) start_progress = (st, failure)"
    by (cases "run_probes (deLimits det) env (ppDeclarations (dePlan det)) start_progress")
  show ?thesis
  proof (cases failure)
    case (Some x)
    then obtain reason c where "failure = Some (reason, c)" by (cases x) auto
    then show ?thesis
      using run failure_reportable [OF det run_probes_failure] by (simp add: detected_def)
  next
    case None
    note ids = completed_identities [OF det built run [unfolded None]]
    have d: "detected det env allow = decide det (pgIdentities st) allow" using run None by (simp add: detected_def)
    show ?thesis
    proof (cases "version_valid (device_of (pgIdentities st) ProbeIdentityFirmware)")
      case True
      then show ?thesis using decide_cases [OF det ids] d by simp
    next
      case False
      then have "decide det (pgIdentities st) allow = failureDecision det DetectionReasonInvalidIdentity"
        by (auto simp: decide_def device_of_def ParseVersion_Inr split: sum.split)
      moreover have "DetectionReasonInvalidIdentity \<in> set gateless_reasons" by (simp add: gateless_reasons_def)
      ultimately show ?thesis using d failure_reportable [OF det] by simp
    qed
  qed
qed

section \<open>The size of a decision\<close>

lemma join_on_length_eq: "ps \<noteq> [] \<Longrightarrow> length (join_on c ps) + 1 = sum_list (map length ps) + length ps"
  by (induction ps rule: join_on.induct) auto

lemma json_object_length_eq:
  assumes "fs \<noteq> []"
  shows "length (json_object fs) =
    (\<Sum>f \<leftarrow> fs. length (json_text (fst f)) + length (snd f)) + 2 * length fs + 1"
proof -
  have "(\<Sum>f \<leftarrow> fs. length (json_member (fst f) (snd f)))
      = (\<Sum>f \<leftarrow> fs. length (json_text (fst f)) + length (snd f)) + length fs"
    by (induction fs) (simp_all add: json_member_def)
  then show ?thesis
    using assms join_on_length_eq [of "map (\<lambda>f. json_member (fst f) (snd f)) fs" "CHR '',''"]
    by (simp add: json_object_def comp_def)
qed

lemma json_array_length: "length (json_array vs) \<le> (\<Sum>v \<leftarrow> vs. length v + 1) + 2"
proof -
  have "(\<Sum>v \<leftarrow> vs. length v + 1) = sum_list (map length vs) + length vs" by (induction vs) simp_all
  then show ?thesis using join_on_length [of "CHR '',''" vs] by (simp add: json_array_def)
qed

lemma identity_plain: "validIdentity s \<Longrightarrow> list_all json_plain s"
  by (auto simp: validIdentity_def list_all_iff identity_char_def json_plain_def is_digit_def byte_at_def)

lemma split_on_set: "set s \<subseteq> insert c (\<Union> (set ` set (split_on c s)))"
proof (induction s)
  case (Cons x s)
  then show ?case by (cases "split_on c s") (simp_all, blast)
qed simp

lemma version_plain: "version_valid v \<Longrightarrow> list_all json_plain v"
proof -
  assume "version_valid v"
  then obtain a b c where v: "split_on CHR ''.'' v = [a, b, c]"
    and n: "numeral_part a" "numeral_part b" "numeral_part c" by (rule version_parts)
  have "set v \<subseteq> insert CHR ''.'' (\<Union> (set ` set [a, b, c]))"
    using split_on_set [of v "CHR ''.''"] unfolding v .
  moreover have "\<forall>p \<in> set [a, b, c]. \<forall>d \<in> set p. is_digit d" using numeral_part_digits n by simp
  ultimately have "d = CHR ''.'' \<or> is_digit d" if "d \<in> set v" for d
    using that by (metis UN_E insertE subsetD)
  moreover have "json_plain d" if "is_digit d" for d using that by (simp add: json_plain_def is_digit_def)
  moreover have "json_plain CHR ''.''" by (simp add: json_plain_def byte_at_def)
  ultimately show ?thesis unfolding list_all_iff by metis
qed

lemma gated_fields:
  "ceProbeEvidenceIDs (gated b r n m) = take n (evidence3 m)" "ceMatchedGates (gated b r n m) = take n gates3"
  "ceScore (gated b r n m) = dcScore (bcCandidate b)"
  "ceDetectorVersion (gated b r n m) = pfDetectorVersion (bcProfile b)"
  "ceQualificationVersion (gated b r n m) = pfQualificationVersion (bcProfile b)"
  by (simp_all add: gated_def bare_evidence_def)

lemma shape_lengths:
  assumes "evidence_shape m b e"
  shows "length (ceReason e) \<le> 23" and "list_all json_plain (ceReason e)"
    and "(\<Sum>g \<leftarrow> ceMatchedGates e. length g) \<le> 25" and "length (ceMatchedGates e) \<le> 3"
    and "\<forall>g \<in> set (ceMatchedGates e). list_all json_plain g"
    and "(\<Sum>i \<leftarrow> ceProbeEvidenceIDs e. length i) \<le> 768" and "length (ceProbeEvidenceIDs e) \<le> 3"
    and "\<forall>i \<in> set (ceProbeEvidenceIDs e). list_all json_plain i"
proof -
  obtain r n where e: "e = gated b r n m"
    and rn: "r \<in> set gateless_reasons \<and> n = 0
         \<or> identities_ok m \<and> (r = DetectionReasonIdentityMismatch \<and> n = Suc 0
             \<or> r = DetectionReasonFirmwareMismatch \<and> n = Suc (Suc 0)
             \<or> r \<in> {DetectionReasonSelected, DetectionReasonMultipleMatches} \<and> n = Suc (Suc (Suc 0)))"
    using assms by (auto simp: evidence_shape_def)
  then have n: "n = 0 \<or> identities_ok m \<and> (n = Suc 0 \<or> n = Suc (Suc 0) \<or> n = Suc (Suc (Suc 0)))" by blast
  have "length r \<le> 23 \<and> list_all json_plain r"
    using rn gateless_reason(4,5) [of r] by (auto simp: probe_consts json_plain_def byte_at_def)
  then show "length (ceReason e) \<le> 23" "list_all json_plain (ceReason e)" by (simp_all add: e)
  show "(\<Sum>g \<leftarrow> ceMatchedGates e. length g) \<le> 25" "length (ceMatchedGates e) \<le> 3"
    "\<forall>g \<in> set (ceMatchedGates e). list_all json_plain g"
    using n by (auto simp: e gated_fields gates3_def probe_consts json_plain_def byte_at_def)
  show "(\<Sum>i \<leftarrow> ceProbeEvidenceIDs e. length i) \<le> 768" "length (ceProbeEvidenceIDs e) \<le> 3"
    "\<forall>i \<in> set (ceProbeEvidenceIDs e). list_all json_plain i"
    using n by (auto simp: e gated_fields evidence3_def gates3_def identities_ok_def
        validProbeEvidenceID_def Let_def identity_plain)
qed

lemma json_texts_length:
  assumes "\<forall>v \<in> set vs. list_all json_plain v"
  shows "length (json_array (map json_text vs)) \<le> (\<Sum>v \<leftarrow> vs. length v) + 3 * length vs + 2"
proof -
  have "(\<Sum>v \<leftarrow> map json_text vs. length v + 1) = (\<Sum>v \<leftarrow> vs. length v) + 3 * length vs"
    using assms by (induction vs) (simp_all add: json_text_plain)
  then show ?thesis using json_array_length [of "map json_text vs"] by simp
qed

text \<open>The bytes of the texts of a candidate that are not bounded by a constant.\<close>

definition text_bytes :: "bound_candidate \<Rightarrow> nat" where
  "text_bytes b = length (pfID (bcProfile b)) + length (pfVersion (bcProfile b))
     + length (pfDetectorVersion (bcProfile b)) + length (pfQualificationVersion (bcProfile b))"

lemma shape_texts:
  assumes "evidence_shape m b e" and "bound_ok dv b" and "version_valid dv"
  shows "list_all json_plain (ceProfileID e)" and "list_all json_plain (ceProfileVersion e)"
    and "list_all json_plain (ceDetectorVersion e)" and "list_all json_plain (ceQualificationVersion e)"
    and "length (ceProfileID e) + length (ceProfileVersion e) + length (ceDetectorVersion e)
      + length (ceQualificationVersion e) = text_bytes b"
  using assms
  by (auto simp: evidence_shape_def gated_def bare_evidence_def bound_ok_def text_bytes_def
      identity_plain version_plain)

lemma evidence_json_length:
  assumes shape: "evidence_shape m b e" and b: "bound_ok dv b" "version_valid dv"
  shows "length (evidence_dto_json (evidence_to_dto e)) \<le> 1050 + text_bytes b"
proof -
  note s = shape_lengths [OF shape] and t = shape_texts [OF shape b]
  have "unat (ceScore e) < 2 ^ LENGTH(32)" by (rule unsigned_less)
  then have "unat (ceScore e) < 10 ^ 10" by simp
  then have score: "length (dec (unat (ceScore e))) \<le> 10" by (rule dec_length_bound) simp
  show ?thesis
    using json_texts_length [OF s(5)] json_texts_length [OF s(8)] s score t(5)
    by (simp add: evidence_dto_json_def evidence_to_dto_def json_object_length_eq json_text_plain
        t(1-4) json_plain_def byte_at_def)
qed

text \<open>The bound that \<^verbatim>\<open>NewProfileDetector\<close> computed, as a number.\<close>

lemma decision_bound_Inr:
  assumes "decision_bound planCount per bound cs = Inr result"
    and "\<forall>b \<in> set cs. f b = unat (candidate_bound planCount per (bcProfile b))"
  shows "unat result = unat bound + (\<Sum>b \<leftarrow> cs. f b)"
  using assms
proof (induction cs arbitrary: bound)
  case Nil
  then show ?case by simp
next
  case (Cons c cs)
  let ?c = "candidate_bound planCount per (bcProfile c)"
  have guard: "?c \<le> MaxUint64 - bound" and rest: "decision_bound planCount per (bound + ?c) cs = Inr result"
    using Cons.prems(1) by (auto simp: Let_def split: if_splits)
  have "unat (bound + ?c) = unat ?c + unat bound"
    using u64_sub_guard [OF guard] by (simp add: add.commute)
  then show ?case using Cons.IH [OF rest] Cons.prems(2) by simp
qed

lemma detector_bound:
  assumes det: "NewProfileDetector pl spec = Inr det"
  shows "512 + (\<Sum>b \<leftarrow> deCandidates det. 1152 + 6 * text_bytes b) \<le> nat (dlMaxDecisionBytes (deLimits det))"
proof -
  note a = detector_accepted [OF det] and l = detection_limits_valid [OF detector_accepted(8) [OF det]]
  obtain E where E: "E = nat (dlMaxEvidenceIDBytes (deLimits det))" by blast
  obtain D where D: "D = nat (dlMaxDecisionBytes (deLimits det))" by blast
  have e: "dlMaxEvidenceIDBytes (deLimits det) = int E" "E \<le> 4096"
    and d: "dlMaxDecisionBytes (deLimits det) = int D" "D \<le> 4194304"
    using l E D by (simp_all add: contract_consts)
  obtain result where r: "decision_bound 3 (of_nat E * 6 + 128) 512 (deCandidates det) = Inr result"
    "result \<le> of_nat D"
    using a(7) unfolding detectionDecisionUpperBound_def Let_def a(9) e(1) d(1)
    by (auto simp: not_less split: if_splits sum.splits)
  have cb: "768 + 6 * text_bytes b + 3 * (6 * E + 128)
      = unat (candidate_bound 3 (of_nat E * 6 + 128) (bcProfile b))" if "b \<in> set (deCandidates det)" for b
  proof -
    have "bound_ok (deVersion det) b" using a(3) that by blast
    then have "text_bytes b \<le> 16384"
      using a(6) by (auto simp: bound_ok_def text_bytes_def validIdentity_def version_valid_def contract_consts)
    then have "768 + 6 * text_bytes b + 3 * (6 * E + 128) < 2 ^ 64" using e(2) by simp
    moreover have "candidate_bound 3 (of_nat E * 6 + 128) (bcProfile b)
        = of_nat (768 + 6 * text_bytes b + 3 * (6 * E + 128))"
      by (simp add: candidate_bound_def text_bytes_def algebra_simps)
    ultimately show ?thesis using unat_of_nat_u64 by metis
  qed
  have "unat result = 512 + (\<Sum>b \<leftarrow> deCandidates det. 768 + 6 * text_bytes b + 3 * (6 * E + 128))"
    using decision_bound_Inr [OF r(1), of "\<lambda>b. 768 + 6 * text_bytes b + 3 * (6 * E + 128)"] cb by simp
  moreover have "unat result \<le> D"
    using r(2) d(2) by (simp add: word_le_nat_alt unat_of_nat_u64)
  moreover have "(\<Sum>b \<leftarrow> deCandidates det. 1152 + 6 * text_bytes b)
      \<le> (\<Sum>b \<leftarrow> deCandidates det. 768 + 6 * text_bytes b + 3 * (6 * E + 128))"
    by (rule sum_list_mono) simp
  ultimately show ?thesis using D by simp
qed

lemma list_all2_sum_le:
  assumes "list_all2 P xs ys" and "\<And>x y. P x y \<Longrightarrow> x \<in> set xs \<Longrightarrow> g y \<le> (f x :: nat)"
  shows "sum_list (map g ys) \<le> sum_list (map f xs)"
  using assms by (induction rule: list_all2_induct) (auto intro: add_mono)

text \<open>The selected profile is named twice, once in the head of the text and once in its evidence.\<close>

lemma selected_bytes:
  assumes "list_all2 (evidence_shape m) (deCandidates det) (ddEvidence d)"
    and "\<forall>b \<in> set (deCandidates det). bound_ok dv b" and "version_valid dv"
    and "ddSelectedProfileID d = [] \<and> ddSelectedProfileVersion d = []
        \<or> (\<exists>e \<in> set (ddEvidence d). ddSelectedProfileID d = ceProfileID e
              \<and> ddSelectedProfileVersion d = ceProfileVersion e)"
  shows "length (ddSelectedProfileID d) + length (ddSelectedProfileVersion d)
      \<le> (\<Sum>b \<leftarrow> deCandidates det. text_bytes b)"
    and "list_all json_plain (ddSelectedProfileID d)" and "list_all json_plain (ddSelectedProfileVersion d)"
proof -
  have "length (ddSelectedProfileID d) + length (ddSelectedProfileVersion d)
      \<le> (\<Sum>b \<leftarrow> deCandidates det. text_bytes b)
    \<and> list_all json_plain (ddSelectedProfileID d) \<and> list_all json_plain (ddSelectedProfileVersion d)"
    using assms(4)
  proof (elim disjE bexE)
    fix e assume e: "e \<in> set (ddEvidence d)" and s: "ddSelectedProfileID d = ceProfileID e
        \<and> ddSelectedProfileVersion d = ceProfileVersion e"
    obtain i where "i < length (ddEvidence d)" "e = ddEvidence d ! i" using e by (auto simp: in_set_conv_nth)
    then obtain b where b: "b \<in> set (deCandidates det)" "evidence_shape m b e"
      using assms(1) by (metis list_all2_conv_all_nth nth_mem)
    have "bound_ok dv b" using assms(2) b(1) by blast
    note t = shape_texts [OF b(2) this assms(3)]
    have "text_bytes b \<le> (\<Sum>b \<leftarrow> deCandidates det. text_bytes b)"
      using b(1) member_le_sum_list [of "text_bytes b" "map text_bytes (deCandidates det)"] by simp
    then show ?thesis using t s by simp
  qed simp
  then show "length (ddSelectedProfileID d) + length (ddSelectedProfileVersion d)
      \<le> (\<Sum>b \<leftarrow> deCandidates det. text_bytes b)"
    "list_all json_plain (ddSelectedProfileID d)" "list_all json_plain (ddSelectedProfileVersion d)" by simp_all
qed

lemma dto_simps [simp]:
  "dtSchemaVersion (detectionDecisionToDTO d) = ''1.0.0''" "dtOutcome (detectionDecisionToDTO d) = ddOutcome d"
  "dtReason (detectionDecisionToDTO d) = ddReason d"
  "dtSelectedProfileID (detectionDecisionToDTO d) = ddSelectedProfileID d"
  "dtEvidence (detectionDecisionToDTO d) = map evidence_to_dto (ddEvidence d)"
  by (simp_all add: detectionDecisionToDTO_def schemaVersionV1_def)

lemma dto_version:
  "dtSelectedProfileVersion (detectionDecisionToDTO d) = ddSelectedProfileVersion d
   \<or> dtSelectedProfileVersion (detectionDecisionToDTO d) = []"
  by (simp add: detectionDecisionToDTO_def)

lemma reportable_head:
  assumes "reportable pl det d"
  shows "length (ddOutcome d) \<le> 9" and "list_all json_plain (ddOutcome d)"
    and "length (ddReason d) \<le> 23" and "list_all json_plain (ddReason d)"
proof -
  show "length (ddOutcome d) \<le> 9" "list_all json_plain (ddOutcome d)"
    using assms by (auto simp: reportable_def probe_consts json_plain_def byte_at_def)
  have "ddReason d \<in> set (DetectionReasonFirmwareMismatch # DetectionReasonSelected
           # DetectionReasonMultipleMatches # gateless_reasons)"
    using assms by (simp add: reportable_def)
  then show "length (ddReason d) \<le> 23" "list_all json_plain (ddReason d)"
    using gateless_reason(4,5) [of "ddReason d"] by (auto simp: probe_consts json_plain_def byte_at_def)
qed

lemma decision_json_length:
  assumes det: "NewProfileDetector pl spec = Inr det" and rep: "reportable pl det d"
  shows "length (decision_dto_json (detectionDecisionToDTO d)) + 1 \<le> nat (dlMaxDecisionBytes (deLimits det))"
proof -
  note a = detector_accepted [OF det] and h = reportable_head [OF rep]
  obtain m where shape: "list_all2 (evidence_shape m) (deCandidates det) (ddEvidence d)"
    using rep by (auto simp: reportable_def)
  note s = selected_bytes [OF shape a(3,6)]
  have sel: "ddSelectedProfileID d = [] \<and> ddSelectedProfileVersion d = []
        \<or> (\<exists>e \<in> set (ddEvidence d). ddSelectedProfileID d = ceProfileID e
              \<and> ddSelectedProfileVersion d = ceProfileVersion e)"
    using rep by (simp add: reportable_def)
  have "(\<Sum>e \<leftarrow> ddEvidence d. length (evidence_dto_json (evidence_to_dto e)) + 1)
      \<le> (\<Sum>b \<leftarrow> deCandidates det. 1152 + text_bytes b)"
    by (rule list_all2_sum_le [OF shape]) (use evidence_json_length a(3,6) in \<open>fastforce simp: less_imp_le\<close>)
  then have arr: "length (json_array (map evidence_dto_json (map evidence_to_dto (ddEvidence d))))
      \<le> (\<Sum>b \<leftarrow> deCandidates det. 1152 + text_bytes b) + 2"
    using json_array_length [of "map evidence_dto_json (map evidence_to_dto (ddEvidence d))"]
    by (simp add: comp_def)
  have v: "length (dtSelectedProfileVersion (detectionDecisionToDTO d)) \<le> length (ddSelectedProfileVersion d)"
    "list_all json_plain (dtSelectedProfileVersion (detectionDecisionToDTO d))"
    using dto_version [of d] s(3) [OF sel] by auto
  have sum: "(\<Sum>b \<leftarrow> bs. 1152 + 6 * text_bytes b)
      = (\<Sum>b \<leftarrow> bs. 1152 + text_bytes b) + 5 * (\<Sum>b \<leftarrow> bs. text_bytes b)"
    for bs :: "bound_candidate list"
    by (induction bs) simp_all
  have "length (decision_dto_json (detectionDecisionToDTO d)) \<le> 300 + length (ddSelectedProfileID d)
      + length (ddSelectedProfileVersion d) + (\<Sum>b \<leftarrow> deCandidates det. 1152 + text_bytes b)"
    using arr v h s(2) [OF sel]
    by (simp add: decision_dto_json_def json_object_length_eq json_text_plain json_plain_def byte_at_def)
  then show ?thesis using detector_bound [OF det] s(1) [OF sel] sum [of "deCandidates det"] by linarith
qed

text \<open>The budget walk over the transfer record: a detector of up to 39 candidates is within it,
  however long the texts of its profiles are.\<close>

lemma sum_list_const_le: "(\<Sum>x \<leftarrow> xs. f x) \<le> n * length xs" if "\<forall>x \<in> set xs. f x \<le> (n :: nat)"
  using that by (induction xs) auto

lemma length_in_sum: "v \<in> set vs \<Longrightarrow> length v \<le> (\<Sum>v \<leftarrow> vs. length v)"
  by (induction vs) auto

lemma strings_cost:
  "agg_cost (strings_agg vs) = 16 + 40 * length vs + 6 * (\<Sum>v \<leftarrow> vs. length v)"
  by (induction vs) (simp_all add: strings_agg_def string_agg_def)

lemma strings_shape:
  assumes "\<forall>v \<in> set vs. length v \<le> 4096" and "length vs \<le> 4096" and "depth \<le> 31"
  shows "agg_shape depth (strings_agg vs)"
proof -
  have "\<forall>v \<in> set vs. agg_shape (Suc depth) (string_agg v)"
    using assms(1,3) by (auto simp: agg_shape.simps string_agg_def contract_consts)
  then show ?thesis using assms(2,3)
    by (subst agg_shape.simps) (simp add: strings_agg_def contract_consts)
qed

lemma text_shape: "length s \<le> 4096 \<Longrightarrow> depth \<le> 32 \<Longrightarrow> agg_shape depth (string_agg s)"
  by (simp add: agg_shape.simps string_agg_def contract_consts)

lemma evidence_walk:
  assumes shape: "evidence_shape m b e" and b: "bound_ok dv b" "version_valid dv" and d: "depth \<le> 20"
  shows "agg_cost (evidence_dto_agg (evidence_to_dto e)) \<le> 104066"
    and "agg_shape depth (evidence_dto_agg (evidence_to_dto e))"
proof -
  note s = shape_lengths [OF shape]
  obtain r n where e: "e = gated b r n m" using shape by (auto simp: evidence_shape_def)
  have l: "length (ceProfileID e) \<le> 4096" "length (ceProfileVersion e) \<le> 4096"
    "length (ceDetectorVersion e) \<le> 4096" "length (ceQualificationVersion e) \<le> 4096"
    using b by (simp_all add: e gated_fields bound_ok_def validIdentity_def version_valid_def contract_consts)
  show "agg_cost (evidence_dto_agg (evidence_to_dto e)) \<le> 104066"
    using s l by (simp add: evidence_dto_agg_def evidence_to_dto_def strings_cost string_agg_def
        skipped_field_def)
  have "agg_shape (Suc depth) (strings_agg (ceMatchedGates e))"
    using s(3,4) d by (intro strings_shape) (fastforce dest: length_in_sum)+
  moreover have "agg_shape (Suc depth) (strings_agg (ceProbeEvidenceIDs e))"
    using s(6,7) d by (intro strings_shape) (fastforce dest: length_in_sum)+
  moreover have "agg_shape (Suc depth) AggInteger" using d by (simp add: agg_shape.simps contract_consts)
  ultimately show "agg_shape depth (evidence_dto_agg (evidence_to_dto e))"
    using d l s(1) by (subst agg_shape.simps)
      (simp add: evidence_dto_agg_def evidence_to_dto_def skipped_field_def text_shape contract_consts)
qed

lemma decision_walk:
  assumes det: "NewProfileDetector pl spec = Inr det" and rep: "reportable pl det d"
    and few: "length (deCandidates det) \<le> 39"
  shows "preflightAggregate [decision_dto_agg (detectionDecisionToDTO d)] = None"
proof -
  note a = detector_accepted [OF det] and h = reportable_head [OF rep]
  obtain m where shape: "list_all2 (evidence_shape m) (deCandidates det) (ddEvidence d)"
    using rep by (auto simp: reportable_def)
  note each = shaped_evidence(5) [OF det shape]
  have len: "length (ddEvidence d) \<le> 39" using few list_all2_lengthD [OF shape] by simp
  have walk: "agg_cost (evidence_dto_agg (evidence_to_dto e)) \<le> 104066
      \<and> agg_shape (Suc (Suc (Suc 0))) (evidence_dto_agg (evidence_to_dto e))" if "e \<in> set (ddEvidence d)" for e
  proof -
    obtain i where i: "i < length (ddEvidence d)" "e = ddEvidence d ! i" using \<open>e \<in> _\<close> by (auto simp: in_set_conv_nth)
    then obtain b where "b \<in> set (deCandidates det)" "evidence_shape m b e"
      using shape by (metis list_all2_conv_all_nth nth_mem)
    moreover from this have "bound_ok (deVersion det) b" using a(3) by blast
    ultimately show ?thesis using evidence_walk [OF _ _ a(6), of m b e "Suc (Suc (Suc 0))"] by simp
  qed
  have sel: "length (ddSelectedProfileID d) \<le> 4096 \<and> length (ddSelectedProfileVersion d) \<le> 4096"
    using rep each by (auto simp: reportable_def validIdentity_def version_valid_def contract_consts)
  then have ver: "length (dtSelectedProfileVersion (detectionDecisionToDTO d)) \<le> 4096"
    using dto_version [of d] by auto
  have "(\<Sum>e \<leftarrow> ddEvidence d. agg_cost (evidence_dto_agg (evidence_to_dto e))) \<le> 104066 * length (ddEvidence d)"
    by (rule sum_list_const_le) (use walk in blast)
  then have "agg_cost (decision_dto_agg (detectionDecisionToDTO d)) \<le> MaxSerializedContractBytes"
    using len sel ver h(1,3)
    by (simp add: decision_dto_agg_def string_agg_def skipped_field_def comp_def contract_consts)
  moreover have "agg_shape (Suc 0) (decision_dto_agg (detectionDecisionToDTO d))"
  proof -
    have "agg_shape (Suc (Suc 0)) (AggSequence (map evidence_dto_agg (map evidence_to_dto (ddEvidence d))))"
      using walk len by (subst agg_shape.simps) (simp add: contract_consts)
    then show ?thesis
      using sel ver h(1,3) by (subst agg_shape.simps)
        (simp add: decision_dto_agg_def skipped_field_def text_shape contract_consts)
  qed
  ultimately show ?thesis unfolding preflightAggregate_def preflight_from_iff by simp
qed

lemma detection_reports:
  assumes "NewProfileDetector pl spec = Inr det" and "results_built pl env"
  shows "validateDetectionDecision pl (detected det env allow) (report_limits pl det) = None
    \<and> int (length (decision_dto_json (detectionDecisionToDTO (detected det env allow)))) < dlMaxDecisionBytes (xsLimits spec)
    \<and> (case snd (Detect pl (Some det) (Some env) allow) of
         Inl e \<Rightarrow> e = DetectDecision DecisionEncoding \<and> 39 < length (xsCandidates spec)
       | Inr (d, _) \<Rightarrow> d = detected det env allow)"
proof -
  let ?d = "detected det env allow"
  note rep = detected_reportable [OF assms, of allow] and a = detector_accepted [OF assms(1)]
  note l = detection_limits_valid [OF a(8)]
  have limits: "deLimits det = xsLimits spec" using NewProfileDetector_Inr [OF assms(1)] by metis
  have valid: "validateDetectionDecision pl ?d (report_limits pl det) = None"
    and maximum: "ddMaxDecisionBytes ?d = dlMaxDecisionBytes (deLimits det)"
    using rep by (simp_all add: reportable_def)
  have len: "int (length (decision_dto_json (detectionDecisionToDTO ?d))) < dlMaxDecisionBytes (deLimits det)"
    using decision_json_length [OF assms(1) rep] by linarith
  have lim: "(if ddMaxDecisionBytes ?d > 0 then (DefaultDetectionLimits pl)\<lparr>dlMaxDecisionBytes := ddMaxDecisionBytes ?d\<rparr>
      else DefaultDetectionLimits pl) = report_limits pl det"
    using l(1) by (simp add: maximum report_limits_def)
  have m: "MarshalDetectionDecision pl ?d =
      (if preflightAggregate [decision_dto_agg (detectionDecisionToDTO ?d)] \<noteq> None then Inl DecisionEncoding
       else Inr (decision_dto_json (detectionDecisionToDTO ?d)))"
    unfolding MarshalDetectionDecision_def Let_def lim
    using valid len l(2) by (simp add: marshal_bounded_def)
  show ?thesis
    using valid len limits m decision_walk [OF assms(1) rep] a(5)
    by (auto simp: Detect_result finalizeDecision_def not_le [symmetric])
qed

section \<open>Properties of detection\<close>

text \<open>C24: a detection is always reported. Whatever the reader answers (results the constructor built,
  or the zero value) and whenever the context is cancelled, the decision passes the validation of
  decisions and its JSON text stays within the size computed when the detector was built, so that
  the one way to lose it is the reflective budget walk; and with up to 39 candidates that cannot
  happen either, however long the texts of the profiles are.\<close>

theorem detection_is_always_reported:
  assumes "NewProfileDetector pl spec = Inr det" and "results_built pl env"
  shows "validateDetectionDecision pl (detected det env allow) (report_limits pl det) = None
    \<and> int (length (decision_dto_json (detectionDecisionToDTO (detected det env allow)))) < dlMaxDecisionBytes (xsLimits spec)
    \<and> (case snd (Detect pl (Some det) (Some env) allow) of
         Inl e \<Rightarrow> e = DetectDecision DecisionEncoding \<and> 39 < length (xsCandidates spec)
       | Inr (d, _) \<Rightarrow> d = detected det env allow)"
  by (rule detection_reports [OF assms])

text \<open>A device whose registers hold its identity texts, read without interruption.\<close>

definition device_answer :: "(string \<Rightarrow> string) \<Rightarrow> (string \<Rightarrow> string) \<Rightarrow> probe_declaration \<Rightarrow> read_result" where
  "device_answer device evidence d =
     (let packed = pack_text (device (pbIdentityField d)) in
      \<lparr>rrStatus = ProbeReadSucceeded,
       rrWords = packed @ replicate (unat (pbWordCount d) - length packed) 0,
       rrEvidenceID = evidence (pbIdentityField d), rrExceptionCode = 0\<rparr>)"

definition reads_device :: "profile_detector \<Rightarrow> (string \<Rightarrow> string) \<Rightarrow> (string \<Rightarrow> string) \<Rightarrow> environment \<Rightarrow> bool" where
  "reads_device det device evidence env \<longleftrightarrow>
     (\<forall>reqs. \<not> enCancelledBefore env reqs \<and> \<not> enCancelledAfter env reqs)
     \<and> (\<forall>d \<in> set (ppDeclarations (dePlan det)). \<forall>reqs.
          enRead env (reqs @ [probeRequest d]) = Some (device_answer device evidence d))"

definition readable_by :: "profile_detector \<Rightarrow> (string \<Rightarrow> string) \<Rightarrow> (string \<Rightarrow> string) \<Rightarrow> bool" where
  "readable_by det device evidence \<longleftrightarrow>
     (\<forall>d \<in> set (ppDeclarations (dePlan det)). let f = pbIdentityField d in
        device f \<noteq> [] \<and> list_all printable (device f)
        \<and> int (length (device f)) \<le> dlMaxIdentityBytes (deLimits det)
        \<and> length (pack_text (device f)) \<le> unat (pbWordCount d)
        \<and> validProbeEvidenceID (evidence f) (dlMaxEvidenceIDBytes (deLimits det))
        \<and> validProbeEvidenceID (evidence f) 256)
     \<and> inj_on evidence (pbIdentityField ` set (ppDeclarations (dePlan det)))"

lemma admit_device:
  assumes "device (pbIdentityField d) \<noteq> []" and "list_all printable (device (pbIdentityField d))"
    and "int (length (device (pbIdentityField d))) \<le> dlMaxIdentityBytes l"
    and "length (pack_text (device (pbIdentityField d))) \<le> unat (pbWordCount d)"
    and "validProbeEvidenceID (evidence (pbIdentityField d)) (dlMaxEvidenceIDBytes l)"
    and "int (unat (pbWordCount d)) \<le> dlMaxWordsPerRead l" and "0 < pbWordCount d"
    and "pgTotalWords st + int (unat (pbWordCount d)) \<le> dlMaxTotalWords l"
    and "evidence (pbIdentityField d) \<notin> set (pgEvidenceIDs st)"
    and "gm_get (pgIdentities st) (pbIdentityField d) = None"
  shows "admit_probe l d (device_answer device evidence d) st =
    Inr (st\<lparr>pgTotalWords := pgTotalWords st + int (unat (pbWordCount d)),
      pgEvidenceIDs := evidence (pbIdentityField d) # pgEvidenceIDs st,
      pgIdentities := gm_put (pbIdentityField d) \<lparr>diValue = device (pbIdentityField d),
        diEvidenceID = evidence (pbIdentityField d)\<rparr> (pgIdentities st)\<rparr>)"
proof -
  let ?p = "pack_text (device (pbIdentityField d))" and ?n = "unat (pbWordCount d)"
  have n: "length (?p @ replicate (?n - length ?p) 0) = ?n" using assms(4) by simp
  have "0 < ?n" using assms(7) by (simp add: unat_gt_0 word_gt_0)
  then have ne: "?p @ replicate (?n - length ?p) 0 \<noteq> []" using n by (metis length_0_conv less_numeral_extra(3))
  obtain k where k: "k = length ?p + (?n - length ?p)" by blast
  then have "k < 65536" using assms(4) unat_u16_bound [of "pbWordCount d"] by simp
  then have "int (length ?p + (?n - length ?p)) \<le> (2 ^ 63 - 1) div 2" unfolding k [symmetric] by simp
  note t = packed_probe_text [OF assms(1-3) this]
  have w: "rrWords (device_answer device evidence d) = ?p @ replicate (?n - length ?p) 0"
    "rrStatus (device_answer device evidence d) = ProbeReadSucceeded"
    "rrEvidenceID (device_answer device evidence d) = evidence (pbIdentityField d)"
    "rrExceptionCode (device_answer device evidence d) = 0"
    by (simp_all add: device_answer_def Let_def)
  have "validWithin (device_answer device evidence d) l"
    unfolding validWithin_def w n using ne assms(5,6) by simp
  then show ?thesis
    unfolding admit_probe_def w n t using assms(8-10) by simp
qed

lemma run_device:
  assumes dev: "reads_device det device evidence env" "readable_by det device evidence"
    and check: "check_declarations (deLimits det) [] [] 0 (ppDeclarations (dePlan det)) = None"
    and "set ds \<subseteq> set (ppDeclarations (dePlan det))" and "distinct (map pbIdentityField ds)"
    and "pgTotalWords st + (\<Sum>d \<leftarrow> ds. int (unat (pbWordCount d))) \<le> dlMaxTotalWords (deLimits det)"
    and "\<forall>d \<in> set ds. evidence (pbIdentityField d) \<notin> set (pgEvidenceIDs st)
      \<and> gm_get (pgIdentities st) (pbIdentityField d) = None"
  shows "\<exists>st'. run_probes (deLimits det) env ds st = (st', None)
      \<and> (\<forall>f. gm_get (pgIdentities st') f = (if f \<in> pbIdentityField ` set ds
            then Some \<lparr>diValue = device f, diEvidenceID = evidence f\<rparr> else gm_get (pgIdentities st) f))"
  using assms(4-)
proof (induction ds arbitrary: st)
  case Nil
  then show ?case by simp
next
  case (Cons d ds)
  let ?f = "pbIdentityField d" and ?l = "deLimits det"
  let ?st = "st\<lparr>pgRequests := pgRequests st @ [probeRequest d]\<rparr>"
  let ?i = "\<lparr>diValue = device ?f, diEvidenceID = evidence ?f\<rparr>"
  let ?st1 = "?st\<lparr>pgTotalWords := pgTotalWords st + int (unat (pbWordCount d)),
      pgEvidenceIDs := evidence ?f # pgEvidenceIDs st, pgIdentities := gm_put ?f ?i (pgIdentities st)\<rparr>"
  have d: "d \<in> set (ppDeclarations (dePlan det))" using Cons.prems(1) by simp
  note c = bspec [OF check_declarations_None(5) [OF check] d]
  have "0 \<le> (\<Sum>d \<leftarrow> ds. int (unat (pbWordCount d)))" by (rule sum_list_nonneg) auto
  then have "pgTotalWords st + int (unat (pbWordCount d)) \<le> dlMaxTotalWords ?l" using Cons.prems(3) by simp
  then have "admit_probe ?l d (device_answer device evidence d) ?st = Inr ?st1"
    using dev(2) d c Cons.prems(4)
    by (subst admit_device) (auto simp: readable_by_def Let_def)
  then have step: "run_probes ?l env (d # ds) st = run_probes ?l env ds ?st1"
    using dev(1) d by (simp add: reads_device_def Let_def)
  have "?f \<notin> pbIdentityField ` set ds" using Cons.prems(2) by simp
  then have other: "\<forall>e \<in> set ds. pbIdentityField e \<noteq> ?f" by (metis imageI)
  have "\<forall>e \<in> set ds. evidence (pbIdentityField e) \<noteq> evidence ?f"
  proof
    fix e assume e: "e \<in> set ds"
    then have "e \<in> set (ppDeclarations (dePlan det))" "pbIdentityField e \<noteq> ?f"
      using Cons.prems(1) other by auto
    then show "evidence (pbIdentityField e) \<noteq> evidence ?f"
      using dev(2) d by (auto simp: readable_by_def dest: inj_onD)
  qed
  with other obtain st' where "run_probes ?l env ds ?st1 = (st', None)"
    "\<forall>f. gm_get (pgIdentities st') f = (if f \<in> pbIdentityField ` set ds
            then Some \<lparr>diValue = device f, diEvidenceID = evidence f\<rparr> else gm_get (pgIdentities ?st1) f)"
    using Cons.IH [of ?st1] Cons.prems by (auto simp: gm.get_put)
  then show ?case unfolding step by (auto simp: gm.get_put)
qed

lemma device_identities:
  assumes det: "NewProfileDetector pl spec = Inr det"
    and dev: "reads_device det device evidence env" "readable_by det device evidence"
  obtains st where "run_probes (deLimits det) env (ppDeclarations (dePlan det)) start_progress = (st, None)"
    and "identities_ok (pgIdentities st)"
    and "\<And>f. f \<in> {ProbeIdentityManufacturer, ProbeIdentityModel, ProbeIdentityFirmware}
      \<Longrightarrow> device_of (pgIdentities st) f = device f"
proof -
  note a = detector_accepted [OF det]
  note c = check_declarations_None [OF a(11)]
  have "ppDeclarations (dePlan det) \<noteq> []" using a(9) by auto
  then obtain st where run: "run_probes (deLimits det) env (ppDeclarations (dePlan det)) start_progress = (st, None)"
    and get: "\<forall>f. gm_get (pgIdentities st) f = (if f \<in> pbIdentityField ` set (ppDeclarations (dePlan det))
            then Some \<lparr>diValue = device f, diEvidenceID = evidence f\<rparr> else gm_get (pgIdentities start_progress) f)"
    using run_device [OF dev a(11) subset_refl c(3), of start_progress] c(6)
    by (auto simp: start_progress_def gm.get_empty)
  let ?fs = "{ProbeIdentityManufacturer, ProbeIdentityModel, ProbeIdentityFirmware}"
  have i: "identity_of (pgIdentities st) f = \<lparr>diValue = device f, diEvidenceID = evidence f\<rparr>" if "f \<in> ?fs" for f
    using get that by (simp add: identity_of_def a(10))
  have inj: "inj_on evidence ?fs" and ids: "\<forall>f \<in> ?fs. validProbeEvidenceID (evidence f) 256"
    using dev(2) unfolding readable_by_def Let_def by (auto simp flip: a(10))
  show ?thesis
  proof (rule that [OF run])
    show "identities_ok (pgIdentities st)"
      using ids inj by (simp add: identities_ok_def i Let_def)
    show "f \<in> ?fs \<Longrightarrow> device_of (pgIdentities st) f = device f" for f by (simp add: device_of_def i)
  qed
qed

text \<open>C23: a device is identified by its texts alone. When the registers a detector reads hold the
  manufacturer, model and firmware of a device, a reported detection has read exactly the plan, is
  matched with the profile of the one candidate whose gates the device satisfies, is ambiguous when
  there are several, and a no-match when there is none; the firmware gate compares the numbers of
  the version, and neither scores nor the order of the candidates enter.\<close>

theorem device_is_identified:
  assumes "NewProfileDetector pl spec = Inr det"
    and "reads_device det device evidence env" and "readable_by det device evidence"
    and "version_valid (device ProbeIdentityFirmware)"
    and "Detect pl (Some det) (Some env) allow = (requests, Inr (d, cancelled))"
  shows "requests = map probeRequest (ppDeclarations (dePlan det)) \<and> \<not> cancelled
    \<and> (case matching det allow device of
         [] \<Rightarrow> ddOutcome d = DetectionNoMatch \<and> ddSelectedProfileID d = [] \<and> ddSelectedProfileVersion d = []
       | [b] \<Rightarrow> ddOutcome d = DetectionMatched \<and> ddSelectedProfileID d = pfID (bcProfile b)
           \<and> ddSelectedProfileVersion d = pfVersion (bcProfile b)
       | _ \<Rightarrow> ddOutcome d = DetectionAmbiguous \<and> ddSelectedProfileID d = []
           \<and> ddSelectedProfileVersion d = [])"
proof -
  obtain st where run: "run_probes (deLimits det) env (ppDeclarations (dePlan det)) start_progress = (st, None)"
    and ids: "identities_ok (pgIdentities st)"
    and dev: "\<And>f. f \<in> {ProbeIdentityManufacturer, ProbeIdentityModel, ProbeIdentityFirmware}
      \<Longrightarrow> device_of (pgIdentities st) f = device f"
    using device_identities [OF assms(1-3)] by metis
  have "matches allow (device_of (pgIdentities st)) = matches allow device"
    by (rule ext) (simp add: matches_def dev)
  then have same: "matching det allow (device_of (pgIdentities st)) = matching det allow device"
    by (simp add: matching_def)
  have d: "d = decide det (pgIdentities st) allow" and r: "\<not> cancelled" "requests = pgRequests st"
    using assms(5) run by (auto simp: Detect_def finalizeDecision_def split: sum.splits)
  have "pgRequests st = map probeRequest (ppDeclarations (dePlan det))"
    using run_probes_requests [OF run] by (auto simp: start_progress_def)
  moreover have "version_valid (device_of (pgIdentities st) ProbeIdentityFirmware)"
    using assms(4) dev by simp
  ultimately show ?thesis
    using decide_cases [OF assms(1) ids, of allow] r unfolding d same by blast
qed

text \<open>C25: a detection ends after at most the three reads of its plan, in the plan's order, and stops at
  the first answer it cannot use; every read it asks for is a legal one of a holding or input
  register range within the limits of the detector, and nothing but a complete walk can select or
  find a profile ambiguous.\<close>

theorem detection_follows_its_plan:
  assumes "NewProfileDetector pl spec = Inr det"
  shows "(\<exists>k \<le> 3. fst (Detect pl (Some det) (Some env) allow) = map probeRequest (take k (ppDeclarations (dePlan det)))
      \<and> (ddOutcome (detected det env allow) \<noteq> DetectionNoMatch \<longrightarrow> k = 3))
    \<and> (\<forall>r \<in> set (fst (Detect pl (Some det) (Some env) allow)).
      prFunction r \<in> {ProbeReadHoldingRegisters, ProbeReadInputRegisters}
      \<and> 0 < prWordCount r \<and> unat (prWordCount r) \<le> unat (plMaxReadRegisters pl)
      \<and> unat (prAddress r) + unat (prWordCount r) \<le> 65536)
    \<and> (\<Sum>r \<leftarrow> fst (Detect pl (Some det) (Some env) allow). int (unat (prWordCount r)))
      \<le> dlMaxTotalWords (xsLimits spec)" (is "?order \<and> ?legal \<and> ?words")
proof -
  note a = detector_accepted [OF assms]
  note c = check_declarations_None [OF a(11)]
  have limits: "deLimits det = xsLimits spec" using NewProfileDetector_Inr [OF assms] by metis
  obtain st failure where run: "run_probes (deLimits det) env (ppDeclarations (dePlan det)) start_progress = (st, failure)"
    by (cases "run_probes (deLimits det) env (ppDeclarations (dePlan det)) start_progress")
  then obtain k where k: "k \<le> 3" "pgRequests st = map probeRequest (take k (ppDeclarations (dePlan det)))"
    "failure = None \<longrightarrow> k = 3"
    using run_probes_requests [OF run] a(9) by (auto simp: start_progress_def)
  have r: "fst (Detect pl (Some det) (Some env) allow) = map probeRequest (take k (ppDeclarations (dePlan det)))"
    using run k(2) by (simp add: Detect_def split: prod.split)
  have "failure \<noteq> None \<Longrightarrow> ddOutcome (detected det env allow) = DetectionNoMatch"
    using run by (auto simp: detected_def failureDecision_def decision_of_def)
  with r k have order: ?order by blast
  have w: "dlMaxWordsPerRead (deLimits det) \<le> int (unat (plMaxReadRegisters pl))"
    using a(8) by (auto simp: validateDetectionLimits_def split: if_splits)
  have legal: ?legal
  proof
    fix x assume "x \<in> set (fst (Detect pl (Some det) (Some env) allow))"
    then obtain d where d: "x = probeRequest d" "d \<in> set (ppDeclarations (dePlan det))"
      unfolding r by (auto dest: in_set_takeD)
    note b = bspec [OF c(5) d(2)]
    then have "int (unat (pbWordCount d)) \<le> int (unat (plMaxReadRegisters pl))" using w by linarith
    then have "unat (pbWordCount d) \<le> unat (plMaxReadRegisters pl)" by (simp only: of_nat_le_iff)
    then show "prFunction x \<in> {ProbeReadHoldingRegisters, ProbeReadInputRegisters}
      \<and> 0 < prWordCount x \<and> unat (prWordCount x) \<le> unat (plMaxReadRegisters pl)
      \<and> unat (prAddress x) + unat (prWordCount x) \<le> 65536"
      using b d(1) by (simp add: probeRequest_def validProbeFunction_def)
  qed
  have "(\<Sum>d \<leftarrow> take k (ppDeclarations (dePlan det)). int (unat (pbWordCount d)))
      \<le> (\<Sum>d \<leftarrow> ppDeclarations (dePlan det). int (unat (pbWordCount d)))"
  proof -
    have "(\<Sum>d \<leftarrow> take k ds. int (unat (pbWordCount d))) \<le> (\<Sum>d \<leftarrow> ds. int (unat (pbWordCount d)))" for ds
    proof (induction ds arbitrary: k)
      case (Cons d ds)
      have "0 \<le> (\<Sum>d \<leftarrow> ds. int (unat (pbWordCount d)))" by (rule sum_list_nonneg) auto
      with Cons show ?case by (cases k) simp_all
    qed simp
    then show ?thesis .
  qed
  moreover have "ppDeclarations (dePlan det) \<noteq> []" using a(9) by auto
  ultimately have ?words using c(6) limits unfolding r by (simp add: probeRequest_def comp_def)
  then show ?thesis using order legal by blast
qed

lemma mset_map_lift: "mset ys = mset (map f xs) \<Longrightarrow> \<exists>zs. mset zs = mset xs \<and> map f zs = ys"
proof (induction ys arbitrary: xs)
  case Nil
  then show ?case by simp
next
  case (Cons y ys)
  then have "y \<in> set (map f xs)" by (metis list.set_intros(1) mset_eq_setD)
  then obtain x where x: "x \<in> set xs" "f x = y" by auto
  obtain rs where "rs = remove1 x xs" by blast
  with x(1) have rs: "mset xs = add_mset x (mset rs)" by simp
  then have "mset ys = mset (map f rs)" using Cons.prems x(2) by simp
  then obtain zs where "mset zs = mset rs" "map f zs = ys" using Cons.IH by blast
  then show ?case using x(2) rs by (intro exI [of _ "x # zs"]) simp
qed

text \<open>The order in which the candidates are declared does not matter: any permutation of the
  candidates of an accepted specification is accepted and gives the same detector.\<close>

theorem candidate_order_is_irrelevant:
  assumes "NewProfileDetector pl spec = Inr det" and "mset cs = mset (xsCandidates spec)"
  shows "NewProfileDetector pl (spec\<lparr>xsCandidates := cs\<rparr>) = Inr det"
proof -
  let ?byID = "by_id (List.map_filter id (Profiles pl (xsCatalog spec)))"
  obtain bs where bs: "bind_candidates pl spec ?byID [] (xsCandidates spec) = Inr bs"
    and det: "deCandidates det = sort_by bound_before bs"
    using NewProfileDetector_Inr [OF assms(1)] by metis
  note b = bs [unfolded bind_candidates_iff]
  obtain zs where zs: "mset zs = mset bs" "map bcCandidate zs = cs"
    using mset_map_lift [of cs bcCandidate bs] assms(2) b by auto
  have same: "set zs = set bs" using zs(1) by (rule mset_eq_setD)
  have "mset (map dcProfileID cs) = mset (map dcProfileID (xsCandidates spec))" using assms(2) by simp
  from mset_eq_imp_distinct_iff [OF this] have "distinct (map dcProfileID cs)" using b by simp
  then have bound: "bind_candidates pl (spec\<lparr>xsCandidates := cs\<rparr>) ?byID [] cs = Inr zs"
    unfolding bind_candidates_iff using zs(2) b same by (simp add: candidate_bound_to_def)
  have key: "gm_get ?byID k = Some p \<Longrightarrow> pfID p = k" for k p
    using by_id_get [of _ "[]" k p] by (fastforce simp: by_id_def gm.get_empty)
  have "map (\<lambda>b. pfID (bcProfile b)) bs = map dcProfileID (map bcCandidate bs)"
    using bind_candidates_Inr(2) [OF bs key] by (simp add: bound_ok_def)
  then have d: "distinct (map (\<lambda>b. pfID (bcProfile b)) bs)" using b by simp
  have "mset (map (\<lambda>b. pfID (bcProfile b)) zs) = mset (map (\<lambda>b. pfID (bcProfile b)) bs)"
    using zs(1) by simp
  from mset_eq_imp_distinct_iff [OF this] have e: "distinct (map (\<lambda>b. pfID (bcProfile b)) zs)" using d by simp
  have sorted: "sort_by bound_before zs = sort_by bound_before bs"
    by (rule bound_sort.order_irrelevant [OF e same d])
  have len: "length cs = length (xsCandidates spec)" using assms(2) by (metis size_mset)
  then show ?thesis
    using assms(1) bs bound sorted len
    by (auto simp: NewProfileDetector_def Let_def split: option.splits if_splits sum.splits)
qed

text \<open>The same detector with other scores.\<close>

definition rescore :: "(bound_candidate \<Rightarrow> u32) \<Rightarrow> profile_detector \<Rightarrow> profile_detector" where
  "rescore f det = det\<lparr>deCandidates :=
     map (\<lambda>b. b\<lparr>bcCandidate := (bcCandidate b)\<lparr>dcScore := f b\<rparr>\<rparr>) (deCandidates det)\<rparr>"

definition decision_core :: "detection_decision \<Rightarrow> string \<times> string \<times> string \<times> version \<times> (string \<times> string) list" where
  "decision_core d = (ddOutcome d, ddReason d, ddSelectedProfileID d, ddSelectedProfileVersion d,
     map (\<lambda>e. (ceProfileID e, ceReason e)) (ddEvidence d))"

definition without_score :: "candidate_evidence \<Rightarrow> candidate_evidence" where
  "without_score e = e\<lparr>ceScore := 0\<rparr>"

lemma without_score_simps [simp]:
  "ceReason (without_score e) = ceReason e" "ceProfileID (without_score e) = ceProfileID e"
  "ceProfileVersion (without_score e) = ceProfileVersion e"
  by (simp_all add: without_score_def)

lemma rescored_evidence:
  "without_score (evaluateCandidate (b\<lparr>bcCandidate := (bcCandidate b)\<lparr>dcScore := s\<rparr>\<rparr>) m allow)
     = without_score (evaluateCandidate b m allow)"
  by (simp add: evaluateCandidate_def candidateEligibilityReason_def bare_evidence_def with_gate_def
      without_score_def Let_def split: sum.split)

lemma mark_without_score: "without_score (mark_multiple e) = mark_multiple (without_score e)"
  by (simp add: mark_multiple_def without_score_def)

definition conclude :: "profile_detector \<Rightarrow> candidate_evidence list \<Rightarrow> detection_decision" where
  "conclude det evidence =
     (let matched = filter (\<lambda>e. ceReason e = DetectionReasonSelected) evidence in
      if matched = [] then decision_of det DetectionNoMatch (noMatchReason evidence) [] [] evidence
      else if length matched > 1 then
        decision_of det DetectionAmbiguous DetectionReasonMultipleMatches [] [] (map mark_multiple evidence)
      else decision_of det DetectionMatched DetectionReasonSelected (ceProfileID (hd matched))
             (ceProfileVersion (hd matched)) evidence)"

lemma decide_alt:
  "decide det m allow =
     (case ParseVersion (diValue (identity_of m ProbeIdentityFirmware)) of
        Inl _ \<Rightarrow> failureDecision det DetectionReasonInvalidIdentity
      | Inr _ \<Rightarrow> conclude det (map (\<lambda>b. evaluateCandidate b m allow) (deCandidates det)))"
  unfolding decide_def conclude_def mark_multiple_def [abs_def] Let_def by (rule refl)

lemma noMatchReason_without_score: "noMatchReason (map without_score es) = noMatchReason es"
  by (simp add: noMatchReason_def list_ex_iff)

lemma conclude_core: "decision_core (conclude det es) = decision_core (conclude det' (map without_score es))"
proof -
  obtain M where M: "M = filter (\<lambda>e. ceReason e = DetectionReasonSelected) es" by blast
  have "filter (\<lambda>e. ceReason e = DetectionReasonSelected) (map without_score es) = map without_score M"
    by (simp add: M filter_map comp_def)
  moreover have "map mark_multiple (map without_score es) = map without_score (map mark_multiple es)"
    by (simp add: mark_without_score)
  ultimately show ?thesis
    unfolding conclude_def Let_def noMatchReason_without_score M [symmetric]
    by (cases M) (simp_all add: decision_core_def decision_of_def comp_def)
qed

lemma failure_core:
  assumes "map (\<lambda>b. pfID (bcProfile b)) (deCandidates det) = map (\<lambda>b. pfID (bcProfile b)) (deCandidates det')"
  shows "decision_core (failureDecision det r) = decision_core (failureDecision det' r)"
  using arg_cong [OF assms, of "map (\<lambda>i. (i, r))"]
  by (simp add: failureDecision_def decision_core_def decision_of_def baseEvidence_def bare_evidence_def comp_def)

lemma rescored_core:
  "decision_core (decide (rescore f det) m allow) = decision_core (decide det m allow)"
proof -
  let ?es = "\<lambda>d. map (\<lambda>b. evaluateCandidate b m allow) (deCandidates d)"
  have "map without_score (?es (rescore f det)) = map without_score (?es det)"
    by (simp add: rescore_def comp_def rescored_evidence)
  then have "decision_core (conclude (rescore f det) (?es (rescore f det))) = decision_core (conclude det (?es det))"
    using conclude_core [of "rescore f det" "?es (rescore f det)" det] conclude_core [of det "?es det" det] by simp
  moreover have "decision_core (failureDecision (rescore f det) r) = decision_core (failureDecision det r)" for r
    by (rule failure_core) (simp add: rescore_def comp_def)
  ultimately show ?thesis unfolding decide_alt by (simp split: sum.split)
qed

text \<open>No evidence is ever ranked.\<close>

lemma never_ranked:
  "e \<in> set (ddEvidence (decide det m allow)) \<Longrightarrow> ceReason e \<notin> {DetectionReasonEqualBest, DetectionReasonLowerScore}"
  "r \<in> set gateless_reasons \<Longrightarrow> e \<in> set (ddEvidence (failureDecision det r))
      \<Longrightarrow> ceReason e \<notin> {DetectionReasonEqualBest, DetectionReasonLowerScore}"
proof -
  have judged: "ceReason (evaluateCandidate b m allow) \<notin> {DetectionReasonEqualBest, DetectionReasonLowerScore}" for b m
    by (auto simp: evaluateCandidate_def candidateEligibilityReason_def Let_def with_gate_def probe_consts
        split: sum.splits if_splits)
  show failed: "r \<in> set gateless_reasons \<Longrightarrow> e \<in> set (ddEvidence (failureDecision det r))
      \<Longrightarrow> ceReason e \<notin> {DetectionReasonEqualBest, DetectionReasonLowerScore}" for r
    using gateless_reason(3) [of r]
    by (auto simp: failureDecision_def decision_of_def baseEvidence_def bare_evidence_def)
  have marked: "ceReason (mark_multiple x) \<in> {ceReason x, DetectionReasonMultipleMatches}" for x
    by (simp add: mark_multiple_def)
  have "e \<in> set (ddEvidence (conclude det es)) \<Longrightarrow>
      \<exists>x \<in> set es. ceReason e \<in> {ceReason x, DetectionReasonMultipleMatches}" for es
    using marked by (auto simp: conclude_def decision_of_def Let_def split: if_splits)
  moreover have "DetectionReasonInvalidIdentity \<in> set gateless_reasons" by (simp add: gateless_reasons_def)
  ultimately show "e \<in> set (ddEvidence (decide det m allow))
      \<Longrightarrow> ceReason e \<notin> {DetectionReasonEqualBest, DetectionReasonLowerScore}"
    using failed judged unfolding decide_alt by (fastforce split: sum.splits)
qed

text \<open>C32: scores decide nothing. Whatever scores the candidates of a detector have, every detection has
  the same outcome, the same selection and the same reasons, and no candidate is ever ranked: the
  reasons for an equal or a lower score are not produced. The documentation describes a ranking in
  which only equal highest scores are ambiguous.\<close>

theorem scores_never_decide:
  "decision_core (detected (rescore f det) env allow) = decision_core (detected det env allow)
   \<and> (\<forall>e \<in> set (ddEvidence (detected det env allow)).
        ceReason e \<notin> {DetectionReasonEqualBest, DetectionReasonLowerScore})"
proof -
  have same: "deLimits (rescore f det) = deLimits det" "dePlan (rescore f det) = dePlan det"
    by (simp_all add: rescore_def)
  have "decision_core (failureDecision (rescore f det) r) = decision_core (failureDecision det r)" for r
    by (rule failure_core) (simp add: rescore_def comp_def)
  then have "decision_core (detected (rescore f det) env allow) = decision_core (detected det env allow)"
    using rescored_core by (simp add: detected_def same split: prod.split option.split)
  moreover obtain st failure where
    run: "run_probes (deLimits det) env (ppDeclarations (dePlan det)) start_progress = (st, failure)"
    by (cases "run_probes (deLimits det) env (ppDeclarations (dePlan det)) start_progress")
  have "\<forall>e \<in> set (ddEvidence (detected det env allow)).
        ceReason e \<notin> {DetectionReasonEqualBest, DetectionReasonLowerScore}"
  proof (cases failure)
    case None
    then show ?thesis using never_ranked(1) run by (simp add: detected_def)
  next
    case (Some x)
    then obtain r c where "failure = Some (r, c)" by (cases x) auto
    with run show ?thesis
      using never_ranked(2) [OF run_probes_failure] by (simp add: detected_def)
  qed
  ultimately show ?thesis by blast
qed

section \<open>The round trip of a decision\<close>

lemma check_gates_limits:
  "dlMaxEvidenceIDBytes l = dlMaxEvidenceIDBytes l' \<Longrightarrow> check_gates l r seen fs ids = check_gates l' r seen fs ids"
  by (induction l r seen fs ids rule: check_gates.induct) auto

lemma tally_limits:
  assumes "dlMaxEvidenceIDBytes l = dlMaxEvidenceIDBytes l'" and "dlMaxPlanDeclarations l = dlMaxPlanDeclarations l'"
  shows "tally_evidence l overall known es t = tally_evidence l' overall known es t"
proof -
  have "validateDetectionEvidence e l = validateDetectionEvidence e l'" for e
    using check_gates_limits [OF assms(1)] assms(2) by (simp add: validateDetectionEvidence_def)
  then show ?thesis by (induction es arbitrary: known t) (auto split: option.split sum.split)
qed

lemma decision_limits:
  assumes "validateDetectionDecision pl d l = None" and "validateDetectionLimits pl l' = None"
    and "dlMaxEvidenceIDBytes l = dlMaxEvidenceIDBytes l'" and "dlMaxPlanDeclarations l = dlMaxPlanDeclarations l'"
  shows "validateDetectionDecision pl (d\<lparr>ddMaxDecisionBytes := n\<rparr>) l' = None"
proof -
  have "check_outcome (d\<lparr>ddMaxDecisionBytes := n\<rparr>) t = check_outcome d t" for t
    by (simp add: check_outcome_def selected_found_def)
  then show ?thesis
    using assms(1,2) tally_limits [OF assms(3,4)]
    by (auto simp: validateDetectionDecision_def split: option.splits if_splits sum.splits)
qed

lemma tallied_valid:
  "tally_evidence l overall known es t = Inr t' \<Longrightarrow> \<forall>e \<in> set es. validateDetectionEvidence e l = None"
  by (induction es arbitrary: known t) (auto split: option.splits if_splits sum.splits)

lemma evidence_from_dto:
  assumes "validateDetectionEvidence e l = None"
  shows "detectionEvidenceFromDTO (evidence_to_dto e) = Inr e"
  using assms
  by (simp add: validateDetectionEvidence_def detectionEvidenceFromDTO_def evidence_to_dto_def ParseVersion_def
      version_valid_def split: if_splits)

lemma validate_all_map: "\<forall>x \<in> set xs. f (g x) = Inr x \<Longrightarrow> validate_all f (map g xs) = Inr xs"
  by (induction xs) auto

lemma ordered_sorted: "validEvidenceOrder es \<Longrightarrow> slice_is_sorted evidence_before es"
proof (induction es rule: validEvidenceOrder.induct)
  case (1 a b es)
  then have "ceProfileID b \<noteq> ceProfileID a" "\<not> str_less (ceProfileID b) (ceProfileID a)"
    using str_less_asym by auto
  with 1 show ?case by (simp add: evidence_before_def)
qed simp_all

lemma limits_update:
  "validateDetectionLimits pl (l\<lparr>dlMaxDecisionBytes := n\<rparr>) = None \<Longrightarrow> 0 < dlMaxDecisionBytes l
     \<Longrightarrow> dlMaxDecisionBytes l \<le> int MaxSerializedContractBytes \<Longrightarrow> validateDetectionLimits pl l = None"
  by (auto simp: validateDetectionLimits_def split: if_splits)

text \<open>C31: a decision that was written can be read back: the transfer record of every marshalled
  decision is accepted again by the rest of the reader and gives the same decision, with the byte
  limit of the contract in place of the detector's.\<close>

theorem decision_round_trips:
  assumes "MarshalDetectionDecision pl d = Inr encoded"
    and "ddSelectedProfileVersion d = [] \<or> version_valid (ddSelectedProfileVersion d)"
  shows "encoded = decision_dto_json (detectionDecisionToDTO d)
    \<and> decision_from_dto pl (detectionDecisionToDTO d)
        = Inr (d\<lparr>ddMaxDecisionBytes := int MaxSerializedContractBytes\<rparr>)"
proof -
  let ?def = "DefaultDetectionLimits pl" and ?n = "int MaxSerializedContractBytes"
  let ?d = "d\<lparr>ddMaxDecisionBytes := ?n\<rparr>"
  obtain l where l: "l = (if ddMaxDecisionBytes d > 0 then ?def\<lparr>dlMaxDecisionBytes := ddMaxDecisionBytes d\<rparr> else ?def)"
    by blast
  have v: "validateDetectionDecision pl d l = None"
    and m: "marshal_bounded (decision_dto_agg (detectionDecisionToDTO d))
      (decision_dto_json (detectionDecisionToDTO d)) = Some encoded"
    using assms(1) unfolding MarshalDetectionDecision_def Let_def l [symmetric]
    by (auto split: option.splits if_splits)
  have same: "dlMaxEvidenceIDBytes l = dlMaxEvidenceIDBytes ?def" "dlMaxPlanDeclarations l = dlMaxPlanDeclarations ?def"
    by (simp_all add: l)
  have "validateDetectionLimits pl l = None" using v by (auto simp: validateDetectionDecision_def split: option.splits)
  moreover have "0 < dlMaxDecisionBytes ?def" "dlMaxDecisionBytes ?def \<le> ?n"
    by (simp_all add: DefaultDetectionLimits_def contract_consts)
  ultimately have def_ok: "validateDetectionLimits pl ?def = None" using limits_update l by metis
  have "?def\<lparr>dlMaxDecisionBytes := ?n\<rparr> = ?def" by (simp add: DefaultDetectionLimits_def)
  then have v': "validateDetectionDecision pl ?d (?def\<lparr>dlMaxDecisionBytes := ?n\<rparr>) = None"
    "validateDetectionDecision pl ?d ?def = None"
    using decision_limits [OF v def_ok same] by simp_all
  have enc: "encoded = decision_dto_json (detectionDecisionToDTO d)" "length encoded \<le> MaxSerializedContractBytes"
    using m by (auto simp: marshal_bounded_def split: if_splits)
  have dto: "detectionDecisionToDTO ?d = detectionDecisionToDTO d" by (simp add: detectionDecisionToDTO_def)
  have "0 < ?n" by (simp add: contract_consts)
  then have marsh: "MarshalDetectionDecision pl ?d = Inr encoded"
    unfolding MarshalDetectionDecision_def dto using v' m enc(2) by (simp add: Let_def)
  obtain t where t: "tally_evidence l (ddReason d) None (ddEvidence d) empty_tally = Inr t"
    and ord: "validEvidenceOrder (ddEvidence d)"
    using v by (auto simp: validateDetectionDecision_def split: option.splits if_splits sum.splits)
  have ev: "validate_all detectionEvidenceFromDTO (map evidence_to_dto (ddEvidence d)) = Inr (ddEvidence d)"
    using tallied_valid [OF t] evidence_from_dto by (intro validate_all_map) blast
  have sv: "ParseVersion ''1.0.0'' = Inr schemaVersionV1"
    using version_1_0_0 by (simp add: ParseVersion_Inr schemaVersionV1_def)
  have "\<not> version_valid []" by (simp add: version_valid_def versionPattern_def split_on.simps)
  then have sel: "(if dtSelectedProfileVersion (detectionDecisionToDTO d) = [] then Inr []
      else ParseVersion (dtSelectedProfileVersion (detectionDecisionToDTO d))) = Inr (ddSelectedProfileVersion d)"
    using assms(2) by (auto simp: detectionDecisionToDTO_def ParseVersion_Inr)
  have eq: "\<lparr>ddOutcome = ddOutcome d, ddReason = ddReason d, ddSelectedProfileID = ddSelectedProfileID d,
      ddSelectedProfileVersion = ddSelectedProfileVersion d, ddEvidence = ddEvidence d, ddMaxDecisionBytes = ?n\<rparr> = ?d"
    by (cases d) simp
  have "decision_from_dto pl (detectionDecisionToDTO d) = Inr ?d"
    unfolding decision_from_dto_def dto_simps sv sum.case sel ev Let_def eq
    using v'(2) marsh enc(2) ordered_sorted [OF ord] by simp
  then show ?thesis using enc(1) by blast
qed

section \<open>Witnesses\<close>

definition example_plan :: probe_plan where
  "example_plan = \<lparr>ppVersion = ''1.0.0'', ppDeclarations =
     [\<lparr>pbID = ''maker'', pbFunction = ProbeReadHoldingRegisters, pbAddress = 0, pbWordCount = 2,
       pbIdentityField = ProbeIdentityManufacturer, pbEncoding = ProbeIdentityASCII\<rparr>,
      \<lparr>pbID = ''model'', pbFunction = ProbeReadHoldingRegisters, pbAddress = 2, pbWordCount = 1,
       pbIdentityField = ProbeIdentityModel, pbEncoding = ProbeIdentityASCII\<rparr>,
      \<lparr>pbID = ''firmware'', pbFunction = ProbeReadInputRegisters, pbAddress = 65533, pbWordCount = 3,
       pbIdentityField = ProbeIdentityFirmware, pbEncoding = ProbeIdentityASCII\<rparr>]\<rparr>"

definition example_candidate :: detection_candidate where
  "example_candidate = \<lparr>dcProfileID = ''family'', dcProfileVersion = ''1.0.0'', dcScore = 1,
     dcEnabled = True, dcFixtureOnly = False, dcManufacturer = ''ACME'', dcModel = ''M1'',
     dcMinimumInclusive = ''1.0.0'', dcMaximumExclusive = ''2.0.0''\<rparr>"

definition example_detector_spec :: detector_spec where
  "example_detector_spec = \<lparr>xsVersion = ''1.0.0'', xsPlan = example_plan,
     xsCatalog = [example_profile, example_overlay], xsCandidates = [example_candidate],
     xsLimits = DefaultDetectionLimits example_platform\<rparr>"

definition example_detector :: profile_detector where
  "example_detector = \<lparr>deVersion = ''1.0.0'', dePlan = example_plan,
     deCandidates = [\<lparr>bcCandidate = example_candidate, bcProfile = example_profile\<rparr>],
     deLimits = DefaultDetectionLimits example_platform\<rparr>"

lemma example_limits: "DefaultDetectionLimits example_platform =
  \<lparr>dlMaxPlanDeclarations = 3, dlMaxReads = 3, dlMaxWordsPerRead = 125, dlMaxTotalWords = 375,
   dlMaxIdentityBytes = 256, dlMaxEvidenceIDBytes = 256, dlMaxDecisionBytes = 4194304\<rparr>"
  by (simp add: DefaultDetectionLimits_def example_platform_def contract_consts)

lemma example_limits_valid:
  "validateDetectionLimits example_platform (DefaultDetectionLimits example_platform) = None"
  unfolding example_limits by (simp add: validateDetectionLimits_def example_platform_def contract_consts)

lemma version_2_0_0: "version_valid ''2.0.0'' \<and> version_valid ''1.2.0''"
  by (simp add: version_valid_def versionPattern_def numeral_part_def is_digit_def byte_at_def contract_consts)

lemma example_probe_plan_accepted:
  "NewProbePlan example_platform example_plan (DefaultDetectionLimits example_platform) = Inr example_plan"
proof -
  have "preflightAggregate [plan_agg example_plan] = None"
    unfolding preflightAggregate_def preflight_from_iff
    by (simp add: plan_agg_def declaration_agg_def example_plan_def example_agg_simps probe_consts)
  moreover have "check_declarations (DefaultDetectionLimits example_platform) [] [] 0 (ppDeclarations example_plan) = None"
    unfolding example_limits
    by (simp add: example_plan_def validProbeFunction_def validProbeIdentityField_def example_string_simps)
  ultimately show ?thesis
    using example_limits_valid version_1_0_0
    by (simp add: NewProbePlan_def) (simp add: example_limits example_plan_def)
qed

lemma example_candidate_accepted:
  "NewDetectionCandidate example_platform example_candidate (DefaultDetectionLimits example_platform)
     = Inr example_candidate"
proof -
  have "preflightAggregate [candidate_agg example_candidate] = None"
    unfolding preflightAggregate_def preflight_from_iff
    by (simp add: candidate_agg_def example_candidate_def example_agg_simps)
  moreover have "version_lt ''1.0.0'' ''2.0.0''"
    using version_1_0_0 version_2_0_0
    by (simp add: version_lt_iff) (simp add: version_key_def part_value_def digit_value_def byte_at_def)
  moreover have "validExpectedIdentity ''ACME'' 256" "validExpectedIdentity ''M1'' 256"
    by (simp_all add: validExpectedIdentity_def printable_def byte_at_def)
  moreover have "validIdentity ''family''" by (simp add: example_string_simps)
  ultimately show ?thesis
    using example_limits_valid version_1_0_0 version_2_0_0
    by (simp add: NewDetectionCandidate_def) (simp add: example_limits example_candidate_def)
qed

lemma example_profiles: "Profiles example_platform [example_profile, example_overlay]
    = [Some example_profile, Some example_overlay]"
  using example_profile_accepted example_overlay_accepted
    clone_built [OF accepted_profile_built [OF example_profile_accepted]]
    clone_built [OF accepted_profile_built [OF example_overlay_accepted]]
  by (simp add: Profiles_def)

lemma example_detector_accepted: "NewProfileDetector example_platform example_detector_spec = Inr example_detector"
proof -
  have id: "pfID example_profile = ''family''" "pfID example_overlay = ''overlay''"
    "pfVersion example_profile = ''1.0.0''" "pfDetectorVersion example_profile = ''1.0.0''"
    "pfQualificationVersion example_profile = ''1.0.0''"
    by (simp_all add: example_profile_def example_overlay_def)
  have cand: "dcProfileID example_candidate = ''family''" "dcProfileVersion example_candidate = ''1.0.0''"
    by (simp_all add: example_candidate_def)
  have listed: "List.map_filter id [Some example_profile, Some example_overlay] = [example_profile, example_overlay]"
    by simp
  have byid: "gm_get (by_id [example_profile, example_overlay]) ''family'' = Some example_profile"
    by (simp add: by_id_def id gm.get_put)
  have bind: "bind_candidates example_platform example_detector_spec
      (by_id [example_profile, example_overlay]) [] [example_candidate]
      = Inr [\<lparr>bcCandidate = example_candidate, bcProfile = example_profile\<rparr>]"
    using example_candidate_accepted version_1_0_0
    by (simp add: example_detector_spec_def cand byid id)
  have bound: "detectionDecisionUpperBound [\<lparr>bcCandidate = example_candidate, bcProfile = example_profile\<rparr>]
      example_plan (DefaultDetectionLimits example_platform) = None"
    unfolding example_limits
    by (simp add: detectionDecisionUpperBound_def candidate_bound_def id Let_def example_plan_def
        word_less_nat_alt)
  have plan: "ppVersion example_plan = ''1.0.0''"
    "list_all (\<lambda>f. f \<in> set (map pbIdentityField (ppDeclarations example_plan)))
       [ProbeIdentityManufacturer, ProbeIdentityModel, ProbeIdentityFirmware]"
    by (simp_all add: example_plan_def)
  have spec: "xsLimits example_detector_spec = DefaultDetectionLimits example_platform"
    "xsPlan example_detector_spec = example_plan" "xsVersion example_detector_spec = ''1.0.0''"
    "xsCatalog example_detector_spec = [example_profile, example_overlay]"
    "xsCandidates example_detector_spec = [example_candidate]"
    by (simp_all add: example_detector_spec_def)
  show ?thesis
    unfolding NewProfileDetector_def spec example_limits_valid example_probe_plan_accepted example_profiles Let_def listed
    using version_1_0_0 plan bind bound
    by (simp add: contract_consts example_detector_def)
qed

text \<open>The example device answers every read of the plan.\<close>

definition example_device :: "string \<Rightarrow> string" where
  "example_device f = (if f = ProbeIdentityManufacturer then ''ACME''
     else if f = ProbeIdentityModel then ''M1'' else ''1.2.0'')"

definition example_evidence_ids :: "string \<Rightarrow> string" where
  "example_evidence_ids f = (if f = ProbeIdentityManufacturer then ''e1''
     else if f = ProbeIdentityModel then ''e2'' else ''e3'')"

definition example_environment :: environment where
  "example_environment = \<lparr>enCancelledBefore = (\<lambda>_. False),
     enRead = (\<lambda>reqs. map_option (device_answer example_device example_evidence_ids)
       (find (\<lambda>d. probeRequest d = last reqs) (ppDeclarations example_plan))),
     enCancelledAfter = (\<lambda>_. False)\<rparr>"

lemma example_reads: "reads_device example_detector example_device example_evidence_ids example_environment"
  by (auto simp: reads_device_def example_environment_def example_detector_def example_plan_def probeRequest_def)

lemma example_evidence_valid: "validProbeEvidenceID (example_evidence_ids f) 256"
  by (simp add: example_evidence_ids_def validProbeEvidenceID_def example_string_simps)

lemma example_readable: "readable_by example_detector example_device example_evidence_ids"
  using example_evidence_valid
  by (auto simp: readable_by_def example_detector_def example_plan_def example_device_def Let_def
      example_limits printable_def byte_at_def inj_on_def example_evidence_ids_def)

lemma result_walk:
  assumes "length (rrStatus r) \<le> 20" and "length (rrEvidenceID r) \<le> 4096" and "length (rrWords r) < 65536"
  shows "preflightAggregate [result_agg r] = None"
proof -
  have words: "agg_cost (words_agg ws) = 16 + 40 * length ws" for ws
    by (induction ws) (simp_all add: words_agg_def)
  have "agg_shape (Suc (Suc 0)) (words_agg (rrWords r))"
    using assms(3) by (subst agg_shape.simps) (auto simp: words_agg_def contract_consts agg_shape.simps)
  moreover have "agg_shape (Suc (Suc 0)) AggInteger" by (simp add: agg_shape.simps contract_consts)
  ultimately have "agg_shape (Suc 0) (result_agg r)"
    using assms(1,2) by (subst agg_shape.simps)
      (simp add: result_agg_def skipped_field_def text_shape contract_consts)
  then show ?thesis
    unfolding preflightAggregate_def preflight_from_iff
    using assms by (simp add: result_agg_def skipped_field_def words string_agg_def contract_consts)
qed

lemma example_built: "results_built example_platform example_environment"
proof -
  have "NewProbeReadResult example_platform (device_answer example_device example_evidence_ids d)
      = Inr (device_answer example_device example_evidence_ids d)" if d: "d \<in> set (ppDeclarations example_plan)" for d
  proof -
    let ?r = "device_answer example_device example_evidence_ids d"
    have w: "rrStatus ?r = ProbeReadSucceeded" "rrExceptionCode ?r = 0"
      "validProbeEvidenceID (rrEvidenceID ?r) 256" "length (rrWords ?r) \<in> {1, 2, 3}"
      using d example_evidence_valid
      by (auto simp: device_answer_def Let_def example_plan_def example_device_def)
    then have "length (rrEvidenceID ?r) \<le> 4096" "length (rrStatus ?r) \<le> 20"
      by (simp_all add: validProbeEvidenceID_def probe_consts)
    moreover have "length (rrWords ?r) < 65536" "rrWords ?r \<noteq> []" using w(4) by auto
    ultimately show ?thesis
      using w result_walk [of ?r] by (auto simp: NewProbeReadResult_def example_limits Let_def)
  qed
  then show ?thesis
    by (fastforce simp: results_built_def example_environment_def find_Some_iff)
qed

lemma example_firmware: "version_valid (example_device ProbeIdentityFirmware)"
  using version_2_0_0 by (simp add: example_device_def)

lemma example_matching: "map (\<lambda>b. pfID (bcProfile b)) (matching example_detector False example_device) = [''family'']"
proof -
  have "firmware_in_range example_candidate ''1.2.0''"
    by (simp add: firmware_in_range_def example_candidate_def version_key_def part_value_def digit_value_def byte_at_def)
  then show ?thesis
    by (simp add: matching_def example_detector_def matches_def example_device_def)
      (simp add: example_candidate_def example_profile_def)
qed

lemma example_detection:
  "\<exists>requests cancelled. Detect example_platform (Some example_detector) (Some example_environment) False
     = (requests, Inr (detected example_detector example_environment False, cancelled))"
proof -
  have few: "length (xsCandidates example_detector_spec) = 1" by (simp add: example_detector_spec_def)
  obtain requests result where r: "Detect example_platform (Some example_detector) (Some example_environment) False
      = (requests, result)" by (cases "Detect example_platform (Some example_detector) (Some example_environment) False")
  then show ?thesis
    using detection_reports [OF example_detector_accepted example_built, of False] few
    by (cases result) auto
qed

theorem detection_is_always_reported_witness:
  "\<exists>d c. snd (Detect example_platform (Some example_detector) (Some example_environment) False) = Inr (d, c)"
proof -
  have "length (xsCandidates example_detector_spec) = 1" by (simp add: example_detector_spec_def)
  then show ?thesis
    using detection_is_always_reported [OF example_detector_accepted example_built, of False]
    by (auto split: sum.splits)
qed

theorem device_is_identified_witness:
  "\<exists>requests d. Detect example_platform (Some example_detector) (Some example_environment) False
       = (requests, Inr (d, False))
     \<and> length requests = 3 \<and> ddOutcome d = DetectionMatched \<and> ddSelectedProfileID d = ''family''"
proof -
  obtain requests d cancelled where r: "Detect example_platform (Some example_detector) (Some example_environment) False
      = (requests, Inr (d, cancelled))"
    using example_detection by blast
  obtain b where b: "matching example_detector False example_device = [b]" "pfID (bcProfile b) = ''family''"
    using example_matching by auto
  have "length (ppDeclarations (dePlan example_detector)) = 3"
    by (simp add: example_detector_def example_plan_def)
  then show ?thesis
    using device_is_identified [OF example_detector_accepted example_reads example_readable example_firmware r] r b
    by auto
qed

theorem detection_follows_its_plan_witness:
  "\<exists>k \<le> 3. fst (Detect example_platform (Some example_detector) (Some example_environment) False)
     = map probeRequest (take k (ppDeclarations example_plan))"
  using detection_follows_its_plan [OF example_detector_accepted, of example_environment False]
  by (auto simp: example_detector_def)

theorem candidate_order_is_irrelevant_witness:
  "NewProfileDetector example_platform (example_detector_spec\<lparr>xsCandidates := [example_candidate]\<rparr>) = Inr example_detector"
  using candidate_order_is_irrelevant [OF example_detector_accepted, of "[example_candidate]"]
  by (simp add: example_detector_spec_def)

lemma reportable_version:
  assumes "NewProfileDetector pl spec = Inr det" and "reportable pl det d"
  shows "ddSelectedProfileVersion d = [] \<or> version_valid (ddSelectedProfileVersion d)"
proof -
  obtain m where "list_all2 (evidence_shape m) (deCandidates det) (ddEvidence d)"
    using assms(2) by (auto simp: reportable_def)
  from shaped_evidence(5) [OF assms(1) this] show ?thesis using assms(2) by (auto simp: reportable_def)
qed

lemma example_marshalled:
  "\<exists>encoded. MarshalDetectionDecision example_platform (detected example_detector example_environment False)
     = Inr encoded"
proof (cases "MarshalDetectionDecision example_platform (detected example_detector example_environment False)")
  case (Inl e)
  then have "snd (Detect example_platform (Some example_detector) (Some example_environment) False)
      = Inl (DetectDecision e)"
    by (simp add: Detect_result finalizeDecision_def)
  then show ?thesis using example_detection by auto
qed simp

theorem decision_round_trips_witness:
  "\<exists>d. decision_from_dto example_platform (detectionDecisionToDTO d) = Inr d"
proof -
  let ?d = "detected example_detector example_environment False"
  let ?n = "int MaxSerializedContractBytes"
  obtain encoded where m: "MarshalDetectionDecision example_platform ?d = Inr encoded"
    using example_marshalled by blast
  have v: "ddSelectedProfileVersion ?d = [] \<or> version_valid (ddSelectedProfileVersion ?d)"
    by (rule reportable_version [OF example_detector_accepted detected_reportable [OF example_detector_accepted example_built]])
  have "detectionDecisionToDTO (?d\<lparr>ddMaxDecisionBytes := ?n\<rparr>) = detectionDecisionToDTO ?d"
    by (simp add: detectionDecisionToDTO_def)
  then have "decision_from_dto example_platform (detectionDecisionToDTO (?d\<lparr>ddMaxDecisionBytes := ?n\<rparr>))
      = Inr (?d\<lparr>ddMaxDecisionBytes := ?n\<rparr>)"
    using decision_round_trips [OF m v] by simp
  then show ?thesis by blast
qed

theorem scores_never_decide_witness:
  "decision_core (detected (rescore (\<lambda>_. 7) example_detector) example_environment False)
     = decision_core (detected example_detector example_environment False)
   \<and> list_all (\<lambda>e. \<not> (ceReason e = DetectionReasonEqualBest \<or> ceReason e = DetectionReasonLowerScore))
       (ddEvidence (detected example_detector example_environment False))"
  using scores_never_decide [of "\<lambda>_. 7" example_detector example_environment False]
  by (simp add: list_all_iff)

end
