(* ===== verification/Growatt_BMS.thy ===== *)
theory Growatt_BMS
  imports Logical_View
begin

text \<open>
  Growatt battery observations (\<^verbatim>\<open>growatt_bms_rs485.go\<close>, \<^verbatim>\<open>growatt_bms_rs485_typed.go\<close>,
  \<^verbatim>\<open>growatt_bms_rs485_multigroup.go\<close>, \<^verbatim>\<open>growatt_diagnostic_commit.go\<close>): the four register
  slices of a battery, their typed reading, the diagnostic of two cell groups that is admitted
  only beside a valid base, and the check that binds a diagnostic to the base it was read with.
  A \<^verbatim>\<open>float64\<close> of the code is the quotient of a register and a constant; it is kept as the two
  operands of that one division.
\<close>

section \<open>The read-only observation\<close>

record bms_revision =
  brFamily :: string
  brFileRevision :: string
  brHeaderVersion :: string
  brCumulativeRevision :: string

definition growattBMSExactRevision :: bms_revision where
  "growattBMSExactRevision = \<lparr>brFamily = ''1xSxxP ESS'', brFileRevision = ''Rev2.01'',
     brHeaderVersion = ''V2.0'', brCumulativeRevision = ''2.02''\<rparr>"

record bms_slice =
  slOffset :: u16
  slWords :: "u16 list"

record bms_input =
  biUnitID :: u8
  biFunction :: u8
  biRevision :: bms_revision
  biSlices :: "bms_slice list"

record bms_observation =
  boUnitID :: u8
  boRevision :: bms_revision
  boSlices :: "bms_slice list"

datatype growatt_error =
    BMSIdentity
  | BMSSliceCount
  | BMSSlice nat
  | TypedSlices
  | TypedByte
  | TypedTemperature
  | TypedState
  | MultiGroupIdentity
  | MultiGroupBase growatt_error
  | MultiGroupCount
  | MultiGroupSlice nat
  | MultiGroupExtents
  | MultiGroupEvidence

text \<open>The index of the first slice that differs from its expected offset or word count.\<close>

fun slice_mismatch :: "nat \<Rightarrow> (u16 \<times> nat) list \<Rightarrow> bms_slice list \<Rightarrow> nat option" where
  "slice_mismatch i ((offset, n) # want) (s # ss) =
     (if slOffset s \<noteq> offset \<or> length (slWords s) \<noteq> n then Some i else slice_mismatch (Suc i) want ss)"
| "slice_mismatch i _ _ = None"

definition bms_extents :: "(u16 \<times> nat) list" where
  "bms_extents = [(0x0001, 7), (0x000d, 29), (0x0100, 12), (0x010d, 2)]"

definition DecodeGrowattBMSReadOnlyObservation :: "bms_input \<Rightarrow> growatt_error + bms_observation" where
  "DecodeGrowattBMSReadOnlyObservation i =
     (if biUnitID i = 0 \<or> 247 < biUnitID i \<or> biFunction i \<noteq> FunctionReadHoldingRegisters
         \<or> biRevision i \<noteq> growattBMSExactRevision
      then Inl BMSIdentity
      else if length (biSlices i) \<noteq> length bms_extents then Inl BMSSliceCount
      else (case slice_mismatch 0 bms_extents (biSlices i) of
          Some n \<Rightarrow> Inl (BMSSlice n)
        | None \<Rightarrow> Inr \<lparr>boUnitID = biUnitID i, boRevision = biRevision i, boSlices = biSlices i\<rparr>))"

section \<open>The typed status\<close>

datatype bms_state =
    GrowattBMSStateSoftStarting
  | GrowattBMSStateStandby
  | GrowattBMSStateCharging
  | GrowattBMSStateDischarging

type_synonym quotient = "int \<times> int"

record bms_status =
  bsNative :: "bms_observation option"
  bsRevision :: bms_revision
  bsMCUSoftwareVersion :: string
  bsGaugeVersion :: string
  bsBMSCompany :: u8
  bsBMSGeneration :: u8
  bsPackCompany :: u8
  bsPackGeneration :: u8
  bsOperatingState :: bms_state
  bsSOCPercent :: u8
  bsPackVoltageVolts :: quotient
  bsPackCurrentAmps :: quotient
  bsTemperatureCelsius :: int
  bsRemainingCapacityAmpHours :: quotient
  bsFullChargeCapacityAmpHours :: quotient
  bsCycleCount :: u16
  bsContinuousChargeSeconds :: u16
  bsCurrentCycleChargeAmpHours :: quotient
  bsAverageCellVoltageVolts :: quotient
  bsFloatingPackVoltageVolts :: quotient
  bsCumulativeChargeAmpHours :: quotient
  bsCumulativeDischargeAmpHours :: quotient

definition zero_revision :: bms_revision where
  "zero_revision = \<lparr>brFamily = '''', brFileRevision = '''', brHeaderVersion = '''',
     brCumulativeRevision = ''''\<rparr>"

definition zero_observation :: bms_observation where
  "zero_observation = \<lparr>boUnitID = 0, boRevision = zero_revision, boSlices = []\<rparr>"

definition NativeObservation :: "bms_status \<Rightarrow> bms_observation" where
  "NativeObservation st = (case bsNative st of None \<Rightarrow> zero_observation | Some o' \<Rightarrow> o')"

definition high_byte :: "u16 \<Rightarrow> u8" where
  "high_byte w = ucast (drop_bit 8 w)"

definition low_byte :: "u16 \<Rightarrow> u8" where
  "low_byte w = ucast w"

definition growattBMSByteVersion :: "u16 \<Rightarrow> string" where
  "growattBMSByteVersion w = dec (unat (drop_bit 8 w)) @ ''.'' @ dec (unat (low_byte w))"

definition growattBMSOperatingState :: "u8 \<Rightarrow> bms_state option" where
  "growattBMSOperatingState bits =
     (let b = bits AND 3 in
      if b = 0 then Some GrowattBMSStateSoftStarting
      else if b = 1 then Some GrowattBMSStateStandby
      else if b = 2 then Some GrowattBMSStateCharging
      else if b = 3 then Some GrowattBMSStateDischarging
      else None)"

definition words_at :: "(u16, u16 list) gomap \<Rightarrow> u16 \<Rightarrow> u16 list" where
  "words_at m k = (case gm_get m k of None \<Rightarrow> [] | Some ws \<Rightarrow> ws)"

definition slice_map :: "bms_slice list \<Rightarrow> (u16, u16 list) gomap" where
  "slice_map ss = fold (\<lambda>s m. gm_put (slOffset s) (slWords s) m) ss []"

definition typed_status :: "bms_observation \<Rightarrow> u16 list \<Rightarrow> u16 list \<Rightarrow> u16 list \<Rightarrow> bms_state \<Rightarrow> bms_status" where
  "typed_status ob identity status extension state =
     \<lparr>bsNative = Some ob,
      bsRevision = boRevision ob,
      bsMCUSoftwareVersion = growattBMSByteVersion (identity ! 0),
      bsGaugeVersion = growattBMSByteVersion (identity ! 1),
      bsBMSCompany = low_byte (status ! 0),
      bsBMSGeneration = high_byte (status ! 0),
      bsPackCompany = low_byte (status ! 1),
      bsPackGeneration = high_byte (status ! 1),
      bsOperatingState = state,
      bsSOCPercent = low_byte (status ! 8),
      bsPackVoltageVolts = (uint (status ! 9), 100),
      bsPackCurrentAmps = (sint (status ! 10), 100),
      bsTemperatureCelsius = sint (status ! 11),
      bsRemainingCapacityAmpHours = (uint (status ! 13), 100),
      bsFullChargeCapacityAmpHours = (uint (status ! 14), 100),
      bsCycleCount = status ! 17,
      bsContinuousChargeSeconds = extension ! 0,
      bsCurrentCycleChargeAmpHours = (uint (extension ! 1), 10),
      bsAverageCellVoltageVolts = (uint (extension ! 2), 1000),
      bsFloatingPackVoltageVolts = (uint (extension ! 4), 10),
      bsCumulativeChargeAmpHours = (uint (extension ! 5), 10),
      bsCumulativeDischargeAmpHours = (uint (extension ! 6), 10)\<rparr>"

definition DecodeGrowattBMSTypedReadOnlyStatus :: "bms_input \<Rightarrow> growatt_error + bms_status" where
  "DecodeGrowattBMSTypedReadOnlyStatus i =
     (case DecodeGrowattBMSReadOnlyObservation i of
        Inl e \<Rightarrow> Inl e
      | Inr ob \<Rightarrow>
          (let m = slice_map (boSlices ob);
               identity = words_at m 0x0001;
               status = words_at m 0x000d;
               extension = words_at m 0x0100
           in
           if length identity \<noteq> 7 \<or> length status \<noteq> 29 \<or> length extension \<noteq> 12 then Inl TypedSlices
           else if drop_bit 8 (status ! 6) \<noteq> 0 \<or> drop_bit 8 (status ! 8) \<noteq> 0 \<or> 100 < low_byte (status ! 8)
           then Inl TypedByte
           else if sint (status ! 11) < -127 \<or> 127 < sint (status ! 11) then Inl TypedTemperature
           else (case growattBMSOperatingState (low_byte (status ! 6)) of
               None \<Rightarrow> Inl TypedState
             | Some state \<Rightarrow> Inr (typed_status ob identity status extension state))))"

section \<open>The diagnostic of two cell groups\<close>

record diagnostic_slice =
  dsUnitID :: u8
  dsRevision :: bms_revision
  dsFunction :: u8
  dsOffset :: u16
  dsSourceSliceOffset :: u16
  dsWords :: "u16 list"

record bms_diagnostic =
  bdRevision :: bms_revision
  bdBatteryID :: u8
  bdReportedGroupID :: u16
  bdCellVoltageGroups :: "(u16 \<times> u16 list) list"
  bdNativeBalanceStates :: "bool list"
  bdRawSlices :: "diagnostic_slice list"

definition diagnostic_extents :: "(u16 \<times> nat) list" where
  "diagnostic_extents = [(0x0070, 1), (0x0071, 16), (0x0081, 16)]"

definition growattBMSDiagnosticRawSlice :: "bms_input \<Rightarrow> u16 \<Rightarrow> u16 \<Rightarrow> u16 list \<Rightarrow> diagnostic_slice" where
  "growattBMSDiagnosticRawSlice i offset source ws =
     \<lparr>dsUnitID = biUnitID i, dsRevision = biRevision i, dsFunction = biFunction i, dsOffset = offset,
      dsSourceSliceOffset = source, dsWords = ws\<rparr>"

definition input_of :: "bms_observation \<Rightarrow> bms_input" where
  "input_of ob = \<lparr>biUnitID = boUnitID ob, biFunction = FunctionReadHoldingRegisters,
     biRevision = boRevision ob, biSlices = boSlices ob\<rparr>"

text \<open>\<^verbatim>\<open>copy\<close> into an array of sixteen words.\<close>

definition copy16 :: "u16 list \<Rightarrow> u16 list" where
  "copy16 ws = take 16 ws @ replicate (16 - length ws) 0"

definition diagnostic_of :: "bms_input \<Rightarrow> u16 \<Rightarrow> u16 \<Rightarrow> bms_diagnostic" where
  "diagnostic_of i identity balance =
     (let w = (\<lambda>k. slWords (biSlices i ! k)) in
      \<lparr>bdRevision = biRevision i,
       bdBatteryID = ucast (drop_bit 8 identity AND 0x3f),
       bdReportedGroupID = w 0 ! 0,
       bdCellVoltageGroups = [(0x0071, copy16 (w 1)), (0x0081, copy16 (w 2))],
       bdNativeBalanceStates = map (\<lambda>cell. balance AND push_bit cell 1 \<noteq> 0) [0..<16],
       bdRawSlices =
         [growattBMSDiagnosticRawSlice i 0x001f 0x000d [identity],
          growattBMSDiagnosticRawSlice i 0x0070 0x0070 (w 0),
          growattBMSDiagnosticRawSlice i 0x0071 0x0071 (w 1),
          growattBMSDiagnosticRawSlice i 0x0081 0x0081 (w 2),
          growattBMSDiagnosticRawSlice i 0x0109 0x0100 [balance]]\<rparr>)"

definition DecodeGrowattBMSMultiGroupDiagnostic :: "bms_status \<Rightarrow> bms_input \<Rightarrow> growatt_error + bms_diagnostic" where
  "DecodeGrowattBMSMultiGroupDiagnostic base i =
     (let ob = NativeObservation base in
      if bsNative base = None \<or> biUnitID i = 0 \<or> 247 < biUnitID i
         \<or> biFunction i \<noteq> FunctionReadHoldingRegisters \<or> biRevision i \<noteq> growattBMSExactRevision
         \<or> biUnitID i \<noteq> boUnitID ob \<or> biRevision i \<noteq> boRevision ob
      then Inl MultiGroupIdentity
      else (case DecodeGrowattBMSTypedReadOnlyStatus (input_of ob) of
          Inl e \<Rightarrow> Inl (MultiGroupBase e)
        | Inr _ \<Rightarrow>
            (if length (biSlices i) \<noteq> length diagnostic_extents then Inl MultiGroupCount
             else (case slice_mismatch 0 diagnostic_extents (biSlices i) of
                 Some n \<Rightarrow> Inl (MultiGroupSlice n)
               | None \<Rightarrow>
                   (let statusWords = slWords (boSlices ob ! 1);
                        extensionWords = slWords (boSlices ob ! 2)
                    in
                    if length statusWords \<noteq> 29 \<or> length extensionWords \<noteq> 12 then Inl MultiGroupExtents
                    else if statusWords ! 18 AND 0xc000 \<noteq> 0 then Inl MultiGroupEvidence
                    else Inr (diagnostic_of i (statusWords ! 18) (extensionWords ! 9)))))))"

section \<open>Binding a diagnostic to its base\<close>

record commit_identity =
  ciMCUVersion :: u16
  ciBMS :: u16
  ciPack :: u16
  ciTopology :: u16
  ciCellSeries :: u16

record commit_context =
  ccBaseRecordID :: string
  ccSourceInstance :: string
  ccEpoch :: u64
  ccCycle :: u64
  ccUnitID :: u8
  ccFunction :: u8
  ccRevision :: bms_revision
  ccNativeIdentity :: commit_identity

datatype commit_rejection =
    GrowattDiagnosticCommitInvalidBase
  | GrowattDiagnosticCommitInvalidContext
  | GrowattDiagnosticCommitContextMismatch
  | GrowattDiagnosticCommitTopologyChanged
  | GrowattDiagnosticCommitLineageChanged
  | GrowattDiagnosticCommitInvalidDiagnostic

record commit_base =
  cbContext :: commit_context
  cbBase :: bms_status

definition commit_identity_of :: "bms_slice list \<Rightarrow> commit_identity" where
  "commit_identity_of ss =
     \<lparr>ciMCUVersion = slWords (ss ! 0) ! 0, ciBMS = slWords (ss ! 1) ! 0, ciPack = slWords (ss ! 1) ! 1,
      ciTopology = slWords (ss ! 1) ! 18, ciCellSeries = slWords (ss ! 1) ! 28\<rparr>"

definition NewGrowattDiagnosticCommitBase :: "bms_status \<Rightarrow> commit_context \<Rightarrow> commit_rejection + commit_base" where
  "NewGrowattDiagnosticCommitBase base c =
     (let ob = NativeObservation base in
      case DecodeGrowattBMSTypedReadOnlyStatus (input_of ob) of
        Inl _ \<Rightarrow> Inl GrowattDiagnosticCommitInvalidBase
      | Inr decoded \<Rightarrow>
          (if ccBaseRecordID c = '''' \<or> ccSourceInstance c = '''' \<or> ccEpoch c = 0 \<or> ccCycle c = 0
              \<or> ccUnitID c \<noteq> boUnitID ob \<or> ccFunction c \<noteq> FunctionReadHoldingRegisters
              \<or> ccRevision c \<noteq> boRevision ob
           then Inl GrowattDiagnosticCommitInvalidContext
           else (let native = commit_identity_of (boSlices ob) in
             if ciTopology (ccNativeIdentity c) \<noteq> ciTopology native
             then Inl GrowattDiagnosticCommitTopologyChanged
             else if ccNativeIdentity c \<noteq> native then Inl GrowattDiagnosticCommitContextMismatch
             else Inr \<lparr>cbContext = c, cbBase = decoded\<rparr>)))"

record commit_candidate =
  caContext :: commit_context
  caBatteryID :: u8
  caReportedGroupWord :: u16
  caDiagnostic :: bms_diagnostic

text \<open>The zero base, which is not \<^verbatim>\<open>valid\<close>, is \<open>None\<close>.\<close>

definition CheckGrowattDiagnosticCommit ::
    "commit_base option \<Rightarrow> commit_context \<Rightarrow> u16 \<Rightarrow> bms_input \<Rightarrow> commit_rejection + commit_candidate" where
  "CheckGrowattDiagnosticCommit base c expected i =
     (case base of
        None \<Rightarrow> Inl GrowattDiagnosticCommitInvalidBase
      | Some b \<Rightarrow>
          (if ciTopology (ccNativeIdentity c) \<noteq> ciTopology (ccNativeIdentity (cbContext b))
           then Inl GrowattDiagnosticCommitTopologyChanged
           else if c \<noteq> cbContext b then Inl GrowattDiagnosticCommitContextMismatch
           else (case DecodeGrowattBMSMultiGroupDiagnostic (cbBase b) i of
               Inl _ \<Rightarrow> Inl GrowattDiagnosticCommitInvalidDiagnostic
             | Inr d \<Rightarrow>
                 (if bdReportedGroupID d \<noteq> expected then Inl GrowattDiagnosticCommitLineageChanged
                  else Inr \<lparr>caContext = cbContext b, caBatteryID = bdBatteryID d,
                            caReportedGroupWord = bdReportedGroupID d, caDiagnostic = d\<rparr>))))"

section \<open>What the decoders accept\<close>

definition native_of :: "bms_input \<Rightarrow> bms_observation" where
  "native_of i = \<lparr>boUnitID = biUnitID i, boRevision = biRevision i, boSlices = biSlices i\<rparr>"

lemma slice_mismatch_None:
  "length want = length ss \<Longrightarrow>
     slice_mismatch i want ss = None
     \<longleftrightarrow> list_all2 (\<lambda>(offset, n) s. slOffset s = offset \<and> length (slWords s) = n) want ss"
proof (induction want ss arbitrary: i rule: list_induct2)
  case Nil
  then show ?case by simp
next
  case (Cons w want s ss)
  then show ?case by (cases w) auto
qed

lemma DecodeGrowattBMSReadOnlyObservation_Inr:
  assumes "DecodeGrowattBMSReadOnlyObservation i = Inr ob"
  shows "ob = native_of i" and "biFunction i = FunctionReadHoldingRegisters"
    and "biRevision i = growattBMSExactRevision" and "biUnitID i \<noteq> 0" and "biUnitID i \<le> 247"
    and "list_all2 (\<lambda>(offset, n) s. slOffset s = offset \<and> length (slWords s) = n) bms_extents (biSlices i)"
  using assms slice_mismatch_None [of bms_extents "biSlices i" 0]
  by (auto simp: DecodeGrowattBMSReadOnlyObservation_def native_of_def split: if_splits option.splits)

lemma native_extents:
  assumes "DecodeGrowattBMSReadOnlyObservation i = Inr ob"
  obtains a b c d where "biSlices i = [\<lparr>slOffset = 0x0001, slWords = a\<rparr>, \<lparr>slOffset = 0x000d, slWords = b\<rparr>,
      \<lparr>slOffset = 0x0100, slWords = c\<rparr>, \<lparr>slOffset = 0x010d, slWords = d\<rparr>]"
    and "length a = 7" and "length b = 29" and "length c = 12" and "length d = 2"
proof -
  have "list_all2 (\<lambda>(offset, n) s. slOffset s = offset \<and> length (slWords s) = n) bms_extents (biSlices i)"
    using DecodeGrowattBMSReadOnlyObservation_Inr [OF assms] by simp
  then obtain s0 s1 s2 s3 where ss: "biSlices i = [s0, s1, s2, s3]"
    and w: "slOffset s0 = 0x0001" "length (slWords s0) = 7" "slOffset s1 = 0x000d" "length (slWords s1) = 29"
      "slOffset s2 = 0x0100" "length (slWords s2) = 12" "slOffset s3 = 0x010d" "length (slWords s3) = 2"
    by (auto simp: bms_extents_def list_all2_Cons1)
  show thesis
    by (rule that [of "slWords s0" "slWords s1" "slWords s2" "slWords s3"]) (use w in \<open>simp_all add: ss\<close>)
qed

lemma slice_words:
  assumes "DecodeGrowattBMSReadOnlyObservation i = Inr ob"
  shows "words_at (slice_map (boSlices ob)) 0x0001 = slWords (boSlices ob ! 0)"
    and "words_at (slice_map (boSlices ob)) 0x000d = slWords (boSlices ob ! 1)"
    and "words_at (slice_map (boSlices ob)) 0x0100 = slWords (boSlices ob ! 2)"
    and "length (slWords (boSlices ob ! 0)) = 7" and "length (slWords (boSlices ob ! 1)) = 29"
    and "length (slWords (boSlices ob ! 2)) = 12" and "length (boSlices ob) = 4"
proof -
  obtain a b c d where ss: "biSlices i = [\<lparr>slOffset = 0x0001, slWords = a\<rparr>, \<lparr>slOffset = 0x000d, slWords = b\<rparr>,
      \<lparr>slOffset = 0x0100, slWords = c\<rparr>, \<lparr>slOffset = 0x010d, slWords = d\<rparr>]"
    and ls: "length a = 7" "length b = 29" "length c = 12" "length d = 2"
    by (rule native_extents [OF assms])
  have ob: "boSlices ob = biSlices i"
    using DecodeGrowattBMSReadOnlyObservation_Inr(1) [OF assms] by (simp add: native_of_def)
  show "words_at (slice_map (boSlices ob)) 0x0001 = slWords (boSlices ob ! 0)"
    and "words_at (slice_map (boSlices ob)) 0x000d = slWords (boSlices ob ! 1)"
    and "words_at (slice_map (boSlices ob)) 0x0100 = slWords (boSlices ob ! 2)"
    and "length (slWords (boSlices ob ! 0)) = 7" and "length (slWords (boSlices ob ! 1)) = 29"
    and "length (slWords (boSlices ob ! 2)) = 12" and "length (boSlices ob) = 4"
    by (simp_all add: ob ss ls words_at_def slice_map_def go_map_simps)
qed

lemma operating_state_some: "\<exists>s. growattBMSOperatingState b = Some s"
proof -
  obtain x where x: "x = b AND 3" by blast
  have "b AND mask 2 < (4 :: u8)" using and_mask_less' [of 2 b] by simp
  moreover have "mask 2 = (3 :: u8)" by (simp add: mask_eq_exp_minus_1)
  ultimately have "unat x < 4" by (simp add: x word_less_nat_alt)
  then have "unat x = 0 \<or> unat x = 1 \<or> unat x = 2 \<or> unat x = 3" by linarith
  then have "x = 0 \<or> x = 1 \<or> x = 2 \<or> x = 3" by (simp add: word_unat_eq_iff)
  then have "b AND 3 = 0 \<or> b AND 3 = 1 \<or> b AND 3 = 2 \<or> b AND 3 = 3" by (simp add: x)
  then show ?thesis by (auto simp: growattBMSOperatingState_def)
qed

lemma DecodeGrowattBMSTypedReadOnlyStatus_Inr:
  assumes "DecodeGrowattBMSTypedReadOnlyStatus i = Inr st"
  shows "DecodeGrowattBMSReadOnlyObservation i = Inr (native_of i)" and "bsNative st = Some (native_of i)"
    and "NativeObservation st = native_of i"
proof -
  obtain ob where ob: "DecodeGrowattBMSReadOnlyObservation i = Inr ob"
    using assms by (auto simp: DecodeGrowattBMSTypedReadOnlyStatus_def split: sum.splits)
  with DecodeGrowattBMSReadOnlyObservation_Inr(1) [OF ob]
  show "DecodeGrowattBMSReadOnlyObservation i = Inr (native_of i)" by simp
  show "bsNative st = Some (native_of i)"
    using assms ob DecodeGrowattBMSReadOnlyObservation_Inr(1) [OF ob]
    by (auto simp: DecodeGrowattBMSTypedReadOnlyStatus_def Let_def typed_status_def
        split: if_splits option.splits)
  then show "NativeObservation st = native_of i" by (simp add: NativeObservation_def)
qed

lemma input_of_native: "biFunction i = FunctionReadHoldingRegisters \<Longrightarrow> input_of (native_of i) = i"
  by (simp add: input_of_def native_of_def)

text \<open>A decoded status is a function of the observation it keeps.\<close>

lemma typed_status_redecodes:
  assumes "DecodeGrowattBMSTypedReadOnlyStatus i = Inr st"
  shows "DecodeGrowattBMSTypedReadOnlyStatus (input_of (NativeObservation st)) = Inr st"
proof -
  note d = DecodeGrowattBMSTypedReadOnlyStatus_Inr [OF assms]
  have "biFunction i = FunctionReadHoldingRegisters" by (rule DecodeGrowattBMSReadOnlyObservation_Inr(2) [OF d(1)])
  then show ?thesis using assms d(3) by (simp add: input_of_native)
qed

end
