(* ===== verification/Growatt_Retention.thy ===== *)
theory Growatt_Retention
  imports Growatt_BMS
begin

text \<open>
  The lifecycle of an aggregate reading (\<^verbatim>\<open>growatt_aggregate_retention.go\<close>): the latest attempt,
  the last success and whether it still applies. Every operation holds the mutex for its whole
  body, so a run is a list of operations. Time is the caller's logical ticks. An operation returns
  the new state and its error; the state changes on some error paths too.
\<close>

section \<open>State\<close>

record aggregate_identity =
  aiMCUSoftwareVersion :: string
  aiBMSCompany :: u8
  aiBMSGeneration :: u8
  aiPackCompany :: u8
  aiPackGeneration :: u8
  aiTopology :: u16
  aiCellSeriesCount :: u16

record aggregate_context =
  acSourceInstance :: string
  acOwnerEpoch :: u64
  acUnitID :: u8
  acFunction :: u8
  acRevision :: bms_revision
  acIdentityKnown :: bool
  acIdentity :: aggregate_identity

text \<open>\<open>OutcomeNone\<close>, \<open>ReasonNone\<close> are the empty strings of the zero values.\<close>

datatype attempt_outcome = OutcomeNone | OutcomePending | OutcomeSuccess | OutcomeFailed | OutcomeIncomplete

datatype invalidation = ReasonNone | ContinuityUnknown | ContinuityChanged | IdentityConflict

datatype aggregate_applicability = StateAbsent | StateCurrent | StateRetained | StateInvalidated

record aggregate_attempt =
  aaContext :: aggregate_context
  aaCycle :: u64
  aaDeadline :: u64
  aaOutcome :: attempt_outcome

record retention =
  arMaxCycleTicks :: u64
  arTick :: u64
  arAttempt :: aggregate_attempt
  arStarted :: bool
  arApplicable :: bool
  arInvalidationReason :: invalidation
  arRevision :: u64
  arSuccessCycle :: u64
  arSuccessTick :: u64
  arSuccessContext :: aggregate_context
  arValue :: "bms_status option"

record aggregate_snapshot =
  asState :: aggregate_applicability
  asInvalidationReason :: invalidation
  asAttempt :: aggregate_attempt
  asSuccessRevision :: u64
  asSuccessCycle :: u64
  asSuccessTick :: u64
  asSuccessContext :: aggregate_context
  asValue :: "bms_status option"

datatype retention_error =
    CompletionBound
  | CycleContext
  | CycleNotNewer
  | NotActiveCycle
  | TickBackwards
  | ConflictingCompletion
  | CycleClosed
  | IdentityUnknown
  | ContextContradicts
  | IdentityContradicts
  | DecoderRefuses growatt_error
  | RevisionExhausted

definition zero_identity :: aggregate_identity where
  "zero_identity = \<lparr>aiMCUSoftwareVersion = '''', aiBMSCompany = 0, aiBMSGeneration = 0, aiPackCompany = 0,
     aiPackGeneration = 0, aiTopology = 0, aiCellSeriesCount = 0\<rparr>"

definition zero_context :: aggregate_context where
  "zero_context = \<lparr>acSourceInstance = '''', acOwnerEpoch = 0, acUnitID = 0, acFunction = 0,
     acRevision = zero_revision, acIdentityKnown = False, acIdentity = zero_identity\<rparr>"

definition zero_attempt :: aggregate_attempt where
  "zero_attempt = \<lparr>aaContext = zero_context, aaCycle = 0, aaDeadline = 0, aaOutcome = OutcomeNone\<rparr>"

definition NewGrowattAggregateRetention :: "u64 \<Rightarrow> retention_error + retention" where
  "NewGrowattAggregateRetention maxCycleTicks =
     (if maxCycleTicks = 0 then Inl CompletionBound
      else Inr \<lparr>arMaxCycleTicks = maxCycleTicks, arTick = 0, arAttempt = zero_attempt, arStarted = False,
        arApplicable = False, arInvalidationReason = ReasonNone, arRevision = 0, arSuccessCycle = 0,
        arSuccessTick = 0, arSuccessContext = zero_context, arValue = None\<rparr>)"

section \<open>Operations\<close>

definition growattAggregateBoundedRevision :: "bms_revision \<Rightarrow> bool" where
  "growattAggregateBoundedRevision v \<longleftrightarrow> length (brFamily v) \<le> 64 \<and> length (brFileRevision v) \<le> 64
     \<and> length (brHeaderVersion v) \<le> 64 \<and> length (brCumulativeRevision v) \<le> 64"

definition growattAggregateSameIdentity :: "aggregate_identity \<Rightarrow> aggregate_identity \<Rightarrow> bool" where
  "growattAggregateSameIdentity a b \<longleftrightarrow>
     aiMCUSoftwareVersion a = aiMCUSoftwareVersion b \<and> aiBMSCompany a = aiBMSCompany b
     \<and> aiBMSGeneration a = aiBMSGeneration b \<and> aiPackCompany a = aiPackCompany b
     \<and> aiPackGeneration a = aiPackGeneration b \<and> aiTopology a = aiTopology b
     \<and> aiCellSeriesCount a = aiCellSeriesCount b"

definition growattAggregateSameContext :: "aggregate_context \<Rightarrow> aggregate_context \<Rightarrow> bool" where
  "growattAggregateSameContext a b \<longleftrightarrow>
     acSourceInstance a = acSourceInstance b \<and> acOwnerEpoch a = acOwnerEpoch b
     \<and> acUnitID a = acUnitID b \<and> acFunction a = acFunction b
     \<and> brFamily (acRevision a) = brFamily (acRevision b)
     \<and> brFileRevision (acRevision a) = brFileRevision (acRevision b)
     \<and> brHeaderVersion (acRevision a) = brHeaderVersion (acRevision b)
     \<and> brCumulativeRevision (acRevision a) = brCumulativeRevision (acRevision b)
     \<and> acIdentityKnown a = acIdentityKnown b \<and> growattAggregateSameIdentity (acIdentity a) (acIdentity b)"

definition growattAggregateNativeIdentity :: "bms_observation \<Rightarrow> aggregate_identity" where
  "growattAggregateNativeIdentity ob =
     (let w = (\<lambda>i. slWords (boSlices ob ! i)) in
      \<lparr>aiMCUSoftwareVersion = growattBMSByteVersion (w 0 ! 0),
       aiBMSCompany = low_byte (w 1 ! 0), aiBMSGeneration = high_byte (w 1 ! 0),
       aiPackCompany = low_byte (w 1 ! 1), aiPackGeneration = high_byte (w 1 ! 1),
       aiTopology = w 1 ! 18, aiCellSeriesCount = w 1 ! 28\<rparr>)"

definition invalidate :: "invalidation \<Rightarrow> retention \<Rightarrow> retention" where
  "invalidate reason r = r\<lparr>arApplicable := False, arInvalidationReason := reason\<rparr>"

definition set_outcome :: "attempt_outcome \<Rightarrow> retention \<Rightarrow> retention" where
  "set_outcome oc r = r\<lparr>arAttempt := (arAttempt r)\<lparr>aaOutcome := oc\<rparr>\<rparr>"

definition Begin :: "aggregate_context \<Rightarrow> u64 \<Rightarrow> u64 \<Rightarrow> u64 \<Rightarrow> retention \<Rightarrow> retention \<times> retention_error outcome" where
  "Begin c cyc now deadline r =
     (if arMaxCycleTicks r = 0 \<or> acSourceInstance c = '''' \<or> 128 < length (acSourceInstance c)
         \<or> acOwnerEpoch c = 0 \<or> cyc = 0 \<or> 32 < length (aiMCUSoftwareVersion (acIdentity c))
         \<or> \<not> growattAggregateBoundedRevision (acRevision c)
         \<or> deadline \<le> now \<or> deadline - now > arMaxCycleTicks r \<or> now < arTick r
      then (r, Some CycleContext)
      else if arStarted r
         \<and> (acOwnerEpoch c < acOwnerEpoch (aaContext (arAttempt r))
            \<or> (acOwnerEpoch c = acOwnerEpoch (aaContext (arAttempt r)) \<and> cyc \<le> aaCycle (arAttempt r)))
      then (r, Some CycleNotNewer)
      else
        (let r1 = r\<lparr>arTick := now, arStarted := True,
               arAttempt := \<lparr>aaContext = c, aaCycle = cyc, aaDeadline = deadline, aaOutcome = OutcomePending\<rparr>\<rparr>
         in if \<not> acIdentityKnown c then (invalidate ContinuityUnknown r1, None)
            else if arValue r1 \<noteq> None \<and> \<not> growattAggregateSameContext c (arSuccessContext r1)
            then (invalidate ContinuityChanged r1, None)
            else (r1, None)))"

definition advance :: "u64 \<Rightarrow> retention \<Rightarrow> retention \<times> retention_error outcome" where
  "advance now r =
     (if now < arTick r then (r, Some TickBackwards)
      else
        (let r1 = r\<lparr>arTick := now\<rparr> in
         if arStarted r1 \<and> aaOutcome (arAttempt r1) = OutcomePending \<and> aaDeadline (arAttempt r1) \<le> now
         then (set_outcome OutcomeIncomplete r1, None)
         else (r1, None)))"

definition Advance :: "u64 \<Rightarrow> retention \<Rightarrow> retention \<times> retention_error outcome" where
  "Advance now r = advance now r"

definition callback :: "aggregate_context \<Rightarrow> u64 \<Rightarrow> u64 \<Rightarrow> retention \<Rightarrow> retention \<times> retention_error outcome" where
  "callback c cyc now r =
     (if \<not> arStarted r \<or> cyc \<noteq> aaCycle (arAttempt r)
         \<or> \<not> growattAggregateSameContext c (aaContext (arAttempt r))
      then (r, Some NotActiveCycle)
      else advance now r)"

definition same_slices :: "bms_slice list \<Rightarrow> bms_slice list \<Rightarrow> bool" where
  "same_slices raw ss \<longleftrightarrow> length ss = length raw
     \<and> list_all2 (\<lambda>s t. slOffset s = slOffset t \<and> slWords s = slWords t) raw ss"

definition sameInput :: "bms_input \<Rightarrow> retention \<Rightarrow> bool" where
  "sameInput i r =
     (case arValue r of
        None \<Rightarrow> False
      | Some st \<Rightarrow> biUnitID i = acUnitID (arSuccessContext r) \<and> biFunction i = acFunction (arSuccessContext r)
          \<and> biRevision i = acRevision (arSuccessContext r)
          \<and> same_slices (boSlices (NativeObservation st)) (biSlices i))"

definition context_contradicts :: "aggregate_context \<Rightarrow> bms_input \<Rightarrow> bool" where
  "context_contradicts c i \<longleftrightarrow> biSlices i \<noteq> []
     \<and> (biUnitID i \<noteq> acUnitID c \<or> biFunction i \<noteq> acFunction c \<or> biRevision i \<noteq> acRevision c)"

definition identity_contradicts :: "aggregate_context \<Rightarrow> bms_input \<Rightarrow> bool" where
  "identity_contradicts c i =
     (case DecodeGrowattBMSReadOnlyObservation i of
        Inl _ \<Rightarrow> False
      | Inr native \<Rightarrow> \<not> growattAggregateSameIdentity (growattAggregateNativeIdentity native) (acIdentity c))"

text \<open>The part of \<^verbatim>\<open>Complete\<close> that runs with the pending attempt already marked failed.\<close>

definition complete_pending ::
    "aggregate_context \<Rightarrow> u64 \<Rightarrow> u64 \<Rightarrow> bms_input \<Rightarrow> retention \<Rightarrow> retention \<times> retention_error outcome" where
  "complete_pending c cyc now i r =
     (if \<not> acIdentityKnown c then (invalidate ContinuityUnknown r, Some IdentityUnknown)
      else if context_contradicts c i then (invalidate IdentityConflict r, Some ContextContradicts)
      else if identity_contradicts c i then (invalidate IdentityConflict r, Some IdentityContradicts)
      else (case DecodeGrowattBMSTypedReadOnlyStatus i of
          Inl e \<Rightarrow> (r, Some (DecoderRefuses e))
        | Inr st \<Rightarrow>
            (if arRevision r = MaxUint64 then (r, Some RevisionExhausted)
             else (set_outcome OutcomeSuccess
                (r\<lparr>arValue := Some st, arRevision := arRevision r + 1, arSuccessCycle := cyc,
                   arSuccessTick := now, arSuccessContext := c, arApplicable := True,
                   arInvalidationReason := ReasonNone\<rparr>), None))))"

definition Complete ::
    "aggregate_context \<Rightarrow> u64 \<Rightarrow> u64 \<Rightarrow> bms_input \<Rightarrow> retention \<Rightarrow> retention \<times> retention_error outcome" where
  "Complete c cyc now i r =
     (case callback c cyc now r of
        (r1, Some e) \<Rightarrow> (r1, Some e)
      | (r1, None) \<Rightarrow>
          (if aaOutcome (arAttempt r1) = OutcomeSuccess
           then (if sameInput i r1 then (r1, None) else (r1, Some ConflictingCompletion))
           else if aaOutcome (arAttempt r1) \<noteq> OutcomePending then (r1, Some CycleClosed)
           else complete_pending c cyc now i (set_outcome OutcomeFailed r1)))"

definition Fail :: "aggregate_context \<Rightarrow> u64 \<Rightarrow> u64 \<Rightarrow> retention \<Rightarrow> retention \<times> retention_error outcome" where
  "Fail c cyc now r =
     (case callback c cyc now r of
        (r1, Some e) \<Rightarrow> (r1, Some e)
      | (r1, None) \<Rightarrow>
          (if aaOutcome (arAttempt r1) = OutcomeFailed then (r1, None)
           else if aaOutcome (arAttempt r1) \<noteq> OutcomePending then (r1, Some CycleClosed)
           else (set_outcome OutcomeFailed r1, None)))"

definition aggregate_state :: "retention \<Rightarrow> aggregate_applicability" where
  "aggregate_state r =
     (if arValue r = None then StateAbsent
      else if \<not> arApplicable r then StateInvalidated
      else if aaOutcome (arAttempt r) = OutcomeSuccess then StateCurrent
      else StateRetained)"

definition Snapshot :: "retention \<Rightarrow> aggregate_snapshot" where
  "Snapshot r = \<lparr>asState = aggregate_state r, asInvalidationReason = arInvalidationReason r,
     asAttempt = arAttempt r, asSuccessRevision = arRevision r, asSuccessCycle = arSuccessCycle r,
     asSuccessTick = arSuccessTick r, asSuccessContext = arSuccessContext r,
     asValue = (if aggregate_state r \<in> {StateCurrent, StateRetained} then arValue r else None)\<rparr>"

section \<open>Runs\<close>

datatype retention_event =
    EvBegin aggregate_context u64 u64 u64
  | EvComplete aggregate_context u64 u64 bms_input
  | EvFail aggregate_context u64 u64
  | EvAdvance u64

fun retention_result :: "retention_event \<Rightarrow> retention \<Rightarrow> retention \<times> retention_error outcome" where
  "retention_result (EvBegin c cyc now deadline) r = Begin c cyc now deadline r"
| "retention_result (EvComplete c cyc now i) r = Complete c cyc now i r"
| "retention_result (EvFail c cyc now) r = Fail c cyc now r"
| "retention_result (EvAdvance now) r = Advance now r"

definition retention_step :: "retention_event \<Rightarrow> retention \<Rightarrow> retention" where
  "retention_step e r = fst (retention_result e r)"

section \<open>The lifecycle keeps its evidence\<close>

lemma growattAggregateSameIdentity_iff [simp]: "growattAggregateSameIdentity a b \<longleftrightarrow> a = b"
  by (auto simp: growattAggregateSameIdentity_def)

lemma growattAggregateSameContext_iff [simp]: "growattAggregateSameContext a b \<longleftrightarrow> a = b"
  by (cases "acRevision a"; cases "acRevision b") (auto simp: growattAggregateSameContext_def)

lemma same_slices_iff [simp]: "same_slices raw ss \<longleftrightarrow> raw = ss"
proof
  assume "same_slices raw ss"
  then have "list_all2 (=) raw ss"
    unfolding same_slices_def by (auto elim!: list_all2_mono)
  then show "raw = ss" by (simp add: list.rel_eq)
qed (simp add: same_slices_def list_all2_same)

text \<open>The evidence behind a value: registers that decode to it and that agree with a context.\<close>

definition evidence_for :: "aggregate_context \<Rightarrow> bms_status \<Rightarrow> bms_input \<Rightarrow> bool" where
  "evidence_for c st i \<longleftrightarrow>
     DecodeGrowattBMSTypedReadOnlyStatus i = Inr st \<and> acIdentityKnown c
     \<and> biUnitID i = acUnitID c \<and> biFunction i = acFunction c \<and> biRevision i = acRevision c
     \<and> growattAggregateNativeIdentity (native_of i) = acIdentity c"

definition retention_inv :: "retention \<Rightarrow> bool" where
  "retention_inv r \<longleftrightarrow>
     (arValue r = None \<longleftrightarrow> arRevision r = 0)
     \<and> (\<forall>st. arValue r = Some st \<longrightarrow> (\<exists>i. evidence_for (arSuccessContext r) st i))
     \<and> (arApplicable r \<longrightarrow> arValue r \<noteq> None \<and> aaContext (arAttempt r) = arSuccessContext r
          \<and> arInvalidationReason r = ReasonNone)
     \<and> (arValue r \<noteq> None \<and> \<not> arApplicable r \<longrightarrow> arInvalidationReason r \<noteq> ReasonNone)
     \<and> (aaOutcome (arAttempt r) = OutcomeSuccess \<longrightarrow>
          arApplicable r \<and> arSuccessCycle r = aaCycle (arAttempt r) \<and> arSuccessTick r < aaDeadline (arAttempt r))
     \<and> (arStarted r = (aaOutcome (arAttempt r) \<noteq> OutcomeNone))
     \<and> arSuccessTick r \<le> arTick r"

lemma set_outcome_simps [simp]:
  "arStarted (set_outcome oc r) = arStarted r" "arTick (set_outcome oc r) = arTick r"
  "arRevision (set_outcome oc r) = arRevision r" "arValue (set_outcome oc r) = arValue r"
  "arApplicable (set_outcome oc r) = arApplicable r"
  "arInvalidationReason (set_outcome oc r) = arInvalidationReason r"
  "arSuccessContext (set_outcome oc r) = arSuccessContext r"
  "arSuccessCycle (set_outcome oc r) = arSuccessCycle r" "arSuccessTick (set_outcome oc r) = arSuccessTick r"
  "aaContext (arAttempt (set_outcome oc r)) = aaContext (arAttempt r)"
  "aaCycle (arAttempt (set_outcome oc r)) = aaCycle (arAttempt r)"
  "aaDeadline (arAttempt (set_outcome oc r)) = aaDeadline (arAttempt r)"
  "aaOutcome (arAttempt (set_outcome oc r)) = oc"
  by (simp_all add: set_outcome_def)

lemma retention_inv_set_failed:
  assumes "retention_inv r" and "oc \<in> {OutcomeFailed, OutcomeIncomplete}" and "arStarted r"
  shows "retention_inv (set_outcome oc r)"
  using assms by (auto simp: retention_inv_def)

lemma retention_inv_tick:
  assumes "retention_inv r" and "arTick r \<le> now"
  shows "retention_inv (r\<lparr>arTick := now\<rparr>)"
  using assms by (auto simp: retention_inv_def intro: order_trans)

lemma retention_inv_invalidate:
  assumes "retention_inv r" and "aaOutcome (arAttempt r) \<noteq> OutcomeSuccess" and "reason \<noteq> ReasonNone"
  shows "retention_inv (invalidate reason r)"
  using assms by (auto simp: retention_inv_def invalidate_def)

lemma advance_cases:
  obtains (backwards) "now < arTick r" and "advance now r = (r, Some TickBackwards)"
  | (expired) "arTick r \<le> now" and "arStarted r" and "aaOutcome (arAttempt r) = OutcomePending"
      and "aaDeadline (arAttempt r) \<le> now" and "advance now r = (set_outcome OutcomeIncomplete (r\<lparr>arTick := now\<rparr>), None)"
  | (ticked) "arTick r \<le> now"
      and "arStarted r \<and> aaOutcome (arAttempt r) = OutcomePending \<longrightarrow> now < aaDeadline (arAttempt r)"
      and "advance now r = (r\<lparr>arTick := now\<rparr>, None)"
proof (cases "now < arTick r")
  case True
  then show thesis using backwards by (simp add: advance_def)
next
  case False
  then have le: "arTick r \<le> now" by simp
  show thesis
  proof (cases "arStarted r \<and> aaOutcome (arAttempt r) = OutcomePending \<and> aaDeadline (arAttempt r) \<le> now")
    case True
    then show thesis using expired le by (simp add: advance_def Let_def)
  next
    case False
    show thesis
      by (rule ticked) (use False le in \<open>auto simp: advance_def Let_def\<close>)
  qed
qed

lemma advance_inv: "retention_inv r \<Longrightarrow> retention_inv (fst (advance now r))"
  by (rule advance_cases [of now r])
    (auto intro!: retention_inv_tick retention_inv_set_failed)

lemma Begin_inv:
  assumes "retention_inv r"
  shows "retention_inv (fst (Begin c cyc now deadline r))"
  using assms
  by (auto simp: Begin_def Let_def invalidate_def retention_inv_def intro: order_trans
      elim: order_trans [OF _ leI])

lemma callback_inv: "retention_inv r \<Longrightarrow> retention_inv (fst (callback c cyc now r))"
  by (simp add: callback_def advance_inv)

lemma callback_None:
  assumes "callback c cyc now r = (r1, None)"
  shows "arStarted r" and "cyc = aaCycle (arAttempt r)" and "c = aaContext (arAttempt r)"
    and "arTick r \<le> now"
    and "r1 = r\<lparr>arTick := now\<rparr> \<or> r1 = set_outcome OutcomeIncomplete (r\<lparr>arTick := now\<rparr>)"
    and "aaOutcome (arAttempt r1) = OutcomePending \<Longrightarrow> r1 = r\<lparr>arTick := now\<rparr> \<and> now < aaDeadline (arAttempt r)"
proof -
  have adv: "arStarted r \<and> cyc = aaCycle (arAttempt r) \<and> c = aaContext (arAttempt r) \<and> advance now r = (r1, None)"
    using assms by (simp add: callback_def split: if_splits)
  then show "arStarted r" and "cyc = aaCycle (arAttempt r)" and "c = aaContext (arAttempt r)" by auto
  show "arTick r \<le> now" and "r1 = r\<lparr>arTick := now\<rparr> \<or> r1 = set_outcome OutcomeIncomplete (r\<lparr>arTick := now\<rparr>)"
    using adv by (auto intro: advance_cases [of now r])
  show "r1 = r\<lparr>arTick := now\<rparr> \<and> now < aaDeadline (arAttempt r)" if "aaOutcome (arAttempt r1) = OutcomePending"
    by (rule advance_cases [of now r]) (use adv that in auto)
qed

lemma callback_Some: "callback c cyc now r = (r1, Some e) \<Longrightarrow> r1 = r"
  by (auto simp: callback_def advance_def Let_def split: if_splits)

lemma decoded_evidence:
  assumes "DecodeGrowattBMSTypedReadOnlyStatus i = Inr st" and "acIdentityKnown c"
    and "\<not> context_contradicts c i" and "\<not> identity_contradicts c i"
  shows "evidence_for c st i"
proof -
  have native: "DecodeGrowattBMSReadOnlyObservation i = Inr (native_of i)"
    by (rule DecodeGrowattBMSTypedReadOnlyStatus_Inr(1) [OF assms(1)])
  then have "length (biSlices i) = 4" using slice_words(7) [OF native] by (simp add: native_of_def)
  then have "biSlices i \<noteq> []" by auto
  then show ?thesis
    using assms native by (auto simp: evidence_for_def context_contradicts_def identity_contradicts_def)
qed

lemma complete_pending_inv:
  assumes "retention_inv r" and "arStarted r" and "aaOutcome (arAttempt r) = OutcomeFailed"
    and "c = aaContext (arAttempt r)" and "cyc = aaCycle (arAttempt r)" and "arTick r = now"
    and "now < aaDeadline (arAttempt r)"
  shows "retention_inv (fst (complete_pending c cyc now i r))"
proof (cases "snd (complete_pending c cyc now i r)")
  case None
  then obtain st where st: "DecodeGrowattBMSTypedReadOnlyStatus i = Inr st" and rev: "arRevision r \<noteq> MaxUint64"
    and known: "acIdentityKnown c" "\<not> context_contradicts c i" "\<not> identity_contradicts c i"
    by (auto simp: complete_pending_def split: if_splits sum.splits)
  have "evidence_for c st i" by (rule decoded_evidence [OF st known])
  moreover have "arRevision r + 1 \<noteq> 0" using rev by (metis add_eq_0_iff2)
  ultimately show ?thesis
    using assms st rev known by (auto simp: complete_pending_def retention_inv_def)
next
  case (Some e)
  then have "fst (complete_pending c cyc now i r) = r
     \<or> fst (complete_pending c cyc now i r) = invalidate ContinuityUnknown r
     \<or> fst (complete_pending c cyc now i r) = invalidate IdentityConflict r"
    by (auto simp: complete_pending_def split: if_splits sum.splits)
  then show ?thesis
    using assms(1,3) retention_inv_invalidate [of r ContinuityUnknown] retention_inv_invalidate [of r IdentityConflict]
    by auto
qed

lemma Complete_cases:
  obtains (refused) e where "Complete c cyc now i r = (r, Some e)" and "callback c cyc now r = (r, Some e)"
  | (closed) r1 x where "callback c cyc now r = (r1, None)" and "Complete c cyc now i r = (r1, x)"
      and "aaOutcome (arAttempt r1) \<noteq> OutcomePending"
      and "x = None \<longleftrightarrow> aaOutcome (arAttempt r1) = OutcomeSuccess \<and> sameInput i r1"
  | (pending) "callback c cyc now r = (r\<lparr>arTick := now\<rparr>, None)" and "now < aaDeadline (arAttempt r)"
      and "aaOutcome (arAttempt r) = OutcomePending"
      and "Complete c cyc now i r = complete_pending c cyc now i (set_outcome OutcomeFailed (r\<lparr>arTick := now\<rparr>))"
proof -
  obtain r1 x where cb: "callback c cyc now r = (r1, x)" by (cases "callback c cyc now r")
  show thesis
  proof (cases x)
    case (Some e)
    with cb callback_Some show thesis by (intro refused [of e]) (auto simp: Complete_def)
  next
    case None
    show thesis
    proof (cases "aaOutcome (arAttempt r1) = OutcomePending")
      case True
      have r1: "r1 = r\<lparr>arTick := now\<rparr> \<and> now < aaDeadline (arAttempt r)"
        by (rule callback_None(6)) (use cb None True in simp_all)
      show thesis
        by (rule pending) (use cb None True r1 in \<open>auto simp: Complete_def\<close>)
    next
      case False
      show thesis
        by (rule closed [of r1 "snd (Complete c cyc now i r)"]) (use cb None False in \<open>auto simp: Complete_def\<close>)
    qed
  qed
qed

lemma Complete_inv:
  assumes "retention_inv r"
  shows "retention_inv (fst (Complete c cyc now i r))"
proof (rule Complete_cases [of c cyc now i r])
  fix e assume "Complete c cyc now i r = (r, Some e)"
  then show ?thesis using assms by simp
next
  fix r1 x assume "callback c cyc now r = (r1, None)" and "Complete c cyc now i r = (r1, x)"
  then show ?thesis using callback_inv [OF assms, of c cyc now] by simp
next
  assume cb: "callback c cyc now r = (r\<lparr>arTick := now\<rparr>, None)" and "now < aaDeadline (arAttempt r)"
    and "Complete c cyc now i r = complete_pending c cyc now i (set_outcome OutcomeFailed (r\<lparr>arTick := now\<rparr>))"
  note facts = callback_None(1,2,3,4) [OF cb] retention_inv_tick [OF assms callback_None(4) [OF cb]]
  show ?thesis
    unfolding \<open>Complete c cyc now i r = _\<close>
    by (rule complete_pending_inv)
      (use facts \<open>now < _\<close> in \<open>auto intro: retention_inv_set_failed\<close>)
qed

lemma Fail_inv:
  assumes "retention_inv r"
  shows "retention_inv (fst (Fail c cyc now r))"
proof -
  have "retention_inv (set_outcome OutcomeFailed r1)" if "callback c cyc now r = (r1, None)" for r1
    using callback_inv [OF assms, of c cyc now] callback_None(1,5) [OF that] that
    by (auto intro!: retention_inv_set_failed)
  then show ?thesis
    using callback_inv [OF assms, of c cyc now] by (auto simp: Fail_def split: prod.split option.split)
qed

lemma retention_step_inv: "retention_inv r \<Longrightarrow> retention_inv (retention_step e r)"
  by (cases e) (simp_all add: retention_step_def Begin_inv Complete_inv Fail_inv Advance_def advance_inv)

lemma new_retention_inv: "NewGrowattAggregateRetention m = Inr r \<Longrightarrow> retention_inv r"
  by (auto simp: NewGrowattAggregateRetention_def retention_inv_def zero_attempt_def split: if_splits)

section \<open>The last success only moves forward\<close>

definition attempt_le :: "retention \<Rightarrow> retention \<Rightarrow> bool" where
  "attempt_le r r' \<longleftrightarrow> (arStarted r \<longrightarrow> arStarted r'
     \<and> (acOwnerEpoch (aaContext (arAttempt r)) < acOwnerEpoch (aaContext (arAttempt r'))
        \<or> (acOwnerEpoch (aaContext (arAttempt r)) = acOwnerEpoch (aaContext (arAttempt r'))
           \<and> aaCycle (arAttempt r) \<le> aaCycle (arAttempt r'))))"

definition same_success :: "retention \<Rightarrow> retention \<Rightarrow> bool" where
  "same_success r r' \<longleftrightarrow> arValue r' = arValue r \<and> arSuccessContext r' = arSuccessContext r
     \<and> arSuccessCycle r' = arSuccessCycle r \<and> arSuccessTick r' = arSuccessTick r
     \<and> (arApplicable r' \<longrightarrow> arApplicable r)"

definition retention_progress :: "retention \<Rightarrow> retention \<Rightarrow> bool" where
  "retention_progress r r' \<longleftrightarrow> arTick r \<le> arTick r' \<and> attempt_le r r' \<and> arRevision r \<le> arRevision r'
     \<and> (arRevision r' = arRevision r \<longrightarrow> same_success r r')"

lemma retention_progress_refl [simp]: "retention_progress r r"
  by (simp add: retention_progress_def attempt_le_def same_success_def)

lemma attempt_le_trans: "attempt_le a b \<Longrightarrow> attempt_le b c \<Longrightarrow> attempt_le a c"
  unfolding attempt_le_def by (auto intro: less_trans order_trans)

lemma retention_progress_trans:
  assumes "retention_progress a b" and "retention_progress b c"
  shows "retention_progress a c"
proof -
  have "arRevision c = arRevision a \<Longrightarrow> arRevision b = arRevision a"
    using assms unfolding retention_progress_def by (metis antisym)
  with assms show ?thesis
    unfolding retention_progress_def same_success_def by (auto intro: order_trans attempt_le_trans)
qed

lemma progress_invalidate:
  "retention_progress r r' \<Longrightarrow> retention_progress r (invalidate reason r')"
  by (simp add: retention_progress_def attempt_le_def same_success_def invalidate_def)

lemma progress_set_outcome:
  "retention_progress r r' \<Longrightarrow> retention_progress r (set_outcome oc r')"
  by (simp add: retention_progress_def attempt_le_def same_success_def)

lemma progress_tick: "arTick r \<le> now \<Longrightarrow> retention_progress r (r\<lparr>arTick := now\<rparr>)"
  by (simp add: retention_progress_def attempt_le_def same_success_def)

lemma advance_progress: "retention_progress r (fst (advance now r))"
  by (rule advance_cases [of now r]) (auto intro: progress_tick progress_set_outcome)

lemma callback_progress: "callback c cyc now r = (r1, x) \<Longrightarrow> retention_progress r r1"
  using advance_progress [of r now] by (auto simp: callback_def split: if_splits)

lemma Begin_progress: "retention_progress r (fst (Begin c cyc now deadline r))"
proof -
  let ?r = "r\<lparr>arTick := now, arStarted := True,
     arAttempt := \<lparr>aaContext = c, aaCycle = cyc, aaDeadline = deadline, aaOutcome = OutcomePending\<rparr>\<rparr>"
  have "fst (Begin c cyc now deadline r) = r
     \<or> (retention_progress r ?r
        \<and> (fst (Begin c cyc now deadline r) = ?r
           \<or> (\<exists>reason. fst (Begin c cyc now deadline r) = invalidate reason ?r)))"
    unfolding Begin_def Let_def retention_progress_def attempt_le_def same_success_def
    by (auto simp: not_less not_le)
  then show ?thesis by (auto intro: progress_invalidate)
qed

lemma complete_pending_progress: "retention_progress r (fst (complete_pending c cyc now i r))"
proof (cases "snd (complete_pending c cyc now i r)")
  case None
  then obtain st where max: "arRevision r \<noteq> MaxUint64"
    and complete: "fst (complete_pending c cyc now i r) = set_outcome OutcomeSuccess (r\<lparr>arValue := Some st,
       arRevision := arRevision r + 1, arSuccessCycle := cyc, arSuccessTick := now, arSuccessContext := c,
       arApplicable := True, arInvalidationReason := ReasonNone\<rparr>)"
    by (auto simp: complete_pending_def split: if_splits sum.splits)
  have "arRevision r < arRevision r + 1"
    using max by (simp add: word_less_nat_alt unat_Suc_below_max)
  then show ?thesis
    unfolding complete by (auto simp: retention_progress_def attempt_le_def)
next
  case (Some e)
  then have "fst (complete_pending c cyc now i r) = r
     \<or> (\<exists>reason. fst (complete_pending c cyc now i r) = invalidate reason r)"
    by (auto simp: complete_pending_def split: if_splits sum.splits)
  then show ?thesis by (auto simp: progress_invalidate)
qed

lemma Complete_progress: "retention_progress r (fst (Complete c cyc now i r))"
proof (rule Complete_cases [of c cyc now i r])
  fix e assume "Complete c cyc now i r = (r, Some e)"
  then show ?thesis by simp
next
  fix r1 x assume "callback c cyc now r = (r1, None)" and "Complete c cyc now i r = (r1, x)"
  then show ?thesis using callback_progress by simp
next
  assume cb: "callback c cyc now r = (r\<lparr>arTick := now\<rparr>, None)"
    and complete: "Complete c cyc now i r = complete_pending c cyc now i (set_outcome OutcomeFailed (r\<lparr>arTick := now\<rparr>))"
  have "retention_progress r (set_outcome OutcomeFailed (r\<lparr>arTick := now\<rparr>))"
    by (intro progress_set_outcome progress_tick callback_None(4) [OF cb])
  then show ?thesis unfolding complete by (rule retention_progress_trans) (rule complete_pending_progress)
qed

lemma Fail_progress: "retention_progress r (fst (Fail c cyc now r))"
proof -
  obtain r1 x where cb: "callback c cyc now r = (r1, x)" by (cases "callback c cyc now r")
  then have "fst (Fail c cyc now r) = r1 \<or> fst (Fail c cyc now r) = set_outcome OutcomeFailed r1"
    by (auto simp: Fail_def split: option.split)
  with callback_progress [OF cb] show ?thesis by (auto intro: progress_set_outcome)
qed

lemma retention_step_progress: "retention_progress r (retention_step e r)"
  by (cases e) (simp_all add: retention_step_def Begin_progress Complete_progress Fail_progress Advance_def
      advance_progress)

interpretation retention_machine: event_machine retention_step "\<lambda>_. True" retention_inv retention_progress
  by unfold_locales (auto intro: retention_step_inv retention_step_progress retention_progress_trans)

section \<open>Properties\<close>

lemma run_of_new_inv:
  "NewGrowattAggregateRetention m = Inr r0 \<Longrightarrow> retention_inv (fold retention_step es r0)"
  by (rule retention_machine.run_inv) (auto intro: new_retention_inv simp: list_all_iff)

definition snapshot_ok :: "aggregate_snapshot \<Rightarrow> bool" where
  "snapshot_ok s \<longleftrightarrow>
     (\<forall>st. asValue s = Some st \<longrightarrow>
        (\<exists>i. evidence_for (aaContext (asAttempt s)) st i) \<and> aaContext (asAttempt s) = asSuccessContext s)
     \<and> (asState s = StateCurrent \<longrightarrow> asSuccessCycle s = aaCycle (asAttempt s)
          \<and> asSuccessTick s < aaDeadline (asAttempt s))"

lemma Snapshot_ok: "retention_inv r \<Longrightarrow> snapshot_ok (Snapshot r)"
  by (auto simp: snapshot_ok_def retention_inv_def Snapshot_def aggregate_state_def split: if_splits)

text \<open>C21: a reading that the owner still offers is of the device of the latest attempt. Whatever operations
  were made since the owner was created, a snapshot that carries a value carries one decoded from a complete set
  of registers whose unit, function and protocol revision are those of the latest attempt and whose native
  identity words spell the identity of that attempt. A snapshot that is current was completed in the cycle of
  the latest attempt and before its deadline.\<close>

theorem retained_reading_is_of_this_device:
  assumes "NewGrowattAggregateRetention m = Inr r0" and "r = fold retention_step es r0"
    and "asValue (Snapshot r) = Some st"
  shows "(\<exists>i. evidence_for (aaContext (asAttempt (Snapshot r))) st i)
    \<and> (asState (Snapshot r) = StateCurrent \<longrightarrow>
         asSuccessCycle (Snapshot r) = aaCycle (asAttempt (Snapshot r))
         \<and> asSuccessTick (Snapshot r) < aaDeadline (asAttempt (Snapshot r)))"
  using Snapshot_ok [OF run_of_new_inv [OF assms(1), of es]] assms(2,3)
  by (auto simp: snapshot_ok_def)

text \<open>The last success moves forward only. Between any two moments of a run the logical clock, the pair of
  epoch and cycle of the latest attempt and the revision do not decrease; and while the revision stays, the
  value with its context, cycle and tick stays, and once invalidated it never applies again: only a new
  success, which takes a new revision, makes a value applicable.\<close>

theorem last_success_moves_forward:
  assumes "NewGrowattAggregateRetention m = Inr r0" and "r = fold retention_step es r0"
    and "r' = fold retention_step es' r"
  shows "arTick r \<le> arTick r' \<and> attempt_le r r' \<and> arRevision r \<le> arRevision r'
    \<and> (arRevision r' = arRevision r \<longrightarrow> same_success r r')"
proof -
  have "retention_progress r r'"
    unfolding assms(3) by (rule retention_machine.run_progress)
      (use run_of_new_inv [OF assms(1), of es] assms(2) in \<open>auto simp: list_all_iff\<close>)
  then show ?thesis by (simp add: retention_progress_def)
qed

lemma completed_input_is_kept:
  assumes "complete_pending c cyc now i r = (r1, None)"
  shows "sameInput i' r1 \<longleftrightarrow> i' = i"
proof -
  have "acIdentityKnown c \<and> \<not> context_contradicts c i \<and> \<not> identity_contradicts c i
     \<and> (\<exists>st. DecodeGrowattBMSTypedReadOnlyStatus i = Inr st \<and> arValue r1 = Some st) \<and> arSuccessContext r1 = c"
    using assms by (auto simp: complete_pending_def set_outcome_def split: if_splits sum.splits)
  then obtain st where st: "DecodeGrowattBMSTypedReadOnlyStatus i = Inr st" and r1: "arValue r1 = Some st" "arSuccessContext r1 = c"
    and ok: "acIdentityKnown c" "\<not> context_contradicts c i" "\<not> identity_contradicts c i"
    by blast
  have ev: "evidence_for c st i" by (rule decoded_evidence [OF st ok])
  show ?thesis
    using ev r1 DecodeGrowattBMSTypedReadOnlyStatus_Inr(3) [OF st]
    by (cases i'; cases i) (auto simp: sameInput_def evidence_for_def native_of_def)
qed

text \<open>C22: a retransmission is recognised exactly. After a completion that was accepted, a second completion of the
  same cycle at a later tick changes nothing but the clock; it succeeds when its registers are word for
  word the accepted ones, and is a conflict otherwise.\<close>

theorem retransmission_is_recognised:
  assumes "aaOutcome (arAttempt r) = OutcomePending" and "Complete c cyc now i r = (r1, None)" and "now \<le> now'"
  shows "Complete c cyc now' i' r1 =
    (r1\<lparr>arTick := now'\<rparr>, if i' = i then None else Some ConflictingCompletion)"
proof -
  have "callback c cyc now r = (r\<lparr>arTick := now\<rparr>, None)
     \<and> complete_pending c cyc now i (set_outcome OutcomeFailed (r\<lparr>arTick := now\<rparr>)) = (r1, None)"
  proof (rule Complete_cases [of c cyc now i r])
    fix e assume "Complete c cyc now i r = (r, Some e)"
    then show ?thesis using assms(2) by simp
  next
    fix r2 x assume cb: "callback c cyc now r = (r2, None)" and "Complete c cyc now i r = (r2, x)"
      and "aaOutcome (arAttempt r2) \<noteq> OutcomePending"
      and "x = None \<longleftrightarrow> aaOutcome (arAttempt r2) = OutcomeSuccess \<and> sameInput i r2"
    then have "aaOutcome (arAttempt r2) = OutcomeSuccess" using assms(2) by simp
    with assms(1) callback_None(5) [OF cb] show ?thesis by auto
  next
    assume "callback c cyc now r = (r\<lparr>arTick := now\<rparr>, None)"
      and "Complete c cyc now i r = complete_pending c cyc now i (set_outcome OutcomeFailed (r\<lparr>arTick := now\<rparr>))"
    then show ?thesis using assms(2) by simp
  qed
  then have cb: "callback c cyc now r = (r\<lparr>arTick := now\<rparr>, None)"
    and pending: "complete_pending c cyc now i (set_outcome OutcomeFailed (r\<lparr>arTick := now\<rparr>)) = (r1, None)" by simp_all
  have r1: "arStarted r1" "aaContext (arAttempt r1) = c" "aaCycle (arAttempt r1) = cyc" "arTick r1 = now"
      "aaOutcome (arAttempt r1) = OutcomeSuccess"
    using pending callback_None(1,2,3) [OF cb]
    by (auto simp: complete_pending_def set_outcome_def split: if_splits sum.splits)
  then have "callback c cyc now' r1 = (r1\<lparr>arTick := now'\<rparr>, None)"
    using assms(3) by (auto simp: callback_def advance_def Let_def)
  moreover have "sameInput i' (r1\<lparr>arTick := now'\<rparr>) \<longleftrightarrow> i' = i"
    using completed_input_is_kept [OF pending, of i'] by (simp add: sameInput_def cong: option.case_cong)
  ultimately show ?thesis using r1(5) by (simp add: Complete_def)
qed

section \<open>Witnesses\<close>

definition bms_registers :: bms_input where
  "bms_registers = \<lparr>biUnitID = 1, biFunction = 3, biRevision = growattBMSExactRevision,
     biSlices = [\<lparr>slOffset = 0x0001, slWords = replicate 7 0\<rparr>, \<lparr>slOffset = 0x000d, slWords = replicate 29 0\<rparr>,
       \<lparr>slOffset = 0x0100, slWords = replicate 12 0\<rparr>, \<lparr>slOffset = 0x010d, slWords = replicate 2 0\<rparr>]\<rparr>"

definition bms_context :: aggregate_context where
  "bms_context = \<lparr>acSourceInstance = ''s'', acOwnerEpoch = 1, acUnitID = 1, acFunction = 3,
     acRevision = growattBMSExactRevision, acIdentityKnown = True,
     acIdentity = zero_identity\<lparr>aiMCUSoftwareVersion := ''0.0''\<rparr>\<rparr>"

definition bms_retention :: retention where
  "bms_retention = projr (NewGrowattAggregateRetention 10)"

definition bms_events :: "retention_event list" where
  "bms_events = [EvBegin bms_context 1 1 5, EvComplete bms_context 1 2 bms_registers, EvBegin bms_context 2 3 7]"

lemma bms_retention_new: "NewGrowattAggregateRetention 10 = Inr bms_retention"
  by code_simp

theorem retained_reading_is_of_this_device_witness:
  "\<exists>st i. asValue (Snapshot (fold retention_step bms_events bms_retention)) = Some st
     \<and> evidence_for (aaContext (asAttempt (Snapshot (fold retention_step bms_events bms_retention)))) st i"
proof -
  have "asValue (Snapshot (fold retention_step bms_events bms_retention)) \<noteq> None" by code_simp
  then obtain st where "asValue (Snapshot (fold retention_step bms_events bms_retention)) = Some st" by blast
  with retained_reading_is_of_this_device [OF bms_retention_new refl this] show ?thesis by blast
qed

theorem last_success_moves_forward_witness:
  "arValue (fold retention_step bms_events bms_retention)
     = arValue (fold retention_step (take 2 bms_events) bms_retention)
   \<and> arRevision (fold retention_step bms_events bms_retention) = 1"
proof -
  let ?r = "fold retention_step (take 2 bms_events) bms_retention"
  have "fold retention_step bms_events bms_retention = fold retention_step (drop 2 bms_events) ?r"
    by (simp add: bms_events_def)
  moreover have "arRevision ?r = 1" by code_simp
  moreover have "arRevision (fold retention_step bms_events bms_retention) = 1" by code_simp
  ultimately show ?thesis
    using last_success_moves_forward [OF bms_retention_new refl refl, of "take 2 bms_events" "drop 2 bms_events"]
    by (simp add: same_success_def)
qed

theorem retransmission_is_recognised_witness:
  "Complete bms_context 1 4 bms_registers (fst (Complete bms_context 1 2 bms_registers
       (fst (Begin bms_context 1 1 5 bms_retention))))
   = ((fst (Complete bms_context 1 2 bms_registers (fst (Begin bms_context 1 1 5 bms_retention))))\<lparr>arTick := 4\<rparr>, None)"
proof -
  let ?r = "fst (Begin bms_context 1 1 5 bms_retention)"
  have "aaOutcome (arAttempt ?r) = OutcomePending" by code_simp
  moreover have "snd (Complete bms_context 1 2 bms_registers ?r) = None" by code_simp
  then have "Complete bms_context 1 2 bms_registers ?r = (fst (Complete bms_context 1 2 bms_registers ?r), None)"
    by (metis prod.collapse)
  ultimately show ?thesis
    using retransmission_is_recognised [of ?r bms_context 1 2 bms_registers _ 4 bms_registers] by simp
qed

end
