(* ===== verification/Growatt_Provider.thy ===== *)
theory Growatt_Provider
  imports Growatt_Retention
begin

text \<open>
  The supplied-evidence port of the battery aggregate (\<^verbatim>\<open>growatt_aggregate_offline_provider.go\<close>,
  \<^verbatim>\<open>growatt_aggregate_provider_port.go\<close>): one cycle around a reader, and the adapter that publishes
  its outcome. A refresh leaves the mutex while it reads, so an advance, a retirement or a
  cancellation can come between any two of its critical sections: a refresh is a \<open>flight\<close>, whose
  position is a \<open>cycle_pc\<close>, and a run is any list of actions. The clock and the reader are answers
  in the actions. The adapter is the one its constructor builds; a nil adapter, and the zero value
  whose native provider is missing, refuse every call.
\<close>

section \<open>One cycle around a reader\<close>

record offline_cycle =
  ocContext :: aggregate_context
  ocCycle :: u64
  ocDeadline :: u64

record offline_provider =
  opRetention :: retention
  opMaxSlices :: u64
  opMaxWords :: u64

datatype cycle_error =
    CycleCancelled
  | CycleRetention retention_error
  | UnsupportedContext
  | ReaderFailed
  | SliceBound
  | WordBound

definition NewGrowattAggregateOfflineProvider ::
    "u64 \<Rightarrow> u64 \<Rightarrow> u64 \<Rightarrow> bool \<Rightarrow> offline_provider option" where
  "NewGrowattAggregateOfflineProvider maxCycleTicks maxSlices maxWords reader =
     (if \<not> reader \<or> maxSlices = 0 \<or> maxWords = 0 then None
      else (case NewGrowattAggregateRetention maxCycleTicks of
          Inl _ \<Rightarrow> None
        | Inr r \<Rightarrow> Some \<lparr>opRetention = r, opMaxSlices = maxSlices, opMaxWords = maxWords\<rparr>))"

text \<open>
  Where a cycle is: about to check the context, to begin, to check the native context, to read, to
  judge an answer, to fail (with the tick it read, or one still to be read), to complete, or done. An error
  is the list of the errors it joins; a nil error is the empty list. A reader answers with an input
  or with an error, \<open>None\<close>.
\<close>

datatype cycle_pc =
    CyStart
  | CyBegin
  | CyContext
  | CyRead
  | CyAnswered "bms_input option" u64
  | CyFail "cycle_error list" "u64 option"
  | CyComplete bms_input u64
  | CyDone "cycle_error list"

definition supported_context :: "aggregate_context \<Rightarrow> bool" where
  "supported_context c \<longleftrightarrow> acIdentityKnown c \<and> acUnitID c \<noteq> 0 \<and> acUnitID c \<le> 247
     \<and> acFunction c = FunctionReadHoldingRegisters \<and> acRevision c = growattBMSExactRevision"

fun words_within :: "u64 \<Rightarrow> bms_slice list \<Rightarrow> bool" where
  "words_within remaining [] = True"
| "words_within remaining (s # ss) =
     (of_nat (length (slWords s)) \<le> remaining \<and> words_within (remaining - of_nat (length (slWords s))) ss)"

definition joined :: "retention_error outcome \<Rightarrow> cycle_error list" where
  "joined e = (case e of None \<Rightarrow> [] | Some x \<Rightarrow> [CycleRetention x])"

definition judge_answer :: "bool \<Rightarrow> offline_provider \<Rightarrow> bms_input option \<Rightarrow> u64 \<Rightarrow> cycle_pc" where
  "judge_answer cancelled p answer now =
     (if cancelled then CyFail [CycleCancelled] (Some now)
      else (case answer of
          None \<Rightarrow> CyFail [ReaderFailed] (Some now)
        | Some i \<Rightarrow>
            (if of_nat (length (biSlices i)) > opMaxSlices p then CyFail [SliceBound] (Some now)
             else if \<not> words_within (opMaxWords p) (biSlices i) then CyFail [WordBound] (Some now)
             else CyComplete i now)))"

definition with_retention :: "offline_provider \<Rightarrow> retention \<Rightarrow> offline_provider" where
  "with_retention p r = p\<lparr>opRetention := r\<rparr>"

text \<open>The next step of \<^verbatim>\<open>Cycle\<close>; \<open>tick\<close> is what the clock answers if the step reads it.\<close>

fun cycle_step ::
    "offline_cycle \<Rightarrow> bool \<Rightarrow> u64 \<Rightarrow> bms_input option \<Rightarrow> offline_provider \<Rightarrow> cycle_pc \<Rightarrow> offline_provider \<times> cycle_pc"
where
  "cycle_step oc cancelled tick answer p CyStart = (p, if cancelled then CyDone [CycleCancelled] else CyBegin)"
| "cycle_step oc cancelled tick answer p CyBegin =
     (let (r, e) = Begin (ocContext oc) (ocCycle oc) tick (ocDeadline oc) (opRetention p) in
      (with_retention p r, case e of Some x \<Rightarrow> CyDone [CycleRetention x] | None \<Rightarrow> CyContext))"
| "cycle_step oc cancelled tick answer p CyContext =
     (p, if \<not> supported_context (ocContext oc) then CyFail [UnsupportedContext] None
         else if cancelled then CyFail [CycleCancelled] None else CyRead)"
| "cycle_step oc cancelled tick answer p CyRead = (p, CyAnswered answer tick)"
| "cycle_step oc cancelled tick answer p (CyAnswered i now) = (p, judge_answer cancelled p i now)"
| "cycle_step oc cancelled tick answer p (CyFail es at) =
     (let (r, e) = Fail (ocContext oc) (ocCycle oc) (case at of Some now \<Rightarrow> now | None \<Rightarrow> tick) (opRetention p) in
      (with_retention p r, CyDone (es @ joined e)))"
| "cycle_step oc cancelled tick answer p (CyComplete i now) =
     (let (r, e) = Complete (ocContext oc) (ocCycle oc) now i (opRetention p) in
      (with_retention p r, CyDone (joined e)))"
| "cycle_step oc cancelled tick answer p (CyDone es) = (p, CyDone es)"

section \<open>The adapter\<close>

record growatt_link =
  glContext :: aggregate_context
  glCycle :: u64
  glGeneration :: u64
  glRevision :: u64
  glReceipt :: string

record growatt_diagnostic =
  gdLink :: growatt_link
  gdContext :: commit_context
  gdExpectedGroup :: u16
  gdInput :: bms_input

record growatt_request =
  grCycle :: offline_cycle
  grGeneration :: u64
  grReceipt :: string
  grDiagnostic :: "growatt_diagnostic option"

record growatt_snapshot =
  gsAggregate :: aggregate_snapshot
  gsLink :: growatt_link
  gsDiagnostic :: "commit_candidate option"
  gsRetired :: bool

datatype provider_error =
    RefusedRequest
  | RefusedAdvance
  | ContextError
  | CycleFailed "cycle_error list"
  | CompletionRetired
  | AdvanceFailed retention_error

datatype diagnostic_error = DiagnosticDeadline | DiagnosticAssociation | DiagnosticNoBase

record growatt_result =
  gtSnapshot :: growatt_snapshot
  gtAggregateError :: "provider_error outcome"
  gtDiagnosticError :: "diagnostic_error outcome"
  gtDiagnosticRejection :: "commit_rejection option"

record growatt_adapter =
  gaNative :: offline_provider
  gaBusy :: bool
  gaRetired :: bool
  gaGeneration :: u64
  gaDeadline :: u64
  gaTick :: u64
  gaCancel :: bool
  gaPublished :: growatt_snapshot

definition zero_link :: growatt_link where
  "zero_link = \<lparr>glContext = zero_context, glCycle = 0, glGeneration = 0, glRevision = 0, glReceipt = ''''\<rparr>"

definition I23NewGrowattProvider :: "u64 \<Rightarrow> u64 \<Rightarrow> u64 \<Rightarrow> bool \<Rightarrow> growatt_adapter option" where
  "I23NewGrowattProvider maxTicks maxSlices maxWords reader =
     (if maxSlices < 4 \<or> maxWords < 50 then None
      else (case NewGrowattAggregateOfflineProvider maxTicks maxSlices maxWords reader of
          None \<Rightarrow> None
        | Some p \<Rightarrow> Some \<lparr>gaNative = p, gaBusy = False, gaRetired = False, gaGeneration = 0, gaDeadline = 0,
            gaTick = 0, gaCancel = False,
            gaPublished = \<lparr>gsAggregate = Snapshot (opRetention p), gsLink = zero_link, gsDiagnostic = None,
              gsRetired = False\<rparr>\<rparr>))"

definition error_result :: "growatt_adapter \<Rightarrow> provider_error \<Rightarrow> growatt_result" where
  "error_result a e = \<lparr>gtSnapshot = gaPublished a, gtAggregateError = Some e, gtDiagnosticError = None,
     gtDiagnosticRejection = None\<rparr>"

text \<open>The copy of the diagnostic input, bounded before it is made.\<close>

definition freeze_slice :: "bms_slice \<Rightarrow> bms_slice" where
  "freeze_slice s = (if 16 < length (slWords s) then s\<lparr>slWords := []\<rparr> else s)"

definition freeze_diagnostic :: "growatt_diagnostic \<Rightarrow> growatt_diagnostic" where
  "freeze_diagnostic d =
     (let ss = biSlices (gdInput d) in
      d\<lparr>gdInput := (gdInput d)\<lparr>biSlices := if 3 < length ss then [] else map freeze_slice ss\<rparr>\<rparr>)"

definition freeze_request :: "growatt_request \<Rightarrow> growatt_request" where
  "freeze_request q = q\<lparr>grDiagnostic := map_option freeze_diagnostic (grDiagnostic q)\<rparr>"

definition retire_adapter :: "growatt_adapter \<Rightarrow> growatt_adapter" where
  "retire_adapter a = a\<lparr>gaRetired := True,
     gaPublished := (gaPublished a)\<lparr>gsRetired := True, gsDiagnostic := None\<rparr>\<rparr>"

section \<open>Refreshes\<close>

text \<open>A refresh outside the mutex: its frozen request, its context and where it is.\<close>

datatype flight_pc = InCycle cycle_pc | Clocked "cycle_error list" u64

record flight =
  flRequest :: growatt_request
  flCancelled :: bool
  flAt :: flight_pc

text \<open>The first critical section: \<open>usable\<close> is whether the context and the clock are not nil.\<close>

definition refresh_refused :: "bool \<Rightarrow> growatt_request \<Rightarrow> growatt_adapter \<Rightarrow> bool" where
  "refresh_refused usable q a \<longleftrightarrow> gaRetired a \<or> gaBusy a \<or> \<not> usable \<or> grGeneration q = 0
     \<or> grGeneration q \<le> gaGeneration a \<or> grReceipt q = '''' \<or> grReceipt q = glReceipt (gsLink (gaPublished a))
     \<or> 128 < length (grReceipt q)"

definition I23Refresh_start ::
    "growatt_request \<Rightarrow> bool \<Rightarrow> bool \<Rightarrow> growatt_adapter \<Rightarrow> growatt_adapter \<times> (growatt_result + flight)" where
  "I23Refresh_start q usable cancelled a =
     (if refresh_refused usable q a then (a, Inl (error_result a RefusedRequest))
      else if cancelled then (a, Inl (error_result a ContextError))
      else (a\<lparr>gaBusy := True, gaGeneration := grGeneration q, gaCancel := True\<rparr>,
            Inr \<lparr>flRequest = freeze_request q, flCancelled = False, flAt = InCycle CyStart\<rparr>))"

definition flight_step :: "u64 \<Rightarrow> bms_input option \<Rightarrow> growatt_adapter \<Rightarrow> flight \<Rightarrow> growatt_adapter \<times> flight" where
  "flight_step tick answer a fl =
     (case flAt fl of
        InCycle (CyDone es) \<Rightarrow> (a, fl\<lparr>flAt := Clocked es tick\<rparr>)
      | InCycle pc \<Rightarrow>
          (let (p, pc') = cycle_step (grCycle (flRequest fl)) (flCancelled fl) tick answer (gaNative a) pc
           in (a\<lparr>gaNative := p\<rparr>, fl\<lparr>flAt := InCycle pc'\<rparr>))
      | Clocked _ _ \<Rightarrow> (a, fl))"

definition fresh_success :: "growatt_request \<Rightarrow> aggregate_snapshot \<Rightarrow> bool" where
  "fresh_success q view \<longleftrightarrow> asValue view \<noteq> None \<and> asSuccessCycle view = ocCycle (grCycle q)
     \<and> asSuccessContext view = ocContext (grCycle q) \<and> aaOutcome (asAttempt view) = OutcomeSuccess"

definition link_of :: "growatt_request \<Rightarrow> aggregate_snapshot \<Rightarrow> growatt_link" where
  "link_of q view = \<lparr>glContext = asSuccessContext view, glCycle = asSuccessCycle view,
     glGeneration = grGeneration q, glRevision = asSuccessRevision view, glReceipt = grReceipt q\<rparr>"

definition commit_context_of :: "growatt_request \<Rightarrow> aggregate_snapshot \<Rightarrow> bms_status \<Rightarrow> commit_context" where
  "commit_context_of q view st =
     \<lparr>ccBaseRecordID = grReceipt q, ccSourceInstance = acSourceInstance (asSuccessContext view),
      ccEpoch = acOwnerEpoch (asSuccessContext view), ccCycle = asSuccessCycle view,
      ccUnitID = acUnitID (asSuccessContext view), ccFunction = acFunction (asSuccessContext view),
      ccRevision = acRevision (asSuccessContext view),
      ccNativeIdentity = commit_identity_of (boSlices (NativeObservation st))\<rparr>"

text \<open>The diagnostic of a request beside a fresh success: an error, a rejection, or a candidate.\<close>

definition judge_diagnostic ::
    "growatt_request \<Rightarrow> u64 \<Rightarrow> u64 \<Rightarrow> aggregate_snapshot \<Rightarrow> growatt_diagnostic
       \<Rightarrow> diagnostic_error + (commit_rejection + commit_candidate)" where
  "judge_diagnostic q now tick view d =
     (if ocDeadline (grCycle q) \<le> now \<or> ocDeadline (grCycle q) \<le> tick \<or> now < tick then Inl DiagnosticDeadline
      else if gdLink d \<noteq> link_of q view then Inl DiagnosticAssociation
      else (case asValue view of
          None \<Rightarrow> Inl DiagnosticNoBase
        | Some st \<Rightarrow>
            (case NewGrowattDiagnosticCommitBase st (commit_context_of q view st) of
               Inl e \<Rightarrow> Inr (Inl e)
             | Inr base \<Rightarrow> Inr (CheckGrowattDiagnosticCommit (Some base) (gdContext d) (gdExpectedGroup d) (gdInput d)))))"

definition next_publication ::
    "growatt_request \<Rightarrow> u64 \<Rightarrow> cycle_error list \<Rightarrow> growatt_adapter \<Rightarrow> growatt_result" where
  "next_publication q now errs a =
     (let view = Snapshot (opRetention (gaNative a));
          base = \<lparr>gtSnapshot = \<lparr>gsAggregate = view, gsLink = gsLink (gaPublished a), gsDiagnostic = None,
              gsRetired = False\<rparr>,
            gtAggregateError = (if errs = [] then None else Some (CycleFailed errs)),
            gtDiagnosticError = None, gtDiagnosticRejection = None\<rparr>
      in if errs = [] \<and> fresh_success q view then
           (let linked = base\<lparr>gtSnapshot := (gtSnapshot base)\<lparr>gsLink := link_of q view\<rparr>\<rparr> in
            case grDiagnostic q of
              None \<Rightarrow> linked
            | Some d \<Rightarrow>
                (case judge_diagnostic q now (gaTick a) view d of
                   Inl e \<Rightarrow> linked\<lparr>gtDiagnosticError := Some e\<rparr>
                 | Inr (Inl rejection) \<Rightarrow> linked\<lparr>gtDiagnosticRejection := Some rejection\<rparr>
                 | Inr (Inr candidate) \<Rightarrow>
                     linked\<lparr>gtSnapshot := (gtSnapshot linked)\<lparr>gsDiagnostic := Some candidate\<rparr>\<rparr>))
         else if grDiagnostic q \<noteq> None then base\<lparr>gtDiagnosticError := Some DiagnosticNoBase\<rparr>
         else base)"

text \<open>
  The last critical section. \<open>late\<close> is whether the caller's context is cancelled while the
  section runs: the section looks at the context twice.
\<close>

definition I23Refresh_finish ::
    "bool \<Rightarrow> flight \<Rightarrow> cycle_error list \<Rightarrow> u64 \<Rightarrow> growatt_adapter \<Rightarrow> growatt_adapter \<times> growatt_result" where
  "I23Refresh_finish late fl errs now a =
     (let q = flRequest fl;
          a1 = a\<lparr>gaBusy := False, gaCancel := False\<rparr>;
          a2 = (if flCancelled fl \<and> errs = [] then retire_adapter a1 else a1)
      in if gaRetired a2 then (a2, error_result a2 CompletionRetired)
         else (case Advance now (opRetention (gaNative a2)) of
             (r, Some e) \<Rightarrow> (let a3 = retire_adapter (a2\<lparr>gaNative := with_retention (gaNative a2) r\<rparr>)
                             in (a3, error_result a3 (AdvanceFailed e)))
           | (r, None) \<Rightarrow>
               (let a3 = a2\<lparr>gaNative := with_retention (gaNative a2) r\<rparr>;
                    result = next_publication q now errs a3
                in if (flCancelled fl \<or> late) \<and> errs = []
                   then (let a4 = retire_adapter a3 in (a4, error_result a4 ContextError))
                   else (a3\<lparr>gaTick := if gaTick a3 < now then now else gaTick a3,
                            gaDeadline := ocDeadline (grCycle q), gaPublished := gtSnapshot result\<rparr>, result))))"

definition I23Advance :: "u64 \<Rightarrow> growatt_adapter \<Rightarrow> growatt_adapter \<times> provider_error outcome" where
  "I23Advance now a =
     (if gaRetired a \<or> now < gaTick a then (a, Some RefusedAdvance)
      else (case Advance now (opRetention (gaNative a)) of
          (r, Some e) \<Rightarrow> (a\<lparr>gaNative := with_retention (gaNative a) r\<rparr>, Some (AdvanceFailed e))
        | (r, None) \<Rightarrow>
            (a\<lparr>gaNative := with_retention (gaNative a) r, gaTick := now,
               gaPublished := (if gaDeadline a \<le> now then (gaPublished a)\<lparr>gsDiagnostic := None\<rparr>
                 else gaPublished a)\<rparr>, None)))"

section \<open>Runs\<close>

record growatt_world =
  gwAdapter :: growatt_adapter
  gwFlight :: "flight option"
  gwResults :: "growatt_result list"

datatype growatt_action =
    GRefresh growatt_request bool bool
  | GStep u64 "bms_input option"
  | GFinish bool
  | GCancel
  | GAdvance u64
  | GRetire

definition growatt_start :: "growatt_adapter \<Rightarrow> growatt_world" where
  "growatt_start a = \<lparr>gwAdapter = a, gwFlight = None, gwResults = []\<rparr>"

definition cancel_flight :: "flight option \<Rightarrow> flight option" where
  "cancel_flight = map_option (\<lambda>fl. fl\<lparr>flCancelled := True\<rparr>)"

text \<open>\<^verbatim>\<open>I23Retire\<close> cancels the context of the refresh that is under way.\<close>

definition I23Retire :: "growatt_world \<Rightarrow> growatt_world" where
  "I23Retire w = w\<lparr>gwAdapter := retire_adapter (gwAdapter w),
     gwFlight := if gaCancel (gwAdapter w) then cancel_flight (gwFlight w) else gwFlight w\<rparr>"

definition I23Snapshot :: "growatt_world \<Rightarrow> growatt_snapshot" where
  "I23Snapshot w = gaPublished (gwAdapter w)"

fun growatt_act :: "growatt_action \<Rightarrow> growatt_world \<Rightarrow> growatt_world" where
  "growatt_act (GRefresh q usable cancelled) w =
     (case I23Refresh_start q usable cancelled (gwAdapter w) of
        (a, Inl result) \<Rightarrow> w\<lparr>gwAdapter := a, gwResults := gwResults w @ [result]\<rparr>
      | (a, Inr fl) \<Rightarrow> w\<lparr>gwAdapter := a, gwFlight := Some fl\<rparr>)"
| "growatt_act (GStep tick answer) w =
     (case gwFlight w of
        None \<Rightarrow> w
      | Some fl \<Rightarrow> (let (a, fl') = flight_step tick answer (gwAdapter w) fl
                    in w\<lparr>gwAdapter := a, gwFlight := Some fl'\<rparr>))"
| "growatt_act (GFinish late) w =
     (case gwFlight w of
        Some fl \<Rightarrow>
          (case flAt fl of
             Clocked errs now \<Rightarrow>
               (let (a, result) = I23Refresh_finish late fl errs now (gwAdapter w)
                in w\<lparr>gwAdapter := a, gwFlight := None, gwResults := gwResults w @ [result]\<rparr>)
           | InCycle _ \<Rightarrow> w)
      | None \<Rightarrow> w)"
| "growatt_act GCancel w = w\<lparr>gwFlight := cancel_flight (gwFlight w)\<rparr>"
| "growatt_act (GAdvance now) w = w\<lparr>gwAdapter := fst (I23Advance now (gwAdapter w))\<rparr>"
| "growatt_act GRetire w = I23Retire w"

section \<open>What a step does to the retained success\<close>

lemma Begin_success:
  "arRevision (fst (Begin c cyc now deadline r)) = arRevision r"
  "snd (Begin c cyc now deadline r) = None \<Longrightarrow>
     aaOutcome (arAttempt (fst (Begin c cyc now deadline r))) = OutcomePending"
  by (auto simp: Begin_def Let_def invalidate_def)

lemma advance_success:
  "arRevision (fst (advance now r)) = arRevision r"
  "aaOutcome (arAttempt r) \<noteq> OutcomeSuccess \<Longrightarrow> aaOutcome (arAttempt (fst (advance now r))) \<noteq> OutcomeSuccess"
  by (auto simp: advance_def Let_def)

lemma callback_success:
  "arRevision (fst (callback c cyc now r)) = arRevision r"
  "aaOutcome (arAttempt r) \<noteq> OutcomeSuccess \<Longrightarrow> aaOutcome (arAttempt (fst (callback c cyc now r))) \<noteq> OutcomeSuccess"
  by (auto simp: callback_def advance_success)

lemma Fail_success:
  "arRevision (fst (Fail c cyc now r)) = arRevision r"
  using callback_success(1) [of c cyc now r] by (auto simp: Fail_def split: prod.split option.split)

lemma complete_pending_success:
  assumes "complete_pending c cyc now i r = (r1, None)"
  shows "arRevision r < arRevision r1"
proof -
  have "arRevision r1 = arRevision r + 1 \<and> arRevision r \<noteq> MaxUint64"
    using assms by (auto simp: complete_pending_def set_outcome_def split: if_splits sum.splits)
  then show ?thesis by (simp add: word_less_nat_alt unat_Suc_below_max)
qed

lemma Complete_success:
  assumes "aaOutcome (arAttempt r) \<noteq> OutcomeSuccess" and "Complete c cyc now i r = (r1, None)"
  shows "arRevision r < arRevision r1"
proof (rule Complete_cases [of c cyc now i r])
  fix e assume "Complete c cyc now i r = (r, Some e)"
  then show ?thesis using assms(2) by simp
next
  fix r2 x assume "callback c cyc now r = (r2, None)" and "Complete c cyc now i r = (r2, x)"
    and "x = None \<longleftrightarrow> aaOutcome (arAttempt r2) = OutcomeSuccess \<and> sameInput i r2"
  then show ?thesis using assms callback_success(2) [of r c cyc now] by simp
next
  assume "Complete c cyc now i r = complete_pending c cyc now i (set_outcome OutcomeFailed (r\<lparr>arTick := now\<rparr>))"
  with assms(2) have "complete_pending c cyc now i (set_outcome OutcomeFailed (r\<lparr>arTick := now\<rparr>)) = (r1, None)"
    by simp
  from complete_pending_success [OF this] show ?thesis by simp
qed

lemma Complete_progress_of: "Complete c cyc now i r = (r1, x) \<Longrightarrow> retention_progress r r1 \<and> (retention_inv r \<longrightarrow> retention_inv r1)"
  using Complete_progress [of r c cyc now i] Complete_inv [of r c cyc now i] by auto

section \<open>Diagnostics belong to their base\<close>

lemma decoded_native:
  assumes "DecodeGrowattBMSTypedReadOnlyStatus (input_of ob) = Inr st"
  shows "NativeObservation st = ob"
  using DecodeGrowattBMSTypedReadOnlyStatus_Inr(3) [OF assms] by (cases ob) (simp add: native_of_def input_of_def)

text \<open>The words of the base that a diagnostic repeats.\<close>

definition topology_word :: "bms_status \<Rightarrow> u16" where
  "topology_word st = slWords (boSlices (NativeObservation st) ! 1) ! 18"

definition balance_word :: "bms_status \<Rightarrow> u16" where
  "balance_word st = slWords (boSlices (NativeObservation st) ! 2) ! 9"

lemma committed_candidate:
  assumes "NewGrowattDiagnosticCommitBase st c = Inr base"
    and "CheckGrowattDiagnosticCommit (Some base) c' expected i = Inr candidate"
  shows "c' = c" and "caContext candidate = c"
    and "ccNativeIdentity c = commit_identity_of (boSlices (NativeObservation st))"
    and "caDiagnostic candidate = diagnostic_of i (topology_word st) (balance_word st)"
    and "caBatteryID candidate = ucast (drop_bit 8 (topology_word st) AND 0x3f)"
    and "biUnitID i = boUnitID (NativeObservation st)"
    and "caReportedGroupWord candidate = expected"
proof -
  obtain decoded where dec: "DecodeGrowattBMSTypedReadOnlyStatus (input_of (NativeObservation st)) = Inr decoded"
    and base: "base = \<lparr>cbContext = c, cbBase = decoded\<rparr>"
    and native: "ccNativeIdentity c = commit_identity_of (boSlices (NativeObservation st))"
    using assms(1) by (auto simp: NewGrowattDiagnosticCommitBase_def Let_def split: sum.splits if_splits)
  have ob: "NativeObservation decoded = NativeObservation st" by (rule decoded_native [OF dec])
  obtain d where d: "DecodeGrowattBMSMultiGroupDiagnostic decoded i = Inr d"
    and c': "c' = c" "bdReportedGroupID d = expected"
    and candidate: "candidate = \<lparr>caContext = c, caBatteryID = bdBatteryID d,
        caReportedGroupWord = bdReportedGroupID d, caDiagnostic = d\<rparr>"
    using assms(2) by (auto simp: CheckGrowattDiagnosticCommit_def base split: sum.splits if_splits)
  have "d = diagnostic_of i (topology_word st) (balance_word st)" and "biUnitID i = boUnitID (NativeObservation st)"
    using d by (auto simp: DecodeGrowattBMSMultiGroupDiagnostic_def Let_def ob topology_word_def balance_word_def
        split: sum.splits if_splits option.splits)
  then show "c' = c" "caContext candidate = c"
    "ccNativeIdentity c = commit_identity_of (boSlices (NativeObservation st))"
    "caDiagnostic candidate = diagnostic_of i (topology_word st) (balance_word st)"
    "caBatteryID candidate = ucast (drop_bit 8 (topology_word st) AND 0x3f)"
    "biUnitID i = boUnitID (NativeObservation st)" "caReportedGroupWord candidate = expected"
    using candidate c' native by (auto simp: diagnostic_of_def Let_def)
qed

text \<open>A published diagnostic: of the published success, under the published link.\<close>

definition diagnostic_ok :: "growatt_snapshot \<Rightarrow> bool" where
  "diagnostic_ok s \<longleftrightarrow>
     (\<forall>candidate. gsDiagnostic s = Some candidate \<longrightarrow>
        (\<exists>st. asState (gsAggregate s) = StateCurrent \<and> asValue (gsAggregate s) = Some st
           \<and> glContext (gsLink s) = asSuccessContext (gsAggregate s)
           \<and> glCycle (gsLink s) = asSuccessCycle (gsAggregate s)
           \<and> glRevision (gsLink s) = asSuccessRevision (gsAggregate s)
           \<and> ccBaseRecordID (caContext candidate) = glReceipt (gsLink s)
           \<and> ccCycle (caContext candidate) = glCycle (gsLink s)
           \<and> ccNativeIdentity (caContext candidate) = commit_identity_of (boSlices (NativeObservation st))
           \<and> caBatteryID candidate = ucast (drop_bit 8 (topology_word st) AND 0x3f)
           \<and> bdNativeBalanceStates (caDiagnostic candidate)
               = map (\<lambda>cell. balance_word st AND push_bit cell 1 \<noteq> 0) [0..<16]))"

definition published_ok :: "growatt_snapshot \<Rightarrow> bool" where
  "published_ok s \<longleftrightarrow> snapshot_ok (gsAggregate s) \<and> diagnostic_ok s \<and> (gsRetired s \<longrightarrow> gsDiagnostic s = None)"

lemma fresh_success_state: "fresh_success q (Snapshot r) \<Longrightarrow> asState (Snapshot r) = StateCurrent"
  by (auto simp: fresh_success_def Snapshot_def aggregate_state_def split: if_splits)

lemma judged_candidate:
  assumes "judge_diagnostic q now tick view d = Inr (Inr candidate)"
  obtains st base where "asValue view = Some st"
    and "NewGrowattDiagnosticCommitBase st (commit_context_of q view st) = Inr base"
    and "CheckGrowattDiagnosticCommit (Some base) (gdContext d) (gdExpectedGroup d) (gdInput d) = Inr candidate"
  using assms by (auto simp: judge_diagnostic_def split: if_splits option.splits sum.splits)

lemma next_publication_ok:
  assumes "retention_inv (opRetention (gaNative a))"
  shows "published_ok (gtSnapshot (next_publication q now errs a))"
proof -
  let ?view = "Snapshot (opRetention (gaNative a))"
  let ?s = "gtSnapshot (next_publication q now errs a)"
  have view: "gsAggregate ?s = ?view" and live: "\<not> gsRetired ?s"
    by (simp_all add: next_publication_def Let_def split: option.split sum.split)
  have "diagnostic_ok ?s"
    unfolding diagnostic_ok_def
  proof (intro allI impI)
    fix candidate assume "gsDiagnostic ?s = Some candidate"
    then obtain d where fresh: "fresh_success q ?view" and linked: "gsLink ?s = link_of q ?view"
      and d: "judge_diagnostic q now (gaTick a) ?view d = Inr (Inr candidate)"
      by (auto simp: next_publication_def Let_def split: option.splits sum.splits if_splits)
    obtain st base where st: "asValue ?view = Some st"
      and base: "NewGrowattDiagnosticCommitBase st (commit_context_of q ?view st) = Inr base"
      and checked: "CheckGrowattDiagnosticCommit (Some base) (gdContext d) (gdExpectedGroup d) (gdInput d) = Inr candidate"
      by (rule judged_candidate [OF d])
    note c = committed_candidate [OF base checked]
    show "\<exists>st. asState (gsAggregate ?s) = StateCurrent \<and> asValue (gsAggregate ?s) = Some st
           \<and> glContext (gsLink ?s) = asSuccessContext (gsAggregate ?s)
           \<and> glCycle (gsLink ?s) = asSuccessCycle (gsAggregate ?s)
           \<and> glRevision (gsLink ?s) = asSuccessRevision (gsAggregate ?s)
           \<and> ccBaseRecordID (caContext candidate) = glReceipt (gsLink ?s)
           \<and> ccCycle (caContext candidate) = glCycle (gsLink ?s)
           \<and> ccNativeIdentity (caContext candidate) = commit_identity_of (boSlices (NativeObservation st))
           \<and> caBatteryID candidate = ucast (drop_bit 8 (topology_word st) AND 0x3f)
           \<and> bdNativeBalanceStates (caDiagnostic candidate)
               = map (\<lambda>cell. balance_word st AND push_bit cell 1 \<noteq> 0) [0..<16]"
      using fresh_success_state [OF fresh] st c
      by (auto simp: view linked link_of_def commit_context_of_def diagnostic_of_def Let_def)
  qed
  then show ?thesis using Snapshot_ok [OF assms] view live by (simp add: published_ok_def)
qed

lemma next_publication_link:
  "gsLink (gtSnapshot (next_publication q now errs a)) = gsLink (gaPublished a)
   \<or> errs = [] \<and> gsLink (gtSnapshot (next_publication q now errs a)) = link_of q (Snapshot (opRetention (gaNative a)))"
  by (simp add: next_publication_def Let_def split: option.split sum.split)

section \<open>Every interleaving keeps the invariant\<close>

definition native_of_adapter :: "growatt_adapter \<Rightarrow> retention" where
  "native_of_adapter a = opRetention (gaNative a)"

definition adapter_inv :: "growatt_adapter \<Rightarrow> bool" where
  "adapter_inv a \<longleftrightarrow> retention_inv (native_of_adapter a) \<and> published_ok (gaPublished a)
     \<and> gaCancel a = gaBusy a \<and> gsRetired (gaPublished a) = gaRetired a
     \<and> glGeneration (gsLink (gaPublished a)) \<le> gaGeneration a
     \<and> glRevision (gsLink (gaPublished a)) \<le> arRevision (native_of_adapter a)"

text \<open>What holds at each position of a refresh: its success, if any, is newer than the published link.\<close>

fun at_inv :: "flight_pc \<Rightarrow> growatt_adapter \<Rightarrow> bool" where
  "at_inv (InCycle CyStart) a = True"
| "at_inv (InCycle CyBegin) a = True"
| "at_inv (InCycle (CyDone errs)) a =
     (errs = [] \<longrightarrow> glRevision (gsLink (gaPublished a)) < arRevision (native_of_adapter a))"
| "at_inv (Clocked errs now) a =
     (errs = [] \<longrightarrow> glRevision (gsLink (gaPublished a)) < arRevision (native_of_adapter a))"
| "at_inv (InCycle (CyFail errs at)) a = (errs \<noteq> [])"
| "at_inv (InCycle _) a = (aaOutcome (arAttempt (native_of_adapter a)) \<noteq> OutcomeSuccess)"

definition flight_inv :: "flight \<Rightarrow> growatt_adapter \<Rightarrow> bool" where
  "flight_inv fl a \<longleftrightarrow> gaBusy a \<and> at_inv (flAt fl) a \<and> grGeneration (flRequest fl) = gaGeneration a
     \<and> (\<not> gaRetired a \<longrightarrow> glGeneration (gsLink (gaPublished a)) < gaGeneration a)"

definition growatt_inv :: "growatt_world \<Rightarrow> bool" where
  "growatt_inv w \<longleftrightarrow> adapter_inv (gwAdapter w)
     \<and> (case gwFlight w of None \<Rightarrow> \<not> gaBusy (gwAdapter w) | Some fl \<Rightarrow> flight_inv fl (gwAdapter w))"

lemma at_inv_depends:
  assumes "at_inv pc a" and "gsLink (gaPublished b) = gsLink (gaPublished a)"
    and "arRevision (native_of_adapter b) = arRevision (native_of_adapter a)"
    and "aaOutcome (arAttempt (native_of_adapter a)) \<noteq> OutcomeSuccess
         \<Longrightarrow> aaOutcome (arAttempt (native_of_adapter b)) \<noteq> OutcomeSuccess"
  shows "at_inv pc b"
  using assms by (cases "(pc, a)" rule: at_inv.cases) auto

lemma retire_adapter_simps [simp]:
  "gaNative (retire_adapter a) = gaNative a" "gaBusy (retire_adapter a) = gaBusy a"
  "gaRetired (retire_adapter a)" "gaGeneration (retire_adapter a) = gaGeneration a"
  "gaCancel (retire_adapter a) = gaCancel a" "gaTick (retire_adapter a) = gaTick a"
  "gsLink (gaPublished (retire_adapter a)) = gsLink (gaPublished a)"
  "gsAggregate (gaPublished (retire_adapter a)) = gsAggregate (gaPublished a)"
  "gsDiagnostic (gaPublished (retire_adapter a)) = None" "gsRetired (gaPublished (retire_adapter a))"
  "native_of_adapter (retire_adapter a) = native_of_adapter a"
  by (simp_all add: retire_adapter_def native_of_adapter_def)

lemma native_of_adapter_simps [simp]:
  "native_of_adapter (a\<lparr>gaNative := p\<rparr>) = opRetention p"
  "native_of_adapter (a\<lparr>gaBusy := b\<rparr>) = native_of_adapter a"
  "native_of_adapter (a\<lparr>gaCancel := b\<rparr>) = native_of_adapter a"
  "native_of_adapter (a\<lparr>gaGeneration := g\<rparr>) = native_of_adapter a"
  "native_of_adapter (a\<lparr>gaTick := t\<rparr>) = native_of_adapter a"
  "native_of_adapter (a\<lparr>gaDeadline := t\<rparr>) = native_of_adapter a"
  "native_of_adapter (a\<lparr>gaPublished := s\<rparr>) = native_of_adapter a"
  "opRetention (with_retention p r) = r"
  by (simp_all add: native_of_adapter_def with_retention_def)

lemma published_ok_clear: "published_ok s \<Longrightarrow> published_ok (s\<lparr>gsDiagnostic := None\<rparr>)"
  by (simp add: published_ok_def diagnostic_ok_def)

lemma retire_adapter_inv: "adapter_inv a \<Longrightarrow> adapter_inv (retire_adapter a)"
  by (simp add: adapter_inv_def published_ok_def diagnostic_ok_def)

lemma adapter_inv_native:
  assumes "adapter_inv a" and "retention_inv (opRetention p)" and "arRevision (native_of_adapter a) \<le> arRevision (opRetention p)"
  shows "adapter_inv (a\<lparr>gaNative := p\<rparr>)"
  using assms by (auto simp: adapter_inv_def intro: order_trans)

text \<open>One step of the cycle: the retention it leaves, and the position it moves to.\<close>

lemma cycle_step_native:
  assumes "retention_inv (opRetention p)"
  shows "retention_inv (opRetention (fst (cycle_step oc b tick answer p pc)))
    \<and> retention_progress (opRetention p) (opRetention (fst (cycle_step oc b tick answer p pc)))"
proof -
  have "opRetention (fst (cycle_step oc b tick answer p pc)) = opRetention p
     \<or> (\<exists>e. opRetention (fst (cycle_step oc b tick answer p pc)) = retention_step e (opRetention p))"
    by (cases "(oc, b, tick, answer, p, pc)" rule: cycle_step.cases)
      (auto simp: split_beta Let_def retention_step_def intro: exI [of _ "EvBegin _ _ _ _"] exI [of _ "EvFail _ _ _"]
        exI [of _ "EvComplete _ _ _ _"])
  then show ?thesis using assms retention_step_inv retention_step_progress by auto
qed

lemma cycle_step_at:
  assumes "at_inv (InCycle pc) a" and "glRevision (gsLink (gaPublished a)) \<le> arRevision (native_of_adapter a)"
    and "cycle_step oc b tick answer (gaNative a) pc = (p, pc')"
  shows "at_inv (InCycle pc') (a\<lparr>gaNative := p\<rparr>)"
proof (cases pc)
  case (CyComplete i now)
  then show ?thesis
    using assms Complete_success [of "native_of_adapter a" "ocContext oc" "ocCycle oc" now i]
    by (auto simp: Let_def joined_def native_of_adapter_def with_retention_def split: prod.splits option.splits
        intro: le_less_trans)
next
  case CyBegin
  then show ?thesis
    using assms Begin_success(2) [of "ocContext oc" "ocCycle oc" tick "ocDeadline oc" "native_of_adapter a"]
    by (auto simp: Let_def native_of_adapter_def with_retention_def split: prod.splits option.splits)
next
  case (CyFail errs at)
  then show ?thesis using assms by (auto simp: Let_def split: prod.splits)
next
  case (CyAnswered i now)
  then show ?thesis using assms by (auto simp: judge_answer_def native_of_adapter_def split: option.splits)
qed (use assms in \<open>auto simp: native_of_adapter_def split: if_splits\<close>)

lemma flight_step_inv:
  assumes "adapter_inv a" and "flight_inv fl a" and "flight_step tick answer a fl = (a', fl')"
  shows "adapter_inv a' \<and> flight_inv fl' a'"
proof (cases "flAt fl")
  case (Clocked errs now)
  with assms show ?thesis by (simp add: flight_step_def)
next
  case (InCycle pc)
  show ?thesis
  proof (cases "\<exists>errs. pc = CyDone errs")
    case True
    then obtain errs where "pc = CyDone errs" ..
    with assms InCycle show ?thesis by (auto simp: flight_step_def flight_inv_def)
  next
    case False
    obtain p pc' where step: "cycle_step (grCycle (flRequest fl)) (flCancelled fl) tick answer (gaNative a) pc = (p, pc')"
      by (cases "cycle_step (grCycle (flRequest fl)) (flCancelled fl) tick answer (gaNative a) pc")
    then have moved: "a' = a\<lparr>gaNative := p\<rparr>" "fl' = fl\<lparr>flAt := InCycle pc'\<rparr>"
      using assms(3) InCycle False by (auto simp: flight_step_def split: cycle_pc.splits)
    have "retention_inv (opRetention p) \<and> arRevision (native_of_adapter a) \<le> arRevision (opRetention p)"
      using cycle_step_native [of "gaNative a" "grCycle (flRequest fl)" "flCancelled fl" tick answer pc] step assms(1)
      by (simp add: adapter_inv_def native_of_adapter_def retention_progress_def)
    moreover have "at_inv (InCycle pc') (a\<lparr>gaNative := p\<rparr>)"
      by (rule cycle_step_at [OF _ _ step]) (use assms InCycle in \<open>simp_all add: flight_inv_def adapter_inv_def\<close>)
    ultimately show ?thesis
      using assms(1,2) by (simp add: moved flight_inv_def adapter_inv_native)
  qed
qed

lemma advance_native:
  assumes "adapter_inv a" and "Advance now (native_of_adapter a) = (r, x)"
  shows "adapter_inv (a\<lparr>gaNative := with_retention (gaNative a) r\<rparr>)" and "arRevision r = arRevision (native_of_adapter a)"
    and "retention_progress (native_of_adapter a) r"
    and "at_inv pc a \<Longrightarrow> at_inv pc (a\<lparr>gaNative := with_retention (gaNative a) r\<rparr>)"
proof -
  have r: "r = fst (advance now (native_of_adapter a))" using assms(2) by (simp add: Advance_def)
  show rev: "arRevision r = arRevision (native_of_adapter a)" by (simp add: r advance_success)
  show "retention_progress (native_of_adapter a) r" unfolding r by (rule advance_progress)
  have "retention_inv r" using assms(1) by (simp add: r adapter_inv_def advance_inv)
  with assms(1) rev show "adapter_inv (a\<lparr>gaNative := with_retention (gaNative a) r\<rparr>)"
    by (intro adapter_inv_native) simp_all
  show "at_inv pc (a\<lparr>gaNative := with_retention (gaNative a) r\<rparr>)" if "at_inv pc a"
    by (rule at_inv_depends [OF that]) (simp_all add: r advance_success)
qed

lemma finish_inv:
  assumes "adapter_inv a" and "flight_inv fl a" and "flAt fl = Clocked errs now"
    and "I23Refresh_finish late fl errs now a = (a', result)"
  shows "adapter_inv a' \<and> \<not> gaBusy a'"
proof -
  let ?a1 = "a\<lparr>gaBusy := False, gaCancel := False\<rparr>"
  let ?a2 = "if flCancelled fl \<and> errs = [] then retire_adapter ?a1 else ?a1"
  have "adapter_inv ?a1" using assms(1) by (simp add: adapter_inv_def)
  then have a2: "adapter_inv ?a2" and idle: "\<not> gaBusy ?a2" by (simp_all add: retire_adapter_inv)
  obtain r x where adv: "Advance now (native_of_adapter ?a2) = (r, x)" by (cases "Advance now (native_of_adapter ?a2)")
  let ?a3 = "?a2\<lparr>gaNative := with_retention (gaNative ?a2) r\<rparr>"
  have a3: "adapter_inv ?a3" by (rule advance_native(1) [OF a2 adv])
  let ?s = "gtSnapshot (next_publication (flRequest fl) now errs ?a3)"
  let ?t = "if gaTick ?a3 < now then now else gaTick ?a3"
  have published: "adapter_inv (?a3\<lparr>gaTick := ?t, gaDeadline := d, gaPublished := ?s\<rparr>)" if live: "\<not> gaRetired ?a2" for d
  proof -
    have "published_ok ?s"
      using a3 by (intro next_publication_ok) (simp add: adapter_inv_def native_of_adapter_def)
    moreover have "\<not> gsRetired ?s" by (simp add: next_publication_def Let_def split: option.split sum.split)
    moreover have "glGeneration (gsLink ?s) \<le> gaGeneration ?a3 \<and> glRevision (gsLink ?s) \<le> arRevision (native_of_adapter ?a3)"
      using next_publication_link [of "flRequest fl" now errs ?a3] a3 assms(2)
      by (auto simp: adapter_inv_def link_of_def Snapshot_def flight_inv_def native_of_adapter_def)
    ultimately show ?thesis using a3 live by (simp add: adapter_inv_def)
  qed
  consider "a' = ?a2" | "a' = retire_adapter ?a3" | d where "\<not> gaRetired ?a2" "a' = ?a3\<lparr>gaTick := ?t, gaDeadline := d, gaPublished := ?s\<rparr>"
    using assms(4) adv
    unfolding I23Refresh_finish_def Let_def native_of_adapter_def
    by (auto split: if_splits option.splits prod.splits)
  then show ?thesis
  proof cases
    case 1
    then show ?thesis using a2 idle by simp
  next
    case 2
    then show ?thesis using retire_adapter_inv [OF a3] idle by (simp split: if_splits)
  next
    case 3
    then show ?thesis using published idle by (simp split: if_splits)
  qed
qed

section \<open>Runs of the adapter\<close>

lemma refresh_start_inv:
  assumes "adapter_inv a" and "I23Refresh_start q usable cancelled a = (a', x)"
  shows "(\<forall>result. x = Inl result \<longrightarrow> a' = a)
    \<and> (\<forall>fl. x = Inr fl \<longrightarrow> \<not> gaBusy a \<and> \<not> gaRetired a \<and> adapter_inv a' \<and> flight_inv fl a')"
  using assms
  by (auto simp: I23Refresh_start_def refresh_refused_def adapter_inv_def flight_inv_def freeze_request_def
      split: if_splits)

lemma I23Advance_inv:
  assumes "adapter_inv a"
  shows "adapter_inv (fst (I23Advance now a))" and "flight_inv fl a \<Longrightarrow> flight_inv fl (fst (I23Advance now a))"
    and "gaBusy (fst (I23Advance now a)) = gaBusy a"
proof -
  obtain r x where adv: "Advance now (native_of_adapter a) = (r, x)" by (cases "Advance now (native_of_adapter a)")
  let ?b = "a\<lparr>gaNative := with_retention (gaNative a) r\<rparr>"
  have b: "adapter_inv ?b" by (rule advance_native(1) [OF assms adv])
  consider "fst (I23Advance now a) = a" | "fst (I23Advance now a) = ?b"
    | s where "s = gaPublished a \<or> s = (gaPublished a)\<lparr>gsDiagnostic := None\<rparr>"
        "fst (I23Advance now a) = ?b\<lparr>gaTick := now, gaPublished := s\<rparr>"
  proof -
    have "fst (I23Advance now a) = a \<or> fst (I23Advance now a) = ?b
        \<or> (\<exists>s. (s = gaPublished a \<or> s = (gaPublished a)\<lparr>gsDiagnostic := None\<rparr>)
             \<and> fst (I23Advance now a) = ?b\<lparr>gaTick := now, gaPublished := s\<rparr>)"
      using adv unfolding I23Advance_def native_of_adapter_def by (auto split: option.split)
    then show thesis using that by blast
  qed
  note cases = this
  show "gaBusy (fst (I23Advance now a)) = gaBusy a" by (cases rule: cases) auto
  show "adapter_inv (fst (I23Advance now a))"
  proof (cases rule: cases)
    case 3
    then show ?thesis using b by (auto simp: adapter_inv_def published_ok_clear)
  qed (use assms b in auto)
  show "flight_inv fl (fst (I23Advance now a))" if fl: "flight_inv fl a"
  proof (cases rule: cases)
    case 3
    have "at_inv (flAt fl) ?b" by (rule advance_native(4) [OF assms adv]) (use fl in \<open>simp add: flight_inv_def\<close>)
    then have "at_inv (flAt fl) (?b\<lparr>gaTick := now, gaPublished := s\<rparr>)"
      by (rule at_inv_depends) (use 3 in auto)
    then show ?thesis using 3 fl by (auto simp: flight_inv_def)
  next
    case 2
    then show ?thesis using fl advance_native(4) [OF assms adv] by (simp add: flight_inv_def)
  qed (use fl in simp)
qed

lemma cancelled_flight_inv [simp]: "flight_inv (fl\<lparr>flCancelled := b\<rparr>) a = flight_inv fl a"
  by (simp add: flight_inv_def)

lemma retired_flight_inv: "flight_inv fl a \<Longrightarrow> flight_inv fl (retire_adapter a)"
  by (auto simp: flight_inv_def intro: at_inv_depends)

lemma growatt_act_inv:
  assumes "growatt_inv w"
  shows "growatt_inv (growatt_act e w)"
proof (cases e)
  case (GRefresh q usable cancelled)
  obtain a x where s: "I23Refresh_start q usable cancelled (gwAdapter w) = (a, x)"
    by (cases "I23Refresh_start q usable cancelled (gwAdapter w)")
  have "adapter_inv (gwAdapter w)" using assms by (simp add: growatt_inv_def)
  from refresh_start_inv [OF this s] show ?thesis
    using assms by (cases x) (simp_all add: GRefresh s growatt_inv_def split: option.splits)
next
  case (GStep tick answer)
  show ?thesis
  proof (cases "gwFlight w")
    case (Some fl)
    obtain a fl' where s: "flight_step tick answer (gwAdapter w) fl = (a, fl')"
      by (cases "flight_step tick answer (gwAdapter w) fl")
    from flight_step_inv [OF _ _ s] show ?thesis
      using assms by (simp add: GStep Some s growatt_inv_def)
  qed (use assms GStep in simp)
next
  case (GFinish late)
  show ?thesis
  proof (cases "gwFlight w")
    case (Some fl)
    show ?thesis
    proof (cases "flAt fl")
      case (Clocked errs now)
      obtain a result where s: "I23Refresh_finish late fl errs now (gwAdapter w) = (a, result)"
        by (cases "I23Refresh_finish late fl errs now (gwAdapter w)")
      from finish_inv [OF _ _ Clocked s] show ?thesis
        using assms by (simp add: GFinish Some Clocked s growatt_inv_def)
    qed (use assms GFinish Some in simp)
  qed (use assms GFinish in simp)
next
  case GCancel
  then show ?thesis using assms by (cases "gwFlight w") (simp_all add: growatt_inv_def cancel_flight_def)
next
  case (GAdvance now)
  then show ?thesis using assms I23Advance_inv
    by (cases "gwFlight w") (simp_all add: growatt_inv_def)
next
  case GRetire
  then show ?thesis using assms retire_adapter_inv retired_flight_inv
    by (cases "gwFlight w") (simp_all add: growatt_inv_def I23Retire_def cancel_flight_def)
qed

definition results_failed :: "growatt_world \<Rightarrow> growatt_world \<Rightarrow> bool" where
  "results_failed w w' \<longleftrightarrow> (\<exists>rs. gwResults w' = gwResults w @ rs \<and> list_all (\<lambda>r. gtAggregateError r \<noteq> None) rs)"

definition link_le :: "growatt_link \<Rightarrow> growatt_link \<Rightarrow> bool" where
  "link_le l l' \<longleftrightarrow> l' = l \<or> (glGeneration l < glGeneration l' \<and> glRevision l < glRevision l')"

definition growatt_progress :: "growatt_world \<Rightarrow> growatt_world \<Rightarrow> bool" where
  "growatt_progress w w' \<longleftrightarrow>
     gaGeneration (gwAdapter w) \<le> gaGeneration (gwAdapter w') \<and> gaTick (gwAdapter w) \<le> gaTick (gwAdapter w')
     \<and> link_le (gsLink (I23Snapshot w)) (gsLink (I23Snapshot w'))
     \<and> (gaRetired (gwAdapter w) \<longrightarrow> gaRetired (gwAdapter w') \<and> I23Snapshot w' = I23Snapshot w \<and> results_failed w w')"

lemma results_failed_refl [simp]: "results_failed w w"
  by (simp add: results_failed_def)

lemma results_failed_trans: "results_failed a b \<Longrightarrow> results_failed b c \<Longrightarrow> results_failed a c"
  unfolding results_failed_def by fastforce

lemma link_le_trans: "link_le a b \<Longrightarrow> link_le b c \<Longrightarrow> link_le a c"
  unfolding link_le_def by (auto intro: less_trans)

lemma growatt_progress_refl [simp]: "growatt_progress w w"
  by (simp add: growatt_progress_def link_le_def)

lemma growatt_progress_trans: "growatt_progress a b \<Longrightarrow> growatt_progress b c \<Longrightarrow> growatt_progress a c"
  unfolding growatt_progress_def by (auto intro: order_trans link_le_trans results_failed_trans)

lemma retired_published:
  assumes "adapter_inv a" and "gaRetired a"
  shows "gaPublished (retire_adapter a) = gaPublished a"
  using assms by (simp add: adapter_inv_def published_ok_def retire_adapter_def)

lemma finish_progress:
  assumes "adapter_inv a" and "flight_inv fl a" and "flAt fl = Clocked errs now"
    and "I23Refresh_finish late fl errs now a = (a', result)"
  shows "gaGeneration a' = gaGeneration a \<and> gaTick a \<le> gaTick a'
    \<and> link_le (gsLink (gaPublished a)) (gsLink (gaPublished a'))
    \<and> (gaRetired a \<longrightarrow> gaRetired a' \<and> gaPublished a' = gaPublished a \<and> gtAggregateError result \<noteq> None)"
proof (cases "gaRetired a")
  case True
  let ?a1 = "a\<lparr>gaBusy := False, gaCancel := False\<rparr>"
  have "gaPublished (retire_adapter ?a1) = gaPublished a"
    using retired_published [of ?a1] assms(1) True by (simp add: adapter_inv_def)
  then show ?thesis
    using assms(4) True by (auto simp: I23Refresh_finish_def Let_def link_le_def error_result_def split: if_splits)
next
  case False
  let ?a1 = "a\<lparr>gaBusy := False, gaCancel := False\<rparr>"
  let ?a2 = "if flCancelled fl \<and> errs = [] then retire_adapter ?a1 else ?a1"
  have a1: "adapter_inv ?a1" using assms(1) by (simp add: adapter_inv_def)
  obtain r x where adv: "Advance now (native_of_adapter ?a2) = (r, x)" by (cases "Advance now (native_of_adapter ?a2)")
  let ?a3 = "?a2\<lparr>gaNative := with_retention (gaNative ?a2) r\<rparr>"
  let ?s = "gtSnapshot (next_publication (flRequest fl) now errs ?a3)"
  let ?t = "if gaTick ?a3 < now then now else gaTick ?a3"
  have a2: "adapter_inv ?a2" using a1 by (simp add: retire_adapter_inv)
  have "errs = [] \<Longrightarrow> link_le (gsLink (gaPublished a)) (link_of (flRequest fl) (Snapshot (opRetention (gaNative ?a3))))"
    using assms(2,3) False advance_native(2) [OF a2 adv]
    by (auto simp: link_le_def link_of_def Snapshot_def flight_inv_def native_of_adapter_def)
  then have link: "link_le (gsLink (gaPublished a)) (gsLink ?s)"
    using next_publication_link [of "flRequest fl" now errs ?a3] by (auto simp: link_le_def)
  consider "a' = ?a2" | "a' = retire_adapter ?a3" | d where "a' = ?a3\<lparr>gaTick := ?t, gaDeadline := d, gaPublished := ?s\<rparr>"
    using assms(4) adv
    unfolding I23Refresh_finish_def Let_def native_of_adapter_def
    by (auto split: if_splits option.splits prod.splits)
  then show ?thesis
  proof cases
    case 3
    then show ?thesis using link False by auto
  qed (use False in \<open>auto simp: link_le_def\<close>)
qed

lemma flight_step_keeps:
  assumes "flight_step tick answer a fl = (a', fl')"
  shows "gaGeneration a' = gaGeneration a" and "gaTick a' = gaTick a" and "gaPublished a' = gaPublished a"
    and "gaRetired a' = gaRetired a"
  using assms by (auto simp: flight_step_def split: flight_pc.splits cycle_pc.splits prod.splits)

lemma I23Advance_progress:
  assumes "adapter_inv a"
  shows "gaGeneration (fst (I23Advance now a)) = gaGeneration a \<and> gaTick a \<le> gaTick (fst (I23Advance now a))
    \<and> gsLink (gaPublished (fst (I23Advance now a))) = gsLink (gaPublished a)
    \<and> gaRetired (fst (I23Advance now a)) = gaRetired a
    \<and> (gaRetired a \<longrightarrow> fst (I23Advance now a) = a)"
  by (auto simp: I23Advance_def split: prod.split option.split)

lemma growatt_act_progress:
  assumes "growatt_inv w"
  shows "growatt_progress w (growatt_act e w)"
proof (cases e)
  case (GRefresh q usable cancelled)
  show ?thesis
    by (auto simp: GRefresh I23Refresh_start_def refresh_refused_def growatt_progress_def link_le_def results_failed_def
        I23Snapshot_def error_result_def split: if_splits)
next
  case (GStep tick answer)
  show ?thesis
  proof (cases "gwFlight w")
    case (Some fl)
    obtain a fl' where s: "flight_step tick answer (gwAdapter w) fl = (a, fl')"
      by (cases "flight_step tick answer (gwAdapter w) fl")
    show ?thesis
      using flight_step_keeps [OF s]
      by (simp add: GStep Some s growatt_progress_def link_le_def I23Snapshot_def results_failed_def)
  qed (simp add: GStep)
next
  case (GFinish late)
  show ?thesis
  proof (cases "gwFlight w")
    case (Some fl)
    show ?thesis
    proof (cases "flAt fl")
      case (Clocked errs now)
      obtain a result where s: "I23Refresh_finish late fl errs now (gwAdapter w) = (a, result)"
        by (cases "I23Refresh_finish late fl errs now (gwAdapter w)")
      have "adapter_inv (gwAdapter w)" "flight_inv fl (gwAdapter w)"
        using assms Some by (simp_all add: growatt_inv_def)
      from finish_progress [OF this Clocked s] show ?thesis
        by (simp add: GFinish Some Clocked s growatt_progress_def I23Snapshot_def results_failed_def)
    qed (simp add: GFinish Some)
  qed (simp add: GFinish)
next
  case GCancel
  then show ?thesis by (simp add: growatt_progress_def link_le_def I23Snapshot_def results_failed_def)
next
  case (GAdvance now)
  have "adapter_inv (gwAdapter w)" using assms by (simp add: growatt_inv_def)
  from I23Advance_progress [OF this, of now] show ?thesis
    by (simp add: GAdvance growatt_progress_def link_le_def I23Snapshot_def results_failed_def)
next
  case GRetire
  have "adapter_inv (gwAdapter w)" using assms by (simp add: growatt_inv_def)
  then show ?thesis using retired_published
    by (simp add: GRetire growatt_progress_def link_le_def I23Snapshot_def results_failed_def I23Retire_def)
qed

interpretation growatt_machine: event_machine growatt_act "\<lambda>_. True" growatt_inv growatt_progress
  by unfold_locales (auto intro: growatt_act_inv growatt_act_progress growatt_progress_trans)

lemma new_adapter_inv:
  assumes "I23NewGrowattProvider maxTicks maxSlices maxWords reader = Some a"
  shows "growatt_inv (growatt_start a)"
proof -
  obtain r where r: "NewGrowattAggregateRetention maxTicks = Inr r"
    and a: "native_of_adapter a = r" "gaPublished a = \<lparr>gsAggregate = Snapshot r, gsLink = zero_link, gsDiagnostic = None,
        gsRetired = False\<rparr>" "\<not> gaBusy a" "\<not> gaCancel a" "\<not> gaRetired a" "gaGeneration a = 0"
    using assms by (auto simp: I23NewGrowattProvider_def NewGrowattAggregateOfflineProvider_def native_of_adapter_def
        split: if_splits option.splits sum.splits)
  then show ?thesis
    using new_retention_inv [OF r] Snapshot_ok [OF new_retention_inv [OF r]]
    by (simp add: growatt_start_def growatt_inv_def adapter_inv_def published_ok_def diagnostic_ok_def zero_link_def)
qed

lemma run_of_new_adapter:
  "I23NewGrowattProvider maxTicks maxSlices maxWords reader = Some a \<Longrightarrow>
     growatt_inv (fold growatt_act es (growatt_start a))"
  by (rule growatt_machine.run_inv) (auto intro: new_adapter_inv simp: list_all_iff)

section \<open>Every refresh ends\<close>

fun position :: "flight_pc \<Rightarrow> nat" where
  "position (InCycle CyStart) = 7"
| "position (InCycle CyBegin) = 6"
| "position (InCycle CyContext) = 5"
| "position (InCycle CyRead) = 4"
| "position (InCycle (CyAnswered i now)) = 3"
| "position (InCycle (CyFail es at)) = 2"
| "position (InCycle (CyComplete i now)) = 2"
| "position (InCycle (CyDone es)) = 1"
| "position (Clocked es now) = 0"

fun is_step :: "growatt_action \<Rightarrow> bool" where
  "is_step (GStep tick answer) = True"
| "is_step _ = False"

fun is_finish :: "growatt_action \<Rightarrow> bool" where
  "is_finish (GFinish late) = True"
| "is_finish _ = False"

lemma position_bound: "position pc \<le> 7"
  by (cases pc rule: position.cases) auto

lemma cycle_step_position:
  "\<nexists>es. pc = CyDone es \<Longrightarrow> position (InCycle (snd (cycle_step oc b tick answer p pc))) < position (InCycle pc)"
  by (cases "(oc, b, tick, answer, p, pc)" rule: cycle_step.cases)
    (auto simp: judge_answer_def split_beta Let_def split: option.split)

lemma flight_step_position:
  assumes "flight_step tick answer a fl = (a', fl')"
  shows "position (flAt fl') \<le> position (flAt fl) - 1"
proof (cases "flAt fl")
  case (InCycle pc)
  show ?thesis
  proof (cases "\<exists>es. pc = CyDone es")
    case True
    then show ?thesis using assms InCycle by (auto simp: flight_step_def)
  next
    case False
    obtain p pc' where step: "cycle_step (grCycle (flRequest fl)) (flCancelled fl) tick answer (gaNative a) pc = (p, pc')"
      by (cases "cycle_step (grCycle (flRequest fl)) (flCancelled fl) tick answer (gaNative a) pc")
    then have "flAt fl' = InCycle pc'"
      using assms InCycle False by (auto simp: flight_step_def split: cycle_pc.splits)
    then show ?thesis
      using cycle_step_position [OF False, of "grCycle (flRequest fl)" "flCancelled fl" tick answer "gaNative a"]
      by (simp add: InCycle step)
  qed
qed (use assms in \<open>simp add: flight_step_def\<close>)

lemma act_position:
  assumes "growatt_inv w" and "gwFlight w = Some fl" and "\<not> is_finish e"
  shows "\<exists>fl'. gwFlight (growatt_act e w) = Some fl'
    \<and> position (flAt fl') \<le> position (flAt fl) - (if is_step e then 1 else 0)"
proof (cases e)
  case (GRefresh q usable cancelled)
  have "gaBusy (gwAdapter w)" using assms(1,2) by (simp add: growatt_inv_def flight_inv_def)
  then show ?thesis using assms(2) by (simp add: GRefresh I23Refresh_start_def refresh_refused_def)
next
  case (GStep tick answer)
  obtain a fl' where s: "flight_step tick answer (gwAdapter w) fl = (a, fl')"
    by (cases "flight_step tick answer (gwAdapter w) fl")
  show ?thesis using flight_step_position [OF s] assms(2) by (simp add: GStep s)
qed (use assms(2,3) in \<open>auto simp: cancel_flight_def I23Retire_def\<close>)

lemma run_position:
  assumes "growatt_inv w" and "gwFlight w = Some fl" and "list_all (\<lambda>e. \<not> is_finish e) es"
  shows "\<exists>fl'. gwFlight (fold growatt_act es w) = Some fl'
    \<and> position (flAt fl') \<le> position (flAt fl) - length (filter is_step es)"
  using assms
proof (induction es arbitrary: w fl)
  case Nil
  then show ?case by simp
next
  case (Cons e es)
  then obtain fl1 where fl1: "gwFlight (growatt_act e w) = Some fl1"
    "position (flAt fl1) \<le> position (flAt fl) - (if is_step e then 1 else 0)"
    using act_position [of w fl e] by auto
  have "\<exists>fl'. gwFlight (fold growatt_act es (growatt_act e w)) = Some fl'
      \<and> position (flAt fl') \<le> position (flAt fl1) - length (filter is_step es)"
    by (rule Cons.IH) (use Cons.prems fl1(1) in \<open>simp_all add: growatt_act_inv\<close>)
  then show ?case using fl1(2) by (auto split: if_splits)
qed

lemma act_results: "\<exists>rs. gwResults (growatt_act e w) = gwResults w @ rs"
  by (cases e) (auto simp: I23Retire_def Let_def split: prod.split sum.split option.split flight_pc.split)

lemma run_results: "length (gwResults w) \<le> length (gwResults (fold growatt_act es w))"
proof (induction es arbitrary: w)
  case (Cons e es)
  obtain rs where "gwResults (growatt_act e w) = gwResults w @ rs" using act_results by blast
  with Cons [of "growatt_act e w"] show ?case by simp
qed simp

section \<open>Properties\<close>

text \<open>C18: what the adapter publishes is consistent in every interleaving of refreshes with advances,
  retirements and cancellations. A published value was decoded from registers of the unit and of the identity of the
  published attempt, and a current one was completed in time. A published diagnostic stands beside a current
  success, under the link of that very success (context, cycle and revision), with the receipt of the link as its
  base record, the identity words of the base, the battery of its topology word and the cell states of
  its balance word; and a retired adapter publishes none.\<close>

theorem published_evidence_is_consistent:
  assumes "I23NewGrowattProvider maxTicks maxSlices maxWords reader = Some a"
  shows "published_ok (I23Snapshot (fold growatt_act es (growatt_start a)))"
  using run_of_new_adapter [OF assms, of es] by (simp add: growatt_inv_def adapter_inv_def I23Snapshot_def)

text \<open>C20: retirement is final. Once an adapter is retired, no later action changes what it publishes: not a
  refresh that was under way, not an advance, not another request. No diagnostic is published any more, and every
  refresh that ends afterwards reports an error.\<close>

theorem retirement_is_final:
  assumes "I23NewGrowattProvider maxTicks maxSlices maxWords reader = Some a"
    and "w = fold growatt_act es (growatt_start a)" and "gaRetired (gwAdapter w)"
    and "w' = fold growatt_act es' w"
  shows "gaRetired (gwAdapter w') \<and> I23Snapshot w' = I23Snapshot w \<and> gsRetired (I23Snapshot w')
    \<and> gsDiagnostic (I23Snapshot w') = None \<and> results_failed w w'"
proof -
  have inv: "growatt_inv w" unfolding assms(2) by (rule run_of_new_adapter [OF assms(1)])
  have "growatt_progress w w'"
    unfolding assms(4) by (rule growatt_machine.run_progress [OF inv]) (simp add: list_all_iff)
  with inv assms(3) show ?thesis
    by (simp add: growatt_progress_def growatt_inv_def adapter_inv_def published_ok_def I23Snapshot_def)
qed

text \<open>Published successes move forward only. Between any two moments of a run the generation and the clock of
  the adapter do not decrease, and its link is unchanged or is replaced by one of a later generation that
  names a later revision of the retained success: no refresh, however late it ends, publishes an older success
  over a newer one or publishes one success under two links.\<close>

theorem published_success_moves_forward:
  assumes "I23NewGrowattProvider maxTicks maxSlices maxWords reader = Some a"
    and "w = fold growatt_act es (growatt_start a)" and "w' = fold growatt_act es' w"
  shows "gaGeneration (gwAdapter w) \<le> gaGeneration (gwAdapter w') \<and> gaTick (gwAdapter w) \<le> gaTick (gwAdapter w')
    \<and> link_le (gsLink (I23Snapshot w)) (gsLink (I23Snapshot w'))"
proof -
  have inv: "growatt_inv w" unfolding assms(2) by (rule run_of_new_adapter [OF assms(1)])
  have "growatt_progress w w'"
    unfolding assms(3) by (rule growatt_machine.run_progress [OF inv]) (simp add: list_all_iff)
  then show ?thesis by (simp add: growatt_progress_def)
qed

text \<open>C19: every refresh ends. A refresh that is under way is at its last critical section after at most seven of its own
  steps, whatever calls, cancellations and clock or reader answers come between them; that section then frees the adapter
  and reports a result.\<close>

theorem refresh_always_ends:
  assumes "I23NewGrowattProvider maxTicks maxSlices maxWords reader = Some a"
    and "w = fold growatt_act es (growatt_start a)" and "gwFlight w = Some fl"
    and "list_all (\<lambda>e. \<not> is_finish e) es'" and "7 \<le> length (filter is_step es')"
    and "w' = growatt_act (GFinish late) (fold growatt_act es' w)"
  shows "\<not> gaBusy (gwAdapter w') \<and> gwFlight w' = None \<and> length (gwResults w) < length (gwResults w')"
proof -
  have inv: "growatt_inv w" unfolding assms(2) by (rule run_of_new_adapter [OF assms(1)])
  obtain fl' where fl': "gwFlight (fold growatt_act es' w) = Some fl'"
    and "position (flAt fl') \<le> position (flAt fl) - length (filter is_step es')"
    using run_position [OF inv assms(3,4)] by blast
  then have "position (flAt fl') = 0" using position_bound [of "flAt fl"] assms(5) by simp
  then obtain errs now where at: "flAt fl' = Clocked errs now" by (cases "flAt fl'" rule: position.cases) auto
  have mid: "growatt_inv (fold growatt_act es' w)"
    by (rule growatt_machine.run_inv [OF inv]) (simp add: list_all_iff)
  obtain b result where s: "I23Refresh_finish late fl' errs now (gwAdapter (fold growatt_act es' w)) = (b, result)"
    by (cases "I23Refresh_finish late fl' errs now (gwAdapter (fold growatt_act es' w))")
  have "\<not> gaBusy b" using finish_inv [OF _ _ at s] mid fl' by (simp add: growatt_inv_def)
  then show ?thesis
    using run_results [of w es'] by (simp add: assms(6) fl' at s)
qed

section \<open>Witnesses\<close>

definition bms_example_diagnostic :: growatt_diagnostic where
  "bms_example_diagnostic = \<lparr>gdLink = \<lparr>glContext = bms_context, glCycle = 1, glGeneration = 1, glRevision = 1,
       glReceipt = ''r''\<rparr>,
     gdContext = \<lparr>ccBaseRecordID = ''r'', ccSourceInstance = ''s'', ccEpoch = 1, ccCycle = 1, ccUnitID = 1,
       ccFunction = 3, ccRevision = growattBMSExactRevision,
       ccNativeIdentity = \<lparr>ciMCUVersion = 0, ciBMS = 0, ciPack = 0, ciTopology = 0, ciCellSeries = 0\<rparr>\<rparr>,
     gdExpectedGroup = 0,
     gdInput = \<lparr>biUnitID = 1, biFunction = 3, biRevision = growattBMSExactRevision,
       biSlices = [\<lparr>slOffset = 0x0070, slWords = replicate 1 0\<rparr>, \<lparr>slOffset = 0x0071, slWords = replicate 16 0\<rparr>,
         \<lparr>slOffset = 0x0081, slWords = replicate 16 0\<rparr>]\<rparr>\<rparr>"

definition bms_example_request :: growatt_request where
  "bms_example_request = \<lparr>grCycle = \<lparr>ocContext = bms_context, ocCycle = 1, ocDeadline = 5\<rparr>, grGeneration = 1,
     grReceipt = ''r'', grDiagnostic = Some bms_example_diagnostic\<rparr>"

definition bms_example_steps :: "growatt_action list" where
  "bms_example_steps = [GStep 1 None, GStep 1 None, GStep 1 None, GStep 2 (Some bms_registers), GStep 2 None,
     GStep 2 None, GStep 3 None]"

definition bms_example_adapter :: "growatt_adapter" where
  "bms_example_adapter = the (I23NewGrowattProvider 10 4 50 True)"

definition bms_example_run :: "growatt_action list" where
  "bms_example_run = GRefresh bms_example_request True False # bms_example_steps @ [GFinish False]"

lemma bms_example_new: "I23NewGrowattProvider 10 4 50 True = Some bms_example_adapter"
  by code_simp

theorem published_evidence_is_consistent_witness:
  "published_ok (I23Snapshot (fold growatt_act bms_example_run (growatt_start bms_example_adapter)))
   \<and> gsDiagnostic (I23Snapshot (fold growatt_act bms_example_run (growatt_start bms_example_adapter))) \<noteq> None"
proof
  show "published_ok (I23Snapshot (fold growatt_act bms_example_run (growatt_start bms_example_adapter)))"
    by (rule published_evidence_is_consistent [OF bms_example_new])
  show "gsDiagnostic (I23Snapshot (fold growatt_act bms_example_run (growatt_start bms_example_adapter))) \<noteq> None"
    by code_simp
qed

theorem retirement_is_final_witness:
  "gsDiagnostic (I23Snapshot (fold growatt_act (bms_example_steps @ [GFinish False])
     (fold growatt_act [GRefresh bms_example_request True False, GRetire] (growatt_start bms_example_adapter)))) = None"
proof -
  have "gaRetired (gwAdapter (fold growatt_act [GRefresh bms_example_request True False, GRetire]
      (growatt_start bms_example_adapter)))"
    by code_simp
  from retirement_is_final [OF bms_example_new refl this refl] show ?thesis by blast
qed

theorem published_success_moves_forward_witness:
  "link_le zero_link (gsLink (I23Snapshot (fold growatt_act bms_example_run (growatt_start bms_example_adapter))))
   \<and> glRevision (gsLink (I23Snapshot (fold growatt_act bms_example_run (growatt_start bms_example_adapter)))) = 1"
proof
  have "gsLink (I23Snapshot (fold growatt_act [] (growatt_start bms_example_adapter))) = zero_link"
    by code_simp
  then show "link_le zero_link (gsLink (I23Snapshot (fold growatt_act bms_example_run (growatt_start bms_example_adapter))))"
    using published_success_moves_forward [OF bms_example_new refl refl, of "[]" bms_example_run] by simp
  show "glRevision (gsLink (I23Snapshot (fold growatt_act bms_example_run (growatt_start bms_example_adapter)))) = 1"
    by code_simp
qed

theorem refresh_always_ends_witness:
  "\<not> gaBusy (gwAdapter (growatt_act (GFinish False) (fold growatt_act bms_example_steps
     (fold growatt_act [GRefresh bms_example_request True False] (growatt_start bms_example_adapter)))))"
proof -
  let ?w = "fold growatt_act [GRefresh bms_example_request True False] (growatt_start bms_example_adapter)"
  have "gwFlight ?w \<noteq> None" by code_simp
  then obtain fl where fl: "gwFlight ?w = Some fl" by blast
  have "list_all (\<lambda>e. \<not> is_finish e) bms_example_steps" and "7 \<le> length (filter is_step bms_example_steps)"
    by (simp_all add: bms_example_steps_def)
  from refresh_always_ends [OF bms_example_new refl fl this refl] show ?thesis by blast
qed

end
