(* ===== verification/Observation_Groups.thy ===== *)
theory Observation_Groups
  imports Logical_View
begin

text \<open>
  The physical responses behind the views of one sample (\<^verbatim>\<open>validateWireResponseGroups\<close> of
  \<^verbatim>\<open>observation.go\<close>): views that were cut from one response are collected in a group, and a sample
  is refused when two views contradict each other about the response they come from. The walk with
  its four maps is compared with a declarative statement of what the views have to agree on.
\<close>

section \<open>Groups\<close>

record request_key =
  rkEndpoint :: string
  rkConnectionID :: u64
  rkTransport :: transport
  rkTransportGeneration :: u64
  rkPhysicalRequestID :: u64

record physical_identity =
  piPhysicalRequestID :: u64
  piEndpoint :: string
  piConnectionID :: u64
  piTransport :: transport
  piTransportGeneration :: u64
  piUnitID :: u8
  piRequestedFunction :: u8
  piReceivedFunction :: u8
  piTable :: logical_table
  piPhysicalOffset :: u16
  piPhysicalWordCount :: u16
  piAuthorizationScope :: string
  piPollGeneration :: u64
  piDeadlineIdentity :: u64

record physical_group =
  pgWireResponseID :: u64
  pgResponseBytes :: "u8 list"
  pgWords :: "u16 list"
  pgSet :: "bool list"
  pgLogicalViewIDs :: "u64 list"
  pgMaxLogicalStart :: u32
  pgMinLogicalEnd :: u32
  pgViewCount :: nat

record group_state =
  gpGroups :: "(physical_identity, physical_group) gomap"
  gpRequests :: "(request_key, physical_identity) gomap"
  gpWires :: "(u64, physical_identity) gomap"
  gpRTU :: "u64 list"

text \<open>\<open>GroupIndexRange\<close> is the panic of an index outside a group; admitted views never reach it.\<close>

datatype group_error =
    RTUMultipleViews
  | RequestMultipleIdentities
  | WireMultipleIdentities
  | IdentityMultipleWires
  | ContradictoryBytes
  | DuplicateLogicalView
  | ContradictoryWords
  | GroupIndexRange
  | NoCommonIntersection

definition identityOf :: "logical_view \<Rightarrow> physical_identity" where
  "identityOf r = \<lparr>piPhysicalRequestID = PhysicalRequestID r, piEndpoint = Endpoint r,
     piConnectionID = ConnectionID r, piTransport = Transport r,
     piTransportGeneration = TransportGeneration r, piUnitID = UnitID r,
     piRequestedFunction = RequestedFunction r, piReceivedFunction = ReceivedFunction r,
     piTable = Table r, piPhysicalOffset = PhysicalOffset r, piPhysicalWordCount = PhysicalWordCount r,
     piAuthorizationScope = AuthorizationScope r, piPollGeneration = PollGeneration r,
     piDeadlineIdentity = DeadlineIdentity r\<rparr>"

definition requestKey :: "logical_view \<Rightarrow> request_key" where
  "requestKey r = \<lparr>rkEndpoint = Endpoint r, rkConnectionID = ConnectionID r, rkTransport = Transport r,
     rkTransportGeneration = TransportGeneration r, rkPhysicalRequestID = PhysicalRequestID r\<rparr>"

definition logical_start :: "logical_view \<Rightarrow> u32" where
  "logical_start r = ucast (LogicalOffset r)"

definition logical_end :: "logical_view \<Rightarrow> u32" where
  "logical_end r = logical_start r + ucast (LogicalWordCount r)"

definition new_group :: "logical_view \<Rightarrow> physical_group" where
  "new_group r = \<lparr>pgWireResponseID = WireResponseID r, pgResponseBytes = WireResponseBytes r,
     pgWords = replicate (unat (PhysicalWordCount r)) 0, pgSet = replicate (unat (PhysicalWordCount r)) False,
     pgLogicalViewIDs = [], pgMaxLogicalStart = logical_start r, pgMinLogicalEnd = logical_end r,
     pgViewCount = 0\<rparr>"

fun fill_words :: "nat \<Rightarrow> u16 list \<Rightarrow> u16 list \<Rightarrow> bool list \<Rightarrow> group_error + (u16 list \<times> bool list)" where
  "fill_words position [] ws taken = Inr (ws, taken)"
| "fill_words position (w # rest) ws taken =
     (if length taken \<le> position then Inl GroupIndexRange
      else if taken ! position \<and> ws ! position \<noteq> w then Inl ContradictoryWords
      else fill_words (Suc position) rest (ws[position := w]) (taken[position := True]))"

definition find_group :: "logical_view \<Rightarrow> (physical_identity, physical_group) gomap \<Rightarrow> group_error + physical_group" where
  "find_group r groups =
     (case gm_get groups (identityOf r) of
        None \<Rightarrow> Inr (new_group r)
      | Some g \<Rightarrow>
          (if pgWireResponseID g \<noteq> WireResponseID r then Inl IdentityMultipleWires
           else if pgResponseBytes g \<noteq> WireResponseBytes r then Inl ContradictoryBytes
           else Inr g))"

definition join_group :: "logical_view \<Rightarrow> physical_group \<Rightarrow> group_error + physical_group" where
  "join_group r g =
     (if LogicalViewID r \<in> set (pgLogicalViewIDs g) then Inl DuplicateLogicalView
      else (case fill_words (unat (SliceOffset r)) (Words r) (pgWords g) (pgSet g) of
          Inl e \<Rightarrow> Inl e
        | Inr (ws, taken) \<Rightarrow>
            Inr (g\<lparr>pgWords := ws, pgSet := taken, pgLogicalViewIDs := LogicalViewID r # pgLogicalViewIDs g,
              pgMaxLogicalStart := max (logical_start r) (pgMaxLogicalStart g),
              pgMinLogicalEnd := min (logical_end r) (pgMinLogicalEnd g),
              pgViewCount := Suc (pgViewCount g)\<rparr>)))"

definition maps_elsewhere :: "('k, 'v) gomap \<Rightarrow> 'k \<Rightarrow> 'v \<Rightarrow> bool" where
  "maps_elsewhere m k v = (case gm_get m k of None \<Rightarrow> False | Some v' \<Rightarrow> v' \<noteq> v)"

definition admit_view :: "logical_view \<Rightarrow> group_state \<Rightarrow> group_error + group_state" where
  "admit_view r st =
     (if Transport r = TransportRTU \<and> WireResponseID r \<in> set (gpRTU st) then Inl RTUMultipleViews
      else if maps_elsewhere (gpRequests st) (requestKey r) (identityOf r) then Inl RequestMultipleIdentities
      else if maps_elsewhere (gpWires st) (WireResponseID r) (identityOf r) then Inl WireMultipleIdentities
      else (case find_group r (gpGroups st) of
          Inl e \<Rightarrow> Inl e
        | Inr g \<Rightarrow>
            (case join_group r g of
               Inl e \<Rightarrow> Inl e
             | Inr g' \<Rightarrow> Inr \<lparr>gpGroups = gm_put (identityOf r) g' (gpGroups st),
                 gpRequests = gm_put (requestKey r) (identityOf r) (gpRequests st),
                 gpWires = gm_put (WireResponseID r) (identityOf r) (gpWires st),
                 gpRTU = (if Transport r = TransportRTU then WireResponseID r # gpRTU st else gpRTU st)\<rparr>)))"

fun admit_views :: "logical_view list \<Rightarrow> group_state \<Rightarrow> group_error + group_state" where
  "admit_views [] st = Inr st"
| "admit_views (r # rs) st = (case admit_view r st of Inl e \<Rightarrow> Inl e | Inr st' \<Rightarrow> admit_views rs st')"

definition lacks_intersection :: "physical_identity \<times> physical_group \<Rightarrow> bool" where
  "lacks_intersection p \<longleftrightarrow> piTransport (fst p) = TransportTCP \<and> 1 < pgViewCount (snd p)
     \<and> pgMinLogicalEnd (snd p) \<le> pgMaxLogicalStart (snd p)"

definition empty_groups :: group_state where
  "empty_groups = \<lparr>gpGroups = [], gpRequests = [], gpWires = [], gpRTU = []\<rparr>"

definition validateWireResponseGroups :: "logical_view list \<Rightarrow> group_error outcome" where
  "validateWireResponseGroups rs =
     (case admit_views rs empty_groups of
        Inl e \<Rightarrow> Some e
      | Inr st \<Rightarrow> if list_ex lacks_intersection (gpGroups st) then Some NoCommonIntersection else None)"

section \<open>What the views have to agree on\<close>

definition covers :: "logical_view \<Rightarrow> nat \<Rightarrow> bool" where
  "covers r p \<longleftrightarrow> unat (SliceOffset r) \<le> p \<and> p < unat (SliceOffset r) + length (Words r)"

definition word_at :: "logical_view \<Rightarrow> nat \<Rightarrow> u16" where
  "word_at r p = Words r ! (p - unat (SliceOffset r))"

definition compatible :: "logical_view \<Rightarrow> logical_view \<Rightarrow> bool" where
  "compatible v w \<longleftrightarrow>
     (requestKey v = requestKey w \<longrightarrow> identityOf v = identityOf w)
     \<and> (WireResponseID v = WireResponseID w \<longleftrightarrow> identityOf v = identityOf w)
     \<and> (Transport v = TransportRTU \<and> Transport w = TransportRTU \<longrightarrow> WireResponseID v \<noteq> WireResponseID w)
     \<and> (identityOf v = identityOf w \<longrightarrow>
          WireResponseBytes v = WireResponseBytes w \<and> LogicalViewID v \<noteq> LogicalViewID w
          \<and> (\<forall>p. covers v p \<and> covers w p \<longrightarrow> word_at v p = word_at w p))"

text \<open>Two views of one TCP response overlap: each starts before the other ends.\<close>

definition intersect :: "logical_view \<Rightarrow> logical_view \<Rightarrow> bool" where
  "intersect v w \<longleftrightarrow> (Transport v = TransportTCP \<and> identityOf v = identityOf w \<longrightarrow>
     logical_start v < logical_end w \<and> logical_start w < logical_end v)"

fun all_pairs :: "('a \<Rightarrow> 'a \<Rightarrow> bool) \<Rightarrow> 'a list \<Rightarrow> bool" where
  "all_pairs P [] = True"
| "all_pairs P (x # xs) = ((\<forall>y \<in> set xs. P x y) \<and> all_pairs P xs)"

definition wire_groups_ok :: "logical_view list \<Rightarrow> bool" where
  "wire_groups_ok rs \<longleftrightarrow> all_pairs compatible rs \<and> all_pairs intersect rs"

section \<open>The walk decides exactly that\<close>

lemma pairwise_snoc:
  assumes "\<And>x y. P x y = P y x"
  shows "all_pairs P (xs @ [x]) \<longleftrightarrow> all_pairs P xs \<and> (\<forall>y \<in> set xs. P y x)"
  by (induction xs) (auto simp: assms)

lemma compatible_half: "compatible v w \<Longrightarrow> compatible w v"
  unfolding compatible_def by (intro conjI) (metis+)

lemma compatible_sym: "compatible v w = compatible w v"
  using compatible_half by blast

lemma intersect_sym: "intersect v w = intersect w v"
proof -
  have "identityOf v = identityOf w \<Longrightarrow> Transport v = Transport w"
    by (simp add: identityOf_def)
  then show ?thesis unfolding intersect_def by metis
qed

text \<open>The views whose words a walk can place: their slices lie inside the response.\<close>

definition view_ok :: "logical_view \<Rightarrow> bool" where
  "view_ok r \<longleftrightarrow> unat (SliceOffset r) + length (Words r) \<le> unat (PhysicalWordCount r)
     \<and> logical_start r < logical_end r"

lemma fill_words_result:
  assumes "position + length xs \<le> length taken" and "length ws = length taken"
  shows "(\<exists>r. fill_words position xs ws taken = Inr r)
      \<longleftrightarrow> (\<forall>k < length xs. taken ! (position + k) \<longrightarrow> ws ! (position + k) = xs ! k)"
    and "fill_words position xs ws taken = Inr (ws', taken') \<Longrightarrow>
      length ws' = length ws \<and> length taken' = length taken
      \<and> (\<forall>p < length taken. taken' ! p = (taken ! p \<or> position \<le> p \<and> p < position + length xs)
           \<and> ws' ! p = (if position \<le> p \<and> p < position + length xs then xs ! (p - position) else ws ! p))"
proof -
  have "((\<exists>r. fill_words position xs ws taken = Inr r)
      \<longleftrightarrow> (\<forall>k < length xs. taken ! (position + k) \<longrightarrow> ws ! (position + k) = xs ! k))
    \<and> (\<forall>ws' taken'. fill_words position xs ws taken = Inr (ws', taken') \<longrightarrow>
      length ws' = length ws \<and> length taken' = length taken
      \<and> (\<forall>p < length taken. taken' ! p = (taken ! p \<or> position \<le> p \<and> p < position + length xs)
           \<and> ws' ! p = (if position \<le> p \<and> p < position + length xs then xs ! (p - position) else ws ! p)))"
    using assms
  proof (induction xs arbitrary: position ws taken)
    case Nil
    then show ?case by auto
  next
    case (Cons x xs)
    let ?ws = "ws[position := x]" and ?taken = "taken[position := True]"
    have "Suc position + length xs \<le> length ?taken" and "length ?ws = length ?taken"
      using Cons.prems by simp_all
    note ih = Cons.IH [OF this]
    have inside: "position < length taken" using Cons.prems by simp
    have later: "?taken ! (Suc position + k) = taken ! (Suc position + k) \<and> ?ws ! (Suc position + k) = ws ! (Suc position + k)" for k
      by simp
    show ?case
    proof (cases "taken ! position \<and> ws ! position \<noteq> x")
      case True
      then show ?thesis using inside by (auto intro: exI [of _ 0])
    next
      case False
      then have step: "fill_words position (x # xs) ws taken = fill_words (Suc position) xs ?ws ?taken"
        using inside by auto
      have "(\<forall>k < length (x # xs). taken ! (position + k) \<longrightarrow> ws ! (position + k) = (x # xs) ! k)
          \<longleftrightarrow> (\<forall>k < length xs. ?taken ! (Suc position + k) \<longrightarrow> ?ws ! (Suc position + k) = xs ! k)"
        using False by (simp add: later All_less_Suc2)
      moreover have "length ws' = length ws \<and> length taken' = length taken
          \<and> (\<forall>p < length taken. taken' ! p = (taken ! p \<or> position \<le> p \<and> p < position + length (x # xs))
             \<and> ws' ! p = (if position \<le> p \<and> p < position + length (x # xs) then (x # xs) ! (p - position) else ws ! p))"
        if filled: "fill_words (Suc position) xs ?ws ?taken = Inr (ws', taken')" for ws' taken'
      proof -
        have r: "length ws' = length ws \<and> length taken' = length taken
          \<and> (\<forall>p < length taken. taken' ! p = (?taken ! p \<or> Suc position \<le> p \<and> p < Suc position + length xs)
             \<and> ws' ! p = (if Suc position \<le> p \<and> p < Suc position + length xs then xs ! (p - Suc position) else ?ws ! p))"
          using ih filled by auto
        have "(x # xs) ! (p - position) = (if p = position then x else xs ! (p - Suc position))" if "position \<le> p" for p
          using that by (auto simp: nth_Cons')
        then show ?thesis using r inside Cons.prems by (auto simp: nth_list_update)
      qed
      ultimately show ?thesis using ih unfolding step by blast
    qed
  qed
  then show "(\<exists>r. fill_words position xs ws taken = Inr r)
      \<longleftrightarrow> (\<forall>k < length xs. taken ! (position + k) \<longrightarrow> ws ! (position + k) = xs ! k)"
    and "fill_words position xs ws taken = Inr (ws', taken') \<Longrightarrow>
      length ws' = length ws \<and> length taken' = length taken
      \<and> (\<forall>p < length taken. taken' ! p = (taken ! p \<or> position \<le> p \<and> p < position + length xs)
           \<and> ws' ! p = (if position \<le> p \<and> p < position + length xs then xs ! (p - position) else ws ! p))"
    by auto
qed

text \<open>What a group holds of the views that were admitted to it, and the state of the walk.\<close>

definition group_holds :: "logical_view list \<Rightarrow> physical_group \<Rightarrow> bool" where
  "group_holds gs g \<longleftrightarrow>
     (\<forall>v \<in> set gs. pgWireResponseID g = WireResponseID v \<and> pgResponseBytes g = WireResponseBytes v
        \<and> length (pgSet g) = unat (PhysicalWordCount v)
        \<and> logical_start v \<le> pgMaxLogicalStart g \<and> pgMinLogicalEnd g \<le> logical_end v)
     \<and> pgLogicalViewIDs g = map LogicalViewID (rev gs) \<and> pgViewCount g = length gs
     \<and> (\<exists>v \<in> set gs. pgMaxLogicalStart g = logical_start v) \<and> (\<exists>v \<in> set gs. pgMinLogicalEnd g = logical_end v)
     \<and> length (pgWords g) = length (pgSet g)
     \<and> (\<forall>p < length (pgSet g). pgSet g ! p \<longleftrightarrow> (\<exists>v \<in> set gs. covers v p))
     \<and> (\<forall>p < length (pgSet g). \<forall>v \<in> set gs. covers v p \<longrightarrow> pgWords g ! p = word_at v p)"

definition group_rel :: "logical_view list \<Rightarrow> group_state \<Rightarrow> bool" where
  "group_rel rs st \<longleftrightarrow>
     (\<forall>i. let gs = filter (\<lambda>v. identityOf v = i) rs in
        (case gm_get (gpGroups st) i of None \<Rightarrow> gs = [] | Some g \<Rightarrow> gs \<noteq> [] \<and> group_holds gs g))
     \<and> (\<forall>k i. gm_get (gpRequests st) k = Some i \<longleftrightarrow> (\<exists>v \<in> set rs. requestKey v = k \<and> identityOf v = i))
     \<and> (\<forall>k i. gm_get (gpWires st) k = Some i \<longleftrightarrow> (\<exists>v \<in> set rs. WireResponseID v = k \<and> identityOf v = i))
     \<and> set (gpRTU st) = WireResponseID ` {v \<in> set rs. Transport v = TransportRTU}
     \<and> gm_wf (gpGroups st)"

lemma word_range:
  assumes "covers v p"
  shows "p = unat (SliceOffset v) + (p - unat (SliceOffset v))" and "p - unat (SliceOffset v) < length (Words v)"
  using assms by (auto simp: covers_def)

lemma fill_agrees:
  assumes "group_holds gs g" and "view_ok r" and "length (pgSet g) = unat (PhysicalWordCount r)"
  shows "(\<exists>x. fill_words (unat (SliceOffset r)) (Words r) (pgWords g) (pgSet g) = Inr x)
     \<longleftrightarrow> (\<forall>v \<in> set gs. \<forall>p. covers v p \<and> covers r p \<longrightarrow> word_at v p = word_at r p)"
proof -
  have bound: "unat (SliceOffset r) + length (Words r) \<le> length (pgSet g)" "length (pgWords g) = length (pgSet g)"
    using assms by (simp_all add: view_ok_def group_holds_def)
  have "(\<forall>k < length (Words r). pgSet g ! (unat (SliceOffset r) + k)
        \<longrightarrow> pgWords g ! (unat (SliceOffset r) + k) = Words r ! k)
      \<longleftrightarrow> (\<forall>p. covers r p \<longrightarrow> pgSet g ! p \<longrightarrow> pgWords g ! p = word_at r p)" (is "?l \<longleftrightarrow> ?m")
  proof
    assume ?l
    then show ?m using word_range [of r] by (metis word_at_def)
  next
    assume m: ?m
    show ?l
    proof (intro allI impI)
      fix k assume "k < length (Words r)" and set: "pgSet g ! (unat (SliceOffset r) + k)"
      then have "covers r (unat (SliceOffset r) + k)" by (simp add: covers_def)
      with m set show "pgWords g ! (unat (SliceOffset r) + k) = Words r ! k" by (simp add: word_at_def)
    qed
  qed
  moreover have "?m \<longleftrightarrow> (\<forall>v \<in> set gs. \<forall>p. covers v p \<and> covers r p \<longrightarrow> word_at v p = word_at r p)"
  proof -
    have inside: "covers r p \<Longrightarrow> p < length (pgSet g)" for p using bound by (simp add: covers_def)
    have "covers r p \<Longrightarrow> pgSet g ! p \<longleftrightarrow> (\<exists>v \<in> set gs. covers v p)"
      and "covers r p \<Longrightarrow> v \<in> set gs \<Longrightarrow> covers v p \<Longrightarrow> pgWords g ! p = word_at v p" for p v
      using assms(1) inside by (simp_all add: group_holds_def)
    then show ?thesis by metis
  qed
  ultimately show ?thesis using fill_words_result(1) [OF bound] by simp
qed

lemma join_new:
  assumes "view_ok r"
  shows "\<exists>g'. join_group r (new_group r) = Inr g' \<and> group_holds [r] g'"
proof -
  let ?n = "unat (PhysicalWordCount r)"
  have bound: "unat (SliceOffset r) + length (Words r) \<le> length (replicate ?n False)"
    "length (replicate ?n (0 :: u16)) = length (replicate ?n False)"
    using assms by (simp_all add: view_ok_def)
  have free: "\<forall>k < length (Words r). \<not> replicate ?n False ! (unat (SliceOffset r) + k)"
    using bound(1) by simp
  have "\<exists>x. fill_words (unat (SliceOffset r)) (Words r) (replicate ?n 0) (replicate ?n False) = Inr x"
    unfolding fill_words_result(1) [OF bound] using free by blast
  then obtain ws taken where
    f: "fill_words (unat (SliceOffset r)) (Words r) (replicate ?n 0) (replicate ?n False) = Inr (ws, taken)"
    by auto
  have "length ws = ?n \<and> length taken = ?n
      \<and> (\<forall>p < ?n. (taken ! p \<longleftrightarrow> covers r p) \<and> (covers r p \<longrightarrow> ws ! p = word_at r p))"
    using fill_words_result(2) [OF bound f] by (simp add: covers_def word_at_def)
  then show ?thesis
    by (auto simp: join_group_def new_group_def f group_holds_def)
qed

lemma join_old:
  assumes "group_holds gs g" and "view_ok r" and "\<forall>v \<in> set gs. identityOf v = identityOf r"
    and "\<forall>v \<in> set gs. WireResponseID v = WireResponseID r \<and> WireResponseBytes v = WireResponseBytes r"
  shows "(\<exists>g'. join_group r g = Inr g')
     \<longleftrightarrow> (\<forall>v \<in> set gs. LogicalViewID v \<noteq> LogicalViewID r \<and> (\<forall>p. covers v p \<and> covers r p \<longrightarrow> word_at v p = word_at r p))"
    and "join_group r g = Inr g' \<Longrightarrow> group_holds (gs @ [r]) g'"
proof -
  obtain v0 where "v0 \<in> set gs" using assms(1) by (auto simp: group_holds_def)
  then have len: "length (pgSet g) = unat (PhysicalWordCount r)"
    using assms(1,3) by (auto simp: group_holds_def identityOf_def)
  have ids: "LogicalViewID r \<in> set (pgLogicalViewIDs g) \<longleftrightarrow> (\<exists>v \<in> set gs. LogicalViewID v = LogicalViewID r)"
  proof -
    have "set (pgLogicalViewIDs g) = LogicalViewID ` set gs" using assms(1) by (simp add: group_holds_def)
    moreover have "c \<in> f ` A \<longleftrightarrow> (\<exists>v \<in> A. f v = c)" for c :: u64 and f :: "logical_view \<Rightarrow> u64" and A by auto
    ultimately show ?thesis by simp
  qed
  note agrees = fill_agrees [OF assms(1,2) len]
  show "(\<exists>g'. join_group r g = Inr g')
     \<longleftrightarrow> (\<forall>v \<in> set gs. LogicalViewID v \<noteq> LogicalViewID r \<and> (\<forall>p. covers v p \<and> covers r p \<longrightarrow> word_at v p = word_at r p))"
    using agrees ids unfolding join_group_def by (auto split: sum.splits prod.splits)
  assume joined: "join_group r g = Inr g'"
  then obtain ws taken where
    f: "fill_words (unat (SliceOffset r)) (Words r) (pgWords g) (pgSet g) = Inr (ws, taken)"
    and g': "g' = g\<lparr>pgWords := ws, pgSet := taken, pgLogicalViewIDs := LogicalViewID r # pgLogicalViewIDs g,
              pgMaxLogicalStart := max (logical_start r) (pgMaxLogicalStart g),
              pgMinLogicalEnd := min (logical_end r) (pgMinLogicalEnd g),
              pgViewCount := Suc (pgViewCount g)\<rparr>"
    by (auto simp: join_group_def split: sum.splits if_splits)
  have bound: "unat (SliceOffset r) + length (Words r) \<le> length (pgSet g)" "length (pgWords g) = length (pgSet g)"
    using assms(1,2) len by (simp_all add: view_ok_def group_holds_def)
  have filled: "length ws = length (pgWords g)" "length taken = length (pgSet g)"
    "\<And>p. p < length (pgSet g) \<Longrightarrow> taken ! p = (pgSet g ! p \<or> covers r p)
       \<and> ws ! p = (if covers r p then word_at r p else pgWords g ! p)"
    using fill_words_result(2) [OF bound f] by (simp_all add: covers_def word_at_def)
  have same: "\<And>v p. v \<in> set gs \<Longrightarrow> covers v p \<Longrightarrow> covers r p \<Longrightarrow> word_at v p = word_at r p"
    using agrees f by blast
  have counts: "\<forall>v \<in> set gs. PhysicalWordCount v = PhysicalWordCount r"
    using assms(3) by (simp add: identityOf_def)
  obtain vmax vmin where ends: "vmax \<in> set gs" "pgMaxLogicalStart g = logical_start vmax"
    "vmin \<in> set gs" "pgMinLogicalEnd g = logical_end vmin"
    using assms(1) by (auto simp: group_holds_def)
  show "group_holds (gs @ [r]) g'"
    unfolding group_holds_def
  proof (intro conjI)
    show "\<exists>v \<in> set (gs @ [r]). pgMaxLogicalStart g' = logical_start v"
      using ends by (auto simp: g' max_def)
    show "\<exists>v \<in> set (gs @ [r]). pgMinLogicalEnd g' = logical_end v"
      using ends by (auto simp: g' min_def)
    show "\<forall>p < length (pgSet g'). pgSet g' ! p \<longleftrightarrow> (\<exists>v \<in> set (gs @ [r]). covers v p)"
      using assms(1) filled by (auto simp: g' group_holds_def)
    show "\<forall>p < length (pgSet g'). \<forall>v \<in> set (gs @ [r]). covers v p \<longrightarrow> pgWords g' ! p = word_at v p"
      using assms(1) filled same by (auto simp: g' group_holds_def)
    show "\<forall>v \<in> set (gs @ [r]). pgWireResponseID g' = WireResponseID v \<and> pgResponseBytes g' = WireResponseBytes v
        \<and> length (pgSet g') = unat (PhysicalWordCount v)
        \<and> logical_start v \<le> pgMaxLogicalStart g' \<and> pgMinLogicalEnd g' \<le> logical_end v"
      using assms(1,4) filled(2) len counts \<open>v0 \<in> set gs\<close>
      by (auto simp: g' group_holds_def le_max_iff_disj min_le_iff_disj)
  qed (use assms(1) filled in \<open>simp_all add: g' group_holds_def\<close>)
qed

lemma group_rel_at:
  assumes "group_rel rs st"
  shows "case gm_get (gpGroups st) i of None \<Rightarrow> filter (\<lambda>v. identityOf v = i) rs = []
     | Some g \<Rightarrow> filter (\<lambda>v. identityOf v = i) rs \<noteq> [] \<and> group_holds (filter (\<lambda>v. identityOf v = i) rs) g"
  using assms unfolding group_rel_def Let_def by (elim conjE) (erule spec)

lemma find_group_result:
  assumes "group_rel rs st"
  shows "(find_group r (gpGroups st) = Inr (new_group r) \<and> (\<forall>v \<in> set rs. identityOf v \<noteq> identityOf r))
     \<or> (\<exists>g. gm_get (gpGroups st) (identityOf r) = Some g
          \<and> filter (\<lambda>v. identityOf v = identityOf r) rs \<noteq> []
          \<and> group_holds (filter (\<lambda>v. identityOf v = identityOf r) rs) g
          \<and> (find_group r (gpGroups st) = Inr g \<longleftrightarrow>
               (\<forall>v \<in> set rs. identityOf v = identityOf r \<longrightarrow>
                  WireResponseID v = WireResponseID r \<and> WireResponseBytes v = WireResponseBytes r))
          \<and> ((\<exists>x. find_group r (gpGroups st) = Inr x) \<longrightarrow> find_group r (gpGroups st) = Inr g))"
proof (cases "gm_get (gpGroups st) (identityOf r)")
  case None
  then have "filter (\<lambda>v. identityOf v = identityOf r) rs = []"
    using group_rel_at [OF assms, of "identityOf r"] by simp
  then show ?thesis using None by (auto simp: find_group_def filter_empty_conv)
next
  case (Some g)
  then have gs: "filter (\<lambda>v. identityOf v = identityOf r) rs \<noteq> []"
      "group_holds (filter (\<lambda>v. identityOf v = identityOf r) rs) g"
    using group_rel_at [OF assms, of "identityOf r"] by simp_all
  then obtain v0 where v0: "v0 \<in> set rs" "identityOf v0 = identityOf r"
    by (auto simp: filter_empty_conv)
  have agree: "\<And>v. v \<in> set rs \<Longrightarrow> identityOf v = identityOf r \<Longrightarrow>
      pgWireResponseID g = WireResponseID v \<and> pgResponseBytes g = WireResponseBytes v"
    using gs(2) by (auto simp: group_holds_def)
  then have "find_group r (gpGroups st) = Inr g \<longleftrightarrow>
      (\<forall>v \<in> set rs. identityOf v = identityOf r \<longrightarrow>
         WireResponseID v = WireResponseID r \<and> WireResponseBytes v = WireResponseBytes r)"
  proof -
    have "find_group r (gpGroups st) = Inr g \<longleftrightarrow>
        pgWireResponseID g = WireResponseID r \<and> pgResponseBytes g = WireResponseBytes r"
      using Some by (simp add: find_group_def)
    then show ?thesis using v0 agree by metis
  qed
  moreover have "(\<exists>x. find_group r (gpGroups st) = Inr x) \<longrightarrow> find_group r (gpGroups st) = Inr g"
    using Some by (auto simp: find_group_def)
  ultimately show ?thesis using Some gs by blast
qed

lemma maps_elsewhere_iff:
  assumes "\<And>i. gm_get m k = Some i \<longleftrightarrow> (\<exists>v \<in> set rs. f v = k \<and> identityOf v = i)"
  shows "maps_elsewhere m k j \<longleftrightarrow> (\<exists>v \<in> set rs. f v = k \<and> identityOf v \<noteq> j)"
proof (cases "gm_get m k")
  case None
  then show ?thesis using assms by (auto simp: maps_elsewhere_def)
next
  case (Some i)
  then have "\<And>v. v \<in> set rs \<Longrightarrow> f v = k \<Longrightarrow> identityOf v = i" "\<exists>v \<in> set rs. f v = k \<and> identityOf v = i"
    using assms by (metis option.inject) (use assms Some in blast)
  then show ?thesis using Some by (auto simp: maps_elsewhere_def)
qed

lemma admit_view_checks:
  assumes "group_rel rs st"
  shows "(\<exists>st'. admit_view r st = Inr st') \<longleftrightarrow>
     (\<forall>v \<in> set rs. \<not> (Transport v = TransportRTU \<and> Transport r = TransportRTU \<and> WireResponseID v = WireResponseID r)
        \<and> (requestKey v = requestKey r \<longrightarrow> identityOf v = identityOf r)
        \<and> (WireResponseID v = WireResponseID r \<longrightarrow> identityOf v = identityOf r))
     \<and> (\<exists>g g'. find_group r (gpGroups st) = Inr g \<and> join_group r g = Inr g')"
proof -
  have rtu: "(Transport r = TransportRTU \<and> WireResponseID r \<in> set (gpRTU st))
      \<longleftrightarrow> (\<exists>v \<in> set rs. Transport v = TransportRTU \<and> Transport r = TransportRTU \<and> WireResponseID v = WireResponseID r)"
  proof -
    have "set (gpRTU st) = WireResponseID ` {v \<in> set rs. Transport v = TransportRTU}"
      using assms by (simp add: group_rel_def)
    then show ?thesis by (auto simp: image_iff)
  qed
  have requests: "maps_elsewhere (gpRequests st) (requestKey r) (identityOf r)
      \<longleftrightarrow> (\<exists>v \<in> set rs. requestKey v = requestKey r \<and> identityOf v \<noteq> identityOf r)"
    by (rule maps_elsewhere_iff) (use assms in \<open>simp add: group_rel_def\<close>)
  have wires: "maps_elsewhere (gpWires st) (WireResponseID r) (identityOf r)
      \<longleftrightarrow> (\<exists>v \<in> set rs. WireResponseID v = WireResponseID r \<and> identityOf v \<noteq> identityOf r)"
    by (rule maps_elsewhere_iff) (use assms in \<open>simp add: group_rel_def\<close>)
  show ?thesis
    unfolding admit_view_def rtu requests wires by (auto split: sum.splits)
qed

lemma joins_iff:
  assumes "group_rel rs st" and "view_ok r"
    and wires: "\<forall>v \<in> set rs. WireResponseID v = WireResponseID r \<longrightarrow> identityOf v = identityOf r"
  shows "(\<exists>g g'. find_group r (gpGroups st) = Inr g \<and> join_group r g = Inr g') \<longleftrightarrow>
     (\<forall>v \<in> set rs. identityOf v = identityOf r \<longrightarrow>
        WireResponseID v = WireResponseID r \<and> WireResponseBytes v = WireResponseBytes r
        \<and> LogicalViewID v \<noteq> LogicalViewID r \<and> (\<forall>p. covers v p \<and> covers r p \<longrightarrow> word_at v p = word_at r p))"
  using find_group_result [OF assms(1), of r]
proof (elim disjE exE conjE)
  assume "find_group r (gpGroups st) = Inr (new_group r)" and "\<forall>v \<in> set rs. identityOf v \<noteq> identityOf r"
  then show ?thesis using join_new [OF assms(2)] by auto
next
  fix g
  let ?gs = "filter (\<lambda>v. identityOf v = identityOf r) rs"
  assume holds: "group_holds ?gs g"
    and found: "find_group r (gpGroups st) = Inr g \<longleftrightarrow>
       (\<forall>v \<in> set rs. identityOf v = identityOf r \<longrightarrow>
          WireResponseID v = WireResponseID r \<and> WireResponseBytes v = WireResponseBytes r)"
    and only: "(\<exists>x. find_group r (gpGroups st) = Inr x) \<longrightarrow> find_group r (gpGroups st) = Inr g"
  show ?thesis
  proof (cases "find_group r (gpGroups st) = Inr g")
    case True
    then have same: "\<forall>v \<in> set ?gs. WireResponseID v = WireResponseID r \<and> WireResponseBytes v = WireResponseBytes r"
      using found by simp
    have "(\<exists>g'. join_group r g = Inr g')
      \<longleftrightarrow> (\<forall>v \<in> set ?gs. LogicalViewID v \<noteq> LogicalViewID r \<and> (\<forall>p. covers v p \<and> covers r p \<longrightarrow> word_at v p = word_at r p))"
      by (rule join_old(1) [OF holds assms(2) _ same]) simp
    with True found show ?thesis by auto
  next
    case False
    with found only show ?thesis by blast
  qed
qed

lemma admit_view_iff:
  assumes "group_rel rs st" and "view_ok r"
  shows "(\<exists>st'. admit_view r st = Inr st') \<longleftrightarrow> (\<forall>v \<in> set rs. compatible v r)"
proof -
  let ?first = "\<lambda>v. \<not> (Transport v = TransportRTU \<and> Transport r = TransportRTU \<and> WireResponseID v = WireResponseID r)
        \<and> (requestKey v = requestKey r \<longrightarrow> identityOf v = identityOf r)
        \<and> (WireResponseID v = WireResponseID r \<longrightarrow> identityOf v = identityOf r)"
  let ?second = "\<lambda>v. identityOf v = identityOf r \<longrightarrow>
        WireResponseID v = WireResponseID r \<and> WireResponseBytes v = WireResponseBytes r
        \<and> LogicalViewID v \<noteq> LogicalViewID r \<and> (\<forall>p. covers v p \<and> covers r p \<longrightarrow> word_at v p = word_at r p)"
  have logic: "((k \<longrightarrow> i) \<and> (w = i) \<and> (t \<and> u \<longrightarrow> \<not> w) \<and> (i \<longrightarrow> b \<and> l \<and> p))
      = ((\<not> (t \<and> u \<and> w) \<and> (k \<longrightarrow> i) \<and> (w \<longrightarrow> i)) \<and> (i \<longrightarrow> w \<and> b \<and> l \<and> p))" for k i w t u b l p
    by blast
  have "(\<forall>v \<in> set rs. compatible v r) \<longleftrightarrow> (\<forall>v \<in> set rs. ?first v \<and> ?second v)"
    unfolding compatible_def by (rule ball_cong [OF refl]) (rule logic)
  then have split: "(\<forall>v \<in> set rs. compatible v r) \<longleftrightarrow> (\<forall>v \<in> set rs. ?first v) \<and> (\<forall>v \<in> set rs. ?second v)"
    by (rule trans) (rule ball_conj_distrib)
  show ?thesis
    unfolding admit_view_checks [OF assms(1)] split
    by (rule conj_cong [OF refl]) (rule joins_iff [OF assms], blast)
qed

lemma admit_view_rel:
  assumes "group_rel rs st" and "view_ok r" and "admit_view r st = Inr st'" and "\<forall>v \<in> set rs. compatible v r"
  shows "group_rel (rs @ [r]) st'"
proof -
  obtain g g' where found: "find_group r (gpGroups st) = Inr g" and joined: "join_group r g = Inr g'"
    and st': "st' = \<lparr>gpGroups = gm_put (identityOf r) g' (gpGroups st),
         gpRequests = gm_put (requestKey r) (identityOf r) (gpRequests st),
         gpWires = gm_put (WireResponseID r) (identityOf r) (gpWires st),
         gpRTU = (if Transport r = TransportRTU then WireResponseID r # gpRTU st else gpRTU st)\<rparr>"
    using assms(3) by (auto simp: admit_view_def split: if_splits sum.splits)
  let ?gs = "filter (\<lambda>v. identityOf v = identityOf r) rs"
  have held: "group_holds (?gs @ [r]) g'"
    using find_group_result [OF assms(1), of r]
  proof (elim disjE exE conjE)
    assume "find_group r (gpGroups st) = Inr (new_group r)" and "\<forall>v \<in> set rs. identityOf v \<noteq> identityOf r"
    then show ?thesis using join_new [OF assms(2)] found joined by (auto simp: filter_empty_conv)
  next
    fix h
    assume holds: "group_holds ?gs h" and same: "find_group r (gpGroups st) = Inr h \<longleftrightarrow>
       (\<forall>v \<in> set rs. identityOf v = identityOf r \<longrightarrow>
          WireResponseID v = WireResponseID r \<and> WireResponseBytes v = WireResponseBytes r)"
      and only: "(\<exists>x. find_group r (gpGroups st) = Inr x) \<longrightarrow> find_group r (gpGroups st) = Inr h"
    have h: "find_group r (gpGroups st) = Inr h" using only found by blast
    then have "h = g" using found by simp
    moreover have "\<forall>v \<in> set ?gs. WireResponseID v = WireResponseID r \<and> WireResponseBytes v = WireResponseBytes r"
      unfolding set_filter using iffD1 [OF same h] by blast
    moreover have "\<forall>v \<in> set ?gs. identityOf v = identityOf r" unfolding set_filter by blast
    ultimately show ?thesis using join_old(2) [of ?gs g r g'] holds assms(2) joined by blast
  qed
  have groups: "case gm_get (gpGroups st') i of None \<Rightarrow> filter (\<lambda>v. identityOf v = i) (rs @ [r]) = []
     | Some h \<Rightarrow> filter (\<lambda>v. identityOf v = i) (rs @ [r]) \<noteq> [] \<and> group_holds (filter (\<lambda>v. identityOf v = i) (rs @ [r])) h" for i
  proof (cases "identityOf r = i")
    case True
    have "filter (\<lambda>v. identityOf v = i) (rs @ [r]) = ?gs @ [r]" by (simp add: True)
    moreover have "gm_get (gpGroups st') i = Some g'" by (simp add: st' gm.get_put True)
    ultimately show ?thesis using held by simp
  next
    case False
    then have "filter (\<lambda>v. identityOf v = i) (rs @ [r]) = filter (\<lambda>v. identityOf v = i) rs" by simp
    moreover have "gm_get (gpGroups st') i = gm_get (gpGroups st) i" using False by (simp add: st' gm.get_put)
    ultimately show ?thesis using group_rel_at [OF assms(1), of i] by (simp only:)
  qed
  have requests: "gm_get (gpRequests st') k = Some i \<longleftrightarrow> (\<exists>v \<in> set (rs @ [r]). requestKey v = k \<and> identityOf v = i)" for k i
  proof -
    have "gm_get (gpRequests st) k = Some i \<longleftrightarrow> (\<exists>v \<in> set rs. requestKey v = k \<and> identityOf v = i)"
      using assms(1) by (simp add: group_rel_def)
    moreover have "\<forall>v \<in> set rs. requestKey v = requestKey r \<longrightarrow> identityOf v = identityOf r"
      using assms(4) by (simp add: compatible_def)
    ultimately show ?thesis
      by (cases "k = requestKey r") (simp_all add: st' go_map_simps, metis+)
  qed
  have wires: "gm_get (gpWires st') k = Some i \<longleftrightarrow> (\<exists>v \<in> set (rs @ [r]). WireResponseID v = k \<and> identityOf v = i)" for k i
  proof -
    have "gm_get (gpWires st) k = Some i \<longleftrightarrow> (\<exists>v \<in> set rs. WireResponseID v = k \<and> identityOf v = i)"
      using assms(1) by (simp add: group_rel_def)
    moreover have "\<forall>v \<in> set rs. WireResponseID v = WireResponseID r \<longrightarrow> identityOf v = identityOf r"
      using assms(4) by (simp add: compatible_def)
    ultimately show ?thesis
      by (cases "k = WireResponseID r") (simp_all add: st' go_map_simps, metis+)
  qed
  have "set (gpRTU st') = WireResponseID ` {v \<in> set (rs @ [r]). Transport v = TransportRTU}"
    using assms(1) by (auto simp: st' group_rel_def)
  moreover have "gm_wf (gpGroups st')" using assms(1) by (simp add: st' group_rel_def go_map_simps)
  ultimately show ?thesis
    unfolding group_rel_def Let_def using groups requests wires by (intro conjI allI)
qed

lemma admit_views_iff:
  assumes "group_rel rs st" and "\<forall>v \<in> set ts. view_ok v" and "all_pairs compatible rs"
  shows "(\<exists>st'. admit_views ts st = Inr st') \<longleftrightarrow> all_pairs compatible (rs @ ts)"
    and "admit_views ts st = Inr st' \<Longrightarrow> group_rel (rs @ ts) st'"
proof -
  have "((\<exists>st'. admit_views ts st = Inr st') \<longleftrightarrow> all_pairs compatible (rs @ ts))
    \<and> (\<forall>st'. admit_views ts st = Inr st' \<longrightarrow> group_rel (rs @ ts) st')"
    using assms
  proof (induction ts arbitrary: rs st)
    case Nil
    then show ?case by simp
  next
    case (Cons r ts)
    have ok: "view_ok r" using Cons.prems by simp
    have sub: "all_pairs compatible (rs @ r # ts) \<Longrightarrow> all_pairs compatible (rs @ [r])"
      by (induction rs) auto
    show ?case
    proof (cases "admit_view r st")
      case (Inl e)
      then have "\<not> (\<forall>v \<in> set rs. compatible v r)" using admit_view_iff [OF Cons.prems(1) ok] by auto
      then show ?thesis using Inl sub pairwise_snoc [where P = compatible and xs = rs and x = r, OF compatible_sym] by auto
    next
      case (Inr st1)
      then have compat: "\<forall>v \<in> set rs. compatible v r" using admit_view_iff [OF Cons.prems(1) ok] by auto
      have rel: "group_rel (rs @ [r]) st1" by (rule admit_view_rel [OF Cons.prems(1) ok Inr compat])
      have pw: "all_pairs compatible (rs @ [r])"
        using pairwise_snoc [where P = compatible and xs = rs and x = r, OF compatible_sym] Cons.prems(3) compat by blast
      have "((\<exists>st'. admit_views ts st1 = Inr st') \<longleftrightarrow> all_pairs compatible ((rs @ [r]) @ ts))
        \<and> (\<forall>st'. admit_views ts st1 = Inr st' \<longrightarrow> group_rel ((rs @ [r]) @ ts) st')"
        by (rule Cons.IH [OF rel _ pw]) (use Cons.prems(2) in simp)
      then show ?thesis by (simp add: Inr)
    qed
  qed
  then show "(\<exists>st'. admit_views ts st = Inr st') \<longleftrightarrow> all_pairs compatible (rs @ ts)"
    and "admit_views ts st = Inr st' \<Longrightarrow> group_rel (rs @ ts) st'" by blast+
qed

lemma pairwise_all:
  assumes "\<And>x y. P x y = P y x" and "\<forall>x \<in> set xs. P x x"
  shows "all_pairs P xs \<longleftrightarrow> (\<forall>x \<in> set xs. \<forall>y \<in> set xs. P x y)"
  using assms(2) by (induction xs) (auto simp: assms(1))

lemma intersections_iff:
  assumes "group_rel rs st" and "\<forall>v \<in> set rs. view_ok v"
  shows "list_ex lacks_intersection (gpGroups st) \<longleftrightarrow> \<not> all_pairs intersect rs"
proof -
  have all: "all_pairs intersect rs \<longleftrightarrow> (\<forall>v \<in> set rs. \<forall>w \<in> set rs. intersect v w)"
    by (rule pairwise_all [OF intersect_sym]) (use assms(2) in \<open>simp add: intersect_def view_ok_def\<close>)
  have wf: "gm_wf (gpGroups st)" using assms(1) by (simp add: group_rel_def)
  show ?thesis
  proof
    assume "list_ex lacks_intersection (gpGroups st)"
    then obtain i g where "gm_get (gpGroups st) i = Some g" and lacks: "lacks_intersection (i, g)"
      using gm_get_iff [OF wf] by (fastforce simp: list_ex_iff)
    with group_rel_at [OF assms(1), of i] have "group_holds (filter (\<lambda>v. identityOf v = i) rs) g" by simp
    then obtain v w where v: "v \<in> set rs" "identityOf v = i" "pgMaxLogicalStart g = logical_start v"
      and w: "w \<in> set rs" "identityOf w = i" "pgMinLogicalEnd g = logical_end w"
      by (auto simp: group_holds_def)
    then have "Transport v = TransportTCP" "logical_end w \<le> logical_start v"
      using lacks by (auto simp: lacks_intersection_def identityOf_def)
    then have "\<not> intersect v w" using v(2) w(2) by (simp add: intersect_def not_less)
    with v(1) w(1) show "\<not> all_pairs intersect rs" using all by blast
  next
    assume "\<not> all_pairs intersect rs"
    then obtain v w where vw: "v \<in> set rs" "w \<in> set rs" "\<not> intersect v w" using all by blast
    then have apart: "\<exists>v w. v \<in> set rs \<and> w \<in> set rs \<and> identityOf v = identityOf w \<and> Transport v = TransportTCP
        \<and> logical_end w \<le> logical_start v"
      using intersect_sym [of v w] by (fastforce simp: intersect_def not_less identityOf_def)
    then obtain v w where vw: "v \<in> set rs" "w \<in> set rs" "identityOf v = identityOf w" "Transport v = TransportTCP"
        "logical_end w \<le> logical_start v" by blast
    let ?gs = "filter (\<lambda>x. identityOf x = identityOf v) rs"
    have mem: "v \<in> set ?gs" "w \<in> set ?gs" using vw by simp_all
    then obtain g where g: "gm_get (gpGroups st) (identityOf v) = Some g" "group_holds ?gs g"
      using group_rel_at [OF assms(1), of "identityOf v"] by (cases "gm_get (gpGroups st) (identityOf v)")
        (auto simp: filter_empty_conv)
    have "pgMinLogicalEnd g \<le> pgMaxLogicalStart g"
    proof -
      have "pgMinLogicalEnd g \<le> logical_end w" "logical_start v \<le> pgMaxLogicalStart g"
        using g(2) mem by (auto simp: group_holds_def)
      with vw(5) show ?thesis by (auto intro: order_trans)
    qed
    moreover have "1 < pgViewCount g"
    proof -
      have "v \<noteq> w" using vw(5) assms(2) vw(1) by (auto simp: view_ok_def)
      moreover have "length ?gs \<noteq> 1" if "v \<noteq> w"
      proof
        assume "length ?gs = 1"
        then obtain x where x: "?gs = [x]" by (auto simp: length_Suc_conv)
        have "v \<in> set [x]" "w \<in> set [x]" using mem unfolding x by this+
        with that show False by simp
      qed
      moreover have "length ?gs \<noteq> 0" using mem by (metis length_0_conv list.set(1) empty_iff)
      moreover have "pgViewCount g = length ?gs" using g(2) by (simp add: group_holds_def)
      ultimately show ?thesis by linarith
    qed
    moreover have "piTransport (identityOf v) = TransportTCP" using vw(4) by (simp add: identityOf_def)
    ultimately have "lacks_intersection (identityOf v, g)" by (simp add: lacks_intersection_def)
    moreover have "(identityOf v, g) \<in> set (gpGroups st)" by (rule gm_get_in [OF g(1)])
    ultimately show "list_ex lacks_intersection (gpGroups st)" by (auto simp: list_ex_iff)
  qed
qed

lemma empty_groups_rel: "group_rel [] empty_groups"
  by (simp add: group_rel_def empty_groups_def go_map_simps)

lemma validateWireResponseGroups_iff:
  assumes "\<forall>v \<in> set rs. view_ok v"
  shows "validateWireResponseGroups rs = None \<longleftrightarrow> wire_groups_ok rs"
proof (cases "admit_views rs empty_groups")
  case (Inl e)
  then show ?thesis
    using admit_views_iff(1) [OF empty_groups_rel assms] by (simp add: validateWireResponseGroups_def wire_groups_ok_def)
next
  case (Inr st)
  have "group_rel rs st" using admit_views_iff(2) [OF empty_groups_rel assms _ Inr] by simp
  moreover have "all_pairs compatible rs" using admit_views_iff(1) [OF empty_groups_rel assms] Inr by simp
  ultimately show ?thesis
    using Inr intersections_iff [of rs st] assms by (simp add: validateWireResponseGroups_def wire_groups_ok_def)
qed

lemma admitted_view_ok:
  assumes "NewLogicalViewSnapshot maxRead r = Inr r"
  shows "view_ok r"
proof -
  have "length (Words r) = unat (LogicalWordCount r) \<and> 0 < length (Words r)
     \<and> unat (SliceOffset r) + unat (LogicalWordCount r) \<le> unat (PhysicalWordCount r)"
    using admitted_view_is_slice [OF assms] by blast
  then have s: "unat (SliceOffset r) + length (Words r) \<le> unat (PhysicalWordCount r)" "0 < unat (LogicalWordCount r)"
    by linarith+
  have "unat (logical_start r) + unat (LogicalWordCount r) = unat (logical_end r)"
    using u32_sum_u16 [of "LogicalOffset r" "LogicalWordCount r"] by (simp add: logical_start_def logical_end_def)
  then have "logical_start r < logical_end r" using s(2) by (simp add: word_less_nat_alt)
  then show ?thesis using s(1) by (simp add: view_ok_def)
qed

section \<open>Properties\<close>

lemma admitted_groups_iff:
  assumes "\<forall>r \<in> set rs. NewLogicalViewSnapshot maxRead r = Inr r"
  shows "validateWireResponseGroups rs = None \<longleftrightarrow> wire_groups_ok rs"
  by (rule validateWireResponseGroups_iff) (use assms admitted_view_ok in blast)

text \<open>C16: the views of a sample are accepted exactly when they tell one story. For admitted views the walk with its four
  maps accepts exactly if, for every two views, they have the same wire response just when they have the same
  physical identity, requests of one key have one identity, no serial response has two views, and views of one
  response have its exact bytes, names of their own and equal words wherever they overlap; and the views of one
  network response all overlap. The walk depends on nothing else, in particular not on the order of the views.\<close>

theorem accepted_views_agree:
  assumes "\<forall>r \<in> set rs. NewLogicalViewSnapshot maxRead r = Inr r"
  shows "validateWireResponseGroups rs = None \<longleftrightarrow> wire_groups_ok rs"
  by (rule admitted_groups_iff [OF assms])

theorem accepted_views_agree_witness:
  "validateWireResponseGroups [example_view] = None"
proof -
  have "wire_groups_ok [example_view]"
    by (auto simp: wire_groups_ok_def)
  then show ?thesis using accepted_views_agree [of "[example_view]" 125] example_view_admitted by simp
qed

end
