(* ===== verification/Rfc3339.thy ===== *)
theory Rfc3339
  imports Contract
begin

text \<open>
  Go's \<^verbatim>\<open>time.Time\<close> as this package uses it: an instant is the integer of its nanoseconds since
  the Unix epoch, and \<^verbatim>\<open>Format\<close> and \<^verbatim>\<open>Parse\<close> with the layout \<^verbatim>\<open>time.RFC3339Nano\<close> are the text of
  an instant in UTC and its reader, with the laxities of the library (an hour of one digit, a comma
  for the point, any number of digits, offsets up to 24:60). The location and the monotonic
  reading, which every caller strips, are left out.
\<close>

section \<open>The calendar\<close>

type_synonym go_time = int

definition nanos_per_second :: int where
  "nanos_per_second = 1000000000"

definition unix_seconds :: "go_time \<Rightarrow> int" where
  "unix_seconds t = t div nanos_per_second"

definition nanosecond :: "go_time \<Rightarrow> int" where
  "nanosecond t = t mod nanos_per_second"

text \<open>Seconds from the first instant of the year 1, the zero value of a time, to the Unix epoch.\<close>

definition unix_offset :: int where
  "unix_offset = 62135596800"

definition zero_time :: go_time where
  "zero_time = - unix_offset * nanos_per_second"

definition year_10000 :: go_time where
  "year_10000 = 253402300800 * nanos_per_second"

definition leap_year :: "int \<Rightarrow> bool" where
  "leap_year y \<longleftrightarrow> y mod 4 = 0 \<and> (y mod 100 \<noteq> 0 \<or> y mod 400 = 0)"

text \<open>The days before a year, counted from the year 1; and the year of a day with the days before it.\<close>

definition days_before_year :: "int \<Rightarrow> int" where
  "days_before_year y = 365 * (y - 1) + (y - 1) div 4 - (y - 1) div 100 + (y - 1) div 400"

definition year_of_day :: "int \<Rightarrow> int \<times> int" where
  "year_of_day d =
     (let a = d div 146097; r = d mod 146097;
          c0 = r div 36524; c = (if c0 = 4 then 3 else c0); r1 = r - 36524 * c;
          q = r1 div 1461; r2 = r1 - 1461 * q;
          k0 = r2 div 365; k = (if k0 = 4 then 3 else k0)
      in (400 * a + 100 * c + 4 * q + k + 1, r2 - 365 * k))"

definition days_before :: "nat list" where
  "days_before = [0, 31, 59, 90, 120, 151, 181, 212, 243, 273, 304, 334, 365]"

text \<open>The month, from 1, and the day of a day of the year.\<close>

definition month_day :: "bool \<Rightarrow> nat \<Rightarrow> nat \<times> nat" where
  "month_day leap yday =
     (if leap \<and> yday = 31 + 29 - 1 then (2, 29)
      else
        (let day = (if leap \<and> 31 + 29 - 1 < yday then yday - 1 else yday);
             m = day div 31
         in if days_before ! (m + 1) \<le> day then (m + 2, day - days_before ! (m + 1) + 1)
            else (m + 1, day - days_before ! m + 1)))"

definition days_in :: "nat \<Rightarrow> int \<Rightarrow> nat" where
  "days_in month year =
     (if month = 2 \<and> leap_year year then 29 else days_before ! month - days_before ! (month - 1))"

definition day_number :: "int \<Rightarrow> nat \<Rightarrow> nat \<Rightarrow> int" where
  "day_number year month day =
     days_before_year year + int (days_before ! (month - 1))
     + (if leap_year year \<and> 3 \<le> month then 1 else 0) + int day - 1"

definition time_year :: "go_time \<Rightarrow> int" where
  "time_year t = fst (year_of_day ((unix_seconds t + unix_offset) div 86400))"

section \<open>The text of a time\<close>

text \<open>The last \<open>k\<close> decimal digits of a number.\<close>

fun pad :: "nat \<Rightarrow> nat \<Rightarrow> string" where
  "pad 0 n = []"
| "pad (Suc k) n = pad k (n div 10) @ [digit_char (n mod 10)]"

definition trim_right_zeros :: "string \<Rightarrow> string" where
  "trim_right_zeros s = rev (dropWhile (\<lambda>c. c = CHR ''0'') (rev s))"

definition format_fraction :: "nat \<Rightarrow> string" where
  "format_fraction ns = (let s = trim_right_zeros (pad 9 ns) in if s = [] then [] else CHR ''.'' # s)"

definition format_rfc3339 :: "go_time \<Rightarrow> string" where
  "format_rfc3339 t =
     (let seconds = unix_seconds t + unix_offset;
          (year, yday) = year_of_day (seconds div 86400);
          (month, day) = month_day (leap_year year) (nat yday);
          s = nat (seconds mod 86400)
      in pad 4 (nat year) @ ''-'' @ pad 2 month @ ''-'' @ pad 2 day @ ''T'' @ pad 2 (s div 3600) @ '':''
         @ pad 2 (s div 60 mod 60) @ '':'' @ pad 2 (s mod 60) @ format_fraction (nat (nanosecond t)) @ ''Z'')"

section \<open>The reader\<close>

definition digit_of :: "char \<Rightarrow> nat" where
  "digit_of c = byte_at c - 48"

fun read_number :: "nat \<Rightarrow> string \<Rightarrow> nat" where
  "read_number n [] = n"
| "read_number n (c # s) = read_number (10 * n + digit_of c) s"

text \<open>\<^verbatim>\<open>getnum\<close>: two digits, or, where \<open>fixed\<close> is not demanded, one.\<close>

definition getnum :: "bool \<Rightarrow> string \<Rightarrow> (nat \<times> string) option" where
  "getnum fixed s =
     (case s of
        [] \<Rightarrow> None
      | a # r \<Rightarrow>
          (if \<not> is_digit a then None
           else (case r of
               [] \<Rightarrow> if fixed then None else Some (digit_of a, [])
             | b # r' \<Rightarrow>
                 (if is_digit b then Some (10 * digit_of a + digit_of b, r')
                  else if fixed then None else Some (digit_of a, r)))))"

definition skip_char :: "char \<Rightarrow> string \<Rightarrow> string option" where
  "skip_char c s = (case s of [] \<Rightarrow> None | x # r \<Rightarrow> if x = c then Some r else None)"

definition read_year :: "string \<Rightarrow> (nat \<times> string) option" where
  "read_year s =
     (if length s < 4 \<or> \<not> (\<forall>c \<in> set (take 4 s). is_digit c) then None
      else Some (read_number 0 (take 4 s), drop 4 s))"

definition read_field :: "bool \<Rightarrow> nat \<Rightarrow> nat \<Rightarrow> char \<Rightarrow> string \<Rightarrow> (nat \<times> string) option" where
  "read_field fixed least most sep s =
     (case skip_char sep s of
        None \<Rightarrow> None
      | Some r \<Rightarrow>
          (case getnum fixed r of
             None \<Rightarrow> None
           | Some (n, r') \<Rightarrow> if n < least \<or> most < n then None else Some (n, r')))"

text \<open>The fraction: digits beyond the ninth are dropped.\<close>

definition read_fraction :: "string \<Rightarrow> nat \<times> string" where
  "read_fraction s =
     (case s of
        p # d # r \<Rightarrow>
          (if (p = CHR ''.'' \<or> p = CHR '','') \<and> is_digit d
           then (let digits = takeWhile is_digit (d # r); used = take 9 digits
                 in (read_number 0 used * 10 ^ (9 - length used), dropWhile is_digit (d # r)))
           else (0, s))
      | _ \<Rightarrow> (0, s))"

definition read_zone :: "string \<Rightarrow> (int \<times> string) option" where
  "read_zone s =
     (case s of
        [] \<Rightarrow> None
      | z # r \<Rightarrow>
          (if z = CHR ''Z'' then Some (0, r)
           else if length s < 6 \<or> s ! 3 \<noteq> CHR '':'' then None
           else (case (getnum True (take 2 r), getnum True (take 2 (drop 3 r))) of
               (Some (hr, _), Some (mm, _)) \<Rightarrow>
                 (if 24 < hr \<or> 60 < mm then None
                  else if z = CHR ''+'' then Some (int ((hr * 60 + mm) * 60), drop 5 r)
                  else if z = CHR ''-'' then Some (- int ((hr * 60 + mm) * 60), drop 5 r)
                  else None)
             | _ \<Rightarrow> None)))"

definition parse_rfc3339 :: "string \<Rightarrow> go_time option" where
  "parse_rfc3339 s0 =
     (case read_year s0 of None \<Rightarrow> None | Some (year, s1) \<Rightarrow>
     (case read_field True 1 12 (CHR ''-'') s1 of None \<Rightarrow> None | Some (month, s2) \<Rightarrow>
     (case read_field True 0 99 (CHR ''-'') s2 of None \<Rightarrow> None | Some (day, s3) \<Rightarrow>
     (case read_field False 0 23 (CHR ''T'') s3 of None \<Rightarrow> None | Some (hour, s4) \<Rightarrow>
     (case read_field True 0 59 (CHR '':'') s4 of None \<Rightarrow> None | Some (minute, s5) \<Rightarrow>
     (case read_field True 0 59 (CHR '':'') s5 of None \<Rightarrow> None | Some (second, s6) \<Rightarrow>
     (case read_fraction s6 of (ns, s7) \<Rightarrow>
     (case read_zone s7 of None \<Rightarrow> None | Some (offset, s8) \<Rightarrow>
        if s8 \<noteq> [] \<or> day < 1 \<or> days_in month (int year) < day then None
        else Some ((day_number (int year) month day * 86400 + int (hour * 3600 + minute * 60 + second)
               - unix_offset - offset) * nanos_per_second + int ns)))))))))"

section \<open>The calendar is exact\<close>

lemma div_bounds: "0 < b \<Longrightarrow> b * (x div b) \<le> x \<and> x < b * (x div b) + (b :: int)"
  using pos_mod_bound [of b x] pos_mod_sign [of b x] mult_div_mod_eq [of b x] by linarith

lemma div_is: "0 < b \<Longrightarrow> b * m \<le> x \<Longrightarrow> x < b * m + b \<Longrightarrow> x div b = (m :: int)"
  by (rule int_div_pos_eq [of _ _ _ "x - b * m"]) auto

lemma year_of_day_exact:
  assumes "year_of_day d = (y, n)"
  shows "days_before_year y + n = d \<and> 0 \<le> n \<and> n < (if leap_year y then 366 else 365) \<and> (1 \<le> y \<longleftrightarrow> 0 \<le> d)"
proof -
  obtain a r where a: "a = d div 146097" and r: "r = d mod 146097" by blast
  obtain c where c: "c = (if r div 36524 = 4 then 3 else r div 36524)" by blast
  obtain r1 where r1: "r1 = r - 36524 * c" by blast
  obtain q where q: "q = r1 div 1461" by blast
  obtain r2 where r2: "r2 = r1 - 1461 * q" by blast
  obtain k where k: "k = (if r2 div 365 = 4 then 3 else r2 div 365)" by blast
  have y: "y = 400 * a + 100 * c + 4 * q + k + 1" and n: "n = r2 - 365 * k"
    using assms unfolding year_of_day_def Let_def a [symmetric] r [symmetric] c [symmetric] r1 [symmetric]
      q [symmetric] r2 [symmetric] k [symmetric] by simp_all
  have d: "d = 146097 * a + r" and a0: "0 \<le> a \<longleftrightarrow> 0 \<le> d" and rb: "0 \<le> r" "r < 146097"
    by (simp_all add: a r pos_imp_zdiv_nonneg_iff)
  have cb: "0 \<le> c" "c \<le> 3" and r1b: "0 \<le> r1" "r1 < 36525" "c < 3 \<longrightarrow> r1 < 36524"
    using rb div_bounds [of 36524 r] unfolding c r1 by (auto split: if_splits)
  have qb: "0 \<le> q" "q \<le> 24" and r2b: "0 \<le> r2" "r2 < 1461"
    and last: "q = 24 \<and> c < 3 \<longrightarrow> r2 < 1460"
    using r1b cb div_bounds [of 1461 r1] unfolding q r2 by auto
  have kb: "0 \<le> k" "k \<le> 3" and nb: "0 \<le> n" "n \<le> 365" "k < 3 \<longrightarrow> n < 365" "r2 < 1460 \<longrightarrow> n < 365"
    using r2b div_bounds [of 365 r2] unfolding n k by (auto split: if_splits)
  have q4: "(y - 1) div 4 = 100 * a + 25 * c + q" and q100: "(y - 1) div 100 = 4 * a + c"
    and q400: "(y - 1) div 400 = a"
    unfolding y by (rule div_is; use cb qb kb in simp)+
  have "days_before_year y + n = d"
    unfolding days_before_year_def q4 q100 q400 by (simp add: y n d r2 r1)
  moreover have "n = 365 \<Longrightarrow> leap_year y"
  proof -
    assume "n = 365"
    then have k3: "k = 3" and "\<not> (q = 24 \<and> c < 3)" using nb last kb by auto
    have "y mod 4 = 0"
    proof -
      have "y = 4 * (100 * a + 25 * c + q + 1)" by (simp add: y k3)
      then show ?thesis by simp
    qed
    moreover have "y mod 100 \<noteq> 0 \<or> y mod 400 = 0"
    proof (cases "q = 24")
      case True
      then have "y = 400 * (a + 1)" using \<open>\<not> (q = 24 \<and> c < 3)\<close> cb by (simp add: y k3)
      then show ?thesis by simp
    next
      case False
      have "y = 4 * (q + 1) + 100 * (4 * a + c)" by (simp add: y k3)
      then have "y mod 100 = 4 * (q + 1) mod 100" by (metis mod_mult_self2)
      then have "y mod 100 = 4 * (q + 1)" using qb False by simp
      then show ?thesis using qb(1) by simp
    qed
    ultimately have "y mod 4 = 0" and "y mod 100 \<noteq> 0 \<or> y mod 400 = 0" by blast+
    then show ?thesis by (simp add: leap_year_def)
  qed
  moreover have "1 \<le> y \<longleftrightarrow> 0 \<le> a" using cb qb kb unfolding y by linarith
  ultimately show ?thesis using nb a0 by force
qed

lemma month_table:
  "\<forall>q \<in> set [0..<12]. days_before ! q \<le> 31 * q \<and> days_before ! q < days_before ! (q + 1)
     \<and> (if q = 11 then days_before ! (q + 1) = 365
        else 31 * q + 31 \<le> days_before ! (q + 2) \<and> days_before ! (q + 1) < days_before ! (q + 2))
     \<and> (if q = 0 then days_before ! (q + 1) \<le> 59 \<and> days_before ! (q + 2) = 59 else 59 \<le> days_before ! (q + 1))
     \<and> (if q \<le> 1 then days_before ! (q + 1) \<le> 59 else 59 \<le> days_before ! q)"
  by code_simp

lemma month_of_day:
  assumes "n < 365" and "month_day False n = (m, d)"
  shows "1 \<le> m \<and> m \<le> 12 \<and> 1 \<le> d \<and> d \<le> days_before ! m - days_before ! (m - 1)
     \<and> days_before ! (m - 1) + d = n + 1 \<and> (3 \<le> m \<longleftrightarrow> 59 \<le> n)"
proof -
  obtain q where q: "q = n div 31" by blast
  have n: "31 * q \<le> n" "n < 31 * q + 31" "q \<le> 11" using assms(1) by (simp_all add: q)
  obtain lo mid hi where db: "lo = days_before ! q" "mid = days_before ! (q + 1)" "hi = days_before ! (q + 2)" by blast
  have "q \<in> set [0..<12]" using n(3) by simp
  with month_table have table: "lo \<le> 31 * q" "lo < mid" "if q = 11 then mid = 365 else 31 * q + 31 \<le> hi \<and> mid < hi"
      "if q = 0 then mid \<le> 59 \<and> hi = 59 else 59 \<le> mid" "if q \<le> 1 then mid \<le> 59 else 59 \<le> lo"
    unfolding db by blast+
  have md: "(m, d) = (if mid \<le> n then (q + 2, n - mid + 1) else (q + 1, n - lo + 1))"
    using assms(2) by (auto simp: month_day_def db q Let_def split: if_splits)
  show ?thesis
  proof (cases "mid \<le> n")
    case True
    then have "q \<noteq> 11" using table(3) assms(1) by auto
    then have "n < hi" "q \<le> 10" using table(3) n by auto
    moreover have "m = q + 2" "d = n - mid + 1" using md True by simp_all
    moreover have "days_before ! m = hi" "days_before ! (m - 1) = mid" using \<open>m = q + 2\<close> by (simp_all add: db)
    ultimately show ?thesis using True table(4) by (auto split: if_splits)
  next
    case False
    then have "m = q + 1" "d = n - lo + 1" using md by simp_all
    moreover have "days_before ! m = mid" "days_before ! (m - 1) = lo" using \<open>m = q + 1\<close> by (simp_all add: db)
    ultimately show ?thesis using False table n by (auto split: if_splits)
  qed
qed

lemma month_day_leap:
  "month_day True n = (if n = 59 then (2, 29) else month_day False (if 59 < n then n - 1 else n))"
  by (simp add: month_day_def)

lemma month_day_exact:
  assumes "n < (if leap_year y then 366 else 365)" and "month_day (leap_year y) n = (m, d)"
  shows "1 \<le> m \<and> m \<le> 12 \<and> 1 \<le> d \<and> d \<le> days_in m y \<and> day_number y m d = days_before_year y + int n"
proof (cases "leap_year y \<and> n = 59")
  case True
  then show ?thesis using assms(2) by (auto simp: month_day_leap days_in_def day_number_def days_before_def)
next
  case False
  obtain k where k: "k = (if leap_year y \<and> 59 < n then n - 1 else n)" by blast
  have "k < 365" using assms(1) False unfolding k by (auto split: if_splits)
  moreover have "month_day False k = (m, d)"
    using assms(2) False unfolding k by (cases "leap_year y") (auto simp: month_day_leap split: if_splits)
  ultimately have "1 \<le> m \<and> m \<le> 12 \<and> 1 \<le> d \<and> d \<le> days_before ! m - days_before ! (m - 1)
     \<and> days_before ! (m - 1) + d = k + 1 \<and> (3 \<le> m \<longleftrightarrow> 59 \<le> k)" by (rule month_of_day)
  then have m: "1 \<le> m" "m \<le> 12" "1 \<le> d" "d \<le> days_before ! m - days_before ! (m - 1)"
      "days_before ! (m - 1) + d = k + 1" "3 \<le> m \<longleftrightarrow> 59 \<le> k" by blast+
  have "d \<le> days_in m y"
  proof (cases "m = 2 \<and> leap_year y")
    case True
    then show ?thesis using m(4) by (simp add: days_in_def days_before_def)
  next
    case False
    then show ?thesis using m(4) by (auto simp: days_in_def)
  qed
  moreover have "int (days_before ! (m - 1)) + int d = int k + 1" using m(5) by linarith
  then have "day_number y m d = days_before_year y + int n"
    unfolding day_number_def using m(6) False unfolding k by (auto split: if_splits)
  ultimately show ?thesis using m(1-3) by blast
qed

lemma days_in_bound: "1 \<le> m \<Longrightarrow> m \<le> 12 \<Longrightarrow> days_in m y \<le> 31"
proof -
  assume "1 \<le> m" "m \<le> 12"
  then have "m = 1 \<or> m = 2 \<or> m = 3 \<or> m = 4 \<or> m = 5 \<or> m = 6 \<or> m = 7 \<or> m = 8 \<or> m = 9
    \<or> m = 10 \<or> m = 11 \<or> m = 12" by presburger
  then show ?thesis by (elim disjE) (simp_all add: days_in_def days_before_def)
qed

section \<open>Reading what was written\<close>

lemma digit_char_digit: "n < 10 \<Longrightarrow> is_digit (digit_char n) \<and> digit_of (digit_char n) = n"
  by (simp add: is_digit_def digit_of_def digit_char_def byte_at_def)

lemma read_number_append: "read_number n (s @ t) = read_number (read_number n s) t"
  by (induction s arbitrary: n) auto

lemma pad_length [simp]: "length (pad k n) = k"
  by (induction k arbitrary: n) auto

lemma pad_digits: "c \<in> set (pad k n) \<Longrightarrow> is_digit c"
  by (induction k arbitrary: n) (auto simp: digit_char_digit)

lemma read_pad: "read_number 0 (pad k n) = n mod 10 ^ k"
proof (induction k arbitrary: n)
  case 0
  then show ?case by simp
next
  case (Suc k)
  then show ?case
    using digit_char_digit [of "n mod 10"] mod_mult2_eq [of n 10 "10 ^ k"]
    by (simp add: read_number_append)
qed

lemma getnum_pad: "n < 100 \<Longrightarrow> getnum fixed (pad 2 n @ s) = Some (n, s)"
  using digit_char_digit [of "n div 10"] digit_char_digit [of "n mod 10"]
  by (simp add: getnum_def numeral_2_eq_2 less_mult_imp_div_less)

lemma read_field_pad:
  "n < 100 \<Longrightarrow> least \<le> n \<Longrightarrow> n \<le> most \<Longrightarrow> read_field fixed least most sep (sep # pad 2 n @ s) = Some (n, s)"
  by (simp add: read_field_def skip_char_def getnum_pad)

lemma read_year_pad: "n < 10000 \<Longrightarrow> read_year (pad 4 n @ s) = Some (n, s)"
  using read_pad [of 4 n] pad_digits [of _ 4 n] by (auto simp: read_year_def)

lemma zero_is_zero: "digit_of (CHR ''0'') = 0"
  by (simp add: digit_of_def byte_at_def)

lemma read_zeros: "list_all (\<lambda>c. c = CHR ''0'') s \<Longrightarrow> read_number n s = n * 10 ^ length s"
  by (induction s arbitrary: n) (auto simp: zero_is_zero)

lemma trim_split:
  obtains z where "s = trim_right_zeros s @ z" and "list_all (\<lambda>c. c = CHR ''0'') z"
proof -
  have "rev s = takeWhile (\<lambda>c. c = CHR ''0'') (rev s) @ dropWhile (\<lambda>c. c = CHR ''0'') (rev s)" by simp
  then have "s = trim_right_zeros s @ rev (takeWhile (\<lambda>c. c = CHR ''0'') (rev s))"
    by (metis rev_append rev_rev_ident trim_right_zeros_def)
  moreover have "list_all (\<lambda>c. c = CHR ''0'') (rev (takeWhile (\<lambda>c. c = CHR ''0'') (rev s)))"
    by (auto simp: list_all_iff dest: set_takeWhileD)
  ultimately show thesis using that by blast
qed

lemma read_written_fraction:
  assumes "ns < 10 ^ 9" and "s \<noteq> []" and "\<not> is_digit (hd s)" and "hd s \<noteq> CHR ''.''" and "hd s \<noteq> CHR '',''"
  shows "read_fraction (format_fraction ns @ s) = (ns, s)"
proof -
  obtain z where z: "pad 9 ns = trim_right_zeros (pad 9 ns) @ z" "list_all (\<lambda>c. c = CHR ''0'') z"
    by (rule trim_split)
  let ?t = "trim_right_zeros (pad 9 ns)"
  have len: "length ?t + length z = 9" using arg_cong [OF z(1), of length] by simp
  have val: "read_number 0 ?t * 10 ^ length z = ns"
    using read_pad [of 9 ns] assms(1) by (subst (asm) z(1)) (simp add: read_number_append read_zeros [OF z(2)])
  show ?thesis
  proof (cases ?t)
    case Nil
    then show ?thesis
      using val assms by (cases s; cases "tl s") (auto simp: format_fraction_def Let_def read_fraction_def)
  next
    case (Cons d r)
    have "set ?t \<subseteq> set (pad 9 ns)" using arg_cong [OF z(1), of set] by auto
    then have digits: "\<forall>c \<in> set ?t. is_digit c" using pad_digits by blast
    have "takeWhile is_digit (?t @ s) = ?t" "dropWhile is_digit (?t @ s) = s"
      using digits assms(2,3) by (cases s; simp add: takeWhile_append dropWhile_append)+
    moreover have "9 - length ?t = length z" "take 9 ?t = ?t" using len by simp_all
    ultimately show ?thesis
      using Cons digits val by (simp add: format_fraction_def Let_def read_fraction_def)
  qed
qed

lemma time_parts:
  assumes "zero_time \<le> t" and "t < year_10000"
  obtains year yday s where "year_of_day ((unix_seconds t + unix_offset) div 86400) = (year, yday)"
    and "1 \<le> year" and "year \<le> 9999" and "0 \<le> yday" and "yday < (if leap_year year then 366 else 365)"
    and "s = nat ((unix_seconds t + unix_offset) mod 86400)" and "s < 86400"
    and "unix_seconds t + unix_offset = (days_before_year year + yday) * 86400 + int s"
proof -
  let ?x = "unix_seconds t + unix_offset"
  have x: "0 \<le> ?x" "?x < 315537897600"
    using assms unfolding unix_seconds_def zero_time_def year_10000_def unix_offset_def nanos_per_second_def by linarith+
  obtain year yday where y: "year_of_day (?x div 86400) = (year, yday)" by (cases "year_of_day (?x div 86400)")
  have exact: "days_before_year year + yday = ?x div 86400" "0 \<le> yday"
      "yday < (if leap_year year then 366 else 365)" "1 \<le> year"
    using year_of_day_exact [OF y] x(1) by auto
  have "?x div 86400 < 3652059" using x(2) by linarith
  then have "days_before_year year < 3652059" using exact(1,2) by linarith
  then have "year - 1 \<le> 9999 \<and> year - 1 \<noteq> 9999"
    using div_bounds [of 4 "year - 1"] div_bounds [of 100 "year - 1"] div_bounds [of 400 "year - 1"]
    unfolding days_before_year_def by auto
  then have "year \<le> 9999" by linarith
  moreover have "?x = (?x div 86400) * 86400 + ?x mod 86400" by simp
  ultimately show thesis
    using that [OF y exact(4) _ exact(2,3) refl] exact(1) by simp
qed

lemma parse_format:
  assumes "zero_time \<le> t" and "t < year_10000"
  shows "parse_rfc3339 (format_rfc3339 t) = Some t"
proof -
  obtain year yday s where y: "year_of_day ((unix_seconds t + unix_offset) div 86400) = (year, yday)"
    and yb: "1 \<le> year" "year \<le> 9999" and nb: "0 \<le> yday" "yday < (if leap_year year then 366 else 365)"
    and s: "s = nat ((unix_seconds t + unix_offset) mod 86400)" "s < 86400"
    and x: "unix_seconds t + unix_offset = (days_before_year year + yday) * 86400 + int s"
    by (rule time_parts [OF assms])
  obtain month day where md: "month_day (leap_year year) (nat yday) = (month, day)"
    by (cases "month_day (leap_year year) (nat yday)")
  have "nat yday < (if leap_year year then 366 else 365)" using nb by (auto split: if_splits)
  note m = month_day_exact [OF this md]
  have "day \<le> 31" using m days_in_bound [of month year] by linarith
  have number: "day_number year month day = days_before_year year + yday" using m nb(1) by simp
  let ?ns = "nat (nanosecond t)"
  have ns: "?ns < 10 ^ 9" "int ?ns = nanosecond t"
    by (simp_all add: nanosecond_def nanos_per_second_def nat_less_iff)
  have fraction: "read_fraction (format_fraction ?ns @ ''Z'') = (?ns, ''Z'')"
    by (rule read_written_fraction [OF ns(1)]) (simp_all add: is_digit_def byte_at_def)
  have clock: "s div 3600 * 3600 + s div 60 mod 60 * 60 + s mod 60 = s"
  proof -
    have "s div 60 div 60 = s div 3600" by (simp add: div_mult2_eq [symmetric])
    then have "60 * (s div 3600) + s div 60 mod 60 = s div 60" using mult_div_mod_eq [of 60 "s div 60"] by simp
    then show ?thesis using mult_div_mod_eq [of 60 s] by linarith
  qed
  have hms: "s div 3600 \<le> 23" "s div 60 mod 60 \<le> 59" "s mod 60 \<le> 59" using s(2) by (auto simp: less_mult_imp_div_less)
  have time: "((days_before_year year + yday) * 86400 + int s - unix_offset) * nanos_per_second + int ?ns = t"
    unfolding x [symmetric] ns(2) by (simp add: unix_seconds_def nanosecond_def)
  have format: "format_rfc3339 t = pad 4 (nat year) @ ''-'' @ pad 2 month @ ''-'' @ pad 2 day @ ''T'' @ pad 2 (s div 3600)
      @ '':'' @ pad 2 (s div 60 mod 60) @ '':'' @ pad 2 (s mod 60) @ format_fraction ?ns @ ''Z''"
    by (simp add: format_rfc3339_def Let_def y md s(1))
  have zone: "read_zone ''Z'' = Some (0, [])" by (simp add: read_zone_def)
  have int_year: "int (nat year) = year" using yb by simp
  have hour: "s div 3600 < 100" "s div 60 mod 60 < 100" "s mod 60 < 100" "month < 100" "day < 100"
    and year: "nat year < 10000"
    using hms m \<open>day \<le> 31\<close> yb by simp_all
  have day: "\<not> day < 1" "\<not> days_in month year < day" using m by simp_all
  have fields: "read_year (pad 4 (nat year) @ r) = Some (nat year, r)"
      "read_field True 1 12 (CHR ''-'') (CHR ''-'' # pad 2 month @ r) = Some (month, r)"
      "read_field True 0 99 (CHR ''-'') (CHR ''-'' # pad 2 day @ r) = Some (day, r)"
      "read_field False 0 23 (CHR ''T'') (CHR ''T'' # pad 2 (s div 3600) @ r) = Some (s div 3600, r)"
      "read_field True 0 59 (CHR '':'') (CHR '':'' # pad 2 (s div 60 mod 60) @ r) = Some (s div 60 mod 60, r)"
      "read_field True 0 59 (CHR '':'') (CHR '':'' # pad 2 (s mod 60) @ r) = Some (s mod 60, r)" for r
    using hms m hour by (simp_all add: read_year_pad [OF year] read_field_pad)
  show ?thesis
    unfolding format parse_rfc3339_def append.simps fields option.case prod.case fraction zone int_year clock number time
    using day time by (simp add: number clock)
qed

lemma time_year_range: "1 \<le> time_year t \<and> time_year t \<le> 9999 \<longleftrightarrow> zero_time \<le> t \<and> t < year_10000"
proof -
  let ?x = "unix_seconds t + unix_offset"
  obtain y n where yn: "year_of_day (?x div 86400) = (y, n)" by (cases "year_of_day (?x div 86400)")
  then have y: "time_year t = y" by (simp add: time_year_def)
  note exact = year_of_day_exact [OF yn]
  have "zero_time \<le> t \<longleftrightarrow> 0 \<le> ?x"
    unfolding zero_time_def unix_seconds_def nanos_per_second_def unix_offset_def by linarith
  also have "\<dots> \<longleftrightarrow> 0 \<le> ?x div 86400" by (simp add: pos_imp_zdiv_nonneg_iff)
  finally have low: "zero_time \<le> t \<longleftrightarrow> 1 \<le> y" using exact by blast
  have "t < year_10000 \<longleftrightarrow> ?x < 315537897600"
    unfolding year_10000_def unix_seconds_def nanos_per_second_def unix_offset_def by linarith
  also have "\<dots> \<longleftrightarrow> ?x div 86400 < 3652059" by linarith
  also have "\<dots> \<longleftrightarrow> y \<le> 9999"
  proof
    assume "?x div 86400 < 3652059"
    then have "days_before_year y < 3652059" using exact by linarith
    then have "y - 1 \<le> 9999 \<and> y - 1 \<noteq> 9999"
      using div_bounds [of 4 "y - 1"] div_bounds [of 100 "y - 1"] div_bounds [of 400 "y - 1"]
      unfolding days_before_year_def by auto
    then show "y \<le> 9999" by linarith
  next
    assume y: "y \<le> 9999"
    show "?x div 86400 < 3652059"
    proof (cases "y = 9999")
      case True
      then have "days_before_year y = 3651694" and "\<not> leap_year y" by (simp_all add: days_before_year_def leap_year_def)
      then show ?thesis using exact by auto
    next
      case False
      then have "days_before_year y \<le> 3651329 + 10"
        using y div_bounds [of 4 "y - 1"] div_bounds [of 100 "y - 1"] div_bounds [of 400 "y - 1"]
        unfolding days_before_year_def by auto
      then show ?thesis using exact by (auto split: if_splits)
    qed
  qed
  finally show ?thesis using low y by blast
qed

text \<open>The text of a time is read back as the same time. For every instant from the first of the year 1 to the last of
  the year 9999, \<^verbatim>\<open>time.Parse\<close> returns the instant that \<^verbatim>\<open>Format\<close> wrote, with all its
  nanoseconds; so the check of \<^verbatim>\<open>canonicalObservedTime\<close> refuses a time for its year only.\<close>

theorem written_time_is_read_back:
  assumes "zero_time \<le> t" and "t < year_10000"
  shows "parse_rfc3339 (format_rfc3339 t) = Some t"
  by (rule parse_format [OF assms])

theorem written_time_is_read_back_witness:
  "parse_rfc3339 (format_rfc3339 1709210096000000500) = Some 1709210096000000500"
  by (rule written_time_is_read_back) (simp_all add: zero_time_def year_10000_def unix_offset_def nanos_per_second_def)


end
