(* ===== verification/Observation_Coherence.thy ===== *)
theory Observation_Coherence
  imports Observation_Groups Profile_Descriptor Rfc3339
begin

text \<open>
  The coherence of one sample (\<^verbatim>\<open>validateObservationCoherence\<close> of \<^verbatim>\<open>observation.go\<close>): the
  times, ordinals and markers of its dependencies against the policy of the profile.
\<close>

section \<open>Times\<close>

named_theorems observation_consts \<open>the named string constants of observations\<close>

definition DependencyReadSuccessful :: string where [observation_consts]: "DependencyReadSuccessful = ''successful''"

definition SourceValid :: string where [observation_consts]: "SourceValid = ''valid''"
definition SourceInvalid :: string where [observation_consts]: "SourceInvalid = ''invalid''"
definition SourceNotImplemented :: string where [observation_consts]: "SourceNotImplemented = ''not_implemented''"
definition SourceReserved :: string where [observation_consts]: "SourceReserved = ''reserved''"

definition SourceTimeObservedState :: string where [observation_consts]: "SourceTimeObservedState = ''observed''"
definition SourceTimeUnavailableState :: string where
  [observation_consts]: "SourceTimeUnavailableState = ''unavailable''"

record source_time =
  srState :: string
  srTime :: go_time

datatype observation_error =
    ObservationContract contract_error
  | ObservationDependencyCount
  | ObservationWords
  | ObservationSetID
  | TimestampRange
  | TimestampRoundTrip
  | ObservedTimeInvalid
  | UnavailableTimeGuessed
  | SourceTimeUnknown
  | EnvelopeMismatch
  | SourceValidityUnknown
  | DependencySetIncomplete
  | DependencyUnsuccessful nat
  | DependencyProvenance nat
  | SampleEmpty
  | WireGroups group_error
  | RTUMultipleDependencies
  | SingleWireRetry
  | SingleWireTimes
  | SingleWireIncoherent
  | BoundedRetry
  | BoundedFacts
  | BoundedIdentity
  | BoundedMarker
  | BoundedChronology
  | OrdinalDuplicated
  | OrdinalGaps
  | OrderReversed
  | OrderUnavailable
  | OrderUnknown
  | SkewExceeded
  | EnvelopeTime
  | CoherenceModeUnknown

definition canonicalObservedTime :: "go_time \<Rightarrow> observation_error + go_time" where
  "canonicalObservedTime t =
     (if time_year t < 1 \<or> 9999 < time_year t then Inl TimestampRange
      else (case parse_rfc3339 (format_rfc3339 t) of
          None \<Rightarrow> Inl TimestampRoundTrip
        | Some d \<Rightarrow> if d \<noteq> t then Inl TimestampRoundTrip else Inr d))"

lemma canonicalObservedTime_eq [code]:
  "canonicalObservedTime t = (if t < zero_time \<or> year_10000 \<le> t then Inl TimestampRange else Inr t)"
  using time_year_range [of t] parse_format [of t] by (auto simp: canonicalObservedTime_def)

definition hasLocalReceiptTime :: "go_time \<Rightarrow> bool \<Rightarrow> bool" where
  "hasLocalReceiptTime t present \<longleftrightarrow> present \<or> t \<noteq> zero_time"

definition canonicalRequiredTime :: "go_time \<Rightarrow> bool \<Rightarrow> observation_error + go_time" where
  "canonicalRequiredTime t present =
     (if \<not> hasLocalReceiptTime t present then Inl TimestampRange else canonicalObservedTime t)"

definition validateSourceTime :: "source_time \<Rightarrow> observation_error outcome" where
  "validateSourceTime s =
     (if srState s = SourceTimeObservedState
      then (case canonicalObservedTime (srTime s) of Inl _ \<Rightarrow> Some ObservedTimeInvalid | Inr _ \<Rightarrow> None)
      else if srState s = SourceTimeUnavailableState
      then (if srTime s \<noteq> zero_time then Some UnavailableTimeGuessed else None)
      else Some SourceTimeUnknown)"

definition exceedsTimeSkew :: "go_time \<Rightarrow> go_time \<Rightarrow> int \<Rightarrow> bool" where
  "exceedsTimeSkew minimum maximum limit =
     (if limit < 0 \<or> maximum < minimum then True
      else
        (let s = unix_seconds maximum - unix_seconds minimum;
             n = nanosecond maximum - nanosecond minimum;
             seconds = (if n < 0 then s - 1 else s);
             nanoseconds = (if n < 0 then n + nanos_per_second else n);
             limitSeconds = limit div nanos_per_second;
             limitNanoseconds = limit mod nanos_per_second
         in seconds > limitSeconds \<or> (seconds = limitSeconds \<and> nanoseconds > limitNanoseconds)))"

section \<open>Samples\<close>

record dependency_result =
  rsDependencyID :: string
  rsDependencyVersion :: version
  rsCodecID :: string
  rsCodecVersion :: version
  rsNormalizationVersion :: version
  rsStatus :: string
  rsView :: "logical_view option"
  rsSourceTime :: source_time
  rsLocalReceiptTime :: go_time
  rsMarker :: string
  rsAcquisitionOrdinal :: u32
  rsRetryOrdinal :: u32
  rsReceiptPresent :: bool

record observation_spec =
  osSchemaVersion :: version
  osRuntimeContractVersion :: version
  osProfileID :: string
  osProfileVersion :: version
  osCodecContractVersion :: version
  osDetectorVersion :: version
  osNormalizationVersion :: version
  osCoherenceVersion :: version
  osQualificationVersion :: version
  osSampleID :: string
  osPollGenerationID :: u64
  osRetryOrdinal :: u32
  osDependencySetID :: string
  osDependencySetVersion :: version
  osSourceValidity :: string
  osSourceTime :: source_time
  osLocalReceiptTime :: go_time
  osEndpoint :: string
  osUnitID :: u8
  osDependencies :: "dependency_result list"
  osReceiptPresent :: bool

section \<open>One wire response\<close>

fun check_single :: "u64 \<Rightarrow> (dependency_result \<times> logical_view) list \<Rightarrow> observation_error outcome" where
  "check_single first [] = None"
| "check_single first ((d, v) # rest) =
     (if rsRetryOrdinal d \<noteq> 0 \<or> rsAcquisitionOrdinal d \<noteq> 0
         \<or> srState (rsSourceTime d) \<noteq> SourceTimeUnavailableState \<or> srTime (rsSourceTime d) \<noteq> zero_time
         \<or> hasLocalReceiptTime (rsLocalReceiptTime d) (rsReceiptPresent d)
      then Some SingleWireTimes
      else if WireResponseID v \<noteq> first then Some SingleWireIncoherent
      else check_single first rest)"

section \<open>Several responses\<close>

record acquisition_fact =
  afWireResponseID :: u64
  afOrdinal :: u32
  afSource :: source_time
  afReceipt :: go_time
  afMarker :: string

definition acquired_fact :: "dependency_result \<times> logical_view \<Rightarrow> acquisition_fact" where
  "acquired_fact p = \<lparr>afWireResponseID = WireResponseID (snd p), afOrdinal = rsAcquisitionOrdinal (fst p),
     afSource = rsSourceTime (fst p), afReceipt = rsLocalReceiptTime (fst p), afMarker = rsMarker (fst p)\<rparr>"

definition sourceTimesEqual :: "source_time \<Rightarrow> source_time \<Rightarrow> bool" where
  "sourceTimesEqual a b \<longleftrightarrow> srState a = srState b \<and> srTime a = srTime b"

definition same_source_identity :: "bool \<Rightarrow> logical_view \<Rightarrow> logical_view \<Rightarrow> bool" where
  "same_source_identity generations v first \<longleftrightarrow> Endpoint v = Endpoint first \<and> ConnectionID v = ConnectionID first
     \<and> UnitID v = UnitID first \<and> Transport v = Transport first
     \<and> (generations \<longrightarrow> TransportGeneration v = TransportGeneration first)"

text \<open>The walk over the dependencies; \<^verbatim>\<open>factByWire\<close> finds the one fact of a wire response.\<close>

fun collect_facts ::
    "coherence_spec \<Rightarrow> u32 \<Rightarrow> logical_view \<Rightarrow> (dependency_result \<times> logical_view) list \<Rightarrow> acquisition_fact list
       \<Rightarrow> observation_error + acquisition_fact list"
where
  "collect_facts policy retry first [] facts = Inr facts"
| "collect_facts policy retry first ((d, v) # rest) facts =
     (if validateSourceTime (rsSourceTime d) \<noteq> None
         \<or> \<not> hasLocalReceiptTime (rsLocalReceiptTime d) (rsReceiptPresent d)
         \<or> rsAcquisitionOrdinal d = 0 \<or> rsRetryOrdinal d \<noteq> retry
      then Inl BoundedFacts
      else if \<not> same_source_identity (cpRequireGenerationEquality policy) v first then Inl BoundedIdentity
      else if cpDocumentaryConsistencyMarker policy \<noteq> ''''
         \<and> rsMarker d \<noteq> cpDocumentaryConsistencyMarker policy then Inl BoundedMarker
      else (case find (\<lambda>f. afWireResponseID f = WireResponseID v) facts of
          Some f \<Rightarrow>
            (if afOrdinal f \<noteq> rsAcquisitionOrdinal d \<or> \<not> sourceTimesEqual (afSource f) (rsSourceTime d)
                \<or> afReceipt f \<noteq> rsLocalReceiptTime d \<or> afMarker f \<noteq> rsMarker d
             then Inl BoundedChronology
             else collect_facts policy retry first rest facts)
        | None \<Rightarrow> collect_facts policy retry first rest (facts @ [acquired_fact (d, v)])))"

record fact_ranges =
  frOrdinals :: "(u32, u64) gomap"
  frMinimumReceipt :: go_time
  frMaximumReceipt :: go_time
  frReceiptSet :: bool
  frMinimumSource :: go_time
  frMaximumSource :: go_time
  frSourceSet :: bool
  frSourceUnavailable :: bool

definition empty_ranges :: fact_ranges where
  "empty_ranges = \<lparr>frOrdinals = [], frMinimumReceipt = zero_time, frMaximumReceipt = zero_time,
     frReceiptSet = False, frMinimumSource = zero_time, frMaximumSource = zero_time, frSourceSet = False,
     frSourceUnavailable = False\<rparr>"

definition scan_receipt :: "acquisition_fact \<Rightarrow> fact_ranges \<Rightarrow> fact_ranges" where
  "scan_receipt f r = r\<lparr>frOrdinals := gm_put (afOrdinal f) (afWireResponseID f) (frOrdinals r),
     frMinimumReceipt := (if \<not> frReceiptSet r \<or> afReceipt f < frMinimumReceipt r then afReceipt f else frMinimumReceipt r),
     frMaximumReceipt := (if \<not> frReceiptSet r \<or> frMaximumReceipt r < afReceipt f then afReceipt f else frMaximumReceipt r),
     frReceiptSet := True\<rparr>"

definition scan_source :: "acquisition_fact \<Rightarrow> fact_ranges \<Rightarrow> fact_ranges" where
  "scan_source f r =
     (let t = srTime (afSource f) in
      if srState (afSource f) = SourceTimeUnavailableState then r\<lparr>frSourceUnavailable := True\<rparr>
      else r\<lparr>frMinimumSource := (if \<not> frSourceSet r \<or> t < frMinimumSource r then t else frMinimumSource r),
             frMaximumSource := (if \<not> frSourceSet r \<or> frMaximumSource r < t then t else frMaximumSource r),
             frSourceSet := True\<rparr>)"

fun scan_facts :: "acquisition_fact list \<Rightarrow> fact_ranges \<Rightarrow> observation_error + fact_ranges" where
  "scan_facts [] r = Inr r"
| "scan_facts (f # fs) r =
     (if (case gm_get (frOrdinals r) (afOrdinal f) of None \<Rightarrow> False | Some wire \<Rightarrow> wire \<noteq> afWireResponseID f)
      then Inl OrdinalDuplicated
      else scan_facts fs (scan_source f (scan_receipt f r)))"

definition ordinals_complete :: "acquisition_fact list \<Rightarrow> bool" where
  "ordinals_complete fs \<longleftrightarrow> map afOrdinal fs = map (\<lambda>i. of_nat (Suc i)) [0..<length fs]"

fun ascending :: "go_time list \<Rightarrow> bool" where
  "ascending (a # b # ts) = (\<not> b < a \<and> ascending (b # ts))"
| "ascending _ = True"

fun declaration_ascending :: "u32 list \<Rightarrow> bool" where
  "declaration_ascending (a # b # os) = (\<not> b < a \<and> declaration_ascending (b # os))"
| "declaration_ascending _ = True"

definition check_order ::
    "coherence_spec \<Rightarrow> dependency_result list \<Rightarrow> bool \<Rightarrow> acquisition_fact list \<Rightarrow> observation_error outcome" where
  "check_order policy ds sourceUnavailable facts =
     (if cpAcquisitionOrder policy = AcquisitionOrderDependencyDeclaration
      then (if declaration_ascending (map rsAcquisitionOrdinal ds) then None else Some OrderReversed)
      else if cpAcquisitionOrder policy = AcquisitionOrderSourceTimeAscending
      then (if sourceUnavailable then Some OrderUnavailable
            else if ascending (map (srTime \<circ> afSource) facts) then None else Some OrderReversed)
      else if cpAcquisitionOrder policy = AcquisitionOrderReceiptTimeAscending
      then (if ascending (map afReceipt facts) then None else Some OrderReversed)
      else Some OrderUnknown)"

definition envelope_agrees :: "observation_spec \<Rightarrow> fact_ranges \<Rightarrow> bool" where
  "envelope_agrees spec r \<longleftrightarrow>
     hasLocalReceiptTime (osLocalReceiptTime spec) (osReceiptPresent spec)
     \<and> osLocalReceiptTime spec = frMaximumReceipt r
     \<and> (if frSourceUnavailable r
        then srState (osSourceTime spec) = SourceTimeUnavailableState \<and> srTime (osSourceTime spec) = zero_time
        else frSourceSet r \<and> srState (osSourceTime spec) = SourceTimeObservedState
             \<and> srTime (osSourceTime spec) = frMaximumSource r)"

definition bounded_facts ::
    "coherence_spec \<Rightarrow> observation_spec \<Rightarrow> acquisition_fact list \<Rightarrow> observation_error outcome" where
  "bounded_facts policy spec facts =
     (case scan_facts facts empty_ranges of
        Inl e \<Rightarrow> Some e
      | Inr r \<Rightarrow>
          (let ordered = sort_key afOrdinal facts in
           if \<not> ordinals_complete ordered then Some OrdinalGaps
           else (case check_order policy (osDependencies spec) (frSourceUnavailable r) ordered of
               Some e \<Rightarrow> Some e
             | None \<Rightarrow>
                 (if exceedsTimeSkew (frMinimumReceipt r) (frMaximumReceipt r) (cpMaximumReceiptSkew policy)
                     \<or> (\<not> frSourceUnavailable r
                        \<and> exceedsTimeSkew (frMinimumSource r) (frMaximumSource r) (cpMaximumSourceSkew policy))
                  then Some SkewExceeded
                  else if \<not> envelope_agrees spec r then Some EnvelopeTime
                  else None))))"

definition validateObservationCoherence ::
    "coherence_spec \<Rightarrow> observation_spec \<Rightarrow> logical_view list \<Rightarrow> observation_error outcome" where
  "validateObservationCoherence policy spec views =
     (case views of
        [] \<Rightarrow> Some SampleEmpty
      | first # _ \<Rightarrow>
          (case validateWireResponseGroups views of
             Some e \<Rightarrow> Some (WireGroups e)
           | None \<Rightarrow>
               (let pairs = zip (osDependencies spec) views in
                if cpMode policy = CoherenceSingleWireResponse then
                  (if Transport first = TransportRTU \<and> length views \<noteq> 1 then Some RTUMultipleDependencies
                   else if osRetryOrdinal spec \<noteq> 0 then Some SingleWireRetry
                   else check_single (WireResponseID first) pairs)
                else if cpMode policy = CoherenceBoundedMultiResponse then
                  (if osRetryOrdinal spec = 0 then Some BoundedRetry
                   else (case collect_facts policy (osRetryOrdinal spec) first pairs [] of
                       Inl e \<Rightarrow> Some e
                     | Inr facts \<Rightarrow> bounded_facts policy spec facts))
                else Some CoherenceModeUnknown)))"

section \<open>Skew\<close>

lemma exceedsTimeSkew_iff:
  "exceedsTimeSkew minimum maximum limit
     \<longleftrightarrow> limit < 0 \<or> maximum < minimum \<or> limit < maximum - minimum"
proof -
  show ?thesis
  proof (cases "limit < 0 \<or> maximum < minimum")
    case True
    then show ?thesis by (auto simp: exceedsTimeSkew_def)
  next
    case False
    obtain k where k: "k = nanos_per_second" by blast
    have pos: "0 < k" by (simp add: k nanos_per_second_def)
    let ?s = "unix_seconds maximum - unix_seconds minimum"
    let ?n = "nanosecond maximum - nanosecond minimum"
    let ?seconds = "if ?n < 0 then ?s - 1 else ?s" and ?nanos = "if ?n < 0 then ?n + k else ?n"
    have parts: "maximum = unix_seconds maximum * k + nanosecond maximum"
      "minimum = unix_seconds minimum * k + nanosecond minimum"
      "0 \<le> nanosecond maximum" "nanosecond maximum < k" "0 \<le> nanosecond minimum" "nanosecond minimum < k"
      using pos by (simp_all add: unix_seconds_def nanosecond_def k)
    have "?s * k = unix_seconds maximum * k - unix_seconds minimum * k" by (simp add: left_diff_distrib)
    then have diff: "maximum - minimum = ?s * k + ?n" using parts(1,2) by linarith
    then have total: "maximum - minimum = ?seconds * k + ?nanos" by (simp add: left_diff_distrib)
    have range: "0 \<le> ?nanos" "?nanos < k" using parts by auto
    have q: "(maximum - minimum) div k = ?seconds" and r: "(maximum - minimum) mod k = ?nanos"
      using range unfolding total by (simp_all add: div_pos_pos_trivial mod_pos_pos_trivial)
    have limit: "limit = limit div k * k + limit mod k" "0 \<le> limit mod k" "limit mod k < k"
      using pos by simp_all
    have "limit < maximum - minimum \<longleftrightarrow> limit div k < ?seconds \<or> (?seconds = limit div k \<and> limit mod k < ?nanos)"
    proof -
      have "limit < x \<longleftrightarrow> limit div k < x div k \<or> (x div k = limit div k \<and> limit mod k < x mod k)" for x
      proof -
        have x: "x = x div k * k + x mod k" "0 \<le> x mod k" "x mod k < k" using pos by simp_all
        have "limit div k < x div k \<Longrightarrow> limit < x"
          using limit x pos by (smt (verit, best) mult_less_cancel_right zdiv_mono1)
        moreover have "x div k < limit div k \<Longrightarrow> x < limit"
          using limit x pos by (smt (verit, best) mult_less_cancel_right zdiv_mono1)
        moreover have "limit < x \<longleftrightarrow> limit mod k < x mod k" if "x div k = limit div k"
        proof -
          have "limit = x div k * k + limit mod k" using limit(1) that by simp
          then show ?thesis using x(1) by linarith
        qed
        ultimately show ?thesis by linarith
      qed
      then show ?thesis unfolding q [symmetric] r [symmetric] .
    qed
    with False show ?thesis
      unfolding exceedsTimeSkew_def Let_def k [symmetric] by (simp only: if_False) blast
  qed
qed

section \<open>The facts of a bounded sample\<close>

lemma collect_facts_result:
  assumes "collect_facts policy retry first ps facts = Inr out" and "distinct (map afWireResponseID facts)"
  shows "distinct (map afWireResponseID out) \<and> set facts \<subseteq> set out \<and> set out = set facts \<union> acquired_fact ` set ps"
  using assms
proof (induction ps arbitrary: facts)
  case Nil
  then show ?case by simp
next
  case (Cons p ps)
  obtain d v where p: "p = (d, v)" by (cases p)
  show ?case
  proof (cases "find (\<lambda>f. afWireResponseID f = WireResponseID v) facts")
    case None
    then have fresh: "WireResponseID v \<notin> afWireResponseID ` set facts" by (auto simp: find_None_iff)
    have step: "collect_facts policy retry first ps (facts @ [acquired_fact (d, v)]) = Inr out"
      using Cons.prems(1) None by (auto simp: p split: if_splits)
    have "distinct (map afWireResponseID (facts @ [acquired_fact (d, v)]))"
      using Cons.prems(2) fresh by (simp add: acquired_fact_def)
    from Cons.IH [OF step this] show ?thesis by (auto simp: p)
  next
    case (Some f)
    then have f: "f \<in> set facts" "afWireResponseID f = WireResponseID v"
      by (auto simp: find_Some_iff)
    have step: "collect_facts policy retry first ps facts = Inr out"
      and same: "afOrdinal f = rsAcquisitionOrdinal d" "sourceTimesEqual (afSource f) (rsSourceTime d)"
        "afReceipt f = rsLocalReceiptTime d" "afMarker f = rsMarker d"
      using Cons.prems(1) Some by (auto simp: p split: if_splits)
    have "f = acquired_fact (d, v)"
      using f(2) same by (cases f) (simp add: acquired_fact_def sourceTimesEqual_def)
    with f(1) Cons.IH [OF step Cons.prems(2)] show ?thesis by (auto simp: p)
  qed
qed

definition source_times :: "acquisition_fact list \<Rightarrow> go_time set" where
  "source_times fs = (\<lambda>f. srTime (afSource f)) ` {f \<in> set fs. srState (afSource f) \<noteq> SourceTimeUnavailableState}"

definition any_unavailable :: "acquisition_fact list \<Rightarrow> bool" where
  "any_unavailable fs \<longleftrightarrow> (\<exists>f \<in> set fs. srState (afSource f) = SourceTimeUnavailableState)"

definition ranges_of :: "acquisition_fact list \<Rightarrow> fact_ranges \<Rightarrow> bool" where
  "ranges_of fs r \<longleftrightarrow>
     frReceiptSet r = (fs \<noteq> []) \<and> frSourceSet r = (source_times fs \<noteq> {}) \<and> frSourceUnavailable r = any_unavailable fs
     \<and> (fs \<noteq> [] \<longrightarrow> frMinimumReceipt r = Min (afReceipt ` set fs) \<and> frMaximumReceipt r = Max (afReceipt ` set fs))
     \<and> (source_times fs \<noteq> {} \<longrightarrow> frMinimumSource r = Min (source_times fs) \<and> frMaximumSource r = Max (source_times fs))
     \<and> (\<forall>k w. gm_get (frOrdinals r) k = Some w \<longrightarrow> w \<in> afWireResponseID ` set fs)
     \<and> (\<forall>f \<in> set fs. gm_get (frOrdinals r) (afOrdinal f) \<noteq> None)"

lemma source_times_snoc: "source_times (fs @ [f]) =
    (if srState (afSource f) = SourceTimeUnavailableState then source_times fs
     else insert (srTime (afSource f)) (source_times fs))"
  by (auto simp: source_times_def)

lemma source_times_finite [simp]: "finite (source_times fs)"
  by (simp add: source_times_def)

lemma min_alt: "min a b = (if a < b then a else (b :: int))" and max_alt: "max a b = (if b < a then a else (b :: int))"
  by (simp_all add: min_def max_def)

lemma Min_snoc:
  assumes "finite S" and "S \<noteq> {}"
  shows "Min (insert (t :: int) S) = (if t < Min S then t else Min S)"
  unfolding Min_insert [OF assms] by (rule min_alt)

lemma Max_snoc:
  assumes "finite S" and "S \<noteq> {}"
  shows "Max (insert (t :: int) S) = (if Max S < t then t else Max S)"
  unfolding Max_insert [OF assms] by (rule max_alt)

lemma ranges_step:
  assumes "ranges_of fs r"
  shows "ranges_of (fs @ [f]) (scan_source f (scan_receipt f r))"
proof -
  have receipts: "afReceipt ` set (fs @ [f]) = insert (afReceipt f) (afReceipt ` set fs)" by simp
  have "frMinimumReceipt (scan_source f (scan_receipt f r)) = Min (afReceipt ` set (fs @ [f]))
     \<and> frMaximumReceipt (scan_source f (scan_receipt f r)) = Max (afReceipt ` set (fs @ [f]))"
    using assms unfolding receipts
    by (cases "fs = []") (simp_all add: scan_source_def scan_receipt_def Let_def ranges_of_def Min_snoc Max_snoc del: Min_insert Max_insert)
  moreover have "source_times (fs @ [f]) \<noteq> {} \<longrightarrow>
      frMinimumSource (scan_source f (scan_receipt f r)) = Min (source_times (fs @ [f]))
      \<and> frMaximumSource (scan_source f (scan_receipt f r)) = Max (source_times (fs @ [f]))"
    using assms unfolding source_times_snoc
    by (cases "source_times fs = {}")
      (simp_all add: scan_source_def scan_receipt_def Let_def ranges_of_def Min_snoc Max_snoc del: Min_insert Max_insert)
  moreover have "frSourceSet (scan_source f (scan_receipt f r)) = (source_times (fs @ [f]) \<noteq> {})
      \<and> frSourceUnavailable (scan_source f (scan_receipt f r)) = any_unavailable (fs @ [f])
      \<and> frReceiptSet (scan_source f (scan_receipt f r))"
    using assms unfolding source_times_snoc
    by (auto simp: scan_source_def scan_receipt_def Let_def ranges_of_def any_unavailable_def)
  moreover have "frOrdinals (scan_source f (scan_receipt f r)) = gm_put (afOrdinal f) (afWireResponseID f) (frOrdinals r)"
    by (simp add: scan_source_def scan_receipt_def Let_def)
  ultimately show ?thesis
    using assms by (auto simp: ranges_of_def go_map_simps)
qed

lemma scan_facts_result:
  assumes "scan_facts fs r = Inr r'" and "ranges_of done r" and "distinct (map afWireResponseID (done @ fs))"
    and "distinct (map afOrdinal done)"
  shows "ranges_of (done @ fs) r' \<and> distinct (map afOrdinal (done @ fs))"
  using assms
proof (induction fs arbitrary: r "done")
  case Nil
  then show ?case by simp
next
  case (Cons f fs)
  have step: "scan_facts fs (scan_source f (scan_receipt f r)) = Inr r'"
    and fresh: "\<And>w. gm_get (frOrdinals r) (afOrdinal f) = Some w \<Longrightarrow> w = afWireResponseID f"
    using Cons.prems(1) by (auto split: if_splits option.splits)
  have "afOrdinal f \<notin> afOrdinal ` set done"
  proof
    assume "afOrdinal f \<in> afOrdinal ` set done"
    then obtain g where "g \<in> set done" "afOrdinal g = afOrdinal f" by auto
    then obtain w where "gm_get (frOrdinals r) (afOrdinal f) = Some w"
      using Cons.prems(2) by (fastforce simp: ranges_of_def)
    then have "afWireResponseID f \<in> afWireResponseID ` set done"
      using fresh Cons.prems(2) by (fastforce simp: ranges_of_def)
    then show False using Cons.prems(3) by auto
  qed
  then have "distinct (map afOrdinal (done @ [f]))" using Cons.prems(4) by simp
  moreover have "distinct (map afWireResponseID ((done @ [f]) @ fs))" using Cons.prems(3) by simp
  ultimately show ?case
    using Cons.IH [OF step ranges_step [OF Cons.prems(2)]] by simp
qed

lemma empty_ranges_of: "ranges_of [] empty_ranges"
  by (simp add: ranges_of_def empty_ranges_def source_times_def any_unavailable_def go_map_simps)

section \<open>Properties\<close>

text \<open>The skew test is exact. Comparing seconds and nanoseconds with a borrow decides exactly whether the limit
  is negative, the interval is reversed, or it is longer than the limit.\<close>

theorem time_skew_is_exact:
  "exceedsTimeSkew minimum maximum limit
     \<longleftrightarrow> limit < 0 \<or> maximum < minimum \<or> limit < maximum - minimum"
  by (rule exceedsTimeSkew_iff)

lemma bounded_sample:
  assumes "cpMode policy = CoherenceBoundedMultiResponse" and "validateObservationCoherence policy spec views = None"
  obtains first facts r where "views \<noteq> []"
    and "collect_facts policy (osRetryOrdinal spec) first (zip (osDependencies spec) views) [] = Inr facts"
    and "scan_facts facts empty_ranges = Inr r" and "ordinals_complete (sort_key afOrdinal facts)"
    and "\<not> exceedsTimeSkew (frMinimumReceipt r) (frMaximumReceipt r) (cpMaximumReceiptSkew policy)"
    and "\<not> frSourceUnavailable r \<longrightarrow>
      \<not> exceedsTimeSkew (frMinimumSource r) (frMaximumSource r) (cpMaximumSourceSkew policy)"
    and "envelope_agrees spec r"
proof -
  have "CoherenceBoundedMultiResponse \<noteq> CoherenceSingleWireResponse" by (simp add: profile_consts)
  with assms have "\<exists>first facts r. views \<noteq> []
    \<and> collect_facts policy (osRetryOrdinal spec) first (zip (osDependencies spec) views) [] = Inr facts
    \<and> scan_facts facts empty_ranges = Inr r \<and> ordinals_complete (sort_key afOrdinal facts)
    \<and> \<not> exceedsTimeSkew (frMinimumReceipt r) (frMaximumReceipt r) (cpMaximumReceiptSkew policy)
    \<and> (\<not> frSourceUnavailable r \<longrightarrow>
         \<not> exceedsTimeSkew (frMinimumSource r) (frMaximumSource r) (cpMaximumSourceSkew policy))
    \<and> envelope_agrees spec r"
    by (auto simp: validateObservationCoherence_def bounded_facts_def Let_def
        split: list.splits option.splits if_splits sum.splits)
  then show thesis using that by blast
qed

lemma ordinals_of_complete:
  assumes "ordinals_complete (sort_key afOrdinal facts)"
  shows "afOrdinal ` set facts = of_nat ` {1..length facts}"
proof -
  have "set (map afOrdinal (sort_key afOrdinal facts)) = (\<lambda>i. of_nat (Suc i)) ` {0..<length facts}"
    using assms by (simp add: ordinals_complete_def)
  moreover have "(\<lambda>i. of_nat (Suc i)) ` {0..<length facts} = (of_nat ` {1..length facts} :: u32 set)"
  proof -
    have "Suc ` {0..<length facts} = {1..length facts}"
      by (simp add: image_Suc_atLeastLessThan atLeastLessThanSuc_atLeastAtMost)
    then show ?thesis by (metis (no_types, lifting) image_cong image_image)
  qed
  ultimately show ?thesis by simp
qed

lemma acquired_fields [simp]:
  "afWireResponseID (acquired_fact p) = WireResponseID (snd p)" "afOrdinal (acquired_fact p) = rsAcquisitionOrdinal (fst p)"
  "afReceipt (acquired_fact p) = rsLocalReceiptTime (fst p)" "afSource (acquired_fact p) = rsSourceTime (fst p)"
  by (simp_all add: acquired_fact_def)

lemma ordinal_identifies_response:
  assumes "distinct (map afWireResponseID facts)" and "distinct (map afOrdinal facts)"
    and "set facts = acquired_fact ` set ps" and "p \<in> set ps" and "q \<in> set ps"
  shows "WireResponseID (snd p) = WireResponseID (snd q) \<longleftrightarrow> rsAcquisitionOrdinal (fst p) = rsAcquisitionOrdinal (fst q)"
proof -
  have "acquired_fact p \<in> set facts" "acquired_fact q \<in> set facts" using assms(3-5) by simp_all
  then show ?thesis
    using assms(1,2) unfolding acquired_fields(1,2) [symmetric]
    by (metis (mono_tags, lifting) distinct_map inj_on_contraD)
qed

lemma ordinals_of_sample:
  assumes "distinct (map afWireResponseID facts)" and "set facts = acquired_fact ` set ps"
    and "ordinals_complete (sort_key afOrdinal facts)" and "snd ` set ps = set views"
  shows "(\<lambda>p. rsAcquisitionOrdinal (fst p)) ` set ps = of_nat ` {1..card (WireResponseID ` set views)}"
proof -
  have "length facts = card (afWireResponseID ` set facts)" using distinct_card [OF assms(1)] by simp
  also have "afWireResponseID ` set facts = WireResponseID ` snd ` set ps"
    by (simp add: assms(2) image_image)
  finally have "length facts = card (WireResponseID ` set views)" by (simp only: assms(4))
  then show ?thesis using ordinals_of_complete [OF assms(3)] by (simp add: assms(2) image_image)
qed

lemma receipts_of_sample:
  assumes "ranges_of facts r" and "facts \<noteq> []" and "set facts = acquired_fact ` set ps"
    and "\<not> exceedsTimeSkew (frMinimumReceipt r) (frMaximumReceipt r) limit"
  shows "frMaximumReceipt r = Max ((\<lambda>p. rsLocalReceiptTime (fst p)) ` set ps)
    \<and> (\<forall>p \<in> set ps. \<forall>q \<in> set ps. rsLocalReceiptTime (fst q) - rsLocalReceiptTime (fst p) \<le> limit)"
proof -
  have receipts: "afReceipt ` set facts = (\<lambda>p. rsLocalReceiptTime (fst p)) ` set ps"
    by (simp add: assms(3) image_image)
  have mm: "frMinimumReceipt r = Min (afReceipt ` set facts)" "frMaximumReceipt r = Max (afReceipt ` set facts)"
    using assms(1,2) by (simp_all add: ranges_of_def)
  have "rsLocalReceiptTime (fst q) - rsLocalReceiptTime (fst p) \<le> limit" if "p \<in> set ps" "q \<in> set ps" for p q
  proof -
    have "frMinimumReceipt r \<le> rsLocalReceiptTime (fst p)" "rsLocalReceiptTime (fst q) \<le> frMaximumReceipt r"
      using that unfolding mm receipts by (auto intro: Min_le Max_ge)
    then show ?thesis using assms(4) by (simp add: exceedsTimeSkew_iff)
  qed
  then show ?thesis using mm(2) receipts by simp
qed

lemma sources_of_sample:
  assumes "ranges_of facts r" and "set facts = acquired_fact ` set ps" and "\<not> frSourceUnavailable r"
    and "frSourceSet r" and "\<not> exceedsTimeSkew (frMinimumSource r) (frMaximumSource r) limit"
  shows "frMaximumSource r = Max ((\<lambda>p. srTime (rsSourceTime (fst p))) ` set ps)
    \<and> (\<forall>p \<in> set ps. \<forall>q \<in> set ps. srTime (rsSourceTime (fst q)) - srTime (rsSourceTime (fst p)) \<le> limit)"
proof -
  have "{f \<in> set facts. srState (afSource f) \<noteq> SourceTimeUnavailableState} = set facts"
    using assms(1,3) by (auto simp: ranges_of_def any_unavailable_def)
  then have sources: "source_times facts = (\<lambda>p. srTime (rsSourceTime (fst p))) ` set ps"
    by (simp add: source_times_def assms(2) image_image)
  have mm: "frMinimumSource r = Min (source_times facts)" "frMaximumSource r = Max (source_times facts)"
    using assms(1,4) by (auto simp: ranges_of_def)
  have "srTime (rsSourceTime (fst q)) - srTime (rsSourceTime (fst p)) \<le> limit" if "p \<in> set ps" "q \<in> set ps" for p q
  proof -
    have "frMinimumSource r \<le> srTime (rsSourceTime (fst p))" "srTime (rsSourceTime (fst q)) \<le> frMaximumSource r"
      using that unfolding mm sources by (auto intro: Min_le Max_ge)
    then show ?thesis using assms(5) by (simp add: exceedsTimeSkew_iff)
  qed
  then show ?thesis using mm(2) sources by simp
qed

text \<open>C17: an accepted sample of several responses is coherent in time. Two dependencies have the same acquisition
  ordinal exactly if they come from the same wire response, and the ordinals are 1 to the number of responses without a
  gap; no two receipts lie further apart than the declared skew and the receipt of the sample is the latest; and when
  every source time is known, the same holds of the source times, while one unknown source time makes
  the source time of the sample unknown.\<close>

theorem bounded_sample_is_coherent:
  assumes "cpMode policy = CoherenceBoundedMultiResponse" and "validateObservationCoherence policy spec views = None"
    and "ps = zip (osDependencies spec) views" and "length (osDependencies spec) = length views"
  shows "(\<forall>p \<in> set ps. \<forall>q \<in> set ps.
       WireResponseID (snd p) = WireResponseID (snd q) \<longleftrightarrow> rsAcquisitionOrdinal (fst p) = rsAcquisitionOrdinal (fst q))
    \<and> (\<lambda>p. rsAcquisitionOrdinal (fst p)) ` set ps = of_nat ` {1..card (WireResponseID ` set views)}
    \<and> (\<forall>p \<in> set ps. \<forall>q \<in> set ps. rsLocalReceiptTime (fst q) - rsLocalReceiptTime (fst p) \<le> cpMaximumReceiptSkew policy)
    \<and> osLocalReceiptTime spec = Max ((\<lambda>p. rsLocalReceiptTime (fst p)) ` set ps)
    \<and> (if \<exists>p \<in> set ps. srState (rsSourceTime (fst p)) = SourceTimeUnavailableState
       then srState (osSourceTime spec) = SourceTimeUnavailableState
       else srTime (osSourceTime spec) = Max ((\<lambda>p. srTime (rsSourceTime (fst p))) ` set ps)
         \<and> (\<forall>p \<in> set ps. \<forall>q \<in> set ps.
              srTime (rsSourceTime (fst q)) - srTime (rsSourceTime (fst p)) \<le> cpMaximumSourceSkew policy))"
proof -
  obtain first facts r where "views \<noteq> []"
    and collected: "collect_facts policy (osRetryOrdinal spec) first (zip (osDependencies spec) views) [] = Inr facts"
    and scanned: "scan_facts facts empty_ranges = Inr r"
    and complete: "ordinals_complete (sort_key afOrdinal facts)"
    and skew: "\<not> exceedsTimeSkew (frMinimumReceipt r) (frMaximumReceipt r) (cpMaximumReceiptSkew policy)"
      "\<not> frSourceUnavailable r \<longrightarrow>
       \<not> exceedsTimeSkew (frMinimumSource r) (frMaximumSource r) (cpMaximumSourceSkew policy)"
    and envelope: "envelope_agrees spec r"
    by (rule bounded_sample [OF assms(1,2)])
  have facts: "distinct (map afWireResponseID facts)" "set facts = acquired_fact ` set ps"
    using collect_facts_result [OF collected] by (simp_all add: assms(3))
  have ranges: "ranges_of facts r" "distinct (map afOrdinal facts)"
    using scan_facts_result [OF scanned empty_ranges_of] facts(1) by simp_all
  have "ps \<noteq> []" using \<open>views \<noteq> []\<close> assms(3,4) by (cases views) (auto simp: zip_eq_Nil_iff)
  then have "facts \<noteq> []" using facts(2) by (metis empty_iff image_is_empty list.set(1) set_empty)
  have "snd ` set ps = set views" using assms(3,4) by (metis map_snd_zip set_map)
  note same = ordinal_identifies_response [OF facts(1) ranges(2) facts(2)]
    and ordinals = ordinals_of_sample [OF facts complete this]
    and receipts = receipts_of_sample [OF ranges(1) \<open>facts \<noteq> []\<close> facts(2) skew(1)]
  have unavailable: "frSourceUnavailable r \<longleftrightarrow> (\<exists>p \<in> set ps. srState (rsSourceTime (fst p)) = SourceTimeUnavailableState)"
    using ranges(1) by (auto simp: ranges_of_def any_unavailable_def facts(2))
  have known: "srTime (osSourceTime spec) = Max ((\<lambda>p. srTime (rsSourceTime (fst p))) ` set ps)
       \<and> (\<forall>p \<in> set ps. \<forall>q \<in> set ps.
            srTime (rsSourceTime (fst q)) - srTime (rsSourceTime (fst p)) \<le> cpMaximumSourceSkew policy)"
    if all: "\<not> frSourceUnavailable r"
    using sources_of_sample [OF ranges(1) facts(2) all] skew(2) envelope all by (simp add: envelope_agrees_def)
  have "osLocalReceiptTime spec = frMaximumReceipt r"
    and "frSourceUnavailable r \<Longrightarrow> srState (osSourceTime spec) = SourceTimeUnavailableState"
    using envelope by (simp_all add: envelope_agrees_def)
  then show ?thesis using same ordinals receipts known unavailable by auto
qed

definition example_bounded_policy :: coherence_spec where
  "example_bounded_policy = \<lparr>cpVersion = ''1.0.0'', cpMode = CoherenceBoundedMultiResponse,
     cpMaximumSourceSkew = 5, cpMaximumReceiptSkew = 5, cpRequireGenerationEquality = True,
     cpAcquisitionOrder = AcquisitionOrderDependencyDeclaration,
     cpRetrySetBehavior = RetrySetNotApplicable, cpDocumentaryConsistencyMarker = ''''\<rparr>"

definition example_bounded_result :: "u32 \<Rightarrow> go_time \<Rightarrow> dependency_result" where
  "example_bounded_result ordinal t = \<lparr>rsDependencyID = ''power'', rsDependencyVersion = ''1.0.0'',
     rsCodecID = ''power'', rsCodecVersion = ''1.0.0'', rsNormalizationVersion = ''1.0.0'',
     rsStatus = DependencyReadSuccessful, rsView = None,
     rsSourceTime = \<lparr>srState = SourceTimeObservedState, srTime = t\<rparr>, rsLocalReceiptTime = t + 1,
     rsMarker = '''', rsAcquisitionOrdinal = ordinal, rsRetryOrdinal = 1, rsReceiptPresent = True\<rparr>"

definition example_bounded_spec :: observation_spec where
  "example_bounded_spec = \<lparr>osSchemaVersion = ''1.0.0'', osRuntimeContractVersion = ''1.0.0'', osProfileID = ''family'',
     osProfileVersion = ''1.0.0'', osCodecContractVersion = ''1.0.0'', osDetectorVersion = ''1.0.0'',
     osNormalizationVersion = ''1.0.0'', osCoherenceVersion = ''1.0.0'', osQualificationVersion = ''1.0.0'',
     osSampleID = '''', osPollGenerationID = 1, osRetryOrdinal = 1, osDependencySetID = '''',
     osDependencySetVersion = ''1.0.0'', osSourceValidity = SourceValid,
     osSourceTime = \<lparr>srState = SourceTimeObservedState, srTime = 14\<rparr>, osLocalReceiptTime = 15,
     osEndpoint = ''tcp'', osUnitID = 1,
     osDependencies = [example_bounded_result 1 10, example_bounded_result 2 14], osReceiptPresent = True\<rparr>"

definition example_second_view :: logical_view where
  "example_second_view = example_view\<lparr>LogicalViewID := 2, WireResponseID := 2, PhysicalRequestID := 2,
     PhysicalOffset := 41000, LogicalOffset := 41002\<rparr>"

theorem bounded_sample_is_coherent_witness:
  "osLocalReceiptTime example_bounded_spec = 15
    \<and> srTime (osSourceTime example_bounded_spec)
        = Max ((\<lambda>p. srTime (rsSourceTime (fst p))) `
            set (zip (osDependencies example_bounded_spec) [example_view, example_second_view]))"
proof -
  have mode: "cpMode example_bounded_policy = CoherenceBoundedMultiResponse"
    by (simp add: example_bounded_policy_def)
  have ok: "validateObservationCoherence example_bounded_policy example_bounded_spec [example_view, example_second_view] = None"
    by code_simp
  have "length (osDependencies example_bounded_spec) = length [example_view, example_second_view]"
    and "\<not> (\<exists>p \<in> set (zip (osDependencies example_bounded_spec) [example_view, example_second_view]).
      srState (rsSourceTime (fst p)) = SourceTimeUnavailableState)"
    by (simp_all add: example_bounded_spec_def example_bounded_result_def observation_consts)
  with bounded_sample_is_coherent [OF mode ok refl] show ?thesis
    by (simp only: if_False) (simp add: example_bounded_spec_def)
qed

end
