(* ===== verification/Observation_Builder.thy ===== *)
theory Observation_Builder
  imports Observation_Coherence
begin

text \<open>
  The builder of observations (\<^verbatim>\<open>buildObservation\<close> of \<^verbatim>\<open>observation.go\<close>) and its runtime caller
  (\<^verbatim>\<open>buildRuntimeObservation\<close> of \<^verbatim>\<open>runtime_ledger.go\<close>): a sample is accepted when its envelope
  names the profile, every dependency is the declared one and was read from the declared registers,
  and the sample is coherent. A view is \<open>None\<close> when it is the zero snapshot, else the record
  that was admitted. \<open>walk\<close> is how the byte budget counts a transport of the modbus library.
\<close>

section \<open>Preflight\<close>

definition zero_view :: logical_view where
  "zero_view = \<lparr>LogicalViewID = 0, WireResponseID = 0, PhysicalRequestID = 0, Endpoint = '''',
     ConnectionID = 0, Transport = TransportUnknown '''', TransportGeneration = 0, UnitID = 0,
     RequestedFunction = 0, ReceivedFunction = 0, Table = TableUnknown '''', PhysicalOffset = 0,
     PhysicalWordCount = 0, AuthorizationScope = '''', PollGeneration = 0, DeadlineIdentity = 0,
     LogicalOffset = 0, LogicalWordCount = 0, SliceOffset = 0, SliceWordCount = 0, Words = [],
     WireResponseBytes = []\<rparr>"

definition table_name :: "platform \<Rightarrow> logical_table \<Rightarrow> string" where
  "table_name pl t = (case t of HoldingRegisters \<Rightarrow> plHoldingRegisters pl
     | InputRegisters \<Rightarrow> plInputRegisters pl | TableUnknown s \<Rightarrow> s)"

definition view_agg :: "platform \<Rightarrow> (transport \<Rightarrow> agg) \<Rightarrow> logical_view option \<Rightarrow> agg" where
  "view_agg pl walk view =
     (let r = (case view of None \<Rightarrow> zero_view | Some r \<Rightarrow> r) in
      AggStruct False
        [(''record'', AggStruct False
           [(''LogicalViewID'', AggInteger), (''WireResponseID'', AggInteger),
            (''PhysicalRequestID'', AggInteger), (''Endpoint'', string_agg (Endpoint r)),
            (''ConnectionID'', AggInteger), (''Transport'', walk (Transport r)),
            (''TransportGeneration'', AggInteger), (''UnitID'', AggInteger),
            (''RequestedFunction'', AggInteger), (''ReceivedFunction'', AggInteger),
            (''Table'', string_agg (table_name pl (Table r))), (''PhysicalOffset'', AggInteger),
            (''PhysicalWordCount'', AggInteger), (''AuthorizationScope'', string_agg (AuthorizationScope r)),
            (''PollGeneration'', AggInteger), (''DeadlineIdentity'', AggInteger),
            (''LogicalOffset'', AggInteger), (''LogicalWordCount'', AggInteger),
            (''SliceOffset'', AggInteger), (''SliceWordCount'', AggInteger), (''Words'', words_agg (Words r)),
            (''WireResponseBytes'', AggSequence (map (\<lambda>_. AggInteger) (WireResponseBytes r)))]),
         (''valid'', AggBool)])"

definition source_time_agg :: "source_time \<Rightarrow> agg" where
  "source_time_agg s = AggStruct False [(''State'', string_agg (srState s)), (''Time'', AggTime)]"

definition result_walk_agg :: "platform \<Rightarrow> (transport \<Rightarrow> agg) \<Rightarrow> dependency_result \<Rightarrow> agg" where
  "result_walk_agg pl walk d = AggStruct True
     [(''DependencyID'', string_agg (rsDependencyID d)), (''DependencyVersion'', version_agg (rsDependencyVersion d)),
      (''CodecID'', string_agg (rsCodecID d)), (''CodecVersion'', version_agg (rsCodecVersion d)),
      (''NormalizationVersion'', version_agg (rsNormalizationVersion d)), (''Status'', string_agg (rsStatus d)),
      (''View'', view_agg pl walk (rsView d)), (''SourceTime'', source_time_agg (rsSourceTime d)),
      (''LocalReceiptTime'', AggTime), (''DocumentaryConsistencyMarker'', string_agg (rsMarker d)),
      (''AcquisitionOrdinal'', AggInteger), (''RetryOrdinal'', AggInteger), (''localReceiptTimePresent'', AggBool)]"

definition observation_agg :: "platform \<Rightarrow> (transport \<Rightarrow> agg) \<Rightarrow> observation_spec \<Rightarrow> agg" where
  "observation_agg pl walk s = AggStruct False
     [(''SchemaVersion'', version_agg (osSchemaVersion s)),
      (''RuntimeContractVersion'', version_agg (osRuntimeContractVersion s)),
      (''ProfileID'', string_agg (osProfileID s)), (''ProfileVersion'', version_agg (osProfileVersion s)),
      (''CodecContractVersion'', version_agg (osCodecContractVersion s)),
      (''DetectorVersion'', version_agg (osDetectorVersion s)),
      (''NormalizationVersion'', version_agg (osNormalizationVersion s)),
      (''CoherenceVersion'', version_agg (osCoherenceVersion s)),
      (''QualificationVersion'', version_agg (osQualificationVersion s)),
      (''SampleID'', string_agg (osSampleID s)), (''PollGenerationID'', AggInteger), (''RetryOrdinal'', AggInteger),
      (''DependencySetID'', string_agg (osDependencySetID s)),
      (''DependencySetVersion'', version_agg (osDependencySetVersion s)),
      (''SourceValidity'', string_agg (osSourceValidity s)), (''SourceTime'', source_time_agg (osSourceTime s)),
      (''LocalReceiptTime'', AggTime), (''Endpoint'', string_agg (osEndpoint s)), (''UnitID'', AggInteger),
      (''Dependencies'', AggSequence (map (result_walk_agg pl walk) (osDependencies s))),
      (''localReceiptTimePresent'', AggBool)]"

definition view_words :: "dependency_result \<Rightarrow> u16 list" where
  "view_words d = (case rsView d of None \<Rightarrow> [] | Some r \<Rightarrow> Words r)"

definition preflightDependencyResult ::
    "platform \<Rightarrow> (transport \<Rightarrow> agg) \<Rightarrow> dependency_result \<Rightarrow> contract_error outcome" where
  "preflightDependencyResult pl walk d = preflightAggregate [result_walk_agg pl walk d]"

fun preflight_results ::
    "platform \<Rightarrow> (transport \<Rightarrow> agg) \<Rightarrow> dependency_result list \<Rightarrow> observation_error outcome" where
  "preflight_results pl walk [] = None"
| "preflight_results pl walk (d # ds) =
     (case validateFields False [rsDependencyID d, rsCodecID d, rsMarker d] of
        Some e \<Rightarrow> Some (ObservationContract e)
      | None \<Rightarrow>
          (if length (view_words d) > unat (plMaxReadRegisters pl) then Some ObservationWords
           else (case preflightDependencyResult pl walk d of
               Some e \<Rightarrow> Some (ObservationContract e)
             | None \<Rightarrow> preflight_results pl walk ds)))"

definition preflightObservationSpec ::
    "platform \<Rightarrow> (transport \<Rightarrow> agg) \<Rightarrow> observation_spec \<Rightarrow> observation_error outcome" where
  "preflightObservationSpec pl walk s =
     (if length (osDependencies s) > MaxProfileDependencies then Some ObservationDependencyCount
      else (case preflightAggregate [observation_agg pl walk s] of
          Some e \<Rightarrow> Some (ObservationContract e)
        | None \<Rightarrow>
            (case validateFields False [osSampleID s, osProfileID s, osDependencySetID s, osEndpoint s] of
               Some e \<Rightarrow> Some (ObservationContract e)
             | None \<Rightarrow>
                 (case preflight_results pl walk (osDependencies s) of
                    Some e \<Rightarrow> Some e
                  | None \<Rightarrow>
                      (if osDependencySetID s \<noteq> '''' \<and> \<not> validDependencySetID (osDependencySetID s)
                       then Some ObservationSetID else None)))))"

section \<open>Times\<close>

definition canonical_source :: "source_time \<Rightarrow> observation_error + source_time" where
  "canonical_source s =
     (if srState s = SourceTimeObservedState
      then (case canonicalObservedTime (srTime s) of Inl e \<Rightarrow> Inl e | Inr t \<Rightarrow> Inr (s\<lparr>srTime := t\<rparr>))
      else Inr s)"

definition canonical_result :: "dependency_result \<Rightarrow> observation_error + dependency_result" where
  "canonical_result d =
     (case canonical_source (rsSourceTime d) of
        Inl e \<Rightarrow> Inl e
      | Inr s \<Rightarrow>
          (if hasLocalReceiptTime (rsLocalReceiptTime d) (rsReceiptPresent d)
           then (case canonicalRequiredTime (rsLocalReceiptTime d) (rsReceiptPresent d) of
               Inl e \<Rightarrow> Inl e
             | Inr t \<Rightarrow> Inr (d\<lparr>rsSourceTime := s, rsLocalReceiptTime := t\<rparr>))
           else Inr (d\<lparr>rsSourceTime := s\<rparr>)))"

fun canonical_results :: "dependency_result list \<Rightarrow> observation_error + dependency_result list" where
  "canonical_results [] = Inr []"
| "canonical_results (d # ds) =
     (case canonical_result d of
        Inl e \<Rightarrow> Inl e
      | Inr d' \<Rightarrow> (case canonical_results ds of Inl e \<Rightarrow> Inl e | Inr ds' \<Rightarrow> Inr (d' # ds')))"

definition canonicalizeObservationTimes :: "observation_spec \<Rightarrow> observation_error + observation_spec" where
  "canonicalizeObservationTimes s =
     (case canonical_source (osSourceTime s) of
        Inl e \<Rightarrow> Inl e
      | Inr source \<Rightarrow>
          (case canonicalRequiredTime (osLocalReceiptTime s) (osReceiptPresent s) of
             Inl e \<Rightarrow> Inl e
           | Inr receipt \<Rightarrow>
               (case canonical_results (osDependencies s) of
                  Inl e \<Rightarrow> Inl e
                | Inr ds \<Rightarrow> Inr (s\<lparr>osSourceTime := source, osLocalReceiptTime := receipt, osDependencies := ds\<rparr>))))"

section \<open>The builder\<close>

record replayed_dependency =
  rpDependencyID :: string
  rpDependencyVersion :: version
  rpCodecID :: string
  rpCodecVersion :: version
  rpNormalization :: normalization
  rpView :: logical_view

record observation =
  obSpec :: observation_spec
  obReplayed :: "replayed_dependency list"

definition envelope_matches :: "profile_spec \<Rightarrow> observation_spec \<Rightarrow> bool" where
  "envelope_matches p s \<longleftrightarrow>
     pfID p \<noteq> '''' \<and> osSchemaVersion s = schemaVersionV1
     \<and> osRuntimeContractVersion s = pfRuntimeContractVersion p \<and> osProfileID s = pfID p
     \<and> osProfileVersion s = pfVersion p \<and> osCodecContractVersion s = pfCodecContractVersion p
     \<and> osDetectorVersion s = pfDetectorVersion p \<and> osNormalizationVersion s = pfNormalizationVersion p
     \<and> osCoherenceVersion s = pfCoherenceVersion p \<and> osQualificationVersion s = pfQualificationVersion p
     \<and> (osSampleID s = '''' \<or> validIdentity (osSampleID s)) \<and> osPollGenerationID s \<noteq> 0
     \<and> osDependencySetID s = stID (pfDependencies p) \<and> osDependencySetVersion s = stVersion (pfDependencies p)
     \<and> osEndpoint s \<noteq> '''' \<and> osUnitID s \<noteq> 0 \<and> osUnitID s \<le> 247
     \<and> hasLocalReceiptTime (osLocalReceiptTime s) (osReceiptPresent s)"

definition expected_function :: "platform \<Rightarrow> dependency_spec \<Rightarrow> u8" where
  "expected_function pl d =
     (if dsTable d = plInputRegisters pl then FunctionReadInputRegisters else FunctionReadHoldingRegisters)"

definition result_declared :: "dependency \<Rightarrow> dependency_result \<Rightarrow> bool" where
  "result_declared d r \<longleftrightarrow>
     rsDependencyID r = dsID (dpSpec d) \<and> rsDependencyVersion r = dsVersion (dpSpec d)
     \<and> rsCodecID r = dsCodecID (dpSpec d) \<and> rsCodecVersion r = dsCodecVersion (dpSpec d)
     \<and> rsNormalizationVersion r = nsVersion (dpNormalization d) \<and> rsStatus r = DependencyReadSuccessful"

definition view_declared :: "platform \<Rightarrow> observation_spec \<Rightarrow> dependency \<Rightarrow> logical_view \<Rightarrow> bool" where
  "view_declared pl s d v \<longleftrightarrow>
     Endpoint v = osEndpoint s \<and> UnitID v = osUnitID s \<and> PollGeneration v = osPollGenerationID s
     \<and> table_name pl (Table v) = dsTable (dpSpec d) \<and> RequestedFunction v = expected_function pl (dpSpec d)
     \<and> LogicalOffset v = nsResolvedPDUOffset (dpNormalization d) \<and> LogicalWordCount v = dsWordCount (dpSpec d)
     \<and> SliceWordCount v = dsWordCount (dpSpec d) \<and> length (Words v) = unat (dsWordCount (dpSpec d))"

definition replay_of :: "dependency \<Rightarrow> logical_view \<Rightarrow> replayed_dependency" where
  "replay_of d v = \<lparr>rpDependencyID = dsID (dpSpec d), rpDependencyVersion = dsVersion (dpSpec d),
     rpCodecID = dsCodecID (dpSpec d), rpCodecVersion = dsCodecVersion (dpSpec d),
     rpNormalization = dpNormalization d, rpView = v\<rparr>"

fun replay_dependencies ::
    "platform \<Rightarrow> observation_spec \<Rightarrow> nat \<Rightarrow> (dependency \<times> dependency_result) list
       \<Rightarrow> observation_error + replayed_dependency list"
where
  "replay_dependencies pl s i [] = Inr []"
| "replay_dependencies pl s i ((d, r) # rest) =
     (case rsView r of
        None \<Rightarrow> Inl (DependencyUnsuccessful i)
      | Some v \<Rightarrow>
          (if \<not> result_declared d r then Inl (DependencyUnsuccessful i)
           else if \<not> view_declared pl s d v then Inl (DependencyProvenance i)
           else (case replay_dependencies pl s (Suc i) rest of
               Inl e \<Rightarrow> Inl e
             | Inr rs \<Rightarrow> Inr (replay_of d v # rs))))"

definition buildObservation ::
    "platform \<Rightarrow> (transport \<Rightarrow> agg) \<Rightarrow> profile_spec \<Rightarrow> observation_spec \<Rightarrow> observation_error + observation" where
  "buildObservation pl walk p spec =
     (case preflightObservationSpec pl walk spec of
        Some e \<Rightarrow> Inl e
      | None \<Rightarrow>
          (case canonicalizeObservationTimes spec of
             Inl e \<Rightarrow> Inl e
           | Inr s \<Rightarrow>
               (if \<not> envelope_matches p s then Inl EnvelopeMismatch
                else if osSourceValidity s \<notin> {SourceValid, SourceInvalid, SourceNotImplemented, SourceReserved}
                then Inl SourceValidityUnknown
                else (case validateSourceTime (osSourceTime s) of
                    Some e \<Rightarrow> Inl e
                  | None \<Rightarrow>
                      (let declarations = stDependencies (pfDependencies p) in
                       if length (osDependencies s) \<noteq> length declarations then Inl DependencySetIncomplete
                       else (case replay_dependencies pl s 0 (zip declarations (osDependencies s)) of
                           Inl e \<Rightarrow> Inl e
                         | Inr replayed \<Rightarrow>
                             (case validateObservationCoherence (pfCoherence p) s (map rpView replayed) of
                                Some e \<Rightarrow> Inl e
                              | None \<Rightarrow> Inr \<lparr>obSpec = s, obReplayed = replayed\<rparr>)))))))"

section \<open>The runtime caller\<close>

text \<open>
  What the code reads from an acquisition of the modbus library and from the normalization fields
  its producer parsed. \<open>rfRuntimeSource\<close> and \<open>aqRuntimeSource\<close> tell whether the source kind is the
  library's \<^verbatim>\<open>RuntimeAcquisitionSourceRuntime\<close>.
\<close>

record runtime_fields =
  rfSchemaVersion :: nat
  rfRuntimeSource :: bool
  rfSourceEvidenceID :: string
  rfDocumentaryNotation :: string
  rfDocumentaryAddress :: u32
  rfDocumentaryAddressBase :: string
  rfFunctionCode :: u8
  rfLogicalTable :: logical_table
  rfNormalizedOffset :: u16
  rfWordCount :: u16

record acquisition =
  aqValid :: bool
  aqAttemptKey :: string
  aqNormalizationValid :: bool
  aqNormalizationBytes :: "u8 list"
  aqFields :: runtime_fields
  aqRuntimeSource :: bool
  aqSourceEvidenceID :: string
  aqProvenance :: logical_view

record runtime_facts =
  tfSourceTime :: source_time
  tfLocalReceiptTime :: go_time
  tfReceiptPresent :: bool
  tfMarker :: string
  tfAcquisitionOrdinal :: u32

record runtime_request =
  uqPollGenerationID :: u64
  uqRetryOrdinal :: u32
  uqDependencies :: "runtime_facts list"
  uqSourceValidity :: string
  uqSourceTime :: source_time
  uqLocalReceiptTime :: go_time
  uqReceiptPresent :: bool

text \<open>\<open>RuntimeIndexRange\<close> is the panic of an index outside the acquisitions or the facts.\<close>

datatype runtime_error =
    AcquisitionIdentity nat
  | AcquisitionNormalization nat
  | NormalizationBytes nat
  | NormalizationMismatch nat
  | AcquisitionProvenance nat
  | RuntimeView nat view_error
  | PollGenerationDisagrees nat
  | RuntimeIndexRange
  | RuntimeBuild observation_error

definition matchRuntimeNormalization :: "platform \<Rightarrow> dependency \<Rightarrow> runtime_fields \<Rightarrow> bool" where
  "matchRuntimeNormalization pl d f \<longleftrightarrow>
     (let n = dpNormalization d in
      rfSchemaVersion f = 1 \<and> rfRuntimeSource f \<and> rfSourceEvidenceID f = nsSourceLocator n
      \<and> rfDocumentaryNotation f = nsDocumentaryNotation n \<and> rfDocumentaryAddress f = nsDocumentaryAddress n
      \<and> rfDocumentaryAddressBase f = nsDocumentaryBase n
      \<and> rfFunctionCode f = expected_function pl (dpSpec d)
      \<and> table_name pl (rfLogicalTable f) = dsTable (dpSpec d)
      \<and> rfNormalizedOffset f = nsResolvedPDUOffset n \<and> rfWordCount f = dsWordCount (dpSpec d))"

definition runtime_result :: "u32 \<Rightarrow> dependency \<Rightarrow> logical_view \<Rightarrow> runtime_facts \<Rightarrow> dependency_result" where
  "runtime_result retry d v f =
     \<lparr>rsDependencyID = dsID (dpSpec d), rsDependencyVersion = dsVersion (dpSpec d),
      rsCodecID = dsCodecID (dpSpec d), rsCodecVersion = dsCodecVersion (dpSpec d),
      rsNormalizationVersion = nsVersion (dpNormalization d), rsStatus = DependencyReadSuccessful,
      rsView = Some v, rsSourceTime = tfSourceTime f, rsLocalReceiptTime = tfLocalReceiptTime f,
      rsMarker = tfMarker f, rsAcquisitionOrdinal = tfAcquisitionOrdinal f, rsRetryOrdinal = retry,
      rsReceiptPresent = (tfReceiptPresent f \<or> tfLocalReceiptTime f \<noteq> zero_time)\<rparr>"

fun runtime_results ::
    "platform \<Rightarrow> int \<Rightarrow> string \<Rightarrow> runtime_request \<Rightarrow> nat \<Rightarrow> dependency list \<Rightarrow> acquisition list
       \<Rightarrow> runtime_facts list \<Rightarrow> runtime_error + dependency_result list"
where
  "runtime_results pl maxBytes key q i [] as fs = Inr []"
| "runtime_results pl maxBytes key q i (d # ds) (a # as) (f # fs) =
     (if \<not> aqValid a \<or> aqAttemptKey a \<noteq> key then Inl (AcquisitionIdentity i)
      else if \<not> aqNormalizationValid a then Inl (AcquisitionNormalization i)
      else if aqNormalizationBytes a = [] \<or> int (length (aqNormalizationBytes a)) > maxBytes
      then Inl (NormalizationBytes i)
      else if \<not> matchRuntimeNormalization pl d (aqFields a) then Inl (NormalizationMismatch i)
      else if \<not> aqRuntimeSource a \<or> aqSourceEvidenceID a \<noteq> rfSourceEvidenceID (aqFields a)
         \<or> WireResponseBytes (aqProvenance a) = [] then Inl (AcquisitionProvenance i)
      else (case NewLogicalViewSnapshot (plMaxReadRegisters pl) (aqProvenance a) of
          Inl e \<Rightarrow> Inl (RuntimeView i e)
        | Inr v \<Rightarrow>
            (if PollGeneration (aqProvenance a) \<noteq> uqPollGenerationID q then Inl (PollGenerationDisagrees i)
             else (case runtime_results pl maxBytes key q (Suc i) ds as fs of
                 Inl e \<Rightarrow> Inl e
               | Inr rs \<Rightarrow> Inr (runtime_result (uqRetryOrdinal q) d v f # rs)))))"
| "runtime_results pl maxBytes key q i (d # ds) as fs = Inl RuntimeIndexRange"

definition runtime_spec :: "profile_spec \<Rightarrow> runtime_request \<Rightarrow> acquisition list \<Rightarrow> dependency_result list \<Rightarrow> observation_spec" where
  "runtime_spec p q as rs =
     \<lparr>osSchemaVersion = schemaVersionV1, osRuntimeContractVersion = pfRuntimeContractVersion p,
      osProfileID = pfID p, osProfileVersion = pfVersion p, osCodecContractVersion = pfCodecContractVersion p,
      osDetectorVersion = pfDetectorVersion p, osNormalizationVersion = pfNormalizationVersion p,
      osCoherenceVersion = pfCoherenceVersion p, osQualificationVersion = pfQualificationVersion p,
      osSampleID = '''', osPollGenerationID = uqPollGenerationID q, osRetryOrdinal = uqRetryOrdinal q,
      osDependencySetID = stID (pfDependencies p), osDependencySetVersion = stVersion (pfDependencies p),
      osSourceValidity = uqSourceValidity q, osSourceTime = uqSourceTime q,
      osLocalReceiptTime = uqLocalReceiptTime q,
      osEndpoint = (if rs = [] then '''' else Endpoint (aqProvenance (hd as))),
      osUnitID = (if rs = [] then 0 else UnitID (aqProvenance (hd as))), osDependencies = rs,
      osReceiptPresent = (uqReceiptPresent q \<or> uqLocalReceiptTime q \<noteq> zero_time)\<rparr>"

record runtime_observation =
  roObservation :: observation
  roNormalizationBytes :: "u8 list list"
  roNormalizationFields :: "runtime_fields list"

definition buildRuntimeObservation ::
    "platform \<Rightarrow> (transport \<Rightarrow> agg) \<Rightarrow> profile_spec \<Rightarrow> int \<Rightarrow> string \<Rightarrow> acquisition list \<Rightarrow> runtime_request
       \<Rightarrow> runtime_error + runtime_observation" where
  "buildRuntimeObservation pl walk p maxBytes key as q =
     (let declarations = stDependencies (pfDependencies p) in
      case runtime_results pl maxBytes key q 0 declarations as (uqDependencies q) of
        Inl e \<Rightarrow> Inl e
      | Inr rs \<Rightarrow>
          (case buildObservation pl walk p (runtime_spec p q as rs) of
             Inl e \<Rightarrow> Inl (RuntimeBuild e)
           | Inr ob \<Rightarrow> Inr \<lparr>roObservation = ob,
               roNormalizationBytes = map aqNormalizationBytes (take (length declarations) as),
               roNormalizationFields = map aqFields (take (length declarations) as)\<rparr>))"

section \<open>What an accepted sample is\<close>

lemma canonical_source_Inr: "canonical_source s = Inr s' \<Longrightarrow> s' = s"
  by (auto simp: canonical_source_def canonicalObservedTime_eq split: if_splits)

lemma canonical_result_Inr: "canonical_result d = Inr d' \<Longrightarrow> d' = d"
  by (auto simp: canonical_result_def canonicalRequiredTime_def canonicalObservedTime_eq
      dest!: canonical_source_Inr split: sum.splits if_splits)

lemma canonical_results_Inr: "canonical_results ds = Inr ds' \<Longrightarrow> ds' = ds"
  by (induction ds arbitrary: ds') (auto dest!: canonical_result_Inr split: sum.splits)

lemma canonicalize_Inr: "canonicalizeObservationTimes s = Inr s' \<Longrightarrow> s' = s"
  by (auto simp: canonicalizeObservationTimes_def canonicalRequiredTime_def canonicalObservedTime_eq
      dest!: canonical_source_Inr canonical_results_Inr split: sum.splits if_splits)

lemma buildObservation_Inr:
  assumes "buildObservation pl walk p spec = Inr ob"
  shows "obSpec ob = spec" and "envelope_matches p spec"
    and "replay_dependencies pl spec 0 (zip (stDependencies (pfDependencies p)) (osDependencies spec)) = Inr (obReplayed ob)"
    and "length (osDependencies spec) = length (stDependencies (pfDependencies p))"
    and "validateObservationCoherence (pfCoherence p) spec (map rpView (obReplayed ob)) = None"
  using assms
  by (auto simp: buildObservation_def Let_def dest!: canonicalize_Inr split: option.splits sum.splits if_splits)

lemma replay_dependencies_Inr:
  assumes "replay_dependencies pl s i ps = Inr rs"
  shows "list_all2 (\<lambda>p r. rsView (snd p) = Some (rpView r) \<and> r = replay_of (fst p) (rpView r)
      \<and> result_declared (fst p) (snd p) \<and> view_declared pl s (fst p) (rpView r)) ps rs"
  using assms
proof (induction ps arbitrary: i rs)
  case Nil
  then show ?case by simp
next
  case (Cons p ps)
  then show ?case by (cases p) (auto simp: replay_of_def split: option.splits if_splits sum.splits)
qed

lemma coherent_groups:
  assumes "validateObservationCoherence policy s views = None"
  shows "validateWireResponseGroups views = None" and "views \<noteq> []"
  using assms by (auto simp: validateObservationCoherence_def split: list.splits option.splits)

lemma check_single_None:
  "check_single first ps = None \<Longrightarrow> \<forall>p \<in> set ps. WireResponseID (snd p) = first"
  by (induction first ps rule: check_single.induct) (auto split: if_splits)

lemma single_wire:
  assumes "validateObservationCoherence policy s views = None" and "cpMode policy = CoherenceSingleWireResponse"
    and "length (osDependencies s) = length views"
  shows "\<forall>v \<in> set views. \<forall>w \<in> set views. WireResponseID v = WireResponseID w"
proof -
  obtain first rest where views: "views = first # rest"
    using coherent_groups(2) [OF assms(1)] by (cases views) auto
  have "check_single (WireResponseID first) (zip (osDependencies s) views) = None"
    using assms(1,2) by (auto simp: validateObservationCoherence_def views Let_def split: option.splits if_splits)
  then have "\<forall>p \<in> set (zip (osDependencies s) views). WireResponseID (snd p) = WireResponseID first"
    by (rule check_single_None)
  moreover have "snd ` set (zip (osDependencies s) views) = set views"
    using assms(3) by (metis map_snd_zip set_map)
  ultimately have "\<forall>v \<in> set views. WireResponseID v = WireResponseID first" by (metis imageE)
  then show ?thesis by metis
qed

text \<open>The registers of the wire responses that the views of a sample spell out, by PDU address.\<close>

definition image_of :: "logical_view list \<Rightarrow> u64 \<Rightarrow> nat \<Rightarrow> u16" where
  "image_of views wire address =
     (case find (\<lambda>v. WireResponseID v = wire \<and> unat (LogicalOffset v) \<le> address
          \<and> address < unat (LogicalOffset v) + length (Words v)) views of
        None \<Rightarrow> 0
      | Some v \<Rightarrow> Words v ! (address - unat (LogicalOffset v)))"

lemma all_pairs_in:
  assumes "\<And>x y. P x y = P y x" and "all_pairs P xs" and "x \<in> set xs" and "y \<in> set xs" and "x \<noteq> y"
  shows "P x y"
  using assms(2-) by (induction xs) (auto simp: assms(1))

lemma image_of_view:
  assumes "\<forall>v \<in> set views. NewLogicalViewSnapshot maxRead v = Inr v" and "validateWireResponseGroups views = None"
    and "v \<in> set views"
  shows "Words v = map (image_of views (WireResponseID v))
     [unat (LogicalOffset v)..<unat (LogicalOffset v) + length (Words v)]"
proof (rule nth_equalityI)
  fix k assume k: "k < length (Words v)"
  let ?a = "unat (LogicalOffset v) + k"
  let ?covers = "\<lambda>w. WireResponseID w = WireResponseID v \<and> unat (LogicalOffset w) \<le> ?a
      \<and> ?a < unat (LogicalOffset w) + length (Words w)"
  have ok: "wire_groups_ok views" using admitted_groups_iff [OF assms(1)] assms(2) by simp
  have "?covers v" using k by simp
  then have "\<exists>x \<in> set views. ?covers x" by (rule bexI [OF _ assms(3)])
  then have "find ?covers views \<noteq> None" unfolding find_None_iff by blast
  then obtain w where f: "find ?covers views = Some w" by blast
  then have w: "find ?covers views = Some w" "w \<in> set views" "?covers w"
    unfolding find_Some_iff using nth_mem by blast+
  have "Words w ! (?a - unat (LogicalOffset w)) = Words v ! k"
  proof (cases "w = v")
    case True
    then show ?thesis by simp
  next
    case False
    have compat: "compatible w v"
      by (rule all_pairs_in [OF compatible_sym _ w(2) assms(3) False])
        (use ok in \<open>simp add: wire_groups_ok_def\<close>)
    then have same: "identityOf w = identityOf v" using w(3) by (simp add: compatible_def)
    have off: "unat (LogicalOffset x) = unat (PhysicalOffset x) + unat (SliceOffset x)" if "x \<in> set views" for x
      using admitted_view_is_slice assms(1) that by blast
    have phys: "PhysicalOffset w = PhysicalOffset v" using same by (simp add: identityOf_def)
    let ?p = "unat (SliceOffset v) + k"
    have p: "?p = ?a - unat (PhysicalOffset v)" using off [OF assms(3)] by simp
    have "covers v ?p" using k by (simp add: covers_def)
    moreover have "covers w ?p"
      using w(3) off [OF w(2)] off [OF assms(3)] phys by (auto simp: covers_def)
    ultimately have "word_at w ?p = word_at v ?p" using compat same by (simp add: compatible_def)
    moreover have "word_at v ?p = Words v ! k" by (simp add: word_at_def)
    moreover have "word_at w ?p = Words w ! (?a - unat (LogicalOffset w))"
      using off [OF w(2)] off [OF assms(3)] phys by (simp add: word_at_def)
    ultimately show ?thesis by simp
  qed
  then show "Words v ! k = map (image_of views (WireResponseID v))
      [unat (LogicalOffset v)..<unat (LogicalOffset v) + length (Words v)] ! k"
    using k w(1) by (simp add: image_of_def)
qed simp

section \<open>Properties\<close>

text \<open>The declared registers of a sample: each replayed dependency holds, of one image per wire response, the words
  at its resolved offset.\<close>

definition reads_declared_registers :: "profile_spec \<Rightarrow> replayed_dependency list \<Rightarrow> bool" where
  "reads_declared_registers p rs \<longleftrightarrow>
     (\<exists>image. list_all2 (\<lambda>d r.
        rpNormalization r = dpNormalization d
        \<and> Words (rpView r) = map (image (WireResponseID (rpView r)))
            [unat (nsResolvedPDUOffset (dpNormalization d))
               ..<unat (nsResolvedPDUOffset (dpNormalization d)) + unat (dsWordCount (dpSpec d))])
        (stDependencies (pfDependencies p)) rs)
     \<and> (cpMode (pfCoherence p) = CoherenceSingleWireResponse \<longrightarrow>
          (\<forall>r \<in> set rs. \<forall>r' \<in> set rs. WireResponseID (rpView r) = WireResponseID (rpView r')))"

lemma built_reads_declared:
  assumes "buildObservation pl walk p spec = Inr ob"
    and "\<forall>d \<in> set (osDependencies spec). \<forall>v. rsView d = Some v \<longrightarrow> NewLogicalViewSnapshot maxRead v = Inr v"
  shows "reads_declared_registers p (obReplayed ob)"
proof -
  note built = buildObservation_Inr [OF assms(1)]
  let ?ds = "stDependencies (pfDependencies p)" and ?rs = "obReplayed ob"
  let ?views = "map rpView ?rs"
  have all: "list_all2 (\<lambda>q r. rsView (snd q) = Some (rpView r) \<and> r = replay_of (fst q) (rpView r)
      \<and> result_declared (fst q) (snd q) \<and> view_declared pl spec (fst q) (rpView r))
      (zip ?ds (osDependencies spec)) ?rs"
    by (rule replay_dependencies_Inr [OF built(3)])
  then have len: "length ?rs = length ?ds" using built(4) by (auto dest: list_all2_lengthD)
  have at: "rsView (osDependencies spec ! i) = Some (rpView (?rs ! i)) \<and> ?rs ! i = replay_of (?ds ! i) (rpView (?rs ! i))
      \<and> view_declared pl spec (?ds ! i) (rpView (?rs ! i))" if "i < length ?ds" for i
    using list_all2_nthD [OF all, of i] that built(4) by simp
  have admitted: "\<forall>v \<in> set ?views. NewLogicalViewSnapshot maxRead v = Inr v"
  proof
    fix v assume "v \<in> set ?views"
    then obtain i where "i < length ?ds" "v = rpView (?rs ! i)" using len by (auto simp: in_set_conv_nth)
    then show "NewLogicalViewSnapshot maxRead v = Inr v"
      using at assms(2) built(4) by (metis nth_mem)
  qed
  have groups: "validateWireResponseGroups ?views = None" by (rule coherent_groups(1) [OF built(5)])
  have "list_all2 (\<lambda>d r. rpNormalization r = dpNormalization d
        \<and> Words (rpView r) = map (image_of ?views (WireResponseID (rpView r)))
            [unat (nsResolvedPDUOffset (dpNormalization d))
               ..<unat (nsResolvedPDUOffset (dpNormalization d)) + unat (dsWordCount (dpSpec d))]) ?ds ?rs"
  proof (rule list_all2_all_nthI)
    fix i assume i: "i < length ?ds"
    have "rpView (?rs ! i) \<in> set ?views" using i len by simp
    then have image: "Words (rpView (?rs ! i)) = map (image_of ?views (WireResponseID (rpView (?rs ! i))))
        [unat (LogicalOffset (rpView (?rs ! i)))
          ..<unat (LogicalOffset (rpView (?rs ! i))) + length (Words (rpView (?rs ! i)))]"
      by (rule image_of_view [OF admitted groups])
    have replay: "?rs ! i = replay_of (?ds ! i) (rpView (?rs ! i))" using at [OF i] by blast
    have norm: "rpNormalization (?rs ! i) = dpNormalization (?ds ! i)"
      by (subst replay) (simp add: replay_of_def)
    have offset: "LogicalOffset (rpView (?rs ! i)) = nsResolvedPDUOffset (dpNormalization (?ds ! i))"
      and count: "length (Words (rpView (?rs ! i))) = unat (dsWordCount (dpSpec (?ds ! i)))"
      using at [OF i] unfolding view_declared_def by blast+
    show "rpNormalization (?rs ! i) = dpNormalization (?ds ! i)
        \<and> Words (rpView (?rs ! i)) = map (image_of ?views (WireResponseID (rpView (?rs ! i))))
            [unat (nsResolvedPDUOffset (dpNormalization (?ds ! i)))
               ..<unat (nsResolvedPDUOffset (dpNormalization (?ds ! i))) + unat (dsWordCount (dpSpec (?ds ! i)))]"
      using norm image unfolding offset count by blast
  qed (use len in simp)
  moreover have "\<forall>r \<in> set ?rs. \<forall>r' \<in> set ?rs. WireResponseID (rpView r) = WireResponseID (rpView r')"
    if mode: "cpMode (pfCoherence p) = CoherenceSingleWireResponse"
  proof -
    have "length (osDependencies spec) = length ?views" using built(4) len by simp
    then have "\<forall>v \<in> set ?views. \<forall>w \<in> set ?views. WireResponseID v = WireResponseID w"
      by (rule single_wire [OF built(5) mode])
    then show ?thesis by (simp only: set_map ball_simps)
  qed
  ultimately show ?thesis unfolding reads_declared_registers_def by blast
qed

lemma runtime_results_Inr:
  assumes "runtime_results pl maxBytes key q i ds as fs = Inr rs"
  shows "length rs = length ds \<and> length ds \<le> length as
    \<and> (\<forall>k < length ds. matchRuntimeNormalization pl (ds ! k) (aqFields (as ! k)) \<and> aqAttemptKey (as ! k) = key
         \<and> rsView (rs ! k) = Some (aqProvenance (as ! k))
         \<and> NewLogicalViewSnapshot (plMaxReadRegisters pl) (aqProvenance (as ! k)) = Inr (aqProvenance (as ! k)))"
  using assms
proof (induction pl maxBytes key q i ds as fs arbitrary: rs rule: runtime_results.induct)
  case (2 pl maxBytes key q i d ds a as f fs)
  then obtain rs' v where v: "NewLogicalViewSnapshot (plMaxReadRegisters pl) (aqProvenance a) = Inr v"
    and rest: "runtime_results pl maxBytes key q (Suc i) ds as fs = Inr rs'"
    and rs: "rs = runtime_result (uqRetryOrdinal q) d v f # rs'"
    and checks: "matchRuntimeNormalization pl d (aqFields a)" "aqAttemptKey a = key"
      "aqValid a" "aqNormalizationValid a" "aqNormalizationBytes a \<noteq> []" "int (length (aqNormalizationBytes a)) \<le> maxBytes"
      "aqRuntimeSource a" "aqSourceEvidenceID a = rfSourceEvidenceID (aqFields a)" "WireResponseBytes (aqProvenance a) \<noteq> []"
      "PollGeneration (aqProvenance a) = uqPollGenerationID q"
    by (auto split: if_splits sum.splits)
  have "v = aqProvenance a" using admitted_view_is_slice [OF v] by blast
  moreover have "length rs' = length ds \<and> length ds \<le> length as
    \<and> (\<forall>k < length ds. matchRuntimeNormalization pl (ds ! k) (aqFields (as ! k)) \<and> aqAttemptKey (as ! k) = key
         \<and> rsView (rs' ! k) = Some (aqProvenance (as ! k))
         \<and> NewLogicalViewSnapshot (plMaxReadRegisters pl) (aqProvenance (as ! k)) = Inr (aqProvenance (as ! k)))"
    using "2.IH" [OF _ _ _ _ _ v _ rest] checks by simp
  ultimately show ?case using v checks(1,2) by (auto simp: rs runtime_result_def All_less_Suc2 less_Suc_eq_0_disj)
qed auto


definition example_meter_view :: logical_view where
  "example_meter_view = \<lparr>
     LogicalViewID = 1, WireResponseID = 1, PhysicalRequestID = 1, Endpoint = ''tcp'',
     ConnectionID = 1, Transport = TransportTCP, TransportGeneration = 1, UnitID = 1,
     RequestedFunction = 3, ReceivedFunction = 3, Table = HoldingRegisters,
     PhysicalOffset = 98, PhysicalWordCount = 4, AuthorizationScope = ''scope'',
     PollGeneration = 7, DeadlineIdentity = 1, LogicalOffset = 100, LogicalWordCount = 2,
     SliceOffset = 2, SliceWordCount = 2, Words = [1, 66], WireResponseBytes = [3]\<rparr>"

definition example_fields :: runtime_fields where
  "example_fields = \<lparr>rfSchemaVersion = 1, rfRuntimeSource = True,
     rfSourceEvidenceID = ''urn:helianthus:evidence:map'', rfDocumentaryNotation = ''40101'',
     rfDocumentaryAddress = 40101, rfDocumentaryAddressBase = AddressBaseHoldingReference,
     rfFunctionCode = 3, rfLogicalTable = HoldingRegisters, rfNormalizedOffset = 100, rfWordCount = 2\<rparr>"

definition example_acquisition :: acquisition where
  "example_acquisition = \<lparr>aqValid = True, aqAttemptKey = ''attempt'', aqNormalizationValid = True,
     aqNormalizationBytes = [1], aqFields = example_fields, aqRuntimeSource = True,
     aqSourceEvidenceID = ''urn:helianthus:evidence:map'', aqProvenance = example_meter_view\<rparr>"

definition example_request :: runtime_request where
  "example_request = \<lparr>uqPollGenerationID = 7, uqRetryOrdinal = 0,
     uqDependencies = [\<lparr>tfSourceTime = \<lparr>srState = SourceTimeUnavailableState, srTime = zero_time\<rparr>,
       tfLocalReceiptTime = zero_time, tfReceiptPresent = False, tfMarker = '''', tfAcquisitionOrdinal = 0\<rparr>],
     uqSourceValidity = SourceValid, uqSourceTime = \<lparr>srState = SourceTimeUnavailableState, srTime = zero_time\<rparr>,
     uqLocalReceiptTime = 0, uqReceiptPresent = True\<rparr>"

definition example_transport :: "transport \<Rightarrow> agg" where
  "example_transport t = string_agg ''tcp''"

lemmas example_runtime_simps = example_acquisition_def example_fields_def example_request_def example_meter_view_def
  example_profile_def example_set_def runtime_spec_def runtime_result_def

definition example_results :: "dependency_result list" where
  "example_results = [runtime_result 0 \<lparr>dpSpec = example_dependency, dpNormalization = example_normalization\<rparr>
     example_meter_view (hd (uqDependencies example_request))]"

definition example_spec :: observation_spec where
  "example_spec = runtime_spec example_profile example_request [example_acquisition] example_results"

lemma example_view_taken: "NewLogicalViewSnapshot 125 example_meter_view = Inr example_meter_view"
  by code_simp

lemma example_results_built:
  "runtime_results example_platform 4096 ''attempt'' example_request 0 (stDependencies (pfDependencies example_profile))
     [example_acquisition] (uqDependencies example_request) = Inr example_results"
proof -
  have "matchRuntimeNormalization example_platform \<lparr>dpSpec = example_dependency, dpNormalization = example_normalization\<rparr>
      (aqFields example_acquisition)"
    by (simp add: matchRuntimeNormalization_def example_runtime_simps example_dependency_def example_normalization_def
        example_platform_def expected_function_def table_name_def Let_def FunctionReadHoldingRegisters_def)
  moreover have "plMaxReadRegisters example_platform = 125" by (simp add: example_platform_def)
  ultimately show ?thesis
    using example_view_taken
    by (simp add: example_profile_def example_set_def example_results_def)
      (simp add: example_acquisition_def example_fields_def example_request_def example_meter_view_def)
qed

lemma example_result_walk:
  "agg_shape 2 (result_walk_agg example_platform example_transport (hd example_results))
   \<and> agg_cost (result_walk_agg example_platform example_transport (hd example_results)) \<le> 6000"
  by (simp add: result_walk_agg_def view_agg_def source_time_agg_def example_results_def example_runtime_simps
      example_transport_def example_agg_simps table_name_def example_platform_def observation_consts)

lemma example_spec_walk: "preflightAggregate [observation_agg example_platform example_transport example_spec] = None"
  unfolding preflightAggregate_def preflight_from_iff
  by (simp add: observation_agg_def example_spec_def source_time_agg_def example_results_def observation_consts
      hex_bytes_length schemaVersionV1_def example_runtime_simps result_walk_agg_def view_agg_def example_transport_def
      example_agg_simps table_name_def example_platform_def)

lemma example_result_preflight:
  "preflightDependencyResult example_platform example_transport (hd example_results) = None"
  unfolding preflightDependencyResult_def preflightAggregate_def preflight_from_iff
  by (simp add: source_time_agg_def example_results_def observation_consts
      hex_bytes_length example_runtime_simps result_walk_agg_def view_agg_def example_transport_def
      example_agg_simps table_name_def example_platform_def)

lemma example_set_id: "validDependencySetID (stID example_set)"
proof -
  have "hex_digit 0 = CHR ''0''" by code_simp
  then have "set (hex_bytes (replicate 32 0)) \<subseteq> {CHR ''0''}" by (auto simp: hex_bytes_def)
  then show ?thesis
    by (auto simp: validDependencySetID_def example_set_def hex_bytes_length lower_hex_def is_digit_def byte_at_def)
qed

lemma example_spec_preflight: "preflightObservationSpec example_platform example_transport example_spec = None"
proof -
  obtain r where r: "r = hd example_results" by blast
  have names: "rsDependencyID r = ''power''" "rsCodecID r = ''power''" "rsMarker r = ''''"
      "view_words r = [1, 66]"
    by (simp_all add: r example_results_def runtime_result_def view_words_def example_meter_view_def
        example_request_def example_dependency_def)
  have "preflight_results example_platform example_transport [r] = None"
    using example_result_preflight unfolding r [symmetric]
    by (simp add: names) (simp add: example_platform_def example_string_simps)
  moreover have "osDependencies example_spec = [r]"
    by (simp add: example_spec_def runtime_spec_def r example_results_def)
  moreover have "osDependencySetID example_spec = stID example_set"
    by (simp add: example_spec_def runtime_spec_def example_profile_def)
  moreover have "validateFields False [osSampleID example_spec, osProfileID example_spec, stID example_set,
      osEndpoint example_spec] = None"
  proof -
    have "utf8_valid (stID example_set)"
      by (intro utf8_valid_ascii) (auto simp: example_set_def hex_bytes_def hex_digit_def digit_char_def byte_at_def)
    moreover have "length (stID example_set) = 71" by (simp add: example_set_def hex_bytes_length)
    ultimately show ?thesis
      by (simp add: example_spec_def runtime_spec_def example_results_def example_profile_def example_acquisition_def
          example_meter_view_def example_string_simps)
  qed
  ultimately show ?thesis
    using example_spec_walk example_set_id
    by (simp add: preflightObservationSpec_def MaxProfileDependencies_def PinnedMaxCoalescedDependents_def del: validateFields.simps preflight_results.simps)
qed

lemma example_replay:
  "replay_dependencies example_platform example_spec 0 (zip (stDependencies example_set) example_results)
     = Inr [replay_of \<lparr>dpSpec = example_dependency, dpNormalization = example_normalization\<rparr> example_meter_view]"
  by (simp add: example_set_def example_results_def runtime_result_def result_declared_def view_declared_def)
    (simp add: example_spec_def runtime_spec_def example_results_def example_acquisition_def example_meter_view_def
      example_request_def table_name_def example_platform_def example_dependency_def example_normalization_def
      expected_function_def FunctionReadHoldingRegisters_def)

lemma example_observation_built: "\<exists>ob. buildObservation example_platform example_transport example_profile example_spec = Inr ob"
proof -
  let ?d = "\<lparr>dpSpec = example_dependency, dpNormalization = example_normalization\<rparr>"
  have canonical: "canonicalizeObservationTimes example_spec = Inr example_spec"
    by (simp add: canonicalizeObservationTimes_def canonical_source_def canonicalRequiredTime_def canonical_result_def
        canonicalObservedTime_eq hasLocalReceiptTime_def example_spec_def example_results_def runtime_spec_def
        runtime_result_def example_request_def zero_time_def year_10000_def unix_offset_def nanos_per_second_def observation_consts)
  have envelope: "envelope_matches example_profile example_spec"
    by (simp add: envelope_matches_def example_spec_def runtime_spec_def example_results_def example_request_def
        example_acquisition_def example_meter_view_def hasLocalReceiptTime_def)
      (simp add: example_profile_def schemaVersionV1_def)
  have valid: "osSourceValidity example_spec = SourceValid"
    and source: "osSourceTime example_spec = \<lparr>srState = SourceTimeUnavailableState, srTime = zero_time\<rparr>"
    and retry: "osRetryOrdinal example_spec = 0" and one: "osDependencies example_spec = example_results"
    by (simp_all add: example_spec_def runtime_spec_def example_request_def)
  have time: "validateSourceTime (osSourceTime example_spec) = None"
    by (simp add: source validateSourceTime_def observation_consts)
  have replay: "replay_dependencies example_platform example_spec 0
      (zip (stDependencies (pfDependencies example_profile)) (osDependencies example_spec)) = Inr [replay_of ?d example_meter_view]"
    using example_replay by (simp add: one example_profile_def)
  have set: "length (osDependencies example_spec) = length (stDependencies (pfDependencies example_profile))"
    by (simp add: one example_results_def example_profile_def example_set_def)
  have groups: "validateWireResponseGroups [example_meter_view] = None"
    by code_simp
  have "validateObservationCoherence (pfCoherence example_profile) example_spec [example_meter_view] = None"
    using groups
    by (simp add: validateObservationCoherence_def retry one example_results_def example_profile_def Let_def)
      (simp add: runtime_result_def example_request_def hasLocalReceiptTime_def)
  then show ?thesis
    using example_spec_preflight canonical envelope valid time replay set
    by (simp add: buildObservation_def Let_def replay_of_def)
qed


end
