(* ===== verification/Tesla_Wire.thy ===== *)
theory Tesla_Wire
  imports Contract
begin

text \<open>
  The wire forms of the Tesla modules: the exact-length envelope of the private functions
  (\<^verbatim>\<open>tesla_hsc.go\<close>, \<^verbatim>\<open>tesla_hsc_request.go\<close>, \<^verbatim>\<open>tesla_hsc_native.go\<close>), protobuf varints and
  length-delimited fields (\<^verbatim>\<open>tesla_fc100_wc_vitals.go\<close>), the requests and responses of the FC100
  operations (\<^verbatim>\<open>tesla_fc100_operation.go\<close>) and the escaped frames of the first wall connectors
  (\<^verbatim>\<open>tesla_legacy_wall_connector.go\<close>). What the code takes from the modbus library is the record
  \<open>private_platform\<close>: the size of a PDU and whether a request constructor accepts.
\<close>

record private_platform =
  ppMaxPDUSize :: nat
  ppAccepts :: "u8 \<Rightarrow> u8 list \<Rightarrow> bool"

datatype tesla_error =
    FunctionUnsupported
  | PayloadExceedsBound
  | NoLengthPrefix
  | LengthPrefixInexact
  | ResponseCountInvalid
  | VarintTruncated
  | VarintOverflows
  | NotOneDelimitedField
  | FieldLengthInvalid
  | CompatibilityUnsupported
  | OperationUnsupported
  | SequenceInvalid
  | MessageExceedsBound
  | RequestRefused
  | EchoFollowsTerminal
  | MultipleTerminals
  | NoTerminal
  | FrameSizeInvalid
  | DelimitersInvalid
  | UnescapedDelimiter
  | EscapeIncomplete
  | EscapeInvalid
  | MessageSizeInvalid
  | ChecksumInvalid
  | PrefixInvalid

section \<open>Envelopes\<close>

definition teslaHSCFunction100 :: u8 where "teslaHSCFunction100 = 100"
definition teslaHSCFunction101 :: u8 where "teslaHSCFunction101 = 101"
definition teslaHSCFunction102 :: u8 where "teslaHSCFunction102 = 102"

lemmas tesla_functions = teslaHSCFunction100_def teslaHSCFunction101_def teslaHSCFunction102_def

definition isTeslaHSCFunction :: "u8 \<Rightarrow> bool" where
  "isTeslaHSCFunction f \<longleftrightarrow> f \<in> {teslaHSCFunction100, teslaHSCFunction101, teslaHSCFunction102}"

definition maxTeslaHSCPayload :: "private_platform \<Rightarrow> nat" where
  "maxTeslaHSCPayload pp = ppMaxPDUSize pp - 1"

record tesla_message =
  tmFunction :: u8
  tmPayload :: "u8 list"

definition decodeTeslaHSCExactEnvelope :: "private_platform \<Rightarrow> u8 \<Rightarrow> u8 list \<Rightarrow> tesla_error + tesla_message" where
  "decodeTeslaHSCExactEnvelope pp f payload =
     (if length payload > maxTeslaHSCPayload pp then Inl PayloadExceedsBound
      else (case payload of
          [] \<Rightarrow> Inl NoLengthPrefix
        | l # message \<Rightarrow>
            (if int (unat l) \<noteq> int (length payload) - 1 then Inl LengthPrefixInexact
             else Inr \<lparr>tmFunction = f, tmPayload = message\<rparr>)))"

definition DecodeTeslaHSCEnvelope :: "private_platform \<Rightarrow> u8 \<Rightarrow> u8 list \<Rightarrow> tesla_error + tesla_message" where
  "DecodeTeslaHSCEnvelope pp f payload =
     (if f \<noteq> teslaHSCFunction100 then Inl FunctionUnsupported else decodeTeslaHSCExactEnvelope pp f payload)"

definition DecodeTeslaHSCRequestEnvelope :: "private_platform \<Rightarrow> u8 \<Rightarrow> u8 list \<Rightarrow> tesla_error + tesla_message" where
  "DecodeTeslaHSCRequestEnvelope pp f payload =
     (if \<not> isTeslaHSCFunction f then Inl FunctionUnsupported else decodeTeslaHSCExactEnvelope pp f payload)"

definition DecodeTeslaHSCResponse :: "private_platform \<Rightarrow> u8 \<Rightarrow> u8 list \<Rightarrow> tesla_error + tesla_message" where
  "DecodeTeslaHSCResponse pp f payload =
     (if \<not> isTeslaHSCFunction f then Inl FunctionUnsupported
      else if length payload > maxTeslaHSCPayload pp then Inl PayloadExceedsBound
      else if f = teslaHSCFunction100 then DecodeTeslaHSCEnvelope pp f payload
      else Inr \<lparr>tmFunction = f, tmPayload = payload\<rparr>)"

fun decode_responses :: "private_platform \<Rightarrow> u8 \<Rightarrow> u8 list list \<Rightarrow> tesla_error + tesla_message list" where
  "decode_responses pp f [] = Inr []"
| "decode_responses pp f (p # ps) =
     (case DecodeTeslaHSCResponse pp f p of
        Inl e \<Rightarrow> Inl e
      | Inr r \<Rightarrow> (case decode_responses pp f ps of Inl e \<Rightarrow> Inl e | Inr rs \<Rightarrow> Inr (r # rs)))"

definition DecodeTeslaHSCExchange :: "private_platform \<Rightarrow> u8 \<Rightarrow> u8 list list \<Rightarrow> tesla_error + tesla_message list" where
  "DecodeTeslaHSCExchange pp f payloads =
     (if \<not> isTeslaHSCFunction f then Inl FunctionUnsupported
      else if payloads = [] \<or> 8 < length payloads \<or> (f \<noteq> teslaHSCFunction100 \<and> length payloads \<noteq> 1)
      then Inl ResponseCountInvalid
      else decode_responses pp f payloads)"

definition NewTeslaHSCSyntacticRequest :: "private_platform \<Rightarrow> u8 \<Rightarrow> u8 list \<Rightarrow> tesla_error + tesla_message" where
  "NewTeslaHSCSyntacticRequest pp f nested =
     (if \<not> isTeslaHSCFunction f then Inl FunctionUnsupported
      else if length nested \<ge> maxTeslaHSCPayload pp then Inl PayloadExceedsBound
      else (let payload = of_nat (length nested) # nested in
            case DecodeTeslaHSCRequestEnvelope pp f payload of
              Inl e \<Rightarrow> Inl e
            | Inr _ \<Rightarrow> Inr \<lparr>tmFunction = f, tmPayload = payload\<rparr>))"

definition NewPrivateFunctionRequest :: "private_platform \<Rightarrow> u8 \<Rightarrow> u8 list \<Rightarrow> tesla_error + tesla_message" where
  "NewPrivateFunctionRequest pp f payload =
     (if ppAccepts pp f payload then Inr \<lparr>tmFunction = f, tmPayload = payload\<rparr> else Inl RequestRefused)"

definition BuildTeslaHSCNativeRequest :: "private_platform \<Rightarrow> u8 \<Rightarrow> u8 list \<Rightarrow> tesla_error + tesla_message" where
  "BuildTeslaHSCNativeRequest pp f message =
     (if f \<noteq> teslaHSCFunction101 \<and> f \<noteq> teslaHSCFunction102 then Inl FunctionUnsupported
      else if length message > 251 then Inl MessageExceedsBound
      else NewPrivateFunctionRequest pp f (of_nat (length message) # message))"

definition TeslaHSCCompatibilityV1 :: string where
  "TeslaHSCCompatibilityV1 = ''tesla_hsc_modbus_v1''"

definition DecodeTeslaHSCNativeRecord ::
    "private_platform \<Rightarrow> string \<Rightarrow> u8 \<Rightarrow> u8 list \<Rightarrow> tesla_error + tesla_message" where
  "DecodeTeslaHSCNativeRecord pp version f payload =
     (if version \<noteq> TeslaHSCCompatibilityV1 then Inl CompatibilityUnsupported
      else if f \<noteq> teslaHSCFunction101 \<and> f \<noteq> teslaHSCFunction102 then Inl FunctionUnsupported
      else DecodeTeslaHSCResponse pp f payload)"

section \<open>Varints and fields\<close>

function append_varint :: "u64 \<Rightarrow> u8 list" where
  "append_varint v =
     (if 0x80 \<le> v then (ucast v OR 0x80) # append_varint (drop_bit 7 v) else [ucast v])"
  by pat_completeness auto
termination
proof (relation "measure unat")
  fix v :: u64
  assume "0x80 \<le> v"
  then have "128 \<le> unat v" by (simp add: word_le_nat_alt)
  moreover have "unat (drop_bit 7 v) = unat v div 128" by (subst unat_drop_bit_eq) (simp add: drop_bit_eq_div)
  ultimately show "(drop_bit 7 v, v) \<in> measure unat" by simp
qed simp

declare append_varint.simps [simp del]

fun decode_varint_from :: "nat \<Rightarrow> u64 \<Rightarrow> u8 list \<Rightarrow> tesla_error + (u64 \<times> nat)" where
  "decode_varint_from index v [] = Inl VarintTruncated"
| "decode_varint_from index v (b # bs) =
     (if index = 10 \<or> (index = 9 \<and> 1 < b) then Inl VarintOverflows
      else (let v' = v OR push_bit (7 * index) (ucast (b AND 0x7f)) in
            if b AND 0x80 = 0 then Inr (v', index + 1) else decode_varint_from (index + 1) v' bs))"

definition decodeTeslaFC100Varint :: "u8 list \<Rightarrow> tesla_error + (u64 \<times> nat)" where
  "decodeTeslaFC100Varint input = decode_varint_from 0 0 input"

definition decodeExactLengthDelimitedField :: "u8 list \<Rightarrow> u64 \<Rightarrow> tesla_error + u8 list" where
  "decodeExactLengthDelimitedField message field =
     (case decodeTeslaFC100Varint message of
        Inl e \<Rightarrow> Inl NotOneDelimitedField
      | Inr (key, width) \<Rightarrow>
          (if key \<noteq> push_bit 3 field OR 2 then Inl NotOneDelimitedField
           else (case decodeTeslaFC100Varint (drop width message) of
               Inl e \<Rightarrow> Inl FieldLengthInvalid
             | Inr (n, lengthWidth) \<Rightarrow>
                 (let rest = int (length message) - int width - int lengthWidth in
                  if int (unat n) > rest \<or> int (unat n) \<noteq> rest then Inl FieldLengthInvalid
                  else Inr (drop (width + lengthWidth) message)))))"

definition delimited_field :: "u64 \<Rightarrow> u8 list \<Rightarrow> u8 list" where
  "delimited_field field body =
     append_varint (push_bit 3 field OR 2) @ append_varint (of_nat (length body)) @ body"

section \<open>The FC100 operations\<close>

definition TeslaHSCFC100OperationCompatibilityV1 :: string where
  "TeslaHSCFC100OperationCompatibilityV1 = ''wc3_24_44_3''"

definition TeslaFC100OperationCommonSystemInfo :: string where
  "TeslaFC100OperationCommonSystemInfo = ''common.system_info''"
definition TeslaFC100OperationWCGetVitals :: string where
  "TeslaFC100OperationWCGetVitals = ''wc.get_vitals''"
definition TeslaFC100OperationWCGetLifetimeStats :: string where
  "TeslaFC100OperationWCGetLifetimeStats = ''wc.get_lifetime_stats''"
definition TeslaFC100OperationWCConfigureSettings :: string where
  "TeslaFC100OperationWCConfigureSettings = ''wc.configure_settings''"
definition TeslaFC100OperationWCGetSystemInfo :: string where
  "TeslaFC100OperationWCGetSystemInfo = ''wc.get_system_info''"
definition TeslaFC100OperationWCGetLoadSharingState :: string where
  "TeslaFC100OperationWCGetLoadSharingState = ''wc.get_load_sharing_state''"
definition TeslaFC100OperationWCSetProvisional :: string where
  "TeslaFC100OperationWCSetProvisional = ''wc.set_provisional''"
definition TeslaFC100OperationWCGetProvisional :: string where
  "TeslaFC100OperationWCGetProvisional = ''wc.get_provisional''"

lemmas tesla_operations = TeslaFC100OperationCommonSystemInfo_def TeslaFC100OperationWCGetVitals_def
  TeslaFC100OperationWCGetLifetimeStats_def TeslaFC100OperationWCConfigureSettings_def
  TeslaFC100OperationWCGetSystemInfo_def TeslaFC100OperationWCGetLoadSharingState_def
  TeslaFC100OperationWCSetProvisional_def TeslaFC100OperationWCGetProvisional_def

record operation_spec =
  opFamily :: u64
  opRequestTag :: u64
  opResponseTag :: u64

definition teslaFC100OperationSpecs :: "(string \<times> operation_spec) list" where
  "teslaFC100OperationSpecs =
     [(TeslaFC100OperationCommonSystemInfo, \<lparr>opFamily = 4, opRequestTag = 2, opResponseTag = 3\<rparr>),
      (TeslaFC100OperationWCGetVitals, \<lparr>opFamily = 6, opRequestTag = 1, opResponseTag = 2\<rparr>),
      (TeslaFC100OperationWCGetLifetimeStats, \<lparr>opFamily = 6, opRequestTag = 3, opResponseTag = 4\<rparr>),
      (TeslaFC100OperationWCConfigureSettings, \<lparr>opFamily = 6, opRequestTag = 7, opResponseTag = 8\<rparr>),
      (TeslaFC100OperationWCGetSystemInfo, \<lparr>opFamily = 6, opRequestTag = 9, opResponseTag = 10\<rparr>),
      (TeslaFC100OperationWCGetLoadSharingState, \<lparr>opFamily = 6, opRequestTag = 11, opResponseTag = 12\<rparr>),
      (TeslaFC100OperationWCSetProvisional, \<lparr>opFamily = 6, opRequestTag = 25, opResponseTag = 26\<rparr>),
      (TeslaFC100OperationWCGetProvisional, \<lparr>opFamily = 6, opRequestTag = 27, opResponseTag = 28\<rparr>)]"

definition BuildTeslaFC100OperationRequest ::
    "private_platform \<Rightarrow> string \<Rightarrow> string \<Rightarrow> u8 list \<Rightarrow> tesla_error + tesla_message" where
  "BuildTeslaFC100OperationRequest pp version operation body =
     (if version \<noteq> TeslaHSCFC100OperationCompatibilityV1 then Inl CompatibilityUnsupported
      else (case map_of teslaFC100OperationSpecs operation of
          None \<Rightarrow> Inl OperationUnsupported
        | Some spec \<Rightarrow>
            (let inner = append_varint (push_bit 3 (opRequestTag spec) OR 2) @ append_varint (of_nat (length body)) @ body;
                 message = append_varint (push_bit 3 (opFamily spec) OR 2) @ append_varint (of_nat (length inner)) @ inner
             in if length message > 251 then Inl MessageExceedsBound
                else NewPrivateFunctionRequest pp teslaHSCFunction100 (of_nat (length message) # message))))"

datatype operation_result = OperationIntermediate | OperationTerminal "u8 list" | OperationApplicationError u64

definition decodeTeslaFC100ApplicationError :: "u8 list \<Rightarrow> u64 option" where
  "decodeTeslaFC100ApplicationError message =
     (case decodeExactLengthDelimitedField message 4 of
        Inl e \<Rightarrow> None
      | Inr common \<Rightarrow>
          (case decodeExactLengthDelimitedField common 1 of
             Inl e \<Rightarrow> None
           | Inr body \<Rightarrow>
               (case decodeTeslaFC100Varint body of
                  Inl e \<Rightarrow> None
                | Inr (key, width) \<Rightarrow>
                    (if key \<noteq> 8 then None
                     else (case decodeTeslaFC100Varint (drop width body) of
                         Inl e \<Rightarrow> None
                       | Inr (status, consumed) \<Rightarrow>
                           if width + consumed \<noteq> length body then None else Some status)))))"

fun operation_results ::
    "private_platform \<Rightarrow> operation_spec \<Rightarrow> u8 list \<Rightarrow> bool \<Rightarrow> u8 list list \<Rightarrow> tesla_error + operation_result list"
where
  "operation_results pp spec request terminal [] = (if terminal then Inr [] else Inl NoTerminal)"
| "operation_results pp spec request terminal (p # ps) =
     (case DecodeTeslaHSCResponse pp teslaHSCFunction100 p of
        Inl e \<Rightarrow> Inl e
      | Inr r \<Rightarrow>
          (let message = tmPayload r;
               continue = (\<lambda>x t. case operation_results pp spec request t ps of Inl e \<Rightarrow> Inl e | Inr xs \<Rightarrow> Inr (x # xs))
           in if message = request
              then (if terminal then Inl EchoFollowsTerminal else continue OperationIntermediate False)
              else if terminal then Inl MultipleTerminals
              else (case decodeTeslaFC100ApplicationError message of
                  Some status \<Rightarrow> continue (OperationApplicationError status) True
                | None \<Rightarrow>
                    (case decodeExactLengthDelimitedField message (opFamily spec) of
                       Inl e \<Rightarrow> Inl e
                     | Inr family \<Rightarrow>
                         (case decodeExactLengthDelimitedField family (opResponseTag spec) of
                            Inl e \<Rightarrow> Inl e
                          | Inr body \<Rightarrow> continue (OperationTerminal body) True)))))"

definition DecodeTeslaFC100OperationSequence ::
    "private_platform \<Rightarrow> string \<Rightarrow> string \<Rightarrow> u8 list \<Rightarrow> u8 list list \<Rightarrow> tesla_error + operation_result list" where
  "DecodeTeslaFC100OperationSequence pp version operation requestPayload payloads =
     (if version \<noteq> TeslaHSCFC100OperationCompatibilityV1 then Inl CompatibilityUnsupported
      else (case map_of teslaFC100OperationSpecs operation of
          None \<Rightarrow> Inl SequenceInvalid
        | Some spec \<Rightarrow>
            (if payloads = [] \<or> 8 < length payloads then Inl SequenceInvalid
             else (case DecodeTeslaHSCEnvelope pp teslaHSCFunction100 requestPayload of
                 Inl e \<Rightarrow> Inl e
               | Inr request \<Rightarrow> operation_results pp spec (tmPayload request) False payloads))))"

definition teslaGen3ExactFC100RequestBody :: "private_platform \<Rightarrow> string \<Rightarrow> u8 list \<Rightarrow> tesla_error + u8 list" where
  "teslaGen3ExactFC100RequestBody pp operation payload =
     (case map_of teslaFC100OperationSpecs operation of
        None \<Rightarrow> Inl OperationUnsupported
      | Some spec \<Rightarrow>
          (case DecodeTeslaHSCEnvelope pp teslaHSCFunction100 payload of
             Inl e \<Rightarrow> Inl e
           | Inr envelope \<Rightarrow>
               (case decodeExactLengthDelimitedField (tmPayload envelope) (opFamily spec) of
                  Inl e \<Rightarrow> Inl e
                | Inr family \<Rightarrow> decodeExactLengthDelimitedField family (opRequestTag spec))))"

section \<open>Reading what was written\<close>

lemma shifted_value: "unat (drop_bit 7 (v :: u64)) = unat v div 128"
  by (subst unat_drop_bit_eq) (simp add: drop_bit_eq_div)

lemma continuation_bit:
  "bit (0x80 :: u8) n \<longleftrightarrow> n = 7" "bit (0x7f :: u8) n \<longleftrightarrow> n < 7"
  "bit (0x80 :: int) n \<longleftrightarrow> n = 7" "bit (0x7f :: int) n \<longleftrightarrow> n < 7"
proof -
  have c: "(0x80 :: u8) = push_bit 7 1" "(0x7f :: u8) = mask 7" "(0x80 :: int) = push_bit 7 1" "(0x7f :: int) = mask 7"
    by (simp_all add: mask_eq_exp_minus_1)
  show "bit (0x80 :: u8) n \<longleftrightarrow> n = 7" unfolding c(1) bit_push_bit_iff bit_1_iff by auto
  show "bit (0x7f :: u8) n \<longleftrightarrow> n < 7" unfolding c(2) bit_mask_iff by auto
  show "bit (0x80 :: int) n \<longleftrightarrow> n = 7" unfolding c(3) bit_push_bit_iff bit_1_iff by auto
  show "bit (0x7f :: int) n \<longleftrightarrow> n < 7" unfolding c(4) bit_mask_iff by auto
qed

lemma continued_byte:
  fixes w :: u64
  shows "ucast ((ucast w OR 0x80 :: u8) AND 0x7f) = take_bit 7 w" and "(ucast w OR 0x80 :: u8) AND 0x80 \<noteq> 0"
proof -
  show "ucast ((ucast w OR 0x80 :: u8) AND 0x7f) = take_bit 7 w"
    by (rule bit_word_eqI) (auto simp: bit_simps continuation_bit)
  have "bit ((ucast w OR 0x80 :: u8) AND 0x80) 7" by (simp add: bit_simps continuation_bit)
  then show "(ucast w OR 0x80 :: u8) AND 0x80 \<noteq> 0" by (metis bit_0_eq bot_apply bot_bool_def)
qed

lemma last_byte:
  fixes w :: u64
  assumes "w < 0x80"
  shows "ucast ((ucast w :: u8) AND 0x7f) = w" and "(ucast w :: u8) AND 0x80 = 0"
proof -
  have "unat w < 2 ^ 7" using assms by (simp add: word_less_nat_alt)
  then have "w = take_bit 7 w" by (simp add: word_unat_eq_iff unsigned_take_bit_eq take_bit_nat_eq_self)
  then have high: "bit w n \<Longrightarrow> n < 7" for n by (metis bit_take_bit_iff)
  show "ucast ((ucast w :: u8) AND 0x7f) = w"
    by (rule bit_word_eqI) (auto simp: bit_simps continuation_bit dest: high intro: less_trans)
  show "(ucast w :: u8) AND 0x80 = 0"
    by (rule bit_word_eqI) (auto simp: bit_simps continuation_bit dest: high)
qed

lemma decode_appended:
  assumes "index \<le> 9" and "unat w < 2 ^ (64 - 7 * index)"
  shows "decode_varint_from index acc (append_varint w @ rest)
     = Inr (acc OR push_bit (7 * index) w, index + length (append_varint w))"
  using assms
proof (induction w arbitrary: index acc rule: append_varint.induct)
  case (1 w)
  show ?case
  proof (cases "0x80 \<le> w")
    case True
    then have big: "128 \<le> unat w" by (simp add: word_le_nat_alt)
    have "index \<noteq> 9" using 1(3) big by auto
    then have index: "index + 1 \<le> 9" "index \<noteq> 10" using 1(2) by simp_all
    have "(2 :: nat) ^ (64 - 7 * index) = 2 ^ (64 - 7 * (index + 1)) * 128"
    proof -
      have "64 - 7 * index = 64 - 7 * (index + 1) + 7" using index by simp
      then show ?thesis by (simp only: power_add) simp
    qed
    then have small: "unat (drop_bit 7 w) < 2 ^ (64 - 7 * (index + 1))"
      using 1(3) unfolding shifted_value by (simp add: less_mult_imp_div_less)
    have "push_bit (7 * index) (take_bit 7 w) OR push_bit (7 * (index + 1)) (drop_bit 7 w) = push_bit (7 * index) w"
    proof (rule bit_word_eqI)
      fix n assume "n < LENGTH(64)"
      then show "bit (push_bit (7 * index) (take_bit 7 w) OR push_bit (7 * (index + 1)) (drop_bit 7 w)) n
          = bit (push_bit (7 * index) w) n"
        by (cases "n - 7 * index < 7") (auto simp: bit_simps)
    qed
    then have bits: "(acc OR push_bit (7 * index) (take_bit 7 w)) OR push_bit (7 * (index + 1)) (drop_bit 7 w)
        = acc OR push_bit (7 * index) w" by (simp add: or.assoc)
    have "append_varint w = (ucast w OR 0x80) # append_varint (drop_bit 7 w)"
      using True by (subst append_varint.simps) simp
    then show ?thesis
      using "1.IH" [OF True index(1) small] index \<open>index \<noteq> 9\<close> continued_byte [of w] bits
      by (simp add: Let_def)
  next
    case False
    then have w: "w < 0x80" by simp
    have "append_varint w = [ucast w]" using False by (subst append_varint.simps) simp
    moreover have "\<not> (index = 9 \<and> 1 < (ucast w :: u8))"
    proof
      assume a: "index = 9 \<and> 1 < (ucast w :: u8)"
      then have "unat w < 2" using 1(3) by simp
      moreover have "1 < unat (ucast w :: u8)" using a by (simp add: word_less_nat_alt)
      ultimately show False by (simp add: unsigned_ucast_eq take_bit_nat_eq_self)
    qed
    ultimately show ?thesis using 1(2) last_byte [OF w] by (simp add: Let_def)
  qed
qed

lemma varint_read_back: "decodeTeslaFC100Varint (append_varint v @ rest) = Inr (v, length (append_varint v))"
  using decode_appended [of 0 v 0 rest] unat_u64_bound [of v] by (simp add: decodeTeslaFC100Varint_def)

lemma field_read_back:
  assumes "length body < 2 ^ 63"
  shows "decodeExactLengthDelimitedField (delimited_field field body) field = Inr body"
proof -
  have "unat (of_nat (length body) :: u64) = length body" using assms by (intro unat_of_nat_u64) simp
  then have "uint (of_nat (length body) :: u64) = int (length body)" by (metis uint_nat)
  then show ?thesis
    by (simp add: decodeExactLengthDelimitedField_def delimited_field_def varint_read_back Let_def)
qed

lemma field_other:
  assumes "push_bit 3 field OR 2 \<noteq> (push_bit 3 other OR 2 :: u64)"
  shows "decodeExactLengthDelimitedField (delimited_field field body) other = Inl NotOneDelimitedField"
  using assms by (simp add: decodeExactLengthDelimitedField_def delimited_field_def varint_read_back)

lemma delimited_length: "length body \<le> length (delimited_field field body)"
  by (simp add: delimited_field_def)

lemma enveloped:
  assumes "253 \<le> ppMaxPDUSize pp" and "length m \<le> 251"
  shows "DecodeTeslaHSCEnvelope pp teslaHSCFunction100 (of_nat (length m) # m) = Inr \<lparr>tmFunction = teslaHSCFunction100, tmPayload = m\<rparr>"
    and "DecodeTeslaHSCResponse pp teslaHSCFunction100 (of_nat (length m) # m) = Inr \<lparr>tmFunction = teslaHSCFunction100, tmPayload = m\<rparr>"
proof -
  have "unat (of_nat (length m) :: u8) = length m" using assms(2) by (simp add: unat_of_nat take_bit_nat_eq_self)
  then have "uint (of_nat (length m) :: u8) = int (length m)" by (metis uint_nat)
  then show "DecodeTeslaHSCEnvelope pp teslaHSCFunction100 (of_nat (length m) # m)
      = Inr \<lparr>tmFunction = teslaHSCFunction100, tmPayload = m\<rparr>"
    using assms by (simp add: DecodeTeslaHSCEnvelope_def decodeTeslaHSCExactEnvelope_def maxTeslaHSCPayload_def)
  then show "DecodeTeslaHSCResponse pp teslaHSCFunction100 (of_nat (length m) # m)
      = Inr \<lparr>tmFunction = teslaHSCFunction100, tmPayload = m\<rparr>"
    using assms by (simp add: DecodeTeslaHSCResponse_def isTeslaHSCFunction_def maxTeslaHSCPayload_def)
qed

definition operation_message :: "u64 \<Rightarrow> u64 \<Rightarrow> u8 list \<Rightarrow> u8 list" where
  "operation_message family tag body = delimited_field family (delimited_field tag body)"

lemma message_read_back:
  assumes "length (operation_message family tag body) < 2 ^ 63"
  shows "decodeExactLengthDelimitedField (operation_message family tag body) family = Inr (delimited_field tag body)"
    and "decodeExactLengthDelimitedField (delimited_field tag body) tag = Inr body"
proof -
  have "length body \<le> length (delimited_field tag body)" "length (delimited_field tag body) < 2 ^ 63"
    using assms delimited_length [of body tag] delimited_length [of "delimited_field tag body" family]
    unfolding operation_message_def by linarith+
  then show "decodeExactLengthDelimitedField (operation_message family tag body) family = Inr (delimited_field tag body)"
    and "decodeExactLengthDelimitedField (delimited_field tag body) tag = Inr body"
    unfolding operation_message_def by (simp_all add: field_read_back)
qed

lemma operation_tags_apart:
  assumes "map_of teslaFC100OperationSpecs operation = Some spec"
  shows "push_bit 3 (opRequestTag spec) OR 2 \<noteq> push_bit 3 (opResponseTag spec) OR (2 :: u64)"
    and "push_bit 3 (opFamily spec) OR 2 \<noteq> push_bit 3 4 OR (2 :: u64) \<or> opFamily spec = 4"
    and "push_bit 3 (opResponseTag spec) OR 2 \<noteq> push_bit 3 1 OR (2 :: u64)"
proof -
  have "\<forall>e \<in> set teslaFC100OperationSpecs.
      push_bit 3 (opRequestTag (snd e)) OR 2 \<noteq> push_bit 3 (opResponseTag (snd e)) OR (2 :: u64)
      \<and> (push_bit 3 (opFamily (snd e)) OR 2 \<noteq> push_bit 3 4 OR (2 :: u64) \<or> opFamily (snd e) = 4)
      \<and> push_bit 3 (opResponseTag (snd e)) OR 2 \<noteq> push_bit 3 1 OR (2 :: u64)"
    by (simp add: teslaFC100OperationSpecs_def)
  moreover have "(operation, spec) \<in> set teslaFC100OperationSpecs" using assms by (rule map_of_SomeD)
  ultimately show "push_bit 3 (opRequestTag spec) OR 2 \<noteq> push_bit 3 (opResponseTag spec) OR (2 :: u64)"
    and "push_bit 3 (opFamily spec) OR 2 \<noteq> push_bit 3 4 OR (2 :: u64) \<or> opFamily spec = 4"
    and "push_bit 3 (opResponseTag spec) OR 2 \<noteq> push_bit 3 1 OR (2 :: u64)"
    by fastforce+
qed

lemma no_application_error:
  assumes "map_of teslaFC100OperationSpecs operation = Some spec"
    and "length (operation_message (opFamily spec) (opResponseTag spec) body) < 2 ^ 63"
  shows "decodeTeslaFC100ApplicationError (operation_message (opFamily spec) (opResponseTag spec) body) = None"
proof (cases "opFamily spec = 4")
  case True
  have "decodeExactLengthDelimitedField (operation_message 4 (opResponseTag spec) body) 4
      = Inr (delimited_field (opResponseTag spec) body)"
    using message_read_back(1) [OF assms(2)] True by simp
  then show ?thesis
    using field_other [OF operation_tags_apart(3) [OF assms(1)]]
    by (simp add: decodeTeslaFC100ApplicationError_def True)
next
  case False
  then have "push_bit 3 (opFamily spec) OR 2 \<noteq> push_bit 3 4 OR (2 :: u64)" using operation_tags_apart(2) [OF assms(1)] by blast
  then show ?thesis by (simp add: decodeTeslaFC100ApplicationError_def operation_message_def field_other)
qed

lemma built_request:
  assumes "BuildTeslaFC100OperationRequest pp version operation body = Inr request"
    and "map_of teslaFC100OperationSpecs operation = Some spec"
    and "m = operation_message (opFamily spec) (opRequestTag spec) body"
  shows "version = TeslaHSCFC100OperationCompatibilityV1" and "length m \<le> 251"
    and "request = \<lparr>tmFunction = teslaHSCFunction100, tmPayload = of_nat (length m) # m\<rparr>"
  using assms
  by (auto simp: BuildTeslaFC100OperationRequest_def Let_def operation_message_def delimited_field_def
      NewPrivateFunctionRequest_def split: if_splits)

lemma answered_operation:
  assumes "253 \<le> ppMaxPDUSize pp" and "map_of teslaFC100OperationSpecs operation = Some spec"
    and "request = operation_message (opFamily spec) (opRequestTag spec) body" and "length request \<le> 251"
    and "m = operation_message (opFamily spec) (opResponseTag spec) answer" and "length m \<le> 251"
  shows "operation_results pp spec request False (replicate k (of_nat (length request) # request) @ [of_nat (length m) # m])
     = Inr (replicate k OperationIntermediate @ [OperationTerminal answer])"
proof (induction k)
  case 0
  have small: "length m < 2 ^ 63" "length request < 2 ^ 63" using assms(4,6) by simp_all
  note answer = message_read_back [OF small(1) [unfolded assms(5)], folded assms(5)]
  note asked = message_read_back [OF small(2) [unfolded assms(3)], folded assms(3)]
  have "m \<noteq> request"
  proof
    assume "m = request"
    then have "delimited_field (opResponseTag spec) answer = delimited_field (opRequestTag spec) body"
      using answer(1) asked(1) by simp
    then show False using asked(2) field_other [OF operation_tags_apart(1) [OF assms(2), symmetric], of answer] by simp
  qed
  moreover have "decodeTeslaFC100ApplicationError m = None"
    using no_application_error [OF assms(2)] small(1) unfolding assms(5) by blast
  ultimately show ?case
    using answer by (simp add: enveloped(2) [OF assms(1,6)] Let_def)
next
  case (Suc k)
  then show ?case by (simp add: enveloped(2) [OF assms(1,4)] Let_def)
qed

text \<open>C33: a request names its operation and its answer is told from everything else. The body of a built request is read
  back from the request; and when a device answers with any number of echoes below eight and then the
  response of the operation, the sequence is read as that many intermediates and exactly that body, never as
  an application error and never as an echo.\<close>

theorem tesla_operation_round_trips:
  assumes "253 \<le> ppMaxPDUSize pp" and "BuildTeslaFC100OperationRequest pp version operation body = Inr request"
    and "map_of teslaFC100OperationSpecs operation = Some spec"
    and "m = operation_message (opFamily spec) (opResponseTag spec) answer" and "length m \<le> 251" and "k < 8"
  shows "teslaGen3ExactFC100RequestBody pp operation (tmPayload request) = Inr body
    \<and> DecodeTeslaFC100OperationSequence pp version operation (tmPayload request)
        (replicate k (tmPayload request) @ [of_nat (length m) # m])
      = Inr (replicate k OperationIntermediate @ [OperationTerminal answer])"
proof -
  obtain r where r: "r = operation_message (opFamily spec) (opRequestTag spec) body" by blast
  note built = built_request [OF assms(2,3) r]
  have "length r < 2 ^ 63" using built(2) by simp
  note asked = message_read_back [OF this [unfolded r], folded r]
  note results = answered_operation [OF assms(1,3) r built(2) assms(4,5), of k]
  show ?thesis
    using assms(3,6) asked results built(1)
    by (simp add: teslaGen3ExactFC100RequestBody_def DecodeTeslaFC100OperationSequence_def built(3)
        enveloped(1) [OF assms(1) built(2)])
qed

definition example_private_platform :: private_platform where
  "example_private_platform = \<lparr>ppMaxPDUSize = 253, ppAccepts = (\<lambda>_ _. True)\<rparr>"

theorem tesla_operation_round_trips_witness:
  "\<exists>request. BuildTeslaFC100OperationRequest example_private_platform TeslaHSCFC100OperationCompatibilityV1
       TeslaFC100OperationWCGetVitals [] = Inr request
     \<and> DecodeTeslaFC100OperationSequence example_private_platform TeslaHSCFC100OperationCompatibilityV1
         TeslaFC100OperationWCGetVitals (tmPayload request) [tmPayload request, [6, 50, 4, 18, 2, 7, 9]]
       = Inr [OperationIntermediate, OperationTerminal [7, 9]]"
proof -
  have spec: "map_of teslaFC100OperationSpecs TeslaFC100OperationWCGetVitals
      = Some \<lparr>opFamily = 6, opRequestTag = 1, opResponseTag = 2\<rparr>"
    by (simp add: teslaFC100OperationSpecs_def tesla_operations)
  have v: "append_varint 50 = [50]" "append_varint 10 = [10]" "append_varint 18 = [18]" "append_varint 0 = [0]"
    "append_varint 2 = [2]" "append_varint 4 = [4]"
    by (simp_all add: append_varint.simps)
  have "\<exists>request. BuildTeslaFC100OperationRequest example_private_platform TeslaHSCFC100OperationCompatibilityV1
       TeslaFC100OperationWCGetVitals [] = Inr request"
    using spec by (simp add: BuildTeslaFC100OperationRequest_def NewPrivateFunctionRequest_def
        example_private_platform_def v)
  moreover have m: "operation_message 6 2 [7, 9] = [50, 4, 18, 2, 7, 9]"
    by (simp add: operation_message_def delimited_field_def v)
  ultimately show ?thesis
    using tesla_operation_round_trips [OF _ _ spec, of example_private_platform _ _ _ "[50, 4, 18, 2, 7, 9]" "[7, 9]" 1]
    by (auto simp: example_private_platform_def)
qed

section \<open>The frames of the first wall connectors\<close>

definition maxTeslaLegacyWallConnectorMessage :: nat where
  "maxTeslaLegacyWallConnectorMessage = 256"

record legacy_command =
  lcPrefix :: u8
  lcOpcode :: u8

record legacy_frame =
  lfCommand :: legacy_command
  lfPayload :: "u8 list"

definition teslaLegacyWallConnectorChecksum :: "u8 list \<Rightarrow> u8" where
  "teslaLegacyWallConnectorChecksum message = foldl (+) 0 (drop 1 message)"

definition teslaLegacyCommandPrefix :: "u8 \<Rightarrow> bool" where
  "teslaLegacyCommandPrefix p \<longleftrightarrow> p = 0xfb \<or> p = 0xfc \<or> p = 0xfd"

fun unescape :: "u8 list \<Rightarrow> tesla_error + u8 list" where
  "unescape [] = Inr []"
| "unescape (v # vs) =
     (if v = 0xc0 then Inl UnescapedDelimiter
      else if v = 0xdb then
        (case vs of
           [] \<Rightarrow> Inl EscapeIncomplete
         | w # ws \<Rightarrow>
             (if w = 0xdc then (case unescape ws of Inl e \<Rightarrow> Inl e | Inr m \<Rightarrow> Inr (0xc0 # m))
              else if w = 0xdd then (case unescape ws of Inl e \<Rightarrow> Inl e | Inr m \<Rightarrow> Inr (0xdb # m))
              else Inl EscapeInvalid))
      else (case unescape vs of Inl e \<Rightarrow> Inl e | Inr m \<Rightarrow> Inr (v # m)))"

definition DecodeTeslaLegacyWallConnectorFrame :: "u8 list \<Rightarrow> tesla_error + legacy_frame" where
  "DecodeTeslaLegacyWallConnectorFrame wire =
     (if length wire < 5 \<or> length wire > maxTeslaLegacyWallConnectorMessage * 2 + 2 then Inl FrameSizeInvalid
      else if hd wire \<noteq> 0xc0 \<or> last wire \<noteq> 0xc0 then Inl DelimitersInvalid
      else (case unescape (butlast (tl wire)) of
          Inl e \<Rightarrow> Inl e
        | Inr message \<Rightarrow>
            (if length message < 3 \<or> length message > maxTeslaLegacyWallConnectorMessage then Inl MessageSizeInvalid
             else if last message \<noteq> teslaLegacyWallConnectorChecksum (butlast message) then Inl ChecksumInvalid
             else if \<not> teslaLegacyCommandPrefix (message ! 0) then Inl PrefixInvalid
             else Inr \<lparr>lfCommand = \<lparr>lcPrefix = message ! 0, lcOpcode = message ! 1\<rparr>,
                lfPayload = butlast (drop 2 message)\<rparr>)))"

definition escape_byte :: "u8 \<Rightarrow> u8 list" where
  "escape_byte v = (if v = 0xc0 then [0xdb, 0xdc] else if v = 0xdb then [0xdb, 0xdd] else [v])"

definition EncodeTeslaLegacyWallConnectorFrame :: "legacy_command \<Rightarrow> u8 list \<Rightarrow> tesla_error + u8 list" where
  "EncodeTeslaLegacyWallConnectorFrame c payload =
     (if \<not> teslaLegacyCommandPrefix (lcPrefix c) then Inl PrefixInvalid
      else if length payload + 3 > maxTeslaLegacyWallConnectorMessage then Inl MessageExceedsBound
      else (let start = lcPrefix c # lcOpcode c # payload;
                message = start @ [teslaLegacyWallConnectorChecksum start]
            in Inr ([0xc0] @ concat (map escape_byte message) @ [0xc0])))"

lemma unescape_escaped: "unescape (concat (map escape_byte m)) = Inr m"
  by (induction m) (auto simp: escape_byte_def)

lemma escape_unescaped: "unescape w = Inr m \<Longrightarrow> w = concat (map escape_byte m)"
proof (induction w arbitrary: m rule: unescape.induct)
  case 1
  then show ?case by simp
next
  case (2 v vs)
  have "v \<noteq> 0xc0" using "2.prems" by auto
  show ?case
  proof (cases "v = 0xdb")
    case False
    then obtain m' where "unescape vs = Inr m'" "m = v # m'"
      using "2.prems" \<open>v \<noteq> 0xc0\<close> by (auto split: sum.splits)
    then show ?thesis using "2.IH"(3) \<open>v \<noteq> 0xc0\<close> False by (simp add: escape_byte_def)
  next
    case esc: True
    then obtain w ws where vs: "vs = w # ws" using "2.prems" by (cases vs) auto
    show ?thesis
    proof (cases "w = 0xdc")
      case True
      then obtain m' where "unescape ws = Inr m'" "m = 0xc0 # m'"
        using "2.prems" esc vs by (auto split: sum.splits)
      then show ?thesis using "2.IH"(1) esc vs True by (simp add: escape_byte_def)
    next
      case False
      then have w: "w = 0xdd" using "2.prems" esc vs by (simp split: if_splits)
      then obtain m' where "unescape ws = Inr m'" "m = 0xdb # m'"
        using "2.prems" esc vs by (auto split: sum.splits)
      then show ?thesis using "2.IH"(2) esc vs w by (simp add: escape_byte_def)
    qed
  qed
qed

lemma escaped_length: "length m \<le> length (concat (map escape_byte m)) \<and> length (concat (map escape_byte m)) \<le> 2 * length m"
  by (induction m) (auto simp: escape_byte_def)

lemma message_parts:
  assumes "3 \<le> length message"
  shows "message = message ! 0 # message ! 1 # butlast (drop 2 message) @ [last message]"
    and "butlast message = message ! 0 # message ! 1 # butlast (drop 2 message)"
proof -
  obtain a b m where m: "message = a # b # m" "m \<noteq> []"
    using assms by (cases message; cases "tl message") (auto simp: Suc_le_eq)
  then show "message = message ! 0 # message ! 1 # butlast (drop 2 message) @ [last message]"
    and "butlast message = message ! 0 # message ! 1 # butlast (drop 2 message)" by simp_all
qed

lemma wire_parts:
  assumes "2 \<le> length wire" and "hd wire = x" and "last wire = x"
  shows "wire = [x] @ butlast (tl wire) @ [x]"
  using assms by (cases wire) (auto simp: Suc_le_eq)

text \<open>C34: frames and messages of the first wall connectors correspond one to one. A wire frame is accepted as a
  command with a payload exactly if encoding that command and payload writes that frame, so nothing is lost in either
  direction and no message has a second spelling.\<close>

theorem legacy_frames_are_canonical:
  "DecodeTeslaLegacyWallConnectorFrame wire = Inr f
     \<longleftrightarrow> EncodeTeslaLegacyWallConnectorFrame (lfCommand f) (lfPayload f) = Inr wire"
proof
  assume d: "DecodeTeslaLegacyWallConnectorFrame wire = Inr f"
  then obtain message where long: "5 \<le> length wire" and ends: "hd wire = 0xc0" "last wire = 0xc0"
    and u: "unescape (butlast (tl wire)) = Inr message"
    and size: "3 \<le> length message" "length message \<le> maxTeslaLegacyWallConnectorMessage"
    and sum: "last message = teslaLegacyWallConnectorChecksum (butlast message)"
    and prefix: "teslaLegacyCommandPrefix (message ! 0)"
    and f: "f = \<lparr>lfCommand = \<lparr>lcPrefix = message ! 0, lcOpcode = message ! 1\<rparr>, lfPayload = butlast (drop 2 message)\<rparr>"
    by (auto simp: DecodeTeslaLegacyWallConnectorFrame_def not_less split: if_splits sum.splits)
  have start: "lcPrefix (lfCommand f) # lcOpcode (lfCommand f) # lfPayload f = butlast message"
    using message_parts(2) [OF size(1)] by (simp add: f)
  have "butlast message @ [teslaLegacyWallConnectorChecksum (butlast message)] = message"
    using sum size(1) by (metis append_butlast_last_id length_greater_0_conv less_le_trans zero_less_numeral)
  moreover have "wire = [0xc0] @ concat (map escape_byte message) @ [0xc0]"
    using wire_parts [OF _ ends] long escape_unescaped [OF u] by simp
  moreover have "length (lfPayload f) + 3 \<le> maxTeslaLegacyWallConnectorMessage" using size by (simp add: f)
  moreover have "teslaLegacyCommandPrefix (lcPrefix (lfCommand f))" using prefix by (simp add: f)
  ultimately have "wire = [0xc0] @ concat (map escape_byte (butlast message @
      [teslaLegacyWallConnectorChecksum (butlast message)])) @ [0xc0]"
    and "length (lfPayload f) + 3 \<le> maxTeslaLegacyWallConnectorMessage" and "teslaLegacyCommandPrefix (lcPrefix (lfCommand f))"
    by simp_all
  then show "EncodeTeslaLegacyWallConnectorFrame (lfCommand f) (lfPayload f) = Inr wire"
    unfolding EncodeTeslaLegacyWallConnectorFrame_def Let_def start by simp
next
  assume e: "EncodeTeslaLegacyWallConnectorFrame (lfCommand f) (lfPayload f) = Inr wire"
  let ?start = "lcPrefix (lfCommand f) # lcOpcode (lfCommand f) # lfPayload f"
  let ?m = "?start @ [teslaLegacyWallConnectorChecksum ?start]"
  have wire: "wire = [0xc0] @ concat (map escape_byte ?m) @ [0xc0]"
    and prefix: "teslaLegacyCommandPrefix (lcPrefix (lfCommand f))"
    and size: "length ?m \<le> maxTeslaLegacyWallConnectorMessage"
    using e by (auto simp: EncodeTeslaLegacyWallConnectorFrame_def Let_def split: if_splits)
  have "butlast (tl wire) = concat (map escape_byte ?m)" "hd wire = 0xc0" "last wire = 0xc0"
    by (simp_all add: wire butlast_append)
  moreover have "5 \<le> length wire" "length wire \<le> maxTeslaLegacyWallConnectorMessage * 2 + 2"
    using escaped_length [of ?m] size unfolding wire by simp_all
  ultimately show "DecodeTeslaLegacyWallConnectorFrame wire = Inr f"
    using prefix size unescape_escaped [of ?m]
    by (simp add: DecodeTeslaLegacyWallConnectorFrame_def butlast_append del: concat.simps map_append list.map)
qed

end
