(* ===== verification/Spec2Isabelle.thy ===== *)
theory Spec2Isabelle
  imports Ledger_Runs SunSpec_Discovery SunSpec_Structural Detection_Run Growatt_Provider
    Observation_Builder Tesla_Wire
begin

text \<open>
  A verification development for \<^verbatim>\<open>helianthus-modbusreg\<close>, the register-profile layer of a
  Modbus stack: it declares what registers mean (codecs, profiles, catalogues), discovers what a
  device is (SunSpec chains, identity probes), and keeps a ledger of the observation attempts
  that produced published samples. It performs no I/O: a caller reads registers and hands the
  words in. This theory imports the whole development; the properties stand in the theories of
  the components they are about.

  \<^bold>\<open>Parts and how they interact.\<close>

  \<^item> \<open>Prelude\<close>: Go's integers as words, maps as association lists (with the \<open>key_store\<close>
    contract and its interpretation), decimals, UTF-8, string order; \<open>event_machine\<close>, the
    contract of a component driven by operations.
  \<^item> \<open>Contract\<close> (\<^verbatim>\<open>limits.go\<close>, \<^verbatim>\<open>version.go\<close>): versions, identities, bounded strings, ledger
    limits and the byte budget that a reflective walk charges. Every other part validates its
    inputs with it.
  \<^item> \<open>Ledger_Restart\<close>, \<open>Ledger_State\<close>, \<open>Ledger_Attempt\<close>, \<open>Ledger_Runs\<close>
    (\<^verbatim>\<open>runtime_ledger.go\<close>): the durable restart state with its audit tombstones, the ledger under
    its lock, the observation attempts as threads whose critical sections interleave freely, and
    example schedules. \<open>world\<close> is the shared state; a \<open>pc\<close> names the point between two
    critical sections at which a goroutine can be preempted; an \<open>action\<close> is one call or one
    critical section, with the answer of the environment (the durable store, the producer, a
    context) as its argument. A run is any list of actions.
  \<^item> \<open>Logical_View\<close> (\<^verbatim>\<open>observation.go\<close>): the record of a read and its admission; the ledger's
    claims and the chain walker consume admitted views.
  \<^item> \<open>Rfc3339\<close>: Go's instants with the calendar, and the text that \<^verbatim>\<open>time.RFC3339Nano\<close> writes
    and reads, which the canonical times of \<^verbatim>\<open>observation.go\<close> pass through.
  \<^item> \<open>Observation_Groups\<close>, \<open>Observation_Coherence\<close>, \<open>Observation_Builder\<close> (\<^verbatim>\<open>observation.go\<close>, the builder
    of \<^verbatim>\<open>runtime_ledger.go\<close>): what the views of one sample have to agree on, the times, ordinals and
    markers of a sample against the policy of its profile, and the assembly of an observation from
    the acquisitions of an attempt.
  \<^item> \<open>SunSpec_Chain\<close> (\<^verbatim>\<open>sunspec_chain.go\<close>, \<^verbatim>\<open>sunspec_chain_plan.go\<close>): the walker that asks
    for one read at a time and replays the answer. \<open>chain\<close> is its state; \<open>AdmitReplay\<close> is
    the only step.
  \<^item> \<open>SunSpec_Value\<close>, \<open>SunSpec_Models\<close>, \<open>SunSpec_Models_V2\<close>, \<open>SunSpec_Catalog\<close>,
    \<open>SunSpec_Registry\<close>, \<open>SunSpec_Decoder\<close> (\<^verbatim>\<open>sunspec_value.go\<close>, \<^verbatim>\<open>sunspec_models_*.go\<close>,
    \<^verbatim>\<open>sunspec_model_catalog.go\<close>, \<^verbatim>\<open>sunspec_decoder.go\<close>): point values, the point tables, the
    models that are built from a length, the registry and the decoder. \<open>SunSpec_Discovery\<close>
    composes walker and decoder.
  \<^item> \<open>SunSpec_Nested\<close>, \<open>SunSpec_Structural\<close> (\<^verbatim>\<open>sunspec_nested_layout*.go\<close>,
    \<^verbatim>\<open>sunspec_structural_projection.go\<close>): templates of nested groups, the builder that walks a
    template over a payload, source ranges over physical spans, and the trip-curve model.
  \<^item> \<open>Codec\<close> (\<^verbatim>\<open>codec.go\<close>): codec declarations and their validation.
  \<^item> \<open>Profile_Dependency\<close>, \<open>Profile_Descriptor\<close>, \<open>Profile_Catalog\<close> (\<^verbatim>\<open>profile.go\<close>): where
    the registers of a profile are, what a profile declares, and the catalogue that checks every
    vendor overlay against its family and every supersession. A catalogue is built once and read
    by the detector.
  \<^item> \<open>Detection_Plan\<close> (\<^verbatim>\<open>read_plan.go\<close>), \<open>Detection\<close> (\<^verbatim>\<open>profile_detection.go\<close>,
    \<^verbatim>\<open>decision_serialization.go\<close>), \<open>Detection_Decision\<close>, \<open>Detection_Run\<close>: the probes, the
    detector, one detection as a walk over the answers of an \<open>environment\<close>, and the decision
    with its transfer record. The last two theories hold what is proved of them.
  \<^item> \<open>Growatt_BMS\<close>, \<open>Growatt_Retention\<close>, \<open>Growatt_Provider\<close> (\<^verbatim>\<open>growatt_bms_*.go\<close>,
    \<^verbatim>\<open>growatt_diagnostic_commit.go\<close>, \<^verbatim>\<open>growatt_aggregate_*.go\<close>): the decoders of a battery, the
    owner of its last success, and the adapter that publishes it. The retention is a list of atomic
    operations; a refresh of the adapter leaves the mutex while it reads, so it is a \<open>flight\<close> of
    critical sections between which other calls run.
  \<^item> \<open>Tesla_Wire\<close> (\<^verbatim>\<open>tesla_hsc*.go\<close>, \<^verbatim>\<open>tesla_fc100_operation.go\<close>,
    \<^verbatim>\<open>tesla_legacy_wall_connector.go\<close>): the byte forms of the Tesla requests, responses and frames.

  \<^bold>\<open>What the lemmas show.\<close> The ledger theories show by invariants over every interleaving that
  the durable history only moves forward, that the capacity counters agree with the live
  attempts, that phases follow their lifecycle and that one thread at most commits a terminal
  outcome. The chain theories show that a completed walk is one contiguous chain, that every
  read it asks for is legal, and that what it returns always decodes. The registry theories show
  that the definitions tile their models, so that the decoder never indexes out of range. The
  nested layout is shown equal to a reference expansion, the structural candidate to its
  arithmetic. The profile theories show that an accepted profile is closed and acyclic, that an
  accepted catalogue is coherent, that the deltas of an overlay act independently of their order
  and that lookup is exact; the order of a sorted catalogue rests on the \<open>keyed_order\<close> contract,
  which \<^verbatim>\<open>sort.Slice\<close> and \<^verbatim>\<open>sort.Search\<close> need. The detection theories show that every detection
  ends in a decision that passes its own validation and fits the bound computed when the detector
  was built, that it asks for a prefix of the plan, and that a device is identified by its texts
  alone, whatever the order and the scores of the candidates. The observation
  theories show that the four maps behind the wire responses decide a pairwise agreement of the
  views, that the skew test is exact and the times of an accepted sample obey its policy, and that
  an accepted observation holds the declared registers of one image per wire response. The Growatt theories show, for every
  interleaving, that a published value is of the device of its attempt, that a diagnostic belongs to the
  success it is published with, that retirement is final and that every refresh ends. The Tesla theory
  shows that requests, answers and frames are read back as what was written. Four theorems exhibit defects or a
  divergence from the documentation; the manifest lists them as findings.

  \<^bold>\<open>Bounds.\<close> Loops are structural recursion over the data they walk, except where a theory says
  otherwise at the definition. The search for a dependency cycle, which recurs through a graph
  that may be cyclic, is a \<open>partial_function\<close> and is proved to return. Integers that are compared or added near their bounds are words
  of their width; Go's \<^verbatim>\<open>int\<close> and \<^verbatim>\<open>time.Duration\<close>, where the code guards them, are \<open>int\<close>.

  \<^bold>\<open>Parameters.\<close> The modbus library's read limit is an argument wherever the code uses it; the
  profile and detection theories take it with the table names, \<^verbatim>\<open>url.Parse\<close> and
  \<^verbatim>\<open>sha256.Sum256\<close> in the record \<open>platform\<close>, of which no theorem assumes more than it states. The
  durable store, the committer, producers, contexts and digests of the ledger are answers in the
  actions of a run, so the theorems hold for every behaviour of theirs. An acquisition of the
  library is the record of what the builder reads from it, and \<open>walk\<close> is the size that the
  byte budget sees of its transport value.

  \<^bold>\<open>Not modelled.\<close> JSON decoding and the transfer records of \<^verbatim>\<open>serialization.go\<close>, the vendor
  modules other than the Growatt battery and the Tesla wire forms (Huawei, the Tesla profiles and
  acquisitions, OutBack, Fronius,
  Growatt's second protocol), the fixture
  harness and the catalogue generator under \<^verbatim>\<open>tools/\<close>. The manifest lists each with its reason.
\<close>

end
